(* ===== verification/Prelude.thy ===== *)
theory Prelude
  imports Main "HOL-Library.Char_ord" "HOL-Library.List_Lexorder"
begin

text \<open>
  Shared vocabulary of the OneGate development: the parts of the Go language and of its standard
  library that the modelled code uses (64-bit wrap-around, instants and durations of package
  \<open>time\<close>, the byte-level part of package \<open>strings\<close>, sorted key lists), the generic list and
  option lemmas the components share, and two interface locales: one for a component whose
  operations keep an invariant, one for a component that admits documents under a version that
  never goes back.
\<close>

named_theorems go_simps "evaluation of the Go library operations"

subsection \<open>Machine integers\<close>

text \<open>
  Go's \<open>int\<close> and \<open>int64\<close> are 64-bit two's complement. A value is an \<open>int\<close>; \<open>wrap64\<close> is
  applied where the source multiplies or adds at that width and the result could leave it.
\<close>

definition wrap64 :: "int \<Rightarrow> int" where
  "wrap64 x = (x + 2 ^ 63) mod 2 ^ 64 - 2 ^ 63"

definition in64 :: "int \<Rightarrow> bool" where
  "in64 x \<longleftrightarrow> - (2 ^ 63) \<le> x \<and> x < 2 ^ 63"

lemma wrap64_id [simp]: "in64 x \<Longrightarrow> wrap64 x = x"
  by (simp add: wrap64_def in64_def)

lemma in64_wrap64 [simp]: "in64 (wrap64 x)"
proof -
  have "0 \<le> (x + 2 ^ 63) mod 2 ^ 64" "(x + 2 ^ 63) mod 2 ^ 64 < 2 ^ 64" by simp_all
  then show ?thesis by (simp add: wrap64_def in64_def)
qed

lemma wrap64_small: "\<bar>x\<bar> < 2 ^ 63 \<Longrightarrow> wrap64 x = x"
  by (rule wrap64_id) (auto simp: in64_def)

subsection \<open>Time\<close>

text \<open>
  \<open>time.Time\<close> is an instant in nanoseconds; the zero value, which \<open>IsZero\<close> recognises, is 0.
  \<open>time.Duration\<close> is an \<open>int64\<close> count of nanoseconds. \<open>Sub\<close> saturates at the ends of that
  range, as Go's does; \<open>Add\<close> is exact on the instants in use.
\<close>

type_synonym go_time = int
type_synonym duration = int

definition second :: duration where "second = 1000000000"
definition minute :: duration where "minute = 60 * second"
definition hour :: duration where "hour = 60 * minute"
definition millisecond :: duration where "millisecond = 1000000"

lemmas duration_defs [go_simps] = second_def minute_def hour_def millisecond_def

definition time_sub :: "go_time \<Rightarrow> go_time \<Rightarrow> duration" where
  "time_sub a b = max (- (2 ^ 63)) (min (2 ^ 63 - 1) (a - b))"

lemma time_sub_gt_iff:
  "- (2 ^ 63) \<le> d \<Longrightarrow> d < 2 ^ 63 - 1 \<Longrightarrow> time_sub a b > d \<longleftrightarrow> a - b > d"
  by (auto simp: time_sub_def)

lemma time_sub_less_iff:
  "- (2 ^ 63) < d \<Longrightarrow> d \<le> 2 ^ 63 - 1 \<Longrightarrow> time_sub a b < d \<longleftrightarrow> a - b < d"
  by (auto simp: time_sub_def)

lemma time_sub_le_diff: "- (2 ^ 63) \<le> a - b \<Longrightarrow> time_sub a b \<le> a - b"
  by (auto simp: time_sub_def)

text \<open>Go's integer division truncates towards zero.\<close>

definition go_div :: "int \<Rightarrow> int \<Rightarrow> int" where
  "go_div a b = sgn a * sgn b * (\<bar>a\<bar> div \<bar>b\<bar>)"

definition go_mod :: "int \<Rightarrow> int \<Rightarrow> int" where
  "go_mod a b = a - b * go_div a b"

lemma go_div_nonneg [simp]: "0 \<le> a \<Longrightarrow> 0 < b \<Longrightarrow> go_div a b = a div b"
  by (cases "a = 0") (simp_all add: go_div_def)

lemma go_mod_nonneg [simp]: "0 \<le> a \<Longrightarrow> 0 < b \<Longrightarrow> go_mod a b = a mod b"
  by (simp add: go_mod_def minus_mult_div_eq_mod)

subsection \<open>Strings\<close>

text \<open>
  A Go string is its bytes. The case mappings are those of the ASCII letters and \<open>TrimSpace\<close>
  removes the ASCII white space; bytes above 127 are kept as they are.
\<close>

definition is_upper :: "char \<Rightarrow> bool" where
  "is_upper c \<longleftrightarrow> CHR ''A'' \<le> c \<and> c \<le> CHR ''Z''"

definition is_lower :: "char \<Rightarrow> bool" where
  "is_lower c \<longleftrightarrow> CHR ''a'' \<le> c \<and> c \<le> CHR ''z''"

definition is_digit :: "char \<Rightarrow> bool" where
  "is_digit c \<longleftrightarrow> CHR ''0'' \<le> c \<and> c \<le> CHR ''9''"

definition lower_char :: "char \<Rightarrow> char" where
  "lower_char c = (if is_upper c then char_of (of_char c + 32 :: nat) else c)"

definition upper_char :: "char \<Rightarrow> char" where
  "upper_char c = (if is_lower c then char_of (of_char c - 32 :: nat) else c)"

definition ToLower :: "string \<Rightarrow> string" where
  "ToLower s = map lower_char s"

definition ToUpper :: "string \<Rightarrow> string" where
  "ToUpper s = map upper_char s"

definition is_space :: "char \<Rightarrow> bool" where
  "is_space c \<longleftrightarrow> (of_char c :: nat) \<in> {9, 10, 11, 12, 13, 32}"

definition TrimSpace :: "string \<Rightarrow> string" where
  "TrimSpace s = rev (dropWhile is_space (rev (dropWhile is_space s)))"

definition EqualFold :: "string \<Rightarrow> string \<Rightarrow> bool" where
  "EqualFold a b \<longleftrightarrow> ToLower a = ToLower b"

lemma EqualFold_refl [simp]: "EqualFold a a"
  by (simp add: EqualFold_def)

lemma TrimSpace_Nil [simp]: "TrimSpace [] = []"
  by (simp add: TrimSpace_def)

lemma TrimSpace_set: "set (TrimSpace s) \<subseteq> set s"
proof
  fix c assume "c \<in> set (TrimSpace s)"
  then have "c \<in> set (dropWhile is_space (rev (dropWhile is_space s)))"
    by (simp add: TrimSpace_def)
  then have "c \<in> set (rev (dropWhile is_space s))" by (rule set_dropWhileD)
  then have "c \<in> set (dropWhile is_space s)" by simp
  then show "c \<in> set s" by (rule set_dropWhileD)
qed

lemma length_TrimSpace: "length (TrimSpace s) \<le> length s"
proof -
  have "length (dropWhile is_space (rev (dropWhile is_space s))) \<le> length (rev (dropWhile is_space s))"
    by (rule length_dropWhile_le)
  also have "\<dots> \<le> length s" by (simp add: length_dropWhile_le)
  finally show ?thesis by (simp add: TrimSpace_def)
qed

lemma length_ToUpper [simp]: "length (ToUpper s) = length s"
  by (simp add: ToUpper_def)

lemma ToUpper_Nil [simp]: "ToUpper [] = []" "(ToUpper s = []) = (s = [])"
  by (simp_all add: ToUpper_def)

subsection \<open>Lists\<close>

text \<open>The sorted keys of a Go map or set: \<open>sort.Strings\<close> orders byte-wise.\<close>

definition sorted_keys :: "string list \<Rightarrow> string list" where
  "sorted_keys ks = sort (remdups ks)"

lemma set_sorted_keys [simp]: "set (sorted_keys ks) = set ks"
  by (simp add: sorted_keys_def)

lemma distinct_sorted_keys [simp]: "distinct (sorted_keys ks)"
  by (simp add: sorted_keys_def)

lemma sorted_sorted_keys [simp]: "sorted (sorted_keys ks)"
  by (simp add: sorted_keys_def)

lemma sorted_keys_cong: "set ks = set ks' \<Longrightarrow> sorted_keys ks = sorted_keys ks'"
  by (rule sorted_distinct_set_unique) simp_all

lemma fold_max_ge: "(a::'a::linorder) \<le> fold max xs a"
proof (induction xs arbitrary: a)
  case (Cons x xs)
  have "a \<le> max x a" by simp
  also have "\<dots> \<le> fold max xs (max x a)" by (rule Cons.IH)
  finally show ?case by simp
qed simp

lemma fold_max_mem: "x \<in> set xs \<Longrightarrow> (x::'a::linorder) \<le> fold max xs a"
proof (induction xs arbitrary: a)
  case (Cons y ys)
  show ?case
  proof (cases "x = y")
    case True
    have "y \<le> max y a" by simp
    also have "\<dots> \<le> fold max ys (max y a)" by (rule fold_max_ge)
    finally show ?thesis using True by simp
  next
    case False
    with Cons show ?thesis by simp
  qed
qed simp

lemma map_of_filter_other:
  "k' \<noteq> k \<Longrightarrow> map_of (filter (\<lambda>e. fst e \<noteq> k) xs) k' = map_of xs k'"
  by (induction xs) auto

lemma map_of_filter_same [simp]: "map_of (filter (\<lambda>e. fst e \<noteq> k) xs) k = None"
  by (induction xs) auto

subsection \<open>Joined and printed fields\<close>

text \<open>\<open>strings.Join\<close> with a one-character separator.\<close>

fun Join :: "char \<Rightarrow> string list \<Rightarrow> string" where
  "Join c [] = []"
| "Join c [x] = x"
| "Join c (x # y # xs) = x @ c # Join c (y # xs)"

lemma append_sep_inject:
  assumes "c \<notin> set a" and "c \<notin> set b"
  shows "a @ c # u = b @ c # v \<longleftrightarrow> a = b \<and> u = v"
  using assms
proof (induction a arbitrary: b)
  case Nil
  then show ?case by (cases b) auto
next
  case (Cons x a)
  then show ?case by (cases b) auto
qed

lemma Join_sep_ne:
  assumes "c \<notin> set x" shows "x \<noteq> a @ c # u"
  using assms by auto

lemma Join_inject:
  assumes "Join c xs = Join c ys" and "xs \<noteq> []" and "ys \<noteq> []"
    and "\<forall>x \<in> set xs. c \<notin> set x" and "\<forall>y \<in> set ys. c \<notin> set y"
  shows "xs = ys"
  using assms
proof (induction c xs arbitrary: ys rule: Join.induct)
  case (2 c x)
  then show ?case by (cases ys rule: remdups_adj.cases) auto
next
  case (3 c x y xs)
  from "3.prems" show ?case
  proof (cases ys rule: remdups_adj.cases)
    case (3 a b zs)
    with "3.prems" have "x = a \<and> Join c (y # xs) = Join c (b # zs)"
      by (auto simp: append_sep_inject)
    with "3.IH" [of "b # zs"] "3.prems" 3 show ?thesis by simp
  qed auto
qed simp

lemma Join_set: "set (Join c xs) \<subseteq> insert c (\<Union>x \<in> set xs. set x)"
  by (induction c xs rule: Join.induct) auto

lemma Join_Nil_iff: "(\<forall>x \<in> set xs. x \<noteq> []) \<Longrightarrow> Join c xs = [] \<longleftrightarrow> xs = []"
  by (cases xs rule: remdups_adj.cases) auto

text \<open>\<open>strconv.Itoa\<close> and \<open>strconv.FormatInt(_, 10)\<close>.\<close>

definition digit_char :: "nat \<Rightarrow> char" where
  "digit_char d = char_of (48 + d)"

fun itoa_nat :: "nat \<Rightarrow> string" where
  "itoa_nat n = (if n < 10 then [digit_char n] else itoa_nat (n div 10) @ [digit_char (n mod 10)])"

declare itoa_nat.simps [simp del]

definition Itoa :: "int \<Rightarrow> string" where
  "Itoa i = (if i < 0 then CHR ''-'' # itoa_nat (nat (- i)) else itoa_nat (nat i))"

lemma of_char_digit_char: "d < 10 \<Longrightarrow> of_char (digit_char d) = 48 + d"
  by (simp add: digit_char_def take_bit_eq_mod)

lemma digit_char_inject:
  "a < 10 \<Longrightarrow> b < 10 \<Longrightarrow> digit_char a = digit_char b \<longleftrightarrow> a = b"
  using of_char_digit_char [of a] of_char_digit_char [of b] by (metis add_left_imp_eq)

lemma is_digit_digit_char: "d < 10 \<Longrightarrow> is_digit (digit_char d)"
  by (simp add: is_digit_def less_eq_char_def of_char_digit_char)

lemma itoa_nat_small: "n < 10 \<Longrightarrow> itoa_nat n = [digit_char n]"
  by (simp add: itoa_nat.simps)

lemma itoa_nat_step: "\<not> n < 10 \<Longrightarrow> itoa_nat n = itoa_nat (n div 10) @ [digit_char (n mod 10)]"
  by (subst itoa_nat.simps) simp

lemma itoa_nat_digits: "c \<in> set (itoa_nat n) \<Longrightarrow> is_digit c"
proof (induction n rule: itoa_nat.induct)
  case (1 n)
  then show ?case
    by (cases "n < 10") (auto simp: itoa_nat_small itoa_nat_step is_digit_digit_char)
qed

lemma itoa_nat_ne [simp]: "itoa_nat n \<noteq> []"
  by (cases "n < 10") (simp_all add: itoa_nat_small itoa_nat_step)

lemma itoa_nat_ne_sym [simp]: "[] \<noteq> itoa_nat n"
  using itoa_nat_ne [of n] by (metis)

lemma itoa_nat_inject: "itoa_nat a = itoa_nat b \<longleftrightarrow> a = b"
proof
  show "itoa_nat a = itoa_nat b \<Longrightarrow> a = b"
  proof (induction a arbitrary: b rule: itoa_nat.induct)
    case (1 a)
    show ?case
    proof (cases "a < 10"; cases "b < 10")
      assume "\<not> a < 10" "\<not> b < 10"
      with "1.prems" have *: "itoa_nat (a div 10) = itoa_nat (b div 10)"
        "digit_char (a mod 10) = digit_char (b mod 10)"
        by (simp_all add: itoa_nat_step)
      have "a div 10 = b div 10" using "1.IH" \<open>\<not> a < 10\<close> *(1) by blast
      moreover have "a mod 10 = b mod 10" using *(2) by (simp add: digit_char_inject)
      ultimately show ?thesis by (metis div_mult_mod_eq)
    qed (use "1.prems" in \<open>simp_all add: itoa_nat_small itoa_nat_step digit_char_inject\<close>)
  qed
qed simp

lemma Itoa_inject: "Itoa a = Itoa b \<longleftrightarrow> a = b"
proof -
  have "CHR ''-'' \<notin> set (itoa_nat n)" for n
    using itoa_nat_digits [of "CHR ''-''" n] by (auto simp: is_digit_def)
  then have "itoa_nat n \<noteq> CHR ''-'' # s" for n s
    by (metis list.set_intros(1))
  then show ?thesis
    unfolding Itoa_def by (auto simp: itoa_nat_inject dest: sym)
qed

lemma Itoa_chars: "c \<in> set (Itoa i) \<Longrightarrow> is_digit c \<or> c = CHR ''-''"
  unfolding Itoa_def by (auto split: if_splits dest: itoa_nat_digits)

text \<open>\<open>strconv.Atoi\<close>: an optional sign, at least one digit, a value of 64 bits.\<close>

definition digits_value :: "string \<Rightarrow> int" where
  "digits_value ds = foldl (\<lambda>a c. a * 10 + (of_char c - 48)) 0 ds"

definition unsigned_value :: "string \<Rightarrow> int option" where
  "unsigned_value ds = (if ds = [] \<or> \<not> list_all is_digit ds then None else Some (digits_value ds))"

definition Atoi :: "string \<Rightarrow> int option" where
  "Atoi s =
    (let v = (case s of
           [] \<Rightarrow> None
         | c # ds \<Rightarrow> if c = CHR ''-'' then map_option uminus (unsigned_value ds)
                     else if c = CHR ''+'' then unsigned_value ds else unsigned_value s)
     in case v of None \<Rightarrow> None | Some i \<Rightarrow> if in64 i then Some i else None)"

text \<open>\<open>strings.Split\<close> with a one-character separator undoes \<open>Join\<close>.\<close>

fun Split :: "char \<Rightarrow> string \<Rightarrow> string list" where
  "Split c [] = [[]]"
| "Split c (x # xs) =
    (if x = c then [] # Split c xs
     else case Split c xs of [] \<Rightarrow> [[x]] | y # ys \<Rightarrow> (x # y) # ys)"

lemma Split_ne [simp]: "Split c s \<noteq> []"
  by (induction c s rule: Split.induct) (auto split: list.splits)

lemma Split_no_sep: "c \<notin> set s \<Longrightarrow> Split c s = [s]"
  by (induction c s rule: Split.induct) auto

lemma Split_append_sep: "c \<notin> set a \<Longrightarrow> Split c (a @ c # s) = a # Split c s"
  by (induction a) auto

lemma Split_Join:
  "xs \<noteq> [] \<Longrightarrow> \<forall>x \<in> set xs. c \<notin> set x \<Longrightarrow> Split c (Join c xs) = xs"
  by (induction c xs rule: Join.induct) (auto simp: Split_no_sep Split_append_sep)

lemma Split_no_sep_in: "f \<in> set (Split c s) \<Longrightarrow> c \<notin> set f"
proof (induction c s arbitrary: f rule: Split.induct)
  case (2 c x xs)
  then show ?case by (cases "x = c"; cases "Split c xs") auto
qed simp

text \<open>\<open>strings.Index\<close>: the position of the first occurrence, \<open>None\<close> for the -1 of the source.\<close>

fun Index :: "string \<Rightarrow> string \<Rightarrow> nat option" where
  "Index [] t = (if t = [] then Some 0 else None)"
| "Index (c # s) t = (if take (length t) (c # s) = t then Some 0 else map_option Suc (Index s t))"

definition HasPrefix :: "string \<Rightarrow> string \<Rightarrow> bool" where
  "HasPrefix s p \<longleftrightarrow> take (length p) s = p"

definition HasSuffix :: "string \<Rightarrow> string \<Rightarrow> bool" where
  "HasSuffix s p \<longleftrightarrow> drop (length s - length p) s = p \<and> length p \<le> length s"

lemma Index_skip:
  "c \<notin> set a \<Longrightarrow> take (length t) s \<noteq> t \<Longrightarrow> Index s (c # t) = Some i \<Longrightarrow>
   Index (a @ c # s) (c # t) = Some (length a + 1 + i)"
  by (induction a) auto

lemma Index_here: "c \<notin> set a \<Longrightarrow> Index (a @ c # t @ s) (c # t) = Some (length a)"
  by (induction a) auto

text \<open>Printed numbers read back.\<close>

lemma digits_value_snoc: "digits_value (ds @ [c]) = digits_value ds * 10 + (of_char c - 48)"
  by (simp add: digits_value_def)

lemma of_char_digit_char_int:
  assumes "d < 10" shows "(of_char (digit_char d) :: int) = 48 + int d"
proof -
  have "(of_char (digit_char d) :: int) = int (of_char (digit_char d))" by (simp add: of_nat_of_char)
  then show ?thesis using assms by (simp add: of_char_digit_char)
qed

lemma digits_value_itoa_nat: "digits_value (itoa_nat n) = int n"
proof (induction n rule: itoa_nat.induct)
  case (1 n)
  show ?case
  proof (cases "n < 10")
    case True
    then show ?thesis by (simp add: itoa_nat_small digits_value_def of_char_digit_char_int)
  next
    case False
    have c: "(of_char (digit_char (n mod 10)) :: int) = 48 + int (n mod 10)"
      by (simp add: of_char_digit_char_int)
    have "int n = int (n div 10) * 10 + int (n mod 10)"
      by (metis div_mult_mod_eq of_nat_add of_nat_mult of_nat_numeral)
    then show ?thesis using 1 False c by (simp add: itoa_nat_step digits_value_snoc)
  qed
qed

lemma Atoi_Itoa: "0 \<le> i \<Longrightarrow> in64 i \<Longrightarrow> Atoi (Itoa i) = Some i"
proof -
  assume i: "0 \<le> i" "in64 i"
  then have I: "Itoa i = itoa_nat (nat i)" by (simp add: Itoa_def)
  have d: "list_all is_digit (itoa_nat (nat i))" by (auto simp: list_all_iff dest: itoa_nat_digits)
  obtain c ds where cs: "itoa_nat (nat i) = c # ds" by (cases "itoa_nat (nat i)") simp_all
  then have "c \<noteq> CHR ''-''" "c \<noteq> CHR ''+''" using d by (auto simp: is_digit_def)
  moreover have "unsigned_value (c # ds) = Some i"
    using d cs digits_value_itoa_nat [of "nat i"] i by (simp add: unsigned_value_def)
  ultimately show ?thesis using i by (simp add: Atoi_def I cs)
qed

subsection \<open>Interface: operations that keep an invariant\<close>

text \<open>
  A component is a state, an invariant and a step taken for each operation. Whatever every
  operation keeps, every sequence of operations keeps.
\<close>

fun run :: "('s \<Rightarrow> 'op \<Rightarrow> 's) \<Rightarrow> 's \<Rightarrow> 'op list \<Rightarrow> 's" where
  "run step s [] = s"
| "run step s (x # xs) = run step (step s x) xs"

lemma run_append: "run step s (xs @ ys) = run step (run step s xs) ys"
  by (induction xs arbitrary: s) auto

locale invariant_machine =
  fixes step :: "'s \<Rightarrow> 'op \<Rightarrow> 's"
    and inv :: "'s \<Rightarrow> bool"
  assumes step_inv: "inv s \<Longrightarrow> inv (step s x)"
begin

lemma run_inv: "inv s \<Longrightarrow> inv (run step s xs)"
  by (induction xs arbitrary: s) (auto intro: step_inv)

end

text \<open>
  An order on states that every operation respects is respected by every sequence of them: the
  form in which the marks that only move forward (accepted versions, revoked licences, clock
  high-water marks, spent counters) are stated.
\<close>

locale monotone_machine = invariant_machine step inv
  for step :: "'s \<Rightarrow> 'op \<Rightarrow> 's" and inv :: "'s \<Rightarrow> bool" +
  fixes le :: "'s \<Rightarrow> 's \<Rightarrow> bool"
  assumes le_refl: "le s s"
    and le_trans: "le a b \<Longrightarrow> le b c \<Longrightarrow> le a c"
    and step_le: "inv s \<Longrightarrow> le s (step s x)"
begin

lemma run_le: "inv s \<Longrightarrow> le s (run step s xs)"
proof (induction xs arbitrary: s)
  case Nil
  show ?case by (simp add: le_refl)
next
  case (Cons x xs)
  have "le s (step s x)" using Cons.prems by (rule step_le)
  moreover have "le (step s x) (run step (step s x) xs)"
    using Cons.prems by (intro Cons.IH step_inv)
  ultimately show ?case by (auto intro: le_trans)
qed

lemma run_le_prefix: "inv s \<Longrightarrow> le (run step s xs) (run step s (xs @ ys))"
  by (simp add: run_append run_le run_inv)

end

subsection \<open>Interface: admission under a version that never goes back\<close>

text \<open>
  Documents reach the appliance under an increasing version. The admitting component keeps the
  version it last accepted (\<open>floor_of\<close>) and the content it had (\<open>tag_of\<close>); the laws say that what it
  accepts is newer, or is the same document again, that accepting moves the floor there and that
  refusing moves nothing. The client's lemma is the replay guarantee: whatever happens after an
  acceptance, only something newer or the same document can be accepted.
\<close>

definition not_older :: "int \<Rightarrow> 't \<Rightarrow> int \<Rightarrow> 't \<Rightarrow> bool" where
  "not_older v t v' t' \<longleftrightarrow> v < v' \<or> (v = v' \<and> t = t')"

lemma not_older_trans: "not_older a s b t \<Longrightarrow> not_older b t c u \<Longrightarrow> not_older a s c u"
  by (auto simp: not_older_def)

locale versioned_admission = invariant_machine "\<lambda>s e. fst (admit s e)" inv
  for admit :: "'s \<Rightarrow> 'e \<Rightarrow> 's \<times> bool" and inv :: "'s \<Rightarrow> bool" +
  fixes floor_of :: "'s \<Rightarrow> int"
    and tag_of :: "'s \<Rightarrow> 't"
    and version_of :: "'e \<Rightarrow> int"
    and content_of :: "'e \<Rightarrow> 't"
  assumes accepted_newer: "inv s \<Longrightarrow> admit s e = (s', True) \<Longrightarrow>
      floor_of s < version_of e \<or> (floor_of s = version_of e \<and> tag_of s = content_of e)"
    and accepted_moves: "inv s \<Longrightarrow> admit s e = (s', True) \<Longrightarrow> floor_of s' = version_of e \<and> tag_of s' = content_of e"
    and refused_stays: "inv s \<Longrightarrow> admit s e = (s', False) \<Longrightarrow> floor_of s' = floor_of s \<and> tag_of s' = tag_of s"
begin

lemma step_not_older:
  assumes "inv s"
  shows "not_older (floor_of s) (tag_of s) (floor_of (fst (admit s e))) (tag_of (fst (admit s e)))"
proof (cases "snd (admit s e)")
  case True
  then have *: "admit s e = (fst (admit s e), True)" by (metis prod.collapse)
  show ?thesis using accepted_newer [OF assms *] accepted_moves [OF assms *] by (auto simp: not_older_def)
next
  case False
  then have *: "admit s e = (fst (admit s e), False)" by (metis prod.collapse)
  show ?thesis using refused_stays [OF assms *] by (auto simp: not_older_def)
qed

lemma run_not_older:
  assumes "inv s"
  shows "not_older (floor_of s) (tag_of s) (floor_of (run (\<lambda>s e. fst (admit s e)) s es)) (tag_of (run (\<lambda>s e. fst (admit s e)) s es))"
  using assms
proof (induction es arbitrary: s)
  case (Cons e es)
  show ?case using not_older_trans [OF step_not_older [OF Cons.prems, of e] Cons.IH [OF step_inv [OF Cons.prems, of e]]] by simp
qed (simp add: not_older_def)

lemma no_replay:
  assumes "inv s" and "admit s e = (s', True)"
    and later: "snd (admit (run (\<lambda>s e. fst (admit s e)) s' es) e')"
  shows "version_of e < version_of e' \<or> (version_of e = version_of e' \<and> content_of e = content_of e')"
proof -
  let ?h = "run (\<lambda>s e. fst (admit s e)) s' es"
  have inv': "inv s'" using step_inv [OF assms(1), of e] assms(2) by simp
  have "inv ?h" by (rule run_inv [OF inv'])
  moreover have "admit ?h e' = (fst (admit ?h e'), True)" using later by (metis prod.collapse)
  ultimately have "not_older (floor_of ?h) (tag_of ?h) (version_of e') (content_of e')"
    using accepted_newer by (auto simp: not_older_def)
  then show ?thesis
    using run_not_older [OF inv', of es] accepted_moves [OF assms(1,2)] by (auto simp: not_older_def)
qed

end

end
