(* ===== verification/License_Doc.thy ===== *)
theory License_Doc
  imports Prelude
begin

text \<open>
  The licence document (\<open>license/doc.go\<close>, \<open>license/modules.go\<close>, and \<open>Evaluate\<close> of
  \<open>license/verify.go\<close>): the document and its well-formedness check, the module registry and what a
  document authorises, and the time line that turns a document and a clock into a licence state.
\<close>

subsection \<open>The document\<close>

record features =
  PMS :: bool
  PaidWiFi :: bool
  SMSOTP :: bool
  EmailOTP :: bool
  SocialLogin :: bool
  HA :: bool
  WhiteLabel :: bool

record limits =
  MaxAppliancesForSite :: int
  MaxConcurrentGuestSessions :: int
  MaxLocalOperators :: int
  MaxGuestAccessPlans :: int
  AccountingRetentionDays :: int
  AuditRetentionDays :: int

text \<open>
  A module grant carries per-module limits; a module set is a Go map, held as an association list
  with the map's keys in some order.
\<close>

record module_grant =
  grant_Limits :: "(string \<times> int) list"

type_synonym modules = "(string \<times> module_grant) list"

definition DocActive :: string where "DocActive = ''active''"
definition DocSuspended :: string where "DocSuspended = ''suspended''"

text \<open>\<open>doc_Modules\<close> is \<open>None\<close> for a nil map, which \<open>Validate\<close> tells apart from an empty one.\<close>

record document =
  doc_LicenseID :: string
  doc_TenantID :: string
  doc_SiteID :: string
  doc_ApplianceIDs :: "string list"
  doc_CommercialPlanCode :: string
  doc_Status :: string
  doc_IssuedAt :: go_time
  doc_ValidUntil :: go_time
  doc_OfflineGraceDays :: int
  doc_Features :: features
  doc_Limits :: limits
  doc_ApplianceID :: string
  doc_ApplianceSerial :: string
  doc_HardwareFingerprint :: string
  doc_IdentityKeyFingerprint :: string
  doc_WANMAC :: string
  doc_ValidFrom :: go_time
  doc_SignerKeyID :: string
  doc_MaxConcurrentOnlineGuests :: int
  doc_GracePeriodDays :: int
  doc_LicenseVersion :: int
  doc_SupersedesLicenseID :: string
  doc_Modules :: "modules option"
  doc_SchemaVersion :: int

definition CurrentSchemaVersion :: int where "CurrentSchemaVersion = 4"
definition MinSchemaVersion :: int where "MinSchemaVersion = 1"

definition EffectiveGraceDays :: "document \<Rightarrow> int" where
  "EffectiveGraceDays d =
     (if doc_SchemaVersion d \<ge> 3 then
        (if doc_GracePeriodDays d < 0 then 0 else doc_GracePeriodDays d)
      else if doc_GracePeriodDays d > 0 then doc_GracePeriodDays d
      else doc_OfflineGraceDays d)"

definition EffectiveMaxConcurrentOnlineGuests :: "document \<Rightarrow> int" where
  "EffectiveMaxConcurrentOnlineGuests d =
     (if doc_MaxConcurrentOnlineGuests d > 0 then doc_MaxConcurrentOnlineGuests d
      else MaxConcurrentGuestSessions (doc_Limits d))"

datatype lic_state =
    StateActive
  | StateGracePeriod
  | StateRestricted
  | StateExpired
  | StateSuspended
  | StateRevoked
  | StateUnlicensed

fun AllowsNewSessions :: "lic_state \<Rightarrow> bool" where
  "AllowsNewSessions StateActive = True"
| "AllowsNewSessions StateGracePeriod = True"
| "AllowsNewSessions StateRestricted = True"
| "AllowsNewSessions _ = False"

definition AllowsProvisioning :: "lic_state \<Rightarrow> bool" where
  "AllowsProvisioning s \<longleftrightarrow> s = StateActive \<or> s = StateGracePeriod"

definition FeatureEnabled :: "lic_state \<Rightarrow> bool \<Rightarrow> bool" where
  "FeatureEnabled st entitled =
     (if \<not> entitled then False
      else case st of StateActive \<Rightarrow> True | StateGracePeriod \<Rightarrow> True | _ \<Rightarrow> False)"

subsection \<open>The module registry\<close>

definition ModuleHospitality :: string where "ModuleHospitality = ''hospitality''"
definition ModulePaidAccess :: string where "ModulePaidAccess = ''paid_access''"
definition ModuleCardPayment :: string where "ModuleCardPayment = ''card_payment''"
definition ModuleRoomCharge :: string where "ModuleRoomCharge = ''room_charge''"
definition ModuleSMSOTP :: string where "ModuleSMSOTP = ''sms_otp''"
definition ModuleWhatsAppOTP :: string where "ModuleWhatsAppOTP = ''whatsapp_otp''"
definition ModuleEmailOTP :: string where "ModuleEmailOTP = ''email_otp''"
definition ModuleSocialLogin :: string where "ModuleSocialLogin = ''social_login''"
definition ModuleWhiteLabel :: string where "ModuleWhiteLabel = ''white_label''"
definition ModuleHA :: string where "ModuleHA = ''ha''"

lemmas module_ids = ModuleHospitality_def ModulePaidAccess_def ModuleCardPayment_def
  ModuleRoomCharge_def ModuleSMSOTP_def ModuleWhatsAppOTP_def ModuleEmailOTP_def
  ModuleSocialLogin_def ModuleWhiteLabel_def ModuleHA_def

record module_spec =
  spec_ID :: string
  spec_Label :: string
  spec_Requires :: "string list"

definition registry :: "module_spec list" where
  "registry =
    [\<lparr>spec_ID = ModuleHospitality, spec_Label = ''Hotel (PMS, Room sign-in, stays)'', spec_Requires = []\<rparr>,
     \<lparr>spec_ID = ModulePaidAccess, spec_Label = ''Paid access (priced Internet Packages)'', spec_Requires = []\<rparr>,
     \<lparr>spec_ID = ModuleCardPayment, spec_Label = ''Card payment'', spec_Requires = [ModulePaidAccess]\<rparr>,
     \<lparr>spec_ID = ModuleRoomCharge, spec_Label = ''Room charge (PMS posting)'',
       spec_Requires = [ModuleHospitality, ModulePaidAccess]\<rparr>,
     \<lparr>spec_ID = ModuleSMSOTP, spec_Label = ''SMS one-time code'', spec_Requires = []\<rparr>,
     \<lparr>spec_ID = ModuleWhatsAppOTP, spec_Label = ''WhatsApp one-time code'', spec_Requires = []\<rparr>,
     \<lparr>spec_ID = ModuleEmailOTP, spec_Label = ''Email accounts'', spec_Requires = []\<rparr>,
     \<lparr>spec_ID = ModuleSocialLogin, spec_Label = ''Social sign-in'', spec_Requires = []\<rparr>,
     \<lparr>spec_ID = ModuleWhiteLabel, spec_Label = ''White label'', spec_Requires = []\<rparr>,
     \<lparr>spec_ID = ModuleHA, spec_Label = ''High availability'', spec_Requires = []\<rparr>]"

definition LookupModule :: "string \<Rightarrow> module_spec option" where
  "LookupModule mid = find (\<lambda>m. spec_ID m = mid) registry"

definition known_module :: "string \<Rightarrow> bool" where
  "known_module mid \<longleftrightarrow> LookupModule mid \<noteq> None"

text \<open>The dependencies of a module; an unknown one has the zero \<open>ModuleSpec\<close>, which requires nothing.\<close>

definition requires :: "string \<Rightarrow> string list" where
  "requires mid = (case LookupModule mid of None \<Rightarrow> [] | Some sp \<Rightarrow> spec_Requires sp)"

datatype module_error = ModuleRequires string string | UnknownModule string

text \<open>\<open>CheckDependencies\<close>: the first unmet dependency in key order, unknown modules skipped.\<close>

fun first_unmet :: "string list \<Rightarrow> string list \<Rightarrow> (string \<times> string) option" where
  "first_unmet have_ids [] = None"
| "first_unmet have_ids (mid # ids) =
     (case find (\<lambda>dep. dep \<notin> set have_ids) (requires mid) of
        Some dep \<Rightarrow> Some (mid, dep)
      | None \<Rightarrow> first_unmet have_ids ids)"

definition CheckDependencies :: "string list \<Rightarrow> module_error option" where
  "CheckDependencies ids =
     (case first_unmet ids (sorted_keys ids) of
        None \<Rightarrow> None
      | Some (mid, dep) \<Rightarrow> Some (ModuleRequires mid dep))"

fun modules_of_ids :: "string list \<Rightarrow> module_error + modules" where
  "modules_of_ids [] = Inr []"
| "modules_of_ids (mid # ids) =
     (if \<not> known_module mid then Inl (UnknownModule mid)
      else case modules_of_ids ids of
             Inl e \<Rightarrow> Inl e
           | Inr m \<Rightarrow> Inr ((mid, \<lparr>grant_Limits = []\<rparr>) # filter (\<lambda>e. fst e \<noteq> mid) m))"

definition ModulesFromIDs :: "string list \<Rightarrow> module_error + modules" where
  "ModulesFromIDs ids =
     (case modules_of_ids ids of
        Inl e \<Rightarrow> Inl e
      | Inr m \<Rightarrow> (case CheckDependencies ids of Some e \<Rightarrow> Inl e | None \<Rightarrow> Inr m))"

definition has_module :: "modules \<Rightarrow> string \<Rightarrow> bool" where
  "has_module m mid \<longleftrightarrow> mid \<in> fst ` set m"

definition ProjectFeatures :: "modules \<Rightarrow> features" where
  "ProjectFeatures m =
     \<lparr>PMS = has_module m ModuleHospitality, PaidWiFi = has_module m ModulePaidAccess,
      SMSOTP = has_module m ModuleSMSOTP, EmailOTP = has_module m ModuleEmailOTP,
      SocialLogin = has_module m ModuleSocialLogin, HA = has_module m ModuleHA,
      WhiteLabel = has_module m ModuleWhiteLabel\<rparr>"

definition legacyModules :: "features \<Rightarrow> modules" where
  "legacyModules f =
     (let g = \<lparr>grant_Limits = []\<rparr> in
      (if PMS f then [(ModuleHospitality, g)] else []) @
      (if SMSOTP f then [(ModuleSMSOTP, g)] else []) @
      (if EmailOTP f then [(ModuleEmailOTP, g)] else []) @
      (if SocialLogin f then [(ModuleSocialLogin, g)] else []) @
      (if HA f then [(ModuleHA, g)] else []) @
      (if WhiteLabel f then [(ModuleWhiteLabel, g)] else []))"

definition ModuleIDs :: "modules \<Rightarrow> string list" where
  "ModuleIDs m = sorted_keys (map fst m)"

text \<open>
  \<open>AuthorizedModules\<close> starts from the known granted modules and sweeps the set, deleting each
  module with a missing dependency, until a sweep deletes nothing. Go visits a map in an
  unspecified order that differs from sweep to sweep: \<open>ord k\<close> is the order of the \<open>k\<close>-th sweep.
  A deleted module is not visited again in that sweep.
\<close>

fun sweep :: "string list \<Rightarrow> string list \<Rightarrow> string list" where
  "sweep [] out = out"
| "sweep (mid # ids) out =
     (if mid \<in> set out \<and> (\<exists>dep \<in> set (requires mid). dep \<notin> set out)
      then sweep ids (removeAll mid out) else sweep ids out)"

lemma sweep_subset: "set (sweep ids out) \<subseteq> set out"
  by (induction ids out rule: sweep.induct) auto

lemma sweep_length: "length (sweep ids out) \<le> length out"
proof (induction ids out rule: sweep.induct)
  case (2 mid ids out)
  have "length (removeAll mid out) \<le> length out" by (rule length_removeAll_less_eq)
  with 2 show ?case by (fastforce intro: order.trans)
qed simp

lemma sweep_changed_less: "sweep ids out \<noteq> out \<Longrightarrow> length (sweep ids out) < length out"
proof (induction ids out rule: sweep.induct)
  case (2 mid ids out)
  show ?case
  proof (cases "mid \<in> set out \<and> (\<exists>dep \<in> set (requires mid). dep \<notin> set out)")
    case True
    then have "length (removeAll mid out) < length out"
      by (simp add: length_removeAll_less)
    then show ?thesis using True sweep_length [of ids "removeAll mid out"] by simp
  next
    case False
    then show ?thesis using 2 by auto
  qed
qed simp

function prune :: "(nat \<Rightarrow> string list \<Rightarrow> string list) \<Rightarrow> nat \<Rightarrow> string list \<Rightarrow> string list" where
  "prune ord k out =
     (let out' = sweep (ord k out) out in if out' = out then out else prune ord (Suc k) out')"
  by pat_completeness auto
termination
  by (relation "measure (\<lambda>(ord, k, out). length out)") (auto simp: sweep_changed_less)

declare prune.simps [simp del]

definition granted_modules :: "document \<Rightarrow> modules" where
  "granted_modules d =
     (if doc_SchemaVersion d \<ge> 4 then (case doc_Modules d of None \<Rightarrow> [] | Some m \<Rightarrow> m)
      else legacyModules (doc_Features d))"

definition AuthorizedModules :: "(nat \<Rightarrow> string list \<Rightarrow> string list) \<Rightarrow> document \<Rightarrow> string list" where
  "AuthorizedModules ord d =
     prune ord 0 (filter known_module (remdups (map fst (granted_modules d))))"

subsection \<open>Validation\<close>

datatype doc_error =
    UnsupportedSchema int
  | MissingIDs
  | ValidUntilNotAfterIssued
  | OfflineGraceRange
  | GracePeriodRange
  | ValidFromAfterUntil
  | UnknownStatus string
  | V4NeedsModules
  | FeaturesDisagree

definition Validate :: "document \<Rightarrow> doc_error option" where
  "Validate d =
     (if doc_SchemaVersion d < MinSchemaVersion \<or> doc_SchemaVersion d > CurrentSchemaVersion
        then Some (UnsupportedSchema (doc_SchemaVersion d))
      else if doc_LicenseID d = [] \<or> doc_TenantID d = [] \<or> doc_SiteID d = [] then Some MissingIDs
      else if \<not> doc_ValidUntil d > doc_IssuedAt d then Some ValidUntilNotAfterIssued
      else if doc_OfflineGraceDays d < 0 \<or> doc_OfflineGraceDays d > 365 then Some OfflineGraceRange
      else if doc_GracePeriodDays d > 365 then Some GracePeriodRange
      else if doc_ValidFrom d \<noteq> 0 \<and> doc_ValidFrom d > doc_ValidUntil d then Some ValidFromAfterUntil
      else if doc_Status d \<noteq> DocActive \<and> doc_Status d \<noteq> DocSuspended
        then Some (UnknownStatus (doc_Status d))
      else if doc_SchemaVersion d \<ge> 4 then
        (case doc_Modules d of
           None \<Rightarrow> Some V4NeedsModules
         | Some m \<Rightarrow> if doc_Features d \<noteq> ProjectFeatures m then Some FeaturesDisagree else None)
      else None)"

subsection \<open>The time line\<close>

record evaluation =
  ev_State :: lic_state
  ev_Doc :: "document option"
  ev_GraceUntil :: go_time
  ev_RestrictedUntil :: go_time
  ev_ClockRollback :: bool
  ev_LastCloudValidation :: go_time
  ev_CloudStale :: bool

text \<open>
  The window ends are computed in \<open>time.Duration\<close>, so each product is taken at 64 bits.
\<close>

definition grace_duration :: "document \<Rightarrow> duration" where
  "grace_duration d = wrap64 (wrap64 (EffectiveGraceDays d * 24) * hour)"

definition offline_duration :: "document \<Rightarrow> duration" where
  "offline_duration d = wrap64 (wrap64 (doc_OfflineGraceDays d * 24) * hour)"

definition grace_until :: "document \<Rightarrow> go_time" where
  "grace_until d = doc_ValidUntil d + grace_duration d"

definition restricted_until :: "document \<Rightarrow> go_time" where
  "restricted_until d =
     (if doc_SchemaVersion d \<ge> 3 then grace_until d
      else doc_ValidUntil d + wrap64 (2 * grace_duration d))"

definition timeline_state :: "document \<Rightarrow> go_time \<Rightarrow> bool \<Rightarrow> lic_state" where
  "timeline_state d now revoked =
     (if revoked then StateRevoked
      else if doc_Status d = DocSuspended then StateSuspended
      else if doc_ValidFrom d \<noteq> 0 \<and> now < doc_ValidFrom d then StateExpired
      else if \<not> now > doc_ValidUntil d then StateActive
      else if \<not> now > grace_until d then StateGracePeriod
      else if \<not> now > restricted_until d then StateRestricted
      else StateExpired)"

definition Evaluate :: "document \<Rightarrow> go_time \<Rightarrow> go_time \<Rightarrow> bool \<Rightarrow> evaluation" where
  "Evaluate d now lastCloudValidation revoked =
     \<lparr>ev_State = timeline_state d now revoked, ev_Doc = Some d,
      ev_GraceUntil = grace_until d, ev_RestrictedUntil = restricted_until d,
      ev_ClockRollback = False, ev_LastCloudValidation = lastCloudValidation,
      ev_CloudStale = (lastCloudValidation \<noteq> 0 \<and> offline_duration d > 0 \<and>
                       time_sub now lastCloudValidation > offline_duration d)\<rparr>"

subsection \<open>What a valid document guarantees\<close>

lemma Validate_NoneD:
  assumes "Validate d = None"
  shows "doc_IssuedAt d < doc_ValidUntil d"
    and "0 \<le> doc_OfflineGraceDays d" and "doc_OfflineGraceDays d \<le> 365"
    and "doc_GracePeriodDays d \<le> 365"
    and "1 \<le> doc_SchemaVersion d" and "doc_SchemaVersion d \<le> 4"
    and "doc_ValidFrom d = 0 \<or> doc_ValidFrom d \<le> doc_ValidUntil d"
    and "doc_Status d = DocActive \<or> doc_Status d = DocSuspended"
    and "doc_SchemaVersion d \<ge> 4 \<Longrightarrow>
         \<exists>m. doc_Modules d = Some m \<and> doc_Features d = ProjectFeatures m"
  using assms
  by (auto simp: Validate_def MinSchemaVersion_def CurrentSchemaVersion_def
           split: if_splits option.splits)

lemma EffectiveGraceDays_range:
  "Validate d = None \<Longrightarrow> 0 \<le> EffectiveGraceDays d \<and> EffectiveGraceDays d \<le> 365"
  using Validate_NoneD [of d] by (auto simp: EffectiveGraceDays_def)

lemma days_in64:
  assumes "0 \<le> n" and "n \<le> 365"
  shows "wrap64 (wrap64 (n * 24) * hour) = n * 24 * hour"
proof -
  have "wrap64 (n * 24) = n * 24" using assms by (intro wrap64_small) auto
  moreover have "wrap64 (n * 24 * hour) = n * 24 * hour"
    using assms by (intro wrap64_small) (auto simp: go_simps)
  ultimately show ?thesis by simp
qed

lemma grace_duration_valid:
  "Validate d = None \<Longrightarrow> grace_duration d = EffectiveGraceDays d * 24 * hour"
  unfolding grace_duration_def using EffectiveGraceDays_range by (intro days_in64) auto

lemma offline_duration_valid:
  "Validate d = None \<Longrightarrow> offline_duration d = doc_OfflineGraceDays d * 24 * hour"
  unfolding offline_duration_def using Validate_NoneD by (intro days_in64) auto

lemma grace_duration_nonneg: "Validate d = None \<Longrightarrow> 0 \<le> grace_duration d"
  using EffectiveGraceDays_range by (auto simp: grace_duration_valid go_simps)

lemma double_grace_in64:
  "Validate d = None \<Longrightarrow> wrap64 (2 * grace_duration d) = 2 * grace_duration d"
  using EffectiveGraceDays_range [of d]
  by (intro wrap64_small) (auto simp: grace_duration_valid go_simps)

lemma window_order:
  assumes "Validate d = None"
  shows "doc_ValidUntil d \<le> grace_until d" and "grace_until d \<le> restricted_until d"
  using grace_duration_nonneg [OF assms] double_grace_in64 [OF assms]
  by (auto simp: grace_until_def restricted_until_def)

text \<open>The states of the time line in the order the licence runs through them.\<close>

fun state_rank :: "lic_state \<Rightarrow> nat" where
  "state_rank StateActive = 0"
| "state_rank StateGracePeriod = 1"
| "state_rank StateRestricted = 2"
| "state_rank StateExpired = 3"
| "state_rank StateSuspended = 4"
| "state_rank StateRevoked = 5"
| "state_rank StateUnlicensed = 6"

lemma timeline_mono:
  assumes "Validate d = None" and "now \<le> now'"
    and "doc_ValidFrom d = 0 \<or> doc_ValidFrom d \<le> now"
  shows "state_rank (timeline_state d now r) \<le> state_rank (timeline_state d now' r)"
  using assms(2,3) window_order [OF assms(1)] by (auto simp: timeline_state_def)

lemma timeline_revoked [simp]: "timeline_state d now True = StateRevoked"
  by (simp add: timeline_state_def)

subsection \<open>Authorised modules\<close>

definition dep_closed :: "string set \<Rightarrow> bool" where
  "dep_closed S \<longleftrightarrow> (\<forall>mid \<in> S. set (requires mid) \<subseteq> S)"

text \<open>
  The specification: the largest set of known granted modules that contains the dependencies of
  its members. Every union of such sets is one.
\<close>

definition authorised_spec :: "document \<Rightarrow> string set" where
  "authorised_spec d =
     \<Union> {S. dep_closed S \<and> S \<subseteq> {mid. known_module mid \<and> has_module (granted_modules d) mid}}"

lemma dep_closed_Union: "(\<And>S. S \<in> A \<Longrightarrow> dep_closed S) \<Longrightarrow> dep_closed (\<Union> A)"
  by (fastforce simp: dep_closed_def)

lemma sweep_keeps_closed:
  "dep_closed S \<Longrightarrow> S \<subseteq> set out \<Longrightarrow> S \<subseteq> set (sweep ids out)"
proof (induction ids out rule: sweep.induct)
  case (2 mid ids out)
  show ?case
  proof (cases "mid \<in> set out \<and> (\<exists>dep \<in> set (requires mid). dep \<notin> set out)")
    case True
    then have "mid \<notin> S" using 2 by (auto simp: dep_closed_def)
    then have "S \<subseteq> set (removeAll mid out)" using 2 by auto
    then show ?thesis using 2 True by simp
  next
    case False
    then show ?thesis using 2 by auto
  qed
qed simp

lemma sweep_stable:
  assumes "sweep ids out = out" and "mid \<in> set ids" and "mid \<in> set out"
  shows "set (requires mid) \<subseteq> set out"
  using assms
proof (induction ids out rule: sweep.induct)
  case (2 x ids out)
  show ?case
  proof (cases "x \<in> set out \<and> (\<exists>dep \<in> set (requires x). dep \<notin> set out)")
    case True
    then have "x \<notin> set (sweep ids (removeAll x out))"
      using sweep_subset [of ids "removeAll x out"] by auto
    then show ?thesis using True 2 by auto
  next
    case False
    then show ?thesis using 2 by auto
  qed
qed simp

lemma prune_subset: "set (prune ord k out) \<subseteq> set out"
proof (induction ord k out rule: prune.induct)
  case (1 ord k out)
  show ?case
  proof (cases "sweep (ord k out) out = out")
    case False
    then have "set (prune ord (Suc k) (sweep (ord k out) out)) \<subseteq> set (sweep (ord k out) out)"
      using 1 by simp
    then show ?thesis
      using False sweep_subset [of "ord k out" out] by (subst prune.simps) (auto simp: Let_def)
  qed (subst prune.simps, simp)
qed

lemma prune_keeps_closed:
  "dep_closed S \<Longrightarrow> S \<subseteq> set out \<Longrightarrow> S \<subseteq> set (prune ord k out)"
proof (induction ord k out rule: prune.induct)
  case (1 ord k out)
  then show ?case
    by (subst prune.simps) (simp add: Let_def sweep_keeps_closed)
qed

lemma prune_closed:
  "(\<And>k xs. set xs \<subseteq> set (ord k xs)) \<Longrightarrow> dep_closed (set (prune ord k out))"
proof (induction ord k out rule: prune.induct)
  case (1 ord k out)
  show ?case
  proof (cases "sweep (ord k out) out = out")
    case True
    have "set out \<subseteq> set (ord k out)" using 1 by blast
    then have "dep_closed (set out)"
      using sweep_stable [OF True] unfolding dep_closed_def by blast
    then show ?thesis using True by (subst prune.simps) simp
  next
    case False
    then show ?thesis using 1 by (subst prune.simps) simp
  qed
qed

lemma AuthorizedModules_subset:
  "set (AuthorizedModules ord d) \<subseteq> {mid. known_module mid \<and> has_module (granted_modules d) mid}"
  unfolding AuthorizedModules_def
  by (rule subset_trans [OF prune_subset]) (auto simp: has_module_def)

lemma AuthorizedModules_spec:
  assumes "\<And>k xs. set xs \<subseteq> set (ord k xs)"
  shows "set (AuthorizedModules ord d) = authorised_spec d"
proof
  show "set (AuthorizedModules ord d) \<subseteq> authorised_spec d"
    unfolding authorised_spec_def
    using AuthorizedModules_subset [of ord d] prune_closed [of ord, OF assms]
    by (auto simp: AuthorizedModules_def)
  show "authorised_spec d \<subseteq> set (AuthorizedModules ord d)"
    unfolding authorised_spec_def AuthorizedModules_def
    by (rule prune_keeps_closed) (auto intro: dep_closed_Union simp: has_module_def)
qed

lemma first_unmet_NoneD:
  "first_unmet hs ids = None \<Longrightarrow> mid \<in> set ids \<Longrightarrow> set (requires mid) \<subseteq> set hs"
  by (induction ids) (auto split: option.splits simp: find_None_iff)

lemma CheckDependencies_closed: "CheckDependencies ids = None \<Longrightarrow> dep_closed (set ids)"
  unfolding CheckDependencies_def dep_closed_def
  using first_unmet_NoneD [of ids "sorted_keys ids"] by (auto split: option.splits prod.splits)

lemma modules_of_ids_keys:
  "modules_of_ids ids = Inr m \<Longrightarrow> fst ` set m = set ids \<and> (\<forall>mid \<in> set ids. known_module mid)"
proof (induction ids arbitrary: m)
  case (Cons mid ids)
  then obtain m' where known: "known_module mid" and m': "modules_of_ids ids = Inr m'"
    and m: "m = (mid, \<lparr>grant_Limits = []\<rparr>) # filter (\<lambda>e. fst e \<noteq> mid) m'"
    by (auto split: if_splits sum.splits)
  have keys: "fst ` set m' = set ids" and knowns: "\<forall>mid \<in> set ids. known_module mid"
    using Cons.IH [OF m'] by auto
  have "fst ` set m = insert mid (fst ` set m' - {mid})"
    using m by (auto simp: image_iff)
  with keys knowns known show ?case by auto
qed simp

lemma granted_by_legacy:
  "has_module (legacyModules f) mid \<Longrightarrow>
   mid \<in> {ModuleHospitality, ModuleSMSOTP, ModuleEmailOTP, ModuleSocialLogin, ModuleHA, ModuleWhiteLabel}"
  by (auto simp: has_module_def legacyModules_def Let_def split: if_splits)

subsection \<open>Properties\<close>

text \<open>
  For every document that passes \<open>Validate\<close> the 64-bit products of \<open>Evaluate\<close> do not wrap:
  the renewal grace is the exact number of days (0 to 365), and the three window ends are in
  order, the last one at most two years after \<open>valid_until\<close>.
\<close>

theorem evaluate_windows_exact:
  assumes "Validate d = None"
  shows "grace_until d = doc_ValidUntil d + EffectiveGraceDays d * 24 * hour \<and>
         0 \<le> EffectiveGraceDays d \<and> EffectiveGraceDays d \<le> 365 \<and>
         doc_ValidUntil d \<le> grace_until d \<and> grace_until d \<le> restricted_until d \<and>
         restricted_until d \<le> doc_ValidUntil d + 2 * (365 * 24 * hour)"
proof -
  have range: "0 \<le> EffectiveGraceDays d" "EffectiveGraceDays d \<le> 365"
    using EffectiveGraceDays_range [OF assms] by auto
  have "restricted_until d \<le> doc_ValidUntil d + 2 * (365 * 24 * hour)"
    using range double_grace_in64 [OF assms]
    by (auto simp: restricted_until_def grace_until_def grace_duration_valid [OF assms] go_simps)
  then show ?thesis
    using range window_order [OF assms] assms by (simp add: grace_until_def grace_duration_valid)
qed

text \<open>A document used by the witnesses: schema version 4, ten days of grace, two modules.\<close>

definition sample_modules :: modules where
  "sample_modules =
     [(ModulePaidAccess, \<lparr>grant_Limits = []\<rparr>), (ModuleRoomCharge, \<lparr>grant_Limits = []\<rparr>)]"

definition sample_doc :: document where
  "sample_doc =
     \<lparr>doc_LicenseID = ''L1'', doc_TenantID = ''T'', doc_SiteID = ''S'', doc_ApplianceIDs = [],
      doc_CommercialPlanCode = [], doc_Status = ''active'', doc_IssuedAt = 1, doc_ValidUntil = 1000,
      doc_OfflineGraceDays = 7, doc_Features = ProjectFeatures sample_modules,
      doc_Limits = \<lparr>MaxAppliancesForSite = 0, MaxConcurrentGuestSessions = 0, MaxLocalOperators = 0,
        MaxGuestAccessPlans = 0, AccountingRetentionDays = 0, AuditRetentionDays = 0\<rparr>,
      doc_ApplianceID = ''A1'', doc_ApplianceSerial = [], doc_HardwareFingerprint = [],
      doc_IdentityKeyFingerprint = [], doc_WANMAC = [], doc_ValidFrom = 0, doc_SignerKeyID = [],
      doc_MaxConcurrentOnlineGuests = 0, doc_GracePeriodDays = 10, doc_LicenseVersion = 5,
      doc_SupersedesLicenseID = [], doc_Modules = Some sample_modules, doc_SchemaVersion = 4\<rparr>"

lemma sample_doc_valid: "Validate sample_doc = None"
  by (simp add: Validate_def sample_doc_def MinSchemaVersion_def CurrentSchemaVersion_def DocActive_def)

theorem evaluate_windows_exact_witness:
  "grace_until sample_doc = 1000 + 10 * 24 * hour"
  using evaluate_windows_exact [OF sample_doc_valid]
  by (simp add: sample_doc_def EffectiveGraceDays_def)

text \<open>
  Time only moves a licence forward. From the start of its validity on, a later clock never
  yields an earlier state of Active, Grace period, Restricted, Expired; in particular an expired
  licence is not Active again at any later time.
\<close>

theorem timeline_never_returns:
  assumes "Validate d = None" and "now \<le> now'"
    and "doc_ValidFrom d = 0 \<or> doc_ValidFrom d \<le> now"
  shows "state_rank (ev_State (Evaluate d now lc r)) \<le> state_rank (ev_State (Evaluate d now' lc' r))"
  using timeline_mono [OF assms] by (simp add: Evaluate_def)

theorem timeline_never_returns_witness:
  "state_rank (ev_State (Evaluate sample_doc 500 0 False))
     \<le> state_rank (ev_State (Evaluate sample_doc 2000 0 False))"
  by (rule timeline_never_returns [OF sample_doc_valid]) (simp_all add: sample_doc_def)

text \<open>
  C27: \<open>AuthorizedModules\<close> returns the largest set of known granted modules that holds the
  dependencies of its members, whatever order Go's map iteration takes: the loop ends, and its
  result does not depend on the order.
\<close>

theorem authorized_modules_greatest_closed:
  assumes "\<And>k xs. set xs \<subseteq> set (ord k xs)" and "\<And>k xs. set xs \<subseteq> set (ord' k xs)"
  shows "set (AuthorizedModules ord d) = authorised_spec d \<and> dep_closed (authorised_spec d) \<and>
         set (AuthorizedModules ord' d) = set (AuthorizedModules ord d)"
  using AuthorizedModules_spec [of ord d, OF assms(1)] AuthorizedModules_spec [of ord' d, OF assms(2)]
  by (auto simp: authorised_spec_def intro: dep_closed_Union)

theorem authorized_modules_greatest_closed_witness:
  "set (AuthorizedModules (\<lambda>k xs. rev xs) sample_doc) = authorised_spec sample_doc \<and>
   AuthorizedModules (\<lambda>k xs. rev xs) sample_doc = [ModulePaidAccess]"
proof
  show "set (AuthorizedModules (\<lambda>k xs. rev xs) sample_doc) = authorised_spec sample_doc"
    by (rule authorized_modules_greatest_closed [THEN conjunct1, of _ "\<lambda>k xs. xs"]) simp_all
  show "AuthorizedModules (\<lambda>k xs. rev xs) sample_doc = [ModulePaidAccess]"
    by (simp add: AuthorizedModules_def granted_modules_def sample_doc_def sample_modules_def
        known_module_def requires_def LookupModule_def registry_def module_ids prune.simps)
qed

text \<open>
  A licence below schema version 4 never authorises a financial module or the WhatsApp code,
  whatever its legacy feature flags say, \<open>paid_wifi\<close> included.
\<close>

theorem legacy_never_financial:
  assumes "doc_SchemaVersion d < 4"
  shows "set (AuthorizedModules ord d) \<inter>
         {ModulePaidAccess, ModuleCardPayment, ModuleRoomCharge, ModuleWhatsAppOTP} = {}"
proof -
  have "set (AuthorizedModules ord d) \<subseteq>
        {ModuleHospitality, ModuleSMSOTP, ModuleEmailOTP, ModuleSocialLogin, ModuleHA, ModuleWhiteLabel}"
    using AuthorizedModules_subset [of ord d] granted_by_legacy assms
    by (fastforce simp: granted_modules_def)
  then show ?thesis by (auto simp: module_ids)
qed

theorem legacy_never_financial_witness:
  "set (AuthorizedModules (\<lambda>k xs. xs) (sample_doc\<lparr>doc_SchemaVersion := 3\<rparr>)) \<inter>
   {ModulePaidAccess, ModuleCardPayment, ModuleRoomCharge, ModuleWhatsAppOTP} = {}"
  by (rule legacy_never_financial) simp

text \<open>
  What Central grants is what the appliance authorises. Modules built by \<open>ModulesFromIDs\<close>
  (which refuses unknown modules and unmet dependencies) and carried by a version-4 document are
  authorised exactly, none dropped and none added.
\<close>

theorem issued_modules_authorised:
  assumes "ModulesFromIDs ids = Inr m" and "doc_SchemaVersion d \<ge> 4" and "doc_Modules d = Some m"
    and "\<And>k xs. set xs \<subseteq> set (ord k xs)"
  shows "set (AuthorizedModules ord d) = set ids"
proof -
  have m: "modules_of_ids ids = Inr m" and deps: "CheckDependencies ids = None"
    using assms(1) by (auto simp: ModulesFromIDs_def split: sum.splits option.splits)
  have granted: "{mid. known_module mid \<and> has_module (granted_modules d) mid} = set ids"
    using modules_of_ids_keys [OF m] assms(2,3) by (auto simp: granted_modules_def has_module_def)
  show ?thesis
    unfolding AuthorizedModules_spec [of ord d, OF assms(4)] authorised_spec_def granted
    using CheckDependencies_closed [OF deps] by blast
qed

theorem issued_modules_authorised_witness:
  "set (AuthorizedModules (\<lambda>k xs. xs)
     (sample_doc\<lparr>doc_Modules := Some [(ModulePaidAccess, \<lparr>grant_Limits = []\<rparr>)]\<rparr>)) = {ModulePaidAccess}"
proof -
  have "ModulesFromIDs [ModulePaidAccess] = Inr [(ModulePaidAccess, \<lparr>grant_Limits = []\<rparr>)]"
    by (simp add: ModulesFromIDs_def CheckDependencies_def known_module_def requires_def
        LookupModule_def registry_def module_ids sorted_keys_def)
  from issued_modules_authorised [OF this, of "sample_doc\<lparr>doc_Modules := Some [(ModulePaidAccess, \<lparr>grant_Limits = []\<rparr>)]\<rparr>"
      "\<lambda>k xs. xs"]
  show ?thesis by (simp add: sample_doc_def)
qed

end
