(* ===== verification/License_Verify.thy ===== *)
theory License_Verify
  imports License_Doc
begin

text \<open>
  Envelopes, their signing and verification (\<open>license/sign.go\<close>, \<open>license/verify.go\<close>), and the
  binding of a licence to an appliance (\<open>license/binding.go\<close>).

  The cryptographic and encoding functions of the Go standard library (Ed25519, base64, JSON,
  SHA-256) are parameters: an argument \<open>c\<close> of type \<open>codec\<close> holds them, and what a property needs
  of them is a hypothesis of that property.
\<close>

subsection \<open>Envelopes and their verification\<close>

record envelope =
  env_PayloadB64 :: string
  env_SigB64 :: string
  env_KeyID :: string

text \<open>
  The library functions the licence code calls. \<open>'raw\<close> is the type of file contents.
\<close>

record store_state =
  InstalledIssuedAt :: go_time
  HighestVersion :: int
  AcceptedLicenseID :: string
  AcceptedFingerprint :: string
  HighWater :: go_time
  LastCloudValidation :: go_time

record 'raw codec =
  c_key_id :: "string \<Rightarrow> string"
  c_sig_ok :: "string \<Rightarrow> string \<Rightarrow> string \<Rightarrow> bool"
  c_sign :: "string \<Rightarrow> string \<Rightarrow> string"
  c_public :: "string \<Rightarrow> string"
  c_b64_encode :: "string \<Rightarrow> string"
  c_b64_decode :: "string \<Rightarrow> string option"
  c_sha256_hex :: "string \<Rightarrow> string"
  c_doc_marshal :: "document \<Rightarrow> string"
  c_doc_unmarshal :: "string \<Rightarrow> document option"
  c_json_valid :: "'raw \<Rightarrow> bool"
  c_env_decode :: "'raw \<Rightarrow> envelope option"
  c_state_marshal :: "store_state \<Rightarrow> 'raw"
  c_state_unmarshal :: "'raw \<Rightarrow> store_state option"
  c_ids_marshal :: "string list \<Rightarrow> 'raw"
  c_ids_unmarshal :: "'raw \<Rightarrow> string list option"

datatype lic_error =
    ErrEnvelope
  | ErrUnknownKey string
  | ErrMalformedB64
  | ErrBadSignature
  | ErrMalformedJSON
  | ErrMalformedDoc doc_error
  | ErrStateDamaged
  | ErrRollbackRevoked string
  | ErrRollbackVersion int int
  | ErrRollbackSameVersion int
  | ErrRollbackIssuedAt
  | ErrIO
  | ErrNoLicense
  | ErrNoCentralTime
  | ErrClockSkew

type_synonym verifier = "(string \<times> string) list"

definition PublicKeySize :: nat where "PublicKeySize = 32"

text \<open>\<open>AddKey\<close> refuses a key of the wrong size; \<open>NewVerifier\<close> ignores the refusal.\<close>

definition AddKey :: "'raw codec \<Rightarrow> verifier \<Rightarrow> string \<Rightarrow> verifier option" where
  "AddKey c v pub =
     (if length pub \<noteq> PublicKeySize then None
      else Some ((c_key_id c pub, pub) # filter (\<lambda>e. fst e \<noteq> c_key_id c pub) v))"

definition NewVerifier :: "'raw codec \<Rightarrow> string list \<Rightarrow> verifier" where
  "NewVerifier c pubs = fold (\<lambda>p v. case AddKey c v p of None \<Rightarrow> v | Some v' \<Rightarrow> v') pubs []"

definition Verify :: "'raw codec \<Rightarrow> verifier \<Rightarrow> envelope \<Rightarrow> lic_error + document" where
  "Verify c v e =
     (case map_of v (env_KeyID e) of
        None \<Rightarrow> Inl (ErrUnknownKey (env_KeyID e))
      | Some pub \<Rightarrow>
      (case c_b64_decode c (env_PayloadB64 e) of
         None \<Rightarrow> Inl ErrMalformedB64
       | Some payload \<Rightarrow>
      (case c_b64_decode c (env_SigB64 e) of
         None \<Rightarrow> Inl ErrMalformedB64
       | Some sig \<Rightarrow>
      (if \<not> c_sig_ok c pub payload sig then Inl ErrBadSignature
       else case c_doc_unmarshal c payload of
         None \<Rightarrow> Inl ErrMalformedJSON
       | Some d \<Rightarrow>
      (case Validate d of
         Some err \<Rightarrow> Inl (ErrMalformedDoc err)
       | None \<Rightarrow> Inr d)))))"

text \<open>The signer of Central (\<open>sign.go\<close>): refuses an invalid document.\<close>

definition Sign :: "'raw codec \<Rightarrow> string \<Rightarrow> document \<Rightarrow> doc_error + envelope" where
  "Sign c priv d =
     (case Validate d of
        Some err \<Rightarrow> Inl err
      | None \<Rightarrow>
          (let payload = c_doc_marshal c d in
           Inr \<lparr>env_PayloadB64 = c_b64_encode c payload,
                env_SigB64 = c_b64_encode c (c_sign c priv payload),
                env_KeyID = c_key_id c (c_public c priv)\<rparr>))"

subsection \<open>Binding to an appliance\<close>

record local_identity =
  li_ApplianceID :: string
  li_IdentityKeyFingerprint :: string
  li_Serial :: string
  li_HardwareFingerprint :: string
  li_WANMAC :: string

datatype binding_result = BindingOK | BindingWrongDevice string | BindingWANMismatch

definition normMAC :: "string \<Rightarrow> string" where
  "normMAC s = map (\<lambda>ch. if ch = CHR ''-'' then CHR '':'' else ch) (ToLower (TrimSpace s))"

definition IsUnbound :: "document \<Rightarrow> bool" where
  "IsUnbound d \<longleftrightarrow>
     doc_IdentityKeyFingerprint d = [] \<and> doc_ApplianceID d = [] \<and>
     doc_ApplianceSerial d = [] \<and> doc_HardwareFingerprint d = []"

definition CheckBinding :: "document \<Rightarrow> local_identity \<Rightarrow> binding_result" where
  "CheckBinding d li =
     (if IsUnbound d then BindingOK
      else if doc_IdentityKeyFingerprint d \<noteq> [] \<and> li_IdentityKeyFingerprint li \<noteq> [] \<and>
              \<not> EqualFold (doc_IdentityKeyFingerprint d) (li_IdentityKeyFingerprint li)
        then BindingWrongDevice ''identity key fingerprint mismatch''
      else if doc_ApplianceID d \<noteq> [] \<and> li_ApplianceID li \<noteq> [] \<and> doc_ApplianceID d \<noteq> li_ApplianceID li
        then BindingWrongDevice ''appliance id mismatch''
      else if doc_ApplianceSerial d \<noteq> [] \<and> li_Serial li \<noteq> [] \<and>
              \<not> EqualFold (doc_ApplianceSerial d) (li_Serial li)
        then BindingWrongDevice ''serial mismatch''
      else if doc_HardwareFingerprint d \<noteq> [] \<and> li_HardwareFingerprint li \<noteq> [] \<and>
              \<not> EqualFold (doc_HardwareFingerprint d) (li_HardwareFingerprint li)
        then BindingWrongDevice ''hardware fingerprint mismatch''
      else if doc_WANMAC d \<noteq> [] \<and> li_WANMAC li \<noteq> [] \<and> normMAC (doc_WANMAC d) \<noteq> normMAC (li_WANMAC li)
        then BindingWANMismatch
      else BindingOK)"

definition need_local :: "string \<Rightarrow> string \<Rightarrow> bool" where
  "need_local docValue localValue \<longleftrightarrow> docValue \<noteq> [] \<and> TrimSpace localValue = []"

definition not_known_msg :: "string \<Rightarrow> string" where
  "not_known_msg what = ''this appliance's own '' @ what @
     '' is not known, so the licence cannot be checked against it''"

definition CheckInstallBinding :: "document \<Rightarrow> local_identity \<Rightarrow> binding_result" where
  "CheckInstallBinding d li =
     (if IsUnbound d \<and> doc_SchemaVersion d \<ge> 4
        then BindingWrongDevice ''the licence is not bound to any appliance''
      else if need_local (doc_IdentityKeyFingerprint d) (li_IdentityKeyFingerprint li)
        then BindingWrongDevice (not_known_msg ''identity key'')
      else if need_local (doc_ApplianceID d) (li_ApplianceID li)
        then BindingWrongDevice (not_known_msg ''appliance id'')
      else if need_local (doc_ApplianceSerial d) (li_Serial li)
        then BindingWrongDevice (not_known_msg ''serial number'')
      else if need_local (doc_HardwareFingerprint d) (li_HardwareFingerprint li)
        then BindingWrongDevice (not_known_msg ''hardware fingerprint'')
      else if li_ApplianceID li \<noteq> [] \<and> doc_ApplianceIDs d \<noteq> [] \<and>
              li_ApplianceID li \<notin> set (doc_ApplianceIDs d)
        then BindingWrongDevice ''this appliance is not listed in the licence''
      else CheckBinding d li)"

subsection \<open>Laws\<close>

text \<open>The parts of a successful verification.\<close>

lemma Verify_InrE:
  assumes "Verify c v e = Inr d"
  obtains pub payload sig where "map_of v (env_KeyID e) = Some pub"
    and "c_b64_decode c (env_PayloadB64 e) = Some payload" and "c_b64_decode c (env_SigB64 e) = Some sig"
    and "c_sig_ok c pub payload sig" and "c_doc_unmarshal c payload = Some d" and "Validate d = None"
  using assms by (auto simp: Verify_def split: option.splits if_splits)

lemma Verify_valid: "Verify c v e = Inr d \<Longrightarrow> Validate d = None"
  by (erule Verify_InrE)

lemma AddKey_size: "AddKey c v p = Some v' \<Longrightarrow> length p = PublicKeySize"
  by (auto simp: AddKey_def split: if_splits)

lemma NewVerifier_fold_keys:
  assumes "\<forall>(k, p) \<in> set v. k = c_key_id c p \<and> length p = PublicKeySize \<and> p \<in> P"
    and "set pubs \<subseteq> P"
  shows "\<forall>(k, p) \<in> set (fold (\<lambda>p v. case AddKey c v p of None \<Rightarrow> v | Some v' \<Rightarrow> v') pubs v).
           k = c_key_id c p \<and> length p = PublicKeySize \<and> p \<in> P"
  using assms
proof (induction pubs arbitrary: v)
  case (Cons p pubs)
  have "\<forall>(k, q) \<in> set (case AddKey c v p of None \<Rightarrow> v | Some v' \<Rightarrow> v').
          k = c_key_id c q \<and> length q = PublicKeySize \<and> q \<in> P"
    using Cons.prems by (auto simp: AddKey_def split: option.splits if_splits)
  with Cons show ?case by simp
qed simp

lemma NewVerifier_keys:
  assumes "map_of (NewVerifier c pubs) k = Some p"
  shows "k = c_key_id c p" and "length p = PublicKeySize" and "p \<in> set pubs"
proof -
  have "(k, p) \<in> set (NewVerifier c pubs)" using assms by (rule map_of_SomeD)
  then show "k = c_key_id c p" "length p = PublicKeySize" "p \<in> set pubs"
    using NewVerifier_fold_keys [of "[]" c "set pubs" pubs] unfolding NewVerifier_def by auto
qed

lemma AddKey_lookup:
  "AddKey c v q = Some v' \<Longrightarrow>
   map_of v' k = (if k = c_key_id c q then Some q else map_of v k)"
  by (auto simp: AddKey_def map_of_filter_other split: if_splits)

lemma NewVerifier_fold_has:
  assumes "p \<in> set pubs \<or> map_of v (c_key_id c p) = Some p"
    and "length p = PublicKeySize"
    and "\<And>q. q \<in> set pubs \<Longrightarrow> c_key_id c q = c_key_id c p \<Longrightarrow> q = p"
  shows "map_of (fold (\<lambda>p v. case AddKey c v p of None \<Rightarrow> v | Some v' \<Rightarrow> v') pubs v) (c_key_id c p)
         = Some p"
  using assms
proof (induction pubs arbitrary: v)
  case (Cons q pubs)
  let ?v' = "case AddKey c v q of None \<Rightarrow> v | Some v' \<Rightarrow> v'"
  have "p \<in> set pubs \<or> map_of ?v' (c_key_id c p) = Some p"
  proof (cases "q = p")
    case True
    then have "AddKey c v q \<noteq> None" using Cons.prems(2) by (simp add: AddKey_def)
    then show ?thesis using True by (auto simp: AddKey_lookup)
  next
    case False
    then have "c_key_id c p \<noteq> c_key_id c q" using Cons.prems(3) [of q] by auto
    then have "map_of ?v' (c_key_id c p) = map_of v (c_key_id c p)"
      by (cases "AddKey c v q") (simp_all add: AddKey_lookup)
    then show ?thesis using False Cons.prems(1) by auto
  qed
  then have "map_of (fold (\<lambda>p v. case AddKey c v p of None \<Rightarrow> v | Some v' \<Rightarrow> v') pubs ?v')
      (c_key_id c p) = Some p"
    using Cons.prems(2,3) by (intro Cons.IH) auto
  then show ?case by simp
qed simp

lemma NewVerifier_has:
  assumes "p \<in> set pubs" and "length p = PublicKeySize"
    and "\<And>q. q \<in> set pubs \<Longrightarrow> c_key_id c q = c_key_id c p \<Longrightarrow> q = p"
  shows "map_of (NewVerifier c pubs) (c_key_id c p) = Some p"
  unfolding NewVerifier_def using assms by (intro NewVerifier_fold_has) auto

lemma CheckInstallBinding_OK_iff:
  "CheckInstallBinding d li = BindingOK \<longleftrightarrow>
     \<not> (IsUnbound d \<and> doc_SchemaVersion d \<ge> 4) \<and>
     \<not> need_local (doc_IdentityKeyFingerprint d) (li_IdentityKeyFingerprint li) \<and>
     \<not> need_local (doc_ApplianceID d) (li_ApplianceID li) \<and>
     \<not> need_local (doc_ApplianceSerial d) (li_Serial li) \<and>
     \<not> need_local (doc_HardwareFingerprint d) (li_HardwareFingerprint li) \<and>
     \<not> (li_ApplianceID li \<noteq> [] \<and> doc_ApplianceIDs d \<noteq> [] \<and>
        li_ApplianceID li \<notin> set (doc_ApplianceIDs d)) \<and>
     CheckBinding d li = BindingOK"
  by (simp add: CheckInstallBinding_def)

lemma CheckBinding_OKD:
  assumes "CheckBinding d li = BindingOK"
  shows "doc_IdentityKeyFingerprint d \<noteq> [] \<Longrightarrow> li_IdentityKeyFingerprint li \<noteq> [] \<Longrightarrow>
         EqualFold (doc_IdentityKeyFingerprint d) (li_IdentityKeyFingerprint li)"
    and "doc_ApplianceID d \<noteq> [] \<Longrightarrow> li_ApplianceID li \<noteq> [] \<Longrightarrow> doc_ApplianceID d = li_ApplianceID li"
    and "doc_ApplianceSerial d \<noteq> [] \<Longrightarrow> li_Serial li \<noteq> [] \<Longrightarrow>
         EqualFold (doc_ApplianceSerial d) (li_Serial li)"
    and "doc_HardwareFingerprint d \<noteq> [] \<Longrightarrow> li_HardwareFingerprint li \<noteq> [] \<Longrightarrow>
         EqualFold (doc_HardwareFingerprint d) (li_HardwareFingerprint li)"
  using assms by (simp_all add: CheckBinding_def IsUnbound_def split: if_split_asm)

subsection \<open>Properties\<close>

text \<open>
  The envelope Central signs verifies to the signed document on an appliance that holds the
  signer's public key: no valid document is lost on the way. The library is assumed to decode what
  it encoded, to accept its own signature on this payload, and not to give two of the appliance's
  keys the same key id.
\<close>

theorem sign_verify_roundtrip:
  assumes "Sign c priv d = Inr e"
    and "c_public c priv \<in> set pubs" and "length (c_public c priv) = PublicKeySize"
    and "\<And>p. p \<in> set pubs \<Longrightarrow> c_key_id c p = c_key_id c (c_public c priv) \<Longrightarrow> p = c_public c priv"
    and "\<And>x. c_b64_decode c (c_b64_encode c x) = Some x"
    and "c_doc_unmarshal c (c_doc_marshal c d) = Some d"
    and "c_sig_ok c (c_public c priv) (c_doc_marshal c d) (c_sign c priv (c_doc_marshal c d))"
  shows "Verify c (NewVerifier c pubs) e = Inr d"
proof -
  have val: "Validate d = None" and e: "env_PayloadB64 e = c_b64_encode c (c_doc_marshal c d)"
    "env_SigB64 e = c_b64_encode c (c_sign c priv (c_doc_marshal c d))"
    "env_KeyID e = c_key_id c (c_public c priv)"
    using assms(1) by (auto simp: Sign_def Let_def split: option.splits)
  have "map_of (NewVerifier c pubs) (c_key_id c (c_public c priv)) = Some (c_public c priv)"
    by (rule NewVerifier_has [OF assms(2,3,4)])
  then show ?thesis using assms(5,6,7) val e by (simp add: Verify_def)
qed

text \<open>A codec for the witnesses: identity encodings and a signature that is the message itself.\<close>

definition sample_codec :: "document \<Rightarrow> string codec" where
  "sample_codec d =
     \<lparr>c_key_id = id, c_sig_ok = (\<lambda>pub m sg. sg = m), c_sign = (\<lambda>priv m. m), c_public = id,
      c_b64_encode = id, c_b64_decode = Some, c_sha256_hex = id, c_doc_marshal = (\<lambda>d. ''doc''),
      c_doc_unmarshal = (\<lambda>s. Some d), c_json_valid = (\<lambda>s. True), c_env_decode = (\<lambda>s. None),
      c_state_marshal = (\<lambda>s. []), c_state_unmarshal = (\<lambda>s. None), c_ids_marshal = (\<lambda>s. []),
      c_ids_unmarshal = (\<lambda>s. None)\<rparr>"

definition sample_key :: string where "sample_key = replicate 32 CHR ''k''"

theorem sign_verify_roundtrip_witness:
  "\<exists>e. Sign (sample_codec sample_doc) sample_key sample_doc = Inr e \<and>
       Verify (sample_codec sample_doc) (NewVerifier (sample_codec sample_doc) [sample_key]) e = Inr sample_doc"
proof -
  have "\<exists>e. Sign (sample_codec sample_doc) sample_key sample_doc = Inr e"
    by (simp add: Sign_def Let_def sample_doc_valid)
  then obtain e where e: "Sign (sample_codec sample_doc) sample_key sample_doc = Inr e" ..
  have "Verify (sample_codec sample_doc) (NewVerifier (sample_codec sample_doc) [sample_key]) e = Inr sample_doc"
    by (rule sign_verify_roundtrip [OF e]) (simp_all add: sample_codec_def sample_key_def PublicKeySize_def)
  with e show ?thesis by blast
qed



lemma CheckInstallBinding_OKD:
  assumes "CheckInstallBinding d li = BindingOK"
  shows "CheckBinding d li = BindingOK"
    and "doc_SchemaVersion d \<ge> 4 \<Longrightarrow> \<not> IsUnbound d"
    and "doc_ApplianceID d \<noteq> [] \<Longrightarrow> li_ApplianceID li = doc_ApplianceID d"
    and "doc_IdentityKeyFingerprint d \<noteq> [] \<Longrightarrow>
         EqualFold (doc_IdentityKeyFingerprint d) (li_IdentityKeyFingerprint li)"
    and "doc_ApplianceSerial d \<noteq> [] \<Longrightarrow> EqualFold (doc_ApplianceSerial d) (li_Serial li)"
    and "doc_HardwareFingerprint d \<noteq> [] \<Longrightarrow>
         EqualFold (doc_HardwareFingerprint d) (li_HardwareFingerprint li)"
    and "doc_ApplianceIDs d \<noteq> [] \<Longrightarrow> li_ApplianceID li \<noteq> [] \<Longrightarrow>
         li_ApplianceID li \<in> set (doc_ApplianceIDs d)"
proof -
  have chk: "CheckBinding d li = BindingOK" and bound: "\<not> (IsUnbound d \<and> doc_SchemaVersion d \<ge> 4)"
    and known: "\<not> need_local (doc_IdentityKeyFingerprint d) (li_IdentityKeyFingerprint li)"
      "\<not> need_local (doc_ApplianceID d) (li_ApplianceID li)"
      "\<not> need_local (doc_ApplianceSerial d) (li_Serial li)"
      "\<not> need_local (doc_HardwareFingerprint d) (li_HardwareFingerprint li)"
    and listed: "\<not> (li_ApplianceID li \<noteq> [] \<and> doc_ApplianceIDs d \<noteq> [] \<and>
                    li_ApplianceID li \<notin> set (doc_ApplianceIDs d))"
    using assms unfolding CheckInstallBinding_OK_iff by blast+
  show "CheckBinding d li = BindingOK" by (rule chk)
  show "doc_SchemaVersion d \<ge> 4 \<Longrightarrow> \<not> IsUnbound d" using bound by blast
  note agree = CheckBinding_OKD [OF chk]
  show "doc_ApplianceID d \<noteq> [] \<Longrightarrow> li_ApplianceID li = doc_ApplianceID d"
    using agree(2) known(2) by (metis TrimSpace_Nil need_local_def)
  show "doc_IdentityKeyFingerprint d \<noteq> [] \<Longrightarrow>
        EqualFold (doc_IdentityKeyFingerprint d) (li_IdentityKeyFingerprint li)"
    using agree(1) known(1) by (metis TrimSpace_Nil need_local_def)
  show "doc_ApplianceSerial d \<noteq> [] \<Longrightarrow> EqualFold (doc_ApplianceSerial d) (li_Serial li)"
    using agree(3) known(3) by (metis TrimSpace_Nil need_local_def)
  show "doc_HardwareFingerprint d \<noteq> [] \<Longrightarrow>
        EqualFold (doc_HardwareFingerprint d) (li_HardwareFingerprint li)"
    using agree(4) known(4) by (metis TrimSpace_Nil need_local_def)
  show "doc_ApplianceIDs d \<noteq> [] \<Longrightarrow> li_ApplianceID li \<noteq> [] \<Longrightarrow>
        li_ApplianceID li \<in> set (doc_ApplianceIDs d)" using listed by blast
qed

text \<open>
  The check at installation is the strict one. A licence that passes it passes the check made at
  every evaluation; every binding field it names is known to the appliance and agrees with it; a
  version-4 licence that names no appliance at all is refused.
\<close>

theorem install_binding_strict:
  assumes "CheckInstallBinding d li = BindingOK"
  shows "CheckBinding d li = BindingOK \<and> (doc_SchemaVersion d \<ge> 4 \<longrightarrow> \<not> IsUnbound d) \<and>
         (doc_ApplianceID d \<noteq> [] \<longrightarrow> li_ApplianceID li = doc_ApplianceID d) \<and>
         (doc_IdentityKeyFingerprint d \<noteq> [] \<longrightarrow>
            EqualFold (doc_IdentityKeyFingerprint d) (li_IdentityKeyFingerprint li)) \<and>
         (doc_ApplianceSerial d \<noteq> [] \<longrightarrow> EqualFold (doc_ApplianceSerial d) (li_Serial li)) \<and>
         (doc_HardwareFingerprint d \<noteq> [] \<longrightarrow>
            EqualFold (doc_HardwareFingerprint d) (li_HardwareFingerprint li)) \<and>
         (doc_ApplianceIDs d \<noteq> [] \<and> li_ApplianceID li \<noteq> [] \<longrightarrow>
            li_ApplianceID li \<in> set (doc_ApplianceIDs d))"
  using CheckInstallBinding_OKD [OF assms] by blast

definition sample_identity :: local_identity where
  "sample_identity = \<lparr>li_ApplianceID = ''A1'', li_IdentityKeyFingerprint = [], li_Serial = [],
     li_HardwareFingerprint = [], li_WANMAC = []\<rparr>"

theorem install_binding_strict_witness:
  "CheckInstallBinding sample_doc sample_identity = BindingOK \<and> CheckBinding sample_doc sample_identity = BindingOK"
proof -
  have "CheckInstallBinding sample_doc sample_identity = BindingOK"
    by (simp add: CheckInstallBinding_def CheckBinding_def need_local_def IsUnbound_def sample_doc_def
        sample_identity_def TrimSpace_def is_space_def)
  with install_binding_strict [OF this] show ?thesis by blast
qed

end
