(* ===== verification/License_Store.thy ===== *)
theory License_Store
  imports License_Verify
begin

text \<open>
  The licence store of an appliance (\<open>license/store.go\<close>): three files on disk, each replaced through
  a temporary file and kept with its previous copy, and the operations that install a licence,
  evaluate it, record a contact with Central, reset the clock mark and record a revocation. The
  disk is explicit, and so is every way a write can fail, so the theorems hold across crashes and
  full disks. The store's mutex makes each operation one step.
\<close>

subsection \<open>Files\<close>

datatype 'raw fread = NoFile | Unreadable | Content 'raw

type_synonym 'raw disk = "string \<Rightarrow> 'raw fread"

definition stateFile :: string where "stateFile = ''state.json''"
definition currentFile :: string where "currentFile = ''current.json''"
definition revokedFile :: string where "revokedFile = ''revoked.json''"
definition prevSuffix :: string where "prevSuffix = ''.prev''"

lemmas file_names = stateFile_def currentFile_def revokedFile_def prevSuffix_def

definition clockRollbackTolerance :: duration where "clockRollbackTolerance = 48 * hour"

datatype 'a read_result = ReadOK 'a | ReadNotExist | ReadDamaged

definition read_prev :: "'raw disk \<Rightarrow> string \<Rightarrow> ('raw \<Rightarrow> 'a option) \<Rightarrow> 'a read_result" where
  "read_prev d name parse =
     (case d (name @ prevSuffix) of
        Content p \<Rightarrow> (case parse p of Some x \<Rightarrow> ReadOK x | None \<Rightarrow> ReadDamaged)
      | _ \<Rightarrow> ReadDamaged)"

definition readFileOrPrev :: "'raw disk \<Rightarrow> string \<Rightarrow> ('raw \<Rightarrow> 'a option) \<Rightarrow> 'a read_result" where
  "readFileOrPrev d name parse =
     (case d name of
        Content raw \<Rightarrow> (case parse raw of Some x \<Rightarrow> ReadOK x | None \<Rightarrow> read_prev d name parse)
      | NoFile \<Rightarrow> (case d (name @ prevSuffix) of NoFile \<Rightarrow> ReadNotExist | _ \<Rightarrow> read_prev d name parse)
      | Unreadable \<Rightarrow> read_prev d name parse)"

definition zero_state :: store_state where
  "zero_state = \<lparr>InstalledIssuedAt = 0, HighestVersion = 0, AcceptedLicenseID = [],
     AcceptedFingerprint = [], HighWater = 0, LastCloudValidation = 0\<rparr>"

definition readState :: "'raw codec \<Rightarrow> 'raw disk \<Rightarrow> lic_error + store_state" where
  "readState c d =
     (case readFileOrPrev d stateFile (c_state_unmarshal c) of
        ReadOK st \<Rightarrow> Inr st | ReadNotExist \<Rightarrow> Inr zero_state | ReadDamaged \<Rightarrow> Inl ErrStateDamaged)"

definition readRevoked :: "'raw codec \<Rightarrow> 'raw disk \<Rightarrow> lic_error + string list" where
  "readRevoked c d =
     (case readFileOrPrev d revokedFile (c_ids_unmarshal c) of
        ReadOK ids \<Rightarrow> Inr ids | ReadNotExist \<Rightarrow> Inr [] | ReadDamaged \<Rightarrow> Inl ErrStateDamaged)"

text \<open>
  A write goes to a temporary file that is synced, then renamed over the target, then the directory
  is synced. It can fail before the rename (nothing changed) or after it (changed, but an error is
  returned). \<open>io\<close> says what happens to each file an operation writes; no operation writes one twice.
\<close>

datatype io_outcome = IoOk | IoFailBefore | IoFailAfter

record io_env =
  io_mkdir :: bool
  io_write :: "string \<Rightarrow> io_outcome"

definition writeSynced :: "io_env \<Rightarrow> string \<Rightarrow> 'raw \<Rightarrow> 'raw disk \<Rightarrow> 'raw disk \<times> bool" where
  "writeSynced io dst raw d =
     (case io_write io dst of
        IoOk \<Rightarrow> (d(dst := Content raw), True)
      | IoFailBefore \<Rightarrow> (d, False)
      | IoFailAfter \<Rightarrow> (d(dst := Content raw), False))"

definition writeDurable :: "'raw codec \<Rightarrow> io_env \<Rightarrow> string \<Rightarrow> 'raw \<Rightarrow> 'raw disk \<Rightarrow> 'raw disk \<times> bool" where
  "writeDurable c io name raw d =
     (if \<not> io_mkdir io then (d, False)
      else case d name of
        Content cur \<Rightarrow>
          (if c_json_valid c cur then
             (case writeSynced io (name @ prevSuffix) cur d of
                (d1, False) \<Rightarrow> (d1, False)
              | (d1, True) \<Rightarrow> writeSynced io name raw d1)
           else writeSynced io name raw d)
      | _ \<Rightarrow> writeSynced io name raw d)"

definition writeState :: "'raw codec \<Rightarrow> io_env \<Rightarrow> store_state \<Rightarrow> 'raw disk \<Rightarrow> 'raw disk \<times> bool" where
  "writeState c io st d = writeDurable c io stateFile (c_state_marshal c st) d"

definition advanceHighWater :: "store_state \<Rightarrow> go_time \<Rightarrow> store_state" where
  "advanceHighWater st now = (if \<not> now > HighWater st then st else st\<lparr>HighWater := now\<rparr>)"

subsection \<open>Operations\<close>

definition decode_verify :: "'raw codec \<Rightarrow> verifier \<Rightarrow> 'raw \<Rightarrow> lic_error + document" where
  "decode_verify c v raw =
     (case c_env_decode c raw of None \<Rightarrow> Inl ErrEnvelope | Some env \<Rightarrow> Verify c v env)"

text \<open>The rollback guards of \<open>Install\<close>, in the order of the code.\<close>

definition install_guard ::
  "document \<Rightarrow> string \<Rightarrow> store_state \<Rightarrow> string list \<Rightarrow> lic_error option" where
  "install_guard doc fpr st revoked =
     (if doc_LicenseID doc \<in> set revoked then Some (ErrRollbackRevoked (doc_LicenseID doc))
      else if HighestVersion st > 0 \<and> doc_LicenseVersion doc < HighestVersion st
        then Some (ErrRollbackVersion (doc_LicenseVersion doc) (HighestVersion st))
      else if HighestVersion st > 0 \<and> doc_LicenseVersion doc = HighestVersion st \<and>
              (doc_LicenseID doc \<noteq> AcceptedLicenseID st \<or>
               (AcceptedFingerprint st \<noteq> [] \<and> fpr \<noteq> AcceptedFingerprint st))
        then Some (ErrRollbackSameVersion (doc_LicenseVersion doc))
      else if \<not> (doc_LicenseVersion doc > 0 \<and> doc_LicenseVersion doc > HighestVersion st) \<and>
              InstalledIssuedAt st \<noteq> 0 \<and> doc_IssuedAt doc < InstalledIssuedAt st
        then Some ErrRollbackIssuedAt
      else None)"

definition accepted_state :: "document \<Rightarrow> string \<Rightarrow> store_state \<Rightarrow> store_state" where
  "accepted_state doc fpr st =
     (let st1 = st\<lparr>InstalledIssuedAt := doc_IssuedAt doc\<rparr> in
      if doc_LicenseVersion doc \<ge> HighestVersion st
      then st1\<lparr>HighestVersion := doc_LicenseVersion doc, AcceptedLicenseID := doc_LicenseID doc,
               AcceptedFingerprint := fpr\<rparr>
      else st1)"

definition Install ::
  "'raw codec \<Rightarrow> verifier \<Rightarrow> io_env \<Rightarrow> 'raw \<Rightarrow> go_time \<Rightarrow> 'raw disk \<Rightarrow> (lic_error + document) \<times> 'raw disk" where
  "Install c v io raw now d =
     (case c_env_decode c raw of
        None \<Rightarrow> (Inl ErrEnvelope, d)
      | Some env \<Rightarrow>
     (case Verify c v env of
        Inl e \<Rightarrow> (Inl e, d)
      | Inr doc \<Rightarrow>
     (case readState c d of
        Inl e \<Rightarrow> (Inl e, d)
      | Inr st \<Rightarrow>
     (case readRevoked c d of
        Inl e \<Rightarrow> (Inl e, d)
      | Inr revoked \<Rightarrow>
     (let fpr = c_sha256_hex c (env_PayloadB64 env) in
      case install_guard doc fpr st revoked of
        Some e \<Rightarrow> (Inl e, d)
      | None \<Rightarrow>
     (case writeDurable c io currentFile raw d of
        (d1, False) \<Rightarrow> (Inl ErrIO, d1)
      | (d1, True) \<Rightarrow>
     (case writeState c io (advanceHighWater (accepted_state doc fpr st) now) d1 of
        (d2, False) \<Rightarrow> (Inl ErrIO, d2)
      | (d2, True) \<Rightarrow> (Inr doc, d2))))))))"

definition ResetHighWater ::
  "'raw codec \<Rightarrow> io_env \<Rightarrow> go_time \<Rightarrow> go_time \<Rightarrow> duration \<Rightarrow> 'raw disk \<Rightarrow> (lic_error + go_time) \<times> 'raw disk" where
  "ResetHighWater c io centralTime localNow skew d =
     (if centralTime = 0 then (Inl ErrNoCentralTime, d)
      else if time_sub localNow centralTime > skew \<or> time_sub localNow centralTime < wrap64 (- skew)
        then (Inl ErrClockSkew, d)
      else case readState c d of
        Inl e \<Rightarrow> (Inl e, d)
      | Inr st \<Rightarrow>
          (case writeState c io (st\<lparr>HighWater := centralTime\<rparr>) d of
             (d1, False) \<Rightarrow> (Inl ErrIO, d1)
           | (d1, True) \<Rightarrow> (Inr (HighWater st), d1)))"

definition MarkCloudValidated :: "'raw codec \<Rightarrow> io_env \<Rightarrow> go_time \<Rightarrow> 'raw disk \<Rightarrow> lic_error option \<times> 'raw disk" where
  "MarkCloudValidated c io now d =
     (case readState c d of
        Inl e \<Rightarrow> (Some e, d)
      | Inr st \<Rightarrow>
          (case writeState c io (advanceHighWater (st\<lparr>LastCloudValidation := now\<rparr>) now) d of
             (d1, ok) \<Rightarrow> (if ok then None else Some ErrIO, d1)))"

text \<open>The ids are written in Go's map order; only the set of them is read back.\<close>

definition AddRevocation :: "'raw codec \<Rightarrow> io_env \<Rightarrow> string \<Rightarrow> 'raw disk \<Rightarrow> lic_error option \<times> 'raw disk" where
  "AddRevocation c io licenseID d =
     (case readRevoked c d of
        Inl e \<Rightarrow> (Some e, d)
      | Inr rev_ids \<Rightarrow>
          (if licenseID \<in> set rev_ids then (None, d)
           else case writeDurable c io revokedFile (c_ids_marshal c (licenseID # remdups rev_ids)) d of
             (d1, ok) \<Rightarrow> (if ok then None else Some ErrIO, d1)))"

definition supersededByState :: "document \<Rightarrow> store_state \<Rightarrow> bool" where
  "supersededByState doc st =
     (if HighestVersion st > 0 then
        (if doc_LicenseVersion doc < HighestVersion st then True
         else if doc_LicenseVersion doc = HighestVersion st \<and> AcceptedLicenseID st \<noteq> [] \<and>
                 doc_LicenseID doc \<noteq> AcceptedLicenseID st then True
         else False)
      else InstalledIssuedAt st \<noteq> 0 \<and> doc_IssuedAt doc < InstalledIssuedAt st)"

definition Load :: "'raw codec \<Rightarrow> verifier \<Rightarrow> 'raw disk \<Rightarrow> lic_error + document" where
  "Load c v d =
     (case readFileOrPrev d currentFile
             (\<lambda>raw. case decode_verify c v raw of Inl e \<Rightarrow> None | Inr doc \<Rightarrow> Some doc) of
        ReadNotExist \<Rightarrow> Inl ErrNoLicense
      | ReadDamaged \<Rightarrow> Inl ErrStateDamaged
      | ReadOK doc \<Rightarrow>
          (case readState c d of
             Inl e \<Rightarrow> Inl e
           | Inr st \<Rightarrow> if supersededByState doc st then Inl ErrStateDamaged else Inr doc))"

definition expired_evaluation :: evaluation where
  "expired_evaluation = \<lparr>ev_State = StateExpired, ev_Doc = None, ev_GraceUntil = 0,
     ev_RestrictedUntil = 0, ev_ClockRollback = False, ev_LastCloudValidation = 0, ev_CloudStale = False\<rparr>"

definition effective_now :: "store_state \<Rightarrow> go_time \<Rightarrow> go_time" where
  "effective_now st now =
     (if time_sub (HighWater st) now > clockRollbackTolerance then HighWater st else now)"

definition store_Evaluate ::
  "'raw codec \<Rightarrow> verifier \<Rightarrow> io_env \<Rightarrow> go_time \<Rightarrow> 'raw disk \<Rightarrow> (evaluation \<times> lic_error option) \<times> 'raw disk" where
  "store_Evaluate c v io now d =
     (case Load c v d of
        Inl e \<Rightarrow> ((expired_evaluation, Some e), d)
      | Inr doc \<Rightarrow>
     (case readState c d of
        Inl e \<Rightarrow> ((expired_evaluation, Some e), d)
      | Inr st \<Rightarrow>
     (case readRevoked c d of
        Inl e \<Rightarrow> ((expired_evaluation, Some e), d)
      | Inr revoked \<Rightarrow>
          (let st' = advanceHighWater st now;
               d1 = (if now > HighWater st then fst (writeState c io st' d) else d);
               ev = Evaluate doc (effective_now st now) (LastCloudValidation st')
                      (doc_LicenseID doc \<in> set revoked)
           in ((ev\<lparr>ev_ClockRollback := time_sub (HighWater st) now > clockRollbackTolerance\<rparr>, None), d1)))))"

subsection \<open>Interface: a durable cell\<close>

text \<open>
  What the operations rely on of a file: a write that reports success is what the next read returns;
  a write that fails in any way leaves the old value or the new one, never a damaged file.
\<close>

locale durable_cell =
  fixes read_cell :: "'d \<Rightarrow> 'e + 'a"
    and write_cell :: "'i \<Rightarrow> 'a \<Rightarrow> 'd \<Rightarrow> 'd \<times> bool"
    and wf :: "'d \<Rightarrow> bool"
  assumes write_old_or_new: "wf d \<Longrightarrow>
      read_cell (fst (write_cell i x d)) = read_cell d \<or> read_cell (fst (write_cell i x d)) = Inr x"
    and write_ok: "wf d \<Longrightarrow> write_cell i x d = (d', True) \<Longrightarrow> read_cell d' = Inr x"
    and write_wf: "wf d \<Longrightarrow> wf (fst (write_cell i x d))"
begin

lemma write_forward:
  assumes "wf d" and "read_cell d = Inr a" and "R a a" and "R a x"
  shows "\<exists>b. read_cell (fst (write_cell i x d)) = Inr b \<and> R a b"
  using write_old_or_new [OF assms(1), of i x] assms(2-4) by auto

end

lemma readFileOrPrev_cong:
  "d name = d' name \<Longrightarrow> d (name @ prevSuffix) = d' (name @ prevSuffix) \<Longrightarrow>
   readFileOrPrev d name parse = readFileOrPrev d' name parse"
  by (simp add: readFileOrPrev_def read_prev_def split: fread.split option.split)

lemma name_prev_neq [simp]: "name \<noteq> name @ prevSuffix" "name @ prevSuffix \<noteq> name"
  by (simp_all add: prevSuffix_def)

lemma prevSuffix_nonempty [simp]: "prevSuffix \<noteq> []"
  by (simp add: prevSuffix_def)

lemma writeSynced_other: "f \<noteq> dst \<Longrightarrow> fst (writeSynced io dst raw d) f = d f"
  by (simp add: writeSynced_def split: io_outcome.split)

lemma writeDurable_other:
  "f \<noteq> name \<Longrightarrow> f \<noteq> name @ prevSuffix \<Longrightarrow> fst (writeDurable c io name raw d) f = d f"
  by (auto simp: writeDurable_def writeSynced_def split: fread.split io_outcome.split)

text \<open>A file holds what the store wrote, or something that is not even JSON.\<close>

definition cell_wf :: "'raw codec \<Rightarrow> string \<Rightarrow> ('raw \<Rightarrow> 'a option) \<Rightarrow> 'raw disk \<Rightarrow> bool" where
  "cell_wf c name parse d \<longleftrightarrow> (\<forall>cur. d name = Content cur \<and> c_json_valid c cur \<longrightarrow> parse cur \<noteq> None)"

lemma writeDurable_name:
  "fst (writeDurable c io name raw d) name = d name \<or> fst (writeDurable c io name raw d) name = Content raw"
  by (auto simp: writeDurable_def writeSynced_def split: fread.split io_outcome.split)

lemma readFileOrPrev_parsed:
  "d name = Content raw \<Longrightarrow> parse raw = Some x \<Longrightarrow> readFileOrPrev d name parse = ReadOK x"
  by (simp add: readFileOrPrev_def)

lemma writeDurable_prev:
  assumes "fst (writeDurable c io name raw d) name = d name"
  shows "fst (writeDurable c io name raw d) (name @ prevSuffix) = d (name @ prevSuffix) \<or>
         (\<exists>cur. d name = Content cur \<and> c_json_valid c cur)"
  by (auto simp: writeDurable_def writeSynced_def split: fread.split io_outcome.split)

lemma writeDurable_reads:
  assumes "cell_wf c name parse d" and "parse raw = Some x"
  shows "readFileOrPrev (fst (writeDurable c io name raw d)) name parse = readFileOrPrev d name parse \<or>
         readFileOrPrev (fst (writeDurable c io name raw d)) name parse = ReadOK x"
proof (cases "fst (writeDurable c io name raw d) name = Content raw")
  case True
  then show ?thesis using assms(2) by (simp add: readFileOrPrev_parsed)
next
  case False
  then have same: "fst (writeDurable c io name raw d) name = d name"
    using writeDurable_name [of c io name raw d] by blast
  show ?thesis
  proof (cases "\<exists>cur. d name = Content cur \<and> c_json_valid c cur")
    case True
    then obtain cur y where "d name = Content cur" and "parse cur = Some y"
      using assms(1) by (auto simp: cell_wf_def)
    then show ?thesis using same by (simp add: readFileOrPrev_parsed)
  next
    case False
    then show ?thesis using writeDurable_prev [OF same] readFileOrPrev_cong same by blast
  qed
qed

lemma writeDurable_success:
  "writeDurable c io name raw d = (d', True) \<Longrightarrow> d' name = Content raw"
  by (auto simp: writeDurable_def writeSynced_def split: fread.splits io_outcome.splits if_splits)

lemma writeDurable_fail_before:
  assumes "io_write io name = IoFailBefore" and "writeDurable c io name raw d = (d', ok)"
  shows "\<not> ok" and "d' name = d name"
  using assms by (auto simp: writeDurable_def writeSynced_def split: fread.splits io_outcome.splits if_splits)

lemma writeDurable_wf:
  assumes "cell_wf c name parse d" and "parse raw = Some x"
  shows "cell_wf c name parse (fst (writeDurable c io name raw d))"
  using writeDurable_name [of c io name raw d] assms by (auto simp: cell_wf_def)

text \<open>What the code relies on of the JSON package: it reads back what it wrote.\<close>

definition codec_ok :: "'raw codec \<Rightarrow> bool" where
  "codec_ok c \<longleftrightarrow> (\<forall>st. c_state_unmarshal c (c_state_marshal c st) = Some st) \<and>
                 (\<forall>ids. c_ids_unmarshal c (c_ids_marshal c ids) = Some ids)"

definition store_inv :: "'raw codec \<Rightarrow> 'raw disk \<Rightarrow> bool" where
  "store_inv c d \<longleftrightarrow> codec_ok c \<and> cell_wf c stateFile (c_state_unmarshal c) d \<and>
                   cell_wf c revokedFile (c_ids_unmarshal c) d"

lemma cell_wf_cong: "d name = d' name \<Longrightarrow> cell_wf c name parse d = cell_wf c name parse d'"
  by (simp add: cell_wf_def)

definition write_ids :: "'raw codec \<Rightarrow> io_env \<Rightarrow> string list \<Rightarrow> 'raw disk \<Rightarrow> 'raw disk \<times> bool" where
  "write_ids c io ids d = writeDurable c io revokedFile (c_ids_marshal c ids) d"

lemma file_distinct [simp]:
  "stateFile \<noteq> revokedFile" "revokedFile \<noteq> stateFile" "stateFile \<noteq> currentFile" "currentFile \<noteq> stateFile"
  "revokedFile \<noteq> currentFile" "currentFile \<noteq> revokedFile"
  "stateFile \<noteq> revokedFile @ prevSuffix" "revokedFile \<noteq> stateFile @ prevSuffix"
  "stateFile \<noteq> currentFile @ prevSuffix" "revokedFile \<noteq> currentFile @ prevSuffix"
  "currentFile \<noteq> stateFile @ prevSuffix" "currentFile \<noteq> revokedFile @ prevSuffix"
  "stateFile @ prevSuffix \<noteq> revokedFile" "revokedFile @ prevSuffix \<noteq> stateFile"
  by (simp_all add: file_names)

lemma writeDurable_frame:
  assumes "name \<noteq> name'" and "name \<noteq> name' @ prevSuffix" and "name' \<noteq> name @ prevSuffix"
  shows "readFileOrPrev (fst (writeDurable c io name raw d)) name' parse = readFileOrPrev d name' parse"
    and "cell_wf c name' parse' (fst (writeDurable c io name raw d)) = cell_wf c name' parse' d"
proof -
  have "fst (writeDurable c io name raw d) name' = d name'"
    using assms by (intro writeDurable_other) auto
  moreover have "fst (writeDurable c io name raw d) (name' @ prevSuffix) = d (name' @ prevSuffix)"
    using assms by (intro writeDurable_other) auto
  ultimately show "readFileOrPrev (fst (writeDurable c io name raw d)) name' parse = readFileOrPrev d name' parse"
    and "cell_wf c name' parse' (fst (writeDurable c io name raw d)) = cell_wf c name' parse' d"
    by (auto intro: readFileOrPrev_cong simp: cell_wf_def)
qed

lemmas store_defs = readState_def readRevoked_def writeState_def write_ids_def

interpretation state_cell: durable_cell "readState c" "writeState c" "store_inv c" for c
proof (standard, goal_cases)
  case (1 d i x)
  then have "c_state_unmarshal c (c_state_marshal c x) = Some x"
    and "cell_wf c stateFile (c_state_unmarshal c) d" by (auto simp: store_inv_def codec_ok_def)
  from writeDurable_reads [OF this(2,1), of i] show ?case by (auto simp: store_defs)
next
  case (2 d i x d')
  then have "c_state_unmarshal c (c_state_marshal c x) = Some x" by (auto simp: store_inv_def codec_ok_def)
  with 2 show ?case by (auto simp: store_defs readFileOrPrev_parsed dest: writeDurable_success)
next
  case (3 d i x)
  then show ?case
    by (auto simp: store_inv_def codec_ok_def writeState_def writeDurable_wf writeDurable_frame)
qed

interpretation revoked_cell: durable_cell "readRevoked c" "write_ids c" "store_inv c" for c
proof (standard, goal_cases)
  case (1 d i x)
  then have "c_ids_unmarshal c (c_ids_marshal c x) = Some x"
    and "cell_wf c revokedFile (c_ids_unmarshal c) d" by (auto simp: store_inv_def codec_ok_def)
  from writeDurable_reads [OF this(2,1), of i] show ?case by (auto simp: store_defs)
next
  case (2 d i x d')
  then have "c_ids_unmarshal c (c_ids_marshal c x) = Some x" by (auto simp: store_inv_def codec_ok_def)
  with 2 show ?case by (auto simp: store_defs readFileOrPrev_parsed dest: writeDurable_success)
next
  case (3 d i x)
  then show ?case
    by (auto simp: store_inv_def codec_ok_def write_ids_def writeDurable_wf writeDurable_frame)
qed

subsection \<open>The store as a machine\<close>

text \<open>
  The operations other components call, each with the outcome of its writes. The reset of the clock
  mark is kept apart: it is the one operation that may lower the mark.
\<close>

datatype 'raw base_op =
    OpInstall io_env 'raw go_time
  | OpEvaluate io_env go_time
  | OpMarkCloud io_env go_time
  | OpRevoke io_env string

datatype 'raw store_op =
    OpBase "'raw base_op"
  | OpResetHighWater io_env go_time go_time duration

fun base_step :: "'raw codec \<Rightarrow> verifier \<Rightarrow> 'raw disk \<Rightarrow> 'raw base_op \<Rightarrow> 'raw disk" where
  "base_step c v d (OpInstall io raw now) = snd (Install c v io raw now d)"
| "base_step c v d (OpEvaluate io now) = snd (store_Evaluate c v io now d)"
| "base_step c v d (OpMarkCloud io now) = snd (MarkCloudValidated c io now d)"
| "base_step c v d (OpRevoke io lid) = snd (AddRevocation c io lid d)"

fun store_step :: "'raw codec \<Rightarrow> verifier \<Rightarrow> 'raw disk \<Rightarrow> 'raw store_op \<Rightarrow> 'raw disk" where
  "store_step c v d (OpBase b) = base_step c v d b"
| "store_step c v d (OpResetHighWater io ct ln sk) = snd (ResetHighWater c io ct ln sk d)"

text \<open>Every operation is one of these changes of the disk.\<close>

inductive disk_change :: "'raw codec \<Rightarrow> bool \<Rightarrow> 'raw disk \<Rightarrow> 'raw disk \<Rightarrow> bool" for c reset where
  change_none: "disk_change c reset d d"
| change_current: "disk_change c reset d (fst (writeDurable c io currentFile raw d))"
| change_state: "readState c d = Inr st \<Longrightarrow> HighestVersion st \<le> HighestVersion st' \<Longrightarrow>
    (\<not> reset \<longrightarrow> HighWater st \<le> HighWater st') \<Longrightarrow> disk_change c reset d (fst (writeState c io st' d))"
| change_ids: "readRevoked c d = Inr ids \<Longrightarrow> set ids \<subseteq> set ids' \<Longrightarrow>
    disk_change c reset d (fst (write_ids c io ids' d))"
| change_trans: "disk_change c reset d d' \<Longrightarrow> disk_change c reset d' d'' \<Longrightarrow> disk_change c reset d d''"

lemma readState_current [simp]:
  "readState c (fst (writeDurable c io currentFile raw d)) = readState c d"
  "readRevoked c (fst (writeDurable c io currentFile raw d)) = readRevoked c d"
  by (simp_all add: readState_def readRevoked_def writeDurable_frame)

lemma readRevoked_state [simp]: "readRevoked c (fst (writeState c io st d)) = readRevoked c d"
  by (simp add: readRevoked_def writeState_def writeDurable_frame)

lemma readState_ids [simp]: "readState c (fst (write_ids c io ids d)) = readState c d"
  by (simp add: readState_def write_ids_def writeDurable_frame)

lemma install_guard_version:
  "install_guard doc fpr st revoked = None \<Longrightarrow> 0 < HighestVersion st \<Longrightarrow>
   HighestVersion st \<le> doc_LicenseVersion doc"
  by (auto simp: install_guard_def split: if_splits)

lemma accepted_state_version: "HighestVersion st \<le> HighestVersion (accepted_state doc fpr st)"
  by (simp add: accepted_state_def Let_def)

lemma accepted_state_mark [simp]: "HighWater (accepted_state doc fpr st) = HighWater st"
  by (simp add: accepted_state_def Let_def)

lemma advanceHighWater_simps [simp]:
  "HighestVersion (advanceHighWater st now) = HighestVersion st"
  "AcceptedLicenseID (advanceHighWater st now) = AcceptedLicenseID st"
  "InstalledIssuedAt (advanceHighWater st now) = InstalledIssuedAt st"
  "LastCloudValidation (advanceHighWater st now) = LastCloudValidation st"
  "HighWater (advanceHighWater st now) = max (HighWater st) now"
  by (simp_all add: advanceHighWater_def)

lemma fst_pair: "p = (a, b) \<Longrightarrow> fst p = a" by simp

lemma base_step_change: "disk_change c False d (base_step c v d b)"
proof (cases b)
  case (OpInstall io raw now)
  show ?thesis
  proof (cases "snd (Install c v io raw now d) = d")
    case True
    then show ?thesis using OpInstall by (simp add: change_none)
  next
    case False
    then obtain env doc st revoked where
      dec: "c_env_decode c raw = Some env" "Verify c v env = Inr doc" "readState c d = Inr st"
        "readRevoked c d = Inr revoked"
      and g: "install_guard doc (c_sha256_hex c (env_PayloadB64 env)) st revoked = None"
      by (auto simp: Install_def Let_def split: option.splits sum.splits)
    obtain d1 ok1 where w1: "writeDurable c io currentFile raw d = (d1, ok1)" by (rule prod.exhaust)
    let ?st' = "advanceHighWater (accepted_state doc (c_sha256_hex c (env_PayloadB64 env)) st) now"
    have cur: "disk_change c False d d1"
      using change_current [of c False d io raw] w1 by simp
    have "readState c d1 = Inr st" using readState_current(1) [of c io raw d] w1 dec by simp
    then have st: "disk_change c False d1 (fst (writeState c io ?st' d1))"
      by (rule change_state) (simp_all add: accepted_state_version)
    have "snd (Install c v io raw now d) = d1 \<or> snd (Install c v io raw now d) = fst (writeState c io ?st' d1)"
      using dec g w1 by (auto simp: Install_def Let_def split: prod.splits bool.splits)
    then show ?thesis using OpInstall cur st by (auto intro: change_trans)
  qed
next
  case (OpEvaluate io now)
  show ?thesis
  proof (cases "snd (store_Evaluate c v io now d) = d")
    case True
    then show ?thesis using OpEvaluate by (simp add: change_none)
  next
    case False
    then obtain st where st: "readState c d = Inr st"
      and eq: "snd (store_Evaluate c v io now d) = fst (writeState c io (advanceHighWater st now) d)"
      by (auto simp: store_Evaluate_def Let_def split: sum.splits if_splits)
    show ?thesis using OpEvaluate eq change_state [OF st, of "advanceHighWater st now" False io] by simp
  qed
next
  case (OpMarkCloud io now)
  then show ?thesis
    using change_state [of c d _ "advanceHighWater (_\<lparr>LastCloudValidation := now\<rparr>) now" False io]
    by (auto simp: MarkCloudValidated_def split: sum.split prod.split intro: change_none dest: fst_pair)
next
  case (OpRevoke io lid)
  then show ?thesis
    using change_ids [of c d _ "lid # remdups _" False io]
    by (auto simp: AddRevocation_def write_ids_def split: sum.split prod.split intro: change_none dest: fst_pair)
qed

lemma reset_step_change: "disk_change c True d (snd (ResetHighWater c io ct ln sk d))"
  using change_state [of c d _ "_\<lparr>HighWater := ct\<rparr>" True io]
  by (auto simp: ResetHighWater_def split: sum.split prod.split bool.split intro: change_none dest: fst_pair)

lemma disk_change_reset: "disk_change c False d d' \<Longrightarrow> disk_change c r d d'"
proof (induction rule: disk_change.induct)
  case (change_trans d d' d'')
  then show ?case by (blast intro: disk_change.change_trans)
qed (auto intro: disk_change.intros)

lemma store_step_change: "disk_change c True d (store_step c v d op)"
  by (cases op) (auto intro: base_step_change disk_change_reset reset_step_change)

text \<open>
  \<open>store_le\<close>: nothing the store knows is forgotten. \<open>mark_le\<close>: the clock mark does not go back
  either.
\<close>

definition store_le :: "'raw codec \<Rightarrow> 'raw disk \<Rightarrow> 'raw disk \<Rightarrow> bool" where
  "store_le c d d' \<longleftrightarrow>
     (\<forall>st. readState c d = Inr st \<longrightarrow>
        (\<exists>st'. readState c d' = Inr st' \<and> HighestVersion st \<le> HighestVersion st')) \<and>
     (\<forall>ids. readRevoked c d = Inr ids \<longrightarrow> (\<exists>ids'. readRevoked c d' = Inr ids' \<and> set ids \<subseteq> set ids'))"

definition mark_le :: "'raw codec \<Rightarrow> 'raw disk \<Rightarrow> 'raw disk \<Rightarrow> bool" where
  "mark_le c d d' \<longleftrightarrow>
     (\<forall>st. readState c d = Inr st \<longrightarrow>
        (\<exists>st'. readState c d' = Inr st' \<and> HighWater st \<le> HighWater st'))"

lemma store_le_refl: "store_le c d d" and mark_le_refl: "mark_le c d d"
  by (auto simp: store_le_def mark_le_def)

lemma store_le_trans: "store_le c a b \<Longrightarrow> store_le c b e \<Longrightarrow> store_le c a e"
  unfolding store_le_def by (meson order.trans subset_trans)

lemma mark_le_trans: "mark_le c a b \<Longrightarrow> mark_le c b e \<Longrightarrow> mark_le c a e"
  unfolding mark_le_def by (meson order.trans)

lemma store_inv_current:
  "store_inv c d \<Longrightarrow> store_inv c (fst (writeDurable c io currentFile raw d))"
  by (simp add: store_inv_def writeDurable_frame)

lemma disk_change_inv: "disk_change c r d d' \<Longrightarrow> store_inv c d \<Longrightarrow> store_inv c d'"
  by (induction rule: disk_change.induct)
    (auto intro: store_inv_current state_cell.write_wf revoked_cell.write_wf)

lemma disk_change_le: "disk_change c r d d' \<Longrightarrow> store_inv c d \<Longrightarrow> store_le c d d'"
proof (induction rule: disk_change.induct)
  case (change_state d st st' io)
  then show ?case
    using state_cell.write_forward [of c d st "\<lambda>a b. HighestVersion a \<le> HighestVersion b" st' io]
    by (auto simp: store_le_def)
next
  case (change_ids d ids ids' io)
  then show ?case
    using revoked_cell.write_forward [of c d ids "\<lambda>a b. set a \<subseteq> set b" ids' io]
    by (auto simp: store_le_def)
next
  case (change_trans d d' d'')
  then show ?case by (blast intro: store_le_trans disk_change_inv)
qed (auto simp: store_le_def)

lemma disk_change_mark: "disk_change c r d d' \<Longrightarrow> \<not> r \<Longrightarrow> store_inv c d \<Longrightarrow> mark_le c d d'"
proof (induction rule: disk_change.induct)
  case (change_state d st st' io)
  then show ?case
    using state_cell.write_forward [of c d st "\<lambda>a b. HighWater a \<le> HighWater b" st' io]
    by (auto simp: mark_le_def)
next
  case (change_trans d d' d'')
  then show ?case by (blast intro: mark_le_trans disk_change_inv)
qed (auto simp: mark_le_def)

interpretation licence: monotone_machine "store_step c v" "store_inv c" "store_le c" for c v
  by unfold_locales
    (blast intro: store_le_refl store_le_trans disk_change_inv disk_change_le store_step_change)+

interpretation licence_clock: monotone_machine "base_step c v" "store_inv c" "mark_le c" for c v
  by unfold_locales
    (blast intro: mark_le_refl mark_le_trans disk_change_inv disk_change_mark base_step_change)+

subsection \<open>What reads and installs return\<close>

lemma Load_InrD:
  assumes "Load c v d = Inr doc" and "readState c d = Inr st"
  shows "\<not> supersededByState doc st"
  using assms by (auto simp: Load_def split: read_result.splits if_splits)

lemma Install_InrE:
  assumes "Install c v io raw now d = (Inr doc, d')"
  obtains env st revoked d1 where "c_env_decode c raw = Some env" and "Verify c v env = Inr doc"
    and "readState c d = Inr st" and "readRevoked c d = Inr revoked"
    and "install_guard doc (c_sha256_hex c (env_PayloadB64 env)) st revoked = None"
    and "writeDurable c io currentFile raw d = (d1, True)"
    and "writeState c io
           (advanceHighWater (accepted_state doc (c_sha256_hex c (env_PayloadB64 env)) st) now) d1 = (d', True)"
  using assms by (auto simp: Install_def Let_def split: option.splits sum.splits prod.splits bool.splits)

lemma accepted_not_superseded:
  assumes "install_guard doc fpr st revoked = None"
  shows "\<not> supersededByState doc (advanceHighWater (accepted_state doc fpr st) now)"
  using assms
  by (auto simp: install_guard_def accepted_state_def supersededByState_def Let_def split: if_splits)

lemma guard_not_superseded:
  assumes "install_guard doc fpr st revoked = None"
    and "HighestVersion st > 0 \<or> InstalledIssuedAt st = 0 \<or> InstalledIssuedAt st \<le> doc_IssuedAt doc"
  shows "\<not> supersededByState doc st"
  using assms by (auto simp: install_guard_def supersededByState_def split: if_splits)

lemma Load_current:
  assumes "d currentFile = Content raw" and "decode_verify c v raw = Inr doc"
    and "readState c d = Inr st"
  shows "Load c v d = (if supersededByState doc st then Inl ErrStateDamaged else Inr doc)"
  using assms by (simp add: Load_def readFileOrPrev_def)

lemma writeState_current: "writeState c io st d = (d', ok) \<Longrightarrow> d' currentFile = d currentFile"
  using writeDurable_other [of currentFile stateFile c io "c_state_marshal c st" d]
  by (simp add: writeState_def)

subsection \<open>Properties\<close>

text \<open>
  Sample store for the witnesses: file contents are the values themselves, the payload of an
  envelope is the decimal version of \<open>sample_doc\<close> it stands for.
\<close>

datatype sample_raw = RawState store_state | RawIds "string list" | RawEnv envelope | RawJunk

definition sample_version :: "string \<Rightarrow> document option" where
  "sample_version p =
     (if p = ''0'' then Some (sample_doc\<lparr>doc_LicenseVersion := 0, doc_IssuedAt := 900\<rparr>)
      else if p = ''1'' then Some (sample_doc\<lparr>doc_LicenseVersion := 1, doc_IssuedAt := 10\<rparr>)
      else if p = ''5'' then Some sample_doc else None)"

definition sample_store_codec :: "sample_raw codec" where
  "sample_store_codec =
     \<lparr>c_key_id = id, c_sig_ok = (\<lambda>pub m sg. sg = m), c_sign = (\<lambda>priv m. m), c_public = id,
      c_b64_encode = id, c_b64_decode = Some, c_sha256_hex = id, c_doc_marshal = (\<lambda>d. ''5''),
      c_doc_unmarshal = sample_version,
      c_json_valid = (\<lambda>r. case r of RawJunk \<Rightarrow> False | _ \<Rightarrow> True),
      c_env_decode = (\<lambda>r. case r of RawEnv e \<Rightarrow> Some e | _ \<Rightarrow> None),
      c_state_marshal = RawState,
      c_state_unmarshal = (\<lambda>r. case r of RawState st \<Rightarrow> Some st | _ \<Rightarrow> None),
      c_ids_marshal = RawIds,
      c_ids_unmarshal = (\<lambda>r. case r of RawIds ids \<Rightarrow> Some ids | _ \<Rightarrow> None)\<rparr>"

definition sample_env :: "string \<Rightarrow> sample_raw" where
  "sample_env p = RawEnv \<lparr>env_PayloadB64 = p, env_SigB64 = p, env_KeyID = ''k''\<rparr>"

definition sample_verifier :: verifier where "sample_verifier = [(''k'', sample_key)]"

definition sample_io :: "string \<Rightarrow> io_outcome \<Rightarrow> io_env" where
  "sample_io f r = \<lparr>io_mkdir = True, io_write = (\<lambda>_. IoOk)(f := r)\<rparr>"

definition empty_disk :: "sample_raw disk" where "empty_disk = (\<lambda>_. NoFile)"

lemmas sample_store_defs = sample_store_codec_def sample_env_def sample_verifier_def sample_io_def
  empty_disk_def sample_version_def

lemma sample_doc_versions_valid:
  "t < 1000 \<Longrightarrow> Validate (sample_doc\<lparr>doc_LicenseVersion := n, doc_IssuedAt := t\<rparr>) = None"
  by (auto simp: Validate_def sample_doc_def MinSchemaVersion_def CurrentSchemaVersion_def DocActive_def)

lemma sample_verify:
  "decode_verify sample_store_codec sample_verifier (sample_env ''0'') =
     Inr (sample_doc\<lparr>doc_LicenseVersion := 0, doc_IssuedAt := 900\<rparr>)"
  "decode_verify sample_store_codec sample_verifier (sample_env ''1'') =
     Inr (sample_doc\<lparr>doc_LicenseVersion := 1, doc_IssuedAt := 10\<rparr>)"
  "decode_verify sample_store_codec sample_verifier (sample_env ''5'') = Inr sample_doc"
  by (simp_all add: decode_verify_def Verify_def sample_store_defs sample_doc_versions_valid sample_doc_valid)

lemma sample_codec_ok: "codec_ok sample_store_codec"
  by (simp add: codec_ok_def sample_store_codec_def)

definition sample_state :: store_state where
  "sample_state = \<lparr>InstalledIssuedAt = 1, HighestVersion = 5, AcceptedLicenseID = ''L1'',
     AcceptedFingerprint = ''5'', HighWater = 100, LastCloudValidation = 0\<rparr>"

text \<open>A disk with \<open>sample_doc\<close> installed and one other licence revoked.\<close>

definition sample_disk :: "sample_raw disk" where
  "sample_disk = empty_disk(stateFile := Content (RawState sample_state),
     currentFile := Content (sample_env ''5''), revokedFile := Content (RawIds [''L0'']))"

lemma sample_disk_inv: "store_inv sample_store_codec sample_disk"
proof -
  have "cell_wf sample_store_codec stateFile (c_state_unmarshal sample_store_codec) sample_disk"
    and "cell_wf sample_store_codec revokedFile (c_ids_unmarshal sample_store_codec) sample_disk"
    by (simp_all add: cell_wf_def sample_disk_def sample_store_codec_def)
  then show ?thesis by (simp add: store_inv_def sample_codec_ok)
qed

lemma sample_disk_reads:
  "readState sample_store_codec sample_disk = Inr sample_state"
  "readRevoked sample_store_codec sample_disk = Inr [''L0'']"
  by (simp_all add: readState_def readRevoked_def readFileOrPrev_def sample_disk_def sample_store_codec_def)

text \<open>
  Over any sequence of store operations, each with any of its writes failing before or after
  taking effect, the accepted licence version on disk never goes down and no revocation is
  forgotten; the state stays readable throughout.
\<close>

theorem store_never_forgets:
  assumes "store_inv c d" and "readState c d = Inr st" and "readRevoked c d = Inr ids"
  shows "\<exists>st' ids'. readState c (run (store_step c v) d ops) = Inr st' \<and>
           readRevoked c (run (store_step c v) d ops) = Inr ids' \<and>
           HighestVersion st \<le> HighestVersion st' \<and> set ids \<subseteq> set ids'"
  using licence.run_le [OF assms(1), of v ops] assms(2,3) by (auto simp: store_le_def)

theorem store_never_forgets_witness:
  "\<exists>st' ids'. readState sample_store_codec (run (store_step sample_store_codec sample_verifier) sample_disk
       [OpBase (OpInstall (sample_io stateFile IoFailAfter) (sample_env ''1'') 7)]) = Inr st' \<and>
     readRevoked sample_store_codec (run (store_step sample_store_codec sample_verifier) sample_disk
       [OpBase (OpInstall (sample_io stateFile IoFailAfter) (sample_env ''1'') 7)]) = Inr ids' \<and>
     HighestVersion sample_state \<le> HighestVersion st' \<and> set [''L0''] \<subseteq> set ids'"
  by (rule store_never_forgets [OF sample_disk_inv sample_disk_reads])

text \<open>
  C3: Once version \<open>n > 0\<close> was accepted, then after any sequence of operations and write failures
  an older version can neither be installed nor be loaded from any file, the previous copy of
  \<open>current.json\<close> included; and a revoked licence cannot be installed.
\<close>

theorem no_licence_rollback:
  assumes "store_inv c d" and "readState c d = Inr st" and "readRevoked c d = Inr ids"
    and "0 < HighestVersion st" and d'_def: "d' = run (store_step c v) d ops"
  shows "(fst (Install c v io raw now d') = Inr doc \<longrightarrow>
            HighestVersion st \<le> doc_LicenseVersion doc \<and> doc_LicenseID doc \<notin> set ids) \<and>
         (Load c v d' = Inr doc \<longrightarrow> HighestVersion st \<le> doc_LicenseVersion doc)"
proof (intro conjI impI)
  obtain st' ids' where now: "readState c d' = Inr st'" "readRevoked c d' = Inr ids'"
    and le: "HighestVersion st \<le> HighestVersion st'" "set ids \<subseteq> set ids'"
    using licence.run_le [OF assms(1), of v ops] assms(2,3) by (auto simp: store_le_def d'_def)
  { assume "fst (Install c v io raw now d') = Inr doc"
    then obtain d'' where "Install c v io raw now d' = (Inr doc, d'')" by (cases "Install c v io raw now d'") auto
    then obtain fpr where g: "install_guard doc fpr st' ids' = None"
      by (rule Install_InrE) (auto simp: now)
    then show "HighestVersion st \<le> doc_LicenseVersion doc"
      using le(1) assms(4) install_guard_version [OF g] by simp
    from g show "doc_LicenseID doc \<notin> set ids" using le(2) by (auto simp: install_guard_def split: if_splits) }
  assume "Load c v d' = Inr doc"
  then have "\<not> supersededByState doc st'" using now by (auto dest: Load_InrD)
  then show "HighestVersion st \<le> doc_LicenseVersion doc"
    using le assms(4) by (auto simp: supersededByState_def split: if_splits)
qed

theorem no_licence_rollback_witness:
  "fst (Install sample_store_codec sample_verifier (sample_io [] IoOk) (sample_env ''1'') 7
     (run (store_step sample_store_codec sample_verifier) sample_disk [])) \<noteq>
   Inr (sample_doc\<lparr>doc_LicenseVersion := 1, doc_IssuedAt := 10\<rparr>)"
  using no_licence_rollback [OF sample_disk_inv sample_disk_reads _ refl, where v = sample_verifier
      and ops = "[]" and io = "sample_io [] IoOk" and raw = "sample_env ''1''" and now = 7
      and doc = "sample_doc\<lparr>doc_LicenseVersion := 1, doc_IssuedAt := 10\<rparr>"]
  by (auto simp: sample_state_def)

text \<open>
  A successful installation is what is loaded next: \<open>Load\<close> returns the installed document.
\<close>

theorem install_then_load:
  assumes "store_inv c d" and "Install c v io raw now d = (Inr doc, d')"
  shows "Load c v d' = Inr doc"
proof -
  obtain env st revoked d1 where dec: "c_env_decode c raw = Some env" "Verify c v env = Inr doc"
    and g: "install_guard doc (c_sha256_hex c (env_PayloadB64 env)) st revoked = None"
    and w1: "writeDurable c io currentFile raw d = (d1, True)"
    and w2: "writeState c io
           (advanceHighWater (accepted_state doc (c_sha256_hex c (env_PayloadB64 env)) st) now) d1 = (d', True)"
    using assms(2) by (rule Install_InrE)
  have "store_inv c d1" using store_inv_current [OF assms(1), of io raw] w1 by simp
  from state_cell.write_ok [OF this w2]
  have st': "readState c d' = Inr (advanceHighWater
      (accepted_state doc (c_sha256_hex c (env_PayloadB64 env)) st) now)" .
  have "d' currentFile = Content raw"
    using writeState_current [OF w2] writeDurable_success [OF w1] by simp
  from Load_current [OF this _ st', of v doc] accepted_not_superseded [OF g, of now] dec
  show ?thesis by (simp add: decode_verify_def)
qed

theorem install_then_load_witness:
  "\<exists>d'. Install sample_store_codec sample_verifier (sample_io [] IoOk) (sample_env ''5'') 7 empty_disk
        = (Inr sample_doc, d') \<and> Load sample_store_codec sample_verifier d' = Inr sample_doc"
proof -
  have inv: "store_inv sample_store_codec empty_disk"
    by (simp add: store_inv_def sample_codec_ok cell_wf_def empty_disk_def)
  have "fst (Install sample_store_codec sample_verifier (sample_io [] IoOk) (sample_env ''5'') 7 empty_disk)
        = Inr sample_doc"
    by (simp add: Install_def Verify_def sample_store_defs sample_doc_valid readState_def readRevoked_def
        readFileOrPrev_def writeDurable_def writeState_def writeSynced_def install_guard_def zero_state_def
        file_names)
  then obtain d' where i: "Install sample_store_codec sample_verifier (sample_io [] IoOk) (sample_env ''5'')
      7 empty_disk = (Inr sample_doc, d')"
    by (metis prod.collapse)
  from install_then_load [OF inv i] i show ?thesis by blast
qed

text \<open>
  Turning the clock back gains at most 48 hours. After any sequence of operations that does not
  contain the authenticated reset, an evaluation at clock \<open>now\<close> uses a time that is at least \<open>now\<close>
  and at most 48 hours behind the mark the disk held before the sequence.
\<close>

theorem clock_rollback_bounded:
  assumes "store_inv c d" and "readState c d = Inr st"
    and "store_Evaluate c v io now (run (base_step c v) d ops) = ((ev, None), d'')"
  shows "\<exists>doc eff r. ev_Doc ev = Some doc \<and> ev_State ev = timeline_state doc eff r \<and>
           now \<le> eff \<and> HighWater st - 48 * hour \<le> eff"
proof -
  let ?d = "run (base_step c v) d ops"
  obtain st' where st': "readState c ?d = Inr st'" and mark: "HighWater st \<le> HighWater st'"
    using licence_clock.run_le [OF assms(1), of v ops] assms(2) by (auto simp: mark_le_def)
  obtain doc revoked where "ev_Doc ev = Some doc"
    and "ev_State ev = timeline_state doc (effective_now st' now) (doc_LicenseID doc \<in> set revoked)"
    using assms(3) st' by (auto simp: store_Evaluate_def Evaluate_def Let_def split: sum.splits)
  moreover have "now \<le> effective_now st' now" and "HighWater st' - 48 * hour \<le> effective_now st' now"
    by (auto simp: effective_now_def clockRollbackTolerance_def time_sub_gt_iff go_simps)
  ultimately show ?thesis using mark by fastforce
qed

theorem clock_rollback_bounded_witness:
  "\<exists>ev d'. store_Evaluate sample_store_codec sample_verifier (sample_io [] IoOk) 50
             (run (base_step sample_store_codec sample_verifier) sample_disk []) = ((ev, None), d') \<and>
     (\<exists>doc eff r. ev_Doc ev = Some doc \<and> ev_State ev = timeline_state doc eff r \<and>
        50 \<le> eff \<and> HighWater sample_state - 48 * hour \<le> eff)"
proof -
  have "Load sample_store_codec sample_verifier sample_disk = Inr sample_doc"
    using sample_verify(3) sample_disk_reads
    by (simp add: Load_def readFileOrPrev_def sample_disk_def supersededByState_def sample_state_def sample_doc_def)
  then obtain ev d' where *: "store_Evaluate sample_store_codec sample_verifier (sample_io [] IoOk) 50
      (run (base_step sample_store_codec sample_verifier) sample_disk []) = ((ev, None), d')"
    using sample_disk_reads by (simp add: store_Evaluate_def Let_def)
  from clock_rollback_bounded [OF sample_disk_inv sample_disk_reads(1) *] * show ?thesis by blast
qed

text \<open>
  An interrupted installation leaves a loadable licence, the old one or the new one, wherever the
  writes stop. The hypothesis on \<open>issued_at\<close> is needed: see the next property.
\<close>

theorem install_interrupted:
  assumes "store_inv c d" and cur: "d currentFile = Content cur" "decode_verify c v cur = Inr old"
    and st: "readState c d = Inr st" and load: "Load c v d = Inr old"
    and raw: "decode_verify c v raw = Inr doc"
    and issued: "HighestVersion st > 0 \<or> InstalledIssuedAt st = 0 \<or> InstalledIssuedAt st \<le> doc_IssuedAt doc"
    and inst: "Install c v io raw now d = (r, d')"
  shows "Load c v d' = Inr old \<or> Load c v d' = Inr doc"
proof (cases "d' = d")
  case True
  then show ?thesis using load by simp
next
  case False
  then obtain env revoked where env: "c_env_decode c raw = Some env" and rv: "readRevoked c d = Inr revoked"
    and g: "install_guard doc (c_sha256_hex c (env_PayloadB64 env)) st revoked = None"
    using inst st raw by (auto simp: Install_def decode_verify_def Let_def split: option.splits sum.splits)
  define st' where "st' = advanceHighWater (accepted_state doc (c_sha256_hex c (env_PayloadB64 env)) st) now"
  obtain d1 ok where w1: "writeDurable c io currentFile raw d = (d1, ok)" by (rule prod.exhaust)
  have st1: "readState c d1 = Inr st" using readState_current(1) [of c io raw d] w1 st by simp
  have old_ok: "\<not> supersededByState old st" using load st by (rule Load_InrD)
  have doc_ok: "\<not> supersededByState doc st" "\<not> supersededByState doc st'"
    using guard_not_superseded [OF g issued] accepted_not_superseded [OF g] by (auto simp: st'_def)
  show ?thesis
  proof (cases "d' = d1")
    case True
    then show ?thesis
      using writeDurable_name [of c io currentFile raw d] w1 cur raw old_ok doc_ok Load_current [OF _ _ st1]
      by fastforce
  next
    case False
    then have ok and d': "d' = fst (writeState c io st' d1)"
      using inst env raw st g rv w1
      by (auto simp: Install_def decode_verify_def st'_def Let_def split: sum.splits prod.splits bool.splits)
    from d' obtain ok2 where w2: "writeState c io st' d1 = (d', ok2)"
      by (cases "writeState c io st' d1") auto
    have "d' currentFile = Content raw"
      using writeState_current [OF w2] writeDurable_success [of c io currentFile raw d d1] w1 \<open>ok\<close> by simp
    moreover have "store_inv c d1" using store_inv_current [OF assms(1), of io raw] w1 by simp
    then have "readState c d' = Inr st \<or> readState c d' = Inr st'"
      using state_cell.write_old_or_new [of c d1 io st'] st1 d' by simp
    ultimately show ?thesis using raw doc_ok Load_current by fastforce
  qed
qed

definition sample_old_state :: store_state where
  "sample_old_state = zero_state\<lparr>InstalledIssuedAt := 900, AcceptedLicenseID := ''L1''\<rparr>"

text \<open>A disk with an unversioned licence, issued at 900.\<close>

definition sample_old_disk :: "sample_raw disk" where
  "sample_old_disk = empty_disk(stateFile := Content (RawState sample_old_state),
     currentFile := Content (sample_env ''0''))"

lemma sample_old_disk_facts:
  "store_inv sample_store_codec sample_old_disk"
  "readState sample_store_codec sample_old_disk = Inr sample_old_state"
  "readRevoked sample_store_codec sample_old_disk = Inr []"
  "sample_old_disk currentFile = Content (sample_env ''0'')"
  "Load sample_store_codec sample_verifier sample_old_disk =
     Inr (sample_doc\<lparr>doc_LicenseVersion := 0, doc_IssuedAt := 900\<rparr>)"
proof -
  have "cell_wf sample_store_codec stateFile (c_state_unmarshal sample_store_codec) sample_old_disk"
    and "cell_wf sample_store_codec revokedFile (c_ids_unmarshal sample_store_codec) sample_old_disk"
    by (simp_all add: cell_wf_def sample_old_disk_def sample_store_codec_def empty_disk_def)
  then show "store_inv sample_store_codec sample_old_disk" by (simp add: store_inv_def sample_codec_ok)
  show st: "readState sample_store_codec sample_old_disk = Inr sample_old_state"
    by (simp add: readState_def readFileOrPrev_def sample_old_disk_def sample_store_codec_def)
  show "readRevoked sample_store_codec sample_old_disk = Inr []"
    by (simp add: readRevoked_def readFileOrPrev_def sample_old_disk_def empty_disk_def file_names)
  show cur: "sample_old_disk currentFile = Content (sample_env ''0'')" by (simp add: sample_old_disk_def)
  show "Load sample_store_codec sample_verifier sample_old_disk =
     Inr (sample_doc\<lparr>doc_LicenseVersion := 0, doc_IssuedAt := 900\<rparr>)"
    unfolding Load_current [OF cur sample_verify(1) st]
    by (simp add: supersededByState_def sample_old_state_def zero_state_def)
qed

theorem install_interrupted_witness:
  "let d' = snd (Install sample_store_codec sample_verifier (sample_io stateFile IoFailBefore)
                   (sample_env ''5'') 7 sample_disk)
   in Load sample_store_codec sample_verifier d' = Inr sample_doc"
proof -
  have cur: "sample_disk currentFile = Content (sample_env ''5'')" by (simp add: sample_disk_def)
  have load: "Load sample_store_codec sample_verifier sample_disk = Inr sample_doc"
    unfolding Load_current [OF cur sample_verify(3) sample_disk_reads(1)]
    by (simp add: supersededByState_def sample_state_def sample_doc_def)
  obtain r d' where i: "Install sample_store_codec sample_verifier (sample_io stateFile IoFailBefore)
      (sample_env ''5'') 7 sample_disk = (r, d')" by (rule prod.exhaust)
  have "HighestVersion sample_state > 0" by (simp add: sample_state_def)
  with install_interrupted [OF sample_disk_inv cur sample_verify(3) sample_disk_reads(1) load sample_verify(3) _ i]
  show ?thesis by (simp add: i)
qed

text \<open>
  The gap of the previous property is real. On an appliance whose unversioned licence was issued
  after its first versioned one (the case the version guard was written for), an installation whose
  last write fails leaves \<open>current.json\<close> with the new licence and \<open>state.json\<close> without its version;
  \<open>Load\<close> then judges the new licence by \<open>issued_at\<close>, refuses it as damaged, and the old licence is
  not used either.
\<close>

theorem install_interrupted_gap:
  "\<exists>d'. Install sample_store_codec sample_verifier (sample_io stateFile IoFailBefore) (sample_env ''1'') 7
          sample_old_disk = (Inl ErrIO, d') \<and>
        Load sample_store_codec sample_verifier d' = Inl ErrStateDamaged"
proof -
  let ?doc = "sample_doc\<lparr>doc_LicenseVersion := 1, doc_IssuedAt := 10\<rparr>"
  let ?io = "sample_io stateFile IoFailBefore"
  have "snd (writeDurable sample_store_codec ?io currentFile (sample_env ''1'') sample_old_disk)"
    by (simp add: writeDurable_def writeSynced_def sample_old_disk_def sample_store_defs file_names)
  then obtain d1 where w1: "writeDurable sample_store_codec ?io currentFile (sample_env ''1'') sample_old_disk = (d1, True)"
    by (cases "writeDurable sample_store_codec ?io currentFile (sample_env ''1'') sample_old_disk") simp
  obtain env where env: "c_env_decode sample_store_codec (sample_env ''1'') = Some env"
    by (simp add: sample_store_defs)
  have v: "Verify sample_store_codec sample_verifier env = Inr ?doc"
    using sample_verify(2) env by (simp add: decode_verify_def)
  have g: "install_guard ?doc fpr sample_old_state [] = None" for fpr
    by (simp add: install_guard_def sample_old_state_def zero_state_def)
  define st' where "st' = advanceHighWater
      (accepted_state ?doc (c_sha256_hex sample_store_codec (env_PayloadB64 env)) sample_old_state) 7"
  obtain d2 ok where w2: "writeState sample_store_codec ?io st' d1 = (d2, ok)" by (rule prod.exhaust)
  have f: "io_write ?io stateFile = IoFailBefore" by (simp add: sample_io_def)
  have "d1 stateFile = Content (RawState sample_old_state)"
    using writeDurable_other [of stateFile currentFile sample_store_codec ?io "sample_env ''1''" sample_old_disk] w1
    by (simp add: sample_old_disk_def)
  then have "d2 stateFile = Content (RawState sample_old_state)" and d2: "\<not> ok"
    using writeDurable_fail_before [OF f w2 [unfolded writeState_def]] by auto
  then have d2_st: "readState sample_store_codec d2 = Inr sample_old_state"
    by (simp add: readState_def readFileOrPrev_def sample_store_codec_def)
  have d2_cur: "d2 currentFile = Content (sample_env ''1'')"
    using writeState_current [OF w2] writeDurable_success [OF w1] by simp
  have "Install sample_store_codec sample_verifier ?io (sample_env ''1'') 7 sample_old_disk = (Inl ErrIO, d2)"
    using env v sample_old_disk_facts(2,3) g w1 w2 d2 by (simp add: Install_def Let_def st'_def)
  moreover have "Load sample_store_codec sample_verifier d2 = Inl ErrStateDamaged"
    unfolding Load_current [OF d2_cur sample_verify(2) d2_st]
    by (simp add: supersededByState_def sample_old_state_def zero_state_def)
  ultimately show ?thesis by blast
qed

end
