(* ===== verification/License_Gate.thy ===== *)
theory License_Gate
  imports License_Store
begin

text \<open>
  The licence manager of an appliance (\<open>data-plane/internal/licstate/licstate.go\<close>): it evaluates
  the licence on disk, decides from the evaluation whether guests may start sessions and which
  modules may run, installs licences after checking that they are for this appliance, fetches them
  from Central with the revocations, and copies the licence's limits into the site database. It
  drives the licence store of \<open>License_Store\<close>.

  Each call of the clock, of the store and of the database has its own outcome, held in a \<open>call\<close>.
  What Central answers is an argument of the fetch. Log lines, and the fields that only suppress
  them, are left out.
\<close>

subsection \<open>State\<close>

text \<open>
  \<open>mg_verifier\<close> is the store of the manager: \<open>None\<close> is the nil store of an appliance without the
  vendor's key. \<open>mg_assignmentLookup\<close> says whether the lookup function was set; what it returns is
  an argument of the calls that use it. \<open>mg_kick\<close> is the channel of capacity one.
\<close>

record manager =
  mg_verifier :: "verifier option"
  mg_db :: bool
  mg_tenantID :: string
  mg_applianceID :: string
  mg_local :: local_identity
  mg_assignmentLookup :: bool
  mg_hwMismatch :: string
  mg_wrongDevice :: string
  mg_required :: bool
  mg_current :: evaluation
  mg_loaded :: bool
  mg_lastSynced :: string
  mg_mtlsClient :: bool
  mg_mtlsBase :: string
  mg_kick :: bool
  mg_fastEvery :: duration

text \<open>One row of \<open>tenant_effective_limits\<close>; the table is keyed by tenant and key.\<close>

record limit_row =
  lr_value_type :: string
  lr_int_value :: "int option"
  lr_bool_value :: "bool option"
  lr_source :: string
  lr_updated_at :: go_time

type_synonym limit_table = "string \<times> string \<Rightarrow> limit_row option"

record 'raw appliance =
  ap_mgr :: manager
  ap_disk :: "'raw disk"
  ap_limits :: limit_table

text \<open>
  The world around one evaluation or store call: the clock, the writes of the store, the outcome
  and clock of the database transaction, and the order in which Go visits the module map.
\<close>

record call =
  cl_now :: go_time
  cl_io :: io_env
  cl_db :: io_outcome
  cl_dbnow :: go_time
  cl_ord :: "nat \<Rightarrow> string list \<Rightarrow> string list"

datatype gate_error =
    NoVendorKey
  | StoreError lic_error
  | LicenceRejected string
  | NoLicenseYet
  | HTTPError int
  | RequestFailed
  | ReplyMalformed
  | RevocationNotStored lic_error

definition DefaultFastFetchInterval :: duration where "DefaultFastFetchInterval = minute"

definition ClockResetSkew :: duration where "ClockResetSkew = 10 * minute"

definition blank_identity :: local_identity where
  "blank_identity = \<lparr>li_ApplianceID = [], li_IdentityKeyFingerprint = [], li_Serial = [],
     li_HardwareFingerprint = [], li_WANMAC = []\<rparr>"

text \<open>
  The evaluation of a manager that has evaluated nothing. Go's zero \<open>State\<close> is the empty string,
  which no constant names; like \<open>StateUnlicensed\<close> it allows nothing, and no accessor reads it while
  \<open>loaded\<close> is false.
\<close>

definition zero_evaluation :: evaluation where
  "zero_evaluation = \<lparr>ev_State = StateUnlicensed, ev_Doc = None, ev_GraceUntil = 0,
     ev_RestrictedUntil = 0, ev_ClockRollback = False, ev_LastCloudValidation = 0, ev_CloudStale = False\<rparr>"

text \<open>\<open>New\<close>: \<open>keyfile\<close> is what reading the vendor's public key gave, \<open>None\<close> for an error.\<close>

definition New :: "'raw codec \<Rightarrow> bool \<Rightarrow> string \<Rightarrow> string option \<Rightarrow> bool \<Rightarrow> manager" where
  "New c db tenantID keyfile required =
     \<lparr>mg_verifier = (case keyfile of
          None \<Rightarrow> None
        | Some raw \<Rightarrow> if length raw \<noteq> 32 then None else Some (NewVerifier c [raw])),
      mg_db = db, mg_tenantID = tenantID, mg_applianceID = [], mg_local = blank_identity,
      mg_assignmentLookup = False, mg_hwMismatch = [], mg_wrongDevice = [], mg_required = required,
      mg_current = zero_evaluation, mg_loaded = False, mg_lastSynced = [], mg_mtlsClient = False,
      mg_mtlsBase = [], mg_kick = False, mg_fastEvery = DefaultFastFetchInterval\<rparr>"

subsection \<open>The limits in the site database\<close>

definition unlim :: "int \<Rightarrow> int" where
  "unlim v = (if v \<le> 0 then -1 else v)"

definition limit_ints :: "document \<Rightarrow> (string \<times> int) list" where
  "limit_ints d =
     [(''max_concurrent_devices'', unlim (EffectiveMaxConcurrentOnlineGuests d)),
      (''max_operators'', unlim (MaxLocalOperators (doc_Limits d))),
      (''max_guest_access_plans'', unlim (MaxGuestAccessPlans (doc_Limits d))),
      (''max_appliances'', unlim (MaxAppliancesForSite (doc_Limits d))),
      (''retention_days_accounting'', unlim (AccountingRetentionDays (doc_Limits d))),
      (''retention_days_audit'', unlim (AuditRetentionDays (doc_Limits d)))]"

definition limit_bools :: "(nat \<Rightarrow> string list \<Rightarrow> string list) \<Rightarrow> document \<Rightarrow> (string \<times> bool) list" where
  "limit_bools ord d =
     (let am = (\<lambda>mid. mid \<in> set (AuthorizedModules ord d)) in
      [(''feature.pms_integration'', am ModuleHospitality),
       (''feature.paid_wifi'', am ModulePaidAccess),
       (''feature.auth.sms_otp'', am ModuleSMSOTP),
       (''feature.auth.whatsapp_otp'', am ModuleWhatsAppOTP),
       (''feature.auth.email_otp'', am ModuleEmailOTP),
       (''feature.auth.social'', am ModuleSocialLogin),
       (''feature.ha_pair'', am ModuleHA),
       (''feature.white_label'', am ModuleWhiteLabel)])"

text \<open>The two upserts: on conflict the column of the other type is left as it is.\<close>

definition upsert_int :: "go_time \<Rightarrow> string \<Rightarrow> string \<times> int \<Rightarrow> limit_table \<Rightarrow> limit_table" where
  "upsert_int now tenant kv t =
     t((tenant, fst kv) \<mapsto> \<lparr>lr_value_type = ''int'', lr_int_value = Some (snd kv),
        lr_bool_value = (case t (tenant, fst kv) of None \<Rightarrow> None | Some r \<Rightarrow> lr_bool_value r),
        lr_source = ''license'', lr_updated_at = now\<rparr>)"

definition upsert_bool :: "go_time \<Rightarrow> string \<Rightarrow> string \<times> bool \<Rightarrow> limit_table \<Rightarrow> limit_table" where
  "upsert_bool now tenant kv t =
     t((tenant, fst kv) \<mapsto> \<lparr>lr_value_type = ''bool'',
        lr_int_value = (case t (tenant, fst kv) of None \<Rightarrow> None | Some r \<Rightarrow> lr_int_value r),
        lr_bool_value = Some (snd kv), lr_source = ''license'', lr_updated_at = now\<rparr>)"

text \<open>
  One transaction. It can fail before it commits, or commit and report an error; Go visits the two
  maps in any order, and the keys are distinct, so the order does not matter.
\<close>

definition syncLimits :: "call \<Rightarrow> manager \<Rightarrow> document \<Rightarrow> limit_table \<Rightarrow> limit_table \<times> bool" where
  "syncLimits x m d t =
     (if \<not> mg_db m then (t, True)
      else (let t1 = fold (upsert_int (cl_dbnow x) (mg_tenantID m)) (limit_ints d) t;
                t2 = fold (upsert_bool (cl_dbnow x) (mg_tenantID m)) (limit_bools (cl_ord x) d) t1
            in case cl_db x of IoOk \<Rightarrow> (t2, True) | IoFailBefore \<Rightarrow> (t, False) | IoFailAfter \<Rightarrow> (t2, False)))"

subsection \<open>Evaluation\<close>

definition documentKey :: "'raw codec \<Rightarrow> document \<Rightarrow> string" where
  "documentKey c d = c_sha256_hex c (c_doc_marshal c d)"

text \<open>The first half of \<open>Load\<close>: the binding is checked again on every evaluation.\<close>

definition record_evaluation :: "evaluation \<Rightarrow> manager \<Rightarrow> manager" where
  "record_evaluation ev m =
     (let res = (case ev_Doc ev of None \<Rightarrow> BindingOK | Some doc \<Rightarrow> CheckBinding doc (mg_local m)) in
      m\<lparr>mg_wrongDevice := (case res of BindingWrongDevice reason \<Rightarrow> reason | _ \<Rightarrow> []),
        mg_hwMismatch := (case res of BindingWANMismatch \<Rightarrow> ''WAN MAC mismatch'' | _ \<Rightarrow> []),
        mg_current := ev, mg_loaded := True\<rparr>)"

definition unload :: "manager \<Rightarrow> manager" where
  "unload m = m\<lparr>mg_loaded := False, mg_wrongDevice := [], mg_hwMismatch := [], mg_lastSynced := []\<rparr>"

text \<open>The second half: the limits are written only when the signed content changed.\<close>

definition bridge_limits :: "'raw codec \<Rightarrow> call \<Rightarrow> document \<Rightarrow> 'raw appliance \<Rightarrow> 'raw appliance" where
  "bridge_limits c x doc a =
     (if documentKey c doc = mg_lastSynced (ap_mgr a) then a
      else case syncLimits x (ap_mgr a) doc (ap_limits a) of
        (t, False) \<Rightarrow> a\<lparr>ap_limits := t\<rparr>
      | (t, True) \<Rightarrow> a\<lparr>ap_limits := t, ap_mgr := (ap_mgr a)\<lparr>mg_lastSynced := documentKey c doc\<rparr>\<rparr>)"

definition mgr_Load :: "'raw codec \<Rightarrow> call \<Rightarrow> 'raw appliance \<Rightarrow> 'raw appliance" where
  "mgr_Load c x a =
     (case mg_verifier (ap_mgr a) of
        None \<Rightarrow> a
      | Some v \<Rightarrow>
     (case store_Evaluate c v (cl_io x) (cl_now x) (ap_disk a) of
        ((ev, Some e), d) \<Rightarrow> a\<lparr>ap_disk := d, ap_mgr := unload (ap_mgr a)\<rparr>
      | ((ev, None), d) \<Rightarrow>
          (let m = record_evaluation ev (ap_mgr a);
               a1 = a\<lparr>ap_disk := d, ap_mgr := m\<rparr>
           in if mg_wrongDevice m \<noteq> [] then a1
              else case ev_Doc ev of None \<Rightarrow> a1 | Some doc \<Rightarrow> bridge_limits c x doc a1)))"

subsection \<open>What the manager answers\<close>

definition mgr_State :: "manager \<Rightarrow> lic_state" where
  "mgr_State m =
     (if mg_loaded m \<and> mg_wrongDevice m \<noteq> [] then StateUnlicensed
      else if \<not> mg_loaded m then (if mg_required m then StateUnlicensed else StateActive)
      else ev_State (mg_current m))"

definition mgr_AllowsNewSessions :: "manager \<Rightarrow> bool" where
  "mgr_AllowsNewSessions m = AllowsNewSessions (mgr_State m)"

definition mgr_MaxConcurrentOnlineGuests :: "manager \<Rightarrow> int" where
  "mgr_MaxConcurrentOnlineGuests m =
     (if mg_loaded m \<and> mg_wrongDevice m \<noteq> [] then 0
      else case (if mg_loaded m then ev_Doc (mg_current m) else None) of
        None \<Rightarrow> if mg_required m then 0 else -1
      | Some doc \<Rightarrow> if EffectiveMaxConcurrentOnlineGuests doc > 0
                    then EffectiveMaxConcurrentOnlineGuests doc else -1)"

definition ModuleEnabled :: "(nat \<Rightarrow> string list \<Rightarrow> string list) \<Rightarrow> manager \<Rightarrow> string \<Rightarrow> bool" where
  "ModuleEnabled ord m mid =
     (if \<not> mg_loaded m then \<not> mg_required m
      else if mg_wrongDevice m \<noteq> [] then False
      else case ev_Doc (mg_current m) of
        None \<Rightarrow> False
      | Some doc \<Rightarrow> FeatureEnabled (ev_State (mg_current m)) (mid \<in> set (AuthorizedModules ord doc)))"

text \<open>A nil map is the empty list: both answer false for every module.\<close>

definition mgr_AuthorizedModules :: "(nat \<Rightarrow> string list \<Rightarrow> string list) \<Rightarrow> manager \<Rightarrow> string list" where
  "mgr_AuthorizedModules ord m =
     (if \<not> mg_loaded m \<or> mg_wrongDevice m \<noteq> [] then []
      else case ev_Doc (mg_current m) of None \<Rightarrow> [] | Some doc \<Rightarrow> AuthorizedModules ord doc)"

definition mgr_FeatureEnabled :: "(nat \<Rightarrow> string list \<Rightarrow> string list) \<Rightarrow> manager \<Rightarrow> string \<Rightarrow> bool" where
  "mgr_FeatureEnabled ord m name =
     (if name = ''pms'' then ModuleEnabled ord m ModuleHospitality
      else if name = ''paid_wifi'' then ModuleEnabled ord m ModulePaidAccess
      else if name \<in> {''email_otp'', ''sms_otp'', ''whatsapp_otp'', ''social_login'', ''ha'', ''white_label''}
        then ModuleEnabled ord m name
      else False)"

definition WrongHardware :: "manager \<Rightarrow> string" where
  "WrongHardware m = (if \<not> mg_loaded m then [] else mg_wrongDevice m)"

definition HasUsableLicense :: "manager \<Rightarrow> bool" where
  "HasUsableLicense m \<longleftrightarrow> mg_loaded m \<and> mg_wrongDevice m = [] \<and> ev_Doc (mg_current m) \<noteq> None"

subsection \<open>Installation\<close>

definition assignment_msg :: string where
  "assignment_msg =
     ''the licence is for a different customer or site than this appliance's signed assignment''"

text \<open>
  The binding as \<open>Install\<close> judges it. \<open>asg\<close> is what the assignment lookup returns: the customer and
  site of a granting signed assignment, if there is one.
\<close>

definition install_binding ::
  "manager \<Rightarrow> (string \<times> string) option \<Rightarrow> document \<Rightarrow> binding_result" where
  "install_binding m asg pre =
     (let res = CheckInstallBinding pre (mg_local m) in
      if res = BindingOK \<and> mg_assignmentLookup m then
        (case asg of
           None \<Rightarrow> res
         | Some (tenant, site) \<Rightarrow>
             if doc_TenantID pre \<noteq> tenant \<or> doc_SiteID pre \<noteq> site
             then BindingWrongDevice assignment_msg else res)
      else res)"

definition mgr_Install ::
  "'raw codec \<Rightarrow> (string \<times> string) option \<Rightarrow> call \<Rightarrow> call \<Rightarrow> 'raw \<Rightarrow> 'raw appliance \<Rightarrow>
   (gate_error + document) \<times> 'raw appliance" where
  "mgr_Install c asg x y raw a =
     (case mg_verifier (ap_mgr a) of
        None \<Rightarrow> (Inl NoVendorKey, a)
      | Some v \<Rightarrow>
     (case decode_verify c v raw of
        Inl e \<Rightarrow> (Inl (StoreError e), a)
      | Inr pre \<Rightarrow>
     (case install_binding (ap_mgr a) asg pre of
        BindingWrongDevice reason \<Rightarrow> (Inl (LicenceRejected reason), a)
      | _ \<Rightarrow>
     (case Install c v (cl_io x) raw (cl_now x) (ap_disk a) of
        (Inl e, d) \<Rightarrow> (Inl (StoreError e), a\<lparr>ap_disk := d\<rparr>)
      | (Inr doc, d) \<Rightarrow> (Inr doc, mgr_Load c y (a\<lparr>ap_disk := d\<rparr>))))))"

definition mgr_ResetClock ::
  "'raw codec \<Rightarrow> go_time \<Rightarrow> call \<Rightarrow> call \<Rightarrow> 'raw appliance \<Rightarrow> (gate_error + go_time) \<times> 'raw appliance" where
  "mgr_ResetClock c centralTime x y a =
     (case mg_verifier (ap_mgr a) of
        None \<Rightarrow> (Inl NoVendorKey, a)
      | Some v \<Rightarrow>
     (case ResetHighWater c (cl_io x) centralTime (cl_now x) ClockResetSkew (ap_disk a) of
        (Inl e, d) \<Rightarrow> (Inl (StoreError e), a\<lparr>ap_disk := d\<rparr>)
      | (Inr old, d) \<Rightarrow> (Inr old, mgr_Load c y (a\<lparr>ap_disk := d\<rparr>))))"

definition SetAssignmentLookup :: "bool \<Rightarrow> manager \<Rightarrow> manager" where
  "SetAssignmentLookup present m = m\<lparr>mg_assignmentLookup := present\<rparr>"

definition SetLocalIdentity :: "local_identity \<Rightarrow> manager \<Rightarrow> manager" where
  "SetLocalIdentity li m = m\<lparr>mg_local := li\<rparr>"

definition SetMTLSTransport :: "bool \<Rightarrow> string \<Rightarrow> manager \<Rightarrow> manager" where
  "SetMTLSTransport client base m = m\<lparr>mg_mtlsClient := client, mg_mtlsBase := base\<rparr>"

definition viaMTLS :: "manager \<Rightarrow> bool" where
  "viaMTLS m \<longleftrightarrow> mg_mtlsClient m \<and> mg_mtlsBase m \<noteq> []"

definition Kick :: "manager \<Rightarrow> manager" where
  "Kick m = m\<lparr>mg_kick := True\<rparr>"

subsection \<open>Fetching from Central\<close>

text \<open>
  What the exchange with Central comes to: a request that could not be signed, built or sent, or an
  answer with its status and, when it decodes, the envelope (absent or null is \<open>None\<close>) and the
  revoked licence ids.
\<close>

datatype 'raw reply = NoReply | Reply int "('raw option \<times> string list) option"

fun add_revocations ::
  "'raw codec \<Rightarrow> (nat \<Rightarrow> call) \<Rightarrow> nat \<Rightarrow> string list \<Rightarrow> 'raw disk \<Rightarrow> lic_error option \<times> 'raw disk" where
  "add_revocations c xs k [] d = (None, d)"
| "add_revocations c xs k (lid # ids) d =
     (case AddRevocation c (cl_io (xs k)) lid d of
        (Some e, d1) \<Rightarrow> (Some e, d1)
      | (None, d1) \<Rightarrow> add_revocations c xs (Suc k) ids d1)"

text \<open>The body of a fetch once Central answered 200: \<open>xs\<close> numbers the calls it makes.\<close>

definition apply_reply ::
  "'raw codec \<Rightarrow> (string \<times> string) option \<Rightarrow> (nat \<Rightarrow> call) \<Rightarrow> 'raw option \<Rightarrow> string list \<Rightarrow>
   'raw appliance \<Rightarrow> gate_error option \<times> 'raw appliance" where
  "apply_reply c asg xs envelope revoked a =
     (let n = length revoked in
      case (if viaMTLS (ap_mgr a) then add_revocations c xs 0 revoked (ap_disk a) else (None, ap_disk a)) of
        (Some e, d) \<Rightarrow> (Some (RevocationNotStored e), a\<lparr>ap_disk := d\<rparr>)
      | (None, d) \<Rightarrow>
          (case envelope of
             None \<Rightarrow>
               (let d1 = (if viaMTLS (ap_mgr a)
                          then snd (MarkCloudValidated c (cl_io (xs n)) (cl_now (xs n)) d) else d)
                in (None, mgr_Load c (xs (n + 1)) (a\<lparr>ap_disk := d1\<rparr>)))
           | Some raw \<Rightarrow>
               (case mgr_Install c asg (xs n) (xs (n + 1)) raw (a\<lparr>ap_disk := d\<rparr>) of
                  (Inl e, a1) \<Rightarrow> (Some e, a1)
                | (Inr doc, a1) \<Rightarrow>
                    (let d1 = snd (MarkCloudValidated c (cl_io (xs (n + 2))) (cl_now (xs (n + 2))) (ap_disk a1))
                     in (None, mgr_Load c (xs (n + 3)) (a1\<lparr>ap_disk := d1\<rparr>))))))"

definition FetchFromCloud ::
  "'raw codec \<Rightarrow> (string \<times> string) option \<Rightarrow> (nat \<Rightarrow> call) \<Rightarrow> string \<Rightarrow> 'raw reply \<Rightarrow>
   'raw appliance \<Rightarrow> gate_error option \<times> 'raw appliance" where
  "FetchFromCloud c asg xs applianceID rep a =
     (if mg_verifier (ap_mgr a) = None then (Some NoVendorKey, a)
      else (let a0 = a\<lparr>ap_mgr := (ap_mgr a)\<lparr>mg_applianceID := applianceID\<rparr>\<rparr> in
        case rep of
          NoReply \<Rightarrow> (Some RequestFailed, a0)
        | Reply code body \<Rightarrow>
            (if code = 404 \<or> code = 204 then (Some NoLicenseYet, a0)
             else if code \<noteq> 200 then (Some (HTTPError code), a0)
             else case body of
               None \<Rightarrow> (Some ReplyMalformed, a0)
             | Some (envelope, revoked) \<Rightarrow> apply_reply c asg xs envelope revoked a0)))"

definition nextFetchInterval :: "manager \<Rightarrow> duration \<Rightarrow> duration" where
  "nextFetchInterval m slow =
     (if \<not> HasUsableLicense m \<and> mg_fastEvery m > 0 \<and> mg_fastEvery m < slow then mg_fastEvery m else slow)"

text \<open>
  One turn of \<open>runFetchLoop\<close>: a fetch, then the time to wait before the next one. A kick that is
  already pending ends the wait at once and is taken off the channel.
\<close>

definition fetch_turn ::
  "'raw codec \<Rightarrow> (string \<times> string) option \<Rightarrow> (nat \<Rightarrow> call) \<Rightarrow> string \<Rightarrow> 'raw reply \<Rightarrow> duration \<Rightarrow>
   'raw appliance \<Rightarrow> duration \<times> 'raw appliance" where
  "fetch_turn c asg xs applianceID rep slow a =
     (let a1 = snd (FetchFromCloud c asg xs applianceID rep a) in
      if mg_kick (ap_mgr a1) then (0, a1\<lparr>ap_mgr := (ap_mgr a1)\<lparr>mg_kick := False\<rparr>\<rparr>)
      else (nextFetchInterval (ap_mgr a1) slow, a1))"

subsection \<open>The manager as a machine\<close>

text \<open>
  Everything that can happen to a running manager: the minute tick, an installation or a clock
  reset asked for by an operator, a turn of the fetch loop, and the setters.
\<close>

datatype 'raw gate_op =
    GLoad call
  | GInstall "(string \<times> string) option" call call 'raw
  | GResetClock go_time call call
  | GFetch "(string \<times> string) option" "nat \<Rightarrow> call" string "'raw reply" duration
  | GSetLookup bool
  | GSetIdentity local_identity
  | GSetMTLS bool string
  | GKick

fun gate_step :: "'raw codec \<Rightarrow> 'raw appliance \<Rightarrow> 'raw gate_op \<Rightarrow> 'raw appliance" where
  "gate_step c a (GLoad x) = mgr_Load c x a"
| "gate_step c a (GInstall asg x y raw) = snd (mgr_Install c asg x y raw a)"
| "gate_step c a (GResetClock ct x y) = snd (mgr_ResetClock c ct x y a)"
| "gate_step c a (GFetch asg xs aid rep slow) = snd (fetch_turn c asg xs aid rep slow a)"
| "gate_step c a (GSetLookup b) = a\<lparr>ap_mgr := SetAssignmentLookup b (ap_mgr a)\<rparr>"
| "gate_step c a (GSetIdentity li) = a\<lparr>ap_mgr := SetLocalIdentity li (ap_mgr a)\<rparr>"
| "gate_step c a (GSetMTLS b base) = a\<lparr>ap_mgr := SetMTLSTransport b base (ap_mgr a)\<rparr>"
| "gate_step c a GKick = a\<lparr>ap_mgr := Kick (ap_mgr a)\<rparr>"

definition boot :: "'raw codec \<Rightarrow> bool \<Rightarrow> string \<Rightarrow> string option \<Rightarrow> bool \<Rightarrow> 'raw disk \<Rightarrow> limit_table \<Rightarrow> 'raw appliance" where
  "boot c db tenantID keyfile required d t =
     \<lparr>ap_mgr = New c db tenantID keyfile required, ap_disk = d, ap_limits = t\<rparr>"

subsection \<open>Laws\<close>

lemma store_Evaluate_NoneE:
  assumes "store_Evaluate c v io now d = ((ev, None), d')"
  obtains doc st ids where "Load c v d = Inr doc" and "readState c d = Inr st" and "readRevoked c d = Inr ids"
    and "ev_Doc ev = Some doc"
    and "ev_State ev = timeline_state doc (effective_now st now) (doc_LicenseID doc \<in> set ids)"
  using assms by (auto simp: store_Evaluate_def Evaluate_def Let_def split: sum.splits)

lemma store_Evaluate_SomeD:
  assumes "store_Evaluate c v io now d = ((ev, Some e), d')"
  shows "\<not> (\<exists>doc st ids. Load c v d = Inr doc \<and> readState c d = Inr st \<and> readRevoked c d = Inr ids)"
  using assms by (auto simp: store_Evaluate_def Let_def split: sum.splits)

lemma CheckBinding_reason: "CheckBinding doc li = BindingWrongDevice r \<Longrightarrow> r \<noteq> []"
  by (auto simp: CheckBinding_def split: if_splits)

lemma record_evaluation_wrong:
  "ev_Doc ev = Some doc \<Longrightarrow>
   mg_wrongDevice (record_evaluation ev m) = [] \<longleftrightarrow> (\<forall>r. CheckBinding doc (mg_local m) \<noteq> BindingWrongDevice r)"
  by (auto simp: record_evaluation_def Let_def dest: CheckBinding_reason split: binding_result.split)

text \<open>What an operation leaves alone: the key, the profile, the identity.\<close>

definition same_setup :: "manager \<Rightarrow> manager \<Rightarrow> bool" where
  "same_setup m m' \<longleftrightarrow> mg_verifier m' = mg_verifier m \<and> mg_required m' = mg_required m \<and>
     mg_local m' = mg_local m \<and> mg_assignmentLookup m' = mg_assignmentLookup m"

text \<open>What the answers of a manager depend on.\<close>

definition mgr_view :: "manager \<Rightarrow> bool \<times> bool \<times> string \<times> evaluation" where
  "mgr_view m = (mg_required m, mg_loaded m, mg_wrongDevice m, mg_current m)"

lemma mgr_view_answers:
  assumes "mgr_view m' = mgr_view m"
  shows "mgr_State m' = mgr_State m" and "mgr_MaxConcurrentOnlineGuests m' = mgr_MaxConcurrentOnlineGuests m"
    and "ModuleEnabled ord m' = ModuleEnabled ord m" and "mgr_AuthorizedModules ord m' = mgr_AuthorizedModules ord m"
    and "HasUsableLicense m' = HasUsableLicense m"
proof -
  have eq: "mg_required m' = mg_required m" "mg_loaded m' = mg_loaded m"
    "mg_wrongDevice m' = mg_wrongDevice m" "mg_current m' = mg_current m"
    using assms by (simp_all add: mgr_view_def)
  show "mgr_State m' = mgr_State m" and "mgr_MaxConcurrentOnlineGuests m' = mgr_MaxConcurrentOnlineGuests m"
    and "ModuleEnabled ord m' = ModuleEnabled ord m" and "mgr_AuthorizedModules ord m' = mgr_AuthorizedModules ord m"
    and "HasUsableLicense m' = HasUsableLicense m"
    unfolding mgr_State_def mgr_MaxConcurrentOnlineGuests_def ModuleEnabled_def
      mgr_AuthorizedModules_def HasUsableLicense_def fun_eq_iff eq by simp_all
qed

lemma bridge_limits_keeps [simp]:
  "ap_disk (bridge_limits c x doc a) = ap_disk a"
  "mgr_view (ap_mgr (bridge_limits c x doc a)) = mgr_view (ap_mgr a)"
  "same_setup m (ap_mgr (bridge_limits c x doc a)) = same_setup m (ap_mgr a)"
  by (auto simp: bridge_limits_def mgr_view_def same_setup_def split: prod.split bool.split)

lemma mgr_Load_disk:
  "ap_disk (mgr_Load c x a) =
     (case mg_verifier (ap_mgr a) of None \<Rightarrow> ap_disk a
      | Some v \<Rightarrow> base_step c v (ap_disk a) (OpEvaluate (cl_io x) (cl_now x)))"
  by (auto simp: mgr_Load_def Let_def split: option.split prod.split)

lemma mgr_Load_setup [simp]: "same_setup (ap_mgr a) (ap_mgr (mgr_Load c x a))"
  by (auto simp: mgr_Load_def Let_def split: option.split prod.split)
    (auto simp: same_setup_def unload_def record_evaluation_def Let_def)

text \<open>
  The licence in force at a clock reading, as a function of the disk, the key and the identity
  alone: the specification the manager implements.
\<close>

definition in_force :: "'raw codec \<Rightarrow> manager \<Rightarrow> go_time \<Rightarrow> 'raw disk \<Rightarrow> (document \<times> lic_state) option" where
  "in_force c m now d =
     (case mg_verifier m of
        None \<Rightarrow> None
      | Some v \<Rightarrow>
     (case (Load c v d, readState c d, readRevoked c d) of
        (Inr doc, Inr st, Inr ids) \<Rightarrow>
          (case CheckBinding doc (mg_local m) of
             BindingWrongDevice r \<Rightarrow> None
           | _ \<Rightarrow> Some (doc, timeline_state doc (effective_now st now) (doc_LicenseID doc \<in> set ids)))
      | _ \<Rightarrow> None))"

text \<open>The manager holds this licence and no other.\<close>

definition holds :: "manager \<Rightarrow> (document \<times> lic_state) option \<Rightarrow> bool" where
  "holds m f \<longleftrightarrow>
     (case f of
        None \<Rightarrow> \<not> mg_loaded m \<or> mg_wrongDevice m \<noteq> []
      | Some (doc, s) \<Rightarrow> mg_loaded m \<and> mg_wrongDevice m = [] \<and>
          ev_Doc (mg_current m) = Some doc \<and> ev_State (mg_current m) = s)"

lemma holds_gate_view: "mgr_view m' = mgr_view m \<Longrightarrow> holds m' f = holds m f"
  by (auto simp: holds_def mgr_view_def split: option.split)

text \<open>Without the vendor's key nothing is ever loaded.\<close>

definition keyless_inv :: "manager \<Rightarrow> bool" where
  "keyless_inv m \<longleftrightarrow> (mg_verifier m = None \<longrightarrow> \<not> mg_loaded m)"

lemma mgr_Load_holds:
  assumes "keyless_inv (ap_mgr a)"
  shows "holds (ap_mgr (mgr_Load c x a)) (in_force c (ap_mgr a) (cl_now x) (ap_disk a))"
proof (cases "mg_verifier (ap_mgr a)")
  case None
  then show ?thesis using assms by (simp add: mgr_Load_def in_force_def holds_def keyless_inv_def)
next
  case (Some v)
  obtain ev e d where ev: "store_Evaluate c v (cl_io x) (cl_now x) (ap_disk a) = ((ev, e), d)"
    by (metis prod.collapse)
  show ?thesis
  proof (cases e)
    case (Some err)
    from store_Evaluate_SomeD [OF ev [unfolded Some]]
    have "in_force c (ap_mgr a) (cl_now x) (ap_disk a) = None"
      using \<open>mg_verifier (ap_mgr a) = Some v\<close> by (auto simp: in_force_def split: sum.split)
    then show ?thesis
      using \<open>mg_verifier (ap_mgr a) = Some v\<close> ev Some by (simp add: mgr_Load_def holds_def unload_def)
  next
    case None
    define m where "m = record_evaluation ev (ap_mgr a)"
    from ev [unfolded None] obtain doc st ids where
      rd: "Load c v (ap_disk a) = Inr doc" "readState c (ap_disk a) = Inr st" "readRevoked c (ap_disk a) = Inr ids"
      and ed: "ev_Doc ev = Some doc"
        "ev_State ev = timeline_state doc (effective_now st (cl_now x)) (doc_LicenseID doc \<in> set ids)"
      by (rule store_Evaluate_NoneE)
    have view: "mgr_view (ap_mgr (mgr_Load c x a)) = mgr_view m"
      using Some ev None ed by (simp add: mgr_Load_def Let_def m_def)
    have "holds m (in_force c (ap_mgr a) (cl_now x) (ap_disk a))"
      using Some rd ed record_evaluation_wrong [OF ed(1), of "ap_mgr a"]
      by (auto simp: in_force_def holds_def m_def record_evaluation_def Let_def
          dest: CheckBinding_reason split: binding_result.splits)
    then show ?thesis using view holds_gate_view by blast
  qed
qed

lemma mgr_Load_keyless: "keyless_inv (ap_mgr a) \<Longrightarrow> keyless_inv (ap_mgr (mgr_Load c x a))"
  using mgr_Load_setup [of a c x]
  by (cases "mg_verifier (ap_mgr a)") (auto simp: keyless_inv_def same_setup_def mgr_Load_def)

text \<open>The answers of a manager that holds a licence, on an appliance that requires one.\<close>

lemma holds_answers:
  assumes "holds m f" and "mg_required m"
  shows "mgr_State m = (case f of None \<Rightarrow> StateUnlicensed | Some (doc, s) \<Rightarrow> s)"
    and "mgr_MaxConcurrentOnlineGuests m =
           (case f of None \<Rightarrow> 0
            | Some (doc, s) \<Rightarrow> if EffectiveMaxConcurrentOnlineGuests doc > 0
                              then EffectiveMaxConcurrentOnlineGuests doc else -1)"
    and "ModuleEnabled ord m mid \<longleftrightarrow>
           (case f of None \<Rightarrow> False
            | Some (doc, s) \<Rightarrow> s \<in> {StateActive, StateGracePeriod} \<and> mid \<in> set (AuthorizedModules ord doc))"
    and "mgr_AuthorizedModules ord m = (case f of None \<Rightarrow> [] | Some (doc, s) \<Rightarrow> AuthorizedModules ord doc)"
  using assms
  by (auto simp: holds_def mgr_State_def mgr_MaxConcurrentOnlineGuests_def ModuleEnabled_def
      mgr_AuthorizedModules_def FeatureEnabled_def split: option.splits lic_state.splits)

subsection \<open>Every operation drives the store\<close>

text \<open>
  What every operation of the manager does: it keeps the key and the profile, loads nothing without
  a key, and changes the disk only by operations of the licence store.
\<close>

definition gate_ok :: "'raw codec \<Rightarrow> 'raw appliance \<Rightarrow> 'raw appliance \<Rightarrow> bool" where
  "gate_ok c a a' \<longleftrightarrow>
     mg_verifier (ap_mgr a') = mg_verifier (ap_mgr a) \<and> mg_required (ap_mgr a') = mg_required (ap_mgr a) \<and>
     (keyless_inv (ap_mgr a) \<longrightarrow> keyless_inv (ap_mgr a')) \<and>
     (case mg_verifier (ap_mgr a) of
        None \<Rightarrow> ap_disk a' = ap_disk a
      | Some v \<Rightarrow> \<exists>ops. ap_disk a' = run (store_step c v) (ap_disk a) ops)"

lemma gate_ok_trans: "gate_ok c a b \<Longrightarrow> gate_ok c b e \<Longrightarrow> gate_ok c a e"
  by (auto simp: gate_ok_def simp flip: run_append split: option.splits)

lemma gate_ok_mgr:
  assumes "mg_verifier m = mg_verifier (ap_mgr a)" "mg_required m = mg_required (ap_mgr a)"
    "mg_loaded m = mg_loaded (ap_mgr a)"
  shows "gate_ok c a (a\<lparr>ap_mgr := m\<rparr>)"
proof -
  have "\<exists>ops. ap_disk a = run (store_step c v) (ap_disk a) ops" for v by (rule exI [of _ "[]"]) simp
  then show ?thesis using assms by (auto simp: gate_ok_def keyless_inv_def split: option.split)
qed

lemma gate_ok_refl: "gate_ok c a a"
  using gate_ok_mgr [of "ap_mgr a" a c] by simp

lemma gate_ok_store:
  assumes "mg_verifier (ap_mgr a) = Some v"
  shows "gate_ok c a (a\<lparr>ap_disk := store_step c v (ap_disk a) p\<rparr>)"
proof -
  have "\<exists>ops. store_step c v (ap_disk a) p = run (store_step c v) (ap_disk a) ops"
    by (rule exI [of _ "[p]"]) simp
  then show ?thesis using assms by (simp add: gate_ok_def)
qed

lemma gate_ok_base:
  "mg_verifier (ap_mgr a) = Some v \<Longrightarrow> gate_ok c a (a\<lparr>ap_disk := base_step c v (ap_disk a) b\<rparr>)"
  using gate_ok_store [of a v c "OpBase b"] by simp

lemma gate_ok_Load: "gate_ok c a (mgr_Load c x a)"
proof -
  have "\<exists>ops. store_step c v (ap_disk a) p = run (store_step c v) (ap_disk a) ops" for v p
    by (rule exI [of _ "[p]"]) simp
  from this [of _ "OpBase (OpEvaluate (cl_io x) (cl_now x))"] show ?thesis
    using mgr_Load_setup [of a c x] mgr_Load_keyless [of a c x] mgr_Load_disk [of c x a]
    by (auto simp: gate_ok_def same_setup_def split: option.splits)
qed

lemma gate_ok_Install: "gate_ok c a (snd (mgr_Install c asg x y raw a))"
proof (cases "mg_verifier (ap_mgr a)")
  case (Some v)
  from gate_ok_base [OF Some, of c "OpInstall (cl_io x) raw (cl_now x)"]
  have store: "gate_ok c a (a\<lparr>ap_disk := snd (Install c v (cl_io x) raw (cl_now x) (ap_disk a))\<rparr>)" by simp
  then have "gate_ok c a (mgr_Load c y (a\<lparr>ap_disk := snd (Install c v (cl_io x) raw (cl_now x) (ap_disk a))\<rparr>))"
    using gate_ok_Load gate_ok_trans by blast
  with store show ?thesis
    using Some by (auto simp: mgr_Install_def gate_ok_refl split: sum.split binding_result.split prod.split)
qed (simp add: mgr_Install_def gate_ok_refl)

lemma gate_ok_ResetClock: "gate_ok c a (snd (mgr_ResetClock c ct x y a))"
proof (cases "mg_verifier (ap_mgr a)")
  case (Some v)
  let ?d = "snd (ResetHighWater c (cl_io x) ct (cl_now x) ClockResetSkew (ap_disk a))"
  from gate_ok_store [OF Some, of c "OpResetHighWater (cl_io x) ct (cl_now x) ClockResetSkew"]
  have store: "gate_ok c a (a\<lparr>ap_disk := ?d\<rparr>)" by simp
  then have "gate_ok c a (mgr_Load c y (a\<lparr>ap_disk := ?d\<rparr>))"
    using gate_ok_Load gate_ok_trans by blast
  with store show ?thesis using Some by (auto simp: mgr_ResetClock_def split: prod.split sum.split)
qed (simp add: mgr_ResetClock_def gate_ok_refl)

lemma gate_ok_Mark:
  assumes "mg_verifier (ap_mgr a) = Some v"
  shows "gate_ok c a (a\<lparr>ap_disk := snd (MarkCloudValidated c io now (ap_disk a))\<rparr>)"
  using gate_ok_base [OF assms, of c "OpMarkCloud io now"] by simp

lemma gate_ok_revocations:
  assumes "mg_verifier (ap_mgr a) = Some v"
  shows "gate_ok c a (a\<lparr>ap_disk := snd (add_revocations c xs k ids (ap_disk a))\<rparr>)"
  using assms
proof (induction ids arbitrary: a k)
  case Nil
  then show ?case by (simp add: gate_ok_refl)
next
  case (Cons lid ids)
  let ?a1 = "a\<lparr>ap_disk := snd (AddRevocation c (cl_io (xs k)) lid (ap_disk a))\<rparr>"
  from gate_ok_base [OF Cons.prems, of c "OpRevoke (cl_io (xs k)) lid"]
  have one: "gate_ok c a ?a1" by simp
  have "gate_ok c ?a1 (?a1\<lparr>ap_disk := snd (add_revocations c xs (Suc k) ids (ap_disk ?a1))\<rparr>)"
    using Cons.prems by (intro Cons.IH) simp
  from gate_ok_trans [OF one this] one show ?case
    by (auto split: prod.split option.split)
qed

lemma gate_ok_reply:
  assumes v: "mg_verifier (ap_mgr a) = Some v"
  shows "gate_ok c a (snd (apply_reply c asg xs envelope revoked a))"
proof -
  obtain e d where r: "(if viaMTLS (ap_mgr a) then add_revocations c xs 0 revoked (ap_disk a)
      else (None, ap_disk a)) = (e, d)" by (rule prod.exhaust)
  let ?a1 = "a\<lparr>ap_disk := d\<rparr>"
  have one: "gate_ok c a ?a1"
    using gate_ok_revocations [OF v, of c xs 0 revoked] r by (auto simp: gate_ok_refl split: if_splits)
  have v1: "mg_verifier (ap_mgr ?a1) = Some v" using v by simp
  note step = gate_ok_trans [OF one]
  have mark: "gate_ok c a (mgr_Load c x (a\<lparr>ap_disk := snd (MarkCloudValidated c io now d)\<rparr>))" for x io now
    using gate_ok_Mark [OF v1, of c io now] by (auto intro: step gate_ok_trans gate_ok_Load)
  have load: "gate_ok c a (mgr_Load c x ?a1)" for x by (rule step [OF gate_ok_Load])
  have inst: "gate_ok c a (snd (mgr_Install c asg x y raw ?a1))" for x y raw by (rule step [OF gate_ok_Install])
  have last: "gate_ok c a (mgr_Load c z (a2\<lparr>ap_disk := snd (MarkCloudValidated c io now (ap_disk a2))\<rparr>))"
    if "mgr_Install c asg x y raw ?a1 = (Inr doc, a2)" for x y z raw io now doc a2
  proof -
    have ok2: "gate_ok c a a2" using inst [of x y raw] that by simp
    then have "mg_verifier (ap_mgr a2) = Some v" using v by (simp add: gate_ok_def)
    from gate_ok_trans [OF ok2 gate_ok_trans [OF gate_ok_Mark [OF this] gate_ok_Load]] show ?thesis .
  qed
  show ?thesis
    using one load mark inst last r
    by (auto simp: apply_reply_def Let_def split: option.split prod.split sum.split) (metis snd_conv)+
qed

lemma gate_ok_Fetch: "gate_ok c a (snd (FetchFromCloud c asg xs aid rep a))"
proof (cases "mg_verifier (ap_mgr a)")
  case (Some v)
  let ?a0 = "a\<lparr>ap_mgr := (ap_mgr a)\<lparr>mg_applianceID := aid\<rparr>\<rparr>"
  have "gate_ok c a ?a0" by (rule gate_ok_mgr) simp_all
  moreover have "mg_verifier (ap_mgr ?a0) = Some v" using Some by simp
  note gate_ok_reply [OF this]
  ultimately show ?thesis
    by (auto simp: FetchFromCloud_def Let_def gate_ok_refl split: reply.split option.split intro: gate_ok_trans)
qed (simp add: FetchFromCloud_def gate_ok_refl)

lemma gate_ok_turn: "gate_ok c a (snd (fetch_turn c asg xs aid rep slow a))"
proof -
  let ?a1 = "snd (FetchFromCloud c asg xs aid rep a)"
  have "gate_ok c ?a1 (?a1\<lparr>ap_mgr := (ap_mgr ?a1)\<lparr>mg_kick := False\<rparr>\<rparr>)" by (rule gate_ok_mgr) simp_all
  then show ?thesis
    using gate_ok_Fetch [of c a asg xs aid rep] by (auto simp: fetch_turn_def Let_def intro: gate_ok_trans)
qed

lemma gate_step_ok: "gate_ok c a (gate_step c a op)"
  by (cases op)
    (auto simp: SetAssignmentLookup_def SetLocalIdentity_def SetMTLSTransport_def Kick_def
      intro: gate_ok_Load gate_ok_Install gate_ok_ResetClock gate_ok_turn gate_ok_mgr)

text \<open>So what the store never forgets, the manager never forgets.\<close>

definition gate_inv :: "'raw codec \<Rightarrow> 'raw appliance \<Rightarrow> bool" where
  "gate_inv c a \<longleftrightarrow> store_inv c (ap_disk a) \<and> keyless_inv (ap_mgr a)"

definition gate_le :: "'raw codec \<Rightarrow> 'raw appliance \<Rightarrow> 'raw appliance \<Rightarrow> bool" where
  "gate_le c a a' \<longleftrightarrow> store_le c (ap_disk a) (ap_disk a') \<and>
     mg_verifier (ap_mgr a') = mg_verifier (ap_mgr a) \<and> mg_required (ap_mgr a') = mg_required (ap_mgr a)"

lemma gate_ok_inv: "gate_ok c a a' \<Longrightarrow> gate_inv c a \<Longrightarrow> gate_inv c a' \<and> gate_le c a a'"
  by (cases "mg_verifier (ap_mgr a)")
    (auto simp: gate_ok_def gate_inv_def gate_le_def store_le_refl intro: licence.run_inv licence.run_le)

interpretation gate: monotone_machine "gate_step c" "gate_inv c" "gate_le c" for c
proof unfold_locales
  show "gate_le c a a'" if "gate_le c a b" "gate_le c b a'" for a b a'
    using that by (auto simp: gate_le_def intro: store_le_trans)
qed (use gate_ok_inv [OF gate_step_ok] in \<open>auto simp: gate_le_def store_le_refl\<close>)

subsection \<open>Properties\<close>

interpretation gate_profile: invariant_machine "gate_step c"
  "\<lambda>a. keyless_inv (ap_mgr a) \<and> mg_required (ap_mgr a) = r \<and> mg_verifier (ap_mgr a) = k" for c r k
  by unfold_locales (use gate_step_ok in \<open>auto simp: gate_ok_def\<close>)

lemma boot_simps [simp]:
  "keyless_inv (ap_mgr (boot c db tenantID keyfile required d t))"
  "mg_required (ap_mgr (boot c db tenantID keyfile required d t)) = required"
  "ap_disk (boot c db tenantID keyfile required d t) = d"
  by (simp_all add: boot_def New_def keyless_inv_def)

text \<open>The state of a manager that runs from its start, and what its next evaluation holds.\<close>

lemma booted_holds:
  assumes "a = run (gate_step c) (boot c db tenantID keyfile required d t) ops"
  shows "holds (ap_mgr (mgr_Load c x a)) (in_force c (ap_mgr a) (cl_now x) (ap_disk a))"
    and "mg_required (ap_mgr (mgr_Load c x a)) = required"
    and "mg_verifier (ap_mgr a) = mg_verifier (New c db tenantID keyfile required)"
proof -
  have *: "keyless_inv (ap_mgr a) \<and> mg_required (ap_mgr a) = required \<and>
      mg_verifier (ap_mgr a) = mg_verifier (New c db tenantID keyfile required)"
    unfolding assms by (rule gate_profile.run_inv) (simp, simp add: boot_def)
  then show "holds (ap_mgr (mgr_Load c x a)) (in_force c (ap_mgr a) (cl_now x) (ap_disk a))"
    and "mg_verifier (ap_mgr a) = mg_verifier (New c db tenantID keyfile required)"
    by (auto intro: mgr_Load_holds)
  show "mg_required (ap_mgr (mgr_Load c x a)) = required"
    using * mgr_Load_setup [of a c x] by (simp add: same_setup_def)
qed


text \<open>The parts of a licence that lets a session start.\<close>

lemma in_force_SomeE:
  assumes "in_force c m now d = Some (doc, s)"
  obtains v st ids where "mg_verifier m = Some v" and "Load c v d = Inr doc" and "readState c d = Inr st"
    and "readRevoked c d = Inr ids" and "\<And>r. CheckBinding doc (mg_local m) \<noteq> BindingWrongDevice r"
    and "s = timeline_state doc (effective_now st now) (doc_LicenseID doc \<in> set ids)"
  using assms by (auto simp: in_force_def split: option.splits sum.splits binding_result.splits)

lemma timeline_allows:
  assumes "AllowsNewSessions (timeline_state doc now revoked)" and "Validate doc = None"
  shows "\<not> revoked" and "doc_Status doc = DocActive" and "doc_ValidFrom doc \<noteq> 0 \<Longrightarrow> doc_ValidFrom doc \<le> now"
    and "now \<le> restricted_until doc"
  using assms window_order [OF assms(2)] Validate_NoneD(8) [OF assms(2)]
  by (auto simp: timeline_state_def split: if_splits)

lemma Load_verified:
  assumes "Load c v d = Inr doc"
  obtains raw where "decode_verify c v raw = Inr doc"
  using assms
  by (auto simp: Load_def readFileOrPrev_def read_prev_def
      split: read_result.splits sum.splits fread.splits option.splits if_splits)

lemma effective_now_ge: "now \<le> effective_now st now"
  by (auto simp: effective_now_def clockRollbackTolerance_def time_sub_gt_iff go_simps)


text \<open>An appliance for the witnesses: \<open>sample_doc\<close> on disk, signed by the appliance's vendor key.\<close>

definition sample_gate_disk :: "sample_raw disk" where
  "sample_gate_disk = sample_disk(currentFile :=
     Content (RawEnv \<lparr>env_PayloadB64 = ''5'', env_SigB64 = ''5'', env_KeyID = sample_key\<rparr>))"

definition sample_call :: call where
  "sample_call = \<lparr>cl_now = 50, cl_io = sample_io [] IoOk, cl_db = IoOk, cl_dbnow = 50, cl_ord = (\<lambda>k xs. xs)\<rparr>"

definition sample_boot :: "sample_raw appliance" where
  "sample_boot = boot sample_store_codec True ''T'' (Some sample_key) True sample_gate_disk (\<lambda>k. None)"

lemma sample_gate_facts:
  "store_inv sample_store_codec sample_gate_disk"
  "readState sample_store_codec sample_gate_disk = Inr sample_state"
  "readRevoked sample_store_codec sample_gate_disk = Inr [''L0'']"
  "mg_verifier (ap_mgr sample_boot) = Some [(sample_key, sample_key)]"
  "Load sample_store_codec [(sample_key, sample_key)] sample_gate_disk = Inr sample_doc"
proof -
  show st: "readState sample_store_codec sample_gate_disk = Inr sample_state"
    and "readRevoked sample_store_codec sample_gate_disk = Inr [''L0'']"
    using sample_disk_reads
    by (simp_all add: readState_def readRevoked_def readFileOrPrev_def sample_gate_disk_def sample_disk_def
        sample_store_codec_def)
  show "store_inv sample_store_codec sample_gate_disk"
    using sample_disk_inv by (simp add: store_inv_def sample_gate_disk_def cell_wf_def)
  show "mg_verifier (ap_mgr sample_boot) = Some [(sample_key, sample_key)]"
    by (simp add: sample_boot_def boot_def New_def NewVerifier_def AddKey_def sample_key_def
        sample_store_codec_def PublicKeySize_def)
  have "decode_verify sample_store_codec [(sample_key, sample_key)]
      (RawEnv \<lparr>env_PayloadB64 = ''5'', env_SigB64 = ''5'', env_KeyID = sample_key\<rparr>) = Inr sample_doc"
    by (simp add: decode_verify_def Verify_def sample_store_codec_def sample_version_def sample_doc_valid)
  from Load_current [OF _ this st]
  show "Load sample_store_codec [(sample_key, sample_key)] sample_gate_disk = Inr sample_doc"
    by (simp add: sample_gate_disk_def supersededByState_def sample_state_def sample_doc_def)
qed

lemma sample_gate_open:
  "in_force sample_store_codec (ap_mgr sample_boot) 50 sample_gate_disk = Some (sample_doc, StateActive)"
proof -
  have "mg_local (ap_mgr sample_boot) = blank_identity" by (simp add: sample_boot_def boot_def New_def)
  moreover have "effective_now sample_state 50 = 50"
    by (simp add: effective_now_def sample_state_def clockRollbackTolerance_def time_sub_gt_iff go_simps)
  ultimately show ?thesis
    using sample_gate_facts
    by (simp add: in_force_def CheckBinding_def IsUnbound_def blank_identity_def timeline_state_def sample_doc_def
        DocSuspended_def)
qed


text \<open>A refused installation leaves the manager as it was; only a failed write can have changed the licence file.\<close>

lemma Install_error_disk:
  "Install c v io raw now d = (Inl e, d') \<Longrightarrow> e \<noteq> ErrIO \<Longrightarrow> d' = d"
  by (auto simp: Install_def Let_def split: option.splits sum.splits prod.splits bool.splits)

lemma mgr_Install_InlD:
  assumes "mgr_Install c asg x y raw a = (Inl e, a')"
  shows "ap_mgr a' = ap_mgr a" and "ap_limits a' = ap_limits a"
    and "e \<noteq> StoreError ErrIO \<Longrightarrow> ap_disk a' = ap_disk a"
  using assms
  by (auto simp: mgr_Install_def dest: Install_error_disk
      split: option.splits sum.splits binding_result.splits prod.splits)

lemma AddRevocation_frame:
  "AddRevocation c io lid d = (r, d') \<Longrightarrow> readState c d' = readState c d \<and> Load c v d' = Load c v d"
proof -
  assume r: "AddRevocation c io lid d = (r, d')"
  show ?thesis
  proof (cases "d' = d")
    case False
    then obtain ids where d': "d' = fst (write_ids c io ids d)"
      using r by (auto simp: AddRevocation_def write_ids_def split: sum.splits if_splits prod.splits dest: fst_pair)
    have "readFileOrPrev d' currentFile p = readFileOrPrev d currentFile p" for p :: "_ \<Rightarrow> document option"
      unfolding d' write_ids_def by (intro writeDurable_frame) (simp_all add: file_names)
    then show ?thesis using d' by (simp add: Load_def split: read_result.split)
  qed simp
qed

lemma add_revocations_frame:
  "add_revocations c xs k ids d = (r, d') \<Longrightarrow> Load c v d' = Load c v d"
proof (induction ids arbitrary: k d)
  case (Cons lid ids)
  then show ?case by (auto split: prod.splits option.splits dest: AddRevocation_frame [where v = v])
qed simp

text \<open>
  C18: A fetch that fails changes no answer. Whatever Central sends or fails to send, if the fetch
  reports an error then every answer of the manager and every limit in the site database is as
  before, and so is the licence the store loads, unless a write to the appliance's own disk failed;
  revocations stored before the failure stay stored.
\<close>

theorem failed_fetch_keeps_gate:
  assumes "FetchFromCloud c asg xs aid rep a = (Some e, a')"
  shows "mgr_view (ap_mgr a') = mgr_view (ap_mgr a) \<and> ap_limits a' = ap_limits a \<and>
         (e \<noteq> StoreError ErrIO \<longrightarrow> Load c v (ap_disk a') = Load c v (ap_disk a))"
proof (cases "\<exists>code envelope revoked. rep = Reply code (Some (envelope, revoked)) \<and> code = 200 \<and>
     mg_verifier (ap_mgr a) \<noteq> None")
  case False
  then show ?thesis
    using assms by (auto simp: FetchFromCloud_def mgr_view_def Let_def split: reply.splits option.splits if_splits)
next
  case True
  define a0 where "a0 = a\<lparr>ap_mgr := (ap_mgr a)\<lparr>mg_applianceID := aid\<rparr>\<rparr>"
  obtain envelope revoked where ap: "apply_reply c asg xs envelope revoked a0 = (Some e, a')"
    using True assms by (auto simp: FetchFromCloud_def a0_def)
  obtain r d where r: "(if viaMTLS (ap_mgr a0) then add_revocations c xs 0 revoked (ap_disk a0)
      else (None, ap_disk a0)) = (r, d)" by (rule prod.exhaust)
  have d: "Load c v d = Load c v (ap_disk a)"
    using r add_revocations_frame [of c xs 0 revoked "ap_disk a0" r d v] by (auto simp: a0_def split: if_splits)
  have view: "mgr_view (ap_mgr a0) = mgr_view (ap_mgr a)" "ap_limits a0 = ap_limits a"
    by (simp_all add: a0_def mgr_view_def)
  show ?thesis
  proof (cases r)
    case (Some er)
    then have "a' = a0\<lparr>ap_disk := d\<rparr>" using ap r by (simp add: apply_reply_def Let_def)
    then show ?thesis using d view by simp
  next
    case None
    then obtain raw x y where "mgr_Install c asg x y raw (a0\<lparr>ap_disk := d\<rparr>) = (Inl e, a')"
      using ap r by (auto simp: apply_reply_def Let_def split: option.splits prod.splits sum.splits)
    from mgr_Install_InlD [OF this] show ?thesis using d view by simp
  qed
qed

theorem failed_fetch_keeps_gate_witness:
  "\<exists>e a'. FetchFromCloud sample_store_codec None (\<lambda>k. sample_call) ''A1''
       (Reply 200 (Some (Some RawJunk, [''L1'']))) (sample_boot\<lparr>ap_mgr := SetMTLSTransport True ''https'' (ap_mgr sample_boot)\<rparr>)
     = (Some e, a') \<and> e = StoreError ErrEnvelope \<and>
     Load sample_store_codec [(sample_key, sample_key)] (ap_disk a') = Inr sample_doc"
proof -
  let ?a = "sample_boot\<lparr>ap_mgr := SetMTLSTransport True ''https'' (ap_mgr sample_boot)\<rparr>"
  obtain r a' where f: "FetchFromCloud sample_store_codec None (\<lambda>k. sample_call) ''A1''
       (Reply 200 (Some (Some RawJunk, [''L1'']))) ?a = (r, a')" by (rule prod.exhaust)
  have disk: "ap_disk sample_boot = sample_gate_disk" by (simp add: sample_boot_def)
  have "snd (writeDurable sample_store_codec (sample_io [] IoOk) revokedFile raw sample_gate_disk)" for raw
    by (simp add: writeDurable_def writeSynced_def sample_io_def sample_gate_disk_def sample_disk_def
        sample_store_codec_def)
  then have "fst (AddRevocation sample_store_codec (sample_io [] IoOk) ''L1'' sample_gate_disk) = None"
    by (simp add: AddRevocation_def sample_gate_facts(3) case_prod_unfold)
  then obtain d where "AddRevocation sample_store_codec (sample_io [] IoOk) ''L1'' sample_gate_disk = (None, d)"
    by (metis prod.collapse)
  then have r: "r = Some (StoreError ErrEnvelope)"
    using f sample_gate_facts(4) disk
    by (auto simp: FetchFromCloud_def apply_reply_def viaMTLS_def SetMTLSTransport_def sample_call_def Let_def
        mgr_Install_def decode_verify_def sample_store_codec_def)
  from failed_fetch_keeps_gate [OF f [unfolded r], of "[(sample_key, sample_key)]"] f r
  show ?thesis using sample_gate_facts(5) disk by auto
qed

lemma CheckInstallBinding_stricter:
  "CheckBinding doc li = BindingWrongDevice r \<Longrightarrow> \<exists>r'. CheckInstallBinding doc li = BindingWrongDevice r'"
  by (simp add: CheckInstallBinding_def)

text \<open>The parts of a successful installation.\<close>

lemma mgr_Install_InrE:
  assumes "mgr_Install c asg x y raw a = (Inr doc, a')"
  obtains v d where "mg_verifier (ap_mgr a) = Some v" and "decode_verify c v raw = Inr doc"
    and "Install c v (cl_io x) raw (cl_now x) (ap_disk a) = (Inr doc, d)"
    and "\<And>r. install_binding (ap_mgr a) asg doc \<noteq> BindingWrongDevice r"
    and "a' = mgr_Load c y (a\<lparr>ap_disk := d\<rparr>)"
proof -
  obtain v pre d where *: "mg_verifier (ap_mgr a) = Some v" "decode_verify c v raw = Inr pre"
    "Install c v (cl_io x) raw (cl_now x) (ap_disk a) = (Inr doc, d)"
    "\<And>r. install_binding (ap_mgr a) asg pre \<noteq> BindingWrongDevice r" "a' = mgr_Load c y (a\<lparr>ap_disk := d\<rparr>)"
    using assms by (auto simp: mgr_Install_def split: option.splits sum.splits binding_result.splits prod.splits)
  have "pre = doc" using *(2,3) by (auto simp: decode_verify_def elim!: Install_InrE)
  with * that show thesis by blast
qed

lemma Install_reads:
  assumes "store_inv c d" and "Install c v io raw now d = (Inr doc, d')"
  obtains st ids where "readState c d' = Inr st" and "readRevoked c d' = Inr ids" and "doc_LicenseID doc \<notin> set ids"
proof -
  from assms(2) obtain env st revoked d1 where "c_env_decode c raw = Some env"
    and rv: "readRevoked c d = Inr revoked"
    and g: "install_guard doc (c_sha256_hex c (env_PayloadB64 env)) st revoked = None"
    and w1: "writeDurable c io currentFile raw d = (d1, True)"
    and w2: "writeState c io
           (advanceHighWater (accepted_state doc (c_sha256_hex c (env_PayloadB64 env)) st) now) d1 = (d', True)"
    by (rule Install_InrE) blast
  have "store_inv c d1" using store_inv_current [OF assms(1), of io raw] w1 by simp
  note st = state_cell.write_ok [OF this w2]
  have "readRevoked c d1 = Inr revoked" using readState_current(2) [of c io raw d] w1 rv by simp
  then have "readRevoked c d' = Inr revoked"
    using readRevoked_state [of c io _ d1] w2 by (metis fst_conv)
  with st g that show thesis by (auto simp: install_guard_def split: if_splits)
qed

text \<open>
  C17: What is installed is for this appliance, and takes effect at once. When the manager reports a
  licence installed, the licence passed the strict binding check, names the customer and site of the
  signed assignment if the appliance holds one and the network card is the bound one, and is the
  licence in force after the call, not revoked, at the clock of its evaluation.
\<close>

theorem installed_licence_in_force:
  assumes "gate_inv c a" and "mgr_Install c asg x y raw a = (Inr doc, a')"
  shows "(\<forall>r. CheckInstallBinding doc (mg_local (ap_mgr a)) \<noteq> BindingWrongDevice r) \<and>
         (mg_assignmentLookup (ap_mgr a) \<and> asg = Some (tenant, site) \<and>
          CheckInstallBinding doc (mg_local (ap_mgr a)) = BindingOK \<longrightarrow>
            doc_TenantID doc = tenant \<and> doc_SiteID doc = site) \<and>
         HasUsableLicense (ap_mgr a') \<and> ev_Doc (mg_current (ap_mgr a')) = Some doc \<and>
         (\<exists>now \<ge> cl_now y. mgr_State (ap_mgr a') = timeline_state doc now False)"
proof -
  obtain v d where v: "mg_verifier (ap_mgr a) = Some v" and dv: "decode_verify c v raw = Inr doc"
    and i: "Install c v (cl_io x) raw (cl_now x) (ap_disk a) = (Inr doc, d)"
    and b: "\<And>r. install_binding (ap_mgr a) asg doc \<noteq> BindingWrongDevice r"
    and a': "a' = mgr_Load c y (a\<lparr>ap_disk := d\<rparr>)"
    using assms(2) by (rule mgr_Install_InrE) (rule that)
  have inv: "store_inv c (ap_disk a)" "keyless_inv (ap_mgr a)" using assms(1) by (auto simp: gate_inv_def)
  have strict: "CheckInstallBinding doc (mg_local (ap_mgr a)) \<noteq> BindingWrongDevice r" for r
    using b [of r] by (auto simp: install_binding_def Let_def split: if_splits)
  then have bound: "CheckBinding doc (mg_local (ap_mgr a)) \<noteq> BindingWrongDevice r" for r
    using CheckInstallBinding_stricter by blast
  from i obtain st ids where rd: "readState c d = Inr st" "readRevoked c d = Inr ids" "doc_LicenseID doc \<notin> set ids"
    by (rule Install_reads [OF inv(1)])
  have ld: "Load c v d = Inr doc" using install_then_load [OF inv(1) i] .
  have "in_force c (ap_mgr a) (cl_now y) d =
      Some (doc, timeline_state doc (effective_now st (cl_now y)) False)"
    using v ld rd bound by (auto simp: in_force_def split: binding_result.split)
  then have h: "holds (ap_mgr a') (Some (doc, timeline_state doc (effective_now st (cl_now y)) False))"
    using mgr_Load_holds [of "a\<lparr>ap_disk := d\<rparr>" c y] inv(2) by (simp add: a')
  then have "mgr_State (ap_mgr a') = timeline_state doc (effective_now st (cl_now y)) False"
    by (simp add: holds_def mgr_State_def)
  moreover have "mg_assignmentLookup (ap_mgr a) \<and> asg = Some (tenant, site) \<and>
      CheckInstallBinding doc (mg_local (ap_mgr a)) = BindingOK \<longrightarrow> doc_TenantID doc = tenant \<and> doc_SiteID doc = site"
    using b [of assignment_msg] by (auto simp: install_binding_def Let_def split: if_splits)
  ultimately show ?thesis
    using h strict effective_now_ge by (auto simp: holds_def HasUsableLicense_def)
qed

text \<open>The appliance of the witnesses with its identity and a signed assignment.\<close>

definition sample_assigned :: "sample_raw appliance" where
  "sample_assigned = sample_boot\<lparr>ap_mgr := SetAssignmentLookup True
     (SetLocalIdentity (blank_identity\<lparr>li_ApplianceID := ''A1'', li_WANMAC := ''02:00:00:00:00:01''\<rparr>)
       (ap_mgr sample_boot))\<rparr>"

definition sample_gate_env :: sample_raw where
  "sample_gate_env = RawEnv \<lparr>env_PayloadB64 = ''5'', env_SigB64 = ''5'', env_KeyID = sample_key\<rparr>"

lemma sample_assigned_facts:
  "mg_verifier (ap_mgr sample_assigned) = Some [(sample_key, sample_key)]"
  "ap_disk sample_assigned = sample_gate_disk" "mg_assignmentLookup (ap_mgr sample_assigned)"
  "mg_local (ap_mgr sample_assigned) = blank_identity\<lparr>li_ApplianceID := ''A1'', li_WANMAC := ''02:00:00:00:00:01''\<rparr>"
  "gate_inv sample_store_codec sample_assigned"
  using sample_gate_facts(1,4)
  by (simp_all add: sample_assigned_def SetAssignmentLookup_def SetLocalIdentity_def sample_boot_def gate_inv_def
      keyless_inv_def)

lemma mgr_Install_success:
  assumes "mg_verifier (ap_mgr a) = Some v" and "decode_verify c v raw = Inr doc"
    and "\<And>r. install_binding (ap_mgr a) asg doc \<noteq> BindingWrongDevice r"
    and "fst (Install c v (cl_io x) raw (cl_now x) (ap_disk a)) = Inr doc"
  shows "\<exists>a'. mgr_Install c asg x y raw a = (Inr doc, a')"
proof -
  obtain d where "Install c v (cl_io x) raw (cl_now x) (ap_disk a) = (Inr doc, d)"
    using assms(4) by (metis prod.collapse)
  then show ?thesis using assms(1-3) by (auto simp: mgr_Install_def split: binding_result.split)
qed

lemma Install_success:
  assumes "c_env_decode c raw = Some env" and "Verify c v env = Inr doc" and "readState c d = Inr st"
    and "readRevoked c d = Inr ids" and "install_guard doc (c_sha256_hex c (env_PayloadB64 env)) st ids = None"
    and "\<And>name raw d. snd (writeDurable c io name raw d)"
  shows "fst (Install c v io raw now d) = Inr doc"
proof -
  obtain d1 where w1: "writeDurable c io currentFile raw d = (d1, True)"
    using assms(6) [of currentFile raw d] by (metis prod.collapse)
  obtain d2 where "writeState c io
      (advanceHighWater (accepted_state doc (c_sha256_hex c (env_PayloadB64 env)) st) now) d1 = (d2, True)"
    unfolding writeState_def using assms(6) by (metis prod.collapse)
  with w1 show ?thesis using assms(1-5) by (simp add: Install_def Let_def)
qed

lemma sample_io_writes: "snd (writeDurable c (sample_io [] IoOk) name raw d)"
  by (simp add: writeDurable_def writeSynced_def sample_io_def split: fread.split)

lemma sample_gate_install:
  "fst (Install sample_store_codec [(sample_key, sample_key)] (sample_io [] IoOk) sample_gate_env 50
     sample_gate_disk) = Inr sample_doc"
proof (rule Install_success [OF _ _ sample_gate_facts(2,3) _ sample_io_writes])
  let ?env = "\<lparr>env_PayloadB64 = ''5'', env_SigB64 = ''5'', env_KeyID = sample_key\<rparr>"
  show "c_env_decode sample_store_codec sample_gate_env = Some ?env"
    and "Verify sample_store_codec [(sample_key, sample_key)] ?env = Inr sample_doc"
    by (simp_all add: sample_gate_env_def Verify_def sample_store_codec_def sample_version_def sample_doc_valid)
  show "install_guard sample_doc (c_sha256_hex sample_store_codec (env_PayloadB64 ?env)) sample_state [''L0''] = None"
    by (simp add: install_guard_def sample_doc_def sample_state_def sample_store_codec_def)
qed

theorem installed_licence_in_force_witness:
  "\<exists>a'. mgr_Install sample_store_codec (Some (''T'', ''S'')) sample_call sample_call sample_gate_env sample_assigned
          = (Inr sample_doc, a') \<and> HasUsableLicense (ap_mgr a')"
proof -
  have "install_binding (ap_mgr sample_assigned) (Some (''T'', ''S'')) sample_doc = BindingOK"
    by (simp add: install_binding_def Let_def CheckInstallBinding_def CheckBinding_def IsUnbound_def need_local_def
        sample_assigned_facts blank_identity_def sample_doc_def TrimSpace_def is_space_def)
  moreover have "decode_verify sample_store_codec [(sample_key, sample_key)] sample_gate_env = Inr sample_doc"
    by (simp add: decode_verify_def Verify_def sample_gate_env_def sample_store_codec_def sample_version_def
        sample_doc_valid)
  ultimately obtain a' where i: "mgr_Install sample_store_codec (Some (''T'', ''S'')) sample_call sample_call
      sample_gate_env sample_assigned = (Inr sample_doc, a')"
    using mgr_Install_success [OF sample_assigned_facts(1), of sample_store_codec sample_gate_env sample_doc
        "Some (''T'', ''S'')" sample_call sample_call] sample_gate_install sample_assigned_facts(2)
    by (auto simp: sample_call_def)
  from installed_licence_in_force [OF sample_assigned_facts(5) i] i show ?thesis by blast
qed

text \<open>
  The comparison with the signed assignment is skipped when the network card differs: a licence for
  another customer and site, bound to this appliance id with another WAN address, installs on an
  appliance whose signed assignment names its own customer and site.
\<close>

definition foreign_doc :: document where
  "foreign_doc = sample_doc\<lparr>doc_TenantID := ''T2'', doc_SiteID := ''S2'', doc_WANMAC := ''02:00:00:00:00:02''\<rparr>"

lemma wan_mismatch_skips_assignment:
  "install_binding (ap_mgr sample_assigned) (Some (''T'', ''S'')) (foreign_doc\<lparr>doc_WANMAC := []\<rparr>)
     = BindingWrongDevice assignment_msg"
  "install_binding (ap_mgr sample_assigned) (Some (''T'', ''S'')) foreign_doc = BindingWANMismatch"
proof -
  have "normMAC ''02:00:00:00:00:02'' \<noteq> normMAC ''02:00:00:00:00:01''" by code_simp
  then show "install_binding (ap_mgr sample_assigned) (Some (''T'', ''S'')) foreign_doc = BindingWANMismatch"
    by (simp add: install_binding_def Let_def CheckInstallBinding_def CheckBinding_def IsUnbound_def need_local_def
        sample_assigned_facts blank_identity_def foreign_doc_def sample_doc_def TrimSpace_def is_space_def)
  show "install_binding (ap_mgr sample_assigned) (Some (''T'', ''S'')) (foreign_doc\<lparr>doc_WANMAC := []\<rparr>)
     = BindingWrongDevice assignment_msg"
    by (simp add: install_binding_def Let_def CheckInstallBinding_def CheckBinding_def IsUnbound_def need_local_def
        sample_assigned_facts blank_identity_def foreign_doc_def sample_doc_def TrimSpace_def is_space_def)
qed

lemma foreign_licence_installs:
  "\<exists>a'. mgr_Install (sample_store_codec\<lparr>c_doc_unmarshal := (\<lambda>p. Some foreign_doc)\<rparr>) (Some (''T'', ''S''))
          sample_call sample_call sample_gate_env sample_assigned = (Inr foreign_doc, a')"
proof (rule mgr_Install_success [OF sample_assigned_facts(1)])
  have valid: "Validate foreign_doc = None"
    by (simp add: foreign_doc_def Validate_def sample_doc_def MinSchemaVersion_def CurrentSchemaVersion_def DocActive_def)
  let ?c = "sample_store_codec\<lparr>c_doc_unmarshal := (\<lambda>p. Some foreign_doc)\<rparr>"
  show "decode_verify ?c [(sample_key, sample_key)] sample_gate_env = Inr foreign_doc"
    using valid by (simp add: decode_verify_def Verify_def sample_gate_env_def sample_store_codec_def)
  show "install_binding (ap_mgr sample_assigned) (Some (''T'', ''S'')) foreign_doc \<noteq> BindingWrongDevice r" for r
    by (simp add: wan_mismatch_skips_assignment)
  have "readState ?c sample_gate_disk = Inr sample_state" and "readRevoked ?c sample_gate_disk = Inr [''L0'']"
    using sample_gate_facts(2,3) by (simp_all add: readState_def readRevoked_def)
  note ok = Install_success [OF _ _ this _ sample_io_writes, where env = "\<lparr>env_PayloadB64 = ''5'', env_SigB64 = ''5'', env_KeyID = sample_key\<rparr>"]
  have "fst (Install ?c [(sample_key, sample_key)] (sample_io [] IoOk) sample_gate_env 50 sample_gate_disk) = Inr foreign_doc"
  proof (rule ok)
    show "c_env_decode ?c sample_gate_env = Some \<lparr>env_PayloadB64 = ''5'', env_SigB64 = ''5'', env_KeyID = sample_key\<rparr>"
      and "Verify ?c [(sample_key, sample_key)] \<lparr>env_PayloadB64 = ''5'', env_SigB64 = ''5'', env_KeyID = sample_key\<rparr> = Inr foreign_doc"
      using valid by (simp_all add: sample_gate_env_def Verify_def sample_store_codec_def)
    show "install_guard foreign_doc (c_sha256_hex ?c (env_PayloadB64 \<lparr>env_PayloadB64 = ''5'', env_SigB64 = ''5'', env_KeyID = sample_key\<rparr>)) sample_state [''L0''] = None"
      by (simp add: install_guard_def foreign_doc_def sample_doc_def sample_state_def sample_store_codec_def)
  qed
  then show "fst (Install ?c [(sample_key, sample_key)] (cl_io sample_call) sample_gate_env (cl_now sample_call)
      (ap_disk sample_assigned)) = Inr foreign_doc"
    by (simp add: sample_assigned_facts sample_call_def)
qed

end
