(* ===== verification/Posting_Wire.thy ===== *)
theory Posting_Wire
  imports Prelude
begin

text \<open>
  The wire side of room charges (\<open>data-plane/internal/posting\<close>: \<open>config.go\<close>, \<open>errors.go\<close>, \<open>evidence.go\<close>,
  \<open>gate.go\<close>, \<open>fias.go\<close>, \<open>transport.go\<close>, \<open>handoff_transport.go\<close>, and \<open>data-plane/internal/postinghandoff\<close>):
  the deployment flags, the fail-closed gate over the pinned evidence, the PS record that is sent
  and the PA record that answers it, and the guards every transmission passes. An error is its
  code; the message text is left out.
\<close>

section \<open>Flags\<close>

record posting_config =
  MasterEnabled :: bool
  PostingEnabled :: bool
  OutboxEnabled :: bool
  TransmitEnabled :: bool
  ReviewEnabled :: bool

datatype posting_code =
    ErrConfig | ErrRepo
  | ErrPostingTargetUnset | ErrReservationMismatch | ErrStayChargeOpen | ErrRNMissing
  | ErrGNumberMissing | ErrRNNotWireSafe | ErrGNumberNotWireSafe | ErrStayNotInHouse
  | ErrPostingNotAllowed | ErrEvidenceStale | ErrEvidenceOutOfScope | ErrInterfaceNoCurrency
  | ErrCurrencyMismatch | ErrExponentMismatch | ErrAmountInvalid | ErrInterfaceInactive
  | ErrInterfaceDecomm | ErrInterfaceNotFresh | ErrFIASExponent | ErrReversalDisabled
  | ErrDarkNoEgress | ErrAlreadyInFlight | ErrRetryNotAuthed | ErrPACorrelation
  | ErrPAStatusUnknown | ErrPAAmbiguous | ErrPAWrongPNumber | ErrLaneBusy
  | ErrUnknownTerminal | ErrReviewConflict | ErrReviewStale | ErrWireFieldInvalid
  | ErrTransportUnavailable

text \<open>The value of each code.\<close>

fun code_text :: "posting_code \<Rightarrow> string" where
  "code_text ErrConfig = ''config''"
| "code_text ErrRepo = ''repository''"
| "code_text ErrPostingTargetUnset = ''posting_target_unset''"
| "code_text ErrReservationMismatch = ''reservation_mismatch''"
| "code_text ErrStayChargeOpen = ''stay_room_charge_unresolved''"
| "code_text ErrRNMissing = ''rn_missing''"
| "code_text ErrGNumberMissing = ''g_number_missing''"
| "code_text ErrRNNotWireSafe = ''rn_not_wire_safe''"
| "code_text ErrGNumberNotWireSafe = ''g_number_not_wire_safe''"
| "code_text ErrStayNotInHouse = ''stay_not_in_house''"
| "code_text ErrPostingNotAllowed = ''posting_not_allowed''"
| "code_text ErrEvidenceStale = ''evidence_stale''"
| "code_text ErrEvidenceOutOfScope = ''evidence_out_of_scope''"
| "code_text ErrInterfaceNoCurrency = ''interface_currency_not_onboarded''"
| "code_text ErrCurrencyMismatch = ''currency_mismatch''"
| "code_text ErrExponentMismatch = ''currency_exponent_mismatch''"
| "code_text ErrAmountInvalid = ''amount_invalid''"
| "code_text ErrInterfaceInactive = ''interface_not_accepting_work''"
| "code_text ErrInterfaceDecomm = ''interface_decommissioned''"
| "code_text ErrInterfaceNotFresh = ''interface_not_fresh''"
| "code_text ErrFIASExponent = ''fias_exponent_unsupported''"
| "code_text ErrReversalDisabled = ''programmatic_reversal_disabled''"
| "code_text ErrDarkNoEgress = ''dark_no_egress''"
| "code_text ErrAlreadyInFlight = ''already_in_flight''"
| "code_text ErrRetryNotAuthed = ''retry_not_authorized''"
| "code_text ErrPACorrelation = ''pa_correlation_failed''"
| "code_text ErrPAStatusUnknown = ''pa_status_not_in_catalog''"
| "code_text ErrPAAmbiguous = ''pa_ambiguous''"
| "code_text ErrPAWrongPNumber = ''pa_wrong_p_number''"
| "code_text ErrLaneBusy = ''interface_lane_busy''"
| "code_text ErrUnknownTerminal = ''unknown_requires_manual_review''"
| "code_text ErrReviewConflict = ''review_conflict''"
| "code_text ErrReviewStale = ''review_version_stale''"
| "code_text ErrWireFieldInvalid = ''wire_field_invalid''"
| "code_text ErrTransportUnavailable = ''transport_unavailable''"

definition DefaultConfig :: posting_config where
  "DefaultConfig = \<lparr>MasterEnabled = False, PostingEnabled = False, OutboxEnabled = False,
     TransmitEnabled = False, ReviewEnabled = False\<rparr>"

definition PostingOn :: "posting_config \<Rightarrow> bool" where
  "PostingOn c \<longleftrightarrow> MasterEnabled c \<and> PostingEnabled c"

definition OutboxOn :: "posting_config \<Rightarrow> bool" where
  "OutboxOn c \<longleftrightarrow> MasterEnabled c \<and> OutboxEnabled c"

definition ReviewOn :: "posting_config \<Rightarrow> bool" where
  "ReviewOn c \<longleftrightarrow> MasterEnabled c \<and> ReviewEnabled c"

definition TransmitOn :: "posting_config \<Rightarrow> bool" where
  "TransmitOn c \<longleftrightarrow> MasterEnabled c \<and> OutboxEnabled c \<and> TransmitEnabled c"

definition Dark :: "posting_config \<Rightarrow> bool" where
  "Dark c \<longleftrightarrow> \<not> TransmitOn c"

definition anyChildSet :: "posting_config \<Rightarrow> bool" where
  "anyChildSet c \<longleftrightarrow> PostingEnabled c \<or> OutboxEnabled c \<or> TransmitEnabled c \<or> ReviewEnabled c"

definition config_Validate :: "posting_config \<Rightarrow> posting_code option" where
  "config_Validate c =
    (if \<not> MasterEnabled c \<and> anyChildSet c then Some ErrConfig
     else if TransmitEnabled c \<and> \<not> OutboxEnabled c then Some ErrConfig
     else None)"

text \<open>\<open>strconv.ParseBool\<close>.\<close>

definition ParseBool :: "string \<Rightarrow> bool option" where
  "ParseBool s =
    (if s \<in> {''1'', ''t'', ''T'', ''TRUE'', ''true'', ''True''} then Some True
     else if s \<in> {''0'', ''f'', ''F'', ''FALSE'', ''false'', ''False''} then Some False
     else None)"

definition parseBoolStrict :: "string \<Rightarrow> posting_code + bool" where
  "parseBoolStrict raw =
    (let s = TrimSpace raw in
     if s = [] then Inr False
     else case ParseBool s of None \<Rightarrow> Inl ErrConfig | Some v \<Rightarrow> Inr v)"

fun parse_flags :: "string list \<Rightarrow> posting_code + bool list" where
  "parse_flags [] = Inr []"
| "parse_flags (raw # rest) =
    (case parseBoolStrict raw of
       Inl e \<Rightarrow> Inl e
     | Inr v \<Rightarrow> (case parse_flags rest of Inl e \<Rightarrow> Inl e | Inr vs \<Rightarrow> Inr (v # vs)))"

definition EnvPhase4Master :: string where "EnvPhase4Master = ''STAYCONNECT_PHASE4_MASTER''"
definition EnvPhase4Posting :: string where "EnvPhase4Posting = ''STAYCONNECT_PHASE4_POSTING''"
definition EnvPhase4Outbox :: string where "EnvPhase4Outbox = ''STAYCONNECT_PHASE4_OUTBOX_WORKER''"
definition EnvPhase4Transmit :: string where "EnvPhase4Transmit = ''STAYCONNECT_PHASE4_PMS_TRANSMIT''"
definition EnvPhase4Review :: string where "EnvPhase4Review = ''STAYCONNECT_PHASE4_FINANCIAL_REVIEW''"

definition LoadConfigFromEnv :: "(string \<Rightarrow> string) \<Rightarrow> posting_code + posting_config" where
  "LoadConfigFromEnv get =
    (case parse_flags (map get [EnvPhase4Master, EnvPhase4Posting, EnvPhase4Outbox, EnvPhase4Transmit, EnvPhase4Review]) of
       Inl e \<Rightarrow> Inl e
     | Inr vs \<Rightarrow>
         let c = \<lparr>MasterEnabled = vs ! 0, PostingEnabled = vs ! 1, OutboxEnabled = vs ! 2,
                  TransmitEnabled = vs ! 3, ReviewEnabled = vs ! 4\<rparr>
         in (case config_Validate c of Some e \<Rightarrow> Inl e | None \<Rightarrow> Inr c))"

section \<open>Pinned evidence and the gate\<close>

record pinned =
  pi_TenantID :: string
  pi_SiteID :: string
  pi_PMSInterfaceID :: string
  pi_AuthInterfaceRevisionID :: string
  pi_PostingInterfaceRevisionID :: string
  pi_SecretGenerationID :: string
  pi_StayID :: string
  pi_PackageRevisionID :: string
  pi_SettlementMappingID :: string
  pi_PurchaseID :: string
  pi_SettlementID :: string
  pi_AmountMinor :: int
  pi_Currency :: string
  pi_CurrencyExponent :: int
  pi_RN :: string
  pi_GNumber :: string
  pi_PostingCode :: string
  pi_IdempotencyKey :: string
  pi_PostingID :: string
  pi_ExpectStayLifecycleVersion :: "int option"
  pi_ExpectPurchaseState :: string

record posting_snapshot =
  sn_InterfaceLifecycleState :: string
  sn_InterfaceCurrentRevision :: string
  sn_PostingTargetModel :: string
  sn_InterfaceCurrency :: string
  sn_InterfaceExponent :: "int option"
  sn_PurchaseCurrency :: string
  sn_PurchaseExponent :: "int option"
  sn_PurchaseState :: string
  sn_PackageCurrency :: string
  sn_PackageExponent :: "int option"
  sn_StayStatus :: string
  sn_StayPostingAllowed :: bool
  sn_StayLifecycleVersion :: int
  sn_StayRoomNumber :: string
  sn_StayReservation :: string
  sn_SettlementMappingRetired :: bool
  sn_ConnectorKind :: string
  sn_FreshnessBlock :: string

definition wire_bad :: "char \<Rightarrow> bool" where
  "wire_bad c \<longleftrightarrow> (of_char c :: nat) < 32 \<or> (of_char c :: nat) = 127 \<or> c = CHR ''|''"

definition wireUnsafe :: "string \<Rightarrow> bool" where
  "wireUnsafe v \<longleftrightarrow> list_ex wire_bad v"

definition blank :: "string \<Rightarrow> bool" where
  "blank v \<longleftrightarrow> TrimSpace v = []"

definition maxWireField :: nat where "maxWireField = 32"
definition FIASCurrencyExponent :: int where "FIASCurrencyExponent = 2"

datatype purpose = PurposeCreate | PurposeExecute

definition lifecycleAllows :: "string \<Rightarrow> purpose \<Rightarrow> posting_code option" where
  "lifecycleAllows state p =
    (if state = ''ACTIVE'' \<or> state = ''AUTH_DISABLED'' then None
     else if state = ''DRAINING'' then (if p = PurposeExecute then None else Some ErrInterfaceInactive)
     else if state = ''DECOMMISSIONED'' then Some ErrInterfaceDecomm
     else Some ErrInterfaceInactive)"

definition matchCurrency :: "string \<Rightarrow> int option \<Rightarrow> posting_snapshot \<Rightarrow> posting_code option" where
  "matchCurrency cur ex s =
    (if cur = [] \<or> ex = None then Some ErrCurrencyMismatch
     else if cur \<noteq> sn_InterfaceCurrency s then Some ErrCurrencyMismatch
     else if ex \<noteq> sn_InterfaceExponent s then Some ErrExponentMismatch
     else None)"

text \<open>
  \<open>Gate.CheckFor\<close>. The pointer comparisons \<open>*exp\<close> and \<open>*s.InterfaceExponent\<close> are reached only where
  both are set: the branch that refuses a missing base currency comes first.
\<close>

definition CheckFor :: "purpose \<Rightarrow> pinned \<Rightarrow> posting_snapshot \<Rightarrow> posting_code option" where
  "CheckFor purpose p s =
    (case lifecycleAllows (sn_InterfaceLifecycleState s) purpose of
       Some e \<Rightarrow> Some e
     | None \<Rightarrow>
     if sn_PostingTargetModel s \<noteq> ''RESERVATION'' then Some ErrPostingTargetUnset
     else if sn_InterfaceCurrency s = [] \<or> sn_InterfaceExponent s = None then Some ErrInterfaceNoCurrency
     else if sn_FreshnessBlock s \<noteq> [] then Some ErrInterfaceNotFresh
     else if sn_InterfaceCurrentRevision s \<noteq> []
             \<and> sn_InterfaceCurrentRevision s \<noteq> pi_PostingInterfaceRevisionID p then Some ErrEvidenceStale
     else if sn_SettlementMappingRetired s then Some ErrEvidenceStale
     else if pi_ExpectStayLifecycleVersion p \<noteq> None
             \<and> pi_ExpectStayLifecycleVersion p \<noteq> Some (sn_StayLifecycleVersion s) then Some ErrEvidenceStale
     else if pi_ExpectPurchaseState p \<noteq> [] \<and> pi_ExpectPurchaseState p \<noteq> sn_PurchaseState s
       then Some ErrEvidenceStale
     else if sn_StayStatus s \<noteq> ''IN_HOUSE'' then Some ErrStayNotInHouse
     else if \<not> sn_StayPostingAllowed s then Some ErrPostingNotAllowed
     else if blank (pi_GNumber p) then Some ErrGNumberMissing
     else if wireUnsafe (pi_GNumber p) \<or> maxWireField < length (pi_GNumber p) then Some ErrGNumberNotWireSafe
     else if pi_GNumber p \<noteq> sn_StayReservation s then Some ErrReservationMismatch
     else if blank (sn_StayRoomNumber s) then Some ErrRNMissing
     else if wireUnsafe (sn_StayRoomNumber s) \<or> maxWireField < length (sn_StayRoomNumber s)
       then Some ErrRNNotWireSafe
     else if purpose = PurposeExecute \<and> pi_RN p \<noteq> sn_StayRoomNumber s then Some ErrEvidenceStale
     else if blank (pi_PostingCode p) \<or> wireUnsafe (pi_PostingCode p) \<or> maxWireField < length (pi_PostingCode p)
       then Some ErrWireFieldInvalid
     else if pi_AmountMinor p \<le> 0 then Some ErrAmountInvalid
     else if blank (pi_Currency p) then Some ErrCurrencyMismatch
     else if pi_Currency p \<noteq> sn_InterfaceCurrency s then Some ErrCurrencyMismatch
     else if Some (pi_CurrencyExponent p) \<noteq> sn_InterfaceExponent s then Some ErrExponentMismatch
     else case matchCurrency (sn_PurchaseCurrency s) (sn_PurchaseExponent s) s of
       Some e \<Rightarrow> Some e
     | None \<Rightarrow>
     (case matchCurrency (sn_PackageCurrency s) (sn_PackageExponent s) s of
       Some e \<Rightarrow> Some e
     | None \<Rightarrow>
     if sn_ConnectorKind s = ''protel-fias'' \<and> pi_CurrencyExponent p \<noteq> FIASCurrencyExponent
       then Some ErrFIASExponent
     else None))"

definition gate_Check :: "pinned \<Rightarrow> posting_snapshot \<Rightarrow> posting_code option" where
  "gate_Check p s = CheckFor PurposeCreate p s"

section \<open>The PS record\<close>

record ps_request =
  ps_RN :: string
  ps_GNumber :: string
  ps_AmountMinor :: int
  ps_PostingCode :: string
  ps_PNumber :: int

definition maxCTLen :: nat where "maxCTLen = 20"
definition RecordPS :: string where "RecordPS = ''PS''"
definition RecordPA :: string where "RecordPA = ''PA''"
definition fixedPostingType :: string where "fixedPostingType = ''D''"
definition fixedSource :: string where "fixedSource = ''WIFI''"
definition fixedWorkstation :: string where "fixedWorkstation = ''STAYCONNECT''"

definition field_refused :: "string \<Rightarrow> bool" where
  "field_refused v \<longleftrightarrow> blank v \<or> wireUnsafe v \<or> maxWireField < length v"

definition ps_body :: "string \<Rightarrow> string \<Rightarrow> int \<Rightarrow> string \<Rightarrow> int \<Rightarrow> string" where
  "ps_body rn g ta ct pn =
     RecordPS @ ''|RN'' @ rn @ ''|G#'' @ g @ ''|TA'' @ Itoa ta @ ''|PT'' @ fixedPostingType
       @ ''|SO'' @ fixedSource @ ''|CT'' @ ct @ ''|P#'' @ Itoa pn @ ''|WS'' @ fixedWorkstation @ ''|''"

definition BuildPS :: "ps_request \<Rightarrow> posting_code + string" where
  "BuildPS r =
    (if field_refused (ps_RN r) then Inl ErrWireFieldInvalid
     else if field_refused (ps_GNumber r) then Inl ErrWireFieldInvalid
     else if ps_AmountMinor r \<le> 0 then Inl ErrAmountInvalid
     else let ct = TrimSpace (ps_PostingCode r) in
     if ct = [] \<or> wireUnsafe ct \<or> maxCTLen < length ct then Inl ErrWireFieldInvalid
     else if ps_PNumber r \<le> 0 then Inl ErrWireFieldInvalid
     else Inr (ps_body (ps_RN r) (ps_GNumber r) (ps_AmountMinor r) ct (ps_PNumber r)))"

section \<open>The PA record\<close>

definition asCatalog :: "string list" where
  "asCatalog = [''OK'', ''NG'', ''NA'', ''NP'', ''NR'', ''RY'', ''UR'']"

record pa =
  pa_PNumber :: int
  pa_AS :: string
  pa_Raw :: string

definition Posted :: "pa \<Rightarrow> bool" where
  "Posted a \<longleftrightarrow> pa_AS a = ''OK''"

text \<open>
  The loop over the fields: \<open>pn\<close> and \<open>as\<close> are \<open>None\<close> until the field was seen (\<open>seenPN\<close>, \<open>seenAS\<close>).
\<close>

fun pa_scan :: "string list \<Rightarrow> string option \<Rightarrow> string option \<Rightarrow> posting_code + (string option \<times> string option)" where
  "pa_scan [] pn as = Inr (pn, as)"
| "pa_scan (tok # toks) pn as =
    (if length tok < 2 then pa_scan toks pn as
     else if take 2 tok = ''P#'' then
       (if pn \<noteq> None \<and> pn \<noteq> Some (drop 2 tok) then Inl ErrPAAmbiguous
        else pa_scan toks (Some (drop 2 tok)) as)
     else if take 2 tok = ''AS'' then
       (if as \<noteq> None \<and> as \<noteq> Some (drop 2 tok) then Inl ErrPAAmbiguous
        else pa_scan toks pn (Some (drop 2 tok)))
     else pa_scan toks pn as)"

definition ParsePA :: "string \<Rightarrow> posting_code + pa" where
  "ParsePA body =
    (if length body < 2 \<or> take 2 body \<noteq> RecordPA then Inl ErrPACorrelation
     else case pa_scan (Split (CHR ''|'') (drop 2 body)) None None of
       Inl e \<Rightarrow> Inl e
     | Inr (pnRaw, as) \<Rightarrow>
         if pnRaw = None \<or> pnRaw = Some [] then Inl ErrPACorrelation
         else (case Atoi (the pnRaw) of
             None \<Rightarrow> Inl ErrPACorrelation
           | Some pn \<Rightarrow>
               if pn \<le> 0 then Inl ErrPACorrelation
               else if as = None then Inl ErrPAStatusUnknown
               else if the as \<notin> set asCatalog then Inl ErrPAStatusUnknown
               else Inr \<lparr>pa_PNumber = pn, pa_AS = the as, pa_Raw = body\<rparr>))"

section \<open>The P# a record carries\<close>

fun pn_digits :: "int \<Rightarrow> string \<Rightarrow> int" where
  "pn_digits n [] = n"
| "pn_digits n (c # cs) =
    (if \<not> is_digit c then n else pn_digits (wrap64 (n * 10 + (of_char c - 48))) cs)"

definition pnOfBody :: "string \<Rightarrow> int" where
  "pnOfBody body =
    (case Index body ''|P#'' of
       None \<Rightarrow> 0
     | Some i \<Rightarrow> pn_digits 0 (drop (i + length ''|P#'') body))"

text \<open>\<open>postinghandoff.PNumberOf\<close>: exactly one P# field of at most 18 digits.\<close>

fun pn_fields :: "string list \<Rightarrow> int \<Rightarrow> nat \<Rightarrow> int" where
  "pn_fields [] n found = (if found \<noteq> 1 then 0 else n)"
| "pn_fields (tok # toks) n found =
    (if length tok < 2 \<or> take 2 tok \<noteq> ''P#'' then pn_fields toks n found
     else let v = drop 2 tok in
       if v = [] \<or> 18 < length v then 0
       else if \<not> list_all is_digit v then 0
       else pn_fields toks (digits_value v) (found + 1))"

definition PNumberOf :: "string \<Rightarrow> int" where
  "PNumberOf body = pn_fields (tl (Split (CHR ''|'') body)) 0 0"

section \<open>The hand-off to pmsd\<close>

record handoff_request =
  hr_Version :: int
  hr_InterfaceID :: string
  hr_PNumber :: int
  hr_Body :: string
  hr_BodySHA256 :: string
  hr_WaitMillis :: int

definition ProtocolVersion :: int where "ProtocolVersion = 1"
definition MaxBody :: nat where "MaxBody = 512"
definition AnswerDeadline :: duration where "AnswerDeadline = 30 * second"

text \<open>
  \<open>Request.Validate\<close>; \<open>BodyHash\<close> is SHA-256 in hexadecimal, a parameter.
\<close>

definition request_Validate :: "(string \<Rightarrow> string) \<Rightarrow> handoff_request \<Rightarrow> string option" where
  "request_Validate BodyHash r =
    (if hr_Version r \<noteq> ProtocolVersion then Some ''unsupported hand-off version''
     else if TrimSpace (hr_InterfaceID r) = [] \<or> 64 < length (hr_InterfaceID r) then Some ''interface id missing''
     else if hr_PNumber r \<le> 0 then Some ''protocol-attempt reference missing''
     else if length (hr_Body r) < 4 \<or> MaxBody < length (hr_Body r) \<or> \<not> HasPrefix (hr_Body r) ''PS|''
             \<or> \<not> HasSuffix (hr_Body r) ''|'' then Some ''not a PS record''
     else if list_ex (\<lambda>c. (of_char c :: nat) < 32 \<or> (of_char c :: nat) = 127) (hr_Body r)
       then Some ''control byte in the record''
     else if hr_BodySHA256 r \<noteq> BodyHash (hr_Body r) then Some ''the body does not match its hash''
     else if PNumberOf (hr_Body r) \<noteq> hr_PNumber r
       then Some ''the body does not carry the command's protocol-attempt reference''
     else None)"

text \<open>
  What \<open>postinghandoff.Send\<close> returns: the socket could not be reached (\<open>ErrNotSent\<close>), any other error, or a
  response with its result, code and PA body.
\<close>

datatype handoff_reply =
    HandoffErrNotSent
  | HandoffErrOther
  | HandoffResponse string string string

text \<open>
  An error of a transport: its code, whether it is an \<open>ErrNotTransmitted\<close>, and the reason pmsd gave.
\<close>

record send_error =
  se_Code :: posting_code
  se_notSent :: bool
  se_reason :: string

definition NotTransmitted :: "send_error \<Rightarrow> bool" where
  "NotTransmitted e = se_notSent e"

definition boundedCode :: "string \<Rightarrow> string" where
  "boundedCode c0 =
    (let c = (if 48 < length c0 then take 48 c0 else c0) in
     if \<not> list_all (\<lambda>ch. ch = CHR ''_'' \<or> is_upper ch \<or> is_digit ch) c then ''UNSPECIFIED''
     else if c = [] then ''UNSPECIFIED'' else c)"

definition handoff_request_of :: "(string \<Rightarrow> string) \<Rightarrow> string \<Rightarrow> int \<Rightarrow> string \<Rightarrow> handoff_request" where
  "handoff_request_of BodyHash interfaceID pNumber body =
     \<lparr>hr_Version = ProtocolVersion, hr_InterfaceID = interfaceID, hr_PNumber = pNumber, hr_Body = body,
      hr_BodySHA256 = BodyHash body, hr_WaitMillis = go_div AnswerDeadline millisecond\<rparr>"

text \<open>
  \<open>handoffTransport.SendPS\<close>. \<open>send\<close> is the exchange with the process that owns the link; it acts on
  a world (what has been written to the PMS) and gives a reply.
\<close>

type_synonym 'w inner_transport = "'w \<Rightarrow> string \<Rightarrow> int \<Rightarrow> string \<Rightarrow> 'w \<times> (send_error + pa option)"

definition handoff_result :: "int \<Rightarrow> handoff_reply \<Rightarrow> send_error + pa option" where
  "handoff_result pNumber reply =
    (case reply of
       HandoffErrNotSent \<Rightarrow> Inl \<lparr>se_Code = ErrTransportUnavailable, se_notSent = True, se_reason = []\<rparr>
     | HandoffErrOther \<Rightarrow> Inl \<lparr>se_Code = ErrTransportUnavailable, se_notSent = False, se_reason = []\<rparr>
     | HandoffResponse result code paBody \<Rightarrow>
         if result = ''NOT_TRANSMITTED'' then
           Inl \<lparr>se_Code = ErrTransportUnavailable, se_notSent = True, se_reason = boundedCode code\<rparr>
         else if result = ''ANSWERED'' then
           (case ParsePA paBody of
              Inl e \<Rightarrow> Inl \<lparr>se_Code = e, se_notSent = False, se_reason = []\<rparr>
            | Inr a \<Rightarrow>
                if pa_PNumber a \<noteq> pNumber
                then Inl \<lparr>se_Code = ErrPAWrongPNumber, se_notSent = False, se_reason = []\<rparr>
                else Inr (Some a))
         else Inl \<lparr>se_Code = ErrTransportUnavailable, se_notSent = False, se_reason = []\<rparr>)"

definition handoff_SendPS ::
  "(string \<Rightarrow> string) \<Rightarrow> ('w \<Rightarrow> handoff_request \<Rightarrow> 'w \<times> handoff_reply) \<Rightarrow> 'w inner_transport" where
  "handoff_SendPS BodyHash send w interfaceID pNumber body =
    (let req = handoff_request_of BodyHash interfaceID pNumber body in
     case request_Validate BodyHash req of
       Some _ \<Rightarrow> (w, Inl \<lparr>se_Code = ErrWireFieldInvalid, se_notSent = True, se_reason = []\<rparr>)
     | None \<Rightarrow> (let (w', reply) = send w req in (w', handoff_result pNumber reply)))"

text \<open>
  What the posting engine relies on of the process that owns the link: a command reported as not
  transmitted (\<open>unsent\<close>) has not been written, and the report is final.
\<close>

locale honest_handoff = invariant_machine step inv
  for step :: "'s \<Rightarrow> 'e \<Rightarrow> 's" and inv :: "'s \<Rightarrow> bool" +
  fixes unsent :: "'s \<Rightarrow> 'c \<Rightarrow> bool" and written :: "'s \<Rightarrow> 'c \<Rightarrow> bool"
  assumes unsent_sound: "inv s \<Longrightarrow> unsent s c \<Longrightarrow> \<not> written s c"
    and unsent_final: "inv s \<Longrightarrow> unsent s c \<Longrightarrow> unsent (step s e) c"
begin

lemma never_written: "inv s \<Longrightarrow> unsent s c \<Longrightarrow> \<not> written (run step s es) c"
proof (induction es arbitrary: s)
  case (Cons e es)
  then show ?case using unsent_final step_inv by simp
qed (simp add: unsent_sound)

end

section \<open>The DARK guard\<close>

definition allowedOutboundRecords :: "string list" where
  "allowedOutboundRecords = [''LS'', ''LD'', ''LR'', ''LA'', ''LE'', ''DR'']"

definition forbiddenOutboundRecords :: "string list" where
  "forbiddenOutboundRecords = [''PS'', ''PA'']"

definition record_code :: "string \<Rightarrow> string" where
  "record_code r = (if 2 \<le> length r then take 2 r else r)"

definition CheckOutbound :: "string \<Rightarrow> bool" where
  "CheckOutbound record =
    (if record_code record \<in> set forbiddenOutboundRecords then False
     else if record_code record \<notin> set allowedOutboundRecords then False
     else True)"

definition IsFinancialRecord :: "string \<Rightarrow> bool" where
  "IsFinancialRecord code \<longleftrightarrow> record_code code \<in> set forbiddenOutboundRecords"

record dark_guard =
  dg_refusals :: nat
  dg_lastBody :: string

definition refusedDark :: send_error where
  "refusedDark = \<lparr>se_Code = ErrDarkNoEgress, se_notSent = True, se_reason = []\<rparr>"

definition dark_SendPS ::
  "posting_config \<Rightarrow> 'w inner_transport option \<Rightarrow> dark_guard \<Rightarrow> 'w \<Rightarrow> string \<Rightarrow> int \<Rightarrow> string \<Rightarrow>
   dark_guard \<times> 'w \<times> (send_error + pa option)" where
  "dark_SendPS cfg inner g w interfaceID pNumber body =
    (if Dark cfg then (\<lparr>dg_refusals = dg_refusals g + 1, dg_lastBody = body\<rparr>, w, Inl refusedDark)
     else if length body < 2 \<or> take 2 body \<noteq> RecordPS then (g, w, Inl refusedDark)
     else if \<not> IsFinancialRecord RecordPS then (g, w, Inl refusedDark)
     else if pnOfBody body \<noteq> pNumber then (g, w, Inl refusedDark)
     else case inner of
       None \<Rightarrow> (g, w, Inl refusedDark)
     | Some tr \<Rightarrow>
         (case tr w interfaceID pNumber body of
            (w', Inl e) \<Rightarrow> (g, w', Inl e)
          | (w', Inr a) \<Rightarrow>
              (case a of
                 Some p \<Rightarrow>
                   if pa_PNumber p \<noteq> pNumber
                   then (g, w', Inl \<lparr>se_Code = ErrPAWrongPNumber, se_notSent = False, se_reason = []\<rparr>)
                   else (g, w', Inr (Some p))
               | None \<Rightarrow> (g, w', Inr None))))"

text \<open>\<open>productionTransport\<close>: the hand-off exists only when transmission is on.\<close>

definition productionTransport ::
  "(string \<Rightarrow> string) \<Rightarrow> ('w \<Rightarrow> handoff_request \<Rightarrow> 'w \<times> handoff_reply) \<Rightarrow> posting_config \<Rightarrow> 'w inner_transport option" where
  "productionTransport BodyHash send cfg = (if \<not> TransmitOn cfg then None else Some (handoff_SendPS BodyHash send))"

section \<open>The PS record: what is built is what is read\<close>

lemma wire_safe_no_bar: "\<not> wireUnsafe v \<Longrightarrow> CHR ''|'' \<notin> set v"
  by (auto simp: wireUnsafe_def list_ex_iff wire_bad_def)

lemma wire_safe_no_control: "\<not> wireUnsafe v \<Longrightarrow> c \<in> set v \<Longrightarrow> \<not> ((of_char c :: nat) < 32 \<or> (of_char c :: nat) = 127)"
  by (auto simp: wireUnsafe_def list_ex_iff wire_bad_def)

lemma Itoa_no_bar: "CHR ''|'' \<notin> set (Itoa i)"
  using Itoa_chars [of "CHR ''|''" i] by (auto simp: is_digit_def)

lemma is_digit_code: "is_digit c \<longleftrightarrow> 48 \<le> (of_char c :: nat) \<and> (of_char c :: nat) \<le> 57"
  by (auto simp: is_digit_def less_eq_char_def)

lemma Itoa_no_control: "c \<in> set (Itoa i) \<Longrightarrow> \<not> ((of_char c :: nat) < 32 \<or> (of_char c :: nat) = 127)"
  using Itoa_chars [of c i] by (auto simp: is_digit_code)

lemma ps_body_Join:
  "ps_body rn g ta ct pn =
     Join (CHR ''|'') [''PS'', ''RN'' @ rn, ''G#'' @ g, ''TA'' @ Itoa ta, ''PTD'', ''SOWIFI'', ''CT'' @ ct,
        ''P#'' @ Itoa pn, ''WSSTAYCONNECT'', []]"
  by (simp add: ps_body_def RecordPS_def fixedPostingType_def fixedSource_def fixedWorkstation_def)

lemma ps_body_fields:
  assumes "\<not> wireUnsafe rn" and "\<not> wireUnsafe g" and "\<not> wireUnsafe ct"
  shows "Split (CHR ''|'') (ps_body rn g ta ct pn) =
    [''PS'', ''RN'' @ rn, ''G#'' @ g, ''TA'' @ Itoa ta, ''PTD'', ''SOWIFI'', ''CT'' @ ct,
     ''P#'' @ Itoa pn, ''WSSTAYCONNECT'', []]"
  unfolding ps_body_Join using assms by (subst Split_Join) (auto dest: wire_safe_no_bar simp: Itoa_no_bar)

lemma BuildPS_Inr:
  "BuildPS r = Inr body \<longleftrightarrow>
     \<not> field_refused (ps_RN r) \<and> \<not> field_refused (ps_GNumber r) \<and> 0 < ps_AmountMinor r
     \<and> TrimSpace (ps_PostingCode r) \<noteq> [] \<and> \<not> wireUnsafe (TrimSpace (ps_PostingCode r))
     \<and> length (TrimSpace (ps_PostingCode r)) \<le> maxCTLen \<and> 0 < ps_PNumber r
     \<and> body = ps_body (ps_RN r) (ps_GNumber r) (ps_AmountMinor r) (TrimSpace (ps_PostingCode r)) (ps_PNumber r)"
  unfolding BuildPS_def Let_def by auto

lemma foldl_digits_ge:
  "0 \<le> n \<Longrightarrow> list_all is_digit ds \<Longrightarrow> n \<le> foldl (\<lambda>a c. a * 10 + (of_char c - 48)) (n :: int) ds"
proof (induction ds arbitrary: n)
  case (Cons c ds)
  have c: "(48 :: int) \<le> of_char c"
    using Cons.prems by (simp add: is_digit_code) (metis of_nat_mono of_nat_numeral of_nat_of_char)
  then have "n \<le> n * 10 + (of_char c - 48)" "0 \<le> n * 10 + (of_char c - 48)" using Cons.prems(1) by simp_all
  with Cons.IH [of "n * 10 + (of_char c - 48)"] Cons.prems(2) show ?case by simp
qed simp

lemma pn_digits_value:
  assumes "0 \<le> n" and "list_all is_digit ds" and "\<not> is_digit c"
    and "in64 (foldl (\<lambda>a c. a * 10 + (of_char c - 48)) n ds)"
  shows "pn_digits n (ds @ c # rest) = foldl (\<lambda>a c. a * 10 + (of_char c - 48)) n ds"
  using assms
proof (induction ds arbitrary: n)
  case (Cons d ds)
  let ?m = "n * 10 + (of_char d - 48)"
  have d: "(48 :: int) \<le> of_char d"
    using Cons.prems(2) by (simp add: is_digit_code) (metis of_nat_mono of_nat_numeral of_nat_of_char)
  have m: "0 \<le> ?m" using d Cons.prems(1) by simp
  have "?m \<le> foldl (\<lambda>a c. a * 10 + (of_char c - 48)) ?m ds"
    using foldl_digits_ge [OF m] Cons.prems(2) by simp
  then have "in64 ?m" using m Cons.prems(4) by (auto simp: in64_def)
  with Cons.IH [OF m _ Cons.prems(3)] Cons.prems(2,4) show ?case by simp
qed simp

lemma pn_digits_Itoa:
  assumes "0 < pn" and "in64 pn" and "\<not> is_digit c"
  shows "pn_digits 0 (Itoa pn @ c # rest) = pn"
proof -
  have I: "Itoa pn = itoa_nat (nat pn)" using assms(1) by (simp add: Itoa_def)
  have d: "list_all is_digit (itoa_nat (nat pn))" by (auto simp: list_all_iff dest: itoa_nat_digits)
  have v: "foldl (\<lambda>a c. a * 10 + (of_char c - 48)) 0 (itoa_nat (nat pn)) = pn"
    using digits_value_itoa_nat [of "nat pn"] assms(1) by (simp add: digits_value_def)
  show ?thesis using pn_digits_value [OF _ d assms(3), of 0] v assms(2) by (simp add: I)
qed

lemma Index_ps_body:
  assumes "\<not> wireUnsafe rn" and "\<not> wireUnsafe g" and "\<not> wireUnsafe ct"
  shows "\<exists>i. Index (ps_body rn g ta ct pn) ''|P#'' = Some i
    \<and> drop (i + 3) (ps_body rn g ta ct pn) = Itoa pn @ ''|WSSTAYCONNECT|''"
proof -
  let ?bar = "CHR ''|''"
  let ?rest = "Itoa pn @ ''|WSSTAYCONNECT|''"
  let ?h = "Join ?bar [''PS'', ''RN'' @ rn, ''G#'' @ g, ''TA'' @ Itoa ta, ''PTD'', ''SOWIFI'', ''CT'' @ ct]"
  have body: "ps_body rn g ta ct pn = ?h @ ''|P#'' @ ?rest"
    by (simp add: ps_body_def RecordPS_def fixedPostingType_def fixedSource_def fixedWorkstation_def)
  have bars: "?bar \<notin> set rn" "?bar \<notin> set g" "?bar \<notin> set ct" "?bar \<notin> set (Itoa ta)"
    using assms by (auto dest: wire_safe_no_bar simp: Itoa_no_bar)
  have "Index ((''CT'' @ ct) @ ?bar # ''P#'' @ ?rest) (?bar # ''P#'') = Some (2 + length ct)"
    using bars Index_here [of ?bar "''CT'' @ ct" "''P#''" ?rest] by simp
  then have "Index (''SOWIFI'' @ ?bar # ''CT'' @ ct @ ?bar # ''P#'' @ ?rest) (?bar # ''P#'') = Some (9 + length ct)"
    by (subst Index_skip) simp_all
  then have "Index (''PTD'' @ ?bar # ''SOWIFI'' @ ?bar # ''CT'' @ ct @ ?bar # ''P#'' @ ?rest) (?bar # ''P#'') = Some (13 + length ct)"
    by (subst Index_skip) simp_all
  then have "Index ((''TA'' @ Itoa ta) @ ?bar # ''PTD'' @ ?bar # ''SOWIFI'' @ ?bar # ''CT'' @ ct @ ?bar # ''P#'' @ ?rest) (?bar # ''P#'')
      = Some (16 + length (Itoa ta) + length ct)"
    using bars by (subst Index_skip) simp_all
  then have "Index ((''G#'' @ g) @ ?bar # (''TA'' @ Itoa ta) @ ?bar # ''PTD'' @ ?bar # ''SOWIFI'' @ ?bar # ''CT'' @ ct @ ?bar # ''P#'' @ ?rest) (?bar # ''P#'')
      = Some (19 + length g + length (Itoa ta) + length ct)"
    using bars by (subst Index_skip) simp_all
  then have "Index ((''RN'' @ rn) @ ?bar # (''G#'' @ g) @ ?bar # (''TA'' @ Itoa ta) @ ?bar # ''PTD'' @ ?bar # ''SOWIFI'' @ ?bar # ''CT'' @ ct @ ?bar # ''P#'' @ ?rest) (?bar # ''P#'')
      = Some (22 + length rn + length g + length (Itoa ta) + length ct)"
    using bars by (subst Index_skip) simp_all
  then have "Index (''PS'' @ ?bar # (''RN'' @ rn) @ ?bar # (''G#'' @ g) @ ?bar # (''TA'' @ Itoa ta) @ ?bar # ''PTD'' @ ?bar # ''SOWIFI'' @ ?bar # ''CT'' @ ct @ ?bar # ''P#'' @ ?rest) (?bar # ''P#'')
      = Some (25 + length rn + length g + length (Itoa ta) + length ct)"
    by (subst Index_skip) simp_all
  then have "Index (?h @ ''|P#'' @ ?rest) ''|P#'' = Some (length ?h)" by simp
  moreover have "drop (length h + 3) (h @ ''|P#'' @ r) = r" for h r :: string by simp
  ultimately show ?thesis unfolding body by blast
qed

lemma pnOfBody_ps_body:
  assumes "\<not> wireUnsafe rn" and "\<not> wireUnsafe g" and "\<not> wireUnsafe ct" and "0 < pn" and "in64 pn"
  shows "pnOfBody (ps_body rn g ta ct pn) = pn"
proof -
  obtain i where i: "Index (ps_body rn g ta ct pn) ''|P#'' = Some i"
      "drop (i + 3) (ps_body rn g ta ct pn) = Itoa pn @ ''|WSSTAYCONNECT|''"
    using Index_ps_body [OF assms(1-3)] by blast
  have "pn_digits 0 (Itoa pn @ CHR ''|'' # ''WSSTAYCONNECT|'') = pn"
    by (rule pn_digits_Itoa [OF assms(4,5)]) (simp add: is_digit_def)
  then have "pn_digits 0 (drop (i + length ''|P#'') (ps_body rn g ta ct pn)) = pn" using i(2) by (simp add: add.commute numeral_3_eq_3)
  then show ?thesis using i(1) by (simp only: pnOfBody_def option.case)
qed

lemma length_itoa_nat: "n < 10 ^ k \<Longrightarrow> 0 < k \<Longrightarrow> length (itoa_nat n) \<le> k"
proof (induction n arbitrary: k rule: itoa_nat.induct)
  case (1 n)
  show ?case
  proof (cases "n < 10")
    case True
    then show ?thesis using "1.prems" by (simp add: itoa_nat_small)
  next
    case False
    obtain j where k: "k = Suc j" "0 < j"
      using False "1.prems" by (cases k; cases "k - 1") auto
    then have "n div 10 < 10 ^ j" using "1.prems" by (simp add: less_mult_imp_div_less mult.commute)
    with "1.IH" False k show ?thesis by (simp add: itoa_nat_step)
  qed
qed

lemma PNumberOf_ps_body:
  assumes "\<not> wireUnsafe rn" and "\<not> wireUnsafe g" and "\<not> wireUnsafe ct" and "0 < pn" and "pn < 10 ^ 18"
  shows "PNumberOf (ps_body rn g ta ct pn) = pn"
proof -
  have I: "Itoa pn = itoa_nat (nat pn)" using assms(4) by (simp add: Itoa_def)
  have "nat pn < 10 ^ 18" using assms(4,5) by simp
  then have "length (itoa_nat (nat pn)) \<le> 18" by (rule length_itoa_nat) simp
  moreover have "list_all is_digit (itoa_nat (nat pn))" by (auto simp: list_all_iff dest: itoa_nat_digits)
  moreover have "digits_value (itoa_nat (nat pn)) = pn" using assms(4) by (simp add: digits_value_itoa_nat)
  ultimately show ?thesis
    unfolding PNumberOf_def ps_body_fields [OF assms(1-3)] by (simp add: I Let_def)
qed

lemma request_Validate_ps_body:
  assumes safe: "\<not> wireUnsafe rn" "\<not> wireUnsafe g" "\<not> wireUnsafe ct"
    and lens: "length rn \<le> maxWireField" "length g \<le> maxWireField" "length ct \<le> maxCTLen"
    and pn: "0 < pn" "pn < 10 ^ 18" and ta: "0 < ta" "in64 ta"
    and iface: "TrimSpace iface \<noteq> []" "length iface \<le> 64"
  shows "request_Validate H (handoff_request_of H iface pn (ps_body rn g ta ct pn)) = None"
proof -
  let ?b = "ps_body rn g ta ct pn"
  have "length (itoa_nat (nat ta)) \<le> 19" by (rule length_itoa_nat) (use ta in \<open>auto simp: in64_def\<close>)
  moreover have "length (itoa_nat (nat pn)) \<le> 18" by (rule length_itoa_nat) (use pn in auto)
  ultimately have len: "4 \<le> length ?b" "length ?b \<le> MaxBody"
    using lens ta(1) pn(1)
    by (simp_all add: ps_body_def RecordPS_def fixedPostingType_def fixedSource_def fixedWorkstation_def
        Itoa_def maxWireField_def maxCTLen_def MaxBody_def)
  have pre: "HasPrefix ?b ''PS|''" by (simp add: HasPrefix_def ps_body_def RecordPS_def)
  have "?b = (RecordPS @ ''|RN'' @ rn @ ''|G#'' @ g @ ''|TA'' @ Itoa ta @ ''|PT'' @ fixedPostingType
       @ ''|SO'' @ fixedSource @ ''|CT'' @ ct @ ''|P#'' @ Itoa pn @ ''|WS'' @ fixedWorkstation) @ ''|''"
    by (simp add: ps_body_def)
  moreover have "HasSuffix (a @ ''|'') ''|''" for a by (simp add: HasSuffix_def)
  ultimately have suf: "HasSuffix ?b ''|''" by metis
  have ctl: "\<not> list_ex (\<lambda>c. (of_char c :: nat) < 32 \<or> (of_char c :: nat) = 127) ?b"
    using safe by (auto simp: ps_body_def list_ex_iff RecordPS_def fixedPostingType_def fixedSource_def
        fixedWorkstation_def dest!: wire_safe_no_control Itoa_no_control)
  show ?thesis
    using len pre suf ctl pn iface PNumberOf_ps_body [OF safe pn]
    by (simp add: request_Validate_def handoff_request_of_def)
qed

lemma field_ok: "\<not> field_refused v \<longleftrightarrow> \<not> blank v \<and> \<not> wireUnsafe v \<and> length v \<le> maxWireField"
  by (auto simp: field_refused_def)

text \<open>
  C22: A record that \<open>BuildPS\<close> builds is the charge it was asked for and nothing else: its fields, read
  back at the separators, are the room, the reservation, the amount, the fixed fields, the trimmed
  posting code and the P#, so no value can add or displace a field. With transmission on, neither the
  guard nor the hand-off's own check stops it: the command pmsd receives carries exactly this body.
\<close>

theorem built_ps_carried:
  assumes "BuildPS r = Inr body" and "in64 (ps_AmountMinor r)" and "ps_PNumber r < 10 ^ 18"
    and "TransmitOn cfg" and "TrimSpace iface \<noteq> []" and "length iface \<le> 64"
  shows "Split (CHR ''|'') body =
      [''PS'', ''RN'' @ ps_RN r, ''G#'' @ ps_GNumber r, ''TA'' @ Itoa (ps_AmountMinor r), ''PTD'', ''SOWIFI'',
       ''CT'' @ TrimSpace (ps_PostingCode r), ''P#'' @ Itoa (ps_PNumber r), ''WSSTAYCONNECT'', []]
    \<and> (\<exists>req. hr_Body req = body \<and> hr_PNumber req = ps_PNumber r \<and> hr_BodySHA256 req = H body
        \<and> handoff_SendPS H send w iface (ps_PNumber r) body = (fst (send w req), handoff_result (ps_PNumber r) (snd (send w req)))
        \<and> fst (snd (dark_SendPS cfg (productionTransport H send cfg) guard w iface (ps_PNumber r) body)) = fst (send w req))"
proof -
  from assms(1) have f: "\<not> field_refused (ps_RN r)" "\<not> field_refused (ps_GNumber r)" "0 < ps_AmountMinor r"
      "\<not> wireUnsafe (TrimSpace (ps_PostingCode r))" "length (TrimSpace (ps_PostingCode r)) \<le> maxCTLen" "0 < ps_PNumber r"
    and b: "body = ps_body (ps_RN r) (ps_GNumber r) (ps_AmountMinor r) (TrimSpace (ps_PostingCode r)) (ps_PNumber r)"
    by (simp_all add: BuildPS_Inr)
  have safe: "\<not> wireUnsafe (ps_RN r)" "\<not> wireUnsafe (ps_GNumber r)" using f by (simp_all add: field_ok)
  have pn64: "in64 (ps_PNumber r)" using f(6) assms(3) by (simp add: in64_def)
  let ?req = "handoff_request_of H iface (ps_PNumber r) body"
  have ok: "request_Validate H ?req = None"
    unfolding b using f assms by (intro request_Validate_ps_body) (simp_all add: field_ok)
  have hs: "handoff_SendPS H send w iface (ps_PNumber r) body = (fst (send w ?req), handoff_result (ps_PNumber r) (snd (send w ?req)))"
    using ok by (simp add: handoff_SendPS_def Let_def case_prod_beta)
  have pnb: "pnOfBody body = ps_PNumber r" unfolding b by (rule pnOfBody_ps_body [OF safe f(4,6) pn64])
  have start: "2 \<le> length body" "take 2 body = RecordPS" by (simp_all add: b ps_body_def RecordPS_def)
  have "fst (snd (dark_SendPS cfg (productionTransport H send cfg) guard w iface (ps_PNumber r) body)) = fst (send w ?req)"
    using assms(4) start pnb hs
    by (auto simp: dark_SendPS_def Dark_def productionTransport_def IsFinancialRecord_def record_code_def
        forbiddenOutboundRecords_def RecordPS_def split: sum.splits option.splits)
  moreover have "hr_Body ?req = body" "hr_PNumber ?req = ps_PNumber r" "hr_BodySHA256 ?req = H body"
    by (simp_all add: handoff_request_of_def)
  moreover have "Split (CHR ''|'') body =
      [''PS'', ''RN'' @ ps_RN r, ''G#'' @ ps_GNumber r, ''TA'' @ Itoa (ps_AmountMinor r), ''PTD'', ''SOWIFI'',
       ''CT'' @ TrimSpace (ps_PostingCode r), ''P#'' @ Itoa (ps_PNumber r), ''WSSTAYCONNECT'', []]"
    unfolding b by (rule ps_body_fields [OF safe f(4)])
  ultimately show ?thesis using hs by blast
qed

definition sample_ps :: ps_request where
  "sample_ps = \<lparr>ps_RN = ''1421'', ps_GNumber = ''77120'', ps_AmountMinor = 1500, ps_PostingCode = '' WIFI'', ps_PNumber = 42\<rparr>"

definition lit_config :: posting_config where
  "lit_config = \<lparr>MasterEnabled = True, PostingEnabled = True, OutboxEnabled = True, TransmitEnabled = True, ReviewEnabled = True\<rparr>"

lemma sample_ps_body: "BuildPS sample_ps = Inr ''PS|RN1421|G#77120|TA1500|PTD|SOWIFI|CTWIFI|P#42|WSSTAYCONNECT|''"
  by code_simp

lemma lit_config_transmits: "TransmitOn lit_config"
  by (simp add: TransmitOn_def lit_config_def)

theorem built_ps_carried_witness:
  "Split (CHR ''|'') ''PS|RN1421|G#77120|TA1500|PTD|SOWIFI|CTWIFI|P#42|WSSTAYCONNECT|'' =
     [''PS'', ''RN1421'', ''G#77120'', ''TA'' @ Itoa 1500, ''PTD'', ''SOWIFI'', ''CT'' @ TrimSpace '' WIFI'', ''P#'' @ Itoa 42, ''WSSTAYCONNECT'', []]"
  using built_ps_carried [OF sample_ps_body _ _ lit_config_transmits, of "''i''" "\<lambda>s. s"
      "\<lambda>w req. (w, HandoffErrNotSent)" "()" "\<lparr>dg_refusals = 0, dg_lastBody = []\<rparr>"]
  by (simp add: sample_ps_def in64_def TrimSpace_def is_space_def)

section \<open>The PA record: what is accepted\<close>

definition tagged :: "string \<Rightarrow> string list \<Rightarrow> string list" where
  "tagged tag toks = map (drop 2) (filter (\<lambda>t. 2 \<le> length t \<and> take 2 t = tag) toks)"

lemma tagged_simps:
  "tagged tag [] = []"
  "tagged tag (t # ts) = (if 2 \<le> length t \<and> take 2 t = tag then drop 2 t # tagged tag ts else tagged tag ts)"
  by (simp_all add: tagged_def)

definition agrees :: "string option \<Rightarrow> string list \<Rightarrow> string option \<Rightarrow> bool" where
  "agrees seen vs r \<longleftrightarrow> (if vs = [] then r = seen else \<exists>v. r = Some v \<and> set vs = {v} \<and> (seen = None \<or> seen = Some v))"

lemma agrees_Cons: "agrees seen (v # vs) r \<longleftrightarrow> (seen = None \<or> seen = Some v) \<and> agrees (Some v) vs r"
  by (cases vs) (auto simp: agrees_def)

lemma pa_scan_Inr:
  "pa_scan toks pn as = Inr (p, a) \<longleftrightarrow> agrees pn (tagged ''P#'' toks) p \<and> agrees as (tagged ''AS'' toks) a"
proof (induction toks pn as rule: pa_scan.induct)
  case (1 pn as)
  show ?case by (auto simp: tagged_simps agrees_def)
next
  case (2 tok toks pn as)
  consider "length tok < 2" | "2 \<le> length tok" "take 2 tok = ''P#''" | "2 \<le> length tok" "take 2 tok = ''AS''"
    | "2 \<le> length tok" "take 2 tok \<noteq> ''P#''" "take 2 tok \<noteq> ''AS''" by fastforce
  then show ?case
  proof cases
    case 1
    with 2 show ?thesis by (simp add: tagged_simps)
  next
    case 2
    then show ?thesis using "2.IH"(2) by (cases "pn \<noteq> None \<and> pn \<noteq> Some (drop 2 tok)") (auto simp: tagged_simps agrees_Cons)
  next
    case 3
    then show ?thesis using "2.IH"(3) by (cases "as \<noteq> None \<and> as \<noteq> Some (drop 2 tok)") (auto simp: tagged_simps agrees_Cons)
  next
    case 4
    then show ?thesis using "2.IH"(4) by (simp add: tagged_simps)
  qed
qed

text \<open>
  An answer is accepted exactly when it is a PA record whose P# fields all carry one positive
  64-bit number and whose AS fields all carry one status of the approved catalogue; the result is
  that number and that status. A record with no P#, two different ones, an unreadable one, no
  status, two, or one outside the catalogue is refused.
\<close>

theorem ParsePA_exact:
  "ParsePA body = Inr a \<longleftrightarrow>
     HasPrefix body ''PA'' \<and> pa_Raw a = body
     \<and> (\<exists>v. set (tagged ''P#'' (Split (CHR ''|'') (drop 2 body))) = {v} \<and> Atoi v = Some (pa_PNumber a)) \<and> 0 < pa_PNumber a
     \<and> set (tagged ''AS'' (Split (CHR ''|'') (drop 2 body))) = {pa_AS a} \<and> pa_AS a \<in> set asCatalog"
proof -
  let ?t = "Split (CHR ''|'') (drop 2 body)"
  have pre: "\<not> (length body < 2 \<or> take 2 body \<noteq> RecordPA) \<longleftrightarrow> HasPrefix body ''PA''"
    by (cases body; cases "tl body") (auto simp: HasPrefix_def RecordPA_def)
  have Nil: "Atoi [] = None" by (simp add: Atoi_def)
  have scan: "(pa_scan ?t None None = Inr (Some v, Some s)) \<longleftrightarrow> set (tagged ''P#'' ?t) = {v} \<and> set (tagged ''AS'' ?t) = {s}" for v s
    by (auto simp: pa_scan_Inr agrees_def)
  have "ParsePA body = Inr a \<longleftrightarrow> HasPrefix body ''PA'' \<and> pa_Raw a = body
     \<and> (\<exists>v s. pa_scan ?t None None = Inr (Some v, Some s) \<and> Atoi v = Some (pa_PNumber a) \<and> 0 < pa_PNumber a
          \<and> s = pa_AS a \<and> s \<in> set asCatalog)"
    unfolding ParsePA_def pre [symmetric]
    by (cases a; auto simp: Nil split: if_splits sum.splits prod.splits option.splits)
  also have "\<dots> \<longleftrightarrow> HasPrefix body ''PA'' \<and> pa_Raw a = body
     \<and> (\<exists>v. set (tagged ''P#'' ?t) = {v} \<and> Atoi v = Some (pa_PNumber a)) \<and> 0 < pa_PNumber a
     \<and> set (tagged ''AS'' ?t) = {pa_AS a} \<and> pa_AS a \<in> set asCatalog"
    unfolding scan by blast
  finally show ?thesis .
qed

section \<open>Egress\<close>

lemma parse_flags_length: "parse_flags raws = Inr vs \<Longrightarrow> length vs = length raws"
  by (induction raws arbitrary: vs) (auto split: sum.splits)

lemma parse_flags_nth:
  "parse_flags raws = Inr vs \<Longrightarrow> i < length raws \<Longrightarrow> parseBoolStrict (raws ! i) = Inr (vs ! i)"
  by (induction raws arbitrary: vs i) (auto split: sum.splits simp: nth_Cons')

lemma LoadConfig_flags:
  assumes "LoadConfigFromEnv get = Inr c"
  shows "parseBoolStrict (get EnvPhase4Master) = Inr (MasterEnabled c)
    \<and> parseBoolStrict (get EnvPhase4Outbox) = Inr (OutboxEnabled c)
    \<and> parseBoolStrict (get EnvPhase4Transmit) = Inr (TransmitEnabled c) \<and> config_Validate c = None"
proof -
  let ?raws = "map get [EnvPhase4Master, EnvPhase4Posting, EnvPhase4Outbox, EnvPhase4Transmit, EnvPhase4Review]"
  obtain vs where vs: "parse_flags ?raws = Inr vs" using assms by (auto simp: LoadConfigFromEnv_def split: sum.splits)
  with assms have c: "c = \<lparr>MasterEnabled = vs ! 0, PostingEnabled = vs ! 1, OutboxEnabled = vs ! 2,
      TransmitEnabled = vs ! 3, ReviewEnabled = vs ! 4\<rparr>" and "config_Validate c = None"
    by (auto simp: LoadConfigFromEnv_def Let_def split: option.splits)
  with parse_flags_nth [OF vs, of 0] parse_flags_nth [OF vs, of 2] parse_flags_nth [OF vs, of 3]
  show ?thesis by simp
qed

lemma parseBoolStrict_True: "parseBoolStrict raw = Inr True \<Longrightarrow> ParseBool (TrimSpace raw) = Some True"
  by (auto simp: parseBoolStrict_def Let_def split: if_splits option.splits)

lemma dark_guard_egress:
  assumes "dark_SendPS cfg inner g w i pn body = (g', w', res)" and "w' \<noteq> w"
  shows "TransmitOn cfg \<and> HasPrefix body ''PS'' \<and> pnOfBody body = pn \<and> (\<exists>tr. inner = Some tr \<and> w' = fst (tr w i pn body))"
proof -
  have "\<not> Dark cfg" and pre: "\<not> (length body < 2 \<or> take 2 body \<noteq> RecordPS)" and pn: "pnOfBody body = pn"
    using assms by (auto simp: dark_SendPS_def split: if_splits)
  moreover obtain tr where tr: "inner = Some tr"
    using assms by (cases inner) (auto simp: dark_SendPS_def split: if_splits)
  moreover have "w' = fst (tr w i pn body)"
    using assms by (auto simp: dark_SendPS_def tr split: if_splits prod.splits sum.splits option.splits)
  ultimately show ?thesis by (auto simp: Dark_def HasPrefix_def RecordPS_def numeral_2_eq_2)
qed

lemma dark_guard_answer:
  "dark_SendPS cfg inner g w i pn body = (g', w', Inr (Some a)) \<Longrightarrow> pa_PNumber a = pn"
  by (auto simp: dark_SendPS_def split: if_splits option.splits prod.splits sum.splits)

lemma dark_guard_dark:
  "Dark cfg \<Longrightarrow> dark_SendPS cfg inner g w i pn body =
     (\<lparr>dg_refusals = dg_refusals g + 1, dg_lastBody = body\<rparr>, w, Inl refusedDark)"
  by (simp add: dark_SendPS_def)

text \<open>
  Whatever transport is behind the guard, a send changes what was written to the PMS only if
  the master, the outbox and the transmission variable of the environment each read as true, and
  then only a PS record that carries the allocated P# was handed over. An answer that comes back
  as this attempt's carries its P#.
\<close>

theorem egress_needs_three_flags:
  assumes "LoadConfigFromEnv get = Inr cfg" and "dark_SendPS cfg inner g w i pn body = (g', w', res)"
  shows "(w' \<noteq> w \<longrightarrow>
       ParseBool (TrimSpace (get EnvPhase4Master)) = Some True
       \<and> ParseBool (TrimSpace (get EnvPhase4Outbox)) = Some True
       \<and> ParseBool (TrimSpace (get EnvPhase4Transmit)) = Some True
       \<and> HasPrefix body ''PS'' \<and> pnOfBody body = pn \<and> (\<exists>tr. inner = Some tr \<and> w' = fst (tr w i pn body)))
     \<and> (Dark cfg \<longrightarrow> w' = w \<and> res = Inl refusedDark \<and> dg_refusals g' = dg_refusals g + 1)
     \<and> (\<forall>a. res = Inr (Some a) \<longrightarrow> pa_PNumber a = pn)"
proof (intro conjI impI allI)
  assume "w' \<noteq> w"
  note e = dark_guard_egress [OF assms(2) this]
  have f: "MasterEnabled cfg" "OutboxEnabled cfg" "TransmitEnabled cfg" using e by (simp_all add: TransmitOn_def)
  note L = LoadConfig_flags [OF assms(1)]
  show "ParseBool (TrimSpace (get EnvPhase4Master)) = Some True" using L f by (auto intro: parseBoolStrict_True)
  show "ParseBool (TrimSpace (get EnvPhase4Outbox)) = Some True" using L f by (auto intro: parseBoolStrict_True)
  show "ParseBool (TrimSpace (get EnvPhase4Transmit)) = Some True" using L f by (auto intro: parseBoolStrict_True)
  show "HasPrefix body ''PS''" "pnOfBody body = pn" "\<exists>tr. inner = Some tr \<and> w' = fst (tr w i pn body)" using e by simp_all
next
  assume "Dark cfg"
  then show "w' = w" "res = Inl refusedDark" "dg_refusals g' = dg_refusals g + 1"
    using assms(2) by (auto simp: dark_guard_dark)
next
  fix a assume "res = Inr (Some a)"
  then show "pa_PNumber a = pn" using assms(2) by (simp add: dark_guard_answer)
qed

definition all_on :: "string \<Rightarrow> string" where
  "all_on v = '' true''"

lemma all_on_loads: "LoadConfigFromEnv all_on = Inr lit_config"
  by code_simp

theorem egress_needs_three_flags_witness:
  "pnOfBody ''PS|RN1|P#7|'' = 7 \<and> ParseBool (TrimSpace (all_on EnvPhase4Transmit)) = Some True"
proof -
  let ?tr = "\<lambda>w i pn body. (w @ [body], Inr None) :: string list \<times> (send_error + pa option)"
  have "pnOfBody ''PS|RN1|P#7|'' = 7" by code_simp
  then have "dark_SendPS lit_config (Some ?tr) \<lparr>dg_refusals = 0, dg_lastBody = []\<rparr> [] ''i'' 7 ''PS|RN1|P#7|''
      = (\<lparr>dg_refusals = 0, dg_lastBody = []\<rparr>, [''PS|RN1|P#7|''], Inr None)"
    by (simp add: dark_SendPS_def Dark_def lit_config_transmits RecordPS_def IsFinancialRecord_def record_code_def
        forbiddenOutboundRecords_def)
  from egress_needs_three_flags [OF all_on_loads this] show ?thesis by simp
qed

section \<open>The gate\<close>

text \<open>What every charge must satisfy, whatever the purpose and whatever room it names.\<close>

definition evidence_ok :: "pinned \<Rightarrow> posting_snapshot \<Rightarrow> bool" where
  "evidence_ok p s \<longleftrightarrow>
     sn_PostingTargetModel s = ''RESERVATION'' \<and> sn_InterfaceCurrency s \<noteq> []
     \<and> sn_FreshnessBlock s = []
     \<and> (sn_InterfaceCurrentRevision s = [] \<or> sn_InterfaceCurrentRevision s = pi_PostingInterfaceRevisionID p)
     \<and> \<not> sn_SettlementMappingRetired s
     \<and> (pi_ExpectStayLifecycleVersion p = None \<or> pi_ExpectStayLifecycleVersion p = Some (sn_StayLifecycleVersion s))
     \<and> (pi_ExpectPurchaseState p = [] \<or> pi_ExpectPurchaseState p = sn_PurchaseState s)
     \<and> sn_StayStatus s = ''IN_HOUSE'' \<and> sn_StayPostingAllowed s
     \<and> \<not> field_refused (pi_GNumber p) \<and> pi_GNumber p = sn_StayReservation s
     \<and> \<not> field_refused (sn_StayRoomNumber s)
     \<and> \<not> field_refused (pi_PostingCode p) \<and> 0 < pi_AmountMinor p
     \<and> \<not> blank (pi_Currency p) \<and> pi_Currency p = sn_InterfaceCurrency s
     \<and> sn_InterfaceExponent s = Some (pi_CurrencyExponent p)
     \<and> sn_PurchaseCurrency s = sn_InterfaceCurrency s \<and> sn_PurchaseExponent s = sn_InterfaceExponent s
     \<and> sn_PackageCurrency s = sn_InterfaceCurrency s \<and> sn_PackageExponent s = sn_InterfaceExponent s
     \<and> (sn_ConnectorKind s = ''protel-fias'' \<longrightarrow> pi_CurrencyExponent p = FIASCurrencyExponent)"

lemma evidence_ok_RN [simp]: "evidence_ok (p\<lparr>pi_RN := r\<rparr>) s = evidence_ok p s"
  by (simp add: evidence_ok_def)

lemma CheckFor_None:
  "CheckFor pu p s = None \<longleftrightarrow>
     lifecycleAllows (sn_InterfaceLifecycleState s) pu = None \<and> evidence_ok p s
     \<and> (pu = PurposeExecute \<longrightarrow> pi_RN p = sn_StayRoomNumber s)"
  (is "?L \<longleftrightarrow> ?R")
proof
  assume ?L
  then show ?R
    unfolding CheckFor_def matchCurrency_def field_refused_def evidence_ok_def
    by (simp split: option.splits if_splits)
next
  assume ?R
  then show ?L
    unfolding CheckFor_def matchCurrency_def field_refused_def evidence_ok_def by (elim conjE disjE) auto
qed

text \<open>
  What may be created may be executed, under the same rules: a charge passes the creation
  gate exactly when the attempt for the reservation's current room passes the execution gate and
  the interface takes new work. What the execution gate lets through is a charge on the guest's own
  reservation in the room the guest is in now, of one currency and exponent throughout; the record
  for it can be built with any P# unless the posting code is longer than the 20 bytes of the wire.
\<close>

theorem gate_create_execute:
  "(gate_Check p s = None \<longleftrightarrow>
      CheckFor PurposeExecute (p\<lparr>pi_RN := sn_StayRoomNumber s\<rparr>) s = None
      \<and> (sn_InterfaceLifecycleState s = ''ACTIVE'' \<or> sn_InterfaceLifecycleState s = ''AUTH_DISABLED''))
   \<and> (CheckFor PurposeExecute q s = None \<longrightarrow>
      pi_GNumber q = sn_StayReservation s \<and> pi_RN q = sn_StayRoomNumber s \<and> sn_StayStatus s = ''IN_HOUSE''
      \<and> (\<forall>cur \<in> {pi_Currency q, sn_PurchaseCurrency s, sn_PackageCurrency s}. cur = sn_InterfaceCurrency s)
      \<and> (\<forall>e \<in> {Some (pi_CurrencyExponent q), sn_PurchaseExponent s, sn_PackageExponent s}. e = sn_InterfaceExponent s)
      \<and> (\<forall>pn e. 0 < pn \<longrightarrow>
           BuildPS \<lparr>ps_RN = pi_RN q, ps_GNumber = pi_GNumber q, ps_AmountMinor = pi_AmountMinor q,
                    ps_PostingCode = pi_PostingCode q, ps_PNumber = pn\<rparr> = Inl e \<longrightarrow>
           maxCTLen < length (TrimSpace (pi_PostingCode q))))"
proof (intro conjI impI)
  have lc: "lifecycleAllows st PurposeCreate = None \<longleftrightarrow>
      lifecycleAllows st PurposeExecute = None \<and> (st = ''ACTIVE'' \<or> st = ''AUTH_DISABLED'')" for st
    by (auto simp: lifecycleAllows_def)
  have "PurposeCreate \<noteq> PurposeExecute" by simp
  then show "gate_Check p s = None \<longleftrightarrow>
      CheckFor PurposeExecute (p\<lparr>pi_RN := sn_StayRoomNumber s\<rparr>) s = None
      \<and> (sn_InterfaceLifecycleState s = ''ACTIVE'' \<or> sn_InterfaceLifecycleState s = ''AUTH_DISABLED'')"
    unfolding gate_Check_def CheckFor_None lc by auto
next
  assume a: "CheckFor PurposeExecute q s = None"
  note c = a [unfolded CheckFor_None evidence_ok_def]
  show "pi_GNumber q = sn_StayReservation s" "pi_RN q = sn_StayRoomNumber s" "sn_StayStatus s = ''IN_HOUSE''" using c by simp_all
  show "\<forall>cur \<in> {pi_Currency q, sn_PurchaseCurrency s, sn_PackageCurrency s}. cur = sn_InterfaceCurrency s"
    "\<forall>e \<in> {Some (pi_CurrencyExponent q), sn_PurchaseExponent s, sn_PackageExponent s}. e = sn_InterfaceExponent s"
    using c by simp_all
  show "\<forall>pn e. 0 < pn \<longrightarrow>
           BuildPS \<lparr>ps_RN = pi_RN q, ps_GNumber = pi_GNumber q, ps_AmountMinor = pi_AmountMinor q,
                    ps_PostingCode = pi_PostingCode q, ps_PNumber = pn\<rparr> = Inl e \<longrightarrow>
           maxCTLen < length (TrimSpace (pi_PostingCode q))"
  proof (intro allI impI, rule ccontr)
    fix pn :: int and e
    assume pn: "0 < pn" and "\<not> maxCTLen < length (TrimSpace (pi_PostingCode q))"
    moreover have "\<not> wireUnsafe (TrimSpace (pi_PostingCode q))"
      using c TrimSpace_set [of "pi_PostingCode q"] by (auto simp: field_ok wireUnsafe_def list_ex_iff)
    moreover have "TrimSpace (pi_PostingCode q) \<noteq> []" using c by (simp add: field_ok blank_def)
    moreover have "\<not> field_refused (pi_RN q)" "\<not> field_refused (pi_GNumber q)" "0 < pi_AmountMinor q" using c by metis+
    ultimately have "BuildPS \<lparr>ps_RN = pi_RN q, ps_GNumber = pi_GNumber q, ps_AmountMinor = pi_AmountMinor q,
                    ps_PostingCode = pi_PostingCode q, ps_PNumber = pn\<rparr> \<noteq> Inl e"
      unfolding BuildPS_def Let_def by simp
    moreover assume "BuildPS \<lparr>ps_RN = pi_RN q, ps_GNumber = pi_GNumber q, ps_AmountMinor = pi_AmountMinor q,
                    ps_PostingCode = pi_PostingCode q, ps_PNumber = pn\<rparr> = Inl e"
    ultimately show False by simp
  qed
qed

definition sample_pinned :: pinned where
  "sample_pinned = \<lparr>pi_TenantID = ''t'', pi_SiteID = ''s'', pi_PMSInterfaceID = ''i'', pi_AuthInterfaceRevisionID = ''r0'',
     pi_PostingInterfaceRevisionID = ''r1'', pi_SecretGenerationID = [], pi_StayID = ''stay'',
     pi_PackageRevisionID = ''pk'', pi_SettlementMappingID = ''sm'', pi_PurchaseID = ''pu'', pi_SettlementID = ''se'',
     pi_AmountMinor = 1500, pi_Currency = ''EUR'', pi_CurrencyExponent = 2, pi_RN = ''1421'', pi_GNumber = ''77120'',
     pi_PostingCode = ''WIFI'', pi_IdempotencyKey = ''k'', pi_PostingID = [],
     pi_ExpectStayLifecycleVersion = Some 3, pi_ExpectPurchaseState = ''CONFIRMED''\<rparr>"

definition sample_snapshot :: posting_snapshot where
  "sample_snapshot = \<lparr>sn_InterfaceLifecycleState = ''ACTIVE'', sn_InterfaceCurrentRevision = ''r1'',
     sn_PostingTargetModel = ''RESERVATION'', sn_InterfaceCurrency = ''EUR'', sn_InterfaceExponent = Some 2,
     sn_PurchaseCurrency = ''EUR'', sn_PurchaseExponent = Some 2, sn_PurchaseState = ''CONFIRMED'',
     sn_PackageCurrency = ''EUR'', sn_PackageExponent = Some 2, sn_StayStatus = ''IN_HOUSE'',
     sn_StayPostingAllowed = True, sn_StayLifecycleVersion = 3, sn_StayRoomNumber = ''1421'',
     sn_StayReservation = ''77120'', sn_SettlementMappingRetired = False, sn_ConnectorKind = ''protel-fias'',
     sn_FreshnessBlock = []\<rparr>"

lemma sample_gate: "CheckFor PurposeExecute sample_pinned sample_snapshot = None"
  by code_simp

theorem gate_create_execute_witness:
  "pi_GNumber sample_pinned = sn_StayReservation sample_snapshot \<and> pi_RN sample_pinned = ''1421''"
  using gate_create_execute [of sample_pinned sample_snapshot sample_pinned] sample_gate
  by (simp add: sample_snapshot_def)

end
