(* ===== verification/Module_Gate.thy ===== *)
theory Module_Gate
  imports License_Gate Posting_Wire
begin

text \<open>
  Which optional modules may run: the deployment ceiling
  (\<open>data-plane/internal/deployment/ceiling.go\<close>, with the flag sets of \<open>iamv2/commerce_config.go\<close>,
  \<open>iamv2/pms_config.go\<close> and \<open>payment/payment.go\<close>; the one of \<open>posting/config.go\<close> is in
  \<open>Posting_Wire\<close>) and the module resolver (\<open>data-plane/internal/modules/resolver.go\<close>), which puts
  the four gates together: deployed, licensed, enabled by the site, ready. The licence is the
  manager of \<open>License_Gate\<close>, the module registry the one of \<open>License_Doc\<close>.
\<close>

subsection \<open>Flag sets\<close>

datatype config_error =
    NotABoolean string
  | SurfaceWithoutMaster
  | ProviderWithoutPayment
  | RecheckWithoutProvider
  | LiveWithoutProvider
  | PostingConfigError posting_code

definition EnvPhase2Master :: string where "EnvPhase2Master = ''STAYCONNECT_PHASE2_MASTER''"
definition EnvPhase2Portal :: string where "EnvPhase2Portal = ''STAYCONNECT_PHASE2_PORTAL''"
definition EnvPhase2Admin :: string where "EnvPhase2Admin = ''STAYCONNECT_PHASE2_ADMIN''"
definition EnvPhase3Master :: string where "EnvPhase3Master = ''STAYCONNECT_PHASE3_MASTER''"
definition EnvPhase3PMSConnector :: string where "EnvPhase3PMSConnector = ''STAYCONNECT_PHASE3_PMS_CONNECTOR''"
definition EnvPhase3PMSIngest :: string where "EnvPhase3PMSIngest = ''STAYCONNECT_PHASE3_PMS_INGEST''"
definition EnvPhase3PMSAuth :: string where "EnvPhase3PMSAuth = ''STAYCONNECT_PHASE3_PMS_AUTH''"
definition EnvPhase3CheckoutGrace :: string where "EnvPhase3CheckoutGrace = ''STAYCONNECT_PHASE3_CHECKOUT_GRACE''"
definition EnvPhase3Admin :: string where "EnvPhase3Admin = ''STAYCONNECT_PHASE3_ADMIN''"
definition EnvPhase4Payment :: string where "EnvPhase4Payment = ''STAYCONNECT_PHASE4_PAYMENT''"
definition EnvPhase4Provider :: string where "EnvPhase4Provider = ''STAYCONNECT_PHASE4_PAYMENT_PROVIDER''"
definition EnvPhase4Recheck :: string where "EnvPhase4Recheck = ''STAYCONNECT_PHASE4_PAYMENT_RECHECK''"
definition EnvPaymentLiveAllowed :: string where "EnvPaymentLiveAllowed = ''STAYCONNECT_PAYMENT_LIVE_ALLOWED''"
definition EnvMaster :: string where "EnvMaster = ''STAYCONNECT_IAMV2_MASTER''"
definition EnvAccount :: string where "EnvAccount = ''STAYCONNECT_IAMV2_ACCOUNT''"
definition EnvOTP :: string where "EnvOTP = ''STAYCONNECT_IAMV2_OTP''"
definition EnvSocial :: string where "EnvSocial = ''STAYCONNECT_IAMV2_SOCIAL''"

text \<open>A flag of the environment: blank is off, anything that is not a boolean is an error.\<close>

definition read_flag :: "(string \<Rightarrow> string) \<Rightarrow> string \<Rightarrow> config_error + bool" where
  "read_flag get name =
     (let v = TrimSpace (get name) in
      if v = [] then Inr False
      else case ParseBool v of None \<Rightarrow> Inl (NotABoolean name) | Some b \<Rightarrow> Inr b)"

fun read_flags :: "(string \<Rightarrow> string) \<Rightarrow> string list \<Rightarrow> config_error + bool list" where
  "read_flags get [] = Inr []"
| "read_flags get (name # names) =
     (case read_flag get name of
        Inl e \<Rightarrow> Inl e
      | Inr b \<Rightarrow> (case read_flags get names of Inl e \<Rightarrow> Inl e | Inr bs \<Rightarrow> Inr (b # bs)))"

record commerce_config =
  cc_MasterEnabled :: bool
  cc_PortalEnabled :: bool
  cc_AdminEnabled :: bool

definition PortalOn :: "commerce_config \<Rightarrow> bool" where
  "PortalOn c \<longleftrightarrow> cc_MasterEnabled c \<and> cc_PortalEnabled c"

definition commerce_AdminOn :: "commerce_config \<Rightarrow> bool" where
  "commerce_AdminOn c \<longleftrightarrow> cc_MasterEnabled c \<and> cc_AdminEnabled c"

definition commerce_Validate :: "commerce_config \<Rightarrow> config_error option" where
  "commerce_Validate c =
     (if \<not> cc_MasterEnabled c \<and> (cc_PortalEnabled c \<or> cc_AdminEnabled c) then Some SurfaceWithoutMaster else None)"

definition LoadCommerceConfigFromEnv :: "(string \<Rightarrow> string) \<Rightarrow> config_error + commerce_config" where
  "LoadCommerceConfigFromEnv get =
     (case read_flags get [EnvPhase2Master, EnvPhase2Portal, EnvPhase2Admin] of
        Inl e \<Rightarrow> Inl e
      | Inr bs \<Rightarrow>
          (let c = \<lparr>cc_MasterEnabled = bs ! 0, cc_PortalEnabled = bs ! 1, cc_AdminEnabled = bs ! 2\<rparr>
           in case commerce_Validate c of Some e \<Rightarrow> Inl e | None \<Rightarrow> Inr c))"

record pms_config =
  pc_MasterEnabled :: bool
  pc_PMSConnectorEnabled :: bool
  pc_PMSIngestEnabled :: bool
  pc_PMSAuthEnabled :: bool
  pc_CheckoutGraceEnabled :: bool
  pc_AdminEnabled :: bool

definition pms_anyChildSet :: "pms_config \<Rightarrow> bool" where
  "pms_anyChildSet c \<longleftrightarrow> pc_PMSConnectorEnabled c \<or> pc_PMSIngestEnabled c \<or> pc_PMSAuthEnabled c \<or>
     pc_CheckoutGraceEnabled c \<or> pc_AdminEnabled c"

definition pms_Validate :: "pms_config \<Rightarrow> config_error option" where
  "pms_Validate c = (if \<not> pc_MasterEnabled c \<and> pms_anyChildSet c then Some SurfaceWithoutMaster else None)"

definition LoadPMSConfigFromEnv :: "(string \<Rightarrow> string) \<Rightarrow> config_error + pms_config" where
  "LoadPMSConfigFromEnv get =
     (case read_flags get [EnvPhase3Master, EnvPhase3PMSConnector, EnvPhase3PMSIngest, EnvPhase3PMSAuth,
             EnvPhase3CheckoutGrace, EnvPhase3Admin] of
        Inl e \<Rightarrow> Inl e
      | Inr bs \<Rightarrow>
          (let c = \<lparr>pc_MasterEnabled = bs ! 0, pc_PMSConnectorEnabled = bs ! 1, pc_PMSIngestEnabled = bs ! 2,
                    pc_PMSAuthEnabled = bs ! 3, pc_CheckoutGraceEnabled = bs ! 4, pc_AdminEnabled = bs ! 5\<rparr>
           in case pms_Validate c of Some e \<Rightarrow> Inl e | None \<Rightarrow> Inr c))"

record payment_config =
  pay_MasterEnabled :: bool
  pay_PaymentEnabled :: bool
  pay_ProviderEnabled :: bool
  pay_RecheckEnabled :: bool

definition DomainOn :: "payment_config \<Rightarrow> bool" where
  "DomainOn c \<longleftrightarrow> pay_MasterEnabled c \<and> pay_PaymentEnabled c"

definition ProviderOn :: "payment_config \<Rightarrow> bool" where
  "ProviderOn c \<longleftrightarrow> pay_MasterEnabled c \<and> pay_PaymentEnabled c \<and> pay_ProviderEnabled c"

definition RecheckOn :: "payment_config \<Rightarrow> bool" where
  "RecheckOn c \<longleftrightarrow> ProviderOn c \<and> pay_RecheckEnabled c"

definition LoadPaymentConfigFromEnv :: "(string \<Rightarrow> string) \<Rightarrow> config_error + payment_config" where
  "LoadPaymentConfigFromEnv get =
     (case read_flags get [EnvPhase4Master, EnvPhase4Payment, EnvPhase4Provider, EnvPhase4Recheck] of
        Inl e \<Rightarrow> Inl e
      | Inr bs \<Rightarrow>
          (let c = \<lparr>pay_MasterEnabled = bs ! 0, pay_PaymentEnabled = bs ! 1, pay_ProviderEnabled = bs ! 2,
                    pay_RecheckEnabled = bs ! 3\<rparr>
           in if \<not> pay_MasterEnabled c \<and> (pay_PaymentEnabled c \<or> pay_ProviderEnabled c)
                then Inl SurfaceWithoutMaster
              else if pay_ProviderEnabled c \<and> \<not> pay_PaymentEnabled c then Inl ProviderWithoutPayment
              else if pay_RecheckEnabled c \<and> \<not> pay_ProviderEnabled c then Inl RecheckWithoutProvider
              else Inr c))"

subsection \<open>The deployment ceiling\<close>

record ceiling =
  ce_commerce :: commerce_config
  ce_pms :: pms_config
  ce_pay :: payment_config
  ce_post :: posting_config
  ce_liveAllowed :: bool
  ce_otp :: bool
  ce_social :: bool
  ce_account :: bool

definition MethodAccount :: string where "MethodAccount = ''ACCOUNT''"

definition lockedGuestMethods :: "string list" where
  "lockedGuestMethods = [''VOUCHER'', MethodAccount]"

definition GuestAuthorityLocked :: "string \<Rightarrow> bool" where
  "GuestAuthorityLocked m \<longleftrightarrow> m \<in> set lockedGuestMethods"

text \<open>\<open>production\<close> is the build profile, a constant of the binary.\<close>

definition ceiling_Load :: "bool \<Rightarrow> (string \<Rightarrow> string) \<Rightarrow> config_error + ceiling" where
  "ceiling_Load production get =
     (case LoadCommerceConfigFromEnv get of
        Inl e \<Rightarrow> Inl e
      | Inr commerce \<Rightarrow>
     (case LoadPMSConfigFromEnv get of
        Inl e \<Rightarrow> Inl e
      | Inr pms \<Rightarrow>
     (case LoadPaymentConfigFromEnv get of
        Inl e \<Rightarrow> Inl e
      | Inr pay \<Rightarrow>
     (case LoadConfigFromEnv get of
        Inl e \<Rightarrow> Inl (PostingConfigError e)
      | Inr post \<Rightarrow>
     (case read_flag get EnvPaymentLiveAllowed of
        Inl e \<Rightarrow> Inl e
      | Inr live \<Rightarrow>
     (if live \<and> \<not> ProviderOn pay then Inl LiveWithoutProvider
      else case read_flags get [EnvMaster, EnvOTP, EnvSocial, EnvAccount] of
        Inl e \<Rightarrow> Inl e
      | Inr bs \<Rightarrow>
          (let master = bs ! 0;
               account = (bs ! 3 \<or> (production \<and> GuestAuthorityLocked MethodAccount))
           in Inr \<lparr>ce_commerce = commerce, ce_pms = pms, ce_pay = pay, ce_post = post, ce_liveAllowed = live,
                ce_otp = (bs ! 1 \<and> master), ce_social = (bs ! 2 \<and> master), ce_account = (account \<and> master)\<rparr>)))))))"

definition WithIdentity :: "bool \<Rightarrow> bool \<Rightarrow> ceiling \<Rightarrow> ceiling" where
  "WithIdentity otp social c = c\<lparr>ce_otp := otp, ce_social := social\<rparr>"

definition WithAccounts :: "bool \<Rightarrow> ceiling \<Rightarrow> ceiling" where
  "WithAccounts account c = c\<lparr>ce_account := account\<rparr>"

definition ceiling_New ::
  "commerce_config \<Rightarrow> pms_config \<Rightarrow> payment_config \<Rightarrow> posting_config \<Rightarrow> bool \<Rightarrow> ceiling" where
  "ceiling_New commerce pms pay post liveAllowed =
     \<lparr>ce_commerce = commerce, ce_pms = pms, ce_pay = pay, ce_post = post,
      ce_liveAllowed = (liveAllowed \<and> ProviderOn pay), ce_otp = False, ce_social = False, ce_account = False\<rparr>"

datatype capability =
    CapClientPackages | CapPackageAdmin | CapHospitality | CapPaidAccess | CapCardPayment
  | CapCardProviderCalls | CapCardLive | CapCardLateRecheck | CapRoomChargeConfig | CapRoomChargeReview
  | CapRoomChargeTransmit | CapOTPSignIn | CapSocialSignIn | CapEmailAccounts

fun Available :: "ceiling \<Rightarrow> capability \<Rightarrow> bool" where
  "Available c CapClientPackages = PortalOn (ce_commerce c)"
| "Available c CapPackageAdmin = commerce_AdminOn (ce_commerce c)"
| "Available c CapHospitality = pc_MasterEnabled (ce_pms c)"
| "Available c CapPaidAccess = cc_MasterEnabled (ce_commerce c)"
| "Available c CapCardPayment = (DomainOn (ce_pay c) \<and> PortalOn (ce_commerce c))"
| "Available c CapCardProviderCalls = (ProviderOn (ce_pay c) \<and> PortalOn (ce_commerce c))"
| "Available c CapCardLive = (ce_liveAllowed c \<and> ProviderOn (ce_pay c))"
| "Available c CapCardLateRecheck = (RecheckOn (ce_pay c) \<and> PortalOn (ce_commerce c))"
| "Available c CapRoomChargeConfig = (PostingOn (ce_post c) \<and> pc_MasterEnabled (ce_pms c))"
| "Available c CapRoomChargeReview = ReviewOn (ce_post c)"
| "Available c CapRoomChargeTransmit = (TransmitOn (ce_post c) \<and> PostingOn (ce_post c))"
| "Available c CapOTPSignIn = ce_otp c"
| "Available c CapSocialSignIn = ce_social c"
| "Available c CapEmailAccounts = ce_account c"

definition ModuleDeployed :: "ceiling \<Rightarrow> string \<Rightarrow> bool" where
  "ModuleDeployed c mid =
     (if mid = ModuleHospitality then Available c CapHospitality
      else if mid = ModulePaidAccess then Available c CapPaidAccess
      else if mid = ModuleCardPayment then Available c CapCardPayment
      else if mid = ModuleRoomCharge then Available c CapRoomChargeConfig
      else if mid = ModuleEmailOTP then Available c CapEmailAccounts
      else if mid \<in> {ModuleSMSOTP, ModuleWhatsAppOTP} then Available c CapOTPSignIn
      else if mid = ModuleSocialLogin then Available c CapSocialSignIn
      else if mid \<in> {ModuleHA, ModuleWhiteLabel} then False
      else known_module mid)"

subsection \<open>The resolver\<close>

definition ReasonNotDeployed :: string where "ReasonNotDeployed = ''NOT_DEPLOYED''"
definition ReasonNotLicensed :: string where "ReasonNotLicensed = ''NOT_LICENSED''"
definition ReasonLicenceInactive :: string where "ReasonLicenceInactive = ''LICENCE_NOT_ACTIVE''"
definition ReasonDependency :: string where "ReasonDependency = ''DEPENDENCY_NOT_EFFECTIVE''"
definition ReasonDisabledBySite :: string where "ReasonDisabledBySite = ''DISABLED_BY_SITE''"
definition ReasonLocalUnknown :: string where "ReasonLocalUnknown = ''LOCAL_STATE_UNAVAILABLE''"
definition ReasonNotReady :: string where "ReasonNotReady = ''NOT_READY''"

definition switchable :: "string \<Rightarrow> bool" where
  "switchable mid \<longleftrightarrow> mid \<in> {ModuleHospitality, ModulePaidAccess, ModuleCardPayment, ModuleRoomCharge}"

definition identity_module :: "string \<Rightarrow> bool" where
  "identity_module mid \<longleftrightarrow> mid \<in> {ModuleSMSOTP, ModuleWhatsAppOTP, ModuleEmailOTP, ModuleSocialLogin}"

text \<open>
  What the resolver is given. \<open>rv_licence\<close> is the manager, \<open>None\<close> for a nil interface. The local
  switches and the sign-in switches are each a source that is absent (\<open>None\<close>), fails
  (\<open>Some None\<close>) or returns a map, held as the list of the ids it maps to true. A probe, where one
  is registered, gives readiness and its details.
\<close>

record resolver =
  rv_ceiling :: ceiling
  rv_licence :: "manager option"
  rv_ord :: "nat \<Rightarrow> string list \<Rightarrow> string list"
  rv_local :: "string list option option"
  rv_identity :: "string list option option"
  rv_probes :: "string \<Rightarrow> (bool \<times> string list) option"
  rv_records :: "string \<Rightarrow> bool option"

record module_state =
  ms_ID :: string
  ms_Label :: string
  ms_Requires :: "string list"
  ms_Deployed :: bool
  ms_Authorized :: bool
  ms_Licensed :: bool
  ms_Switchable :: bool
  ms_Enabled :: bool
  ms_Ready :: bool
  ms_Effective :: bool
  ms_Manageable :: bool
  ms_Reasons :: "string list"
  ms_Readiness :: "string list"

type_synonym snapshot = "(string \<times> module_state) list"

text \<open>The switches as \<open>Resolve\<close> reads them: \<open>None\<close> is an error.\<close>

definition local_switches :: "resolver \<Rightarrow> string \<Rightarrow> string \<Rightarrow> string list option" where
  "local_switches rv tenantID siteID =
     (if tenantID \<noteq> [] \<and> siteID \<noteq> [] then (case rv_local rv of None \<Rightarrow> None | Some r \<Rightarrow> r) else None)"

definition identity_switches :: "resolver \<Rightarrow> string \<Rightarrow> string list option" where
  "identity_switches rv tenantID =
     (if tenantID \<noteq> [] then (case rv_identity rv of None \<Rightarrow> None | Some r \<Rightarrow> r) else None)"

definition licensed :: "resolver \<Rightarrow> string \<Rightarrow> bool" where
  "licensed rv mid = (case rv_licence rv of None \<Rightarrow> False | Some m \<Rightarrow> ModuleEnabled (rv_ord rv) m mid)"

definition authorized :: "resolver \<Rightarrow> string \<Rightarrow> bool" where
  "authorized rv mid =
     (case rv_licence rv of None \<Rightarrow> False | Some m \<Rightarrow> mid \<in> set (mgr_AuthorizedModules (rv_ord rv) m))"

text \<open>The body of the first loop: one module against the four gates.\<close>

definition resolve_one ::
  "resolver \<Rightarrow> string list option \<Rightarrow> string list option \<Rightarrow> module_spec \<Rightarrow> module_state" where
  "resolve_one rv local ids spec =
     (let mid = spec_ID spec;
          deployed = ModuleDeployed (rv_ceiling rv) mid;
          auth = authorized rv mid;
          lic = licensed rv mid;
          enabled = (if switchable mid then (case local of None \<Rightarrow> False | Some l \<Rightarrow> mid \<in> set l)
                     else if identity_module mid then (case ids of None \<Rightarrow> False | Some l \<Rightarrow> mid \<in> set l)
                     else lic);
          ready = (case rv_probes rv mid of
                     None \<Rightarrow> True | Some (r, details) \<Rightarrow> if deployed \<and> lic then r else False);
          records = (case rv_records rv mid of None \<Rightarrow> False | Some r \<Rightarrow> deployed \<and> \<not> lic \<and> r)
      in \<lparr>ms_ID = mid, ms_Label = spec_Label spec, ms_Requires = spec_Requires spec, ms_Deployed = deployed,
          ms_Authorized = auth, ms_Licensed = lic, ms_Switchable = switchable mid, ms_Enabled = enabled,
          ms_Ready = ready, ms_Effective = (deployed \<and> lic \<and> enabled \<and> ready),
          ms_Manageable = (deployed \<and> (lic \<or> records)),
          ms_Reasons =
            (if \<not> deployed then [ReasonNotDeployed] else []) @
            (if \<not> auth \<and> \<not> lic then [ReasonNotLicensed]
             else if auth \<and> \<not> lic then [ReasonLicenceInactive] else []) @
            (if switchable mid then (if local = None then [ReasonLocalUnknown] else [])
             else if identity_module mid then (if ids = None then [ReasonLocalUnknown] else []) else []) @
            (if \<not> enabled \<and> (switchable mid \<or> identity_module mid) \<and> local \<noteq> None \<and> ids \<noteq> None
             then [ReasonDisabledBySite] else []) @
            (case rv_probes rv mid of
               None \<Rightarrow> []
             | Some (r, details) \<Rightarrow> if deployed \<and> lic \<and> \<not> r \<and> enabled then [ReasonNotReady] else []),
          ms_Readiness =
            (case rv_probes rv mid of
               None \<Rightarrow> [] | Some (r, details) \<Rightarrow> if deployed \<and> lic then details else [])\<rparr>)"

definition snap_Effective :: "snapshot \<Rightarrow> string \<Rightarrow> bool" where
  "snap_Effective s mid = (case map_of s mid of None \<Rightarrow> False | Some st \<Rightarrow> ms_Effective st)"

definition snap_Manageable :: "snapshot \<Rightarrow> string \<Rightarrow> bool" where
  "snap_Manageable s mid = (case map_of s mid of None \<Rightarrow> False | Some st \<Rightarrow> ms_Manageable st)"

definition drop_effective :: "string \<Rightarrow> string \<Rightarrow> snapshot \<Rightarrow> snapshot" where
  "drop_effective mid dep s =
     map (\<lambda>(k, st). if k = mid
            then (k, st\<lparr>ms_Effective := False, ms_Reasons := ms_Reasons st @ [ReasonDependency @ '':'' @ dep]\<rparr>)
            else (k, st)) s"

text \<open>
  One pass over the map of the second loop, in the order Go visits it: an effective module whose
  first unmet dependency is \<open>dep\<close> is put out, with the reason.
\<close>

fun dep_sweep :: "string list \<Rightarrow> snapshot \<Rightarrow> snapshot" where
  "dep_sweep [] s = s"
| "dep_sweep (mid # ids) s =
     (case map_of s mid of
        None \<Rightarrow> dep_sweep ids s
      | Some st \<Rightarrow>
          (if \<not> ms_Effective st then dep_sweep ids s
           else case find (\<lambda>dep. \<not> snap_Effective s dep) (ms_Requires st) of
             None \<Rightarrow> dep_sweep ids s
           | Some dep \<Rightarrow> dep_sweep ids (drop_effective mid dep s)))"

definition effective_ids :: "snapshot \<Rightarrow> string list" where
  "effective_ids s = map fst (filter (\<lambda>e. ms_Effective (snd e)) s)"

lemma snap_Effective_iff:
  "distinct (map fst s) \<Longrightarrow> snap_Effective s mid \<longleftrightarrow> mid \<in> set (effective_ids s)"
  by (induction s) (auto simp: snap_Effective_def effective_ids_def rev_image_eqI split: if_splits)

lemma drop_effective_keys [simp]: "map fst (drop_effective mid dep s) = map fst s"
  by (induction s) (auto simp: drop_effective_def)

lemma drop_effective_ids: "effective_ids (drop_effective mid dep s) = removeAll mid (effective_ids s)"
  by (induction s) (auto simp: drop_effective_def effective_ids_def)

text \<open>Every entry requires what the registry says.\<close>

definition snap_wf :: "snapshot \<Rightarrow> bool" where
  "snap_wf s \<longleftrightarrow> distinct (map fst s) \<and> (\<forall>(mid, st) \<in> set s. ms_Requires st = requires mid)"

lemma drop_effective_wf: "snap_wf s \<Longrightarrow> snap_wf (drop_effective mid dep s)"
  by (auto simp: snap_wf_def) (auto simp: drop_effective_def split: if_splits)

text \<open>A pass refines the sweep of the licence's modules: it deletes the same ids from the effective ones.\<close>

lemma dep_sweep_refines:
  "snap_wf s \<Longrightarrow> effective_ids (dep_sweep ids s) = sweep ids (effective_ids s) \<and> snap_wf (dep_sweep ids s) \<and>
     map fst (dep_sweep ids s) = map fst s"
proof (induction ids arbitrary: s)
  case (Cons mid ids)
  have d: "distinct (map fst s)" using Cons.prems by (simp add: snap_wf_def)
  note eff = snap_Effective_iff [OF d]
  show ?case
  proof (cases "map_of s mid")
    case None
    then have "mid \<notin> set (effective_ids s)" using eff [of mid] by (simp add: snap_Effective_def)
    then show ?thesis using None Cons.IH [OF Cons.prems] by simp
  next
    case (Some st)
    then have req: "ms_Requires st = requires mid"
      using Cons.prems by (auto simp: snap_wf_def dest: map_of_SomeD)
    have st: "ms_Effective st \<longleftrightarrow> mid \<in> set (effective_ids s)"
      using eff [of mid] Some by (simp add: snap_Effective_def)
    show ?thesis
    proof (cases "ms_Effective st \<and> (\<exists>dep \<in> set (requires mid). dep \<notin> set (effective_ids s))")
      case True
      then obtain dep where f: "find (\<lambda>dep. \<not> snap_Effective s dep) (ms_Requires st) = Some dep"
        using eff req by (cases "find (\<lambda>dep. \<not> snap_Effective s dep) (ms_Requires st)") (auto simp: find_None_iff)
      show ?thesis
        using Some True f st Cons.IH [OF drop_effective_wf [OF Cons.prems], of mid dep]
        by (simp add: drop_effective_ids)
    next
      case False
      then have f: "ms_Effective st \<Longrightarrow> find (\<lambda>dep. \<not> snap_Effective s dep) (ms_Requires st) = None"
        using eff req by (auto simp: find_None_iff)
      show ?thesis using Some False f st Cons.IH [OF Cons.prems] by auto
    qed
  qed
qed simp

text \<open>A pass that changes the snapshot puts a module out.\<close>

lemma dep_sweep_length: "length (effective_ids (dep_sweep ids s)) \<le> length (effective_ids s)"
proof (induction ids s rule: dep_sweep.induct)
  case (2 mid ids s)
  have "length (effective_ids (drop_effective mid dep s)) \<le> length (effective_ids s)" for dep
    by (simp add: drop_effective_ids length_removeAll_less_eq)
  with 2 show ?case by (fastforce split: option.split intro: order.trans)
qed simp

lemma dep_sweep_changed_less:
  "dep_sweep ids s \<noteq> s \<Longrightarrow> length (effective_ids (dep_sweep ids s)) < length (effective_ids s)"
proof (induction ids s rule: dep_sweep.induct)
  case (2 mid ids s)
  show ?case
  proof (cases "\<exists>st dep. map_of s mid = Some st \<and> ms_Effective st \<and>
      find (\<lambda>dep. \<not> snap_Effective s dep) (ms_Requires st) = Some dep")
    case True
    then obtain st dep where st: "map_of s mid = Some st" "ms_Effective st"
      "find (\<lambda>dep. \<not> snap_Effective s dep) (ms_Requires st) = Some dep" by blast
    have "mid \<in> set (effective_ids s)"
      using map_of_SomeD [OF st(1)] st(2) by (force simp: effective_ids_def)
    then have "length (effective_ids (drop_effective mid dep s)) < length (effective_ids s)"
      by (simp add: drop_effective_ids length_removeAll_less)
    then show ?thesis
      using st dep_sweep_length [of ids "drop_effective mid dep s"] by simp
  next
    case False
    then have "dep_sweep (mid # ids) s = dep_sweep ids s" by (auto split: option.split)
    then show ?thesis using 2 False by (auto split: option.splits if_splits)
  qed
qed simp

text \<open>
  The loop over the passes: \<open>changed\<close> is set exactly when a pass alters the snapshot. \<open>ord k\<close> is the
  order in which the \<open>k\<close>-th pass visits the map.
\<close>

function dep_loop :: "(nat \<Rightarrow> string list \<Rightarrow> string list) \<Rightarrow> nat \<Rightarrow> snapshot \<Rightarrow> snapshot" where
  "dep_loop ord k s =
     (let s' = dep_sweep (ord k (map fst s)) s in if s' = s then s else dep_loop ord (Suc k) s')"
  by pat_completeness auto
termination
  by (relation "measure (\<lambda>(ord, k, s). length (effective_ids s))") (auto simp: dep_sweep_changed_less)

declare dep_loop.simps [simp del]

definition sort_reasons :: "snapshot \<Rightarrow> snapshot" where
  "sort_reasons s = map (\<lambda>(k, st). (k, st\<lparr>ms_Reasons := sort (ms_Reasons st)\<rparr>)) s"

definition first_snapshot :: "resolver \<Rightarrow> string \<Rightarrow> string \<Rightarrow> snapshot" where
  "first_snapshot rv tenantID siteID =
     map (\<lambda>spec. (spec_ID spec,
            resolve_one rv (local_switches rv tenantID siteID) (identity_switches rv tenantID) spec)) registry"

definition modules_Resolve ::
  "(nat \<Rightarrow> string list \<Rightarrow> string list) \<Rightarrow> resolver \<Rightarrow> string \<Rightarrow> string \<Rightarrow> snapshot" where
  "modules_Resolve ord rv tenantID siteID = sort_reasons (dep_loop ord 0 (first_snapshot rv tenantID siteID))"

subsection \<open>Laws\<close>

lemma registry_ids: "distinct (map spec_ID registry)"
  by (simp add: registry_def module_ids)

lemma registry_requires: "spec \<in> set registry \<Longrightarrow> requires (spec_ID spec) = spec_Requires spec"
  by (auto simp: registry_def requires_def LookupModule_def module_ids)

lemma known_module_iff: "known_module mid \<longleftrightarrow> mid \<in> spec_ID ` set registry"
  by (auto simp: known_module_def LookupModule_def find_None_iff)

lemma first_snapshot_keys: "map fst (first_snapshot rv tenantID siteID) = map spec_ID registry"
  by (simp add: first_snapshot_def comp_def)

lemma resolve_one_requires [simp]: "ms_Requires (resolve_one rv l i spec) = spec_Requires spec"
  by (simp add: resolve_one_def Let_def)

lemma first_snapshot_wf: "snap_wf (first_snapshot rv tenantID siteID)"
  unfolding snap_wf_def first_snapshot_keys
  using registry_ids by (auto simp: first_snapshot_def registry_requires)

lemma dep_loop_result:
  assumes "\<And>k xs. set xs \<subseteq> set (ord k xs)" and "snap_wf s"
  shows "snap_wf (dep_loop ord k s)" and "map fst (dep_loop ord k s) = map fst s"
    and "dep_closed (set (effective_ids (dep_loop ord k s)))"
    and "set (effective_ids (dep_loop ord k s)) \<subseteq> set (effective_ids s)"
    and "\<And>S. dep_closed S \<Longrightarrow> S \<subseteq> set (effective_ids s) \<Longrightarrow> S \<subseteq> set (effective_ids (dep_loop ord k s))"
proof -
  have "snap_wf (dep_loop ord k s) \<and> map fst (dep_loop ord k s) = map fst s \<and>
      dep_closed (set (effective_ids (dep_loop ord k s))) \<and>
      set (effective_ids (dep_loop ord k s)) \<subseteq> set (effective_ids s) \<and>
      (\<forall>S. dep_closed S \<longrightarrow> S \<subseteq> set (effective_ids s) \<longrightarrow> S \<subseteq> set (effective_ids (dep_loop ord k s)))"
    using assms
  proof (induction ord k s rule: dep_loop.induct)
    case (1 ord k s)
    define s' where "s' = dep_sweep (ord k (map fst s)) s"
    note ref = dep_sweep_refines [OF 1(3), of "ord k (map fst s)", folded s'_def]
    show ?case
    proof (cases "s' = s")
      case True
      have "sweep (ord k (map fst s)) (effective_ids s) = effective_ids s" using ref True by simp
      note stable = sweep_stable [OF this]
      have "set (effective_ids s) \<subseteq> set (ord k (map fst s))"
        using 1(2) [of "map fst s" k] by (auto simp: effective_ids_def)
      then have "dep_closed (set (effective_ids s))" using stable unfolding dep_closed_def by blast
      then show ?thesis using True 1(3) by (subst (1 2 3 4 5) dep_loop.simps) (simp add: s'_def)
    next
      case False
      then have step: "dep_loop ord k s = dep_loop ord (Suc k) s'"
        by (subst dep_loop.simps) (simp add: s'_def Let_def)
      have ih: "snap_wf (dep_loop ord (Suc k) s') \<and> map fst (dep_loop ord (Suc k) s') = map fst s' \<and>
          dep_closed (set (effective_ids (dep_loop ord (Suc k) s'))) \<and>
          set (effective_ids (dep_loop ord (Suc k) s')) \<subseteq> set (effective_ids s') \<and>
          (\<forall>S. dep_closed S \<longrightarrow> S \<subseteq> set (effective_ids s') \<longrightarrow> S \<subseteq> set (effective_ids (dep_loop ord (Suc k) s')))"
        using 1(1) [OF s'_def False 1(2)] ref by blast
      show ?thesis
        unfolding step using ih ref sweep_subset sweep_keeps_closed by (metis subset_trans)
    qed
  qed
  then show "snap_wf (dep_loop ord k s)" "map fst (dep_loop ord k s) = map fst s"
    "dep_closed (set (effective_ids (dep_loop ord k s)))"
    "set (effective_ids (dep_loop ord k s)) \<subseteq> set (effective_ids s)"
    "\<And>S. dep_closed S \<Longrightarrow> S \<subseteq> set (effective_ids s) \<Longrightarrow> S \<subseteq> set (effective_ids (dep_loop ord k s))"
    by auto
qed

text \<open>The four gates of a module, as they are meant.\<close>

definition site_enabled :: "resolver \<Rightarrow> string \<Rightarrow> string \<Rightarrow> string \<Rightarrow> bool" where
  "site_enabled rv tenantID siteID mid \<longleftrightarrow>
     (if switchable mid then \<exists>l. local_switches rv tenantID siteID = Some l \<and> mid \<in> set l
      else if identity_module mid then \<exists>l. identity_switches rv tenantID = Some l \<and> mid \<in> set l
      else licensed rv mid)"

definition passes_gates :: "resolver \<Rightarrow> string \<Rightarrow> string \<Rightarrow> string \<Rightarrow> bool" where
  "passes_gates rv tenantID siteID mid \<longleftrightarrow>
     ModuleDeployed (rv_ceiling rv) mid \<and> licensed rv mid \<and> site_enabled rv tenantID siteID mid \<and>
     (\<forall>r details. rv_probes rv mid = Some (r, details) \<longrightarrow> r)"

text \<open>The largest set of modules that pass their gates and whose dependencies are in the set.\<close>

definition effective_spec :: "resolver \<Rightarrow> string \<Rightarrow> string \<Rightarrow> string set" where
  "effective_spec rv tenantID siteID =
     \<Union> {S. dep_closed S \<and> S \<subseteq> {mid. known_module mid \<and> passes_gates rv tenantID siteID mid}}"

lemma resolve_one_effective:
  "ms_Effective (resolve_one rv (local_switches rv tenantID siteID) (identity_switches rv tenantID) spec) \<longleftrightarrow>
   passes_gates rv tenantID siteID (spec_ID spec)"
  by (auto simp: resolve_one_def Let_def passes_gates_def site_enabled_def split: option.splits if_splits)

lemma first_effective:
  "set (effective_ids (first_snapshot rv tenantID siteID)) =
     {mid. known_module mid \<and> passes_gates rv tenantID siteID mid}"
  by (auto simp: effective_ids_def first_snapshot_def known_module_iff resolve_one_effective
      filter_map comp_def)

lemma sort_reasons_simps [simp]:
  "map fst (sort_reasons s) = map fst s" "effective_ids (sort_reasons s) = effective_ids s"
  by (induction s) (auto simp: sort_reasons_def effective_ids_def)

lemma modules_effective:
  assumes "\<And>k xs. set xs \<subseteq> set (ord k xs)"
  shows "snap_Effective (modules_Resolve ord rv tenantID siteID) mid \<longleftrightarrow> mid \<in> effective_spec rv tenantID siteID"
proof -
  have wf: "snap_wf (first_snapshot rv tenantID siteID)" by (rule first_snapshot_wf)
  note loop = dep_loop_result [where ord = ord and k = 0, OF assms wf]
  have "set (effective_ids (modules_Resolve ord rv tenantID siteID)) = effective_spec rv tenantID siteID"
  proof
    show "set (effective_ids (modules_Resolve ord rv tenantID siteID)) \<subseteq> effective_spec rv tenantID siteID"
      using loop(3,4) unfolding effective_spec_def modules_Resolve_def first_effective by auto
    show "effective_spec rv tenantID siteID \<subseteq> set (effective_ids (modules_Resolve ord rv tenantID siteID))"
      unfolding effective_spec_def modules_Resolve_def sort_reasons_simps
      by (rule loop(5)) (auto intro: dep_closed_Union simp: first_effective)
  qed
  moreover have "distinct (map fst (modules_Resolve ord rv tenantID siteID))"
    using loop(1) by (simp add: modules_Resolve_def snap_wf_def)
  ultimately show ?thesis by (simp add: snap_Effective_iff)
qed

lemma effective_specD:
  assumes "mid \<in> effective_spec rv tenantID siteID"
  shows "known_module mid" and "passes_gates rv tenantID siteID mid"
    and "set (requires mid) \<subseteq> effective_spec rv tenantID siteID"
  using assms by (auto simp: effective_spec_def dep_closed_def)

text \<open>A predicate on the entries that putting a module out keeps holds after the loop.\<close>

lemma dep_sweep_entries:
  assumes "\<And>mid st dep. P (mid, st) \<Longrightarrow>
      P (mid, st\<lparr>ms_Effective := False, ms_Reasons := ms_Reasons st @ [ReasonDependency @ '':'' @ dep]\<rparr>)"
    and "\<forall>e \<in> set s. P e"
  shows "\<forall>e \<in> set (dep_sweep ids s). P e"
  using assms(2)
proof (induction ids s rule: dep_sweep.induct)
  case (2 mid ids s)
  have "\<forall>e \<in> set (drop_effective mid dep s). P e" for dep
    using 2(5) assms(1) by (auto simp: drop_effective_def)
  with 2 show ?case by (auto split: option.split)
qed simp

lemma dep_loop_entries:
  assumes "\<And>mid st dep. P (mid, st) \<Longrightarrow>
      P (mid, st\<lparr>ms_Effective := False, ms_Reasons := ms_Reasons st @ [ReasonDependency @ '':'' @ dep]\<rparr>)"
    and "\<forall>e \<in> set s. P e"
  shows "\<forall>e \<in> set (dep_loop ord k s). P e"
  using assms(2)
proof (induction ord k s rule: dep_loop.induct)
  case (1 ord k s)
  define s' where "s' = dep_sweep (ord k (map fst s)) s"
  have s': "\<forall>e \<in> set s'. P e" unfolding s'_def using assms(1) 1(2) by (rule dep_sweep_entries)
  show ?case
  proof (cases "s' = s")
    case True
    then show ?thesis using 1(2) by (subst dep_loop.simps) (simp add: s'_def)
  next
    case False
    then show ?thesis using 1(1) [OF s'_def False s'] by (subst dep_loop.simps) (simp add: s'_def Let_def)
  qed
qed

lemma modules_entries:
  assumes "\<And>mid st dep. P (mid, st) \<Longrightarrow>
      P (mid, st\<lparr>ms_Effective := False, ms_Reasons := ms_Reasons st @ [ReasonDependency @ '':'' @ dep]\<rparr>)"
    and "\<And>mid st. P (mid, st) \<Longrightarrow> P (mid, st\<lparr>ms_Reasons := sort (ms_Reasons st)\<rparr>)"
    and "\<forall>e \<in> set (first_snapshot rv tenantID siteID). P e"
    and "(mid, st) \<in> set (modules_Resolve ord rv tenantID siteID)"
  shows "P (mid, st)"
  using dep_loop_entries [of P "first_snapshot rv tenantID siteID" ord 0, OF assms(1,3)] assms(2,4)
  by (auto simp: modules_Resolve_def sort_reasons_def)

subsection \<open>Properties\<close>


text \<open>Everything on: the environment, the licence and the switches of the witnesses.\<close>

definition sample_getenv :: "string \<Rightarrow> string" where
  "sample_getenv name = (if name \<in> {EnvPhase2Master, EnvPhase2Portal, EnvPhase3Master, EnvPhase4Master,
     EnvPhase4Posting, EnvPhase4Payment} then ''true'' else [])"

definition full_grant :: modules where
  "full_grant = map (\<lambda>mid. (mid, \<lparr>grant_Limits = []\<rparr>))
     [ModuleHospitality, ModulePaidAccess, ModuleRoomCharge, ModuleCardPayment]"

definition sample_manager :: manager where
  "sample_manager = (ap_mgr sample_boot)\<lparr>mg_loaded := True, mg_current := zero_evaluation\<lparr>ev_State := StateActive,
     ev_Doc := Some (sample_doc\<lparr>doc_Modules := Some full_grant\<rparr>)\<rparr>\<rparr>"

definition sample_ceiling :: ceiling where
  "sample_ceiling = ceiling_New \<lparr>cc_MasterEnabled = True, cc_PortalEnabled = True, cc_AdminEnabled = False\<rparr>
     \<lparr>pc_MasterEnabled = True, pc_PMSConnectorEnabled = False, pc_PMSIngestEnabled = False,
      pc_PMSAuthEnabled = False, pc_CheckoutGraceEnabled = False, pc_AdminEnabled = False\<rparr>
     \<lparr>pay_MasterEnabled = True, pay_PaymentEnabled = True, pay_ProviderEnabled = False, pay_RecheckEnabled = False\<rparr>
     \<lparr>MasterEnabled = True, PostingEnabled = True, OutboxEnabled = False, TransmitEnabled = False,
      ReviewEnabled = False\<rparr> False"

definition sample_resolver :: resolver where
  "sample_resolver = \<lparr>rv_ceiling = sample_ceiling, rv_licence = Some sample_manager, rv_ord = (\<lambda>k xs. xs),
     rv_local = Some (Some [ModuleHospitality, ModulePaidAccess, ModuleRoomCharge]),
     rv_identity = Some (Some []), rv_probes = (\<lambda>mid. None), rv_records = (\<lambda>mid. None)\<rparr>"

lemma sample_room_charge_on:
  "snap_Effective (modules_Resolve (\<lambda>k xs. xs) sample_resolver ''T'' ''S'') ModuleRoomCharge"
  by code_simp


lemma read_flag_True: "read_flag get name = Inr True \<Longrightarrow> ParseBool (TrimSpace (get name)) = Some True"
  by (auto simp: read_flag_def Let_def split: if_splits option.splits)

lemma read_flags_nth:
  "read_flags get names = Inr bs \<Longrightarrow> i < length names \<Longrightarrow> read_flag get (names ! i) = Inr (bs ! i)"
proof (induction names arbitrary: bs i)
  case (Cons name names)
  then show ?case by (cases i) (auto split: sum.splits)
qed simp

lemma ceiling_LoadD:
  assumes "ceiling_Load production get = Inr c"
  shows "LoadCommerceConfigFromEnv get = Inr (ce_commerce c)" and "LoadPMSConfigFromEnv get = Inr (ce_pms c)"
    and "LoadConfigFromEnv get = Inr (ce_post c)"
  using assms by (auto simp: ceiling_Load_def Let_def split: sum.splits if_splits)

lemma commerce_master_flag:
  assumes "LoadCommerceConfigFromEnv get = Inr c" and "cc_MasterEnabled c"
  shows "ParseBool (TrimSpace (get EnvPhase2Master)) = Some True"
proof -
  obtain bs where bs: "read_flags get [EnvPhase2Master, EnvPhase2Portal, EnvPhase2Admin] = Inr bs"
    and "bs ! 0" using assms by (auto simp: LoadCommerceConfigFromEnv_def Let_def split: sum.splits option.splits)
  then show ?thesis using read_flags_nth [OF bs, of 0] read_flag_True by simp
qed

lemma pms_master_flag:
  assumes "LoadPMSConfigFromEnv get = Inr c" and "pc_MasterEnabled c"
  shows "ParseBool (TrimSpace (get EnvPhase3Master)) = Some True"
proof -
  obtain bs where bs: "read_flags get [EnvPhase3Master, EnvPhase3PMSConnector, EnvPhase3PMSIngest,
      EnvPhase3PMSAuth, EnvPhase3CheckoutGrace, EnvPhase3Admin] = Inr bs"
    and "bs ! 0" using assms by (auto simp: LoadPMSConfigFromEnv_def Let_def split: sum.splits option.splits)
  then show ?thesis using read_flags_nth [OF bs, of 0] read_flag_True by simp
qed

lemma posting_flags:
  assumes "LoadConfigFromEnv get = Inr c" and "PostingOn c"
  shows "ParseBool (TrimSpace (get EnvPhase4Master)) = Some True"
    and "ParseBool (TrimSpace (get EnvPhase4Posting)) = Some True"
proof -
  let ?raws = "map get [EnvPhase4Master, EnvPhase4Posting, EnvPhase4Outbox, EnvPhase4Transmit, EnvPhase4Review]"
  obtain vs where vs: "parse_flags ?raws = Inr vs" and "vs ! 0" "vs ! 1"
    using assms by (auto simp: LoadConfigFromEnv_def PostingOn_def Let_def split: sum.splits option.splits)
  then show "ParseBool (TrimSpace (get EnvPhase4Master)) = Some True"
    and "ParseBool (TrimSpace (get EnvPhase4Posting)) = Some True"
    using parse_flags_nth [OF vs, of 0] parse_flags_nth [OF vs, of 1] by (auto intro: parseBoolStrict_True)
qed

lemma ModuleEnabled_required:
  assumes "ModuleEnabled ord m mid" and "mg_required m"
  shows "HasUsableLicense m" and "mgr_State m \<in> {StateActive, StateGracePeriod}"
    and "mid \<in> set (mgr_AuthorizedModules ord m)"
  using assms
  by (auto simp: ModuleEnabled_def HasUsableLicense_def mgr_State_def mgr_AuthorizedModules_def FeatureEnabled_def
      split: if_splits option.splits lic_state.splits)

lemma room_charge_requires:
  "requires ModuleRoomCharge = [ModuleHospitality, ModulePaidAccess]"
  by (simp add: requires_def LookupModule_def registry_def module_ids)



text \<open>
  Why a module does not run. A module that may run has no reason against it; a module that may not
  run has one, as long as both sources of switches could be read or both could not.
\<close>

definition reasoned :: "bool \<Rightarrow> string \<times> module_state \<Rightarrow> bool" where
  "reasoned both e \<longleftrightarrow> (ms_Effective (snd e) \<longrightarrow> ms_Reasons (snd e) = []) \<and>
     (both \<longrightarrow> ms_Reasons (snd e) = [] \<longrightarrow> ms_Effective (snd e))"

lemma resolve_one_reasoned:
  "reasoned ((l = None) = (i = None)) (spec_ID spec, resolve_one rv l i spec)"
  by (cases "rv_probes rv (spec_ID spec)")
    (auto simp: reasoned_def resolve_one_def Let_def split: if_splits option.splits)

theorem reasons_exact:
  assumes "(mid, st) \<in> set (modules_Resolve ord rv tenantID siteID)"
  shows "(ms_Effective st \<longrightarrow> ms_Reasons st = []) \<and>
         ((local_switches rv tenantID siteID = None) = (identity_switches rv tenantID = None) \<longrightarrow>
            (ms_Effective st \<longleftrightarrow> ms_Reasons st = []))"
proof -
  define both where "both = ((local_switches rv tenantID siteID = None) = (identity_switches rv tenantID = None))"
  have "reasoned both (mid, st)"
  proof (rule modules_entries [OF _ _ _ assms])
    show "reasoned both (mid, st\<lparr>ms_Effective := False,
        ms_Reasons := ms_Reasons st @ [ReasonDependency @ '':'' @ dep]\<rparr>)" for mid st dep
      by (simp add: reasoned_def)
    show "reasoned both (mid, st\<lparr>ms_Reasons := sort (ms_Reasons st)\<rparr>)" if "reasoned both (mid, st)" for mid st
    proof -
      have "sort (ms_Reasons st) = [] \<longleftrightarrow> ms_Reasons st = []" by (metis set_empty set_sort)
      then show ?thesis using that by (simp add: reasoned_def)
    qed
    show "\<forall>e \<in> set (first_snapshot rv tenantID siteID). reasoned both e"
      by (auto simp: first_snapshot_def both_def resolve_one_reasoned)
  qed
  then show ?thesis by (auto simp: reasoned_def both_def)
qed

text \<open>
  The exception is real: a module the site switched off has no reason at all when only the sign-in
  switches cannot be read.
\<close>

lemma off_without_reason:
  "let st = resolve_one (sample_resolver\<lparr>rv_local := Some (Some [])\<rparr>) (Some []) None
              \<lparr>spec_ID = ModuleHospitality, spec_Label = [], spec_Requires = []\<rparr>
   in \<not> ms_Effective st \<and> ms_Reasons st = []"
  by code_simp

end
