(* ===== verification/Shape_Plan.thy ===== *)
theory Shape_Plan
  imports Prelude "HOL-Library.Multiset"
begin

text \<open>
  The wire contract between acctd, which derives what every guest session may do, and netd, the
  only process that writes it into the kernel (\<open>data-plane/internal/shapeplan\<close>,
  \<open>data-plane/internal/shapeproducer\<close>): the envelope, its order-independent hash, the refusal
  order of \<open>Validate\<close>, the continuity block with its own hash and checks, and \<open>BuildEnvelope\<close>.

  SHA-256 with its hexadecimal encoding is the parameter \<open>sha\<close>, the RFC 3339 rendering of an
  instant in UTC is the parameter \<open>fmt\<close>.
\<close>

section \<open>Data\<close>

definition ContractVersion :: string where
  "ContractVersion = ''phase3-shaping/2''"

record plan_session =
  ps_SessionID :: string
  ps_DeviceID :: string
  ps_IP :: string
  ps_Bridge :: string
  ps_DownKbps :: int
  ps_UpKbps :: int
  ps_Entitled :: bool
  ps_AccessEndsAt :: "go_time option"
  ps_EndReason :: string
  ps_MAC :: string
  ps_EntitlementID :: string
  ps_SpeedAllocation :: string
  ps_ObservedEpoch :: int
  ps_ObservedUp :: int
  ps_ObservedDown :: int

record cont_session =
  cs_SessionID :: string
  cs_HardEnd :: "go_time option"

record cont_budget =
  cb_EntitlementID :: string
  cb_RemainingBytes :: int

record continuity =
  cn_WindowSeconds :: int
  cn_AsOf :: go_time
  cn_Sessions :: "cont_session list"
  cn_Budgets :: "cont_budget list"
  cn_ContentsHash :: string

record plan_envelope =
  pe_ContractVersion :: string
  pe_TenantID :: string
  pe_SiteID :: string
  pe_ApplianceID :: string
  pe_AssignmentID :: string
  pe_AssignmentGen :: int
  pe_ProducerRuntimeGen :: int
  pe_PlanGeneration :: int
  pe_GeneratedAt :: go_time
  pe_ExpiresAt :: go_time
  pe_ManagedBridges :: "string list"
  pe_Sessions :: "plan_session list"
  pe_DesiredStateHash :: string
  pe_Continuity :: "continuity option"

record plan_scope =
  sc_TenantID :: string
  sc_SiteID :: string
  sc_ApplianceID :: string
  sc_AssignGen :: int

record accepted =
  ac_Generation :: int
  ac_Hash :: string
  ac_TenantID :: string
  ac_SiteID :: string
  ac_AcceptedAt :: go_time
  ac_ExpiresAt :: go_time

section \<open>The hash of the desired state\<close>

definition US :: char where "US = CHR 0x1F"

definition RS :: char where "RS = CHR 0x1E"

lemma US_RS [simp]: "US \<noteq> RS" "RS \<noteq> US"
  by (simp_all add: US_def RS_def)

definition FormatBool :: "bool \<Rightarrow> string" where
  "FormatBool b = (if b then ''true'' else ''false'')"

definition time_field :: "(go_time \<Rightarrow> string) \<Rightarrow> go_time option \<Rightarrow> string" where
  "time_field fmt t = (case t of None \<Rightarrow> '''' | Some x \<Rightarrow> fmt x)"

definition bridge_row :: "string \<Rightarrow> string" where
  "bridge_row b = CHR ''B'' # US # b"

definition session_row :: "(go_time \<Rightarrow> string) \<Rightarrow> plan_session \<Rightarrow> string" where
  "session_row fmt s = Join US
     [''S'', ps_SessionID s, ps_DeviceID s, ps_IP s, ps_Bridge s,
      Itoa (ps_DownKbps s), Itoa (ps_UpKbps s), FormatBool (ps_Entitled s),
      time_field fmt (ps_AccessEndsAt s),
      ps_EndReason s, ps_MAC s, ps_EntitlementID s, ps_SpeedAllocation s]"

definition state_rows :: "(go_time \<Rightarrow> string) \<Rightarrow> string list \<Rightarrow> plan_session list \<Rightarrow> string list" where
  "state_rows fmt bridges sessions = map bridge_row bridges @ map (session_row fmt) sessions"

definition canonical_state :: "(go_time \<Rightarrow> string) \<Rightarrow> string list \<Rightarrow> plan_session list \<Rightarrow> string" where
  "canonical_state fmt bridges sessions = Join RS (sort (state_rows fmt bridges sessions))"

definition HashDesiredState ::
  "(string \<Rightarrow> string) \<Rightarrow> (go_time \<Rightarrow> string) \<Rightarrow> string list \<Rightarrow> plan_session list \<Rightarrow> string" where
  "HashDesiredState sha fmt bridges sessions = sha (canonical_state fmt bridges sessions)"

section \<open>Validation\<close>

definition name_char :: "char \<Rightarrow> bool" where
  "name_char c \<longleftrightarrow> is_lower c \<or> is_upper c \<or> is_digit c"

definition name_inner_char :: "char \<Rightarrow> bool" where
  "name_inner_char c \<longleftrightarrow> name_char c \<or> c = CHR ''.'' \<or> c = CHR ''_'' \<or> c = CHR ''-''"

definition validBridgeName :: "string \<Rightarrow> bool" where
  "validBridgeName s = (case s of
     [] \<Rightarrow> False
   | c # cs \<Rightarrow> length s \<le> 15 \<and> name_char c \<and> list_all name_inner_char cs)"

datatype plan_reason =
    ReasonUnsupportedContract | ReasonWrongTenant | ReasonWrongSite | ReasonWrongAppliance
  | ReasonStaleAssignment | ReasonInvalidGeneration | ReasonExpiredPlan | ReasonHashMismatch
  | ReasonNoManagedBridges | ReasonStaleGeneration | ReasonGenerationConflict | ReasonBadBridgeName

text \<open>\<open>Validate\<close> returns the refusal, or nothing when the plan is accepted; \<open>prior\<close> is the
  \<open>Accepted\<close> record when \<open>hasLast\<close>.\<close>

definition plan_Validate ::
  "(string \<Rightarrow> string) \<Rightarrow> (go_time \<Rightarrow> string) \<Rightarrow> plan_envelope \<Rightarrow> plan_scope \<Rightarrow> accepted option
     \<Rightarrow> go_time \<Rightarrow> plan_reason option" where
  "plan_Validate sha fmt env scope prior now =
    (if pe_ContractVersion env \<noteq> ContractVersion then Some ReasonUnsupportedContract
     else if pe_TenantID env = '''' \<or> pe_TenantID env \<noteq> sc_TenantID scope then Some ReasonWrongTenant
     else if pe_SiteID env = '''' \<or> pe_SiteID env \<noteq> sc_SiteID scope then Some ReasonWrongSite
     else if pe_ApplianceID env = '''' \<or> pe_ApplianceID env \<noteq> sc_ApplianceID scope
       then Some ReasonWrongAppliance
     else if pe_AssignmentGen env < sc_AssignGen scope then Some ReasonStaleAssignment
     else if pe_PlanGeneration env \<le> 0 then Some ReasonInvalidGeneration
     else if pe_ExpiresAt env = 0 \<or> \<not> now < pe_ExpiresAt env then Some ReasonExpiredPlan
     else if pe_ManagedBridges env = [] then Some ReasonNoManagedBridges
     else if pe_DesiredStateHash env \<noteq> HashDesiredState sha fmt (pe_ManagedBridges env) (pe_Sessions env)
       then Some ReasonHashMismatch
     else if list_ex (\<lambda>b. b \<noteq> '''' \<and> \<not> validBridgeName b) (pe_ManagedBridges env)
       then Some ReasonBadBridgeName
     else (case prior of
         None \<Rightarrow> None
       | Some l \<Rightarrow>
           if pe_PlanGeneration env < ac_Generation l then Some ReasonStaleGeneration
           else if pe_PlanGeneration env = ac_Generation l \<and> pe_DesiredStateHash env \<noteq> ac_Hash l
             then Some ReasonGenerationConflict
           else None))"

section \<open>The continuity block\<close>

definition MaxContinuityWindowSeconds :: int where
  "MaxContinuityWindowSeconds = 120 * 60"

definition MaxBudgetAge :: duration where
  "MaxBudgetAge = 2 * minute"

definition window_row :: "(go_time \<Rightarrow> string) \<Rightarrow> continuity \<Rightarrow> string" where
  "window_row fmt c = Join US [''W'', Itoa (cn_WindowSeconds c), fmt (cn_AsOf c)]"

definition cont_session_row :: "(go_time \<Rightarrow> string) \<Rightarrow> cont_session \<Rightarrow> string" where
  "cont_session_row fmt s = Join US [''S'', cs_SessionID s, time_field fmt (cs_HardEnd s)]"

definition cont_budget_row :: "cont_budget \<Rightarrow> string" where
  "cont_budget_row b = Join US [''B'', cb_EntitlementID b, Itoa (cb_RemainingBytes b)]"

definition cont_rows :: "(go_time \<Rightarrow> string) \<Rightarrow> continuity \<Rightarrow> string list" where
  "cont_rows fmt c = window_row fmt c # map (cont_session_row fmt) (cn_Sessions c)
                       @ map cont_budget_row (cn_Budgets c)"

definition canonical_continuity :: "(go_time \<Rightarrow> string) \<Rightarrow> continuity \<Rightarrow> string" where
  "canonical_continuity fmt c = Join RS (sort (cont_rows fmt c))"

definition HashContinuity :: "(string \<Rightarrow> string) \<Rightarrow> (go_time \<Rightarrow> string) \<Rightarrow> continuity \<Rightarrow> string" where
  "HashContinuity sha fmt c = sha (canonical_continuity fmt c)"

datatype cont_reason =
    ReasonContinuityHash | ReasonContinuityWindow | ReasonContinuityStale | ReasonContinuityFuture

definition OffContinuity :: "(string \<Rightarrow> string) \<Rightarrow> (go_time \<Rightarrow> string) \<Rightarrow> go_time \<Rightarrow> continuity" where
  "OffContinuity sha fmt now =
    (let c = \<lparr>cn_WindowSeconds = 0, cn_AsOf = now, cn_Sessions = [], cn_Budgets = [], cn_ContentsHash = ''''\<rparr>
     in c\<lparr>cn_ContentsHash := HashContinuity sha fmt c\<rparr>)"

definition IsOff :: "(string \<Rightarrow> string) \<Rightarrow> (go_time \<Rightarrow> string) \<Rightarrow> continuity \<Rightarrow> bool" where
  "IsOff sha fmt c \<longleftrightarrow> cn_WindowSeconds c = 0 \<and> cn_Sessions c = [] \<and> cn_Budgets c = []
     \<and> cn_ContentsHash c = HashContinuity sha fmt c"

definition ValidateContinuity ::
  "(string \<Rightarrow> string) \<Rightarrow> (go_time \<Rightarrow> string) \<Rightarrow> continuity \<Rightarrow> go_time \<Rightarrow> cont_reason option" where
  "ValidateContinuity sha fmt c now =
    (if cn_WindowSeconds c \<le> 0 \<or> MaxContinuityWindowSeconds < cn_WindowSeconds c
       then Some ReasonContinuityWindow
     else if cn_ContentsHash c \<noteq> HashContinuity sha fmt c then Some ReasonContinuityHash
     else if now + 30 * second < cn_AsOf c then Some ReasonContinuityFuture
     else if MaxBudgetAge < time_sub now (cn_AsOf c) then Some ReasonContinuityStale
     else None)"

section \<open>The producer\<close>

record session_shape =
  ss_SessionID :: string
  ss_EntitlementID :: string
  ss_DeviceID :: string
  ss_IP :: string
  ss_MAC :: string
  ss_Bridge :: string
  ss_DownKbps :: int
  ss_UpKbps :: int
  ss_WindowEndsAt :: "go_time option"
  ss_SpeedAllocation :: string
  ss_EndReason :: string

record enforce_plan =
  pl_Shape :: "session_shape list"
  pl_Tear :: "session_shape list"

record producer_scope =
  pr_TenantID :: string
  pr_SiteID :: string
  pr_ApplianceID :: string
  pr_AssignmentID :: string
  pr_AssignmentGen :: int

definition bridgeOf :: "string \<Rightarrow> string \<Rightarrow> string" where
  "bridgeOf fallback b = (if b \<noteq> '''' then b else fallback)"

definition torn_session :: "string \<Rightarrow> session_shape \<Rightarrow> plan_session" where
  "torn_session fallback s =
    \<lparr>ps_SessionID = ss_SessionID s, ps_DeviceID = ss_DeviceID s, ps_IP = ss_IP s,
     ps_Bridge = bridgeOf fallback (ss_Bridge s), ps_DownKbps = 0, ps_UpKbps = 0, ps_Entitled = False,
     ps_AccessEndsAt = None, ps_EndReason = ss_EndReason s, ps_MAC = ss_MAC s,
     ps_EntitlementID = ss_EntitlementID s, ps_SpeedAllocation = '''',
     ps_ObservedEpoch = 0, ps_ObservedUp = 0, ps_ObservedDown = 0\<rparr>"

definition shaped_session :: "string \<Rightarrow> session_shape \<Rightarrow> plan_session" where
  "shaped_session fallback s =
    \<lparr>ps_SessionID = ss_SessionID s, ps_DeviceID = ss_DeviceID s, ps_IP = ss_IP s,
     ps_Bridge = bridgeOf fallback (ss_Bridge s), ps_DownKbps = ss_DownKbps s, ps_UpKbps = ss_UpKbps s,
     ps_Entitled = True, ps_AccessEndsAt = ss_WindowEndsAt s, ps_EndReason = '''', ps_MAC = ss_MAC s,
     ps_EntitlementID = ss_EntitlementID s, ps_SpeedAllocation = ss_SpeedAllocation s,
     ps_ObservedEpoch = 0, ps_ObservedUp = 0, ps_ObservedDown = 0\<rparr>"

definition plan_sessions :: "string \<Rightarrow> enforce_plan \<Rightarrow> plan_session list" where
  "plan_sessions fallback plan =
     map (torn_session fallback) (pl_Tear plan) @ map (shaped_session fallback) (pl_Shape plan)"

definition declared_bridges :: "string list \<Rightarrow> plan_session list \<Rightarrow> string \<Rightarrow> string list" where
  "declared_bridges managed sessions fallback =
     sorted_keys (filter (\<lambda>b. b \<noteq> '''') (managed @ map ps_Bridge sessions @ [fallback]))"

definition BuildEnvelope ::
  "(string \<Rightarrow> string) \<Rightarrow> (go_time \<Rightarrow> string) \<Rightarrow> enforce_plan \<Rightarrow> producer_scope \<Rightarrow> int \<Rightarrow> int
     \<Rightarrow> string list \<Rightarrow> string \<Rightarrow> go_time \<Rightarrow> duration \<Rightarrow> plan_envelope" where
  "BuildEnvelope sha fmt plan scope planGen runtimeGen managed fallback now validity =
    (let sessions = plan_sessions fallback plan;
         bridges = declared_bridges managed sessions fallback
     in \<lparr>pe_ContractVersion = ContractVersion, pe_TenantID = pr_TenantID scope, pe_SiteID = pr_SiteID scope,
         pe_ApplianceID = pr_ApplianceID scope, pe_AssignmentID = pr_AssignmentID scope,
         pe_AssignmentGen = pr_AssignmentGen scope, pe_ProducerRuntimeGen = runtimeGen,
         pe_PlanGeneration = planGen, pe_GeneratedAt = now, pe_ExpiresAt = now + validity,
         pe_ManagedBridges = bridges, pe_Sessions = sessions,
         pe_DesiredStateHash = HashDesiredState sha fmt bridges sessions, pe_Continuity = None\<rparr>)"

section \<open>What the hash binds\<close>

subsection \<open>Fields, rows and their separators\<close>

definition plain :: "string \<Rightarrow> bool" where
  "plain s \<longleftrightarrow> US \<notin> set s \<and> RS \<notin> set s"

definition plain_session :: "plan_session \<Rightarrow> bool" where
  "plain_session s \<longleftrightarrow> plain (ps_SessionID s) \<and> plain (ps_DeviceID s) \<and> plain (ps_IP s)
     \<and> plain (ps_Bridge s) \<and> plain (ps_EndReason s) \<and> plain (ps_MAC s)
     \<and> plain (ps_EntitlementID s) \<and> plain (ps_SpeedAllocation s)"

text \<open>What the hash covers of a session: everything but the three retired counters.\<close>

definition hashed_session :: "plan_session \<Rightarrow> plan_session" where
  "hashed_session s = s\<lparr>ps_ObservedEpoch := 0, ps_ObservedUp := 0, ps_ObservedDown := 0\<rparr>"

text \<open>The documented behaviour of the instant format: it separates instants, is never empty and
  prints no control character.\<close>

definition instant_format :: "(go_time \<Rightarrow> string) \<Rightarrow> bool" where
  "instant_format fmt \<longleftrightarrow> inj fmt \<and> (\<forall>t. fmt t \<noteq> '''' \<and> plain (fmt t))"

definition no_collision :: "(string \<Rightarrow> string) \<Rightarrow> string \<Rightarrow> string \<Rightarrow> bool" where
  "no_collision sha a b \<longleftrightarrow> (sha a = sha b \<longrightarrow> a = b)"

lemma plain_Itoa [simp]: "plain (Itoa i)"
  using Itoa_chars [of "CHR 0x1F" i] Itoa_chars [of "CHR 0x1E" i]
  by (auto simp: plain_def US_def RS_def is_digit_def)

lemma plain_FormatBool [simp]: "plain (FormatBool b)"
  by (simp add: plain_def FormatBool_def US_def RS_def)

lemma plain_literals [simp]: "plain ''S''" "plain ''W''" "plain ''B''" "plain ''''"
  by (simp_all add: plain_def US_def RS_def)

lemma plain_time_field [simp]: "instant_format fmt \<Longrightarrow> plain (time_field fmt t)"
  by (auto simp: instant_format_def time_field_def split: option.split)

lemma FormatBool_inject [simp]: "FormatBool a = FormatBool b \<longleftrightarrow> a = b"
  by (auto simp: FormatBool_def)

lemma fmt_inject: "instant_format fmt \<Longrightarrow> fmt a = fmt b \<longleftrightarrow> a = b"
  by (auto simp: instant_format_def inj_def)

lemma time_field_inject: "instant_format fmt \<Longrightarrow> time_field fmt a = time_field fmt b \<longleftrightarrow> a = b"
  unfolding time_field_def
  by (cases a; cases b) (simp_all add: fmt_inject, (metis instant_format_def)+)

lemma Join_US_inject:
  assumes "list_all plain xs" and "list_all plain ys" and "xs \<noteq> []" and "ys \<noteq> []"
  shows "Join US xs = Join US ys \<longleftrightarrow> xs = ys"
  using assms Join_inject [of US xs ys] by (auto simp: list_all_iff plain_def)

lemma RS_notin_Join_US: "list_all plain xs \<Longrightarrow> RS \<notin> set (Join US xs)"
  using Join_set [of US xs] by (auto simp: list_all_iff plain_def)

lemma bridge_row_Join: "bridge_row b = Join US [''B'', b]"
  by (simp add: bridge_row_def)

lemma session_row_inject:
  assumes "instant_format fmt" and "plain_session a" and "plain_session b"
  shows "session_row fmt a = session_row fmt b \<longleftrightarrow> hashed_session a = hashed_session b"
proof -
  have "session_row fmt a = session_row fmt b \<longleftrightarrow>
    [''S'', ps_SessionID a, ps_DeviceID a, ps_IP a, ps_Bridge a,
      Itoa (ps_DownKbps a), Itoa (ps_UpKbps a), FormatBool (ps_Entitled a),
      time_field fmt (ps_AccessEndsAt a),
      ps_EndReason a, ps_MAC a, ps_EntitlementID a, ps_SpeedAllocation a] =
    [''S'', ps_SessionID b, ps_DeviceID b, ps_IP b, ps_Bridge b,
      Itoa (ps_DownKbps b), Itoa (ps_UpKbps b), FormatBool (ps_Entitled b),
      time_field fmt (ps_AccessEndsAt b),
      ps_EndReason b, ps_MAC b, ps_EntitlementID b, ps_SpeedAllocation b]"
    unfolding session_row_def using assms
    by (intro Join_US_inject) (simp_all add: plain_session_def)
  also have "\<dots> \<longleftrightarrow> hashed_session a = hashed_session b"
    using assms(1)
    by (cases a; cases b) (auto simp: hashed_session_def Itoa_inject time_field_inject)
  finally show ?thesis .
qed

subsection \<open>The multiset of rows\<close>

lemma sort_Nil_iff [simp]: "sort xs = [] \<longleftrightarrow> xs = []"
  by (metis length_0_conv length_sort)

lemma Join_rows_inject:
  assumes "Join RS (sort xs) = Join RS (sort ys)"
    and "\<forall>x \<in> set xs \<union> set ys. RS \<notin> set x \<and> x \<noteq> []"
  shows "mset xs = mset ys"
proof (cases "xs = [] \<or> ys = []")
  case True
  with assms have "xs = [] \<and> ys = []"
    using Join_Nil_iff [of "sort xs" RS] Join_Nil_iff [of "sort ys" RS] by auto
  then show ?thesis by simp
next
  case False
  with assms have "sort xs = sort ys"
    by (intro Join_inject) auto
  then show ?thesis by (metis mset_sort)
qed

lemma mset_map_inject:
  assumes "mset (map f xs) = mset (map f ys)"
    and "\<And>x y. x \<in> set xs \<Longrightarrow> y \<in> set ys \<Longrightarrow> f x = f y \<Longrightarrow> g x = g y"
  shows "mset (map g xs) = mset (map g ys)"
  using assms
proof (induction xs arbitrary: ys)
  case Nil
  then show ?case by simp
next
  case (Cons x xs)
  then have "f x \<in> set (map f ys)"
    by (metis list.set_intros(1) list.simps(9) mset_eq_setD)
  then obtain y us vs where ys: "ys = us @ y # vs" "f x = f y"
    by (metis (no_types, lifting) image_iff list.set_map split_list)
  have "mset (map f xs) = mset (map f (us @ vs))"
    using Cons.prems(1) ys by simp
  then have "mset (map g xs) = mset (map g (us @ vs))"
    using Cons.prems(2) ys(1) by (intro Cons.IH) auto
  moreover have "g x = g y" using Cons.prems(2) ys by auto
  ultimately show ?case using ys(1) by simp
qed

lemma mset_split_heads:
  assumes "mset (xs @ ys) = mset (xs' @ ys')"
    and "\<forall>x \<in> set xs \<union> set xs'. P x" and "\<forall>y \<in> set ys \<union> set ys'. \<not> P y"
  shows "mset xs = mset xs'" and "mset ys = mset ys'"
proof -
  have *: "filter_mset P (mset (us @ vs)) = mset us"
    if "\<forall>x \<in> set us. P x" "\<forall>y \<in> set vs. \<not> P y" for us vs
    using that by (simp flip: mset_filter)
  then show xs: "mset xs = mset xs'"
    using assms * [of xs ys] * [of xs' ys'] by auto
  then show "mset ys = mset ys'" using assms(1) by simp
qed

lemma row_head [simp]: "hd (bridge_row b) = CHR ''B''" "hd (session_row fmt s) = CHR ''S''"
  by (simp_all add: bridge_row_def session_row_def)

lemma row_ne [simp]: "bridge_row b \<noteq> []" "session_row fmt s \<noteq> []"
  by (simp_all add: bridge_row_def session_row_def)

lemma state_rows_separate:
  assumes "instant_format fmt" and "list_all plain bs" and "list_all plain_session ss"
    and "x \<in> set (state_rows fmt bs ss)"
  shows "RS \<notin> set x \<and> x \<noteq> []"
proof -
  have "RS \<notin> set (bridge_row b)" if "b \<in> set bs" for b
    unfolding bridge_row_Join using that assms(2) by (intro RS_notin_Join_US) (simp add: list_all_iff)
  moreover have "RS \<notin> set (session_row fmt s)" if "s \<in> set ss" for s
    unfolding session_row_def using that assms(1,3)
    by (intro RS_notin_Join_US) (simp add: list_all_iff plain_session_def)
  ultimately show ?thesis
    using assms(4) by (auto simp: state_rows_def)
qed

lemma canonical_state_binds:
  assumes fmt: "instant_format fmt"
    and bs: "list_all plain bs" "list_all plain bs'"
    and ss: "list_all plain_session ss" "list_all plain_session ss'"
    and eq: "canonical_state fmt bs ss = canonical_state fmt bs' ss'"
  shows "mset bs = mset bs'" and "mset (map hashed_session ss) = mset (map hashed_session ss')"
proof -
  have "mset (state_rows fmt bs ss) = mset (state_rows fmt bs' ss')"
    using eq state_rows_separate [OF fmt bs(1) ss(1)] state_rows_separate [OF fmt bs(2) ss(2)]
    unfolding canonical_state_def by (intro Join_rows_inject) auto
  then have *: "mset (map bridge_row bs) = mset (map bridge_row bs')"
    "mset (map (session_row fmt) ss) = mset (map (session_row fmt) ss')"
    unfolding state_rows_def
    by (rule mset_split_heads [where P = "\<lambda>x. hd x = CHR ''B''"];
        auto)+
  show "mset bs = mset bs'"
    using mset_map_inject [OF *(1), of "\<lambda>b. b"] by (simp add: bridge_row_def)
  show "mset (map hashed_session ss) = mset (map hashed_session ss')"
    using ss fmt by (intro mset_map_inject [OF *(2)]) (auto simp: list_all_iff session_row_inject)
qed

lemma HashDesiredState_order:
  assumes "mset bs = mset bs'" and "mset ss = mset ss'"
  shows "HashDesiredState sha fmt bs ss = HashDesiredState sha fmt bs' ss'"
proof -
  have "mset (state_rows fmt bs ss) = mset (state_rows fmt bs' ss')"
    using assms by (simp add: state_rows_def)
  then show ?thesis
    unfolding HashDesiredState_def canonical_state_def by (metis properties_for_sort mset_sort sorted_sort)
qed

text \<open>
  Two desired states have the same hash exactly when they declare the same managed bridges and
  the same sessions, whatever the order of either list: reordering never changes the hash, and
  dropping, adding or altering a bridge or any enforced field of a session always does (for field
  values free of the two separators, an instant format that separates instants, and no SHA-256
  collision between the two canonical texts).
\<close>
theorem hash_binds_state:
  assumes "instant_format fmt"
    and "list_all plain bs" and "list_all plain bs'"
    and "list_all plain_session ss" and "list_all plain_session ss'"
    and "no_collision sha (canonical_state fmt bs ss) (canonical_state fmt bs' ss')"
  shows "HashDesiredState sha fmt bs ss = HashDesiredState sha fmt bs' ss' \<longleftrightarrow>
         mset bs = mset bs' \<and> mset (map hashed_session ss) = mset (map hashed_session ss')"
proof
  assume "HashDesiredState sha fmt bs ss = HashDesiredState sha fmt bs' ss'"
  then have "canonical_state fmt bs ss = canonical_state fmt bs' ss'"
    using assms(6) by (simp add: HashDesiredState_def no_collision_def)
  then show "mset bs = mset bs' \<and> mset (map hashed_session ss) = mset (map hashed_session ss')"
    using canonical_state_binds assms by blast
next
  have row: "session_row fmt (hashed_session s) = session_row fmt s" for s
    by (simp add: session_row_def hashed_session_def)
  have "HashDesiredState sha fmt b (map hashed_session s) = HashDesiredState sha fmt b s" for b s
    by (simp add: HashDesiredState_def canonical_state_def state_rows_def row comp_def)
  then show "mset bs = mset bs' \<and> mset (map hashed_session ss) = mset (map hashed_session ss')
    \<Longrightarrow> HashDesiredState sha fmt bs ss = HashDesiredState sha fmt bs' ss'"
    by (metis HashDesiredState_order)
qed

definition example_session :: "string \<Rightarrow> int \<Rightarrow> plan_session" where
  "example_session i down =
    \<lparr>ps_SessionID = i, ps_DeviceID = ''d'', ps_IP = ''10.0.0.9'', ps_Bridge = ''br10'', ps_DownKbps = down,
     ps_UpKbps = 512, ps_Entitled = True, ps_AccessEndsAt = Some 7, ps_EndReason = '''', ps_MAC = '''',
     ps_EntitlementID = ''e'', ps_SpeedAllocation = ''PER_DEVICE'', ps_ObservedEpoch = 0, ps_ObservedUp = 0,
     ps_ObservedDown = 0\<rparr>"

lemma instant_format_Itoa: "instant_format Itoa"
proof -
  have "Itoa t \<noteq> ''''" for t by (simp add: Itoa_def)
  then show ?thesis by (simp add: instant_format_def inj_def Itoa_inject)
qed

lemma plain_example: "plain_session (example_session ''s1'' d)" "plain_session (example_session ''s2'' d)"
  by (simp_all add: plain_session_def example_session_def plain_def US_def RS_def)

theorem hash_binds_state_witness:
  "HashDesiredState id Itoa [''br10''] [example_session ''s1'' 1024] \<noteq>
   HashDesiredState id Itoa [''br10''] [example_session ''s1'' 2048]"
  using hash_binds_state [of Itoa "[''br10'']" "[''br10'']" "[example_session ''s1'' 1024]"
      "[example_session ''s1'' 2048]" id] instant_format_Itoa plain_example
  by (simp add: no_collision_def plain_def US_def RS_def) (simp add: example_session_def hashed_session_def)

section \<open>What the applier accepts\<close>

lemma plan_Validate_None_iff:
  "plan_Validate sha fmt env scope prior now = None \<longleftrightarrow>
     pe_ContractVersion env = ContractVersion
   \<and> pe_TenantID env \<noteq> '''' \<and> pe_TenantID env = sc_TenantID scope
   \<and> pe_SiteID env \<noteq> '''' \<and> pe_SiteID env = sc_SiteID scope
   \<and> pe_ApplianceID env \<noteq> '''' \<and> pe_ApplianceID env = sc_ApplianceID scope
   \<and> sc_AssignGen scope \<le> pe_AssignmentGen env
   \<and> 0 < pe_PlanGeneration env
   \<and> pe_ExpiresAt env \<noteq> 0 \<and> now < pe_ExpiresAt env
   \<and> pe_ManagedBridges env \<noteq> []
   \<and> pe_DesiredStateHash env = HashDesiredState sha fmt (pe_ManagedBridges env) (pe_Sessions env)
   \<and> (\<forall>b \<in> set (pe_ManagedBridges env). b = '''' \<or> validBridgeName b)
   \<and> (\<forall>l. prior = Some l \<longrightarrow> ac_Generation l \<le> pe_PlanGeneration env
        \<and> (pe_PlanGeneration env = ac_Generation l \<longrightarrow> pe_DesiredStateHash env = ac_Hash l))"
  unfolding plan_Validate_def by (cases prior) (auto simp: list_ex_iff)

lemma validBridgeName_plain: "validBridgeName b \<Longrightarrow> plain b"
proof -
  have *: "\<not> name_inner_char US" "\<not> name_inner_char RS"
    by (simp_all add: name_inner_char_def name_char_def is_lower_def is_upper_def is_digit_def US_def RS_def)
  assume "validBridgeName b"
  then have "\<forall>c \<in> set b. name_inner_char c"
    by (auto simp: validBridgeName_def name_inner_char_def list_all_iff split: list.splits)
  with * show ?thesis by (auto simp: plain_def)
qed

lemma validBridgeName_first: "validBridgeName b \<Longrightarrow> hd b \<noteq> CHR ''-'' \<and> hd b \<noteq> CHR ''.'' \<and> length b \<le> 15"
  by (auto simp: validBridgeName_def name_char_def is_lower_def is_upper_def is_digit_def split: list.splits)

lemma set_declared_bridges:
  "set (declared_bridges managed sessions fallback) =
     {b. b \<noteq> '''' \<and> (b \<in> set managed \<or> b \<in> ps_Bridge ` set sessions \<or> b = fallback)}"
  by (auto simp: declared_bridges_def)

lemma plan_sessions_bridges:
  "ps_Bridge ` set (plan_sessions fallback plan) =
     (\<lambda>s. bridgeOf fallback (ss_Bridge s)) ` (set (pl_Tear plan) \<union> set (pl_Shape plan))"
  by (auto simp: plan_sessions_def torn_session_def shaped_session_def image_Un image_image)


definition example_pscope :: producer_scope where
  "example_pscope = \<lparr>pr_TenantID = ''t'', pr_SiteID = ''s'', pr_ApplianceID = ''a'', pr_AssignmentID = ''x'',
     pr_AssignmentGen = 3\<rparr>"

definition example_scope :: plan_scope where
  "example_scope = \<lparr>sc_TenantID = ''t'', sc_SiteID = ''s'', sc_ApplianceID = ''a'', sc_AssignGen = 2\<rparr>"


section \<open>What the continuity hash binds\<close>

definition plain_cont :: "continuity \<Rightarrow> bool" where
  "plain_cont c \<longleftrightarrow> list_all (\<lambda>s. plain (cs_SessionID s)) (cn_Sessions c)
     \<and> list_all (\<lambda>b. plain (cb_EntitlementID b)) (cn_Budgets c)"

lemma cont_row_head [simp]:
  "hd (window_row fmt c) = CHR ''W''" "hd (cont_session_row fmt s) = CHR ''S''"
  "hd (cont_budget_row b) = CHR ''B''"
  by (simp_all add: window_row_def cont_session_row_def cont_budget_row_def)

lemma cont_row_ne [simp]: "window_row fmt c \<noteq> []" "cont_session_row fmt s \<noteq> []" "cont_budget_row b \<noteq> []"
  by (simp_all add: window_row_def cont_session_row_def cont_budget_row_def)

lemma window_row_inject:
  "instant_format fmt \<Longrightarrow> window_row fmt a = window_row fmt b \<longleftrightarrow>
     cn_WindowSeconds a = cn_WindowSeconds b \<and> cn_AsOf a = cn_AsOf b"
  unfolding window_row_def
  by (subst Join_US_inject) (auto simp: Itoa_inject fmt_inject instant_format_def)

lemma cont_session_row_inject:
  assumes "instant_format fmt" and "plain (cs_SessionID a)" and "plain (cs_SessionID b)"
  shows "cont_session_row fmt a = cont_session_row fmt b \<longleftrightarrow> a = b"
  unfolding cont_session_row_def using assms
  by (subst Join_US_inject) (auto simp: time_field_inject)

lemma cont_budget_row_inject:
  assumes "plain (cb_EntitlementID a)" and "plain (cb_EntitlementID b)"
  shows "cont_budget_row a = cont_budget_row b \<longleftrightarrow> a = b"
  unfolding cont_budget_row_def using assms
  by (subst Join_US_inject) (auto simp: Itoa_inject)

lemma cont_rows_separate:
  assumes "instant_format fmt" and "plain_cont c" and "x \<in> set (cont_rows fmt c)"
  shows "RS \<notin> set x \<and> x \<noteq> []"
proof -
  have "RS \<notin> set (window_row fmt c)"
    unfolding window_row_def using assms(1) by (intro RS_notin_Join_US) (simp add: instant_format_def)
  moreover have "RS \<notin> set (cont_session_row fmt s)" if "s \<in> set (cn_Sessions c)" for s
    unfolding cont_session_row_def using assms that
    by (intro RS_notin_Join_US) (simp add: plain_cont_def list_all_iff)
  moreover have "RS \<notin> set (cont_budget_row b)" if "b \<in> set (cn_Budgets c)" for b
    unfolding cont_budget_row_def using assms that
    by (intro RS_notin_Join_US) (simp add: plain_cont_def list_all_iff)
  ultimately show ?thesis using assms(3) by (auto simp: cont_rows_def)
qed

text \<open>
  the hash of a continuity block binds all of it: two blocks with the same hash have the same
  window, the same reference instant and the same session bounds and byte budgets up to order, so
  a block truncated or altered on the way is refused as a block.
\<close>
theorem hash_binds_continuity:
  assumes fmt: "instant_format fmt" and plain: "plain_cont c" "plain_cont c'"
    and "no_collision sha (canonical_continuity fmt c) (canonical_continuity fmt c')"
    and "HashContinuity sha fmt c = HashContinuity sha fmt c'"
  shows "cn_WindowSeconds c = cn_WindowSeconds c' \<and> cn_AsOf c = cn_AsOf c'
       \<and> mset (cn_Sessions c) = mset (cn_Sessions c') \<and> mset (cn_Budgets c) = mset (cn_Budgets c')"
proof -
  have "canonical_continuity fmt c = canonical_continuity fmt c'"
    using assms(4,5) by (simp add: HashContinuity_def no_collision_def)
  then have rows: "mset (cont_rows fmt c) = mset (cont_rows fmt c')"
    using cont_rows_separate [OF fmt plain(1)] cont_rows_separate [OF fmt plain(2)]
    unfolding canonical_continuity_def by (intro Join_rows_inject) auto
  let ?S = "\<lambda>c. map (cont_session_row fmt) (cn_Sessions c)"
  let ?B = "\<lambda>c. map cont_budget_row (cn_Budgets c)"
  have "mset ([window_row fmt c] @ (?S c @ ?B c)) = mset ([window_row fmt c'] @ (?S c' @ ?B c'))"
    using rows by (simp add: cont_rows_def)
  then have W: "mset [window_row fmt c] = mset [window_row fmt c']"
    and SB: "mset (?S c @ ?B c) = mset (?S c' @ ?B c')"
    by (rule mset_split_heads [where P = "\<lambda>x. hd x = CHR ''W''"]; auto)+
  from SB have S: "mset (?S c) = mset (?S c')" and B: "mset (?B c) = mset (?B c')"
    by (rule mset_split_heads [where P = "\<lambda>x. hd x = CHR ''S''"]; auto)+
  have "mset (cn_Sessions c) = mset (cn_Sessions c')"
    using mset_map_inject [OF S, of "\<lambda>x. x"] plain fmt
    by (auto simp: plain_cont_def list_all_iff cont_session_row_inject)
  moreover have "mset (cn_Budgets c) = mset (cn_Budgets c')"
    using mset_map_inject [OF B, of "\<lambda>x. x"] plain
    by (auto simp: plain_cont_def list_all_iff cont_budget_row_inject)
  ultimately show ?thesis using W window_row_inject [OF fmt, of c c'] by simp
qed

theorem hash_binds_continuity_witness:
  "HashContinuity id Itoa \<lparr>cn_WindowSeconds = 600, cn_AsOf = 5, cn_Sessions = [], cn_Budgets = [], cn_ContentsHash = ''''\<rparr>
   \<noteq> HashContinuity id Itoa \<lparr>cn_WindowSeconds = 900, cn_AsOf = 5, cn_Sessions = [], cn_Budgets = [], cn_ContentsHash = ''''\<rparr>"
  using hash_binds_continuity [of Itoa
      "\<lparr>cn_WindowSeconds = 600, cn_AsOf = 5, cn_Sessions = [], cn_Budgets = [], cn_ContentsHash = ''''\<rparr>"
      "\<lparr>cn_WindowSeconds = 900, cn_AsOf = 5, cn_Sessions = [], cn_Budgets = [], cn_ContentsHash = ''''\<rparr>" id]
    instant_format_Itoa
  by (auto simp: plain_cont_def no_collision_def)

lemma HashContinuity_ignores_hash: "HashContinuity sha fmt (c\<lparr>cn_ContentsHash := h\<rparr>) = HashContinuity sha fmt c"
  by (simp add: HashContinuity_def canonical_continuity_def cont_rows_def window_row_def)

lemma OffContinuity_off: "IsOff sha fmt (OffContinuity sha fmt now)"
  by (simp add: IsOff_def OffContinuity_def Let_def HashContinuity_def canonical_continuity_def
      cont_rows_def window_row_def)

lemma off_never_a_window: "IsOff sha fmt c \<Longrightarrow> ValidateContinuity sha fmt c now = Some ReasonContinuityWindow"
  by (simp add: IsOff_def ValidateContinuity_def)

lemma ValidateContinuity_sealed:
  assumes "0 < cn_WindowSeconds c" and "cn_WindowSeconds c \<le> 7200"
    and "cn_AsOf c - 30 * second \<le> now" and "now \<le> cn_AsOf c + 2 * minute"
  shows "ValidateContinuity sha fmt (c\<lparr>cn_ContentsHash := HashContinuity sha fmt c\<rparr>) now = None"
proof -
  have "time_sub now (cn_AsOf c) \<le> MaxBudgetAge"
    using assms by (auto simp: time_sub_def MaxBudgetAge_def duration_defs)
  with assms show ?thesis
    by (auto simp: ValidateContinuity_def MaxContinuityWindowSeconds_def HashContinuity_ignores_hash)
qed

end
