(* ===== verification/Enforce_Plan.thy ===== *)
theory Enforce_Plan
  imports Shape_Plan "HOL-Library.AList"
begin

text \<open>
  What acctd derives from durable state before it speaks to netd
  (\<open>data-plane/internal/enforce\<close>): the two passes that make a plan coherent
  (\<open>retireMovedDevices\<close>, \<open>resolveAddressOwnership\<close>), the conservative bounds of the continuity
  block (\<open>BuildContinuity\<close>), the adaptive roll-up window (\<open>nextRollupWindow\<close>) and the catalogue
  probe cache. The database reads around them are not modelled: the rows they return are the
  arguments. Every Go map is an association list, so that its size is that of the source's map.
\<close>

section \<open>One owner per device and per address\<close>

text \<open>The loop \<open>for i, x := range xs { m[key(x)] = i }\<close>, skipping entries without a key.\<close>

definition note_index :: "('a \<Rightarrow> 'k option) \<Rightarrow> nat \<times> 'a \<Rightarrow> ('k \<times> nat) list \<Rightarrow> ('k \<times> nat) list" where
  "note_index key ix m = (case key (snd ix) of None \<Rightarrow> m | Some k \<Rightarrow> AList.update k (fst ix) m)"

definition newest_by :: "('a \<Rightarrow> 'k option) \<Rightarrow> 'a list \<Rightarrow> ('k \<times> nat) list" where
  "newest_by key xs = fold (note_index key) (enumerate 0 xs) []"

definition device_key :: "session_shape \<Rightarrow> string option" where
  "device_key sh = (if ss_DeviceID sh = '''' \<or> ss_IP sh = '''' then None else Some (ss_DeviceID sh))"

definition address_key :: "session_shape \<Rightarrow> string option" where
  "address_key sh = (if ss_IP sh = '''' then None else Some (ss_Bridge sh @ ''|'' @ ss_IP sh))"

definition EndReasonDeviceMoved :: string where
  "EndReasonDeviceMoved = ''SUPERSEDED_ON_DEVICE_MOVE''"

definition EndReasonSupersededOnAddress :: string where
  "EndReasonSupersededOnAddress = ''SUPERSEDED_ON_ADDRESS''"

definition torn_for :: "string \<Rightarrow> session_shape \<Rightarrow> session_shape" where
  "torn_for reason sh = sh\<lparr>ss_DownKbps := 0, ss_UpKbps := 0, ss_EndReason := reason\<rparr>"

definition device_stays :: "enforce_plan \<Rightarrow> nat \<times> session_shape \<Rightarrow> bool" where
  "device_stays p ix = (case device_key (snd ix) of
     None \<Rightarrow> True
   | Some d \<Rightarrow> (case map_of (newest_by device_key (pl_Shape p)) d of
       None \<Rightarrow> True
     | Some latest \<Rightarrow> latest = fst ix \<or>
         (ss_IP (pl_Shape p ! latest) = ss_IP (snd ix) \<and> ss_Bridge (pl_Shape p ! latest) = ss_Bridge (snd ix))))"

definition split_plan :: "(nat \<times> session_shape \<Rightarrow> bool) \<Rightarrow> string \<Rightarrow> enforce_plan \<Rightarrow> enforce_plan" where
  "split_plan stays reason p =
    \<lparr>pl_Shape = map snd (filter stays (enumerate 0 (pl_Shape p))),
     pl_Tear = pl_Tear p @ map (\<lambda>ix. torn_for reason (snd ix))
                              (filter (\<lambda>ix. \<not> stays ix) (enumerate 0 (pl_Shape p)))\<rparr>"

definition retireMovedDevices :: "enforce_plan \<Rightarrow> enforce_plan" where
  "retireMovedDevices p = split_plan (device_stays p) EndReasonDeviceMoved p"

definition address_stays :: "enforce_plan \<Rightarrow> nat \<times> session_shape \<Rightarrow> bool" where
  "address_stays p ix \<longleftrightarrow>
     ss_IP (snd ix) = '''' \<or> fst ix \<in> snd ` set (newest_by address_key (pl_Shape p))"

definition addressed :: "enforce_plan \<Rightarrow> session_shape list" where
  "addressed p = filter (\<lambda>sh. ss_IP sh \<noteq> '''') (pl_Shape p)"

definition resolveAddressOwnership :: "enforce_plan \<Rightarrow> enforce_plan" where
  "resolveAddressOwnership p =
    (if length (newest_by address_key (pl_Shape p)) = length (addressed p) then p
     else split_plan (address_stays p) EndReasonSupersededOnAddress p)"

text \<open>The last line of \<open>PlanForSite\<close>, on the plan read from the database.\<close>

definition coherent_plan :: "enforce_plan \<Rightarrow> enforce_plan" where
  "coherent_plan p = resolveAddressOwnership (retireMovedDevices p)"

section \<open>Bounds of the continuity block\<close>

definition BudgetMarginSeconds :: int where "BudgetMarginSeconds = 60"

definition UnratedAssumedKbps :: int where "UnratedAssumedKbps = 1000000"

definition timeMarginSeconds :: int where "timeMarginSeconds = 120"

record cont_row =
  cr_SessionID :: string
  cr_EntitlementID :: string
  cr_Started :: go_time
  cr_MaxSessionSec :: int
  cr_DataQuota :: "int option"
  cr_DataConsumed :: int
  cr_CountsTime :: bool
  cr_TimeQuota :: "int option"
  cr_TimeConsumed :: int
  cr_WindowEndsAt :: "go_time option"
  cr_DownKbps :: int
  cr_UpKbps :: int

definition rated :: "int \<Rightarrow> int" where
  "rated kbps = (if kbps \<le> 0 then UnratedAssumedKbps else kbps)"

definition row_margin :: "cont_row \<Rightarrow> int" where
  "row_margin r = wrap64 (wrap64 (wrap64 (rated (cr_DownKbps r) + rated (cr_UpKbps r)) * 125) * BudgetMarginSeconds)"

definition live_count :: "cont_row list \<Rightarrow> string \<Rightarrow> int" where
  "live_count rows e = int (length (filter (\<lambda>r. cr_EntitlementID r = e) rows))"

definition margin_bytes :: "cont_row list \<Rightarrow> string \<Rightarrow> int" where
  "margin_bytes rows e =
     fold (\<lambda>r acc. if cr_EntitlementID r = e then wrap64 (acc + row_margin r) else acc) rows 0"

definition tighten :: "go_time \<Rightarrow> go_time option \<Rightarrow> go_time option" where
  "tighten t e = (case e of None \<Rightarrow> Some t | Some x \<Rightarrow> if t < x then Some t else Some x)"

definition session_end :: "cont_row \<Rightarrow> go_time option \<Rightarrow> go_time option" where
  "session_end r e = (if 0 < cr_MaxSessionSec r
     then tighten (cr_Started r + wrap64 (cr_MaxSessionSec r * second)) e else e)"

definition allowance_end :: "cont_row list \<Rightarrow> go_time \<Rightarrow> cont_row \<Rightarrow> go_time option \<Rightarrow> go_time option" where
  "allowance_end rows asOf r e = (if \<not> cr_CountsTime r then e else (case cr_TimeQuota r of
     None \<Rightarrow> e
   | Some q \<Rightarrow>
       let left = wrap64 (wrap64 (q - cr_TimeConsumed r) - timeMarginSeconds);
           n = (if live_count rows (cr_EntitlementID r) < 1 then 1 else live_count rows (cr_EntitlementID r))
       in if left \<le> 0 then tighten asOf e else tighten (asOf + wrap64 (go_div left n * second)) e))"

definition remaining_bytes :: "cont_row list \<Rightarrow> cont_row \<Rightarrow> int \<Rightarrow> int" where
  "remaining_bytes rows r q =
     wrap64 (wrap64 (q - cr_DataConsumed r) - margin_bytes rows (cr_EntitlementID r))"

definition quota_end :: "cont_row list \<Rightarrow> go_time \<Rightarrow> cont_row \<Rightarrow> go_time option \<Rightarrow> go_time option" where
  "quota_end rows asOf r e = (case cr_DataQuota r of
     None \<Rightarrow> e
   | Some q \<Rightarrow> if remaining_bytes rows r q \<le> 0 then tighten asOf e else e)"

definition hard_end :: "cont_row list \<Rightarrow> go_time \<Rightarrow> cont_row \<Rightarrow> go_time option" where
  "hard_end rows asOf r =
     quota_end rows asOf r (allowance_end rows asOf r (session_end r (cr_WindowEndsAt r)))"

definition add_budget :: "cont_row list \<Rightarrow> cont_row \<Rightarrow> cont_budget list \<Rightarrow> cont_budget list" where
  "add_budget rows r bs = (case cr_DataQuota r of
     None \<Rightarrow> bs
   | Some q \<Rightarrow>
       if cr_EntitlementID r \<in> cb_EntitlementID ` set bs then bs
       else bs @ [\<lparr>cb_EntitlementID = cr_EntitlementID r,
                   cb_RemainingBytes = (if remaining_bytes rows r q < 0 then 0 else remaining_bytes rows r q)\<rparr>])"

definition max_window :: duration where
  "max_window = MaxContinuityWindowSeconds * second"

definition BuildContinuity ::
  "(string \<Rightarrow> string) \<Rightarrow> (go_time \<Rightarrow> string) \<Rightarrow> cont_row list \<Rightarrow> duration \<Rightarrow> go_time \<Rightarrow> continuity option" where
  "BuildContinuity sha fmt rows window asOf =
    (if window \<le> 0 then None
     else let window = (if max_window < window then max_window else window);
              c = \<lparr>cn_WindowSeconds = go_div window second, cn_AsOf = asOf,
                   cn_Sessions = map (\<lambda>r. \<lparr>cs_SessionID = cr_SessionID r, cs_HardEnd = hard_end rows asOf r\<rparr>) rows,
                   cn_Budgets = fold (add_budget rows) rows [],
                   cn_ContentsHash = ''''\<rparr>
          in Some (c\<lparr>cn_ContentsHash := HashContinuity sha fmt c\<rparr>))"

section \<open>The roll-up window\<close>

definition rollupWindowMax :: duration where "rollupWindowMax = 2 * hour"

definition rollupWindowMin :: duration where "rollupWindowMin = minute"

definition rollupQuick :: duration where "rollupQuick = 5 * second"

datatype db_outcome = Db_ok | Db_statement_timeout | Db_error

definition nextRollupWindow :: "duration \<Rightarrow> duration \<Rightarrow> db_outcome \<Rightarrow> duration" where
  "nextRollupWindow cur took res =
    (let cur = (case res of
           Db_statement_timeout \<Rightarrow> go_div cur 4
         | Db_ok \<Rightarrow> if took < rollupQuick then wrap64 (cur * 2) else cur
         | Db_error \<Rightarrow> cur);
         cur = (if cur < rollupWindowMin then rollupWindowMin else cur)
     in if rollupWindowMax < cur then rollupWindowMax else cur)"

type_synonym rollup_windows = "(string \<times> duration) list"

definition rollup_get :: "rollup_windows \<Rightarrow> string \<Rightarrow> duration" where
  "rollup_get w site = (case map_of w site of Some d \<Rightarrow> d | None \<Rightarrow> rollupWindowMax)"

definition rollup_set :: "string \<Rightarrow> duration \<Rightarrow> rollup_windows \<Rightarrow> rollup_windows" where
  "rollup_set site d w = AList.update site d w"

text \<open>\<open>RollupAccountingUsage\<close>: \<open>present\<close> is the catalogue's answer, \<open>took\<close> and \<open>res\<close> what the call
  did; the window asked for is returned with the new windows.\<close>

datatype probe_reply = Probe_failed | Probe_says bool

definition RollupAccountingUsage ::
  "rollup_windows \<Rightarrow> string \<Rightarrow> probe_reply \<Rightarrow> duration \<Rightarrow> db_outcome \<Rightarrow> rollup_windows \<times> duration option" where
  "RollupAccountingUsage w site present took res = (case present of
     Probe_failed \<Rightarrow> (w, None)
   | Probe_says False \<Rightarrow> (w, None)
   | Probe_says True \<Rightarrow>
       let window = rollup_get w site
       in (rollup_set site (nextRollupWindow window took res) w, Some window))"

section \<open>The catalogue probe cache\<close>

definition catalogProbeTTL :: duration where "catalogProbeTTL = minute"

record probe_answer =
  pa_value :: "bool list"
  pa_at :: go_time

type_synonym probe_cache = "string \<rightharpoonup> probe_answer"

text \<open>\<open>probe\<close> is what the catalogue query answers when it is run; \<open>now\<close> is read at the lookup, \<open>later\<close>
  when the answer is stored.\<close>

definition probe_get ::
  "probe_cache \<Rightarrow> string \<Rightarrow> go_time \<Rightarrow> (string + bool list) \<Rightarrow> go_time \<Rightarrow> probe_cache \<times> (string + bool list)" where
  "probe_get c key now probe later =
    (case c key of
       Some a \<Rightarrow> if time_sub now (pa_at a) < catalogProbeTTL then (c, Inr (pa_value a))
                 else (case probe of Inl e \<Rightarrow> (c, Inl e)
                                   | Inr v \<Rightarrow> (c(key \<mapsto> \<lparr>pa_value = v, pa_at = later\<rparr>), Inr v))
     | None \<Rightarrow> (case probe of Inl e \<Rightarrow> (c, Inl e)
                            | Inr v \<Rightarrow> (c(key \<mapsto> \<lparr>pa_value = v, pa_at = later\<rparr>), Inr v)))"

text \<open>\<open>procPresent\<close>: the probe answers with one flag.\<close>

definition procPresent ::
  "probe_cache \<Rightarrow> string \<Rightarrow> go_time \<Rightarrow> (string + bool) \<Rightarrow> go_time \<Rightarrow> probe_cache \<times> (string + bool)" where
  "procPresent c sig now answer later =
    (case probe_get c sig now (map_sum id (\<lambda>b. [b]) answer) later of
       (c', Inl e) \<Rightarrow> (c', Inl e)
     | (c', Inr v) \<Rightarrow> (c', Inr (v ! 0)))"

section \<open>The newest entry of every key\<close>

lemma enumerate_snoc: "enumerate n (xs @ [x]) = enumerate n xs @ [(n + length xs, x)]"
  by (simp add: enumerate_append_eq)

lemma newest_by_Nil [simp]: "newest_by key [] = []"
  by (simp add: newest_by_def)

lemma newest_by_snoc:
  "newest_by key (xs @ [x]) = (case key x of None \<Rightarrow> newest_by key xs
     | Some k \<Rightarrow> AList.update k (length xs) (newest_by key xs))"
  by (cases "key x") (simp_all add: newest_by_def enumerate_snoc note_index_def)

lemma newest_by_distinct: "distinct (map fst (newest_by key xs))"
  by (induction xs rule: rev_induct) (auto simp: newest_by_snoc distinct_update split: option.split)

lemma newest_by_last:
  assumes "key x = Some k" and "\<forall>v \<in> set vs. key v \<noteq> Some k"
  shows "map_of (newest_by key (us @ x # vs)) k = Some (length us)"
  using assms(2)
proof (induction vs rule: rev_induct)
  case Nil
  have "newest_by key (us @ [x]) = AList.update k (length us) (newest_by key us)"
    using assms(1) by (simp add: newest_by_snoc)
  then show ?case by (simp add: update_conv')
next
  case (snoc v vs)
  have "newest_by key (us @ x # vs @ [v]) = (case key v of None \<Rightarrow> newest_by key (us @ x # vs)
     | Some k' \<Rightarrow> AList.update k' (length (us @ x # vs)) (newest_by key (us @ x # vs)))"
    using newest_by_snoc [of key "us @ x # vs" v] by simp
  with snoc show ?case by (auto simp: update_conv' split: option.split)
qed

lemma newest_by_sound:
  "map_of (newest_by key xs) k = Some i \<Longrightarrow> i < length xs \<and> key (xs ! i) = Some k"
proof (induction xs rule: rev_induct)
  case (snoc x xs)
  then show ?case
    by (auto simp: newest_by_snoc update_conv' nth_append less_Suc_eq split: option.splits if_splits)
qed simp

lemma newest_by_dom: "key x = Some k \<Longrightarrow> x \<in> set xs \<Longrightarrow> \<exists>i. map_of (newest_by key xs) k = Some i"
proof (induction xs rule: rev_induct)
  case (snoc y xs)
  then show ?case by (auto simp: newest_by_snoc update_conv' split: option.split)
qed simp

lemma newest_by_keys: "fst ` set (newest_by key xs) = {k. \<exists>x \<in> set xs. key x = Some k}"
proof (intro set_eqI iffI)
  fix k assume "k \<in> fst ` set (newest_by key xs)"
  then obtain i where "map_of (newest_by key xs) k = Some i"
    by (metis domD dom_map_of_conv_image_fst)
  then show "k \<in> {k. \<exists>x \<in> set xs. key x = Some k}"
    using newest_by_sound by (metis (mono_tags, lifting) mem_Collect_eq nth_mem)
next
  fix k assume "k \<in> {k. \<exists>x \<in> set xs. key x = Some k}"
  then show "k \<in> fst ` set (newest_by key xs)"
    using newest_by_dom [of key _ k xs] by (auto simp: dom_map_of_conv_image_fst [symmetric])
qed

lemma newest_by_index_iff:
  assumes "i < length xs" and "key (xs ! i) = Some k"
  shows "i \<in> snd ` set (newest_by key xs) \<longleftrightarrow> map_of (newest_by key xs) k = Some i"
proof
  assume "i \<in> snd ` set (newest_by key xs)"
  then obtain k' where "(k', i) \<in> set (newest_by key xs)" by auto
  then have "map_of (newest_by key xs) k' = Some i"
    using newest_by_distinct by (metis map_of_is_SomeI)
  with newest_by_sound [of key xs k' i] assms show "map_of (newest_by key xs) k = Some i" by auto
next
  assume "map_of (newest_by key xs) k = Some i"
  then show "i \<in> snd ` set (newest_by key xs)" by (force dest: map_of_SomeD)
qed

section \<open>Splitting a plan\<close>

lemma split_plan_sessions:
  "mset (map ss_SessionID (pl_Shape (split_plan st r p) @ pl_Tear (split_plan st r p))) =
   mset (map ss_SessionID (pl_Shape p @ pl_Tear p))"
proof -
  have "ss_SessionID (torn_for r x) = ss_SessionID x" for x by (simp add: torn_for_def)
  then have "mset (map ss_SessionID (pl_Shape (split_plan st r p) @ pl_Tear (split_plan st r p))) =
     image_mset (ss_SessionID \<circ> snd) (mset (enumerate 0 (pl_Shape p))) + mset (map ss_SessionID (pl_Tear p))"
    by (simp add: split_plan_def image_mset.compositionality comp_def flip: image_mset_union multiset_partition)
  also have "image_mset (ss_SessionID \<circ> snd) (mset (enumerate 0 (pl_Shape p))) =
      mset (map ss_SessionID (map snd (enumerate 0 (pl_Shape p))))"
    unfolding map_map by simp
  finally show ?thesis by simp
qed

lemma split_plan_subset: "set (pl_Shape (split_plan st r p)) \<subseteq> set (pl_Shape p)"
  by (auto simp: split_plan_def in_set_enumerate_eq)

lemma split_plan_last:
  assumes "pl_Shape p = us @ x # vs" and "st (length us, x)"
  shows "\<exists>us' vs'. pl_Shape (split_plan st r p) = us' @ x # vs' \<and> set vs' \<subseteq> set vs"
proof -
  have "pl_Shape (split_plan st r p) = map snd (filter st (enumerate 0 us)) @
      x # map snd (filter st (enumerate (Suc (length us)) vs))"
    using assms by (simp add: split_plan_def enumerate_append_eq)
  moreover have "set (map snd (filter st (enumerate (Suc (length us)) vs))) \<subseteq> set vs"
    by (auto simp: in_set_enumerate_eq)
  ultimately show ?thesis by blast
qed

lemma distinct_map_weaken:
  assumes "distinct (map f xs)" and "\<And>x y. x \<in> set xs \<Longrightarrow> y \<in> set xs \<Longrightarrow> g x = g y \<Longrightarrow> f x = f y"
  shows "distinct (map g xs)"
  using assms unfolding distinct_map inj_on_def by blast

subsection \<open>Devices\<close>

lemma retired_same_address:
  assumes "x \<in> set (pl_Shape (retireMovedDevices p))" and "y \<in> set (pl_Shape (retireMovedDevices p))"
    and "device_key x = Some d" and "device_key y = Some d"
  shows "ss_IP x = ss_IP y \<and> ss_Bridge x = ss_Bridge y"
proof -
  let ?n = "newest_by device_key (pl_Shape p)"
  have "\<exists>l. map_of ?n d = Some l \<and> ss_IP z = ss_IP (pl_Shape p ! l) \<and> ss_Bridge z = ss_Bridge (pl_Shape p ! l)"
    if z: "z \<in> set (pl_Shape (retireMovedDevices p))" "device_key z = Some d" for z
  proof -
    obtain i where i: "(i, z) \<in> set (enumerate 0 (pl_Shape p))" "device_stays p (i, z)"
      using z(1) by (auto simp: retireMovedDevices_def split_plan_def)
    then have iz: "i < length (pl_Shape p)" "pl_Shape p ! i = z" by (auto simp: in_set_enumerate_eq)
    then obtain l where "map_of ?n d = Some l"
      using newest_by_dom [of device_key z d "pl_Shape p"] z(2) by auto
    with i(2) iz z(2) show ?thesis by (auto simp: device_stays_def)
  qed
  from this [OF assms(1,3)] this [OF assms(2,4)] show ?thesis by auto
qed

subsection \<open>Addresses\<close>

definition owner_key :: "session_shape \<Rightarrow> string" where
  "owner_key sh = ss_Bridge sh @ ''|'' @ ss_IP sh"

lemma address_key_Some: "address_key sh = Some k \<longleftrightarrow> ss_IP sh \<noteq> '''' \<and> k = owner_key sh"
  by (auto simp: address_key_def owner_key_def)

lemma newest_by_length_addressed:
  "length (newest_by address_key (pl_Shape p)) = card (owner_key ` set (addressed p))"
proof -
  have "length (newest_by address_key (pl_Shape p)) = card (fst ` set (newest_by address_key (pl_Shape p)))"
    by (metis distinct_card length_map list.set_map newest_by_distinct)
  also have "fst ` set (newest_by address_key (pl_Shape p)) = owner_key ` set (addressed p)"
    unfolding newest_by_keys addressed_def by (auto simp: address_key_Some)
  finally show ?thesis .
qed

lemma unchanged_distinct:
  assumes "length (newest_by address_key (pl_Shape p)) = length (addressed p)"
  shows "distinct (map owner_key (addressed p))"
  using assms unfolding newest_by_length_addressed
  by (metis card_distinct length_map list.set_map)

lemma distinct_filter_enumerate:
  assumes "\<And>i j. i < length xs \<Longrightarrow> j < length xs \<Longrightarrow> st (i, xs ! i) \<Longrightarrow> st (j, xs ! j) \<Longrightarrow>
      f (xs ! i) = f (xs ! j) \<Longrightarrow> i = j"
  shows "distinct (map f (map snd (filter st (enumerate 0 xs))))"
proof -
  have "distinct (enumerate 0 xs)" by (simp add: distinct_enumerate)
  moreover have "inj_on (f \<circ> snd) (set (filter st (enumerate 0 xs)))"
    using assms by (auto simp: inj_on_def in_set_enumerate_eq)
  ultimately show ?thesis unfolding map_map distinct_map by simp
qed

lemma resolved_distinct: "distinct (map owner_key (addressed (resolveAddressOwnership p)))"
proof (cases "length (newest_by address_key (pl_Shape p)) = length (addressed p)")
  case True
  then show ?thesis using unchanged_distinct by (simp add: resolveAddressOwnership_def)
next
  case False
  let ?st = "\<lambda>ix. ss_IP (snd ix) \<noteq> '''' \<and> address_stays p ix"
  have *: "addressed (resolveAddressOwnership p) = map snd (filter ?st (enumerate 0 (pl_Shape p)))"
    using False by (simp add: resolveAddressOwnership_def addressed_def split_plan_def filter_map comp_def conj_commute)
  show ?thesis unfolding *
  proof (rule distinct_filter_enumerate)
    fix i j
    assume ij: "i < length (pl_Shape p)" "j < length (pl_Shape p)"
      and st: "?st (i, pl_Shape p ! i)" "?st (j, pl_Shape p ! j)"
      and eq: "owner_key (pl_Shape p ! i) = owner_key (pl_Shape p ! j)"
    let ?n = "newest_by address_key (pl_Shape p)"
    have "map_of ?n (owner_key (pl_Shape p ! i)) = Some i"
      using st(1) ij(1) newest_by_index_iff [of i "pl_Shape p" address_key "owner_key (pl_Shape p ! i)"]
      by (auto simp: address_stays_def address_key_Some)
    moreover have "map_of ?n (owner_key (pl_Shape p ! j)) = Some j"
      using st(2) ij(2) newest_by_index_iff [of j "pl_Shape p" address_key "owner_key (pl_Shape p ! j)"]
      by (auto simp: address_stays_def address_key_Some)
    ultimately show "i = j" using eq by (metis option.inject)
  qed
qed

lemma resolved_subset: "set (pl_Shape (resolveAddressOwnership p)) \<subseteq> set (pl_Shape p)"
  using split_plan_subset by (auto simp: resolveAddressOwnership_def)

lemma coherent_sessions:
  "mset (map ss_SessionID (pl_Shape (coherent_plan p) @ pl_Tear (coherent_plan p))) =
   mset (map ss_SessionID (pl_Shape p @ pl_Tear p))"
  unfolding coherent_plan_def resolveAddressOwnership_def retireMovedDevices_def
  using split_plan_sessions by (auto simp del: map_append)

lemma coherent_devices:
  "distinct (map ss_DeviceID (filter (\<lambda>s. ss_DeviceID s \<noteq> '''') (addressed (coherent_plan p))))"
proof -
  let ?xs = "filter (\<lambda>s. ss_DeviceID s \<noteq> '''') (addressed (coherent_plan p))"
  have "distinct (map owner_key ?xs)"
    using resolved_distinct [of "retireMovedDevices p"] by (simp add: coherent_plan_def distinct_map_filter)
  moreover have "owner_key x = owner_key y" if "x \<in> set ?xs" "y \<in> set ?xs" "ss_DeviceID x = ss_DeviceID y" for x y
  proof -
    have "x \<in> set (pl_Shape (retireMovedDevices p))" "y \<in> set (pl_Shape (retireMovedDevices p))"
      using that(1,2) resolved_subset by (auto simp: coherent_plan_def addressed_def)
    moreover have "device_key x = Some (ss_DeviceID x)" "device_key y = Some (ss_DeviceID x)"
      using that by (auto simp: device_key_def addressed_def)
    ultimately have "ss_IP x = ss_IP y \<and> ss_Bridge x = ss_Bridge y" by (rule retired_same_address)
    then show ?thesis by (simp add: owner_key_def)
  qed
  ultimately show ?thesis by (rule distinct_map_weaken)
qed

lemma coherent_addresses:
  "distinct (map (\<lambda>s. (ss_Bridge s, ss_IP s)) (addressed (coherent_plan p)))"
  using resolved_distinct [of "retireMovedDevices p"] unfolding coherent_plan_def
  by (rule distinct_map_weaken) (simp add: owner_key_def)

lemma retired_keeps_newest:
  assumes "pl_Shape p = us @ s # vs" and "\<forall>v \<in> set vs. device_key s = None \<or> device_key v \<noteq> device_key s"
  shows "\<exists>us' vs'. pl_Shape (retireMovedDevices p) = us' @ s # vs' \<and> set vs' \<subseteq> set vs"
  unfolding retireMovedDevices_def
proof (rule split_plan_last [OF assms(1)])
  show "device_stays p (length us, s)"
    using assms newest_by_last [of device_key s _ vs us]
    by (cases "device_key s") (auto simp: device_stays_def)
qed

lemma resolved_keeps_newest:
  assumes "pl_Shape p = us @ s # vs" and "\<forall>v \<in> set vs. address_key s = None \<or> address_key v \<noteq> address_key s"
  shows "s \<in> set (pl_Shape (resolveAddressOwnership p))"
proof -
  have "address_stays p (length us, s)"
  proof (cases "address_key s")
    case None
    then show ?thesis by (simp add: address_stays_def address_key_def split: if_splits)
  next
    case (Some k)
    with assms have "map_of (newest_by address_key (pl_Shape p)) k = Some (length us)"
      using newest_by_last [of address_key s k vs us] by auto
    then show ?thesis by (force simp: address_stays_def dest: map_of_SomeD)
  qed
  then show ?thesis
    using assms(1) split_plan_last [of p us s vs "address_stays p" EndReasonSupersededOnAddress]
    by (auto simp: resolveAddressOwnership_def)
qed

text \<open>
  C6: the plan acctd sends is coherent. However many sessions the database lists as entitled, at
  most one addressed session is shaped per device and per (bridge, address); no session is lost,
  each is either shaped or torn down; and a session that is the newest of its device and of its
  address is never torn down by the two passes.
\<close>
theorem coherent_plan_one_owner:
  "distinct (map (\<lambda>s. (ss_Bridge s, ss_IP s)) (addressed (coherent_plan p))) \<and>
   distinct (map ss_DeviceID (filter (\<lambda>s. ss_DeviceID s \<noteq> '''') (addressed (coherent_plan p)))) \<and>
   mset (map ss_SessionID (pl_Shape (coherent_plan p) @ pl_Tear (coherent_plan p))) =
     mset (map ss_SessionID (pl_Shape p @ pl_Tear p)) \<and>
   (pl_Shape p = us @ s # vs \<longrightarrow>
      (\<forall>v \<in> set vs. (device_key s = None \<or> device_key v \<noteq> device_key s) \<and>
                    (address_key s = None \<or> address_key v \<noteq> address_key s)) \<longrightarrow>
      s \<in> set (pl_Shape (coherent_plan p)))"
proof (intro conjI impI)
  assume p: "pl_Shape p = us @ s # vs"
    and new: "\<forall>v \<in> set vs. (device_key s = None \<or> device_key v \<noteq> device_key s) \<and>
                    (address_key s = None \<or> address_key v \<noteq> address_key s)"
  obtain us' vs' where "pl_Shape (retireMovedDevices p) = us' @ s # vs'" "set vs' \<subseteq> set vs"
    using retired_keeps_newest [OF p] new by blast
  then show "s \<in> set (pl_Shape (coherent_plan p))"
    unfolding coherent_plan_def using new by (intro resolved_keeps_newest) auto
qed (fact coherent_addresses coherent_devices coherent_sessions)+

definition example_shape :: "string \<Rightarrow> string \<Rightarrow> string \<Rightarrow> session_shape" where
  "example_shape i dev ip = \<lparr>ss_SessionID = i, ss_EntitlementID = ''e'', ss_DeviceID = dev, ss_IP = ip, ss_MAC = '''',
     ss_Bridge = ''br10'', ss_DownKbps = 1024, ss_UpKbps = 512, ss_WindowEndsAt = None,
     ss_SpeedAllocation = ''PER_DEVICE'', ss_EndReason = ''''\<rparr>"

theorem coherent_plan_one_owner_witness:
  "example_shape ''s2'' ''d'' ''10.0.0.7'' \<in> set (pl_Shape (coherent_plan
     \<lparr>pl_Shape = [example_shape ''s1'' ''d'' ''10.0.0.5'', example_shape ''s2'' ''d'' ''10.0.0.7''], pl_Tear = []\<rparr>))"
  using coherent_plan_one_owner [of "\<lparr>pl_Shape = [example_shape ''s1'' ''d'' ''10.0.0.5'',
      example_shape ''s2'' ''d'' ''10.0.0.7''], pl_Tear = []\<rparr>" "[example_shape ''s1'' ''d'' ''10.0.0.5'']"
      "example_shape ''s2'' ''d'' ''10.0.0.7''" "[]"]
  by simp

section \<open>The continuity block is conservative\<close>

text \<open>The ranges of the database columns behind a row, under which no 64-bit product wraps.\<close>

definition row_in_range :: "cont_row \<Rightarrow> bool" where
  "row_in_range r \<longleftrightarrow> cr_MaxSessionSec r < 2 ^ 32
     \<and> (\<forall>q. cr_DataQuota r = Some q \<longrightarrow> 0 \<le> q \<and> q < 2 ^ 61) \<and> 0 \<le> cr_DataConsumed r \<and> cr_DataConsumed r < 2 ^ 61
     \<and> (\<forall>q. cr_TimeQuota r = Some q \<longrightarrow> 0 \<le> q \<and> q < 2 ^ 32) \<and> 0 \<le> cr_TimeConsumed r \<and> cr_TimeConsumed r < 2 ^ 61
     \<and> cr_DownKbps r < 2 ^ 31 \<and> cr_UpKbps r < 2 ^ 31"

definition rows_in_range :: "cont_row list \<Rightarrow> bool" where
  "rows_in_range rows \<longleftrightarrow> list_all row_in_range rows \<and> length rows \<le> 2 ^ 15"

text \<open>What one row's session may move, at its rate ceiling, in the margin time.\<close>

definition margin_spec :: "cont_row \<Rightarrow> int" where
  "margin_spec r = (rated (cr_DownKbps r) + rated (cr_UpKbps r)) * 125 * 60"

lemma rated_bounds: "k < 2 ^ 31 \<Longrightarrow> 0 < rated k \<and> rated k < 2 ^ 31"
  by (auto simp: rated_def UnratedAssumedKbps_def)

lemma margin_spec_bounds: "row_in_range r \<Longrightarrow> 0 < margin_spec r \<and> margin_spec r < 2 ^ 45"
  using rated_bounds [of "cr_DownKbps r"] rated_bounds [of "cr_UpKbps r"]
  by (auto simp: margin_spec_def row_in_range_def)

lemma row_margin_spec: "row_in_range r \<Longrightarrow> row_margin r = margin_spec r"
  using rated_bounds [of "cr_DownKbps r"] rated_bounds [of "cr_UpKbps r"]
  by (auto simp: margin_spec_def row_margin_def row_in_range_def BudgetMarginSeconds_def wrap64_small)

lemma margin_bytes_snoc:
  "margin_bytes (rows @ [r]) e = (if cr_EntitlementID r = e then wrap64 (margin_bytes rows e + row_margin r)
     else margin_bytes rows e)"
  by (simp add: margin_bytes_def)

lemma margin_bytes_spec:
  assumes "list_all row_in_range rows" and "length rows \<le> 2 ^ 15"
  shows "margin_bytes rows e = (\<Sum>r \<leftarrow> filter (\<lambda>r. cr_EntitlementID r = e) rows. margin_spec r)
       \<and> 0 \<le> margin_bytes rows e \<and> margin_bytes rows e \<le> int (length rows) * 2 ^ 45"
  using assms
proof (induction rows rule: rev_induct)
  case Nil
  then show ?case by (simp add: margin_bytes_def)
next
  case (snoc r rows)
  then have IH: "margin_bytes rows e = (\<Sum>r \<leftarrow> filter (\<lambda>r. cr_EntitlementID r = e) rows. margin_spec r)"
    "0 \<le> margin_bytes rows e" "margin_bytes rows e \<le> int (length rows) * 2 ^ 45" and r: "row_in_range r"
    by auto
  have "int (length rows) * 2 ^ 45 \<le> 2 ^ 15 * 2 ^ 45"
    using snoc.prems(2) by (intro mult_right_mono) auto
  then have "wrap64 (margin_bytes rows e + margin_spec r) = margin_bytes rows e + margin_spec r"
    using IH margin_spec_bounds [OF r] by (intro wrap64_small) simp
  with IH margin_spec_bounds [OF r] row_margin_spec [OF r] show ?case
    by (auto simp: margin_bytes_snoc algebra_simps)
qed

lemma margin_bytes_bounds:
  assumes "rows_in_range rows"
  shows "0 \<le> margin_bytes rows e" and "margin_bytes rows e \<le> 2 ^ 60"
proof -
  have "int (length rows) * 2 ^ 45 \<le> 2 ^ 15 * 2 ^ 45"
    using assms by (intro mult_right_mono) (auto simp: rows_in_range_def)
  then show "0 \<le> margin_bytes rows e" "margin_bytes rows e \<le> 2 ^ 60"
    using margin_bytes_spec [of rows e] assms by (auto simp: rows_in_range_def)
qed

lemma remaining_bytes_spec:
  assumes "rows_in_range rows" and "r \<in> set rows" and "cr_DataQuota r = Some q"
  shows "remaining_bytes rows r q = q - cr_DataConsumed r - margin_bytes rows (cr_EntitlementID r)"
proof -
  have "row_in_range r" using assms by (simp add: rows_in_range_def list_all_iff)
  with margin_bytes_bounds [OF assms(1), of "cr_EntitlementID r"] assms(3) show ?thesis
    by (auto simp: remaining_bytes_def row_in_range_def wrap64_small)
qed

subsection \<open>Deadlines\<close>

text \<open>\<open>no_later e t\<close>: the deadline \<open>e\<close> exists and is at most \<open>t\<close>.\<close>

definition no_later :: "go_time option \<Rightarrow> go_time \<Rightarrow> bool" where
  "no_later e t \<longleftrightarrow> (case e of None \<Rightarrow> False | Some x \<Rightarrow> x \<le> t)"

lemma no_later_tighten: "no_later (tighten t e) u \<longleftrightarrow> t \<le> u \<or> no_later e u"
  by (auto simp: no_later_def tighten_def split: option.split)

lemma no_later_session_end: "no_later e u \<Longrightarrow> no_later (session_end r e) u"
  by (simp add: session_end_def no_later_tighten)

lemma no_later_allowance_end: "no_later e u \<Longrightarrow> no_later (allowance_end rows a r e) u"
  by (simp add: allowance_end_def no_later_tighten Let_def split: option.split)

lemma no_later_quota_end: "no_later e u \<Longrightarrow> no_later (quota_end rows a r e) u"
  by (simp add: quota_end_def no_later_tighten split: option.split)

lemmas no_later_ends = no_later_quota_end no_later_allowance_end no_later_session_end

lemma hard_end_window: "cr_WindowEndsAt r = Some w \<Longrightarrow> no_later (hard_end rows a r) w"
  unfolding hard_end_def by (intro no_later_ends) (simp add: no_later_def)

lemma hard_end_session:
  assumes "row_in_range r" and "0 < cr_MaxSessionSec r"
  shows "no_later (hard_end rows a r) (cr_Started r + cr_MaxSessionSec r * second)"
proof -
  have "wrap64 (cr_MaxSessionSec r * second) = cr_MaxSessionSec r * second"
    using assms by (intro wrap64_small) (auto simp: row_in_range_def second_def)
  then show ?thesis unfolding hard_end_def using assms(2)
    by (intro no_later_quota_end no_later_allowance_end) (simp add: session_end_def no_later_tighten)
qed

lemma hard_end_quota:
  assumes "cr_DataQuota r = Some q" and "remaining_bytes rows r q \<le> 0"
  shows "no_later (hard_end rows a r) a"
  using assms by (simp add: hard_end_def quota_end_def no_later_tighten)

lemma live_count_pos: "r \<in> set rows \<Longrightarrow> 1 \<le> live_count rows (cr_EntitlementID r)"
  by (auto simp: live_count_def filter_empty_conv Suc_le_eq)

lemma hard_end_allowance:
  assumes "rows_in_range rows" and "r \<in> set rows" and "cr_CountsTime r" and "cr_TimeQuota r = Some q"
  shows "no_later (hard_end rows a r)
     (a + max 0 (q - cr_TimeConsumed r - 120) div live_count rows (cr_EntitlementID r) * second)"
proof -
  let ?n = "live_count rows (cr_EntitlementID r)" and ?left = "q - cr_TimeConsumed r - 120"
  have r: "row_in_range r" using assms by (simp add: rows_in_range_def list_all_iff)
  have n: "1 \<le> ?n" by (rule live_count_pos [OF assms(2)])
  have left: "wrap64 (wrap64 (q - cr_TimeConsumed r) - timeMarginSeconds) = ?left"
    using r assms(4) by (auto simp: row_in_range_def timeMarginSeconds_def wrap64_small)
  have "no_later (allowance_end rows a r e) (a + max 0 ?left div ?n * second)" for e
  proof (cases "?left \<le> 0")
    case True
    with left assms(3,4) show ?thesis by (simp add: allowance_end_def no_later_tighten Let_def max_def)
  next
    case False
    have "?left div ?n \<le> ?left" using False n zdiv_mono2 [of ?left 1 ?n] by simp
    moreover have "0 \<le> ?left div ?n" using False n by (simp add: pos_imp_zdiv_nonneg_iff)
    ultimately have "wrap64 (?left div ?n * second) = ?left div ?n * second"
      using r assms(4) by (intro wrap64_small) (auto simp: row_in_range_def second_def)
    with left False n assms(3,4) show ?thesis by (simp add: allowance_end_def no_later_tighten Let_def max_def)
  qed
  then show ?thesis unfolding hard_end_def by (intro no_later_quota_end)
qed

subsection \<open>Budgets\<close>

definition budget_of :: "cont_row list \<Rightarrow> cont_row \<Rightarrow> int \<Rightarrow> cont_budget" where
  "budget_of rows r q = \<lparr>cb_EntitlementID = cr_EntitlementID r, cb_RemainingBytes = max 0 (remaining_bytes rows r q)\<rparr>"

lemma add_budget_alt:
  "add_budget rows r bs = (case cr_DataQuota r of None \<Rightarrow> bs
     | Some q \<Rightarrow> if cr_EntitlementID r \<in> cb_EntitlementID ` set bs then bs else bs @ [budget_of rows r q])"
  by (auto simp: add_budget_def budget_of_def max_def split: option.split)

lemma budgets_inv:
  "distinct (map cb_EntitlementID (fold (add_budget rows) xs [])) \<and>
   cb_EntitlementID ` set (fold (add_budget rows) xs []) =
     {cr_EntitlementID r | r. r \<in> set xs \<and> cr_DataQuota r \<noteq> None} \<and>
   (\<forall>b \<in> set (fold (add_budget rows) xs []). \<exists>r \<in> set xs. \<exists>q. cr_DataQuota r = Some q \<and> b = budget_of rows r q)"
proof (induction xs rule: rev_induct)
  case (snoc x xs)
  have "cb_EntitlementID (budget_of rows x q) = cr_EntitlementID x" for q by (simp add: budget_of_def)
  with snoc show ?case
    by (cases "cr_DataQuota x") (auto simp: add_budget_alt)
qed simp

text \<open>What a session bound and a byte budget of the block must not exceed.\<close>

definition bound_kept :: "cont_row list \<Rightarrow> go_time \<Rightarrow> cont_row \<Rightarrow> cont_session \<Rightarrow> bool" where
  "bound_kept rows asOf r s \<longleftrightarrow> cs_SessionID s = cr_SessionID r
     \<and> (\<forall>w. cr_WindowEndsAt r = Some w \<longrightarrow> no_later (cs_HardEnd s) w)
     \<and> (0 < cr_MaxSessionSec r \<longrightarrow> no_later (cs_HardEnd s) (cr_Started r + cr_MaxSessionSec r * second))
     \<and> (\<forall>q. cr_CountsTime r \<and> cr_TimeQuota r = Some q \<longrightarrow> no_later (cs_HardEnd s)
          (asOf + max 0 (q - cr_TimeConsumed r - 120) div live_count rows (cr_EntitlementID r) * second))
     \<and> (\<forall>q. cr_DataQuota r = Some q \<and> q - cr_DataConsumed r \<le> margin_bytes rows (cr_EntitlementID r)
          \<longrightarrow> no_later (cs_HardEnd s) asOf)"

definition budget_kept :: "cont_row list \<Rightarrow> cont_budget \<Rightarrow> bool" where
  "budget_kept rows b \<longleftrightarrow> 0 \<le> cb_RemainingBytes b \<and>
     (\<exists>r \<in> set rows. \<exists>q. cr_DataQuota r = Some q \<and> cr_EntitlementID r = cb_EntitlementID b \<and>
        cb_RemainingBytes b = max 0 (q - cr_DataConsumed r
          - (\<Sum>x \<leftarrow> filter (\<lambda>x. cr_EntitlementID x = cr_EntitlementID r) rows. margin_spec x)))"

lemma bound_kept_hard_end:
  assumes "rows_in_range rows" and "r \<in> set rows"
  shows "bound_kept rows a r \<lparr>cs_SessionID = cr_SessionID r, cs_HardEnd = hard_end rows a r\<rparr>"
  unfolding bound_kept_def
proof (intro conjI allI impI, goal_cases)
  case (5 q)
  then have "remaining_bytes rows r q \<le> 0" using remaining_bytes_spec [OF assms] by auto
  with 5 show ?case by (simp add: hard_end_quota)
qed (use assms in \<open>auto simp: hard_end_window hard_end_allowance rows_in_range_def list_all_iff intro!: hard_end_session\<close>)

lemma budget_kept_budget_of:
  assumes "rows_in_range rows" and "r \<in> set rows" and "cr_DataQuota r = Some q"
  shows "budget_kept rows (budget_of rows r q)"
  using assms remaining_bytes_spec [OF assms] margin_bytes_spec [of rows "cr_EntitlementID r"]
  by (auto simp: budget_kept_def budget_of_def rows_in_range_def intro!: bexI [of _ r])

text \<open>
  the continuity block promises no more than the database allows. For rows in the ranges of
  their columns, a block is built exactly when the window is positive; its window never exceeds the
  configured one nor 7200 s; each session's hard end is at most the end of its entitlement window,
  the end of its maximum session and the instant at which all live sessions of the entitlement
  together would have spent the online-time allowance, and is not after the reading when the byte
  quota may already be spent; there is exactly one byte budget for every entitlement with a quota,
  never negative and with the uncounted traffic of all its sessions taken off; and netd accepts
  the block for two minutes.
\<close>
theorem build_continuity_conservative:
  assumes rows: "rows_in_range rows" and window: "second \<le> window" "in64 window"
    and clock: "asOf - 30 * second \<le> now" "now \<le> asOf + 2 * minute"
  shows "\<exists>c. BuildContinuity sha fmt rows window asOf = Some c
    \<and> 0 < cn_WindowSeconds c \<and> cn_WindowSeconds c \<le> 7200 \<and> cn_WindowSeconds c * second \<le> window
    \<and> list_all2 (bound_kept rows asOf) rows (cn_Sessions c)
    \<and> distinct (map cb_EntitlementID (cn_Budgets c))
    \<and> cb_EntitlementID ` set (cn_Budgets c) = {cr_EntitlementID r | r. r \<in> set rows \<and> cr_DataQuota r \<noteq> None}
    \<and> list_all (budget_kept rows) (cn_Budgets c)
    \<and> ValidateContinuity sha fmt c now = None"
proof -
  let ?w = "if max_window < window then max_window else window"
  let ?bs = "fold (add_budget rows) rows []"
  let ?ss = "map (\<lambda>r. \<lparr>cs_SessionID = cr_SessionID r, cs_HardEnd = hard_end rows asOf r\<rparr>) rows"
  let ?c0 = "\<lparr>cn_WindowSeconds = go_div ?w second, cn_AsOf = asOf, cn_Sessions = ?ss, cn_Budgets = ?bs,
    cn_ContentsHash = ''''\<rparr>"
  let ?c = "?c0\<lparr>cn_ContentsHash := HashContinuity sha fmt ?c0\<rparr>"
  have w: "0 < go_div ?w second" "go_div ?w second \<le> 7200" "go_div ?w second * second \<le> window"
    using window(1) by (auto simp: max_window_def MaxContinuityWindowSeconds_def second_def)
  have "BuildContinuity sha fmt rows window asOf = Some ?c"
    using window(1) by (auto simp: BuildContinuity_def Let_def second_def)
  moreover have "list_all2 (bound_kept rows asOf) rows ?ss"
    using bound_kept_hard_end [OF rows, of _ asOf] by (simp add: list_all2_conv_all_nth)
  moreover have "list_all (budget_kept rows) ?bs"
    using budgets_inv [of rows rows] budget_kept_budget_of [OF rows] by (fastforce simp: list_all_iff)
  moreover have "ValidateContinuity sha fmt ?c now = None"
    using w clock by (intro ValidateContinuity_sealed) simp_all
  ultimately show ?thesis using w budgets_inv [of rows rows] by (intro exI [of _ ?c]) simp
qed

definition example_row :: cont_row where
  "example_row = \<lparr>cr_SessionID = ''s1'', cr_EntitlementID = ''e'', cr_Started = 0, cr_MaxSessionSec = 3600,
     cr_DataQuota = Some 1000000000, cr_DataConsumed = 0, cr_CountsTime = True, cr_TimeQuota = Some 7200,
     cr_TimeConsumed = 0, cr_WindowEndsAt = None, cr_DownKbps = 1024, cr_UpKbps = 512\<rparr>"

theorem build_continuity_conservative_witness:
  "\<exists>c. BuildContinuity id Itoa [example_row] (90 * minute) 5 = Some c \<and> cn_WindowSeconds c \<le> 7200"
  using build_continuity_conservative [of "[example_row]" "90 * minute" 5 6 id Itoa]
  by (auto simp: rows_in_range_def row_in_range_def example_row_def in64_def duration_defs)

section \<open>The roll-up window stays usable\<close>

datatype rollup_call = Rollup_call (call_site: string) (call_present: probe_reply) (call_took: duration) (call_res: db_outcome)

definition rollup_step :: "rollup_windows \<Rightarrow> rollup_call \<Rightarrow> rollup_windows" where
  "rollup_step w c = fst (RollupAccountingUsage w (call_site c) (call_present c) (call_took c) (call_res c))"

definition windows_ok :: "rollup_windows \<Rightarrow> bool" where
  "windows_ok w \<longleftrightarrow> (\<forall>site d. map_of w site = Some d \<longrightarrow> rollupWindowMin \<le> d \<and> d \<le> rollupWindowMax)"

lemma nextRollupWindow_bounds:
  "rollupWindowMin \<le> nextRollupWindow cur took res \<and> nextRollupWindow cur took res \<le> rollupWindowMax"
  by (simp add: nextRollupWindow_def Let_def rollupWindowMin_def rollupWindowMax_def duration_defs)

lemma rollup_get_bounds:
  "windows_ok w \<Longrightarrow> rollupWindowMin \<le> rollup_get w site \<and> rollup_get w site \<le> rollupWindowMax"
  by (auto simp: rollup_get_def windows_ok_def rollupWindowMin_def rollupWindowMax_def duration_defs
      split: option.split)

lemma rollup_get_set: "rollup_get (rollup_set site d w) s = (if s = site then d else rollup_get w s)"
  by (simp add: rollup_get_def rollup_set_def update_conv')

interpretation rollup: invariant_machine rollup_step windows_ok
proof
  fix w c assume "windows_ok w"
  then show "windows_ok (rollup_step w c)"
    using nextRollupWindow_bounds
    by (auto simp: rollup_step_def RollupAccountingUsage_def windows_ok_def rollup_set_def update_conv' Let_def
        split: probe_reply.split bool.split if_splits)
qed

text \<open>A call that is cancelled by the statement timeout and one that is answered within 5 s.\<close>

definition cancelled :: "string \<Rightarrow> rollup_call" where
  "cancelled site = Rollup_call site (Probe_says True) (30 * second) Db_statement_timeout"

lemma rollup_get_cancelled:
  assumes "windows_ok w"
  shows "rollup_get (rollup_step w (cancelled site)) site = max rollupWindowMin (rollup_get w site div 4)"
  using rollup_get_bounds [OF assms, of site]
  by (auto simp: rollup_step_def cancelled_def RollupAccountingUsage_def Let_def rollup_get_set
      nextRollupWindow_def rollupWindowMin_def rollupWindowMax_def duration_defs)

lemma rollup_cancelled_le:
  assumes "windows_ok w" and "rollup_get w site \<le> 4 * b" and "minute \<le> b"
  shows "rollup_get (rollup_step w (cancelled site)) site \<le> b"
  using assms(2,3) unfolding rollup_get_cancelled [OF assms(1)] by (simp add: rollupWindowMin_def)

lemma windows_ok_cancelled: "windows_ok w \<Longrightarrow> windows_ok (rollup_step w (cancelled site))"
  by (rule rollup.step_inv)

text \<open>
  whatever calls were made and however they ended, the window the roll-up asks the database
  for stays between one minute and two hours, a failure of one site never changes another site's
  window, and four cancelled statements in a row bring a site's window down to the one-minute
  minimum, so a window too large to be read is never retried for ever.
\<close>
theorem rollup_window_bounded:
  "rollupWindowMin \<le> rollup_get (run rollup_step [] cs) site \<and>
   rollup_get (run rollup_step [] cs) site \<le> rollupWindowMax \<and>
   (call_site c \<noteq> site \<longrightarrow>
      rollup_get (rollup_step (run rollup_step [] cs) c) site = rollup_get (run rollup_step [] cs) site) \<and>
   rollup_get (run rollup_step [] (cs @ replicate 4 (cancelled site))) site = rollupWindowMin"
proof -
  let ?w = "run rollup_step [] cs"
  have ok: "windows_ok ?w" by (intro rollup.run_inv) (simp add: windows_ok_def)
  note ok1 = windows_ok_cancelled [OF ok, of site]
  note ok2 = windows_ok_cancelled [OF ok1, of site]
  note ok3 = windows_ok_cancelled [OF ok2, of site]
  have "rollup_get (run rollup_step ?w (replicate 4 (cancelled site))) site = rollupWindowMin"
  proof -
    have "rollup_get ?w site \<le> 4 * (30 * minute)"
      using rollup_get_bounds [OF ok, of site] by (simp add: rollupWindowMax_def duration_defs)
    note b1 = rollup_cancelled_le [OF ok this]
    note b2 = rollup_cancelled_le [OF ok1, of site "450 * second"]
    note b3 = rollup_cancelled_le [OF ok2, of site "113 * second"]
    note b4 = rollup_cancelled_le [OF ok3, of site minute]
    have "rollup_get (rollup_step (rollup_step (rollup_step (rollup_step ?w (cancelled site)) (cancelled site))
        (cancelled site)) (cancelled site)) site \<le> minute"
      using b1 b2 b3 b4 by (simp add: duration_defs)
    moreover have "rollupWindowMin \<le> rollup_get (rollup_step (rollup_step (rollup_step (rollup_step ?w
        (cancelled site)) (cancelled site)) (cancelled site)) (cancelled site)) site"
      using rollup_get_bounds [OF windows_ok_cancelled [OF ok3, of site], of site] by simp
    ultimately show ?thesis by (simp add: numeral_eq_Suc rollupWindowMin_def)
  qed
  moreover have "rollup_get (rollup_step ?w c) site = rollup_get ?w site" if "call_site c \<noteq> site"
    using that by (auto simp: rollup_step_def RollupAccountingUsage_def Let_def rollup_get_set
        split: probe_reply.split bool.split)
  ultimately show ?thesis using rollup_get_bounds [OF ok, of site] by (simp add: run_append)
qed

theorem rollup_window_bounded_witness:
  "rollup_get (run rollup_step [] ([] @ replicate 4 (cancelled ''site-a''))) ''site-a'' = minute"
  using rollup_window_bounded [of "[]" "''site-a''" "cancelled ''site-b''"]
  by (simp add: rollupWindowMin_def cancelled_def)

text \<open>The probe cache answers with a value at most a minute old, or with what the probe said; a
  failed probe leaves the cache as it was.\<close>

lemma probe_get_fresh:
  "probe_get c key now probe later = (c', Inr v) \<Longrightarrow>
     (probe = Inr v \<and> c' = c(key \<mapsto> \<lparr>pa_value = v, pa_at = later\<rparr>)) \<or>
     (c' = c \<and> (\<exists>a. c key = Some a \<and> pa_value a = v \<and> now - pa_at a < catalogProbeTTL))"
  by (auto simp: probe_get_def catalogProbeTTL_def time_sub_def duration_defs split: option.splits if_splits sum.splits)

lemma probe_get_failed: "probe_get c key now probe later = (c', Inl e) \<Longrightarrow> c' = c \<and> probe = Inl e"
  by (auto simp: probe_get_def split: option.splits if_splits sum.splits)

end
