(* ===== verification/Netd_Continuity.thy ===== *)
theory Netd_Continuity
  imports Shape_Plan "HOL-Library.AList"
begin

text \<open>
  The outage governor of netd (\<open>data-plane/cmd/netd/phase3_continuity.go\<close>, with the lease rules of
  \<open>phase3_lease.go\<close>): when plans stop, it keeps renewing exactly the authorizations the last healthy
  plan bounded. The record it holds, the revocation journal, the files behind both, acceptance of a
  block (\<open>contNotePlan\<close>), revocation (\<open>contRevoke\<close>), the outage tick (\<open>contTick\<close>) and the restore after
  a restart (\<open>contRestore\<close>).

  A Go map is an association list whose order stands for the iteration order, which the theorems
  leave open. Everything the governor asks of its surroundings in one call (clocks, traffic
  counters, the database probe, DHCP ownership, the kernel set, file writes) is a field of the
  call's environment; what it does to the kernel set is a list of actions. Byte counters are
  \<open>uint64\<close>: sums are taken modulo 2^64. The figures kept only for the status route and the log lines
  are left out.
\<close>

section \<open>Data\<close>

definition u64 :: "nat \<Rightarrow> nat" where
  "u64 n = n mod 2 ^ 64"

definition contTakeoverAge :: duration where "contTakeoverAge = 60 * second"
definition contSampleEvery :: duration where "contSampleEvery = 30 * second"
definition contSampleKeep :: nat where "contSampleKeep = 12"
definition contSaveEvery :: duration where "contSaveEvery = 15 * second"
definition contBaselineSlack :: duration where "contBaselineSlack = 5 * second"
definition contRevokeKeep :: duration where "contRevokeKeep = 4 * hour"
definition contRevokeMax :: nat where "contRevokeMax = 4096"
definition phase3LeaseTTL :: duration where "phase3LeaseTTL = 90 * second"
definition phase3LeaseRenewBelow :: duration where "phase3LeaseRenewBelow = 60 * second"

record cont_sess =
  s_SessionID :: string
  s_Bridge :: string
  s_IP :: string
  s_MAC :: string
  s_EntitlementID :: string
  s_Minor :: int
  s_Epoch :: int
  s_DeadlineBoot :: int
  s_Base :: nat
  s_HasBase :: bool
  s_LastUsed :: nat

record gov_budget =
  b_Remaining :: int
  b_Used :: nat
  b_Gone :: nat
  b_Exhausted :: bool

record cont_state =
  st_TenantID :: string
  st_SiteID :: string
  st_ApplianceID :: string
  st_AssignGen :: int
  st_BootID :: string
  st_PlanGen :: int
  st_LastPlanBoot :: int
  st_WindowSec :: int
  st_AsOf :: go_time
  st_Sessions :: "(string \<times> cont_sess) list"
  st_Budgets :: "(string \<times> gov_budget) list"

record cont_revocation =
  r_SessionID :: string
  r_EntitlementID :: string
  r_Bridge :: string
  r_IP :: string
  r_Reason :: string
  r_At :: go_time

record cont_count =
  n_epoch :: int
  n_bytes :: nat

record cont_sample =
  sm_at :: go_time
  sm_bytes :: "(string \<times> cont_count) list"
  sm_classes :: "(string \<times> int) list"

text \<open>A file of the governor: absent, unreadable, failing its checksum, or holding a value.\<close>

datatype 'a gov_file = Missing | Unreadable | Corrupt | Holds 'a

record gov =
  g_st :: "cont_state option"
  g_journal :: "cont_revocation list"
  g_samples :: "cont_sample list"
  g_lastSample :: go_time
  g_lastSaved :: go_time
  g_dirty :: bool
  g_outageSince :: go_time
  g_refused :: string
  g_dropped :: "(string \<times> string) list"
  g_stateFile :: "cont_state gov_file"
  g_journalFile :: "cont_revocation list gov_file"

record phase3_mode =
  m_Active :: bool
  m_TenantID :: string
  m_SiteID :: string
  m_ApplianceID :: string
  m_AssignGen :: int

record managed_class =
  mc_Bridge :: string
  mc_Minor :: int
  mc_Epoch :: int

definition classKey :: "string \<Rightarrow> string \<Rightarrow> string" where
  "classKey bridge sessionID = bridge @ ''|'' @ sessionID"

section \<open>Leases\<close>

definition Truncate :: "duration \<Rightarrow> duration \<Rightarrow> duration" where
  "Truncate d m = (if m \<le> 0 then d else d - go_mod d m)"

definition Milliseconds :: "duration \<Rightarrow> int" where
  "Milliseconds d = go_div d millisecond"

definition leaseFor :: "go_time option \<Rightarrow> go_time \<Rightarrow> duration option" where
  "leaseFor accessEnds now = (case accessEnds of
     None \<Rightarrow> Some phase3LeaseTTL
   | Some e \<Rightarrow>
       let remaining = time_sub e now
       in if remaining \<le> 0 then None
          else if phase3LeaseTTL \<le> remaining then Some phase3LeaseTTL
          else let ttl = Truncate remaining second in if ttl < second then None else Some ttl)"

definition needsRenewal :: "duration \<Rightarrow> duration \<Rightarrow> bool" where
  "needsRenewal remaining want \<longleftrightarrow> remaining \<le> 0 \<or>
     remaining < (if want < phase3LeaseRenewBelow then want else phase3LeaseRenewBelow)"

section \<open>Files and drops\<close>

definition saveState :: "bool \<Rightarrow> go_time \<Rightarrow> gov \<Rightarrow> gov" where
  "saveState ok now g = (case g_st g of
     None \<Rightarrow> g
   | Some st \<Rightarrow> if ok then g\<lparr>g_stateFile := Holds st, g_lastSaved := now, g_dirty := False\<rparr> else g)"

definition removeState :: "gov \<Rightarrow> gov" where
  "removeState g = g\<lparr>g_st := None, g_stateFile := Missing\<rparr>"

definition removeStateLocked :: "gov \<Rightarrow> gov" where
  "removeStateLocked g = (removeState g)\<lparr>g_outageSince := 0\<rparr>"

definition saveJournal :: "bool \<Rightarrow> gov \<Rightarrow> gov" where
  "saveJournal ok g = (if ok then g\<lparr>g_journalFile := Holds (g_journal g)\<rparr> else g)"

definition keep_last :: "nat \<Rightarrow> 'a list \<Rightarrow> 'a list" where
  "keep_last n xs = (if n < length xs then drop (length xs - n) xs else xs)"

definition pruned_journal :: "go_time \<Rightarrow> go_time \<Rightarrow> cont_revocation list \<Rightarrow> cont_revocation list" where
  "pruned_journal now asOf j = keep_last contRevokeMax
     (filter (\<lambda>e. \<not> contRevokeKeep < time_sub now (r_At e) \<and> \<not> (asOf \<noteq> 0 \<and> r_At e < asOf)) j)"

definition pruneJournal :: "go_time \<Rightarrow> go_time \<Rightarrow> gov \<Rightarrow> gov \<times> bool" where
  "pruneJournal now asOf g =
    (g\<lparr>g_journal := pruned_journal now asOf (g_journal g)\<rparr>,
     length (pruned_journal now asOf (g_journal g)) \<noteq> length (g_journal g))"

definition revocation_hits :: "cont_revocation \<Rightarrow> cont_sess \<Rightarrow> bool" where
  "revocation_hits e s \<longleftrightarrow>
     (r_SessionID e \<noteq> '''' \<and> r_SessionID e = s_SessionID s) \<or>
     (r_EntitlementID e \<noteq> '''' \<and> r_EntitlementID e = s_EntitlementID s) \<or>
     (r_IP e \<noteq> '''' \<and> r_IP e = s_IP s \<and> (r_Bridge e = '''' \<or> r_Bridge e = s_Bridge s))"

fun revoked_by :: "cont_revocation list \<Rightarrow> cont_sess \<Rightarrow> string option" where
  "revoked_by [] s = None"
| "revoked_by (e # es) s = (if revocation_hits e s then Some (r_Reason e) else revoked_by es s)"

definition add_gone :: "nat \<Rightarrow> gov_budget \<Rightarrow> gov_budget" where
  "add_gone n b = b\<lparr>b_Gone := u64 (b_Gone b + n)\<rparr>"

definition alist_change :: "'k \<Rightarrow> ('v \<Rightarrow> 'v) \<Rightarrow> ('k \<times> 'v) list \<Rightarrow> ('k \<times> 'v) list" where
  "alist_change k f xs = map (\<lambda>(k', v). (k', if k' = k then f v else v)) xs"

definition drop_session :: "string \<Rightarrow> string \<Rightarrow> gov \<Rightarrow> gov" where
  "drop_session key reason g = (case g_st g of
     None \<Rightarrow> g
   | Some st \<Rightarrow> (case map_of (st_Sessions st) key of
       None \<Rightarrow> g
     | Some s \<Rightarrow>
         let dropped = (if 512 < length (g_dropped g) then [] else g_dropped g);
             budgets = (if s_HasBase s then alist_change (s_EntitlementID s) (add_gone (s_LastUsed s)) (st_Budgets st)
                        else st_Budgets st)
         in g\<lparr>g_st := Some (st\<lparr>st_Sessions := AList.delete key (st_Sessions st), st_Budgets := budgets\<rparr>),
              g_dropped := AList.update (s_SessionID s) reason dropped, g_dirty := True\<rparr>))"

text \<open>A loop over the held sessions that drops those for which \<open>why\<close> gives a reason and collects
  them.\<close>

definition sweep_sessions :: "(string \<Rightarrow> cont_sess \<Rightarrow> string option) \<Rightarrow> (string \<times> cont_sess) list
    \<Rightarrow> gov \<times> cont_sess list \<Rightarrow> gov \<times> cont_sess list" where
  "sweep_sessions why = fold (\<lambda>(k, s) (g, deny). case why k s of
      None \<Rightarrow> (g, deny)
    | Some reason \<Rightarrow> (drop_session k reason g, deny @ [s]))"

definition held :: "gov \<Rightarrow> (string \<times> cont_sess) list" where
  "held g = (case g_st g of None \<Rightarrow> [] | Some st \<Rightarrow> st_Sessions st)"

definition held_budgets :: "gov \<Rightarrow> (string \<times> gov_budget) list" where
  "held_budgets g = (case g_st g of None \<Rightarrow> [] | Some st \<Rightarrow> st_Budgets st)"

definition hasBudgets :: "cont_state \<Rightarrow> bool" where
  "hasBudgets st \<longleftrightarrow> list_ex (\<lambda>(id, b). \<not> b_Exhausted b) (st_Budgets st)"

section \<open>Metering\<close>

definition metered :: "cont_count \<Rightarrow> cont_sess \<Rightarrow> cont_sess" where
  "metered cur s =
    (let u = (if s_Base s \<le> n_bytes cur then n_bytes cur - s_Base s else n_bytes cur)
     in if s_LastUsed s < u then s\<lparr>s_LastUsed := u\<rparr> else s)"

definition meter_session :: "(string \<times> cont_count) list \<Rightarrow> string \<times> cont_sess \<Rightarrow> string \<times> cont_sess" where
  "meter_session cnt ks = (case ks of (k, s) \<Rightarrow>
     if \<not> s_HasBase s then (k, s)
     else (case map_of cnt k of
         None \<Rightarrow> (k, s)
       | Some cur \<Rightarrow> if n_epoch cur \<noteq> s_Epoch s then (k, s) else (k, metered cur s)))"

text \<open>\<open>contRefreshUsage\<close> with the counters it reads (\<open>None\<close>: they could not be read); it returns them
  when the usage was refreshed.\<close>

definition contRefreshUsage ::
  "(string \<times> cont_count) list option \<Rightarrow> gov \<Rightarrow> gov \<times> (string \<times> cont_count) list option" where
  "contRefreshUsage counters g = (case g_st g of
     None \<Rightarrow> (g, None)
   | Some st \<Rightarrow>
       if \<not> hasBudgets st then (g, None)
       else (case counters of
           None \<Rightarrow> (g, None)
         | Some cnt \<Rightarrow> (g\<lparr>g_st := Some (st\<lparr>st_Sessions := map (meter_session cnt) (st_Sessions st)\<rparr>)\<rparr>, Some cnt)))"

section \<open>Revocation\<close>

text \<open>What the governor does to the kernel's authorization set.\<close>

datatype gate_action =
    Deny string string
  | BindMAC string string string
  | Renew string string duration

text \<open>\<open>contRevoke\<close>: the actions it takes, and whether the journal write failed. \<open>valid_ip\<close> is
  \<open>net.ParseIP(_) != nil\<close>.\<close>

definition contRevoke ::
  "(string \<Rightarrow> bool) \<Rightarrow> go_time \<Rightarrow> (string \<times> cont_count) list option \<Rightarrow> bool \<Rightarrow> cont_revocation \<Rightarrow> gov
     \<Rightarrow> gov \<times> gate_action list \<times> bool" where
  "contRevoke valid_ip now counters journal_ok e g =
    (let e = (if r_At e = 0 then e\<lparr>r_At := now\<rparr> else e);
         g = g\<lparr>g_journal := keep_last contRevokeMax (g_journal g @ [e])\<rparr>;
         g = saveJournal journal_ok g
     in case g_st g of
          None \<Rightarrow> (g, [], journal_ok)
        | Some _ \<Rightarrow>
            let g = fst (contRefreshUsage counters g);
                (g, deny) = sweep_sessions (\<lambda>k s. map_option (\<lambda>r. ''revoked: '' @ r) (revoked_by (g_journal g) s))
                              (held g) (g, [])
            in (g, map (\<lambda>s. Deny (s_Bridge s) (s_IP s)) (filter (\<lambda>s. valid_ip (s_IP s)) deny), journal_ok))"

section \<open>Acceptance of a block\<close>

definition baselineAt :: "cont_sample list \<Rightarrow> go_time \<Rightarrow> (string \<times> cont_count) list \<times> (string \<times> int) list option" where
  "baselineAt samples asOf =
    (case rev (filter (\<lambda>s. \<not> asOf + contBaselineSlack < sm_at s) samples) of
       [] \<Rightarrow> ([], None)
     | pick # _ \<Rightarrow> (sm_bytes pick, Some (sm_classes pick)))"

text \<open>The shortest of the window, the producer's hard end and the plan's own boundary.\<close>

definition shorten :: "go_time \<Rightarrow> go_time option \<Rightarrow> duration \<Rightarrow> duration" where
  "shorten now e rem = (case e of None \<Rightarrow> rem
     | Some t \<Rightarrow> if time_sub t now < rem then time_sub t now else rem)"

definition kept_for :: "go_time \<Rightarrow> duration \<Rightarrow> go_time option \<Rightarrow> go_time option \<Rightarrow> duration" where
  "kept_for now window he ends = shorten now ends (shorten now he window)"

text \<open>What \<open>contNotePlan\<close> reads around it: the boot clock in milliseconds and the boot identity (absent
  when unreadable), the managed classes, what the last walk proved, and the two file writes.\<close>

record note_env =
  ne_nowBoot :: "int option"
  ne_boot :: "string option"
  ne_classes :: "string \<rightharpoonup> managed_class"
  ne_renewable :: "string \<Rightarrow> bool"
  ne_journal_ok :: bool
  ne_save_ok :: bool

text \<open>The counter a budgeted session is measured from: \<open>None\<close> when it cannot be metered.\<close>

definition base_for ::
  "(string \<times> cont_count) list \<times> (string \<times> int) list option \<Rightarrow> string \<Rightarrow> int \<Rightarrow> nat option" where
  "base_for bl key epoch = (case map_of (fst bl) key of
     Some b \<Rightarrow> Some (if n_epoch b \<noteq> epoch then 0 else n_bytes b)
   | None \<Rightarrow> (case snd bl of
       None \<Rightarrow> None
     | Some sampled \<Rightarrow> (case map_of sampled key of Some _ \<Rightarrow> None | None \<Rightarrow> Some 0)))"

definition hard_of :: "continuity \<Rightarrow> string \<rightharpoonup> go_time option" where
  "hard_of c = map_of (rev (map (\<lambda>s. (cs_SessionID s, cs_HardEnd s)) (cn_Sessions c)))"

definition budget_for :: "continuity \<Rightarrow> string \<rightharpoonup> int" where
  "budget_for c = map_of (rev (map (\<lambda>b. (cb_EntitlementID b, cb_RemainingBytes b)) (cn_Budgets c)))"

definition fresh_sess :: "plan_session \<Rightarrow> managed_class \<Rightarrow> cont_sess" where
  "fresh_sess s mc = \<lparr>s_SessionID = ps_SessionID s, s_Bridge = ps_Bridge s, s_IP = ps_IP s, s_MAC = ps_MAC s,
     s_EntitlementID = ps_EntitlementID s, s_Minor = mc_Minor mc, s_Epoch = mc_Epoch mc, s_DeadlineBoot = 0,
     s_Base = 0, s_HasBase = False, s_LastUsed = 0\<rparr>"

text \<open>One session of the plan: what is held for it, or nothing.\<close>

definition note_session ::
  "note_env \<Rightarrow> cont_revocation list \<Rightarrow> cont_sample list \<Rightarrow> continuity \<Rightarrow> go_time \<Rightarrow> int \<Rightarrow> plan_session
     \<Rightarrow> (string \<times> cont_sess) option" where
  "note_session ne journal samples c now nowBoot s =
    (if \<not> ps_Entitled s \<or> ps_IP s = '''' \<or> ps_EntitlementID s = '''' then None
     else (case hard_of c (ps_SessionID s) of
       None \<Rightarrow> None
     | Some he \<Rightarrow>
         let key = classKey (ps_Bridge s) (ps_SessionID s)
         in if \<not> ne_renewable ne key then None
            else (case ne_classes ne key of
              None \<Rightarrow> None
            | Some mc \<Rightarrow>
                let cs = fresh_sess s mc;
                    rem = kept_for now (cn_WindowSeconds c * second) he (ps_AccessEndsAt s)
                in if revoked_by journal cs \<noteq> None then None
                   else if rem < second then None
                   else let cs = cs\<lparr>s_DeadlineBoot := nowBoot + Milliseconds rem\<rparr>
                        in (case budget_for c (ps_EntitlementID s) of
                             None \<Rightarrow> Some (key, cs)
                           | Some rb \<Rightarrow> (case base_for (baselineAt samples (cn_AsOf c)) key (mc_Epoch mc) of
                               None \<Rightarrow> None
                             | Some b \<Rightarrow> Some (key, cs\<lparr>s_Base := b, s_HasBase := True\<rparr>))))))"

definition add_noted ::
  "continuity \<Rightarrow> (string \<times> cont_sess) option \<Rightarrow> cont_state \<Rightarrow> cont_state" where
  "add_noted c r st = (case r of
     None \<Rightarrow> st
   | Some (k, s) \<Rightarrow>
       st\<lparr>st_Sessions := AList.update k s (st_Sessions st),
          st_Budgets := (case budget_for c (s_EntitlementID s) of
             None \<Rightarrow> st_Budgets st
           | Some rb \<Rightarrow> if map_of (st_Budgets st) (s_EntitlementID s) = None
                        then AList.update (s_EntitlementID s)
                               \<lparr>b_Remaining = rb, b_Used = 0, b_Gone = 0, b_Exhausted = False\<rparr> (st_Budgets st)
                        else st_Budgets st)\<rparr>)"

text \<open>A block read at the same instant as the one held keeps what departed sessions used and what was
  already spent.\<close>

definition carry_budget :: "(string \<times> gov_budget) list \<Rightarrow> string \<times> gov_budget \<Rightarrow> string \<times> gov_budget" where
  "carry_budget old ib = (case map_of old (fst ib) of
     None \<Rightarrow> ib
   | Some o' \<Rightarrow> (fst ib, (snd ib)\<lparr>b_Gone := b_Gone o', b_Exhausted := b_Exhausted (snd ib) \<or> b_Exhausted o'\<rparr>))"

definition spent :: "(string \<times> gov_budget) list \<Rightarrow> string \<Rightarrow> bool" where
  "spent bs e = (case map_of bs e of None \<Rightarrow> False | Some b \<Rightarrow> b_Exhausted b)"

definition carry_over :: "cont_state option \<Rightarrow> cont_state \<Rightarrow> cont_state" where
  "carry_over old ns = (case old of
     None \<Rightarrow> ns
   | Some o' \<Rightarrow>
       if st_AsOf o' \<noteq> st_AsOf ns then ns
       else let bs = map (carry_budget (st_Budgets o')) (st_Budgets ns)
            in ns\<lparr>st_Budgets := bs,
                  st_Sessions := filter (\<lambda>(k, s). \<not> spent bs (s_EntitlementID s)) (st_Sessions ns)\<rparr>)"

definition noted_state ::
  "note_env \<Rightarrow> cont_revocation list \<Rightarrow> cont_sample list \<Rightarrow> plan_envelope \<Rightarrow> continuity \<Rightarrow> go_time \<Rightarrow> int \<Rightarrow> string
     \<Rightarrow> cont_state" where
  "noted_state ne journal samples env c now nowBoot boot =
    fold (\<lambda>s. add_noted c (note_session ne journal samples c now nowBoot s)) (pe_Sessions env)
     \<lparr>st_TenantID = pe_TenantID env, st_SiteID = pe_SiteID env, st_ApplianceID = pe_ApplianceID env,
      st_AssignGen = pe_AssignmentGen env, st_BootID = boot, st_PlanGen = pe_PlanGeneration env,
      st_LastPlanBoot = nowBoot, st_WindowSec = cn_WindowSeconds c, st_AsOf = cn_AsOf c,
      st_Sessions = [], st_Budgets = []\<rparr>"

definition note_arrival :: "int \<Rightarrow> gov \<Rightarrow> gov" where
  "note_arrival nowBoot g = (case g_st g of
     None \<Rightarrow> g\<lparr>g_outageSince := 0\<rparr>
   | Some st \<Rightarrow> g\<lparr>g_st := Some (st\<lparr>st_LastPlanBoot := nowBoot\<rparr>), g_dirty := True, g_outageSince := 0\<rparr>)"

fun cont_reason_text :: "cont_reason \<Rightarrow> string" where
  "cont_reason_text ReasonContinuityHash = ''continuity_hash_mismatch''"
| "cont_reason_text ReasonContinuityWindow = ''continuity_window_out_of_range''"
| "cont_reason_text ReasonContinuityStale = ''continuity_budget_stale''"
| "cont_reason_text ReasonContinuityFuture = ''continuity_as_of_in_the_future''"

definition contNotePlan ::
  "(string \<Rightarrow> string) \<Rightarrow> (go_time \<Rightarrow> string) \<Rightarrow> note_env \<Rightarrow> plan_envelope \<Rightarrow> go_time \<Rightarrow> gov \<Rightarrow> gov" where
  "contNotePlan sha fmt ne env now g = (case ne_nowBoot ne of
     None \<Rightarrow> removeStateLocked g
   | Some nowBoot \<Rightarrow>
       let g = note_arrival nowBoot g
       in (case pe_Continuity env of
            None \<Rightarrow> g
          | Some c \<Rightarrow>
              if IsOff sha fmt c then (removeStateLocked g)\<lparr>g_refused := ''''\<rparr>
              else (case ValidateContinuity sha fmt c now of
                Some reason \<Rightarrow> (removeStateLocked g)\<lparr>g_refused := cont_reason_text reason\<rparr>
              | None \<Rightarrow>
                  let g = g\<lparr>g_refused := ''''\<rparr>
                  in (case ne_boot ne of
                       None \<Rightarrow> removeStateLocked g
                     | Some boot \<Rightarrow>
                         let (g, changed) = pruneJournal now (cn_AsOf c) g;
                             g = (if changed then saveJournal (ne_journal_ok ne) g else g);
                             ns = carry_over (g_st g)
                                    (noted_state ne (g_journal g) (g_samples g) env c now nowBoot boot);
                             g = g\<lparr>g_st := Some ns, g_dirty := True\<rparr>;
                             g = (if contSaveEvery \<le> time_sub now (g_lastSaved g)
                                  then saveState (ne_save_ok ne) now g else g)
                         in g\<lparr>g_outageSince := 0\<rparr>))))"

section \<open>The outage tick\<close>

definition scope_matches :: "phase3_mode \<Rightarrow> cont_state \<Rightarrow> bool" where
  "scope_matches mode st \<longleftrightarrow> m_Active mode \<and> st_TenantID st = m_TenantID mode \<and> st_SiteID st = m_SiteID mode
     \<and> st_ApplianceID st = m_ApplianceID mode \<and> m_AssignGen mode \<le> st_AssignGen st"

definition contScopeOK :: "phase3_mode \<Rightarrow> gov \<Rightarrow> gov \<times> bool" where
  "contScopeOK mode g = (case g_st g of
     None \<Rightarrow> (g, True)
   | Some st \<Rightarrow> if scope_matches mode st then (g, True)
                else ((removeStateLocked g)\<lparr>g_refused := ''the Phase-3 scope changed or went inactive''\<rparr>, False))"

datatype ownership = Foreign | Owner_unknown | Owned "go_time option"

datatype gate_view = View_unknown | View_absent | View_present duration

text \<open>What one tick reads around it. The mode and the boot clock are read twice: before the database
  is asked, and after. \<open>te_notEntitled\<close> is the probe's answer, empty when it could not be asked.\<close>

record tick_env =
  te_now :: go_time
  te_nowBoot :: "int option"
  te_mode :: phase3_mode
  te_mode2 :: phase3_mode
  te_nowBoot2 :: "int option"
  te_counters :: "(string \<times> cont_count) list option"
  te_classes :: "(string \<times> int) list"
  te_hasConverged :: bool
  te_notEntitled :: "string \<Rightarrow> bool"
  te_valid_ip :: "string \<Rightarrow> bool"
  te_evidence :: "string \<Rightarrow> string \<Rightarrow> ownership"
  te_view :: "string \<Rightarrow> string \<Rightarrow> gate_view"
  te_save_ok :: bool

definition plan_age :: "int \<Rightarrow> cont_state \<Rightarrow> duration" where
  "plan_age nowBoot st = wrap64 (wrap64 (nowBoot - st_LastPlanBoot st) * millisecond)"

definition tick_sample :: "tick_env \<Rightarrow> gov \<Rightarrow> gov" where
  "tick_sample te g =
    (if contSampleEvery \<le> time_sub (te_now te) (g_lastSample g) \<and> te_hasConverged te
     then (case te_counters te of
         None \<Rightarrow> g
       | Some cnt \<Rightarrow>
           g\<lparr>g_samples := keep_last contSampleKeep
                (g_samples g @ [\<lparr>sm_at = te_now te, sm_bytes = cnt, sm_classes = te_classes te\<rparr>]),
             g_lastSample := te_now te\<rparr>)
     else g)"

definition tick_healthy :: "tick_env \<Rightarrow> gov \<Rightarrow> gov" where
  "tick_healthy te g =
    (let g = tick_sample te g
     in if g_dirty g \<and> contSaveEvery \<le> time_sub (te_now te) (g_lastSaved g)
        then saveState (te_save_ok te) (te_now te) g else g)"

text \<open>3-pre: a budgeted session whose class is gone or restarted can no longer be metered.\<close>

definition unmeterable :: "(string \<times> cont_count) list \<Rightarrow> string \<Rightarrow> cont_sess \<Rightarrow> string option" where
  "unmeterable cnt k s =
    (if \<not> s_HasBase s then None
     else (case map_of cnt k of
         None \<Rightarrow> Some ''the traffic class is gone or restarted; it can no longer be metered''
       | Some cur \<Rightarrow> if n_epoch cur \<noteq> s_Epoch s
                     then Some ''the traffic class is gone or restarted; it can no longer be metered'' else None))"

definition tick_meter :: "tick_env \<Rightarrow> gov \<Rightarrow> gov \<times> cont_sess list \<times> bool" where
  "tick_meter te g = (case g_st g of
     None \<Rightarrow> (g, [], True)
   | Some st \<Rightarrow>
       if \<not> hasBudgets st then (g, [], True)
       else (case contRefreshUsage (te_counters te) g of
           (g, None) \<Rightarrow> (g, [], False)
         | (g, Some cnt) \<Rightarrow>
             (case sweep_sessions (unmeterable cnt) (held g) (g, []) of (g, deny) \<Rightarrow> (g, deny, True))))"

text \<open>3a: who is out.\<close>

definition out_reason :: "tick_env \<Rightarrow> int \<Rightarrow> cont_revocation list \<Rightarrow> string \<Rightarrow> cont_sess \<Rightarrow> string option" where
  "out_reason te nowBoot journal k s =
    (if s_DeadlineBoot s \<le> nowBoot then Some ''continuity window or hard end reached''
     else if te_notEntitled te (s_SessionID s) then Some ''the database no longer lists the session as entitled''
     else map_option (\<lambda>r. ''revoked: '' @ r) (revoked_by journal s))"

text \<open>3b: budgets.\<close>

definition used_total :: "gov \<Rightarrow> string \<Rightarrow> gov_budget \<Rightarrow> nat" where
  "used_total g eid b = fold (\<lambda>(k, s) t. if s_HasBase s \<and> s_EntitlementID s = eid then u64 (t + s_LastUsed s) else t)
     (held g) (b_Gone b)"

definition settle_budget :: "gov \<Rightarrow> string \<Rightarrow> gov_budget \<Rightarrow> gov_budget" where
  "settle_budget g eid b =
    (let used = (if b_Used b < used_total g eid b then used_total g eid b else b_Used b);
         b = b\<lparr>b_Used := used\<rparr>
     in if \<not> b_Exhausted b \<and> (b_Remaining b \<le> 0 \<or> nat (b_Remaining b) \<le> used) then b\<lparr>b_Exhausted := True\<rparr> else b)"

definition put_budget :: "string \<Rightarrow> gov_budget \<Rightarrow> gov \<Rightarrow> gov" where
  "put_budget eid b g = (case g_st g of None \<Rightarrow> g
     | Some st \<Rightarrow> g\<lparr>g_st := Some (st\<lparr>st_Budgets := alist_change eid (\<lambda>_. b) (st_Budgets st)\<rparr>)\<rparr>)"

definition budget_step :: "string \<Rightarrow> gov \<times> cont_sess list \<Rightarrow> gov \<times> cont_sess list" where
  "budget_step eid gd = (case gd of (g, deny) \<Rightarrow> (case map_of (held_budgets g) eid of
     None \<Rightarrow> (g, deny)
   | Some b \<Rightarrow>
       let b = settle_budget g eid b;
           g = put_budget eid b g
       in if b_Exhausted b
          then sweep_sessions (\<lambda>k s. if s_EntitlementID s = eid then Some ''data allowance spent during the outage'' else None)
                 (held g) (g, deny)
          else (g, deny)))"

text \<open>3d: what becomes of a session that is left; the flag says whether the binding of the address to the
  MAC was restored on the way.\<close>

datatype renew_decision = Drop_it string | Deny_it string | Skip_it bool | Renew_it bool duration

definition want_ttl :: "tick_env \<Rightarrow> int \<Rightarrow> cont_sess \<Rightarrow> go_time option \<Rightarrow> duration" where
  "want_ttl te nowBoot s until =
    (let want = wrap64 (wrap64 (s_DeadlineBoot s - nowBoot) * millisecond);
         want = (if phase3LeaseTTL < want then phase3LeaseTTL else want);
         want = (case until of None \<Rightarrow> want
           | Some u \<Rightarrow> if time_sub u (te_now te) < want then time_sub u (te_now te) else want)
     in Truncate want second)"

definition lease_decision :: "tick_env \<Rightarrow> cont_sess \<Rightarrow> bool \<Rightarrow> duration \<Rightarrow> renew_decision" where
  "lease_decision te s bind want =
    (if want < second then Skip_it bind
     else (case te_view te (s_Bridge s) (s_IP s) of
         View_unknown \<Rightarrow> Skip_it bind
       | View_absent \<Rightarrow> Skip_it bind
       | View_present expires \<Rightarrow> if needsRenewal expires want then Renew_it bind want else Skip_it bind))"

definition renew_decision :: "tick_env \<Rightarrow> int \<Rightarrow> bool \<Rightarrow> cont_sess \<Rightarrow> renew_decision" where
  "renew_decision te nowBoot meterOK s =
    (if \<not> te_valid_ip te (s_IP s) then Drop_it ''bad address''
     else if s_HasBase s \<and> \<not> meterOK then Skip_it False
     else if s_MAC s = '''' then lease_decision te s False (want_ttl te nowBoot s None)
     else (case te_evidence te (s_IP s) (s_MAC s) of
         Foreign \<Rightarrow> Deny_it ''the address now belongs to another device''
       | Owner_unknown \<Rightarrow> Skip_it False
       | Owned until \<Rightarrow> lease_decision te s True (want_ttl te nowBoot s until)))"

definition bind_action :: "bool \<Rightarrow> cont_sess \<Rightarrow> gate_action list" where
  "bind_action bind s = (if bind then [BindMAC (s_Bridge s) (s_IP s) (s_MAC s)] else [])"

definition renew_step :: "tick_env \<Rightarrow> int \<Rightarrow> bool \<Rightarrow> string \<times> cont_sess
    \<Rightarrow> gov \<times> gate_action list \<times> gate_action list \<Rightarrow> gov \<times> gate_action list \<times> gate_action list" where
  "renew_step te nowBoot meterOK ks gar = (case ks of (k, s) \<Rightarrow> (case gar of (g, acts, reqs) \<Rightarrow>
     (case renew_decision te nowBoot meterOK s of
        Drop_it r \<Rightarrow> (drop_session k r g, acts, reqs)
      | Deny_it r \<Rightarrow> (drop_session k r g, acts @ [Deny (s_Bridge s) (s_IP s)], reqs)
      | Skip_it b \<Rightarrow> (g, acts @ bind_action b s, reqs)
      | Renew_it b ttl \<Rightarrow> (g, acts @ bind_action b s, reqs @ [Renew (s_Bridge s) (s_IP s) ttl]))))"

text \<open>Phase 3 of the tick: the sweeps in the order of the code, the removals, the renewals.\<close>

definition tick_outage :: "tick_env \<Rightarrow> int \<Rightarrow> gov \<Rightarrow> gov \<times> gate_action list" where
  "tick_outage te nowBoot g =
    (case tick_meter te g of (g, deny, meterOK) \<Rightarrow>
     (case sweep_sessions (out_reason te nowBoot (g_journal g)) (held g) (g, deny) of (g, deny) \<Rightarrow>
     (case (if meterOK then fold budget_step (map fst (held_budgets g)) (g, deny) else (g, deny)) of (g, deny) \<Rightarrow>
      let denials = map (\<lambda>s. Deny (s_Bridge s) (s_IP s)) (filter (\<lambda>s. te_valid_ip te (s_IP s)) deny)
      in (case fold (renew_step te nowBoot meterOK) (held g) (g, [], []) of (g, acts, reqs) \<Rightarrow>
           ((if g_dirty g then saveState (te_save_ok te) (te_now te) g else g), denials @ acts @ reqs)))))"

definition contTick :: "tick_env \<Rightarrow> gov \<Rightarrow> gov \<times> gate_action list" where
  "contTick te g = (case te_nowBoot te of
     None \<Rightarrow> (g, [])
   | Some nowBoot \<Rightarrow>
       (case contScopeOK (te_mode te) g of (g, ok) \<Rightarrow>
        (case g_st g of
           None \<Rightarrow> (g, [])
         | Some st \<Rightarrow>
             if \<not> ok then (g, [])
             else if plan_age nowBoot st < contTakeoverAge then (tick_healthy te g, [])
             else let g = (if g_outageSince g = 0 then g\<lparr>g_outageSince := te_now te\<rparr> else g)
                  in (case contScopeOK (te_mode2 te) g of (g, ok2) \<Rightarrow>
                      if \<not> ok2 then (g, [])
                      else if m_TenantID (te_mode2 te) \<noteq> m_TenantID (te_mode te)
                              \<or> m_SiteID (te_mode2 te) \<noteq> m_SiteID (te_mode te) then (g, [])
                      else (case te_nowBoot2 te of
                          None \<Rightarrow> (g, [])
                        | Some nb \<Rightarrow> if plan_age nb st < contTakeoverAge then (g, [])
                                     else tick_outage te nowBoot g)))))"

section \<open>Restart\<close>

text \<open>A new process knows only the files.\<close>

definition new_process :: "gov \<Rightarrow> gov" where
  "new_process g = \<lparr>g_st = None, g_journal = [], g_samples = [], g_lastSample = 0, g_lastSaved = 0, g_dirty = False,
     g_outageSince = 0, g_refused = '''', g_dropped = [], g_stateFile = g_stateFile g, g_journalFile = g_journalFile g\<rparr>"

definition loadJournal :: "gov \<Rightarrow> gov + gov" where
  "loadJournal g = (case g_journalFile g of
     Missing \<Rightarrow> Inr g
   | Unreadable \<Rightarrow> Inl (g\<lparr>g_refused := ''revocation journal unreadable''\<rparr>)
   | Corrupt \<Rightarrow> Inl (g\<lparr>g_refused := ''revocation journal is corrupt''\<rparr>)
   | Holds j \<Rightarrow> Inr (g\<lparr>g_journal := j\<rparr>))"

definition restore_refusal :: "phase3_mode \<Rightarrow> string option \<Rightarrow> int option \<Rightarrow> cont_state \<Rightarrow> string" where
  "restore_refusal mode boot nowBoot st = (case (boot, nowBoot) of
     (Some b, Some nb) \<Rightarrow>
       if \<not> m_Active mode then ''Phase 3 is not active''
       else if st_BootID st \<noteq> b
         then ''continuity record is from another boot (the kernel authorization set did not survive it)''
       else if st_TenantID st \<noteq> m_TenantID mode \<or> st_SiteID st \<noteq> m_SiteID mode \<or> st_ApplianceID st \<noteq> m_ApplianceID mode
         then ''continuity record belongs to another tenant, site or appliance''
       else if st_AssignGen st < m_AssignGen mode then ''continuity record predates the assignment in force''
       else if nb < st_LastPlanBoot st then ''continuity record claims a plan from the future of this boot''
       else ''''
   | _ \<Rightarrow> ''boot identity or monotonic clock unavailable'')"

definition contRestore :: "phase3_mode \<Rightarrow> string option \<Rightarrow> int option \<Rightarrow> gov \<Rightarrow> gov" where
  "contRestore mode boot nowBoot g = (case loadJournal g of
     Inl g' \<Rightarrow> removeState g'
   | Inr g' \<Rightarrow> (case g_stateFile g' of
       Missing \<Rightarrow> g'
     | Unreadable \<Rightarrow> g'\<lparr>g_refused := ''continuity record unreadable''\<rparr>
     | Corrupt \<Rightarrow> (removeState g')\<lparr>g_refused := ''continuity record is corrupt or altered''\<rparr>
     | Holds st \<Rightarrow>
         let r = restore_refusal mode boot nowBoot st
         in if r \<noteq> '''' then (removeState g')\<lparr>g_refused := r\<rparr> else g'\<lparr>g_st := Some st\<rparr>))"

section \<open>Sweeps\<close>

definition wf_gov :: "gov \<Rightarrow> bool" where
  "wf_gov g \<longleftrightarrow> distinct (map fst (held g)) \<and> distinct (map fst (held_budgets g))"

lemma map_fst_alist_change [simp]: "map fst (alist_change k f xs) = map fst xs"
  by (simp add: alist_change_def case_prod_unfold comp_def)

lemma map_of_alist_change: "map_of (alist_change k f xs) k' = (if k' = k then map_option f (map_of xs k) else map_of xs k')"
  by (induction xs) (auto simp: alist_change_def)

text \<open>A drop in terms of what is held.\<close>

lemma held_drop [simp]: "held (drop_session k r g) = AList.delete k (held g)"
  by (auto simp: drop_session_def held_def Let_def delete_idem map_of_eq_None_iff split: option.splits)

lemma journal_drop [simp]: "g_journal (drop_session k r g) = g_journal g" "g_journalFile (drop_session k r g) = g_journalFile g"
    "g_samples (drop_session k r g) = g_samples g" "g_stateFile (drop_session k r g) = g_stateFile g"
  by (simp_all add: drop_session_def Let_def split: option.splits)

lemma st_drop: "g_st (drop_session k r g) = None \<longleftrightarrow> g_st g = None"
  by (simp add: drop_session_def Let_def split: option.splits)

lemma budgets_drop_keys [simp]: "map fst (held_budgets (drop_session k r g)) = map fst (held_budgets g)"
  by (simp add: drop_session_def held_budgets_def Let_def split: option.splits)

lemma budgets_drop:
  "map_of (held_budgets (drop_session k r g)) e =
    (case map_of (held g) k of
       Some s \<Rightarrow> if s_HasBase s \<and> s_EntitlementID s = e
                 then map_option (add_gone (s_LastUsed s)) (map_of (held_budgets g) e)
                 else map_of (held_budgets g) e
     | None \<Rightarrow> map_of (held_budgets g) e)"
  by (auto simp: drop_session_def held_budgets_def held_def Let_def map_of_alist_change split: option.splits)

lemma sweep_Nil [simp]: "sweep_sessions why [] gd = gd"
  by (simp add: sweep_sessions_def)

lemma sweep_Cons:
  "sweep_sessions why ((k, s) # xs) (g, d) = (case why k s of None \<Rightarrow> sweep_sessions why xs (g, d)
     | Some r \<Rightarrow> sweep_sessions why xs (drop_session k r g, d @ [s]))"
  by (simp add: sweep_sessions_def split: option.split)

text \<open>Whatever every drop keeps, every sweep keeps.\<close>

lemma sweep_induct:
  assumes "P g" and "\<And>g k r. P g \<Longrightarrow> P (drop_session k r g)"
  shows "P (fst (sweep_sessions why xs (g, d)))"
  using assms(1)
proof (induction xs arbitrary: g d)
  case (Cons x xs)
  obtain k s where x: "x = (k, s)" by force
  show ?case
    using Cons.IH [OF Cons.prems, of d] Cons.IH [OF assms(2) [OF Cons.prems], of k _ "d @ [s]"]
    by (cases "why k s") (simp_all add: x sweep_Cons)
qed simp

lemma held_sweep_gen:
  "held (fst (sweep_sessions why xs (g, d))) =
     filter (\<lambda>(k, s). \<not> (\<exists>s'. (k, s') \<in> set xs \<and> why k s' \<noteq> None)) (held g)"
proof (induction xs arbitrary: g d)
  case (Cons x xs)
  obtain k s where x: "x = (k, s)" by force
  show ?case
  proof (cases "why k s")
    case None
    with Cons [of g d] x show ?thesis
      by (simp add: sweep_Cons) (rule filter_cong, auto)
  next
    case (Some r)
    with Cons [of "drop_session k r g" "d @ [s]"] x show ?thesis
      by (simp add: sweep_Cons AList.delete_eq) (rule filter_cong, auto)
  qed
qed simp

lemma held_sweep:
  assumes "distinct (map fst (held g))"
  shows "held (fst (sweep_sessions why (held g) (g, d))) = filter (\<lambda>(k, s). why k s = None) (held g)"
  unfolding held_sweep_gen
proof (rule filter_cong [OF refl])
  fix x assume x: "x \<in> set (held g)"
  obtain k s where ks: "x = (k, s)" by force
  have "\<And>s'. (k, s') \<in> set (held g) \<Longrightarrow> s' = s"
    using eq_key_imp_eq_value [OF assms, of k _ s] x ks by simp
  then have "(\<exists>s'. (k, s') \<in> set (held g) \<and> why k s' \<noteq> None) \<longleftrightarrow> why k s \<noteq> None"
    using x ks by metis
  then show "(case x of (k, s) \<Rightarrow> \<not> (\<exists>s'. (k, s') \<in> set (held g) \<and> why k s' \<noteq> None)) =
    (case x of (k, s) \<Rightarrow> why k s = None)"
    by (simp only: ks prod.case not_not)
qed

lemma sweep_journal [simp]:
  "g_journal (fst (sweep_sessions why xs (g, d))) = g_journal g"
  by (rule sweep_induct [where P = "\<lambda>h. g_journal h = g_journal g"]) simp_all

lemma wf_drop: "wf_gov g \<Longrightarrow> wf_gov (drop_session k r g)"
  by (simp add: wf_gov_def distinct_delete)

lemma wf_sweep: "wf_gov g \<Longrightarrow> wf_gov (fst (sweep_sessions why xs (g, d)))"
  by (rule sweep_induct) (simp_all add: wf_drop)

section \<open>What a tick may keep\<close>

text \<open>A session held later is one held earlier, with nothing changed but its metered bytes, which only
  grow.\<close>

definition descends :: "cont_sess \<Rightarrow> cont_sess \<Rightarrow> bool" where
  "descends s s' \<longleftrightarrow> s' = s\<lparr>s_LastUsed := s_LastUsed s'\<rparr> \<and> s_LastUsed s \<le> s_LastUsed s'"

definition gov_le :: "gov \<Rightarrow> gov \<Rightarrow> bool" where
  "gov_le g g' \<longleftrightarrow> (\<forall>(k, s') \<in> set (held g'). \<exists>s. (k, s) \<in> set (held g) \<and> descends s s')"

lemma descends_refl [simp]: "descends s s"
  by (simp add: descends_def)

lemma descends_trans: "descends a b \<Longrightarrow> descends b c \<Longrightarrow> descends a c"
  unfolding descends_def by (cases a; cases b; cases c) auto

lemma descends_fields:
  "descends s s' \<Longrightarrow> s_SessionID s' = s_SessionID s \<and> s_Bridge s' = s_Bridge s \<and> s_IP s' = s_IP s \<and> s_MAC s' = s_MAC s
     \<and> s_EntitlementID s' = s_EntitlementID s \<and> s_DeadlineBoot s' = s_DeadlineBoot s \<and> s_HasBase s' = s_HasBase s
     \<and> s_Base s' = s_Base s \<and> s_Epoch s' = s_Epoch s"
  by (cases s; cases s') (auto simp: descends_def)

lemma gov_le_refl [simp]: "gov_le g g"
  by (auto simp: gov_le_def)

lemma gov_le_trans: "gov_le a b \<Longrightarrow> gov_le b c \<Longrightarrow> gov_le a c"
  unfolding gov_le_def by (fastforce dest: descends_trans)

lemma gov_le_subset: "set (held g') \<subseteq> set (held g) \<Longrightarrow> gov_le g g'"
  by (auto simp: gov_le_def)

lemma gov_le_drop: "gov_le g (drop_session k r g)"
  by (rule gov_le_subset) (auto simp: AList.delete_eq)

lemma gov_le_sweep: "gov_le g (fst (sweep_sessions why xs (g, d)))"
  by (rule gov_le_subset) (auto simp: held_sweep_gen)

lemma descends_metered: "descends s (metered c s)"
  by (auto simp: metered_def descends_def Let_def)

lemma meter_session_descends: "fst (meter_session cnt ks) = fst ks \<and> descends (snd ks) (snd (meter_session cnt ks))"
  by (cases ks) (auto simp: meter_session_def descends_metered split: option.splits)

lemma gov_le_refresh: "gov_le g (fst (contRefreshUsage counters g))"
proof -
  have "held (fst (contRefreshUsage counters g)) = held g \<or>
        (\<exists>cnt. held (fst (contRefreshUsage counters g)) = map (meter_session cnt) (held g))"
    by (auto simp: contRefreshUsage_def held_def split: option.splits)
  then show ?thesis
    by (auto simp: gov_le_def) (metis meter_session_descends fst_conv snd_conv surj_pair)
qed

lemma wf_refresh: "wf_gov g \<Longrightarrow> wf_gov (fst (contRefreshUsage counters g))"
proof -
  have "fst \<circ> meter_session cnt = fst" for cnt
    using meter_session_descends by fastforce
  then show "wf_gov g \<Longrightarrow> wf_gov (fst (contRefreshUsage counters g))"
    by (auto simp: contRefreshUsage_def wf_gov_def held_def held_budgets_def split: option.splits)
qed

lemma refresh_journal [simp]: "g_journal (fst (contRefreshUsage counters g)) = g_journal g"
  by (simp add: contRefreshUsage_def split: option.splits)

subsection \<open>The phases of a tick\<close>

lemma tick_meter_keeps:
  assumes "wf_gov g" and "tick_meter te g = (g', deny, ok)"
  shows "wf_gov g' \<and> gov_le g g' \<and> g_journal g' = g_journal g \<and> (ok = False \<longrightarrow> te_counters te = None)"
proof (cases "\<exists>st cnt. g_st g = Some st \<and> hasBudgets st \<and> te_counters te = Some cnt")
  case False
  then show ?thesis using assms by (auto simp: tick_meter_def contRefreshUsage_def split: option.splits if_splits)
next
  case True
  then obtain st cnt where st: "g_st g = Some st" "hasBudgets st" "te_counters te = Some cnt" by blast
  let ?g1 = "fst (contRefreshUsage (te_counters te) g)"
  have "contRefreshUsage (te_counters te) g = (?g1, Some cnt)"
    using st by (simp add: contRefreshUsage_def)
  with st assms(2) have "g' = fst (sweep_sessions (unmeterable cnt) (held ?g1) (?g1, []))" "ok"
    by (simp_all add: tick_meter_def split: prod.splits)
  then show ?thesis
    using wf_sweep [OF wf_refresh [OF assms(1)]] gov_le_trans [OF gov_le_refresh gov_le_sweep] by simp
qed

lemma held_put [simp]: "held (put_budget eid b g) = held g" "g_journal (put_budget eid b g) = g_journal g"
    "map fst (held_budgets (put_budget eid b g)) = map fst (held_budgets g)"
  by (simp_all add: put_budget_def held_def held_budgets_def split: option.splits)

lemma wf_put: "wf_gov g \<Longrightarrow> wf_gov (put_budget eid b g)"
  by (simp add: wf_gov_def)

lemma budget_step_keeps:
  assumes "wf_gov g" and "budget_step eid (g, d) = (g', d')"
  shows "wf_gov g' \<and> set (held g') \<subseteq> set (held g) \<and> g_journal g' = g_journal g"
proof -
  have *: "wf_gov h \<Longrightarrow> wf_gov (fst (sweep_sessions why xs (h, d))) \<and>
      set (held (fst (sweep_sessions why xs (h, d)))) \<subseteq> set (held h) \<and>
      g_journal (fst (sweep_sessions why xs (h, d))) = g_journal h" for why xs h d
    using wf_sweep by (auto simp: held_sweep_gen)
  show ?thesis
  proof (cases "map_of (held_budgets g) eid")
    case None
    with assms show ?thesis by (simp add: budget_step_def)
  next
    case (Some b)
    let ?b = "settle_budget g eid b"
    have "g' = put_budget eid ?b g \<or> (\<exists>why xs. g' = fst (sweep_sessions why xs (put_budget eid ?b g, d)))"
      using assms(2) Some by (auto simp: budget_step_def Let_def split: if_splits) (metis fst_conv)
    then show ?thesis
      using * [OF wf_put [OF assms(1), of eid ?b]] wf_put [OF assms(1), of eid ?b] by auto
  qed
qed

lemma budget_fold_keeps:
  assumes "wf_gov g" and "fold budget_step ids (g, d) = (g', d')"
  shows "wf_gov g' \<and> set (held g') \<subseteq> set (held g) \<and> g_journal g' = g_journal g"
  using assms
proof (induction ids arbitrary: g d)
  case (Cons i ids)
  obtain h e where h: "budget_step i (g, d) = (h, e)" by force
  with Cons.prems have "fold budget_step ids (h, e) = (g', d')" by simp
  with Cons.IH [of h e] budget_step_keeps [OF Cons.prems(1) h] show ?case by auto
qed simp

definition drops_at_renewal :: "tick_env \<Rightarrow> int \<Rightarrow> bool \<Rightarrow> cont_sess \<Rightarrow> bool" where
  "drops_at_renewal te nb ok s = (case renew_decision te nb ok s of Drop_it _ \<Rightarrow> True | Deny_it _ \<Rightarrow> True | _ \<Rightarrow> False)"

definition renewals :: "tick_env \<Rightarrow> int \<Rightarrow> bool \<Rightarrow> string \<times> cont_sess \<Rightarrow> gate_action list" where
  "renewals te nb ok ks = (case renew_decision te nb ok (snd ks) of
     Renew_it b ttl \<Rightarrow> [Renew (s_Bridge (snd ks)) (s_IP (snd ks)) ttl] | _ \<Rightarrow> [])"

lemma delete_filter: "AList.delete k xs = filter (\<lambda>e. fst e \<noteq> k) xs"
  unfolding AList.delete_eq by (rule filter_cong) auto

lemma renew_step_effect:
  assumes "renew_step te nb ok (k, s) (g, a, r) = (g1, a1, r1)"
  shows "held g1 = filter (\<lambda>e. \<not> (fst e = k \<and> drops_at_renewal te nb ok s)) (held g)
    \<and> r1 = r @ renewals te nb ok (k, s) \<and> g_journal g1 = g_journal g \<and> (wf_gov g \<longrightarrow> wf_gov g1)
    \<and> (\<forall>y \<in> set a1. y \<in> set a \<or> (\<forall>b i t. y \<noteq> Renew b i t))"
proof (cases "renew_decision te nb ok s")
  case (Drop_it x1)
  then show ?thesis using assms
    by (auto simp: renew_step_def drops_at_renewal_def renewals_def delete_filter wf_drop)
next
  case (Deny_it x2)
  then show ?thesis using assms
    by (auto simp: renew_step_def drops_at_renewal_def renewals_def delete_filter wf_drop)
next
  case (Skip_it x3)
  then show ?thesis using assms
    by (cases x3) (auto simp: renew_step_def drops_at_renewal_def renewals_def bind_action_def)
next
  case (Renew_it x4 x5)
  then show ?thesis using assms
    by (cases x4) (auto simp: renew_step_def drops_at_renewal_def renewals_def bind_action_def)
qed

text \<open>The loop of 3d: what it drops and what it asks to renew.\<close>

lemma renew_fold:
  assumes "fold (renew_step te nb ok) xs (g, a, r) = (g', a', r')"
  shows "held g' = filter (\<lambda>(k, s). \<not> (\<exists>s'. (k, s') \<in> set xs \<and> drops_at_renewal te nb ok s')) (held g)
       \<and> r' = r @ concat (map (renewals te nb ok) xs) \<and> g_journal g' = g_journal g
       \<and> (\<forall>x \<in> set a'. x \<in> set a \<or> (\<forall>b i t. x \<noteq> Renew b i t)) \<and> (wf_gov g \<longrightarrow> wf_gov g')"
  using assms
proof (induction xs arbitrary: g a r)
  case (Cons x xs)
  obtain k s where x: "x = (k, s)" by force
  obtain g1 a1 r1 where 1: "renew_step te nb ok x (g, a, r) = (g1, a1, r1)" by (metis prod_cases3)
  with Cons.prems have "fold (renew_step te nb ok) xs (g1, a1, r1) = (g', a', r')" by simp
  note IH = Cons.IH [OF this]
  note step = renew_step_effect [OF 1 [unfolded x]]
  have h: "held g1 = filter (\<lambda>e. \<not> (fst e = k \<and> drops_at_renewal te nb ok s)) (held g)"
    and r1: "r1 = r @ renewals te nb ok x" and j: "g_journal g1 = g_journal g" and w: "wf_gov g \<longrightarrow> wf_gov g1"
    and a1: "\<forall>y \<in> set a1. y \<in> set a \<or> (\<forall>b i t. y \<noteq> Renew b i t)"
    using step unfolding x by blast+
  let ?P = "\<lambda>(k', _). \<exists>s'. (k', s') \<in> set xs \<and> drops_at_renewal te nb ok s'"
  have "held g' = filter (\<lambda>e. \<not> ?P e) (held g1)" using IH by (simp only: case_prod_unfold)
  also have "\<dots> = filter (\<lambda>e. \<not> (fst e = k \<and> drops_at_renewal te nb ok s) \<and> \<not> ?P e) (held g)"
    unfolding h by (simp add: case_prod_unfold)
  also have "\<dots> = filter (\<lambda>(k, s). \<not> (\<exists>s'. (k, s') \<in> set (x # xs) \<and> drops_at_renewal te nb ok s')) (held g)"
    by (rule filter_cong) (auto simp: x)
  finally have "held g' = filter (\<lambda>(k, s). \<not> (\<exists>s'. (k, s') \<in> set (x # xs) \<and> drops_at_renewal te nb ok s')) (held g)" .
  moreover have "\<forall>y \<in> set a'. y \<in> set a \<or> (\<forall>b i t. y \<noteq> Renew b i t)"
    using IH a1 by blast
  ultimately show ?case using IH r1 j w by simp
qed simp

subsection \<open>The length of a renewal\<close>

lemma Truncate_second:
  assumes "second \<le> Truncate w second"
  shows "0 \<le> w" and "Truncate w second \<le> w"
proof -
  have "0 \<le> w"
  proof (rule ccontr)
    assume "\<not> 0 \<le> w"
    then have "Truncate w second = - (second * (\<bar>w\<bar> div second))"
      by (simp add: Truncate_def go_mod_def go_div_def second_def)
    moreover have "0 \<le> \<bar>w\<bar> div second" by (simp add: second_def)
    ultimately show False using assms by (simp add: second_def)
  qed
  then show "0 \<le> w" and "Truncate w second \<le> w"
    by (simp_all add: Truncate_def second_def)
qed

lemma want_ttl_bounds:
  assumes ttl: "ttl = want_ttl te nb s u" "second \<le> ttl" and "nb < s_DeadlineBoot s"
  shows "ttl \<le> phase3LeaseTTL" and "nb * millisecond + ttl \<le> s_DeadlineBoot s * millisecond"
    and "u = Some t \<Longrightarrow> te_now te + ttl \<le> t"
proof -
  let ?d = "s_DeadlineBoot s - nb"
  let ?w0 = "wrap64 (wrap64 ?d * millisecond)"
  let ?w1 = "if phase3LeaseTTL < ?w0 then phase3LeaseTTL else ?w0"
  let ?w2 = "case u of None \<Rightarrow> ?w1 | Some v \<Rightarrow> if time_sub v (te_now te) < ?w1 then time_sub v (te_now te) else ?w1"
  have t2: "ttl \<le> ?w2" "ttl = Truncate ?w2 second"
    using ttl Truncate_second [of ?w2] by (simp_all add: want_ttl_def Let_def)
  then have t1: "ttl \<le> ?w1" by (auto split: option.splits if_splits)
  then show le90: "ttl \<le> phase3LeaseTTL" by (auto split: if_splits)
  have "?w1 \<le> ?d * millisecond"
  proof (cases "?d < 90000")
    case True
    then have "?w0 = ?d * millisecond" using assms(3) by (simp add: wrap64_small millisecond_def)
    then show ?thesis by simp
  next
    case False
    then have "phase3LeaseTTL \<le> ?d * millisecond" by (simp add: phase3LeaseTTL_def duration_defs)
    then show ?thesis by simp
  qed
  with t1 show "nb * millisecond + ttl \<le> s_DeadlineBoot s * millisecond" by (simp add: left_diff_distrib)
  show "te_now te + ttl \<le> t" if "u = Some t"
  proof -
    have "ttl \<le> time_sub t (te_now te)" using t2(1) that by (auto split: if_splits)
    moreover have "0 < ttl" using ttl(2) by (simp add: second_def)
    ultimately show ?thesis by (auto simp: time_sub_def)
  qed
qed

lemma lease_decision_Renew:
  assumes "lease_decision te s b w = Renew_it b' ttl"
  shows "ttl = w \<and> second \<le> w \<and> (\<exists>x. te_view te (s_Bridge s) (s_IP s) = View_present x)"
  using assms by (auto simp: lease_decision_def split: if_splits gate_view.splits)

lemma renew_decision_Renew:
  assumes "renew_decision te nb ok s = Renew_it b ttl" and "nb < s_DeadlineBoot s"
  shows "second \<le> ttl \<and> ttl \<le> phase3LeaseTTL \<and> nb * millisecond + ttl \<le> s_DeadlineBoot s * millisecond
    \<and> te_valid_ip te (s_IP s) \<and> (s_HasBase s \<longrightarrow> ok) \<and> (\<exists>x. te_view te (s_Bridge s) (s_IP s) = View_present x)
    \<and> (s_MAC s \<noteq> '''' \<longrightarrow> (\<exists>u. te_evidence te (s_IP s) (s_MAC s) = Owned u \<and> (\<forall>t. u = Some t \<longrightarrow> te_now te + ttl \<le> t)))"
proof (cases "s_MAC s = ''''")
  case True
  with assms(1) have "lease_decision te s False (want_ttl te nb s None) = Renew_it b ttl"
    and *: "te_valid_ip te (s_IP s)" "s_HasBase s \<longrightarrow> ok"
    by (auto simp: renew_decision_def split: if_splits)
  note l = lease_decision_Renew [OF this(1)]
  then show ?thesis using * True want_ttl_bounds [OF _ _ assms(2), of ttl te None] by auto
next
  case False
  with assms(1) obtain u where u: "te_evidence te (s_IP s) (s_MAC s) = Owned u"
    and "lease_decision te s True (want_ttl te nb s u) = Renew_it b ttl"
    and *: "te_valid_ip te (s_IP s)" "s_HasBase s \<longrightarrow> ok"
    by (auto simp: renew_decision_def split: if_splits ownership.splits)
  note l = lease_decision_Renew [OF this(2)]
  then show ?thesis using * u False want_ttl_bounds [OF _ _ assms(2), of ttl te u] by auto
qed

subsection \<open>The whole tick\<close>

text \<open>The states a tick goes through: after metering, after the sweep of who is out, after the budgets,
  after the renewal loop.\<close>

lemma tick_outage_cases:
  assumes wf: "wf_gov g" and tick: "tick_outage te nb g = (g', acts)"
  obtains g1 d1 ok g3 d3 where
    "tick_meter te g = (g1, d1, ok)"
    "wf_gov g1" "gov_le g g1" "g_journal g1 = g_journal g" "ok = False \<longrightarrow> te_counters te = None"
    "wf_gov g3" "set (held g3) \<subseteq> {(k, s). (k, s) \<in> set (held g1) \<and> out_reason te nb (g_journal g) k s = None}"
    "held g' = filter (\<lambda>(k, s). \<not> drops_at_renewal te nb ok s) (held g3)" "wf_gov g'"
    "\<And>b i t. Renew b i t \<in> set acts \<Longrightarrow> Renew b i t \<in> set (concat (map (renewals te nb ok) (held g3)))"
proof -
  obtain g1 d1 ok where m: "tick_meter te g = (g1, d1, ok)" by (metis prod_cases3)
  note K1 = tick_meter_keeps [OF wf m]
  obtain g2 d2 where 2: "sweep_sessions (out_reason te nb (g_journal g1)) (held g1) (g1, d1) = (g2, d2)" by force
  have K2: "wf_gov g2" "held g2 = filter (\<lambda>(k, s). out_reason te nb (g_journal g1) k s = None) (held g1)"
    using wf_sweep [of g1 "out_reason te nb (g_journal g1)" "held g1" d1] held_sweep [of g1 "out_reason te nb (g_journal g1)" d1]
      K1 2 by (auto simp: wf_gov_def)
  obtain g3 d3 where 3: "(if ok then fold budget_step (map fst (held_budgets g2)) (g2, d2) else (g2, d2)) = (g3, d3)"
    by force
  have K3: "wf_gov g3" "set (held g3) \<subseteq> set (held g2)"
    using 3 K2(1) budget_fold_keeps [OF K2(1), of "map fst (held_budgets g2)" d2 g3 d3] by (auto split: if_splits)
  obtain g4 a4 r4 where 4: "fold (renew_step te nb ok) (held g3) (g3, [], []) = (g4, a4, r4)" by (metis prod_cases3)
  note K4 = renew_fold [OF 4]
  have g': "g' = (if g_dirty g4 then saveState (te_save_ok te) (te_now te) g4 else g4)"
    and acts: "acts = map (\<lambda>s. Deny (s_Bridge s) (s_IP s)) (filter (\<lambda>s. te_valid_ip te (s_IP s)) d3) @ a4 @ r4"
    using tick unfolding tick_outage_def m prod.case 2 3 Let_def 4 by simp_all
  have h': "held g' = held g4" "held_budgets g' = held_budgets g4"
    unfolding g' by (simp_all add: saveState_def held_def held_budgets_def split: option.split)
  have "distinct (map fst (held g3))" using K3(1) by (simp add: wf_gov_def)
  then have uniq: "s' = s" if "(k, s) \<in> set (held g3)" "(k, s') \<in> set (held g3)" for k s s'
    using that eq_key_imp_eq_value [of "held g3" k s s'] by simp
  have "held g4 = filter (\<lambda>(k, s). \<not> (\<exists>s'. (k, s') \<in> set (held g3) \<and> drops_at_renewal te nb ok s')) (held g3)"
    using K4 by simp
  also have "\<dots> = filter (\<lambda>(k, s). \<not> drops_at_renewal te nb ok s) (held g3)"
    by (rule filter_cong) (auto dest: uniq)
  finally have held4: "held g4 = filter (\<lambda>(k, s). \<not> drops_at_renewal te nb ok s) (held g3)" .
  show thesis
  proof (rule that [OF m])
    show "held g' = filter (\<lambda>(k, s). \<not> drops_at_renewal te nb ok s) (held g3)" using h' held4 by simp
    have "wf_gov g4" using K4 K3(1) by blast
    then show "wf_gov g'" unfolding wf_gov_def h' .
    show "Renew b i t \<in> set acts \<Longrightarrow> Renew b i t \<in> set (concat (map (renewals te nb ok) (held g3)))" for b i t
      using K4 unfolding acts by auto
    show "set (held g3) \<subseteq> {(k, s). (k, s) \<in> set (held g1) \<and> out_reason te nb (g_journal g) k s = None}"
      using K3(2) K2(2) K1 by auto
  qed (use K1 K3 in auto)
qed

lemma tick_outage_keeps:
  assumes "wf_gov g" and "tick_outage te nb g = (g', acts)"
  shows "wf_gov g' \<and> gov_le g g'"
  using assms
proof (rule tick_outage_cases)
  fix g1 ok g3
  assume "gov_le g g1" "wf_gov g'"
    and 3: "set (held g3) \<subseteq> {(k, s). (k, s) \<in> set (held g1) \<and> out_reason te nb (g_journal g) k s = None}"
    and h: "held g' = filter (\<lambda>(k, s). \<not> drops_at_renewal te nb ok s) (held g3)"
  have "set (held g') \<subseteq> set (held g1)" using 3 h by auto
  then show ?thesis using \<open>wf_gov g'\<close> gov_le_trans [OF \<open>gov_le g g1\<close> gov_le_subset] by blast
qed

text \<open>What every step short of a save leaves of the journal and the files.\<close>

definition same_files :: "gov \<Rightarrow> gov \<Rightarrow> bool" where
  "same_files g h \<longleftrightarrow> g_journal h = g_journal g \<and> g_journalFile h = g_journalFile g \<and> g_stateFile h = g_stateFile g"

lemma same_files_refl [simp]: "same_files g g"
  by (simp add: same_files_def)

lemma same_files_trans: "same_files a b \<Longrightarrow> same_files b c \<Longrightarrow> same_files a c"
  by (simp add: same_files_def)

definition saved_or_same :: "gov \<Rightarrow> gov \<Rightarrow> bool" where
  "saved_or_same g h \<longleftrightarrow> g_journal h = g_journal g \<and> g_journalFile h = g_journalFile g \<and>
     (g_stateFile h = g_stateFile g \<or> g_stateFile h = Missing \<or> (\<exists>st. g_st h = Some st \<and> g_stateFile h = Holds st))"

lemma saved_saveState: "same_files g h \<Longrightarrow> saved_or_same g (saveState ok now h)"
  by (auto simp: same_files_def saved_or_same_def saveState_def split: option.split)

lemma saved_same: "same_files g h \<Longrightarrow> saved_or_same g h"
  by (simp add: same_files_def saved_or_same_def)

lemma saved_healthy: "saved_or_same g (tick_healthy te g)"
proof -
  have "same_files g (tick_sample te g)" by (simp add: same_files_def tick_sample_def split: option.split)
  then show ?thesis using saved_saveState saved_same by (auto simp: tick_healthy_def Let_def)
qed

lemma scope_keeps:
  assumes "contScopeOK mode g = (g', ok)"
  shows "(g' = g \<and> ok \<and> (\<forall>st. g_st g = Some st \<longrightarrow> scope_matches mode st)) \<or> (g_st g' = None \<and> \<not> ok \<and> saved_or_same g g')"
  using assms
  by (auto simp: contScopeOK_def removeStateLocked_def removeState_def saved_or_same_def split: option.splits if_splits)

lemma none_keeps: "g_st g' = None \<Longrightarrow> wf_gov g' \<and> gov_le g g'"
  by (simp add: wf_gov_def held_def held_budgets_def gov_le_def)

lemma healthy_st: "g_st (tick_healthy te g) = g_st g"
  by (simp add: tick_healthy_def tick_sample_def saveState_def Let_def split: option.split)

text \<open>A tick either changes no session and no kernel element, or forgets the record, or is an outage
  tick in the scope of the record, long after the last plan.\<close>

lemma contTick_cases:
  assumes "contTick te g = (g', acts)"
  obtains (quiet) "g_st g' = g_st g" "acts = []" "saved_or_same g g'"
  | (cleared) "g_st g' = None" "acts = []" "saved_or_same g g'"
  | (outage) st nb g0 where "g_st g = Some st" "te_nowBoot te = Some nb" "scope_matches (te_mode te) st"
      "scope_matches (te_mode2 te) st" "contTakeoverAge \<le> plan_age nb st"
      "g_st g0 = Some st" "same_files g g0" "tick_outage te nb g0 = (g', acts)"
proof (cases "te_nowBoot te")
  case None
  then show ?thesis using assms quiet saved_same [OF same_files_refl] by (simp add: contTick_def)
next
  case (Some nb)
  obtain h ok where h: "contScopeOK (te_mode te) g = (h, ok)" by force
  from scope_keeps [OF h] show ?thesis
  proof
    assume "g_st h = None \<and> \<not> ok \<and> saved_or_same g h"
    then show ?thesis using assms Some h cleared by (simp add: contTick_def)
  next
    assume s: "h = g \<and> ok \<and> (\<forall>st. g_st g = Some st \<longrightarrow> scope_matches (te_mode te) st)"
    show ?thesis
    proof (cases "g_st g")
      case None
      then show ?thesis using assms Some h s quiet saved_same [OF same_files_refl] by (simp add: contTick_def)
    next
      case st: (Some st)
      show ?thesis
      proof (cases "plan_age nb st < contTakeoverAge")
        case True
        then show ?thesis using assms Some h s st quiet healthy_st [of te g] saved_healthy [of g te] by (auto simp: contTick_def)
      next
        case False
        let ?g = "if g_outageSince g = 0 then g\<lparr>g_outageSince := te_now te\<rparr> else g"
        have st': "g_st ?g = Some st" "same_files g ?g" using st by (simp_all add: same_files_def)
        obtain h2 ok2 where h2: "contScopeOK (te_mode2 te) ?g = (h2, ok2)" by force
        have tick: "contTick te g = (if \<not> ok2 then (h2, [])
            else if m_TenantID (te_mode2 te) \<noteq> m_TenantID (te_mode te) \<or> m_SiteID (te_mode2 te) \<noteq> m_SiteID (te_mode te)
            then (h2, []) else (case te_nowBoot2 te of None \<Rightarrow> (h2, [])
              | Some nb2 \<Rightarrow> if plan_age nb2 st < contTakeoverAge then (h2, []) else tick_outage te nb h2))"
          using Some h s st False h2 by (simp add: contTick_def)
        from scope_keeps [OF h2] show ?thesis
        proof
          assume "g_st h2 = None \<and> \<not> ok2 \<and> saved_or_same ?g h2"
          then show ?thesis using assms tick cleared by (auto simp: saved_or_same_def split: if_splits)
        next
          assume "h2 = ?g \<and> ok2 \<and> (\<forall>st. g_st ?g = Some st \<longrightarrow> scope_matches (te_mode2 te) st)"
          then show ?thesis
            using assms tick st' quiet outage [OF st Some _ _ _ st'] s st False saved_same [OF st'(2)]
            by (auto split: if_splits option.splits)
        qed
      qed
    qed
  qed
qed

lemma contTick_keeps:
  assumes "wf_gov g" and "contTick te g = (g', acts)"
  shows "wf_gov g' \<and> gov_le g g'"
proof -
  have eq: "wf_gov h \<and> gov_le g h" if "g_st h = g_st g" for h
  proof -
    have "held h = held g" "held_budgets h = held_budgets g"
      using that by (simp_all add: held_def held_budgets_def)
    then show ?thesis using assms(1) by (auto simp: wf_gov_def gov_le_subset)
  qed
  from assms(2) show ?thesis
  proof (cases rule: contTick_cases)
    case (outage st nb g0)
    then have "wf_gov g0" "gov_le g g0" using eq by auto
    then show ?thesis using tick_outage_keeps [OF _ outage(8)] gov_le_trans by blast
  qed (use eq none_keeps in auto)
qed

subsection \<open>Renewals are bounded\<close>

definition may_renew :: "tick_env \<Rightarrow> gov \<Rightarrow> int \<Rightarrow> cont_sess \<Rightarrow> duration \<Rightarrow> bool" where
  "may_renew te g nb s ttl \<longleftrightarrow>
     second \<le> ttl \<and> ttl \<le> phase3LeaseTTL \<and> nb * millisecond + ttl \<le> s_DeadlineBoot s * millisecond
   \<and> revoked_by (g_journal g) s = None \<and> \<not> te_notEntitled te (s_SessionID s)
   \<and> (\<exists>x. te_view te (s_Bridge s) (s_IP s) = View_present x)
   \<and> (s_MAC s \<noteq> '''' \<longrightarrow> (\<exists>u. te_evidence te (s_IP s) (s_MAC s) = Owned u \<and> (\<forall>t. u = Some t \<longrightarrow> te_now te + ttl \<le> t)))"

lemma tick_outage_renewal:
  assumes wf: "wf_gov g" and tick: "tick_outage te nb g = (g', acts)" and act: "Renew b i ttl \<in> set acts"
  shows "\<exists>k s. (k, s) \<in> set (held g') \<and> s_Bridge s = b \<and> s_IP s = i \<and> may_renew te g nb s ttl"
  using wf tick
proof (rule tick_outage_cases)
  fix g1 d1 ok g3
  assume 3: "set (held g3) \<subseteq> {(k, s). (k, s) \<in> set (held g1) \<and> out_reason te nb (g_journal g) k s = None}"
    and h': "held g' = filter (\<lambda>(k, s). \<not> drops_at_renewal te nb ok s) (held g3)"
    and "\<And>b i t. Renew b i t \<in> set acts \<Longrightarrow> Renew b i t \<in> set (concat (map (renewals te nb ok) (held g3)))"
  then obtain k s where ks: "(k, s) \<in> set (held g3)" and "Renew b i ttl \<in> set (renewals te nb ok (k, s))"
    using act by force
  then obtain bd where dec: "renew_decision te nb ok s = Renew_it bd ttl" and bi: "s_Bridge s = b" "s_IP s = i"
    by (cases "renew_decision te nb ok s") (auto simp: renewals_def)
  have out: "out_reason te nb (g_journal g) k s = None" using 3 ks by auto
  then have "nb < s_DeadlineBoot s" "\<not> te_notEntitled te (s_SessionID s)" "revoked_by (g_journal g) s = None"
    by (auto simp: out_reason_def split: if_splits)
  moreover have "(k, s) \<in> set (held g')" using h' ks dec by (auto simp: drops_at_renewal_def)
  ultimately show ?thesis using renew_decision_Renew [OF dec] bi unfolding may_renew_def by blast
qed

text \<open>
  during an outage the governor renews only what the last healthy plan bounded. Every renewal
  of a tick is for a session it held before and still holds, in the scope of the record, at least
  60 s after the last plan; it lasts at most 90 s, ends by the session's deadline on the boot clock
  and by the end of the DHCP lease of the address; the kernel element was present (an absent one is
  never created), the address was proven to belong to the device, and neither the revocation journal
  nor the database's answer named the session.
\<close>
theorem tick_renews_only_bounded:
  assumes "wf_gov g" and "contTick te g = (g', acts)" and "Renew b i ttl \<in> set acts"
  shows "\<exists>st nb k s0 s. g_st g = Some st \<and> te_nowBoot te = Some nb
    \<and> scope_matches (te_mode te) st \<and> scope_matches (te_mode2 te) st \<and> contTakeoverAge \<le> plan_age nb st
    \<and> (k, s0) \<in> set (held g) \<and> (k, s) \<in> set (held g') \<and> descends s0 s
    \<and> s_Bridge s = b \<and> s_IP s = i \<and> may_renew te g nb s ttl"
  using assms(2)
proof (cases rule: contTick_cases)
  case (outage st nb g0)
  then have h0: "held g0 = held g" "held_budgets g0 = held_budgets g" by (simp_all add: held_def held_budgets_def)
  then have wf: "wf_gov g0" using assms(1) by (simp add: wf_gov_def)
  obtain k s where ks: "(k, s) \<in> set (held g')" "s_Bridge s = b" "s_IP s = i" "may_renew te g0 nb s ttl"
    using tick_outage_renewal [OF wf outage(8) assms(3)] by blast
  moreover have "may_renew te g nb s ttl" using ks(4) outage(7) by (simp add: may_renew_def same_files_def)
  moreover obtain s0 where "(k, s0) \<in> set (held g)" "descends s0 s"
    using tick_outage_keeps [OF wf outage(8)] ks(1) h0 by (auto simp: gov_le_def)
  ultimately show ?thesis using outage by blast
qed (use assms(3) in auto)

definition example_sess :: cont_sess where
  "example_sess = \<lparr>s_SessionID = ''s1'', s_Bridge = ''br10'', s_IP = ''10.0.0.9'', s_MAC = ''aa'', s_EntitlementID = ''e'',
     s_Minor = 5, s_Epoch = 1, s_DeadlineBoot = 1000000, s_Base = 0, s_HasBase = False, s_LastUsed = 0\<rparr>"

definition example_gov :: gov where
  "example_gov = \<lparr>g_st = Some \<lparr>st_TenantID = ''t'', st_SiteID = ''s'', st_ApplianceID = ''a'', st_AssignGen = 2,
       st_BootID = ''b'', st_PlanGen = 7, st_LastPlanBoot = 100000, st_WindowSec = 900, st_AsOf = 5,
       st_Sessions = [(''br10|s1'', example_sess)], st_Budgets = []\<rparr>,
     g_journal = [], g_samples = [], g_lastSample = 0, g_lastSaved = 0, g_dirty = False, g_outageSince = 0,
     g_refused = '''', g_dropped = [], g_stateFile = Missing, g_journalFile = Missing\<rparr>"

definition example_mode :: phase3_mode where
  "example_mode = \<lparr>m_Active = True, m_TenantID = ''t'', m_SiteID = ''s'', m_ApplianceID = ''a'', m_AssignGen = 2\<rparr>"

definition example_tick :: "int \<Rightarrow> tick_env" where
  "example_tick nb = \<lparr>te_now = 1000, te_nowBoot = Some nb, te_mode = example_mode, te_mode2 = example_mode,
     te_nowBoot2 = Some nb, te_counters = None, te_classes = [], te_hasConverged = True, te_notEntitled = (\<lambda>_. False),
     te_valid_ip = (\<lambda>_. True), te_evidence = (\<lambda>_ _. Owned None), te_view = (\<lambda>_ _. View_present (30 * second)),
     te_save_ok = True\<rparr>"

lemmas tick_eval = contTick_def example_tick_def example_gov_def example_mode_def contScopeOK_def scope_matches_def
  plan_age_def wrap64_small millisecond_def contTakeoverAge_def second_def tick_outage_def tick_meter_def hasBudgets_def
  held_def held_budgets_def sweep_sessions_def out_reason_def example_sess_def renew_step_def renew_decision_def
  lease_decision_def want_ttl_def Truncate_def phase3LeaseTTL_def needsRenewal_def phase3LeaseRenewBelow_def
  bind_action_def saveState_def Let_def

lemma example_tick_acts:
  "snd (contTick (example_tick 200000) example_gov) =
     [BindMAC ''br10'' ''10.0.0.9'' ''aa'', Renew ''br10'' ''10.0.0.9'' (90 * second)]"
  by (simp add: tick_eval)

lemma wf_example: "wf_gov example_gov"
  by (simp add: wf_gov_def example_gov_def held_def held_budgets_def)

theorem tick_renews_only_bounded_witness:
  "\<exists>k s. (k, s) \<in> set (held (fst (contTick (example_tick 200000) example_gov))) \<and>
     200000 * millisecond + 90 * second \<le> s_DeadlineBoot s * millisecond"
proof -
  have nb: "te_nowBoot (example_tick 200000) = Some 200000" by (simp add: example_tick_def)
  have "Renew ''br10'' ''10.0.0.9'' (90 * second) \<in> set (snd (contTick (example_tick 200000) example_gov))"
    by (simp add: example_tick_acts)
  from tick_renews_only_bounded [OF wf_example surjective_pairing this] nb
  show ?thesis unfolding may_renew_def by (metis option.inject)
qed

subsection \<open>An outage as a sequence of ticks and revocations\<close>

datatype outage_op =
    Tick tick_env
  | Revoke "string \<Rightarrow> bool" go_time "(string \<times> cont_count) list option" bool cont_revocation

fun outage_step :: "gov \<Rightarrow> outage_op \<Rightarrow> gov" where
  "outage_step g (Tick te) = fst (contTick te g)"
| "outage_step g (Revoke valid now cnt ok e) = fst (contRevoke valid now cnt ok e g)"

text \<open>The journal entry a revocation adds, and the governor with it recorded.\<close>

definition stamped :: "go_time \<Rightarrow> cont_revocation \<Rightarrow> cont_revocation" where
  "stamped now e = (if r_At e = 0 then e\<lparr>r_At := now\<rparr> else e)"

definition journalled :: "bool \<Rightarrow> cont_revocation \<Rightarrow> gov \<Rightarrow> gov" where
  "journalled ok e g = saveJournal ok (g\<lparr>g_journal := keep_last contRevokeMax (g_journal g @ [e])\<rparr>)"

lemma journalled_simps [simp]:
  "g_st (journalled ok e g) = g_st g" "held (journalled ok e g) = held g"
  "held_budgets (journalled ok e g) = held_budgets g" "wf_gov (journalled ok e g) = wf_gov g"
  "g_journal (journalled ok e g) = keep_last contRevokeMax (g_journal g @ [e])"
  by (simp_all add: journalled_def saveJournal_def held_def held_budgets_def wf_gov_def)

lemma contRevoke_alt:
  "contRevoke valid now cnt ok e g =
    (let g = journalled ok (stamped now e) g
     in if g_st g = None then (g, [], ok)
        else let g = fst (contRefreshUsage cnt g);
                 (g, deny) = sweep_sessions (\<lambda>k s. map_option (\<lambda>r. ''revoked: '' @ r) (revoked_by (g_journal g) s)) (held g) (g, [])
             in (g, map (\<lambda>s. Deny (s_Bridge s) (s_IP s)) (filter (\<lambda>s. valid (s_IP s)) deny), ok))"
  by (simp add: contRevoke_def journalled_def stamped_def Let_def split: option.split)

lemma contRevoke_state:
  "fst (contRevoke valid now cnt ok e g) =
    (let g = journalled ok (stamped now e) g
     in if g_st g = None then g
        else let g = fst (contRefreshUsage cnt g)
             in fst (sweep_sessions (\<lambda>k s. map_option (\<lambda>r. ''revoked: '' @ r) (revoked_by (g_journal g) s)) (held g) (g, [])))"
  by (simp add: contRevoke_alt Let_def split: prod.split)

lemma contRevoke_keeps:
  assumes "wf_gov g"
  shows "wf_gov (fst (contRevoke valid now cnt ok e g)) \<and> gov_le g (fst (contRevoke valid now cnt ok e g))"
proof -
  let ?j = "journalled ok (stamped now e) g"
  have "gov_le g ?j" by (rule gov_le_subset) simp
  moreover have "wf_gov (fst (contRefreshUsage cnt ?j))" using assms by (intro wf_refresh) simp
  ultimately show ?thesis
    unfolding contRevoke_state Let_def
    using assms wf_sweep gov_le_trans [OF gov_le_trans [OF _ gov_le_refresh] gov_le_sweep] by simp
qed

interpretation outage: monotone_machine outage_step wf_gov gov_le
proof (standard, goal_cases)
  case (1 s x)
  then show ?case using contTick_keeps [OF 1 surjective_pairing] contRevoke_keeps [OF 1] by (cases x) auto
next
  case (4 s x)
  then show ?case using contTick_keeps [OF 4 surjective_pairing] contRevoke_keeps [OF 4] by (cases x) auto
qed (auto intro: gov_le_trans)



section \<open>What a block lets the governor keep\<close>

definition noted_ok ::
  "note_env \<Rightarrow> cont_revocation list \<Rightarrow> plan_envelope \<Rightarrow> continuity \<Rightarrow> go_time \<Rightarrow> int \<Rightarrow> string \<times> cont_sess \<Rightarrow> bool" where
  "noted_ok ne journal env c now nb ks \<longleftrightarrow>
    (\<exists>ps \<in> set (pe_Sessions env). \<exists>he. ps_Entitled ps \<and> fst ks = classKey (ps_Bridge ps) (ps_SessionID ps)
      \<and> s_SessionID (snd ks) = ps_SessionID ps \<and> s_Bridge (snd ks) = ps_Bridge ps \<and> s_IP (snd ks) = ps_IP ps
      \<and> s_MAC (snd ks) = ps_MAC ps \<and> s_EntitlementID (snd ks) = ps_EntitlementID ps
      \<and> hard_of c (ps_SessionID ps) = Some he \<and> ne_renewable ne (fst ks) \<and> ne_classes ne (fst ks) \<noteq> None
      \<and> revoked_by journal (snd ks) = None
      \<and> s_DeadlineBoot (snd ks) \<le> nb + cn_WindowSeconds c * 1000
      \<and> (\<forall>t \<in> {he, ps_AccessEndsAt ps}. \<forall>e. t = Some e \<longrightarrow>
           (s_DeadlineBoot (snd ks) - nb) * millisecond \<le> e - now)
      \<and> (budget_for c (ps_EntitlementID ps) \<noteq> None \<longrightarrow> s_HasBase (snd ks)))"

lemma revoked_by_hits: "(\<And>e. revocation_hits e s = revocation_hits e s') \<Longrightarrow> revoked_by j s = revoked_by j s'"
  by (induction j) auto

lemma Milliseconds_le: "0 \<le> d \<Longrightarrow> Milliseconds d * millisecond \<le> d \<and> 0 \<le> Milliseconds d"
  unfolding Milliseconds_def millisecond_def
  using pos_imp_zdiv_nonneg_iff [of 1000000 d] div_mult_mod_eq [of d 1000000] by simp

lemma kept_for_le:
  "kept_for now w he ends \<le> w"
  "he = Some e \<Longrightarrow> kept_for now w he ends \<le> time_sub e now"
  "ends = Some e \<Longrightarrow> kept_for now w he ends \<le> time_sub e now"
  by (auto simp: kept_for_def shorten_def split: option.splits)

lemma deadline_before:
  assumes "0 \<le> rem" and "rem \<le> time_sub e now"
  shows "Milliseconds rem * millisecond \<le> e - now"
proof -
  have "time_sub e now \<le> e - now" using assms by (auto simp: time_sub_def)
  then show ?thesis using Milliseconds_le [OF assms(1)] assms(2) by linarith
qed

lemma note_session_ok:
  assumes "note_session ne journal samples c now nb s = Some ks" and "s \<in> set (pe_Sessions env)"
  shows "noted_ok ne journal env c now nb ks"
proof -
  let ?k = "classKey (ps_Bridge s) (ps_SessionID s)"
  from assms(1) obtain he mc where *: "ps_Entitled s" "hard_of c (ps_SessionID s) = Some he" "ne_renewable ne ?k"
    "ne_classes ne ?k = Some mc" "revoked_by journal (fresh_sess s mc) = None"
    and rem: "\<not> kept_for now (cn_WindowSeconds c * second) he (ps_AccessEndsAt s) < second"
    by (auto simp: note_session_def Let_def split: if_splits option.splits)
  let ?rem = "kept_for now (cn_WindowSeconds c * second) he (ps_AccessEndsAt s)"
  have ks: "fst ks = ?k" "s_DeadlineBoot (snd ks) = nb + Milliseconds ?rem" "s_SessionID (snd ks) = ps_SessionID s"
    "s_Bridge (snd ks) = ps_Bridge s" "s_IP (snd ks) = ps_IP s" "s_MAC (snd ks) = ps_MAC s"
    "s_EntitlementID (snd ks) = ps_EntitlementID s" "budget_for c (ps_EntitlementID s) \<noteq> None \<longrightarrow> s_HasBase (snd ks)"
    using assms(1) * by (auto simp: note_session_def Let_def fresh_sess_def split: if_splits option.splits)
  have pos: "0 \<le> ?rem" using rem by (simp add: second_def)
  have "Milliseconds ?rem * millisecond \<le> cn_WindowSeconds c * 1000 * millisecond"
    using Milliseconds_le [OF pos] kept_for_le(1) [of now "cn_WindowSeconds c * second" he "ps_AccessEndsAt s"]
    by (simp add: duration_defs)
  then have "Milliseconds ?rem \<le> cn_WindowSeconds c * 1000" by (simp add: millisecond_def)
  moreover have "revoked_by journal (snd ks) = None"
    using *(5) revoked_by_hits [of "snd ks" "fresh_sess s mc" journal] ks by (simp add: revocation_hits_def fresh_sess_def)
  moreover have "\<forall>t \<in> {he, ps_AccessEndsAt s}. \<forall>e. t = Some e \<longrightarrow> Milliseconds ?rem * millisecond \<le> e - now"
    using deadline_before [OF pos] kept_for_le by auto
  ultimately show ?thesis using assms(2) * ks unfolding noted_ok_def by (intro bexI [of _ s] exI [of _ he]) simp_all
qed

definition state_wf :: "cont_state \<Rightarrow> bool" where
  "state_wf st \<longleftrightarrow> distinct (map fst (st_Sessions st)) \<and> distinct (map fst (st_Budgets st))"

lemma update_member: "(k, v) \<in> set (AList.update k' v' xs) \<Longrightarrow> (k, v) = (k', v') \<or> (k, v) \<in> set xs"
  by (induction xs) (auto split: if_splits)

lemma add_noted_keeps:
  assumes "state_wf st" and "list_all P (st_Sessions st)" and "\<And>ks. r = Some ks \<Longrightarrow> P ks"
  shows "state_wf (add_noted c r st) \<and> list_all P (st_Sessions (add_noted c r st)) \<and> st_AsOf (add_noted c r st) = st_AsOf st"
  using assms
  by (auto simp: add_noted_def state_wf_def list_all_iff distinct_update split: option.split prod.split
      dest!: update_member)

lemma noted_state_keeps:
  "state_wf (noted_state ne j samples env c now nb boot) \<and>
    list_all (noted_ok ne j env c now nb) (st_Sessions (noted_state ne j samples env c now nb boot))"
proof -
  have "state_wf (fold (\<lambda>s. add_noted c (note_session ne j samples c now nb s)) xs st) \<and>
      list_all (noted_ok ne j env c now nb)
        (st_Sessions (fold (\<lambda>s. add_noted c (note_session ne j samples c now nb s)) xs st))"
    if "set xs \<subseteq> set (pe_Sessions env)" "state_wf st" "list_all (noted_ok ne j env c now nb) (st_Sessions st)" for xs st
    using that
  proof (induction xs arbitrary: st)
    case (Cons x xs)
    from Cons.prems have "state_wf (add_noted c (note_session ne j samples c now nb x) st) \<and>
      list_all (noted_ok ne j env c now nb) (st_Sessions (add_noted c (note_session ne j samples c now nb x) st))"
      using add_noted_keeps [of st "noted_ok ne j env c now nb" "note_session ne j samples c now nb x" c]
        note_session_ok [of ne j samples c now nb x _ env] by auto
    with Cons.IH Cons.prems(1) show ?case by simp
  qed simp
  then show ?thesis unfolding noted_state_def by (simp add: state_wf_def)
qed

lemma carry_over_keeps:
  assumes "state_wf ns"
  shows "state_wf (carry_over old ns) \<and> set (st_Sessions (carry_over old ns)) \<subseteq> set (st_Sessions ns)"
proof -
  have "map fst (map (carry_budget bs) xs) = map fst xs" for bs xs
    by (induction xs) (auto simp: carry_budget_def split: option.split)
  then show ?thesis
    using assms by (auto simp: carry_over_def state_wf_def Let_def distinct_map_filter split: option.split simp del: map_map)
qed

lemma contNotePlan_st:
  assumes "g_st (contNotePlan sha fmt ne env now g) = Some st" and "pe_Continuity env = Some c"
  shows "ValidateContinuity sha fmt c now = None \<and>
    (\<exists>nb boot j samples old. ne_nowBoot ne = Some nb \<and> ne_boot ne = Some boot
      \<and> j = g_journal (contNotePlan sha fmt ne env now g)
      \<and> st = carry_over old (noted_state ne j samples env c now nb boot))"
proof -
  have rm: "g_st (removeStateLocked h) = None" for h by (simp add: removeStateLocked_def removeState_def)
  obtain nb where nb: "ne_nowBoot ne = Some nb"
    using assms(1) rm by (auto simp: contNotePlan_def split: option.splits)
  have noff: "\<not> IsOff sha fmt c"
    using assms rm nb by (auto simp: contNotePlan_def Let_def split: if_splits)
  have valid: "ValidateContinuity sha fmt c now = None"
    using assms rm nb noff by (auto simp: contNotePlan_def Let_def split: option.splits)
  obtain boot where boot: "ne_boot ne = Some boot"
    using assms rm nb noff valid by (auto simp: contNotePlan_def Let_def split: option.splits)
  have "g_journal (saveState a b h) = g_journal h" "g_st (saveState a b h) = g_st h" for a b h
    by (simp_all add: saveState_def split: option.split)
  moreover have "g_journal (saveJournal a h) = g_journal h" "g_st (saveJournal a h) = g_st h" for a h
    by (simp_all add: saveJournal_def)
  ultimately show ?thesis
    using assms nb noff valid boot
    by (auto simp: contNotePlan_def Let_def pruneJournal_def split: if_splits)
qed

text \<open>
  What an accepted block lets the governor keep. After a plan with a continuity block, either
  nothing is held, or the block passed its checks and every held session is an entitled session of
  the plan, listed in the block, proven in force by the last walk, not revoked, metered if its
  entitlement has a byte budget, with a deadline on the boot clock no later than the window (at most
  7200 s), the producer's hard end and the plan's own access boundary; a plan without a block leaves
  the held sessions as they were.
\<close>
theorem noted_plan_bounded:
  assumes g': "g' = contNotePlan sha fmt ne env now g"
  shows "(case pe_Continuity env of
      None \<Rightarrow> held g' = held g \<or> held g' = []
    | Some c \<Rightarrow> held g' = [] \<or> (\<exists>nb. ne_nowBoot ne = Some nb \<and> ValidateContinuity sha fmt c now = None
        \<and> cn_WindowSeconds c \<le> 7200 \<and> wf_gov g' \<and> list_all (noted_ok ne (g_journal g') env c now nb) (held g')))"
proof (cases "pe_Continuity env")
  case None
  have "held (note_arrival nb g) = held g" for nb by (simp add: note_arrival_def held_def split: option.split)
  moreover have "held (removeStateLocked g) = []" by (simp add: removeStateLocked_def removeState_def held_def)
  ultimately show ?thesis using None by (auto simp: g' contNotePlan_def Let_def split: option.split)
next
  case (Some c)
  show ?thesis
  proof (cases "g_st g'")
    case None
    then show ?thesis using Some by (simp add: held_def)
  next
    case st: (Some st)
    from contNotePlan_st [of sha fmt ne env now g st c] Some st obtain nb boot samples old where
      *: "ValidateContinuity sha fmt c now = None" "ne_nowBoot ne = Some nb"
        "st = carry_over old (noted_state ne (g_journal g') samples env c now nb boot)"
      unfolding g' by blast
    let ?ns = "noted_state ne (g_journal g') samples env c now nb boot"
    have ns: "state_wf ?ns" "list_all (noted_ok ne (g_journal g') env c now nb) (st_Sessions ?ns)"
      using noted_state_keeps by blast+
    have "wf_gov g'" "list_all (noted_ok ne (g_journal g') env c now nb) (held g')"
      using carry_over_keeps [OF ns(1), of old] ns(2) st *(3)
      by (auto simp: wf_gov_def state_wf_def held_def held_budgets_def list_all_iff)
    moreover have "cn_WindowSeconds c \<le> 7200"
      using *(1) by (auto simp: ValidateContinuity_def MaxContinuityWindowSeconds_def split: if_splits)
    ultimately show ?thesis using Some *(1,2) by auto
  qed
qed

definition example_block :: continuity where
  "example_block = (let c = \<lparr>cn_WindowSeconds = 600, cn_AsOf = 100, cn_Sessions = [\<lparr>cs_SessionID = ''s1'', cs_HardEnd = None\<rparr>],
       cn_Budgets = [], cn_ContentsHash = ''''\<rparr> in c\<lparr>cn_ContentsHash := HashContinuity id Itoa c\<rparr>)"

definition example_env :: plan_envelope where
  "example_env = \<lparr>pe_ContractVersion = ContractVersion, pe_TenantID = ''t'', pe_SiteID = ''s'', pe_ApplianceID = ''a'',
     pe_AssignmentID = ''x'', pe_AssignmentGen = 2, pe_ProducerRuntimeGen = 1, pe_PlanGeneration = 8, pe_GeneratedAt = 100,
     pe_ExpiresAt = 100 + 90 * second, pe_ManagedBridges = [''br10''],
     pe_Sessions = [(example_session ''s1'' 1024)\<lparr>ps_AccessEndsAt := None\<rparr>],
     pe_DesiredStateHash = '''', pe_Continuity = Some example_block\<rparr>"

definition example_note :: note_env where
  "example_note = \<lparr>ne_nowBoot = Some 5000, ne_boot = Some ''b'',
     ne_classes = [''br10|s1'' \<mapsto> \<lparr>mc_Bridge = ''br10'', mc_Minor = 5, mc_Epoch = 1\<rparr>],
     ne_renewable = (\<lambda>_. True), ne_journal_ok = True, ne_save_ok = True\<rparr>"

lemma example_block_valid: "ValidateContinuity id Itoa example_block 200 = None" "\<not> IsOff id Itoa example_block"
  unfolding example_block_def Let_def
  by (rule ValidateContinuity_sealed) (simp_all add: duration_defs IsOff_def)

lemma example_noted: "map fst (held (contNotePlan id Itoa example_note example_env 200 example_gov)) = [''br10|s1'']"
proof -
  have c: "pe_Continuity example_env = Some example_block" by (simp add: example_env_def)
  have "cn_WindowSeconds example_block = 600" "cn_AsOf example_block = 100"
    "hard_of example_block = [''s1'' \<mapsto> None]" "budget_for example_block = Map.empty"
    by (simp_all add: example_block_def Let_def hard_of_def budget_for_def)
  then show ?thesis
    using example_block_valid
    by (simp add: contNotePlan_def c)
      (simp add: example_note_def Let_def pruneJournal_def pruned_journal_def note_arrival_def example_gov_def
        carry_over_def noted_state_def example_env_def note_session_def example_session_def classKey_def kept_for_def shorten_def
        second_def add_noted_def saveState_def held_def keep_last_def contRevokeMax_def)
qed

theorem noted_plan_bounded_witness:
  "\<exists>s. held (contNotePlan id Itoa example_note example_env 200 example_gov) = [(''br10|s1'', s)] \<and> s_DeadlineBoot s \<le> 605000"
proof -
  let ?g = "contNotePlan id Itoa example_note example_env 200 example_gov"
  obtain s where s: "held ?g = [(''br10|s1'', s)]" using example_noted by (cases "held ?g") auto
  have "noted_ok example_note (g_journal ?g) example_env example_block 200 5000 (''br10|s1'', s)"
    using noted_plan_bounded [OF refl, of id Itoa example_note example_env 200 example_gov] s
    by (simp add: example_env_def [THEN arg_cong [where f = pe_Continuity]] example_note_def [THEN arg_cong [where f = ne_nowBoot]])
  moreover have "cn_WindowSeconds example_block = 600" by (simp add: example_block_def Let_def)
  ultimately show ?thesis using s by (auto simp: noted_ok_def)
qed

section \<open>Byte budgets\<close>

text \<open>What the held sessions of an entitlement were metered at, beyond what departed ones used.\<close>

definition live_used :: "(string \<times> cont_sess) list \<Rightarrow> string \<Rightarrow> nat" where
  "live_used xs e = sum_list (map (\<lambda>(k, s). if s_HasBase s \<and> s_EntitlementID s = e then s_LastUsed s else 0) xs)"

lemma u64_add: "u64 (u64 a + b) = u64 (a + b)"
  by (simp add: u64_def mod_add_left_eq)

lemma live_used_delete:
  assumes "distinct (map fst xs)" and "map_of xs k = Some s"
  shows "live_used xs e = live_used (AList.delete k xs) e + (if s_HasBase s \<and> s_EntitlementID s = e then s_LastUsed s else 0)"
  using assms
proof (induction xs)
  case (Cons x xs)
  obtain k' s' where x: "x = (k', s')" by force
  show ?case
  proof (cases "k' = k")
    case True
    then have "AList.delete k xs = xs" using Cons.prems x by (simp add: delete_idem)
    then show ?thesis using True Cons.prems x by (simp add: live_used_def)
  next
    case False
    then show ?thesis using Cons x by (simp add: live_used_def)
  qed
qed simp

lemma used_total_ge: "u64 (b_Gone b + live_used (held g) e) \<le> used_total g e b"
proof -
  have "u64 (t + live_used xs e) \<le>
      fold (\<lambda>(k, s) t. if s_HasBase s \<and> s_EntitlementID s = e then u64 (t + s_LastUsed s) else t) xs t" for xs t
  proof (induction xs arbitrary: t)
    case Nil
    then show ?case by (simp add: live_used_def u64_def)
  next
    case (Cons x xs)
    obtain k s where x: "x = (k, s)" by force
    show ?case
    proof (cases "s_HasBase s \<and> s_EntitlementID s = e")
      case True
      then have "u64 (t + live_used (x # xs) e) = u64 (u64 (t + s_LastUsed s) + live_used xs e)"
        by (simp add: x live_used_def u64_add add.assoc)
      with Cons [of "u64 (t + s_LastUsed s)"] True show ?thesis by (simp add: x)
    next
      case False
      then have "live_used (x # xs) e = live_used xs e" by (auto simp: x live_used_def)
      with Cons [of t] False show ?thesis by (auto simp: x)
    qed
  qed
  then show ?thesis unfolding used_total_def .
qed

definition accounted :: "gov \<Rightarrow> string \<Rightarrow> bool" where
  "accounted g e \<longleftrightarrow> (\<forall>b. map_of (held_budgets g) e = Some b \<longrightarrow> u64 (b_Gone b + live_used (held g) e) \<le> b_Used b)"

definition within_budget :: "gov \<Rightarrow> string \<Rightarrow> bool" where
  "within_budget g e \<longleftrightarrow> (\<forall>b. map_of (held_budgets g) e = Some b \<longrightarrow> (\<exists>(k, s) \<in> set (held g). s_EntitlementID s = e) \<longrightarrow>
     \<not> b_Exhausted b \<and> 0 < b_Remaining b \<and> int (b_Used b) < b_Remaining b)"

lemma accounted_drop:
  assumes "wf_gov g" and "accounted g e"
  shows "accounted (drop_session k r g) e"
proof (cases "map_of (held g) k")
  case None
  then have "AList.delete k (held g) = held g" by (simp add: delete_idem map_of_eq_None_iff)
  with None assms(2) show ?thesis by (simp add: accounted_def budgets_drop)
next
  case (Some s)
  note d = live_used_delete [OF _ Some, of e]
  show ?thesis
    unfolding accounted_def budgets_drop Some held_drop option.case
  proof (intro allI impI)
    fix b assume b: "(if s_HasBase s \<and> s_EntitlementID s = e
       then map_option (add_gone (s_LastUsed s)) (map_of (held_budgets g) e) else map_of (held_budgets g) e) = Some b"
    show "u64 (b_Gone b + live_used (AList.delete k (held g)) e) \<le> b_Used b"
    proof (cases "s_HasBase s \<and> s_EntitlementID s = e")
      case True
      with b obtain b0 where b0: "map_of (held_budgets g) e = Some b0" "b = add_gone (s_LastUsed s) b0" by auto
      have "u64 (b_Gone b + live_used (AList.delete k (held g)) e) =
          u64 (b_Gone b0 + s_LastUsed s + live_used (AList.delete k (held g)) e)"
        unfolding b0(2) add_gone_def by (simp add: u64_add)
      also have "\<dots> = u64 (b_Gone b0 + live_used (held g) e)"
        using True d assms(1) by (simp add: wf_gov_def add_ac)
      finally have "u64 (b_Gone b + live_used (AList.delete k (held g)) e) = u64 (b_Gone b0 + live_used (held g) e)" .
      then show ?thesis using assms(2) b0 by (simp add: accounted_def add_gone_def)
    next
      case False
      then show ?thesis using b assms d by (auto simp: accounted_def wf_gov_def)
    qed
  qed
qed

lemma within_budget_drop: "within_budget g e \<Longrightarrow> within_budget (drop_session k r g) e"
  by (fastforce simp: within_budget_def budgets_drop add_gone_def delete_filter split: option.splits if_splits)

definition budget_inv :: "string \<Rightarrow> gov \<Rightarrow> bool" where
  "budget_inv e g \<longleftrightarrow> wf_gov g \<and> accounted g e \<and> within_budget g e"

lemma budget_inv_drop: "budget_inv e g \<Longrightarrow> budget_inv e (drop_session k r g)"
  by (simp add: budget_inv_def wf_drop accounted_drop within_budget_drop)

lemma budget_inv_sweep: "budget_inv e g \<Longrightarrow> budget_inv e (fst (sweep_sessions why xs (g, d)))"
  by (rule sweep_induct) (simp_all add: budget_inv_drop)

lemma budgets_put: "map_of (held_budgets (put_budget eid b g)) e =
    (if e = eid \<and> map_of (held_budgets g) eid \<noteq> None then Some b else map_of (held_budgets g) e)"
  by (auto simp: put_budget_def held_budgets_def map_of_alist_change split: option.split)

lemma settle_budget_effect:
  assumes "b' = settle_budget g eid b"
  shows "used_total g eid b \<le> b_Used b'" and "b_Gone b' = b_Gone b"
    and "\<not> b_Exhausted b' \<Longrightarrow> 0 < b_Remaining b' \<and> int (b_Used b') < b_Remaining b'"
  using assms by (auto simp: settle_budget_def Let_def split: if_splits)

lemma budget_step_inv:
  assumes wf: "wf_gov g" and e: "e = eid \<or> budget_inv e g"
  shows "budget_inv e (fst (budget_step eid (g, d)))"
proof (cases "map_of (held_budgets g) eid")
  case None
  then have "budget_inv e g" using wf e by (auto simp: budget_inv_def accounted_def within_budget_def)
  then show ?thesis using None by (simp add: budget_step_def)
next
  case (Some b)
  let ?b = "settle_budget g eid b" and ?h = "put_budget eid (settle_budget g eid b) g"
  let ?why = "\<lambda>k s. if s_EntitlementID s = eid then Some ''data allowance spent during the outage'' else None"
  note S = settle_budget_effect [OF refl, of g eid b]
  have step: "fst (budget_step eid (g, d)) = (if b_Exhausted ?b then fst (sweep_sessions ?why (held ?h) (?h, d)) else ?h)"
    using Some by (simp add: budget_step_def Let_def)
  have wfh: "wf_gov ?h" using wf by (rule wf_put)
  show ?thesis
  proof (cases "e = eid")
    case False
    then have "budget_inv e ?h" using e wfh by (simp add: budget_inv_def accounted_def within_budget_def budgets_put)
    then show ?thesis unfolding step using budget_inv_sweep by simp
  next
    case True
    have acc: "accounted ?h eid"
      using used_total_ge [of b g eid] S(1,2) Some by (simp add: accounted_def budgets_put)
    show ?thesis
    proof (cases "b_Exhausted ?b")
      case False
      then have "within_budget ?h eid" using S(3) Some by (simp add: within_budget_def budgets_put)
      then show ?thesis unfolding step using False acc wfh True by (simp add: budget_inv_def)
    next
      case ex: True
      let ?f = "fst (sweep_sessions ?why (held ?h) (?h, d))"
      have inv: "wf_gov ?f \<and> accounted ?f eid"
        by (rule sweep_induct) (simp_all add: wfh acc wf_drop accounted_drop)
      have "held ?f = filter (\<lambda>(k, s). ?why k s = None) (held ?h)"
        using wfh by (intro held_sweep) (simp add: wf_gov_def)
      then have "within_budget ?f eid" unfolding within_budget_def by (auto split: if_splits)
      then show ?thesis unfolding step using ex inv True by (simp add: budget_inv_def)
    qed
  qed
qed

lemma budget_fold_inv:
  assumes "wf_gov g" and "e \<in> set ids \<or> budget_inv e g"
  shows "budget_inv e (fst (fold budget_step ids (g, d)))"
  using assms
proof (induction ids arbitrary: g d)
  case (Cons i ids)
  obtain h dh where h: "budget_step i (g, d) = (h, dh)" by force
  have "wf_gov h" using budget_step_keeps [OF Cons.prems(1) h] by blast
  moreover have "e = i \<or> budget_inv e g \<Longrightarrow> budget_inv e h" using budget_step_inv [OF Cons.prems(1), of e i d] h by simp
  ultimately show ?case using Cons.IH [of h dh] Cons.prems(2) h by auto
qed simp

lemma renew_fold_inv:
  "budget_inv e g \<Longrightarrow> budget_inv e (fst (fold (renew_step te nb ok) xs (g, a, r)))"
proof (induction xs arbitrary: g a r)
  case (Cons x xs)
  obtain k s where x: "x = (k, s)" by force
  obtain g1 a1 r1 where 1: "renew_step te nb ok x (g, a, r) = (g1, a1, r1)" by (metis prod_cases3)
  then have "budget_inv e g1" using Cons.prems budget_inv_drop
    by (cases "renew_decision te nb ok s") (auto simp: renew_step_def x)
  with Cons.IH 1 show ?case by simp
qed simp

lemma budgets_keys_sweep: "map fst (held_budgets (fst (sweep_sessions why xs (g, d)))) = map fst (held_budgets g)"
  by (rule sweep_induct [where P = "\<lambda>h. map fst (held_budgets h) = map fst (held_budgets g)"]) simp_all

lemma tick_budget_inv:
  assumes wf: "wf_gov g" and cnt: "te_counters te \<noteq> None" and tick: "tick_outage te nb g = (g', acts)"
  shows "budget_inv e g'"
proof -
  obtain g1 d1 ok where m: "tick_meter te g = (g1, d1, ok)" by (metis prod_cases3)
  note K1 = tick_meter_keeps [OF wf m]
  then have ok: "ok" using cnt by auto
  obtain g2 d2 where 2: "sweep_sessions (out_reason te nb (g_journal g1)) (held g1) (g1, d1) = (g2, d2)" by force
  then have wf2: "wf_gov g2" using wf_sweep [of g1 _ "held g1" d1] K1 by (metis fst_conv)
  obtain g3 d3 where 3: "fold budget_step (map fst (held_budgets g2)) (g2, d2) = (g3, d3)" by force
  have "e \<in> set (map fst (held_budgets g2)) \<or> budget_inv e g2"
    using wf2 map_of_eq_None_iff [of "held_budgets g2" e]
    by (auto simp: budget_inv_def accounted_def within_budget_def)
  then have "budget_inv e g3" using budget_fold_inv [OF wf2, of e "map fst (held_budgets g2)" d2] 3 by simp
  moreover obtain g4 a4 r4 where 4: "fold (renew_step te nb ok) (held g3) (g3, [], []) = (g4, a4, r4)" by (metis prod_cases3)
  ultimately have "budget_inv e g4" using renew_fold_inv [of e g3 te nb ok "held g3" "[]" "[]"] by simp
  moreover have "fold (renew_step te nb True) (held g3) (g3, [], []) = (g4, a4, r4)" using 4 ok by simp
  then have "g' = (if g_dirty g4 then saveState (te_save_ok te) (te_now te) g4 else g4)"
    using tick ok unfolding tick_outage_def m prod.case 2 Let_def by (simp add: 3)
  ultimately show ?thesis
    by (auto simp: budget_inv_def wf_gov_def accounted_def within_budget_def saveState_def held_def held_budgets_def
        split: option.split)
qed

text \<open>
  a byte budget spent during an outage ends every session of its entitlement. After an outage
  tick that could read the counters, an entitlement that still has a held session has a budget that
  is not exhausted: the bytes metered for its held sessions together with those of sessions already
  gone (as the 64-bit counters add them) are accounted, and what is accounted is below the budget.
\<close>
theorem spent_budget_drops:
  assumes "wf_gov g" and "te_counters te \<noteq> None" and "tick_outage te nb g = (g', acts)"
    and "(k, s) \<in> set (held g')" and "map_of (held_budgets g') (s_EntitlementID s) = Some b"
  shows "\<not> b_Exhausted b \<and> int (b_Used b) < b_Remaining b
     \<and> u64 (b_Gone b + live_used (held g') (s_EntitlementID s)) \<le> b_Used b"
  using tick_budget_inv [OF assms(1-3), of "s_EntitlementID s"] assms(4,5)
  by (auto simp: budget_inv_def accounted_def within_budget_def)

definition metered_sess :: "int \<Rightarrow> cont_sess" where
  "metered_sess d = example_sess\<lparr>s_HasBase := True, s_Base := 100, s_DeadlineBoot := d\<rparr>"

definition metered_gov :: gov where
  "metered_gov = \<lparr>g_st = Some \<lparr>st_TenantID = ''t'', st_SiteID = ''s'', st_ApplianceID = ''a'', st_AssignGen = 2,
       st_BootID = ''b'', st_PlanGen = 7, st_LastPlanBoot = 100000, st_WindowSec = 900, st_AsOf = 5,
       st_Sessions = [(''br10|s1'', metered_sess 1000000)],
       st_Budgets = [(''e'', \<lparr>b_Remaining = 1000, b_Used = 0, b_Gone = 0, b_Exhausted = False\<rparr>)]\<rparr>,
     g_journal = [], g_samples = [], g_lastSample = 0, g_lastSaved = 0, g_dirty = False, g_outageSince = 0,
     g_refused = '''', g_dropped = [], g_stateFile = Missing, g_journalFile = Missing\<rparr>"

lemmas meter_eval = contRefreshUsage_def meter_session_def metered_def unmeterable_def budget_step_def settle_budget_def
  used_total_def put_budget_def alist_change_def u64_def metered_gov_def metered_sess_def

lemma metered_tick:
  "held (fst (tick_outage ((example_tick 200000)\<lparr>te_counters := Some [(''br10|s1'', \<lparr>n_epoch = 1, n_bytes = 700\<rparr>)]\<rparr>) 200000 metered_gov))
     = [(''br10|s1'', (metered_sess 1000000)\<lparr>s_LastUsed := 600\<rparr>)]
   \<and> map_of (held_budgets (fst (tick_outage ((example_tick 200000)\<lparr>te_counters := Some [(''br10|s1'', \<lparr>n_epoch = 1, n_bytes = 700\<rparr>)]\<rparr>)
       200000 metered_gov))) ''e'' = Some \<lparr>b_Remaining = 1000, b_Used = 600, b_Gone = 0, b_Exhausted = False\<rparr>"
  by (simp add: tick_eval meter_eval)

theorem spent_budget_drops_witness:
  "\<exists>k s (b :: gov_budget). (k, s) \<in> set (held (fst (tick_outage ((example_tick 200000)
      \<lparr>te_counters := Some [(''br10|s1'', \<lparr>n_epoch = 1, n_bytes = 700\<rparr>)]\<rparr>) 200000 metered_gov)))
     \<and> u64 (b_Gone b + s_LastUsed s) \<le> b_Used b \<and> int (b_Used b) < 1000 \<and> b_Used b = 600"
proof -
  let ?te = "(example_tick 200000)\<lparr>te_counters := Some [(''br10|s1'', \<lparr>n_epoch = 1, n_bytes = 700\<rparr>)]\<rparr>"
  let ?g = "fst (tick_outage ?te 200000 metered_gov)"
  let ?s = "(metered_sess 1000000)\<lparr>s_LastUsed := 600\<rparr>"
  let ?b = "\<lparr>b_Remaining = 1000, b_Used = 600, b_Gone = 0, b_Exhausted = False\<rparr>"
  have wf: "wf_gov metered_gov" by (simp add: wf_gov_def metered_gov_def held_def held_budgets_def)
  have cnt: "te_counters ?te \<noteq> None" by simp
  have e: "s_EntitlementID ?s = ''e''" by (simp add: metered_sess_def example_sess_def)
  have s: "(''br10|s1'', ?s) \<in> set (held ?g)" and b: "map_of (held_budgets ?g) (s_EntitlementID ?s) = Some ?b"
    using metered_tick unfolding e by auto
  from spent_budget_drops [OF wf cnt surjective_pairing s b] s show ?thesis
    by (intro exI [of _ "''br10|s1''"] exI [of _ ?s] exI [of _ ?b]) (simp add: u64_def)
qed

section \<open>Revocations outlive the process\<close>

text \<open>What may happen after a revocation was acknowledged: ticks, further revocations, and restarts of
  the process, each of which reads the files back.\<close>

datatype life_op =
    Live outage_op
  | Restart phase3_mode "string option" "int option"

fun life_step :: "gov \<Rightarrow> life_op \<Rightarrow> gov" where
  "life_step g (Live x) = outage_step g x"
| "life_step g (Restart mode boot nb) = contRestore mode boot nb (new_process g)"

fun is_revoke :: "life_op \<Rightarrow> bool" where
  "is_revoke (Live (Revoke _ _ _ _ _)) = True"
| "is_revoke _ = False"

lemma revoked_by_mem: "e \<in> set j \<Longrightarrow> revocation_hits e s \<Longrightarrow> revoked_by j s \<noteq> None"
  by (induction j) auto

text \<open>The entry is among the last \<open>n\<close> of the journal, in memory and on disk, where it survives that many
  more revocations.\<close>

definition journal_keeps :: "nat \<Rightarrow> cont_revocation \<Rightarrow> cont_revocation list \<Rightarrow> bool" where
  "journal_keeps n e j \<longleftrightarrow> (\<exists>us vs. j = us @ e # vs \<and> length vs + n < contRevokeMax)"

lemma journal_keeps_mem: "journal_keeps n e j \<Longrightarrow> e \<in> set j"
  by (auto simp: journal_keeps_def)

lemma journal_keeps_append: "journal_keeps (Suc n) e j \<Longrightarrow> journal_keeps n e (keep_last contRevokeMax (j @ [x]))"
proof -
  assume "journal_keeps (Suc n) e j"
  then obtain us vs where j: "j = us @ e # vs" "length vs + Suc n < contRevokeMax" by (auto simp: journal_keeps_def)
  let ?l = "length us + length vs + 2 - contRevokeMax"
  have "?l \<le> length us" using j(2) by simp
  then have "keep_last contRevokeMax (j @ [x]) = drop ?l us @ e # (vs @ [x])"
    using j by (simp add: keep_last_def)
  then show ?thesis using j(2) unfolding journal_keeps_def
    by (intro exI [of _ "drop ?l us"] exI [of _ "vs @ [x]"]) simp
qed

lemma journal_keeps_new: "n < contRevokeMax \<Longrightarrow> journal_keeps n e (keep_last contRevokeMax (j @ [e]))"
proof -
  assume n: "n < contRevokeMax"
  let ?l = "length j + 1 - contRevokeMax"
  have "keep_last contRevokeMax (j @ [e]) = drop ?l j @ [e]" using n by (simp add: keep_last_def)
  then show ?thesis using n unfolding journal_keeps_def by (intro exI [of _ "drop ?l j"] exI [of _ "[]"]) simp
qed

definition recorded :: "nat \<Rightarrow> cont_revocation \<Rightarrow> gov \<Rightarrow> bool" where
  "recorded n e g \<longleftrightarrow> wf_gov g \<and> journal_keeps n e (g_journal g) \<and>
     (\<exists>j. g_journalFile g = Holds j \<and> journal_keeps n e j) \<and>
     (\<forall>st. g_stateFile g = Holds st \<longrightarrow> state_wf st)"

lemma same_files_drop: "same_files g h \<Longrightarrow> same_files g (drop_session k r h)"
  by (simp add: same_files_def)

lemma same_files_sweep: "same_files g (fst (sweep_sessions why xs (g, d)))"
  by (rule sweep_induct) (simp_all add: same_files_drop)

lemma same_files_refresh: "same_files g (fst (contRefreshUsage cnt g))"
  by (simp add: same_files_def contRefreshUsage_def split: option.split)

lemma same_files_meter: "tick_meter te g = (g', d, ok) \<Longrightarrow> same_files g g'"
  using same_files_refresh [of g "te_counters te"]
  by (auto simp: tick_meter_def split: option.splits if_splits prod.splits)
    (metis fst_conv same_files_sweep same_files_trans)

lemma same_files_put: "same_files g (put_budget eid b g)"
  by (simp add: same_files_def put_budget_def split: option.split)

lemma same_files_budget: "same_files g (fst (budget_step eid (g, d)))"
  using same_files_put same_files_trans [OF same_files_put same_files_sweep]
  by (auto simp: budget_step_def Let_def split: option.split)

lemma same_files_budgets: "same_files g (fst (fold budget_step ids (g, d)))"
proof (induction ids arbitrary: g d)
  case (Cons i ids)
  obtain h dh where h: "budget_step i (g, d) = (h, dh)" by force
  then show ?case using Cons [of h dh] same_files_budget [of g i d] same_files_trans by simp
qed simp

lemma same_files_renew: "same_files g (fst (fold (renew_step te nb ok) xs (g, a, r)))"
proof (induction xs arbitrary: g a r)
  case (Cons x xs)
  obtain k s where x: "x = (k, s)" by force
  obtain g1 a1 r1 where 1: "renew_step te nb ok x (g, a, r) = (g1, a1, r1)" by (metis prod_cases3)
  then have "same_files g g1" using same_files_drop [OF same_files_refl]
    by (cases "renew_decision te nb ok s") (auto simp: renew_step_def x)
  with Cons.IH [of g1 a1 r1] 1 same_files_trans show ?case by simp
qed simp

lemma tick_outage_files: "saved_or_same g (fst (tick_outage te nb g))"
proof -
  obtain g1 d1 ok where m: "tick_meter te g = (g1, d1, ok)" by (metis prod_cases3)
  obtain g2 d2 where 2: "sweep_sessions (out_reason te nb (g_journal g1)) (held g1) (g1, d1) = (g2, d2)" by force
  obtain g3 d3 where 3: "(if ok then fold budget_step (map fst (held_budgets g2)) (g2, d2) else (g2, d2)) = (g3, d3)" by force
  obtain g4 a4 r4 where 4: "fold (renew_step te nb ok) (held g3) (g3, [], []) = (g4, a4, r4)" by (metis prod_cases3)
  have "same_files g g1" by (rule same_files_meter [OF m])
  moreover have "same_files g1 g2" using same_files_sweep [of g1] 2 by (metis fst_conv)
  moreover have "same_files g2 g3"
    using 3 same_files_budgets [of g2 "map fst (held_budgets g2)" d2] by (auto split: if_splits)
  moreover have "same_files g3 g4" using same_files_renew [of g3] 4 by (metis fst_conv)
  ultimately have "same_files g g4" using same_files_trans by blast
  moreover have "fst (tick_outage te nb g) = (if g_dirty g4 then saveState (te_save_ok te) (te_now te) g4 else g4)"
    unfolding tick_outage_def m prod.case 2 3 Let_def 4 by simp
  ultimately show ?thesis using saved_saveState by (auto simp: saved_or_same_def same_files_def)
qed

lemma contTick_files:
  assumes "contTick te g = (g', acts)"
  shows "saved_or_same g g'"
  using assms
proof (cases rule: contTick_cases)
  case (outage st nb g0)
  then show ?thesis using tick_outage_files [of g0 te nb] by (auto simp: saved_or_same_def same_files_def)
qed auto

lemma journal_keeps_mono: "journal_keeps (Suc n) e j \<Longrightarrow> journal_keeps n e j"
  unfolding journal_keeps_def by (metis Suc_lessD add_Suc_right)

lemma recorded_mono: "recorded (Suc n) e g \<Longrightarrow> recorded n e g"
  by (auto simp: recorded_def intro: journal_keeps_mono)

lemma recorded_tick:
  assumes "recorded n e g"
  shows "recorded n e (fst (contTick te g))"
proof -
  obtain g' acts where t: "contTick te g = (g', acts)" by force
  have wf: "wf_gov g'" using contTick_keeps [OF _ t] assms by (simp add: recorded_def)
  then have "g_st g' = Some st \<Longrightarrow> state_wf st" for st
    by (simp add: wf_gov_def state_wf_def held_def held_budgets_def)
  with wf contTick_files [OF t] assms show ?thesis by (auto simp: recorded_def saved_or_same_def t)
qed

lemma recorded_revoke:
  assumes "recorded (Suc n) e g"
  shows "recorded n e (fst (contRevoke valid now cnt ok x g))"
proof -
  let ?j = "journalled ok (stamped now x) g"
  have "same_files ?j (fst (contRevoke valid now cnt ok x g))"
    unfolding contRevoke_state Let_def
    using same_files_trans [OF same_files_refresh same_files_sweep] by (auto simp: same_files_def)
  moreover have "journal_keeps n e (g_journal ?j)" "\<exists>j. g_journalFile ?j = Holds j \<and> journal_keeps n e j"
    "g_stateFile ?j = g_stateFile g"
    using assms journal_keeps_append journal_keeps_mono
    by (auto simp: recorded_def journalled_def saveJournal_def)
  ultimately show ?thesis
    using contRevoke_keeps [of g valid now cnt ok x] assms by (auto simp: recorded_def same_files_def)
qed

lemma recorded_restart:
  assumes "recorded n e g"
  shows "recorded n e (contRestore mode boot nb (new_process g))"
  using assms
  by (auto simp: recorded_def contRestore_def new_process_def loadJournal_def removeState_def wf_gov_def state_wf_def
      held_def held_budgets_def Let_def split: gov_file.split)

lemma recorded_run:
  assumes "recorded n e g" and "length (filter is_revoke ops) \<le> n"
  shows "recorded (n - length (filter is_revoke ops)) e (run life_step g ops)"
  using assms
proof (induction ops arbitrary: g n)
  case (Cons x ops)
  show ?case
  proof (cases "is_revoke x")
    case True
    then obtain v t c ok y where x: "x = Live (Revoke v t c ok y)" by (cases x rule: is_revoke.cases) auto
    from Cons.prems(2) True obtain m where m: "n = Suc m" by (cases n) auto
    with Cons.IH [of m "life_step g x"] Cons.prems recorded_revoke x True show ?thesis by simp
  next
    case False
    then have "recorded n e (life_step g x)"
      using Cons.prems recorded_tick recorded_restart by (cases x rule: is_revoke.cases) auto
    with Cons.IH [of n "life_step g x"] Cons.prems False show ?thesis by simp
  qed
qed simp

lemma hits_stamped [simp]: "revocation_hits (stamped now e) s = revocation_hits e s"
  by (simp add: stamped_def revocation_hits_def)

lemma revoke_drops:
  assumes "wf_gov g" and "(k, s) \<in> set (held (fst (contRevoke valid now cnt ok e g)))"
  shows "\<not> revocation_hits e s"
proof -
  let ?j = "journalled ok (stamped now e) g"
  let ?r = "fst (contRefreshUsage cnt ?j)"
  have st: "g_st ?j \<noteq> None" using assms(2) by (auto simp: contRevoke_state Let_def held_def split: if_splits)
  have "distinct (map fst (held ?r))" using wf_refresh [of ?j cnt] assms(1) by (simp add: wf_gov_def)
  from held_sweep [OF this] have "revoked_by (g_journal ?r) s = None"
    using assms(2) st unfolding contRevoke_state Let_def by auto
  moreover have "stamped now e \<in> set (g_journal ?r)"
    using journal_keeps_mem [OF journal_keeps_new [of 0 "stamped now e" "g_journal g"]] by (simp add: contRevokeMax_def)
  ultimately show ?thesis using revoked_by_mem [of "stamped now e" "g_journal ?r" s] by auto
qed


definition example_revocation :: cont_revocation where
  "example_revocation = \<lparr>r_SessionID = ''s9'', r_EntitlementID = '''', r_Bridge = '''', r_IP = '''', r_Reason = ''staff'', r_At = 50\<rparr>"

lemma example_revoked_tick:
  "Renew ''br10'' ''10.0.0.9'' (90 * second) \<in> set (snd (contTick (example_tick 200000)
     (run life_step (fst (contRevoke (\<lambda>_. True) 60 None True example_revocation example_gov)) [])))"
  by (simp add: contRevoke_state journalled_def saveJournal_def stamped_def example_revocation_def keep_last_def contRevokeMax_def
      contRefreshUsage_def revocation_hits_def tick_eval)


end
