(* ===== verification/Netd_Admission.thy ===== *)
theory Netd_Admission
  imports Netd_Continuity
begin

text \<open>
  The admission of shaping plans by netd (\<open>submit\<close> of \<open>data-plane/cmd/netd/phase3_shaping.go\<close>, the plan
  store and peer check of \<open>phase3_control.go\<close>, the fast path of \<open>phase3_fastpath.go\<close>): which plan is
  admitted, what is remembered of it in memory and on disk, when the kernel is walked, and what a
  restart leaves. The walk itself (\<open>reconcileLocked\<close>) is the parameter \<open>walk\<close>: its outcome decides only
  whether the plan counts as converged and what the governor may keep.
\<close>

section \<open>Producer authorization\<close>

record shaping_authz =
  az_allowedUID :: int
  az_configured :: bool

datatype authz_error = Not_configured | Credentials_unreadable | Wrong_uid

definition newShapingAuthz :: "string \<Rightarrow> shaping_authz" where
  "newShapingAuthz env_value =
    (let raw = TrimSpace env_value; closed = \<lparr>az_allowedUID = 0, az_configured = False\<rparr>
     in if raw = '''' then closed
        else (case Atoi raw of
            None \<Rightarrow> closed
          | Some uid \<Rightarrow> if uid < 0 then closed else \<lparr>az_allowedUID = uid, az_configured = True\<rparr>))"

text \<open>The peer's uid, or nothing when its credentials could not be read.\<close>

definition authorize :: "shaping_authz \<Rightarrow> int option \<Rightarrow> authz_error option" where
  "authorize a peer =
    (if \<not> az_configured a then Some Not_configured
     else (case peer of
         None \<Rightarrow> Some Credentials_unreadable
       | Some uid \<Rightarrow> if uid \<noteq> az_allowedUID a then Some Wrong_uid else None))"

section \<open>State\<close>

definition maxPlanValidity :: duration where "maxPlanValidity = 10 * minute"

definition phase3FullWalkEvery :: duration where "phase3FullWalkEvery = 30 * second"

record walk_memo =
  wm_hash :: string
  wm_at :: go_time
  wm_clean :: bool
  wm_renewable :: "string \<Rightarrow> bool"

record netd =
  nd_mode :: phase3_mode
  nd_fastPath :: bool
  nd_lastAccepted :: "accepted option"
  nd_lastConverged :: "accepted option"
  nd_rejections :: int
  nd_lastRejection :: string
  nd_arrivedGen :: int
  nd_superseded :: int
  nd_memo :: walk_memo
  nd_deferred :: nat
  nd_file :: "accepted gov_file"
  nd_cont :: gov

text \<open>The outcome of a walk, and of the writes and clock reads around it.\<close>

record pass_env =
  pv_degraded :: bool
  pv_problems :: nat
  pv_failed :: nat
  pv_deferred :: nat
  pv_renewable :: "string \<Rightarrow> bool"
  pv_classes :: "string \<rightharpoonup> managed_class"
  pv_save_ok :: bool
  pv_nowBoot :: "int option"
  pv_boot :: "string option"
  pv_journal_ok :: bool
  pv_state_ok :: bool

datatype plan_reply =
    Refused string
  | Applied (reply_degraded: bool) (reply_walked: bool)

fun plan_reason_text :: "plan_reason \<Rightarrow> string" where
  "plan_reason_text ReasonUnsupportedContract = ''unsupported_contract''"
| "plan_reason_text ReasonWrongTenant = ''wrong_tenant''"
| "plan_reason_text ReasonWrongSite = ''wrong_site''"
| "plan_reason_text ReasonWrongAppliance = ''wrong_appliance''"
| "plan_reason_text ReasonStaleAssignment = ''stale_assignment''"
| "plan_reason_text ReasonInvalidGeneration = ''invalid_generation''"
| "plan_reason_text ReasonExpiredPlan = ''expired_plan''"
| "plan_reason_text ReasonHashMismatch = ''hash_mismatch''"
| "plan_reason_text ReasonNoManagedBridges = ''no_managed_bridges''"
| "plan_reason_text ReasonStaleGeneration = ''stale_generation''"
| "plan_reason_text ReasonGenerationConflict = ''duplicate_generation_conflict''"
| "plan_reason_text ReasonBadBridgeName = ''bad_bridge_name''"

section \<open>The plan store\<close>

text \<open>The record found, and whether reading it failed.\<close>

definition plan_load :: "accepted gov_file \<Rightarrow> accepted option \<times> bool" where
  "plan_load f = (case f of
     Missing \<Rightarrow> (None, False)
   | Unreadable \<Rightarrow> (None, True)
   | Corrupt \<Rightarrow> (None, True)
   | Holds p \<Rightarrow> if ac_Generation p \<le> 0 then (None, True) else (Some p, False))"

definition plan_save :: "bool \<Rightarrow> accepted \<Rightarrow> netd \<Rightarrow> netd" where
  "plan_save ok p s = (if ok then s\<lparr>nd_file := Holds p\<rparr> else s)"

section \<open>Submission\<close>

definition noteArrival :: "int \<Rightarrow> netd \<Rightarrow> netd" where
  "noteArrival gen s = (if gen \<le> nd_arrivedGen s then s else s\<lparr>nd_arrivedGen := gen\<rparr>)"

definition noteRejection :: "string \<Rightarrow> netd \<Rightarrow> netd" where
  "noteRejection reason s = s\<lparr>nd_rejections := wrap64 (nd_rejections s + 1), nd_lastRejection := reason\<rparr>"

definition fastPathApplies :: "netd \<Rightarrow> plan_envelope \<Rightarrow> go_time \<Rightarrow> bool" where
  "fastPathApplies s env now \<longleftrightarrow> nd_fastPath s \<and> wm_clean (nd_memo s) \<and> nd_deferred s = 0
     \<and> pe_DesiredStateHash env = wm_hash (nd_memo s)
     \<and> (case nd_lastConverged s of None \<Rightarrow> False | Some c \<Rightarrow> pe_DesiredStateHash env = ac_Hash c)
     \<and> time_sub now (wm_at (nd_memo s)) < phase3FullWalkEvery \<and> 0 \<le> time_sub now (wm_at (nd_memo s))"

definition mode_scope :: "phase3_mode \<Rightarrow> plan_scope" where
  "mode_scope m = \<lparr>sc_TenantID = m_TenantID m, sc_SiteID = m_SiteID m, sc_ApplianceID = m_ApplianceID m,
     sc_AssignGen = m_AssignGen m\<rparr>"

definition accepted_of :: "plan_envelope \<Rightarrow> go_time \<Rightarrow> accepted" where
  "accepted_of env now = \<lparr>ac_Generation = pe_PlanGeneration env, ac_Hash = pe_DesiredStateHash env,
     ac_TenantID = pe_TenantID env, ac_SiteID = pe_SiteID env, ac_AcceptedAt = now, ac_ExpiresAt = pe_ExpiresAt env\<rparr>"

text \<open>The deferred call: the block is judged after the pass, with the walk's proof in the memo.\<close>

definition note_continuity ::
  "(string \<Rightarrow> string) \<Rightarrow> (go_time \<Rightarrow> string) \<Rightarrow> pass_env \<Rightarrow> plan_envelope \<Rightarrow> go_time \<Rightarrow> netd \<Rightarrow> netd" where
  "note_continuity sha fmt pv env now s =
     s\<lparr>nd_cont := contNotePlan sha fmt
        \<lparr>ne_nowBoot = pv_nowBoot pv, ne_boot = pv_boot pv, ne_classes = pv_classes pv,
         ne_renewable = wm_renewable (nd_memo s), ne_journal_ok = pv_journal_ok pv, ne_save_ok = pv_state_ok pv\<rparr>
        env now (nd_cont s)\<rparr>"

definition fast_pass :: "pass_env \<Rightarrow> accepted \<Rightarrow> netd \<Rightarrow> netd \<times> plan_reply" where
  "fast_pass pv acc s =
    (let s = plan_save (pv_save_ok pv) acc (s\<lparr>nd_lastAccepted := Some acc\<rparr>)
     in if pv_save_ok pv then (s\<lparr>nd_lastConverged := Some acc\<rparr>, Applied False False) else (s, Applied True False))"

definition walk_pass :: "pass_env \<Rightarrow> plan_envelope \<Rightarrow> go_time \<Rightarrow> accepted \<Rightarrow> bool \<Rightarrow> netd \<Rightarrow> netd \<times> plan_reply" where
  "walk_pass pv env now acc storeProblem s =
    (let clean = (\<not> pv_degraded pv \<and> pv_problems pv = 0 \<and> pv_failed pv = 0);
         s = s\<lparr>nd_memo := \<lparr>wm_hash = pe_DesiredStateHash env, wm_at = now, wm_clean = clean, wm_renewable = pv_renewable pv\<rparr>,
               nd_deferred := pv_deferred pv, nd_lastAccepted := Some acc\<rparr>;
         s = plan_save (pv_save_ok pv) acc s;
         degraded = (pv_degraded pv \<or> storeProblem \<or> \<not> pv_save_ok pv)
     in if degraded then (s, Applied True True) else (s\<lparr>nd_lastConverged := Some acc\<rparr>, Applied False True))"

definition submit ::
  "(string \<Rightarrow> string) \<Rightarrow> (go_time \<Rightarrow> string) \<Rightarrow> pass_env \<Rightarrow> plan_envelope \<Rightarrow> go_time \<Rightarrow> netd \<Rightarrow> netd \<times> plan_reply" where
  "submit sha fmt pv env now s =
    (if pe_PlanGeneration env < nd_arrivedGen s
       then (s\<lparr>nd_superseded := wrap64 (nd_superseded s + 1)\<rparr>, Refused ''superseded_by_newer_plan'')
     else if \<not> m_Active (nd_mode s) then (noteRejection ''phase3_dark'' s, Refused ''phase3_dark'')
     else if now + maxPlanValidity < pe_ExpiresAt env
       then (noteRejection ''plan_validity_too_long'' s, Refused ''plan_validity_too_long'')
     else
       let (lst, storeProblem) = (case nd_lastAccepted s of Some a \<Rightarrow> (Some a, False) | None \<Rightarrow> plan_load (nd_file s))
       in (case plan_Validate sha fmt env (mode_scope (nd_mode s)) lst now of
            Some reason \<Rightarrow> (noteRejection (plan_reason_text reason) s, Refused (plan_reason_text reason))
          | None \<Rightarrow>
              let acc = accepted_of env now;
                  (s, reply) = (if \<not> storeProblem \<and> fastPathApplies s env now then fast_pass pv acc s
                                else walk_pass pv env now acc storeProblem s)
              in (note_continuity sha fmt pv env now s, reply)))"

text \<open>A new process: the files remain, the mode and the fast-path switch are read again.\<close>

definition netd_restart :: "phase3_mode \<Rightarrow> bool \<Rightarrow> string option \<Rightarrow> int option \<Rightarrow> netd \<Rightarrow> netd" where
  "netd_restart mode fast boot nowBoot s =
    \<lparr>nd_mode = mode, nd_fastPath = fast, nd_lastAccepted = None, nd_lastConverged = None, nd_rejections = 0,
     nd_lastRejection = '''', nd_arrivedGen = 0, nd_superseded = 0,
     nd_memo = \<lparr>wm_hash = '''', wm_at = 0, wm_clean = False, wm_renewable = (\<lambda>_. False)\<rparr>, nd_deferred = 0,
     nd_file = nd_file s, nd_cont = contRestore mode boot nowBoot (new_process (nd_cont s))\<rparr>"

section \<open>Only the configured producer\<close>

lemma authorize_only_configured:
  "authorize (newShapingAuthz v) peer = None \<longleftrightarrow>
     (\<exists>uid. Atoi (TrimSpace v) = Some uid \<and> 0 \<le> uid \<and> peer = Some uid)"
proof (cases "TrimSpace v = ''''")
  case True
  then show ?thesis by (simp add: authorize_def newShapingAuthz_def Atoi_def)
next
  case False
  then show ?thesis
    by (cases "Atoi (TrimSpace v)") (auto simp: authorize_def newShapingAuthz_def Let_def split: option.splits)
qed

section \<open>No replay\<close>

datatype netd_event =
    Submit pass_env plan_envelope go_time
  | Arrive int
  | Restarted phase3_mode bool "string option" "int option"

definition known_plan :: "netd \<Rightarrow> accepted option" where
  "known_plan s = (case nd_lastAccepted s of Some a \<Rightarrow> Some a | None \<Rightarrow> fst (plan_load (nd_file s)))"

definition known_generation :: "netd \<Rightarrow> int" where
  "known_generation s = (case known_plan s of None \<Rightarrow> 0 | Some a \<Rightarrow> ac_Generation a)"

definition known_hash :: "netd \<Rightarrow> string" where
  "known_hash s = (case known_plan s of None \<Rightarrow> '''' | Some a \<Rightarrow> ac_Hash a)"

text \<open>The events of a netd whose plan store can be written.\<close>

fun netd_admit :: "(string \<Rightarrow> string) \<Rightarrow> (go_time \<Rightarrow> string) \<Rightarrow> netd \<Rightarrow> netd_event \<Rightarrow> netd \<times> bool" where
  "netd_admit sha fmt s (Submit pv env now) = (case submit sha fmt (pv\<lparr>pv_save_ok := True\<rparr>) env now s of
     (s', Refused _) \<Rightarrow> (s', False) | (s', Applied _ _) \<Rightarrow> (s', True))"
| "netd_admit sha fmt s (Arrive gen) = (noteArrival gen s, False)"
| "netd_admit sha fmt s (Restarted mode fast boot nb) = (netd_restart mode fast boot nb s, False)"

fun event_generation :: "netd_event \<Rightarrow> int" where
  "event_generation (Submit _ env _) = pe_PlanGeneration env"
| "event_generation _ = 0"

fun event_hash :: "netd_event \<Rightarrow> string" where
  "event_hash (Submit _ env _) = pe_DesiredStateHash env"
| "event_hash _ = ''''"

definition stored :: "netd \<Rightarrow> bool" where
  "stored s \<longleftrightarrow> (\<forall>a. nd_lastAccepted s = Some a \<longrightarrow> nd_file s = Holds a \<and> 0 < ac_Generation a)"

lemma known_simps [simp]:
  "known_plan (noteRejection r s) = known_plan s" "stored (noteRejection r s) = stored s"
  "known_plan (noteArrival g s) = known_plan s" "stored (noteArrival g s) = stored s"
  "known_plan (s\<lparr>nd_superseded := n\<rparr>) = known_plan s" "stored (s\<lparr>nd_superseded := n\<rparr>) = stored s"
  "known_plan (note_continuity sha fmt pv env now s) = known_plan s"
  "stored (note_continuity sha fmt pv env now s) = stored s"
  by (simp_all add: known_plan_def noteRejection_def noteArrival_def stored_def note_continuity_def split: option.split)

text \<open>A submission is refused, leaving what is known of plans, or admitted, and then it is known.\<close>

lemma submit_cases:
  assumes "submit sha fmt pv env now s = (s', reply)"
  obtains (refused) r where "reply = Refused r" "known_plan s' = known_plan s" "stored s' = stored s"
  | (applied) d w where "reply = Applied d w" "plan_Validate sha fmt env (mode_scope (nd_mode s)) (known_plan s) now = None"
      "m_Active (nd_mode s)" "pe_ExpiresAt env \<le> now + maxPlanValidity" "nd_arrivedGen s \<le> pe_PlanGeneration env"
      "nd_lastAccepted s' = Some (accepted_of env now)"
      "nd_file s' = (if pv_save_ok pv then Holds (accepted_of env now) else nd_file s)"
proof -
  obtain lst sp where l: "(case nd_lastAccepted s of Some a \<Rightarrow> (Some a, False) | None \<Rightarrow> plan_load (nd_file s)) = (lst, sp)" by force
  then have lst: "known_plan s = lst" by (auto simp: known_plan_def split: option.splits)
  show ?thesis
  proof (cases "pe_PlanGeneration env < nd_arrivedGen s \<or> \<not> m_Active (nd_mode s) \<or> now + maxPlanValidity < pe_ExpiresAt env
      \<or> plan_Validate sha fmt env (mode_scope (nd_mode s)) lst now \<noteq> None")
    case True
    then show ?thesis using assms refused by (auto simp: submit_def l split: if_splits)
  next
    case False
    let ?acc = "accepted_of env now"
    let ?p = "if \<not> sp \<and> fastPathApplies s env now then fast_pass pv ?acc s else walk_pass pv env now ?acc sp s"
    have "s' = note_continuity sha fmt pv env now (fst ?p)" "reply = snd ?p"
      using assms False by (auto simp: submit_def l Let_def split: prod.splits)
    moreover have "nd_lastAccepted (fst ?p) = Some ?acc \<and> nd_file (fst ?p) = (if pv_save_ok pv then Holds ?acc else nd_file s)"
      and "\<exists>d w. snd ?p = Applied d w"
      by (auto simp: fast_pass_def walk_pass_def Let_def plan_save_def)
    ultimately show ?thesis using False lst applied by (auto simp: note_continuity_def)
  qed
qed

interpretation plans: versioned_admission "netd_admit sha fmt" stored known_generation known_hash event_generation event_hash
  for sha fmt
proof (standard, goal_cases)
  case (1 s x)
  show ?case
  proof (cases x)
    case (Submit pv env now)
    obtain s' reply where sub: "submit sha fmt (pv\<lparr>pv_save_ok := True\<rparr>) env now s = (s', reply)" by force
    then show ?thesis
    proof (cases rule: submit_cases)
      case (applied d w)
      have "0 < pe_PlanGeneration env" using applied(2) by (simp add: plan_Validate_None_iff)
      then have "stored s'" using applied(6,7) by (simp add: stored_def accepted_of_def)
      then show ?thesis using Submit sub applied(1) by simp
    qed (use 1 Submit sub in auto)
  qed (use 1 in \<open>auto simp: stored_def noteArrival_def netd_restart_def split: if_splits\<close>)
next
  case (2 s e s')
  then obtain pv env now where e: "e = Submit pv env now" by (cases e) auto
  obtain t reply where sub: "submit sha fmt (pv\<lparr>pv_save_ok := True\<rparr>) env now s = (t, reply)" by force
  then show ?case
  proof (cases rule: submit_cases)
    case (applied d w)
    then show ?thesis unfolding plan_Validate_None_iff e
      by (auto simp: known_generation_def known_hash_def split: option.split)
  qed (use 2 e sub in auto)
next
  case (3 s e s')
  then obtain pv env now where e: "e = Submit pv env now" by (cases e) auto
  obtain t reply where sub: "submit sha fmt (pv\<lparr>pv_save_ok := True\<rparr>) env now s = (t, reply)" by force
  then show ?case
  proof (cases rule: submit_cases)
    case (applied d w)
    then show ?thesis using 3(2) e sub by (auto simp: known_generation_def known_hash_def known_plan_def accepted_of_def)
  qed (use 3 e sub in auto)
next
  case (4 s e s')
  show ?case
  proof (cases e)
    case (Submit pv env now)
    obtain t reply where sub: "submit sha fmt (pv\<lparr>pv_save_ok := True\<rparr>) env now s = (t, reply)" by force
    then show ?thesis
    proof (cases rule: submit_cases)
      case (refused r)
      then show ?thesis using 4(2) Submit sub by (simp add: known_generation_def known_hash_def)
    qed (use 4(2) Submit sub in auto)
  next
    case (Arrive g)
    then show ?thesis using 4(2) by (auto simp: known_generation_def known_hash_def)
  next
    case (Restarted mode fast boot nb)
    have "known_plan (netd_restart mode fast boot nb s) = known_plan s"
      using 4(1) by (auto simp: known_plan_def netd_restart_def stored_def plan_load_def split: option.split)
    then show ?thesis using 4(2) Restarted by (auto simp: known_generation_def known_hash_def)
  qed
qed

text \<open>
  C7: no plan is replayed, not even across restarts. Once netd has admitted a plan, and as long as
  its plan store can be written, then after any further submissions, arrivals, rejections and
  restarts of the process it admits only a plan of a greater generation, or the same generation with
  the same desired-state hash; an older plan, which could reinstate revoked access, is refused.
\<close>
theorem no_plan_replay:
  assumes "stored s" and "netd_admit sha fmt s (Submit pv env now) = (s', True)"
    and "netd_admit sha fmt (run (\<lambda>s e. fst (netd_admit sha fmt s e)) s' es) (Submit pv' env' now') = (s'', True)"
  shows "pe_PlanGeneration env < pe_PlanGeneration env' \<or>
    (pe_PlanGeneration env = pe_PlanGeneration env' \<and> pe_DesiredStateHash env = pe_DesiredStateHash env')"
  using plans.no_replay [OF assms(1,2), of es "Submit pv' env' now'"] assms(3) by simp

lemma submit_admits:
  assumes "\<not> pe_PlanGeneration env < nd_arrivedGen s" and "m_Active (nd_mode s)" and "pe_ExpiresAt env \<le> now + maxPlanValidity"
    and "plan_Validate sha fmt env (mode_scope (nd_mode s)) (known_plan s) now = None"
  shows "\<exists>s' d w. submit sha fmt pv env now s = (s', Applied d w) \<and> nd_mode s' = nd_mode s
    \<and> nd_arrivedGen s' = nd_arrivedGen s \<and> known_plan s' = Some (accepted_of env now)"
proof -
  obtain lst sp where l: "(case nd_lastAccepted s of Some a \<Rightarrow> (Some a, False) | None \<Rightarrow> plan_load (nd_file s)) = (lst, sp)" by force
  then have lst: "known_plan s = lst" by (auto simp: known_plan_def split: option.splits)
  let ?acc = "accepted_of env now"
  let ?p = "if \<not> sp \<and> fastPathApplies s env now then fast_pass pv ?acc s else walk_pass pv env now ?acc sp s"
  have "\<exists>d w. snd ?p = Applied d w" and f: "nd_mode (fst ?p) = nd_mode s" "nd_arrivedGen (fst ?p) = nd_arrivedGen s"
    "nd_lastAccepted (fst ?p) = Some ?acc"
    by (auto simp: fast_pass_def walk_pass_def Let_def plan_save_def)
  then obtain d w where "snd ?p = Applied d w" by blast
  then obtain t where p: "?p = (t, Applied d w)" by (cases ?p) simp
  have t: "nd_mode t = nd_mode s" "nd_arrivedGen t = nd_arrivedGen s" "nd_lastAccepted t = Some ?acc"
    using f unfolding p by simp_all
  have "submit sha fmt pv env now s = (note_continuity sha fmt pv env now t, Applied d w)"
    using assms unfolding submit_def l lst Let_def prod.case p by simp
  then show ?thesis using t by (simp add: note_continuity_def known_plan_def)
qed

definition example_netd :: netd where
  "example_netd = \<lparr>nd_mode = example_mode, nd_fastPath = True, nd_lastAccepted = None, nd_lastConverged = None,
     nd_rejections = 0, nd_lastRejection = '''', nd_arrivedGen = 0, nd_superseded = 0,
     nd_memo = \<lparr>wm_hash = '''', wm_at = 0, wm_clean = False, wm_renewable = (\<lambda>_. False)\<rparr>, nd_deferred = 0,
     nd_file = Missing, nd_cont = new_process example_gov\<rparr>"

definition example_pass :: pass_env where
  "example_pass = \<lparr>pv_degraded = False, pv_problems = 0, pv_failed = 0, pv_deferred = 0, pv_renewable = (\<lambda>_. True),
     pv_classes = Map.empty, pv_save_ok = True, pv_nowBoot = None, pv_boot = None, pv_journal_ok = True, pv_state_ok = True\<rparr>"

definition example_plan :: "int \<Rightarrow> plan_envelope" where
  "example_plan gen = BuildEnvelope id Itoa \<lparr>pl_Shape = [], pl_Tear = []\<rparr> example_pscope gen 1 [] ''br-guest'' 100 (90 * second)"

lemma example_plan_valid:
  assumes "0 < gen" and "\<forall>l. prior = Some l \<longrightarrow> ac_Generation l < gen"
  shows "plan_Validate id Itoa (example_plan gen) (mode_scope example_mode) prior 200 = None"
  using assms unfolding plan_Validate_None_iff example_plan_def
  by (auto simp: BuildEnvelope_def Let_def plan_sessions_def declared_bridges_def example_pscope_def mode_scope_def
      example_mode_def second_def validBridgeName_def name_char_def name_inner_char_def is_lower_def sorted_keys_def)

lemma example_plan_fields: "pe_PlanGeneration (example_plan gen) = gen" "pe_ExpiresAt (example_plan gen) = 100 + 90 * second"
  "pe_Continuity (example_plan gen) = None"
  by (simp_all add: example_plan_def BuildEnvelope_def Let_def)

lemma example_submit:
  assumes "nd_mode s = example_mode" and "nd_arrivedGen s \<le> gen" and "0 < gen"
    and "\<forall>l. known_plan s = Some l \<longrightarrow> ac_Generation l < gen"
  shows "\<exists>s'. netd_admit id Itoa s (Submit example_pass (example_plan gen) 200) = (s', True) \<and> nd_mode s' = example_mode \<and>
    nd_arrivedGen s' = nd_arrivedGen s \<and> known_plan s' = Some (accepted_of (example_plan gen) 200)"
proof -
  have "m_Active (nd_mode s)" "pe_ExpiresAt (example_plan gen) \<le> 200 + maxPlanValidity"
    using assms(1) by (simp_all add: example_mode_def example_plan_fields maxPlanValidity_def duration_defs)
  moreover have "plan_Validate id Itoa (example_plan gen) (mode_scope (nd_mode s)) (known_plan s) 200 = None"
    unfolding assms(1) by (rule example_plan_valid [OF assms(3,4)])
  moreover have "\<not> pe_PlanGeneration (example_plan gen) < nd_arrivedGen s" using assms(2) by (simp add: example_plan_fields)
  ultimately obtain s' d w where "submit id Itoa (example_pass\<lparr>pv_save_ok := True\<rparr>) (example_plan gen) 200 s = (s', Applied d w)"
    "nd_mode s' = nd_mode s" "nd_arrivedGen s' = nd_arrivedGen s" "known_plan s' = Some (accepted_of (example_plan gen) 200)"
    using submit_admits by blast
  then show ?thesis using assms(1) by simp
qed

theorem no_plan_replay_witness:
  "\<exists>s' s''. netd_admit id Itoa example_netd (Submit example_pass (example_plan 5) 200) = (s', True) \<and>
     netd_admit id Itoa (run (\<lambda>s e. fst (netd_admit id Itoa s e)) s' []) (Submit example_pass (example_plan 6) 200) = (s'', True) \<and>
     pe_PlanGeneration (example_plan 5) < pe_PlanGeneration (example_plan 6)"
proof -
  have st: "stored example_netd" by (simp add: stored_def example_netd_def)
  have "nd_mode example_netd = example_mode" "nd_arrivedGen example_netd = 0" "known_plan example_netd = None"
    by (simp_all add: example_netd_def known_plan_def plan_load_def)
  then obtain s' where s': "netd_admit id Itoa example_netd (Submit example_pass (example_plan 5) 200) = (s', True)"
    "nd_mode s' = example_mode" "nd_arrivedGen s' = 0" "known_plan s' = Some (accepted_of (example_plan 5) 200)"
    using example_submit [of example_netd 5] by auto
  have "ac_Generation (accepted_of (example_plan 5) 200) < 6" by (simp add: accepted_of_def example_plan_fields)
  then obtain s'' where s'': "netd_admit id Itoa s' (Submit example_pass (example_plan 6) 200) = (s'', True)"
    using s'(2-4) example_submit [of s' 6] by auto
  then have again: "netd_admit id Itoa (run (\<lambda>s e. fst (netd_admit id Itoa s e)) s' []) (Submit example_pass (example_plan 6) 200) = (s'', True)"
    by (simp only: run.simps)
  have "pe_PlanGeneration (example_plan 5) < pe_PlanGeneration (example_plan 6)"
    using no_plan_replay [OF st s'(1) again] unfolding example_plan_fields by simp
  then show ?thesis using s'(1) again by blast
qed

end
