(* ===== verification/Throttle.thy ===== *)
theory Throttle
  imports Prelude "HOL-Library.Product_Lexorder" "HOL-Library.AList"
begin

text \<open>
  The durable authentication throttle (\<open>data-plane/internal/throttle/throttle.go\<close>): rules are merged
  and ordered, each attempt is charged to one bucket per rule and window, an exceeded limit can
  raise a hard block that outlives the window, and a global damper is charged only by attempts every
  other rule admits. The table \<open>auth_throttle_buckets\<close> is an association list from its primary key to the
  row; a transaction that fails leaves it unchanged. HMAC-SHA256 under the appliance's key, in
  hexadecimal, is the parameter \<open>mac\<close>; the SQL function of the one-trip path is the parameter
  \<open>one_trip\<close>.
\<close>

section \<open>Rules\<close>

definition ScopeEndpoint :: string where "ScopeEndpoint = ''endpoint''"
definition ScopeIdentity :: string where "ScopeIdentity = ''identity''"
definition ScopeIP :: string where "ScopeIP = ''ip''"
definition ScopeDevice :: string where "ScopeDevice = ''device''"
definition ScopeMethod :: string where "ScopeMethod = ''method''"
definition MethodAny :: string where "MethodAny = ''*''"

definition valid_scope :: "string \<Rightarrow> bool" where
  "valid_scope s \<longleftrightarrow> s \<in> {ScopeEndpoint, ScopeIdentity, ScopeIP, ScopeDevice, ScopeMethod}"

definition validMethod :: "string \<Rightarrow> bool" where
  "validMethod m \<longleftrightarrow> m \<in> {''account'', ''otp'', ''voucher'', ''social'', ''pms'', ''post_stay_pin'', MethodAny}"

record throttle_rule =
  ru_Kind :: string
  ru_Value :: string
  ru_Method :: string
  ru_Limit :: int
  ru_Block :: duration
  ru_Global :: bool

record throttle_decision =
  td_Allowed :: bool
  td_RetryAfter :: duration
  td_Reason :: string

record chargeable =
  ch_kind :: string
  ch_sk :: string
  ch_method :: string
  ch_limit :: int
  ch_block :: duration
  ch_global :: bool

datatype throttle_error = Invalid_scope | Missing_method | Invalid_method | No_positive_limit | Db_failed

definition scopeKey :: "(string \<Rightarrow> string) \<Rightarrow> string \<Rightarrow> string \<Rightarrow> string" where
  "scopeKey mac kind value = mac (kind @ [CHR 0x00] @ ToLower (TrimSpace value))"

definition Fingerprint :: "(string \<Rightarrow> string) \<Rightarrow> string \<Rightarrow> string \<Rightarrow> string" where
  "Fingerprint mac kind value = (if TrimSpace value = '''' then '''' else take 16 (scopeKey mac kind value))"

definition rule_method :: "throttle_rule \<Rightarrow> string" where
  "rule_method r = ToLower (TrimSpace (ru_Method r))"

definition rule_error :: "throttle_rule \<Rightarrow> throttle_error option" where
  "rule_error r =
    (if \<not> valid_scope (ru_Kind r) then Some Invalid_scope
     else if rule_method r = '''' then Some Missing_method
     else if \<not> validMethod (rule_method r) then Some Invalid_method
     else if ru_Limit r \<le> 0 then Some No_positive_limit
     else None)"

definition rule_skipped :: "throttle_rule \<Rightarrow> bool" where
  "rule_skipped r \<longleftrightarrow> ru_Value r = '''' \<and> ru_Kind r \<noteq> ScopeEndpoint"

definition rule_charge :: "(string \<Rightarrow> string) \<Rightarrow> throttle_rule \<Rightarrow> chargeable" where
  "rule_charge mac r = \<lparr>ch_kind = ru_Kind r, ch_sk = scopeKey mac (ru_Kind r) (ru_Value r), ch_method = rule_method r,
     ch_limit = ru_Limit r, ch_block = ru_Block r, ch_global = ru_Global r\<rparr>"

definition charge_id :: "chargeable \<Rightarrow> string" where
  "charge_id c = ch_kind c @ [CHR 0x00] @ ch_sk c @ [CHR 0x00] @ ch_method c"

definition merge_charge :: "chargeable \<Rightarrow> chargeable \<Rightarrow> chargeable" where
  "merge_charge e c = e\<lparr>ch_limit := (if ch_limit c < ch_limit e then ch_limit c else ch_limit e),
     ch_block := (if ch_block e < ch_block c then ch_block c else ch_block e),
     ch_global := (ch_global e \<and> ch_global c)\<rparr>"

definition add_charge :: "chargeable \<Rightarrow> (string \<times> chargeable) list \<Rightarrow> (string \<times> chargeable) list" where
  "add_charge c m = (case map_of m (charge_id c) of
     Some e \<Rightarrow> AList.update (charge_id c) (merge_charge e c) m
   | None \<Rightarrow> AList.update (charge_id c) c m)"

fun merge_rules :: "(string \<Rightarrow> string) \<Rightarrow> throttle_rule list \<Rightarrow> (string \<times> chargeable) list
    \<Rightarrow> throttle_error + (string \<times> chargeable) list" where
  "merge_rules mac [] m = Inr m"
| "merge_rules mac (r # rs) m = (case rule_error r of
     Some e \<Rightarrow> Inl e
   | None \<Rightarrow> if rule_skipped r then merge_rules mac rs m
             else merge_rules mac rs (add_charge (rule_charge mac r) m))"

definition charge_order :: "chargeable \<Rightarrow> bool \<times> string \<times> string \<times> string" where
  "charge_order c = (ch_global c, ch_kind c, ch_sk c, ch_method c)"

definition normalizeRules :: "(string \<Rightarrow> string) \<Rightarrow> throttle_rule list \<Rightarrow> throttle_error + chargeable list" where
  "normalizeRules mac rules = (case merge_rules mac rules [] of
     Inl e \<Rightarrow> Inl e
   | Inr m \<Rightarrow> Inr (sort_key charge_order (map snd m)))"

section \<open>Buckets\<close>

type_synonym bucket_key = "(string \<times> string \<times> string) \<times> go_time"

record bucket =
  bk_count :: int
  bk_blocked :: "go_time option"

type_synonym buckets = "(bucket_key \<times> bucket) list"

definition charge_ident :: "chargeable \<Rightarrow> string \<times> string \<times> string" where
  "charge_ident c = (ch_kind c, ch_sk c, ch_method c)"

definition windowStart :: "duration \<Rightarrow> go_time \<Rightarrow> go_time" where
  "windowStart window now = now - now mod window"

definition row_block :: "string \<times> string \<times> string \<Rightarrow> go_time \<Rightarrow> bucket_key \<times> bucket \<Rightarrow> go_time list" where
  "row_block i now kb = (case bk_blocked (snd kb) of
     None \<Rightarrow> [] | Some u \<Rightarrow> if fst (fst kb) = i \<and> now < u then [u] else [])"

definition blocks_of :: "buckets \<Rightarrow> string \<times> string \<times> string \<Rightarrow> go_time \<Rightarrow> go_time list" where
  "blocks_of bs i now = concat (map (row_block i now) bs)"

text \<open>\<open>SELECT max(blocked_until)\<close>, \<open>None\<close> for no row.\<close>

definition max_block :: "buckets \<Rightarrow> string \<times> string \<times> string \<Rightarrow> go_time \<Rightarrow> go_time option" where
  "max_block bs i now = (case blocks_of bs i now of [] \<Rightarrow> None | u # us \<Rightarrow> Some (fold max us u))"

text \<open>The \<open>INSERT ... ON CONFLICT DO UPDATE\<close> that counts the attempt.\<close>

definition incr_bucket :: "bucket_key \<Rightarrow> buckets \<Rightarrow> buckets" where
  "incr_bucket k bs = (case map_of bs k of
     None \<Rightarrow> AList.update k \<lparr>bk_count = 1, bk_blocked = None\<rparr> bs
   | Some b \<Rightarrow> AList.update k (b\<lparr>bk_count := bk_count b + 1\<rparr>) bs)"

definition bucket_count :: "buckets \<Rightarrow> bucket_key \<Rightarrow> int" where
  "bucket_count bs k = (case map_of bs k of None \<Rightarrow> 0 | Some b \<Rightarrow> bk_count b)"

definition block_bucket :: "bucket_key \<Rightarrow> go_time \<Rightarrow> buckets \<Rightarrow> buckets" where
  "block_bucket k u bs = (case map_of bs k of
     None \<Rightarrow> bs
   | Some b \<Rightarrow> AList.update k (b\<lparr>bk_blocked := Some u\<rparr>) bs)"

record charge_state =
  cg_buckets :: buckets
  cg_allowed :: bool
  cg_reason :: string
  cg_worst :: duration

text \<open>The reported reason is the rule with the longest wait.\<close>

definition refuse :: "duration \<Rightarrow> string \<Rightarrow> charge_state \<Rightarrow> charge_state" where
  "refuse d kind s =
    (let s = s\<lparr>cg_allowed := False\<rparr>
     in if cg_worst s < d \<or> cg_reason s = '''' then s\<lparr>cg_worst := max d (cg_worst s), cg_reason := kind\<rparr> else s)"

definition charge_step :: "duration \<Rightarrow> go_time \<Rightarrow> chargeable \<Rightarrow> charge_state \<Rightarrow> charge_state" where
  "charge_step window now c s =
    (let ws = windowStart window now; k = (charge_ident c, ws)
     in if ch_global c \<and> \<not> cg_allowed s then s
        else (case max_block (cg_buckets s) (charge_ident c) now of
          Some u \<Rightarrow> refuse (time_sub u now) (ch_kind c) s
        | None \<Rightarrow>
            let s = s\<lparr>cg_buckets := incr_bucket k (cg_buckets s)\<rparr>
            in if bucket_count (cg_buckets s) k \<le> ch_limit c then s
               else if 0 < ch_block c
                 then refuse (ch_block c) (ch_kind c) (s\<lparr>cg_buckets := block_bucket k (now + ch_block c) (cg_buckets s)\<rparr>)
                 else refuse (time_sub (ws + window) now) (ch_kind c) s))"

definition charge_all :: "duration \<Rightarrow> go_time \<Rightarrow> chargeable list \<Rightarrow> buckets \<Rightarrow> charge_state" where
  "charge_all window now cs bs =
     fold (charge_step window now) cs \<lparr>cg_buckets = bs, cg_allowed = True, cg_reason = '''', cg_worst = 0\<rparr>"

text \<open>The multi-statement path: \<open>db_ok\<close> says whether every statement and the commit succeeded.\<close>

definition allow_loop :: "duration \<Rightarrow> go_time \<Rightarrow> chargeable list \<Rightarrow> bool \<Rightarrow> buckets
    \<Rightarrow> buckets \<times> (throttle_error + throttle_decision)" where
  "allow_loop window now cs db_ok bs =
    (if \<not> db_ok then (bs, Inl Db_failed)
     else let s = charge_all window now cs bs
          in (cg_buckets s, Inr \<lparr>td_Allowed = cg_allowed s, td_RetryAfter = cg_worst s, td_Reason = cg_reason s\<rparr>))"

datatype trip_outcome = Trip_missing | Trip_failed | Tripped buckets throttle_decision

record throttle_store =
  ts_buckets :: buckets
  ts_noCharge :: bool

definition Allow ::
  "(string \<Rightarrow> string) \<Rightarrow> duration \<Rightarrow> (chargeable list \<Rightarrow> go_time \<Rightarrow> buckets \<Rightarrow> trip_outcome) \<Rightarrow> go_time \<Rightarrow> bool
     \<Rightarrow> throttle_rule list \<Rightarrow> throttle_store \<Rightarrow> throttle_store \<times> (throttle_error + throttle_decision)" where
  "Allow mac window one_trip now db_ok rules st = (case normalizeRules mac rules of
     Inl e \<Rightarrow> (st, Inl e)
   | Inr entries \<Rightarrow>
       (case (if ts_noCharge st then Trip_missing else one_trip entries now (ts_buckets st)) of
          Tripped bs d \<Rightarrow> (st\<lparr>ts_buckets := bs\<rparr>, Inr d)
        | Trip_failed \<Rightarrow> (st, Inl Db_failed)
        | Trip_missing \<Rightarrow>
            (case allow_loop window now entries db_ok (ts_buckets st) of
               (bs, d) \<Rightarrow> (st\<lparr>ts_buckets := bs, ts_noCharge := True\<rparr>, d))))"

definition expired_bucket :: "duration \<Rightarrow> duration \<Rightarrow> go_time \<Rightarrow> bucket_key \<times> bucket \<Rightarrow> bool" where
  "expired_bucket window grace now kb \<longleftrightarrow>
     snd (fst kb) < now - window - grace \<and>
     (case bk_blocked (snd kb) of None \<Rightarrow> True | Some u \<Rightarrow> u \<le> now)"

definition Cleanup :: "duration \<Rightarrow> go_time \<Rightarrow> bool \<Rightarrow> duration \<Rightarrow> throttle_store \<Rightarrow> throttle_store" where
  "Cleanup window now db_ok grace st =
    (let grace = (if grace < 0 then 0 else grace)
     in if db_ok then st\<lparr>ts_buckets := filter (\<lambda>kb. \<not> expired_bucket window grace now kb) (ts_buckets st)\<rparr> else st)"

section \<open>Merged rules\<close>

definition covers :: "chargeable \<Rightarrow> chargeable \<Rightarrow> bool" where
  "covers c' c \<longleftrightarrow> charge_ident c' = charge_ident c \<and> ch_limit c' \<le> ch_limit c \<and> ch_block c \<le> ch_block c'
     \<and> (ch_global c' \<longrightarrow> ch_global c)"

lemma covers_refl [simp]: "covers c c"
  by (simp add: covers_def)

lemma covers_trans: "covers a b \<Longrightarrow> covers b c \<Longrightarrow> covers a c"
  by (auto simp: covers_def)

definition nul_free :: "chargeable \<Rightarrow> bool" where
  "nul_free c \<longleftrightarrow> CHR 0x00 \<notin> set (ch_kind c) \<and> CHR 0x00 \<notin> set (ch_method c)"

lemma charge_id_inject:
  assumes "nul_free a" and "nul_free b"
  shows "charge_id a = charge_id b \<longleftrightarrow> charge_ident a = charge_ident b"
proof
  assume "charge_id a = charge_id b"
  then have "ch_kind a = ch_kind b \<and> ch_sk a @ CHR 0x00 # ch_method a = ch_sk b @ CHR 0x00 # ch_method b"
    using assms append_sep_inject [of "CHR 0x00" "ch_kind a" "ch_kind b"] by (simp add: charge_id_def nul_free_def)
  then have k: "ch_kind a = ch_kind b"
    and "rev (ch_sk a @ CHR 0x00 # ch_method a) = rev (ch_sk b @ CHR 0x00 # ch_method b)"
    by simp_all
  then have "rev (ch_method a) = rev (ch_method b) \<and> rev (ch_sk a) = rev (ch_sk b)"
    using assms append_sep_inject [of "CHR 0x00" "rev (ch_method a)" "rev (ch_method b)"] by (simp add: nul_free_def)
  then show "charge_ident a = charge_ident b" using k by (simp add: charge_ident_def)
qed (simp add: charge_id_def charge_ident_def)

lemma rule_charge_nul_free: "rule_error r = None \<Longrightarrow> nul_free (rule_charge mac r)"
  by (auto simp: rule_error_def nul_free_def rule_charge_def valid_scope_def validMethod_def ScopeEndpoint_def
      ScopeIdentity_def ScopeIP_def ScopeDevice_def ScopeMethod_def MethodAny_def split: if_splits)

definition merged_ok :: "(string \<times> chargeable) list \<Rightarrow> bool" where
  "merged_ok m \<longleftrightarrow> distinct (map fst m) \<and> (\<forall>(k, c) \<in> set m. k = charge_id c \<and> nul_free c)"

lemma merge_charge_fields [simp]:
  "charge_id (merge_charge e c) = charge_id e" "charge_ident (merge_charge e c) = charge_ident e"
  "nul_free (merge_charge e c) = nul_free e" "covers (merge_charge e c) e"
  by (auto simp: merge_charge_def charge_id_def charge_ident_def nul_free_def covers_def)

lemma alist_update_member: "(k, v) \<in> set (AList.update k' v' xs) \<Longrightarrow> (k, v) = (k', v') \<or> (k \<noteq> k' \<and> (k, v) \<in> set xs) \<or> (k, v) \<in> set xs"
  by (induction xs) (auto split: if_splits)

lemma add_charge_ok:
  assumes m: "merged_ok m" and c: "nul_free c"
  shows "merged_ok (add_charge c m) \<and> (\<forall>e \<in> snd ` set m. \<exists>e' \<in> snd ` set (add_charge c m). covers e' e)
    \<and> (\<exists>e' \<in> snd ` set (add_charge c m). covers e' c)"
proof (cases "map_of m (charge_id c)")
  case None
  have "map_of xs k = None \<Longrightarrow> AList.update k v xs = xs @ [(k, v)]" for k v and xs :: "(string \<times> chargeable) list"
    by (induction xs) (auto split: if_splits)
  with None have "add_charge c m = m @ [(charge_id c, c)]" by (simp add: add_charge_def)
  then show ?thesis using m c None by (force simp: merged_ok_def map_of_eq_None_iff)
next
  case (Some e)
  let ?v = "merge_charge e c"
  have e: "(charge_id c, e) \<in> set m" using Some by (rule map_of_SomeD)
  with m have ee: "charge_id c = charge_id e" "nul_free e" by (auto simp: merged_ok_def)
  then have cov: "covers ?v c" using charge_id_inject [OF c ee(2)] by (auto simp: covers_def merge_charge_def charge_ident_def)
  have add: "add_charge c m = AList.update (charge_id c) ?v m" using Some by (simp add: add_charge_def)
  have "merged_ok (add_charge c m)"
    using m ee unfolding add by (auto simp: merged_ok_def distinct_update dest!: alist_update_member)
  moreover have v: "?v \<in> snd ` set (add_charge c m)"
    unfolding add using map_of_SomeD [of "AList.update (charge_id c) ?v m" "charge_id c" ?v] by (force simp: update_conv')
  moreover have "\<exists>e' \<in> snd ` set (add_charge c m). covers e' x" if x: "x \<in> snd ` set m" for x
  proof (cases "charge_id x = charge_id c")
    case True
    then have "x = e" using x e m by (auto simp: merged_ok_def dest: eq_key_imp_eq_value)
    then show ?thesis using v by (intro bexI [OF _ v]) simp
  next
    case False
    obtain k where k: "(k, x) \<in> set m" using x by auto
    then have "map_of m k = Some x" "k \<noteq> charge_id c" using m False by (auto simp: merged_ok_def)
    then have "map_of (add_charge c m) k = Some x" unfolding add by (simp add: update_conv')
    then have "x \<in> snd ` set (add_charge c m)" by (force dest: map_of_SomeD)
    then show ?thesis by (rule bexI [rotated]) simp
  qed
  ultimately show ?thesis using cov by blast
qed

lemma merge_rules_ok:
  assumes "merge_rules mac rs m = Inr m'" and "merged_ok m"
  shows "merged_ok m' \<and> (\<forall>e \<in> snd ` set m. \<exists>e' \<in> snd ` set m'. covers e' e)
    \<and> (\<forall>r \<in> set rs. \<not> rule_skipped r \<longrightarrow> (\<exists>e' \<in> snd ` set m'. covers e' (rule_charge mac r)))"
  using assms
proof (induction rs arbitrary: m)
  case Nil
  then show ?case by (auto intro!: bexI [of _ "(_, _)"])
next
  case (Cons r rs)
  then have err: "rule_error r = None" by (auto split: option.splits)
  show ?case
  proof (cases "rule_skipped r")
    case True
    then show ?thesis using Cons.prems err Cons.IH [of m] by simp
  next
    case False
    let ?m = "add_charge (rule_charge mac r) m"
    note A = add_charge_ok [OF Cons.prems(2) rule_charge_nul_free [OF err, of mac]]
    have "merge_rules mac rs ?m = Inr m'" using Cons.prems(1) err False by simp
    from Cons.IH [OF this] A have IH: "merged_ok m'" "\<And>e. e \<in> snd ` set ?m \<Longrightarrow> \<exists>e' \<in> snd ` set m'. covers e' e"
      "\<forall>r \<in> set rs. \<not> rule_skipped r \<longrightarrow> (\<exists>e' \<in> snd ` set m'. covers e' (rule_charge mac r))" by blast+
    have up: "\<exists>e' \<in> snd ` set m'. covers e' x" if "\<exists>e \<in> snd ` set ?m. covers e x" for x
      using that IH(2) covers_trans by meson
    show ?thesis using A IH(1,3) up False by auto
  qed
qed

lemma normalizeRules_ok:
  assumes "normalizeRules mac rules = Inr cs"
  shows "distinct (map charge_ident cs)" and "\<And>r. r \<in> set rules \<Longrightarrow> \<not> rule_skipped r \<Longrightarrow> \<exists>c \<in> set cs. covers c (rule_charge mac r)"
proof -
  obtain m where m: "merge_rules mac rules [] = Inr m" "cs = sort_key charge_order (map snd m)"
    using assms by (auto simp: normalizeRules_def split: sum.splits)
  have ok: "merged_ok m" "\<And>r. r \<in> set rules \<Longrightarrow> \<not> rule_skipped r \<Longrightarrow> \<exists>c \<in> snd ` set m. covers c (rule_charge mac r)"
    using merge_rules_ok [OF m(1)] by (auto simp: merged_ok_def)
  have "distinct (map charge_id (map snd m))"
  proof -
    have "map charge_id (map snd m) = map fst m" using ok(1) by (auto simp: merged_ok_def)
    then show ?thesis using ok(1) by (simp add: merged_ok_def del: map_map)
  qed
  from this [unfolded distinct_map [of charge_id "map snd m"] set_map]
  have d: "distinct (map snd m)" "inj_on charge_id (snd ` set m)" by blast+
  have "inj_on charge_ident (snd ` set m)"
  proof (rule inj_onI)
    fix a b assume ab: "a \<in> snd ` set m" "b \<in> snd ` set m" "charge_ident a = charge_ident b"
    then have "charge_id a = charge_id b" by (simp add: charge_id_def charge_ident_def)
    then show "a = b" using d(2) ab by (auto dest: inj_onD)
  qed
  then have "distinct (map charge_ident (map snd m))"
    unfolding distinct_map [of charge_ident "map snd m"] set_map using d(1) by blast
  then show "distinct (map charge_ident cs)" unfolding m(2) distinct_map [of charge_ident] by simp
  show "\<And>r. r \<in> set rules \<Longrightarrow> \<not> rule_skipped r \<Longrightarrow> \<exists>c \<in> set cs. covers c (rule_charge mac r)"
    using ok(2) by (simp add: m(2))
qed

section \<open>The limit\<close>

lemma bucket_count_incr: "bucket_count (incr_bucket k bs) k' = bucket_count bs k' + (if k' = k then 1 else 0)"
  by (auto simp: bucket_count_def incr_bucket_def update_conv' split: option.split)

lemma bucket_count_block [simp]: "bucket_count (block_bucket k u bs) k' = bucket_count bs k'"
  by (auto simp: bucket_count_def block_bucket_def update_conv' split: option.split)

lemma refuse_fields [simp]: "cg_buckets (refuse d kd s) = cg_buckets s" "cg_allowed (refuse d kd s) = False"
  by (simp_all add: refuse_def Let_def)

lemma charge_step_count:
  "bucket_count (cg_buckets s) k \<le> bucket_count (cg_buckets (charge_step w now c s)) k"
  "k \<noteq> (charge_ident c, windowStart w now) \<Longrightarrow>
     bucket_count (cg_buckets (charge_step w now c s)) k = bucket_count (cg_buckets s) k"
  by (simp_all add: charge_step_def Let_def bucket_count_incr split: option.split)

lemma charge_step_allowed:
  assumes "cg_allowed (charge_step w now c s)"
  shows "cg_allowed s" and "bucket_count (cg_buckets (charge_step w now c s)) (charge_ident c, windowStart w now)
      = bucket_count (cg_buckets s) (charge_ident c, windowStart w now) + 1"
    and "bucket_count (cg_buckets (charge_step w now c s)) (charge_ident c, windowStart w now) \<le> ch_limit c"
  using assms by (auto simp: charge_step_def Let_def bucket_count_incr split: option.splits if_splits)

lemma charge_fold_count:
  "bucket_count (cg_buckets s) k \<le> bucket_count (cg_buckets (fold (charge_step w now) cs s)) k"
  by (induction cs arbitrary: s) (auto intro: order_trans charge_step_count(1))

lemma charge_fold_other:
  "fst k \<notin> set (map charge_ident cs) \<Longrightarrow> bucket_count (cg_buckets (fold (charge_step w now) cs s)) k = bucket_count (cg_buckets s) k"
proof (induction cs arbitrary: s)
  case (Cons c cs)
  then have "k \<noteq> (charge_ident c, windowStart w now)" by auto
  with Cons show ?case by (simp add: charge_step_count(2))
qed simp

lemma charge_fold_start: "cg_allowed (fold (charge_step w now) cs s) \<Longrightarrow> cg_allowed s"
  by (induction cs arbitrary: s) (auto dest: charge_step_allowed(1))

lemma charge_fold_allowed:
  assumes "distinct (map charge_ident cs)" and "cg_allowed (fold (charge_step w now) cs s)" and "c \<in> set cs"
  shows "cg_allowed s \<and> bucket_count (cg_buckets (fold (charge_step w now) cs s)) (charge_ident c, windowStart w now)
      = bucket_count (cg_buckets s) (charge_ident c, windowStart w now) + 1
    \<and> bucket_count (cg_buckets (fold (charge_step w now) cs s)) (charge_ident c, windowStart w now) \<le> ch_limit c"
  using assms
proof (induction cs arbitrary: s)
  case (Cons d cs)
  let ?s = "charge_step w now d s"
  have "cg_allowed ?s" using Cons.prems(2) charge_fold_start [of w now cs ?s] by simp
  note D = charge_step_allowed [OF this]
  show ?case
  proof (cases "c = d")
    case True
    then have "charge_ident c \<notin> set (map charge_ident cs)" using Cons.prems(1) by auto
    then show ?thesis using D True charge_fold_other [of "(charge_ident c, windowStart w now)" cs w now ?s] by simp
  next
    case False
    then have c: "c \<in> set cs" using Cons.prems(3) by simp
    then have "charge_ident c \<in> charge_ident ` set cs" by simp
    then have c2: "charge_ident c \<noteq> charge_ident d" using Cons.prems(1) by auto
    have "bucket_count (cg_buckets ?s) (charge_ident c, windowStart w now) = bucket_count (cg_buckets s) (charge_ident c, windowStart w now)"
      using c2 by (intro charge_step_count(2)) auto
    then show ?thesis using Cons.IH [of ?s] Cons.prems c D(1) by simp
  qed
qed simp

text \<open>A history of the throttle: attempts and clean-ups, each with its time and whether the database
  answered.\<close>

datatype throttle_op =
    Attempt "throttle_rule list" go_time bool
  | Clean duration go_time bool

fun op_time :: "throttle_op \<Rightarrow> go_time" where
  "op_time (Attempt _ t _) = t"
| "op_time (Clean _ t _) = t"

text \<open>How many attempts of a history are allowed.\<close>

fun allowed_in :: "(string \<Rightarrow> string) \<Rightarrow> duration \<Rightarrow> (chargeable list \<Rightarrow> go_time \<Rightarrow> buckets \<Rightarrow> trip_outcome)
    \<Rightarrow> throttle_op list \<Rightarrow> throttle_store \<Rightarrow> int" where
  "allowed_in mac w trip [] st = 0"
| "allowed_in mac w trip (Attempt rules t ok # ops) st =
    (case Allow mac w trip t ok rules st of
       (st', Inl _) \<Rightarrow> allowed_in mac w trip ops st'
     | (st', Inr d) \<Rightarrow> (if td_Allowed d then 1 else 0) + allowed_in mac w trip ops st')"
| "allowed_in mac w trip (Clean g t ok # ops) st = allowed_in mac w trip ops (Cleanup w t ok g st)"

text \<open>The attempts of a history are all charged to one identity, by a rule of at most the given limit.\<close>

definition charged_to :: "(string \<Rightarrow> string) \<Rightarrow> string \<times> string \<times> string \<Rightarrow> int \<Rightarrow> throttle_op \<Rightarrow> bool" where
  "charged_to mac i L x = (case x of
     Attempt rules t ok \<Rightarrow> (\<exists>r \<in> set rules. \<not> rule_skipped r \<and> charge_ident (rule_charge mac r) = i \<and> ru_Limit r \<le> L)
   | Clean g t ok \<Rightarrow> True)"

lemma Allow_noCharge:
  assumes "ts_noCharge st" and "Allow mac w trip t ok rules st = (st', res)"
  shows "ts_noCharge st' \<and> ((st' = st \<and> (\<exists>e. res = Inl e)) \<or>
    (\<exists>cs. normalizeRules mac rules = Inr cs \<and> ok \<and> ts_buckets st' = cg_buckets (charge_all w t cs (ts_buckets st)) \<and>
      (\<exists>d. res = Inr d \<and> td_Allowed d = cg_allowed (charge_all w t cs (ts_buckets st)))))"
proof (cases "normalizeRules mac rules")
  case (Inl e)
  then show ?thesis using assms by (auto simp: Allow_def)
next
  case (Inr cs)
  have st: "st\<lparr>ts_buckets := b, ts_noCharge := True\<rparr> = st\<lparr>ts_buckets := b\<rparr>" for b
    using assms(1) by (cases st) simp
  show ?thesis using assms Inr by (cases ok) (auto simp: Allow_def allow_loop_def Let_def st)
qed

lemma map_of_filter_key: "(\<And>b. P (k, b)) \<Longrightarrow> map_of (filter P xs) k = map_of xs k"
  by (induction xs) auto

lemma cleanup_keeps_window:
  assumes "0 < w" and "windowStart w t = ws"
  shows "bucket_count (ts_buckets (Cleanup w t ok g st)) (i, ws) = bucket_count (ts_buckets st) (i, ws)"
proof -
  have "t - w < ws" using pos_mod_bound [OF assms(1), of t] assms(2) unfolding windowStart_def by linarith
  then have "\<not> expired_bucket w (if g < 0 then 0 else g) t ((i, ws), b)" for b by (simp add: expired_bucket_def)
  then show ?thesis
    using map_of_filter_key [of "\<lambda>kb. \<not> expired_bucket w (if g < 0 then 0 else g) t kb" "(i, ws)"]
    by (simp add: Cleanup_def Let_def bucket_count_def)
qed

lemma charged_attempt:
  assumes "ts_noCharge st" and a: "Allow mac w trip t ok rules st = (st', res)" and ws: "windowStart w t = ws"
    and "\<exists>r \<in> set rules. \<not> rule_skipped r \<and> charge_ident (rule_charge mac r) = i \<and> ru_Limit r \<le> L"
  shows "(\<exists>d. res = Inr d \<and> td_Allowed d \<and> bucket_count (ts_buckets st') (i, ws) = bucket_count (ts_buckets st) (i, ws) + 1
        \<and> bucket_count (ts_buckets st') (i, ws) \<le> L)
    \<or> ((\<forall>d. res = Inr d \<longrightarrow> \<not> td_Allowed d) \<and> bucket_count (ts_buckets st) (i, ws) \<le> bucket_count (ts_buckets st') (i, ws))"
proof -
  note A = Allow_noCharge [OF assms(1) a]
  obtain r where r: "r \<in> set rules" "\<not> rule_skipped r" "charge_ident (rule_charge mac r) = i" "ru_Limit r \<le> L" using assms(4) by blast
  show ?thesis
  proof (cases res)
    case (Inl e)
    then show ?thesis using A by auto
  next
    case (Inr d)
    then obtain cs where cs: "normalizeRules mac rules = Inr cs"
      "ts_buckets st' = cg_buckets (charge_all w t cs (ts_buckets st))" "td_Allowed d = cg_allowed (charge_all w t cs (ts_buckets st))"
      using A by auto
    obtain c where c: "c \<in> set cs" "charge_ident c = i" "ch_limit c \<le> L"
      using normalizeRules_ok(2) [OF cs(1) r(1,2)] r(3,4) by (auto simp: covers_def rule_charge_def)
    have up: "bucket_count (ts_buckets st) (i, ws) \<le> bucket_count (ts_buckets st') (i, ws)"
      unfolding cs(2) charge_all_def by (rule order_trans [OF _ charge_fold_count]) simp
    have "bucket_count (ts_buckets st') (i, ws) = bucket_count (ts_buckets st) (i, ws) + 1 \<and>
        bucket_count (ts_buckets st') (i, ws) \<le> ch_limit c" if "td_Allowed d"
      using charge_fold_allowed [OF normalizeRules_ok(1) [OF cs(1)] _ c(1), of w t
          "\<lparr>cg_buckets = ts_buckets st, cg_allowed = True, cg_reason = [], cg_worst = 0\<rparr>"] cs(3) c(2) ws that
      unfolding cs(2) charge_all_def by simp
    then show ?thesis using Inr up c(3) by (cases "td_Allowed d") auto
  qed
qed


definition example_rule :: throttle_rule where
  "example_rule = \<lparr>ru_Kind = ScopeIP, ru_Value = ''10.0.0.9'', ru_Method = ''otp'', ru_Limit = 2, ru_Block = 5 * minute, ru_Global = False\<rparr>"

definition no_trip :: "chargeable list \<Rightarrow> go_time \<Rightarrow> buckets \<Rightarrow> trip_outcome" where
  "no_trip cs t bs = Trip_missing"

definition fresh_store :: throttle_store where
  "fresh_store = \<lparr>ts_buckets = [], ts_noCharge = True\<rparr>"

lemma example_charged: "charged_to id (charge_ident (rule_charge id example_rule)) 2 (Attempt [example_rule] t ok)"
  by (simp add: charged_to_def example_rule_def rule_skipped_def)


section \<open>Hard blocks\<close>

definition blocked_till :: "buckets \<Rightarrow> string \<times> string \<times> string \<Rightarrow> go_time \<Rightarrow> bool" where
  "blocked_till bs i B \<longleftrightarrow> (\<exists>ws b u. map_of bs (i, ws) = Some b \<and> bk_blocked b = Some u \<and> B \<le> u)"

lemma max_block_Some:
  assumes "blocked_till bs i B" and "t < B"
  shows "\<exists>u. max_block bs i t = Some u"
proof -
  obtain ws b u where b: "((i, ws), b) \<in> set bs" "bk_blocked b = Some u" "B \<le> u"
    using assms(1) by (auto simp: blocked_till_def dest: map_of_SomeD)
  then have "u \<in> set (row_block i t ((i, ws), b))" using assms(2) by (simp add: row_block_def)
  with b(1) have "u \<in> set (blocks_of bs i t)" by (force simp: blocks_of_def)
  then show ?thesis by (cases "blocks_of bs i t") (auto simp: max_block_def)
qed

lemma blocked_incr: "blocked_till bs i B \<Longrightarrow> blocked_till (incr_bucket k bs) i B"
proof -
  assume "blocked_till bs i B"
  then obtain ws b u where b: "map_of bs (i, ws) = Some b" "bk_blocked b = Some u" "B \<le> u" by (auto simp: blocked_till_def)
  have "\<exists>b'. map_of (incr_bucket k bs) (i, ws) = Some b' \<and> bk_blocked b' = Some u"
    using b(1,2) by (cases "k = (i, ws)") (auto simp: incr_bucket_def update_conv' split: option.split)
  then show ?thesis using b(3) by (auto simp: blocked_till_def)
qed

lemma blocked_block_other:
  assumes "blocked_till bs i B" and "fst k \<noteq> i"
  shows "blocked_till (block_bucket k u bs) i B"
proof -
  obtain ws b v where b: "map_of bs (i, ws) = Some b" "bk_blocked b = Some v" "B \<le> v" using assms(1) by (auto simp: blocked_till_def)
  have "k \<noteq> (i, ws)" using assms(2) by auto
  then have "map_of (block_bucket k u bs) (i, ws) = Some b"
    using b(1) by (simp add: block_bucket_def update_conv' split: option.split)
  then show ?thesis using b by (auto simp: blocked_till_def)
qed

lemma charge_step_blocked:
  assumes "blocked_till (cg_buckets s) i B" and "t < B"
  shows "blocked_till (cg_buckets (charge_step w t c s)) i B"
    and "charge_ident c = i \<Longrightarrow> \<not> cg_allowed (charge_step w t c s)"
proof -
  show "charge_ident c = i \<Longrightarrow> \<not> cg_allowed (charge_step w t c s)"
    using max_block_Some [OF assms] by (auto simp: charge_step_def Let_def)
  show "blocked_till (cg_buckets (charge_step w t c s)) i B"
  proof (cases "charge_ident c = i")
    case True
    then show ?thesis using max_block_Some [OF assms] assms(1) by (auto simp: charge_step_def Let_def)
  next
    case False
    then show ?thesis using assms(1) blocked_incr blocked_block_other
      by (simp add: charge_step_def Let_def split: option.split)
  qed
qed

lemma charge_fold_blocked:
  assumes "blocked_till (cg_buckets s) i B" and "t < B"
  shows "blocked_till (cg_buckets (fold (charge_step w t) cs s)) i B \<and>
    (i \<in> set (map charge_ident cs) \<longrightarrow> \<not> cg_allowed (fold (charge_step w t) cs s))"
  using assms(1)
proof (induction cs arbitrary: s)
  case (Cons c cs)
  note S = charge_step_blocked [OF Cons.prems assms(2), where w = w and c = c]
  have "charge_ident c = i \<Longrightarrow> \<not> cg_allowed (fold (charge_step w t) cs (charge_step w t c s))"
    using S(2) charge_fold_start by blast
  then show ?case using Cons.IH [OF S(1)] by auto
qed simp

lemma map_of_filter_first: "map_of xs k = Some b \<Longrightarrow> P (k, b) \<Longrightarrow> map_of (filter P xs) k = Some b"
  by (induction xs) (auto split: if_splits)

lemma cleanup_blocked:
  assumes "blocked_till (ts_buckets st) i B" and "t < B"
  shows "blocked_till (ts_buckets (Cleanup w t ok g st)) i B"
proof -
  obtain ws b u where b: "map_of (ts_buckets st) (i, ws) = Some b" "bk_blocked b = Some u" "B \<le> u"
    using assms(1) by (auto simp: blocked_till_def)
  then have "\<not> expired_bucket w (if g < 0 then 0 else g) t ((i, ws), b)" using assms(2) by (simp add: expired_bucket_def)
  then have "map_of (ts_buckets (Cleanup w t ok g st)) (i, ws) = Some b"
    using b(1) map_of_filter_first [of "ts_buckets st" "(i, ws)" b "\<lambda>kb. \<not> expired_bucket w (if g < 0 then 0 else g) t kb"]
    by (simp add: Cleanup_def Let_def)
  then show ?thesis using b(2,3) by (auto simp: blocked_till_def)
qed

lemma blocked_none_allowed:
  assumes "ts_noCharge st" and "blocked_till (ts_buckets st) i B"
    and "\<forall>x \<in> set ops. op_time x < B \<and> charged_to mac i L x"
  shows "allowed_in mac w trip ops st = 0"
  using assms
proof (induction ops arbitrary: st)
  case (Cons x ops)
  show ?case
  proof (cases x)
    case (Clean g t ok)
    then show ?thesis
      using Cons.IH [of "Cleanup w t ok g st"] Cons.prems cleanup_blocked [OF Cons.prems(2), of t w ok g]
      by (simp add: Cleanup_def Let_def)
  next
    case (Attempt rules t ok)
    obtain st' res where a: "Allow mac w trip t ok rules st = (st', res)" by force
    note A = Allow_noCharge [OF Cons.prems(1) a]
    have t: "t < B" using Cons.prems(3) Attempt by simp
    obtain r where r: "r \<in> set rules" "\<not> rule_skipped r" "charge_ident (rule_charge mac r) = i"
      using Cons.prems(3) Attempt by (auto simp: charged_to_def)
    have "blocked_till (ts_buckets st') i B \<and> (\<forall>d. res = Inr d \<longrightarrow> \<not> td_Allowed d)"
    proof (cases res)
      case (Inl e)
      then show ?thesis using A Cons.prems(2) by auto
    next
      case (Inr d)
      then obtain cs where cs: "normalizeRules mac rules = Inr cs"
        "ts_buckets st' = cg_buckets (charge_all w t cs (ts_buckets st))" "td_Allowed d = cg_allowed (charge_all w t cs (ts_buckets st))"
        using A by auto
      have "i \<in> set (map charge_ident cs)"
        using normalizeRules_ok(2) [OF cs(1) r(1,2)] r(3) unfolding covers_def set_map by (metis imageI)
      then show ?thesis
        using charge_fold_blocked [of "\<lparr>cg_buckets = ts_buckets st, cg_allowed = True, cg_reason = '''', cg_worst = 0\<rparr>" i B t w cs]
          Cons.prems(2) t Inr cs(2,3) by (simp add: charge_all_def)
    qed
    then have "allowed_in mac w trip ops st' = 0" and "\<forall>d. res = Inr d \<longrightarrow> \<not> td_Allowed d"
      using Cons.IH [of st'] Cons.prems(3) A by auto
    then show ?thesis using a Attempt by (auto split: sum.split)
  qed
qed simp

text \<open>Charging a scope that has used up its limit raises the block.\<close>

lemma charge_step_raises:
  assumes "max_block (cg_buckets s) (charge_ident c) t = None" and "\<not> ch_global c" and "0 < ch_block c"
    and "ch_limit c \<le> bucket_count (cg_buckets s) (charge_ident c, windowStart w t)"
  shows "blocked_till (cg_buckets (charge_step w t c s)) (charge_ident c) (t + ch_block c)"
proof -
  let ?k = "(charge_ident c, windowStart w t)"
  have "\<exists>b. map_of (incr_bucket ?k bs) ?k = Some b" for bs
    by (auto simp: incr_bucket_def update_conv' split: option.split)
  then obtain b where "map_of (incr_bucket ?k (cg_buckets s)) ?k = Some b" by blast
  then have "map_of (block_bucket ?k (t + ch_block c) (incr_bucket ?k (cg_buckets s))) ?k = Some (b\<lparr>bk_blocked := Some (t + ch_block c)\<rparr>)"
    by (simp add: block_bucket_def update_conv')
  then have "blocked_till (block_bucket ?k (t + ch_block c) (incr_bucket ?k (cg_buckets s))) (charge_ident c) (t + ch_block c)"
    unfolding blocked_till_def by force
  moreover have "cg_buckets (charge_step w t c s) = block_bucket ?k (t + ch_block c) (incr_bucket ?k (cg_buckets s))"
    using assms by (simp add: charge_step_def Let_def bucket_count_incr)
  ultimately show ?thesis by simp
qed

lemma row_block_other: "fst k \<noteq> i \<Longrightarrow> row_block i t (k, b) = []"
  by (simp add: row_block_def split: option.split)

lemma blocks_of_other: "fst k \<noteq> i \<Longrightarrow> blocks_of (AList.update k b bs) i t = blocks_of bs i t"
  by (induction bs) (auto simp: blocks_of_def row_block_other)

lemma charge_step_other_block:
  "charge_ident c \<noteq> i \<Longrightarrow> max_block (cg_buckets (charge_step w t c s)) i t = max_block (cg_buckets s) i t"
  by (simp add: charge_step_def Let_def max_block_def incr_bucket_def block_bucket_def blocks_of_other split: option.split)

lemma charge_fold_raises:
  assumes "c \<in> set cs" and "distinct (map charge_ident cs)" and "\<not> ch_global c" and "0 < ch_block c"
    and "max_block (cg_buckets s) (charge_ident c) t = None"
    and "ch_limit c \<le> bucket_count (cg_buckets s) (charge_ident c, windowStart w t)"
  shows "blocked_till (cg_buckets (fold (charge_step w t) cs s)) (charge_ident c) (t + ch_block c)"
  using assms
proof (induction cs arbitrary: s)
  case (Cons d cs)
  show ?case
  proof (cases "c = d")
    case True
    then have "blocked_till (cg_buckets (charge_step w t d s)) (charge_ident c) (t + ch_block c)"
      using Cons.prems charge_step_raises by simp
    then show ?thesis using charge_fold_blocked Cons.prems(4) by simp
  next
    case False
    then have "c \<in> set cs" using Cons.prems(1) by simp
    then have "charge_ident c \<in> charge_ident ` set cs" by simp
    then have "charge_ident d \<noteq> charge_ident c" using Cons.prems(2) by auto
    then have "max_block (cg_buckets (charge_step w t d s)) (charge_ident c) t = None"
      "bucket_count (cg_buckets (charge_step w t d s)) (charge_ident c, windowStart w t) =
         bucket_count (cg_buckets s) (charge_ident c, windowStart w t)"
      using Cons.prems(5) charge_step_other_block [of d "charge_ident c" w t s] by (simp_all add: charge_step_count(2))
    then show ?thesis using Cons.IH [of "charge_step w t d s"] Cons.prems \<open>c \<in> set cs\<close> by simp
  qed
qed simp

text \<open>
  a hard block holds. When an attempt is charged to a client scope that had already used its
  limit in the window, under a rule with a block time, then until that time has passed no attempt
  charged to the scope is allowed: not in later windows, not after clean-ups, and not after attempts
  with other rules or failures of the database.
\<close>
theorem hard_block_holds:
  assumes st: "ts_noCharge st" and a: "Allow mac w trip t True rules st = (st', Inr d)"
    and r: "r \<in> set rules" "\<not> rule_skipped r" "\<not> ru_Global r" "0 < ru_Block r" "i = charge_ident (rule_charge mac r)"
    and over: "ru_Limit r \<le> bucket_count (ts_buckets st) (i, windowStart w t)" and free: "max_block (ts_buckets st) i t = None"
    and ops: "\<forall>x \<in> set ops. op_time x < t + ru_Block r \<and> charged_to mac i L x"
  shows "allowed_in mac w trip ops st' = 0"
proof -
  obtain cs where cs: "normalizeRules mac rules = Inr cs" "ts_buckets st' = cg_buckets (charge_all w t cs (ts_buckets st))"
    and st': "ts_noCharge st'"
    using Allow_noCharge [OF st a] by auto
  obtain c where c: "c \<in> set cs" "charge_ident c = i" "ch_limit c \<le> ru_Limit r" "ru_Block r \<le> ch_block c" "\<not> ch_global c"
    using normalizeRules_ok(2) [OF cs(1) r(1,2)] r(3,5) by (auto simp: covers_def rule_charge_def charge_ident_def)
  have "blocked_till (ts_buckets st') i (t + ch_block c)"
    using charge_fold_raises [OF c(1) normalizeRules_ok(1) [OF cs(1)] c(5),
        of "\<lparr>cg_buckets = ts_buckets st, cg_allowed = True, cg_reason = '''', cg_worst = 0\<rparr>" t w] c r(4) over free
    unfolding cs(2) charge_all_def by simp
  then have "blocked_till (ts_buckets st') i (t + ru_Block r)" using c(4) unfolding blocked_till_def
    by (meson add_left_mono order_trans)
  then show ?thesis using blocked_none_allowed [OF st'] ops by blast
qed

text \<open>The third attempt of the example raises the block: it outlives the one-minute window.\<close>

definition used_store :: throttle_store where
  "used_store = \<lparr>ts_buckets = [((charge_ident (rule_charge id example_rule), 0), \<lparr>bk_count = 2, bk_blocked = None\<rparr>)], ts_noCharge = True\<rparr>"

lemma example_normalized: "normalizeRules id [example_rule] = Inr [rule_charge id example_rule]"
proof -
  have "rule_method example_rule = ''otp''"
    by (simp add: rule_method_def example_rule_def ToLower_def TrimSpace_def is_space_def lower_char_def is_upper_def less_eq_char_def)
  then have "rule_error example_rule = None"
    by (simp add: rule_error_def validMethod_def MethodAny_def) (simp add: example_rule_def valid_scope_def)
  moreover have "\<not> rule_skipped example_rule" by (simp add: rule_skipped_def example_rule_def)
  ultimately show ?thesis by (simp add: normalizeRules_def add_charge_def)
qed

theorem hard_block_holds_witness:
  "allowed_in id minute no_trip [Attempt [example_rule] (2 * minute) True]
     (fst (Allow id minute no_trip 7 True [example_rule] used_store)) = 0"
proof -
  let ?c = "rule_charge id example_rule" and ?i = "charge_ident (rule_charge id example_rule)"
  obtain st' res where a: "Allow id minute no_trip 7 True [example_rule] used_store = (st', res)" by force
  have "ts_noCharge used_store" by (simp add: used_store_def)
  from Allow_noCharge [OF this a] obtain d where d: "res = Inr d"
    using a by (auto simp: Allow_def example_normalized allow_loop_def Let_def used_store_def)
  have "\<forall>x \<in> set [Attempt [example_rule] (2 * minute) True]. op_time x < 7 + ru_Block example_rule \<and> charged_to id ?i 2 x"
    using example_charged by (simp add: duration_defs example_rule_def)
  moreover have "ru_Limit example_rule \<le> bucket_count (ts_buckets used_store) (?i, windowStart minute 7)"
    by (simp add: used_store_def bucket_count_def windowStart_def duration_defs) (simp add: example_rule_def)
  moreover have "max_block (ts_buckets used_store) ?i 7 = None"
    by (simp add: used_store_def max_block_def blocks_of_def row_block_def)
  moreover have "0 < ru_Block example_rule" "\<not> ru_Global example_rule" "\<not> rule_skipped example_rule"
    by (simp_all add: example_rule_def duration_defs rule_skipped_def)
  ultimately show ?thesis
    using hard_block_holds [OF \<open>ts_noCharge used_store\<close> a [unfolded d], of example_rule ?i "[Attempt [example_rule] (2 * minute) True]" 2] a d
    by simp
qed

end
