(* ===== verification/Checkout_Grace.thy ===== *)
theory Checkout_Grace
  imports Prelude
begin

text \<open>
  After check-out access (\<open>data-plane/internal/grace/grace.go\<close>): which policies are valid, when a stay
  that checks out is converted to grace access and under which policy, and which devices are let
  through while it lasts.
\<close>

section \<open>Policies\<close>

record grace_policy =
  gp_DurationSeconds :: int
  gp_DownKbps :: int
  gp_UpKbps :: int
  gp_DataQuotaBytes :: int
  gp_DeviceLimit :: int
  gp_DeviceLimitPolicy :: string
  gp_IsEmergency :: bool

definition DeviceLimitRejectNew :: string where
  "DeviceLimitRejectNew = ''REJECT_NEW_DEVICE''"

definition BuiltinEmergencyPolicy :: grace_policy where
  "BuiltinEmergencyPolicy = \<lparr>gp_DurationSeconds = 3600, gp_DownKbps = 5000, gp_UpKbps = 2000,
     gp_DataQuotaBytes = 500 * 2 ^ 20, gp_DeviceLimit = 0, gp_DeviceLimitPolicy = DeviceLimitRejectNew, gp_IsEmergency = True\<rparr>"

definition ValidatePolicy :: "grace_policy \<Rightarrow> bool \<Rightarrow> bool \<Rightarrow> bool" where
  "ValidatePolicy p enabled hasPinnedRevision =
    (if \<not> enabled \<or> \<not> hasPinnedRevision then False
     else if gp_DurationSeconds p \<le> 0 \<or> 604800 < gp_DurationSeconds p then False
     else if gp_DownKbps p \<le> 0 \<or> gp_UpKbps p \<le> 0 \<or> gp_DataQuotaBytes p < 0 then False
     else if gp_DeviceLimitPolicy p \<noteq> DeviceLimitRejectNew then False
     else True)"

definition MinDurationHours :: int where "MinDurationHours = 1"
definition MaxDurationHours :: int where "MaxDurationHours = 72"
definition MinKbps :: int where "MinKbps = 64"
definition MaxKbps :: int where "MaxKbps = 1000000"
definition MinQuotaBytes :: int where "MinQuotaBytes = 10 * 2 ^ 20"
definition MaxQuotaBytes :: int where "MaxQuotaBytes = 100 * 2 ^ 30"
definition MinDeviceLimit :: int where "MinDeviceLimit = 1"
definition MaxDeviceLimit :: int where "MaxDeviceLimit = 20"

definition ValidateOperatorPolicy :: "grace_policy \<Rightarrow> string" where
  "ValidateOperatorPolicy p =
    (if go_mod (gp_DurationSeconds p) 3600 \<noteq> 0 \<or> go_div (gp_DurationSeconds p) 3600 < MinDurationHours
        \<or> MaxDurationHours < go_div (gp_DurationSeconds p) 3600
       then ''duration must be a whole number of hours between 1 and 72''
     else if gp_DownKbps p < MinKbps \<or> MaxKbps < gp_DownKbps p
       then ''download speed must be between 64 kbps and 1,000,000 kbps''
     else if gp_UpKbps p < MinKbps \<or> MaxKbps < gp_UpKbps p
       then ''upload speed must be between 64 kbps and 1,000,000 kbps''
     else if gp_DataQuotaBytes p < MinQuotaBytes \<or> MaxQuotaBytes < gp_DataQuotaBytes p
       then ''the shared data quota must be between 10 MiB and 100 GiB''
     else if gp_DeviceLimit p < MinDeviceLimit \<or> MaxDeviceLimit < gp_DeviceLimit p
       then ''the device allowance must be between 1 and 20''
     else if gp_DeviceLimitPolicy p \<noteq> DeviceLimitRejectNew then ''the device policy must be REJECT_NEW_DEVICE''
     else '''')"

section \<open>Conversion\<close>

datatype grace_trigger = NoTrigger | TriggerCheckoutGrace | TriggerEmergency

record conversion_request =
  cq_HasActiveEntitlementAtCheckout :: bool
  cq_AlreadyConvertedThisEpisode :: bool
  cq_Configured :: grace_policy
  cq_ConfiguredValid :: bool
  cq_Disabled :: bool

record conversion =
  cv_Create :: bool
  cv_Trigger :: grace_trigger
  cv_Policy :: grace_policy
  cv_Reason :: string
  cv_IsEmergency :: bool
  cv_ConfigInvalidAlert :: bool

definition zero_policy :: grace_policy where
  "zero_policy = \<lparr>gp_DurationSeconds = 0, gp_DownKbps = 0, gp_UpKbps = 0, gp_DataQuotaBytes = 0, gp_DeviceLimit = 0,
     gp_DeviceLimitPolicy = [], gp_IsEmergency = False\<rparr>"

definition no_conversion :: "string \<Rightarrow> conversion" where
  "no_conversion reason = \<lparr>cv_Create = False, cv_Trigger = NoTrigger, cv_Policy = zero_policy, cv_Reason = reason,
     cv_IsEmergency = False, cv_ConfigInvalidAlert = False\<rparr>"

definition DecideConversion :: "conversion_request \<Rightarrow> conversion" where
  "DecideConversion r =
    (if cq_AlreadyConvertedThisEpisode r then no_conversion ''ALREADY_CONVERTED_THIS_EPISODE''
     else if \<not> cq_HasActiveEntitlementAtCheckout r then no_conversion ''NO_ACTIVE_ENTITLEMENT_AT_CHECKOUT''
     else if cq_Disabled r then no_conversion ''AFTER_CHECKOUT_DISABLED''
     else if cq_ConfiguredValid r then
       \<lparr>cv_Create = True, cv_Trigger = TriggerCheckoutGrace, cv_Policy = cq_Configured r, cv_Reason = ''ELIGIBLE'',
        cv_IsEmergency = False, cv_ConfigInvalidAlert = False\<rparr>
     else
       \<lparr>cv_Create = True, cv_Trigger = TriggerEmergency, cv_Policy = BuiltinEmergencyPolicy,
        cv_Reason = ''CONFIG_INVALID_EMERGENCY_FALLBACK'', cv_IsEmergency = True, cv_ConfigInvalidAlert = True\<rparr>)"

section \<open>Access\<close>

record access_request =
  aq_Policy :: grace_policy
  aq_GraceAgeSeconds :: int
  aq_DeviceIsExisting :: bool

record access =
  as_Allow :: bool
  as_Reason :: string
  as_DownKbps :: int
  as_UpKbps :: int
  as_DataQuotaBytes :: int

definition deny_access :: "string \<Rightarrow> access" where
  "deny_access reason = \<lparr>as_Allow = False, as_Reason = reason, as_DownKbps = 0, as_UpKbps = 0, as_DataQuotaBytes = 0\<rparr>"

definition allow_access :: "string \<Rightarrow> grace_policy \<Rightarrow> access" where
  "allow_access reason p = \<lparr>as_Allow = True, as_Reason = reason, as_DownKbps = gp_DownKbps p, as_UpKbps = gp_UpKbps p,
     as_DataQuotaBytes = gp_DataQuotaBytes p\<rparr>"

definition DecideAccess :: "access_request \<Rightarrow> access" where
  "DecideAccess r =
    (if aq_GraceAgeSeconds r < 0 \<or> gp_DurationSeconds (aq_Policy r) < aq_GraceAgeSeconds r
       then deny_access ''GRACE_WINDOW_ELAPSED''
     else if \<not> aq_DeviceIsExisting r then deny_access ''GRACE_NEW_DEVICE_REJECTED''
     else allow_access ''GRACE_EXISTING_DEVICE_GRANDFATHERED'' (aq_Policy r))"

definition ExistingDevicesOverLimit :: "grace_policy \<Rightarrow> int \<Rightarrow> int" where
  "ExistingDevicesOverLimit p existingDeviceCount =
    (if gp_DeviceLimit p \<le> 0 \<or> existingDeviceCount \<le> gp_DeviceLimit p then 0 else existingDeviceCount - gp_DeviceLimit p)"

section \<open>Correctness\<close>

lemma operator_policy_valid:
  assumes "ValidateOperatorPolicy p = ''''"
  shows "ValidatePolicy p True True"
proof -
  have d: "MinDurationHours \<le> go_div (gp_DurationSeconds p) 3600" "go_div (gp_DurationSeconds p) 3600 \<le> MaxDurationHours"
    "go_mod (gp_DurationSeconds p) 3600 = 0" and rest: "MinKbps \<le> gp_DownKbps p" "MinKbps \<le> gp_UpKbps p"
    "MinQuotaBytes \<le> gp_DataQuotaBytes p" "gp_DeviceLimitPolicy p = DeviceLimitRejectNew"
    using assms by (auto simp: ValidateOperatorPolicy_def split: if_splits)
  have "gp_DurationSeconds p = 3600 * go_div (gp_DurationSeconds p) 3600" using d(3) by (simp add: go_mod_def)
  then have "0 < gp_DurationSeconds p" "gp_DurationSeconds p \<le> 604800"
    using d(1,2) by (simp_all add: MinDurationHours_def MaxDurationHours_def)
  with rest show ?thesis by (simp add: ValidatePolicy_def MinKbps_def MinQuotaBytes_def)
qed

lemma emergency_valid: "ValidatePolicy BuiltinEmergencyPolicy True True"
  by (simp add: ValidatePolicy_def BuiltinEmergencyPolicy_def)

text \<open>The check-outs of one lifecycle episode: each is decided with what the earlier ones did.\<close>

fun episode :: "conversion_request list \<Rightarrow> bool \<Rightarrow> conversion list" where
  "episode [] converted = []"
| "episode (r # rs) converted =
    (let c = DecideConversion (r\<lparr>cq_AlreadyConvertedThisEpisode := converted\<rparr>)
     in c # episode rs (converted \<or> cv_Create c))"

lemma episode_converted: "filter cv_Create (episode rs True) = []"
  by (induction rs) (simp_all add: DecideConversion_def no_conversion_def)


definition example_policy :: grace_policy where
  "example_policy = \<lparr>gp_DurationSeconds = 43200, gp_DownKbps = 5000, gp_UpKbps = 2000, gp_DataQuotaBytes = 2 ^ 30,
     gp_DeviceLimit = 5, gp_DeviceLimitPolicy = DeviceLimitRejectNew, gp_IsEmergency = False\<rparr>"

definition example_checkout :: conversion_request where
  "example_checkout = \<lparr>cq_HasActiveEntitlementAtCheckout = True, cq_AlreadyConvertedThisEpisode = False,
     cq_Configured = example_policy, cq_ConfiguredValid = True, cq_Disabled = False\<rparr>"


end
