(* ===== verification/Posting_Engine.thy ===== *)
theory Posting_Engine
  imports Posting_Wire
begin

text \<open>
  The posting engine (\<open>data-plane/internal/posting/engine.go\<close>, \<open>repo.go\<close>) on one lane, that is one PMS
  interface: creating a charge, claiming it, building and committing the attempt, transmitting it,
  settling the outcome, recovering attempts a stopped process left behind, and the audited way back
  into the queue. The tables are lists in the order the queries read them; the triggers and functions
  of the schema that decide about attempts and outbox rows (\<open>data-plane/migrations\<close>) are part of the
  model. An outbox row is identified by its posting and an attempt by its posting and number. Every
  statement can fail: \<open>le_fail\<close> says which do, and a failed transaction leaves the database as it was.
\<close>

section \<open>The tables\<close>

datatype outbox_state = OB_QUEUED | OB_IN_FLIGHT | OB_DONE | OB_HELD_RECOVERY

datatype attempt_outcome = AT_SENDING | AT_ACKED | AT_UNKNOWN | AT_NOT_SENT

record outbox_row =
  ob_posting :: string
  ob_state :: outbox_state
  ob_not_before :: int
  ob_not_sent_count :: nat
  ob_decline_count :: nat
  ob_parked :: "string option"

record attempt =
  at_posting :: string
  at_no :: nat
  at_p :: int
  at_rn :: string
  at_g :: string
  at_sha :: string
  at_sent :: int
  at_outcome :: attempt_outcome
  at_as :: string

record review =
  rv_terminal :: "string option"
  rv_retry_no :: "nat option"
  rv_version :: nat
  rv_escalations :: nat

record posting_db =
  db_postings :: "(string \<times> pinned) list"
  db_outbox :: "outbox_row list"
  db_attempts :: "attempt list"
  db_review :: "string \<Rightarrow> review"
  db_next_p :: int
  db_events :: "(string \<times> nat \<times> string) list"
  db_aborts :: "(string \<times> string) list"

datatype db_stmt = StBegin | StClaim | StLock | StCount | StFinish | StAbort | StDefer | StRelease
  | StAlloc | StInsertPosting | StInsertAttempt | StSettle | StEvent | StOutcome | StRequeue | StCommit

text \<open>
  What the surroundings decide in one call: the time, which statements fail and with what code, the
  columns of the purchase, the result of \<open>LoadSnapshot\<close>, the identifier the database generates, the
  site's park limit, and which answer codes the vendor confirmed for this interface.
\<close>

record lane_env =
  le_now :: int
  le_fail :: "db_stmt \<Rightarrow> posting_code option"
  le_id :: string
  le_purchase :: "string \<times> string \<times> string \<times> string"
  le_snapshot :: "pinned \<Rightarrow> posting_code + posting_snapshot"
  le_park_after :: nat
  le_confirmed :: "string \<Rightarrow> bool"
  le_effect_err :: bool

datatype go_error = Coded posting_code | Uncoded

section \<open>Schema functions and triggers\<close>

definition attempts_of :: "posting_db \<Rightarrow> string \<Rightarrow> attempt list" where
  "attempts_of db q = filter (\<lambda>a. at_posting a = q) (db_attempts db)"

fun latest :: "attempt list \<Rightarrow> attempt option" where
  "latest [] = None"
| "latest (a # as) =
    (case latest as of None \<Rightarrow> Some a | Some b \<Rightarrow> if at_no b < at_no a then Some a else Some b)"

definition p4_attempt_retry_gate :: "posting_db \<Rightarrow> string \<Rightarrow> nat \<Rightarrow> posting_code option" where
  "p4_attempt_retry_gate db q no =
    (case latest (attempts_of db q) of
       None \<Rightarrow> if no \<noteq> 1 then Some ErrRetryNotAuthed else None
     | Some l \<Rightarrow>
         if no \<noteq> at_no l + 1 then Some ErrRetryNotAuthed
         else if at_outcome l = AT_SENDING then Some ErrAlreadyInFlight
         else if at_outcome l \<in> {AT_UNKNOWN, AT_ACKED} then
           (if rv_terminal (db_review db q) \<noteq> Some ''CONFIRM_NOT_POSTED_RETRY'' \<or> rv_retry_no (db_review db q) \<noteq> Some no
            then Some ErrRetryNotAuthed else None)
         else None)"

definition p4_consume_retry_authorization :: "string \<Rightarrow> nat \<Rightarrow> (string \<Rightarrow> review) \<Rightarrow> (string \<Rightarrow> review)" where
  "p4_consume_retry_authorization q no rs =
    (if rv_terminal (rs q) = Some ''CONFIRM_NOT_POSTED_RETRY'' \<and> rv_retry_no (rs q) = Some no
     then rs(q := (rs q)\<lparr>rv_retry_no := None, rv_version := rv_version (rs q) + 1\<rparr>) else rs)"

definition outbox_map :: "string \<Rightarrow> (outbox_row \<Rightarrow> outbox_row) \<Rightarrow> outbox_row list \<Rightarrow> outbox_row list" where
  "outbox_map q f rows = map (\<lambda>o'. if ob_posting o' = q then f o' else o') rows"

definition find_outbox :: "posting_db \<Rightarrow> string \<Rightarrow> outbox_row option" where
  "find_outbox db q = find (\<lambda>o'. ob_posting o' = q) (db_outbox db)"

text \<open>\<open>p4_outbox_recovery_gate\<close> on an update that sets the state, outside a recovery decision.\<close>

definition set_outbox_state :: "posting_db \<Rightarrow> string \<Rightarrow> outbox_state \<Rightarrow> posting_code + posting_db" where
  "set_outbox_state db q st =
    (if list_ex (\<lambda>o'. ob_posting o' = q \<and> ob_state o' = OB_HELD_RECOVERY \<and> st \<noteq> OB_HELD_RECOVERY
                      \<and> rv_retry_no (db_review db q) = None) (db_outbox db)
     then Inl ErrRepo
     else Inr (db\<lparr>db_outbox := outbox_map q (\<lambda>o'. o'\<lparr>ob_state := st\<rparr>) (db_outbox db)\<rparr>))"

definition defer_delay :: "nat \<Rightarrow> int" where
  "defer_delay n = min 300 (2 * 2 ^ (min (n - 1) 10)) * second"

definition posting_outbox_defer :: "lane_env \<Rightarrow> string \<Rightarrow> bool \<Rightarrow> string \<Rightarrow> posting_db \<Rightarrow> posting_code + (posting_db \<times> string)" where
  "posting_outbox_defer env q declined reason db =
    (case find_outbox db q of
       None \<Rightarrow> Inl ErrRepo
     | Some o' \<Rightarrow>
         if ob_state o' \<notin> {OB_IN_FLIGHT, OB_QUEUED} then Inr (db, if ob_state o' = OB_DONE then ''DONE'' else ''HELD_RECOVERY'')
         else if \<not> declined then
           (let n = ob_not_sent_count o' + 1 in
            Inr (db\<lparr>db_outbox := outbox_map q (\<lambda>r. r\<lparr>ob_state := OB_QUEUED, ob_not_sent_count := n,
                   ob_not_before := le_now env + defer_delay n\<rparr>) (db_outbox db)\<rparr>, ''QUEUED''))
         else
           (let n = ob_decline_count o' + 1 in
            if le_park_after env \<le> n then
              Inr (db\<lparr>db_outbox := outbox_map q (\<lambda>r. r\<lparr>ob_state := OB_HELD_RECOVERY, ob_decline_count := n,
                     ob_parked := Some (take 200 reason)\<rparr>) (db_outbox db)\<rparr>, ''PARKED'')
            else
              Inr (db\<lparr>db_outbox := outbox_map q (\<lambda>r. r\<lparr>ob_state := OB_QUEUED, ob_decline_count := n,
                     ob_not_before := le_now env + defer_delay n\<rparr>) (db_outbox db)\<rparr>, ''QUEUED'')))"

text \<open>\<open>trg_posting_attempt_oneway\<close> on the update that settles an attempt: a terminal outcome stays.\<close>

definition settle_row :: "string \<Rightarrow> nat \<Rightarrow> attempt_outcome \<Rightarrow> string \<Rightarrow> attempt \<Rightarrow> attempt" where
  "settle_row q no oc as a =
    (if at_posting a = q \<and> at_no a = no then a\<lparr>at_outcome := oc, at_as := as\<rparr> else a)"

definition attempt_oneway :: "posting_db \<Rightarrow> string \<Rightarrow> nat \<Rightarrow> attempt_outcome \<Rightarrow> bool" where
  "attempt_oneway db q no oc \<longleftrightarrow>
     list_all (\<lambda>a. at_posting a = q \<and> at_no a = no \<longrightarrow> at_outcome a = AT_SENDING \<or> oc = at_outcome a) (db_attempts db)"

definition p4_answer_effect :: "(string \<Rightarrow> bool) \<Rightarrow> string \<Rightarrow> string" where
  "p4_answer_effect confirmed as =
    (if as = ''OK'' then ''POSTED''
     else if as \<notin> {''NP'', ''NG'', ''NR'', ''NA'', ''RY''} then ''UNPROVEN''
     else if \<not> confirmed as then ''UNPROVEN''
     else if as = ''NP'' then ''NOT_POSTED_NO_POST''
     else if as = ''NG'' \<or> as = ''NR'' then ''NOT_POSTED_TARGET_INVALID''
     else ''NOT_POSTED_NO_STAY_EFFECT'')"

section \<open>The repository\<close>

text \<open>A statement that may fail.\<close>

definition stmt :: "lane_env \<Rightarrow> db_stmt \<Rightarrow> posting_code + 'a \<Rightarrow> posting_code + 'a" where
  "stmt env st r = (case le_fail env st of Some e \<Rightarrow> Inl e | None \<Rightarrow> r)"

definition bind_db :: "posting_code + 'a \<Rightarrow> ('a \<Rightarrow> posting_code + 'b) \<Rightarrow> posting_code + 'b" where
  "bind_db r f = (case r of Inl e \<Rightarrow> Inl e | Inr x \<Rightarrow> f x)"

record claim =
  cl_PostingID :: string
  cl_Pinned :: pinned
  cl_AttemptNo :: nat

definition InsertPosting :: "lane_env \<Rightarrow> pinned \<Rightarrow> posting_db \<Rightarrow> posting_code + (posting_db \<times> string)" where
  "InsertPosting env p db =
    (if map_of (db_postings db) (le_id env) \<noteq> None then Inl ErrRepo
     else stmt env StInsertPosting
       (Inr (db\<lparr>db_postings := db_postings db @ [(le_id env, p)],
              db_outbox := db_outbox db @ [\<lparr>ob_posting = le_id env, ob_state = OB_QUEUED, ob_not_before = le_now env,
                 ob_not_sent_count = 0, ob_decline_count = 0, ob_parked = None\<rparr>]\<rparr>, le_id env)))"

text \<open>The pin as it is read back from the posting and the purchase.\<close>

definition claim_pinned :: "lane_env \<Rightarrow> string \<Rightarrow> pinned \<Rightarrow> pinned" where
  "claim_pinned env q p =
    (case le_purchase env of (package, mapping, code, state) \<Rightarrow>
       p\<lparr>pi_AuthInterfaceRevisionID := [], pi_PackageRevisionID := package, pi_SettlementMappingID := mapping,
         pi_RN := [], pi_PostingCode := code, pi_PostingID := q,
         pi_ExpectStayLifecycleVersion := None, pi_ExpectPurchaseState := state\<rparr>)"

definition ClaimNext :: "lane_env \<Rightarrow> posting_db \<Rightarrow> posting_code + (posting_db \<times> claim) option" where
  "ClaimNext env db =
    stmt env StClaim
     (case find (\<lambda>o'. ob_state o' = OB_QUEUED) (db_outbox db) of
        None \<Rightarrow> Inr None
      | Some h \<Rightarrow>
          if \<not> ob_not_before h \<le> le_now env then Inr None
          else if list_ex (\<lambda>o'. ob_state o' = OB_IN_FLIGHT) (db_outbox db) then Inl ErrRepo
          else (case map_of (db_postings db) (ob_posting h) of
              None \<Rightarrow> Inr None
            | Some p \<Rightarrow>
                Inr (Some (db\<lparr>db_outbox := outbox_map (ob_posting h) (\<lambda>o'. o'\<lparr>ob_state := OB_IN_FLIGHT\<rparr>) (db_outbox db)\<rparr>,
                  \<lparr>cl_PostingID = ob_posting h, cl_Pinned = claim_pinned env (ob_posting h) p,
                   cl_AttemptNo = (case latest (attempts_of db (ob_posting h)) of None \<Rightarrow> 0 | Some a \<Rightarrow> at_no a) + 1\<rparr>))))"

definition FinishClaim :: "lane_env \<Rightarrow> string \<Rightarrow> outbox_state \<Rightarrow> posting_db \<Rightarrow> posting_code + posting_db" where
  "FinishClaim env q st db = stmt env StFinish (set_outbox_state db q st)"

definition ReleaseClaim :: "lane_env \<Rightarrow> string \<Rightarrow> posting_db \<Rightarrow> posting_code + posting_db" where
  "ReleaseClaim env q db = stmt env StRelease (set_outbox_state db q OB_QUEUED)"

definition Defer :: "lane_env \<Rightarrow> string \<Rightarrow> bool \<Rightarrow> string \<Rightarrow> posting_db \<Rightarrow> posting_code + (posting_db \<times> string)" where
  "Defer env q declined reason db = stmt env StDefer (posting_outbox_defer env q declined reason db)"

definition AllocatePNumber :: "lane_env \<Rightarrow> posting_db \<Rightarrow> posting_code + (posting_db \<times> int)" where
  "AllocatePNumber env db = stmt env StAlloc (Inr (db\<lparr>db_next_p := db_next_p db + 1\<rparr>, db_next_p db))"

text \<open>
  \<open>InsertAttempt\<close> with the constraint on the P#, the retry gate and the consumption of an
  authorization; the other constraints and gates of the table can only make it fail.
\<close>

definition InsertAttempt :: "lane_env \<Rightarrow> pinned \<Rightarrow> string \<Rightarrow> nat \<Rightarrow> int \<Rightarrow> string \<Rightarrow> posting_db \<Rightarrow> posting_code + posting_db" where
  "InsertAttempt env p q no pn sha db =
    stmt env StInsertAttempt
     (case p4_attempt_retry_gate db q no of
        Some e \<Rightarrow> Inl e
      | None \<Rightarrow>
          if \<not> (0 \<le> pn \<and> pn < 10 ^ 18) then Inl ErrWireFieldInvalid
          else Inr (db\<lparr>db_attempts := db_attempts db @ [\<lparr>at_posting = q, at_no = no, at_p = pn, at_rn = pi_RN p,
                        at_g = pi_GNumber p, at_sha = sha, at_sent = le_now env, at_outcome = AT_SENDING, at_as = []\<rparr>],
                       db_review := p4_consume_retry_authorization q no (db_review db)\<rparr>))"

definition SettleAttempt :: "lane_env \<Rightarrow> string \<Rightarrow> nat \<Rightarrow> attempt_outcome \<Rightarrow> string \<Rightarrow> posting_db \<Rightarrow> posting_code + posting_db" where
  "SettleAttempt env q no oc as db =
    stmt env StSettle
     (if \<not> attempt_oneway db q no oc then Inl ErrRepo
      else Inr (db\<lparr>db_attempts := map (settle_row q no oc as) (db_attempts db)\<rparr>))"

definition AppendAttemptEvent :: "lane_env \<Rightarrow> string \<Rightarrow> nat \<Rightarrow> string \<Rightarrow> posting_db \<Rightarrow> posting_code + posting_db" where
  "AppendAttemptEvent env q no event db = stmt env StEvent (Inr (db\<lparr>db_events := db_events db @ [(q, no, event)]\<rparr>))"

section \<open>The engine\<close>

record lane_outcome =
  lo_Claimed :: bool
  lo_PostingID :: string
  lo_AttemptNo :: nat
  lo_PNumber :: int
  lo_Result :: string
  lo_NotSentReason :: string
  lo_ASStatus :: string
  lo_RefusedFor :: "posting_code option"
  lo_Parked :: bool

definition no_outcome :: lane_outcome where
  "no_outcome = \<lparr>lo_Claimed = False, lo_PostingID = [], lo_AttemptNo = 0, lo_PNumber = 0, lo_Result = [],
     lo_NotSentReason = [], lo_ASStatus = [], lo_RefusedFor = None, lo_Parked = False\<rparr>"

definition CreatePosting :: "posting_config \<Rightarrow> lane_env \<Rightarrow> pinned \<Rightarrow> posting_db \<Rightarrow> posting_db \<times> (posting_code + string)" where
  "CreatePosting cfg env p db =
    (if \<not> PostingOn cfg then (db, Inl ErrConfig)
     else if le_fail env StBegin \<noteq> None then (db, Inl ErrRepo)
     else case le_snapshot env p of
       Inl e \<Rightarrow> (db, Inl e)
     | Inr snap \<Rightarrow>
         (case gate_Check p snap of
            Some e \<Rightarrow> (db, Inl e)
          | None \<Rightarrow>
              (case InsertPosting env p db of
                 Inl e \<Rightarrow> (db, Inl e)
               | Inr (db', q) \<Rightarrow> if le_fail env StCommit \<noteq> None then (db, Inl ErrRepo) else (db', Inr q))))"

text \<open>
  How the first transaction of \<open>RunOnce\<close> ends: with the call's error, or with a committed attempt that
  is to be transmitted.
\<close>

datatype run_phase = Finished "go_error option" | ReadyToSend claim int string

definition presendAbortReason :: "posting_code \<Rightarrow> string" where
  "presendAbortReason e =
    (case e of
       ErrStayNotInHouse \<Rightarrow> ''STAY_NOT_IN_HOUSE''
     | ErrPostingNotAllowed \<Rightarrow> ''STAY_BLOCKED''
     | ErrReservationMismatch \<Rightarrow> ''RESERVATION_MISMATCH''
     | ErrRNMissing \<Rightarrow> ''ROOM_UNRESOLVED''
     | ErrRNNotWireSafe \<Rightarrow> ''ROOM_UNRESOLVED''
     | ErrInterfaceNotFresh \<Rightarrow> ''DATA_STALE''
     | _ \<Rightarrow> [])"

text \<open>
  \<open>decline\<close>, \<open>abortBeforeSend\<close> and the DARK branch work in the transaction \<open>tx\<close> that began at \<open>db\<close>.
\<close>

definition decline :: "lane_env \<Rightarrow> string \<Rightarrow> posting_db \<Rightarrow> posting_db \<Rightarrow> lane_outcome \<Rightarrow> claim \<Rightarrow> posting_code \<Rightarrow>
    posting_db \<times> lane_outcome \<times> run_phase" where
  "decline env causeText db tx out c cause =
    (case Defer env (cl_PostingID c) True causeText tx of
       Inl e \<Rightarrow> (db, out, Finished (Some (Coded e)))
     | Inr (tx', state) \<Rightarrow>
         let out' = out\<lparr>lo_Parked := (state = ''PARKED''), lo_Result := ''DECLINED'', lo_RefusedFor := Some cause\<rparr> in
         if le_fail env StCommit \<noteq> None then (db, out', Finished (Some (Coded ErrRepo)))
         else (tx', out', Finished (Some (Coded cause))))"

definition may_have_sent :: "posting_db \<Rightarrow> string \<Rightarrow> nat" where
  "may_have_sent db q = length (filter (\<lambda>a. at_outcome a \<noteq> AT_NOT_SENT) (attempts_of db q))"

text \<open>\<open>p4_posting_abort_before_send\<close>; the settlement it fails is outside the model.\<close>

definition p4_posting_abort_before_send :: "string \<Rightarrow> string \<Rightarrow> posting_db \<Rightarrow> posting_code + posting_db" where
  "p4_posting_abort_before_send q reason db =
    (if map_of (db_postings db) q = None then Inl ErrRepo
     else if 0 < may_have_sent db q then Inl ErrRepo
     else Inr (db\<lparr>db_aborts := (if map_of (db_aborts db) q = None then db_aborts db @ [(q, reason)] else db_aborts db),
            db_outbox := outbox_map q (\<lambda>o'. if ob_state o' \<in> {OB_QUEUED, OB_IN_FLIGHT} then o'\<lparr>ob_state := OB_DONE\<rparr> else o')
              (db_outbox db)\<rparr>))"

definition abortBeforeSend :: "lane_env \<Rightarrow> posting_db \<Rightarrow> posting_db \<Rightarrow> lane_outcome \<Rightarrow> claim \<Rightarrow> string \<Rightarrow> posting_code \<Rightarrow>
    posting_db \<times> lane_outcome \<times> run_phase" where
  "abortBeforeSend env db tx out c reason cause =
    (case le_fail env StCount of
       Some e \<Rightarrow> (db, out, Finished (Some (Coded e)))
     | None \<Rightarrow>
         if 0 < may_have_sent tx (cl_PostingID c) then
           (case FinishClaim env (cl_PostingID c) OB_HELD_RECOVERY tx of
              Inl e \<Rightarrow> (db, out, Finished (Some (Coded e)))
            | Inr tx' \<Rightarrow>
                let out' = out\<lparr>lo_Result := ''DECLINED'', lo_RefusedFor := Some cause\<rparr> in
                if le_fail env StCommit \<noteq> None then (db, out', Finished (Some (Coded ErrRepo)))
                else (tx', out', Finished (Some (Coded cause))))
         else
           (case stmt env StAbort (p4_posting_abort_before_send (cl_PostingID c) reason tx) of
              Inl e \<Rightarrow> (db, out, Finished (Some (Coded e)))
            | Inr tx' \<Rightarrow>
                let out' = out\<lparr>lo_Result := ''ABORTED'', lo_RefusedFor := Some cause\<rparr> in
                if le_fail env StCommit \<noteq> None then (db, out', Finished (Some (Coded ErrRepo)))
                else (tx', out', Finished None)))"

definition ps_of :: "claim \<Rightarrow> int \<Rightarrow> ps_request" where
  "ps_of c pn = \<lparr>ps_RN = pi_RN (cl_Pinned c), ps_GNumber = pi_GNumber (cl_Pinned c),
     ps_AmountMinor = pi_AmountMinor (cl_Pinned c), ps_PostingCode = pi_PostingCode (cl_Pinned c), ps_PNumber = pn\<rparr>"

definition dark_release :: "lane_env \<Rightarrow> posting_db \<Rightarrow> posting_db \<Rightarrow> lane_outcome \<Rightarrow> claim \<Rightarrow> (send_error + pa option) \<Rightarrow>
    posting_db \<times> lane_outcome \<times> run_phase" where
  "dark_release env db tx out c offered =
    (case offered of
       Inr _ \<Rightarrow> (db, out, Finished (Some (Coded ErrDarkNoEgress)))
     | Inl _ \<Rightarrow>
         (case ReleaseClaim env (cl_PostingID c) tx of
            Inl e \<Rightarrow> (db, out, Finished (Some (Coded e)))
          | Inr tx' \<Rightarrow>
              let out' = out\<lparr>lo_Result := ''DECLINED'', lo_RefusedFor := Some ErrDarkNoEgress\<rparr> in
              if le_fail env StCommit \<noteq> None then (db, out', Finished (Some (Coded ErrRepo)))
              else (tx', out', Finished None)))"

definition prepare_attempt :: "(string \<Rightarrow> string) \<Rightarrow> lane_env \<Rightarrow> posting_db \<Rightarrow> posting_db \<Rightarrow>
    lane_outcome \<Rightarrow> claim \<Rightarrow> posting_db \<times> lane_outcome \<times> run_phase" where
  "prepare_attempt BodyHash env db tx out c =
    (case AllocatePNumber env tx of
       Inl e \<Rightarrow> (db, out, Finished (Some (Coded e)))
     | Inr (tx', pn) \<Rightarrow>
         let out' = out\<lparr>lo_PNumber := pn\<rparr> in
         (case BuildPS (ps_of c pn) of
            Inl e \<Rightarrow> decline env (code_text e) db tx' out' c e
          | Inr body \<Rightarrow>
              (case InsertAttempt env (cl_Pinned c) (cl_PostingID c) (cl_AttemptNo c) pn (BodyHash body) tx' of
                 Inl e \<Rightarrow> (db, out', Finished (Some (Coded e)))
               | Inr tx'' \<Rightarrow>
                   if le_fail env StCommit \<noteq> None then (db, out', Finished (Some (Coded ErrRepo)))
                   else (tx'', out', ReadyToSend c pn body))))"

text \<open>
  The first transaction of \<open>RunOnce\<close>, in two parts: what follows the claim, and the whole. The
  transaction \<open>tx\<close> holds the claimed row in flight.
\<close>

definition run_claimed ::
  "posting_config \<Rightarrow> 'w inner_transport option \<Rightarrow> (string \<Rightarrow> string) \<Rightarrow> lane_env \<Rightarrow> string \<Rightarrow>
   posting_db \<Rightarrow> posting_db \<Rightarrow> claim \<Rightarrow> dark_guard \<Rightarrow> 'w \<Rightarrow> posting_db \<times> dark_guard \<times> 'w \<times> lane_outcome \<times> run_phase" where
  "run_claimed cfg inner BodyHash env interfaceID db tx c0 g w =
    (let out = no_outcome\<lparr>lo_Claimed := True, lo_PostingID := cl_PostingID c0, lo_AttemptNo := cl_AttemptNo c0\<rparr>;
         plain = (\<lambda>(d, out', ph). (d, g, w, out', ph)) in
     case le_fail env StLock of
       Some e \<Rightarrow> plain (decline env (code_text e) db tx out c0 e)
     | None \<Rightarrow>
     (case le_snapshot env (cl_Pinned c0) of
        Inl e \<Rightarrow> plain (decline env (code_text e) db tx out c0 e)
      | Inr snap \<Rightarrow>
          let c = c0\<lparr>cl_Pinned := (cl_Pinned c0)\<lparr>pi_RN := sn_StayRoomNumber snap\<rparr>\<rparr> in
          (case CheckFor PurposeExecute (cl_Pinned c) snap of
             Some e \<Rightarrow>
               (if presendAbortReason e \<noteq> [] then plain (abortBeforeSend env db tx out c (presendAbortReason e) e)
                else plain (decline env (code_text e) db tx out c e))
           | None \<Rightarrow>
               if Dark cfg then
                 (let body = (case BuildPS (ps_of c 1) of Inl _ \<Rightarrow> [] | Inr b \<Rightarrow> b);
                      (g', w', offered) = dark_SendPS cfg inner g w interfaceID 1 body;
                      (d, out', ph) = dark_release env db tx out c offered
                  in (d, g', w', out', ph))
               else plain (prepare_attempt BodyHash env db tx out c))))"

definition run_claim ::
  "posting_config \<Rightarrow> 'w inner_transport option \<Rightarrow> (string \<Rightarrow> string) \<Rightarrow> lane_env \<Rightarrow> string \<Rightarrow>
   posting_db \<Rightarrow> dark_guard \<Rightarrow> 'w \<Rightarrow> posting_db \<times> dark_guard \<times> 'w \<times> lane_outcome \<times> run_phase" where
  "run_claim cfg inner BodyHash env interfaceID db g w =
    (if \<not> OutboxOn cfg then (db, g, w, no_outcome, Finished (Some (Coded ErrConfig)))
     else if le_fail env StBegin \<noteq> None then (db, g, w, no_outcome, Finished (Some (Coded ErrRepo)))
     else case ClaimNext env db of
       Inl e \<Rightarrow> (db, g, w, no_outcome, Finished (Some (Coded e)))
     | Inr None \<Rightarrow> (db, g, w, no_outcome, Finished (if le_fail env StCommit \<noteq> None then Some Uncoded else None))
     | Inr (Some (tx, c0)) \<Rightarrow> run_claimed cfg inner BodyHash env interfaceID db tx c0 g w)"

text \<open>The send itself, with the engine's own check of the answer.\<close>

definition run_send ::
  "posting_config \<Rightarrow> 'w inner_transport option \<Rightarrow> string \<Rightarrow> dark_guard \<Rightarrow> 'w \<Rightarrow> int \<Rightarrow> string \<Rightarrow>
   dark_guard \<times> 'w \<times> (send_error + pa option)" where
  "run_send cfg inner interfaceID g w pn body =
    (case dark_SendPS cfg inner g w interfaceID pn body of
       (g', w', Inr (Some a)) \<Rightarrow>
         if pa_PNumber a \<noteq> pn then (g', w', Inl \<lparr>se_Code = ErrPAWrongPNumber, se_notSent = False, se_reason = []\<rparr>)
         else (g', w', Inr (Some a))
     | r \<Rightarrow> r)"

definition answerEffect :: "lane_env \<Rightarrow> string \<Rightarrow> string" where
  "answerEffect env as = (if le_effect_err env then ''UNPROVEN'' else p4_answer_effect (le_confirmed env) as)"

text \<open>The switch of \<open>settle\<close>: outcome, status, outbox state, event, reason, and the outcome record.\<close>

definition settle_verdict ::
  "lane_env \<Rightarrow> lane_outcome \<Rightarrow> (send_error + pa option) \<Rightarrow>
   attempt_outcome \<times> string \<times> outbox_state \<times> string \<times> string \<times> lane_outcome" where
  "settle_verdict env out res =
    (case res of
       Inr (Some a) \<Rightarrow>
         if answerEffect env (pa_AS a) = ''UNPROVEN'' then
           (AT_UNKNOWN, pa_AS a, OB_HELD_RECOVERY, ''UNKNOWN_UNCONFIRMED_ANSWER'', [],
            out\<lparr>lo_Result := ''UNKNOWN'', lo_ASStatus := pa_AS a\<rparr>)
         else
           (AT_ACKED, pa_AS a, OB_DONE, ''PA_MATCHED'', [],
            out\<lparr>lo_Result := (if Posted a then ''POSTED'' else ''REJECTED''), lo_ASStatus := pa_AS a\<rparr>)
     | Inl e \<Rightarrow>
         if NotTransmitted e then
           (AT_NOT_SENT, [], OB_QUEUED, ''NOT_SENT'', se_reason e,
            out\<lparr>lo_Result := ''NOT_SENT'', lo_RefusedFor := Some (se_Code e), lo_NotSentReason := se_reason e\<rparr>)
         else
           (AT_UNKNOWN, [], OB_HELD_RECOVERY, ''UNKNOWN_NO_CONCLUSIVE_PA'', [],
            out\<lparr>lo_Result := ''UNKNOWN'', lo_RefusedFor := Some (se_Code e)\<rparr>)
     | Inr None \<Rightarrow>
         (AT_UNKNOWN, [], OB_HELD_RECOVERY, ''UNKNOWN_NO_CONCLUSIVE_PA'', [], out\<lparr>lo_Result := ''UNKNOWN''\<rparr>))"

definition settle ::
  "lane_env \<Rightarrow> posting_db \<Rightarrow> claim \<Rightarrow> lane_outcome \<Rightarrow> (send_error + pa option) \<Rightarrow>
   posting_db \<times> lane_outcome \<times> go_error option" where
  "settle env db c out res =
    (if le_fail env StBegin \<noteq> None then (db, out, Some (Coded ErrRepo))
     else case settle_verdict env out res of (oc, as, obst, event, reason, out') \<Rightarrow>
       (case bind_db (SettleAttempt env (cl_PostingID c) (cl_AttemptNo c) oc as db)
             (\<lambda>d1. bind_db (AppendAttemptEvent env (cl_PostingID c) (cl_AttemptNo c) event d1)
             (\<lambda>d2. if oc = AT_NOT_SENT \<and> \<not> HasPrefix reason ''ROOM_CHANGED''
                   then (case Defer env (cl_PostingID c) False reason d2 of Inl e \<Rightarrow> Inl e | Inr (d3, _) \<Rightarrow> Inr d3)
                   else FinishClaim env (cl_PostingID c) obst d2)) of
          Inl e \<Rightarrow> (db, out', Some (Coded e))
        | Inr d3 \<Rightarrow>
            if le_fail env StCommit \<noteq> None then (db, out', Some (Coded ErrRepo))
            else if oc \<in> {AT_ACKED, AT_UNKNOWN} \<and> le_fail env StOutcome \<noteq> None
              then (d3, out', Some (Coded (the (le_fail env StOutcome))))
            else if oc = AT_UNKNOWN then (d3, out', Some (Coded ErrUnknownTerminal))
            else (d3, out', None)))"

section \<open>Recovery and review\<close>

text \<open>
  \<open>RecoverOrphanedAttempts\<close>: attempts still \<open>SENDING\<close> whose outbox row is in flight and that were sent
  longer ago than the bound, each in its own transaction; the first failure ends the call.
\<close>

definition orphan_bound :: "duration \<Rightarrow> duration" where
  "orphan_bound olderThan = (if olderThan < AnswerDeadline + minute then AnswerDeadline + minute else olderThan)"

definition is_orphan :: "lane_env \<Rightarrow> duration \<Rightarrow> posting_db \<Rightarrow> attempt \<Rightarrow> bool" where
  "is_orphan env bound db a \<longleftrightarrow>
     at_outcome a = AT_SENDING \<and> at_sent a < le_now env - bound
     \<and> list_ex (\<lambda>o'. ob_posting o' = at_posting a \<and> ob_state o' = OB_IN_FLIGHT) (db_outbox db)"

definition recover_one :: "lane_env \<Rightarrow> string \<Rightarrow> nat \<Rightarrow> posting_db \<Rightarrow> posting_code + posting_db" where
  "recover_one env q no db =
    bind_db (SettleAttempt env q no AT_UNKNOWN [] db)
      (\<lambda>d1. bind_db (AppendAttemptEvent env q no ''UNKNOWN_NO_CONCLUSIVE_PA'' d1)
      (\<lambda>d2. FinishClaim env q OB_HELD_RECOVERY d2))"

fun recover_loop :: "lane_env \<Rightarrow> (string \<times> nat) list \<Rightarrow> posting_db \<Rightarrow> nat \<Rightarrow> posting_db \<times> nat \<times> posting_code option" where
  "recover_loop env [] db n = (db, n, None)"
| "recover_loop env ((q, no) # orphans) db n =
    (if le_fail env StBegin \<noteq> None then (db, n, Some ErrRepo)
     else case recover_one env q no db of
       Inl _ \<Rightarrow> (db, n, Some ErrRepo)
     | Inr db' \<Rightarrow>
         if le_fail env StCommit \<noteq> None then (db, n, Some ErrRepo)
         else (case le_fail env StOutcome of
             Some e \<Rightarrow> (db', n, Some e)
           | None \<Rightarrow> recover_loop env orphans db' (n + 1)))"

definition RecoverOrphanedAttempts :: "lane_env \<Rightarrow> duration \<Rightarrow> posting_db \<Rightarrow> posting_db \<times> nat \<times> posting_code option" where
  "RecoverOrphanedAttempts env olderThan db =
     recover_loop env (map (\<lambda>a. (at_posting a, at_no a))
        (filter (is_orphan env (orphan_bound olderThan) db) (db_attempts db))) db 0"

definition retry_authorised :: "posting_db \<Rightarrow> string \<Rightarrow> bool" where
  "retry_authorised db q \<longleftrightarrow>
     rv_terminal (db_review db q) = Some ''CONFIRM_NOT_POSTED_RETRY'' \<and> rv_retry_no (db_review db q) \<noteq> None"

definition release_held :: "string \<Rightarrow> posting_db \<Rightarrow> posting_db" where
  "release_held q db = db\<lparr>db_outbox :=
     outbox_map q (\<lambda>o'. if ob_state o' = OB_HELD_RECOVERY then o'\<lparr>ob_state := OB_QUEUED\<rparr> else o') (db_outbox db)\<rparr>"

definition Requeue :: "posting_config \<Rightarrow> lane_env \<Rightarrow> string \<Rightarrow> posting_db \<Rightarrow> posting_db \<times> posting_code option" where
  "Requeue cfg env q db =
    (if \<not> ReviewOn cfg then (db, Some ErrConfig)
     else case le_fail env StRequeue of
       Some e \<Rightarrow> (db, Some e)
     | None \<Rightarrow>
         if list_ex (\<lambda>o'. ob_posting o' = q \<and> ob_state o' = OB_HELD_RECOVERY) (db_outbox db) \<and> retry_authorised db q
         then (release_held q db, None) else (db, Some ErrRetryNotAuthed))"

text \<open>
  \<open>record_posting_review_action\<close>: \<open>attributed\<close> says that an actor and a reason are given, \<open>evidenced\<close> that
  the evidence is a non-empty object. The reversal row an approved reversal adds is never queued.
\<close>

definition review_catalog :: "string list" where
  "review_catalog = [''CONFIRM_POSTED'', ''CONFIRM_NOT_POSTED_RETRY'', ''CONFIRM_NOT_POSTED_ABANDON'', ''CREATE_REVERSAL'', ''ESCALATE'']"

definition record_posting_review_action ::
  "string \<Rightarrow> string \<Rightarrow> bool \<Rightarrow> bool \<Rightarrow> nat option \<Rightarrow> bool \<Rightarrow> posting_db \<Rightarrow> posting_code + posting_db" where
  "record_posting_review_action q action attributed evidenced expected hasAmount db =
    (let st = db_review db q; la = latest (attempts_of db q) in
     if action \<notin> set review_catalog then Inl ErrReviewConflict
     else if \<not> attributed then Inl ErrRepo
     else if action \<noteq> ''ESCALATE'' \<and> \<not> evidenced then Inl ErrRepo
     else if map_of (db_postings db) q = None then Inl ErrRepo
     else if expected \<noteq> None \<and> expected \<noteq> Some (rv_version st) then Inl ErrReviewStale
     else if attempts_of db q = [] \<and> action \<noteq> ''ESCALATE'' then Inl ErrRepo
     else if action \<noteq> ''ESCALATE'' \<and> rv_terminal st \<noteq> None then Inl ErrReviewConflict
     else if action = ''CONFIRM_NOT_POSTED_RETRY'' \<and> at_outcome (the la) = AT_ACKED \<and> at_as (the la) = ''OK'' then Inl ErrRepo
     else if action = ''CONFIRM_NOT_POSTED_RETRY'' \<and> at_outcome (the la) = AT_SENDING then Inl ErrRepo
     else if action = ''CREATE_REVERSAL'' \<and> at_outcome (the la) = AT_SENDING then Inl ErrReviewConflict
     else if action = ''CREATE_REVERSAL'' \<and> \<not> (at_outcome (the la) = AT_UNKNOWN \<or> (at_outcome (the la) = AT_ACKED \<and> at_as (the la) = ''OK''))
       then Inl ErrReviewConflict
     else if action \<noteq> ''CREATE_REVERSAL'' \<and> hasAmount then Inl ErrRepo
     else if action = ''ESCALATE'' then
       Inr (db\<lparr>db_review := (db_review db)(q := st\<lparr>rv_escalations := rv_escalations st + 1, rv_version := rv_version st + 1\<rparr>)\<rparr>)
     else
       Inr (db\<lparr>db_review := (db_review db)(q := st\<lparr>rv_terminal := Some action,
              rv_retry_no := (if action = ''CONFIRM_NOT_POSTED_RETRY'' then Some (at_no (the la) + 1) else None),
              rv_version := rv_version st + 1\<rparr>)\<rparr>))"

definition p4_posting_review_apply :: "string \<Rightarrow> posting_db \<Rightarrow> posting_db" where
  "p4_posting_review_apply q db = (if retry_authorised db q then release_held q db else db)"

definition posting_outbox_requeue_parked :: "lane_env \<Rightarrow> string \<Rightarrow> posting_db \<Rightarrow> posting_code + posting_db" where
  "posting_outbox_requeue_parked env q db =
    (case find_outbox db q of
       None \<Rightarrow> Inl ErrRepo
     | Some o' \<Rightarrow>
         if ob_state o' \<noteq> OB_HELD_RECOVERY \<or> ob_parked o' = None then Inl ErrRepo
         else if 0 < may_have_sent db q then Inl ErrRepo
         else Inr (db\<lparr>db_outbox := outbox_map q (\<lambda>r. r\<lparr>ob_state := OB_QUEUED, ob_decline_count := 0,
                ob_parked := None, ob_not_before := le_now env\<rparr>) (db_outbox db)\<rparr>))"

section \<open>The lane\<close>

text \<open>
  The database, the guard, the records written to the PMS, and the calls of \<open>RunOnce\<close> that committed
  an attempt and have not settled it: not yet sent (\<open>wk_result\<close> is \<open>None\<close>) or with the result of the
  send. Calls, transactions and process stops interleave in any order; \<open>EvStop\<close> loses one call.
\<close>

record worker =
  wk_claim :: claim
  wk_pn :: int
  wk_body :: string
  wk_out :: lane_outcome
  wk_result :: "(send_error + pa option) option"

record lane =
  la_db :: posting_db
  la_guard :: dark_guard
  la_wire :: "string list"
  la_workers :: "worker list"

datatype lane_event =
    EvCreate lane_env pinned
  | EvClaim lane_env
  | EvSend nat handoff_reply bool
  | EvSettle nat lane_env
  | EvStop nat
  | EvRecover lane_env duration
  | EvRequeue lane_env string
  | EvReview string string bool bool "nat option" bool
  | EvApply string
  | EvUnpark lane_env string

text \<open>
  pmsd as the lane sees it: a reply, and whether the record was written to the PMS.
\<close>

definition pmsd_send :: "handoff_reply \<Rightarrow> bool \<Rightarrow> string list \<Rightarrow> handoff_request \<Rightarrow> string list \<times> handoff_reply" where
  "pmsd_send reply wrote w req = (if wrote then w @ [hr_Body req] else w, reply)"

definition without :: "nat \<Rightarrow> 'a list \<Rightarrow> 'a list" where
  "without i xs = take i xs @ drop (Suc i) xs"

definition or_db :: "posting_db \<Rightarrow> posting_code + posting_db \<Rightarrow> posting_db" where
  "or_db db r = (case r of Inl _ \<Rightarrow> db | Inr d \<Rightarrow> d)"

definition claim_step :: "posting_config \<Rightarrow> (string \<Rightarrow> string) \<Rightarrow> string \<Rightarrow> lane_env \<Rightarrow> lane \<Rightarrow> lane" where
  "claim_step cfg BodyHash iface env l =
    (case run_claim cfg (productionTransport BodyHash (pmsd_send HandoffErrOther True) cfg) BodyHash env iface
            (la_db l) (la_guard l) (la_wire l) of
       (db, g, w, out, ph) \<Rightarrow>
         l\<lparr>la_db := db, la_guard := g, la_wire := w,
           la_workers := la_workers l @ (case ph of Finished _ \<Rightarrow> []
             | ReadyToSend c pn body \<Rightarrow> [\<lparr>wk_claim = c, wk_pn = pn, wk_body = body, wk_out = out, wk_result = None\<rparr>])\<rparr>)"

definition send_step :: "posting_config \<Rightarrow> (string \<Rightarrow> string) \<Rightarrow> string \<Rightarrow> nat \<Rightarrow> handoff_reply \<Rightarrow> bool \<Rightarrow> lane \<Rightarrow> lane" where
  "send_step cfg BodyHash iface i reply wrote l =
    (if length (la_workers l) \<le> i \<or> wk_result (la_workers l ! i) \<noteq> None then l
     else (let wk = la_workers l ! i in
       case run_send cfg (productionTransport BodyHash (pmsd_send reply wrote) cfg) iface (la_guard l) (la_wire l) (wk_pn wk) (wk_body wk) of
         (g, w, res) \<Rightarrow>
           l\<lparr>la_guard := g, la_wire := w, la_workers := (la_workers l)[i := wk\<lparr>wk_result := Some res\<rparr>]\<rparr>))"

definition settle_step :: "nat \<Rightarrow> lane_env \<Rightarrow> lane \<Rightarrow> lane" where
  "settle_step i env l =
    (if length (la_workers l) \<le> i then l
     else (let wk = la_workers l ! i in
       case wk_result wk of
         None \<Rightarrow> l
       | Some res \<Rightarrow>
           (case settle env (la_db l) (wk_claim wk) (wk_out wk) res of
              (db, _, _) \<Rightarrow> l\<lparr>la_db := db, la_workers := without i (la_workers l)\<rparr>)))"

fun lane_step :: "posting_config \<Rightarrow> (string \<Rightarrow> string) \<Rightarrow> string \<Rightarrow> lane \<Rightarrow> lane_event \<Rightarrow> lane" where
  "lane_step cfg H iface l (EvCreate env p) = l\<lparr>la_db := fst (CreatePosting cfg env p (la_db l))\<rparr>"
| "lane_step cfg H iface l (EvClaim env) = claim_step cfg H iface env l"
| "lane_step cfg H iface l (EvSend i reply wrote) = send_step cfg H iface i reply wrote l"
| "lane_step cfg H iface l (EvSettle i env) = settle_step i env l"
| "lane_step cfg H iface l (EvStop i) = l\<lparr>la_workers := without i (la_workers l)\<rparr>"
| "lane_step cfg H iface l (EvRecover env d) = l\<lparr>la_db := fst (RecoverOrphanedAttempts env d (la_db l))\<rparr>"
| "lane_step cfg H iface l (EvRequeue env q) = l\<lparr>la_db := fst (Requeue cfg env q (la_db l))\<rparr>"
| "lane_step cfg H iface l (EvReview q action at ev ver amt) =
     l\<lparr>la_db := or_db (la_db l) (record_posting_review_action q action at ev ver amt (la_db l))\<rparr>"
| "lane_step cfg H iface l (EvApply q) = l\<lparr>la_db := p4_posting_review_apply q (la_db l)\<rparr>"
| "lane_step cfg H iface l (EvUnpark env q) = l\<lparr>la_db := or_db (la_db l) (posting_outbox_requeue_parked env q (la_db l))\<rparr>"

definition empty_lane :: lane where
  "empty_lane = \<lparr>la_db = \<lparr>db_postings = [], db_outbox = [], db_attempts = [],
       db_review = (\<lambda>_. \<lparr>rv_terminal = None, rv_retry_no = None, rv_version = 0, rv_escalations = 0\<rparr>),
       db_next_p = 1, db_events = [], db_aborts = []\<rparr>,
     la_guard = \<lparr>dg_refusals = 0, dg_lastBody = []\<rparr>, la_wire = [], la_workers = []\<rparr>"

section \<open>The ledger: attempts, reviews and the P# counter\<close>

text \<open>
  What decides whether money may move again: operations on the queue leave it alone.
\<close>

definition ledger :: "posting_db \<Rightarrow> attempt list \<times> (string \<Rightarrow> review) \<times> int" where
  "ledger db = (db_attempts db, db_review db, db_next_p db)"

named_theorems ledger_keeps "operations that leave the ledger as it was"

lemma stmt_Inr: "stmt env st r = Inr x \<longleftrightarrow> le_fail env st = None \<and> r = Inr x"
  by (simp add: stmt_def split: option.splits)

lemma bind_db_Inr: "bind_db r f = Inr y \<longleftrightarrow> (\<exists>x. r = Inr x \<and> f x = Inr y)"
  by (auto simp: bind_db_def split: sum.splits)

lemma InsertPosting_ledger [ledger_keeps]: "InsertPosting env p db = Inr (db', q) \<Longrightarrow> ledger db' = ledger db"
  by (auto simp: InsertPosting_def stmt_Inr ledger_def split: if_splits)

lemma ClaimNext_ledger [ledger_keeps]: "ClaimNext env db = Inr (Some (db', c)) \<Longrightarrow> ledger db' = ledger db"
  by (auto simp: ClaimNext_def stmt_Inr ledger_def split: if_splits option.splits)

lemma set_outbox_state_ledger: "set_outbox_state db q st = Inr db' \<Longrightarrow> ledger db' = ledger db"
  by (auto simp: set_outbox_state_def ledger_def split: if_splits)

lemma FinishClaim_ledger [ledger_keeps]: "FinishClaim env q st db = Inr db' \<Longrightarrow> ledger db' = ledger db"
  by (auto simp: FinishClaim_def stmt_Inr dest: set_outbox_state_ledger)

lemma ReleaseClaim_ledger [ledger_keeps]: "ReleaseClaim env q db = Inr db' \<Longrightarrow> ledger db' = ledger db"
  by (auto simp: ReleaseClaim_def stmt_Inr dest: set_outbox_state_ledger)

lemma posting_outbox_defer_ledger: "posting_outbox_defer env q d r db = Inr (db', st) \<Longrightarrow> ledger db' = ledger db"
  by (auto simp: posting_outbox_defer_def ledger_def Let_def split: if_splits option.splits)

lemma Defer_ledger [ledger_keeps]: "Defer env q d r db = Inr (db', st) \<Longrightarrow> ledger db' = ledger db"
  by (auto simp: Defer_def stmt_Inr dest: posting_outbox_defer_ledger)

lemma AppendAttemptEvent_ledger [ledger_keeps]: "AppendAttemptEvent env q no ev db = Inr db' \<Longrightarrow> ledger db' = ledger db"
  by (auto simp: AppendAttemptEvent_def stmt_Inr ledger_def)

lemma abort_ledger [ledger_keeps]: "p4_posting_abort_before_send q r db = Inr db' \<Longrightarrow> ledger db' = ledger db"
  by (auto simp: p4_posting_abort_before_send_def ledger_def split: if_splits)

lemma release_held_ledger: "ledger (release_held q db) = ledger db"
  by (simp add: release_held_def ledger_def)

lemma Requeue_ledger: "ledger (fst (Requeue cfg env q db)) = ledger db"
  by (auto simp: Requeue_def release_held_ledger split: option.splits)

lemma review_apply_ledger: "ledger (p4_posting_review_apply q db) = ledger db"
  by (simp add: p4_posting_review_apply_def release_held_ledger)

lemma unpark_ledger [ledger_keeps]: "posting_outbox_requeue_parked env q db = Inr db' \<Longrightarrow> ledger db' = ledger db"
  by (auto simp: posting_outbox_requeue_parked_def ledger_def split: if_splits option.splits)

lemma CreatePosting_ledger: "ledger (fst (CreatePosting cfg env p db)) = ledger db"
  by (auto simp: CreatePosting_def dest: ledger_keeps split: sum.splits option.splits)

text \<open>What a finished first transaction does to the ledger: at most it consumes a P#.\<close>

definition only_p :: "posting_db \<Rightarrow> posting_db \<Rightarrow> bool" where
  "only_p db db' \<longleftrightarrow> db_attempts db' = db_attempts db \<and> db_review db' = db_review db
     \<and> (db_next_p db' = db_next_p db \<or> db_next_p db' = db_next_p db + 1)"

lemma only_p_refl [simp]: "only_p db db"
  by (simp add: only_p_def)

lemma only_p_ledger: "ledger db' = ledger db \<Longrightarrow> only_p db db'"
  by (simp add: only_p_def ledger_def)

lemma only_p_ledger2: "only_p db tx \<Longrightarrow> ledger tx' = ledger tx \<Longrightarrow> only_p db tx'"
  by (simp add: only_p_def ledger_def)

lemma decline_ledger:
  assumes "decline env t db tx out c e = (d, out', ph)"
  shows "(d = db \<or> ledger d = ledger tx) \<and> (\<exists>er. ph = Finished er)"
  using assms by (auto simp: decline_def Let_def dest!: ledger_keeps split: sum.splits prod.splits if_splits)

lemma decline_only_p:
  assumes "decline env t db tx out c e = (d, out', ph)" and "only_p db tx"
  shows "only_p db d \<and> (\<exists>er. ph = Finished er)"
  using decline_ledger [OF assms(1)] assms(2) by (auto intro: only_p_ledger2)

lemma abort_only_p:
  assumes "abortBeforeSend env db tx out c r e = (d, out', ph)" and "ledger tx = ledger db"
  shows "ledger d = ledger db \<and> (\<exists>er. ph = Finished er)"
  using assms by (auto simp: abortBeforeSend_def Let_def stmt_Inr dest!: ledger_keeps split: sum.splits option.splits if_splits)

lemma dark_release_ledger:
  assumes "dark_release env db tx out c off = (d, out', ph)" and "ledger tx = ledger db"
  shows "ledger d = ledger db \<and> (\<exists>er. ph = Finished er)"
  using assms by (auto simp: dark_release_def Let_def dest!: ledger_keeps split: sum.splits if_splits)

definition appended :: "(string \<Rightarrow> string) \<Rightarrow> lane_env \<Rightarrow> posting_db \<Rightarrow> claim \<Rightarrow> int \<Rightarrow> string \<Rightarrow> posting_db \<Rightarrow> bool" where
  "appended H env db c pn body db' \<longleftrightarrow>
     pn = db_next_p db \<and> 0 \<le> pn \<and> pn < 10 ^ 18 \<and> BuildPS (ps_of c pn) = Inr body
     \<and> p4_attempt_retry_gate db (cl_PostingID c) (cl_AttemptNo c) = None
     \<and> db_attempts db' = db_attempts db @ [\<lparr>at_posting = cl_PostingID c, at_no = cl_AttemptNo c, at_p = pn,
          at_rn = pi_RN (cl_Pinned c), at_g = pi_GNumber (cl_Pinned c), at_sha = H body, at_sent = le_now env,
          at_outcome = AT_SENDING, at_as = []\<rparr>]
     \<and> db_review db' = p4_consume_retry_authorization (cl_PostingID c) (cl_AttemptNo c) (db_review db)
     \<and> db_next_p db' = pn + 1"

definition phase_ok :: "(string \<Rightarrow> string) \<Rightarrow> lane_env \<Rightarrow> posting_db \<Rightarrow> posting_db \<Rightarrow> run_phase \<Rightarrow> bool" where
  "phase_ok H env db db' ph \<longleftrightarrow>
     (case ph of Finished _ \<Rightarrow> only_p db db' | ReadyToSend c pn body \<Rightarrow> appended H env db c pn body db')"

lemma retry_gate_cong:
  "db_attempts d = db_attempts db \<Longrightarrow> db_review d = db_review db \<Longrightarrow>
   p4_attempt_retry_gate d q no = p4_attempt_retry_gate db q no"
  unfolding p4_attempt_retry_gate_def attempts_of_def by (simp only:)

lemma prepare_phase_ok:
  assumes "prepare_attempt H env db tx out c = (d, out', ph)" and L: "ledger tx = ledger db"
  shows "phase_ok H env db d ph"
proof -
  have tx: "db_attempts tx = db_attempts db" "db_review tx = db_review db" "db_next_p tx = db_next_p db"
    using L by (simp_all add: ledger_def)
  let ?tx' = "tx\<lparr>db_next_p := db_next_p tx + 1\<rparr>"
  show ?thesis
  proof (cases "AllocatePNumber env tx")
    case (Inl e)
    then show ?thesis using assms by (auto simp: prepare_attempt_def phase_ok_def)
  next
    case (Inr y)
    then have y: "y = (?tx', db_next_p tx)" by (simp add: AllocatePNumber_def stmt_Inr)
    have op: "only_p db ?tx'" using tx by (simp add: only_p_def)
    show ?thesis
    proof (cases "BuildPS (ps_of c (db_next_p tx))")
      case (Inl e)
      have "decline env (code_text e) db ?tx' (out\<lparr>lo_PNumber := db_next_p tx\<rparr>) c e = (d, out', ph)"
        using assms(1) Inr y Inl by (simp add: prepare_attempt_def Let_def)
      from decline_only_p [OF this op] show ?thesis by (auto simp: phase_ok_def)
    next
      case (Inr body)
      have g: "p4_attempt_retry_gate ?tx' q no = p4_attempt_retry_gate db q no" for q no
        using tx by (intro retry_gate_cong) simp_all
      show ?thesis
        using assms(1) \<open>AllocatePNumber env tx = Inr y\<close> y Inr tx g
        by (auto simp: prepare_attempt_def Let_def InsertAttempt_def stmt_Inr phase_ok_def appended_def
            split: sum.splits if_splits option.splits)
    qed
  qed
qed

lemma run_claimed_phase_ok:
  assumes r: "run_claimed cfg inner H env iface db tx c0 g w = (db', g', w', out, ph)" and L: "ledger tx = ledger db"
  shows "w' = w \<and> (if Dark cfg then ledger db' = ledger db \<and> (\<exists>er. ph = Finished er) else phase_ok H env db db' ph)"
proof -
  let ?out = "no_outcome\<lparr>lo_Claimed := True, lo_PostingID := cl_PostingID c0, lo_AttemptNo := cl_AttemptNo c0\<rparr>"
  have fin: "ledger d = ledger db \<Longrightarrow> \<exists>er. p = Finished er \<Longrightarrow>
      (if Dark cfg then ledger d = ledger db \<and> (\<exists>er. p = Finished er) else phase_ok H env db d p)" for d p
    by (auto simp: phase_ok_def intro: only_p_ledger)
  have dec: "decline env t db tx o1 c e = (d, o2, p) \<Longrightarrow> ledger d = ledger db \<and> (\<exists>er. p = Finished er)" for t o1 c e d o2 p
    using decline_ledger [of env t db tx o1 c e d o2 p] L by auto
  show ?thesis
  proof (cases "le_fail env StLock")
    case (Some e)
    have "decline env (code_text e) db tx ?out c0 e = (db', out, ph)" "w' = w"
      using r Some by (simp_all add: run_claimed_def Let_def split: prod.splits)
    note a = this
    show ?thesis using a(2) fin dec [OF a(1)] by blast
  next
    case None
    note lock = this
    show ?thesis
    proof (cases "le_snapshot env (cl_Pinned c0)")
      case (Inl e)
      have "decline env (code_text e) db tx ?out c0 e = (db', out, ph)" "w' = w"
        using r Inl lock by (simp_all add: run_claimed_def Let_def split: prod.splits)
      note a = this
      show ?thesis using a(2) fin dec [OF a(1)] by blast
    next
      case (Inr snap)
      let ?c = "c0\<lparr>cl_Pinned := (cl_Pinned c0)\<lparr>pi_RN := sn_StayRoomNumber snap\<rparr>\<rparr>"
      show ?thesis
      proof (cases "CheckFor PurposeExecute (cl_Pinned ?c) snap")
        case (Some e)
        show ?thesis
        proof (cases "presendAbortReason e \<noteq> []")
          case True
          have "abortBeforeSend env db tx ?out ?c (presendAbortReason e) e = (db', out, ph)" "w' = w"
            using r lock Inr Some True by (simp_all add: run_claimed_def Let_def split: prod.splits)
          note a = this
          show ?thesis using a(2) fin abort_only_p [OF a(1) L] by blast
        next
          case False
          have "decline env (code_text e) db tx ?out ?c e = (db', out, ph)" "w' = w"
            using r lock Inr Some False by (simp_all add: run_claimed_def Let_def split: prod.splits)
          note a = this
          show ?thesis using a(2) fin dec [OF a(1)] by blast
        qed
      next
        case None
        show ?thesis
        proof (cases "Dark cfg")
          case True
          have "dark_release env db tx ?out ?c (Inl refusedDark) = (db', out, ph)" "w' = w"
            using r lock Inr None True by (simp_all add: run_claimed_def Let_def dark_guard_dark split: prod.splits)
          note a = this
          show ?thesis using a(2) fin dark_release_ledger [OF a(1) L] by blast
        next
          case False
          have "prepare_attempt H env db tx ?out ?c = (db', out, ph)" "w' = w"
            using r lock Inr None False by (simp_all add: run_claimed_def Let_def split: prod.splits)
          note a = this
          show ?thesis using a(2) False prepare_phase_ok [OF a(1) L] by presburger
        qed
      qed
    qed
  qed
qed

lemma run_claim_phase_ok:
  assumes r: "run_claim cfg inner H env iface db g w = (db', g', w', out, ph)"
  shows "w' = w \<and> (if Dark cfg then ledger db' = ledger db \<and> (\<exists>er. ph = Finished er) else phase_ok H env db db' ph)"
proof -
  consider (early) "db' = db" "w' = w" "\<exists>er. ph = Finished er"
    | (claimed) tx c0 where "ClaimNext env db = Inr (Some (tx, c0))"
        "run_claimed cfg inner H env iface db tx c0 g w = (db', g', w', out, ph)"
    using r by (auto simp: run_claim_def split: if_splits sum.splits option.splits)
  then show ?thesis
  proof cases
    case early
    then show ?thesis by (auto simp: phase_ok_def)
  next
    case claimed
    show ?thesis by (rule run_claimed_phase_ok [OF claimed(2) ClaimNext_ledger [OF claimed(1)]])
  qed
qed

section \<open>The history of one charge\<close>

text \<open>
  The attempts of one posting, with \<open>k\<close> the number of retry authorizations it has used up. The
  attempts are numbered in order, at most the last one is still being sent, and all but one of those
  that may have reached the PMS are paid for by an authorization; where the last one provably did not
  leave, all of them are.
\<close>

definition maybe_sent :: "attempt list \<Rightarrow> nat" where
  "maybe_sent as = length (filter (\<lambda>a. at_outcome a \<noteq> AT_NOT_SENT) as)"

definition history_ok :: "attempt list \<Rightarrow> nat \<Rightarrow> bool" where
  "history_ok as k \<longleftrightarrow>
     map at_no as = [1..<Suc (length as)]
     \<and> (\<forall>a \<in> set (butlast as). at_outcome a \<noteq> AT_SENDING)
     \<and> maybe_sent as \<le> 1 + k
     \<and> (as = [] \<or> at_outcome (last as) = AT_NOT_SENT \<longrightarrow> maybe_sent as \<le> k)"

definition consumed :: "review \<Rightarrow> nat" where
  "consumed r = (if rv_terminal r = Some ''CONFIRM_NOT_POSTED_RETRY'' \<and> rv_retry_no r = None then 1 else 0)"

lemma maybe_sent_append [simp]: "maybe_sent (as @ bs) = maybe_sent as + maybe_sent bs"
  by (simp add: maybe_sent_def)

lemma latest_None [simp]: "latest as = None \<longleftrightarrow> as = []"
  by (cases as) (auto split: option.splits)

lemma latest_snoc: "\<forall>a \<in> set as. at_no a < at_no b \<Longrightarrow> latest (as @ [b]) = Some b"
  by (induction as) auto

lemma history_latest:
  assumes "map at_no as = [1..<Suc (length as)]" and "as \<noteq> []"
  shows "latest as = Some (last as) \<and> at_no (last as) = length as"
proof -
  obtain bs b where as: "as = bs @ [b]" using assms(2) by (cases as rule: rev_cases) auto
  with assms(1) have m: "map at_no bs = [1..<Suc (length bs)]" "at_no b = Suc (length bs)" by simp_all
  have "at_no a < at_no b" if "a \<in> set bs" for a
  proof -
    have "at_no a \<in> set [1..<Suc (length bs)]" using that m(1) by (metis image_eqI list.set_map)
    then show ?thesis using m(2) by auto
  qed
  then show ?thesis using latest_snoc [of bs b] m as by simp
qed

lemma history_insert:
  assumes h: "history_ok as (consumed r)"
    and g: "case latest as of None \<Rightarrow> no = 1
      | Some l \<Rightarrow> no = at_no l + 1 \<and> at_outcome l \<noteq> AT_SENDING
         \<and> (at_outcome l \<in> {AT_UNKNOWN, AT_ACKED} \<longrightarrow> rv_terminal r = Some ''CONFIRM_NOT_POSTED_RETRY'' \<and> rv_retry_no r = Some no)"
    and n: "at_no a = no" "at_outcome a = AT_SENDING"
    and r': "r' = (if rv_terminal r = Some ''CONFIRM_NOT_POSTED_RETRY'' \<and> rv_retry_no r = Some no
                   then r\<lparr>rv_retry_no := None, rv_version := rv_version r + 1\<rparr> else r)"
  shows "history_ok (as @ [a]) (consumed r')"
proof (cases "as = []")
  case True
  then show ?thesis using g n by (simp add: history_ok_def maybe_sent_def)
next
  case False
  have l: "latest as = Some (last as)" "at_no (last as) = length as"
    using history_latest [OF _ False] h by (simp_all add: history_ok_def)
  have num: "map at_no (as @ [a]) = [1..<Suc (length (as @ [a]))]" using h g n l by (simp add: history_ok_def)
  have bl: "\<forall>x \<in> set (butlast (as @ [a])). at_outcome x \<noteq> AT_SENDING"
  proof
    fix x assume "x \<in> set (butlast (as @ [a]))"
    then have "x \<in> set (butlast as @ [last as])" using False by simp
    then show "at_outcome x \<noteq> AT_SENDING" using h g l by (auto simp: history_ok_def)
  qed
  have k: "consumed r \<le> consumed r'" by (simp add: r' consumed_def)
  have "maybe_sent as + 1 \<le> 1 + consumed r'"
  proof (cases "at_outcome (last as) = AT_NOT_SENT")
    case True
    then show ?thesis using h k by (simp add: history_ok_def)
  next
    case False
    then have "at_outcome (last as) \<in> {AT_UNKNOWN, AT_ACKED}" using g l by (cases "at_outcome (last as)") auto
    then have "rv_terminal r = Some ''CONFIRM_NOT_POSTED_RETRY''" "rv_retry_no r = Some no" using g l by auto
    then have "consumed r = 0" "consumed r' = 1" by (simp_all add: consumed_def r')
    then show ?thesis using h by (simp add: history_ok_def)
  qed
  then show ?thesis using num bl n by (simp add: history_ok_def maybe_sent_def)
qed

lemma history_settle:
  assumes h: "history_ok as k" and oc: "oc \<noteq> AT_SENDING"
    and one: "\<forall>a \<in> set as. at_posting a = q \<and> at_no a = no \<longrightarrow> at_outcome a = AT_SENDING \<or> oc = at_outcome a"
  shows "history_ok (map (settle_row q no oc s) as) k"
proof (cases as rule: rev_cases)
  case Nil
  then show ?thesis using h by simp
next
  case (snoc bs l)
  let ?f = "settle_row q no oc s"
  have keep: "at_outcome (?f b) = at_outcome b" if "b \<in> set bs" for b
    using h one snoc that by (auto simp: history_ok_def settle_row_def)
  have num: "map at_no (map ?f as) = [1..<Suc (length as)]"
  proof -
    have "map at_no (map ?f as) = map at_no as" by (simp add: settle_row_def)
    then show ?thesis using h unfolding history_ok_def by argo
  qed
  have bs: "maybe_sent (map ?f bs) = maybe_sent bs"
    using keep by (induction bs) (auto simp: maybe_sent_def)
  have l: "at_outcome (?f l) = at_outcome l \<or> (at_outcome l = AT_SENDING \<and> at_outcome (?f l) = oc)"
    using one snoc by (auto simp: settle_row_def)
  show ?thesis
    using h num bs l keep oc snoc by (auto simp: history_ok_def maybe_sent_def)
qed

section \<open>The ledger invariant\<close>

definition db_ok :: "posting_db \<Rightarrow> bool" where
  "db_ok db \<longleftrightarrow>
     (\<forall>q. history_ok (attempts_of db q) (consumed (db_review db q)))
     \<and> distinct (map at_p (db_attempts db))
     \<and> (\<forall>a \<in> set (db_attempts db). 0 < at_p a \<and> at_p a < db_next_p db \<and> at_p a < 10 ^ 18)
     \<and> 0 < db_next_p db"

lemma db_ok_ledger: "ledger db' = ledger db \<Longrightarrow> db_ok db' = db_ok db"
  by (simp add: db_ok_def ledger_def attempts_of_def)

lemma db_ok_only_p: "only_p db db' \<Longrightarrow> db_ok db \<Longrightarrow> db_ok db'"
  by (auto simp: db_ok_def only_p_def attempts_of_def)

lemma db_ok_unique:
  assumes "db_ok db" and "a \<in> set (db_attempts db)" "b \<in> set (db_attempts db)"
    and "at_posting a = at_posting b" and "at_no a = at_no b"
  shows "a = b"
proof -
  let ?as = "attempts_of db (at_posting b)"
  have "map at_no ?as = [1..<Suc (length ?as)]" using assms(1) unfolding db_ok_def history_ok_def by blast
  then have "distinct (map at_no ?as)" by (metis distinct_upt)
  moreover have "a \<in> set ?as" "b \<in> set ?as" using assms by (auto simp: attempts_of_def)
  ultimately show ?thesis using assms(5) by (meson distinct_map inj_onD)
qed

lemma retry_gate_None:
  "p4_attempt_retry_gate db q no = None \<longleftrightarrow>
    (case latest (attempts_of db q) of None \<Rightarrow> no = 1
     | Some l \<Rightarrow> no = at_no l + 1 \<and> at_outcome l \<noteq> AT_SENDING
         \<and> (at_outcome l \<in> {AT_UNKNOWN, AT_ACKED} \<longrightarrow>
              rv_terminal (db_review db q) = Some ''CONFIRM_NOT_POSTED_RETRY'' \<and> rv_retry_no (db_review db q) = Some no))"
  by (auto simp: p4_attempt_retry_gate_def split: option.splits)

lemma db_ok_appended:
  assumes ok: "db_ok db" and ap: "appended H env db c pn body db'"
  shows "db_ok db'"
proof -
  let ?q = "cl_PostingID c"
  let ?a = "\<lparr>at_posting = ?q, at_no = cl_AttemptNo c, at_p = pn, at_rn = pi_RN (cl_Pinned c), at_g = pi_GNumber (cl_Pinned c),
      at_sha = H body, at_sent = le_now env, at_outcome = AT_SENDING, at_as = []\<rparr>"
  have at: "db_attempts db' = db_attempts db @ [?a]" and pn: "pn = db_next_p db" "pn < 10 ^ 18" "db_next_p db' = pn + 1"
    and rv: "db_review db' = p4_consume_retry_authorization ?q (cl_AttemptNo c) (db_review db)"
    and g: "p4_attempt_retry_gate db ?q (cl_AttemptNo c) = None"
    using ap by (simp_all add: appended_def)
  have "history_ok (attempts_of db' q) (consumed (db_review db' q))" for q
  proof (cases "q = ?q")
    case True
    have as: "attempts_of db' ?q = attempts_of db ?q @ [?a]" by (simp add: attempts_of_def at)
    have "history_ok (attempts_of db ?q @ [?a]) (consumed (db_review db' ?q))"
      using ok g unfolding retry_gate_None
      by (intro history_insert [where r = "db_review db ?q" and no = "cl_AttemptNo c"])
         (auto simp: db_ok_def rv p4_consume_retry_authorization_def)
    then show ?thesis using True as by simp
  next
    case False
    then have "attempts_of db' q = attempts_of db q" "db_review db' q = db_review db q"
      by (auto simp: attempts_of_def at rv p4_consume_retry_authorization_def)
    then show ?thesis using ok by (simp add: db_ok_def)
  qed
  moreover have "distinct (map at_p (db_attempts db'))" using ok pn(1) by (auto simp: db_ok_def at)
  moreover have "\<forall>a \<in> set (db_attempts db'). 0 < at_p a \<and> at_p a < db_next_p db' \<and> at_p a < 10 ^ 18"
    using ok pn by (auto simp: db_ok_def at)
  ultimately show ?thesis using ok pn by (simp add: db_ok_def)
qed

lemma SettleAttempt_Inr:
  "SettleAttempt env q no oc s db = Inr db' \<longleftrightarrow>
     le_fail env StSettle = None \<and> attempt_oneway db q no oc
     \<and> db' = db\<lparr>db_attempts := map (settle_row q no oc s) (db_attempts db)\<rparr>"
  by (auto simp: SettleAttempt_def stmt_Inr)

lemma settle_row_posting [simp]: "at_posting (settle_row q no oc s a) = at_posting a"
  and settle_row_p [simp]: "at_p (settle_row q no oc s a) = at_p a"
  and settle_row_no [simp]: "at_no (settle_row q no oc s a) = at_no a"
  by (simp_all add: settle_row_def)

lemma attempts_of_settled:
  "attempts_of (db\<lparr>db_attempts := map (settle_row q no oc s) (db_attempts db)\<rparr>) p = map (settle_row q no oc s) (attempts_of db p)"
  by (simp add: attempts_of_def filter_map o_def)

lemma db_ok_settled:
  assumes "db_ok db" and "attempt_oneway db q no oc" and "oc \<noteq> AT_SENDING"
  shows "db_ok (db\<lparr>db_attempts := map (settle_row q no oc s) (db_attempts db)\<rparr>)"
  using assms unfolding db_ok_def attempts_of_settled
  by (auto intro!: history_settle simp: o_def attempt_oneway_def list_all_iff attempts_of_def)

lemma review_Inr:
  assumes "record_posting_review_action q action at ev ver amt db = Inr db'"
  shows "\<exists>r. db' = db\<lparr>db_review := (db_review db)(q := r)\<rparr>
    \<and> ((rv_terminal r = rv_terminal (db_review db q) \<and> rv_retry_no r = rv_retry_no (db_review db q))
       \<or> (rv_terminal (db_review db q) = None \<and> rv_terminal r = Some action
          \<and> (action = ''CONFIRM_NOT_POSTED_RETRY'' \<longrightarrow> rv_retry_no r \<noteq> None)))"
proof (cases "action = ''ESCALATE''")
  case True
  have "db' = db\<lparr>db_review := (db_review db)(q := (db_review db q)\<lparr>rv_escalations := rv_escalations (db_review db q) + 1,
      rv_version := rv_version (db_review db q) + 1\<rparr>)\<rparr>"
    using assms unfolding record_posting_review_action_def Let_def by (simp add: True split: if_splits)
  then show ?thesis by (intro exI conjI) (assumption, simp)
next
  case False
  have "rv_terminal (db_review db q) = None"
    using assms False unfolding record_posting_review_action_def Let_def by (simp split: if_splits)
  moreover have "db' = db\<lparr>db_review := (db_review db)(q := (db_review db q)\<lparr>rv_terminal := Some action,
      rv_retry_no := (if action = ''CONFIRM_NOT_POSTED_RETRY'' then Some (at_no (the (latest (attempts_of db q))) + 1) else None),
      rv_version := rv_version (db_review db q) + 1\<rparr>)\<rparr>"
    using assms False unfolding record_posting_review_action_def Let_def by (simp split: if_splits)
  ultimately show ?thesis by (intro exI conjI) (assumption, simp)
qed

lemma db_ok_review:
  assumes "db_ok db" and "record_posting_review_action q action at ev ver amt db = Inr db'"
  shows "db_ok db'"
proof -
  obtain r where db': "db' = db\<lparr>db_review := (db_review db)(q := r)\<rparr>" and "consumed r = consumed (db_review db q)"
    using review_Inr [OF assms(2)] by (auto simp: consumed_def)
  then show ?thesis using assms(1) by (simp add: db_ok_def attempts_of_def)
qed

section \<open>What is written is written once\<close>

definition ident :: "attempt \<Rightarrow> string \<times> nat \<times> int" where
  "ident a = (at_posting a, at_no a, at_p a)"

definition idents :: "posting_db \<Rightarrow> (string \<times> nat \<times> int) set" where
  "idents db = ident ` set (db_attempts db)"

definition unsent_ps :: "posting_db \<Rightarrow> int set" where
  "unsent_ps db = {at_p a | a. a \<in> set (db_attempts db) \<and> at_outcome a = AT_NOT_SENT}"

lemma idents_ledger: "ledger db' = ledger db \<Longrightarrow> idents db' = idents db \<and> unsent_ps db' = unsent_ps db"
  by (simp add: ledger_def idents_def unsent_ps_def)

lemma idents_settled [simp]: "idents (db\<lparr>db_attempts := map (settle_row q no oc s) (db_attempts db)\<rparr>) = idents db"
  by (auto simp: idents_def ident_def image_image)

lemma unsent_settled:
  assumes "db_ok db" and "(q, no, p) \<in> idents db"
  shows "unsent_ps (db\<lparr>db_attempts := map (settle_row q no oc s) (db_attempts db)\<rparr>)
    \<subseteq> (if oc = AT_NOT_SENT then insert p (unsent_ps db) else unsent_ps db)"
proof
  fix x assume "x \<in> unsent_ps (db\<lparr>db_attempts := map (settle_row q no oc s) (db_attempts db)\<rparr>)"
  then obtain a where a: "a \<in> set (db_attempts db)" "x = at_p a" "at_outcome (settle_row q no oc s a) = AT_NOT_SENT"
    by (auto simp: unsent_ps_def)
  obtain b where b: "b \<in> set (db_attempts db)" "ident b = (q, no, p)" using assms(2) by (auto simp: idents_def)
  show "x \<in> (if oc = AT_NOT_SENT then insert p (unsent_ps db) else unsent_ps db)"
  proof (cases "at_posting a = q \<and> at_no a = no")
    case True
    then have "a = b" using db_ok_unique [OF assms(1) a(1) b(1)] b(2) by (simp add: ident_def)
    then show ?thesis using a b True by (simp add: settle_row_def ident_def)
  next
    case False
    then show ?thesis using a by (auto simp: settle_row_def unsent_ps_def)
  qed
qed

lemma settle_db:
  assumes "settle env db c out res = (db', out', er)"
  shows "db' = db \<or> (\<exists>oc s rest. settle_verdict env out res = (oc, s, rest)
     \<and> attempt_oneway db (cl_PostingID c) (cl_AttemptNo c) oc
     \<and> ledger db' = ledger (db\<lparr>db_attempts := map (settle_row (cl_PostingID c) (cl_AttemptNo c) oc s) (db_attempts db)\<rparr>))"
proof (cases "db' = db")
  case False
  obtain oc s obst event reason out2 where v: "settle_verdict env out res = (oc, s, obst, event, reason, out2)"
    by (metis prod_cases6)
  obtain d1 d2 where d1: "SettleAttempt env (cl_PostingID c) (cl_AttemptNo c) oc s db = Inr d1"
    and d2: "AppendAttemptEvent env (cl_PostingID c) (cl_AttemptNo c) event d1 = Inr d2" and d3: "ledger db' = ledger d2"
  proof -
    obtain d3 where bd: "bind_db (SettleAttempt env (cl_PostingID c) (cl_AttemptNo c) oc s db)
             (\<lambda>d1. bind_db (AppendAttemptEvent env (cl_PostingID c) (cl_AttemptNo c) event d1)
             (\<lambda>d2. if oc = AT_NOT_SENT \<and> \<not> HasPrefix reason ''ROOM_CHANGED''
                   then (case Defer env (cl_PostingID c) False reason d2 of Inl e \<Rightarrow> Inl e | Inr (d3, _) \<Rightarrow> Inr d3)
                   else FinishClaim env (cl_PostingID c) obst d2)) = Inr d3" and "db' = d3"
      using assms v False by (auto simp: settle_def split: if_splits sum.splits)
    then show ?thesis
      by (auto simp: bind_db_Inr split: if_splits sum.splits dest!: FinishClaim_ledger Defer_ledger intro: that)
  qed
  then show ?thesis using v AppendAttemptEvent_ledger [OF d2] by (auto simp: SettleAttempt_Inr)
qed simp

lemma settle_verdict_outcome:
  assumes "settle_verdict env out res = (oc, s, rest)"
  shows "oc \<noteq> AT_SENDING \<and> (oc = AT_NOT_SENT \<longrightarrow> (\<exists>e. res = Inl e \<and> NotTransmitted e))"
  using assms by (auto simp: settle_verdict_def split: sum.splits option.splits if_splits)

definition recovered_from :: "posting_db \<Rightarrow> posting_db \<Rightarrow> bool" where
  "recovered_from db db' \<longleftrightarrow> idents db' = idents db \<and> unsent_ps db' \<subseteq> unsent_ps db"

lemma recovered_settled:
  "oc \<noteq> AT_NOT_SENT \<Longrightarrow> recovered_from db (db\<lparr>db_attempts := map (settle_row q no oc s) (db_attempts db)\<rparr>)"
  by (auto simp: recovered_from_def unsent_ps_def settle_row_def split: if_splits)

lemma recovered_ledger:
  assumes "ledger db' = ledger db" shows "recovered_from db db'"
  unfolding recovered_from_def using idents_ledger [OF assms] by simp

lemma recovered_trans: "recovered_from a b \<Longrightarrow> recovered_from b c \<Longrightarrow> recovered_from a c"
  by (auto simp: recovered_from_def)

lemma recover_one_ok:
  assumes "recover_one env q no db = Inr db'" and "db_ok db"
  shows "db_ok db' \<and> recovered_from db db'"
proof -
  obtain d2 d1 where d: "attempt_oneway db q no AT_UNKNOWN" "d1 = db\<lparr>db_attempts := map (settle_row q no AT_UNKNOWN []) (db_attempts db)\<rparr>"
      "AppendAttemptEvent env q no ''UNKNOWN_NO_CONCLUSIVE_PA'' d1 = Inr d2" "FinishClaim env q OB_HELD_RECOVERY d2 = Inr db'"
    using assms(1) by (auto simp: recover_one_def bind_db_Inr SettleAttempt_Inr)
  have L: "ledger db' = ledger d1" using FinishClaim_ledger [OF d(4)] AppendAttemptEvent_ledger [OF d(3)] by simp
  have "db_ok d1" unfolding d(2) by (rule db_ok_settled [OF assms(2) d(1)]) simp
  then show ?thesis using L recovered_trans [OF recovered_settled recovered_ledger [OF L [unfolded d(2)]]]
    by (simp add: db_ok_ledger [OF L])
qed

lemma recover_loop_ok:
  "recover_loop env os db n = (db', m, er) \<Longrightarrow> db_ok db \<Longrightarrow> db_ok db' \<and> recovered_from db db'"
proof (induction env os db n arbitrary: db' m er rule: recover_loop.induct)
  case (1 env db n)
  then show ?case by (simp add: recovered_from_def)
next
  case (2 env q no os db n)
  have refl: "recovered_from db db" by (simp add: recovered_from_def)
  show ?case
  proof (cases "recover_one env q no db")
    case (Inl e)
    then show ?thesis using "2.prems" refl by (auto split: if_splits)
  next
    case (Inr d)
    have d: "db_ok d" "recovered_from db d" using recover_one_ok [OF Inr] "2.prems" by simp_all
    show ?thesis
    proof (cases "le_fail env StBegin = None \<and> le_fail env StCommit = None \<and> le_fail env StOutcome = None")
      case True
      then have "recover_loop env os d (n + 1) = (db', m, er)" using "2.prems" Inr by simp
      from "2.IH" [OF _ Inr _ _ this d(1)] True show ?thesis using recovered_trans [OF d(2)] by auto
    next
      case False
      then show ?thesis using "2.prems" Inr d refl by (auto split: if_splits option.splits)
    qed
  qed
qed

lemma RecoverOrphanedAttempts_ok:
  "db_ok db \<Longrightarrow> db_ok (fst (RecoverOrphanedAttempts env d db)) \<and> recovered_from db (fst (RecoverOrphanedAttempts env d db))"
  unfolding RecoverOrphanedAttempts_def by (metis prod.collapse recover_loop_ok)

definition wire_ps :: "lane \<Rightarrow> int set" where
  "wire_ps l = pnOfBody ` set (la_wire l)"

definition worker_ok :: "(string \<times> nat \<times> int) set \<Rightarrow> int set \<Rightarrow> int set \<Rightarrow> worker \<Rightarrow> bool" where
  "worker_ok ids unsent written wk \<longleftrightarrow>
     (cl_PostingID (wk_claim wk), cl_AttemptNo (wk_claim wk), wk_pn wk) \<in> ids
     \<and> pnOfBody (wk_body wk) = wk_pn wk
     \<and> (wk_result wk = None \<longrightarrow> wk_pn wk \<notin> written \<and> wk_pn wk \<notin> unsent)
     \<and> (\<forall>e. wk_result wk = Some (Inl e) \<and> NotTransmitted e \<longrightarrow> wk_pn wk \<notin> written)"

definition lane_ok :: "lane \<Rightarrow> bool" where
  "lane_ok l \<longleftrightarrow>
     db_ok (la_db l)
     \<and> distinct (map wk_pn (la_workers l)) \<and> distinct (map pnOfBody (la_wire l))
     \<and> wire_ps l \<subseteq> (\<lambda>(q, no, p). p) ` idents (la_db l) \<and> wire_ps l \<inter> unsent_ps (la_db l) = {}
     \<and> (\<forall>wk \<in> set (la_workers l). worker_ok (idents (la_db l)) (unsent_ps (la_db l)) (wire_ps l) wk)"

lemma worker_ok_mono:
  "worker_ok ids unsent written wk \<Longrightarrow> ids \<subseteq> ids' \<Longrightarrow> unsent' \<subseteq> unsent \<Longrightarrow> worker_ok ids' unsent' written wk"
  by (auto simp: worker_ok_def)

text \<open>
  pmsd's contract: an answer that says the record was not transmitted is given only when nothing was
  written.
\<close>

definition says_unsent :: "handoff_reply \<Rightarrow> bool" where
  "says_unsent r = (case r of HandoffErrNotSent \<Rightarrow> True | HandoffErrOther \<Rightarrow> False
     | HandoffResponse result _ _ \<Rightarrow> result = ''NOT_TRANSMITTED'')"

fun honest_event :: "lane_event \<Rightarrow> bool" where
  "honest_event (EvSend i reply wrote) = (says_unsent reply \<longrightarrow> \<not> wrote)"
| "honest_event _ = True"

lemma empty_lane_ok: "lane_ok empty_lane"
  by (auto simp: lane_ok_def empty_lane_def db_ok_def attempts_of_def history_ok_def maybe_sent_def wire_ps_def unsent_ps_def idents_def)

text \<open>A database step that adds nothing to the provably unsent keeps the lane's invariant.\<close>

lemma lane_ok_db:
  assumes ok: "lane_ok l" and d: "db_ok d" "recovered_from (la_db l) d"
  shows "lane_ok (l\<lparr>la_db := d\<rparr>)"
proof -
  have i: "idents d = idents (la_db l)" "unsent_ps d \<subseteq> unsent_ps (la_db l)" using d(2) by (simp_all add: recovered_from_def)
  have w: "wire_ps (l\<lparr>la_db := d\<rparr>) = wire_ps l" by (simp add: wire_ps_def)
  have "worker_ok (idents d) (unsent_ps d) (wire_ps l) wk" if "wk \<in> set (la_workers l)" for wk
    by (rule worker_ok_mono [of "idents (la_db l)" "unsent_ps (la_db l)"]) (use ok that i in \<open>auto simp: lane_ok_def\<close>)
  moreover have "wire_ps l \<inter> unsent_ps d = {}" using ok i(2) unfolding lane_ok_def by blast
  ultimately show ?thesis using ok d(1) w i(1) by (simp add: lane_ok_def)
qed

lemma lane_ok_ledger:
  assumes "lane_ok l" and L: "ledger d = ledger (la_db l)"
  shows "lane_ok (l\<lparr>la_db := d\<rparr>)"
  using assms(1) db_ok_ledger [OF L] by (intro lane_ok_db recovered_ledger [OF L]) (simp_all add: lane_ok_def)

lemma without_split: "i < length xs \<Longrightarrow> \<exists>as x bs. xs = as @ x # bs \<and> x = xs ! i \<and> without i xs = as @ bs"
  unfolding without_def using id_take_nth_drop [of i xs] by blast

lemma set_without: "set (without i xs) \<subseteq> set xs"
  by (auto simp: without_def dest: in_set_takeD in_set_dropD)

lemma distinct_map_without:
  assumes "distinct (map f xs)" shows "distinct (map f (without i xs))"
proof (cases "i < length xs")
  case True
  then obtain as x bs where "xs = as @ x # bs" "without i xs = as @ bs" using without_split by blast
  then show ?thesis using assms by auto
next
  case False
  then show ?thesis using assms by (simp add: without_def)
qed

lemma without_other:
  assumes "distinct (map f xs)" and "i < length xs" and "y \<in> set (without i xs)"
  shows "f y \<noteq> f (xs ! i)"
proof -
  obtain as x bs where "xs = as @ x # bs" "x = xs ! i" "without i xs = as @ bs" using without_split [OF assms(2)] by blast
  moreover from this(1) have "f x \<notin> f ` set as \<union> f ` set bs" using assms(1) by auto
  ultimately show ?thesis using assms(3) by (metis Un_iff imageI set_append)
qed

lemma lane_ok_stop: "lane_ok l \<Longrightarrow> lane_ok (l\<lparr>la_workers := without i (la_workers l)\<rparr>)"
  using set_without [of i "la_workers l"] distinct_map_without [of wk_pn "la_workers l" i]
  unfolding lane_ok_def wire_ps_def by auto

lemma lane_ok_settle:
  assumes ok: "lane_ok l"
  shows "lane_ok (settle_step i env l)"
proof (cases "i < length (la_workers l) \<and> wk_result (la_workers l ! i) \<noteq> None")
  case False
  then show ?thesis using ok by (auto simp: settle_step_def Let_def)
next
  case True
  then obtain res where res: "wk_result (la_workers l ! i) = Some res" and i: "i < length (la_workers l)" by blast
  let ?wk = "la_workers l ! i" and ?ws = "without i (la_workers l)"
  obtain db' out' er where s: "settle env (la_db l) (wk_claim ?wk) (wk_out ?wk) res = (db', out', er)" by (metis prod_cases3)
  have step: "settle_step i env l = l\<lparr>la_db := db', la_workers := ?ws\<rparr>" using i res s by (simp add: settle_step_def Let_def)
  have mem: "?wk \<in> set (la_workers l)" using i by simp
  have wk: "worker_ok (idents (la_db l)) (unsent_ps (la_db l)) (wire_ps l) ?wk" and dbok: "db_ok (la_db l)"
    using ok mem by (auto simp: lane_ok_def)
  note stop = lane_ok_stop [OF ok, of i]
  from settle_db [OF s] show ?thesis
  proof
    assume "db' = la_db l"
    then show ?thesis using stop step by simp
  next
    assume "\<exists>oc s rest. settle_verdict env (wk_out ?wk) res = (oc, s, rest)
     \<and> attempt_oneway (la_db l) (cl_PostingID (wk_claim ?wk)) (cl_AttemptNo (wk_claim ?wk)) oc
     \<and> ledger db' = ledger ((la_db l)\<lparr>db_attempts := map (settle_row (cl_PostingID (wk_claim ?wk)) (cl_AttemptNo (wk_claim ?wk)) oc s) (db_attempts (la_db l))\<rparr>)"
    then obtain oc sx rest where v: "settle_verdict env (wk_out ?wk) res = (oc, sx, rest)"
      and ow: "attempt_oneway (la_db l) (cl_PostingID (wk_claim ?wk)) (cl_AttemptNo (wk_claim ?wk)) oc"
      and L: "ledger db' = ledger ((la_db l)\<lparr>db_attempts := map (settle_row (cl_PostingID (wk_claim ?wk)) (cl_AttemptNo (wk_claim ?wk)) oc sx) (db_attempts (la_db l))\<rparr>)"
      (is "_ = ledger ?d") by blast
    note oc = settle_verdict_outcome [OF v]
    have d: "db_ok ?d" by (rule db_ok_settled [OF dbok ow]) (use oc in simp)
    have ids: "idents db' = idents (la_db l)" using conjunct1 [OF idents_ledger [OF L]] by (simp only: idents_settled)
    have mine: "(cl_PostingID (wk_claim ?wk), cl_AttemptNo (wk_claim ?wk), wk_pn ?wk) \<in> idents (la_db l)"
      using wk unfolding worker_ok_def by blast
    have uns: "unsent_ps db' \<subseteq> (if oc = AT_NOT_SENT then insert (wk_pn ?wk) (unsent_ps (la_db l)) else unsent_ps (la_db l))"
      unfolding conjunct2 [OF idents_ledger [OF L]] by (rule unsent_settled [OF dbok mine])
    have nw: "wk_pn ?wk \<notin> wire_ps l" if ns: "oc = AT_NOT_SENT"
    proof -
      obtain e where e: "res = Inl e" "NotTransmitted e" using oc ns by blast
      then have "wk_result ?wk = Some (Inl e)" using res by (simp only:)
      then show ?thesis using wk e(2) unfolding worker_ok_def by blast
    qed
    have w: "wire_ps (l\<lparr>la_db := db', la_workers := ?ws\<rparr>) = wire_ps l" by (simp add: wire_ps_def)
    have "worker_ok (idents (la_db l)) (unsent_ps db') (wire_ps l) wk'" if "wk' \<in> set ?ws" for wk'
    proof -
      have "worker_ok (idents (la_db l)) (unsent_ps (la_db l)) (wire_ps l) wk'" using ok subsetD [OF set_without that] unfolding lane_ok_def by blast
      moreover have ne: "wk_pn wk' \<noteq> wk_pn ?wk"
        by (rule without_other [OF _ i that]) (use ok in \<open>simp add: lane_ok_def\<close>)
      moreover have "wk_pn wk' \<notin> unsent_ps db'" if "wk_pn wk' \<notin> unsent_ps (la_db l)"
        using uns that ne by (cases "oc = AT_NOT_SENT") auto
      ultimately show ?thesis unfolding worker_ok_def by blast
    qed
    moreover have "wire_ps l \<inter> unsent_ps db' = {}"
    proof -
      have "wire_ps l \<inter> unsent_ps (la_db l) = {}" using ok unfolding lane_ok_def by blast
      then show ?thesis using uns nw by (cases "oc = AT_NOT_SENT") auto
    qed
    moreover have "distinct (map wk_pn ?ws)" using stop by (simp add: lane_ok_def)
    moreover have "db_ok db'" using d db_ok_ledger [OF L] by blast
    moreover have "la_db (l\<lparr>la_db := db', la_workers := ?ws\<rparr>) = db'" "la_workers (l\<lparr>la_db := db', la_workers := ?ws\<rparr>) = ?ws"
      "la_wire (l\<lparr>la_db := db', la_workers := ?ws\<rparr>) = la_wire l" by simp_all
    ultimately show ?thesis using ok unfolding step lane_ok_def w by (metis ids)
  qed
qed

lemma handoff_result_unsent: "handoff_result pn reply = Inl e \<Longrightarrow> NotTransmitted e \<Longrightarrow> says_unsent reply"
  by (auto simp: handoff_result_def says_unsent_def NotTransmitted_def split: handoff_reply.splits if_splits sum.splits)

lemma handoff_SendPS_effect:
  assumes "handoff_SendPS H (pmsd_send reply wrote) w iface pn body = (w', res)" and "says_unsent reply \<longrightarrow> \<not> wrote"
  shows "(w' = w \<or> w' = w @ [body]) \<and> (\<forall>e. res = Inl e \<and> NotTransmitted e \<longrightarrow> w' = w)"
proof (cases "request_Validate H (handoff_request_of H iface pn body)")
  case None
  then have r: "w' = (if wrote then w @ [body] else w)" "res = handoff_result pn reply"
    using assms(1) by (auto simp: handoff_SendPS_def Let_def pmsd_send_def handoff_request_of_def)
  then show ?thesis using assms(2) handoff_result_unsent [of pn reply] by auto
next
  case (Some e)
  then show ?thesis using assms(1) by (simp add: handoff_SendPS_def Let_def)
qed

lemma dark_SendPS_cases:
  assumes "dark_SendPS cfg inner g w iface pn body = (g', w', res)"
  shows "(w' = w \<and> res = Inl refusedDark)
    \<or> (\<not> Dark cfg \<and> (\<exists>tr r. inner = Some tr \<and> tr w iface pn body = (w', r)
        \<and> (res = r \<or> (\<exists>e. res = Inl e \<and> \<not> NotTransmitted e))))"
  using assms unfolding dark_SendPS_def
  by (auto simp: NotTransmitted_def split: if_splits option.splits prod.splits sum.splits)

lemma run_send_effect:
  assumes "run_send cfg (productionTransport H (pmsd_send reply wrote) cfg) iface g w pn body = (g', w', res)"
    and "says_unsent reply \<longrightarrow> \<not> wrote"
  shows "(w' = w \<or> w' = w @ [body]) \<and> (\<forall>e. res = Inl e \<and> NotTransmitted e \<longrightarrow> w' = w)"
proof -
  obtain res0 where d: "dark_SendPS cfg (productionTransport H (pmsd_send reply wrote) cfg) g w iface pn body = (g', w', res0)"
    and rr: "res = res0 \<or> (\<exists>e. res = Inl e \<and> \<not> NotTransmitted e)"
    using assms(1) unfolding run_send_def by (auto simp: NotTransmitted_def split: prod.splits sum.splits option.splits if_splits)
  from dark_SendPS_cases [OF d] show ?thesis
  proof
    assume "w' = w \<and> res0 = Inl refusedDark"
    then show ?thesis by simp
  next
    assume "\<not> Dark cfg \<and> (\<exists>tr r. productionTransport H (pmsd_send reply wrote) cfg = Some tr \<and> tr w iface pn body = (w', r)
        \<and> (res0 = r \<or> (\<exists>e. res0 = Inl e \<and> \<not> NotTransmitted e)))"
    then obtain r where "handoff_SendPS H (pmsd_send reply wrote) w iface pn body = (w', r)"
      and "res0 = r \<or> (\<exists>e. res0 = Inl e \<and> \<not> NotTransmitted e)"
      by (auto simp: productionTransport_def split: if_splits)
    with handoff_SendPS_effect [OF _ assms(2)] rr show ?thesis by blast
  qed
qed

lemma lane_okI:
  assumes "db_ok (la_db l)" and "distinct (map wk_pn (la_workers l))" and "distinct (map pnOfBody (la_wire l))"
    and "wire_ps l \<subseteq> (\<lambda>(q, no, p). p) ` idents (la_db l)" and "wire_ps l \<inter> unsent_ps (la_db l) = {}"
    and "\<And>wk. wk \<in> set (la_workers l) \<Longrightarrow> worker_ok (idents (la_db l)) (unsent_ps (la_db l)) (wire_ps l) wk"
  shows "lane_ok l"
  using assms unfolding lane_ok_def by blast

lemma lane_ok_send:
  assumes ok: "lane_ok l" and honest: "says_unsent reply \<longrightarrow> \<not> wrote"
  shows "lane_ok (send_step cfg H iface i reply wrote l)"
proof (cases "i < length (la_workers l) \<and> wk_result (la_workers l ! i) = None")
  case False
  then show ?thesis using ok by (auto simp: send_step_def)
next
  case True
  let ?wk = "la_workers l ! i"
  obtain g w res where s: "run_send cfg (productionTransport H (pmsd_send reply wrote) cfg) iface (la_guard l) (la_wire l) (wk_pn ?wk) (wk_body ?wk) = (g, w, res)"
    by (metis prod_cases3)
  define wk' where "wk' = ?wk\<lparr>wk_result := Some res\<rparr>"
  define l' where "l' = l\<lparr>la_guard := g, la_wire := w, la_workers := (la_workers l)[i := wk']\<rparr>"
  have step: "send_step cfg H iface i reply wrote l = l'"
    using True s by (simp add: send_step_def Let_def wk'_def l'_def)
  have wk: "worker_ok (idents (la_db l)) (unsent_ps (la_db l)) (wire_ps l) ?wk" using ok True by (simp add: lane_ok_def)
  then have fresh: "wk_pn ?wk \<notin> wire_ps l" "wk_pn ?wk \<notin> unsent_ps (la_db l)" "pnOfBody (wk_body ?wk) = wk_pn ?wk"
    and mine: "(cl_PostingID (wk_claim ?wk), cl_AttemptNo (wk_claim ?wk), wk_pn ?wk) \<in> idents (la_db l)"
    using True by (simp_all add: worker_ok_def)
  note eff = run_send_effect [OF s honest]
  have ps: "wire_ps l' = wire_ps l \<or> wire_ps l' = insert (wk_pn ?wk) (wire_ps l)"
    using eff fresh(3) by (auto simp: wire_ps_def l'_def)
  have sel: "la_db l' = la_db l" "la_wire l' = w" "la_workers l' = (la_workers l)[i := wk']" by (simp_all add: l'_def)
  show ?thesis
    unfolding step
  proof (rule lane_okI, unfold sel)
    show "db_ok (la_db l)" using ok by (simp add: lane_ok_def)
    have "map wk_pn ((la_workers l)[i := wk']) = map wk_pn (la_workers l)"
      using True by (simp add: map_update wk'_def) (metis list_update_id length_map nth_map)
    then show "distinct (map wk_pn ((la_workers l)[i := wk']))" using ok by (simp add: lane_ok_def)
    show "distinct (map pnOfBody w)" using ok eff fresh by (auto simp: lane_ok_def wire_ps_def)
    show "wire_ps l' \<subseteq> (\<lambda>(q, no, p). p) ` idents (la_db l)"
    proof -
      have "wk_pn ?wk \<in> (\<lambda>(q, no, p). p) ` idents (la_db l)" using mine by force
      moreover have "wire_ps l \<subseteq> (\<lambda>(q, no, p). p) ` idents (la_db l)" using ok unfolding lane_ok_def by (elim conjE)
      ultimately show ?thesis using ps by (metis insert_subset)
    qed
    have "wire_ps l \<inter> unsent_ps (la_db l) = {}" using ok unfolding lane_ok_def by (elim conjE)
    then show "wire_ps l' \<inter> unsent_ps (la_db l) = {}" using ps fresh(2) by (metis Int_insert_left)
    fix v assume v: "v \<in> set ((la_workers l)[i := wk'])"
    show "worker_ok (idents (la_db l)) (unsent_ps (la_db l)) (wire_ps l') v"
    proof (cases "v = wk'")
      case True
      have "wk_pn ?wk \<notin> wire_ps l'" if "res = Inl e" "NotTransmitted e" for e
        using eff fresh(1) that by (simp add: wire_ps_def l'_def)
      then show ?thesis using True wk by (simp add: wk'_def worker_ok_def)
    next
      case False
      then have "v \<in> set (without i (la_workers l))" using v \<open>i < length (la_workers l) \<and> _\<close>
        by (simp add: without_def upd_conv_take_nth_drop)
      then have "wk_pn v \<noteq> wk_pn ?wk" and "v \<in> set (la_workers l)"
        using without_other [of wk_pn "la_workers l" i v] ok \<open>i < length (la_workers l) \<and> _\<close> subsetD [OF set_without [of i "la_workers l"]]
        by (simp_all add: lane_ok_def)
      then show ?thesis using ok ps unfolding lane_ok_def worker_ok_def by blast
    qed
  qed
qed

lemma BuildPS_carries:
  assumes "BuildPS r = Inr body" and "ps_PNumber r < 10 ^ 18"
  shows "pnOfBody body = ps_PNumber r \<and> 0 < ps_PNumber r"
proof -
  have b: "\<not> field_refused (ps_RN r)" "\<not> field_refused (ps_GNumber r)" "\<not> wireUnsafe (TrimSpace (ps_PostingCode r))" "0 < ps_PNumber r"
    "body = ps_body (ps_RN r) (ps_GNumber r) (ps_AmountMinor r) (TrimSpace (ps_PostingCode r)) (ps_PNumber r)"
    using assms(1) by (simp_all add: BuildPS_Inr)
  have "in64 (ps_PNumber r)" using b(4) assms(2) by (simp add: in64_def)
  then show ?thesis using b by (auto simp: field_ok intro: pnOfBody_ps_body)
qed

lemma lane_ok_claim:
  assumes ok: "lane_ok l"
  shows "lane_ok (claim_step cfg H iface env l)"
proof -
  let ?tr = "productionTransport H (pmsd_send HandoffErrOther True) cfg"
  obtain db g w out ph where r: "run_claim cfg ?tr H env iface (la_db l) (la_guard l) (la_wire l) = (db, g, w, out, ph)"
    by (metis prod_cases5)
  note R = run_claim_phase_ok [OF r]
  have w: "w = la_wire l" using R by blast
  have ph: "phase_ok H env (la_db l) db ph"
    using R by (cases "Dark cfg") (auto simp: phase_ok_def intro: only_p_ledger)
  define l' where "l' = claim_step cfg H iface env l"
  show ?thesis
    unfolding l'_def [symmetric]
  proof (cases ph)
    case (Finished er)
    have op: "only_p (la_db l) db" using ph Finished by (simp add: phase_ok_def)
    have l': "la_db l' = db" "la_wire l' = la_wire l" "la_workers l' = la_workers l" using r Finished w by (simp_all add: l'_def claim_step_def)
    have "idents db = idents (la_db l)" "unsent_ps db = unsent_ps (la_db l)"
      using op by (simp_all add: only_p_def idents_def unsent_ps_def)
    moreover have "db_ok db" using ok op db_ok_only_p by (auto simp: lane_ok_def)
    moreover have "wire_ps l' = wire_ps l" by (simp add: wire_ps_def l')
    ultimately show "lane_ok l'" using ok unfolding lane_ok_def l' by simp
  next
    case (ReadyToSend c pn body)
    have ap: "appended H env (la_db l) c pn body db" using ph ReadyToSend by (simp add: phase_ok_def)
    define wk where "wk = \<lparr>wk_claim = c, wk_pn = pn, wk_body = body, wk_out = out, wk_result = None\<rparr>"
    have l': "la_db l' = db" "la_wire l' = la_wire l" "la_workers l' = la_workers l @ [wk]"
      using r ReadyToSend w by (simp_all add: l'_def claim_step_def wk_def)
    have dbok: "db_ok db" using ok ap db_ok_appended by (auto simp: lane_ok_def)
    have ids: "idents db = insert (cl_PostingID c, cl_AttemptNo c, pn) (idents (la_db l))" and uns: "unsent_ps db = unsent_ps (la_db l)"
      using ap by (auto simp: appended_def idents_def ident_def unsent_ps_def)
    have old: "p < pn" if "(q, no, p) \<in> idents (la_db l)" for q no p
      using ok ap that by (auto simp: lane_ok_def db_ok_def appended_def idents_def ident_def)
    have pn_new: "pn \<notin> wire_ps l" "pn \<notin> unsent_ps (la_db l)" "pn \<notin> wk_pn ` set (la_workers l)"
    proof -
      have "x < pn" if "x \<in> (\<lambda>(q, no, p). p) ` idents (la_db l)" for x using that old by auto
      then show "pn \<notin> wire_ps l" using ok unfolding lane_ok_def by blast
      show "pn \<notin> unsent_ps (la_db l)" using old by (force simp: unsent_ps_def idents_def ident_def)
      have "wk_pn v < pn" if "v \<in> set (la_workers l)" for v
        using ok that old unfolding lane_ok_def worker_ok_def by blast
      then show "pn \<notin> wk_pn ` set (la_workers l)" by blast
    qed
    have "BuildPS (ps_of c pn) = Inr body" "pn < 10 ^ 18" using ap unfolding appended_def by blast+
    moreover have "ps_PNumber (ps_of c pn) = pn" by (simp add: ps_of_def)
    ultimately have body: "pnOfBody body = pn" using BuildPS_carries by metis
    have ws: "wire_ps l' = wire_ps l" by (simp add: wire_ps_def l')
    show "lane_ok l'"
    proof (rule lane_okI, unfold l' ws ids uns)
      show "db_ok db" by (rule dbok)
      show "distinct (map wk_pn (la_workers l @ [wk]))" using ok pn_new(3) by (auto simp: lane_ok_def wk_def)
      show "distinct (map pnOfBody (la_wire l))" using ok by (simp add: lane_ok_def)
      show "wire_ps l \<subseteq> (\<lambda>(q, no, p). p) ` insert (cl_PostingID c, cl_AttemptNo c, pn) (idents (la_db l))"
        using ok unfolding lane_ok_def by blast
      show "wire_ps l \<inter> unsent_ps (la_db l) = {}" using ok unfolding lane_ok_def by blast
      fix v assume "v \<in> set (la_workers l @ [wk])"
      then consider "v \<in> set (la_workers l)" | "v = wk" by auto
      then show "worker_ok (insert (cl_PostingID c, cl_AttemptNo c, pn) (idents (la_db l))) (unsent_ps (la_db l)) (wire_ps l) v"
      proof cases
        case 1
        then have "worker_ok (idents (la_db l)) (unsent_ps (la_db l)) (wire_ps l) v" using ok unfolding lane_ok_def by blast
        then show ?thesis by (rule worker_ok_mono) auto
      next
        case 2
        then show ?thesis using body pn_new by (simp add: worker_ok_def wk_def)
      qed
    qed
  qed
qed

lemma lane_ok_review:
  assumes "lane_ok l"
  shows "lane_ok (l\<lparr>la_db := or_db (la_db l) (record_posting_review_action q action at ev ver amt (la_db l))\<rparr>)"
proof (cases "record_posting_review_action q action at ev ver amt (la_db l)")
  case (Inl e)
  then show ?thesis using assms by (simp add: or_db_def)
next
  case (Inr d)
  obtain r where "d = (la_db l)\<lparr>db_review := (db_review (la_db l))(q := r)\<rparr>" using review_Inr [OF Inr] by blast
  then have "recovered_from (la_db l) d" by (simp add: recovered_from_def idents_def unsent_ps_def)
  moreover have "db_ok d" using db_ok_review [OF _ Inr] assms by (simp add: lane_ok_def)
  ultimately show ?thesis using lane_ok_db [OF assms] Inr by (simp add: or_db_def)
qed

lemma honest_step_ok:
  assumes ok: "lane_ok l" and h: "honest_event e"
  shows "lane_ok (lane_step cfg H iface l e)"
proof (cases e)
  case (EvRecover env d)
  have "db_ok (la_db l)" using ok by (simp add: lane_ok_def)
  then show ?thesis using lane_ok_db [OF ok] RecoverOrphanedAttempts_ok EvRecover by simp
next
  case (EvUnpark env q)
  then show ?thesis using ok lane_ok_ledger [OF ok unpark_ledger] by (simp add: or_db_def split: sum.splits)
qed (use ok h in \<open>simp_all add: lane_ok_send lane_ok_ledger CreatePosting_ledger lane_ok_claim lane_ok_settle
      lane_ok_stop Requeue_ledger lane_ok_review review_apply_ledger\<close>)

definition honest_step :: "posting_config \<Rightarrow> (string \<Rightarrow> string) \<Rightarrow> string \<Rightarrow> lane \<Rightarrow> lane_event \<Rightarrow> lane" where
  "honest_step cfg H iface l e = (if honest_event e then lane_step cfg H iface l e else l)"

interpretation honest_lane: invariant_machine "honest_step cfg H iface" lane_ok for cfg H iface
  by unfold_locales (simp add: honest_step_def honest_step_ok)

lemma run_honest: "list_all honest_event evs \<Longrightarrow> run (lane_step cfg H iface) l evs = run (honest_step cfg H iface) l evs"
  by (induction evs arbitrary: l) (simp_all add: honest_step_def)

definition charges_on_wire :: "lane \<Rightarrow> string \<Rightarrow> string list" where
  "charges_on_wire l q = filter (\<lambda>b. pnOfBody b \<in> at_p ` set (attempts_of (la_db l) q)) (la_wire l)"

lemma charges_bounded:
  assumes "lane_ok l"
  shows "length (charges_on_wire l q) \<le> 1 + consumed (db_review (la_db l) q)"
proof -
  let ?as = "filter (\<lambda>a. at_outcome a \<noteq> AT_NOT_SENT) (attempts_of (la_db l) q)"
  have "distinct (map pnOfBody (la_wire l))" and disj: "wire_ps l \<inter> unsent_ps (la_db l) = {}"
    using assms unfolding lane_ok_def by blast+
  then have "distinct (map pnOfBody (charges_on_wire l q))" by (simp add: charges_on_wire_def distinct_map_filter)
  then have "length (charges_on_wire l q) = card (pnOfBody ` set (charges_on_wire l q))"
    by (metis distinct_card length_map list.set_map)
  also have "\<dots> \<le> card (at_p ` set ?as)"
  proof (rule card_mono)
    show "pnOfBody ` set (charges_on_wire l q) \<subseteq> at_p ` set ?as"
    proof
      fix p assume "p \<in> pnOfBody ` set (charges_on_wire l q)"
      then obtain b where b: "b \<in> set (la_wire l)" "p = pnOfBody b" "p \<in> at_p ` set (attempts_of (la_db l) q)"
        by (auto simp: charges_on_wire_def)
      then obtain a where a: "a \<in> set (attempts_of (la_db l) q)" "p = at_p a" "p \<in> wire_ps l"
        by (metis image_eqI imageE wire_ps_def)
      then have "at_outcome a \<noteq> AT_NOT_SENT" using disj by (auto simp: unsent_ps_def attempts_of_def)
      then show "p \<in> at_p ` set ?as" using a by auto
    qed
  qed simp
  also have "\<dots> \<le> maybe_sent (attempts_of (la_db l) q)"
    unfolding maybe_sent_def by (metis card_length length_map list.set_map)
  also have "\<dots> \<le> 1 + consumed (db_review (la_db l) q)"
    using assms by (simp add: lane_ok_def db_ok_def history_ok_def)
  finally show ?thesis .
qed

text \<open>
  C2: However calls, transactions, crashes, recoveries, re-queues and review decisions interleave, and
  whatever the PMS side answers, a charge reaches the PMS at most once; at most twice when a reviewer
  recorded that the first did not post and authorised a retry, and that authorization is used up by
  then. The one thing relied on is pmsd's contract that it reports a record as not transmitted only
  when nothing was written. No P# is ever written twice.
\<close>

theorem charged_at_most_once:
  assumes "list_all honest_event evs" and "l = run (lane_step cfg H iface) empty_lane evs"
  shows "length (charges_on_wire l q) \<le>
      (if rv_terminal (db_review (la_db l) q) = Some ''CONFIRM_NOT_POSTED_RETRY'' \<and> rv_retry_no (db_review (la_db l) q) = None then 2 else 1)
    \<and> distinct (map pnOfBody (la_wire l))"
proof -
  have ok: "lane_ok l" unfolding assms(2) run_honest [OF assms(1)] by (rule honest_lane.run_inv [OF empty_lane_ok])
  show ?thesis using charges_bounded [OF ok, of q] ok by (simp add: consumed_def lane_ok_def split: if_splits)
qed

definition sample_env :: lane_env where
  "sample_env = \<lparr>le_now = 1000, le_fail = (\<lambda>_. None), le_id = ''p1'', le_purchase = (''pk'', ''sm'', ''WIFI'', ''CONFIRMED''),
     le_snapshot = (\<lambda>_. Inr sample_snapshot), le_park_after = 10, le_confirmed = (\<lambda>_. False), le_effect_err = False\<rparr>"

definition sample_charge :: "lane_event list" where
  "sample_charge = [EvCreate sample_env sample_pinned, EvClaim sample_env,
     EvSend 0 (HandoffResponse ''ANSWERED'' [] ''PA|RN1421|P#1|ASOK|'') True, EvSettle 0 sample_env]"

definition sample_lane :: lane where
  "sample_lane = run (lane_step lit_config (\<lambda>s. s) ''i'') empty_lane sample_charge"

lemma sample_lane_wire:
  "charges_on_wire sample_lane ''p1'' = [''PS|RN1421|G#77120|TA1500|PTD|SOWIFI|CTWIFI|P#1|WSSTAYCONNECT|'']"
  by code_simp

theorem charged_at_most_once_witness:
  "length (charges_on_wire sample_lane ''p1'') = 1
   \<and> length (charges_on_wire sample_lane ''p1'') \<le>
      (if rv_terminal (db_review (la_db sample_lane) ''p1'') = Some ''CONFIRM_NOT_POSTED_RETRY''
          \<and> rv_retry_no (db_review (la_db sample_lane) ''p1'') = None then 2 else 1)"
proof -
  have h: "list_all honest_event sample_charge" by (simp add: sample_charge_def says_unsent_def)
  have "length (charges_on_wire sample_lane ''p1'') = 1" by (simp add: sample_lane_wire)
  with charged_at_most_once [OF h sample_lane_def, of "''p1''"] show ?thesis by blast
qed

section \<open>A dark lane is silent\<close>

definition same_ids :: "posting_db \<Rightarrow> posting_db \<Rightarrow> bool" where
  "same_ids db db' \<longleftrightarrow> db_next_p db' = db_next_p db \<and> map ident (db_attempts db') = map ident (db_attempts db)"

lemma same_ids_refl [simp]: "same_ids db db"
  by (simp add: same_ids_def)

lemma same_ids_trans: "same_ids a b \<Longrightarrow> same_ids b c \<Longrightarrow> same_ids a c"
  by (simp add: same_ids_def)

lemma same_ids_ledger: "ledger db' = ledger db \<Longrightarrow> same_ids db db'"
  by (simp add: same_ids_def ledger_def)

lemma same_ids_settled: "same_ids db (db\<lparr>db_attempts := map (settle_row q no oc s) (db_attempts db)\<rparr>)"
  by (simp add: same_ids_def ident_def)

lemma same_ids_settle: "settle env db c out res = (db', out', er) \<Longrightarrow> same_ids db db'"
  using settle_db [of env db c out res db' out' er] same_ids_trans [OF same_ids_settled same_ids_ledger] by auto

lemma same_ids_recover_one: "recover_one env q no db = Inr db' \<Longrightarrow> same_ids db db'"
proof -
  assume "recover_one env q no db = Inr db'"
  then obtain d1 d2 where d: "d1 = db\<lparr>db_attempts := map (settle_row q no AT_UNKNOWN []) (db_attempts db)\<rparr>"
      "AppendAttemptEvent env q no ''UNKNOWN_NO_CONCLUSIVE_PA'' d1 = Inr d2" "FinishClaim env q OB_HELD_RECOVERY d2 = Inr db'"
    by (auto simp: recover_one_def bind_db_Inr SettleAttempt_Inr)
  have "ledger db' = ledger d1" using FinishClaim_ledger [OF d(3)] AppendAttemptEvent_ledger [OF d(2)] by simp
  then show ?thesis using same_ids_trans [OF same_ids_settled same_ids_ledger] d(1) by blast
qed

lemma same_ids_recover_loop: "same_ids db (fst (recover_loop env os db n))"
proof (induction env os db n rule: recover_loop.induct)
  case (2 env q no os db n)
  then show ?case
    using same_ids_recover_one [of env q no db]
    by (auto split: sum.splits option.splits intro: same_ids_trans)
qed simp

lemma same_ids_review: "same_ids db (or_db db (record_posting_review_action q action at ev ver amt db))"
proof (cases "record_posting_review_action q action at ev ver amt db")
  case (Inr d)
  then show ?thesis using review_Inr [OF Inr] by (auto simp: or_db_def same_ids_def)
qed (simp add: or_db_def)

lemma same_ids_unpark: "same_ids db (or_db db (posting_outbox_requeue_parked env q db))"
  by (cases "posting_outbox_requeue_parked env q db") (auto simp: or_db_def intro: same_ids_ledger unpark_ledger)

definition silent :: "lane \<Rightarrow> lane \<Rightarrow> bool" where
  "silent l l' \<longleftrightarrow> la_wire l' = la_wire l \<and> same_ids (la_db l) (la_db l')"

lemma silent_trans: "silent a b \<Longrightarrow> silent b c \<Longrightarrow> silent a c"
  by (auto simp: silent_def dest: same_ids_trans)

lemma silent_claim:
  assumes "Dark cfg" shows "silent l (claim_step cfg H iface env l)"
proof -
  obtain db g w out ph where r: "run_claim cfg (productionTransport H (pmsd_send HandoffErrOther True) cfg) H env iface
      (la_db l) (la_guard l) (la_wire l) = (db, g, w, out, ph)" by (metis prod_cases5)
  obtain er where "ph = Finished er" "w = la_wire l" "ledger db = ledger (la_db l)"
    using run_claim_phase_ok [OF r] assms by auto
  then show ?thesis using r by (simp add: claim_step_def silent_def same_ids_ledger)
qed

lemma silent_send: "Dark cfg \<Longrightarrow> silent l (send_step cfg H iface i reply wrote l)"
  by (simp add: send_step_def Let_def run_send_def dark_guard_dark silent_def)

lemma silent_db: "same_ids (la_db l) d \<Longrightarrow> silent l (l\<lparr>la_db := d\<rparr>)"
  by (simp add: silent_def)

lemma silent_settle: "silent l (settle_step i env l)"
proof (cases "i < length (la_workers l) \<and> wk_result (la_workers l ! i) \<noteq> None")
  case True
  obtain res db' out' er where "wk_result (la_workers l ! i) = Some res"
      "settle env (la_db l) (wk_claim (la_workers l ! i)) (wk_out (la_workers l ! i)) res = (db', out', er)"
    using True by (metis not_None_eq prod_cases3)
  then show ?thesis
    using True same_ids_settle by (auto simp: settle_step_def Let_def silent_def)
next
  case False
  then show ?thesis by (auto simp: settle_step_def Let_def silent_def)
qed

lemma silent_step:
  assumes "Dark cfg" shows "silent l (lane_step cfg H iface l e)"
proof (cases e)
  case (EvCreate env p)
  then show ?thesis by (simp add: silent_db same_ids_ledger CreatePosting_ledger)
next
  case (EvStop i)
  then show ?thesis by (simp add: silent_def)
next
  case (EvRecover env d)
  then show ?thesis by (simp add: silent_db RecoverOrphanedAttempts_def same_ids_recover_loop)
next
  case (EvRequeue env q)
  then show ?thesis by (simp add: silent_db same_ids_ledger Requeue_ledger)
next
  case (EvApply q)
  then show ?thesis by (simp add: silent_db same_ids_ledger review_apply_ledger)
qed (simp_all add: assms silent_claim silent_send silent_settle silent_db same_ids_review same_ids_unpark)

text \<open>
  C21: While the flags leave the engine dark, no sequence of calls, recoveries, reviews and re-queues
  writes a byte to the PMS, takes a P#, adds an attempt or gives one a new identity, from any state
  and whatever the surroundings do.
\<close>

theorem dark_lane_silent:
  assumes "Dark cfg"
  shows "la_wire (run (lane_step cfg H iface) l evs) = la_wire l
    \<and> db_next_p (la_db (run (lane_step cfg H iface) l evs)) = db_next_p (la_db l)
    \<and> map ident (db_attempts (la_db (run (lane_step cfg H iface) l evs))) = map ident (db_attempts (la_db l))"
proof -
  have "silent l (run (lane_step cfg H iface) l evs)"
  proof (induction evs arbitrary: l)
    case Nil
    show ?case by (simp add: silent_def)
  next
    case (Cons e evs)
    show ?case using silent_trans [OF silent_step [OF assms] Cons.IH] by simp
  qed
  then show ?thesis by (simp add: silent_def same_ids_def)
qed

theorem dark_lane_silent_witness:
  "Dark DefaultConfig \<and> la_wire (run (lane_step DefaultConfig (\<lambda>s. s) ''i'') empty_lane sample_charge) = []"
proof -
  have d: "Dark DefaultConfig" by (simp add: Dark_def TransmitOn_def DefaultConfig_def)
  from dark_lane_silent [OF d, of "\<lambda>s. s" "''i''" empty_lane sample_charge] d
  show ?thesis by (simp add: empty_lane_def)
qed

end
