(* ===== verification/Posting_Lane.thy ===== *)
theory Posting_Lane
  imports Posting_Engine
begin

text \<open>
  Properties of single calls on a posting lane: how the outcome of an attempt follows from pmsd's
  reply, that a charge that keeps being refused stops blocking its lane, and that the recovery of
  abandoned attempts leaves none behind.
\<close>

section \<open>From the reply to the outcome\<close>

lemma run_send_built:
  assumes b: "BuildPS r = Inr body" "in64 (ps_AmountMinor r)" "ps_PNumber r < 10 ^ 18"
    and cfg: "TransmitOn cfg" and iface: "TrimSpace iface \<noteq> []" "length iface \<le> 64"
  shows "snd (snd (run_send cfg (productionTransport H (pmsd_send reply wrote) cfg) iface g w (ps_PNumber r) body))
    = handoff_result (ps_PNumber r) reply"
proof -
  let ?pn = "ps_PNumber r" and ?send = "pmsd_send reply wrote"
  from b(1) have f: "\<not> field_refused (ps_RN r)" "\<not> field_refused (ps_GNumber r)" "0 < ps_AmountMinor r"
      "\<not> wireUnsafe (TrimSpace (ps_PostingCode r))" "length (TrimSpace (ps_PostingCode r)) \<le> maxCTLen" "0 < ?pn"
    and body: "body = ps_body (ps_RN r) (ps_GNumber r) (ps_AmountMinor r) (TrimSpace (ps_PostingCode r)) ?pn"
    by (simp_all add: BuildPS_Inr)
  have "request_Validate H (handoff_request_of H iface ?pn body) = None"
    unfolding body using f b iface by (intro request_Validate_ps_body) (simp_all add: field_ok)
  then have hs: "handoff_SendPS H ?send w iface ?pn body = (if wrote then w @ [body] else w, handoff_result ?pn reply)"
    by (simp add: handoff_SendPS_def Let_def pmsd_send_def handoff_request_of_def)
  have pnb: "pnOfBody body = ?pn" using BuildPS_carries [OF b(1,3)] by simp
  have start: "\<not> length body < 2" "take 2 body = RecordPS" by (simp_all add: body ps_body_def RecordPS_def)
  have own: "pa_PNumber a = ?pn" if "handoff_result ?pn reply = Inr (Some a)" for a
    using that by (auto simp: handoff_result_def split: handoff_reply.splits if_splits sum.splits)
  have fin: "IsFinancialRecord RecordPS"
    by (simp add: IsFinancialRecord_def record_code_def forbiddenOutboundRecords_def RecordPS_def)
  have d: "dark_SendPS cfg (productionTransport H ?send cfg) g w iface ?pn body
      = (g, if wrote then w @ [body] else w, handoff_result ?pn reply)"
    using cfg start pnb hs own fin
    by (auto simp: dark_SendPS_def Dark_def productionTransport_def split: sum.splits option.splits)
  show ?thesis using own unfolding run_send_def d by (auto split: sum.splits option.splits)
qed

text \<open>
  C28: With transmission on, the outcome of a built attempt is exactly determined by what pmsd
  replied. It is acknowledged if and only if pmsd handed back a PA that reads cleanly, carries this
  attempt's P# and has a status whose effect is proven for this interface; it is unsent if and only
  if pmsd said so; in every other case it is unknown and its row is held for review.
\<close>

theorem outcome_follows_reply:
  assumes "BuildPS r = Inr body" and "in64 (ps_AmountMinor r)" and "ps_PNumber r < 10 ^ 18"
    and "TransmitOn cfg" and "TrimSpace iface \<noteq> []" and "length iface \<le> 64"
    and "run_send cfg (productionTransport H (pmsd_send reply wrote) cfg) iface g w (ps_PNumber r) body = (g', w', res)"
    and "settle_verdict env out res = (oc, as, row, rest)"
  shows "(oc = AT_ACKED \<longleftrightarrow>
      (\<exists>code pb a. reply = HandoffResponse ''ANSWERED'' code pb \<and> ParsePA pb = Inr a \<and> pa_PNumber a = ps_PNumber r
         \<and> as = pa_AS a \<and> answerEffect env (pa_AS a) \<noteq> ''UNPROVEN''))
    \<and> (oc = AT_NOT_SENT \<longleftrightarrow> says_unsent reply)
    \<and> (oc = AT_UNKNOWN \<longleftrightarrow> oc \<noteq> AT_ACKED \<and> oc \<noteq> AT_NOT_SENT)
    \<and> (row = OB_HELD_RECOVERY \<longleftrightarrow> oc = AT_UNKNOWN) \<and> (row = OB_DONE \<longleftrightarrow> oc = AT_ACKED)"
proof -
  have res: "res = handoff_result (ps_PNumber r) reply"
    using run_send_built [OF assms(1-6), of H reply wrote g w] assms(7) by simp
  show ?thesis
  proof (cases reply)
    case HandoffErrNotSent
    then show ?thesis using assms(8)
      by (auto simp: res handoff_result_def settle_verdict_def NotTransmitted_def says_unsent_def)
  next
    case HandoffErrOther
    then show ?thesis using assms(8)
      by (auto simp: res handoff_result_def settle_verdict_def NotTransmitted_def says_unsent_def)
  next
    case (HandoffResponse result code pb)
    consider "result = ''NOT_TRANSMITTED''" | "result = ''ANSWERED''" | "result \<noteq> ''NOT_TRANSMITTED''" "result \<noteq> ''ANSWERED''" by blast
    then show ?thesis
    proof cases
      case 1
      then show ?thesis using assms(8) HandoffResponse
        by (auto simp: res handoff_result_def settle_verdict_def NotTransmitted_def says_unsent_def)
    next
      case 2
      then show ?thesis using assms(8) HandoffResponse
        by (cases "ParsePA pb")
           (auto simp: res handoff_result_def settle_verdict_def NotTransmitted_def says_unsent_def split: if_splits)
    next
      case 3
      then show ?thesis using assms(8) HandoffResponse
        by (auto simp: res handoff_result_def settle_verdict_def NotTransmitted_def says_unsent_def)
    qed
  qed
qed

lemma sample_send:
  "run_send lit_config (productionTransport (\<lambda>s. s) (pmsd_send (HandoffResponse ''ANSWERED'' [] ''PA|P#42|ASNG|'') True) lit_config) ''i''
     \<lparr>dg_refusals = 0, dg_lastBody = []\<rparr> [] (ps_PNumber sample_ps) ''PS|RN1421|G#77120|TA1500|PTD|SOWIFI|CTWIFI|P#42|WSSTAYCONNECT|''
   = (\<lparr>dg_refusals = 0, dg_lastBody = []\<rparr>, [''PS|RN1421|G#77120|TA1500|PTD|SOWIFI|CTWIFI|P#42|WSSTAYCONNECT|''],
      Inr (Some \<lparr>pa_PNumber = 42, pa_AS = ''NG'', pa_Raw = ''PA|P#42|ASNG|''\<rparr>))"
  by code_simp

theorem outcome_follows_reply_witness:
  "fst (settle_verdict sample_env no_outcome (Inr (Some \<lparr>pa_PNumber = 42, pa_AS = ''NG'', pa_Raw = ''PA|P#42|ASNG|''\<rparr>))) = AT_UNKNOWN"
proof -
  obtain oc as row rest where v: "settle_verdict sample_env no_outcome (Inr (Some \<lparr>pa_PNumber = 42, pa_AS = ''NG'', pa_Raw = ''PA|P#42|ASNG|''\<rparr>))
      = (oc, as, row, rest)" by (metis prod_cases4)
  have "oc \<noteq> AT_ACKED" "\<not> says_unsent (HandoffResponse ''ANSWERED'' [] ''PA|P#42|ASNG|'')"
    using v by (auto simp: settle_verdict_def answerEffect_def sample_env_def p4_answer_effect_def says_unsent_def)
  then show ?thesis
    using outcome_follows_reply [OF sample_ps_body _ _ lit_config_transmits _ _ sample_send v] v
    by (simp add: sample_ps_def in64_def TrimSpace_def is_space_def)
qed

section \<open>A refused charge stops blocking its lane\<close>

text \<open>
  The head of the lane: the first queued row, with nothing in flight.
\<close>

definition lane_head :: "posting_db \<Rightarrow> outbox_row list \<Rightarrow> outbox_row \<Rightarrow> outbox_row list \<Rightarrow> bool" where
  "lane_head db pre r post \<longleftrightarrow>
     db_outbox db = pre @ r # post \<and> distinct (map ob_posting (pre @ r # post))
     \<and> (\<forall>o' \<in> set pre. ob_state o' \<noteq> OB_QUEUED) \<and> (\<forall>o' \<in> set (pre @ post). ob_state o' \<noteq> OB_IN_FLIGHT)
     \<and> ob_state r = OB_QUEUED \<and> map_of (db_postings db) (ob_posting r) \<noteq> None"

text \<open>A call whose statements all succeed and whose evidence no longer resolves.\<close>

definition refusing :: "lane_env \<Rightarrow> bool" where
  "refusing env \<longleftrightarrow> (\<forall>st. le_fail env st = None) \<and> (\<forall>p. \<exists>e. le_snapshot env p = Inl e)"

lemma middle_only:
  assumes "distinct (map ob_posting (pre @ r # post))" and "x \<in> set pre \<or> x \<in> set post"
  shows "ob_posting x \<noteq> ob_posting r"
proof -
  have "ob_posting r \<notin> ob_posting ` set pre \<union> ob_posting ` set post" using assms(1) by auto
  then show ?thesis using assms(2) by (metis UnCI imageI)
qed

lemma outbox_map_middle:
  assumes "distinct (map ob_posting (pre @ r # post))"
  shows "outbox_map (ob_posting r) f (pre @ r # post) = pre @ f r # post"
  using middle_only [OF assms] by (simp add: outbox_map_def map_idI)

lemma find_middle: "\<forall>x \<in> set pre. \<not> P x \<Longrightarrow> P r \<Longrightarrow> find P (pre @ r # post) = Some r"
  by (induction pre) auto

lemma ClaimNext_head:
  assumes "lane_head db pre r post" and "\<forall>st. le_fail env st = None" and "ob_not_before r \<le> le_now env"
  shows "\<exists>tx c. ClaimNext env db = Inr (Some (tx, c)) \<and> cl_PostingID c = ob_posting r
    \<and> tx = db\<lparr>db_outbox := pre @ r\<lparr>ob_state := OB_IN_FLIGHT\<rparr> # post\<rparr>"
proof -
  have o: "db_outbox db = pre @ r # post" and d: "distinct (map ob_posting (pre @ r # post))" and rs: "ob_state r = OB_QUEUED"
    using assms(1) by (simp_all add: lane_head_def)
  have "find (\<lambda>o'. ob_state o' = OB_QUEUED) (db_outbox db) = Some r"
    unfolding o by (rule find_middle) (use assms(1) in \<open>auto simp: lane_head_def\<close>)
  moreover have "\<not> list_ex (\<lambda>o'. ob_state o' = OB_IN_FLIGHT) (db_outbox db)"
    using assms(1) by (auto simp: lane_head_def list_ex_iff)
  moreover obtain p where "map_of (db_postings db) (ob_posting r) = Some p" using assms(1) by (auto simp: lane_head_def)
  ultimately show ?thesis
    using assms(2,3) outbox_map_middle [OF d] by (simp add: ClaimNext_def stmt_def o)
qed

definition declined_row :: "lane_env \<Rightarrow> string \<Rightarrow> outbox_row \<Rightarrow> outbox_row" where
  "declined_row env reason r =
    (if le_park_after env \<le> ob_decline_count r + 1
     then r\<lparr>ob_state := OB_HELD_RECOVERY, ob_decline_count := ob_decline_count r + 1, ob_parked := Some (take 200 reason)\<rparr>
     else r\<lparr>ob_state := OB_QUEUED, ob_decline_count := ob_decline_count r + 1,
            ob_not_before := le_now env + defer_delay (ob_decline_count r + 1)\<rparr>)"

lemma refused_call:
  assumes h: "lane_head db pre r post" and e: "refusing env" and t: "ob_not_before r \<le> le_now env" and on: "OutboxOn cfg"
  shows "\<exists>reason. fst (run_claim cfg inner H env iface db g w) = db\<lparr>db_outbox := pre @ declined_row env reason r # post\<rparr>"
proof -
  have ok: "\<forall>st. le_fail env st = None" using e by (simp add: refusing_def)
  obtain tx c where c: "ClaimNext env db = Inr (Some (tx, c))" "cl_PostingID c = ob_posting r"
    and tx: "tx = db\<lparr>db_outbox := pre @ r\<lparr>ob_state := OB_IN_FLIGHT\<rparr> # post\<rparr>"
    using ClaimNext_head [OF h ok t] by blast
  obtain er where er: "le_snapshot env (cl_Pinned c) = Inl er" using e by (auto simp: refusing_def)
  let ?r = "r\<lparr>ob_state := OB_IN_FLIGHT\<rparr>"
  have d: "distinct (map ob_posting (pre @ ?r # post))" using h by (simp add: lane_head_def)
  have "find (\<lambda>o'. ob_posting o' = ob_posting r) (pre @ ?r # post) = Some ?r"
    using middle_only [OF d] by (intro find_middle) auto
  then have f: "find_outbox tx (ob_posting r) = Some ?r" by (simp add: find_outbox_def tx)
  have map: "outbox_map (ob_posting r) k (pre @ ?r # post) = pre @ k ?r # post" for k
    using outbox_map_middle [OF d] by simp
  have df: "Defer env (ob_posting r) True (code_text er) tx = Inr (db\<lparr>db_outbox := pre @ declined_row env (code_text er) r # post\<rparr>,
      if le_park_after env \<le> ob_decline_count r + 1 then ''PARKED'' else ''QUEUED'')"
    unfolding Defer_def stmt_def posting_outbox_defer_def f using ok by (simp add: Let_def declined_row_def tx map)
  have "fst (run_claimed cfg inner H env iface db tx c g w) = db\<lparr>db_outbox := pre @ declined_row env (code_text er) r # post\<rparr>"
    using ok er df c(2) by (simp add: run_claimed_def Let_def decline_def split: prod.splits)
  then show ?thesis using ok c(1) on by (auto simp: run_claim_def)
qed

fun refused_calls :: "posting_config \<Rightarrow> (string \<Rightarrow> string) \<Rightarrow> string \<Rightarrow> posting_db \<Rightarrow> lane_env list \<Rightarrow> posting_db" where
  "refused_calls cfg H iface db [] = db"
| "refused_calls cfg H iface db (env # envs) =
     refused_calls cfg H iface (fst (run_claim cfg None H env iface db \<lparr>dg_refusals = 0, dg_lastBody = []\<rparr> ())) envs"

lemma defer_delay_le: "defer_delay n \<le> 300 * second"
  by (simp add: defer_delay_def second_def)

fun spaced :: "int \<Rightarrow> lane_env list \<Rightarrow> bool" where
  "spaced t [] = True"
| "spaced t (env # envs) = (t \<le> le_now env \<and> spaced (le_now env + 300 * second) envs)"

lemma refused_calls_park:
  assumes "lane_head db pre r post" and "OutboxOn cfg" and "list_all refusing envs" and "spaced (ob_not_before r) envs"
    and "list_all (\<lambda>env. le_park_after env = ob_decline_count r + length envs) envs" and "envs \<noteq> []"
  shows "\<exists>reason nb. refused_calls cfg H iface db envs
    = db\<lparr>db_outbox := pre @ r\<lparr>ob_state := OB_HELD_RECOVERY, ob_decline_count := ob_decline_count r + length envs,
        ob_not_before := nb, ob_parked := Some reason\<rparr> # post\<rparr>"
  using assms
proof (induction envs arbitrary: db r)
  case (Cons env envs)
  have e: "refusing env" and t: "ob_not_before r \<le> le_now env" using Cons.prems by simp_all
  obtain reason where call: "fst (run_claim cfg None H env iface db \<lparr>dg_refusals = 0, dg_lastBody = []\<rparr> ())
      = db\<lparr>db_outbox := pre @ declined_row env reason r # post\<rparr>"
    using refused_call [OF Cons.prems(1) e t Cons.prems(2), where inner = None and w = "()"] by blast
  show ?case
  proof (cases "envs = []")
    case True
    then have "declined_row env reason r = r\<lparr>ob_state := OB_HELD_RECOVERY, ob_decline_count := ob_decline_count r + 1,
        ob_not_before := ob_not_before r, ob_parked := Some (take 200 reason)\<rparr>"
      using Cons.prems(5) by (simp add: declined_row_def)
    then have "declined_row env reason r = r\<lparr>ob_state := OB_HELD_RECOVERY, ob_decline_count := ob_decline_count r + length (env # envs),
        ob_not_before := ob_not_before r, ob_parked := Some (take 200 reason)\<rparr>" using True by simp
    then show ?thesis using call True by (metis refused_calls.simps)
  next
    case False
    let ?r = "declined_row env reason r" and ?db = "db\<lparr>db_outbox := pre @ declined_row env reason r # post\<rparr>"
    have r': "?r = r\<lparr>ob_state := OB_QUEUED, ob_decline_count := ob_decline_count r + 1,
            ob_not_before := le_now env + defer_delay (ob_decline_count r + 1)\<rparr>"
      using Cons.prems(5) False by (cases envs) (simp_all add: declined_row_def)
    have h: "lane_head ?db pre ?r post" using Cons.prems(1) by (simp add: lane_head_def r')
    have mono: "spaced t' es" if "spaced t es" "t' \<le> t" for t t' es using that by (cases es) auto
    have sp: "spaced (ob_not_before ?r) envs"
      by (rule mono [of "le_now env + 300 * second"]) (use Cons.prems(4) defer_delay_le in \<open>simp_all add: r'\<close>)
    have pk: "list_all (\<lambda>e'. le_park_after e' = ob_decline_count ?r + length envs) envs"
      using Cons.prems(5) by (simp add: r' list_all_iff)
    obtain rs nb where "refused_calls cfg H iface ?db envs = ?db\<lparr>db_outbox := pre @ ?r\<lparr>ob_state := OB_HELD_RECOVERY,
        ob_decline_count := ob_decline_count ?r + length envs, ob_not_before := nb, ob_parked := Some rs\<rparr> # post\<rparr>"
      using Cons.IH [OF h Cons.prems(2) _ sp pk False] Cons.prems(3) by auto
    then show ?thesis by (auto simp: call r')
  qed
qed simp

text \<open>
  A charge whose evidence keeps being refused blocks its lane for a bounded number of calls. At
  the site's limit of refusals the row is parked for an operator and is no longer the head: the next
  queued charge of the lane, if there is one whose time has come, is the one that is claimed next.
  Nothing else in the lane changed on the way.
\<close>

theorem refused_head_moves_on:
  assumes "lane_head db pre r (mid @ nxt # post)" and "OutboxOn cfg" and "list_all refusing envs"
    and "spaced (ob_not_before r) envs" and "envs \<noteq> []"
    and "list_all (\<lambda>env. le_park_after env = ob_decline_count r + length envs) envs"
    and "\<forall>o' \<in> set mid. ob_state o' \<noteq> OB_QUEUED" and "ob_state nxt = OB_QUEUED" and "ob_not_before nxt \<le> le_now env'"
    and "map_of (db_postings db) (ob_posting nxt) \<noteq> None" and "\<forall>st. le_fail env' st = None"
  shows "\<exists>r' tx c. db_outbox (refused_calls cfg H iface db envs) = pre @ r' # mid @ nxt # post
    \<and> ob_posting r' = ob_posting r \<and> ob_state r' = OB_HELD_RECOVERY \<and> ob_parked r' \<noteq> None
    \<and> ledger (refused_calls cfg H iface db envs) = ledger db
    \<and> ClaimNext env' (refused_calls cfg H iface db envs) = Inr (Some (tx, c)) \<and> cl_PostingID c = ob_posting nxt"
proof -
  obtain reason nb where p: "refused_calls cfg H iface db envs
    = db\<lparr>db_outbox := pre @ r\<lparr>ob_state := OB_HELD_RECOVERY, ob_decline_count := ob_decline_count r + length envs,
        ob_not_before := nb, ob_parked := Some reason\<rparr> # mid @ nxt # post\<rparr>" (is "_ = ?db")
    using refused_calls_park [OF assms(1-4) assms(6,5)] by blast
  let ?r = "r\<lparr>ob_state := OB_HELD_RECOVERY, ob_decline_count := ob_decline_count r + length envs,
        ob_not_before := nb, ob_parked := Some reason\<rparr>"
  have "lane_head ?db (pre @ ?r # mid) nxt post" using assms(1,7,8,10) by (auto simp: lane_head_def)
  then obtain tx c where "ClaimNext env' ?db = Inr (Some (tx, c))" "cl_PostingID c = ob_posting nxt"
    using ClaimNext_head assms(9,11) by blast
  then show ?thesis unfolding p by (intro exI [of _ ?r] exI [of _ tx] exI [of _ c]) (simp add: ledger_def)
qed

definition queued_row :: "string \<Rightarrow> outbox_row" where
  "queued_row q = \<lparr>ob_posting = q, ob_state = OB_QUEUED, ob_not_before = 0, ob_not_sent_count = 0, ob_decline_count = 0, ob_parked = None\<rparr>"

definition blocked_db :: posting_db where
  "blocked_db = (la_db empty_lane)\<lparr>db_postings := [(''p1'', sample_pinned), (''p2'', sample_pinned)],
     db_outbox := [queued_row ''p1'', queued_row ''p2'']\<rparr>"

definition refusing_env :: "int \<Rightarrow> lane_env" where
  "refusing_env t = sample_env\<lparr>le_now := t, le_snapshot := (\<lambda>_. Inl ErrEvidenceOutOfScope), le_park_after := 2\<rparr>"

theorem refused_head_moves_on_witness:
  "\<exists>tx c. ClaimNext (refusing_env 0) (refused_calls lit_config (\<lambda>s. s) ''i'' blocked_db [refusing_env 0, refusing_env (600 * second)])
     = Inr (Some (tx, c)) \<and> cl_PostingID c = ''p2''"
proof -
  have "lane_head blocked_db [] (queued_row ''p1'') ([] @ queued_row ''p2'' # [])"
    by (simp add: lane_head_def blocked_db_def queued_row_def)
  from refused_head_moves_on [OF this, of lit_config "[refusing_env 0, refusing_env (600 * second)]" "refusing_env 0" "\<lambda>s. s" "''i''"]
  show ?thesis
    by (auto simp: refusing_def refusing_env_def sample_env_def OutboxOn_def lit_config_def queued_row_def blocked_db_def second_def)
qed

end
