(* ===== verification/Financial_Relay.thy ===== *)
theory Financial_Relay
  imports Posting_Wire "HOL-Library.AList"
begin

text \<open>
  The financial relay of pmsd (\<open>data-plane/internal/pmsd/financial_relay.go\<close>) and the part of the
  serialized writer it uses (\<open>writer.go\<close>, \<open>SubmitFinancial\<close> and the financial branch of \<open>run\<close>;
  \<open>adapter_fias.go\<close>, \<open>writeFinancialFrame\<close>): how one posting command is checked, authorised, handed to
  the link's writer at most once per P#, and answered.

  \<open>Handle\<close> runs concurrently, one goroutine per connection, next to the read loop and the writer of
  each link. Every stretch between two points where the code takes a lock, loads an atomic or waits
  on a channel is one event, and events interleave freely. The authorisation verdict, the outcome of a
  socket write and the choice between ready channels come with the event. Ports live in a store and
  are named by their index, as the code holds pointers to them; a call is named by its index too.
\<close>

section \<open>Deployment\<close>

definition relay_flag :: "(string \<Rightarrow> string) \<Rightarrow> string \<Rightarrow> bool" where
  "relay_flag getenv k = (ParseBool (TrimSpace (getenv k)) = Some True)"

definition RelayTransmitDeployed :: "(string \<Rightarrow> string) \<Rightarrow> bool" where
  "RelayTransmitDeployed getenv = list_all (relay_flag getenv) [EnvPhase4Master, EnvPhase4Outbox, EnvPhase4Transmit]"

section \<open>State\<close>

text \<open>\<open>postinghandoff.Response\<close> and its three results.\<close>

record handoff_response =
  hp_Result :: string
  hp_Code :: string
  hp_PABody :: string

definition Answered :: string where "Answered = ''ANSWERED''"
definition NotTransmittedResult :: string where "NotTransmittedResult = ''NOT_TRANSMITTED''"
definition UnknownResult :: string where "UnknownResult = ''UNKNOWN''"

lemmas result_defs = Answered_def NotTransmittedResult_def UnknownResult_def

record link_reservation =
  lr_room :: string
  lr_departed :: bool

text \<open>
  A port with the financial commands waiting in its writer's channel (\<open>rp_queue\<close>) and whether that
  writer has stopped (\<open>w.done\<close>).
\<close>

record relay_port =
  rp_iface :: string
  rp_steady :: bool
  rp_lost :: bool
  rp_pending :: "(int \<times> nat) option"
  rp_queue :: "nat list"
  rp_done :: bool

datatype write_ack = AckOk | AckErr | AckRefused string

text \<open>Where a call of \<open>Handle\<close> is; the number is its port.\<close>

datatype call_phase =
    PhAuthorise
  | PhPort
  | PhSteady nat
  | PhPending nat
  | PhMark nat
  | PhSubmit nat
  | PhAck nat
  | PhAwait nat
  | PhDone handoff_response

text \<open>
  A call with its request, its verdict, the acknowledgement of its write and the PA delivered to it.
  \<open>ca_marked\<close> and \<open>fr_wire\<close> are not in the code: whether the P# is in the carried set on this call's
  account, and the calls whose record the writer put on the socket, wholly or in part, in order.
\<close>

record relay_call =
  ca_req :: handoff_request
  ca_phase :: call_phase
  ca_verdict :: "string option"
  ca_ack :: "write_ack option"
  ca_answer :: "string option"
  ca_marked :: bool

record financial_relay =
  fr_enabled :: bool
  fr_authoriser :: bool
  fr_ports :: "string \<Rightarrow> nat option"
  fr_store :: "relay_port list"
  fr_carried :: "string \<Rightarrow> int set"
  fr_carriedOrder :: "string \<Rightarrow> int list"
  fr_seen :: "string \<Rightarrow> (string \<times> link_reservation) list option"
  fr_calls :: "relay_call list"
  fr_wire :: "nat list"

definition maxSeenPerLink :: nat where "maxSeenPerLink = 50000"
definition maxCarriedPerLink :: nat where "maxCarriedPerLink = 4096"
definition writerChannel :: nat where "writerChannel = 8"
definition MaxWait :: duration where "MaxWait = 60 * second"

definition NewFinancialRelay :: "bool \<Rightarrow> bool \<Rightarrow> financial_relay" where
  "NewFinancialRelay enabled authorise =
     \<lparr>fr_enabled = enabled, fr_authoriser = authorise, fr_ports = (\<lambda>_. None), fr_store = [],
      fr_carried = (\<lambda>_. {}), fr_carriedOrder = (\<lambda>_. []), fr_seen = (\<lambda>_. None), fr_calls = [], fr_wire = []\<rparr>"

definition upd_call :: "nat \<Rightarrow> (relay_call \<Rightarrow> relay_call) \<Rightarrow> financial_relay \<Rightarrow> financial_relay" where
  "upd_call h f r = r\<lparr>fr_calls := (fr_calls r)[h := f (fr_calls r ! h)]\<rparr>"

definition upd_port :: "nat \<Rightarrow> (relay_port \<Rightarrow> relay_port) \<Rightarrow> financial_relay \<Rightarrow> financial_relay" where
  "upd_port p f r = r\<lparr>fr_store := (fr_store r)[p := f (fr_store r ! p)]\<rparr>"

definition go_phase :: "nat \<Rightarrow> call_phase \<Rightarrow> financial_relay \<Rightarrow> financial_relay" where
  "go_phase h ph = upd_call h (\<lambda>c. c\<lparr>ca_phase := ph\<rparr>)"

section \<open>The link's view of reservations\<close>

text \<open>
  \<open>namenorm\<close>: NFC is \<open>golang.org/x/text/unicode/norm\<close> and a parameter, as is Unicode upper-casing.
\<close>

definition namenorm_canon :: "(string \<Rightarrow> string) \<Rightarrow> (string \<Rightarrow> string) \<Rightarrow> string \<Rightarrow> string" where
  "namenorm_canon NFC Upper s = NFC (Upper (TrimSpace (NFC s)))"

definition attach :: "string \<Rightarrow> financial_relay \<Rightarrow> financial_relay" where
  "attach iface r = r\<lparr>
     fr_store := fr_store r @ [\<lparr>rp_iface = iface, rp_steady = False, rp_lost = False, rp_pending = None,
                               rp_queue = [], rp_done = False\<rparr>],
     fr_ports := (fr_ports r)(iface := Some (length (fr_store r))),
     fr_seen := (fr_seen r)(iface := Some [])\<rparr>"

definition detach :: "nat \<Rightarrow> financial_relay \<Rightarrow> financial_relay" where
  "detach p r =
    (if length (fr_store r) \<le> p then r
     else let iface = rp_iface (fr_store r ! p);
              r1 = (if fr_ports r iface = Some p
                    then r\<lparr>fr_ports := (fr_ports r)(iface := None), fr_seen := (fr_seen r)(iface := None)\<rparr> else r)
          in upd_port p (\<lambda>q. q\<lparr>rp_steady := False, rp_lost := True\<rparr>) r1)"

definition setSteady :: "nat \<Rightarrow> bool \<Rightarrow> financial_relay \<Rightarrow> financial_relay" where
  "setSteady p v r = (if length (fr_store r) \<le> p then r else upd_port p (\<lambda>q. q\<lparr>rp_steady := v\<rparr>) r)"

definition ObserveGuestRecord ::
  "(string \<Rightarrow> string) \<Rightarrow> string \<Rightarrow> string \<Rightarrow> string \<Rightarrow> string \<Rightarrow> financial_relay \<Rightarrow> financial_relay" where
  "ObserveGuestRecord Room iface recordType reservation room r =
    (if reservation = [] then r
     else case fr_seen r iface of
       None \<Rightarrow> r
     | Some m0 \<Rightarrow>
         let m = (if maxSeenPerLink \<le> length m0 then [] else m0);
             m' = (if recordType = ''GO'' then AList.update reservation \<lparr>lr_room = [], lr_departed = True\<rparr> m
                   else if Room room \<noteq> [] then AList.update reservation \<lparr>lr_room = Room room, lr_departed = False\<rparr> m
                   else m)
         in r\<lparr>fr_seen := (fr_seen r)(iface := Some m')\<rparr>)"

definition psField :: "string \<Rightarrow> string \<Rightarrow> string" where
  "psField body code =
    (case find (\<lambda>f. length code < length f \<and> HasPrefix f code) (Split (CHR ''|'') body) of
       Some f \<Rightarrow> drop (length code) f | None \<Rightarrow> [])"

definition seen_lookup :: "financial_relay \<Rightarrow> string \<Rightarrow> string \<Rightarrow> link_reservation option" where
  "seen_lookup r iface g = (case fr_seen r iface of None \<Rightarrow> None | Some m \<Rightarrow> map_of m g)"

definition linkGuard :: "(string \<Rightarrow> string) \<Rightarrow> string \<Rightarrow> string \<Rightarrow> relay_port \<Rightarrow> financial_relay \<Rightarrow> string" where
  "linkGuard Room iface body port r =
    (let rn = psField body ''RN''; g = psField body ''G#'' in
     if \<not> rp_steady port then ''LINK_RESYNCING''
     else if g = [] \<or> rn = [] then ''COMMAND_MALFORMED''
     else case seen_lookup r iface g of
       None \<Rightarrow> []
     | Some lr \<Rightarrow>
         if lr_departed lr then ''RESERVATION_DEPARTED_ON_LINK''
         else if lr_room lr \<noteq> [] \<and> lr_room lr \<noteq> Room rn then ''ROOM_CHANGED_ON_LINK''
         else [])"

section \<open>The P#s handed to a writer\<close>

text \<open>The eviction loop of \<open>markCarried\<close>: oldest first while the set is full.\<close>

fun evict_carried :: "int set \<Rightarrow> int list \<Rightarrow> int set \<times> int list" where
  "evict_carried s [] = (s, [])"
| "evict_carried s (x # xs) = (if maxCarriedPerLink \<le> card s then evict_carried (s - {x}) xs else (s, x # xs))"

definition markCarried :: "string \<Rightarrow> int \<Rightarrow> financial_relay \<Rightarrow> bool \<times> financial_relay" where
  "markCarried iface pn r =
    (if pn \<in> fr_carried r iface then (True, r)
     else let (s, order) = evict_carried (fr_carried r iface) (fr_carriedOrder r iface) in
       (False, r\<lparr>fr_carried := (fr_carried r)(iface := insert pn s),
                 fr_carriedOrder := (fr_carriedOrder r)(iface := order @ [pn])\<rparr>))"

definition wasCarried :: "string \<Rightarrow> int \<Rightarrow> financial_relay \<Rightarrow> bool" where
  "wasCarried iface pn r \<longleftrightarrow> pn \<in> fr_carried r iface"

definition forget_carried :: "string \<Rightarrow> int \<Rightarrow> financial_relay \<Rightarrow> financial_relay" where
  "forget_carried iface pn r = r\<lparr>fr_carried := (fr_carried r)(iface := fr_carried r iface - {pn})\<rparr>"

section \<open>One command\<close>

definition notSent :: "string \<Rightarrow> handoff_response" where
  "notSent code = \<lparr>hp_Result = NotTransmittedResult, hp_Code = code, hp_PABody = []\<rparr>"

definition unknown_response :: "string \<Rightarrow> handoff_response" where
  "unknown_response code = \<lparr>hp_Result = UnknownResult, hp_Code = code, hp_PABody = []\<rparr>"

definition boundedRelayCode :: "string \<Rightarrow> string" where
  "boundedRelayCode c =
    (if length c = 0 \<or> 48 < length c then ''COMMAND_NOT_AUTHORISED''
     else if \<not> list_all (\<lambda>ch. ch = CHR ''_'' \<or> is_upper ch \<or> is_digit ch) c then ''COMMAND_NOT_AUTHORISED''
     else c)"

definition relay_wait :: "handoff_request \<Rightarrow> duration" where
  "relay_wait req =
    (let wait = wrap64 (hr_WaitMillis req * millisecond) in if wait \<le> 0 \<or> MaxWait < wait then MaxWait else wait)"

text \<open>
  The head of \<open>serveConn\<close> and \<open>Handle\<close> up to the authorisation query; \<open>readable\<close> is whether the line was
  read and decoded. The call is recorded with where it stands.
\<close>

definition handle_start :: "(string \<Rightarrow> string) \<Rightarrow> bool \<Rightarrow> handoff_request \<Rightarrow> financial_relay \<Rightarrow> call_phase" where
  "handle_start BodyHash readable req r =
    (if \<not> readable then PhDone (notSent ''COMMAND_UNREADABLE'')
     else if \<not> fr_enabled r then PhDone (notSent ''PMS_TRANSMIT_NOT_DEPLOYED_ON_PMSD'')
     else if request_Validate BodyHash req \<noteq> None then PhDone (notSent ''COMMAND_MALFORMED'')
     else if wasCarried (hr_InterfaceID req) (hr_PNumber req) r then PhDone (unknown_response ''DUPLICATE_COMMAND'')
     else if \<not> fr_authoriser r then PhDone (notSent ''AUTHORISATION_UNAVAILABLE'')
     else PhAuthorise)"

definition handle_enter :: "(string \<Rightarrow> string) \<Rightarrow> bool \<Rightarrow> handoff_request \<Rightarrow> financial_relay \<Rightarrow> financial_relay" where
  "handle_enter BodyHash readable req r =
    r\<lparr>fr_calls := fr_calls r @ [\<lparr>ca_req = req, ca_phase = handle_start BodyHash readable req r, ca_verdict = None,
                                 ca_ack = None, ca_answer = None, ca_marked = False\<rparr>]\<rparr>"

text \<open>The verdict of the database; \<open>None\<close> is an error of the query.\<close>

definition handle_verdict :: "nat \<Rightarrow> string option \<Rightarrow> financial_relay \<Rightarrow> financial_relay" where
  "handle_verdict h v r =
    (case v of
       None \<Rightarrow> go_phase h (PhDone (notSent ''AUTHORISATION_UNAVAILABLE'')) r
     | Some verdict \<Rightarrow>
         upd_call h (\<lambda>c. c\<lparr>ca_verdict := Some verdict,
           ca_phase := (if verdict \<noteq> ''AUTHORISED'' then PhDone (notSent (boundedRelayCode verdict)) else PhPort)\<rparr>) r)"

definition handle_port :: "nat \<Rightarrow> financial_relay \<Rightarrow> financial_relay" where
  "handle_port h r =
    (case fr_ports r (hr_InterfaceID (ca_req (fr_calls r ! h))) of
       None \<Rightarrow> go_phase h (PhDone (notSent ''LINK_NOT_CONNECTED'')) r
     | Some p \<Rightarrow> go_phase h (PhSteady p) r)"

definition handle_steady :: "nat \<Rightarrow> nat \<Rightarrow> financial_relay \<Rightarrow> financial_relay" where
  "handle_steady h p r =
    go_phase h (if \<not> rp_steady (fr_store r ! p) then PhDone (notSent ''LINK_RESYNCING'') else PhPending p) r"

definition handle_pending :: "nat \<Rightarrow> nat \<Rightarrow> financial_relay \<Rightarrow> financial_relay" where
  "handle_pending h p r =
    (if rp_pending (fr_store r ! p) \<noteq> None then go_phase h (PhDone (notSent ''LINK_BUSY'')) r
     else go_phase h (PhMark p)
            (upd_port p (\<lambda>q. q\<lparr>rp_pending := Some (hr_PNumber (ca_req (fr_calls r ! h)), h)\<rparr>) r))"

text \<open>
  \<open>release\<close>: the waiting slot is freed if it is this call's own. It is taken together with the return
  it precedes.
\<close>

definition release :: "nat \<Rightarrow> nat \<Rightarrow> financial_relay \<Rightarrow> financial_relay" where
  "release h p =
    upd_port p (\<lambda>q. q\<lparr>rp_pending := (case rp_pending q of Some (pn, h') \<Rightarrow> if h' = h then None else Some (pn, h') | None \<Rightarrow> None)\<rparr>)"

definition handle_mark :: "nat \<Rightarrow> nat \<Rightarrow> financial_relay \<Rightarrow> financial_relay" where
  "handle_mark h p r =
    (let req = ca_req (fr_calls r ! h) in
     case markCarried (hr_InterfaceID req) (hr_PNumber req) r of
       (True, r1) \<Rightarrow> go_phase h (PhDone (unknown_response ''DUPLICATE_COMMAND'')) (release h p r1)
     | (False, r1) \<Rightarrow> upd_call h (\<lambda>c. c\<lparr>ca_phase := PhSubmit p, ca_marked := True\<rparr>) r1)"

definition give_up_unsent :: "nat \<Rightarrow> nat \<Rightarrow> string \<Rightarrow> financial_relay \<Rightarrow> financial_relay" where
  "give_up_unsent h p code r =
    (let req = ca_req (fr_calls r ! h) in
     upd_call h (\<lambda>c. c\<lparr>ca_phase := PhDone (notSent code), ca_marked := False\<rparr>)
       (forget_carried (hr_InterfaceID req) (hr_PNumber req) (release h p r)))"

definition give_up_unknown :: "nat \<Rightarrow> nat \<Rightarrow> string \<Rightarrow> financial_relay \<Rightarrow> financial_relay" where
  "give_up_unknown h p code r = go_phase h (PhDone (unknown_response code)) (release h p r)"

text \<open>
  \<open>SubmitFinancial\<close>, first select: the command enters the channel, or the context or the writer has
  ended. A full channel blocks.
\<close>

definition handle_submit :: "nat \<Rightarrow> nat \<Rightarrow> bool \<Rightarrow> financial_relay \<Rightarrow> financial_relay" where
  "handle_submit h p enqueued r =
    (if enqueued then
       (if writerChannel \<le> length (rp_queue (fr_store r ! p)) then r
        else go_phase h (PhAck p) (upd_port p (\<lambda>q. q\<lparr>rp_queue := rp_queue q @ [h]\<rparr>) r))
     else give_up_unsent h p ''LINK_WRITER_UNAVAILABLE'' r)"

section \<open>The writer\<close>

definition RecordID :: "string \<Rightarrow> string" where
  "RecordID body = (if length body < 2 then [] else take 2 body)"

definition ack_call :: "nat \<Rightarrow> write_ack \<Rightarrow> financial_relay \<Rightarrow> financial_relay" where
  "ack_call h a = upd_call h (\<lambda>c. c\<lparr>ca_ack := Some a\<rparr>)"

text \<open>
  The financial branch of \<open>run\<close> with \<open>writeFinancialFrame\<close>: the guard, then the write. \<open>ok\<close> is whether the
  write returned without error; a failed one may have \<open>reached\<close> the PMS, and ends the writer.
\<close>

definition writer_take :: "(string \<Rightarrow> string) \<Rightarrow> nat \<Rightarrow> bool \<Rightarrow> bool \<Rightarrow> financial_relay \<Rightarrow> financial_relay" where
  "writer_take Room p ok reached r =
    (if length (fr_store r) \<le> p \<or> rp_done (fr_store r ! p) then r
     else case rp_queue (fr_store r ! p) of
       [] \<Rightarrow> r
     | h # hs \<Rightarrow>
         (let req = ca_req (fr_calls r ! h);
              code = linkGuard Room (hr_InterfaceID req) (hr_Body req) (fr_store r ! p) r;
              r1 = upd_port p (\<lambda>q. q\<lparr>rp_queue := hs\<rparr>) r;
              stopped = upd_port p (\<lambda>q. q\<lparr>rp_done := True\<rparr>)
          in if code \<noteq> [] then ack_call h (AckRefused code) r1
             else if RecordID (hr_Body req) \<noteq> ''PS'' \<or> \<not> IsFinancialRecord ''PS'' then stopped (ack_call h AckErr r1)
             else if ok then ack_call h AckOk (r1\<lparr>fr_wire := fr_wire r @ [h]\<rparr>)
             else stopped (ack_call h AckErr (if reached then r1\<lparr>fr_wire := fr_wire r @ [h]\<rparr> else r1))))"

definition writer_stop :: "nat \<Rightarrow> financial_relay \<Rightarrow> financial_relay" where
  "writer_stop p r = (if length (fr_store r) \<le> p then r else upd_port p (\<lambda>q. q\<lparr>rp_done := True\<rparr>) r)"

text \<open>
  \<open>SubmitFinancial\<close>, second select, and what \<open>Handle\<close> makes of its result.
\<close>

datatype ack_source = FromAck | FromCtx | FromDone

definition handle_ack :: "nat \<Rightarrow> nat \<Rightarrow> ack_source \<Rightarrow> financial_relay \<Rightarrow> financial_relay" where
  "handle_ack h p src r =
    (case src of
       FromAck \<Rightarrow>
         (case ca_ack (fr_calls r ! h) of
            None \<Rightarrow> r
          | Some AckOk \<Rightarrow> go_phase h (PhAwait p) r
          | Some AckErr \<Rightarrow> give_up_unknown h p ''WRITE_INCOMPLETE'' r
          | Some (AckRefused code) \<Rightarrow> give_up_unsent h p (boundedRelayCode code) r)
     | FromCtx \<Rightarrow> give_up_unknown h p ''WRITE_INCOMPLETE'' r
     | FromDone \<Rightarrow> if rp_done (fr_store r ! p) then give_up_unknown h p ''WRITE_INCOMPLETE'' r else r)"

datatype await_source = AwAnswer | AwTimer | AwLost | AwCtx

definition handle_await :: "nat \<Rightarrow> nat \<Rightarrow> await_source \<Rightarrow> financial_relay \<Rightarrow> financial_relay" where
  "handle_await h p src r =
    (case src of
       AwAnswer \<Rightarrow>
         (case ca_answer (fr_calls r ! h) of
            None \<Rightarrow> r
          | Some pa \<Rightarrow> go_phase h (PhDone \<lparr>hp_Result = Answered, hp_Code = [], hp_PABody = pa\<rparr>) r)
     | AwTimer \<Rightarrow> give_up_unknown h p ''ANSWER_TIMEOUT'' r
     | AwLost \<Rightarrow> if rp_lost (fr_store r ! p) then give_up_unknown h p ''LINK_LOST_AFTER_WRITE'' r else r
     | AwCtx \<Rightarrow> give_up_unknown h p ''RELAY_STOPPED_AFTER_WRITE'' r)"

definition onPA :: "nat \<Rightarrow> string \<Rightarrow> financial_relay \<Rightarrow> financial_relay" where
  "onPA p body r =
    (if length (fr_store r) \<le> p then r
     else let pn = PNumberOf body in
       case rp_pending (fr_store r ! p) of
         None \<Rightarrow> r
       | Some (wpn, h) \<Rightarrow>
           if pn \<le> 0 \<or> wpn \<noteq> pn then r
           else upd_call h (\<lambda>c. c\<lparr>ca_answer := Some body\<rparr>) (upd_port p (\<lambda>q. q\<lparr>rp_pending := None\<rparr>) r))"

section \<open>The events\<close>

datatype relay_event =
    RvEnter handoff_request bool
  | RvVerdict nat "string option"
  | RvPort nat
  | RvSteady nat
  | RvPending nat
  | RvMark nat
  | RvSubmit nat bool
  | RvAck nat ack_source
  | RvAwait nat await_source
  | RvWriter nat bool bool
  | RvWriterStop nat
  | RvPA nat string
  | RvSetSteady nat bool
  | RvAttach string
  | RvDetach nat
  | RvObserve string string string string

definition phase_of :: "financial_relay \<Rightarrow> nat \<Rightarrow> call_phase option" where
  "phase_of r h = (if h < length (fr_calls r) then Some (ca_phase (fr_calls r ! h)) else None)"

fun relay_step :: "(string \<Rightarrow> string) \<Rightarrow> (string \<Rightarrow> string) \<Rightarrow> financial_relay \<Rightarrow> relay_event \<Rightarrow> financial_relay" where
  "relay_step H Room r (RvEnter req readable) = handle_enter H readable req r"
| "relay_step H Room r (RvVerdict h v) = (if phase_of r h = Some PhAuthorise then handle_verdict h v r else r)"
| "relay_step H Room r (RvPort h) = (if phase_of r h = Some PhPort then handle_port h r else r)"
| "relay_step H Room r (RvSteady h) = (case phase_of r h of Some (PhSteady p) \<Rightarrow> handle_steady h p r | _ \<Rightarrow> r)"
| "relay_step H Room r (RvPending h) = (case phase_of r h of Some (PhPending p) \<Rightarrow> handle_pending h p r | _ \<Rightarrow> r)"
| "relay_step H Room r (RvMark h) = (case phase_of r h of Some (PhMark p) \<Rightarrow> handle_mark h p r | _ \<Rightarrow> r)"
| "relay_step H Room r (RvSubmit h enq) = (case phase_of r h of Some (PhSubmit p) \<Rightarrow> handle_submit h p enq r | _ \<Rightarrow> r)"
| "relay_step H Room r (RvAck h src) = (case phase_of r h of Some (PhAck p) \<Rightarrow> handle_ack h p src r | _ \<Rightarrow> r)"
| "relay_step H Room r (RvAwait h src) = (case phase_of r h of Some (PhAwait p) \<Rightarrow> handle_await h p src r | _ \<Rightarrow> r)"
| "relay_step H Room r (RvWriter p ok reached) = writer_take Room p ok reached r"
| "relay_step H Room r (RvWriterStop p) = writer_stop p r"
| "relay_step H Room r (RvPA p body) = onPA p body r"
| "relay_step H Room r (RvSetSteady p v) = setSteady p v r"
| "relay_step H Room r (RvAttach iface) = attach iface r"
| "relay_step H Room r (RvDetach p) = detach p r"
| "relay_step H Room r (RvObserve iface rt res room) = ObserveGuestRecord Room iface rt res room r"

section \<open>What holds of every call\<close>

definition queued :: "financial_relay \<Rightarrow> nat list" where
  "queued r = concat (map rp_queue (fr_store r))"

definition pendings :: "financial_relay \<Rightarrow> (int \<times> nat) set" where
  "pendings r = {x. \<exists>q \<in> set (fr_store r). rp_pending q = Some x}"

fun started :: "call_phase \<Rightarrow> bool" where
  "started (PhAck p) = True"
| "started (PhAwait p) = True"
| "started (PhDone resp) = True"
| "started _ = False"

fun finished :: "call_phase \<Rightarrow> bool" where
  "finished (PhDone resp) = True"
| "finished _ = False"

text \<open>
  A call whose record is in a writer's channel (\<open>q\<close>) or was written (\<open>w\<close>): it has been checked and
  authorised, it has no acknowledgement yet in the first case and not a refusal in the second, and
  it has not been answered as not transmitted.
\<close>

definition call_ok :: "(string \<Rightarrow> string) \<Rightarrow> bool \<Rightarrow> relay_call \<Rightarrow> bool \<Rightarrow> bool \<Rightarrow> bool" where
  "call_ok H en c q w \<longleftrightarrow>
     (q \<longrightarrow> ca_ack c = None)
     \<and> (q \<or> w \<or> ca_ack c \<noteq> None \<longrightarrow> started (ca_phase c))
     \<and> (w \<longrightarrow> ca_ack c = Some AckOk \<or> ca_ack c = Some AckErr) \<and> (ca_ack c = Some AckOk \<longrightarrow> w)
     \<and> (\<forall>p. ca_phase c = PhAwait p \<longrightarrow> ca_ack c = Some AckOk)
     \<and> (\<forall>pa. ca_answer c = Some pa \<longrightarrow> PNumberOf pa = hr_PNumber (ca_req c))
     \<and> (\<forall>resp. ca_phase c = PhDone resp \<longrightarrow>
          (hp_Result resp = NotTransmittedResult \<longrightarrow> \<not> q \<and> \<not> w)
          \<and> (hp_Result resp = Answered \<longrightarrow> ca_ack c = Some AckOk \<and> PNumberOf (hp_PABody resp) = hr_PNumber (ca_req c)))
     \<and> (\<not> finished (ca_phase c) \<or> q \<or> w \<longrightarrow> en \<and> request_Validate H (ca_req c) = None)
     \<and> (q \<or> w \<or> \<not> finished (ca_phase c) \<and> ca_phase c \<noteq> PhAuthorise \<longrightarrow> ca_verdict c = Some ''AUTHORISED'')"

definition relay_ok :: "(string \<Rightarrow> string) \<Rightarrow> financial_relay \<Rightarrow> bool" where
  "relay_ok H r \<longleftrightarrow>
     distinct (queued r @ fr_wire r) \<and> set (queued r @ fr_wire r) \<subseteq> {..<length (fr_calls r)}
     \<and> (\<forall>h < length (fr_calls r). call_ok H (fr_enabled r) (fr_calls r ! h) (h \<in> set (queued r)) (h \<in> set (fr_wire r)))
     \<and> (\<forall>(pn, h) \<in> pendings r. h < length (fr_calls r) \<and> pn = hr_PNumber (ca_req (fr_calls r ! h)))"

lemma upd_call_fields [simp]:
  "fr_store (upd_call h f r) = fr_store r" "fr_wire (upd_call h f r) = fr_wire r" "fr_enabled (upd_call h f r) = fr_enabled r"
  "fr_carried (upd_call h f r) = fr_carried r" "fr_carriedOrder (upd_call h f r) = fr_carriedOrder r"
  "fr_calls (upd_call h f r) = (fr_calls r)[h := f (fr_calls r ! h)]"
  by (simp_all add: upd_call_def)

lemma upd_port_fields [simp]:
  "fr_calls (upd_port p f r) = fr_calls r" "fr_wire (upd_port p f r) = fr_wire r" "fr_enabled (upd_port p f r) = fr_enabled r"
  "fr_carried (upd_port p f r) = fr_carried r" "fr_carriedOrder (upd_port p f r) = fr_carriedOrder r"
  "fr_store (upd_port p f r) = (fr_store r)[p := f (fr_store r ! p)]"
  by (simp_all add: upd_port_def)

lemma queued_cong: "fr_store r' = fr_store r \<Longrightarrow> queued r' = queued r"
  by (simp add: queued_def)

lemma queued_upd_call [simp]: "queued (upd_call h f r) = queued r" "queued (go_phase h ph r) = queued r"
  by (simp_all add: queued_def go_phase_def)

lemma queued_upd_port [simp]:
  assumes "\<And>q. rp_queue (f q) = rp_queue q"
  shows "queued (upd_port p f r) = queued r"
proof -
  have "map rp_queue ((fr_store r)[p := f (fr_store r ! p)]) = map rp_queue (fr_store r)"
    by (simp add: map_update assms) (metis list_update_id map_update)
  then show ?thesis by (simp add: queued_def)
qed

lemma pendings_upd_port:
  assumes "\<And>q. rp_pending (f q) = rp_pending q \<or> rp_pending (f q) = None"
  shows "pendings (upd_port p f r) \<subseteq> pendings r"
proof (cases "p < length (fr_store r)")
  case True
  then show ?thesis using assms [of "fr_store r ! p"]
    by (fastforce simp: pendings_def dest: set_update_subset_insert [THEN subsetD])
qed (simp add: pendings_def list_update_beyond)

lemma pendings_upd_call [simp]: "pendings (upd_call h f r) = pendings r" "pendings (go_phase h ph r) = pendings r"
  by (simp_all add: pendings_def go_phase_def)

lemma queued_release [simp]: "queued (release h p r) = queued r"
  by (simp add: release_def)

lemma pendings_release: "pendings (release h p r) \<subseteq> pendings r"
  unfolding release_def by (rule pendings_upd_port) (auto split: option.splits prod.splits)

lemma release_fields [simp]:
  "fr_calls (release h p r) = fr_calls r" "fr_wire (release h p r) = fr_wire r" "fr_enabled (release h p r) = fr_enabled r"
  "fr_carried (release h p r) = fr_carried r" "fr_carriedOrder (release h p r) = fr_carriedOrder r"
  by (simp_all add: release_def)

lemma forget_fields [simp]:
  "fr_calls (forget_carried i pn r) = fr_calls r" "fr_wire (forget_carried i pn r) = fr_wire r"
  "fr_enabled (forget_carried i pn r) = fr_enabled r" "fr_store (forget_carried i pn r) = fr_store r"
  "fr_carriedOrder (forget_carried i pn r) = fr_carriedOrder r"
  "queued (forget_carried i pn r) = queued r" "pendings (forget_carried i pn r) = pendings r"
  by (simp_all add: forget_carried_def queued_def pendings_def)

lemma mark_fields:
  assumes "markCarried i pn r = (b, r1)"
  shows "fr_calls r1 = fr_calls r" "fr_wire r1 = fr_wire r" "fr_enabled r1 = fr_enabled r" "fr_store r1 = fr_store r"
    "queued r1 = queued r" "pendings r1 = pendings r"
  using assms by (auto simp: markCarried_def queued_def pendings_def split: if_splits prod.splits)

text \<open>One call moves on, everything else is kept: the invariant asks only for the call.\<close>

lemma relay_ok_update:
  assumes ok: "relay_ok H r" and h: "h < length (fr_calls r)"
    and calls: "fr_calls r' = (fr_calls r)[h := c']" "ca_req c' = ca_req (fr_calls r ! h)"
    and same: "queued r' = queued r" "fr_wire r' = fr_wire r" "fr_enabled r' = fr_enabled r" "pendings r' \<subseteq> pendings r"
    and c: "call_ok H (fr_enabled r) (fr_calls r ! h) (h \<in> set (queued r)) (h \<in> set (fr_wire r)) \<Longrightarrow>
            call_ok H (fr_enabled r) c' (h \<in> set (queued r)) (h \<in> set (fr_wire r))"
  shows "relay_ok H r'"
proof -
  have "call_ok H (fr_enabled r) (fr_calls r' ! k) (k \<in> set (queued r)) (k \<in> set (fr_wire r))" if "k < length (fr_calls r)" for k
    using ok c h that by (cases "k = h") (auto simp: relay_ok_def calls)
  moreover have "\<forall>(pn, k) \<in> pendings r'. k < length (fr_calls r) \<and> pn = hr_PNumber (ca_req (fr_calls r' ! k))"
    using ok same(4) h by (fastforce simp: relay_ok_def calls nth_list_update)
  ultimately show ?thesis using ok by (simp add: relay_ok_def calls same)
qed

lemma relay_ok_same:
  assumes "relay_ok H r" and "fr_calls r' = fr_calls r" "queued r' = queued r" "fr_wire r' = fr_wire r"
    "fr_enabled r' = fr_enabled r" "pendings r' \<subseteq> pendings r"
  shows "relay_ok H r'"
  using assms by (auto simp: relay_ok_def)

section \<open>Every event keeps the invariant\<close>

lemma phase_of_Some: "phase_of r h = Some ph \<longleftrightarrow> h < length (fr_calls r) \<and> ca_phase (fr_calls r ! h) = ph"
  by (simp add: phase_of_def)

lemmas call_ok_simps = call_ok_def notSent_def unknown_response_def result_defs

lemma ok_enter:
  assumes ok: "relay_ok H r"
  shows "relay_ok H (handle_enter H readable req r)"
proof -
  let ?n = "length (fr_calls r)" and ?r' = "handle_enter H readable req r"
  have s: "queued ?r' = queued r" "fr_wire ?r' = fr_wire r" "fr_enabled ?r' = fr_enabled r" "pendings ?r' = pendings r"
    by (simp_all add: handle_enter_def queued_def pendings_def)
  have sub: "set (queued r @ fr_wire r) \<subseteq> {..<?n}" using ok unfolding relay_ok_def by blast
  then have "?n \<notin> set (queued r)" "?n \<notin> set (fr_wire r)" by auto
  then have "call_ok H (fr_enabled r) (fr_calls ?r' ! ?n) (?n \<in> set (queued r)) (?n \<in> set (fr_wire r))"
    by (simp add: handle_enter_def handle_start_def call_ok_simps)
  moreover have "fr_calls ?r' ! k = fr_calls r ! k" if "k < ?n" for k using that by (simp add: handle_enter_def nth_append)
  moreover have "length (fr_calls ?r') = Suc ?n" by (simp add: handle_enter_def)
  ultimately show ?thesis using ok sub unfolding relay_ok_def s
    by (auto simp: less_Suc_eq split: prod.splits)
qed

lemma ok_go:
  assumes "relay_ok H r" "h < length (fr_calls r)" "ca_phase (fr_calls r ! h) = ph"
    and "\<And>c q w. ca_phase c = ph \<Longrightarrow> call_ok H (fr_enabled r) c q w \<Longrightarrow> call_ok H (fr_enabled r) (c\<lparr>ca_phase := ph'\<rparr>) q w"
  shows "relay_ok H (go_phase h ph' r)"
  using assms(3,4) by (intro relay_ok_update [OF assms(1,2), where c' = "(fr_calls r ! h)\<lparr>ca_phase := ph'\<rparr>"]) (simp_all add: go_phase_def)

lemma ok_verdict:
  assumes "relay_ok H r" "h < length (fr_calls r)" "ca_phase (fr_calls r ! h) = PhAuthorise"
  shows "relay_ok H (handle_verdict h v r)"
proof (cases v)
  case None
  then show ?thesis using assms by (auto simp: handle_verdict_def call_ok_simps intro!: ok_go)
next
  case (Some verdict)
  then show ?thesis using assms
    by (intro relay_ok_update [OF assms(1,2), where c' = "(fr_calls r ! h)\<lparr>ca_verdict := Some verdict,
           ca_phase := (if verdict \<noteq> ''AUTHORISED'' then PhDone (notSent (boundedRelayCode verdict)) else PhPort)\<rparr>"])
      (simp_all add: handle_verdict_def call_ok_simps)
qed

lemma ok_port:
  assumes "relay_ok H r" "h < length (fr_calls r)" "ca_phase (fr_calls r ! h) = PhPort"
  shows "relay_ok H (handle_port h r)"
  using assms by (auto simp: handle_port_def call_ok_simps split: option.splits intro!: ok_go)

lemma ok_steady:
  assumes "relay_ok H r" "h < length (fr_calls r)" "ca_phase (fr_calls r ! h) = PhSteady p"
  shows "relay_ok H (handle_steady h p r)"
  using assms by (auto simp: handle_steady_def call_ok_simps intro!: ok_go)

lemma ok_pending:
  assumes ok: "relay_ok H r" and h: "h < length (fr_calls r)" "ca_phase (fr_calls r ! h) = PhPending p"
  shows "relay_ok H (handle_pending h p r)"
proof (cases "rp_pending (fr_store r ! p) = None")
  case False
  then show ?thesis using assms by (auto simp: handle_pending_def call_ok_simps intro!: ok_go)
next
  case True
  let ?pn = "hr_PNumber (ca_req (fr_calls r ! h))"
  let ?r1 = "upd_port p (\<lambda>q. q\<lparr>rp_pending := Some (?pn, h)\<rparr>) r"
  have "pendings ?r1 \<subseteq> insert (?pn, h) (pendings r)"
    by (auto simp: pendings_def dest!: set_update_subset_insert [THEN subsetD])
  then have "relay_ok H ?r1" using ok h by (auto simp: relay_ok_def)
  then show ?thesis using True h by (auto simp: handle_pending_def call_ok_simps intro!: ok_go)
qed

lemma ok_mark:
  assumes ok: "relay_ok H r" and h: "h < length (fr_calls r)" "ca_phase (fr_calls r ! h) = PhMark p"
  shows "relay_ok H (handle_mark h p r)"
proof -
  let ?req = "ca_req (fr_calls r ! h)"
  obtain b r1 where m: "markCarried (hr_InterfaceID ?req) (hr_PNumber ?req) r = (b, r1)" by fastforce
  note f = mark_fields [OF m]
  show ?thesis
  proof (cases b)
    case True
    then show ?thesis using h m f pendings_release [of h p r1]
      by (intro relay_ok_update [OF ok h(1), where c' = "(fr_calls r ! h)\<lparr>ca_phase := PhDone (unknown_response ''DUPLICATE_COMMAND'')\<rparr>"])
        (simp_all add: handle_mark_def Let_def go_phase_def call_ok_simps)
  next
    case False
    then show ?thesis using h m f
      by (intro relay_ok_update [OF ok h(1), where c' = "(fr_calls r ! h)\<lparr>ca_phase := PhSubmit p, ca_marked := True\<rparr>"])
        (simp_all add: handle_mark_def Let_def call_ok_simps)
  qed
qed

lemma call_ok_unsent:
  "call_ok H en c q w \<Longrightarrow> \<not> q \<Longrightarrow> \<not> w \<Longrightarrow> call_ok H en (c\<lparr>ca_phase := PhDone (notSent code), ca_marked := m\<rparr>) q w"
  by (simp add: call_ok_simps)

lemma call_ok_unknown:
  "call_ok H en c q w \<Longrightarrow> \<not> finished (ca_phase c) \<Longrightarrow> ca_phase c \<noteq> PhAuthorise \<Longrightarrow>
   call_ok H en (c\<lparr>ca_phase := PhDone (unknown_response code)\<rparr>) q w"
  by (simp add: call_ok_simps)

lemma ok_give_up_unsent:
  assumes "relay_ok H r" "h < length (fr_calls r)" "h \<notin> set (queued r)" "h \<notin> set (fr_wire r)"
  shows "relay_ok H (give_up_unsent h p code r)"
proof (rule relay_ok_update [OF assms(1,2)])
  show "fr_calls (give_up_unsent h p code r) =
      (fr_calls r)[h := (fr_calls r ! h)\<lparr>ca_phase := PhDone (notSent code), ca_marked := False\<rparr>]"
    by (simp add: give_up_unsent_def Let_def)
qed (use assms pendings_release [of h p r] in \<open>simp_all add: give_up_unsent_def Let_def call_ok_unsent\<close>)

lemma ok_give_up_unknown:
  assumes "relay_ok H r" "h < length (fr_calls r)" "\<not> finished (ca_phase (fr_calls r ! h))" "ca_phase (fr_calls r ! h) \<noteq> PhAuthorise"
  shows "relay_ok H (give_up_unknown h p code r)"
proof (rule relay_ok_update [OF assms(1,2)])
  show "fr_calls (give_up_unknown h p code r) = (fr_calls r)[h := (fr_calls r ! h)\<lparr>ca_phase := PhDone (unknown_response code)\<rparr>]"
    by (simp add: give_up_unknown_def go_phase_def)
qed (use assms pendings_release [of h p r] in \<open>simp_all add: give_up_unknown_def go_phase_def call_ok_unknown\<close>)

text \<open>A port of the store and the commands in the channels of the others.\<close>

lemma queued_split:
  assumes "p < length (fr_store r)"
  obtains as bs where "queued r = as @ rp_queue (fr_store r ! p) @ bs"
    "\<And>f. queued (upd_port p f r) = as @ rp_queue (f (fr_store r ! p)) @ bs"
proof
  let ?as = "concat (map rp_queue (take p (fr_store r)))" and ?bs = "concat (map rp_queue (drop (Suc p) (fr_store r)))"
  have s: "fr_store r = take p (fr_store r) @ fr_store r ! p # drop (Suc p) (fr_store r)"
    using assms by (rule id_take_nth_drop)
  have "queued r = concat (map rp_queue (take p (fr_store r) @ fr_store r ! p # drop (Suc p) (fr_store r)))"
    unfolding queued_def using s by (rule arg_cong)
  then show "queued r = ?as @ rp_queue (fr_store r ! p) @ ?bs" by simp
  show "queued (upd_port p f r) = ?as @ rp_queue (f (fr_store r ! p)) @ ?bs" for f
    using assms by (simp add: queued_def upd_conv_take_nth_drop)
qed

lemma ok_submit:
  assumes ok: "relay_ok H r" and h: "h < length (fr_calls r)" "ca_phase (fr_calls r ! h) = PhSubmit p"
  shows "relay_ok H (handle_submit h p enq r)"
proof -
  have c: "call_ok H (fr_enabled r) (fr_calls r ! h) (h \<in> set (queued r)) (h \<in> set (fr_wire r))"
    using ok h by (simp add: relay_ok_def)
  then have n: "h \<notin> set (queued r)" "h \<notin> set (fr_wire r)" using h(2) by (simp_all add: call_ok_def)
  let ?f = "\<lambda>q. q\<lparr>rp_queue := rp_queue q @ [h]\<rparr>"
  let ?r1 = "upd_port p ?f r"
  have pend: "pendings ?r1 \<subseteq> pendings r" by (rule pendings_upd_port) simp
  have go: "relay_ok H (go_phase h (PhAck p) ?r1)"
  proof (cases "p < length (fr_store r)")
    case False
    then have "?r1 = r" by (simp add: upd_port_def list_update_beyond)
    then show ?thesis using ok h by (auto simp: call_ok_def intro: ok_go)
  next
    case True
    obtain as bs where q: "queued r = as @ rp_queue (fr_store r ! p) @ bs" "queued ?r1 = as @ (rp_queue (fr_store r ! p) @ [h]) @ bs"
      by (rule queued_split [OF True]) simp
    have set: "set (queued ?r1) = insert h (set (queued r))" using q by auto
    have "distinct (queued ?r1 @ fr_wire r)" using ok n q by (auto simp: relay_ok_def)
    moreover have "call_ok H (fr_enabled r) ((fr_calls r)[h := (fr_calls r ! h)\<lparr>ca_phase := PhAck p\<rparr>] ! k)
        (k \<in> insert h (set (queued r))) (k \<in> set (fr_wire r))" if "k < length (fr_calls r)" for k
    proof (cases "k = h")
      case True
      then show ?thesis using c h n by (simp add: call_ok_def)
    next
      case False
      then show ?thesis using ok that by (simp add: relay_ok_def)
    qed
    moreover have "\<forall>(pn, k) \<in> pendings ?r1. k < length (fr_calls r)
        \<and> pn = hr_PNumber (ca_req ((fr_calls r)[h := (fr_calls r ! h)\<lparr>ca_phase := PhAck p\<rparr>] ! k))"
      using ok pend h by (fastforce simp: relay_ok_def nth_list_update)
    ultimately show ?thesis using ok h set by (simp add: relay_ok_def go_phase_def)
  qed
  show ?thesis using go ok h n by (simp add: handle_submit_def ok_give_up_unsent)
qed

text \<open>
  The writer takes the head of a channel: it leaves the channel, is acknowledged once and is on the
  wire exactly when the acknowledgement allows it.
\<close>

lemma ok_taken:
  assumes ok: "relay_ok H r" and p: "p < length (fr_store r)" "rp_queue (fr_store r ! p) = h # hs"
    and r': "fr_calls r' = (fr_calls r)[h := (fr_calls r ! h)\<lparr>ca_ack := Some a\<rparr>]" "queued r' = queued (upd_port p (\<lambda>q. q\<lparr>rp_queue := hs\<rparr>) r)"
      "fr_wire r' = fr_wire r @ (if w then [h] else [])" "fr_enabled r' = fr_enabled r" "pendings r' \<subseteq> pendings r"
    and a: "a = AckOk \<longrightarrow> w" "w \<longrightarrow> a = AckOk \<or> a = AckErr"
  shows "relay_ok H r'"
proof -
  obtain as bs where q: "queued r = as @ h # hs @ bs" "queued r' = as @ hs @ bs"
    by (rule queued_split [OF p(1)]) (simp add: p(2) r'(2))
  have d: "distinct (queued r @ fr_wire r)" "set (queued r @ fr_wire r) \<subseteq> {..<length (fr_calls r)}"
    using ok unfolding relay_ok_def by blast+
  have h: "h < length (fr_calls r)" "h \<in> set (queued r)" "h \<notin> set (fr_wire r)" "h \<notin> set (queued r')" using d q by auto
  have set: "set (queued r) = insert h (set (queued r'))" using q by auto
  have c: "call_ok H (fr_enabled r) (fr_calls r ! h) True False" using ok h by (auto simp: relay_ok_def)
  have "call_ok H (fr_enabled r) (fr_calls r' ! k) (k \<in> set (queued r')) (k \<in> set (fr_wire r'))"
    if k: "k < length (fr_calls r)" for k
  proof (cases "k = h")
    case True
    then show ?thesis using c h a r'(1,3) by (auto simp: call_ok_def)
  next
    case False
    then have "(k \<in> set (queued r')) = (k \<in> set (queued r))" "(k \<in> set (fr_wire r')) = (k \<in> set (fr_wire r))"
      using set r'(3) by auto
    then show ?thesis using ok k False r'(1) by (simp add: relay_ok_def)
  qed
  moreover have "distinct (queued r' @ fr_wire r')" using d q r'(3) by auto
  moreover have "set (queued r' @ fr_wire r') \<subseteq> {..<length (fr_calls r)}" using d q r'(3) by (auto split: if_splits)
  moreover have "\<forall>(pn, k) \<in> pendings r'. k < length (fr_calls r) \<and> pn = hr_PNumber (ca_req (fr_calls r' ! k))"
    using ok r'(1,5) h by (fastforce simp: relay_ok_def nth_list_update)
  ultimately show ?thesis using r'(1,4) by (simp add: relay_ok_def)
qed

lemma pendings_wire [simp]: "pendings (r\<lparr>fr_wire := w\<rparr>) = pendings r" "queued (r\<lparr>fr_wire := w\<rparr>) = queued r"
  by (simp_all add: pendings_def queued_def)

lemma ok_writer:
  assumes ok: "relay_ok H r"
  shows "relay_ok H (writer_take Room p alright reached r)"
proof (cases "length (fr_store r) \<le> p \<or> rp_done (fr_store r ! p) \<or> rp_queue (fr_store r ! p) = []")
  case True
  then show ?thesis using ok by (auto simp: writer_take_def)
next
  case False
  then obtain h hs where p: "p < length (fr_store r)" "\<not> rp_done (fr_store r ! p)" "rp_queue (fr_store r ! p) = h # hs"
    by (cases "rp_queue (fr_store r ! p)") auto
  let ?f = "\<lambda>q. q\<lparr>rp_queue := hs\<rparr>" and ?stop = "\<lambda>q. q\<lparr>rp_done := True\<rparr>"
  have pend: "pendings (upd_port p ?f r) \<subseteq> pendings r" by (rule pendings_upd_port) simp
  note taken = ok_taken [OF ok p(1,3)]
  have unwritten: "relay_ok H (ack_call h a (upd_port p ?f r))" if "a \<noteq> AckOk" for a
    using that pend by (intro taken [where w = False and a = a]) (simp_all add: ack_call_def)
  have written: "relay_ok H (ack_call h a ((upd_port p ?f r)\<lparr>fr_wire := fr_wire r @ [h]\<rparr>))" if "a = AckOk \<or> a = AckErr" for a
    using that pend by (intro taken [where w = True and a = a]) (simp_all add: ack_call_def)
  have stop: "relay_ok H (upd_port p ?stop x)" if "relay_ok H x" for x
    by (rule relay_ok_same [OF that _ _ _ _ pendings_upd_port]) simp_all
  show ?thesis using p unfolding writer_take_def Let_def
    by (simp add: unwritten written stop)
qed

lemma ok_ack:
  assumes ok: "relay_ok H r" and h: "h < length (fr_calls r)" "ca_phase (fr_calls r ! h) = PhAck p"
  shows "relay_ok H (handle_ack h p src r)"
proof -
  have c: "call_ok H (fr_enabled r) (fr_calls r ! h) (h \<in> set (queued r)) (h \<in> set (fr_wire r))"
    using ok h by (simp add: relay_ok_def)
  have unk: "relay_ok H (give_up_unknown h p code r)" for code using ok h by (auto intro: ok_give_up_unknown)
  have uns: "relay_ok H (give_up_unsent h p code r)" if "ca_ack (fr_calls r ! h) = Some (AckRefused x)" for x code
    using c that by (intro ok_give_up_unsent [OF ok h(1)]) (auto simp: call_ok_def)
  have aw: "relay_ok H (go_phase h (PhAwait p) r)" if a: "ca_ack (fr_calls r ! h) = Some AckOk"
  proof (rule relay_ok_update [OF ok h(1)])
    show "fr_calls (go_phase h (PhAwait p) r) = (fr_calls r)[h := (fr_calls r ! h)\<lparr>ca_phase := PhAwait p\<rparr>]"
      by (simp add: go_phase_def)
  qed (use a h in \<open>auto simp: go_phase_def call_ok_def\<close>)
  show ?thesis using ok unk uns aw by (auto simp: handle_ack_def split: ack_source.split option.split write_ack.split)
qed

lemma ok_await:
  assumes ok: "relay_ok H r" and h: "h < length (fr_calls r)" "ca_phase (fr_calls r ! h) = PhAwait p"
  shows "relay_ok H (handle_await h p src r)"
proof -
  have unk: "relay_ok H (give_up_unknown h p code r)" for code using ok h by (auto intro: ok_give_up_unknown)
  have ans: "relay_ok H (go_phase h (PhDone \<lparr>hp_Result = Answered, hp_Code = [], hp_PABody = pa\<rparr>) r)"
    if a: "ca_answer (fr_calls r ! h) = Some pa" for pa
  proof (rule relay_ok_update [OF ok h(1)])
    show "fr_calls (go_phase h (PhDone \<lparr>hp_Result = Answered, hp_Code = [], hp_PABody = pa\<rparr>) r) =
       (fr_calls r)[h := (fr_calls r ! h)\<lparr>ca_phase := PhDone \<lparr>hp_Result = Answered, hp_Code = [], hp_PABody = pa\<rparr>\<rparr>]"
      by (simp add: go_phase_def)
  qed (use a h in \<open>auto simp: go_phase_def call_ok_simps\<close>)
  show ?thesis using ok unk ans by (auto simp: handle_await_def split: await_source.split option.split)
qed

lemma ok_onPA:
  assumes ok: "relay_ok H r"
  shows "relay_ok H (onPA p body r)"
proof (cases "p < length (fr_store r) \<and> (\<exists>pn h. rp_pending (fr_store r ! p) = Some (pn, h) \<and> 0 < PNumberOf body \<and> pn = PNumberOf body)")
  case False
  then show ?thesis using ok by (auto simp: onPA_def Let_def split: option.split)
next
  case True
  then obtain h where p: "p < length (fr_store r)" "rp_pending (fr_store r ! p) = Some (PNumberOf body, h)" "0 < PNumberOf body"
    by blast
  then have "(PNumberOf body, h) \<in> pendings r" by (auto simp: pendings_def)
  then have h: "h < length (fr_calls r)" "PNumberOf body = hr_PNumber (ca_req (fr_calls r ! h))"
    using ok by (auto simp: relay_ok_def)
  let ?r1 = "upd_port p (\<lambda>q. q\<lparr>rp_pending := None\<rparr>) r"
  have e: "onPA p body r = upd_call h (\<lambda>c. c\<lparr>ca_answer := Some body\<rparr>) ?r1" using p by (simp add: onPA_def Let_def)
  have "pendings ?r1 \<subseteq> pendings r" by (rule pendings_upd_port) simp
  then show ?thesis unfolding e using h
    by (intro relay_ok_update [OF ok h(1), where c' = "(fr_calls r ! h)\<lparr>ca_answer := Some body\<rparr>"]) (simp_all add: call_ok_def)
qed

lemma ok_port_flags:
  assumes "relay_ok H r"
  shows "relay_ok H (writer_stop p r)" "relay_ok H (setSteady p v r)" "relay_ok H (detach p r)"
proof -
  have upd: "relay_ok H (upd_port p f x)" if "relay_ok H x" "\<And>q. rp_queue (f q) = rp_queue q" "\<And>q. rp_pending (f q) = rp_pending q" for f x
    using that by (intro relay_ok_same [OF that(1) _ _ _ _ pendings_upd_port]) simp_all
  have drop: "relay_ok H (r\<lparr>fr_ports := a, fr_seen := b\<rparr>)" for a b
    by (rule relay_ok_same [OF assms]) (simp_all add: queued_def pendings_def)
  show "relay_ok H (writer_stop p r)" "relay_ok H (setSteady p v r)" using assms by (simp_all add: writer_stop_def setSteady_def upd)
  show "relay_ok H (detach p r)" using assms drop by (simp add: detach_def Let_def upd)
qed

lemma ok_attach: "relay_ok H r \<Longrightarrow> relay_ok H (attach iface r)"
  by (erule relay_ok_same) (auto simp: attach_def queued_def pendings_def)

lemma ok_observe: "relay_ok H r \<Longrightarrow> relay_ok H (ObserveGuestRecord Room iface rt res room r)"
  by (erule relay_ok_same) (auto simp: ObserveGuestRecord_def queued_def pendings_def Let_def split: option.split)

lemma relay_step_ok: "relay_ok H r \<Longrightarrow> relay_ok H (relay_step H Room r e)"
  by (cases e) (simp_all add: ok_enter ok_verdict ok_port ok_steady ok_pending ok_mark ok_submit ok_ack ok_await
      ok_writer ok_onPA ok_port_flags ok_attach ok_observe phase_of_Some split: option.split call_phase.split)

lemma new_relay_ok: "relay_ok H (NewFinancialRelay en au)"
  by (simp add: relay_ok_def NewFinancialRelay_def queued_def pendings_def)

interpretation relay: invariant_machine "relay_step H Room" "relay_ok H" for H Room
  by unfold_locales (rule relay_step_ok)

section \<open>An answer is final\<close>

text \<open>An event changes one call at most, never its request, and never the phase of a finished one.\<close>

definition call_le :: "relay_call \<Rightarrow> relay_call \<Rightarrow> bool" where
  "call_le c c' \<longleftrightarrow> ca_req c' = ca_req c \<and> (finished (ca_phase c) \<longrightarrow> ca_phase c' = ca_phase c)"

definition calls_le :: "financial_relay \<Rightarrow> financial_relay \<Rightarrow> bool" where
  "calls_le r r' \<longleftrightarrow> length (fr_calls r) \<le> length (fr_calls r') \<and> (\<forall>h < length (fr_calls r). call_le (fr_calls r ! h) (fr_calls r' ! h))"

lemma calls_le_refl: "fr_calls r' = fr_calls r \<Longrightarrow> calls_le r r'"
  by (simp add: calls_le_def call_le_def)

lemma calls_le_upd: "call_le (fr_calls r ! h) c \<Longrightarrow> fr_calls r' = (fr_calls r)[h := c] \<Longrightarrow> calls_le r r'"
  unfolding calls_le_def call_le_def by (metis length_list_update nth_list_update_eq nth_list_update_neq order_refl)

lemma calls_le_trans: "calls_le a b \<Longrightarrow> calls_le b c \<Longrightarrow> calls_le a c"
  by (auto simp: calls_le_def call_le_def)

lemma call_le_simps [simp]:
  "call_le c (c\<lparr>ca_ack := x\<rparr>)" "call_le c (c\<lparr>ca_answer := y\<rparr>)" "\<not> finished (ca_phase c) \<Longrightarrow> call_le c (c\<lparr>ca_phase := ph\<rparr>)"
  "\<not> finished (ca_phase c) \<Longrightarrow> call_le c (c\<lparr>ca_phase := ph, ca_marked := m\<rparr>)"
  "\<not> finished (ca_phase c) \<Longrightarrow> call_le c (c\<lparr>ca_verdict := v, ca_phase := ph\<rparr>)"
  by (simp_all add: call_le_def)

lemma le_go: "\<not> finished (ca_phase (fr_calls r ! h)) \<Longrightarrow> fr_calls r' = fr_calls r \<Longrightarrow> calls_le r (go_phase h ph r')"
  by (rule calls_le_upd [where h = h]) (simp_all add: go_phase_def)

lemma le_give_up:
  assumes "\<not> finished (ca_phase (fr_calls r ! h))"
  shows "calls_le r (give_up_unknown h p code r)" "calls_le r (give_up_unsent h p code r)"
  using assms by (simp_all add: give_up_unknown_def give_up_unsent_def Let_def le_go) (rule calls_le_upd [where h = h], simp_all)

lemma le_mark: "\<not> finished (ca_phase (fr_calls r ! h)) \<Longrightarrow> calls_le r (handle_mark h p r)"
  by (cases "markCarried (hr_InterfaceID (ca_req (fr_calls r ! h))) (hr_PNumber (ca_req (fr_calls r ! h))) r")
    (auto simp: handle_mark_def Let_def mark_fields le_go split: bool.split intro!: calls_le_upd [where h = h])

lemma calls_writer: "\<exists>h a. fr_calls (writer_take Room p alright reached r) = (fr_calls r)[h := (fr_calls r ! h)\<lparr>ca_ack := a\<rparr>]
    \<or> fr_calls (writer_take Room p alright reached r) = fr_calls r"
  by (auto simp: writer_take_def Let_def ack_call_def split: list.split)

lemma le_writer: "calls_le r (writer_take Room p alright reached r)"
  using calls_writer [of Room p alright reached r] by (metis call_le_simps(1) calls_le_refl calls_le_upd)

lemma calls_onPA: "\<exists>h a. fr_calls (onPA p body r) = (fr_calls r)[h := (fr_calls r ! h)\<lparr>ca_answer := a\<rparr>] \<or> fr_calls (onPA p body r) = fr_calls r"
  by (auto simp: onPA_def Let_def split: option.split)

lemma le_onPA: "calls_le r (onPA p body r)"
  using calls_onPA [of p body r] by (metis call_le_simps(2) calls_le_refl calls_le_upd)

lemma calls_ports:
  "fr_calls (writer_stop p r) = fr_calls r" "fr_calls (setSteady p v r) = fr_calls r" "fr_calls (detach p r) = fr_calls r"
  "fr_calls (attach i r) = fr_calls r" "fr_calls (ObserveGuestRecord Room i rt res room r) = fr_calls r"
  by (simp_all add: writer_stop_def setSteady_def detach_def attach_def ObserveGuestRecord_def Let_def split: option.split)

lemma relay_step_le: "calls_le r (relay_step H Room r e)"
proof (cases e)
  case (RvEnter req readable)
  then show ?thesis by (simp add: calls_le_def call_le_def handle_enter_def nth_append)
next
  case (RvVerdict h v)
  then show ?thesis by (auto simp: handle_verdict_def phase_of_Some le_go calls_le_refl split: option.split intro!: calls_le_upd [where h = h])
qed (auto simp: handle_port_def handle_steady_def handle_pending_def handle_submit_def handle_ack_def handle_await_def
      phase_of_Some le_go le_give_up le_mark le_writer le_onPA calls_ports calls_le_refl
      split: option.split call_phase.split ack_source.split await_source.split write_ack.split)

lemma run_calls_le: "calls_le r (run (relay_step H Room) r evs)"
  by (induction evs arbitrary: r) (auto simp: calls_le_refl intro: calls_le_trans relay_step_le)

lemma done_stays:
  assumes "phase_of r h = Some (PhDone resp)"
  shows "phase_of (run (relay_step H Room) r evs) h = Some (PhDone resp)"
  using run_calls_le [of r H Room evs] assms by (auto simp: calls_le_def call_le_def phase_of_Some)

lemma relay_run_ok: "relay_ok H (run (relay_step H Room) (NewFinancialRelay en au) evs)"
  by (rule relay.run_inv [OF new_relay_ok])

definition reported_unsent :: "financial_relay \<Rightarrow> nat \<Rightarrow> bool" where
  "reported_unsent r h = (case phase_of r h of Some (PhDone resp) \<Rightarrow> hp_Result resp = NotTransmittedResult | _ \<Rightarrow> False)"

text \<open>The relay keeps the contract the posting engine relies on.\<close>

interpretation relay_handoff: honest_handoff "relay_step H Room" "relay_ok H" reported_unsent "\<lambda>r h. h \<in> set (fr_wire r)" for H Room
proof
  fix s c e assume ok: "relay_ok H s" and u: "reported_unsent s c"
  then show "c \<notin> set (fr_wire s)"
    by (auto simp: reported_unsent_def relay_ok_def phase_of_Some call_ok_def split: option.splits call_phase.splits)
  from u obtain resp where d: "phase_of s c = Some (PhDone resp)" "hp_Result resp = NotTransmittedResult"
    by (auto simp: reported_unsent_def split: option.splits call_phase.splits)
  show "reported_unsent (relay_step H Room s e) c" using done_stays [OF d(1), of H Room "[e]"] d(2) by (simp add: reported_unsent_def)
qed

text \<open>
  C24: The relay's answers mean what they say, whatever commands, links, room moves, write failures and
  answers interleave. A command answered NOT_TRANSMITTED was never put on the socket by that call and
  never will be; a command answered ANSWERED was written whole, and the PA it gets carries its own
  P#; and no call's record is written twice.
\<close>

theorem relay_reports:
  assumes "r = run (relay_step H Room) (NewFinancialRelay en au) evs" and "phase_of r h = Some (PhDone resp)"
  shows "(hp_Result resp = NotTransmittedResult \<longrightarrow> h \<notin> set (fr_wire (run (relay_step H Room) r later)))
    \<and> (hp_Result resp = Answered \<longrightarrow>
         h \<in> set (fr_wire r) \<and> ca_ack (fr_calls r ! h) = Some AckOk \<and> PNumberOf (hp_PABody resp) = hr_PNumber (ca_req (fr_calls r ! h)))
    \<and> distinct (fr_wire r)"
proof -
  have ok: "relay_ok H r" unfolding assms(1) by (rule relay_run_ok)
  have "h \<notin> set (fr_wire (run (relay_step H Room) r later))" if "hp_Result resp = NotTransmittedResult"
    by (rule relay_handoff.never_written [OF ok]) (simp add: reported_unsent_def assms(2) that)
  moreover have "h < length (fr_calls r)" "ca_phase (fr_calls r ! h) = PhDone resp" using assms(2) by (simp_all add: phase_of_Some)
  moreover from this have "call_ok H (fr_enabled r) (fr_calls r ! h) (h \<in> set (queued r)) (h \<in> set (fr_wire r))"
    using ok by (simp add: relay_ok_def)
  ultimately show ?thesis using ok by (auto simp: call_ok_def relay_ok_def)
qed

definition sample_command :: handoff_request where
  "sample_command = handoff_request_of (\<lambda>s. s) ''i'' 42 ''PS|RN1421|G#77120|TA1500|PTD|SOWIFI|CTWIFI|P#42|WSSTAYCONNECT|''"

definition carry :: "nat \<Rightarrow> relay_event list" where
  "carry h = [RvVerdict h (Some ''AUTHORISED''), RvPort h, RvSteady h, RvPending h, RvMark h, RvSubmit h True]"

definition sample_relay :: financial_relay where
  "sample_relay = run (relay_step (\<lambda>s. s) (\<lambda>s. s)) (NewFinancialRelay True True)
     ([RvAttach ''i'', RvSetSteady 0 True, RvEnter sample_command True] @ carry 0
      @ [RvWriter 0 True True, RvAck 0 FromAck, RvPA 0 ''PA|RN1421|P#42|ASOK|'', RvAwait 0 AwAnswer])"

lemma sample_relay_phase:
  "phase_of sample_relay 0 = Some (PhDone \<lparr>hp_Result = Answered, hp_Code = [], hp_PABody = ''PA|RN1421|P#42|ASOK|''\<rparr>)"
  by code_simp

theorem relay_reports_witness:
  "0 \<in> set (fr_wire sample_relay) \<and> ca_ack (fr_calls sample_relay ! 0) = Some AckOk
   \<and> PNumberOf ''PA|RN1421|P#42|ASOK|'' = hr_PNumber (ca_req (fr_calls sample_relay ! 0))"
  using relay_reports [OF sample_relay_def sample_relay_phase, of "[]"] by simp

section \<open>A P# is carried once\<close>

fun unmarked_phase :: "call_phase \<Rightarrow> bool" where
  "unmarked_phase PhAuthorise = True"
| "unmarked_phase PhPort = True"
| "unmarked_phase (PhSteady p) = True"
| "unmarked_phase (PhPending p) = True"
| "unmarked_phase (PhMark p) = True"
| "unmarked_phase _ = False"

definition on_link :: "string \<Rightarrow> relay_call \<Rightarrow> bool" where
  "on_link i c \<longleftrightarrow> hr_InterfaceID (ca_req c) = i"

definition commands_on :: "string \<Rightarrow> financial_relay \<Rightarrow> nat" where
  "commands_on i r = length (filter (on_link i) (fr_calls r))"

definition unmarked_on :: "string \<Rightarrow> financial_relay \<Rightarrow> nat" where
  "unmarked_on i r = length (filter (\<lambda>c. on_link i c \<and> unmarked_phase (ca_phase c)) (fr_calls r))"

text \<open>
  While a link has had at most \<open>maxCarriedPerLink\<close> commands nothing is evicted: every P# in a
  writer's hands or beyond is in the set, on account of exactly one call.
\<close>

definition needs_mark :: "financial_relay \<Rightarrow> nat \<Rightarrow> bool" where
  "needs_mark r h \<longleftrightarrow> \<not> unmarked_phase (ca_phase (fr_calls r ! h)) \<and> \<not> finished (ca_phase (fr_calls r ! h))
     \<or> h \<in> set (queued r) \<or> h \<in> set (fr_wire r)"

definition carried_ok :: "string \<Rightarrow> financial_relay \<Rightarrow> bool" where
  "carried_ok i r \<longleftrightarrow>
     finite (fr_carried r i) \<and> fr_carried r i \<subseteq> set (fr_carriedOrder r i)
     \<and> length (fr_carriedOrder r i) + unmarked_on i r \<le> commands_on i r
     \<and> (\<forall>h < length (fr_calls r). on_link i (fr_calls r ! h) \<longrightarrow>
          (ca_marked (fr_calls r ! h) \<longrightarrow> hr_PNumber (ca_req (fr_calls r ! h)) \<in> fr_carried r i)
          \<and> (needs_mark r h \<longrightarrow> ca_marked (fr_calls r ! h)))
     \<and> (\<forall>h < length (fr_calls r). \<forall>k < length (fr_calls r).
          on_link i (fr_calls r ! h) \<and> on_link i (fr_calls r ! k) \<and> ca_marked (fr_calls r ! h) \<and> ca_marked (fr_calls r ! k)
          \<and> hr_PNumber (ca_req (fr_calls r ! h)) = hr_PNumber (ca_req (fr_calls r ! k)) \<longrightarrow> h = k)"

lemma length_filter_update:
  "k < length xs \<Longrightarrow> length (filter P (xs[k := c])) + of_bool (P (xs ! k)) = length (filter P xs) + of_bool (P c)"
  by (subst (3) id_take_nth_drop [of k]) (simp_all add: upd_conv_take_nth_drop)

lemma evict_room: "card s < maxCarriedPerLink \<Longrightarrow> evict_carried s order = (s, order)"
  by (cases order) simp_all

text \<open>One call moves on; its P# stays in the set unless the call is known to be unwritten.\<close>

lemma carried_update:
  assumes ok: "carried_ok i r" and h: "h < length (fr_calls r)"
    and calls: "fr_calls r' = (fr_calls r)[h := c']" "ca_req c' = ca_req (fr_calls r ! h)"
    and keep: "ca_marked c' = ca_marked (fr_calls r ! h)" "fr_carried r' = fr_carried r" "fr_carriedOrder r' = fr_carriedOrder r"
    and q: "set (queued r') \<union> set (fr_wire r') \<subseteq> insert h (set (queued r) \<union> set (fr_wire r))"
    and ph: "unmarked_phase (ca_phase c') \<longrightarrow> unmarked_phase (ca_phase (fr_calls r ! h))"
    and m: "\<not> unmarked_phase (ca_phase c') \<and> \<not> finished (ca_phase c') \<or> h \<in> set (queued r') \<or> h \<in> set (fr_wire r') \<Longrightarrow>
            on_link i (fr_calls r ! h) \<Longrightarrow> ca_marked (fr_calls r ! h)"
  shows "carried_ok i r'"
proof -
  have link: "on_link i (fr_calls r' ! k) = on_link i (fr_calls r ! k)" "ca_req (fr_calls r' ! k) = ca_req (fr_calls r ! k)"
    "ca_marked (fr_calls r' ! k) = ca_marked (fr_calls r ! k)" if "k < length (fr_calls r)" for k
    using calls keep(1) h by (cases "k = h"; simp add: on_link_def)+
  have n: "commands_on i r' = commands_on i r"
    using length_filter_update [OF h, of "on_link i" c'] calls by (simp add: commands_on_def on_link_def)
  have "unmarked_on i r' \<le> unmarked_on i r"
    using length_filter_update [OF h, of "\<lambda>c. on_link i c \<and> unmarked_phase (ca_phase c)" c'] calls ph
    by (auto simp: unmarked_on_def on_link_def of_bool_def split: if_splits)
  then have "length (fr_carriedOrder r' i) + unmarked_on i r' \<le> commands_on i r'" using ok n keep by (simp add: carried_ok_def)
  moreover have "ca_marked (fr_calls r ! k)" if k: "k < length (fr_calls r)" "on_link i (fr_calls r ! k)"
    and c: "needs_mark r' k" for k
  proof (cases "k = h")
    case True
    then show ?thesis using m c k h calls by (simp add: needs_mark_def)
  next
    case False
    then have "k \<in> set (queued r) \<or> k \<in> set (fr_wire r)" if "k \<in> set (queued r') \<or> k \<in> set (fr_wire r')" using q that by auto
    then have "needs_mark r k" using c False calls by (auto simp: needs_mark_def)
    then show ?thesis using ok k by (simp add: carried_ok_def)
  qed
  ultimately show ?thesis using ok calls keep(2,3) link by (simp add: carried_ok_def)
qed

lemma carried_same:
  assumes "carried_ok i r" and "fr_calls r' = fr_calls r" "fr_carried r' = fr_carried r" "fr_carriedOrder r' = fr_carriedOrder r"
    "set (queued r') \<union> set (fr_wire r') \<subseteq> set (queued r) \<union> set (fr_wire r)"
  shows "carried_ok i r'"
proof -
  have "needs_mark r k" if "needs_mark r' k" for k using assms(2,5) that by (auto simp: needs_mark_def)
  moreover have "unmarked_on i r' = unmarked_on i r" "commands_on i r' = commands_on i r"
    by (simp_all add: unmarked_on_def commands_on_def assms)
  ultimately show ?thesis using assms(1) by (simp add: carried_ok_def assms(2-4))
qed

lemma carried_enter:
  assumes ok: "carried_ok i r" and rel: "relay_ok H r"
  shows "carried_ok i (handle_enter H readable req r)"
proof -
  let ?r' = "handle_enter H readable req r" and ?n = "length (fr_calls r)"
  have s: "queued ?r' = queued r" "fr_wire ?r' = fr_wire r" "fr_carried ?r' = fr_carried r" "fr_carriedOrder ?r' = fr_carriedOrder r"
    by (simp_all add: handle_enter_def queued_def)
  have len: "length (fr_calls ?r') = Suc ?n" by (simp add: handle_enter_def)
  have old: "fr_calls ?r' ! k = fr_calls r ! k" if "k < ?n" for k using that by (simp add: handle_enter_def nth_append)
  have new: "\<not> ca_marked (fr_calls ?r' ! ?n)" by (simp add: handle_enter_def)
  have "set (queued r @ fr_wire r) \<subseteq> {..<?n}" using rel unfolding relay_ok_def by blast
  then have "?n \<notin> set (queued r)" "?n \<notin> set (fr_wire r)" by auto
  moreover have "unmarked_phase (ca_phase (fr_calls ?r' ! ?n)) \<or> finished (ca_phase (fr_calls ?r' ! ?n))"
    by (simp add: handle_enter_def handle_start_def)
  ultimately have "\<not> needs_mark ?r' ?n" by (auto simp: needs_mark_def s)
  moreover have "needs_mark ?r' k = needs_mark r k" if "k < ?n" for k using that by (simp add: needs_mark_def s old)
  moreover have "unmarked_on i ?r' + commands_on i r \<le> unmarked_on i r + commands_on i ?r'"
    by (simp add: unmarked_on_def commands_on_def handle_enter_def)
  ultimately show ?thesis using ok old new by (auto simp: carried_ok_def s len less_Suc_eq)
qed

lemma carried_go:
  assumes ok: "carried_ok i r" and h: "h < length (fr_calls r)" "unmarked_phase (ca_phase (fr_calls r ! h))"
    and ph: "unmarked_phase ph \<or> finished ph"
    and r': "fr_calls r' = (fr_calls r)[h := (fr_calls r ! h)\<lparr>ca_verdict := v, ca_phase := ph\<rparr>]" "fr_carried r' = fr_carried r"
      "fr_carriedOrder r' = fr_carriedOrder r" "queued r' = queued r" "fr_wire r' = fr_wire r"
  shows "carried_ok i r'"
proof (rule carried_update [OF ok h(1) r'(1)])
  assume a: "\<not> unmarked_phase (ca_phase ((fr_calls r ! h)\<lparr>ca_verdict := v, ca_phase := ph\<rparr>))
       \<and> \<not> finished (ca_phase ((fr_calls r ! h)\<lparr>ca_verdict := v, ca_phase := ph\<rparr>)) \<or> h \<in> set (queued r') \<or> h \<in> set (fr_wire r')"
    and l: "on_link i (fr_calls r ! h)"
  then have "needs_mark r h" using ph r' by (auto simp: needs_mark_def)
  then show "ca_marked (fr_calls r ! h)" using ok h l by (simp add: carried_ok_def)
qed (use h r' in auto)

lemma carried_early:
  assumes ok: "carried_ok i r" and h: "h < length (fr_calls r)"
  shows "ca_phase (fr_calls r ! h) = PhAuthorise \<Longrightarrow> carried_ok i (handle_verdict h v r)"
    and "ca_phase (fr_calls r ! h) = PhPort \<Longrightarrow> carried_ok i (handle_port h r)"
    and "ca_phase (fr_calls r ! h) = PhSteady p \<Longrightarrow> carried_ok i (handle_steady h p r)"
    and "ca_phase (fr_calls r ! h) = PhPending p \<Longrightarrow> carried_ok i (handle_pending h p r)"
proof -
  have upd: "carried_ok i (upd_call h (\<lambda>c. c\<lparr>ca_verdict := x, ca_phase := ph\<rparr>) r)"
    if "unmarked_phase (ca_phase (fr_calls r ! h))" "unmarked_phase ph \<or> finished ph" for x ph
    using that by (intro carried_go [OF ok h, where ph = ph and v = x]) simp_all
  have go: "carried_ok i (go_phase h ph x)"
    if "unmarked_phase (ca_phase (fr_calls r ! h))" "unmarked_phase ph \<or> finished ph"
      "fr_calls x = fr_calls r" "fr_carried x = fr_carried r" "fr_carriedOrder x = fr_carriedOrder r" "queued x = queued r" "fr_wire x = fr_wire r" for x ph
    using that by (intro carried_go [OF ok h, where ph = ph and v = "ca_verdict (fr_calls r ! h)"]) (simp_all add: go_phase_def)
  show "ca_phase (fr_calls r ! h) = PhAuthorise \<Longrightarrow> carried_ok i (handle_verdict h v r)"
    by (simp add: handle_verdict_def upd go split: option.split)
  show "ca_phase (fr_calls r ! h) = PhPort \<Longrightarrow> carried_ok i (handle_port h r)"
    "ca_phase (fr_calls r ! h) = PhSteady p \<Longrightarrow> carried_ok i (handle_steady h p r)"
    "ca_phase (fr_calls r ! h) = PhPending p \<Longrightarrow> carried_ok i (handle_pending h p r)"
    by (simp_all add: handle_port_def handle_steady_def handle_pending_def go split: option.split)
qed

text \<open>Marking: with room in the set nothing is evicted and the call becomes the P#'s only owner.\<close>

lemma carried_mark:
  assumes ok: "carried_ok i r" and h: "h < length (fr_calls r)" "ca_phase (fr_calls r ! h) = PhMark p"
    and few: "commands_on i r \<le> maxCarriedPerLink"
  shows "carried_ok i (handle_mark h p r)"
proof (cases "hr_PNumber (ca_req (fr_calls r ! h)) \<in> fr_carried r (hr_InterfaceID (ca_req (fr_calls r ! h)))")
  case True
  then show ?thesis
    by (intro carried_go [OF ok h(1), where ph = "PhDone (unknown_response ''DUPLICATE_COMMAND'')" and v = "ca_verdict (fr_calls r ! h)"])
      (simp_all add: handle_mark_def markCarried_def Let_def go_phase_def h)
next
  case False
  let ?c = "fr_calls r ! h" and ?r' = "handle_mark h p r"
  let ?j = "hr_InterfaceID (ca_req ?c)" and ?pn = "hr_PNumber (ca_req ?c)"
  obtain s order where ev: "evict_carried (fr_carried r ?j) (fr_carriedOrder r ?j) = (s, order)" by fastforce
  have r': "fr_calls ?r' = (fr_calls r)[h := ?c\<lparr>ca_phase := PhSubmit p, ca_marked := True\<rparr>]"
    "fr_carried ?r' = (fr_carried r)(?j := insert ?pn s)" "fr_carriedOrder ?r' = (fr_carriedOrder r)(?j := order @ [?pn])"
    "queued ?r' = queued r" "fr_wire ?r' = fr_wire r"
    using False ev by (simp_all add: handle_mark_def markCarried_def Let_def queued_def)
  have req: "ca_req (fr_calls ?r' ! k) = ca_req (fr_calls r ! k)" "on_link i (fr_calls ?r' ! k) = on_link i (fr_calls r ! k)"
    if "k < length (fr_calls r)" for k using h by (cases "k = h"; simp add: r' on_link_def)+
  have other: "fr_calls ?r' ! k = fr_calls r ! k" "needs_mark ?r' k = needs_mark r k" if "k \<noteq> h" for k
    using that by (simp_all add: r' needs_mark_def)
  have n: "commands_on i ?r' = commands_on i r"
    using length_filter_update [OF h(1), of "on_link i" "?c\<lparr>ca_phase := PhSubmit p, ca_marked := True\<rparr>"]
    by (simp add: commands_on_def on_link_def r')
  have u: "unmarked_on i ?r' + of_bool (?j = i) = unmarked_on i r"
    using length_filter_update [OF h(1), of "\<lambda>c. on_link i c \<and> unmarked_phase (ca_phase c)" "?c\<lparr>ca_phase := PhSubmit p, ca_marked := True\<rparr>"] h(2)
    by (simp add: unmarked_on_def on_link_def r')
  show ?thesis
  proof (cases "?j = i")
    case False
    then have "\<not> on_link i ?c" by (simp add: on_link_def)
    then have k: "fr_calls ?r' ! k = fr_calls r ! k" "needs_mark ?r' k = needs_mark r k" if "on_link i (fr_calls r ! k)" for k
      using that other by metis+
    have "length (fr_calls ?r') = length (fr_calls r)" by (simp add: r')
    then show ?thesis using ok False u n by (simp add: carried_ok_def r'(2,3) req k cong: conj_cong imp_cong)
  next
    case True
    have fin: "finite (fr_carried r i)" "fr_carried r i \<subseteq> set (fr_carriedOrder r i)"
      "length (fr_carriedOrder r i) + unmarked_on i r \<le> commands_on i r" using ok by (simp_all add: carried_ok_def)
    have "card (fr_carried r i) \<le> length (fr_carriedOrder r i)"
      using fin(2) by (meson List.finite_set card_length card_mono order_trans)
    then have e: "s = fr_carried r i" "order = fr_carriedOrder r i"
      using ev evict_room [of "fr_carried r i" "fr_carriedOrder r i"] fin(3) u few True by simp_all
    have m: "ca_marked (fr_calls r ! k) \<Longrightarrow> k < length (fr_calls r) \<Longrightarrow> on_link i (fr_calls r ! k) \<Longrightarrow> k \<noteq> h
        \<and> hr_PNumber (ca_req (fr_calls r ! k)) \<in> fr_carried r i \<and> hr_PNumber (ca_req (fr_calls r ! k)) \<noteq> ?pn" for k
      using ok False True unfolding carried_ok_def by (metis on_link_def)
    have mk: "ca_marked (fr_calls ?r' ! k) \<longleftrightarrow> k = h \<or> ca_marked (fr_calls r ! k)" if "k < length (fr_calls r)" for k
      using h by (cases "k = h") (simp_all add: r')
    have "length (fr_carriedOrder ?r' i) + unmarked_on i ?r' \<le> commands_on i ?r'" using fin(3) u n True by (simp add: r' e)
    moreover have "\<forall>k < length (fr_calls r). on_link i (fr_calls r ! k) \<longrightarrow>
         (ca_marked (fr_calls ?r' ! k) \<longrightarrow> hr_PNumber (ca_req (fr_calls r ! k)) \<in> insert ?pn (fr_carried r i))
         \<and> (needs_mark ?r' k \<longrightarrow> ca_marked (fr_calls ?r' ! k))"
      using mk m other ok unfolding carried_ok_def by (metis insert_iff)
    moreover have "\<forall>k < length (fr_calls r). \<forall>l < length (fr_calls r). on_link i (fr_calls r ! k) \<and> on_link i (fr_calls r ! l)
         \<and> ca_marked (fr_calls ?r' ! k) \<and> ca_marked (fr_calls ?r' ! l)
         \<and> hr_PNumber (ca_req (fr_calls r ! k)) = hr_PNumber (ca_req (fr_calls r ! l)) \<longrightarrow> k = l"
      using mk m ok unfolding carried_ok_def by metis
    ultimately show ?thesis using fin True req by (simp add: carried_ok_def r'(2,3) e r'(1) subset_insertI2)
  qed
qed

lemma carried_marked:
  "carried_ok i r \<Longrightarrow> h < length (fr_calls r) \<Longrightarrow> on_link i (fr_calls r ! h) \<Longrightarrow> needs_mark r h \<Longrightarrow> ca_marked (fr_calls r ! h)"
  by (simp add: carried_ok_def)

lemma carried_give_up_unsent:
  assumes ok: "carried_ok i r" and h: "h < length (fr_calls r)" "needs_mark r h"
    and n: "h \<notin> set (queued r)" "h \<notin> set (fr_wire r)"
  shows "carried_ok i (give_up_unsent h p code r)"
proof -
  let ?c = "fr_calls r ! h" and ?r' = "give_up_unsent h p code r"
  let ?j = "hr_InterfaceID (ca_req ?c)" and ?pn = "hr_PNumber (ca_req ?c)"
  have r': "fr_calls ?r' = (fr_calls r)[h := ?c\<lparr>ca_phase := PhDone (notSent code), ca_marked := False\<rparr>]"
    "fr_carried ?r' = (fr_carried r)(?j := fr_carried r ?j - {?pn})" "fr_carriedOrder ?r' = fr_carriedOrder r"
    "queued ?r' = queued r" "fr_wire ?r' = fr_wire r"
    by (simp_all add: give_up_unsent_def Let_def) (simp add: forget_carried_def)
  have req: "ca_req (fr_calls ?r' ! k) = ca_req (fr_calls r ! k)" "on_link i (fr_calls ?r' ! k) = on_link i (fr_calls r ! k)"
    if "k < length (fr_calls r)" for k using h by (cases "k = h"; simp add: r' on_link_def)+
  have len: "length (fr_calls ?r') = length (fr_calls r)" by (simp add: r')
  have count: "commands_on i ?r' = commands_on i r" "unmarked_on i ?r' \<le> unmarked_on i r"
    using length_filter_update [OF h(1), of "on_link i" "?c\<lparr>ca_phase := PhDone (notSent code), ca_marked := False\<rparr>"]
      length_filter_update [OF h(1), of "\<lambda>c. on_link i c \<and> unmarked_phase (ca_phase c)" "?c\<lparr>ca_phase := PhDone (notSent code), ca_marked := False\<rparr>"]
    by (simp_all add: commands_on_def unmarked_on_def on_link_def r')
  have other: "fr_calls ?r' ! k = fr_calls r ! k" "needs_mark ?r' k = needs_mark r k" if "k \<noteq> h" for k
    using that by (simp_all add: r' needs_mark_def)
  have own: "\<not> ca_marked (fr_calls ?r' ! h)" "\<not> needs_mark ?r' h" using h n by (simp_all add: r' needs_mark_def)
  have mine: "hr_PNumber (ca_req (fr_calls r ! k)) \<noteq> ?pn"
    if k: "k < length (fr_calls r)" "k \<noteq> h" "on_link i (fr_calls r ! k)" "ca_marked (fr_calls r ! k)" "?j = i" for k
    using carried_marked [OF ok h(1) _ h(2)] k ok h(1) unfolding carried_ok_def on_link_def by metis
  have "finite (fr_carried ?r' i)" "fr_carried ?r' i \<subseteq> set (fr_carriedOrder ?r' i)"
    "length (fr_carriedOrder ?r' i) + unmarked_on i ?r' \<le> commands_on i ?r'"
    using ok count by (auto simp: carried_ok_def r'(2,3))
  moreover have "(ca_marked (fr_calls ?r' ! k) \<longrightarrow> hr_PNumber (ca_req (fr_calls r ! k)) \<in> fr_carried ?r' i)
      \<and> (needs_mark ?r' k \<longrightarrow> ca_marked (fr_calls ?r' ! k))" if k: "k < length (fr_calls r)" "on_link i (fr_calls r ! k)" for k
  proof (cases "k = h")
    case False
    moreover have "ca_marked (fr_calls r ! k) \<longrightarrow> hr_PNumber (ca_req (fr_calls r ! k)) \<in> fr_carried r i"
      "needs_mark r k \<longrightarrow> ca_marked (fr_calls r ! k)" using ok k unfolding carried_ok_def by blast+
    ultimately show ?thesis using mine [of k] other [of k] k by (auto simp: r'(2))
  qed (simp add: own)
  moreover have "k = l" if "k < length (fr_calls r)" "l < length (fr_calls r)" "on_link i (fr_calls r ! k)" "on_link i (fr_calls r ! l)"
      "ca_marked (fr_calls ?r' ! k)" "ca_marked (fr_calls ?r' ! l)" "hr_PNumber (ca_req (fr_calls r ! k)) = hr_PNumber (ca_req (fr_calls r ! l))" for k l
    using that own(1) other(1) ok unfolding carried_ok_def by metis
  ultimately show ?thesis unfolding carried_ok_def len using req by simp
qed

lemma carried_step_call:
  assumes ok: "carried_ok i r" and h: "h < length (fr_calls r)" "needs_mark r h"
    and r': "fr_calls r' = (fr_calls r)[h := c']" "ca_req c' = ca_req (fr_calls r ! h)" "ca_marked c' = ca_marked (fr_calls r ! h)"
      "fr_carried r' = fr_carried r" "fr_carriedOrder r' = fr_carriedOrder r"
      "set (queued r') \<union> set (fr_wire r') \<subseteq> insert h (set (queued r) \<union> set (fr_wire r))" "\<not> unmarked_phase (ca_phase c') \<or> ca_phase c' = ca_phase (fr_calls r ! h)"
  shows "carried_ok i r'"
  by (rule carried_update [OF ok h(1) r'(1-6)]) (use r'(7) carried_marked [OF ok h(1) _ h(2)] in auto)

lemma carried_give_up_unknown:
  "carried_ok i r \<Longrightarrow> h < length (fr_calls r) \<Longrightarrow> needs_mark r h \<Longrightarrow> carried_ok i (give_up_unknown h p code r)"
  by (rule carried_step_call [where c' = "(fr_calls r ! h)\<lparr>ca_phase := PhDone (unknown_response code)\<rparr>"])
    (auto simp: give_up_unknown_def go_phase_def)

lemma carried_late:
  assumes ok: "carried_ok i r" and rel: "relay_ok H r" and h: "h < length (fr_calls r)"
  shows "ca_phase (fr_calls r ! h) = PhSubmit p \<Longrightarrow> carried_ok i (handle_submit h p enq r)"
    and "ca_phase (fr_calls r ! h) = PhAck p \<Longrightarrow> carried_ok i (handle_ack h p src r)"
    and "ca_phase (fr_calls r ! h) = PhAwait p \<Longrightarrow> carried_ok i (handle_await h p aw r)"
proof -
  have c: "call_ok H (fr_enabled r) (fr_calls r ! h) (h \<in> set (queued r)) (h \<in> set (fr_wire r))" using rel h by (simp add: relay_ok_def)
  have go: "carried_ok i (go_phase h ph x)" if "needs_mark r h" "\<not> unmarked_phase ph" "fr_calls x = fr_calls r" "fr_carried x = fr_carried r"
    "fr_carriedOrder x = fr_carriedOrder r" "set (queued x) \<subseteq> insert h (set (queued r))" "fr_wire x = fr_wire r" for ph x
    using that by (intro carried_step_call [OF ok h, where c' = "(fr_calls r ! h)\<lparr>ca_phase := ph\<rparr>"]) (auto simp: go_phase_def)
  have here: "carried_ok i (go_phase h ph r)" if "needs_mark r h" "\<not> unmarked_phase ph" for ph
    by (rule go [OF that]) auto
  show "ca_phase (fr_calls r ! h) = PhSubmit p \<Longrightarrow> carried_ok i (handle_submit h p enq r)"
  proof -
    assume ph: "ca_phase (fr_calls r ! h) = PhSubmit p"
    let ?x = "upd_port p (\<lambda>q. q\<lparr>rp_queue := rp_queue q @ [h]\<rparr>) r"
    have m: "needs_mark r h" "h \<notin> set (queued r)" "h \<notin> set (fr_wire r)" using ph c by (simp_all add: needs_mark_def call_ok_def)
    have "set (queued ?x) \<subseteq> insert h (set (queued r))"
    proof (cases "p < length (fr_store r)")
      case True
      show ?thesis by (rule queued_split [OF True]) auto
    qed (simp add: queued_def list_update_beyond subset_insertI)
    then show ?thesis using ok h m by (simp add: handle_submit_def carried_give_up_unsent go)
  qed
  show "carried_ok i (handle_ack h p src r)" if ph: "ca_phase (fr_calls r ! h) = PhAck p"
  proof -
    have m: "needs_mark r h" using ph by (simp add: needs_mark_def)
    have "h \<notin> set (queued r) \<and> h \<notin> set (fr_wire r)" if "ca_ack (fr_calls r ! h) = Some (AckRefused x)" for x
      using c that by (auto simp: call_ok_def)
    then show ?thesis using ok h m here [OF m] carried_give_up_unsent [OF ok h m] carried_give_up_unknown [OF ok h m]
      by (auto simp: handle_ack_def split: ack_source.split option.split write_ack.split)
  qed
  show "carried_ok i (handle_await h p aw r)" if ph: "ca_phase (fr_calls r ! h) = PhAwait p"
  proof -
    have m: "needs_mark r h" using ph by (simp add: needs_mark_def)
    then show ?thesis using ok here [OF m] carried_give_up_unknown [OF ok h m]
      by (auto simp: handle_await_def split: await_source.split option.split)
  qed
qed

lemma queued_pop:
  assumes "p < length (fr_store r)" "rp_queue (fr_store r ! p) = h # hs"
  shows "h \<in> set (queued r)" "set (queued (upd_port p (\<lambda>q. q\<lparr>rp_queue := hs\<rparr>) r)) \<subseteq> set (queued r)"
  using queued_split [OF assms(1)] by (metis assms(2) in_set_conv_decomp append_Cons append_assoc, rule queued_split [OF assms(1)], auto simp: assms(2))

lemma carried_writer:
  assumes ok: "carried_ok i r" and rel: "relay_ok H r"
  shows "carried_ok i (writer_take Room p alright reached r)"
proof (cases "length (fr_store r) \<le> p \<or> rp_done (fr_store r ! p) \<or> rp_queue (fr_store r ! p) = []")
  case True
  then show ?thesis using ok by (auto simp: writer_take_def)
next
  case False
  then obtain h hs where p: "p < length (fr_store r)" "\<not> rp_done (fr_store r ! p)" "rp_queue (fr_store r ! p) = h # hs"
    by (cases "rp_queue (fr_store r ! p)") auto
  let ?x = "upd_port p (\<lambda>q. q\<lparr>rp_queue := hs\<rparr>) r"
  have h: "h < length (fr_calls r)" "needs_mark r h" using rel queued_pop [OF p(1,3)] by (auto simp: relay_ok_def needs_mark_def)
  have ack: "carried_ok i (ack_call h a (if w then ?x\<lparr>fr_wire := fr_wire r @ [h]\<rparr> else ?x))" for a w
    using queued_pop [OF p(1,3)]
    by (intro carried_step_call [OF ok h, where c' = "(fr_calls r ! h)\<lparr>ca_ack := Some a\<rparr>"]) (auto simp: ack_call_def)
  have stop: "carried_ok i (upd_port p (\<lambda>q. q\<lparr>rp_done := True\<rparr>) y)" if "carried_ok i y" for y
    by (rule carried_same [OF that]) simp_all
  show ?thesis using p ack [of _ False] ack [of _ True] unfolding writer_take_def Let_def by (simp add: stop)
qed

lemma carried_onPA: "carried_ok i r \<Longrightarrow> relay_ok H r \<Longrightarrow> carried_ok i (onPA p body r)"
proof -
  assume ok: "carried_ok i r" and rel: "relay_ok H r"
  have "carried_ok i (upd_call h (\<lambda>c. c\<lparr>ca_answer := a\<rparr>) (upd_port p (\<lambda>q. q\<lparr>rp_pending := None\<rparr>) r))" if h: "h < length (fr_calls r)" for h a
    by (rule carried_update [OF ok h, where c' = "(fr_calls r ! h)\<lparr>ca_answer := a\<rparr>"])
      (use carried_marked [OF ok h] in \<open>auto simp: needs_mark_def\<close>)
  moreover have "h < length (fr_calls r)" if "p < length (fr_store r)" "rp_pending (fr_store r ! p) = Some (pn, h)" for pn h
    using rel that by (force simp: relay_ok_def pendings_def)
  ultimately show ?thesis using ok by (auto simp: onPA_def Let_def split: option.split)
qed

lemma carried_ports:
  assumes "carried_ok i r"
  shows "carried_ok i (writer_stop p r)" "carried_ok i (setSteady p v r)" "carried_ok i (detach p r)" "carried_ok i (attach j r)"
    "carried_ok i (ObserveGuestRecord Room j rt res room r)"
proof -
  have upd: "carried_ok i (upd_port p f x)" if "carried_ok i x" "\<And>q. rp_queue (f q) = rp_queue q" for f x
    by (rule carried_same [OF that(1)]) (simp_all add: that)
  have drop: "carried_ok i (r\<lparr>fr_ports := a, fr_seen := b\<rparr>)" for a b by (rule carried_same [OF assms]) (simp_all add: queued_def)
  show "carried_ok i (writer_stop p r)" "carried_ok i (setSteady p v r)" "carried_ok i (detach p r)"
    using assms drop by (simp_all add: writer_stop_def setSteady_def detach_def Let_def upd)
  show "carried_ok i (attach j r)" by (rule carried_same [OF assms]) (simp_all add: attach_def queued_def)
  show "carried_ok i (ObserveGuestRecord Room j rt res room r)"
    by (rule carried_same [OF assms]) (auto simp: ObserveGuestRecord_def queued_def Let_def split: option.split)
qed

lemma relay_step_carried:
  assumes ok: "carried_ok i r" and rel: "relay_ok H r" and few: "commands_on i r \<le> maxCarriedPerLink"
  shows "carried_ok i (relay_step H Room r e)"
proof -
  note late = carried_late [OF ok rel]
  show ?thesis using ok by (cases e) (simp_all add: carried_enter [OF ok rel] carried_early [OF ok] carried_mark [OF ok _ _ few]
      late carried_writer [OF ok rel] carried_onPA [OF ok rel] carried_ports [OF ok] phase_of_Some split: option.split call_phase.split)
qed

fun enters :: "string \<Rightarrow> relay_event \<Rightarrow> bool" where
  "enters i (RvEnter req readable) = (hr_InterfaceID req = i)"
| "enters i _ = False"

lemma fields_unchanged [simp]:
  "length (fr_calls (go_phase h ph r)) = length (fr_calls r)" "length (fr_calls (give_up_unknown h p code r)) = length (fr_calls r)"
  "length (fr_calls (give_up_unsent h p code r)) = length (fr_calls r)" "length (fr_calls (handle_mark h p r)) = length (fr_calls r)"
  by (auto simp: go_phase_def give_up_unknown_def give_up_unsent_def handle_mark_def markCarried_def Let_def
      split: if_splits prod.split bool.split)

lemma length_calls_step:
  assumes "\<And>req b. e \<noteq> RvEnter req b"
  shows "length (fr_calls (relay_step H Room r e)) = length (fr_calls r)"
proof (cases e)
  case (RvWriter p alright reached)
  then show ?thesis using calls_writer [of Room p alright reached r] by auto
next
  case (RvPA p body)
  then show ?thesis using calls_onPA [of p body r] by auto
qed (use assms in \<open>auto simp: handle_verdict_def handle_port_def handle_steady_def handle_pending_def handle_submit_def handle_ack_def
      handle_await_def calls_ports split: option.split call_phase.split ack_source.split await_source.split write_ack.split\<close>)

lemma commands_on_step: "commands_on i (relay_step H Room r e) = commands_on i r + of_bool (enters i e)"
proof (cases "\<exists>req b. e = RvEnter req b")
  case True
  then show ?thesis by (auto simp: commands_on_def on_link_def handle_enter_def)
next
  case False
  have via: "commands_on i x = length (filter (\<lambda>q. hr_InterfaceID q = i) (map ca_req (fr_calls x)))" for x
    by (simp add: commands_on_def on_link_def [abs_def] filter_map comp_def)
  have len: "length (fr_calls (relay_step H Room r e)) = length (fr_calls r)" using False by (intro length_calls_step) blast
  then have "map ca_req (fr_calls (relay_step H Room r e)) = map ca_req (fr_calls r)"
    using relay_step_le [of r H Room e] by (intro nth_equalityI) (simp_all add: calls_le_def call_le_def)
  moreover have "\<not> enters i e" using False by (cases e) auto
  ultimately show ?thesis by (simp add: via)
qed

lemma commands_on_run: "commands_on i (run (relay_step H Room) r evs) = commands_on i r + length (filter (enters i) evs)"
  by (induction evs arbitrary: r) (simp_all add: commands_on_step)

lemma run_carried:
  "carried_ok i r \<Longrightarrow> relay_ok H r \<Longrightarrow> commands_on i r + length (filter (enters i) evs) \<le> maxCarriedPerLink \<Longrightarrow>
   carried_ok i (run (relay_step H Room) r evs)"
  by (induction evs arbitrary: r) (simp_all add: relay_step_ok relay_step_carried commands_on_step split: if_splits)

lemma enabled_step: "fr_enabled (relay_step H Room r e) = fr_enabled r"
  by (cases e) (auto simp: handle_enter_def handle_verdict_def handle_port_def handle_steady_def handle_pending_def handle_mark_def
      handle_submit_def handle_ack_def handle_await_def go_phase_def give_up_unknown_def give_up_unsent_def markCarried_def
      writer_take_def ack_call_def onPA_def writer_stop_def setSteady_def attach_def detach_def ObserveGuestRecord_def Let_def
      split: option.split call_phase.split ack_source.split await_source.split write_ack.split prod.split list.split)

lemma enabled_stays: "fr_enabled (run (relay_step H Room) (NewFinancialRelay en au) evs) = en"
proof -
  have "fr_enabled (run (relay_step H Room) r evs) = fr_enabled r" for r
    by (induction evs arbitrary: r) (simp_all add: enabled_step)
  then show ?thesis by (simp add: NewFinancialRelay_def)
qed

lemma carried_wire_distinct:
  assumes ok: "carried_ok i r" and rel: "relay_ok H r"
  shows "distinct (map (\<lambda>h. hr_PNumber (ca_req (fr_calls r ! h))) (filter (\<lambda>h. on_link i (fr_calls r ! h)) (fr_wire r)))"
proof -
  have w: "h < length (fr_calls r) \<and> needs_mark r h" if "h \<in> set (fr_wire r)" for h
    using rel that by (auto simp: relay_ok_def needs_mark_def)
  then have "inj_on (\<lambda>h. hr_PNumber (ca_req (fr_calls r ! h))) (set (filter (\<lambda>h. on_link i (fr_calls r ! h)) (fr_wire r)))"
    using ok unfolding inj_on_def carried_ok_def by simp
  then show ?thesis using rel by (simp add: distinct_map relay_ok_def)
qed

lemma written_authorised:
  assumes rel: "relay_ok H r" and h: "h \<in> set (fr_wire r)"
  shows "fr_enabled r \<and> request_Validate H (ca_req (fr_calls r ! h)) = None \<and> ca_verdict (fr_calls r ! h) = Some ''AUTHORISED''"
proof -
  have "h < length (fr_calls r)" using rel h by (auto simp: relay_ok_def)
  then have "call_ok H (fr_enabled r) (fr_calls r ! h) (h \<in> set (queued r)) (h \<in> set (fr_wire r))" using rel by (simp add: relay_ok_def)
  then show ?thesis using h by (simp add: call_ok_def)
qed

text \<open>
  C26: A record reaches the socket only for a command that was well formed, carried by a relay that is
  deployed, and authorised by the database. And however commands race, a P# is written at most once
  on a link, for as long as the process has been given no more than \<open>maxCarriedPerLink\<close> commands for
  that link (from then on the oldest are forgotten and the database's own check remains).
\<close>

theorem relay_writes_once:
  assumes "r = run (relay_step H Room) (NewFinancialRelay en au) evs"
  shows "(\<forall>h \<in> set (fr_wire r). en \<and> request_Validate H (ca_req (fr_calls r ! h)) = None
            \<and> ca_verdict (fr_calls r ! h) = Some ''AUTHORISED'')
    \<and> (length (filter (enters i) evs) \<le> maxCarriedPerLink \<longrightarrow>
         distinct (map (\<lambda>h. hr_PNumber (ca_req (fr_calls r ! h))) (filter (\<lambda>h. on_link i (fr_calls r ! h)) (fr_wire r))))"
proof -
  have rel: "relay_ok H r" unfolding assms by (rule relay_run_ok)
  have new: "carried_ok i (NewFinancialRelay en au)"
    by (simp add: carried_ok_def NewFinancialRelay_def unmarked_on_def commands_on_def queued_def needs_mark_def)
  have "fr_enabled r = en"
    unfolding assms by (rule enabled_stays)
  then have "\<forall>h \<in> set (fr_wire r). en \<and> request_Validate H (ca_req (fr_calls r ! h)) = None \<and> ca_verdict (fr_calls r ! h) = Some ''AUTHORISED''"
    using written_authorised [OF rel] by simp
  moreover have "carried_ok i r" if "length (filter (enters i) evs) \<le> maxCarriedPerLink"
    unfolding assms using that by (intro run_carried [OF new new_relay_ok]) (simp add: commands_on_def NewFinancialRelay_def)
  ultimately show ?thesis using carried_wire_distinct [OF _ rel] by blast
qed

theorem relay_writes_once_witness:
  "distinct (map (\<lambda>h. hr_PNumber (ca_req (fr_calls sample_relay ! h))) (filter (\<lambda>h. on_link ''i'' (fr_calls sample_relay ! h)) (fr_wire sample_relay)))
   \<and> fr_wire sample_relay = [0]"
proof -
  have "fr_wire sample_relay = [0]" by code_simp
  moreover have "length (filter (enters ''i'') ([RvAttach ''i'', RvSetSteady 0 True, RvEnter sample_command True] @ carry 0
      @ [RvWriter 0 True True, RvAck 0 FromAck, RvPA 0 ''PA|RN1421|P#42|ASOK|'', RvAwait 0 AwAnswer])) \<le> maxCarriedPerLink"
    by (simp add: carry_def maxCarriedPerLink_def)
  ultimately show ?thesis using relay_writes_once [OF sample_relay_def] by blast
qed

section \<open>The guard at the first byte\<close>

text \<open>
  Whatever state the relay is in, a record is added to the wire only by the writer, only while the
  link is steady, and only if the link has not reported the reservation departed or in another room.
\<close>

lemma write_guarded:
  assumes "fr_wire (relay_step H Room r e) \<noteq> fr_wire r"
  shows "\<exists>p h. h \<in> set (queued r) \<and> fr_wire (relay_step H Room r e) = fr_wire r @ [h]
     \<and> rp_steady (fr_store r ! p)
     \<and> (\<forall>lr. seen_lookup r (hr_InterfaceID (ca_req (fr_calls r ! h))) (psField (hr_Body (ca_req (fr_calls r ! h))) ''G#'') = Some lr \<longrightarrow>
          \<not> lr_departed lr \<and> (lr_room lr = [] \<or> lr_room lr = Room (psField (hr_Body (ca_req (fr_calls r ! h))) ''RN'')))"
proof (cases "\<exists>p alright reached. e = RvWriter p alright reached")
  case True
  then obtain p alright reached where e: "e = RvWriter p alright reached" by blast
  then obtain h hs where p: "p < length (fr_store r)" "\<not> rp_done (fr_store r ! p)" "rp_queue (fr_store r ! p) = h # hs"
    using assms by (cases "rp_queue (fr_store r ! p)") (auto simp: writer_take_def split: if_splits)
  let ?req = "ca_req (fr_calls r ! h)"
  have g: "linkGuard Room (hr_InterfaceID ?req) (hr_Body ?req) (fr_store r ! p) r = []" and w: "fr_wire (relay_step H Room r e) = fr_wire r @ [h]"
    using assms p by (auto simp: e writer_take_def Let_def ack_call_def split: if_splits)
  from g have "rp_steady (fr_store r ! p)" "\<forall>lr. seen_lookup r (hr_InterfaceID ?req) (psField (hr_Body ?req) ''G#'') = Some lr \<longrightarrow>
       \<not> lr_departed lr \<and> (lr_room lr = [] \<or> lr_room lr = Room (psField (hr_Body ?req) ''RN''))"
    by (auto simp: linkGuard_def Let_def split: if_splits option.splits)
  then show ?thesis using w queued_pop(1) [OF p(1,3)] by blast
next
  case False
  then have "fr_wire (relay_step H Room r e) = fr_wire r"
    by (cases e) (auto simp: handle_enter_def handle_verdict_def handle_port_def handle_steady_def handle_pending_def handle_mark_def
      handle_submit_def handle_ack_def handle_await_def go_phase_def give_up_unknown_def give_up_unsent_def markCarried_def
      onPA_def writer_stop_def setSteady_def attach_def detach_def ObserveGuestRecord_def Let_def
      split: option.split call_phase.split ack_source.split await_source.split write_ack.split prod.split)
  then show ?thesis using assms by simp
qed

section \<open>Two commands with one P#\<close>

text \<open>
  The check for a repeated P# at the head of \<open>Handle\<close> and the mark before the write are apart. A second
  command with the same P# that passes the first check before the first command is marked is answered
  NOT_TRANSMITTED (\<open>LINK_BUSY\<close>) although the P# is on the wire by then. The posting engine hands a P#
  over once, so the case needs a client that repeats a command while it is in flight.
\<close>

definition racing_relay :: financial_relay where
  "racing_relay = run (relay_step (\<lambda>s. s) (\<lambda>s. s)) (NewFinancialRelay True True)
     ([RvAttach ''i'', RvSetSteady 0 True, RvEnter sample_command True, RvEnter sample_command True] @ carry 0
      @ [RvWriter 0 True True, RvVerdict 1 (Some ''AUTHORISED''), RvPort 1, RvSteady 1, RvPending 1])"

theorem repeated_command_answered_unsent:
  "fr_wire racing_relay = [0] \<and> ca_req (fr_calls racing_relay ! 0) = ca_req (fr_calls racing_relay ! 1)
   \<and> phase_of racing_relay 1 = Some (PhDone (notSent ''LINK_BUSY''))"
proof (intro conjI)
  show "fr_wire racing_relay = [0]" by code_simp
  show "ca_req (fr_calls racing_relay ! 0) = ca_req (fr_calls racing_relay ! 1)" by code_simp
  show "phase_of racing_relay 1 = Some (PhDone (notSent ''LINK_BUSY''))" by code_simp
qed

text \<open>
  A refused command takes its P# out of the set but not out of the order: the order of a link grows by
  one entry with every refusal, whatever the bound on the set.
\<close>

definition refused_round :: "string \<Rightarrow> financial_relay \<Rightarrow> int \<Rightarrow> financial_relay" where
  "refused_round i r pn = forget_carried i pn (snd (markCarried i pn r))"

theorem refusals_grow_order:
  assumes "fr_carried r i = {}"
  shows "fr_carriedOrder (run (refused_round i) r pns) i = fr_carriedOrder r i @ pns \<and> fr_carried (run (refused_round i) r pns) i = {}"
  using assms
proof (induction pns arbitrary: r)
  case (Cons pn pns)
  have "evict_carried {} (fr_carriedOrder r i) = ({}, fr_carriedOrder r i)" by (rule evict_room) (simp add: maxCarriedPerLink_def)
  then have "fr_carried (refused_round i r pn) i = {}" "fr_carriedOrder (refused_round i r pn) i = fr_carriedOrder r i @ [pn]"
    using Cons.prems by (simp_all add: refused_round_def markCarried_def forget_carried_def)
  then show ?case using Cons.IH [of "refused_round i r pn"] by simp
qed simp

end
