(* ===== verification/Posting_System.thy ===== *)
theory Posting_System
  imports Posting_Lane Financial_Relay "HOL-Library.Multiset"
begin

text \<open>
  The posting engine of scd (\<open>Posting_Engine\<close>) on top of the relay of pmsd (\<open>Financial_Relay\<close>): the
  send of an attempt enters the relay as a command, the relay's own events go on in any order, and
  the engine acts on a reply. The reply comes with the send: it is fixed before the relay produced it,
  and \<open>genuine\<close> asks that a response the engine acted on is the one the relay gave for that command,
  which admits more orders than the processes have. An exchange that broke off is \<open>HandoffErrOther\<close>
  and asks nothing of the relay, which may write the record later.
\<close>

record posting_system =
  sy_lane :: lane
  sy_relay :: financial_relay
  sy_replies :: "handoff_reply list"

datatype system_event =
    SyLane lane_event
  | SySend nat handoff_reply bool
  | SyRelay relay_event

type_synonym send_world = "string list \<times> financial_relay \<times> handoff_reply list"

text \<open>
  \<open>postinghandoff.Send\<close> against the relay. Only a failed dial leaves the relay out. In the lane the wire
  counts the records that may have been written: those of commands not reported as not transmitted.
\<close>

definition system_send :: "(string \<Rightarrow> string) \<Rightarrow> handoff_reply \<Rightarrow> bool \<Rightarrow> send_world \<Rightarrow> handoff_request \<Rightarrow> send_world \<times> handoff_reply" where
  "system_send H reply readable wd req =
    (case wd of (w, r, reps) \<Rightarrow>
       ((fst (pmsd_send reply (\<not> says_unsent reply) w req),
         if reply = HandoffErrNotSent then (r, reps) else (handle_enter H readable req r, reps @ [reply])), reply))"

definition system_send_step ::
  "posting_config \<Rightarrow> (string \<Rightarrow> string) \<Rightarrow> string \<Rightarrow> nat \<Rightarrow> handoff_reply \<Rightarrow> bool \<Rightarrow> posting_system \<Rightarrow> posting_system" where
  "system_send_step cfg H iface i reply readable s =
    (let l = sy_lane s in
     if length (la_workers l) \<le> i \<or> wk_result (la_workers l ! i) \<noteq> None then s
     else (let wk = la_workers l ! i in
       case run_send cfg (productionTransport H (system_send H reply readable) cfg) iface (la_guard l)
              (la_wire l, sy_relay s, sy_replies s) (wk_pn wk) (wk_body wk) of
         (g, (w, r, reps), res) \<Rightarrow>
           s\<lparr>sy_lane := l\<lparr>la_guard := g, la_wire := w, la_workers := (la_workers l)[i := wk\<lparr>wk_result := Some res\<rparr>]\<rparr>,
             sy_relay := r, sy_replies := reps\<rparr>))"

fun system_step :: "posting_config \<Rightarrow> (string \<Rightarrow> string) \<Rightarrow> (string \<Rightarrow> string) \<Rightarrow> string \<Rightarrow> posting_system \<Rightarrow> system_event \<Rightarrow> posting_system" where
  "system_step cfg H Room iface s (SyLane e) =
     (case e of EvSend _ _ _ \<Rightarrow> s | _ \<Rightarrow> s\<lparr>sy_lane := lane_step cfg H iface (sy_lane s) e\<rparr>)"
| "system_step cfg H Room iface s (SySend i reply readable) = system_send_step cfg H iface i reply readable s"
| "system_step cfg H Room iface s (SyRelay e) =
     (case e of RvEnter _ _ \<Rightarrow> s | _ \<Rightarrow> s\<lparr>sy_relay := relay_step H Room (sy_relay s) e\<rparr>)"

definition new_system :: "bool \<Rightarrow> posting_system" where
  "new_system deployed = \<lparr>sy_lane = empty_lane, sy_relay = NewFinancialRelay deployed True, sy_replies = []\<rparr>"

definition genuine :: "posting_system \<Rightarrow> bool" where
  "genuine s \<longleftrightarrow> (\<forall>h < length (sy_replies s). case sy_replies s ! h of
      HandoffResponse result code pa \<Rightarrow>
        phase_of (sy_relay s) h = Some (PhDone \<lparr>hp_Result = result, hp_Code = code, hp_PABody = pa\<rparr>)
    | _ \<Rightarrow> True)"

definition records_written :: "posting_system \<Rightarrow> string list" where
  "records_written s = map (\<lambda>h. hr_Body (ca_req (fr_calls (sy_relay s) ! h))) (fr_wire (sy_relay s))"

definition charges_written :: "posting_system \<Rightarrow> string \<Rightarrow> string list" where
  "charges_written s q = filter (\<lambda>b. pnOfBody b \<in> at_p ` set (attempts_of (la_db (sy_lane s)) q)) (records_written s)"

section \<open>The system runs the lane\<close>

text \<open>One send of the lane, in the system and in the lane alone, and what it does to the relay.\<close>

definition handed_over :: "(string \<Rightarrow> string) \<Rightarrow> string \<Rightarrow> int \<Rightarrow> string \<Rightarrow> handoff_reply \<Rightarrow> send_world \<Rightarrow> send_world \<Rightarrow> bool" where
  "handed_over H iface pn body reply wd wd' \<longleftrightarrow> wd' = wd \<or>
     (\<exists>readable. reply \<noteq> HandoffErrNotSent \<and>
        (case wd of (w, r, reps) \<Rightarrow>
           wd' = (if says_unsent reply then w else w @ [body], handle_enter H readable (handoff_request_of H iface pn body) r, reps @ [reply])))"

lemma handoff_SendPS_world:
  assumes "handoff_SendPS H (system_send H reply readable) wd iface pn body = (wd', res)"
  shows "handoff_SendPS H (pmsd_send reply (\<not> says_unsent reply)) (fst wd) iface pn body = (fst wd', res)"
    and "handed_over H iface pn body reply wd wd'"
proof -
  show "handoff_SendPS H (pmsd_send reply (\<not> says_unsent reply)) (fst wd) iface pn body = (fst wd', res)"
    using assms by (auto simp: handoff_SendPS_def Let_def system_send_def pmsd_send_def split: option.splits prod.splits)
  show "handed_over H iface pn body reply wd wd'"
  proof (cases "request_Validate H (handoff_request_of H iface pn body) = None \<and> reply \<noteq> HandoffErrNotSent")
    case True
    then show ?thesis using assms
      by (auto simp: handoff_SendPS_def Let_def system_send_def pmsd_send_def handed_over_def handoff_request_of_def split: prod.splits)
  next
    case False
    then show ?thesis using assms
      by (auto simp: handoff_SendPS_def Let_def system_send_def pmsd_send_def handed_over_def says_unsent_def split: option.splits prod.splits)
  qed
qed

lemma dark_SendPS_world:
  assumes "dark_SendPS cfg (productionTransport H (system_send H reply readable) cfg) g wd iface pn body = (g', wd', res)"
  shows "dark_SendPS cfg (productionTransport H (pmsd_send reply (\<not> says_unsent reply)) cfg) g (fst wd) iface pn body = (g', fst wd', res)
    \<and> handed_over H iface pn body reply wd wd'"
proof -
  obtain wd1 res1 where i: "handoff_SendPS H (system_send H reply readable) wd iface pn body = (wd1, res1)" by fastforce
  note w = handoff_SendPS_world [OF i]
  have "handed_over H iface pn body reply wd wd" by (simp add: handed_over_def)
  then show ?thesis using assms i w
    by (auto simp: dark_SendPS_def productionTransport_def split: if_splits sum.splits option.splits)
qed

lemma run_send_world:
  assumes "run_send cfg (productionTransport H (system_send H reply readable) cfg) iface g wd pn body = (g', wd', res)"
  shows "run_send cfg (productionTransport H (pmsd_send reply (\<not> says_unsent reply)) cfg) iface g (fst wd) pn body = (g', fst wd', res)
    \<and> handed_over H iface pn body reply wd wd'"
proof -
  obtain g1 wd1 res1 where d: "dark_SendPS cfg (productionTransport H (system_send H reply readable) cfg) g wd iface pn body = (g1, wd1, res1)"
    by (metis prod_cases3)
  then show ?thesis using assms dark_SendPS_world [OF d]
    by (auto simp: run_send_def split: sum.splits option.splits if_splits)
qed

fun lane_event_of :: "system_event \<Rightarrow> lane_event option" where
  "lane_event_of (SyLane e) = (case e of EvSend _ _ _ \<Rightarrow> None | _ \<Rightarrow> Some e)"
| "lane_event_of (SySend i reply readable) = Some (EvSend i reply (\<not> says_unsent reply))"
| "lane_event_of (SyRelay e) = None"

lemma system_send_lane:
  "sy_lane (system_send_step cfg H iface i reply readable s) = send_step cfg H iface i reply (\<not> says_unsent reply) (sy_lane s)"
proof (cases "length (la_workers (sy_lane s)) \<le> i \<or> wk_result (la_workers (sy_lane s) ! i) \<noteq> None")
  case True
  then show ?thesis by (simp add: system_send_step_def send_step_def)
next
  case False
  let ?wk = "la_workers (sy_lane s) ! i"
  obtain g w r reps res where d: "run_send cfg (productionTransport H (system_send H reply readable) cfg) iface (la_guard (sy_lane s))
      (la_wire (sy_lane s), sy_relay s, sy_replies s) (wk_pn ?wk) (wk_body ?wk) = (g, (w, r, reps), res)" by (metis prod_cases3)
  from run_send_world [OF d] False d show ?thesis by (simp add: system_send_step_def send_step_def Let_def)
qed

lemma system_step_lane:
  "sy_lane (system_step cfg H Room iface s e) =
     (case lane_event_of e of None \<Rightarrow> sy_lane s | Some le \<Rightarrow> lane_step cfg H iface (sy_lane s) le)"
  by (cases e) (simp_all add: system_send_lane split: lane_event.split relay_event.split)

lemma lane_events_honest: "lane_event_of e = Some le \<Longrightarrow> honest_event le"
  by (cases e) (auto split: lane_event.splits)

lemma system_run_lane_ok: "lane_ok (sy_lane s) \<Longrightarrow> lane_ok (sy_lane (run (system_step cfg H Room iface) s evs))"
proof (induction evs arbitrary: s)
  case (Cons e evs)
  have "lane_ok (sy_lane (system_step cfg H Room iface s e))"
    using honest_step_ok [OF Cons.prems lane_events_honest] Cons.prems by (auto simp: system_step_lane split: option.split)
  then show ?case using Cons.IH by simp
qed simp

section \<open>What the relay wrote is what the lane may have written\<close>

definition possibly_written :: "handoff_reply list \<Rightarrow> nat list" where
  "possibly_written reps = filter (\<lambda>h. \<not> says_unsent (reps ! h)) [0..<length reps]"

definition body_of :: "financial_relay \<Rightarrow> nat \<Rightarrow> string" where
  "body_of r h = hr_Body (ca_req (fr_calls r ! h))"

definition system_ok :: "(string \<Rightarrow> string) \<Rightarrow> posting_system \<Rightarrow> bool" where
  "system_ok H s \<longleftrightarrow> lane_ok (sy_lane s) \<and> HandoffErrNotSent \<notin> set (sy_replies s) \<and> relay_ok H (sy_relay s) \<and> length (sy_replies s) = length (fr_calls (sy_relay s))
     \<and> la_wire (sy_lane s) = map (body_of (sy_relay s)) (possibly_written (sy_replies s))"

lemma claim_step_wire: "la_wire (claim_step cfg H iface env l) = la_wire l"
proof -
  obtain db g w out ph where r: "run_claim cfg (productionTransport H (pmsd_send HandoffErrOther True) cfg) H env iface
      (la_db l) (la_guard l) (la_wire l) = (db, g, w, out, ph)" by (metis prod_cases5)
  then show ?thesis using run_claim_phase_ok [OF r] by (simp add: claim_step_def)
qed

lemma lane_step_wire:
  assumes "\<And>i reply wrote. e \<noteq> EvSend i reply wrote"
  shows "la_wire (lane_step cfg H iface l e) = la_wire l"
proof (cases e)
  case (EvSend i reply wrote)
  then show ?thesis using assms by blast
qed (simp_all add: claim_step_wire settle_step_def Let_def split: option.split prod.split)

lemma possibly_written_snoc:
  "possibly_written (reps @ [reply]) = possibly_written reps @ (if says_unsent reply then [] else [length reps])"
  by (auto simp: possibly_written_def nth_append intro!: filter_cong)

lemma possibly_written_lt: "h \<in> set (possibly_written reps) \<Longrightarrow> h < length reps"
  by (simp add: possibly_written_def)

lemma system_ok_send:
  assumes ok: "system_ok H s"
  shows "system_ok H (system_send_step cfg H iface i reply readable s)"
proof (cases "length (la_workers (sy_lane s)) \<le> i \<or> wk_result (la_workers (sy_lane s) ! i) \<noteq> None")
  case True
  then show ?thesis using ok by (simp add: system_send_step_def)
next
  case False
  let ?wk = "la_workers (sy_lane s) ! i" and ?s' = "system_send_step cfg H iface i reply readable s"
  let ?w = "la_wire (sy_lane s)" and ?r = "sy_relay s" and ?reps = "sy_replies s"
  obtain g w r reps res where d: "run_send cfg (productionTransport H (system_send H reply readable) cfg) iface (la_guard (sy_lane s))
      (?w, ?r, ?reps) (wk_pn ?wk) (wk_body ?wk) = (g, (w, r, reps), res)" by (metis prod_cases3)
  have s': "la_wire (sy_lane ?s') = w" "sy_relay ?s' = r" "sy_replies ?s' = reps"
    using False d by (simp_all add: system_send_step_def Let_def)
  have lane: "lane_ok (sy_lane ?s')"
    unfolding system_send_lane using ok by (intro lane_ok_send) (simp_all add: system_ok_def)
  have "handed_over H iface (wk_pn ?wk) (wk_body ?wk) reply (?w, ?r, ?reps) (w, r, reps)" using run_send_world [OF d] by simp
  then consider "w = ?w" "r = ?r" "reps = ?reps"
    | readable' where "reply \<noteq> HandoffErrNotSent" "w = (if says_unsent reply then ?w else ?w @ [wk_body ?wk])"
        "r = handle_enter H readable' (handoff_request_of H iface (wk_pn ?wk) (wk_body ?wk)) ?r" "reps = ?reps @ [reply]"
    unfolding handed_over_def by auto
  then show ?thesis
  proof cases
    case 1
    then show ?thesis using ok lane by (simp add: system_ok_def s')
  next
    case 2
    have old: "body_of r h = body_of ?r h" if "h < length ?reps" for h
      using ok that by (simp add: 2 body_of_def handle_enter_def nth_append system_ok_def)
    have new: "body_of r (length ?reps) = wk_body ?wk"
      using ok by (simp add: 2 body_of_def handle_enter_def nth_append system_ok_def handoff_request_of_def)
    have "map (body_of r) (possibly_written ?reps) = map (body_of ?r) (possibly_written ?reps)"
      using old possibly_written_lt by simp
    then have "w = map (body_of r) (possibly_written reps)"
      using ok new by (simp add: 2 possibly_written_snoc system_ok_def)
    moreover have "relay_ok H r" "length reps = length (fr_calls r)"
      using ok by (simp_all add: 2 system_ok_def ok_enter) (simp add: handle_enter_def)
    ultimately show ?thesis using lane ok 2(1,4) by (auto simp: system_ok_def s')
  qed
qed

lemma system_ok_relay:
  assumes ok: "system_ok H s" and e: "\<And>req b. e \<noteq> RvEnter req b"
  shows "system_ok H (s\<lparr>sy_relay := relay_step H Room (sy_relay s) e\<rparr>)"
proof -
  have len: "length (fr_calls (relay_step H Room (sy_relay s) e)) = length (fr_calls (sy_relay s))" using e by (rule length_calls_step)
  then have "body_of (relay_step H Room (sy_relay s) e) h = body_of (sy_relay s) h" if "h < length (sy_replies s)" for h
    using relay_step_le [of "sy_relay s" H Room e] ok that by (simp add: calls_le_def call_le_def body_of_def system_ok_def)
  then have "map (body_of (relay_step H Room (sy_relay s) e)) (possibly_written (sy_replies s)) = map (body_of (sy_relay s)) (possibly_written (sy_replies s))"
    using possibly_written_lt by simp
  then show ?thesis using ok len by (simp add: system_ok_def relay_step_ok)
qed

lemma system_step_ok: "system_ok H s \<Longrightarrow> system_ok H (system_step cfg H Room iface s e)"
proof (cases e)
  case (SyLane le)
  assume ok: "system_ok H s"
  have "lane_ok (sy_lane (system_step cfg H Room iface s e))"
    using honest_step_ok lane_events_honest ok by (auto simp: system_step_lane system_ok_def split: option.split)
  moreover have "la_wire (sy_lane (system_step cfg H Room iface s e)) = la_wire (sy_lane s)"
    unfolding SyLane by (cases le) (simp_all del: lane_step.simps add: lane_step_wire)
  moreover have "sy_relay (system_step cfg H Room iface s e) = sy_relay s" "sy_replies (system_step cfg H Room iface s e) = sy_replies s"
    unfolding SyLane by (cases le; simp)+
  ultimately show ?thesis using ok by (simp add: system_ok_def)
next
  case (SySend i reply readable)
  then show "system_ok H s \<Longrightarrow> ?thesis" by (simp add: system_ok_send)
next
  case (SyRelay re)
  then show "system_ok H s \<Longrightarrow> ?thesis" by (cases re) (simp_all del: relay_step.simps add: system_ok_relay)
qed

lemma new_system_ok: "system_ok H (new_system deployed)"
  by (simp add: system_ok_def new_system_def empty_lane_ok new_relay_ok possibly_written_def) (simp add: NewFinancialRelay_def empty_lane_def)

interpretation system: invariant_machine "system_step cfg H Room iface" "system_ok H" for cfg H Room iface
  by unfold_locales (rule system_step_ok)

text \<open>
  With genuine replies the calls on the relay's wire are among those the lane counts, each once.
\<close>

lemma written_counted:
  assumes ok: "system_ok H s" and g: "genuine s"
  shows "mset (records_written s) \<subseteq># mset (la_wire (sy_lane s))"
proof -
  have rel: "relay_ok H (sy_relay s)" and len: "length (sy_replies s) = length (fr_calls (sy_relay s))"
    and ns: "HandoffErrNotSent \<notin> set (sy_replies s)" and w: "la_wire (sy_lane s) = map (body_of (sy_relay s)) (possibly_written (sy_replies s))"
    using ok unfolding system_ok_def by blast+
  have "h \<in> set (possibly_written (sy_replies s))" if h: "h \<in> set (fr_wire (sy_relay s))" for h
  proof -
    have lt: "h < length (sy_replies s)" using rel h len by (auto simp: relay_ok_def)
    have "\<not> reported_unsent (sy_relay s) h" using relay_handoff.unsent_sound [OF rel, of h] h by blast
    moreover have "sy_replies s ! h \<noteq> HandoffErrNotSent" using ns lt by (metis nth_mem)
    ultimately have "\<not> says_unsent (sy_replies s ! h)" using g lt
      by (auto simp: genuine_def says_unsent_def reported_unsent_def result_defs split: handoff_reply.splits)
    then show ?thesis using lt by (simp add: possibly_written_def)
  qed
  moreover have "distinct (fr_wire (sy_relay s))" "distinct (possibly_written (sy_replies s))"
    using rel by (simp_all add: relay_ok_def possibly_written_def)
  ultimately have "mset (fr_wire (sy_relay s)) \<subseteq># mset (possibly_written (sy_replies s))"
    by (metis mset_set_set subsetI finite_set subset_imp_msubset_mset_set)
  then have "image_mset (body_of (sy_relay s)) (mset (fr_wire (sy_relay s))) \<subseteq># image_mset (body_of (sy_relay s)) (mset (possibly_written (sy_replies s)))"
    by (rule image_mset_subseteq_mono)
  then show ?thesis by (simp add: records_written_def w body_of_def [abs_def])
qed

lemma distinct_sub: "mset xs \<subseteq># mset ys \<Longrightarrow> distinct ys \<Longrightarrow> distinct xs"
  by (metis count_eq_zero_iff distinct_count_atmost_1 le_zero_eq mset_subset_eq_count not_in_iff nat_le_linear le_Suc_eq One_nat_def set_mset_mset)

lemma length_filter_sub:
  assumes "mset xs \<subseteq># mset ys"
  shows "length (filter P xs) \<le> length (filter P ys)"
proof -
  have "size (filter_mset P (mset xs)) \<le> size (filter_mset P (mset ys))"
    by (intro size_mset_mono multiset_filter_mono assms)
  then show ?thesis by (metis mset_filter size_mset)
qed

lemma records_written_nonempty:
  assumes "system_ok H s" "records_written s \<noteq> []"
  shows "fr_enabled (sy_relay s)"
proof -
  obtain h where "h \<in> set (fr_wire (sy_relay s))" using assms(2) by (metis list.map_disc_iff list.set_intros(1) neq_Nil_conv records_written_def)
  then show ?thesis using assms(1) written_authorised [of H "sy_relay s" h] by (simp add: system_ok_def)
qed

lemma system_step_enabled: "fr_enabled (sy_relay (system_step cfg H Room iface s e)) = fr_enabled (sy_relay s)"
proof (cases e)
  case (SySend i reply readable)
  let ?wk = "la_workers (sy_lane s) ! i"
  obtain g w r reps res where d: "run_send cfg (productionTransport H (system_send H reply readable) cfg) iface (la_guard (sy_lane s))
      (la_wire (sy_lane s), sy_relay s, sy_replies s) (wk_pn ?wk) (wk_body ?wk) = (g, (w, r, reps), res)" by (metis prod_cases3)
  have "fr_enabled r = fr_enabled (sy_relay s)"
    using run_send_world [OF d] by (auto simp: handed_over_def handle_enter_def)
  then show ?thesis using SySend d by (simp add: system_send_step_def Let_def)
qed (simp_all add: enabled_step split: lane_event.split relay_event.split del: relay_step.simps)

lemma system_run_enabled: "fr_enabled (sy_relay (run (system_step cfg H Room iface) s evs)) = fr_enabled (sy_relay s)"
  by (induction evs arbitrary: s) (simp_all add: system_step_enabled)

lemma system_dark_wire: "Dark cfg \<Longrightarrow> la_wire (sy_lane (run (system_step cfg H Room iface) s evs)) = la_wire (sy_lane s)"
proof (induction evs arbitrary: s)
  case (Cons e evs)
  have "la_wire (sy_lane (system_step cfg H Room iface s e)) = la_wire (sy_lane s)"
    using silent_step [OF Cons.prems] by (simp add: system_step_lane silent_def split: option.split)
  then show ?case using Cons by simp
qed simp

section \<open>A charge through both processes\<close>

definition sample_system :: posting_system where
  "sample_system = run (system_step lit_config (\<lambda>s. s) (\<lambda>s. s) ''i'') (new_system True)
     ([SyLane (EvCreate sample_env sample_pinned), SyLane (EvClaim sample_env), SyRelay (RvAttach ''i''), SyRelay (RvSetSteady 0 True),
       SySend 0 (HandoffResponse ''ANSWERED'' [] ''PA|RN1421|P#1|ASOK|'') True] @ map SyRelay (carry 0)
      @ map SyRelay [RvWriter 0 True True, RvAck 0 FromAck, RvPA 0 ''PA|RN1421|P#1|ASOK|'', RvAwait 0 AwAnswer]
      @ [SyLane (EvSettle 0 sample_env)])"

lemma sample_system_replies: "sy_replies sample_system = [HandoffResponse ''ANSWERED'' [] ''PA|RN1421|P#1|ASOK|'']"
  by code_simp

lemma sample_system_phase:
  "phase_of (sy_relay sample_system) 0 = Some (PhDone \<lparr>hp_Result = ''ANSWERED'', hp_Code = [], hp_PABody = ''PA|RN1421|P#1|ASOK|''\<rparr>)"
  by code_simp

lemma sample_system_written:
  "charges_written sample_system ''p1'' = [''PS|RN1421|G#77120|TA1500|PTD|SOWIFI|CTWIFI|P#1|WSSTAYCONNECT|'']"
  by code_simp

lemma sample_system_genuine: "genuine sample_system"
  by (simp add: genuine_def sample_system_replies sample_system_phase)

end
