(* ===== verification/Fias_Record.thy ===== *)
theory Fias_Record
  imports Posting_Wire
begin

text \<open>
  The records pmsd reads from a FIAS link: framing (\<open>data-plane/internal/pms/wire.go\<close>, \<open>fias_wire.go\<close>), the
  strict parser and typed projection (\<open>data-plane/internal/pmsd/strict_parse.go\<close>), the event contract and
  the source fingerprint (\<open>events.go\<close>, \<open>lockkey.go\<close>, \<open>toEvent\<close> of \<open>adapter_fias.go\<close>). HMAC-SHA256 and SHA-256
  with hexadecimal are parameters.
\<close>

section \<open>Framing\<close>

definition stx :: char where "stx = char_of (2 :: nat)"
definition etx :: char where "etx = char_of (3 :: nat)"

definition MaxFrameBytes :: nat where "MaxFrameBytes = 16384"

definition WriteFramedRecord :: "string \<Rightarrow> string" where
  "WriteFramedRecord body = stx # body @ [etx]"

text \<open>
  What a read returns on a stream: a body and the rest of the stream, \<open>ErrFrameTooLong\<close>, or the end of the
  stream. The reader collects the body in pieces and refuses as soon as the pieces are too long;
  the outcome does not depend on where they end.
\<close>

datatype frame_read = Frame string string | FrameTooLong | FrameEOF

definition readBody :: "string \<Rightarrow> frame_read" where
  "readBody s =
    (let body = takeWhile (\<lambda>b. b \<noteq> etx) s; rest = dropWhile (\<lambda>b. b \<noteq> etx) s in
     case rest of
       [] \<Rightarrow> if MaxFrameBytes + 1 < length body then FrameTooLong else FrameEOF
     | _ # rest' \<Rightarrow> if MaxFrameBytes + 1 < length body + 1 then FrameTooLong else Frame body rest')"

fun readFramedRecord :: "string \<Rightarrow> frame_read" where
  "readFramedRecord [] = FrameEOF"
| "readFramedRecord (b # s) = (if b \<noteq> stx then readFramedRecord s else readBody s)"

lemma readBody_shorter: "readBody s = Frame body rest \<Longrightarrow> length rest < length s"
proof -
  assume a: "readBody s = Frame body rest"
  have "length (dropWhile (\<lambda>b. b \<noteq> etx) s) \<le> length s" by (rule length_dropWhile_le)
  with a show ?thesis by (auto simp: readBody_def Let_def split: list.splits if_splits)
qed

lemma readFramedRecord_shorter: "readFramedRecord s = Frame body rest \<Longrightarrow> length rest < length s"
  by (induction s) (auto dest: readBody_shorter split: if_splits)

text \<open>All the records of a stream, up to its end or to the first frame that is too long.\<close>

function read_all :: "string \<Rightarrow> string list \<times> bool" where
  "read_all s = (case readFramedRecord s of
       FrameEOF \<Rightarrow> ([], True)
     | FrameTooLong \<Rightarrow> ([], False)
     | Frame body rest \<Rightarrow> (case read_all rest of (bs, alright) \<Rightarrow> (body # bs, alright)))"
  by pat_completeness auto

termination
  by (relation "measure length") (auto dest: readFramedRecord_shorter)

declare read_all.simps [simp del]

section \<open>Records\<close>

datatype record_type = RecGI | RecGC | RecGO | RecLS | RecLA | RecLE | RecDR | RecDS | RecDE | RecPA

fun rt_text :: "record_type \<Rightarrow> string" where
  "rt_text RecGI = ''GI''"
| "rt_text RecGC = ''GC''"
| "rt_text RecGO = ''GO''"
| "rt_text RecLS = ''LS''"
| "rt_text RecLA = ''LA''"
| "rt_text RecLE = ''LE''"
| "rt_text RecDR = ''DR''"
| "rt_text RecDS = ''DS''"
| "rt_text RecDE = ''DE''"
| "rt_text RecPA = ''PA''"

definition record_types :: "record_type list" where
  "record_types = [RecGI, RecGC, RecGO, RecLS, RecLA, RecLE, RecDR, RecDS, RecDE, RecPA]"

text \<open>\<open>RecordType.Valid\<close> and the conversion from two bytes.\<close>

definition rt_of :: "string \<Rightarrow> record_type option" where
  "rt_of s = find (\<lambda>t. rt_text t = s) record_types"

definition IsDomain :: "record_type \<Rightarrow> bool" where
  "IsDomain t \<longleftrightarrow> t \<in> {RecGI, RecGC, RecGO}"

definition IsControl :: "record_type \<Rightarrow> bool" where
  "IsControl t \<longleftrightarrow> t \<in> {RecLS, RecLA, RecLE, RecDR, RecDS, RecDE}"

type_synonym field_pair = "string \<times> string"

record parsed_record =
  pr_RecordType :: record_type
  pr_Fields :: "field_pair list"

datatype record_error = ErrRecordMalformed | ErrIdentityAbsent string

definition hasControlBytes :: "string \<Rightarrow> bool" where
  "hasControlBytes s = list_ex (\<lambda>c. (of_char c :: nat) < 32 \<or> (of_char c :: nat) = 127) s"

definition validFieldCode :: "string \<Rightarrow> bool" where
  "validFieldCode code \<longleftrightarrow> length code = 2 \<and> list_all (\<lambda>c. 33 \<le> (of_char c :: nat) \<and> (of_char c :: nat) \<le> 126) code"

fun parse_segments :: "string list \<Rightarrow> field_pair list option" where
  "parse_segments [] = Some []"
| "parse_segments (s # ss) =
    (if length s < 2 then None
     else if \<not> validFieldCode (take 2 s) \<or> hasControlBytes (drop 2 s) then None
     else case parse_segments ss of None \<Rightarrow> None | Some fs \<Rightarrow> Some ((take 2 s, drop 2 s) # fs))"

definition parseStrictRecord :: "string \<Rightarrow> record_error + parsed_record" where
  "parseStrictRecord body =
    (if length body < 2 then Inl ErrRecordMalformed
     else case rt_of (take 2 body) of
       None \<Rightarrow> Inl ErrRecordMalformed
     | Some rt \<Rightarrow>
         (let rest = drop 2 body in
          if rest = [] then Inr \<lparr>pr_RecordType = rt, pr_Fields = []\<rparr>
          else if hd rest \<noteq> CHR ''|'' then Inl ErrRecordMalformed
          else let rest1 = tl rest in
            if rest1 = [] then Inr \<lparr>pr_RecordType = rt, pr_Fields = []\<rparr>
            else if List.last rest1 \<noteq> CHR ''|'' then Inl ErrRecordMalformed
            else let rest2 = butlast rest1 in
              if rest2 = [] then Inl ErrRecordMalformed
              else case parse_segments (Split (CHR ''|'') rest2) of
                None \<Rightarrow> Inl ErrRecordMalformed
              | Some fs \<Rightarrow> Inr \<lparr>pr_RecordType = rt, pr_Fields = fs\<rparr>))"

definition intendedDomain :: "string \<Rightarrow> bool" where
  "intendedDomain body =
    (if length body < 2 then False else case rt_of (take 2 body) of None \<Rightarrow> False | Some t \<Rightarrow> IsDomain t)"

section \<open>The grammar\<close>

text \<open>A record as the grammar in the comment of the parser writes it.\<close>

definition format_record :: "parsed_record \<Rightarrow> string" where
  "format_record pr = rt_text (pr_RecordType pr) @ CHR ''|'' # concat (map (\<lambda>(code, val). code @ val @ ''|'') (pr_Fields pr))"

definition field_wf :: "field_pair \<Rightarrow> bool" where
  "field_wf f \<longleftrightarrow> validFieldCode (fst f) \<and> \<not> hasControlBytes (snd f) \<and> CHR ''|'' \<notin> set (fst f @ snd f)"

lemma rt_of_Some: "rt_of s = Some t \<longleftrightarrow> s = rt_text t"
  by (cases t) (auto simp: rt_of_def record_types_def split: if_splits)

lemma length_rt_text [simp]: "length (rt_text t) = 2"
  by (cases t) simp_all

lemma parse_segments_Some:
  "parse_segments ss = Some fs \<longleftrightarrow>
     ss = map (\<lambda>(code, val). code @ val) fs \<and> (\<forall>f \<in> set fs. validFieldCode (fst f) \<and> \<not> hasControlBytes (snd f))"
proof (induction ss arbitrary: fs)
  case (Cons s ss)
  show ?case
  proof
    assume "parse_segments (s # ss) = Some fs"
    then obtain fs' where *: "\<not> length s < 2" "validFieldCode (take 2 s)" "\<not> hasControlBytes (drop 2 s)"
        "parse_segments ss = Some fs'" "fs = (take 2 s, drop 2 s) # fs'"
      by (auto split: if_splits option.splits)
    with Cons.IH [of fs'] show "s # ss = map (\<lambda>(code, val). code @ val) fs \<and> (\<forall>f \<in> set fs. validFieldCode (fst f) \<and> \<not> hasControlBytes (snd f))"
      by simp
  next
    assume a: "s # ss = map (\<lambda>(code, val). code @ val) fs \<and> (\<forall>f \<in> set fs. validFieldCode (fst f) \<and> \<not> hasControlBytes (snd f))"
    then obtain code val fs' where fs: "fs = (code, val) # fs'" "s = code @ val" by (cases fs) auto
    then have "parse_segments ss = Some fs'" "length code = 2" using a Cons.IH [of fs'] by (auto simp: validFieldCode_def)
    then show "parse_segments (s # ss) = Some fs" using a fs by auto
  qed
qed auto

lemma Join_bar: "xs \<noteq> [] \<Longrightarrow> Join c xs @ [c] = concat (map (\<lambda>x. x @ [c]) xs)"
  by (induction c xs rule: Join.induct) auto

lemma Join_Split: "Join c (Split c s) = s"
proof (induction c s rule: Split.induct)
  case (2 c x xs)
  then show ?case
    by (cases "x = c"; cases "Split c xs" rule: remdups_adj.cases) auto
qed simp

lemma split_print:
  assumes "fs \<noteq> []" and "\<forall>f \<in> set fs. CHR ''|'' \<notin> set (fst f @ snd f)"
  shows "Split (CHR ''|'') (butlast (concat (map (\<lambda>(code, val). code @ val @ ''|'') fs))) = map (\<lambda>(code, val). code @ val) fs"
    and "concat (map (\<lambda>(code, val). code @ val @ ''|'') fs) = Join (CHR ''|'') (map (\<lambda>(code, val). code @ val) fs) @ ''|''"
proof -
  have "concat (map (\<lambda>(code, val). code @ val @ ''|'') fs) = concat (map (\<lambda>x. x @ ''|'') (map (\<lambda>(code, val). code @ val) fs))"
    by (simp add: comp_def split_def)
  also have "\<dots> = Join (CHR ''|'') (map (\<lambda>(code, val). code @ val) fs) @ ''|''" using assms(1) by (simp add: Join_bar)
  finally show e: "concat (map (\<lambda>(code, val). code @ val @ ''|'') fs) = Join (CHR ''|'') (map (\<lambda>(code, val). code @ val) fs) @ ''|''" .
  show "Split (CHR ''|'') (butlast (concat (map (\<lambda>(code, val). code @ val @ ''|'') fs))) = map (\<lambda>(code, val). code @ val) fs"
    unfolding e using assms by (simp add: Split_Join split_def)
qed

lemma parse_print:
  assumes "\<forall>f \<in> set (pr_Fields pr). field_wf f"
  shows "parseStrictRecord (format_record pr) = Inr pr"
proof (cases "pr_Fields pr")
  case Nil
  then show ?thesis by (simp add: parseStrictRecord_def format_record_def rt_of_Some [THEN iffD2])
next
  case (Cons f fs)
  let ?F = "pr_Fields pr"
  let ?c = "concat (map (\<lambda>(code, val). code @ val @ ''|'') ?F)"
  have bar: "\<forall>f \<in> set ?F. CHR ''|'' \<notin> set (fst f @ snd f)" and wf: "\<forall>f \<in> set ?F. validFieldCode (fst f) \<and> \<not> hasControlBytes (snd f)"
    using assms by (auto simp: field_wf_def)
  have ne: "?F \<noteq> []" using Cons by simp
  note sp = split_print [OF ne bar]
  have "?c \<noteq> []" "List.last ?c = CHR ''|''" unfolding sp(2) by simp_all
  moreover have "length (fst f) = 2" using wf Cons by (auto simp: validFieldCode_def)
  then have "2 \<le> length (butlast ?c)" using Cons by (simp add: split_def)
  then have "butlast ?c \<noteq> []" by (metis list.size(3) not_numeral_le_zero)
  moreover have "parse_segments (Split (CHR ''|'') (butlast ?c)) = Some ?F" unfolding sp(1) parse_segments_Some using wf by simp
  ultimately show ?thesis by (simp add: parseStrictRecord_def format_record_def rt_of_Some [THEN iffD2] Let_def del: concat_eq_Nil_conv)
qed

text \<open>
  Conversely whatever parses is printed back, up to the two short forms of a record without fields.
\<close>

lemma parse_Inr:
  assumes "parseStrictRecord body = Inr pr"
  shows "(\<forall>f \<in> set (pr_Fields pr). field_wf f)
    \<and> (body = format_record pr \<or> body = rt_text (pr_RecordType pr) \<and> pr_Fields pr = [])"
proof -
  from assms obtain rt where len: "2 \<le> length body" and rt: "take 2 body = rt_text rt"
    by (auto simp: parseStrictRecord_def rt_of_Some split: if_splits option.splits)
  let ?rest = "drop 2 body"
  have body: "body = rt_text rt @ ?rest" using rt by (metis append_take_drop_id)
  have pr: "pr_RecordType pr = rt" using assms rt len
    by (auto simp: parseStrictRecord_def rt_of_Some [THEN iffD2] Let_def split: if_splits option.splits)
  consider (bare) "?rest = []" "pr_Fields pr = []" | (bar) "?rest = ''|''" "pr_Fields pr = []"
    | (fields) r fs where "?rest = CHR ''|'' # r @ ''|''" "r \<noteq> []" "parse_segments (Split (CHR ''|'') r) = Some fs" "pr_Fields pr = fs"
  proof -
    assume b: "?rest = [] \<Longrightarrow> pr_Fields pr = [] \<Longrightarrow> thesis" "?rest = ''|'' \<Longrightarrow> pr_Fields pr = [] \<Longrightarrow> thesis"
      and f: "\<And>r fs. ?rest = CHR ''|'' # r @ ''|'' \<Longrightarrow> r \<noteq> [] \<Longrightarrow> parse_segments (Split (CHR ''|'') r) = Some fs \<Longrightarrow> pr_Fields pr = fs \<Longrightarrow> thesis"
    show thesis
    proof (cases ?rest)
      case Nil
      then show ?thesis using b(1) assms rt len by (auto simp: parseStrictRecord_def rt_of_Some [THEN iffD2])
    next
      case (Cons c r1)
      have c: "c = CHR ''|''" using assms rt len Cons by (auto simp: parseStrictRecord_def rt_of_Some [THEN iffD2] split: if_splits)
      show ?thesis
      proof (cases "r1 = []")
        case True
        then show ?thesis using b(2) c Cons assms rt len by (auto simp: parseStrictRecord_def rt_of_Some [THEN iffD2])
      next
        case False
        have l: "List.last r1 = CHR ''|''" "butlast r1 \<noteq> []" "\<exists>fs. parse_segments (Split (CHR ''|'') (butlast r1)) = Some fs \<and> pr_Fields pr = fs"
          using assms rt len Cons c False
          by (auto simp: parseStrictRecord_def rt_of_Some [THEN iffD2] Let_def split: if_splits option.splits)
        have "r1 = butlast r1 @ ''|''" using l(1) False by (metis append_butlast_last_id)
        then show ?thesis using f [of "butlast r1"] l c Cons by metis
      qed
    qed
  qed
  then show ?thesis
  proof cases
    case bare
    then show ?thesis using body pr by simp
  next
    case bar
    then have "format_record pr = rt_text rt @ ?rest" by (simp add: format_record_def pr)
    then show ?thesis using body bar(2) by simp
  next
    case fields
    have seg: "Split (CHR ''|'') r = map (\<lambda>(code, val). code @ val) fs" and wf: "\<forall>f \<in> set fs. validFieldCode (fst f) \<and> \<not> hasControlBytes (snd f)"
      using fields(3) by (simp_all add: parse_segments_Some)
    have "CHR ''|'' \<notin> set (code @ val)" if "(code, val) \<in> set fs" for code val
      using Split_no_sep_in [of "code @ val" "CHR ''|''" r] that unfolding seg by force
    then have bar: "\<forall>f \<in> set fs. CHR ''|'' \<notin> set (fst f @ snd f)" by auto
    have "fs \<noteq> []" using seg by auto
    from split_print(2) [OF this bar] have "concat (map (\<lambda>(code, val). code @ val @ ''|'') fs) = r @ ''|''"
      using Join_Split [of "CHR ''|''" r] seg by simp
    then have "format_record pr = rt_text rt @ ?rest" using fields pr by (simp add: format_record_def)
    then show ?thesis using body wf bar fields(4) by (simp add: field_wf_def)
  qed
qed

text \<open>
  C32: The strict parser accepts exactly its grammar and loses nothing: a body parses to a record iff every
  field of the record has a graphic two-byte code and a value without control bytes and separators,
  and the body is the record printed, or its bare record id when it has no fields. So different
  bodies with fields never parse to the same record, and the source bytes can be rebuilt.
\<close>

theorem parseStrictRecord_exact:
  "parseStrictRecord body = Inr pr \<longleftrightarrow>
     (\<forall>f \<in> set (pr_Fields pr). field_wf f)
     \<and> (body = format_record pr \<or> body = rt_text (pr_RecordType pr) \<and> pr_Fields pr = [])"
proof
  assume "(\<forall>f \<in> set (pr_Fields pr). field_wf f) \<and> (body = format_record pr \<or> body = rt_text (pr_RecordType pr) \<and> pr_Fields pr = [])"
  then show "parseStrictRecord body = Inr pr"
    using parse_print [of pr] by (auto simp: parseStrictRecord_def rt_of_Some [THEN iffD2])
qed (rule parse_Inr)

definition sample_gi :: parsed_record where
  "sample_gi = \<lparr>pr_RecordType = RecGI, pr_Fields = [(''RN'', ''1421''), (''G#'', ''77120''), (''GN'', [])]\<rparr>"

theorem parseStrictRecord_exact_witness: "parseStrictRecord ''GI|RN1421|G#77120|GN|'' = Inr sample_gi"
proof -
  have "\<forall>f \<in> set (pr_Fields sample_gi). field_wf f" by code_simp
  moreover have "''GI|RN1421|G#77120|GN|'' = format_record sample_gi" by code_simp
  ultimately show ?thesis using parseStrictRecord_exact by blast
qed

section \<open>Streams of frames\<close>

lemma until_etx:
  assumes "etx \<notin> set body"
  shows "takeWhile (\<lambda>b. b \<noteq> etx) (body @ s) = body @ takeWhile (\<lambda>b. b \<noteq> etx) s"
    and "dropWhile (\<lambda>b. b \<noteq> etx) (body @ s) = dropWhile (\<lambda>b. b \<noteq> etx) s"
  using assms by (induction body) auto

lemma readBody_frame:
  "etx \<notin> set body \<Longrightarrow> length body \<le> MaxFrameBytes \<Longrightarrow> readBody (body @ etx # s) = Frame body s"
  by (simp add: readBody_def until_etx)

lemma read_noise: "stx \<notin> set noise \<Longrightarrow> readFramedRecord (noise @ s) = readFramedRecord s"
  by (induction noise) auto

lemma stx_etx [simp]: "stx \<noteq> etx" "etx \<noteq> stx"
  by (simp_all add: stx_def etx_def)

definition transmission :: "(string \<times> string) list \<Rightarrow> string" where
  "transmission fs = concat (map (\<lambda>(noise, body). noise @ WriteFramedRecord body) fs)"

lemma read_all_frame:
  assumes "stx \<notin> set noise" "etx \<notin> set body" "length body \<le> MaxFrameBytes"
  shows "read_all (noise @ WriteFramedRecord body @ s) = (case read_all s of (bs, alright) \<Rightarrow> (body # bs, alright))"
proof -
  have "readFramedRecord (noise @ WriteFramedRecord body @ s) = Frame body s"
    using assms by (simp add: read_noise WriteFramedRecord_def readBody_frame)
  then show ?thesis by (subst read_all.simps) simp
qed

lemma read_all_tail: "stx \<notin> set tail \<Longrightarrow> read_all tail = ([], True)"
  using read_noise [of tail "[]"] by (simp add: read_all.simps)

text \<open>
  What is framed is read back. Whatever noise without an STX comes before, between and after the
  frames, reading the stream to its end returns exactly the bodies that were written, in order,
  provided each is within the frame bound and has no ETX; a frame longer than the bound is reported,
  however far it goes on, and the records before it are still returned.
\<close>

theorem frames_roundtrip:
  assumes "\<forall>(noise, body) \<in> set fs. stx \<notin> set noise \<and> etx \<notin> set body \<and> length body \<le> MaxFrameBytes"
    and "stx \<notin> set tail"
  shows "read_all (transmission fs @ tail) = (map snd fs, True)
    \<and> (etx \<notin> set long \<and> MaxFrameBytes + 1 < length long \<longrightarrow> read_all (transmission fs @ tail @ stx # long @ more_bytes) = (map snd fs, False))"
proof -
  have gen: "read_all (transmission fs @ s) = (map snd fs @ fst (read_all s), snd (read_all s))" for s
    using assms(1)
  proof (induction fs)
    case (Cons f fs)
    obtain noise body where f: "f = (noise, body)" by fastforce
    have "read_all (transmission (f # fs) @ s) = (case read_all (transmission fs @ s) of (bs, alright) \<Rightarrow> (body # bs, alright))"
      using read_all_frame [of noise body "transmission fs @ s"] Cons.prems by (simp add: f transmission_def)
    then show ?case using Cons by (simp add: f split: prod.split)
  qed (simp add: transmission_def)
  have "readBody (long @ more_bytes) = FrameTooLong" if l: "etx \<notin> set long" "MaxFrameBytes + 1 < length long"
    using l by (auto simp: readBody_def until_etx Let_def split: list.split)
  then have "read_all (tail @ stx # long @ more_bytes) = ([], False)" if "etx \<notin> set long \<and> MaxFrameBytes + 1 < length long"
    using that read_noise [OF assms(2), of "stx # long @ more_bytes"] by (simp add: read_all.simps)
  then show ?thesis using gen [of tail] gen [of "tail @ stx # long @ more_bytes"] read_all_tail [OF assms(2)] by simp
qed

theorem frames_roundtrip_witness: "read_all (transmission [(''noise'', ''LA|''), ([], ''DS|'')] @ ''x'') = ([''LA|'', ''DS|''], True)"
proof -
  have "\<forall>(noise, body) \<in> set [(''noise'', ''LA|''), ([], ''DS|'')]. stx \<notin> set noise \<and> etx \<notin> set body \<and> length body \<le> MaxFrameBytes"
    by code_simp
  moreover have "stx \<notin> set ''x''" by code_simp
  ultimately have "read_all (transmission [(''noise'', ''LA|''), ([], ''DS|'')] @ ''x'') = (map snd [(''noise'', ''LA|''), ([], ''DS|'')], True)"
    using frames_roundtrip by blast
  then show ?thesis by simp
qed

section \<open>Typed projection\<close>

definition fcRoom :: string where "fcRoom = ''RN''"
definition fcReservation :: string where "fcReservation = ''G#''"
definition fcLastName :: string where "fcLastName = ''GN''"
definition fcFirstName :: string where "fcFirstName = ''GF''"
definition fcFolio :: string where "fcFolio = ''FO''"
definition fcArrival :: string where "fcArrival = ''GA''"
definition fcDeparture :: string where "fcDeparture = ''GD''"
definition fcTravelAgent :: string where "fcTravelAgent = ''A0''"
definition fcVIP :: string where "fcVIP = ''A1''"

lemmas fc_defs = fcRoom_def fcReservation_def fcLastName_def fcFirstName_def fcFolio_def fcArrival_def fcDeparture_def
  fcTravelAgent_def fcVIP_def

definition maxTravelAgentLen :: nat where "maxTravelAgentLen = 128"
definition maxVIPFlagLen :: nat where "maxVIPFlagLen = 32"

text \<open>The occurrences of a code, in order; the loop keeps the last value and the count.\<close>

definition field_values :: "string \<Rightarrow> field_pair list \<Rightarrow> string list" where
  "field_values code fs = map snd (filter (\<lambda>f. fst f = code) fs)"

definition field_value :: "string \<Rightarrow> field_pair list \<Rightarrow> string" where
  "field_value code fs = (case field_values code fs of [] \<Rightarrow> [] | vs \<Rightarrow> List.last vs)"

definition field_count :: "string \<Rightarrow> field_pair list \<Rightarrow> nat" where
  "field_count code fs = length (field_values code fs)"

definition vipFromFlag :: "string \<Rightarrow> bool" where
  "vipFromFlag v = (ToUpper (TrimSpace v) \<notin> {[], ''0'', ''N'', ''NO'', ''F'', ''FALSE''})"

record typed_fields =
  tf_Reservation :: string
  tf_Room :: string
  tf_LastName :: string
  tf_FirstName :: string
  tf_Folio :: string
  tf_Arrival :: string
  tf_Departure :: string
  tf_TravelAgent :: "string option"
  tf_VIP :: "bool option"

definition extractTypedDomainFields :: "parsed_record \<Rightarrow> record_error + typed_fields" where
  "extractTypedDomainFields pr =
    (let fs = pr_Fields pr in
     if 1 < field_count fcRoom fs \<or> 1 < field_count fcReservation fs then Inl ErrRecordMalformed
     else if field_count fcRoom fs = 0 then Inl (ErrIdentityAbsent fcRoom)
     else if field_count fcReservation fs = 0 \<and> pr_RecordType pr \<noteq> RecGO then Inl (ErrIdentityAbsent fcReservation)
     else if list_ex (\<lambda>code. 1 < field_count code fs) [fcLastName, fcFirstName, fcFolio, fcArrival, fcDeparture] then Inl ErrRecordMalformed
     else Inr \<lparr>tf_Reservation = field_value fcReservation fs, tf_Room = field_value fcRoom fs,
       tf_LastName = field_value fcLastName fs, tf_FirstName = field_value fcFirstName fs, tf_Folio = field_value fcFolio fs,
       tf_Arrival = field_value fcArrival fs, tf_Departure = field_value fcDeparture fs,
       tf_TravelAgent = (case field_values fcTravelAgent fs of
           [v] \<Rightarrow> if length v \<le> maxTravelAgentLen \<and> \<not> hasControlBytes v then Some (TrimSpace v) else None | _ \<Rightarrow> None),
       tf_VIP = (case field_values fcVIP fs of
           [v] \<Rightarrow> if length v \<le> maxVIPFlagLen \<and> \<not> hasControlBytes v then Some (vipFromFlag v) else None | _ \<Rightarrow> None)\<rparr>)"

definition reservationAbsent :: "parsed_record \<Rightarrow> bool" where
  "reservationAbsent pr = (\<not> list_ex (\<lambda>f. fst f = fcReservation \<and> TrimSpace (snd f) \<noteq> []) (pr_Fields pr))"

definition roomKey :: "string \<Rightarrow> string" where
  "roomKey s = ToLower (TrimSpace s)"

definition roomOf :: "parsed_record \<Rightarrow> string" where
  "roomOf pr = (case find (\<lambda>f. fst f = fcRoom) (pr_Fields pr) of None \<Rightarrow> [] | Some f \<Rightarrow> roomKey (snd f))"

section \<open>The source fingerprint\<close>

record source_event =
  se_InterfaceID :: string
  se_RecordType :: record_type
  se_NormalizationVersion :: int
  se_ProtocolProfile :: string
  se_Sequence :: string
  se_Pairs :: "field_pair list"

definition enc_token :: "string \<Rightarrow> string" where
  "enc_token s = Itoa (int (length s)) @ CHR '':'' # s @ [char_of (31 :: nat)]"

definition canonical :: "source_event \<Rightarrow> string" where
  "canonical se = concat (map enc_token
    ([''source-event:v2'', se_ProtocolProfile se, se_InterfaceID se, rt_text (se_RecordType se),
      ''nv'' @ Itoa (se_NormalizationVersion se), ''seq'' @ se_Sequence se, ''n='' @ Itoa (int (length (se_Pairs se)))]
     @ concat (map (\<lambda>(c, v). [''c='' @ c, ''v='' @ v]) (se_Pairs se))))"

definition ComputeSourceFingerprint :: "(string \<Rightarrow> string \<Rightarrow> string) \<Rightarrow> string \<Rightarrow> int \<Rightarrow> source_event \<Rightarrow> string \<times> int" where
  "ComputeSourceFingerprint hmac identityKey keyVersion se =
    (if identityKey = [] \<or> keyVersion \<le> 0 then ([], 0)
     else (hmac identityKey (''PMS_EVENT_IDENTITY'' @ char_of (0 :: nat) # canonical se), keyVersion))"

definition ComputeEvidenceHMAC :: "(string \<Rightarrow> string \<Rightarrow> string) \<Rightarrow> string \<Rightarrow> int \<Rightarrow> string \<Rightarrow> string \<times> int" where
  "ComputeEvidenceHMAC hmac key keyVersion data = (hmac key data, keyVersion)"

definition DeriveStayResolutionCandidate :: "(string \<Rightarrow> string) \<Rightarrow> string \<Rightarrow> string \<Rightarrow> string \<Rightarrow> string \<Rightarrow> string" where
  "DeriveStayResolutionCandidate sha tenantID siteID interfaceID reservation =
     sha (concat (map enc_token [''stay-resolution-candidate:v1'', tenantID, siteID, interfaceID, reservation]))"

text \<open>A length-prefixed token can be cut off the front in one way only.\<close>

lemma colon_not_digit: "CHR '':'' \<notin> set (Itoa i)"
  using Itoa_chars [of "CHR '':''" i] by (auto simp: is_digit_def)

lemma enc_token_inject: "enc_token s @ u = enc_token t @ v \<longleftrightarrow> s = t \<and> u = v"
proof
  assume "enc_token s @ u = enc_token t @ v"
  then have "Itoa (int (length s)) @ CHR '':'' # (s @ char_of (31 :: nat) # u) = Itoa (int (length t)) @ CHR '':'' # (t @ char_of (31 :: nat) # v)"
    by (simp add: enc_token_def)
  then have "Itoa (int (length s)) = Itoa (int (length t))" "s @ char_of (31 :: nat) # u = t @ char_of (31 :: nat) # v"
    using append_sep_inject [OF colon_not_digit colon_not_digit] by blast+
  then show "s = t \<and> u = v" by (simp add: Itoa_inject)
qed simp

lemma enc_tokens_inject: "concat (map enc_token ss) = concat (map enc_token ts) \<longleftrightarrow> ss = ts"
proof
  have ne: "enc_token s @ u \<noteq> []" for s u by (simp add: enc_token_def)
  show "concat (map enc_token ss) = concat (map enc_token ts) \<Longrightarrow> ss = ts"
  proof (induction ss arbitrary: ts)
    case Nil
    then show ?case using ne by (cases ts) auto
  next
    case (Cons s ss)
    then show ?case using ne by (cases ts) (auto simp: enc_token_inject)
  qed
qed simp

lemma pairs_tokens_inject:
  "concat (map (\<lambda>(c, v). [''c='' @ c, ''v='' @ v]) ps) = concat (map (\<lambda>(c, v). [''c='' @ c, ''v='' @ v]) qs) \<longleftrightarrow> ps = qs"
proof
  show "concat (map (\<lambda>(c, v). [''c='' @ c, ''v='' @ v]) ps) = concat (map (\<lambda>(c, v). [''c='' @ c, ''v='' @ v]) qs) \<Longrightarrow> ps = qs"
  proof (induction ps arbitrary: qs)
    case Nil
    then show ?case by (cases qs) auto
  next
    case (Cons p ps)
    then show ?case by (cases p; cases qs) auto
  qed
qed simp

lemma rt_text_inject [simp]: "rt_text a = rt_text b \<longleftrightarrow> a = b"
  by (metis option.inject rt_of_Some)

lemma canonical_inject: "canonical a = canonical b \<longleftrightarrow> a = b"
  unfolding canonical_def enc_tokens_inject
  by (cases a; cases b) (auto simp: pairs_tokens_inject [simplified] Itoa_inject)

section \<open>Events\<close>

definition is_hex :: "char \<Rightarrow> bool" where
  "is_hex c \<longleftrightarrow> is_digit c \<or> CHR ''a'' \<le> c \<and> c \<le> CHR ''f'' \<or> CHR ''A'' \<le> c \<and> c \<le> CHR ''F''"

definition uuid_dashes :: "nat list" where
  "uuid_dashes = [8, 13, 18, 23]"

text \<open>Whether \<open>parseUUID16\<close> accepts.\<close>

definition valid_uuid :: "string \<Rightarrow> bool" where
  "valid_uuid s \<longleftrightarrow> length s = 36 \<and> list_all (\<lambda>k. s ! k = CHR ''-'') uuid_dashes
     \<and> list_all (\<lambda>k. k \<in> set uuid_dashes \<or> is_hex (s ! k)) [0..<36]"

definition isHex64 :: "string \<Rightarrow> bool" where
  "isHex64 s \<longleftrightarrow> length s = 64 \<and> list_all is_hex s"

record event_sharer =
  sh_ExternalGuestID :: string
  sh_FirstName :: string
  sh_LastName :: string
  sh_IsPrimary :: bool

record pms_event =
  ev_InterfaceID :: string
  ev_RevisionID :: string
  ev_SecretGenerationID :: string
  ev_NormalizationVer :: int
  ev_RuntimeGeneration :: int
  ev_ResyncGeneration :: int
  ev_RecordType :: record_type
  ev_SourceEventFingerprint :: string
  ev_FingerprintKeyVersion :: int
  ev_ExternalEventIdentity :: string
  ev_StayResolutionCandidate :: string
  ev_ArrivalRaw :: string
  ev_DepartureRaw :: string
  ev_PMSEventTimestampRaw :: string
  ev_PMSEventAt :: "go_time option"
  ev_NormalizedAt :: go_time
  ev_ClockSuspect :: bool
  ev_Cursor :: string
  ev_ReservationRef :: string
  ev_RoomNumber :: string
  ev_FolioRef :: string
  ev_GuestLastName :: string
  ev_GuestFirstName :: string
  ev_TravelAgent :: "string option"
  ev_VIP :: "bool option"
  ev_Sharers :: "event_sharer list"
  ev_SourceEvidenceHash :: string
  ev_EvidenceKeyVersion :: int
  ev_ReceivedAt :: go_time

definition bounded_field :: "nat \<Rightarrow> string \<Rightarrow> bool" where
  "bounded_field n v \<longleftrightarrow> length v \<le> n \<and> \<not> hasControlBytes v"

text \<open>
  \<open>Event.Validate\<close>; the only error is \<open>ErrEventInvalid\<close>. The record type of the model is always one of the
  closed set.
\<close>

definition event_Validate :: "pms_event \<Rightarrow> bool" where
  "event_Validate e =
    (if \<not> valid_uuid (ev_InterfaceID e) then False
     else if \<not> valid_uuid (ev_RevisionID e) then False
     else if ev_SecretGenerationID e \<noteq> [] \<and> \<not> valid_uuid (ev_SecretGenerationID e) then False
     else if ev_NormalizationVer e \<le> 0 then False
     else if \<not> list_all (\<lambda>(v, n). bounded_field n v)
       [(ev_PMSEventTimestampRaw e, 32), (ev_ArrivalRaw e, 32), (ev_DepartureRaw e, 32), (ev_ReservationRef e, 64), (ev_RoomNumber e, 16),
        (ev_FolioRef e, 64), (ev_GuestLastName e, 128), (ev_GuestFirstName e, 128), (ev_Cursor e, 4096)] then False
     else if (case ev_TravelAgent e of None \<Rightarrow> False | Some t \<Rightarrow> \<not> bounded_field maxTravelAgentLen t) then False
     else if ev_NormalizedAt e = 0 then False
     else if 32 < length (ev_Sharers e) then False
     else if \<not> list_all (\<lambda>sh. list_all (bounded_field 128) [sh_ExternalGuestID sh, sh_FirstName sh, sh_LastName sh]) (ev_Sharers e) then False
     else if IsDomain (ev_RecordType e) then
       (if \<not> isHex64 (ev_SourceEventFingerprint e) \<or> ev_FingerprintKeyVersion e \<le> 0 then False
        else if ev_ExternalEventIdentity e \<noteq> ev_SourceEventFingerprint e then False
        else if \<not> isHex64 (ev_SourceEvidenceHash e) \<or> ev_EvidenceKeyVersion e \<le> 0 then False
        else if TrimSpace (ev_RoomNumber e) = [] then False
        else if ev_RecordType e \<noteq> RecGO \<and> TrimSpace (ev_ReservationRef e) = [] then False
        else True)
     else
       (if ev_ReservationRef e \<noteq> [] \<or> ev_RoomNumber e \<noteq> [] \<or> ev_FolioRef e \<noteq> [] \<or> ev_GuestLastName e \<noteq> []
           \<or> ev_GuestFirstName e \<noteq> [] \<or> ev_TravelAgent e \<noteq> None \<or> ev_VIP e \<noteq> None then False
        else True))"

text \<open>What the adapter knows of its link, and the keyed digest and hash.\<close>

record fias_adapter =
  fa_IfaceID :: string
  fa_TenantID :: string
  fa_SiteID :: string
  fa_RevID :: string
  fa_SecretGenerationID :: string
  fa_NormalizationVersion :: int
  fa_evKey :: string
  fa_evKeyNo :: int
  fa_identKey :: string
  fa_identKeyN :: int
  fa_profile :: string
  fa_hmac :: "string \<Rightarrow> string \<Rightarrow> string"
  fa_sha :: "string \<Rightarrow> string"

definition source_of :: "fias_adapter \<Rightarrow> parsed_record \<Rightarrow> source_event" where
  "source_of a pr = \<lparr>se_InterfaceID = fa_IfaceID a, se_RecordType = pr_RecordType pr,
     se_NormalizationVersion = fa_NormalizationVersion a, se_ProtocolProfile = fa_profile a, se_Sequence = [], se_Pairs = pr_Fields pr\<rparr>"

definition toEvent :: "fias_adapter \<Rightarrow> go_time \<Rightarrow> string \<Rightarrow> record_error + pms_event" where
  "toEvent a now body =
    (case parseStrictRecord body of
       Inl e \<Rightarrow> Inl e
     | Inr pr \<Rightarrow>
         (let (fp, fpVer) = ComputeSourceFingerprint (fa_hmac a) (fa_identKey a) (fa_identKeyN a) (source_of a pr);
              (evHash, evVer) = ComputeEvidenceHMAC (fa_hmac a) (fa_evKey a) (fa_evKeyNo a) body
          in case extractTypedDomainFields pr of
               Inl e \<Rightarrow> Inl e
             | Inr tf \<Rightarrow> Inr
                 \<lparr>ev_InterfaceID = fa_IfaceID a, ev_RevisionID = fa_RevID a, ev_SecretGenerationID = fa_SecretGenerationID a,
                  ev_NormalizationVer = fa_NormalizationVersion a, ev_RuntimeGeneration = 0, ev_ResyncGeneration = 0, ev_RecordType = pr_RecordType pr,
                  ev_SourceEventFingerprint = fp, ev_FingerprintKeyVersion = fpVer, ev_ExternalEventIdentity = fp,
                  ev_StayResolutionCandidate =
                    DeriveStayResolutionCandidate (fa_sha a) (fa_TenantID a) (fa_SiteID a) (fa_IfaceID a) (tf_Reservation tf),
                  ev_ArrivalRaw = tf_Arrival tf, ev_DepartureRaw = tf_Departure tf, ev_PMSEventTimestampRaw = [],
                  ev_PMSEventAt = None, ev_NormalizedAt = now, ev_ClockSuspect = False, ev_Cursor = tf_Reservation tf @ '':'' @ tf_Room tf,
                  ev_ReservationRef = tf_Reservation tf, ev_RoomNumber = tf_Room tf, ev_FolioRef = tf_Folio tf,
                  ev_GuestLastName = tf_LastName tf, ev_GuestFirstName = tf_FirstName tf, ev_TravelAgent = tf_TravelAgent tf,
                  ev_VIP = tf_VIP tf, ev_Sharers = [], ev_SourceEvidenceHash = evHash, ev_EvidenceKeyVersion = evVer, ev_ReceivedAt = now\<rparr>))"

datatype reject_reason = Reject_identity_absent | Reject_malformed | Reject_invalid

definition admit_event :: "fias_adapter \<Rightarrow> go_time \<Rightarrow> string \<Rightarrow> reject_reason + pms_event" where
  "admit_event a now body =
    (case toEvent a now body of
       Inl ErrRecordMalformed \<Rightarrow> Inl Reject_malformed
     | Inl (ErrIdentityAbsent _) \<Rightarrow> Inl Reject_identity_absent
     | Inr ev \<Rightarrow> if event_Validate ev then Inr ev else Inl Reject_invalid)"

lemma admit_event_Inr:
  assumes "admit_event a now body = Inr ev"
  obtains pr tf where "parseStrictRecord body = Inr pr" "extractTypedDomainFields pr = Inr tf" "toEvent a now body = Inr ev" "event_Validate ev"
    "ev_SourceEventFingerprint ev = fst (ComputeSourceFingerprint (fa_hmac a) (fa_identKey a) (fa_identKeyN a) (source_of a pr))"
    "ev_RecordType ev = pr_RecordType pr" "ev_RoomNumber ev = tf_Room tf" "ev_ReservationRef ev = tf_Reservation tf"
    "ev_GuestLastName ev = tf_LastName tf" "ev_GuestFirstName ev = tf_FirstName tf" "ev_FolioRef ev = tf_Folio tf"
    "ev_ArrivalRaw ev = tf_Arrival tf" "ev_DepartureRaw ev = tf_Departure tf"
    "ev_FingerprintKeyVersion ev = snd (ComputeSourceFingerprint (fa_hmac a) (fa_identKey a) (fa_identKeyN a) (source_of a pr))"
proof -
  have t: "toEvent a now body = Inr ev" "event_Validate ev"
    using assms by (auto simp: admit_event_def split: sum.splits record_error.splits if_splits)
  obtain pr tf where p: "parseStrictRecord body = Inr pr" "extractTypedDomainFields pr = Inr tf"
    using t(1) by (auto simp: toEvent_def Let_def split: sum.splits prod.splits)
  show ?thesis using t(1) by (intro that [OF p t]) (auto simp: toEvent_def p split: prod.splits)
qed

lemma admitted_room: "admit_event a now body = Inr ev \<Longrightarrow> IsDomain (ev_RecordType ev) \<Longrightarrow> TrimSpace (ev_RoomNumber ev) \<noteq> []"
  by (erule admit_event_Inr) (auto simp: event_Validate_def split: if_splits)

lemma field_value_one: "field_count code fs \<le> 1 \<Longrightarrow>
   field_values code fs = (if field_count code fs = 0 then [] else [field_value code fs]) \<and> (field_count code fs = 0 \<longrightarrow> field_value code fs = [])"
  by (auto simp: field_count_def field_value_def le_Suc_eq length_Suc_conv)

text \<open>
  A typed value is the one occurrence of its code, or the code is absent and the value empty.
\<close>

definition once_or_absent :: "string \<Rightarrow> string \<Rightarrow> field_pair list \<Rightarrow> bool" where
  "once_or_absent code v fs \<longleftrightarrow> field_values code fs = [v] \<or> field_values code fs = [] \<and> v = []"

lemma extract_Inr:
  assumes "extractTypedDomainFields pr = Inr tf"
  shows "field_values fcRoom (pr_Fields pr) = [tf_Room tf]"
    and "once_or_absent fcReservation (tf_Reservation tf) (pr_Fields pr)"
    and "pr_RecordType pr \<noteq> RecGO \<Longrightarrow> field_values fcReservation (pr_Fields pr) = [tf_Reservation tf]"
    and "once_or_absent fcLastName (tf_LastName tf) (pr_Fields pr)" "once_or_absent fcFirstName (tf_FirstName tf) (pr_Fields pr)"
      "once_or_absent fcFolio (tf_Folio tf) (pr_Fields pr)" "once_or_absent fcArrival (tf_Arrival tf) (pr_Fields pr)"
      "once_or_absent fcDeparture (tf_Departure tf) (pr_Fields pr)"
proof -
  let ?fs = "pr_Fields pr"
  have c: "field_count fcRoom ?fs = 1" "field_count fcReservation ?fs \<le> 1" "pr_RecordType pr \<noteq> RecGO \<Longrightarrow> field_count fcReservation ?fs = 1"
    "field_count fcLastName ?fs \<le> 1" "field_count fcFirstName ?fs \<le> 1" "field_count fcFolio ?fs \<le> 1" "field_count fcArrival ?fs \<le> 1"
    "field_count fcDeparture ?fs \<le> 1"
    using assms by (auto simp: extractTypedDomainFields_def Let_def split: if_splits)
  have t: "tf_Room tf = field_value fcRoom ?fs" "tf_Reservation tf = field_value fcReservation ?fs" "tf_LastName tf = field_value fcLastName ?fs"
    "tf_FirstName tf = field_value fcFirstName ?fs" "tf_Folio tf = field_value fcFolio ?fs" "tf_Arrival tf = field_value fcArrival ?fs"
    "tf_Departure tf = field_value fcDeparture ?fs"
    using assms by (auto simp: extractTypedDomainFields_def Let_def split: if_splits)
  have once: "once_or_absent code (field_value code ?fs) ?fs" if "field_count code ?fs \<le> 1" for code
    using field_value_one [OF that] by (auto simp: once_or_absent_def split: if_splits)
  show "field_values fcRoom ?fs = [tf_Room tf]" using c(1) field_value_one [of fcRoom ?fs] by (simp add: t)
  show "pr_RecordType pr \<noteq> RecGO \<Longrightarrow> field_values fcReservation ?fs = [tf_Reservation tf]"
    using c(3) field_value_one [of fcReservation ?fs] by (simp add: t)
  show "once_or_absent fcReservation (tf_Reservation tf) ?fs" "once_or_absent fcLastName (tf_LastName tf) ?fs" "once_or_absent fcFirstName (tf_FirstName tf) ?fs"
    "once_or_absent fcFolio (tf_Folio tf) ?fs" "once_or_absent fcArrival (tf_Arrival tf) ?fs" "once_or_absent fcDeparture (tf_Departure tf) ?fs"
    unfolding t by (rule once; rule c)+
qed


definition sample_smith :: parsed_record where
  "sample_smith = \<lparr>pr_RecordType = RecGI, pr_Fields = [(''RN'', ''1421''), (''G#'', ''77120''), (''GN'', ''Smith'')]\<rparr>"

definition sample_moved :: parsed_record where
  "sample_moved = \<lparr>pr_RecordType = RecGC, pr_Fields = [(''RN'', ''1422''), (''G#'', ''77120''), (''GN'', ''Smith'')]\<rparr>"

definition fingerprint_input :: "fias_adapter \<Rightarrow> parsed_record \<Rightarrow> string" where
  "fingerprint_input a pr = ''PMS_EVENT_IDENTITY'' @ char_of (0 :: nat) # canonical (source_of a pr)"

definition bare_adapter :: fias_adapter where
  "bare_adapter = \<lparr>fa_IfaceID = ''11111111-1111-1111-1111-111111111111'', fa_TenantID = ''t'', fa_SiteID = ''s'',
     fa_RevID = ''22222222-2222-2222-2222-222222222222'', fa_SecretGenerationID = [], fa_NormalizationVersion = 1, fa_evKey = ''k'', fa_evKeyNo = 1,
     fa_identKey = ''i'', fa_identKeyN = 1, fa_profile = ''protel-fias/v1'', fa_hmac = (\<lambda>k d. []), fa_sha = (\<lambda>d. d)\<rparr>"

definition sample_adapter :: fias_adapter where
  "sample_adapter = bare_adapter\<lparr>fa_hmac :=
     (\<lambda>k d. replicate 64 (if d = fingerprint_input bare_adapter sample_smith then CHR ''1'' else CHR ''0''))\<rparr>"

definition sample_event_of :: "parsed_record \<Rightarrow> string \<Rightarrow> pms_event" where
  "sample_event_of pr body =
     \<lparr>ev_InterfaceID = fa_IfaceID bare_adapter, ev_RevisionID = fa_RevID bare_adapter, ev_SecretGenerationID = [],
      ev_NormalizationVer = 1, ev_RuntimeGeneration = 0, ev_ResyncGeneration = 0, ev_RecordType = pr_RecordType pr,
      ev_SourceEventFingerprint = fa_hmac sample_adapter ''i'' (fingerprint_input bare_adapter pr), ev_FingerprintKeyVersion = 1,
      ev_ExternalEventIdentity = fa_hmac sample_adapter ''i'' (fingerprint_input bare_adapter pr),
      ev_StayResolutionCandidate = DeriveStayResolutionCandidate (\<lambda>d. d) ''t'' ''s'' (fa_IfaceID bare_adapter) (field_value fcReservation (pr_Fields pr)),
      ev_ArrivalRaw = [], ev_DepartureRaw = [], ev_PMSEventTimestampRaw = [], ev_PMSEventAt = None, ev_NormalizedAt = 1000, ev_ClockSuspect = False,
      ev_Cursor = field_value fcReservation (pr_Fields pr) @ '':'' @ field_value fcRoom (pr_Fields pr),
      ev_ReservationRef = field_value fcReservation (pr_Fields pr), ev_RoomNumber = field_value fcRoom (pr_Fields pr), ev_FolioRef = [],
      ev_GuestLastName = field_value fcLastName (pr_Fields pr), ev_GuestFirstName = [], ev_TravelAgent = None, ev_VIP = None, ev_Sharers = [],
      ev_SourceEvidenceHash = fa_hmac sample_adapter ''k'' body, ev_EvidenceKeyVersion = 1, ev_ReceivedAt = 1000\<rparr>"

lemma sample_parses:
  "parseStrictRecord ''GI|RN1421|G#77120|GNSmith|'' = Inr sample_smith" "parseStrictRecord ''GC|RN1422|G#77120|GNSmith|'' = Inr sample_moved"
  by code_simp+

lemma sample_uuids: "valid_uuid ''11111111-1111-1111-1111-111111111111''" "valid_uuid ''22222222-2222-2222-2222-222222222222''"
  by code_simp+

lemma sample_digest: "isHex64 (fa_hmac sample_adapter k d)"
proof -
  have "isHex64 (replicate 64 CHR ''1'')" "isHex64 (replicate 64 CHR ''0'')" by code_simp+
  then show ?thesis by (simp add: sample_adapter_def)
qed

lemma sample_source: "source_of sample_adapter pr = source_of bare_adapter pr"
  by (simp add: source_of_def sample_adapter_def)

lemma sample_extracted:
  "extractTypedDomainFields sample_smith = Inr \<lparr>tf_Reservation = ''77120'', tf_Room = ''1421'', tf_LastName = ''Smith'', tf_FirstName = [],
     tf_Folio = [], tf_Arrival = [], tf_Departure = [], tf_TravelAgent = None, tf_VIP = None\<rparr>"
  "extractTypedDomainFields sample_moved = Inr \<lparr>tf_Reservation = ''77120'', tf_Room = ''1422'', tf_LastName = ''Smith'', tf_FirstName = [],
     tf_Folio = [], tf_Arrival = [], tf_Departure = [], tf_TravelAgent = None, tf_VIP = None\<rparr>"
  by code_simp+

lemma sample_values:
  "field_value fcReservation (pr_Fields sample_smith) = ''77120''" "field_value fcRoom (pr_Fields sample_smith) = ''1421''"
  "field_value fcLastName (pr_Fields sample_smith) = ''Smith''"
  "field_value fcReservation (pr_Fields sample_moved) = ''77120''" "field_value fcRoom (pr_Fields sample_moved) = ''1422''"
  "field_value fcLastName (pr_Fields sample_moved) = ''Smith''"
  by code_simp+

lemma sample_bounds:
  "bounded_field n []" "bounded_field 64 ''77120''" "bounded_field 16 ''1421''" "bounded_field 16 ''1422''" "bounded_field 128 ''Smith''"
  "bounded_field 4096 ''77120:1421''" "bounded_field 4096 ''77120:1422''" "TrimSpace ''1421'' \<noteq> []" "TrimSpace ''1422'' \<noteq> []" "TrimSpace ''77120'' \<noteq> []"
  by (simp add: bounded_field_def hasControlBytes_def) (code_simp+)

lemma sample_keys:
  "fa_IfaceID sample_adapter = fa_IfaceID bare_adapter" "fa_RevID sample_adapter = fa_RevID bare_adapter"
  "fa_SecretGenerationID sample_adapter = []" "fa_NormalizationVersion sample_adapter = 1" "fa_identKey sample_adapter = ''i''"
  "fa_identKeyN sample_adapter = 1" "fa_evKey sample_adapter = ''k''" "fa_evKeyNo sample_adapter = 1" "fa_sha sample_adapter = (\<lambda>d. d)"
  "fa_TenantID sample_adapter = ''t''" "fa_SiteID sample_adapter = ''s''"
  by (simp_all add: sample_adapter_def bare_adapter_def)

lemma sample_fingerprint:
  "ComputeSourceFingerprint (fa_hmac sample_adapter) ''i'' 1 (source_of bare_adapter pr) = (fa_hmac sample_adapter ''i'' (fingerprint_input bare_adapter pr), 1)"
  by (simp add: ComputeSourceFingerprint_def fingerprint_input_def)

lemma sample_toEvent:
  assumes "parseStrictRecord body = Inr pr" "pr = sample_smith \<or> pr = sample_moved"
  shows "toEvent sample_adapter 1000 body = Inr (sample_event_of pr body)"
  using assms(2)
  by (elim disjE) (simp_all only: toEvent_def assms(1) sum.case sample_keys sample_source sample_fingerprint sample_extracted ComputeEvidenceHMAC_def
      Let_def prod.case typed_fields.simps sample_event_of_def sample_values)

lemma sample_ids: "valid_uuid (fa_IfaceID bare_adapter)" "valid_uuid (fa_RevID bare_adapter)"
  using sample_uuids by (simp_all add: bare_adapter_def)

lemma sample_domain: "IsDomain (pr_RecordType sample_smith)" "IsDomain (pr_RecordType sample_moved)"
  by code_simp+

lemma sample_event_valid:
  assumes "pr = sample_smith \<or> pr = sample_moved"
  shows "event_Validate (sample_event_of pr body)"
proof -
  have v: "bounded_field 64 (field_value fcReservation (pr_Fields pr))" "bounded_field 16 (field_value fcRoom (pr_Fields pr))"
    "bounded_field 128 (field_value fcLastName (pr_Fields pr))"
    "TrimSpace (field_value fcRoom (pr_Fields pr)) \<noteq> []" "TrimSpace (field_value fcReservation (pr_Fields pr)) \<noteq> []" "IsDomain (pr_RecordType pr)"
    by (cases "pr = sample_smith"; use assms sample_bounds sample_domain in \<open>simp add: sample_values\<close>)+
  have "field_value fcReservation (pr_Fields pr) @ '':'' @ field_value fcRoom (pr_Fields pr) \<in> {''77120:1421'', ''77120:1422''}"
    using assms by (elim disjE) (simp_all add: sample_values)
  then have "bounded_field 4096 (field_value fcReservation (pr_Fields pr) @ '':'' @ field_value fcRoom (pr_Fields pr))"
    using sample_bounds(6,7) by (elim insertE; simp)
  then show ?thesis
    unfolding event_Validate_def sample_event_of_def
    by (simp add: sample_ids sample_digest v sample_bounds(1))
qed

lemma sample_admitted:
  "admit_event sample_adapter 1000 ''GI|RN1421|G#77120|GNSmith|'' = Inr (sample_event_of sample_smith ''GI|RN1421|G#77120|GNSmith|'')"
  "admit_event sample_adapter 1000 ''GC|RN1422|G#77120|GNSmith|'' = Inr (sample_event_of sample_moved ''GC|RN1422|G#77120|GNSmith|'')"
  by (simp_all add: admit_event_def sample_toEvent [OF sample_parses(1)] sample_toEvent [OF sample_parses(2)] sample_event_valid)


text \<open>
  C30: The identity of an admitted record is its content. For two guest records admitted on links with the
  same identity key, and no collision of the keyed digest on the two, the fingerprints agree exactly
  when interface, normalisation version and profile agree and the record bodies are byte for byte
  the same: a retransmission is recognised, and a room move, a correction or a reordered field never
  passes for one.
\<close>

theorem fingerprint_identifies_record:
  assumes e: "admit_event a now body = Inr ev" "admit_event b later body' = Inr ev'"
    and d: "IsDomain (ev_RecordType ev)" "IsDomain (ev_RecordType ev')"
    and key: "fa_identKey b = fa_identKey a" "fa_hmac b = fa_hmac a"
    and p: "parseStrictRecord body = Inr pr" "parseStrictRecord body' = Inr pr'"
    and inj: "inj_on (fa_hmac a (fa_identKey a)) {fingerprint_input a pr, fingerprint_input b pr'}"
  shows "ev_SourceEventFingerprint ev = ev_SourceEventFingerprint ev' \<longleftrightarrow>
     fa_IfaceID a = fa_IfaceID b \<and> fa_NormalizationVersion a = fa_NormalizationVersion b \<and> fa_profile a = fa_profile b \<and> body = body'"
proof -
  have fp: "ev_SourceEventFingerprint x = fa_hmac c (fa_identKey c) (fingerprint_input c q) \<and> pr_Fields q \<noteq> []"
    if x: "admit_event c t bd = Inr x" "IsDomain (ev_RecordType x)" "parseStrictRecord bd = Inr q" for c t bd x q
  proof -
    obtain q' tf where q': "parseStrictRecord bd = Inr q'" "extractTypedDomainFields q' = Inr tf" "event_Validate x"
      "ev_SourceEventFingerprint x = fst (ComputeSourceFingerprint (fa_hmac c) (fa_identKey c) (fa_identKeyN c) (source_of c q'))"
      by (rule admit_event_Inr [OF x(1)])
    have "isHex64 (ev_SourceEventFingerprint x)" using q'(3) x(2) by (auto simp: event_Validate_def split: if_splits)
    moreover have "pr_Fields q' \<noteq> []" using extract_Inr(1) [OF q'(2)] by (auto simp: field_values_def)
    ultimately show ?thesis using q' x(3) by (auto simp: ComputeSourceFingerprint_def isHex64_def fingerprint_input_def split: if_splits)
  qed
  have body: "bd = format_record q" if "parseStrictRecord bd = Inr q" "pr_Fields q \<noteq> []" for bd q
    using parse_Inr [OF that(1)] that(2) by simp
  note f = fp [OF e(1) d(1) p(1)] fp [OF e(2) d(2) p(2)]
  have "ev_SourceEventFingerprint ev = ev_SourceEventFingerprint ev' \<longleftrightarrow>
      fa_hmac a (fa_identKey a) (fingerprint_input a pr) = fa_hmac a (fa_identKey a) (fingerprint_input b pr')" using f key by simp
  also have "\<dots> \<longleftrightarrow> fingerprint_input a pr = fingerprint_input b pr'" using inj_on_eq_iff [OF inj] by simp
  also have "(fingerprint_input a pr = fingerprint_input b pr') \<longleftrightarrow> source_of a pr = source_of b pr'" by (simp add: fingerprint_input_def canonical_inject)
  also have "\<dots> \<longleftrightarrow> fa_IfaceID a = fa_IfaceID b \<and> fa_NormalizationVersion a = fa_NormalizationVersion b \<and> fa_profile a = fa_profile b \<and> pr = pr'"
    by (cases pr; cases pr') (auto simp: source_of_def)
  also have "pr = pr' \<longleftrightarrow> body = body'"
    using body [OF p(1)] body [OF p(2)] f p by (metis sum.inject(2))
  finally show ?thesis .
qed

theorem fingerprint_identifies_record_witness:
  "ev_SourceEventFingerprint (sample_event_of sample_smith ''GI|RN1421|G#77120|GNSmith|'')
     \<noteq> ev_SourceEventFingerprint (sample_event_of sample_moved ''GC|RN1422|G#77120|GNSmith|'')"
proof -
  have d: "IsDomain (ev_RecordType (sample_event_of sample_smith x))" "IsDomain (ev_RecordType (sample_event_of sample_moved x))" for x
    using sample_domain by (simp_all add: sample_event_of_def)
  have "source_of bare_adapter sample_smith \<noteq> source_of bare_adapter sample_moved"
    by (simp add: source_of_def sample_smith_def sample_moved_def)
  then have n: "fingerprint_input bare_adapter sample_moved \<noteq> fingerprint_input bare_adapter sample_smith"
    by (auto simp: fingerprint_input_def canonical_inject)
  have "fingerprint_input sample_adapter pr = fingerprint_input bare_adapter pr" for pr by (simp add: fingerprint_input_def sample_source)
  then have "inj_on (fa_hmac sample_adapter (fa_identKey sample_adapter)) {fingerprint_input sample_adapter sample_smith, fingerprint_input sample_adapter sample_moved}"
    using n by (auto simp: inj_on_def sample_adapter_def)
  from fingerprint_identifies_record [OF sample_admitted d refl refl sample_parses this] show ?thesis by simp
qed

end
