(* ===== verification/Fias_Link.thy ===== *)
theory Fias_Link
  imports Fias_Record
begin

text \<open>
  The read loop of one FIAS link (\<open>data-plane/internal/pmsd/adapter_fias.go\<close>, \<open>serve\<close>) and the scheduler of the
  financial mirror's resync (\<open>financial_resync.go\<close>): what each inbound frame makes the connector do, and
  the sweep it reports when a database resync ends. A frame is one step; the clock is read once per
  frame. Calls of the sink and writes are effects in the order the code makes them; the environment
  says which of them fails, and a failure ends the loop with the effects made until then. Logging and
  link diagnostics are left out.
\<close>

section \<open>The scheduler of the financial resync\<close>

definition finResyncCheckEvery :: duration where "finResyncCheckEvery = minute"
definition finResyncBackoffMin :: duration where "finResyncBackoffMin = 10 * minute"
definition finResyncBackoffMax :: duration where "finResyncBackoffMax = 40 * minute"
definition finResyncStartWait :: duration where "finResyncStartWait = 5 * minute"

record fin_sched =
  fs_lastCheck :: go_time
  fs_nextAllowed :: go_time
  fs_requestedAt :: go_time
  fs_backoff :: duration
  fs_awaitingStart :: bool

definition new_fin :: fin_sched where
  "new_fin = \<lparr>fs_lastCheck = 0, fs_nextAllowed = 0, fs_requestedAt = 0, fs_backoff = 0, fs_awaitingStart = False\<rparr>"

text \<open>\<open>ask\<close> is what the database would answer.\<close>

definition shouldRequest :: "go_time \<Rightarrow> bool \<Rightarrow> bool \<Rightarrow> fin_sched \<Rightarrow> fin_sched \<times> bool" where
  "shouldRequest now resyncing ask f =
    (if resyncing then (f, False)
     else if fs_lastCheck f \<noteq> 0 \<and> time_sub now (fs_lastCheck f) < finResyncCheckEvery then (f, False)
     else let f1 = f\<lparr>fs_lastCheck := now\<rparr> in
       if now < fs_nextAllowed f1 then (f1, False) else (f1, ask))"

definition fin_requested :: "go_time \<Rightarrow> fin_sched \<Rightarrow> fin_sched" where
  "fin_requested now f =
    (let b = (if fs_backoff f = 0 then finResyncBackoffMin else fs_backoff f);
         b2 = wrap64 (b * 2)
     in f\<lparr>fs_requestedAt := now, fs_awaitingStart := True, fs_nextAllowed := now + b,
          fs_backoff := (if finResyncBackoffMax < b2 then finResyncBackoffMax else b2)\<rparr>)"

definition fin_started :: "fin_sched \<Rightarrow> fin_sched" where
  "fin_started f = f\<lparr>fs_awaitingStart := False\<rparr>"

definition fin_completed :: "fin_sched \<Rightarrow> fin_sched" where
  "fin_completed f = f\<lparr>fs_awaitingStart := False, fs_backoff := finResyncBackoffMin\<rparr>"

definition fin_unanswered :: "go_time \<Rightarrow> fin_sched \<Rightarrow> fin_sched \<times> bool" where
  "fin_unanswered now f =
    (if fs_awaitingStart f \<and> finResyncStartWait < time_sub now (fs_requestedAt f)
     then (f\<lparr>fs_awaitingStart := False\<rparr>, True) else (f, False))"

section \<open>State and effects of the loop\<close>

record link_rev =
  rv_HeartbeatTimeout :: duration
  rv_CompleteSyncBound :: duration

definition periodicSweepAfter :: "link_rev \<Rightarrow> duration" where
  "periodicSweepAfter r =
    (if 0 < rv_HeartbeatTimeout r \<and> rv_HeartbeatTimeout r < rv_CompleteSyncBound r
     then rv_CompleteSyncBound r - rv_HeartbeatTimeout r
     else go_div (rv_CompleteSyncBound r) 2)"

record link_state =
  ls_resyncing :: bool
  ls_steady :: bool
  ls_fin :: fin_sched
  ls_occupied :: "string list"
  ls_vacant :: "string list"
  ls_rosterRecords :: nat
  ls_vacantRecords :: nat
  ls_skipped :: nat
  ls_reported :: nat
  ls_lastFull :: go_time

datatype link_effect =
    EfWriteDR
  | EfWriteLA
  | EfFullSyncRequested
  | EfReleaseGate
  | EfHeartbeat
  | EfContinuityFault
  | EfResyncStart
  | EfCoverage "string list" nat nat nat
  | EfSkipped nat
  | EfResyncComplete
  | EfPA string
  | EfObserve record_type string string
  | EfEvent pms_event

text \<open>
  One frame: its body (\<open>None\<close> when the read failed), the clock, whether an operator's resync command is
  claimed, the sink's answer to the financial question (\<open>None\<close> for a sink that cannot be asked), and
  which effect fails.
\<close>

record link_input =
  li_body :: "string option"
  li_now :: go_time
  li_operator :: bool
  li_asker :: "bool option"
  li_fails :: "link_effect \<Rightarrow> bool"

text \<open>The loop goes on in a state, or has ended; with the effects made.\<close>

datatype link_outcome = Goes link_state "link_effect list" | Ended "link_effect list"

definition effect :: "link_input \<Rightarrow> link_effect \<Rightarrow> link_outcome \<Rightarrow> link_outcome" where
  "effect inp ef o0 =
    (case o0 of Ended es \<Rightarrow> Ended es
     | Goes s es \<Rightarrow> if li_fails inp ef then Ended (es @ [ef]) else Goes s (es @ [ef]))"

text \<open>An effect whose outcome the code does not look at.\<close>

definition notify :: "link_effect \<Rightarrow> link_outcome \<Rightarrow> link_outcome" where
  "notify ef o0 = (case o0 of Ended es \<Rightarrow> Ended es | Goes s es \<Rightarrow> Goes s (es @ [ef]))"

definition upd :: "(link_state \<Rightarrow> link_state) \<Rightarrow> link_outcome \<Rightarrow> link_outcome" where
  "upd f o0 = (case o0 of Ended es \<Rightarrow> Ended es | Goes s es \<Rightarrow> Goes (f s) es)"

definition with_state :: "(link_state \<Rightarrow> link_outcome \<Rightarrow> link_outcome) \<Rightarrow> link_outcome \<Rightarrow> link_outcome" where
  "with_state f o0 = (case o0 of Ended es \<Rightarrow> Ended es | Goes s es \<Rightarrow> f s o0)"

section \<open>The steps of a frame\<close>

definition begin_resync :: "link_state \<Rightarrow> link_state" where
  "begin_resync s = s\<lparr>ls_resyncing := True\<rparr>"

definition operator_resync :: "link_input \<Rightarrow> link_outcome \<Rightarrow> link_outcome" where
  "operator_resync inp = with_state (\<lambda>s o0.
     if \<not> ls_resyncing s \<and> li_operator inp then upd begin_resync (notify EfFullSyncRequested (effect inp EfWriteDR o0)) else o0)"

definition periodic_due :: "link_rev \<Rightarrow> go_time \<Rightarrow> link_state \<Rightarrow> bool" where
  "periodic_due r now s \<longleftrightarrow> \<not> ls_resyncing s \<and> ls_lastFull s \<noteq> 0 \<and> 0 < rv_CompleteSyncBound r
     \<and> periodicSweepAfter r \<le> time_sub now (ls_lastFull s)"

definition periodic_resync :: "link_rev \<Rightarrow> link_input \<Rightarrow> link_outcome \<Rightarrow> link_outcome" where
  "periodic_resync r inp = with_state (\<lambda>s o0.
     if periodic_due r (li_now inp) s then upd begin_resync (notify EfFullSyncRequested (effect inp EfWriteDR o0)) else o0)"

definition release_unanswered :: "link_input \<Rightarrow> link_outcome \<Rightarrow> link_outcome" where
  "release_unanswered inp = with_state (\<lambda>s o0.
     case fin_unanswered (li_now inp) (ls_fin s) of (f, late) \<Rightarrow>
       if late \<and> ls_resyncing s then notify EfReleaseGate (upd (\<lambda>s. s\<lparr>ls_fin := f, ls_resyncing := False\<rparr>) o0)
       else upd (\<lambda>s. s\<lparr>ls_fin := f\<rparr>) o0)"

definition request_financial :: "link_input \<Rightarrow> bool \<Rightarrow> link_outcome \<Rightarrow> link_outcome" where
  "request_financial inp ask = with_state (\<lambda>s o0.
     case shouldRequest (li_now inp) (ls_resyncing s) ask (ls_fin s) of (f, due) \<Rightarrow>
       let o1 = upd (\<lambda>s. s\<lparr>ls_fin := f\<rparr>) o0 in
       if due then upd (\<lambda>s. s\<lparr>ls_resyncing := True, ls_fin := fin_requested (li_now inp) (ls_fin s)\<rparr>)
                     (notify EfFullSyncRequested (effect inp EfWriteDR o1))
       else o1)"

definition financial_resync :: "link_input \<Rightarrow> link_outcome \<Rightarrow> link_outcome" where
  "financial_resync inp o0 =
    (case li_asker inp of None \<Rightarrow> o0 | Some ask \<Rightarrow> request_financial inp ask (release_unanswered inp o0))"

text \<open>A domain record that cannot be used: the fault, and a resync request unless one is open.\<close>

definition continuity_fault :: "link_input \<Rightarrow> link_outcome \<Rightarrow> link_outcome" where
  "continuity_fault inp o0 =
     with_state (\<lambda>s o1. if \<not> ls_resyncing s then upd begin_resync (effect inp EfWriteDR o1) else o1) (effect inp EfContinuityFault o0)"

definition report_skips :: "link_outcome \<Rightarrow> link_outcome" where
  "report_skips = with_state (\<lambda>s o0.
     if 25 \<le> int (ls_skipped s) - int (ls_reported s)
     then notify (EfSkipped (ls_skipped s)) (upd (\<lambda>s. s\<lparr>ls_reported := ls_skipped s\<rparr>) o0) else o0)"

definition skip_record :: "link_outcome \<Rightarrow> link_outcome" where
  "skip_record o0 = report_skips (upd (\<lambda>s. s\<lparr>ls_skipped := ls_skipped s + 1\<rparr>) o0)"

definition on_DS :: "link_input \<Rightarrow> link_outcome \<Rightarrow> link_outcome" where
  "on_DS inp o0 = effect inp EfResyncStart (upd (\<lambda>s. s\<lparr>ls_resyncing := True, ls_fin := fin_started (ls_fin s),
     ls_occupied := [], ls_vacant := [], ls_rosterRecords := 0, ls_vacantRecords := 0, ls_skipped := 0, ls_reported := 0\<rparr>) o0)"

text \<open>
  The two sets of a sweep as lists without duplicates; the coverage is their union, sorted, and the size
  of their intersection.
\<close>

definition coverage_of :: "link_state \<Rightarrow> link_effect" where
  "coverage_of s = EfCoverage (sorted_keys (ls_occupied s @ filter (\<lambda>r. r \<notin> set (ls_occupied s)) (ls_vacant s)))
     (ls_rosterRecords s) (ls_vacantRecords s) (length (filter (\<lambda>r. r \<in> set (ls_vacant s)) (ls_occupied s)))"

definition on_DE :: "link_input \<Rightarrow> link_outcome \<Rightarrow> link_outcome" where
  "on_DE inp o0 =
    (let o1 = with_state (\<lambda>s o1. if ls_resyncing s then notify (coverage_of s) o1 else o1) o0;
         o2 = with_state (\<lambda>s o1. if ls_skipped s \<noteq> ls_reported s
                then notify (EfSkipped (ls_skipped s)) (upd (\<lambda>s. s\<lparr>ls_reported := ls_skipped s\<rparr>) o1) else o1) o1
     in effect inp EfResyncComplete
          (upd (\<lambda>s. s\<lparr>ls_resyncing := False, ls_lastFull := li_now inp, ls_fin := fin_completed (ls_fin s)\<rparr>) o2))"

definition add_room :: "string \<Rightarrow> string list \<Rightarrow> string list" where
  "add_room r rs = (if r \<in> set rs then rs else rs @ [r])"

definition see_vacant :: "string \<Rightarrow> link_state \<Rightarrow> link_state" where
  "see_vacant room s = (if room = [] then s
     else s\<lparr>ls_vacant := add_room room (ls_vacant s), ls_vacantRecords := ls_vacantRecords s + 1\<rparr>)"

definition see_occupied :: "pms_event \<Rightarrow> link_state \<Rightarrow> link_state" where
  "see_occupied ev s = (if ls_resyncing s \<and> ev_RoomNumber ev \<noteq> []
     then s\<lparr>ls_occupied := add_room (roomKey (ev_RoomNumber ev)) (ls_occupied s),
            ls_rosterRecords := ls_rosterRecords s + (if ev_RecordType ev \<noteq> RecGO then 1 else 0)\<rparr>
     else s)"

definition on_domain :: "fias_adapter \<Rightarrow> bool \<Rightarrow> link_input \<Rightarrow> string \<Rightarrow> parsed_record \<Rightarrow> link_outcome \<Rightarrow> link_outcome" where
  "on_domain a relayed inp body pr = with_state (\<lambda>s o0.
     if pr_RecordType pr = RecGO \<and> ls_resyncing s \<and> reservationAbsent pr then skip_record (upd (see_vacant (roomOf pr)) o0)
     else case admit_event a (li_now inp) body of
       Inr ev \<Rightarrow>
         (let o1 = (if relayed then notify (EfObserve (pr_RecordType pr) (ev_ReservationRef ev) (ev_RoomNumber ev)) o0 else o0)
          in effect inp (EfEvent ev) (upd (see_occupied ev) o1))
     | Inl Reject_identity_absent \<Rightarrow> skip_record o0
     | Inl _ \<Rightarrow> continuity_fault inp o0)"

definition dispatch :: "fias_adapter \<Rightarrow> bool \<Rightarrow> link_input \<Rightarrow> string \<Rightarrow> parsed_record \<Rightarrow> link_outcome \<Rightarrow> link_outcome" where
  "dispatch a relayed inp body pr o0 =
    (case pr_RecordType pr of
       RecLS \<Rightarrow> effect inp EfWriteLA (effect inp EfHeartbeat o0)
     | RecLA \<Rightarrow> effect inp EfWriteLA (effect inp EfHeartbeat o0)
     | RecLE \<Rightarrow> (case o0 of Goes s es \<Rightarrow> Ended es | Ended es \<Rightarrow> Ended es)
     | RecPA \<Rightarrow> (if relayed then notify (EfPA body) o0 else o0)
     | RecDS \<Rightarrow> on_DS inp o0
     | RecDE \<Rightarrow> on_DE inp o0
     | RecDR \<Rightarrow> o0
     | RecGI \<Rightarrow> on_domain a relayed inp body pr o0
     | RecGC \<Rightarrow> on_domain a relayed inp body pr o0
     | RecGO \<Rightarrow> on_domain a relayed inp body pr o0)"

definition serve_frame :: "fias_adapter \<Rightarrow> link_rev \<Rightarrow> bool \<Rightarrow> link_state \<Rightarrow> link_input \<Rightarrow> link_outcome" where
  "serve_frame a r relayed s0 inp =
    (let s = s0\<lparr>ls_steady := \<not> ls_resyncing s0\<rparr> in
     case li_body inp of
       None \<Rightarrow> Ended []
     | Some body \<Rightarrow>
         (case parseStrictRecord body of
            Inl _ \<Rightarrow> if intendedDomain body then continuity_fault inp (Goes s []) else Ended []
          | Inr pr \<Rightarrow> dispatch a relayed inp body pr (financial_resync inp (periodic_resync r inp (operator_resync inp (Goes s []))))))"

text \<open>The loop over the frames of a cycle, after the handshake and the first resync request.\<close>

definition serve_start :: link_state where
  "serve_start = \<lparr>ls_resyncing = True, ls_steady = False, ls_fin = new_fin, ls_occupied = [], ls_vacant = [], ls_rosterRecords = 0,
     ls_vacantRecords = 0, ls_skipped = 0, ls_reported = 0, ls_lastFull = 0\<rparr>"

fun serve :: "fias_adapter \<Rightarrow> link_rev \<Rightarrow> bool \<Rightarrow> link_state \<Rightarrow> link_input list \<Rightarrow> link_outcome" where
  "serve a r relayed s [] = Goes s []"
| "serve a r relayed s (inp # inps) =
    (case serve_frame a r relayed s inp of
       Ended es \<Rightarrow> Ended es
     | Goes s' es \<Rightarrow> (case serve a r relayed s' inps of Goes s'' es' \<Rightarrow> Goes s'' (es @ es') | Ended es' \<Rightarrow> Ended (es @ es')))"

section \<open>One resync at a time\<close>

text \<open>
  The gate a list of effects leaves behind: a request or the start of a sweep closes it, the end of a sweep
  or the release of an unanswered request opens it. \<open>None\<close> is a request while it is closed.
\<close>

fun gate :: "bool \<Rightarrow> link_effect list \<Rightarrow> bool option" where
  "gate b [] = Some b"
| "gate b (ef # es) =
    (case ef of
       EfWriteDR \<Rightarrow> if b then None else gate True es
     | EfResyncStart \<Rightarrow> gate True es
     | EfResyncComplete \<Rightarrow> gate False es
     | EfReleaseGate \<Rightarrow> gate False es
     | _ \<Rightarrow> gate b es)"

lemma gate_append: "gate b (es @ es') = (case gate b es of None \<Rightarrow> None | Some b' \<Rightarrow> gate b' es')"
  by (induction es arbitrary: b) (auto split: link_effect.split)

definition gated :: "bool \<Rightarrow> link_outcome \<Rightarrow> bool" where
  "gated b out = (case out of Goes s es \<Rightarrow> gate b es = Some (ls_resyncing s) | Ended es \<Rightarrow> gate b es \<noteq> None)"

fun neutral :: "link_effect \<Rightarrow> bool" where
  "neutral EfWriteDR = False"
| "neutral EfResyncStart = False"
| "neutral EfResyncComplete = False"
| "neutral EfReleaseGate = False"
| "neutral _ = True"

lemma gate_neutral: "neutral ef \<Longrightarrow> gate b (es @ [ef]) = gate b es"
  by (cases ef) (auto simp: gate_append split: option.split)

lemma gated_notify: "neutral ef \<Longrightarrow> gated b out \<Longrightarrow> gated b (notify ef out)"
  by (auto simp: gated_def notify_def gate_neutral split: link_outcome.split)

lemma gated_effect: "neutral ef \<Longrightarrow> gated b out \<Longrightarrow> gated b (effect inp ef out)"
  by (auto simp: gated_def effect_def gate_neutral split: link_outcome.split)

lemma gated_upd: "gated b out \<Longrightarrow> (\<And>s. ls_resyncing (f s) = ls_resyncing s) \<Longrightarrow> gated b (upd f out)"
  by (auto simp: gated_def upd_def split: link_outcome.split)

lemma gated_with: "gated b out \<Longrightarrow> (\<And>s es. out = Goes s es \<Longrightarrow> gated b (Goes s es) \<Longrightarrow> gated b (f s (Goes s es))) \<Longrightarrow> gated b (with_state f out)"
  by (auto simp: with_state_def split: link_outcome.split)

text \<open>A request is made only with the gate open, and closes it.\<close>

lemma gated_request:
  assumes "gated b (Goes s es)" "\<not> ls_resyncing s" "\<And>s. ls_resyncing (f s)"
  shows "gated b (upd f (effect inp EfWriteDR (Goes s es)))" "gated b (upd f (notify EfFullSyncRequested (effect inp EfWriteDR (Goes s es))))"
  using assms by (auto simp: gated_def upd_def effect_def notify_def gate_append split: option.split)

lemma upd_Goes: "upd f (Goes s es) = Goes (f s) es" "notify ef (Goes s es) = Goes s (es @ [ef])"
  by (simp_all add: upd_def notify_def)

lemma gated_pre:
  assumes "gated b out"
  shows "gated b (operator_resync inp out)" "gated b (periodic_resync r inp out)" "gated b (financial_resync inp out)"
proof -
  show "gated b (operator_resync inp out)" "gated b (periodic_resync r inp out)"
    unfolding operator_resync_def periodic_resync_def
    by (rule gated_with [OF assms]; auto simp: periodic_due_def begin_resync_def intro!: gated_request)+
  have rel: "gated b (release_unanswered inp out)"
    unfolding release_unanswered_def
    by (rule gated_with [OF assms]) (auto simp: gated_def gate_append upd_Goes split: prod.split option.split)
  have "gated b (request_financial inp ask o1)" if "gated b o1" for ask o1
    unfolding request_financial_def
  proof (rule gated_with [OF that])
    fix s es assume o1: "gated b (Goes s es)"
    obtain f due where f: "shouldRequest (li_now inp) (ls_resyncing s) ask (ls_fin s) = (f, due)" by fastforce
    have g: "gated b (Goes (s\<lparr>ls_fin := f\<rparr>) es)" using o1 by (simp add: gated_def)
    have "\<not> ls_resyncing s" if due using f that by (auto simp: shouldRequest_def Let_def split: if_splits)
    then show "gated b (case shouldRequest (li_now inp) (ls_resyncing s) ask (ls_fin s) of (f, due) \<Rightarrow>
       let o1 = upd (\<lambda>s. s\<lparr>ls_fin := f\<rparr>) (Goes s es) in
       if due then upd (\<lambda>s. s\<lparr>ls_resyncing := True, ls_fin := fin_requested (li_now inp) (ls_fin s)\<rparr>)
                     (notify EfFullSyncRequested (effect inp EfWriteDR o1))
       else o1)"
      using g by (auto simp: f upd_Goes Let_def intro!: gated_request(2) [OF g])
  qed
  then show "gated b (financial_resync inp out)" using assms rel by (simp add: financial_resync_def split: option.split)
qed

lemma gated_fault:
  assumes "gated b out" shows "gated b (continuity_fault inp out)"
  unfolding continuity_fault_def
  by (rule gated_with [OF gated_effect [OF _ assms]]) (auto simp: begin_resync_def intro!: gated_request)

lemma gated_skip: assumes "gated b out" shows "gated b (skip_record out)"
  unfolding skip_record_def report_skips_def
  by (rule gated_with [OF gated_upd [OF assms]]) (auto intro!: gated_notify gated_upd)

lemma gated_domain:
  assumes "gated b out" shows "gated b (on_domain a relayed inp body pr out)"
proof -
  have "ls_resyncing (see_occupied ev s) = ls_resyncing s" "ls_resyncing (see_vacant room s) = ls_resyncing s" for ev room s
    by (simp_all add: see_occupied_def see_vacant_def)
  then show ?thesis unfolding on_domain_def
    by (intro gated_with [OF assms])
      (auto simp: Let_def split: sum.split reject_reason.split intro!: gated_skip gated_fault gated_upd gated_effect gated_notify)
qed

lemma gated_DS: "gated b out \<Longrightarrow> gated b (on_DS inp out)"
  by (auto simp: on_DS_def gated_def effect_def upd_def gate_append split: link_outcome.split option.split)

lemma gated_DE:
  assumes "gated b out" shows "gated b (on_DE inp out)"
proof -
  let ?o1 = "with_state (\<lambda>s o1. if ls_resyncing s then notify (coverage_of s) o1 else o1) out"
  let ?o2 = "with_state (\<lambda>s o1. if ls_skipped s \<noteq> ls_reported s then notify (EfSkipped (ls_skipped s)) (upd (\<lambda>s. s\<lparr>ls_reported := ls_skipped s\<rparr>) o1) else o1) ?o1"
  have 1: "gated b ?o1" by (rule gated_with [OF assms]) (auto simp: coverage_of_def intro!: gated_notify)
  have "gated b ?o2" by (rule gated_with [OF 1]) (auto intro!: gated_notify gated_upd)
  then show ?thesis unfolding on_DE_def Let_def
    by (auto simp: gated_def effect_def upd_def gate_append split: link_outcome.splits option.split)
qed

lemma gated_frame: "gated (ls_resyncing s) (serve_frame a r relayed s inp)"
proof -
  let ?s = "s\<lparr>ls_steady := \<not> ls_resyncing s\<rparr>"
  have g: "gated (ls_resyncing s) (Goes ?s [])" "gated (ls_resyncing s) (Ended [])" by (simp_all add: gated_def)
  have pre: "gated (ls_resyncing s) (financial_resync inp (periodic_resync r inp (operator_resync inp (Goes ?s []))))"
    by (intro gated_pre g)
  have "gated b (dispatch a relayed inp body pr out)" if "gated b out" for b body pr out
    unfolding dispatch_def using that
    by (auto simp: gated_domain gated_DS gated_DE gated_effect gated_notify split: record_type.split link_outcome.split) (auto simp: gated_def)
  then show ?thesis using g pre by (auto simp: serve_frame_def Let_def gated_fault split: option.split sum.split)
qed

lemma gated_serve: "gated (ls_resyncing s) (serve a r relayed s inps)"
proof (induction inps arbitrary: s)
  case (Cons inp inps)
  show ?case
  proof (cases "serve_frame a r relayed s inp")
    case (Goes s' es)
    then have "gate (ls_resyncing s) es = Some (ls_resyncing s')" using gated_frame [of s a r relayed inp] by (simp add: gated_def)
    then show ?thesis using Cons.IH [of s'] Goes by (auto simp: gated_def gate_append split: link_outcome.splits)
  next
    case (Ended es)
    then show ?thesis using gated_frame [of s a r relayed inp] by simp
  qed
qed (simp add: gated_def)

subsection \<open>Only validated guest records are admitted\<close>

definition effect_ok :: "link_effect \<Rightarrow> bool" where
  "effect_ok ef = (case ef of EfEvent ev \<Rightarrow> event_Validate ev \<and> IsDomain (ev_RecordType ev) | _ \<Rightarrow> True)"

definition effects_of :: "link_outcome \<Rightarrow> link_effect list" where
  "effects_of out = (case out of Goes s es \<Rightarrow> es | Ended es \<Rightarrow> es)"

definition effects_ok :: "link_outcome \<Rightarrow> bool" where
  "effects_ok out = list_all effect_ok (effects_of out)"

lemma effects_ok_simps [simp]:
  "effects_ok (Goes s es) = list_all effect_ok es" "effects_ok (Ended es) = list_all effect_ok es"
  "effects_ok (effect inp ef out) = (effects_ok out \<and> (case out of Goes _ _ \<Rightarrow> effect_ok ef | Ended _ \<Rightarrow> True))"
  "effects_ok (notify ef out) = (effects_ok out \<and> (case out of Goes _ _ \<Rightarrow> effect_ok ef | Ended _ \<Rightarrow> True))"
  "effects_ok (upd f out) = effects_ok out"
  by (auto simp: effects_ok_def effects_of_def effect_def notify_def upd_def split: link_outcome.split)

lemma effects_ok_with: "effects_ok out \<Longrightarrow> (\<And>s es. effects_ok (Goes s es) \<Longrightarrow> effects_ok (f s (Goes s es))) \<Longrightarrow> effects_ok (with_state f out)"
  by (cases out) (simp_all add: with_state_def)

lemma effect_ok_other: "(\<And>ev. ef \<noteq> EfEvent ev) \<Longrightarrow> effect_ok ef"
  by (auto simp: effect_ok_def split: link_effect.split)

lemma effects_ok_pre:
  assumes "effects_ok out"
  shows "effects_ok (financial_resync inp (periodic_resync r inp (operator_resync inp out)))"
proof -
  have 1: "effects_ok (operator_resync inp o1)" "effects_ok (periodic_resync r inp o1)" "effects_ok (release_unanswered inp o1)"
    "effects_ok (request_financial inp ask o1)" if "effects_ok o1" for o1 ask
    unfolding operator_resync_def periodic_resync_def release_unanswered_def request_financial_def
    by (rule effects_ok_with [OF that]; auto simp: effect_ok_other Let_def split: prod.split link_outcome.split)+
  then show ?thesis using assms by (simp add: financial_resync_def split: option.split)
qed

lemma effects_ok_fault: "effects_ok out \<Longrightarrow> effects_ok (continuity_fault inp out)"
  unfolding continuity_fault_def by (rule effects_ok_with) (auto simp: effect_ok_other split: link_outcome.split)

lemma effects_ok_skip: "effects_ok out \<Longrightarrow> effects_ok (skip_record out)"
  unfolding skip_record_def report_skips_def by (rule effects_ok_with) (auto simp: effect_ok_other upd_Goes)

lemma effects_ok_domain:
  assumes "effects_ok out" "parseStrictRecord body = Inr pr" "IsDomain (pr_RecordType pr)"
  shows "effects_ok (on_domain a relayed inp body pr out)"
proof -
  have ev: "effect_ok (EfEvent ev)" if adm: "admit_event a now body = Inr ev" for ev now
  proof -
    obtain pr' tf where "parseStrictRecord body = Inr pr'" "event_Validate ev" "ev_RecordType ev = pr_RecordType pr'"
      by (rule admit_event_Inr [OF adm])
    then show ?thesis using assms(2,3) by (simp add: effect_ok_def)
  qed
  show ?thesis unfolding on_domain_def
    by (intro effects_ok_with [OF assms(1)])
      (auto simp: Let_def ev effect_ok_other split: sum.split reject_reason.split link_outcome.split intro!: effects_ok_skip effects_ok_fault)
qed

lemma effects_ok_frame: "effects_ok (serve_frame a r relayed s inp)"
proof -
  have de: "effects_ok (on_DE inp out)" if "effects_ok out" for out
    unfolding on_DE_def Let_def using that
    by (auto simp: effect_ok_other coverage_of_def split: link_outcome.split intro!: effects_ok_with)
  have "effects_ok (dispatch a relayed inp body pr out)" if "effects_ok out" "parseStrictRecord body = Inr pr" for out body pr
    unfolding dispatch_def using that
    by (auto simp: de effects_ok_domain on_DS_def effect_ok_other IsDomain_def split: record_type.split link_outcome.split)
  then show ?thesis
    by (auto simp: serve_frame_def Let_def effects_ok_pre effects_ok_fault split: option.split sum.split)
qed

lemma effects_ok_serve: "list_all effect_ok (effects_of (serve a r relayed s inps))"
proof (induction inps arbitrary: s)
  case (Cons inp inps)
  show ?case
  proof (cases "serve_frame a r relayed s inp")
    case (Goes s' es)
    then show ?thesis using effects_ok_frame [of a r relayed s inp] Cons.IH [of s']
      by (cases "serve a r relayed s' inps") (simp_all add: effects_of_def)
  next
    case (Ended es)
    then show ?thesis using effects_ok_frame [of a r relayed s inp] by (simp add: effects_of_def)
  qed
qed (simp add: effects_of_def)

text \<open>
  Through any frames, clock, operator commands, financial questions and failures, a link has at most
  one database resync outstanding: a request (the one after the handshake, an operator's, the
  periodic, the financial and that of a fault) is written only when no request is open and no sweep is
  running, and the loop's own flag says exactly that. Every event handed to the inbox is a guest record
  that passed validation.
\<close>

theorem one_resync_at_a_time:
  "(case serve a r relayed serve_start inps of
      Goes s es \<Rightarrow> gate False (EfWriteDR # es) = Some (ls_resyncing s)
    | Ended es \<Rightarrow> gate False (EfWriteDR # es) \<noteq> None)
   \<and> list_all effect_ok (effects_of (serve a r relayed serve_start inps))"
  using gated_serve [of serve_start a r relayed inps] effects_ok_serve by (simp add: serve_start_def gated_def split: link_outcome.splits)

section \<open>What a sweep reports\<close>

text \<open>
  A sweep described by its frames alone: the rooms of the guest records that were admitted, and the rooms
  of the check-outs without a reservation, which say that a room is empty.
\<close>

definition frame_record :: "link_input \<Rightarrow> (string \<times> parsed_record) option" where
  "frame_record inp = (case li_body inp of None \<Rightarrow> None | Some body \<Rightarrow>
     (case parseStrictRecord body of Inl _ \<Rightarrow> None | Inr pr \<Rightarrow> Some (body, pr)))"

definition frame_type :: "link_input \<Rightarrow> record_type option" where
  "frame_type inp = map_option (pr_RecordType \<circ> snd) (frame_record inp)"

definition empty_room_record :: "parsed_record \<Rightarrow> bool" where
  "empty_room_record pr \<longleftrightarrow> pr_RecordType pr = RecGO \<and> reservationAbsent pr"

definition sweep_vacant :: "link_input \<Rightarrow> string list" where
  "sweep_vacant inp = (case frame_record inp of None \<Rightarrow> [] | Some (body, pr) \<Rightarrow>
     if empty_room_record pr \<and> roomOf pr \<noteq> [] then [roomOf pr] else [])"

definition sweep_event :: "fias_adapter \<Rightarrow> link_input \<Rightarrow> pms_event list" where
  "sweep_event a inp = (case frame_record inp of None \<Rightarrow> [] | Some (body, pr) \<Rightarrow>
     if IsDomain (pr_RecordType pr) \<and> \<not> empty_room_record pr
     then (case admit_event a (li_now inp) body of Inl _ \<Rightarrow> [] | Inr ev \<Rightarrow> [ev]) else [])"

definition sweep_events :: "fias_adapter \<Rightarrow> link_input list \<Rightarrow> pms_event list" where
  "sweep_events a inps = concat (map (sweep_event a) inps)"

definition sweep_vacants :: "link_input list \<Rightarrow> string list" where
  "sweep_vacants inps = concat (map sweep_vacant inps)"

definition room_keys :: "pms_event list \<Rightarrow> string list" where
  "room_keys evs = map (\<lambda>ev. roomKey (ev_RoomNumber ev)) evs"

definition sweeping :: "link_state \<Rightarrow> pms_event list \<Rightarrow> string list \<Rightarrow> bool" where
  "sweeping s evs vacs \<longleftrightarrow> ls_resyncing s \<and> \<not> fs_awaitingStart (ls_fin s)
     \<and> distinct (ls_occupied s) \<and> set (ls_occupied s) = set (room_keys evs)
     \<and> distinct (ls_vacant s) \<and> set (ls_vacant s) = set vacs
     \<and> ls_rosterRecords s = length (filter (\<lambda>ev. ev_RecordType ev \<noteq> RecGO) evs) \<and> ls_vacantRecords s = length vacs"

fun is_coverage :: "link_effect \<Rightarrow> bool" where
  "is_coverage (EfCoverage rooms roster vacant conflicts) = True"
| "is_coverage _ = False"

text \<open>While a sweep runs the head of a frame asks for nothing.\<close>

lemma pre_noop:
  assumes "ls_resyncing s" "\<not> fs_awaitingStart (ls_fin s)"
  shows "financial_resync inp (periodic_resync r inp (operator_resync inp (Goes s es))) = Goes s es"
  using assms by (simp add: financial_resync_def periodic_resync_def operator_resync_def with_state_def periodic_due_def release_unanswered_def
      fin_unanswered_def request_financial_def shouldRequest_def upd_Goes split: option.split)

lemma sweeping_steady [simp]: "sweeping (s\<lparr>ls_steady := b\<rparr>) evs vacs = sweeping s evs vacs"
  "sweeping (s\<lparr>ls_skipped := n\<rparr>) evs vacs = sweeping s evs vacs" "sweeping (s\<lparr>ls_reported := n\<rparr>) evs vacs = sweeping s evs vacs"
  by (simp_all add: sweeping_def)

lemma add_room_set [simp]: "set (add_room r rs) = insert r (set rs)" "distinct rs \<Longrightarrow> distinct (add_room r rs)"
  by (auto simp: add_room_def)

definition sweep_out :: "pms_event list \<Rightarrow> string list \<Rightarrow> link_outcome \<Rightarrow> bool" where
  "sweep_out evs vacs out = (case out of Goes s es \<Rightarrow> sweeping s evs vacs \<and> \<not> list_ex is_coverage es | Ended es \<Rightarrow> True)"

lemma sweep_out_effect: "\<not> is_coverage ef \<Longrightarrow> sweep_out evs vacs out \<Longrightarrow> sweep_out evs vacs (effect inp ef out)"
  and sweep_out_notify: "\<not> is_coverage ef \<Longrightarrow> sweep_out evs vacs out \<Longrightarrow> sweep_out evs vacs (notify ef out)"
  by (auto simp: sweep_out_def effect_def notify_def split: link_outcome.splits)

lemma sweep_out_skip: "sweep_out evs vacs out \<Longrightarrow> sweep_out evs vacs (skip_record out)"
  by (auto simp: sweep_out_def skip_record_def report_skips_def with_state_def upd_def notify_def split: link_outcome.splits)

lemma sweep_out_fault: "sweep_out evs vacs out \<Longrightarrow> sweep_out evs vacs (continuity_fault inp out)"
  by (auto simp: sweep_out_def continuity_fault_def with_state_def effect_def upd_def sweeping_def split: link_outcome.splits if_splits)

lemma sweep_out_occupied:
  assumes "sweep_out evs vacs out" "ev_RoomNumber ev \<noteq> []"
  shows "sweep_out (evs @ [ev]) vacs (upd (see_occupied ev) out)"
  using assms by (auto simp: sweep_out_def upd_def see_occupied_def sweeping_def room_keys_def split: link_outcome.splits)

lemma sweep_out_vacant:
  "sweep_out evs vacs out \<Longrightarrow> sweep_out evs (vacs @ (if room = [] then [] else [room])) (upd (see_vacant room) out)"
  by (auto simp: sweep_out_def upd_def see_vacant_def sweeping_def split: link_outcome.splits)

lemma sweep_out_domain:
  assumes o0: "sweep_out evs vacs (Goes s es)" and p: "parseStrictRecord body = Inr pr" "IsDomain (pr_RecordType pr)" "li_body inp = Some body"
  shows "sweep_out (evs @ sweep_event a inp) (vacs @ sweep_vacant inp) (on_domain a relayed inp body pr (Goes s es))"
proof -
  have re: "ls_resyncing s" using o0 by (simp add: sweep_out_def sweeping_def)
  have fr: "frame_record inp = Some (body, pr)" by (simp add: frame_record_def p)
  show ?thesis
  proof (cases "empty_room_record pr")
    case True
    have "sweep_out evs (vacs @ (if roomOf pr = [] then [] else [roomOf pr])) (skip_record (upd (see_vacant (roomOf pr)) (Goes s es)))"
      by (intro sweep_out_skip sweep_out_vacant o0)
    then show ?thesis using True re
      by (auto simp: on_domain_def with_state_def empty_room_record_def sweep_event_def sweep_vacant_def fr)
  next
    case False
    have v: "sweep_vacant inp = []" using False by (simp add: sweep_vacant_def fr)
    show ?thesis
    proof (cases "admit_event a (li_now inp) body")
      case (Inl e)
      then have "sweep_event a inp = []" by (simp add: sweep_event_def fr)
      moreover have "on_domain a relayed inp body pr (Goes s es) = (case e of Reject_identity_absent \<Rightarrow> skip_record (Goes s es) | _ \<Rightarrow> continuity_fault inp (Goes s es))"
        using False Inl by (auto simp: on_domain_def with_state_def empty_room_record_def)
      ultimately show ?thesis using o0 v by (cases e) (simp_all add: sweep_out_skip sweep_out_fault)
    next
      case (Inr ev)
      then have e: "sweep_event a inp = [ev]" using False p by (simp add: sweep_event_def fr)
      have "ev_RecordType ev = pr_RecordType pr" by (rule admit_event_Inr [OF Inr]) (use p in simp)
      then have "TrimSpace (ev_RoomNumber ev) \<noteq> []" using admitted_room [OF Inr] p(2) by simp
      then have room: "ev_RoomNumber ev \<noteq> []" by auto
      have "on_domain a relayed inp body pr (Goes s es) = effect inp (EfEvent ev) (upd (see_occupied ev)
          (if relayed then notify (EfObserve (pr_RecordType pr) (ev_ReservationRef ev) (ev_RoomNumber ev)) (Goes s es) else Goes s es))"
        using False Inr by (auto simp: on_domain_def with_state_def empty_room_record_def Let_def)
      then show ?thesis using o0 v room by (auto simp: e intro!: sweep_out_effect sweep_out_occupied sweep_out_notify)
    qed
  qed
qed

lemma sweep_out_frame:
  assumes s: "sweeping s evs vacs" and t: "frame_type inp \<noteq> Some RecDS" "frame_type inp \<noteq> Some RecDE"
  shows "sweep_out (evs @ sweep_event a inp) (vacs @ sweep_vacant inp) (serve_frame a r relayed s inp)"
proof (cases "frame_record inp")
  case None
  let ?s = "s\<lparr>ls_steady := \<not> ls_resyncing s\<rparr>"
  have n: "sweep_event a inp = []" "sweep_vacant inp = []" by (simp_all add: None sweep_event_def sweep_vacant_def)
  have "sweep_out evs vacs (Goes ?s [])" "sweep_out evs vacs (Ended [])" using s by (simp_all add: sweep_out_def)
  then show ?thesis using None
    by (auto simp: n serve_frame_def Let_def frame_record_def sweep_out_fault split: option.splits sum.splits)
next
  case (Some bp)
  then obtain body pr where bp: "frame_record inp = Some (body, pr)" by (cases bp) simp
  then have b: "li_body inp = Some body" "parseStrictRecord body = Inr pr" by (auto simp: frame_record_def split: option.splits sum.splits)
  let ?s = "s\<lparr>ls_steady := \<not> ls_resyncing s\<rparr>"
  have o0: "sweep_out evs vacs (Goes ?s [])" using s by (simp add: sweep_out_def)
  have f: "serve_frame a r relayed s inp = dispatch a relayed inp body pr (Goes ?s [])"
    using s b by (simp add: serve_frame_def Let_def pre_noop sweeping_def)
  show ?thesis
  proof (cases "IsDomain (pr_RecordType pr)")
    case True
    then have "dispatch a relayed inp body pr (Goes ?s []) = on_domain a relayed inp body pr (Goes ?s [])"
      by (auto simp: dispatch_def IsDomain_def)
    then show ?thesis unfolding f using sweep_out_domain [OF o0 b(2) True b(1)] by simp
  next
    case False
    then have n: "sweep_event a inp = []" "sweep_vacant inp = []"
      by (auto simp: bp sweep_event_def sweep_vacant_def empty_room_record_def IsDomain_def)
    have "pr_RecordType pr \<notin> {RecDS, RecDE, RecGI, RecGC, RecGO}" using False t by (auto simp: frame_type_def bp IsDomain_def)
    then have "sweep_out evs vacs (dispatch a relayed inp body pr (Goes ?s []))"
      using o0 by (cases "pr_RecordType pr") (auto simp: dispatch_def sweep_out_effect sweep_out_notify, simp add: sweep_out_def)
    then show ?thesis unfolding f n by simp
  qed
qed

lemma sweep_out_serve:
  assumes "sweeping s evs vacs" and "\<forall>inp \<in> set inps. frame_type inp \<noteq> Some RecDS \<and> frame_type inp \<noteq> Some RecDE"
  shows "sweep_out (evs @ sweep_events a inps) (vacs @ sweep_vacants inps) (serve a r relayed s inps)"
  using assms
proof (induction inps arbitrary: s evs vacs)
  case Nil
  then show ?case by (simp add: sweep_out_def sweep_events_def sweep_vacants_def)
next
  case (Cons inp inps)
  note f = sweep_out_frame [OF Cons.prems(1), of inp a r relayed]
  show ?case
  proof (cases "serve_frame a r relayed s inp")
    case (Goes s' es)
    then have s': "sweeping s' (evs @ sweep_event a inp) (vacs @ sweep_vacant inp)" "\<not> list_ex is_coverage es"
      using f Cons.prems(2) by (simp_all add: sweep_out_def)
    have "sweep_out (evs @ sweep_events a (inp # inps)) (vacs @ sweep_vacants (inp # inps)) (serve a r relayed s' inps)"
      using Cons.IH [OF s'(1)] Cons.prems(2) by (simp add: sweep_events_def sweep_vacants_def)
    then show ?thesis using Goes s'(2) by (auto simp: sweep_out_def split: link_outcome.splits)
  next
    case (Ended es)
    then show ?thesis by (simp add: sweep_out_def)
  qed
qed

lemma serve_snoc:
  "serve a r relayed s (inps @ [inp]) = Goes s' es \<Longrightarrow>
   \<exists>s1 es1 es2. serve a r relayed s inps = Goes s1 es1 \<and> serve_frame a r relayed s1 inp = Goes s' es2 \<and> es = es1 @ es2"
proof (induction inps arbitrary: s es)
  case Nil
  then show ?case by (auto split: link_outcome.splits)
next
  case (Cons x inps)
  obtain sx ex where x: "serve_frame a r relayed s x = Goes sx ex" using Cons.prems by (cases "serve_frame a r relayed s x") auto
  then obtain er where e: "serve a r relayed sx (inps @ [inp]) = Goes s' er" "es = ex @ er"
    using Cons.prems by (auto split: link_outcome.splits)
  from Cons.IH [OF e(1)] show ?case using x e(2) by auto
qed

lemma no_coverage_pre:
  assumes "\<not> list_ex is_coverage (effects_of out)"
  shows "\<not> list_ex is_coverage (effects_of (financial_resync inp (periodic_resync r inp (operator_resync inp out))))"
proof -
  have simps: "list_ex is_coverage (effects_of (notify ef o1)) = (list_ex is_coverage (effects_of o1) \<or> (is_coverage ef \<and> (\<exists>s es. o1 = Goes s es)))"
    "list_ex is_coverage (effects_of (effect inp ef o1)) = (list_ex is_coverage (effects_of o1) \<or> (is_coverage ef \<and> (\<exists>s es. o1 = Goes s es)))"
    "effects_of (upd f o1) = effects_of o1" for ef o1 f
    by (cases o1; auto simp: effects_of_def notify_def effect_def upd_def)+
  have "\<not> list_ex is_coverage (effects_of (operator_resync inp o1))" "\<not> list_ex is_coverage (effects_of (periodic_resync r inp o1))"
    "\<not> list_ex is_coverage (effects_of (release_unanswered inp o1))" "\<not> list_ex is_coverage (effects_of (request_financial inp ask o1))"
    if "\<not> list_ex is_coverage (effects_of o1)" for o1 ask
    using that by (cases o1; simp add: operator_resync_def periodic_resync_def release_unanswered_def request_financial_def with_state_def Let_def simps
        split: prod.split)+
  then show ?thesis using assms by (simp add: financial_resync_def split: option.split)
qed

lemma frame_DS:
  assumes "frame_type inp = Some RecDS" "serve_frame a r relayed s inp = Goes s' es"
  shows "sweeping s' [] [] \<and> \<not> list_ex is_coverage es"
proof -
  obtain body pr where b: "li_body inp = Some body" "parseStrictRecord body = Inr pr" "pr_RecordType pr = RecDS"
    using assms(1) by (auto simp: frame_type_def frame_record_def split: option.splits sum.splits)
  let ?o = "financial_resync inp (periodic_resync r inp (operator_resync inp (Goes (s\<lparr>ls_steady := \<not> ls_resyncing s\<rparr>) [])))"
  have "on_DS inp ?o = Goes s' es" using assms(2) b by (simp add: serve_frame_def Let_def dispatch_def)
  moreover have "\<not> list_ex is_coverage (effects_of ?o)" by (rule no_coverage_pre) (simp add: effects_of_def)
  ultimately show ?thesis
    by (cases ?o) (auto simp: on_DS_def effect_def upd_def effects_of_def sweeping_def room_keys_def fin_started_def split: if_splits)
qed

lemma frame_DE:
  assumes s: "sweeping s evs vacs" and t: "frame_type inp = Some RecDE" "serve_frame a r relayed s inp = Goes s' es"
  shows "filter is_coverage es = [EfCoverage (sorted_keys (room_keys evs @ vacs)) (length (filter (\<lambda>ev. ev_RecordType ev \<noteq> RecGO) evs))
     (length vacs) (card (set (room_keys evs) \<inter> set vacs))] \<and> \<not> ls_resyncing s'"
proof -
  obtain body pr where b: "li_body inp = Some body" "parseStrictRecord body = Inr pr" "pr_RecordType pr = RecDE"
    using t(1) by (auto simp: frame_type_def frame_record_def split: option.splits sum.splits)
  let ?s = "s\<lparr>ls_steady := \<not> ls_resyncing s\<rparr>"
  have re: "ls_resyncing s" using s by (simp add: sweeping_def)
  have "on_DE inp (Goes ?s []) = Goes s' es"
    using t(2) b s by (simp add: serve_frame_def Let_def dispatch_def pre_noop sweeping_def)
  then have "filter is_coverage es = [coverage_of ?s] \<and> \<not> ls_resyncing s'"
    using re by (auto simp: on_DE_def Let_def with_state_def effect_def upd_def notify_def coverage_of_def split: if_splits)
  moreover have "sorted_keys (ls_occupied s @ filter (\<lambda>r. r \<notin> set (ls_occupied s)) (ls_vacant s)) = sorted_keys (room_keys evs @ vacs)"
    by (rule sorted_keys_cong) (use s in \<open>auto simp: sweeping_def\<close>)
  moreover have "length (filter (\<lambda>r. r \<in> set (ls_vacant s)) (ls_occupied s)) = card (set (room_keys evs) \<inter> set vacs)"
    using s by (auto simp: sweeping_def distinct_card [symmetric] Int_def intro!: arg_cong [where f = card])
  ultimately show ?thesis using s by (simp add: coverage_of_def sweeping_def)
qed


definition sample_frame :: "go_time \<Rightarrow> string \<Rightarrow> link_input" where
  "sample_frame now body = \<lparr>li_body = Some body, li_now = now, li_operator = False, li_asker = None, li_fails = (\<lambda>_. False)\<rparr>"

definition sample_rev :: link_rev where
  "sample_rev = \<lparr>rv_HeartbeatTimeout = 90 * second, rv_CompleteSyncBound = 600 * second\<rparr>"

definition sample_sweep :: "link_input list" where
  "sample_sweep = [sample_frame 2 ''GO|RN12|'', sample_frame 3 ''LA|'', sample_frame 4 ''GO|RN11|'']"

lemma sample_sweep_served:
  "serve bare_adapter sample_rev False serve_start (sample_frame 1 ''DS|'' # sample_sweep @ [sample_frame 5 ''DE|'']) =
     Goes \<lparr>ls_resyncing = False, ls_steady = False, ls_fin = fin_completed new_fin, ls_occupied = [], ls_vacant = [''12'', ''11''],
       ls_rosterRecords = 0, ls_vacantRecords = 2, ls_skipped = 2, ls_reported = 2, ls_lastFull = 5\<rparr>
     [EfResyncStart, EfHeartbeat, EfWriteLA, EfCoverage [''11'', ''12''] 0 2 0, EfSkipped 2, EfResyncComplete]"
  by code_simp


section \<open>The pace of financial resyncs\<close>

definition fin_ok :: "fin_sched \<Rightarrow> bool" where
  "fin_ok f \<longleftrightarrow> fs_backoff f = 0 \<or> finResyncBackoffMin \<le> fs_backoff f \<and> fs_backoff f \<le> finResyncBackoffMax"

lemmas fin_consts = finResyncBackoffMin_def finResyncBackoffMax_def finResyncStartWait_def finResyncCheckEvery_def duration_defs

text \<open>
  The back-off stays between ten and forty minutes, its doubling never wraps, and a request made now is
  followed by no other for at least ten minutes.
\<close>

lemma fin_pace:
  assumes "fin_ok f"
  shows "fin_ok (fin_requested now f)" "fin_ok (fin_started f)" "fin_ok (fin_completed f)" "fin_ok (fst (fin_unanswered now f))"
    "fin_ok (fst (shouldRequest now resyncing ask f))"
    and "now + finResyncBackoffMin \<le> fs_nextAllowed (fin_requested now f)" "fs_nextAllowed (fin_requested now f) \<le> now + finResyncBackoffMax"
    and "snd (shouldRequest now resyncing ask f) \<Longrightarrow> fs_nextAllowed f \<le> now \<and> \<not> resyncing \<and> ask"
proof -
  have w: "wrap64 (b * 2) = b * 2" if "finResyncBackoffMin \<le> b" "b \<le> finResyncBackoffMax" for b
    using that by (intro wrap64_small) (simp add: fin_consts)
  show "fin_ok (fin_requested now f)" using assms w by (auto simp: fin_ok_def fin_requested_def Let_def) (simp_all add: fin_consts wrap64_def)
  show "fin_ok (fin_started f)" "fin_ok (fin_completed f)" "fin_ok (fst (fin_unanswered now f))" "fin_ok (fst (shouldRequest now resyncing ask f))"
    using assms by (auto simp: fin_ok_def fin_started_def fin_completed_def fin_unanswered_def shouldRequest_def Let_def fin_consts)
  show "now + finResyncBackoffMin \<le> fs_nextAllowed (fin_requested now f)" "fs_nextAllowed (fin_requested now f) \<le> now + finResyncBackoffMax"
    using assms by (auto simp: fin_ok_def fin_requested_def Let_def fin_consts)
  show "snd (shouldRequest now resyncing ask f) \<Longrightarrow> fs_nextAllowed f \<le> now \<and> \<not> resyncing \<and> ask"
    by (auto simp: shouldRequest_def Let_def split: if_splits)
qed

section \<open>The steady flag lags by one frame\<close>

text \<open>
  The flag the financial relay reads is set at the head of the loop. When the start of a sweep arrives on a
  quiet link, the sweep is announced to the sink (a database write) while the flag still says steady, so
  a posting may be written inside the window in that interval.
\<close>

lemma steady_at_sweep_start:
  "serve_frame bare_adapter sample_rev True (serve_start\<lparr>ls_resyncing := False\<rparr>) (sample_frame 1 ''DS|'') = Goes s es \<Longrightarrow>
   ls_steady s \<and> ls_resyncing s \<and> es = [EfResyncStart]"
proof -
  have "serve_frame bare_adapter sample_rev True (serve_start\<lparr>ls_resyncing := False\<rparr>) (sample_frame 1 ''DS|'') =
    Goes (serve_start\<lparr>ls_steady := True\<rparr>) [EfResyncStart]" by code_simp
  then show "serve_frame bare_adapter sample_rev True (serve_start\<lparr>ls_resyncing := False\<rparr>) (sample_frame 1 ''DS|'') = Goes s es \<Longrightarrow>
    ls_steady s \<and> ls_resyncing s \<and> es = [EfResyncStart]" by (auto simp: serve_start_def)
qed

end
