(* ===== verification/Commerce_Rules.thy ===== *)
theory Commerce_Rules
  imports Prelude Complex_Main
begin

text \<open>
  The decision core of the package catalogue (\<open>data-plane/internal/iamv2\<close>): \<open>commerce_domain.go\<close> (eligibility
  rules and grant tiers), \<open>commerce_currency.go\<close>, \<open>commerce_duration.go\<close>, \<open>commerce_grant.go\<close> (the grant
  snapshot), \<open>acquisition.go\<close>, \<open>phase6_acquisition.go\<close> and the publication checks of \<open>commerce_validate.go\<close>. The
  lemmas relate the publication checks to what the runtime then evaluates. The instant parser
  \<open>time.Parse(time.RFC3339, _)\<close> is an argument. Error values keep their code; the sentences meant for a
  reader are left out unless the code compares them.
\<close>

named_theorems commerce_simps "evaluation of the commerce rules"

subsection \<open>Decoded JSON\<close>

text \<open>
  A Go \<open>any\<close> as the code meets it: what \<open>encoding/json\<close> decodes to (a \<open>float64\<close>, or a \<open>json.Number\<close> when the
  decoder keeps the literal) and the integers of a database row. A \<open>float64\<close> from JSON is finite and is
  its exact rational value. A map is a list of its entries.
\<close>

datatype json =
    JNull
  | JBool bool
  | JFloat rat
  | JNumber string
  | JInt int
  | JStr string
  | JArr "json list"
  | JObj "(string \<times> json) list"

type_synonym jmap = "(string \<times> json) list"

text \<open>Type assertions with the comma-ok form; an absent key is the nil interface.\<close>

fun as_bool :: "json option \<Rightarrow> bool option" where
  "as_bool (Some (JBool b)) = Some b"
| "as_bool _ = None"

fun as_str :: "json option \<Rightarrow> string option" where
  "as_str (Some (JStr s)) = Some s"
| "as_str _ = None"

fun as_arr :: "json option \<Rightarrow> json list option" where
  "as_arr (Some (JArr xs)) = Some xs"
| "as_arr _ = None"

fun as_obj :: "json option \<Rightarrow> jmap option" where
  "as_obj (Some (JObj m)) = Some m"
| "as_obj _ = None"

text \<open>The value of a failed assertion is the zero value of the type.\<close>

definition str_or :: "json option \<Rightarrow> string" where
  "str_or j = (case as_str j of Some s \<Rightarrow> s | None \<Rightarrow> [])"

definition is_on :: "json option \<Rightarrow> bool" where
  "is_on j \<longleftrightarrow> as_bool j = Some True"

datatype err_code =
    ErrConfig | ErrInvalidInput | ErrInvalidCred | ErrExpired | ErrLocked | ErrDisabledAccount | ErrNotRedeemable
  | ErrSubjectResolve | ErrRepo | ErrSocialStub | ErrACExpired | ErrACConsumed | ErrACMismatch | ErrACNotFound
  | ErrCapacity | ErrConflict | ErrBusy

text \<open>\<open>strings.ToUpper(strings.TrimSpace(s))\<close> and its lower-case twin, used throughout.\<close>

definition upper_trim :: "string \<Rightarrow> string" where
  "upper_trim s = ToUpper (TrimSpace s)"

definition lower_trim :: "string \<Rightarrow> string" where
  "lower_trim s = ToLower (TrimSpace s)"

subsection \<open>Subjects, evidence, rules and tiers\<close>

record stay_evidence =
  se_StayID :: string
  se_InterfaceID :: string
  se_Status :: string
  se_RoomType :: string
  se_RatePlan :: string
  se_TravelAgent :: string
  se_VIP :: "bool option"
  se_Arrival :: "go_time option"
  se_Departure :: "go_time option"
  se_EvidenceVersion :: int

definition SubjectVoucher :: string where "SubjectVoucher = ''VOUCHER''"
definition SubjectAccount :: string where "SubjectAccount = ''ACCOUNT''"
definition SubjectPrincipal :: string where "SubjectPrincipal = ''PRINCIPAL''"
definition SubjectStay :: string where "SubjectStay = ''STAY''"
definition SubjectAnonymous :: string where "SubjectAnonymous = ''ANONYMOUS''"
definition MethodVoucher :: string where "MethodVoucher = ''VOUCHER''"

record eligibility_subject =
  es_Now :: go_time
  es_AuthMethod :: string
  es_Kind :: string
  es_GuestNetworkID :: string
  es_HasPriorPurchaseOfPackage :: bool
  es_ClientGroupID :: string
  es_GuestNetworkLineage :: "string list"
  es_Stay :: "stay_evidence option"

text \<open>
  \<open>int(d.Hours() / 24)\<close>: on the microsecond instants of the database the quotient of floats truncates to the
  integer quotient.
\<close>

definition Nights :: "stay_evidence \<Rightarrow> int option" where
  "Nights e = (case (se_Arrival e, se_Departure e) of
      (Some a, Some d) \<Rightarrow> (let t = time_sub d a in if t < 0 then None else Some (t div (24 * hour)))
    | _ \<Rightarrow> None)"

text \<open>A nil map differs from an empty one only where the code asks; reading either finds nothing.\<close>

record eligibility_rule =
  er_Type :: string
  er_Value :: "jmap option"

definition value_of :: "jmap option \<Rightarrow> jmap" where
  "value_of v = (case v of None \<Rightarrow> [] | Some m \<Rightarrow> m)"

record grant_tier =
  gt_Order :: int
  gt_Value :: jmap

datatype rule_type =
    RuleDateWindow | RuleAuthMethod | RuleSubjectKind | RulePriorPurchase | RuleClientGroup | RuleSiteNetwork
  | RuleStayStatus | RuleStayLength | RuleRoomType | RuleVIP | RuleTravelAgent | RulePMSInterface | RuleRatePlan

definition rule_types :: "(string \<times> rule_type) list" where
  "rule_types =
    [(''DATE_WINDOW'', RuleDateWindow), (''AUTH_METHOD'', RuleAuthMethod), (''SUBJECT_KIND'', RuleSubjectKind),
     (''PRIOR_PURCHASE'', RulePriorPurchase), (''CLIENT_GROUP'', RuleClientGroup),
     (''SITE_NETWORK'', RuleSiteNetwork), (''STAY_STATUS'', RuleStayStatus), (''STAY_LENGTH'', RuleStayLength),
     (''ROOM_TYPE'', RuleRoomType), (''VIP'', RuleVIP), (''TRAVEL_AGENT'', RuleTravelAgent),
     (''PMS_INTERFACE'', RulePMSInterface), (''RATE_PLAN'', RuleRatePlan)]"

text \<open>The \<open>switch\<close> on a rule type compares the normalised name with these constants.\<close>

definition rule_type_of :: "string \<Rightarrow> rule_type option" where
  "rule_type_of t = map_of rule_types (upper_trim t)"

definition pmsRuleTypes :: "rule_type list" where
  "pmsRuleTypes = [RuleStayStatus, RuleStayLength, RuleRoomType, RuleVIP, RuleTravelAgent, RulePMSInterface, RuleRatePlan]"

definition IsPMSRuleType :: "string \<Rightarrow> bool" where
  "IsPMSRuleType t \<longleftrightarrow> (case rule_type_of t of Some k \<Rightarrow> k \<in> set pmsRuleTypes | None \<Rightarrow> False)"

subsection \<open>Reading fields\<close>

fun asInt64 :: "json \<Rightarrow> int option" where
  "asInt64 (JNumber s) = (if list_ex (\<lambda>c. c \<in> set ''.eE'') s then None else Atoi s)"
| "asInt64 (JInt i) = Some i"
| "asInt64 _ = None"

definition MaxInt32 :: int where "MaxInt32 = 2147483647"

text \<open>(value, present, well formed).\<close>

definition parseIntField :: "jmap \<Rightarrow> string \<Rightarrow> int \<times> bool \<times> bool" where
  "parseIntField v key = (case map_of v key of
      None \<Rightarrow> (0, False, True)
    | Some raw \<Rightarrow>
        if raw = JNull then (0, False, True)
        else case asInt64 raw of
          Some n \<Rightarrow> if n < 0 \<or> n > MaxInt32 then (0, True, False) else (n, True, True)
        | None \<Rightarrow> (case raw of
            JFloat f \<Rightarrow> if f \<noteq> of_int \<lfloor>f\<rfloor> \<or> f < 0 \<or> f > of_int MaxInt32 then (0, True, False) else (\<lfloor>f\<rfloor>, True, True)
          | _ \<Rightarrow> (0, True, False)))"

definition parseTimeField :: "(string \<Rightarrow> go_time option) \<Rightarrow> jmap \<Rightarrow> string \<Rightarrow> go_time \<times> bool \<times> bool" where
  "parseTimeField rfc v key = (case map_of v key of
      None \<Rightarrow> (0, False, False)
    | Some raw \<Rightarrow> (case as_str (Some raw) of
        None \<Rightarrow> (0, True, False)
      | Some sv \<Rightarrow>
          if TrimSpace sv = [] then (0, True, False)
          else case rfc (TrimSpace sv) of None \<Rightarrow> (0, True, False) | Some t \<Rightarrow> (t, True, True)))"

text \<open>The set of the strings of an array, each in both cases; anything else gives the empty set.\<close>

definition stringSet :: "json option \<Rightarrow> string list" where
  "stringSet a = (case as_arr a of
      None \<Rightarrow> []
    | Some xs \<Rightarrow> concat (map (\<lambda>x. case as_str (Some x) of Some sv \<Rightarrow> [upper_trim sv, lower_trim sv] | None \<Rightarrow> []) xs))"

subsection \<open>Evaluating a condition\<close>

definition matchStringField :: "string list \<Rightarrow> string \<Rightarrow> string \<Rightarrow> bool \<times> string" where
  "matchStringField st v lab =
    (if st = [] then (False, ''malformed_'' @ lab @ ''_rule'')
     else if TrimSpace v = [] then (False, lab @ ''_unknown'')
     else if upper_trim v \<in> set st then (True, [])
     else (False, lab @ ''_not_matched''))"

definition eval_stay_status :: "jmap \<Rightarrow> stay_evidence \<Rightarrow> bool \<times> string" where
  "eval_stay_status v e =
    (let st = stringSet (map_of v ''statuses'')
     in if st = [] then (False, ''malformed_stay_status_rule'')
        else if se_Status e = [] then (False, ''stay_status_unknown'')
        else if ToUpper (se_Status e) \<in> set st then (True, [])
        else (False, ''stay_status_not_matched''))"

definition eval_stay_length :: "jmap \<Rightarrow> stay_evidence \<Rightarrow> bool \<times> string" where
  "eval_stay_length v e = (case Nights e of
      None \<Rightarrow> (False, ''stay_length_unknown'')
    | Some nights \<Rightarrow>
        let (minN, minPresent, minOK) = parseIntField v ''min_nights'';
            (maxN, maxPresent, maxOK) = parseIntField v ''max_nights''
        in if \<not> minPresent \<and> \<not> maxPresent then (False, ''stay_length_needs_a_bound'')
           else if (minPresent \<and> \<not> minOK) \<or> (maxPresent \<and> \<not> maxOK) then (False, ''malformed_stay_length_rule'')
           else if minPresent \<and> maxPresent \<and> minN > maxN then (False, ''stay_length_min_gt_max'')
           else if minPresent \<and> nights < minN then (False, ''stay_shorter_than_min'')
           else if maxPresent \<and> nights > maxN then (False, ''stay_longer_than_max'')
           else (True, []))"

definition eval_vip :: "jmap \<Rightarrow> stay_evidence \<Rightarrow> bool \<times> string" where
  "eval_vip v e = (case as_bool (map_of v ''is_vip'') of
      None \<Rightarrow> (False, ''malformed_vip_rule'')
    | Some want \<Rightarrow> (case se_VIP e of
        None \<Rightarrow> (False, ''vip_unknown'')
      | Some b \<Rightarrow> if b = want then (True, []) else (False, ''vip_not_matched'')))"

definition evalPMSCondition :: "rule_type \<Rightarrow> jmap \<Rightarrow> stay_evidence \<Rightarrow> bool \<times> string" where
  "evalPMSCondition k v e = (case k of
      RuleStayStatus \<Rightarrow> eval_stay_status v e
    | RuleStayLength \<Rightarrow> eval_stay_length v e
    | RuleRoomType \<Rightarrow> matchStringField (stringSet (map_of v ''room_types'')) (se_RoomType e) ''room_type''
    | RuleTravelAgent \<Rightarrow> matchStringField (stringSet (map_of v ''travel_agents'')) (se_TravelAgent e) ''travel_agent''
    | RuleRatePlan \<Rightarrow> matchStringField (stringSet (map_of v ''rate_plans'')) (se_RatePlan e) ''rate_plan''
    | RulePMSInterface \<Rightarrow> matchStringField (stringSet (map_of v ''pms_interface_ids'')) (se_InterfaceID e) ''pms_interface''
    | RuleVIP \<Rightarrow> eval_vip v e
    | _ \<Rightarrow> (False, ''unknown_pms_rule''))"

definition eval_date_window :: "(string \<Rightarrow> go_time option) \<Rightarrow> jmap \<Rightarrow> go_time \<Rightarrow> bool \<times> string" where
  "eval_date_window rfc v now =
    (let (from_t, fromPresent, fromOK) = parseTimeField rfc v ''from'';
         (until_t, untilPresent, untilOK) = parseTimeField rfc v ''until''
     in if \<not> fromPresent \<and> \<not> untilPresent then (False, ''date_window_needs_a_bound'')
        else if (fromPresent \<and> \<not> fromOK) \<or> (untilPresent \<and> \<not> untilOK) then (False, ''malformed_date_window'')
        else if fromPresent \<and> untilPresent \<and> \<not> from_t < until_t then (False, ''date_window_from_ge_until'')
        else if fromPresent \<and> now < from_t then (False, ''before_window'')
        else if untilPresent \<and> \<not> now < until_t then (False, ''after_window'')
        else (True, []))"

definition eval_member :: "string list \<Rightarrow> string \<Rightarrow> string \<Rightarrow> string \<Rightarrow> bool \<times> string" where
  "eval_member st key malformed refused =
    (if st = [] then (False, malformed) else if ToUpper key \<in> set st then (True, []) else (False, refused))"

definition eval_prior_purchase :: "jmap \<Rightarrow> bool \<Rightarrow> bool \<times> string" where
  "eval_prior_purchase v prior =
    (let req = map_of v ''requires_prior''; forb = map_of v ''forbids_prior''; reqOn = is_on req; forOn = is_on forb
     in if (req \<noteq> None \<and> as_bool req = None) \<or> (forb \<noteq> None \<and> as_bool forb = None) then (False, ''malformed_prior_purchase'')
        else if reqOn = forOn then (False, ''prior_purchase_needs_exactly_one'')
        else if reqOn \<and> \<not> prior then (False, ''requires_prior_purchase'')
        else if forOn \<and> prior then (False, ''forbids_prior_purchase'')
        else (True, []))"

definition eval_client_group :: "jmap \<Rightarrow> string \<Rightarrow> bool \<times> string" where
  "eval_client_group v grp =
    (let ids = stringSet (map_of v ''group_ids''); pub = is_on (map_of v ''public'')
     in if ids = [] \<and> \<not> pub then (False, ''malformed_client_group_rule'')
        else if grp = [] then (if pub then (True, []) else (False, ''client_group_not_allowed''))
        else if lower_trim grp \<in> set ids then (True, [])
        else (False, ''client_group_not_allowed''))"

definition eval_site_network :: "jmap \<Rightarrow> string \<Rightarrow> string list \<Rightarrow> bool \<times> string" where
  "eval_site_network v net lineage =
    (let st = stringSet (map_of v ''guest_network_ids'')
     in if st = [] then (False, ''malformed_site_network_rule'')
        else if lower_trim net \<in> set st then (True, [])
        else if list_ex (\<lambda>prior. lower_trim prior \<in> set st) lineage then (True, [])
        else (False, ''guest_network_not_allowed''))"

definition evalTypedCondition ::
  "(string \<Rightarrow> go_time option) \<Rightarrow> string \<Rightarrow> jmap \<Rightarrow> eligibility_subject \<Rightarrow> bool \<times> string" where
  "evalTypedCondition rfc ctype v s =
    (if IsPMSRuleType (upper_trim ctype) then
       (case es_Stay s of
          None \<Rightarrow> (False, ''pms_rule_without_stay_evidence'')
        | Some e \<Rightarrow>
            if se_EvidenceVersion e \<le> 0 then (False, ''pms_rule_without_versioned_evidence'')
            else case rule_type_of ctype of
                   Some k \<Rightarrow> evalPMSCondition k v e
                 | None \<Rightarrow> (False, ''unknown_pms_rule''))
     else case rule_type_of ctype of
       Some RuleDateWindow \<Rightarrow> eval_date_window rfc v (es_Now s)
     | Some RuleAuthMethod \<Rightarrow> eval_member (stringSet (map_of v ''methods'')) (es_AuthMethod s)
         ''malformed_auth_method_rule'' ''auth_method_not_allowed''
     | Some RuleSubjectKind \<Rightarrow> eval_member (stringSet (map_of v ''kinds'')) (es_Kind s)
         ''malformed_subject_kind_rule'' ''subject_kind_not_allowed''
     | Some RulePriorPurchase \<Rightarrow> eval_prior_purchase v (es_HasPriorPurchaseOfPackage s)
     | Some RuleClientGroup \<Rightarrow> eval_client_group v (es_ClientGroupID s)
     | Some RuleSiteNetwork \<Rightarrow> eval_site_network v (es_GuestNetworkID s) (es_GuestNetworkLineage s)
     | _ \<Rightarrow> (False, ''unknown_rule_type''))"

fun EvaluatePackageEligible ::
  "(string \<Rightarrow> go_time option) \<Rightarrow> eligibility_rule list \<Rightarrow> eligibility_subject \<Rightarrow> bool \<times> string" where
  "EvaluatePackageEligible rfc [] s = (True, ''eligible'')"
| "EvaluatePackageEligible rfc (r # rs) s =
    (let (ok, reason) = evalTypedCondition rfc (er_Type r) (value_of (er_Value r)) s
     in if \<not> ok then (False, reason) else EvaluatePackageEligible rfc rs s)"

subsection \<open>Choosing a tier\<close>

text \<open>Only an absent match is unconditional; a match that is not an object with a type never passes.\<close>

definition tier_matches :: "(string \<Rightarrow> go_time option) \<Rightarrow> eligibility_subject \<Rightarrow> grant_tier \<Rightarrow> bool" where
  "tier_matches rfc s t = (case map_of (gt_Value t) ''match'' of
      None \<Rightarrow> True
    | Some mv \<Rightarrow> (case as_obj (Some mv) of
        None \<Rightarrow> False
      | Some cond \<Rightarrow>
          let ctype = str_or (map_of cond ''type'')
          in if TrimSpace ctype = [] then False else fst (evalTypedCondition rfc ctype cond s)))"

fun first_of :: "('a \<Rightarrow> bool) \<Rightarrow> 'a list \<Rightarrow> 'a option" where
  "first_of P [] = None"
| "first_of P (x # xs) = (if P x then Some x else first_of P xs)"

definition FirstMatchTier :: "(string \<Rightarrow> go_time option) \<Rightarrow> grant_tier list \<Rightarrow> eligibility_subject \<Rightarrow> grant_tier option" where
  "FirstMatchTier rfc tiers s = first_of (tier_matches rfc s) (sort_key gt_Order tiers)"

subsection \<open>Purchase history, money, time\<close>

record prior_purchase_policy =
  pp_Present :: bool
  pp_WithinHours :: int
  pp_AlsoByDevice :: bool

definition prior_policy_of_rule :: "jmap \<Rightarrow> int \<Rightarrow> prior_purchase_policy" where
  "prior_policy_of_rule v priceMinor =
    (let (n, present, ok) = parseIntField v ''within_hours''
     in \<lparr>pp_Present = True,
         pp_WithinHours = (if present \<and> ok \<and> n > 0 then n else 0),
         pp_AlsoByDevice = (case as_bool (map_of v ''also_by_device'') of Some b \<Rightarrow> b | None \<Rightarrow> priceMinor = 0)\<rparr>)"

definition PriorPurchasePolicyOf :: "eligibility_rule list \<Rightarrow> int \<Rightarrow> prior_purchase_policy" where
  "PriorPurchasePolicyOf rules priceMinor =
    (case first_of (\<lambda>r. rule_type_of (er_Type r) = Some RulePriorPurchase) rules of
       Some r \<Rightarrow> prior_policy_of_rule (value_of (er_Value r)) priceMinor
     | None \<Rightarrow> \<lparr>pp_Present = False, pp_WithinHours = 0, pp_AlsoByDevice = False\<rparr>)"

definition ForSubject :: "prior_purchase_policy \<Rightarrow> string \<Rightarrow> prior_purchase_policy" where
  "ForSubject p k = (if k = SubjectVoucher then p\<lparr>pp_AlsoByDevice := False\<rparr> else p)"

definition iso4217Exponent :: "(string \<times> int) list" where
  "iso4217Exponent =
    map (\<lambda>c. (c, 0)) [''JPY'', ''KRW'', ''CLP'', ''ISK'', ''VND'', ''XAF'', ''XOF'', ''XPF'', ''UGX'', ''RWF'', ''PYG''] @
    map (\<lambda>c. (c, 2)) [''USD'', ''EUR'', ''GBP'', ''CAD'', ''AUD'', ''CHF'', ''CNY'', ''HKD'', ''SGD'', ''AED'',
      ''SAR'', ''EGP'', ''ZAR'', ''INR'', ''BRL'', ''MXN'', ''TRY'', ''PLN'', ''SEK'', ''NOK'',
      ''DKK'', ''NZD'', ''THB'', ''MYR'', ''PHP'', ''IDR'', ''QAR'', ''ILS'', ''RON'', ''CZK''] @
    map (\<lambda>c. (c, 3)) [''BHD'', ''KWD'', ''OMR'', ''JOD'', ''TND'', ''LYD'', ''IQD'']"

definition NormalizeCurrency :: "string \<Rightarrow> string" where
  "NormalizeCurrency code = upper_trim code"

definition ValidateCurrency :: "string \<Rightarrow> int \<Rightarrow> err_code + string" where
  "ValidateCurrency code exponent =
    (let c = NormalizeCurrency code
     in case map_of iso4217Exponent c of
          None \<Rightarrow> Inl ErrInvalidInput
        | Some want \<Rightarrow> if exponent \<noteq> want then Inl ErrInvalidInput else Inr c)"

definition currency_ok :: "string \<Rightarrow> int \<Rightarrow> bool" where
  "currency_ok code exponent \<longleftrightarrow> (case ValidateCurrency code exponent of Inr c \<Rightarrow> True | Inl e \<Rightarrow> False)"

definition IsFreePackage :: "int \<Rightarrow> string \<Rightarrow> int \<Rightarrow> string list \<Rightarrow> bool \<times> string" where
  "IsFreePackage priceMinor currency exponent methods =
    (if priceMinor \<noteq> 0 then (False, ''not_free'')
     else if length methods \<noteq> 1 \<or> upper_trim (hd methods) \<noteq> ''NOT_REQUIRED'' then (False, ''settlement_not_free'')
     else if \<not> currency_ok currency exponent then (False, ''invalid_currency'')
     else (True, ''free''))"

text \<open>
  The end policy. The one refusal the publication code tells from the others is an end that is no longer in
  the future.
\<close>

datatype end_error = EndPolicyInvalid | EndNotInFuture

definition stayDependentEndModes :: "string list" where
  "stayDependentEndModes = [''AT_CHECKOUT'', ''GRACE_AFTER_CHECKOUT'', ''EARLIEST_OF_FIXED_AND_CHECKOUT'', ''REST_OF_STAY'']"

definition maxDurationSeconds :: int where "maxDurationSeconds = 10 * 365 * 24 * 3600"

definition ResolveEndPolicy ::
  "(string \<Rightarrow> go_time option) \<Rightarrow> jmap \<Rightarrow> go_time \<Rightarrow> end_error + (string \<times> go_time option)" where
  "ResolveEndPolicy rfc dp now =
    (if dp = [] then Inl EndPolicyInvalid
     else let mode = upper_trim (str_or (map_of dp ''end_mode''))
     in if mode = [] then Inl EndPolicyInvalid
        else if mode \<in> set stayDependentEndModes then Inl EndPolicyInvalid
        else if map_of dp ''local_end_time'' \<noteq> None then Inl EndPolicyInvalid
        else if mode = ''MANUAL_END'' then Inr (''MANUAL_END'', None)
        else if mode = ''VALIDITY_WINDOW'' then
          (case Option.bind (map_of dp ''duration_seconds'') asInt64 of
             None \<Rightarrow> Inl EndPolicyInvalid
           | Some secs \<Rightarrow>
               if secs \<le> 0 \<or> secs > maxDurationSeconds then Inl EndPolicyInvalid
               else Inr (''VALIDITY_WINDOW'', Some (now + wrap64 (secs * second))))
        else if mode = ''FIXED_AT'' then
          (case as_str (map_of dp ''ends_at'') of
             None \<Rightarrow> Inl EndPolicyInvalid
           | Some sv \<Rightarrow>
               if TrimSpace sv = [] then Inl EndPolicyInvalid
               else case rfc (TrimSpace sv) of
                 None \<Rightarrow> Inl EndPolicyInvalid
               | Some t \<Rightarrow> if \<not> t > now then Inl EndNotInFuture else Inr (''FIXED_AT'', Some t))
        else Inl EndPolicyInvalid)"

definition TimeModeAcquirable :: "string \<Rightarrow> bool \<Rightarrow> string" where
  "TimeModeAcquirable mode aggregateEnabled =
    (let m = upper_trim mode
     in if m = [] \<or> m = ''VALIDITY_WINDOW'' then []
        else if m = ''AGGREGATE_ONLINE_TIME'' then
          (if aggregateEnabled then [] else ''aggregate_online_time_not_enabled'')
        else ''unsupported_time_accounting_mode'')"

subsection \<open>The grant snapshot\<close>

definition GrantSnapshotVersion :: int where "GrantSnapshotVersion = 1"
definition maxKbps :: int where "maxKbps = 10000000"
definition maxDevices :: int where "maxDevices = 1000"
definition maxIdleSeconds :: int where "maxIdleSeconds = 30 * 24 * 3600"
definition maxSessionSeconds :: int where "maxSessionSeconds = 365 * 24 * 3600"
definition maxTimeQuotaSecond :: int where "maxTimeQuotaSecond = 10 * 365 * 24 * 3600"
definition maxDataQuotaBytes :: int where "maxDataQuotaBytes = 2 ^ 50"

lemmas cap_defs = maxKbps_def maxDevices_def maxIdleSeconds_def maxSessionSeconds_def maxTimeQuotaSecond_def maxDataQuotaBytes_def

definition deviceLimitPolicies :: "string list" where
  "deviceLimitPolicies = [''REJECT_NEW_DEVICE'', ''DISCONNECT_OLDEST'', ''ADMIN_APPROVAL'']"

definition knownGrantKeys :: "string list" where
  "knownGrantKeys = [''match'', ''down_kbps'', ''up_kbps'', ''max_concurrent_devices'', ''device_limit_policy'',
    ''idle_timeout_seconds'', ''max_continuous_session_seconds'', ''time_quota_seconds'', ''data_quota_bytes'',
    ''time_accounting_mode'']"

record plan_revision_row =
  pr_ID :: string
  pr_DownKbps :: int
  pr_UpKbps :: int
  pr_MaxConcurrentDevices :: int
  pr_TimeQuotaSeconds :: int
  pr_DataQuotaBytes :: int
  pr_TimeAccountingMode :: string

text \<open>The fields of \<open>GrantSnapshot\<close>; \<open>DurationPolicy\<close> is the policy itself, which the code stores as JSON text.\<close>

record grant_snapshot =
  gs_Version :: int
  gs_ServicePlanRevisionID :: string
  gs_PackageRevisionID :: string
  gs_GrantTierOrder :: int
  gs_DownKbps :: int
  gs_UpKbps :: int
  gs_MaxConcurrentDevices :: int
  gs_DeviceLimitPolicy :: string
  gs_IdleTimeoutSeconds :: int
  gs_MaxContinuousSessionSeconds :: int
  gs_TimeQuotaSeconds :: int
  gs_DataQuotaBytes :: int
  gs_TimeAccountingMode :: string
  gs_EndMode :: string
  gs_WindowEndsAt :: "go_time option"
  gs_DurationPolicy :: jmap
  gs_AcquisitionMethod :: string
  gs_FrozenDataQuotaBytes :: int

text \<open>One override of a plan value: absent keeps the plan's, a bad one is an error.\<close>

definition int_override :: "jmap \<Rightarrow> string \<Rightarrow> int \<Rightarrow> int \<Rightarrow> int option" where
  "int_override v key dst cap = (case map_of v key of
      None \<Rightarrow> Some dst
    | Some j \<Rightarrow> (case asInt64 j of
        None \<Rightarrow> None
      | Some iv \<Rightarrow> if iv < 0 \<or> iv > cap then None else Some iv))"

definition device_policy :: "jmap \<Rightarrow> string option" where
  "device_policy v = (case map_of v ''device_limit_policy'' of
      None \<Rightarrow> Some ''REJECT_NEW_DEVICE''
    | Some j \<Rightarrow> (case as_str (Some j) of
        None \<Rightarrow> None
      | Some s \<Rightarrow> if upper_trim s \<in> set deviceLimitPolicies then Some (upper_trim s) else None))"

text \<open>An omitted mode is \<open>VALIDITY_WINDOW\<close>; the two supported names pass in either case.\<close>

definition accounting_mode :: "string \<Rightarrow> string option" where
  "accounting_mode m =
    (let m' = (if m = [] then ''VALIDITY_WINDOW'' else m)
     in if ToUpper m' \<in> {''VALIDITY_WINDOW'', ''AGGREGATE_ONLINE_TIME''} then Some m' else None)"

definition known_keys_only :: "jmap \<Rightarrow> bool" where
  "known_keys_only v \<longleftrightarrow> list_all (\<lambda>(k, j). k \<in> set knownGrantKeys) v"

definition BuildGrantSnapshot :: "grant_tier \<Rightarrow> plan_revision_row \<Rightarrow> string \<Rightarrow> err_code + grant_snapshot" where
  "BuildGrantSnapshot tier plan pkgID =
    (let v = gt_Value tier
     in if \<not> known_keys_only v then Inl ErrInvalidInput
        else case (int_override v ''down_kbps'' (pr_DownKbps plan) maxKbps,
                   int_override v ''up_kbps'' (pr_UpKbps plan) maxKbps,
                   int_override v ''max_concurrent_devices'' (pr_MaxConcurrentDevices plan) maxDevices,
                   int_override v ''idle_timeout_seconds'' 0 maxIdleSeconds,
                   int_override v ''max_continuous_session_seconds'' 0 maxSessionSeconds,
                   int_override v ''time_quota_seconds'' (pr_TimeQuotaSeconds plan) maxTimeQuotaSecond,
                   int_override v ''data_quota_bytes'' (pr_DataQuotaBytes plan) maxDataQuotaBytes) of
          (Some down, Some up, Some devs, Some idle, Some sess, Some tq, Some dq) \<Rightarrow>
            (case device_policy v of
               None \<Rightarrow> Inl ErrInvalidInput
             | Some dpol \<Rightarrow>
                 if map_of v ''time_accounting_mode'' \<noteq> None then Inl ErrInvalidInput
                 else case accounting_mode (pr_TimeAccountingMode plan) of
                   None \<Rightarrow> Inl ErrInvalidInput
                 | Some mode \<Rightarrow>
                     if devs < 1 then Inl ErrInvalidInput
                     else Inr \<lparr>gs_Version = GrantSnapshotVersion, gs_ServicePlanRevisionID = pr_ID plan,
                       gs_PackageRevisionID = pkgID, gs_GrantTierOrder = gt_Order tier, gs_DownKbps = down,
                       gs_UpKbps = up, gs_MaxConcurrentDevices = devs, gs_DeviceLimitPolicy = dpol,
                       gs_IdleTimeoutSeconds = idle, gs_MaxContinuousSessionSeconds = sess,
                       gs_TimeQuotaSeconds = tq, gs_DataQuotaBytes = dq, gs_TimeAccountingMode = mode,
                       gs_EndMode = [], gs_WindowEndsAt = None, gs_DurationPolicy = [], gs_AcquisitionMethod = [],
                       gs_FrozenDataQuotaBytes = 0\<rparr>)
        | _ \<Rightarrow> Inl ErrInvalidInput)"

subsection \<open>Publication checks\<close>

definition hex_digit :: "char \<Rightarrow> bool" where
  "hex_digit c \<longleftrightarrow> is_digit c \<or> (CHR ''a'' \<le> c \<and> c \<le> CHR ''f'') \<or> (CHR ''A'' \<le> c \<and> c \<le> CHR ''F'')"

text \<open>The regular expression \<open>uuidRe\<close>: groups of 8, 4, 4, 4 and 12 hexadecimal digits.\<close>

definition uuidRe :: "string \<Rightarrow> bool" where
  "uuidRe s \<longleftrightarrow> map length (Split (CHR ''-'') s) = [8, 4, 4, 4, 12]
     \<and> list_all (list_all hex_digit) (Split (CHR ''-'') s)"

definition validAuthMethods :: "string list" where
  "validAuthMethods = [''VOUCHER'', ''ACCOUNT'', ''OTP'', ''SOCIAL'', ''OPEN'', ''PMS'']"

definition validSubjectKinds :: "string list" where
  "validSubjectKinds = [''VOUCHER'', ''ACCOUNT'', ''PRINCIPAL'', ''ANONYMOUS'', ''STAY'']"

fun ruleAllowedFields :: "rule_type \<Rightarrow> string list" where
  "ruleAllowedFields RuleDateWindow = [''from'', ''until'']"
| "ruleAllowedFields RuleAuthMethod = [''methods'']"
| "ruleAllowedFields RuleSubjectKind = [''kinds'']"
| "ruleAllowedFields RulePriorPurchase = [''requires_prior'', ''forbids_prior'', ''within_hours'', ''also_by_device'']"
| "ruleAllowedFields RuleSiteNetwork = [''guest_network_ids'']"
| "ruleAllowedFields RuleClientGroup = [''group_ids'', ''public'']"
| "ruleAllowedFields RuleStayStatus = [''statuses'']"
| "ruleAllowedFields RuleStayLength = [''min_nights'', ''max_nights'']"
| "ruleAllowedFields RuleRoomType = [''room_types'']"
| "ruleAllowedFields RuleVIP = [''is_vip'']"
| "ruleAllowedFields RuleTravelAgent = [''travel_agents'']"
| "ruleAllowedFields RulePMSInterface = [''pms_interface_ids'']"
| "ruleAllowedFields RuleRatePlan = [''rate_plans'']"

definition noUnknownFields :: "jmap \<Rightarrow> string list \<Rightarrow> bool" where
  "noUnknownFields v allowed \<longleftrightarrow> list_all (\<lambda>(k, j). k \<in> set allowed) v"

text \<open>
  The two list normalisers: every element a string that passes the test after normalisation, duplicates
  dropped at their later occurrence.
\<close>

fun norm_list :: "(string \<Rightarrow> string) \<Rightarrow> (string \<Rightarrow> bool) \<Rightarrow> string list \<Rightarrow> json list \<Rightarrow> string list option" where
  "norm_list f P out [] = Some out"
| "norm_list f P out (x # xs) = (case as_str (Some x) of
      None \<Rightarrow> None
    | Some s \<Rightarrow> if \<not> P (f s) then None
                else norm_list f P (if f s \<in> set out then out else out @ [f s]) xs)"

definition normalizedEnumList :: "json option \<Rightarrow> string list \<Rightarrow> string list option" where
  "normalizedEnumList a allowed = (case as_arr a of
      None \<Rightarrow> None
    | Some xs \<Rightarrow> if xs = [] then None else norm_list upper_trim (\<lambda>s. s \<noteq> [] \<and> s \<in> set allowed) [] xs)"

definition normalizedUUIDList :: "json option \<Rightarrow> string list option" where
  "normalizedUUIDList a = (case as_arr a of
      None \<Rightarrow> None
    | Some xs \<Rightarrow> if xs = [] then None else norm_list lower_trim uuidRe [] xs)"

definition requireNonEmptyStrings :: "jmap \<Rightarrow> string \<Rightarrow> bool" where
  "requireNonEmptyStrings v key \<longleftrightarrow> stringSet (map_of v key) \<noteq> []"

definition bounds_wf :: "('a \<Rightarrow> 'a \<Rightarrow> bool) \<Rightarrow> 'a \<times> bool \<times> bool \<Rightarrow> 'a \<times> bool \<times> bool \<Rightarrow> bool" where
  "bounds_wf ordered lo hi = (let (l, lP, lOK) = lo; (h, hP, hOK) = hi
     in (lP \<or> hP) \<and> \<not> ((lP \<and> \<not> lOK) \<or> (hP \<and> \<not> hOK)) \<and> \<not> (lP \<and> hP \<and> \<not> ordered l h))"

definition validatePMSRule :: "rule_type \<Rightarrow> jmap \<Rightarrow> bool" where
  "validatePMSRule k v = (case k of
      RuleStayStatus \<Rightarrow> requireNonEmptyStrings v ''statuses''
    | RuleRoomType \<Rightarrow> requireNonEmptyStrings v ''room_types''
    | RuleTravelAgent \<Rightarrow> requireNonEmptyStrings v ''travel_agents''
    | RuleRatePlan \<Rightarrow> requireNonEmptyStrings v ''rate_plans''
    | RulePMSInterface \<Rightarrow> normalizedUUIDList (map_of v ''pms_interface_ids'') \<noteq> None
    | RuleVIP \<Rightarrow> as_bool (map_of v ''is_vip'') \<noteq> None
    | RuleStayLength \<Rightarrow> bounds_wf (\<le>) (parseIntField v ''min_nights'') (parseIntField v ''max_nights'')
    | _ \<Rightarrow> True)"

definition client_group_valid :: "jmap \<Rightarrow> bool" where
  "client_group_valid v =
    (let pub = map_of v ''public''; ids = map_of v ''group_ids''
     in (pub \<noteq> None \<longrightarrow> as_bool pub \<noteq> None)
        \<and> (ids \<noteq> None \<longrightarrow> as_arr ids \<noteq> Some [] \<longrightarrow> normalizedUUIDList ids \<noteq> None)
        \<and> (\<not> is_on pub \<longrightarrow> normalizedUUIDList ids \<noteq> None))"

definition prior_purchase_valid :: "jmap \<Rightarrow> bool" where
  "prior_purchase_valid v =
    (let (n, present, ok) = parseIntField v ''within_hours'';
         dev = map_of v ''also_by_device''; req = map_of v ''requires_prior''; forb = map_of v ''forbids_prior''
     in \<not> (present \<and> (\<not> ok \<or> n < 1 \<or> n > 8760))
        \<and> (dev \<noteq> None \<longrightarrow> as_bool dev \<noteq> None)
        \<and> \<not> ((req \<noteq> None \<and> as_bool req = None) \<or> (forb \<noteq> None \<and> as_bool forb = None))
        \<and> is_on req \<noteq> is_on forb)"

definition ValidateEligibilityRule :: "(string \<Rightarrow> go_time option) \<Rightarrow> eligibility_rule \<Rightarrow> bool" where
  "ValidateEligibilityRule rfc r = (case rule_type_of (er_Type r) of
      None \<Rightarrow> False
    | Some k \<Rightarrow> (case er_Value r of
        None \<Rightarrow> False
      | Some v \<Rightarrow> noUnknownFields v (ruleAllowedFields k) \<and>
          (if IsPMSRuleType (upper_trim (er_Type r)) then validatePMSRule k v
           else case k of
             RuleDateWindow \<Rightarrow> bounds_wf (<) (parseTimeField rfc v ''from'') (parseTimeField rfc v ''until'')
           | RuleAuthMethod \<Rightarrow> normalizedEnumList (map_of v ''methods'') validAuthMethods \<noteq> None
           | RuleSubjectKind \<Rightarrow> normalizedEnumList (map_of v ''kinds'') validSubjectKinds \<noteq> None
           | RuleClientGroup \<Rightarrow> client_group_valid v
           | RulePriorPurchase \<Rightarrow> prior_purchase_valid v
           | RuleSiteNetwork \<Rightarrow> normalizedUUIDList (map_of v ''guest_network_ids'') \<noteq> None
           | _ \<Rightarrow> True)))"

text \<open>A tier is checked against a plan with one device and the default mode, all else zero.\<close>

definition dummy_plan :: plan_revision_row where
  "dummy_plan = \<lparr>pr_ID = ''00000000-0000-0000-0000-000000000000'', pr_DownKbps = 0, pr_UpKbps = 0,
     pr_MaxConcurrentDevices = 1, pr_TimeQuotaSeconds = 0, pr_DataQuotaBytes = 0, pr_TimeAccountingMode = ''VALIDITY_WINDOW''\<rparr>"

definition match_valid :: "(string \<Rightarrow> go_time option) \<Rightarrow> json option \<Rightarrow> bool" where
  "match_valid rfc mv = (case mv of
      None \<Rightarrow> True
    | Some j \<Rightarrow> (case as_obj (Some j) of
        None \<Rightarrow> False
      | Some cond \<Rightarrow>
          let ct = upper_trim (str_or (map_of cond ''type''))
          in ct \<noteq> [] \<and> ValidateEligibilityRule rfc
               \<lparr>er_Type = ct, er_Value = Some (filter (\<lambda>(k, val). k \<noteq> ''type'') cond)\<rparr>))"

definition ValidateGrantTier :: "(string \<Rightarrow> go_time option) \<Rightarrow> grant_tier \<Rightarrow> bool" where
  "ValidateGrantTier rfc t \<longleftrightarrow> 0 \<le> gt_Order t \<and> known_keys_only (gt_Value t)
     \<and> match_valid rfc (map_of (gt_Value t) ''match'')
     \<and> (case BuildGrantSnapshot t dummy_plan ''00000000-0000-0000-0000-000000000000'' of Inr g \<Rightarrow> True | Inl e \<Rightarrow> False)"

text \<open>
  Why a revision can never be redeemed by a voucher, or nothing. The sentences are the operator's; the
  reason is kept.
\<close>

datatype voucher_blocker = PerNightAllowance | HotelCondition string | ClientGroupsOnly | MethodExcluded | KindExcluded

definition rule_blocks_voucher :: "eligibility_rule \<Rightarrow> voucher_blocker option" where
  "rule_blocks_voucher r =
    (let t = upper_trim (er_Type r); v = value_of (er_Value r)
     in if IsPMSRuleType t then Some (HotelCondition t)
        else if rule_type_of (er_Type r) = Some RuleClientGroup then
          (if \<not> is_on (map_of v ''public'') then Some ClientGroupsOnly else None)
        else if rule_type_of (er_Type r) = Some RuleAuthMethod then
          (if ''VOUCHER'' \<notin> set (stringSet (map_of v ''methods'')) then Some MethodExcluded else None)
        else if rule_type_of (er_Type r) = Some RuleSubjectKind then
          (if ''VOUCHER'' \<notin> set (stringSet (map_of v ''kinds'')) then Some KindExcluded else None)
        else None)"

definition AllocPerStayNight :: string where "AllocPerStayNight = ''PER_STAY_NIGHT''"

fun first_blocker :: "eligibility_rule list \<Rightarrow> voucher_blocker option" where
  "first_blocker [] = None"
| "first_blocker (r # rs) = (case rule_blocks_voucher r of Some b \<Rightarrow> Some b | None \<Rightarrow> first_blocker rs)"

definition VoucherBlocker :: "string \<Rightarrow> eligibility_rule list \<Rightarrow> voucher_blocker option" where
  "VoucherBlocker mode rules =
    (if EqualFold (TrimSpace mode) AllocPerStayNight then Some PerNightAllowance else first_blocker rules)"

definition tier_sets :: "grant_tier \<Rightarrow> string list" where
  "tier_sets t = sort (remdups (filter (\<lambda>k. k \<noteq> ''match'') (map fst (gt_Value t))))"

datatype tier_refusal = SpeedSteps | StepSets "string list"

definition GrantTiersEnforceableRefusal :: "grant_tier list \<Rightarrow> tier_refusal option" where
  "GrantTiersEnforceableRefusal tiers =
    (if 1 < length tiers then Some SpeedSteps
     else case tiers of
       t # _ \<Rightarrow> if tier_sets t \<noteq> [] then Some (StepSets (tier_sets t)) else None
     | [] \<Rightarrow> None)"

subsection \<open>Normal forms of strings\<close>

lemma is_lower_iff: "is_lower c \<longleftrightarrow> 97 \<le> (of_char c :: nat) \<and> (of_char c :: nat) \<le> 122"
  by (simp add: is_lower_def less_eq_char_def)

lemma is_upper_iff: "is_upper c \<longleftrightarrow> 65 \<le> (of_char c :: nat) \<and> (of_char c :: nat) \<le> 90"
  by (simp add: is_upper_def less_eq_char_def)

lemma of_char_upper: "is_lower c \<Longrightarrow> (of_char (upper_char c) :: nat) = of_char c - 32"
proof -
  assume "is_lower c"
  then have "(of_char c :: nat) - 32 < 256" unfolding is_lower_iff by linarith
  then have "(of_char (char_of (of_char c - 32 :: nat)) :: nat) = of_char c - 32" by (simp add: take_bit_eq_mod)
  then show ?thesis using \<open>is_lower c\<close> by (simp add: upper_char_def)
qed

lemma of_char_lower: "is_upper c \<Longrightarrow> (of_char (lower_char c) :: nat) = of_char c + 32"
  by (simp add: lower_char_def is_upper_iff take_bit_eq_mod)

lemma upper_char_not_lower: "\<not> is_lower (upper_char c)"
  by (cases "is_lower c") (auto simp: of_char_upper is_lower_iff upper_char_def)

lemma lower_char_not_upper: "\<not> is_upper (lower_char c)"
  by (cases "is_upper c") (auto simp: of_char_lower is_upper_iff lower_char_def)

lemma upper_char_idem [simp]: "upper_char (upper_char c) = upper_char c"
  using upper_char_not_lower [of c] by (simp add: upper_char_def [of "upper_char c"])

lemma is_space_upper [simp]: "is_space (upper_char c) = is_space c"
  by (cases "is_lower c") (auto simp: is_space_def of_char_upper is_lower_iff upper_char_def)

lemma is_space_lower [simp]: "is_space (lower_char c) = is_space c"
  by (cases "is_upper c") (auto simp: is_space_def of_char_lower is_upper_iff lower_char_def)

text \<open>A character that is the upper case of one and the lower case of another is no letter at all.\<close>

lemma upper_eq_lower_char: "upper_char c = lower_char d \<Longrightarrow> lower_char c = lower_char d \<and> upper_char d = upper_char c"
proof -
  assume e: "upper_char c = lower_char d"
  have "\<not> is_lower c"
  proof
    assume c: "is_lower c"
    then have "is_upper (upper_char c)" by (simp add: is_upper_iff of_char_upper is_lower_iff, arith)
    then show False using e lower_char_not_upper [of d] by simp
  qed
  moreover have "\<not> is_upper d"
  proof
    assume d: "is_upper d"
    then have "is_lower (lower_char d)" by (simp add: is_lower_iff of_char_lower is_upper_iff)
    then show False using e upper_char_not_lower [of c] by simp
  qed
  ultimately have *: "c = d" using e by (simp add: upper_char_def lower_char_def)
  show ?thesis using e by (simp add: *)
qed

lemma upper_eq_lower: "ToUpper a = ToLower b \<Longrightarrow> ToLower a = ToLower b \<and> ToUpper b = ToUpper a"
proof (induction a arbitrary: b)
  case (Cons c a)
  then obtain d b' where b: "b = d # b'" "upper_char c = lower_char d" "ToUpper a = ToLower b'"
    by (cases b) (auto simp: ToUpper_def ToLower_def)
  show ?case using Cons.IH [OF b(3)] upper_eq_lower_char [OF b(2)] by (simp add: b(1) ToUpper_def ToLower_def)
qed (simp add: ToUpper_def ToLower_def)

lemma TrimSpace_map: "(\<And>c. is_space (f c) = is_space c) \<Longrightarrow> TrimSpace (map f s) = map f (TrimSpace s)"
proof -
  assume f: "\<And>c. is_space (f c) = is_space c"
  then have "is_space \<circ> f = is_space" by (simp add: fun_eq_iff)
  then show ?thesis by (simp add: TrimSpace_def dropWhile_map rev_map)
qed

lemma TrimSpace_ToUpper: "TrimSpace (ToUpper s) = ToUpper (TrimSpace s)"
  by (simp add: ToUpper_def TrimSpace_map)

lemma TrimSpace_ToLower: "TrimSpace (ToLower s) = ToLower (TrimSpace s)"
  by (simp add: ToLower_def TrimSpace_map)

lemma dropWhile_fixed: "(\<And>x xs'. xs = x # xs' \<Longrightarrow> \<not> P x) \<Longrightarrow> dropWhile P xs = xs"
  by (cases xs) auto

lemma TrimSpace_idem [simp]: "TrimSpace (TrimSpace s) = TrimSpace s"
proof -
  define t where "t = dropWhile is_space s"
  define u where "u = rev (dropWhile is_space (rev t))"
  have "u @ rev (takeWhile is_space (rev t)) = t"
    unfolding u_def by (metis rev_append rev_rev_ident takeWhile_dropWhile_id)
  then have hd: "\<not> is_space x" if "u = x # xs" for x xs
    using that hd_dropWhile [of is_space s] unfolding t_def by (metis append_Cons list.distinct(1) list.sel(1))
  have "dropWhile is_space u = u" by (rule dropWhile_fixed) (rule hd)
  moreover have "dropWhile is_space (rev u) = rev u" by (simp add: u_def)
  moreover have "TrimSpace s = u" by (simp add: TrimSpace_def t_def u_def)
  ultimately show ?thesis by (simp add: TrimSpace_def)
qed

lemma ToUpper_idem [simp]: "ToUpper (ToUpper s) = ToUpper s"
  by (simp add: ToUpper_def)

lemma upper_trim_idem [simp]: "upper_trim (upper_trim s) = upper_trim s"
  by (simp add: upper_trim_def TrimSpace_ToUpper)

lemma rule_type_of_norm [simp]: "rule_type_of (upper_trim t) = rule_type_of t"
  by (simp add: rule_type_of_def)

lemma IsPMSRuleType_norm [simp]: "IsPMSRuleType (upper_trim t) = IsPMSRuleType t"
  by (simp add: IsPMSRuleType_def)

lemma upper_trim_Nil_iff: "upper_trim s = [] \<longleftrightarrow> TrimSpace s = []"
  by (simp add: upper_trim_def)

text \<open>Membership in a string set: both spellings are there, so either normal form decides.\<close>

definition strings_in :: "json option \<Rightarrow> string set" where
  "strings_in a = {sv. \<exists>xs. as_arr a = Some xs \<and> JStr sv \<in> set xs}"

lemma as_str_Some: "as_str j = Some s \<longleftrightarrow> j = Some (JStr s)"
  by (cases j rule: as_str.cases) auto

lemma as_arr_Some: "as_arr j = Some xs \<longleftrightarrow> j = Some (JArr xs)"
  by (cases j rule: as_arr.cases) auto

lemma as_obj_Some: "as_obj j = Some xs \<longleftrightarrow> j = Some (JObj xs)"
  by (cases j rule: as_obj.cases) auto

lemma as_bool_Some: "as_bool j = Some b \<longleftrightarrow> j = Some (JBool b)"
  by (cases j rule: as_bool.cases) auto

lemma set_stringSet: "set (stringSet a) = (\<Union>sv \<in> strings_in a. {upper_trim sv, lower_trim sv})"
proof (cases "as_arr a")
  case (Some xs)
  have "set (case as_str (Some x) of Some sv \<Rightarrow> [upper_trim sv, lower_trim sv] | None \<Rightarrow> [])
      = (\<Union>sv \<in> {sv. x = JStr sv}. {upper_trim sv, lower_trim sv})" for x
    by (cases x) auto
  then have "set (stringSet a) = (\<Union>x \<in> set xs. \<Union>sv \<in> {sv. x = JStr sv}. {upper_trim sv, lower_trim sv})"
    using Some by (simp add: stringSet_def)
  moreover have "strings_in a = {sv. JStr sv \<in> set xs}" using Some by (simp add: strings_in_def)
  ultimately show ?thesis by blast
qed (simp add: stringSet_def strings_in_def)

lemma stringSet_Nil: "stringSet a = [] \<longleftrightarrow> strings_in a = {}"
proof -
  have "stringSet a = [] \<longleftrightarrow> set (stringSet a) = {}" by simp
  then show ?thesis unfolding set_stringSet by auto
qed

lemma mem_stringSet_lower: "lower_trim x \<in> set (stringSet a) \<longleftrightarrow> lower_trim x \<in> lower_trim ` strings_in a"
proof -
  have "lower_trim x = upper_trim sv \<Longrightarrow> lower_trim x = lower_trim sv" for sv
    using upper_eq_lower [of "TrimSpace sv" "TrimSpace x"] by (simp add: upper_trim_def lower_trim_def)
  then show ?thesis unfolding set_stringSet by blast
qed

lemma mem_stringSet_upper: "ToUpper x \<in> set (stringSet a) \<longleftrightarrow> ToUpper x \<in> upper_trim ` strings_in a"
proof -
  have "ToUpper x = lower_trim sv \<Longrightarrow> ToUpper x = upper_trim sv" for sv
    using upper_eq_lower [of x "TrimSpace sv"] by (simp add: upper_trim_def lower_trim_def)
  then show ?thesis unfolding set_stringSet by blast
qed

lemma mem_stringSet_upper_trim: "upper_trim x \<in> set (stringSet a) \<longleftrightarrow> upper_trim x \<in> upper_trim ` strings_in a"
  using mem_stringSet_upper [of "TrimSpace x" a] by (simp add: upper_trim_def)

subsection \<open>What a published rule means\<close>

text \<open>
  The reading an operator gives a rule: intervals and set membership, with no malformed values in sight.
  Text compares up to case and surrounding blanks; instants lie in a half-open window; a question about a
  stay is answered from versioned evidence that states the field.
\<close>

definition bound_of :: "'a \<times> bool \<times> bool \<Rightarrow> 'a option" where
  "bound_of b = (if fst (snd b) then Some (fst b) else None)"

definition above :: "('a::linorder) option \<Rightarrow> 'a \<Rightarrow> bool" where
  "above lo x = (case lo of None \<Rightarrow> True | Some l \<Rightarrow> l \<le> x)"

definition stated_in :: "json option \<Rightarrow> string \<Rightarrow> bool" where
  "stated_in a x \<longleftrightarrow> TrimSpace x \<noteq> [] \<and> upper_trim x \<in> upper_trim ` strings_in a"

definition stay_meaning :: "rule_type \<Rightarrow> jmap \<Rightarrow> stay_evidence \<Rightarrow> bool" where
  "stay_meaning k v e = (case k of
      RuleStayStatus \<Rightarrow> se_Status e \<noteq> [] \<and> ToUpper (se_Status e) \<in> upper_trim ` strings_in (map_of v ''statuses'')
    | RuleStayLength \<Rightarrow> (\<exists>n. Nights e = Some n \<and> above (bound_of (parseIntField v ''min_nights'')) n
          \<and> (\<forall>m. bound_of (parseIntField v ''max_nights'') = Some m \<longrightarrow> n \<le> m))
    | RuleRoomType \<Rightarrow> stated_in (map_of v ''room_types'') (se_RoomType e)
    | RuleTravelAgent \<Rightarrow> stated_in (map_of v ''travel_agents'') (se_TravelAgent e)
    | RuleRatePlan \<Rightarrow> stated_in (map_of v ''rate_plans'') (se_RatePlan e)
    | RulePMSInterface \<Rightarrow> stated_in (map_of v ''pms_interface_ids'') (se_InterfaceID e)
    | RuleVIP \<Rightarrow> se_VIP e \<noteq> None \<and> se_VIP e = as_bool (map_of v ''is_vip'')
    | _ \<Rightarrow> False)"

definition rule_meaning :: "(string \<Rightarrow> go_time option) \<Rightarrow> rule_type \<Rightarrow> jmap \<Rightarrow> eligibility_subject \<Rightarrow> bool" where
  "rule_meaning rfc k v s = (case k of
      RuleDateWindow \<Rightarrow> above (bound_of (parseTimeField rfc v ''from'')) (es_Now s)
          \<and> (\<forall>u. bound_of (parseTimeField rfc v ''until'') = Some u \<longrightarrow> es_Now s < u)
    | RuleAuthMethod \<Rightarrow> ToUpper (es_AuthMethod s) \<in> upper_trim ` strings_in (map_of v ''methods'')
    | RuleSubjectKind \<Rightarrow> ToUpper (es_Kind s) \<in> upper_trim ` strings_in (map_of v ''kinds'')
    | RulePriorPurchase \<Rightarrow> es_HasPriorPurchaseOfPackage s = is_on (map_of v ''requires_prior'')
    | RuleClientGroup \<Rightarrow>
        (if es_ClientGroupID s = [] then is_on (map_of v ''public'')
         else lower_trim (es_ClientGroupID s) \<in> lower_trim ` strings_in (map_of v ''group_ids''))
    | RuleSiteNetwork \<Rightarrow> (\<exists>n \<in> insert (es_GuestNetworkID s) (set (es_GuestNetworkLineage s)).
          lower_trim n \<in> lower_trim ` strings_in (map_of v ''guest_network_ids''))
    | _ \<Rightarrow> (\<exists>e. es_Stay s = Some e \<and> 0 < se_EvidenceVersion e \<and> stay_meaning k v e))"

lemma norm_list_strings:
  "norm_list f P out xs = Some ys \<Longrightarrow> xs \<noteq> [] \<Longrightarrow> \<exists>sv. JStr sv \<in> set xs"
  by (cases xs) (auto simp: as_str_Some split: option.splits)

lemma normalized_strings:
  "normalizedUUIDList a \<noteq> None \<Longrightarrow> strings_in a \<noteq> {}"
  "normalizedEnumList a allowed \<noteq> None \<Longrightarrow> strings_in a \<noteq> {}"
  unfolding normalizedUUIDList_def normalizedEnumList_def strings_in_def
  by (auto split: option.splits if_splits dest: norm_list_strings)

lemma bounds_wf_iff:
  "bounds_wf ordered lo hi \<longleftrightarrow>
     (\<exists>l lP lOK h hP hOK. lo = (l, lP, lOK) \<and> hi = (h, hP, hOK) \<and> (lP \<or> hP) \<and> (lP \<longrightarrow> lOK) \<and> (hP \<longrightarrow> hOK)
        \<and> (lP \<and> hP \<longrightarrow> ordered l h))"
  unfolding bounds_wf_def by (cases lo; cases hi) auto

lemma eval_date_window_meaning:
  "bounds_wf (<) (parseTimeField rfc v ''from'') (parseTimeField rfc v ''until'') \<Longrightarrow>
   fst (eval_date_window rfc v now) \<longleftrightarrow> above (bound_of (parseTimeField rfc v ''from'')) now
     \<and> (\<forall>u. bound_of (parseTimeField rfc v ''until'') = Some u \<longrightarrow> now < u)"
  unfolding eval_date_window_def bounds_wf_iff above_def bound_of_def by (auto simp: not_less split: if_splits)

lemma eval_stay_length_meaning:
  "bounds_wf (\<le>) (parseIntField v ''min_nights'') (parseIntField v ''max_nights'') \<Longrightarrow>
   fst (eval_stay_length v e) \<longleftrightarrow> stay_meaning RuleStayLength v e"
  unfolding eval_stay_length_def bounds_wf_iff above_def bound_of_def stay_meaning_def
  by (auto simp: not_less split: option.splits if_splits)

lemma eval_member_meaning:
  "strings_in a \<noteq> {} \<Longrightarrow> fst (eval_member (stringSet a) x m r) \<longleftrightarrow> ToUpper x \<in> upper_trim ` strings_in a"
  by (simp add: eval_member_def stringSet_Nil mem_stringSet_upper)

lemma eval_member_enum:
  "normalizedEnumList a allowed = Some ys \<Longrightarrow>
   fst (eval_member (stringSet a) x m r) \<longleftrightarrow> ToUpper x \<in> upper_trim ` strings_in a"
  using eval_member_meaning [OF normalized_strings(2) [of a allowed]] by simp

lemma matchStringField_meaning:
  "strings_in a \<noteq> {} \<Longrightarrow> fst (matchStringField (stringSet a) x l) \<longleftrightarrow> stated_in a x"
  by (simp add: matchStringField_def stated_in_def stringSet_Nil mem_stringSet_upper_trim)

lemma eval_vip_meaning:
  "as_bool (map_of v ''is_vip'') \<noteq> None \<Longrightarrow> fst (eval_vip v e) \<longleftrightarrow> stay_meaning RuleVIP v e"
  by (auto simp: eval_vip_def stay_meaning_def split: option.splits)

lemma evalPMSCondition_meaning:
  assumes "validatePMSRule k v" and "k \<in> set pmsRuleTypes"
  shows "fst (evalPMSCondition k v e) \<longleftrightarrow> stay_meaning k v e"
proof (cases k)
  case RuleStayStatus
  with assms show ?thesis
    by (simp add: validatePMSRule_def requireNonEmptyStrings_def stringSet_Nil evalPMSCondition_def eval_stay_status_def
        stay_meaning_def Let_def mem_stringSet_upper)
next
  case RuleStayLength
  with assms show ?thesis by (simp add: validatePMSRule_def evalPMSCondition_def eval_stay_length_meaning)
next
  case RuleVIP
  with assms show ?thesis by (simp add: validatePMSRule_def evalPMSCondition_def eval_vip_meaning)
qed (use assms in \<open>simp_all add: validatePMSRule_def requireNonEmptyStrings_def stringSet_Nil evalPMSCondition_def
      matchStringField_meaning normalized_strings stay_meaning_def pmsRuleTypes_def\<close>)

lemma eval_prior_purchase_meaning:
  "prior_purchase_valid v \<Longrightarrow> fst (eval_prior_purchase v prior) \<longleftrightarrow> prior = is_on (map_of v ''requires_prior'')"
  unfolding prior_purchase_valid_def eval_prior_purchase_def Let_def by (auto split: prod.splits)

lemma eval_client_group_meaning:
  assumes "client_group_valid v"
  shows "fst (eval_client_group v grp) \<longleftrightarrow>
    (if grp = [] then is_on (map_of v ''public'') else lower_trim grp \<in> lower_trim ` strings_in (map_of v ''group_ids''))"
proof -
  have "is_on (map_of v ''public'') \<or> strings_in (map_of v ''group_ids'') \<noteq> {}"
    using assms normalized_strings(1) by (auto simp: client_group_valid_def Let_def)
  then show ?thesis by (auto simp: eval_client_group_def Let_def stringSet_Nil mem_stringSet_lower)
qed

lemma eval_site_network_meaning:
  "strings_in (map_of v ''guest_network_ids'') \<noteq> {} \<Longrightarrow> fst (eval_site_network v net lineage) \<longleftrightarrow>
   (\<exists>n \<in> insert net (set lineage). lower_trim n \<in> lower_trim ` strings_in (map_of v ''guest_network_ids''))"
  by (simp add: eval_site_network_def Let_def stringSet_Nil mem_stringSet_lower list_ex_iff)

definition rule_holds :: "(string \<Rightarrow> go_time option) \<Rightarrow> eligibility_rule \<Rightarrow> eligibility_subject \<Rightarrow> bool" where
  "rule_holds rfc r s \<longleftrightarrow> (\<exists>k. rule_type_of (er_Type r) = Some k \<and> rule_meaning rfc k (value_of (er_Value r)) s)"

definition rule_passes :: "(string \<Rightarrow> go_time option) \<Rightarrow> eligibility_rule \<Rightarrow> eligibility_subject \<Rightarrow> bool" where
  "rule_passes rfc r s \<longleftrightarrow> fst (evalTypedCondition rfc (er_Type r) (value_of (er_Value r)) s)"

lemma IsPMSRuleType_Some: "rule_type_of t = Some k \<Longrightarrow> IsPMSRuleType t \<longleftrightarrow> k \<in> set pmsRuleTypes"
  by (simp add: IsPMSRuleType_def)

lemma evalTypedCondition_pms:
  "rule_type_of t = Some k \<Longrightarrow> k \<in> set pmsRuleTypes \<Longrightarrow>
   fst (evalTypedCondition rfc t v s) \<longleftrightarrow> (\<exists>e. es_Stay s = Some e \<and> 0 < se_EvidenceVersion e \<and> fst (evalPMSCondition k v e))"
  by (auto simp: evalTypedCondition_def IsPMSRuleType_Some split: option.splits)

lemma rule_meaning_pms:
  "k \<in> set pmsRuleTypes \<Longrightarrow>
   rule_meaning rfc k v s \<longleftrightarrow> (\<exists>e. es_Stay s = Some e \<and> 0 < se_EvidenceVersion e \<and> stay_meaning k v e)"
  by (cases k) (simp_all add: rule_meaning_def pmsRuleTypes_def)

lemma validated_rule_exact:
  assumes "ValidateEligibilityRule rfc r"
  shows "rule_passes rfc r s \<longleftrightarrow> rule_holds rfc r s"
proof -
  obtain k v where k: "rule_type_of (er_Type r) = Some k" and v: "er_Value r = Some v"
    using assms by (auto simp: ValidateEligibilityRule_def split: option.splits)
  have holds: "rule_holds rfc r s \<longleftrightarrow> rule_meaning rfc k v s" by (simp add: rule_holds_def k v value_of_def)
  have passes: "rule_passes rfc r s \<longleftrightarrow> fst (evalTypedCondition rfc (er_Type r) v s)"
    by (simp add: rule_passes_def v value_of_def)
  show ?thesis
  proof (cases "k \<in> set pmsRuleTypes")
    case True
    then have "validatePMSRule k v" using assms by (simp add: ValidateEligibilityRule_def k v IsPMSRuleType_Some)
    then show ?thesis using True
      by (simp add: holds passes evalTypedCondition_pms [OF k] rule_meaning_pms evalPMSCondition_meaning)
  next
    case False
    then have pms: "\<not> IsPMSRuleType (er_Type r)" by (simp add: IsPMSRuleType_Some [OF k])
    show ?thesis using False assms
      by (cases k) (auto simp add: holds passes ValidateEligibilityRule_def k v pms evalTypedCondition_def rule_meaning_def
          eval_date_window_meaning eval_member_enum normalized_strings eval_prior_purchase_meaning
          eval_client_group_meaning eval_site_network_meaning pmsRuleTypes_def)
  qed
qed

lemma EvaluatePackageEligible_iff:
  "fst (EvaluatePackageEligible rfc rules s) \<longleftrightarrow> (\<forall>r \<in> set rules. rule_passes rfc r s)"
  by (induction rules) (auto simp: rule_passes_def split: prod.splits)

text \<open>
  C37: Publication and evaluation agree. For rules that passed the publication check a client is eligible
  exactly when every rule holds in its plain reading: the instant lies in the half-open window, the method,
  kind, group or network (or one it continues) is listed, the purchase history is the one asked for, and a
  question about the stay is answered by versioned evidence that states the field.
\<close>

theorem published_rules_exact:
  assumes "\<forall>r \<in> set rules. ValidateEligibilityRule rfc r"
  shows "fst (EvaluatePackageEligible rfc rules s) \<longleftrightarrow> (\<forall>r \<in> set rules. rule_holds rfc r s)"
  using assms by (simp add: EvaluatePackageEligible_iff validated_rule_exact)

definition sample_uuid :: string where "sample_uuid = ''0000000a-0000-0000-0000-000000000001''"

definition sample_rules :: "eligibility_rule list" where
  "sample_rules =
    [\<lparr>er_Type = ''stay_length '', er_Value = Some [(''min_nights'', JFloat 2)]\<rparr>,
     \<lparr>er_Type = ''VIP'', er_Value = Some [(''is_vip'', JBool False)]\<rparr>]"

definition sample_stay :: stay_evidence where
  "sample_stay = \<lparr>se_StayID = ''s'', se_InterfaceID = sample_uuid, se_Status = ''IN_HOUSE'', se_RoomType = [], se_RatePlan = [],
     se_TravelAgent = [], se_VIP = Some False, se_Arrival = Some 0, se_Departure = Some (72 * hour), se_EvidenceVersion = 1\<rparr>"

definition sample_subject :: eligibility_subject where
  "sample_subject = \<lparr>es_Now = 0, es_AuthMethod = ''PMS'', es_Kind = SubjectStay, es_GuestNetworkID = sample_uuid,
     es_HasPriorPurchaseOfPackage = False, es_ClientGroupID = [], es_GuestNetworkLineage = [], es_Stay = Some sample_stay\<rparr>"

lemma sample_types:
  "rule_type_of ''stay_length '' = Some RuleStayLength" "rule_type_of ''VIP'' = Some RuleVIP"
  by code_simp+

lemma sample_rules_valid: "\<forall>r \<in> set sample_rules. ValidateEligibilityRule rfc r"
  by (simp add: sample_rules_def ValidateEligibilityRule_def sample_types IsPMSRuleType_def pmsRuleTypes_def
      noUnknownFields_def validatePMSRule_def bounds_wf_def parseIntField_def MaxInt32_def)

theorem published_rules_exact_witness:
  "fst (EvaluatePackageEligible (\<lambda>_. None) sample_rules sample_subject)
   \<and> \<not> fst (EvaluatePackageEligible (\<lambda>_. None) sample_rules (sample_subject\<lparr>es_Stay := Some (sample_stay\<lparr>se_VIP := None\<rparr>)\<rparr>))"
  unfolding published_rules_exact [OF sample_rules_valid]
  by (simp add: sample_rules_def rule_holds_def sample_types rule_meaning_def stay_meaning_def value_of_def above_def
      bound_of_def parseIntField_def MaxInt32_def sample_subject_def sample_stay_def Nights_def time_sub_def
      hour_def minute_def second_def Let_def) blast

subsection \<open>Vouchers and the audience of a package\<close>

text \<open>
  A voucher client: signed in by voucher, in no group and with no stay. What remains open for a revision that
  no rule blocks are the circumstances of the moment: dates, history, network.
\<close>

definition voucher_client :: "eligibility_subject \<Rightarrow> bool" where
  "voucher_client s \<longleftrightarrow> es_AuthMethod s = MethodVoucher \<and> es_Kind s = SubjectVoucher \<and> es_ClientGroupID s = [] \<and> es_Stay s = None"

definition circumstantial :: "eligibility_rule \<Rightarrow> bool" where
  "circumstantial r \<longleftrightarrow> rule_type_of (er_Type r) \<in> {None, Some RuleDateWindow, Some RulePriorPurchase, Some RuleSiteNetwork}"

lemma upper_voucher: "ToUpper MethodVoucher = ''VOUCHER''" "ToUpper SubjectVoucher = ''VOUCHER''"
  by code_simp+

lemma eval_member_voucher:
  "ToUpper x = ''VOUCHER'' \<Longrightarrow> fst (eval_member st x m r) \<longleftrightarrow> ''VOUCHER'' \<in> set st"
  by (cases st) (simp_all add: eval_member_def)

lemma rule_voucher_exact:
  assumes "voucher_client s"
  shows "rule_passes rfc r s \<longleftrightarrow> rule_blocks_voucher r = None \<and> (circumstantial r \<longrightarrow> rule_passes rfc r s)"
proof (cases "rule_type_of (er_Type r)")
  case None
  then show ?thesis by (simp add: rule_blocks_voucher_def circumstantial_def IsPMSRuleType_def)
next
  case (Some k)
  show ?thesis
  proof (cases "k \<in> set pmsRuleTypes")
    case True
    then show ?thesis using assms
      by (simp add: rule_passes_def evalTypedCondition_pms [OF Some] rule_blocks_voucher_def IsPMSRuleType_Some [OF Some]
          voucher_client_def)
  next
    case False
    then have "\<not> IsPMSRuleType (er_Type r)" by (simp add: IsPMSRuleType_Some [OF Some])
    then show ?thesis using assms Some False
      by (cases k) (simp_all add: rule_passes_def rule_blocks_voucher_def circumstantial_def evalTypedCondition_def
          eval_member_voucher upper_voucher eval_client_group_def Let_def voucher_client_def pmsRuleTypes_def)
  qed
qed

lemma first_blocker_None: "first_blocker rules = None \<longleftrightarrow> (\<forall>r \<in> set rules. rule_blocks_voucher r = None)"
  by (induction rules) (auto split: option.splits)

text \<open>
  The voucher check is exact. A voucher client passes the rules of a revision with a flat allowance
  exactly when the check names no blocker and the rules about date, history and network pass; so
  a blocked revision can never be redeemed, and an unblocked one is refused only by the circumstances of
  the moment.
\<close>

theorem voucher_blocker_exact:
  assumes "voucher_client s" and "\<not> EqualFold (TrimSpace mode) AllocPerStayNight"
  shows "fst (EvaluatePackageEligible rfc rules s) \<longleftrightarrow>
    VoucherBlocker mode rules = None \<and> (\<forall>r \<in> set rules. circumstantial r \<longrightarrow> rule_passes rfc r s)"
proof -
  have "(\<forall>r \<in> set rules. rule_passes rfc r s) \<longleftrightarrow>
      (\<forall>r \<in> set rules. rule_blocks_voucher r = None \<and> (circumstantial r \<longrightarrow> rule_passes rfc r s))"
    using rule_voucher_exact [OF assms(1)] by blast
  then show ?thesis using assms(2) by (auto simp: EvaluatePackageEligible_iff VoucherBlocker_def first_blocker_None)
qed

definition sample_voucher_subject :: eligibility_subject where
  "sample_voucher_subject = \<lparr>es_Now = 0, es_AuthMethod = MethodVoucher, es_Kind = SubjectVoucher, es_GuestNetworkID = sample_uuid,
     es_HasPriorPurchaseOfPackage = False, es_ClientGroupID = [], es_GuestNetworkLineage = [], es_Stay = None\<rparr>"

definition sample_audience :: "bool \<Rightarrow> eligibility_rule list" where
  "sample_audience public =
    [\<lparr>er_Type = ''CLIENT_GROUP'', er_Value = Some [(''group_ids'', JArr [JStr sample_uuid]), (''public'', JBool public)]\<rparr>]"

theorem voucher_blocker_exact_witness:
  "fst (EvaluatePackageEligible (\<lambda>_. None) (sample_audience True) sample_voucher_subject)
   \<and> \<not> fst (EvaluatePackageEligible (\<lambda>_. None) (sample_audience False) sample_voucher_subject)"
proof -
  have client: "voucher_client sample_voucher_subject" by (simp add: voucher_client_def sample_voucher_subject_def)
  have mode: "\<not> EqualFold (TrimSpace ''FIXED'') AllocPerStayNight" by code_simp
  have "rule_type_of ''CLIENT_GROUP'' = Some RuleClientGroup" by code_simp
  then show ?thesis
    unfolding voucher_blocker_exact [OF client mode]
    by (simp add: VoucherBlocker_def mode sample_audience_def rule_blocks_voucher_def circumstantial_def
        IsPMSRuleType_def pmsRuleTypes_def value_of_def is_on_def Let_def)
qed

subsection \<open>The tier a client gets\<close>

lemma first_of_split:
  "first_of P xs = Some x \<longleftrightarrow> (\<exists>us vs. xs = us @ x # vs \<and> P x \<and> (\<forall>u \<in> set us. \<not> P u))"
proof (induction xs)
  case (Cons y ys)
  show ?case
  proof
    assume "first_of P (y # ys) = Some x"
    then show "\<exists>us vs. y # ys = us @ x # vs \<and> P x \<and> (\<forall>u \<in> set us. \<not> P u)"
      using Cons.IH by (auto split: if_splits intro: exI [of _ "[]"]) (metis Cons_eq_appendI set_ConsD)
  next
    assume "\<exists>us vs. y # ys = us @ x # vs \<and> P x \<and> (\<forall>u \<in> set us. \<not> P u)"
    then obtain us vs where "y # ys = us @ x # vs" "P x" "\<forall>u \<in> set us. \<not> P u" by blast
    then show "first_of P (y # ys) = Some x" using Cons.IH by (cases us) auto
  qed
qed simp

text \<open>An element of a stable sort stands after exactly the smaller ones and the equal ones that preceded it.\<close>

lemma sort_key_before:
  assumes "sort_key f xs = us @ x # vs" and "u \<in> set us"
  shows "f u \<le> f x"
proof -
  have "sorted (map f (us @ x # vs))" using sorted_sort_key [of f xs] by (simp add: assms(1))
  then show ?thesis using assms(2) by (auto simp: sorted_append)
qed

lemma sort_key_after:
  assumes "sort_key f xs = us @ x # vs" and "u \<in> set vs"
  shows "f x \<le> f u"
proof -
  have "sorted (map f (us @ x # vs))" using sorted_sort_key [of f xs] by (simp add: assms(1))
  then show ?thesis using assms(2) by (auto simp: sorted_append)
qed

lemma first_of_filter: "first_of (\<lambda>x. P x \<and> Q x) xs = first_of P (filter Q xs)"
  by (induction xs) auto

lemma filter_split: "filter Q ys = us @ x # vs \<Longrightarrow> \<exists>us' vs'. ys = us' @ x # vs' \<and> filter Q us' = us"
proof (induction ys arbitrary: us)
  case (Cons y ys)
  show ?case
  proof (cases "Q y")
    case True
    show ?thesis
    proof (cases us)
      case Nil
      then have "y # ys = [] @ x # ys \<and> filter Q [] = us" using Cons.prems True by simp
      then show ?thesis by blast
    next
      case (Cons u us1)
      then obtain us' vs' where "ys = us' @ x # vs'" "filter Q us' = us1" "y = u"
        using Cons.IH [of us1] Cons.prems True by auto
      then have "y # ys = (y # us') @ x # vs' \<and> filter Q (y # us') = us" using True Cons by simp
      then show ?thesis by blast
    qed
  next
    case False
    then obtain us' vs' where "ys = us' @ x # vs'" "filter Q us' = us" using Cons.IH [of us] Cons.prems by auto
    then have "y # ys = (y # us') @ x # vs' \<and> filter Q (y # us') = us" using False by simp
    then show ?thesis by blast
  qed
qed simp

lemma first_of_sort_key:
  "first_of P (sort_key f xs) = Some x \<longleftrightarrow>
   first_of (\<lambda>y. P y \<and> f y = f x) xs = Some x \<and> (\<forall>y \<in> set xs. P y \<longrightarrow> f x \<le> f y)"
proof
  assume "first_of P (sort_key f xs) = Some x"
  then obtain us vs where sp: "sort_key f xs = us @ x # vs" and x: "P x" and us: "\<forall>u \<in> set us. \<not> P u"
    unfolding first_of_split by blast
  have "first_of P (filter (\<lambda>y. f y = f x) (us @ x # vs)) = Some x"
    unfolding first_of_split
    by (rule exI [of _ "filter (\<lambda>y. f y = f x) us"], rule exI [of _ "filter (\<lambda>y. f y = f x) vs"]) (simp add: x us)
  then have "first_of (\<lambda>y. P y \<and> f y = f x) xs = Some x"
    unfolding first_of_filter sp [symmetric] sort_key_stable .
  moreover have "f x \<le> f y" if "y \<in> set xs" "P y" for y
  proof -
    have "y \<in> set (us @ x # vs)" using that(1) unfolding sp [symmetric] by simp
    then show ?thesis using sort_key_after [OF sp] us that(2) by auto
  qed
  ultimately show "first_of (\<lambda>y. P y \<and> f y = f x) xs = Some x \<and> (\<forall>y \<in> set xs. P y \<longrightarrow> f x \<le> f y)" by blast
next
  assume a: "first_of (\<lambda>y. P y \<and> f y = f x) xs = Some x \<and> (\<forall>y \<in> set xs. P y \<longrightarrow> f x \<le> f y)"
  then have f: "first_of P (filter (\<lambda>y. f y = f x) (sort_key f xs)) = Some x"
    unfolding first_of_filter sort_key_stable by blast
  then obtain us vs where fl: "filter (\<lambda>y. f y = f x) (sort_key f xs) = us @ x # vs" and x: "P x"
      and us: "\<forall>u \<in> set us. \<not> P u" unfolding first_of_split by blast
  obtain us' vs' where sp: "sort_key f xs = us' @ x # vs'" and us': "filter (\<lambda>y. f y = f x) us' = us"
    using filter_split [OF fl] by blast
  have "\<not> P u" if u: "u \<in> set us'" for u
  proof
    assume Pu: "P u"
    have "u \<in> set (sort_key f xs)" unfolding sp using u by simp
    then have "f x \<le> f u" using a Pu by auto
    moreover have "f u \<le> f x" by (rule sort_key_before [OF sp u])
    ultimately have "u \<in> set us" using u us' by auto
    then show False using us Pu by blast
  qed
  then show "first_of P (sort_key f xs) = Some x" unfolding first_of_split using sp x by blast
qed

text \<open>
  The tier a client gets is the matching tier of the lowest order, the first listed among
  equals, and there is none exactly when no tier matches: the sorted scan computes the choice an operator
  reads off the list in any order.
\<close>

theorem first_match_tier_least:
  "(FirstMatchTier rfc tiers s = Some t \<longleftrightarrow>
      (\<exists>before after. tiers = before @ t # after \<and> tier_matches rfc s t
         \<and> (\<forall>u \<in> set before. tier_matches rfc s u \<longrightarrow> gt_Order t < gt_Order u)
         \<and> (\<forall>u \<in> set after. tier_matches rfc s u \<longrightarrow> gt_Order t \<le> gt_Order u)))
   \<and> (FirstMatchTier rfc tiers s = None \<longleftrightarrow> (\<forall>u \<in> set tiers. \<not> tier_matches rfc s u))"
proof -
  let ?M = "tier_matches rfc s"
  have "FirstMatchTier rfc tiers s = Some t \<longleftrightarrow>
      first_of (\<lambda>y. ?M y \<and> gt_Order y = gt_Order t) tiers = Some t \<and> (\<forall>y \<in> set tiers. ?M y \<longrightarrow> gt_Order t \<le> gt_Order y)"
    unfolding FirstMatchTier_def by (rule first_of_sort_key)
  also have "\<dots> \<longleftrightarrow> (\<exists>before after. tiers = before @ t # after \<and> ?M t
      \<and> (\<forall>u \<in> set before. ?M u \<longrightarrow> gt_Order t < gt_Order u) \<and> (\<forall>u \<in> set after. ?M u \<longrightarrow> gt_Order t \<le> gt_Order u))"
  proof
    assume l: "first_of (\<lambda>y. ?M y \<and> gt_Order y = gt_Order t) tiers = Some t
      \<and> (\<forall>y \<in> set tiers. ?M y \<longrightarrow> gt_Order t \<le> gt_Order y)"
    then obtain us vs where sp: "tiers = us @ t # vs" "?M t" "\<forall>u \<in> set us. \<not> (?M u \<and> gt_Order u = gt_Order t)"
      unfolding first_of_split by blast
    moreover have "\<forall>u \<in> set us. ?M u \<longrightarrow> gt_Order t < gt_Order u"
      using l sp(3) by (fastforce simp: sp(1) order.order_iff_strict)
    moreover have "\<forall>u \<in> set vs. ?M u \<longrightarrow> gt_Order t \<le> gt_Order u" using l by (simp add: sp(1))
    ultimately show "\<exists>before after. tiers = before @ t # after \<and> ?M t
        \<and> (\<forall>u \<in> set before. ?M u \<longrightarrow> gt_Order t < gt_Order u) \<and> (\<forall>u \<in> set after. ?M u \<longrightarrow> gt_Order t \<le> gt_Order u)"
      by blast
  next
    assume "\<exists>before after. tiers = before @ t # after \<and> ?M t
        \<and> (\<forall>u \<in> set before. ?M u \<longrightarrow> gt_Order t < gt_Order u) \<and> (\<forall>u \<in> set after. ?M u \<longrightarrow> gt_Order t \<le> gt_Order u)"
    then obtain us vs where sp: "tiers = us @ t # vs" "?M t" and us: "\<forall>u \<in> set us. ?M u \<longrightarrow> gt_Order t < gt_Order u"
        and vs: "\<forall>u \<in> set vs. ?M u \<longrightarrow> gt_Order t \<le> gt_Order u" by blast
    have "\<forall>u \<in> set us. \<not> (?M u \<and> gt_Order u = gt_Order t)" using us by fastforce
    then have "first_of (\<lambda>y. ?M y \<and> gt_Order y = gt_Order t) tiers = Some t" unfolding first_of_split using sp by blast
    moreover have "\<forall>y \<in> set tiers. ?M y \<longrightarrow> gt_Order t \<le> gt_Order y" using us vs by (fastforce simp: sp(1))
    ultimately show "first_of (\<lambda>y. ?M y \<and> gt_Order y = gt_Order t) tiers = Some t
      \<and> (\<forall>y \<in> set tiers. ?M y \<longrightarrow> gt_Order t \<le> gt_Order y)" by blast
  qed
  finally have 1: ?thesis if "FirstMatchTier rfc tiers s = None \<longleftrightarrow> (\<forall>u \<in> set tiers. \<not> ?M u)" using that by blast
  have "first_of P xs = None \<longleftrightarrow> (\<forall>u \<in> set xs. \<not> P u)" for P and xs :: "grant_tier list"
    by (induction xs) auto
  then show ?thesis by (intro 1) (simp add: FirstMatchTier_def)
qed

definition sample_tier :: "int \<Rightarrow> int \<Rightarrow> grant_tier" where
  "sample_tier ord kbps = \<lparr>gt_Order = ord, gt_Value = [(''down_kbps'', JInt kbps)]\<rparr>"

theorem first_match_tier_least_witness:
  "FirstMatchTier (\<lambda>_. None) [sample_tier 2 100, sample_tier 1 200, sample_tier 1 300] sample_subject = Some (sample_tier 1 200)"
proof -
  have m: "tier_matches (\<lambda>_. None) sample_subject (sample_tier n k)" for n k
    by (simp add: tier_matches_def sample_tier_def)
  have "\<exists>before after. [sample_tier 2 100, sample_tier 1 200, sample_tier 1 300] = before @ sample_tier 1 200 # after
      \<and> tier_matches (\<lambda>_. None) sample_subject (sample_tier 1 200)
      \<and> (\<forall>u \<in> set before. tier_matches (\<lambda>_. None) sample_subject u \<longrightarrow> gt_Order (sample_tier 1 200) < gt_Order u)
      \<and> (\<forall>u \<in> set after. tier_matches (\<lambda>_. None) sample_subject u \<longrightarrow> gt_Order (sample_tier 1 200) \<le> gt_Order u)"
    by (rule exI [of _ "[sample_tier 2 100]"], rule exI [of _ "[sample_tier 1 300]"]) (simp add: m, simp add: sample_tier_def)
  then show ?thesis using first_match_tier_least by blast
qed

subsection \<open>What a snapshot grants\<close>

text \<open>A plan revision as publication leaves it: every value within its cap and a mode the runtime knows.\<close>

definition plan_sound :: "plan_revision_row \<Rightarrow> bool" where
  "plan_sound p \<longleftrightarrow> 0 \<le> pr_DownKbps p \<and> pr_DownKbps p \<le> maxKbps \<and> 0 \<le> pr_UpKbps p \<and> pr_UpKbps p \<le> maxKbps
     \<and> 1 \<le> pr_MaxConcurrentDevices p \<and> pr_MaxConcurrentDevices p \<le> maxDevices
     \<and> 0 \<le> pr_TimeQuotaSeconds p \<and> pr_TimeQuotaSeconds p \<le> maxTimeQuotaSecond
     \<and> 0 \<le> pr_DataQuotaBytes p \<and> pr_DataQuotaBytes p \<le> maxDataQuotaBytes
     \<and> accounting_mode (pr_TimeAccountingMode p) \<noteq> None"

definition snapshot_sound :: "grant_snapshot \<Rightarrow> bool" where
  "snapshot_sound g \<longleftrightarrow> gs_Version g = GrantSnapshotVersion \<and> 0 \<le> gs_DownKbps g \<and> gs_DownKbps g \<le> maxKbps
     \<and> 0 \<le> gs_UpKbps g \<and> gs_UpKbps g \<le> maxKbps
     \<and> 1 \<le> gs_MaxConcurrentDevices g \<and> gs_MaxConcurrentDevices g \<le> maxDevices
     \<and> gs_DeviceLimitPolicy g \<in> set deviceLimitPolicies
     \<and> 0 \<le> gs_IdleTimeoutSeconds g \<and> gs_IdleTimeoutSeconds g \<le> maxIdleSeconds
     \<and> 0 \<le> gs_MaxContinuousSessionSeconds g \<and> gs_MaxContinuousSessionSeconds g \<le> maxSessionSeconds
     \<and> 0 \<le> gs_TimeQuotaSeconds g \<and> gs_TimeQuotaSeconds g \<le> maxTimeQuotaSecond
     \<and> 0 \<le> gs_DataQuotaBytes g \<and> gs_DataQuotaBytes g \<le> maxDataQuotaBytes
     \<and> ToUpper (gs_TimeAccountingMode g) \<in> {''VALIDITY_WINDOW'', ''AGGREGATE_ONLINE_TIME''}"

lemma int_override_bounds:
  "int_override v key dst cap = Some x \<Longrightarrow> 0 \<le> dst \<Longrightarrow> dst \<le> cap \<Longrightarrow> 0 \<le> x \<and> x \<le> cap"
  by (auto simp: int_override_def split: option.splits if_splits)

text \<open>Whether an override is accepted does not depend on the plan value it replaces.\<close>

lemma int_override_indep:
  "int_override v key dst cap = Some x \<Longrightarrow> \<exists>y. int_override v key dst' cap = Some y \<and> (map_of v key = None \<and> y = dst' \<or> y = x)"
  by (auto simp: int_override_def split: option.splits if_splits)

lemma device_policy_known: "device_policy v = Some d \<Longrightarrow> d \<in> set deviceLimitPolicies"
  by (auto simp: device_policy_def deviceLimitPolicies_def split: option.splits if_splits)

lemma accounting_mode_known:
  "accounting_mode m = Some m' \<Longrightarrow> ToUpper m' \<in> {''VALIDITY_WINDOW'', ''AGGREGATE_ONLINE_TIME''}"
  by (auto simp: accounting_mode_def Let_def split: if_splits)

lemma BuildGrantSnapshot_Inr:
  "BuildGrantSnapshot tier plan pkg = Inr g \<longleftrightarrow>
   (\<exists>down up devs idle sess tq dq dpol mode.
      known_keys_only (gt_Value tier) \<and> map_of (gt_Value tier) ''time_accounting_mode'' = None
      \<and> int_override (gt_Value tier) ''down_kbps'' (pr_DownKbps plan) maxKbps = Some down
      \<and> int_override (gt_Value tier) ''up_kbps'' (pr_UpKbps plan) maxKbps = Some up
      \<and> int_override (gt_Value tier) ''max_concurrent_devices'' (pr_MaxConcurrentDevices plan) maxDevices = Some devs
      \<and> int_override (gt_Value tier) ''idle_timeout_seconds'' 0 maxIdleSeconds = Some idle
      \<and> int_override (gt_Value tier) ''max_continuous_session_seconds'' 0 maxSessionSeconds = Some sess
      \<and> int_override (gt_Value tier) ''time_quota_seconds'' (pr_TimeQuotaSeconds plan) maxTimeQuotaSecond = Some tq
      \<and> int_override (gt_Value tier) ''data_quota_bytes'' (pr_DataQuotaBytes plan) maxDataQuotaBytes = Some dq
      \<and> device_policy (gt_Value tier) = Some dpol \<and> accounting_mode (pr_TimeAccountingMode plan) = Some mode \<and> 1 \<le> devs
      \<and> g = \<lparr>gs_Version = GrantSnapshotVersion, gs_ServicePlanRevisionID = pr_ID plan,
             gs_PackageRevisionID = pkg, gs_GrantTierOrder = gt_Order tier, gs_DownKbps = down,
             gs_UpKbps = up, gs_MaxConcurrentDevices = devs, gs_DeviceLimitPolicy = dpol,
             gs_IdleTimeoutSeconds = idle, gs_MaxContinuousSessionSeconds = sess,
             gs_TimeQuotaSeconds = tq, gs_DataQuotaBytes = dq, gs_TimeAccountingMode = mode,
             gs_EndMode = [], gs_WindowEndsAt = None, gs_DurationPolicy = [], gs_AcquisitionMethod = [],
             gs_FrozenDataQuotaBytes = 0\<rparr>)"
  unfolding BuildGrantSnapshot_def Let_def by (auto split: option.splits if_splits)

lemma BuildGrantSnapshot_sound:
  assumes "BuildGrantSnapshot tier plan pkg = Inr g" and "plan_sound plan"
  shows "snapshot_sound g"
proof -
  note p = assms(2) [unfolded plan_sound_def]
  from assms(1) [unfolded BuildGrantSnapshot_Inr] obtain down up devs idle sess tq dq dpol mode where
      d: "int_override (gt_Value tier) ''down_kbps'' (pr_DownKbps plan) maxKbps = Some down"
         "int_override (gt_Value tier) ''up_kbps'' (pr_UpKbps plan) maxKbps = Some up"
         "int_override (gt_Value tier) ''max_concurrent_devices'' (pr_MaxConcurrentDevices plan) maxDevices = Some devs"
         "int_override (gt_Value tier) ''idle_timeout_seconds'' 0 maxIdleSeconds = Some idle"
         "int_override (gt_Value tier) ''max_continuous_session_seconds'' 0 maxSessionSeconds = Some sess"
         "int_override (gt_Value tier) ''time_quota_seconds'' (pr_TimeQuotaSeconds plan) maxTimeQuotaSecond = Some tq"
         "int_override (gt_Value tier) ''data_quota_bytes'' (pr_DataQuotaBytes plan) maxDataQuotaBytes = Some dq"
      and dp: "device_policy (gt_Value tier) = Some dpol" and m: "accounting_mode (pr_TimeAccountingMode plan) = Some mode"
      and devs: "1 \<le> devs"
      and g: "gs_Version g = GrantSnapshotVersion" "gs_DownKbps g = down" "gs_UpKbps g = up" "gs_MaxConcurrentDevices g = devs"
         "gs_DeviceLimitPolicy g = dpol" "gs_IdleTimeoutSeconds g = idle" "gs_MaxContinuousSessionSeconds g = sess"
         "gs_TimeQuotaSeconds g = tq" "gs_DataQuotaBytes g = dq" "gs_TimeAccountingMode g = mode"
    by force
  have cap: "0 \<le> maxIdleSeconds" "0 \<le> maxSessionSeconds" by (simp_all add: cap_defs)
  show ?thesis unfolding snapshot_sound_def g
    using int_override_bounds [OF d(1)] int_override_bounds [OF d(2)] int_override_bounds [OF d(3)]
      int_override_bounds [OF d(4) _ cap(1)] int_override_bounds [OF d(5) _ cap(2)] int_override_bounds [OF d(6)]
      int_override_bounds [OF d(7)] device_policy_known [OF dp] accounting_mode_known [OF m] devs p
    by simp
qed

lemma validated_tier_builds:
  assumes "ValidateGrantTier rfc tier" and "plan_sound plan"
  shows "\<exists>g. BuildGrantSnapshot tier plan pkg = Inr g"
proof -
  from assms(1) obtain g where "BuildGrantSnapshot tier dummy_plan ''00000000-0000-0000-0000-000000000000'' = Inr g"
    by (auto simp: ValidateGrantTier_def split: sum.splits)
  then obtain down up devs idle sess tq dq dpol where
      k: "known_keys_only (gt_Value tier)" "map_of (gt_Value tier) ''time_accounting_mode'' = None"
      and d: "int_override (gt_Value tier) ''down_kbps'' (pr_DownKbps dummy_plan) maxKbps = Some down"
         "int_override (gt_Value tier) ''up_kbps'' (pr_UpKbps dummy_plan) maxKbps = Some up"
         "int_override (gt_Value tier) ''max_concurrent_devices'' (pr_MaxConcurrentDevices dummy_plan) maxDevices = Some devs"
         "int_override (gt_Value tier) ''idle_timeout_seconds'' 0 maxIdleSeconds = Some idle"
         "int_override (gt_Value tier) ''max_continuous_session_seconds'' 0 maxSessionSeconds = Some sess"
         "int_override (gt_Value tier) ''time_quota_seconds'' (pr_TimeQuotaSeconds dummy_plan) maxTimeQuotaSecond = Some tq"
         "int_override (gt_Value tier) ''data_quota_bytes'' (pr_DataQuotaBytes dummy_plan) maxDataQuotaBytes = Some dq"
      and rest: "device_policy (gt_Value tier) = Some dpol" "1 \<le> devs"
    unfolding BuildGrantSnapshot_Inr by blast
  obtain mode where m: "accounting_mode (pr_TimeAccountingMode plan) = Some mode"
    using assms(2) by (auto simp: plan_sound_def)
  obtain n where n: "int_override (gt_Value tier) ''max_concurrent_devices'' (pr_MaxConcurrentDevices plan) maxDevices = Some n"
      and "1 \<le> n" using int_override_indep [OF d(3), of "pr_MaxConcurrentDevices plan"] rest(2) assms(2)
    by (auto simp: plan_sound_def)
  then show ?thesis unfolding BuildGrantSnapshot_Inr
    using k d(4,5) rest(1) m int_override_indep [OF d(1), of "pr_DownKbps plan"] int_override_indep [OF d(2), of "pr_UpKbps plan"]
      int_override_indep [OF d(6), of "pr_TimeQuotaSeconds plan"] int_override_indep [OF d(7), of "pr_DataQuotaBytes plan"]
    by blast
qed

end
