(* ===== verification/Commerce_Publish.thy ===== *)
theory Commerce_Publish
  imports Commerce_Rules
begin

text \<open>
  Publishing packages and plans (\<open>commerce_admin.go\<close> with the writes of \<open>commerce_admin_repo_pg.go\<close>) and the
  per-night allowance (\<open>commerce_data_allocation.go\<close>). The catalogue of one site is an explicit state: package
  rows with a current-revision pointer, plan rows, and the immutable revisions of both. A publish is one
  transaction; any failing statement, or the commit, leaves the state as it was. The lemmas show that every
  revision a publish stores passes the runtime checks that later meet it. Rounding to \<open>float64\<close> and
  \<open>strconv.ParseFloat\<close> are arguments.
\<close>

subsection \<open>Acquisition methods\<close>

definition AcquireFree :: string where "AcquireFree = ''NOT_REQUIRED''"
definition AcquireVoucher :: string where "AcquireVoucher = ''PREPAID''"
definition AcquireCard :: string where "AcquireCard = ''ONLINE_PAYMENT''"
definition AcquireRoomCharge :: string where "AcquireRoomCharge = ''PMS_POSTING''"

lemmas acquire_defs = AcquireFree_def AcquireVoucher_def AcquireCard_def AcquireRoomCharge_def

definition AcquisitionMethods :: "string list" where
  "AcquisitionMethods = [AcquireFree, AcquireVoucher, AcquireCard, AcquireRoomCharge]"

definition ValidateAcquisitionMethods :: "int \<Rightarrow> string list \<Rightarrow> bool" where
  "ValidateAcquisitionMethods priceMinor methods \<longleftrightarrow>
    \<not> priceMinor < 0 \<and> methods \<noteq> [] \<and> list_all (\<lambda>m. m \<in> set AcquisitionMethods) methods \<and> distinct methods
    \<and> \<not> (priceMinor = 0 \<and> (AcquireCard \<in> set methods \<or> AcquireRoomCharge \<in> set methods))
    \<and> \<not> (priceMinor > 0 \<and> AcquireFree \<in> set methods)"

definition hasMethod :: "string list \<Rightarrow> string \<Rightarrow> bool" where
  "hasMethod methods m \<longleftrightarrow> list_ex (\<lambda>x. EqualFold (TrimSpace x) m) methods"

subsection \<open>The per-night data allowance\<close>

definition AllocFixed :: string where "AllocFixed = ''FIXED''"
definition bytesPerGB :: rat where "bytesPerGB = 1000000000"
definition maxAllocNights :: int where "maxAllocNights = 3650"

record data_allocation_policy =
  da_Mode :: string
  da_GBPerNight :: rat
  da_MinGB :: rat
  da_MaxGB :: "rat option"

text \<open>
  The float conversions of Go: \<open>fl\<close> rounds a number to the nearest \<open>float64\<close>, \<open>pf\<close> parses a literal.
  A product beyond the largest \<open>float64\<close> is an infinity there and a large number here; both are outside the
  byte cap and refused.
\<close>

record float_ops =
  fl :: "rat \<Rightarrow> rat"
  pf :: "string \<Rightarrow> rat option"

definition asFloat64 :: "float_ops \<Rightarrow> json \<Rightarrow> rat option" where
  "asFloat64 F v = (case v of
      JFloat n \<Rightarrow> Some n
    | JInt n \<Rightarrow> Some (fl F (of_int n))
    | _ \<Rightarrow> (case asInt64 v of
        Some i \<Rightarrow> Some (fl F (of_int i))
      | None \<Rightarrow> (case v of JNumber s \<Rightarrow> pf F s | _ \<Rightarrow> None)))"

text \<open>One number of the policy: an error, absent, or its value.\<close>

definition alloc_num :: "float_ops \<Rightarrow> jmap \<Rightarrow> string \<Rightarrow> rat option option" where
  "alloc_num F raw key = (case map_of raw key of
      None \<Rightarrow> Some None
    | Some v \<Rightarrow>
        if v = JNull then Some None
        else case asFloat64 F v of
          None \<Rightarrow> None
        | Some f \<Rightarrow> if f < 0 then None else Some (Some f))"

definition fixed_policy :: data_allocation_policy where
  "fixed_policy = \<lparr>da_Mode = AllocFixed, da_GBPerNight = 0, da_MinGB = 0, da_MaxGB = None\<rparr>"

definition ParseDataAllocationPolicy :: "float_ops \<Rightarrow> jmap \<Rightarrow> data_allocation_policy option" where
  "ParseDataAllocationPolicy F raw =
    (if raw = [] then Some fixed_policy
     else let mode = str_or (map_of raw ''mode'')
     in if mode = [] \<or> mode = AllocFixed then Some fixed_policy
        else if mode \<noteq> AllocPerStayNight then None
        else case alloc_num F raw ''gb_per_night'' of
          Some (Some gb) \<Rightarrow>
            if gb \<le> 0 then None
            else (case alloc_num F raw ''min_gb'' of
                None \<Rightarrow> None
              | Some mn \<Rightarrow>
                  let minGB = (case mn of Some m \<Rightarrow> m | None \<Rightarrow> 0)
                  in case alloc_num F raw ''max_gb'' of
                       None \<Rightarrow> None
                     | Some None \<Rightarrow> Some \<lparr>da_Mode = AllocPerStayNight, da_GBPerNight = gb, da_MinGB = minGB, da_MaxGB = None\<rparr>
                     | Some (Some mx) \<Rightarrow>
                         if mx \<le> 0 then None
                         else if mx < minGB then None
                         else Some \<lparr>da_Mode = AllocPerStayNight, da_GBPerNight = gb, da_MinGB = minGB, da_MaxGB = Some mx\<rparr>)
        | _ \<Rightarrow> None)"

text \<open>\<open>math.Round\<close>: halves go away from zero.\<close>

definition go_round :: "rat \<Rightarrow> int" where
  "go_round x = (if 0 \<le> x then \<lfloor>x + 1/2\<rfloor> else - \<lfloor>- x + 1/2\<rfloor>)"

datatype quota_error = ErrStayLengthUnknown | OutsideRange | ZeroBytes

text \<open>\<open>Inr None\<close>: nothing to freeze.\<close>

definition EffectiveDataQuotaBytes ::
  "float_ops \<Rightarrow> data_allocation_policy \<Rightarrow> eligibility_subject \<Rightarrow> quota_error + int option" where
  "EffectiveDataQuotaBytes F p s =
    (if da_Mode p \<noteq> AllocPerStayNight then Inr None
     else case Option.bind (es_Stay s) Nights of
       None \<Rightarrow> Inl ErrStayLengthUnknown
     | Some n \<Rightarrow>
         if n < 0 then Inl ErrStayLengthUnknown
         else let nights = (if n > maxAllocNights then maxAllocNights else n);
                  gb0 = fl F (of_int nights * da_GBPerNight p);
                  gb1 = (if gb0 < da_MinGB p then da_MinGB p else gb0);
                  gb = (case da_MaxGB p of Some mx \<Rightarrow> if gb1 > mx then mx else gb1 | None \<Rightarrow> gb1);
                  b = go_round (fl F (gb * bytesPerGB))
              in if b < 0 \<or> b > maxDataQuotaBytes then Inl OutsideRange
                 else if b = 0 then Inl ZeroBytes
                 else Inr (Some b))"

subsection \<open>What an operator submits\<close>

record room_charge_mapping =
  rc_PMSInterfaceID :: string
  rc_PostingCode :: string
  rc_TaxCode :: string
  rc_TaxRateBP :: "int option"

record package_publish_spec =
  ps_TenantID :: string
  ps_SiteID :: string
  ps_PackageCode :: string
  ps_ServicePlanRevisionID :: string
  ps_Display :: jmap
  ps_DurationPolicy :: jmap
  ps_EligibilityRules :: "eligibility_rule list"
  ps_GrantTiers :: "grant_tier list"
  ps_VisibleFrom :: "go_time option"
  ps_VisibleUntil :: "go_time option"
  ps_DataAllocationPolicy :: jmap
  ps_PackageType :: string
  ps_CreateOnly :: bool
  ps_PriceMinor :: int
  ps_Currency :: string
  ps_CurrencyExponent :: int
  ps_AcquisitionMethods :: "string list"
  ps_RoomChargeMappings :: "room_charge_mapping list"
  ps_PlanOverrides :: jmap
  ps_Renewable :: bool
  ps_MaxPurchasesPerStay :: "int option"
  ps_DryRun :: bool
  ps_PriorDurationPolicy :: "jmap option"

record plan_publish_spec =
  pp_TenantID :: string
  pp_SiteID :: string
  pp_PlanCode :: string
  pp_Name :: string
  pp_DownKbps :: "int option"
  pp_UpKbps :: "int option"
  pp_MaxConcurrentDevices :: int
  pp_DeviceLimitPolicy :: string
  pp_IdleTimeoutSeconds :: "int option"
  pp_MaxContinuousSessionSeconds :: "int option"
  pp_TimeQuotaSeconds :: "int option"
  pp_DataQuotaBytes :: "int option"
  pp_TimeAccountingMode :: string
  pp_SpeedAllocation :: string
  pp_CreateOnly :: bool

subsection \<open>Checks before any write\<close>

definition in_cap :: "int option \<Rightarrow> int \<Rightarrow> bool" where
  "in_cap p cap = (case p of None \<Rightarrow> True | Some x \<Rightarrow> \<not> (x < 0 \<or> x > cap))"

definition not_positive :: "int option \<Rightarrow> bool" where
  "not_positive p = (case p of None \<Rightarrow> True | Some x \<Rightarrow> x \<le> 0)"

text \<open>The defaults \<open>validatePlanSpec\<close> fills in as it goes.\<close>

definition plan_defaults :: "plan_publish_spec \<Rightarrow> plan_publish_spec" where
  "plan_defaults spec = spec\<lparr>
     pp_MaxConcurrentDevices := (if pp_MaxConcurrentDevices spec = 0 then 1 else pp_MaxConcurrentDevices spec),
     pp_DeviceLimitPolicy := (if pp_DeviceLimitPolicy spec = [] then ''REJECT_NEW_DEVICE'' else pp_DeviceLimitPolicy spec),
     pp_TimeAccountingMode := (if pp_TimeAccountingMode spec = [] then ''VALIDITY_WINDOW'' else pp_TimeAccountingMode spec),
     pp_SpeedAllocation := (if pp_SpeedAllocation spec = [] then ''PER_DEVICE'' else pp_SpeedAllocation spec)\<rparr>"

definition time_mode_valid :: "bool \<Rightarrow> plan_publish_spec \<Rightarrow> bool" where
  "time_mode_valid allowAggregate p \<longleftrightarrow>
    pp_TimeAccountingMode p = ''VALIDITY_WINDOW''
    \<or> (pp_TimeAccountingMode p = ''AGGREGATE_ONLINE_TIME'' \<and> allowAggregate \<and> \<not> not_positive (pp_TimeQuotaSeconds p))"

definition validatePlanSpec :: "plan_publish_spec \<Rightarrow> bool \<Rightarrow> plan_publish_spec option" where
  "validatePlanSpec spec allowAggregate =
    (let p = plan_defaults spec
     in if pp_MaxConcurrentDevices p < 1 \<or> pp_MaxConcurrentDevices p > maxDevices then None
        else if pp_DeviceLimitPolicy p \<notin> set deviceLimitPolicies then None
        else if pp_DeviceLimitPolicy p = ''ADMIN_APPROVAL'' then None
        else if pp_SpeedAllocation p \<noteq> ''PER_DEVICE'' \<and> pp_SpeedAllocation p \<noteq> ''SHARED'' then None
        else if pp_SpeedAllocation p = ''SHARED'' \<and> (not_positive (pp_DownKbps p) \<or> not_positive (pp_UpKbps p)) then None
        else if \<not> time_mode_valid allowAggregate p then None
        else if \<not> (in_cap (pp_DownKbps p) maxKbps \<and> in_cap (pp_UpKbps p) maxKbps
               \<and> in_cap (pp_IdleTimeoutSeconds p) maxIdleSeconds
               \<and> in_cap (pp_MaxContinuousSessionSeconds p) maxSessionSeconds
               \<and> in_cap (pp_TimeQuotaSeconds p) maxTimeQuotaSecond
               \<and> in_cap (pp_DataQuotaBytes p) maxDataQuotaBytes) then None
        else Some p)"

definition prior_rules :: "eligibility_rule list \<Rightarrow> eligibility_rule list" where
  "prior_rules rules = filter (\<lambda>r. rule_type_of (er_Type r) = Some RulePriorPurchase) rules"

definition contradictoryPriorPurchase :: "eligibility_rule list \<Rightarrow> bool" where
  "contradictoryPriorPurchase rules =
    (let ps = map (\<lambda>r. value_of (er_Value r)) (prior_rules rules);
         forbids = list_ex (\<lambda>v. is_on (map_of v ''forbids_prior'')) ps;
         requires = list_ex (\<lambda>v. is_on (map_of v ''requires_prior'')) ps
     in (forbids \<and> requires) \<or> length ps > 1)"

text \<open>A republish that carries an end already past, unchanged, is let through.\<close>

definition fixed_end :: "(string \<Rightarrow> go_time option) \<Rightarrow> jmap \<Rightarrow> go_time option" where
  "fixed_end rfc m =
    (if upper_trim (str_or (map_of m ''end_mode'')) \<noteq> ''FIXED_AT'' then None
     else rfc (TrimSpace (str_or (map_of m ''ends_at''))))"

definition unchangedPastFixedEnd :: "(string \<Rightarrow> go_time option) \<Rightarrow> package_publish_spec \<Rightarrow> end_error \<Rightarrow> bool" where
  "unchangedPastFixedEnd rfc spec e \<longleftrightarrow> e = EndNotInFuture \<and>
    (case ps_PriorDurationPolicy spec of
       None \<Rightarrow> False
     | Some prior \<Rightarrow> (case (fixed_end rfc (ps_DurationPolicy spec), fixed_end rfc prior) of
         (Some a, Some b) \<Rightarrow> a = b
       | _ \<Rightarrow> False))"

definition hasControl :: "string \<Rightarrow> bool" where
  "hasControl s \<longleftrightarrow> list_ex (\<lambda>c. (of_char c :: nat) < 32 \<or> (of_char c :: nat) = 127) s"

definition printable_code :: "string \<Rightarrow> bool" where
  "printable_code s \<longleftrightarrow> length s \<le> 20 \<and> CHR ''|'' \<notin> set s \<and> \<not> hasControl s"

definition trim_mapping :: "room_charge_mapping \<Rightarrow> room_charge_mapping" where
  "trim_mapping m = m\<lparr>rc_PMSInterfaceID := TrimSpace (rc_PMSInterfaceID m), rc_PostingCode := TrimSpace (rc_PostingCode m),
     rc_TaxCode := TrimSpace (rc_TaxCode m)\<rparr>"

fun check_mappings :: "string list \<Rightarrow> room_charge_mapping list \<Rightarrow> room_charge_mapping list option" where
  "check_mappings seen [] = Some []"
| "check_mappings seen (m0 # ms) =
    (let m = trim_mapping m0
     in if rc_PMSInterfaceID m = [] \<or> rc_PMSInterfaceID m \<in> set seen then None
        else if length (rc_PostingCode m) < 1 \<or> \<not> printable_code (rc_PostingCode m) then None
        else if \<not> printable_code (rc_TaxCode m) then None
        else if (case rc_TaxRateBP m of None \<Rightarrow> False | Some r \<Rightarrow> r < 0 \<or> r > 10000) then None
        else map_option ((#) m) (check_mappings (rc_PMSInterfaceID m # seen) ms))"

text \<open>The methods and the currency a spec ends up with: Free for a package without a price or a method.\<close>

definition acquisition_methods :: "package_publish_spec \<Rightarrow> string list" where
  "acquisition_methods spec =
    (if ps_AcquisitionMethods spec = [] \<and> ps_PriceMinor spec = 0 then [AcquireFree] else ps_AcquisitionMethods spec)"

definition publish_currency :: "package_publish_spec \<Rightarrow> (string \<times> int) option" where
  "publish_currency spec =
    (if ps_PriceMinor spec = 0 \<and> TrimSpace (ps_Currency spec) = [] then Some (''USD'', 2)
     else case ValidateCurrency (ps_Currency spec) (ps_CurrencyExponent spec) of
       Inl e \<Rightarrow> None
     | Inr c \<Rightarrow> Some (c, ps_CurrencyExponent spec))"

definition normalizeAcquisition :: "package_publish_spec \<Rightarrow> string + package_publish_spec" where
  "normalizeAcquisition spec =
    (let methods = acquisition_methods spec
     in if \<not> ValidateAcquisitionMethods (ps_PriceMinor spec) methods then Inl ''invalid_acquisition_methods''
        else case publish_currency spec of
          None \<Rightarrow> Inl ''invalid_currency''
        | Some (cur, ex) \<Rightarrow>
            if hasMethod methods AcquireCard \<and> ex = 3 \<and> go_mod (ps_PriceMinor spec) 10 \<noteq> 0 then Inl ''invalid_currency''
            else let room = hasMethod methods AcquireRoomCharge
            in if \<not> room \<and> ps_RoomChargeMappings spec \<noteq> [] then Inl ''invalid_room_charge_mapping''
               else if room \<and> ps_RoomChargeMappings spec = [] then Inl ''invalid_room_charge_mapping''
               else case check_mappings [] (ps_RoomChargeMappings spec) of
                 None \<Rightarrow> Inl ''invalid_room_charge_mapping''
               | Some ms \<Rightarrow> Inr (spec\<lparr>ps_AcquisitionMethods := methods, ps_Currency := cur, ps_CurrencyExponent := ex,
                               ps_RoomChargeMappings := ms\<rparr>))"

text \<open>Every gate of \<open>PublishRevision\<close> up to the transaction: the spec to store, or the label of the refusal.\<close>

definition publish_gates ::
  "(string \<Rightarrow> go_time option) \<Rightarrow> float_ops \<Rightarrow> go_time \<Rightarrow> package_publish_spec \<Rightarrow> string + package_publish_spec" where
  "publish_gates rfc F now spec =
    (if \<not> list_all (ValidateEligibilityRule rfc) (ps_EligibilityRules spec) then Inl ''invalid_eligibility_rule''
     else if contradictoryPriorPurchase (ps_EligibilityRules spec) then Inl ''invalid_eligibility_rule''
     else if ps_GrantTiers spec = [] then Inl ''no_grant_tiers''
     else if \<not> (list_all (ValidateGrantTier rfc) (ps_GrantTiers spec) \<and> distinct (map gt_Order (ps_GrantTiers spec)))
       then Inl ''invalid_grant_tier''
     else if (case ResolveEndPolicy rfc (ps_DurationPolicy spec) now of
                Inl e \<Rightarrow> \<not> unchangedPastFixedEnd rfc spec e | Inr r \<Rightarrow> False) then Inl ''invalid_duration_policy''
     else if (case (ps_VisibleFrom spec, ps_VisibleUntil spec) of (Some a, Some b) \<Rightarrow> \<not> a < b | _ \<Rightarrow> False)
       then Inl ''invalid_sale_window''
     else if ParseDataAllocationPolicy F (ps_DataAllocationPolicy spec) = None then Inl ''invalid_data_allocation_policy''
     else normalizeAcquisition spec)"

subsection \<open>The catalogue of a site\<close>

record package_row =
  pk_ID :: string
  pk_Code :: string
  pk_Active :: bool
  pk_System :: bool
  pk_Current :: "string option"

text \<open>A revision is its spec as inserted, under an id and a number of its package.\<close>

record package_revision =
  rv_ID :: string
  rv_PackageID :: string
  rv_No :: int
  rv_Spec :: package_publish_spec

record plan_row =
  pl_ID :: string
  pl_Code :: string
  pl_Current :: "string option"

record plan_revision =
  pv_ID :: string
  pv_PlanID :: string
  pv_No :: int
  pv_Spec :: plan_publish_spec

record catalogue =
  ct_packages :: "package_row list"
  ct_revisions :: "package_revision list"
  ct_plans :: "plan_row list"
  ct_plan_revisions :: "plan_revision list"

text \<open>\<open>LoadPlanRevision\<close>: a NULL column reads as zero.\<close>

definition LoadPlanRevision :: "plan_revision \<Rightarrow> plan_revision_row" where
  "LoadPlanRevision v = (let p = pv_Spec v; z = (\<lambda>x. case x of None \<Rightarrow> 0 | Some n \<Rightarrow> n)
     in \<lparr>pr_ID = pv_ID v, pr_DownKbps = z (pp_DownKbps p), pr_UpKbps = z (pp_UpKbps p),
         pr_MaxConcurrentDevices = pp_MaxConcurrentDevices p, pr_TimeQuotaSeconds = z (pp_TimeQuotaSeconds p),
         pr_DataQuotaBytes = z (pp_DataQuotaBytes p), pr_TimeAccountingMode = pp_TimeAccountingMode p\<rparr>)"

text \<open>
  \<open>LoadEligibilityRules\<close>: a rule comes back from its column through plain \<open>json.Unmarshal\<close>, which makes every
  number a \<open>float64\<close>; a literal beyond that type becomes nil.
\<close>

fun reload :: "float_ops \<Rightarrow> json \<Rightarrow> json" where
  "reload F (JNumber s) = (case pf F s of Some f \<Rightarrow> JFloat f | None \<Rightarrow> JNull)"
| "reload F (JInt i) = JFloat (fl F (of_int i))"
| "reload F (JArr xs) = JArr (map (reload F) xs)"
| "reload F (JObj m) = JObj (map (\<lambda>(k, v). (k, reload F v)) m)"
| "reload F j = j"

definition reload_map :: "float_ops \<Rightarrow> jmap \<Rightarrow> jmap" where
  "reload_map F v = map (\<lambda>(k, j). (k, reload F j)) v"

definition LoadEligibilityRules :: "float_ops \<Rightarrow> package_revision \<Rightarrow> eligibility_rule list" where
  "LoadEligibilityRules F r =
    map (\<lambda>e. e\<lparr>er_Value := Some (reload_map F (value_of (er_Value e)))\<rparr>) (ps_EligibilityRules (rv_Spec r))"

definition systemGraceCode :: string where "systemGraceCode = ''__system_checkout_grace''"
definition systemGracePlanCode :: string where "systemGracePlanCode = ''__system_checkout_grace_plan''"

definition reservedCommerceCodes :: "string list" where
  "reservedCommerceCodes = [systemGraceCode, systemGracePlanCode, ''__sys_emergency_grace_pkg__'', ''__sys_emergency_grace_plan__'']"

definition reservedCommerceCode :: "string \<Rightarrow> bool" where
  "reservedCommerceCode code \<longleftrightarrow> code \<in> set reservedCommerceCodes"

datatype publish_error = PubInvalid | PubCodeExists | PubRepo

text \<open>
  The two ways to name the package of a revision. The id of a new row is the database's choice; an id in use
  violates the primary key.
\<close>

definition insert_package :: "catalogue \<Rightarrow> string \<Rightarrow> string \<Rightarrow> publish_error + (catalogue \<times> string)" where
  "insert_package cat code newid =
    (if newid \<in> set (map pk_ID (ct_packages cat)) then Inl PubRepo
     else Inr (cat\<lparr>ct_packages := ct_packages cat @
       [\<lparr>pk_ID = newid, pk_Code = code, pk_Active = True, pk_System = False, pk_Current = None\<rparr>]\<rparr>, newid))"

definition UpsertPackage :: "catalogue \<Rightarrow> string \<Rightarrow> string \<Rightarrow> publish_error + (catalogue \<times> string)" where
  "UpsertPackage cat code newid =
    (if reservedCommerceCode code then Inl PubInvalid
     else case first_of (\<lambda>p. pk_Code p = code) (ct_packages cat) of
       Some p \<Rightarrow> if pk_System p then Inl PubInvalid else Inr (cat, pk_ID p)
     | None \<Rightarrow> insert_package cat code newid)"

definition CreatePackage :: "catalogue \<Rightarrow> string \<Rightarrow> string \<Rightarrow> publish_error + (catalogue \<times> string)" where
  "CreatePackage cat code newid =
    (if reservedCommerceCode code then Inl PubInvalid
     else case first_of (\<lambda>p. pk_Code p = code) (ct_packages cat) of
       Some p \<Rightarrow> Inl PubCodeExists
     | None \<Rightarrow> insert_package cat code newid)"

definition NextRevisionNo :: "catalogue \<Rightarrow> string \<Rightarrow> int" where
  "NextRevisionNo cat pid = fold max (map rv_No (filter (\<lambda>r. rv_PackageID r = pid) (ct_revisions cat))) 0 + 1"

definition PlanRevisionBelongs :: "catalogue \<Rightarrow> string \<Rightarrow> bool" where
  "PlanRevisionBelongs cat vid \<longleftrightarrow> list_ex (\<lambda>v. pv_ID v = vid) (ct_plan_revisions cat)"

text \<open>A FIXED or absent allocation is stored as none, a blank package type as GENERAL.\<close>

definition packageTypeOr :: "string \<Rightarrow> string" where
  "packageTypeOr t = (if TrimSpace t = [] then ''GENERAL'' else TrimSpace t)"

definition stored_spec :: "package_publish_spec \<Rightarrow> package_publish_spec" where
  "stored_spec spec =
    (let mode = str_or (map_of (ps_DataAllocationPolicy spec) ''mode'')
     in spec\<lparr>ps_DataAllocationPolicy := (if mode \<noteq> [] \<and> mode \<noteq> AllocFixed then ps_DataAllocationPolicy spec else []),
             ps_PackageType := packageTypeOr (ps_PackageType spec)\<rparr>)"

definition InsertPackageRevision ::
  "catalogue \<Rightarrow> package_publish_spec \<Rightarrow> string \<Rightarrow> int \<Rightarrow> string \<Rightarrow> publish_error + catalogue" where
  "InsertPackageRevision cat spec pid no newid =
    (if newid \<in> set (map rv_ID (ct_revisions cat)) then Inl PubRepo
     else Inr (cat\<lparr>ct_revisions := ct_revisions cat @
       [\<lparr>rv_ID = newid, rv_PackageID = pid, rv_No = no, rv_Spec = stored_spec spec\<rparr>]\<rparr>))"

definition SetCurrentRevision :: "catalogue \<Rightarrow> string \<Rightarrow> string \<Rightarrow> catalogue" where
  "SetCurrentRevision cat pid vid =
    cat\<lparr>ct_packages := map (\<lambda>p. if pk_ID p = pid then p\<lparr>pk_Current := Some vid\<rparr> else p) (ct_packages cat)\<rparr>"

datatype admin_result =
    AdminDisabled
  | AdminRefused string
  | AdminDone string string
  | AdminError publish_error

record publish_env =
  pe_now :: go_time
  pe_package_id :: string
  pe_revision_id :: string
  pe_commits :: bool

text \<open>The transaction of a publish; \<open>pe_commits\<close> is false when a statement or the commit fails.\<close>

definition publish_tx :: "catalogue \<Rightarrow> package_publish_spec \<Rightarrow> publish_env \<Rightarrow> catalogue \<times> admin_result" where
  "publish_tx cat spec env =
    (if \<not> pe_commits env then (cat, AdminError PubRepo)
     else if \<not> PlanRevisionBelongs cat (ps_ServicePlanRevisionID spec) then (cat, AdminRefused ''plan_revision_not_found'')
     else case (if ps_CreateOnly spec then CreatePackage else UpsertPackage) cat (ps_PackageCode spec) (pe_package_id env) of
       Inl e \<Rightarrow> (cat, AdminError e)
     | Inr (cat1, pid) \<Rightarrow>
         (case InsertPackageRevision cat1 spec pid (NextRevisionNo cat1 pid) (pe_revision_id env) of
            Inl e \<Rightarrow> (cat, AdminError e)
          | Inr cat2 \<Rightarrow> (SetCurrentRevision cat2 pid (pe_revision_id env), AdminDone pid (pe_revision_id env))))"

definition PublishRevision ::
  "(string \<Rightarrow> go_time option) \<Rightarrow> float_ops \<Rightarrow> bool \<Rightarrow> catalogue \<Rightarrow> package_publish_spec \<Rightarrow> publish_env \<Rightarrow> catalogue \<times> admin_result" where
  "PublishRevision rfc F adminOn cat spec env =
    (if \<not> adminOn then (cat, AdminDisabled)
     else if ps_TenantID spec = [] \<or> ps_SiteID spec = [] \<or> ps_PackageCode spec = [] \<or> ps_ServicePlanRevisionID spec = []
       then (cat, AdminError PubInvalid)
     else case publish_gates rfc F (pe_now env) spec of
       Inl why \<Rightarrow> (cat, AdminRefused why)
     | Inr spec' \<Rightarrow> if ps_DryRun spec' then (cat, AdminRefused ''validated'') else publish_tx cat spec' env)"

definition plan_for :: "catalogue \<Rightarrow> bool \<Rightarrow> string \<Rightarrow> string \<Rightarrow> publish_error + (catalogue \<times> string)" where
  "plan_for cat create code newid =
    (if reservedCommerceCode code then Inl PubInvalid
     else case first_of (\<lambda>p. pl_Code p = code) (ct_plans cat) of
       Some p \<Rightarrow> if create then Inl PubCodeExists else Inr (cat, pl_ID p)
     | None \<Rightarrow>
         if newid \<in> set (map pl_ID (ct_plans cat)) then Inl PubRepo
         else Inr (cat\<lparr>ct_plans := ct_plans cat @ [\<lparr>pl_ID = newid, pl_Code = code, pl_Current = None\<rparr>]\<rparr>, newid))"

definition NextPlanRevisionNo :: "catalogue \<Rightarrow> string \<Rightarrow> int" where
  "NextPlanRevisionNo cat pid = fold max (map pv_No (filter (\<lambda>r. pv_PlanID r = pid) (ct_plan_revisions cat))) 0 + 1"

definition PublishPlanRevision :: "bool \<Rightarrow> bool \<Rightarrow> catalogue \<Rightarrow> plan_publish_spec \<Rightarrow> publish_env \<Rightarrow> catalogue \<times> admin_result" where
  "PublishPlanRevision adminOn aggregate cat spec env =
    (if \<not> adminOn then (cat, AdminDisabled)
     else if pp_TenantID spec = [] \<or> pp_SiteID spec = [] \<or> pp_PlanCode spec = [] then (cat, AdminError PubInvalid)
     else case validatePlanSpec spec aggregate of
       None \<Rightarrow> (cat, AdminRefused ''invalid_plan_spec'')
     | Some p \<Rightarrow>
         if \<not> pe_commits env then (cat, AdminError PubRepo)
         else case plan_for cat (pp_CreateOnly p) (pp_PlanCode p) (pe_package_id env) of
           Inl e \<Rightarrow> (cat, AdminError e)
         | Inr (cat1, pid) \<Rightarrow>
             if pe_revision_id env \<in> set (map pv_ID (ct_plan_revisions cat1)) then (cat, AdminError PubRepo)
             else (cat1\<lparr>ct_plan_revisions := ct_plan_revisions cat1 @
                     [\<lparr>pv_ID = pe_revision_id env, pv_PlanID = pid, pv_No = NextPlanRevisionNo cat1 pid, pv_Spec = p\<rparr>],
                   ct_plans := map (\<lambda>q. if pl_ID q = pid then q\<lparr>pl_Current := Some (pe_revision_id env)\<rparr> else q) (ct_plans cat1)\<rparr>,
                   AdminDone pid (pe_revision_id env)))"

definition SetPackageActive :: "bool \<Rightarrow> catalogue \<Rightarrow> string \<Rightarrow> bool \<Rightarrow> bool \<Rightarrow> catalogue \<times> admin_result" where
  "SetPackageActive adminOn cat pid active commits =
    (if \<not> adminOn then (cat, AdminDisabled)
     else if pid = [] then (cat, AdminError PubInvalid)
     else if \<not> commits then (cat, AdminError PubRepo)
     else case first_of (\<lambda>p. pk_ID p = pid) (ct_packages cat) of
       None \<Rightarrow> (cat, AdminError PubRepo)
     | Some p \<Rightarrow>
         if pk_System p then (cat, AdminError PubRepo)
         else (cat\<lparr>ct_packages := map (\<lambda>q. if pk_ID q = pid then q\<lparr>pk_Active := active\<rparr> else q) (ct_packages cat)\<rparr>,
               AdminDone pid []))"

datatype admin_event =
    EvPublish package_publish_spec publish_env
  | EvPublishPlan plan_publish_spec publish_env
  | EvSetActive string bool bool

fun admin_step ::
  "(string \<Rightarrow> go_time option) \<Rightarrow> float_ops \<Rightarrow> bool \<Rightarrow> bool \<Rightarrow> catalogue \<Rightarrow> admin_event \<Rightarrow> catalogue" where
  "admin_step rfc F adminOn aggregate cat (EvPublish spec env) = fst (PublishRevision rfc F adminOn cat spec env)"
| "admin_step rfc F adminOn aggregate cat (EvPublishPlan spec env) = fst (PublishPlanRevision adminOn aggregate cat spec env)"
| "admin_step rfc F adminOn aggregate cat (EvSetActive pid active commits) = fst (SetPackageActive adminOn cat pid active commits)"

text \<open>A site before its operator publishes anything: the system's own packages and nothing else.\<close>

definition bootstrap :: "string list \<Rightarrow> catalogue" where
  "bootstrap ids = \<lparr>ct_packages = map (\<lambda>i. \<lparr>pk_ID = i, pk_Code = systemGraceCode, pk_Active = True, pk_System = True, pk_Current = None\<rparr>) ids,
     ct_revisions = [], ct_plans = [], ct_plan_revisions = []\<rparr>"

subsection \<open>What a catalogue never contains\<close>

definition spec_ok :: "(string \<Rightarrow> go_time option) \<Rightarrow> float_ops \<Rightarrow> package_publish_spec \<Rightarrow> bool" where
  "spec_ok rfc F s \<longleftrightarrow>
    list_all (ValidateEligibilityRule rfc) (ps_EligibilityRules s) \<and> \<not> contradictoryPriorPurchase (ps_EligibilityRules s)
    \<and> ps_GrantTiers s \<noteq> [] \<and> list_all (ValidateGrantTier rfc) (ps_GrantTiers s) \<and> distinct (map gt_Order (ps_GrantTiers s))
    \<and> ParseDataAllocationPolicy F (ps_DataAllocationPolicy s) \<noteq> None
    \<and> ValidateAcquisitionMethods (ps_PriceMinor s) (ps_AcquisitionMethods s)
    \<and> currency_ok (ps_Currency s) (ps_CurrencyExponent s)"

definition current_newest :: "package_revision list \<Rightarrow> package_row \<Rightarrow> bool" where
  "current_newest revs p \<longleftrightarrow> (\<forall>c. pk_Current p = Some c \<longrightarrow>
     (\<exists>r \<in> set revs. rv_ID r = c \<and> rv_PackageID r = pk_ID p
        \<and> (\<forall>r' \<in> set revs. rv_PackageID r' = pk_ID p \<longrightarrow> rv_No r' \<le> rv_No r)))"

definition catalogue_ok :: "(string \<Rightarrow> go_time option) \<Rightarrow> float_ops \<Rightarrow> catalogue \<Rightarrow> bool" where
  "catalogue_ok rfc F cat \<longleftrightarrow>
    (\<forall>r \<in> set (ct_revisions cat). spec_ok rfc F (rv_Spec r) \<and> PlanRevisionBelongs cat (ps_ServicePlanRevisionID (rv_Spec r)))
    \<and> (\<forall>v \<in> set (ct_plan_revisions cat). plan_sound (LoadPlanRevision v))
    \<and> distinct (map rv_ID (ct_revisions cat)) \<and> distinct (map pk_ID (ct_packages cat))
    \<and> (\<forall>p \<in> set (ct_packages cat). current_newest (ct_revisions cat) p \<and> (pk_System p \<longrightarrow> pk_Current p = None))"

definition history_kept :: "catalogue \<Rightarrow> catalogue \<Rightarrow> bool" where
  "history_kept a b \<longleftrightarrow> (\<exists>rs vs. ct_revisions b = ct_revisions a @ rs \<and> ct_plan_revisions b = ct_plan_revisions a @ vs)"

lemma history_kept_trans: "history_kept a b \<Longrightarrow> history_kept b c \<Longrightarrow> history_kept a c"
  by (auto simp: history_kept_def)

lemma history_kept_same: "ct_revisions b = ct_revisions a \<Longrightarrow> ct_plan_revisions b = ct_plan_revisions a \<Longrightarrow> history_kept a b"
  by (simp add: history_kept_def)

lemma in_cap_zero: "in_cap x cap \<Longrightarrow> 0 \<le> cap \<Longrightarrow> 0 \<le> (case x of None \<Rightarrow> 0 | Some n \<Rightarrow> n) \<and> (case x of None \<Rightarrow> 0 | Some n \<Rightarrow> n) \<le> cap"
  by (auto simp: in_cap_def split: option.splits)

lemma time_mode_accounted: "time_mode_valid a p \<Longrightarrow> accounting_mode (pp_TimeAccountingMode p) = Some (pp_TimeAccountingMode p)"
proof -
  have "accounting_mode ''VALIDITY_WINDOW'' = Some ''VALIDITY_WINDOW''"
    "accounting_mode ''AGGREGATE_ONLINE_TIME'' = Some ''AGGREGATE_ONLINE_TIME''" by code_simp+
  then show "time_mode_valid a p \<Longrightarrow> accounting_mode (pp_TimeAccountingMode p) = Some (pp_TimeAccountingMode p)"
    by (auto simp: time_mode_valid_def)
qed

lemma validatePlanSpec_sound:
  assumes "validatePlanSpec spec agg = Some p"
  shows "plan_sound (LoadPlanRevision \<lparr>pv_ID = vid, pv_PlanID = pid, pv_No = n, pv_Spec = p\<rparr>)"
proof -
  have p: "in_cap (pp_DownKbps p) maxKbps" "in_cap (pp_UpKbps p) maxKbps" "in_cap (pp_TimeQuotaSeconds p) maxTimeQuotaSecond"
      "in_cap (pp_DataQuotaBytes p) maxDataQuotaBytes" "1 \<le> pp_MaxConcurrentDevices p" "pp_MaxConcurrentDevices p \<le> maxDevices"
      "time_mode_valid agg p"
    using assms by (auto simp: validatePlanSpec_def Let_def split: if_splits)
  have c: "0 \<le> maxKbps" "0 \<le> maxTimeQuotaSecond" "0 \<le> maxDataQuotaBytes" by (simp_all add: cap_defs)
  show ?thesis
    using in_cap_zero [OF p(1) c(1)] in_cap_zero [OF p(2) c(1)] in_cap_zero [OF p(3) c(2)] in_cap_zero [OF p(4) c(3)] p(5,6)
      time_mode_accounted [OF p(7)]
    by (simp add: plan_sound_def LoadPlanRevision_def Let_def)
qed

lemma ValidateCurrency_Inr: "ValidateCurrency c e = Inr d \<Longrightarrow> d = upper_trim c \<and> currency_ok d e"
  by (auto simp: ValidateCurrency_def currency_ok_def NormalizeCurrency_def Let_def split: option.splits if_splits)

lemma publish_currency_ok: "publish_currency spec = Some (c, e) \<Longrightarrow> currency_ok c e"
proof -
  have usd: "currency_ok ''USD'' 2" by code_simp
  assume "publish_currency spec = Some (c, e)"
  then show ?thesis using usd ValidateCurrency_Inr
    by (auto simp: publish_currency_def split: if_splits sum.splits)
qed

lemma normalizeAcquisition_Inr:
  assumes "normalizeAcquisition spec = Inr s"
  shows "ValidateAcquisitionMethods (ps_PriceMinor s) (ps_AcquisitionMethods s) \<and> currency_ok (ps_Currency s) (ps_CurrencyExponent s)
     \<and> ps_EligibilityRules s = ps_EligibilityRules spec \<and> ps_GrantTiers s = ps_GrantTiers spec
     \<and> ps_DataAllocationPolicy s = ps_DataAllocationPolicy spec"
  using assms publish_currency_ok
  by (auto simp: normalizeAcquisition_def Let_def split: if_splits option.splits prod.splits)

lemma publish_gates_ok: "publish_gates rfc F now spec = Inr s \<Longrightarrow> spec_ok rfc F s"
  unfolding publish_gates_def spec_ok_def
  by (auto split: if_splits dest: normalizeAcquisition_Inr)

lemma stored_spec_ok: "spec_ok rfc F s \<Longrightarrow> spec_ok rfc F (stored_spec s)"
proof -
  have "ParseDataAllocationPolicy F [] = Some fixed_policy" by (simp add: ParseDataAllocationPolicy_def)
  then show "spec_ok rfc F s \<Longrightarrow> spec_ok rfc F (stored_spec s)" by (auto simp: spec_ok_def stored_spec_def Let_def)
qed

lemma stored_spec_plan [simp]: "ps_ServicePlanRevisionID (stored_spec s) = ps_ServicePlanRevisionID s"
  by (simp add: stored_spec_def Let_def)

lemma NextRevisionNo_newer: "r \<in> set (ct_revisions cat) \<Longrightarrow> rv_PackageID r = pid \<Longrightarrow> rv_No r < NextRevisionNo cat pid"
  unfolding NextRevisionNo_def by (auto simp: zless_add1_eq order.order_iff_strict [symmetric] intro!: fold_max_mem)

lemma first_of_mem: "first_of P xs = Some x \<Longrightarrow> x \<in> set xs \<and> P x"
  by (induction xs) (auto split: if_splits)

text \<open>The package a publish names: the same revisions and plans, and a row of that id that is not the system's.\<close>

lemma insert_package_ok:
  assumes "catalogue_ok rfc F cat" and "insert_package cat code i = Inr (cat1, pid)"
  shows "catalogue_ok rfc F cat1 \<and> ct_revisions cat1 = ct_revisions cat \<and> ct_plan_revisions cat1 = ct_plan_revisions cat
    \<and> (\<forall>p \<in> set (ct_packages cat1). pk_ID p = pid \<longrightarrow> \<not> pk_System p)"
proof -
  define new where "new = \<lparr>pk_ID = i, pk_Code = code, pk_Active = True, pk_System = False, pk_Current = None\<rparr>"
  have n: "pk_ID new = i" "\<not> pk_System new" "pk_Current new = None" by (simp_all add: new_def)
  have c: "cat1 = cat\<lparr>ct_packages := ct_packages cat @ [new]\<rparr>" "pid = i" "i \<notin> pk_ID ` set (ct_packages cat)"
    using assms(2) by (auto simp: insert_package_def new_def split: if_splits)
  have "catalogue_ok rfc F cat1"
    using assms(1) c(3) by (simp add: c(1) catalogue_ok_def current_newest_def PlanRevisionBelongs_def n)
  moreover have "\<not> pk_System p" if "p \<in> set (ct_packages cat1)" "pk_ID p = pid" for p
    using that n c(2,3) by (auto simp: c(1))
  ultimately show ?thesis by (simp add: c(1))
qed

lemma named_package_ok:
  assumes ok: "catalogue_ok rfc F cat" and f: "(if create then CreatePackage else UpsertPackage) cat code i = Inr (cat1, pid)"
  shows "catalogue_ok rfc F cat1 \<and> ct_revisions cat1 = ct_revisions cat \<and> ct_plan_revisions cat1 = ct_plan_revisions cat
    \<and> (\<forall>p \<in> set (ct_packages cat1). pk_ID p = pid \<longrightarrow> \<not> pk_System p)"
proof (cases "first_of (\<lambda>p. pk_Code p = code) (ct_packages cat)")
  case None
  then have "insert_package cat code i = Inr (cat1, pid)"
    using f by (auto simp: CreatePackage_def UpsertPackage_def split: if_splits)
  then show ?thesis by (rule insert_package_ok [OF ok])
next
  case (Some p)
  then have p: "cat1 = cat" "pid = pk_ID p" "\<not> pk_System p"
    using f by (auto simp: CreatePackage_def UpsertPackage_def split: if_splits)
  have "p \<in> set (ct_packages cat)" using first_of_mem [OF Some] by blast
  moreover have "inj_on pk_ID (set (ct_packages cat))" using ok by (simp add: catalogue_ok_def distinct_map)
  ultimately show ?thesis using ok p by (auto dest: inj_onD)
qed

lemma add_revision_ok:
  assumes ok: "catalogue_ok rfc F cat" and sp: "spec_ok rfc F s" and pl: "PlanRevisionBelongs cat (ps_ServicePlanRevisionID s)"
    and i: "InsertPackageRevision cat s pid (NextRevisionNo cat pid) vid = Inr cat2"
    and sys: "\<forall>p \<in> set (ct_packages cat). pk_ID p = pid \<longrightarrow> \<not> pk_System p"
  shows "catalogue_ok rfc F (SetCurrentRevision cat2 pid vid)"
proof -
  define new where "new = \<lparr>rv_ID = vid, rv_PackageID = pid, rv_No = NextRevisionNo cat pid, rv_Spec = stored_spec s\<rparr>"
  have c2: "ct_revisions cat2 = ct_revisions cat @ [new]" "ct_packages cat2 = ct_packages cat"
      "ct_plan_revisions cat2 = ct_plan_revisions cat" and fresh: "vid \<notin> set (map rv_ID (ct_revisions cat))"
    using i by (auto simp: InsertPackageRevision_def new_def split: if_splits)
  have newest: "current_newest (ct_revisions cat2) (p\<lparr>pk_Current := Some vid\<rparr>)" if "pk_ID p = pid" for p
    using that NextRevisionNo_newer [of _ cat pid]
    by (auto simp: current_newest_def c2 new_def intro!: less_imp_le)
  have other: "current_newest (ct_revisions cat2) p" if "current_newest (ct_revisions cat) p" "pk_ID p \<noteq> pid" for p
    using that by (auto simp: current_newest_def c2 new_def)
  let ?c = "SetCurrentRevision cat2 pid vid"
  have c: "ct_revisions ?c = ct_revisions cat2" "ct_plan_revisions ?c = ct_plan_revisions cat"
    by (simp_all add: SetCurrentRevision_def c2)
  have pk: "ct_packages ?c = map (\<lambda>p. if pk_ID p = pid then p\<lparr>pk_Current := Some vid\<rparr> else p) (ct_packages cat)"
    by (simp add: SetCurrentRevision_def c2)
  have "map pk_ID (ct_packages ?c) = map pk_ID (ct_packages cat)"
    by (simp add: SetCurrentRevision_def c2 comp_def if_distrib cong: if_cong)
  then have "distinct (map pk_ID (ct_packages ?c))" using ok by (simp add: catalogue_ok_def)
  moreover have "current_newest (ct_revisions cat2) p \<and> (pk_System p \<longrightarrow> pk_Current p = None)" if pin: "p \<in> set (ct_packages ?c)" for p
  proof -
    obtain q where q: "q \<in> set (ct_packages cat)" "p = (if pk_ID q = pid then q\<lparr>pk_Current := Some vid\<rparr> else q)"
      using pin unfolding pk set_map by blast
    have "current_newest (ct_revisions cat) q \<and> (pk_System q \<longrightarrow> pk_Current q = None)" using ok q(1) by (simp add: catalogue_ok_def)
    then show ?thesis using newest other sys q by (cases "pk_ID q = pid") simp_all
  qed
  moreover have "\<forall>r \<in> set (ct_revisions cat2). spec_ok rfc F (rv_Spec r) \<and> PlanRevisionBelongs ?c (ps_ServicePlanRevisionID (rv_Spec r))"
    using ok pl stored_spec_ok [OF sp] by (auto simp: c c2 catalogue_ok_def PlanRevisionBelongs_def new_def)
  moreover have "distinct (map rv_ID (ct_revisions cat2))" using ok fresh by (simp add: c2 catalogue_ok_def new_def)
  moreover have "\<forall>v \<in> set (ct_plan_revisions ?c). plan_sound (LoadPlanRevision v)" using ok by (simp add: c catalogue_ok_def)
  ultimately show ?thesis unfolding catalogue_ok_def c(1) by blast
qed

lemma publish_tx_ok:
  assumes ok: "catalogue_ok rfc F cat" and sp: "spec_ok rfc F s"
  shows "catalogue_ok rfc F (fst (publish_tx cat s env)) \<and> history_kept cat (fst (publish_tx cat s env))"
proof (cases "fst (publish_tx cat s env) = cat")
  case True
  then show ?thesis using ok by (simp add: history_kept_def)
next
  case False
  then obtain cat1 pid cat2 where pl: "PlanRevisionBelongs cat (ps_ServicePlanRevisionID s)"
      and n: "(if ps_CreateOnly s then CreatePackage else UpsertPackage) cat (ps_PackageCode s) (pe_package_id env) = Inr (cat1, pid)"
      and i: "InsertPackageRevision cat1 s pid (NextRevisionNo cat1 pid) (pe_revision_id env) = Inr cat2"
      and res: "fst (publish_tx cat s env) = SetCurrentRevision cat2 pid (pe_revision_id env)"
    by (auto simp: publish_tx_def split: if_splits sum.splits prod.splits)
  note n1 = named_package_ok [OF ok n]
  have "PlanRevisionBelongs cat1 (ps_ServicePlanRevisionID s)" using pl n1 by (simp add: PlanRevisionBelongs_def)
  then have "catalogue_ok rfc F (SetCurrentRevision cat2 pid (pe_revision_id env))"
    using add_revision_ok [OF _ sp _ i] n1 by blast
  moreover have "history_kept cat (SetCurrentRevision cat2 pid (pe_revision_id env))"
    using i n1 by (auto simp: history_kept_def SetCurrentRevision_def InsertPackageRevision_def split: if_splits)
  ultimately show ?thesis by (simp add: res)
qed

lemma PublishRevision_ok:
  assumes "catalogue_ok rfc F cat"
  shows "catalogue_ok rfc F (fst (PublishRevision rfc F on cat spec env)) \<and> history_kept cat (fst (PublishRevision rfc F on cat spec env))"
  using assms publish_tx_ok [OF assms publish_gates_ok]
  by (auto simp: PublishRevision_def history_kept_same split: sum.splits)

lemma plan_for_ok:
  "plan_for cat create code i = Inr (cat1, pid) \<Longrightarrow> ct_packages cat1 = ct_packages cat \<and> ct_revisions cat1 = ct_revisions cat
     \<and> ct_plan_revisions cat1 = ct_plan_revisions cat"
  by (auto simp: plan_for_def split: if_splits option.splits)

lemma add_plan_revision_ok:
  assumes "catalogue_ok rfc F cat" and "plan_sound (LoadPlanRevision v)"
    and "ct_packages cat' = ct_packages cat" and "ct_revisions cat' = ct_revisions cat"
    and "ct_plan_revisions cat' = ct_plan_revisions cat @ [v]"
  shows "catalogue_ok rfc F cat'"
  using assms by (auto simp: catalogue_ok_def PlanRevisionBelongs_def)

lemma PublishPlanRevision_ok:
  assumes ok: "catalogue_ok rfc F cat"
  shows "catalogue_ok rfc F (fst (PublishPlanRevision on agg cat spec env)) \<and> history_kept cat (fst (PublishPlanRevision on agg cat spec env))"
proof (cases "fst (PublishPlanRevision on agg cat spec env) = cat")
  case True
  then show ?thesis using ok by (simp add: history_kept_def)
next
  case False
  let ?c = "fst (PublishPlanRevision on agg cat spec env)"
  obtain p cat1 pid where p: "validatePlanSpec spec agg = Some p"
      and f: "plan_for cat (pp_CreateOnly p) (pp_PlanCode p) (pe_package_id env) = Inr (cat1, pid)"
      and c: "ct_packages ?c = ct_packages cat1" "ct_revisions ?c = ct_revisions cat1"
        "ct_plan_revisions ?c = ct_plan_revisions cat1 @
          [\<lparr>pv_ID = pe_revision_id env, pv_PlanID = pid, pv_No = NextPlanRevisionNo cat1 pid, pv_Spec = p\<rparr>]"
    using False by (auto simp: PublishPlanRevision_def split: if_splits option.splits sum.splits prod.splits)
  have "catalogue_ok rfc F ?c"
    by (rule add_plan_revision_ok [OF ok validatePlanSpec_sound [OF p]]) (use c plan_for_ok [OF f] in simp_all)
  then show ?thesis using c plan_for_ok [OF f] by (simp add: history_kept_def)
qed

lemma SetPackageActive_ok:
  assumes ok: "catalogue_ok rfc F cat"
  shows "catalogue_ok rfc F (fst (SetPackageActive on cat pid act c)) \<and> history_kept cat (fst (SetPackageActive on cat pid act c))"
proof -
  define f where "f q = (if pk_ID q = pid then q\<lparr>pk_Active := act\<rparr> else q)" for q :: package_row
  have f: "pk_ID (f q) = pk_ID q" "pk_System (f q) = pk_System q" "pk_Current (f q) = pk_Current q" for q by (simp_all add: f_def)
  have "catalogue_ok rfc F (cat\<lparr>ct_packages := map f (ct_packages cat)\<rparr>)"
    using ok by (simp add: catalogue_ok_def current_newest_def PlanRevisionBelongs_def f comp_def)
  then show ?thesis using ok
    by (auto simp: SetPackageActive_def history_kept_def f_def [abs_def] split: option.splits)
qed

lemma bootstrap_ok: "distinct ids \<Longrightarrow> catalogue_ok rfc F (bootstrap ids)"
  by (auto simp: catalogue_ok_def bootstrap_def current_newest_def comp_def)

interpretation catalogue: monotone_machine "admin_step rfc F on agg" "catalogue_ok rfc F" history_kept
proof unfold_locales
  show "catalogue_ok rfc F (admin_step rfc F on agg s x)" if "catalogue_ok rfc F s" for s x
    using that by (cases x) (simp_all add: PublishRevision_ok PublishPlanRevision_ok SetPackageActive_ok)
  show "history_kept s s" for s by (simp add: history_kept_def)
  show "history_kept a c" if "history_kept a b" "history_kept b c" for a b c using that by (rule history_kept_trans)
  show "history_kept s (admin_step rfc F on agg s x)" if "catalogue_ok rfc F s" for s x
    using that by (cases x) (simp_all add: PublishRevision_ok PublishPlanRevision_ok SetPackageActive_ok)
qed

subsection \<open>Rules survive their column\<close>

text \<open>
  What the code relies on of \<open>float64\<close>: whole numbers up to \<open>2 ^ 53\<close> are exact, written or converted, and rounding
  never swaps two numbers.
\<close>

definition float_lawful :: "float_ops \<Rightarrow> bool" where
  "float_lawful F \<longleftrightarrow> (\<forall>i. \<bar>i\<bar> \<le> 2 ^ 53 \<longrightarrow> fl F (of_int i) = of_int i)
     \<and> (\<forall>s i. Atoi s = Some i \<longrightarrow> \<bar>i\<bar> \<le> 2 ^ 53 \<longrightarrow> pf F s = Some (of_int i)) \<and> mono (fl F)"

lemma as_str_reload [simp]: "as_str (Some (reload F j)) = as_str (Some j)"
  by (cases j) (auto split: option.splits)

lemma as_str_reload_opt [simp]: "as_str (map_option (reload F) j) = as_str j"
  by (cases j) (simp_all add: as_str_reload)

lemma as_bool_reload [simp]: "as_bool (map_option (reload F) j) = as_bool j"
proof (cases j)
  case (Some x)
  then show ?thesis by (cases x) (auto split: option.splits)
qed simp

lemma as_arr_reload: "as_arr (map_option (reload F) j) = map_option (map (reload F)) (as_arr j)"
proof (cases j)
  case (Some x)
  then show ?thesis by (cases x) (auto split: option.splits)
qed simp

lemma is_on_reload [simp]: "is_on (map_option (reload F) j) = is_on j"
  by (simp add: is_on_def)

lemma stringSet_reload [simp]: "stringSet (map_option (reload F) j) = stringSet j"
  by (cases "as_arr j") (simp_all add: stringSet_def as_arr_reload comp_def)

lemma map_of_reload: "map_of (reload_map F v) k = map_option (reload F) (map_of v k)"
  by (induction v) (auto simp: reload_map_def)

lemma parseTimeField_reload [simp]: "parseTimeField rfc (reload_map F v) k = parseTimeField rfc v k"
proof (cases "map_of v k")
  case (Some j)
  then show ?thesis by (simp add: parseTimeField_def map_of_reload)
qed (simp add: parseTimeField_def map_of_reload)

lemma Atoi_reload:
  assumes "float_lawful F" and "asInt64 j = Some n" and "0 \<le> n" and "n \<le> MaxInt32"
  shows "reload F j = JFloat (of_int n)"
proof -
  have n: "\<bar>n\<bar> \<le> 2 ^ 53" using assms(3,4) by (simp add: MaxInt32_def)
  show ?thesis using assms(1,2) n
    by (cases j) (auto simp: float_lawful_def split: if_splits)
qed

lemma parseIntField_reload:
  assumes F: "float_lawful F" and p: "parseIntField v k = (n, present, True)"
  shows "parseIntField (reload_map F v) k = (n, present, True)"
proof (cases "map_of v k")
  case None
  then show ?thesis using p by (simp add: parseIntField_def map_of_reload)
next
  case (Some j)
  show ?thesis
  proof (cases "asInt64 j")
    case None
    then show ?thesis using p Some by (cases j) (auto simp: parseIntField_def map_of_reload split: if_splits)
  next
    case (Some i)
    then have "j \<noteq> JNull" by auto
    then have i: "0 \<le> i" "i \<le> MaxInt32" "n = i" "present"
      using p Some \<open>map_of v k = Some j\<close> by (auto simp: parseIntField_def split: if_splits)
    have "reload F j = JFloat (of_int i)" by (rule Atoi_reload [OF F Some i(1,2)])
    then show ?thesis using i by (simp add: parseIntField_def map_of_reload \<open>map_of v k = Some j\<close>)
  qed
qed

lemma bounds_wf_ok: "bounds_wf ordered lo hi \<Longrightarrow> fst (snd lo) \<longrightarrow> snd (snd lo)" "bounds_wf ordered lo hi \<Longrightarrow> fst (snd hi) \<longrightarrow> snd (snd hi)"
  by (auto simp: bounds_wf_iff)

lemma parseIntField_absent_ok: "\<not> fst (snd (parseIntField v k)) \<Longrightarrow> snd (snd (parseIntField v k))"
  by (auto simp: parseIntField_def split: option.splits if_splits json.splits)

lemma parseIntField_reload_wf:
  assumes "float_lawful F" and "bounds_wf (\<le>) (parseIntField v a) (parseIntField v b)"
  shows "parseIntField (reload_map F v) a = parseIntField v a \<and> parseIntField (reload_map F v) b = parseIntField v b"
proof -
  have "snd (snd (parseIntField v a))" using bounds_wf_ok(1) [OF assms(2)] parseIntField_absent_ok [of v a] by blast
  then obtain n p where a: "parseIntField v a = (n, p, True)" by (cases "parseIntField v a") auto
  have "snd (snd (parseIntField v b))" using bounds_wf_ok(2) [OF assms(2)] parseIntField_absent_ok [of v b] by blast
  then obtain m q where b: "parseIntField v b = (m, q, True)" by (cases "parseIntField v b") auto
  show ?thesis using parseIntField_reload [OF assms(1) a] parseIntField_reload [OF assms(1) b] a b by simp
qed

lemma validated_reload:
  assumes "ValidateEligibilityRule rfc e" and "float_lawful F"
  shows "evalTypedCondition rfc (er_Type e) (reload_map F (value_of (er_Value e))) s
       = evalTypedCondition rfc (er_Type e) (value_of (er_Value e)) s"
proof -
  obtain k v where k: "rule_type_of (er_Type e) = Some k" and v: "er_Value e = Some v"
    using assms(1) by (auto simp: ValidateEligibilityRule_def split: option.splits)
  have nights: "eval_stay_length (reload_map F v) x = eval_stay_length v x" if "k = RuleStayLength" for x
  proof -
    have "bounds_wf (\<le>) (parseIntField v ''min_nights'') (parseIntField v ''max_nights'')"
      using assms(1) that by (simp add: ValidateEligibilityRule_def k v IsPMSRuleType_Some pmsRuleTypes_def validatePMSRule_def)
    note e = parseIntField_reload_wf [OF assms(2) this]
    show ?thesis unfolding eval_stay_length_def e [THEN conjunct1] e [THEN conjunct2] by (rule refl)
  qed
  have pms: "evalPMSCondition k (reload_map F v) x = evalPMSCondition k v x" for x
    using nights by (cases k) (simp_all add: evalPMSCondition_def eval_stay_status_def eval_vip_def map_of_reload)
  show ?thesis using pms
    by (cases k) (simp_all add: v value_of_def evalTypedCondition_def k IsPMSRuleType_Some pmsRuleTypes_def
        eval_date_window_def eval_prior_purchase_def eval_client_group_def eval_site_network_def map_of_reload Let_def
        split: option.split)
qed

lemma loaded_rules_exact:
  assumes "spec_ok rfc F (rv_Spec r)" and "float_lawful F"
  shows "fst (EvaluatePackageEligible rfc (LoadEligibilityRules F r) s) \<longleftrightarrow> (\<forall>e \<in> set (ps_EligibilityRules (rv_Spec r)). rule_holds rfc e s)"
proof -
  have "rule_passes rfc (e\<lparr>er_Value := Some (reload_map F (value_of (er_Value e)))\<rparr>) s \<longleftrightarrow> rule_holds rfc e s"
    if "e \<in> set (ps_EligibilityRules (rv_Spec r))" for e
  proof -
    have "ValidateEligibilityRule rfc e" using assms(1) that by (simp add: spec_ok_def list_all_iff)
    then show ?thesis using validated_reload [OF _ assms(2)] validated_rule_exact [of rfc e s]
      by (simp add: rule_passes_def value_of_def [of "Some _"])
  qed
  then show ?thesis by (simp add: EvaluatePackageEligible_iff LoadEligibilityRules_def)
qed

subsection \<open>Everything on sale can be granted\<close>

lemma revision_grants:
  assumes ok: "catalogue_ok rfc F cat" and r: "r \<in> set (ct_revisions cat)"
    and v: "v \<in> set (ct_plan_revisions cat)" and t: "FirstMatchTier rfc (ps_GrantTiers (rv_Spec r)) s = Some t"
  shows "\<exists>g. BuildGrantSnapshot t (LoadPlanRevision v) (rv_ID r) = Inr g \<and> snapshot_sound g"
proof -
  have "t \<in> set (ps_GrantTiers (rv_Spec r))"
    using t first_of_mem [of _ "sort_key gt_Order (ps_GrantTiers (rv_Spec r))"] by (auto simp: FirstMatchTier_def)
  moreover have "spec_ok rfc F (rv_Spec r)" using ok r by (simp add: catalogue_ok_def)
  ultimately have "ValidateGrantTier rfc t" by (simp add: spec_ok_def list_all_iff)
  moreover have p: "plan_sound (LoadPlanRevision v)" using ok v by (simp add: catalogue_ok_def)
  ultimately obtain g where "BuildGrantSnapshot t (LoadPlanRevision v) (rv_ID r) = Inr g" using validated_tier_builds by blast
  then show ?thesis using BuildGrantSnapshot_sound [OF _ p] by blast
qed


text \<open>
  C34: What is on sale can be granted. For a stored revision, a client passes the rules as they come back
  from the database exactly when the rules hold as the operator wrote them, and the tier such a client gets
  always yields a snapshot, with every value within its cap.
\<close>

theorem published_package_grants:
  assumes "distinct ids" and "cat = run (admin_step rfc F on agg) (bootstrap ids) evs"
    and "r \<in> set (ct_revisions cat)" and "float_lawful F"
  shows "(fst (EvaluatePackageEligible rfc (LoadEligibilityRules F r) s) \<longleftrightarrow> (\<forall>e \<in> set (ps_EligibilityRules (rv_Spec r)). rule_holds rfc e s))
    \<and> (\<exists>v \<in> set (ct_plan_revisions cat). pv_ID v = ps_ServicePlanRevisionID (rv_Spec r)
         \<and> (\<forall>t. FirstMatchTier rfc (ps_GrantTiers (rv_Spec r)) s = Some t \<longrightarrow>
              (\<exists>g. BuildGrantSnapshot t (LoadPlanRevision v) (rv_ID r) = Inr g \<and> snapshot_sound g)))"
proof -
  have ok: "catalogue_ok rfc F cat" unfolding assms(2) by (rule catalogue.run_inv [OF bootstrap_ok [OF assms(1)]])
  then have r: "spec_ok rfc F (rv_Spec r)" "PlanRevisionBelongs cat (ps_ServicePlanRevisionID (rv_Spec r))"
    using assms(3) by (simp_all add: catalogue_ok_def)
  then obtain v where "v \<in> set (ct_plan_revisions cat)" "pv_ID v = ps_ServicePlanRevisionID (rv_Spec r)"
    by (auto simp: PlanRevisionBelongs_def list_ex_iff)
  then show ?thesis using loaded_rules_exact [OF r(1) assms(4)] revision_grants [OF ok assms(3)] by blast
qed

definition sample_floats :: float_ops where
  "sample_floats = \<lparr>fl = (\<lambda>x. x), pf = (\<lambda>s. map_option of_int (Atoi s))\<rparr>"

lemma sample_floats_lawful: "float_lawful sample_floats"
  by (simp add: float_lawful_def sample_floats_def mono_def)

definition sample_plan_spec :: plan_publish_spec where
  "sample_plan_spec = \<lparr>pp_TenantID = ''t'', pp_SiteID = ''s'', pp_PlanCode = ''basic'', pp_Name = ''Basic'', pp_DownKbps = Some 5000,
     pp_UpKbps = Some 1000, pp_MaxConcurrentDevices = 0, pp_DeviceLimitPolicy = [], pp_IdleTimeoutSeconds = None,
     pp_MaxContinuousSessionSeconds = None, pp_TimeQuotaSeconds = None, pp_DataQuotaBytes = None, pp_TimeAccountingMode = [],
     pp_SpeedAllocation = [], pp_CreateOnly = True\<rparr>"

definition sample_spec :: package_publish_spec where
  "sample_spec = \<lparr>ps_TenantID = ''t'', ps_SiteID = ''s'', ps_PackageCode = ''free'', ps_ServicePlanRevisionID = ''v1'', ps_Display = [],
     ps_DurationPolicy = [(''end_mode'', JStr ''VALIDITY_WINDOW''), (''duration_seconds'', JNumber ''3600'')],
     ps_EligibilityRules = [\<lparr>er_Type = ''PRIOR_PURCHASE'', er_Value = Some [(''forbids_prior'', JBool True), (''within_hours'', JNumber ''24'')]\<rparr>],
     ps_GrantTiers = [\<lparr>gt_Order = 0, gt_Value = []\<rparr>], ps_VisibleFrom = None, ps_VisibleUntil = None, ps_DataAllocationPolicy = [],
     ps_PackageType = [], ps_CreateOnly = False, ps_PriceMinor = 0, ps_Currency = [], ps_CurrencyExponent = 0,
     ps_AcquisitionMethods = [], ps_RoomChargeMappings = [], ps_PlanOverrides = [], ps_Renewable = False,
     ps_MaxPurchasesPerStay = None, ps_DryRun = False, ps_PriorDurationPolicy = None\<rparr>"

definition sample_catalogue :: catalogue where
  "sample_catalogue = run (admin_step (\<lambda>_. None) sample_floats True False) (bootstrap [''sys''])
     [EvPublishPlan sample_plan_spec \<lparr>pe_now = 0, pe_package_id = ''pl'', pe_revision_id = ''v1'', pe_commits = True\<rparr>,
      EvPublish sample_spec \<lparr>pe_now = 0, pe_package_id = ''pk'', pe_revision_id = ''r1'', pe_commits = True\<rparr>]"

lemma sample_catalogue_revisions: "map rv_ID (ct_revisions sample_catalogue) = [''r1'']"
  by code_simp

lemma sample_catalogue_tier:
  "map (\<lambda>r. FirstMatchTier (\<lambda>_. None) (ps_GrantTiers (rv_Spec r)) sample_voucher_subject) (ct_revisions sample_catalogue)
   = [Some \<lparr>gt_Order = 0, gt_Value = []\<rparr>]"
  by code_simp


theorem published_package_grants_witness:
  "\<exists>r v t g. r \<in> set (ct_revisions sample_catalogue)
     \<and> FirstMatchTier (\<lambda>_. None) (ps_GrantTiers (rv_Spec r)) sample_voucher_subject = Some t
     \<and> BuildGrantSnapshot t (LoadPlanRevision v) (rv_ID r) = Inr g \<and> snapshot_sound g"
proof -
  obtain r where r: "ct_revisions sample_catalogue = [r]"
      "FirstMatchTier (\<lambda>_. None) (ps_GrantTiers (rv_Spec r)) sample_voucher_subject = Some \<lparr>gt_Order = 0, gt_Value = []\<rparr>"
    using sample_catalogue_tier by auto
  have "distinct [''sys'']" by simp
  from published_package_grants [OF this sample_catalogue_def _ sample_floats_lawful, of r sample_voucher_subject]
  show ?thesis using r by auto
qed

subsection \<open>The allowance of a stay\<close>

lemma go_round_mono: "x \<le> y \<Longrightarrow> go_round x \<le> go_round y"
proof -
  assume xy: "x \<le> y"
  show ?thesis
  proof (cases "0 \<le> x")
    case True
    then show ?thesis using xy by (simp add: go_round_def floor_mono)
  next
    case False
    show ?thesis
    proof (cases "0 \<le> y")
      case True
      have "0 \<le> \<lfloor>- x + 1 / 2\<rfloor>" "0 \<le> \<lfloor>y + 1 / 2\<rfloor>" using True False by simp_all
      then have "- \<lfloor>- x + 1 / 2\<rfloor> \<le> \<lfloor>y + 1 / 2\<rfloor>" by linarith
      then show ?thesis using True False by (simp add: go_round_def)
    next
      case y: False
      have "\<lfloor>- y + 1 / 2\<rfloor> \<le> \<lfloor>- x + 1 / 2\<rfloor>" using xy by (intro floor_mono) simp
      then show ?thesis using False y by (simp add: go_round_def)
    qed
  qed
qed

definition clamp_gb :: "data_allocation_policy \<Rightarrow> rat \<Rightarrow> rat" where
  "clamp_gb p gb0 = (let gb1 = (if gb0 < da_MinGB p then da_MinGB p else gb0)
     in case da_MaxGB p of Some mx \<Rightarrow> if gb1 > mx then mx else gb1 | None \<Rightarrow> gb1)"

definition night_bytes :: "float_ops \<Rightarrow> data_allocation_policy \<Rightarrow> int \<Rightarrow> int" where
  "night_bytes F p n = go_round (fl F (clamp_gb p (fl F (of_int (min n maxAllocNights) * da_GBPerNight p)) * bytesPerGB))"

lemma quota_Inr:
  "EffectiveDataQuotaBytes F p s = Inr (Some b) \<longleftrightarrow>
   da_Mode p = AllocPerStayNight \<and> (\<exists>n. Option.bind (es_Stay s) Nights = Some n \<and> 0 \<le> n \<and> b = night_bytes F p n \<and> 0 < b \<and> b \<le> maxDataQuotaBytes)"
proof -
  have m: "(if n > maxAllocNights then maxAllocNights else n) = min n maxAllocNights" for n by auto
  show ?thesis unfolding EffectiveDataQuotaBytes_def m Let_def night_bytes_def clamp_gb_def
    by (cases "Option.bind (es_Stay s) Nights") (auto simp del: bind_eq_Some_conv split: if_splits)
qed

definition policy_wf :: "data_allocation_policy \<Rightarrow> bool" where
  "policy_wf p \<longleftrightarrow> 0 \<le> da_GBPerNight p \<and> (\<forall>mx. da_MaxGB p = Some mx \<longrightarrow> da_MinGB p \<le> mx)"

lemma ParseDataAllocationPolicy_wf: "ParseDataAllocationPolicy F raw = Some p \<Longrightarrow> policy_wf p"
  by (auto simp: ParseDataAllocationPolicy_def Let_def policy_wf_def fixed_policy_def split: if_splits option.splits)

lemma clamp_gb_bounds:
  "policy_wf p \<Longrightarrow> da_MinGB p \<le> clamp_gb p x" "da_MaxGB p = Some mx \<Longrightarrow> clamp_gb p x \<le> mx" "x \<le> y \<Longrightarrow> clamp_gb p x \<le> clamp_gb p y"
  by (auto simp: clamp_gb_def policy_wf_def Let_def split: option.splits)

lemma bytes_mono: "mono (fl F) \<Longrightarrow> x \<le> y \<Longrightarrow> go_round (fl F (x * bytesPerGB)) \<le> go_round (fl F (y * bytesPerGB))"
  by (intro go_round_mono) (auto simp: bytesPerGB_def elim!: monoD)

lemma night_bytes_mono:
  assumes "mono (fl F)" and "policy_wf p" and "n \<le> m"
  shows "night_bytes F p n \<le> night_bytes F p m"
proof -
  have "of_int (min n maxAllocNights) \<le> (of_int (min m maxAllocNights) :: rat)" using assms(3) by simp
  then have "of_int (min n maxAllocNights) * da_GBPerNight p \<le> of_int (min m maxAllocNights) * da_GBPerNight p"
    using assms(2) by (intro mult_right_mono) (simp_all add: policy_wf_def)
  then show ?thesis unfolding night_bytes_def
    by (intro bytes_mono [OF assms(1)] clamp_gb_bounds(3) monoD [OF assms(1)])
qed

text \<open>
  The per-night allowance. Under a policy that parses, a frozen allowance is positive and at most
  1 PiB, never below the floor nor above the ceiling the operator set, and a longer stay never gets less;
  without an arrival and a departure nothing is granted at all.
\<close>

theorem stay_allowance_bounded:
  assumes "ParseDataAllocationPolicy F raw = Some p" and "mono (fl F)"
    and "EffectiveDataQuotaBytes F p s = Inr (Some b)" and "EffectiveDataQuotaBytes F p s' = Inr (Some b')"
    and "the (Option.bind (es_Stay s) Nights) \<le> the (Option.bind (es_Stay s') Nights)"
  shows "0 < b \<and> b \<le> maxDataQuotaBytes \<and> b \<le> b' \<and> Option.bind (es_Stay s) Nights \<noteq> None
    \<and> go_round (fl F (da_MinGB p * bytesPerGB)) \<le> b
    \<and> (\<forall>mx. da_MaxGB p = Some mx \<longrightarrow> b \<le> go_round (fl F (mx * bytesPerGB)))"
proof -
  note wf = ParseDataAllocationPolicy_wf [OF assms(1)]
  obtain n where n: "Option.bind (es_Stay s) Nights = Some n" "b = night_bytes F p n" "0 < b" "b \<le> maxDataQuotaBytes"
    using assms(3) unfolding quota_Inr by blast
  obtain m where m: "Option.bind (es_Stay s') Nights = Some m" "b' = night_bytes F p m"
    using assms(4) unfolding quota_Inr by blast
  have "b \<le> b'" using night_bytes_mono [OF assms(2) wf, of n m] assms(5) n(1,2) m by simp
  moreover have "go_round (fl F (da_MinGB p * bytesPerGB)) \<le> b"
    unfolding n(2) night_bytes_def by (rule bytes_mono [OF assms(2) clamp_gb_bounds(1) [OF wf]])
  moreover have "b \<le> go_round (fl F (mx * bytesPerGB))" if "da_MaxGB p = Some mx" for mx
    unfolding n(2) night_bytes_def by (rule bytes_mono [OF assms(2) clamp_gb_bounds(2) [OF that]])
  ultimately show ?thesis using n by simp
qed

definition sample_policy :: jmap where
  "sample_policy = [(''mode'', JStr ''PER_STAY_NIGHT''), (''gb_per_night'', JFloat (1/2)), (''min_gb'', JInt 1), (''max_gb'', JInt 5)]"

definition sample_parsed :: data_allocation_policy where
  "sample_parsed = \<lparr>da_Mode = AllocPerStayNight, da_GBPerNight = 1/2, da_MinGB = 1, da_MaxGB = Some 5\<rparr>"

theorem stay_allowance_bounded_witness:
  "EffectiveDataQuotaBytes sample_floats sample_parsed sample_subject = Inr (Some 1500000000) \<and> (1500000000::int) \<le> maxDataQuotaBytes
   \<and> go_round (fl sample_floats (da_MinGB sample_parsed * bytesPerGB)) \<le> 1500000000"
proof -
  have p: "ParseDataAllocationPolicy sample_floats sample_policy = Some sample_parsed"
    by (simp add: ParseDataAllocationPolicy_def sample_policy_def sample_parsed_def str_or_def AllocFixed_def AllocPerStayNight_def
        alloc_num_def asFloat64_def sample_floats_def)
  have "\<lfloor>3000000001 / 2 :: rat\<rfloor> = 1500000000" by (simp add: floor_eq_iff)
  then have e: "EffectiveDataQuotaBytes sample_floats sample_parsed sample_subject = Inr (Some 1500000000)"
    by (simp add: EffectiveDataQuotaBytes_def sample_parsed_def sample_subject_def sample_stay_def Nights_def time_sub_def
        hour_def minute_def second_def sample_floats_def maxAllocNights_def go_round_def bytesPerGB_def maxDataQuotaBytes_def Let_def)
  have "mono (fl sample_floats)" by (simp add: sample_floats_def mono_def)
  from stay_allowance_bounded [OF p this e e] show ?thesis using e by blast
qed

text \<open>
  The comment on \<open>asFloat64\<close> says that an integer beyond the mantissa of a \<open>float64\<close> is refused. It is taken and
  rounded: the integer reader accepts every 64-bit literal before the string form is looked at.
\<close>

lemma asFloat64_rounds_big_integers:
  "asFloat64 F (JNumber ''9007199254740993'') = Some (fl F 9007199254740993)"
proof -
  have "asInt64 (JNumber ''9007199254740993'') = Some 9007199254740993" by code_simp
  then show ?thesis by (simp add: asFloat64_def)
qed

end
