(* ===== verification/Commerce_Flow.thy ===== *)
theory Commerce_Flow
  imports Commerce_Publish
begin

text \<open>
  Offering and quoting a package to a client who did not sign in with a room (\<open>CreateQuote\<close> of \<open>commerce_flow.go\<close>
  up to its insert, \<open>commerce_list.go\<close>, \<open>acquisition.go\<close>). What a transaction reads is a record of functions that
  may fail; \<open>Commerce_Confirm\<close> puts tables under those the flow writes itself. The lemmas show that the list
  and the quote agree.
\<close>

subsection \<open>Subjects, contexts, packages as read\<close>

record commerce_subject =
  cs_Kind :: string
  cs_VoucherID :: string
  cs_AccountID :: string
  cs_PrincipalID :: string
  cs_AnonymousID :: string
  cs_DeviceID :: string

record auth_context_row =
  ac_ID :: string
  ac_TenantID :: string
  ac_SiteID :: string
  ac_Method :: string
  ac_Subject :: commerce_subject
  ac_DeviceID :: string
  ac_GuestNetworkID :: string
  ac_ExpiresAt :: go_time
  ac_Consumed :: bool
  ac_StayID :: string
  ac_ClientGroupID :: string

record package_revision_row =
  pg_ID :: string
  pg_PackageID :: string
  pg_PlanRevisionID :: string
  pg_PriceMinor :: int
  pg_Currency :: string
  pg_CurrencyExponent :: int
  pg_SettlementMethods :: "string list"
  pg_VisibleFrom :: "go_time option"
  pg_VisibleUntil :: "go_time option"
  pg_PackageActive :: bool
  pg_IsCurrent :: bool
  pg_DurationPolicy :: jmap
  pg_DataAllocationMode :: string

record site_methods =
  sm_PaidAccess :: bool
  sm_Card :: bool
  sm_CardCurrencies :: "string list"
  sm_CardAccepts :: "(string \<Rightarrow> bool) option"

text \<open>The configured engine: flags, quote lifetime, and what the site's modules allow now.\<close>

record commerce_engine =
  en_PortalOn :: bool
  en_ttl :: duration
  en_aggregateOnlineTime :: bool
  en_site :: site_methods

text \<open>The reads of a \<open>CommerceTx\<close> that the flow does not write itself.\<close>

record commerce_reads =
  rd_LoadAuthContext :: "string \<Rightarrow> err_code + auth_context_row"
  rd_ResolveActivePackageRevision :: "string \<Rightarrow> err_code + package_revision_row"
  rd_ListActivePackageRevisions :: "err_code + package_revision_row list"
  rd_LoadPackageRevisionByID :: "string \<Rightarrow> err_code + package_revision_row"
  rd_LoadPlanRevision :: "string \<Rightarrow> err_code + plan_revision_row"
  rd_VoucherPinnedPackageRevision :: "string \<Rightarrow> err_code + string"
  rd_GuestNetworkAncestors :: "string \<Rightarrow> err_code + string list"
  rd_LoadEligibilityRules :: "string \<Rightarrow> err_code + eligibility_rule list"
  rd_LoadGrantTiers :: "string \<Rightarrow> err_code + grant_tier list"
  rd_HasPriorPurchase :: "string \<Rightarrow> commerce_subject \<Rightarrow> prior_purchase_policy \<Rightarrow> err_code + bool"
  rd_EndedByStaff :: "string \<Rightarrow> commerce_subject \<Rightarrow> err_code + bool"

subsection \<open>Methods a client may use\<close>

definition CardApplicable :: "site_methods \<Rightarrow> string \<Rightarrow> bool" where
  "CardApplicable s cur0 =
    (let cur = upper_trim cur0
     in if cur = [] then False
        else if (case sm_CardAccepts s of Some f \<Rightarrow> f cur | None \<Rightarrow> False) then True
        else list_ex (\<lambda>c. EqualFold (TrimSpace c) cur) (sm_CardCurrencies s))"

definition applicableMethods :: "package_revision_row \<Rightarrow> auth_context_row \<Rightarrow> site_methods \<Rightarrow> string list" where
  "applicableMethods pkg ac site =
    (if pg_DataAllocationMode pkg = AllocPerStayNight then []
     else if cs_Kind (ac_Subject ac) = SubjectVoucher then [AcquireVoucher]
     else if \<not> currency_ok (pg_Currency pkg) (pg_CurrencyExponent pkg) then []
     else if pg_PriceMinor pkg = 0 then
       (if hasMethod (pg_SettlementMethods pkg) AcquireFree then [AcquireFree] else [])
     else if \<not> sm_PaidAccess site then []
     else if sm_Card site \<and> hasMethod (pg_SettlementMethods pkg) AcquireCard \<and> CardApplicable site (pg_Currency pkg)
       then [AcquireCard] else [])"

subsection \<open>Requests and outcomes\<close>

record quote_request =
  qr_TenantID :: string
  qr_SiteID :: string
  qr_AuthContextID :: string
  qr_PackageID :: string
  qr_DeviceID :: string
  qr_GuestNetworkID :: string
  qr_Method :: string

datatype 'a outcome = Failed err_code | Denied string | Accepted 'a

text \<open>The auth context must be this client's, not a room guest's, unconsumed and unexpired.\<close>

definition context_gate :: "quote_request \<Rightarrow> auth_context_row \<Rightarrow> go_time \<Rightarrow> string option" where
  "context_gate req ac now =
    (if ac_TenantID ac \<noteq> qr_TenantID req \<or> ac_SiteID ac \<noteq> qr_SiteID req \<or> ac_DeviceID ac \<noteq> qr_DeviceID req
        \<or> ac_GuestNetworkID ac \<noteq> qr_GuestNetworkID req then Some ''auth_context_mismatch''
     else if ac_StayID ac \<noteq> [] then Some ''pms_uses_room_sign_in''
     else if ac_Consumed ac \<or> \<not> ac_ExpiresAt ac > now then Some ''auth_context_unavailable''
     else None)"

definition before_window :: "go_time option \<Rightarrow> go_time \<Rightarrow> bool" where
  "before_window f now = (case f of Some t \<Rightarrow> now < t | None \<Rightarrow> False)"

definition after_window :: "go_time option \<Rightarrow> go_time \<Rightarrow> bool" where
  "after_window u now = (case u of Some t \<Rightarrow> \<not> now < t | None \<Rightarrow> False)"

text \<open>The revision a quote is for: a voucher's pinned one, or the current one of the package named.\<close>

definition quote_package ::
  "commerce_reads \<Rightarrow> quote_request \<Rightarrow> auth_context_row \<Rightarrow> go_time \<Rightarrow> package_revision_row outcome" where
  "quote_package R req ac now =
    (if cs_Kind (ac_Subject ac) = SubjectVoucher then
       (case rd_VoucherPinnedPackageRevision R (cs_VoucherID (ac_Subject ac)) of
          Inl e \<Rightarrow> Failed e
        | Inr pinned \<Rightarrow>
            if pinned = [] then Denied ''voucher_unpinned''
            else case rd_LoadPackageRevisionByID R pinned of
              Inl e \<Rightarrow> Failed e
            | Inr pkg \<Rightarrow>
                if qr_PackageID req \<noteq> [] \<and> qr_PackageID req \<noteq> pg_PackageID pkg then Denied ''voucher_package_mismatch''
                else Accepted pkg)
     else if qr_PackageID req = [] then Failed ErrInvalidInput
     else case rd_ResolveActivePackageRevision R (qr_PackageID req) of
       Inl e \<Rightarrow> Failed e
     | Inr pkg \<Rightarrow>
         if \<not> pg_PackageActive pkg \<or> \<not> pg_IsCurrent pkg then Denied ''package_unavailable''
         else if before_window (pg_VisibleFrom pkg) now then Denied ''not_in_sale_window''
         else if after_window (pg_VisibleUntil pkg) now then Denied ''sale_window_closed''
         else Accepted pkg)"

definition chosen_method :: "string list \<Rightarrow> string \<Rightarrow> string" where
  "chosen_method applicable m = (if m = [] \<and> length applicable = 1 then hd applicable else m)"

definition subject_of :: "auth_context_row \<Rightarrow> go_time \<Rightarrow> string list \<Rightarrow> bool \<Rightarrow> eligibility_subject" where
  "subject_of ac now ancestors prior =
    \<lparr>es_Now = now, es_AuthMethod = ac_Method ac, es_Kind = cs_Kind (ac_Subject ac), es_GuestNetworkID = ac_GuestNetworkID ac,
     es_HasPriorPurchaseOfPackage = prior, es_ClientGroupID = ac_ClientGroupID ac, es_GuestNetworkLineage = ancestors, es_Stay = None\<rparr>"

text \<open>History is read only when the revision has a purchase-history rule.\<close>

definition prior_purchase ::
  "commerce_reads \<Rightarrow> auth_context_row \<Rightarrow> package_revision_row \<Rightarrow> eligibility_rule list \<Rightarrow> err_code + bool" where
  "prior_purchase R ac pkg rules =
    (let pol = ForSubject (PriorPurchasePolicyOf rules (pg_PriceMinor pkg)) (cs_Kind (ac_Subject ac))
     in if pp_Present pol then rd_HasPriorPurchase R (pg_PackageID pkg) (ac_Subject ac) pol else Inr False)"

definition ended_by_staff :: "commerce_reads \<Rightarrow> auth_context_row \<Rightarrow> package_revision_row \<Rightarrow> err_code + bool" where
  "ended_by_staff R ac pkg =
    (if pg_PriceMinor pkg = 0 then rd_EndedByStaff R (pg_ID pkg) (ac_Subject ac) else Inr False)"

text \<open>The window goes into the snapshot as RFC 3339 text, which keeps whole seconds.\<close>

definition format_window :: "go_time \<Rightarrow> go_time" where
  "format_window w = w div second * second"

definition with_end :: "grant_snapshot \<Rightarrow> string \<times> go_time option \<Rightarrow> grant_snapshot" where
  "with_end snap mw = snap\<lparr>gs_EndMode := fst mw, gs_WindowEndsAt := map_option format_window (snd mw)\<rparr>"

record offer_quote_spec =
  oq_AuthContextID :: string
  oq_PackageRevisionID :: string
  oq_PriceMinor :: int
  oq_Currency :: string
  oq_CurrencyExponent :: int
  oq_GrantSnapshot :: grant_snapshot
  oq_ExpiresAt :: go_time

text \<open>From the package on: the second half of \<open>CreateQuote\<close>.\<close>

definition quote_for ::
  "(string \<Rightarrow> go_time option) \<Rightarrow> commerce_engine \<Rightarrow> commerce_reads \<Rightarrow> go_time \<Rightarrow> quote_request \<Rightarrow> auth_context_row
   \<Rightarrow> package_revision_row \<Rightarrow> offer_quote_spec outcome" where
  "quote_for rfc en R now req ac pkg =
    (let applicable = applicableMethods pkg ac (en_site en); meth = chosen_method applicable (qr_Method req)
     in if meth = [] \<or> meth \<notin> set applicable then Denied ''method_not_available''
        else case ValidateCurrency (pg_Currency pkg) (pg_CurrencyExponent pkg) of
          Inl e \<Rightarrow> Denied ''invalid_currency''
        | Inr cur \<Rightarrow>
        (case rd_LoadPlanRevision R (pg_PlanRevisionID pkg) of Inl e \<Rightarrow> Failed e | Inr plan \<Rightarrow>
        (case rd_GuestNetworkAncestors R (ac_GuestNetworkID ac) of Inl e \<Rightarrow> Failed e | Inr ancestors \<Rightarrow>
        (case rd_LoadEligibilityRules R (pg_ID pkg) of Inl e \<Rightarrow> Failed e | Inr rules \<Rightarrow>
        (case prior_purchase R ac pkg rules of Inl e \<Rightarrow> Failed e | Inr prior \<Rightarrow>
        (let subj = subject_of ac now ancestors prior; (ok, why) = EvaluatePackageEligible rfc rules subj
         in if \<not> ok then Denied (''ineligible:'' @ why)
            else case ended_by_staff R ac pkg of Inl e \<Rightarrow> Failed e | Inr ended \<Rightarrow>
              if ended then Denied ''ineligible:ended_by_staff''
              else case rd_LoadGrantTiers R (pg_ID pkg) of Inl e \<Rightarrow> Failed e | Inr tiers \<Rightarrow>
              (case FirstMatchTier rfc tiers subj of None \<Rightarrow> Denied ''no_matching_grant_tier'' | Some tier \<Rightarrow>
              (case BuildGrantSnapshot tier plan (pg_ID pkg) of Inl e \<Rightarrow> Denied ''invalid_grant_config'' | Inr snap \<Rightarrow>
                (let why = TimeModeAcquirable (gs_TimeAccountingMode snap) (en_aggregateOnlineTime en)
                 in if why \<noteq> [] then Denied why
                    else case ResolveEndPolicy rfc (pg_DurationPolicy pkg) now of
                      Inl e \<Rightarrow> Denied ''invalid_duration_policy''
                    | Inr mw \<Rightarrow> Accepted
                        \<lparr>oq_AuthContextID = ac_ID ac, oq_PackageRevisionID = pg_ID pkg, oq_PriceMinor = pg_PriceMinor pkg,
                         oq_Currency = cur, oq_CurrencyExponent = pg_CurrencyExponent pkg,
                         oq_GrantSnapshot = (with_end snap mw)\<lparr>gs_DurationPolicy := pg_DurationPolicy pkg, gs_AcquisitionMethod := meth\<rparr>,
                         oq_ExpiresAt = now + en_ttl en\<rparr>)))))))))"

definition quote_outcome ::
  "(string \<Rightarrow> go_time option) \<Rightarrow> commerce_engine \<Rightarrow> commerce_reads \<Rightarrow> go_time \<Rightarrow> quote_request \<Rightarrow> offer_quote_spec outcome" where
  "quote_outcome rfc en R now req = (case rd_LoadAuthContext R (qr_AuthContextID req) of
      Inl e \<Rightarrow> Failed e
    | Inr ac \<Rightarrow> (case context_gate req ac now of
        Some why \<Rightarrow> Denied why
      | None \<Rightarrow> (case quote_package R req ac now of
          Failed e \<Rightarrow> Failed e
        | Denied why \<Rightarrow> Denied why
        | Accepted pkg \<Rightarrow> quote_for rfc en R now req ac pkg)))"

subsection \<open>The list\<close>

datatype offer = ReadError err_code | NotOffered string | Offered grant_snapshot

definition voucherMayHavePackage :: "commerce_reads \<Rightarrow> auth_context_row \<Rightarrow> package_revision_row \<Rightarrow> err_code + bool" where
  "voucherMayHavePackage R ac pkg =
    (if cs_Kind (ac_Subject ac) \<noteq> SubjectVoucher \<or> cs_VoucherID (ac_Subject ac) = [] then Inr True
     else case rd_VoucherPinnedPackageRevision R (cs_VoucherID (ac_Subject ac)) of
       Inl e \<Rightarrow> Inl e
     | Inr pinned \<Rightarrow> Inr (pinned \<noteq> [] \<and> pinned = pg_ID pkg))"

definition isNotFound :: "err_code \<Rightarrow> bool" where
  "isNotFound e \<longleftrightarrow> e = ErrInvalidInput \<or> e = ErrACNotFound"

definition evalPackageForSubject ::
  "(string \<Rightarrow> go_time option) \<Rightarrow> commerce_reads \<Rightarrow> go_time \<Rightarrow> auth_context_row \<Rightarrow> package_revision_row \<Rightarrow> offer" where
  "evalPackageForSubject rfc R now ac pkg =
    (let isVoucher = (cs_Kind (ac_Subject ac) = SubjectVoucher)
     in if \<not> isVoucher \<and> (\<not> pg_PackageActive pkg \<or> \<not> pg_IsCurrent pkg) then NotOffered []
        else case voucherMayHavePackage R ac pkg of Inl e \<Rightarrow> ReadError e | Inr may \<Rightarrow>
          if \<not> may then NotOffered []
          else if \<not> isVoucher \<and> before_window (pg_VisibleFrom pkg) now then NotOffered []
          else if \<not> isVoucher \<and> after_window (pg_VisibleUntil pkg) now then NotOffered []
          else if \<not> currency_ok (pg_Currency pkg) (pg_CurrencyExponent pkg) then NotOffered []
          else case rd_LoadPlanRevision R (pg_PlanRevisionID pkg) of
            Inl e \<Rightarrow> if isNotFound e then NotOffered [] else ReadError e
          | Inr plan \<Rightarrow>
          (case rd_GuestNetworkAncestors R (ac_GuestNetworkID ac) of Inl e \<Rightarrow> ReadError e | Inr ancestors \<Rightarrow>
          (case rd_LoadEligibilityRules R (pg_ID pkg) of Inl e \<Rightarrow> ReadError e | Inr rules \<Rightarrow>
          (case prior_purchase R ac pkg rules of Inl e \<Rightarrow> ReadError e | Inr prior \<Rightarrow>
          (let subj = subject_of ac now ancestors prior; (ok, why) = EvaluatePackageEligible rfc rules subj
           in if \<not> ok then NotOffered why
              else case ended_by_staff R ac pkg of Inl e \<Rightarrow> ReadError e | Inr ended \<Rightarrow>
                if ended then NotOffered ''ended_by_staff''
                else case rd_LoadGrantTiers R (pg_ID pkg) of Inl e \<Rightarrow> ReadError e | Inr tiers \<Rightarrow>
                (case FirstMatchTier rfc tiers subj of None \<Rightarrow> NotOffered [] | Some tier \<Rightarrow>
                (case BuildGrantSnapshot tier plan (pg_ID pkg) of Inl e \<Rightarrow> NotOffered [] | Inr snap \<Rightarrow>
                (case ResolveEndPolicy rfc (pg_DurationPolicy pkg) now of
                   Inl e \<Rightarrow> NotOffered []
                 | Inr mw \<Rightarrow> Offered (with_end snap mw)))))))))"

record list_item =
  li_PackageID :: string
  li_Snapshot :: grant_snapshot
  li_Methods :: "string list"
  li_PriceMinor :: int
  li_Currency :: string
  li_CurrencyExponent :: int

text \<open>The loop over the packages: a read error ends it, an exclusion is silent except for a free allowance already used.\<close>

fun list_items ::
  "(string \<Rightarrow> go_time option) \<Rightarrow> commerce_engine \<Rightarrow> commerce_reads \<Rightarrow> go_time \<Rightarrow> auth_context_row \<Rightarrow> package_revision_row list
   \<Rightarrow> err_code + (list_item list \<times> bool)" where
  "list_items rfc en R now ac [] = Inr ([], False)"
| "list_items rfc en R now ac (pkg # pkgs) = (case evalPackageForSubject rfc R now ac pkg of
      ReadError e \<Rightarrow> Inl e
    | NotOffered why \<Rightarrow> (case list_items rfc en R now ac pkgs of
        Inl e \<Rightarrow> Inl e
      | Inr (items, used) \<Rightarrow> Inr (items, used \<or> (why = ''forbids_prior_purchase'' \<and> pg_PriceMinor pkg = 0)))
    | Offered snap \<Rightarrow> (case list_items rfc en R now ac pkgs of
        Inl e \<Rightarrow> Inl e
      | Inr (items, used) \<Rightarrow>
          let methods = applicableMethods pkg ac (en_site en)
          in Inr ((if methods = [] then items
                   else \<lparr>li_PackageID = pg_PackageID pkg, li_Snapshot = snap, li_Methods = methods, li_PriceMinor = pg_PriceMinor pkg,
                         li_Currency = pg_Currency pkg, li_CurrencyExponent = pg_CurrencyExponent pkg\<rparr> # items), used)))"

definition listed_packages :: "commerce_reads \<Rightarrow> auth_context_row \<Rightarrow> err_code + package_revision_row list" where
  "listed_packages R ac =
    (if cs_Kind (ac_Subject ac) = SubjectVoucher then
       (case rd_VoucherPinnedPackageRevision R (cs_VoucherID (ac_Subject ac)) of
          Inl e \<Rightarrow> Inl e
        | Inr pinned \<Rightarrow>
            if pinned = [] then Inr []
            else case rd_LoadPackageRevisionByID R pinned of
              Inl e \<Rightarrow> if isNotFound e then Inr [] else Inl e
            | Inr pkg \<Rightarrow> Inr [pkg])
     else rd_ListActivePackageRevisions R)"

definition ListEligiblePackages ::
  "(string \<Rightarrow> go_time option) \<Rightarrow> commerce_engine \<Rightarrow> commerce_reads \<Rightarrow> go_time \<Rightarrow> quote_request \<Rightarrow> (list_item list \<times> bool) outcome" where
  "ListEligiblePackages rfc en R now req =
    (if \<not> en_PortalOn en then Denied ''phase2_disabled''
     else if qr_TenantID req = [] \<or> qr_SiteID req = [] \<or> qr_AuthContextID req = [] \<or> qr_DeviceID req = [] \<or> qr_GuestNetworkID req = []
       then Failed ErrInvalidInput
     else case rd_LoadAuthContext R (qr_AuthContextID req) of
       Inl e \<Rightarrow> Failed ErrRepo
     | Inr ac \<Rightarrow> (case context_gate req ac now of
         Some why \<Rightarrow> Denied why
       | None \<Rightarrow> (case listed_packages R ac of
           Inl e \<Rightarrow> Failed ErrRepo
         | Inr pkgs \<Rightarrow> (case list_items rfc en R now ac pkgs of Inl e \<Rightarrow> Failed ErrRepo | Inr r \<Rightarrow> Accepted r))))"

subsection \<open>The list and the quote agree\<close>

text \<open>What both paths compute once their own gates are passed.\<close>

definition grant_of ::
  "(string \<Rightarrow> go_time option) \<Rightarrow> commerce_reads \<Rightarrow> go_time \<Rightarrow> auth_context_row \<Rightarrow> package_revision_row \<Rightarrow> grant_snapshot option" where
  "grant_of rfc R now ac pkg =
    (case (rd_LoadPlanRevision R (pg_PlanRevisionID pkg), rd_GuestNetworkAncestors R (ac_GuestNetworkID ac),
           rd_LoadEligibilityRules R (pg_ID pkg), ended_by_staff R ac pkg, rd_LoadGrantTiers R (pg_ID pkg),
           ResolveEndPolicy rfc (pg_DurationPolicy pkg) now) of
       (Inr plan, Inr ancestors, Inr rules, Inr False, Inr tiers, Inr mw) \<Rightarrow>
         (case prior_purchase R ac pkg rules of
            Inr prior \<Rightarrow>
              if fst (EvaluatePackageEligible rfc rules (subject_of ac now ancestors prior))
              then (case FirstMatchTier rfc tiers (subject_of ac now ancestors prior) of
                      Some tier \<Rightarrow> (case BuildGrantSnapshot tier plan (pg_ID pkg) of Inr snap \<Rightarrow> Some (with_end snap mw) | Inl e \<Rightarrow> None)
                    | None \<Rightarrow> None)
              else None
          | Inl e \<Rightarrow> None)
     | _ \<Rightarrow> None)"

definition offer_gates :: "commerce_reads \<Rightarrow> go_time \<Rightarrow> auth_context_row \<Rightarrow> package_revision_row \<Rightarrow> bool" where
  "offer_gates R now ac pkg \<longleftrightarrow>
    (cs_Kind (ac_Subject ac) \<noteq> SubjectVoucher \<longrightarrow> pg_PackageActive pkg \<and> pg_IsCurrent pkg
       \<and> \<not> before_window (pg_VisibleFrom pkg) now \<and> \<not> after_window (pg_VisibleUntil pkg) now)
    \<and> voucherMayHavePackage R ac pkg = Inr True \<and> currency_ok (pg_Currency pkg) (pg_CurrencyExponent pkg)"

lemma evalPackage_offered:
  "evalPackageForSubject rfc R now ac pkg = Offered g \<longleftrightarrow> offer_gates R now ac pkg \<and> grant_of rfc R now ac pkg = Some g"
  unfolding evalPackageForSubject_def offer_gates_def grant_of_def
  by (auto simp: Let_def split: sum.splits option.splits prod.splits if_splits bool.splits)

lemma with_end_mode [simp]: "gs_TimeAccountingMode (with_end snap mw) = gs_TimeAccountingMode snap"
  by (simp add: with_end_def)

definition quote_of ::
  "commerce_engine \<Rightarrow> go_time \<Rightarrow> quote_request \<Rightarrow> auth_context_row \<Rightarrow> package_revision_row \<Rightarrow> string \<Rightarrow> grant_snapshot \<Rightarrow> offer_quote_spec" where
  "quote_of en now req ac pkg cur g =
    \<lparr>oq_AuthContextID = ac_ID ac, oq_PackageRevisionID = pg_ID pkg, oq_PriceMinor = pg_PriceMinor pkg, oq_Currency = cur,
     oq_CurrencyExponent = pg_CurrencyExponent pkg,
     oq_GrantSnapshot = g\<lparr>gs_DurationPolicy := pg_DurationPolicy pkg,
       gs_AcquisitionMethod := chosen_method (applicableMethods pkg ac (en_site en)) (qr_Method req)\<rparr>,
     oq_ExpiresAt = now + en_ttl en\<rparr>"

lemma quote_for_accepted:
  "quote_for rfc en R now req ac pkg = Accepted q \<longleftrightarrow>
   (let m = chosen_method (applicableMethods pkg ac (en_site en)) (qr_Method req)
    in m \<noteq> [] \<and> m \<in> set (applicableMethods pkg ac (en_site en)))
   \<and> (\<exists>cur g. ValidateCurrency (pg_Currency pkg) (pg_CurrencyExponent pkg) = Inr cur \<and> grant_of rfc R now ac pkg = Some g
        \<and> TimeModeAcquirable (gs_TimeAccountingMode g) (en_aggregateOnlineTime en) = [] \<and> q = quote_of en now req ac pkg cur g)"
  unfolding quote_for_def grant_of_def quote_of_def
  by (auto simp: Let_def split: sum.splits option.splits prod.splits if_splits bool.splits)

text \<open>The revision a request names, whatever its state.\<close>

definition names_package :: "commerce_reads \<Rightarrow> quote_request \<Rightarrow> auth_context_row \<Rightarrow> package_revision_row \<Rightarrow> bool" where
  "names_package R req ac pkg =
    (if cs_Kind (ac_Subject ac) = SubjectVoucher then
       pg_ID pkg \<noteq> [] \<and> rd_VoucherPinnedPackageRevision R (cs_VoucherID (ac_Subject ac)) = Inr (pg_ID pkg)
       \<and> rd_LoadPackageRevisionByID R (pg_ID pkg) = Inr pkg \<and> (qr_PackageID req = [] \<or> qr_PackageID req = pg_PackageID pkg)
     else qr_PackageID req \<noteq> [] \<and> rd_ResolveActivePackageRevision R (qr_PackageID req) = Inr pkg)"

definition item_of :: "commerce_engine \<Rightarrow> auth_context_row \<Rightarrow> package_revision_row \<Rightarrow> grant_snapshot \<Rightarrow> list_item" where
  "item_of en ac pkg g = \<lparr>li_PackageID = pg_PackageID pkg, li_Snapshot = g, li_Methods = applicableMethods pkg ac (en_site en),
     li_PriceMinor = pg_PriceMinor pkg, li_Currency = pg_Currency pkg, li_CurrencyExponent = pg_CurrencyExponent pkg\<rparr>"

lemma list_items_mem:
  "list_items rfc en R now ac pkgs = Inr (items, used) \<Longrightarrow>
   set items = {item_of en ac pkg g | pkg g. pkg \<in> set pkgs \<and> evalPackageForSubject rfc R now ac pkg = Offered g
                  \<and> applicableMethods pkg ac (en_site en) \<noteq> []}"
proof (induction pkgs arbitrary: items used)
  case (Cons pkg pkgs)
  show ?case
  proof (cases "evalPackageForSubject rfc R now ac pkg")
    case (ReadError e)
    with Cons.prems show ?thesis by simp
  next
    case (NotOffered why)
    with Cons.prems obtain u where "list_items rfc en R now ac pkgs = Inr (items, u)"
      by (auto split: sum.splits prod.splits)
    from Cons.IH [OF this] NotOffered show ?thesis by auto
  next
    case (Offered g)
    with Cons.prems obtain its u where its: "list_items rfc en R now ac pkgs = Inr (its, u)"
        and "items = (if applicableMethods pkg ac (en_site en) = [] then its else item_of en ac pkg g # its)"
      by (auto simp: item_of_def Let_def split: sum.splits prod.splits if_splits)
    with Cons.IH [OF its] Offered show ?thesis by auto
  qed
qed simp

lemma applicableMethods_ne: "m \<in> set (applicableMethods pkg ac site) \<Longrightarrow> m \<noteq> []"
  by (auto simp: applicableMethods_def acquire_defs split: if_splits)

lemma named_gates:
  assumes "names_package R req ac pkg"
  shows "quote_package R req ac now = Accepted pkg \<and> currency_ok (pg_Currency pkg) (pg_CurrencyExponent pkg) \<longleftrightarrow> offer_gates R now ac pkg"
proof (cases "cs_Kind (ac_Subject ac) = SubjectVoucher")
  case True
  then show ?thesis using assms
    by (auto simp: names_package_def quote_package_def offer_gates_def voucherMayHavePackage_def split: if_splits)
next
  case False
  then show ?thesis using assms
    by (auto simp: names_package_def quote_package_def offer_gates_def voucherMayHavePackage_def split: if_splits)
qed

lemma quote_package_named: "names_package R req ac pkg \<Longrightarrow> quote_package R req ac now = Accepted pkg' \<Longrightarrow> pkg' = pkg"
  by (auto simp: names_package_def quote_package_def split: if_splits)

lemma currency_ok_Inr: "currency_ok c e \<longleftrightarrow> (\<exists>d. ValidateCurrency c e = Inr d)"
  by (auto simp: currency_ok_def split: sum.splits)

text \<open>
  C35: The list and the quote agree. On the same reads, a quote for a package succeeds exactly when the list's
  evaluation offers it, the method is one the list shows for it and the plan's time mode can be acquired; the
  quote then carries the very snapshot the list evaluated, with the method. So a quote never passes what
  the list withheld, and the one reason a listed method is still refused is the time mode.
\<close>

theorem list_and_quote_agree:
  assumes "rd_LoadAuthContext R (qr_AuthContextID req) = Inr ac" and "context_gate req ac now = None"
    and named: "names_package R req ac pkg"
  shows "quote_outcome rfc en R now req = Accepted q \<longleftrightarrow>
    (\<exists>g cur. evalPackageForSubject rfc R now ac pkg = Offered g
       \<and> chosen_method (li_Methods (item_of en ac pkg g)) (qr_Method req) \<in> set (li_Methods (item_of en ac pkg g))
       \<and> TimeModeAcquirable (gs_TimeAccountingMode g) (en_aggregateOnlineTime en) = []
       \<and> ValidateCurrency (pg_Currency pkg) (pg_CurrencyExponent pkg) = Inr cur \<and> q = quote_of en now req ac pkg cur g)"
proof -
  have "quote_outcome rfc en R now req = Accepted q \<longleftrightarrow>
      quote_package R req ac now = Accepted pkg \<and> quote_for rfc en R now req ac pkg = Accepted q"
    using assms(1,2) quote_package_named [OF named]
    by (auto simp: quote_outcome_def split: outcome.splits)
  also have "\<dots> \<longleftrightarrow> offer_gates R now ac pkg \<and> quote_for rfc en R now req ac pkg = Accepted q"
    using named_gates [OF named, of now] by (auto simp: quote_for_accepted currency_ok_Inr)
  finally show ?thesis
    using applicableMethods_ne by (auto simp: evalPackage_offered quote_for_accepted item_of_def Let_def)
qed

lemma listed_item:
  assumes "ListEligiblePackages rfc en R now req = Accepted (items, used)" and "rd_LoadAuthContext R (qr_AuthContextID req) = Inr ac"
    and "listed_packages R ac = Inr pkgs"
  shows "set items = {item_of en ac pkg g | pkg g. pkg \<in> set pkgs \<and> evalPackageForSubject rfc R now ac pkg = Offered g
                  \<and> applicableMethods pkg ac (en_site en) \<noteq> []}"
proof (rule list_items_mem)
  show "list_items rfc en R now ac pkgs = Inr (items, used)"
    using assms by (auto simp: ListEligiblePackages_def split: if_splits option.splits sum.splits)
qed

text \<open>
  A tier may ask about the purchase history, but history is read only when the revision also carries a
  purchase-history rule: without one the tier is evaluated as if the client never bought the package.
\<close>

lemma tier_history_unread:
  assumes "\<forall>r \<in> set rules. rule_type_of (er_Type r) \<noteq> Some RulePriorPurchase"
  shows "prior_purchase R ac pkg rules = Inr False"
proof -
  have "first_of P xs = None \<longleftrightarrow> (\<forall>u \<in> set xs. \<not> P u)" for P and xs :: "eligibility_rule list"
    by (induction xs) auto
  then have "first_of (\<lambda>r. rule_type_of (er_Type r) = Some RulePriorPurchase) rules = None" using assms by blast
  then show ?thesis by (simp add: prior_purchase_def PriorPurchasePolicyOf_def ForSubject_def)
qed

definition sample_client :: commerce_subject where
  "sample_client = \<lparr>cs_Kind = SubjectAccount, cs_VoucherID = [], cs_AccountID = ''a1'', cs_PrincipalID = [], cs_AnonymousID = [], cs_DeviceID = ''d1''\<rparr>"

definition sample_context :: "string \<Rightarrow> auth_context_row" where
  "sample_context i = \<lparr>ac_ID = i, ac_TenantID = ''t'', ac_SiteID = ''s'', ac_Method = ''ACCOUNT'', ac_Subject = sample_client,
     ac_DeviceID = ''d1'', ac_GuestNetworkID = ''n1'', ac_ExpiresAt = 60 * minute, ac_Consumed = False, ac_StayID = [], ac_ClientGroupID = []\<rparr>"

definition sample_package :: package_revision_row where
  "sample_package = \<lparr>pg_ID = ''r1'', pg_PackageID = ''pk'', pg_PlanRevisionID = ''v1'', pg_PriceMinor = 0, pg_Currency = ''USD'',
     pg_CurrencyExponent = 2, pg_SettlementMethods = [AcquireFree], pg_VisibleFrom = None, pg_VisibleUntil = None,
     pg_PackageActive = True, pg_IsCurrent = True, pg_DurationPolicy = [(''end_mode'', JStr ''MANUAL_END'')], pg_DataAllocationMode = AllocFixed\<rparr>"

definition sample_plan :: "string \<Rightarrow> plan_revision_row" where
  "sample_plan mode = \<lparr>pr_ID = ''v1'', pr_DownKbps = 5000, pr_UpKbps = 1000, pr_MaxConcurrentDevices = 2, pr_TimeQuotaSeconds = 3600,
     pr_DataQuotaBytes = 0, pr_TimeAccountingMode = mode\<rparr>"

definition once_rule :: eligibility_rule where
  "once_rule = \<lparr>er_Type = ''PRIOR_PURCHASE'', er_Value = Some [(''forbids_prior'', JBool True)]\<rparr>"

definition sample_reads :: "string \<Rightarrow> commerce_reads" where
  "sample_reads mode = \<lparr>rd_LoadAuthContext = (\<lambda>i. Inr (sample_context i)),
     rd_ResolveActivePackageRevision = (\<lambda>_. Inr sample_package), rd_ListActivePackageRevisions = Inr [sample_package],
     rd_LoadPackageRevisionByID = (\<lambda>_. Inr sample_package), rd_LoadPlanRevision = (\<lambda>_. Inr (sample_plan mode)),
     rd_VoucherPinnedPackageRevision = (\<lambda>_. Inr []), rd_GuestNetworkAncestors = (\<lambda>_. Inr []),
     rd_LoadEligibilityRules = (\<lambda>_. Inr [once_rule]), rd_LoadGrantTiers = (\<lambda>_. Inr [\<lparr>gt_Order = 0, gt_Value = []\<rparr>]),
     rd_HasPriorPurchase = (\<lambda>_ _ _. Inr False), rd_EndedByStaff = (\<lambda>_ _. Inr False)\<rparr>"

definition sample_engine :: commerce_engine where
  "sample_engine = \<lparr>en_PortalOn = True, en_ttl = 5 * minute, en_aggregateOnlineTime = False,
     en_site = \<lparr>sm_PaidAccess = False, sm_Card = False, sm_CardCurrencies = [], sm_CardAccepts = None\<rparr>\<rparr>"

definition sample_request :: quote_request where
  "sample_request = \<lparr>qr_TenantID = ''t'', qr_SiteID = ''s'', qr_AuthContextID = ''c1'', qr_PackageID = ''pk'', qr_DeviceID = ''d1'',
     qr_GuestNetworkID = ''n1'', qr_Method = []\<rparr>"

definition sample_grant :: "string \<Rightarrow> grant_snapshot" where
  "sample_grant mode = \<lparr>gs_Version = 1, gs_ServicePlanRevisionID = ''v1'', gs_PackageRevisionID = ''r1'', gs_GrantTierOrder = 0,
     gs_DownKbps = 5000, gs_UpKbps = 1000, gs_MaxConcurrentDevices = 2, gs_DeviceLimitPolicy = ''REJECT_NEW_DEVICE'',
     gs_IdleTimeoutSeconds = 0, gs_MaxContinuousSessionSeconds = 0, gs_TimeQuotaSeconds = 3600, gs_DataQuotaBytes = 0,
     gs_TimeAccountingMode = mode, gs_EndMode = ''MANUAL_END'', gs_WindowEndsAt = None, gs_DurationPolicy = [],
     gs_AcquisitionMethod = [], gs_FrozenDataQuotaBytes = 0\<rparr>"

lemma sample_offered:
  "evalPackageForSubject (\<lambda>_. None) (sample_reads ''VALIDITY_WINDOW'') 0 (sample_context ''c1'') sample_package = Offered (sample_grant ''VALIDITY_WINDOW'')"
  "evalPackageForSubject (\<lambda>_. None) (sample_reads ''AGGREGATE_ONLINE_TIME'') 0 (sample_context ''c1'') sample_package = Offered (sample_grant ''AGGREGATE_ONLINE_TIME'')"
  by code_simp+

lemma sample_context_read: "rd_LoadAuthContext (sample_reads mode) (qr_AuthContextID sample_request) = Inr (sample_context ''c1'')"
  by (simp add: sample_reads_def sample_request_def)

lemma sample_context_passes: "context_gate sample_request (sample_context ''c1'') 0 = None"
  by code_simp

lemma sample_named: "names_package (sample_reads mode) sample_request (sample_context ''c1'') sample_package"
  by (simp add: names_package_def sample_reads_def sample_request_def sample_context_def sample_client_def SubjectAccount_def SubjectVoucher_def)

lemma sample_methods: "applicableMethods sample_package (sample_context ''c1'') (en_site sample_engine) = [AcquireFree]"
  by code_simp

lemma sample_modes:
  "TimeModeAcquirable ''VALIDITY_WINDOW'' False = []" "TimeModeAcquirable ''AGGREGATE_ONLINE_TIME'' False \<noteq> []"
  by code_simp+

lemma sample_fields:
  "pg_Currency sample_package = ''USD''" "pg_CurrencyExponent sample_package = 2" "en_aggregateOnlineTime sample_engine = False"
  "qr_Method sample_request = []" "gs_TimeAccountingMode (sample_grant mode) = mode"
  by (simp_all add: sample_package_def sample_engine_def sample_request_def sample_grant_def)

theorem list_and_quote_agree_witness:
  "(\<exists>q. quote_outcome (\<lambda>_. None) sample_engine (sample_reads ''VALIDITY_WINDOW'') 0 sample_request = Accepted q)
   \<and> \<not> (\<exists>q. quote_outcome (\<lambda>_. None) sample_engine (sample_reads ''AGGREGATE_ONLINE_TIME'') 0 sample_request = Accepted q)"
proof -
  have cur: "ValidateCurrency ''USD'' 2 = Inr ''USD''" by code_simp
  show ?thesis
    unfolding list_and_quote_agree [OF sample_context_read sample_context_passes sample_named]
    using sample_offered sample_modes cur
    by (simp add: item_of_def sample_methods chosen_method_def sample_fields)
qed

text \<open>The list shows a package of an online-time plan on a runtime that cannot account for one; its quote is then refused.\<close>

lemma listed_but_unquotable:
  "ListEligiblePackages (\<lambda>_. None) sample_engine (sample_reads ''AGGREGATE_ONLINE_TIME'') 0 sample_request
     = Accepted ([item_of sample_engine (sample_context ''c1'') sample_package (sample_grant ''AGGREGATE_ONLINE_TIME'')], False)
   \<and> quote_outcome (\<lambda>_. None) sample_engine (sample_reads ''AGGREGATE_ONLINE_TIME'') 0 sample_request
     = Denied ''aggregate_online_time_not_enabled''"
proof
  show "ListEligiblePackages (\<lambda>_. None) sample_engine (sample_reads ''AGGREGATE_ONLINE_TIME'') 0 sample_request
     = Accepted ([item_of sample_engine (sample_context ''c1'') sample_package (sample_grant ''AGGREGATE_ONLINE_TIME'')], False)"
    by code_simp
  show "quote_outcome (\<lambda>_. None) sample_engine (sample_reads ''AGGREGATE_ONLINE_TIME'') 0 sample_request
     = Denied ''aggregate_online_time_not_enabled''"
    by code_simp
qed

end
