(* ===== verification/Commerce_Confirm.thy ===== *)
theory Commerce_Confirm
  imports Commerce_Flow
begin

text \<open>
  Confirming a quote (\<open>ConfirmPurchase\<close> of \<open>commerce_flow.go\<close>) over the tables it writes, with the grant functions
  of the schema (\<open>migrations/baseline/0000_production_baseline.sql\<close>: \<open>p4_grant_quoted_entitlement\<close>,
  \<open>p4_grant_voucher_entitlement\<close>, \<open>p4_entitlement_grant_kernel_v2\<close>). Quotes, confirms, sign-ins, vouchers and the
  ends of entitlements interleave freely; each is one transaction. An exception of a grant function, a failing
  statement or a failing commit rolls everything back. The lemmas show what the tables of a shop can never
  contain.
\<close>

subsection \<open>Tables\<close>

record offer_quote_row = offer_quote_spec +
  oq_Consumed :: bool
  oq_PMSInterfaceID :: "string option"
  oq_SettlementMappingID :: "string option"
  oq_TaxCode :: "string option"
  oq_TaxRateBP :: "int option"
  oq_TaxAmountMinor :: "int option"

record voucher_row =
  vo_Package :: string
  vo_State :: string
  vo_From :: "go_time option"
  vo_Until :: "go_time option"

record purchase_row =
  pu_ID :: string
  pu_Quote :: string
  pu_Context :: string
  pu_Package :: string
  pu_Trigger :: string
  pu_Amount :: int
  pu_Currency :: string
  pu_State :: string

record settlement_row =
  st_Purchase :: string
  st_Method :: string
  st_Status :: string

text \<open>The subject columns of a row, of which exactly one is set, as the kind and the id.\<close>

type_synonym subject_key = "string \<times> string"

record entitlement_row =
  ent_ID :: string
  ent_Purchase :: string
  ent_Subject :: subject_key
  ent_Snapshot :: grant_snapshot
  ent_Package :: string
  ent_Status :: string
  ent_Supersedes :: "string option"
  ent_ActivatedAt :: go_time

record shop =
  sh_contexts :: "string \<Rightarrow> auth_context_row option"
  sh_vouchers :: "string \<Rightarrow> voucher_row option"
  sh_quotes :: "string \<Rightarrow> offer_quote_row option"
  sh_purchases :: "purchase_row list"
  sh_settlements :: "settlement_row list"
  sh_entitlements :: "entitlement_row list"

definition empty_shop :: shop where
  "empty_shop = \<lparr>sh_contexts = (\<lambda>_. None), sh_vouchers = (\<lambda>_. None), sh_quotes = (\<lambda>_. None), sh_purchases = [],
     sh_settlements = [], sh_entitlements = []\<rparr>"

definition subject_col :: "commerce_subject \<Rightarrow> subject_key option" where
  "subject_col s =
    (if cs_Kind s = SubjectVoucher then Some (SubjectVoucher, cs_VoucherID s)
     else if cs_Kind s = SubjectAccount then Some (SubjectAccount, cs_AccountID s)
     else if cs_Kind s = SubjectPrincipal then Some (SubjectPrincipal, cs_PrincipalID s)
     else if cs_Kind s = SubjectAnonymous then Some (SubjectAnonymous, cs_AnonymousID s)
     else None)"

definition subjectID :: "commerce_subject \<Rightarrow> string \<times> bool" where
  "subjectID s =
    (if cs_Kind s = SubjectVoucher then (cs_VoucherID s, cs_VoucherID s \<noteq> [] \<and> cs_AccountID s = [] \<and> cs_PrincipalID s = [])
     else if cs_Kind s = SubjectAccount then (cs_AccountID s, cs_AccountID s \<noteq> [] \<and> cs_VoucherID s = [] \<and> cs_PrincipalID s = [])
     else if cs_Kind s = SubjectPrincipal then (cs_PrincipalID s, cs_PrincipalID s \<noteq> [] \<and> cs_VoucherID s = [] \<and> cs_AccountID s = [])
     else if cs_Kind s = SubjectAnonymous then
       (cs_AnonymousID s, cs_AnonymousID s \<noteq> [] \<and> cs_VoucherID s = [] \<and> cs_AccountID s = [] \<and> cs_PrincipalID s = [])
     else ([], False))"

subsection \<open>Checks of a locked quote\<close>

definition snapshot_usable :: "offer_quote_row \<Rightarrow> bool" where
  "snapshot_usable q \<longleftrightarrow> gs_Version (oq_GrantSnapshot q) = GrantSnapshotVersion \<and> gs_ServicePlanRevisionID (oq_GrantSnapshot q) \<noteq> []"

definition nonzero :: "int option \<Rightarrow> bool" where
  "nonzero x = (case x of Some n \<Rightarrow> n \<noteq> 0 | None \<Rightarrow> False)"

definition revalidateFreeQuote :: "offer_quote_row \<Rightarrow> string" where
  "revalidateFreeQuote q =
    (if oq_PriceMinor q \<noteq> 0 then ''quote_not_free''
     else if \<not> currency_ok (oq_Currency q) (oq_CurrencyExponent q) then ''quote_bad_currency''
     else if oq_PMSInterfaceID q \<noteq> None \<or> oq_SettlementMappingID q \<noteq> None then ''quote_has_pms_settlement''
     else if oq_TaxCode q \<noteq> None \<or> nonzero (oq_TaxRateBP q) \<or> nonzero (oq_TaxAmountMinor q) then ''quote_has_tax''
     else if \<not> snapshot_usable q then ''quote_bad_snapshot''
     else [])"

definition revalidateQuote :: "offer_quote_row \<Rightarrow> string \<Rightarrow> site_methods \<Rightarrow> string" where
  "revalidateQuote q meth site =
    (if meth = AcquireFree then revalidateFreeQuote q
     else let why =
         (if meth = AcquireVoucher then
            (if oq_PMSInterfaceID q \<noteq> None \<or> oq_SettlementMappingID q \<noteq> None then ''quote_has_pms_settlement'' else [])
          else if meth = AcquireCard then
            (if \<not> sm_PaidAccess site \<or> \<not> sm_Card site then ''method_not_available''
             else if oq_PriceMinor q \<le> 0 then ''quote_not_priced''
             else if oq_PMSInterfaceID q \<noteq> None \<or> oq_SettlementMappingID q \<noteq> None then ''quote_has_pms_settlement''
             else if \<not> CardApplicable site (oq_Currency q) then ''card_currency_not_accepted''
             else [])
          else ''method_not_available'')
     in if why \<noteq> [] then why
        else if \<not> currency_ok (oq_Currency q) (oq_CurrencyExponent q) then ''quote_bad_currency''
        else if \<not> snapshot_usable q then ''quote_bad_snapshot''
        else [])"

subsection \<open>Granting\<close>

definition is_live :: "entitlement_row \<Rightarrow> bool" where
  "is_live e \<longleftrightarrow> ent_Status e \<in> {''PENDING'', ''ACTIVE'', ''SUSPENDED''}"

text \<open>The live entitlement a new one supersedes: the latest activated, the lowest id among equals.\<close>

definition superseded_by :: "shop \<Rightarrow> subject_key \<Rightarrow> string option" where
  "superseded_by sh k =
    (case sort_key (\<lambda>e. - ent_ActivatedAt e) (sort_key ent_ID (filter (\<lambda>e. is_live e \<and> ent_Subject e = k) (sh_entitlements sh))) of
       [] \<Rightarrow> None
     | e # _ \<Rightarrow> Some (ent_ID e))"

definition set_status :: "string \<Rightarrow> string \<Rightarrow> entitlement_row list \<Rightarrow> entitlement_row list" where
  "set_status i status es = map (\<lambda>e. if ent_ID e = i then e\<lparr>ent_Status := status\<rparr> else e) es"

definition redeemable :: "voucher_row \<Rightarrow> go_time \<Rightarrow> bool" where
  "redeemable v now \<longleftrightarrow> vo_State v = ''UNUSED'' \<and> (case vo_From v of Some t \<Rightarrow> t \<le> now | None \<Rightarrow> True)
     \<and> (case vo_Until v of Some t \<Rightarrow> t > now | None \<Rightarrow> True)"

definition set_purchase_state :: "string \<Rightarrow> string \<Rightarrow> purchase_row list \<Rightarrow> purchase_row list" where
  "set_purchase_state i st ps = map (\<lambda>p. if pu_ID p = i then p\<lparr>pu_State := st\<rparr> else p) ps"

text \<open>\<open>p4_entitlement_grant_kernel_v2\<close>; \<open>None\<close> is an exception.\<close>

definition grant_kernel :: "shop \<Rightarrow> go_time \<Rightarrow> string \<Rightarrow> purchase_row \<Rightarrow> subject_key \<Rightarrow> grant_snapshot \<Rightarrow> shop option" where
  "grant_kernel sh now eid pu k snap =
    (if gs_ServicePlanRevisionID snap = [] then None
     else if fst k = SubjectVoucher
        \<and> (case sh_vouchers sh (snd k) of None \<Rightarrow> True | Some v \<Rightarrow> vo_Package v \<noteq> pu_Package pu) then None
     else if list_ex (\<lambda>e. ent_Purchase e = pu_ID pu) (sh_entitlements sh) then Some sh
     else if eid \<in> set (map ent_ID (sh_entitlements sh)) then None
     else let sup = superseded_by sh k;
              es = (case sup of Some i \<Rightarrow> set_status i ''TERMINATED'' (sh_entitlements sh) | None \<Rightarrow> sh_entitlements sh);
              new = \<lparr>ent_ID = eid, ent_Purchase = pu_ID pu, ent_Subject = k, ent_Snapshot = snap, ent_Package = pu_Package pu,
                     ent_Status = ''ACTIVE'', ent_Supersedes = sup, ent_ActivatedAt = now\<rparr>
          in if pu_State pu \<notin> {''PENDING'', ''AWAITING_SETTLEMENT'', ''MANUAL_REVIEW''} then None
             else if fst k = SubjectVoucher then
               (case sh_vouchers sh (snd k) of
                  None \<Rightarrow> None
                | Some v \<Rightarrow>
                    if \<not> redeemable v now then None
                    else Some (sh\<lparr>sh_entitlements := es @ [new], sh_vouchers := (sh_vouchers sh)(snd k \<mapsto> v\<lparr>vo_State := ''REDEEMED''\<rparr>),
                                  sh_purchases := set_purchase_state (pu_ID pu) ''GRANTED'' (sh_purchases sh)\<rparr>))
             else Some (sh\<lparr>sh_entitlements := es @ [new],
                           sh_purchases := set_purchase_state (pu_ID pu) ''GRANTED'' (sh_purchases sh)\<rparr>))"

definition settlement_is :: "shop \<Rightarrow> string \<Rightarrow> string \<Rightarrow> string \<Rightarrow> bool" where
  "settlement_is sh pid meth status \<longleftrightarrow>
    (case first_of (\<lambda>s. st_Purchase s = pid) (sh_settlements sh) of
       None \<Rightarrow> False | Some s \<Rightarrow> st_Method s = meth \<and> st_Status s = status)"

text \<open>The free grant: no settlement required, a quote without a price.\<close>

definition p4_grant_quoted_entitlement :: "shop \<Rightarrow> go_time \<Rightarrow> string \<Rightarrow> string \<Rightarrow> shop option" where
  "p4_grant_quoted_entitlement sh now eid pid =
    (case first_of (\<lambda>p. pu_ID p = pid) (sh_purchases sh) of
       None \<Rightarrow> None
     | Some pu \<Rightarrow>
         if \<not> settlement_is sh pid ''NOT_REQUIRED'' ''NOT_REQUIRED'' then None
         else case (sh_quotes sh (pu_Quote pu), sh_contexts sh (pu_Context pu)) of
           (Some q, Some ac) \<Rightarrow>
             if oq_PriceMinor q \<noteq> 0 then None
             else (case subject_col (ac_Subject ac) of
                     None \<Rightarrow> None | Some k \<Rightarrow> grant_kernel sh now eid pu k (oq_GrantSnapshot q))
         | _ \<Rightarrow> None)"

definition p4_grant_voucher_entitlement :: "shop \<Rightarrow> go_time \<Rightarrow> string \<Rightarrow> string \<Rightarrow> shop option" where
  "p4_grant_voucher_entitlement sh now eid pid =
    (case first_of (\<lambda>p. pu_ID p = pid) (sh_purchases sh) of
       None \<Rightarrow> None
     | Some pu \<Rightarrow>
         if pu_Trigger pu \<noteq> ''VOUCHER_REDEMPTION'' then None
         else if \<not> settlement_is sh pid ''PREPAID'' ''SETTLED'' then None
         else case (sh_quotes sh (pu_Quote pu), sh_contexts sh (pu_Context pu)) of
           (Some q, Some ac) \<Rightarrow>
             if cs_Kind (ac_Subject ac) \<noteq> SubjectVoucher then None
             else grant_kernel sh now eid pu (SubjectVoucher, cs_VoucherID (ac_Subject ac)) (oq_GrantSnapshot q)
         | _ \<Rightarrow> None)"

subsection \<open>Confirming\<close>

record confirm_request =
  cr_TenantID :: string
  cr_SiteID :: string
  cr_QuoteID :: string
  cr_DeviceID :: string
  cr_GuestNetworkID :: string

record confirm_env =
  ce_now :: go_time
  ce_purchase_id :: string
  ce_entitlement_id :: string
  ce_commits :: bool
  ce_allocation_mode :: "string \<Rightarrow> err_code + string"

datatype purchase_result =
    PurchaseDisabled
  | PurchaseError err_code
  | PurchaseDenied string
  | PurchaseGranted string
  | PurchaseAwaiting string

text \<open>The UPDATEs that consume: only an unconsumed and unexpired row.\<close>

definition ConsumeOfferQuote :: "shop \<Rightarrow> string \<Rightarrow> go_time \<Rightarrow> shop option" where
  "ConsumeOfferQuote sh i now = (case sh_quotes sh i of
      None \<Rightarrow> None
    | Some q \<Rightarrow> if oq_Consumed q \<or> \<not> oq_ExpiresAt q > now then None
                else Some (sh\<lparr>sh_quotes := (sh_quotes sh)(i \<mapsto> q\<lparr>oq_Consumed := True\<rparr>)\<rparr>))"

definition ConsumeAuthContextByID :: "shop \<Rightarrow> string \<Rightarrow> go_time \<Rightarrow> shop option" where
  "ConsumeAuthContextByID sh i now = (case sh_contexts sh i of
      None \<Rightarrow> None
    | Some c \<Rightarrow> if ac_Consumed c \<or> \<not> ac_ExpiresAt c > now then None
                else Some (sh\<lparr>sh_contexts := (sh_contexts sh)(i \<mapsto> c\<lparr>ac_Consumed := True\<rparr>)\<rparr>))"

definition insert_purchase :: "shop \<Rightarrow> string \<Rightarrow> string \<Rightarrow> offer_quote_row \<Rightarrow> string \<Rightarrow> string \<Rightarrow> string \<Rightarrow> string \<Rightarrow> shop option" where
  "insert_purchase sh pid qid q trigger state meth status =
    (if pid \<in> set (map pu_ID (sh_purchases sh)) then None
     else Some (sh\<lparr>sh_purchases := sh_purchases sh @
         [\<lparr>pu_ID = pid, pu_Quote = qid, pu_Context = oq_AuthContextID q, pu_Package = oq_PackageRevisionID q, pu_Trigger = trigger,
           pu_Amount = oq_PriceMinor q, pu_Currency = oq_Currency q, pu_State = state\<rparr>],
       sh_settlements := sh_settlements sh @ [\<lparr>st_Purchase = pid, st_Method = meth, st_Status = status\<rparr>]\<rparr>))"

definition method_of :: "offer_quote_row \<Rightarrow> string" where
  "method_of q = (if gs_AcquisitionMethod (oq_GrantSnapshot q) = [] then AcquireFree else gs_AcquisitionMethod (oq_GrantSnapshot q))"

text \<open>The last part, after both rows are consumed: purchase, settlement and, except for a card, the grant.\<close>

definition complete_purchase :: "shop \<Rightarrow> confirm_env \<Rightarrow> string \<Rightarrow> offer_quote_row \<Rightarrow> (shop \<times> purchase_result) option" where
  "complete_purchase sh env qid q =
    (let meth = method_of q; pid = ce_purchase_id env
     in if meth = AcquireFree then
          (case insert_purchase sh pid qid q ''GUEST_SELECTION'' ''PENDING'' ''NOT_REQUIRED'' ''NOT_REQUIRED'' of
             None \<Rightarrow> None
           | Some sh1 \<Rightarrow> map_option (\<lambda>sh2. (sh2, PurchaseGranted pid))
               (p4_grant_quoted_entitlement sh1 (ce_now env) (ce_entitlement_id env) pid))
        else if meth = AcquireVoucher then
          (case insert_purchase sh pid qid q ''VOUCHER_REDEMPTION'' ''PENDING'' AcquireVoucher ''SETTLED'' of
             None \<Rightarrow> None
           | Some sh1 \<Rightarrow> map_option (\<lambda>sh2. (sh2, PurchaseGranted pid))
               (p4_grant_voucher_entitlement sh1 (ce_now env) (ce_entitlement_id env) pid))
        else if meth = AcquireCard then
          map_option (\<lambda>sh1. (sh1, PurchaseAwaiting pid))
            (insert_purchase sh pid qid q ''GUEST_SELECTION'' ''AWAITING_SETTLEMENT'' AcquireCard ''REQUIRED'')
        else None)"

text \<open>Everything checked under the two row locks before anything is consumed.\<close>

definition confirm_gate ::
  "commerce_engine \<Rightarrow> shop \<Rightarrow> confirm_request \<Rightarrow> confirm_env \<Rightarrow> purchase_result + (offer_quote_row \<times> auth_context_row)" where
  "confirm_gate en sh req env = (let now = ce_now env in case sh_quotes sh (cr_QuoteID req) of
      None \<Rightarrow> Inl (PurchaseError ErrRepo)
    | Some q \<Rightarrow>
        if oq_Consumed q \<or> \<not> oq_ExpiresAt q > now then Inl (PurchaseDenied ''quote_unavailable'')
        else let why = revalidateQuote q (method_of q) (en_site en);
                 mode = TimeModeAcquirable (gs_TimeAccountingMode (oq_GrantSnapshot q)) (en_aggregateOnlineTime en)
        in if why \<noteq> [] then Inl (PurchaseDenied why)
           else if mode \<noteq> [] then Inl (PurchaseDenied mode)
           else case ce_allocation_mode env (oq_PackageRevisionID q) of Inl e \<Rightarrow> Inl (PurchaseError ErrRepo) | Inr alloc \<Rightarrow>
             if alloc = AllocPerStayNight then Inl (PurchaseDenied ''per_night_allowance_needs_stay'')
             else case sh_contexts sh (oq_AuthContextID q) of None \<Rightarrow> Inl (PurchaseError ErrRepo) | Some ac \<Rightarrow>
               if ac_TenantID ac \<noteq> cr_TenantID req \<or> ac_SiteID ac \<noteq> cr_SiteID req
                  \<or> ac_DeviceID ac \<noteq> cr_DeviceID req \<or> ac_GuestNetworkID ac \<noteq> cr_GuestNetworkID req
                 then Inl (PurchaseDenied ''auth_context_mismatch'')
               else if ac_Consumed ac \<or> \<not> ac_ExpiresAt ac > now then Inl (PurchaseDenied ''auth_context_unavailable'')
               else if \<not> snd (subjectID (ac_Subject ac)) then Inl (PurchaseDenied ''subject_invalid'')
               else if (method_of q = AcquireVoucher) \<noteq> (cs_Kind (ac_Subject ac) = SubjectVoucher)
                 then Inl (PurchaseDenied ''method_subject_mismatch'')
               else Inr (q, ac))"

definition confirm_tx :: "commerce_engine \<Rightarrow> shop \<Rightarrow> confirm_request \<Rightarrow> confirm_env \<Rightarrow> shop \<times> purchase_result" where
  "confirm_tx en sh req env = (case confirm_gate en sh req env of
      Inl r \<Rightarrow> (sh, r)
    | Inr (q, ac) \<Rightarrow>
        (case ConsumeOfferQuote sh (cr_QuoteID req) (ce_now env) of
           None \<Rightarrow> (sh, PurchaseDenied ''quote_already_consumed'')
         | Some sh1 \<Rightarrow>
             (case ConsumeAuthContextByID sh1 (oq_AuthContextID q) (ce_now env) of
                None \<Rightarrow> (sh1, PurchaseDenied ''auth_context_already_consumed'')
              | Some sh2 \<Rightarrow> (case complete_purchase sh2 env (cr_QuoteID req) q of
                  None \<Rightarrow> (sh, if method_of q \<in> {AcquireFree, AcquireVoucher, AcquireCard} then PurchaseError ErrRepo
                               else PurchaseDenied ''method_not_available'')
                | Some r \<Rightarrow> r))))"

definition ConfirmPurchase :: "commerce_engine \<Rightarrow> shop \<Rightarrow> confirm_request \<Rightarrow> confirm_env \<Rightarrow> shop \<times> purchase_result" where
  "ConfirmPurchase en sh req env =
    (if \<not> en_PortalOn en then (sh, PurchaseDisabled)
     else if cr_TenantID req = [] \<or> cr_SiteID req = [] \<or> cr_QuoteID req = [] \<or> cr_DeviceID req = [] \<or> cr_GuestNetworkID req = []
       then (sh, PurchaseError ErrInvalidInput)
     else if \<not> ce_commits env then (sh, PurchaseError ErrRepo)
     else confirm_tx en sh req env)"

subsection \<open>Quoting from the tables\<close>

text \<open>
  \<open>HasPriorPurchase\<close>: an entitlement of any revision of the package, by the subject or, for an anonymous client
  or where the policy says so, by the device of the purchase; within the window when there is one.
\<close>

definition device_of_purchase :: "shop \<Rightarrow> string \<Rightarrow> string option" where
  "device_of_purchase sh pid = (case first_of (\<lambda>p. pu_ID p = pid) (sh_purchases sh) of
      None \<Rightarrow> None | Some p \<Rightarrow> map_option ac_DeviceID (sh_contexts sh (pu_Context p)))"

definition HasPriorPurchase ::
  "(string \<Rightarrow> string) \<Rightarrow> shop \<Rightarrow> go_time \<Rightarrow> string \<Rightarrow> commerce_subject \<Rightarrow> prior_purchase_policy \<Rightarrow> bool" where
  "HasPriorPurchase package_of sh now pkg s pol =
    list_ex (\<lambda>e. package_of (ent_Package e) = pkg
        \<and> (pp_WithinHours pol > 0 \<longrightarrow> ent_ActivatedAt e \<ge> now - wrap64 (pp_WithinHours pol * hour))
        \<and> ((subject_col s = Some (ent_Subject e) \<and> fst (ent_Subject e) \<noteq> SubjectAnonymous)
           \<or> ((cs_Kind s = SubjectAnonymous \<or> pp_AlsoByDevice pol) \<and> cs_DeviceID s \<noteq> []
              \<and> device_of_purchase sh (ent_Purchase e) = Some (cs_DeviceID s))))
      (sh_entitlements sh)"

text \<open>A quote transaction reads the tables of the shop; the rest of its reads come with it.\<close>

definition shop_reads :: "(string \<Rightarrow> string) \<Rightarrow> shop \<Rightarrow> go_time \<Rightarrow> commerce_reads \<Rightarrow> commerce_reads" where
  "shop_reads package_of sh now R = R\<lparr>
     rd_LoadAuthContext := (\<lambda>i. case sh_contexts sh i of None \<Rightarrow> Inl ErrACNotFound | Some c \<Rightarrow> Inr c),
     rd_VoucherPinnedPackageRevision := (\<lambda>i. case sh_vouchers sh i of None \<Rightarrow> Inr [] | Some v \<Rightarrow> Inr (vo_Package v)),
     rd_HasPriorPurchase := (\<lambda>pkg s pol. Inr (HasPriorPurchase package_of sh now pkg s pol))\<rparr>"

record quote_env =
  qe_now :: go_time
  qe_quote_id :: string
  qe_commits :: bool
  qe_reads :: commerce_reads
  qe_package_of :: "string \<Rightarrow> string"

definition insert_quote :: "shop \<Rightarrow> string \<Rightarrow> offer_quote_spec \<Rightarrow> shop" where
  "insert_quote sh i q = sh\<lparr>sh_quotes := (sh_quotes sh)(i \<mapsto> offer_quote_spec.extend q
     \<lparr>oq_Consumed = False, oq_PMSInterfaceID = None, oq_SettlementMappingID = None, oq_TaxCode = None, oq_TaxRateBP = None, oq_TaxAmountMinor = None\<rparr>)\<rparr>"

definition CreateQuote ::
  "(string \<Rightarrow> go_time option) \<Rightarrow> commerce_engine \<Rightarrow> shop \<Rightarrow> quote_request \<Rightarrow> quote_env \<Rightarrow> shop \<times> offer_quote_spec outcome" where
  "CreateQuote rfc en sh req env =
    (if \<not> en_PortalOn en then (sh, Denied ''phase2_disabled'')
     else if qr_TenantID req = [] \<or> qr_SiteID req = [] \<or> qr_AuthContextID req = [] \<or> qr_DeviceID req = [] \<or> qr_GuestNetworkID req = []
       then (sh, Failed ErrInvalidInput)
     else if \<not> qe_commits env \<or> sh_quotes sh (qe_quote_id env) \<noteq> None then (sh, Failed ErrRepo)
     else case quote_outcome rfc en (shop_reads (qe_package_of env) sh (qe_now env) (qe_reads env)) (qe_now env) req of
       Failed e \<Rightarrow> (sh, Failed ErrRepo)
     | Denied why \<Rightarrow> (sh, Denied why)
     | Accepted q \<Rightarrow> (insert_quote sh (qe_quote_id env) q, Accepted q))"

subsection \<open>The shop as a machine\<close>

text \<open>
  Besides quotes and confirms: a sign-in adds an auth context, another path may consume one or write a quote of its
  own, vouchers are issued and withdrawn, and entitlements end.
\<close>

datatype shop_event =
    EvQuote quote_request quote_env
  | EvConfirm confirm_request confirm_env
  | EvSignIn auth_context_row
  | EvContextUsed string
  | EvForeignQuote string offer_quote_row
  | EvIssueVoucher string voucher_row
  | EvWithdrawVoucher string
  | EvEnd string

fun shop_step :: "(string \<Rightarrow> go_time option) \<Rightarrow> commerce_engine \<Rightarrow> shop \<Rightarrow> shop_event \<Rightarrow> shop" where
  "shop_step rfc en sh (EvQuote req env) = fst (CreateQuote rfc en sh req env)"
| "shop_step rfc en sh (EvConfirm req env) = fst (ConfirmPurchase en sh req env)"
| "shop_step rfc en sh (EvSignIn c) =
    (if sh_contexts sh (ac_ID c) \<noteq> None \<or> ac_Consumed c then sh else sh\<lparr>sh_contexts := (sh_contexts sh)(ac_ID c \<mapsto> c)\<rparr>)"
| "shop_step rfc en sh (EvContextUsed i) =
    (case sh_contexts sh i of None \<Rightarrow> sh | Some c \<Rightarrow> sh\<lparr>sh_contexts := (sh_contexts sh)(i \<mapsto> c\<lparr>ac_Consumed := True\<rparr>)\<rparr>)"
| "shop_step rfc en sh (EvForeignQuote i q) =
    (if sh_quotes sh i \<noteq> None then sh else sh\<lparr>sh_quotes := (sh_quotes sh)(i \<mapsto> q)\<rparr>)"
| "shop_step rfc en sh (EvIssueVoucher i v) =
    (if sh_vouchers sh i \<noteq> None then sh else sh\<lparr>sh_vouchers := (sh_vouchers sh)(i \<mapsto> v\<lparr>vo_State := ''UNUSED''\<rparr>)\<rparr>)"
| "shop_step rfc en sh (EvWithdrawVoucher i) =
    (case sh_vouchers sh i of
       Some v \<Rightarrow> if vo_State v = ''UNUSED'' then sh\<lparr>sh_vouchers := (sh_vouchers sh)(i \<mapsto> v\<lparr>vo_State := ''VOID''\<rparr>)\<rparr> else sh
     | None \<Rightarrow> sh)"
| "shop_step rfc en sh (EvEnd i) = sh\<lparr>sh_entitlements := set_status i ''TERMINATED'' (sh_entitlements sh)\<rparr>"

subsection \<open>What the tables of a shop never contain\<close>

definition purchase_backed :: "shop \<Rightarrow> purchase_row \<Rightarrow> bool" where
  "purchase_backed sh p \<longleftrightarrow> (\<exists>q c. sh_quotes sh (pu_Quote p) = Some q \<and> oq_Consumed q \<and> sh_contexts sh (pu_Context p) = Some c
     \<and> ac_Consumed c \<and> oq_AuthContextID q = pu_Context p \<and> pu_Package p = oq_PackageRevisionID q \<and> pu_Amount p = oq_PriceMinor q)"

definition purchases_ok :: "shop \<Rightarrow> bool" where
  "purchases_ok sh \<longleftrightarrow> distinct (map pu_ID (sh_purchases sh)) \<and> distinct (map pu_Quote (sh_purchases sh))
     \<and> distinct (map pu_Context (sh_purchases sh)) \<and> (\<forall>p \<in> set (sh_purchases sh). purchase_backed sh p)"

text \<open>An entitlement is what its purchase was quoted: package, snapshot, subject, and a price only for a voucher.\<close>

definition entitlement_backed :: "shop \<Rightarrow> entitlement_row \<Rightarrow> bool" where
  "entitlement_backed sh e \<longleftrightarrow> (\<exists>p \<in> set (sh_purchases sh). \<exists>q c. pu_ID p = ent_Purchase e \<and> pu_State p = ''GRANTED''
     \<and> sh_quotes sh (pu_Quote p) = Some q \<and> sh_contexts sh (pu_Context p) = Some c
     \<and> ent_Package e = oq_PackageRevisionID q \<and> ent_Snapshot e = oq_GrantSnapshot q
     \<and> subject_col (ac_Subject c) = Some (ent_Subject e)
     \<and> (oq_PriceMinor q = 0 \<or> fst (ent_Subject e) = SubjectVoucher))"

definition voucher_spent :: "shop \<Rightarrow> entitlement_row \<Rightarrow> bool" where
  "voucher_spent sh e \<longleftrightarrow> (fst (ent_Subject e) = SubjectVoucher \<longrightarrow>
     (\<exists>v. sh_vouchers sh (snd (ent_Subject e)) = Some v \<and> vo_State v = ''REDEEMED'' \<and> vo_Package v = ent_Package e))"

definition by_voucher :: "entitlement_row list \<Rightarrow> entitlement_row list" where
  "by_voucher es = filter (\<lambda>e. fst (ent_Subject e) = SubjectVoucher) es"

definition live_of :: "subject_key \<Rightarrow> entitlement_row list \<Rightarrow> entitlement_row list" where
  "live_of k es = filter (\<lambda>e. is_live e \<and> ent_Subject e = k) es"

definition entitlements_ok :: "shop \<Rightarrow> bool" where
  "entitlements_ok sh \<longleftrightarrow> distinct (map ent_ID (sh_entitlements sh)) \<and> distinct (map ent_Purchase (sh_entitlements sh))
     \<and> (\<forall>e \<in> set (sh_entitlements sh). entitlement_backed sh e \<and> voucher_spent sh e)
     \<and> distinct (map ent_Subject (by_voucher (sh_entitlements sh)))
     \<and> (\<forall>k. length (live_of k (sh_entitlements sh)) \<le> 1)"

definition shop_ok :: "shop \<Rightarrow> bool" where
  "shop_ok sh \<longleftrightarrow> purchases_ok sh \<and> entitlements_ok sh"

text \<open>Steps other than a confirm touch quotes and contexts only by adding or consuming.\<close>

definition quote_kept :: "offer_quote_row \<Rightarrow> offer_quote_row \<Rightarrow> bool" where
  "quote_kept q q' \<longleftrightarrow> oq_AuthContextID q' = oq_AuthContextID q \<and> oq_PackageRevisionID q' = oq_PackageRevisionID q
     \<and> oq_PriceMinor q' = oq_PriceMinor q \<and> oq_GrantSnapshot q' = oq_GrantSnapshot q \<and> (oq_Consumed q \<longrightarrow> oq_Consumed q')"

definition context_kept :: "auth_context_row \<Rightarrow> auth_context_row \<Rightarrow> bool" where
  "context_kept c c' \<longleftrightarrow> ac_Subject c' = ac_Subject c \<and> (ac_Consumed c \<longrightarrow> ac_Consumed c')"

definition rows_kept :: "shop \<Rightarrow> shop \<Rightarrow> bool" where
  "rows_kept sh sh' \<longleftrightarrow> (\<forall>i q. sh_quotes sh i = Some q \<longrightarrow> (\<exists>q'. sh_quotes sh' i = Some q' \<and> quote_kept q q'))
     \<and> (\<forall>i c. sh_contexts sh i = Some c \<longrightarrow> (\<exists>c'. sh_contexts sh' i = Some c' \<and> context_kept c c'))"

lemma purchase_backed_kept: "rows_kept sh sh' \<Longrightarrow> purchase_backed sh p \<Longrightarrow> purchase_backed sh' p"
  unfolding purchase_backed_def rows_kept_def quote_kept_def context_kept_def by metis

lemma entitlement_backed_kept:
  "rows_kept sh sh' \<Longrightarrow> set (sh_purchases sh) \<subseteq> set (sh_purchases sh') \<Longrightarrow> entitlement_backed sh e \<Longrightarrow> entitlement_backed sh' e"
proof -
  assume k: "rows_kept sh sh'" and sub: "set (sh_purchases sh) \<subseteq> set (sh_purchases sh')" and "entitlement_backed sh e"
  then obtain p q c where p: "p \<in> set (sh_purchases sh)" "pu_ID p = ent_Purchase e" "pu_State p = ''GRANTED''"
      "sh_quotes sh (pu_Quote p) = Some q" "sh_contexts sh (pu_Context p) = Some c"
      and e: "ent_Package e = oq_PackageRevisionID q" "ent_Snapshot e = oq_GrantSnapshot q"
        "subject_col (ac_Subject c) = Some (ent_Subject e)" "oq_PriceMinor q = 0 \<or> fst (ent_Subject e) = SubjectVoucher"
    unfolding entitlement_backed_def by blast
  obtain q' where q': "sh_quotes sh' (pu_Quote p) = Some q'" "quote_kept q q'" using k p(4) unfolding rows_kept_def by blast
  obtain c' where c': "sh_contexts sh' (pu_Context p) = Some c'" "context_kept c c'" using k p(5) unfolding rows_kept_def by blast
  have "ent_Package e = oq_PackageRevisionID q'" "ent_Snapshot e = oq_GrantSnapshot q'" "subject_col (ac_Subject c') = Some (ent_Subject e)"
      "oq_PriceMinor q' = 0 \<or> fst (ent_Subject e) = SubjectVoucher"
    using e q'(2) c'(2) by (simp_all add: quote_kept_def context_kept_def)
  then show ?thesis unfolding entitlement_backed_def using sub p(1,2,3) q'(1) c'(1) by blast
qed

lemma purchases_ok_kept: "purchases_ok sh \<Longrightarrow> rows_kept sh sh' \<Longrightarrow> sh_purchases sh' = sh_purchases sh \<Longrightarrow> purchases_ok sh'"
  unfolding purchases_ok_def using purchase_backed_kept by metis

lemma entitlements_ok_kept:
  assumes "entitlements_ok sh" and "rows_kept sh sh'" and "set (sh_purchases sh) \<subseteq> set (sh_purchases sh')"
    and "sh_entitlements sh' = sh_entitlements sh"
    and "\<forall>i v. sh_vouchers sh i = Some v \<longrightarrow> vo_State v = ''REDEEMED'' \<longrightarrow> sh_vouchers sh' i = Some v"
  shows "entitlements_ok sh'"
proof -
  have "entitlement_backed sh' e \<and> voucher_spent sh' e" if "e \<in> set (sh_entitlements sh)" for e
    using assms that entitlement_backed_kept [OF assms(2,3), of e] unfolding entitlements_ok_def voucher_spent_def by metis
  then show ?thesis using assms(1,4) by (simp add: entitlements_ok_def)
qed

lemma shop_ok_kept:
  assumes "shop_ok sh" and "rows_kept sh sh'" and "sh_purchases sh' = sh_purchases sh" and "sh_entitlements sh' = sh_entitlements sh"
    and "\<forall>i v. sh_vouchers sh i = Some v \<longrightarrow> vo_State v = ''REDEEMED'' \<longrightarrow> sh_vouchers sh' i = Some v"
  shows "shop_ok sh'"
  using assms purchases_ok_kept entitlements_ok_kept unfolding shop_ok_def by (metis order_refl)

lemma rows_kept_trans: "rows_kept a b \<Longrightarrow> rows_kept b c \<Longrightarrow> rows_kept a c"
proof -
  have q: "quote_kept x y \<Longrightarrow> quote_kept y z \<Longrightarrow> quote_kept x z" for x y z by (simp add: quote_kept_def)
  have c: "context_kept x y \<Longrightarrow> context_kept y z \<Longrightarrow> context_kept x z" for x y z by (simp add: context_kept_def)
  assume a: "rows_kept a b" and b: "rows_kept b c"
  show ?thesis unfolding rows_kept_def
  proof (intro conjI allI impI)
    fix i x assume "sh_quotes a i = Some x"
    then obtain y where "sh_quotes b i = Some y" "quote_kept x y" using a unfolding rows_kept_def by blast
    moreover from this obtain z where "sh_quotes c i = Some z" "quote_kept y z" using b unfolding rows_kept_def by blast
    ultimately show "\<exists>z. sh_quotes c i = Some z \<and> quote_kept x z" using q by blast
  next
    fix i x assume "sh_contexts a i = Some x"
    then obtain y where "sh_contexts b i = Some y" "context_kept x y" using a unfolding rows_kept_def by blast
    moreover from this obtain z where "sh_contexts c i = Some z" "context_kept y z" using b unfolding rows_kept_def by blast
    ultimately show "\<exists>z. sh_contexts c i = Some z \<and> context_kept x z" using c by blast
  qed
qed

lemma rows_kept_same: "sh_quotes sh' = sh_quotes sh \<Longrightarrow> sh_contexts sh' = sh_contexts sh \<Longrightarrow> rows_kept sh sh'"
  by (simp add: rows_kept_def quote_kept_def context_kept_def)

text \<open>Ending an entitlement keeps everything it is.\<close>

lemma set_status_fields [simp]:
  "map ent_ID (set_status i st es) = map ent_ID es" "map ent_Purchase (set_status i st es) = map ent_Purchase es"
  by (simp_all add: set_status_def comp_def if_distrib cong: if_cong)

lemma set_status_subjects [simp]: "map ent_Subject (by_voucher (set_status i st es)) = map ent_Subject (by_voucher es)"
  by (induction es) (auto simp: by_voucher_def set_status_def)

lemma set_status_mem:
  "e \<in> set (set_status i st es) \<Longrightarrow> \<exists>e' \<in> set es. ent_ID e = ent_ID e' \<and> ent_Purchase e = ent_Purchase e' \<and> ent_Subject e = ent_Subject e'
     \<and> ent_Snapshot e = ent_Snapshot e' \<and> ent_Package e = ent_Package e'"
  by (auto simp: set_status_def)

lemma live_of_set_status: "length (live_of k (set_status i ''TERMINATED'' es)) \<le> length (live_of k es)"
proof (induction es)
  case (Cons e es)
  then show ?case by (auto simp: live_of_def set_status_def is_live_def le_SucI)
qed (simp add: live_of_def set_status_def)

lemma set_status_ok:
  assumes "\<forall>e \<in> set es. entitlement_backed sh e \<and> voucher_spent sh e" and "e \<in> set (set_status i st es)"
  shows "entitlement_backed sh e \<and> voucher_spent sh e"
proof -
  obtain e' where e': "e' \<in> set es" "ent_Purchase e = ent_Purchase e'" "ent_Subject e = ent_Subject e'"
      "ent_Snapshot e = ent_Snapshot e'" "ent_Package e = ent_Package e'" using set_status_mem [OF assms(2)] by blast
  then have "entitlement_backed sh e' \<and> voucher_spent sh e'" using assms(1) by blast
  then show ?thesis unfolding entitlement_backed_def voucher_spent_def e' .
qed

lemma end_ok: "shop_ok sh \<Longrightarrow> shop_ok (sh\<lparr>sh_entitlements := set_status i ''TERMINATED'' (sh_entitlements sh)\<rparr>)"
proof -
  assume ok: "shop_ok sh"
  let ?s = "sh\<lparr>sh_entitlements := set_status i ''TERMINATED'' (sh_entitlements sh)\<rparr>"
  have backed: "entitlement_backed ?s e = entitlement_backed sh e" "voucher_spent ?s e = voucher_spent sh e" for e
    by (simp_all add: entitlement_backed_def voucher_spent_def)
  have "\<forall>e \<in> set (sh_entitlements sh). entitlement_backed sh e \<and> voucher_spent sh e" using ok by (simp add: shop_ok_def entitlements_ok_def)
  then have "\<forall>e \<in> set (sh_entitlements ?s). entitlement_backed ?s e \<and> voucher_spent ?s e"
    using set_status_ok by (simp add: backed)
  moreover have "length (live_of k (sh_entitlements ?s)) \<le> 1" for k
  proof -
    have "length (live_of k (sh_entitlements sh)) \<le> 1" using ok unfolding shop_ok_def entitlements_ok_def by blast
    then show ?thesis using live_of_set_status [of k i "sh_entitlements sh"] by simp
  qed
  moreover have "purchases_ok ?s" using ok by (simp add: shop_ok_def purchases_ok_def purchase_backed_def)
  ultimately show ?thesis using ok by (simp add: shop_ok_def entitlements_ok_def)
qed

subsection \<open>A grant keeps the tables\<close>

lemma superseded_none: "superseded_by sh k = None \<longleftrightarrow> live_of k (sh_entitlements sh) = []"
proof -
  let ?l = "sort_key (\<lambda>e. - ent_ActivatedAt e) (sort_key ent_ID (live_of k (sh_entitlements sh)))"
  have "superseded_by sh k = None \<longleftrightarrow> ?l = []" unfolding superseded_by_def live_of_def [symmetric] by (cases ?l) simp_all
  also have "\<dots> \<longleftrightarrow> set ?l = {}" by (rule set_empty [symmetric])
  also have "\<dots> \<longleftrightarrow> live_of k (sh_entitlements sh) = []" by simp
  finally show ?thesis .
qed

lemma superseded_some: "superseded_by sh k = Some i \<Longrightarrow> \<exists>e \<in> set (live_of k (sh_entitlements sh)). ent_ID e = i"
proof -
  assume a: "superseded_by sh k = Some i"
  let ?l = "sort_key (\<lambda>e. - ent_ActivatedAt e) (sort_key ent_ID (live_of k (sh_entitlements sh)))"
  obtain e l where l: "?l = e # l" "ent_ID e = i"
    using a unfolding superseded_by_def live_of_def [symmetric] by (auto split: list.splits)
  have "e \<in> set ?l" by (simp add: l(1))
  then show ?thesis using l(2) by auto
qed

text \<open>What is left of the entitlements before the new one is added: no live one of the subject.\<close>

definition without_live :: "shop \<Rightarrow> subject_key \<Rightarrow> entitlement_row list" where
  "without_live sh k = (case superseded_by sh k of Some i \<Rightarrow> set_status i ''TERMINATED'' (sh_entitlements sh) | None \<Rightarrow> sh_entitlements sh)"

lemma without_live_none:
  assumes "length (live_of k (sh_entitlements sh)) \<le> 1"
  shows "live_of k (without_live sh k) = []"
proof (cases "superseded_by sh k")
  case None
  then show ?thesis using superseded_none [of sh k] by (simp add: without_live_def)
next
  case (Some i)
  then obtain e where e: "e \<in> set (live_of k (sh_entitlements sh))" "ent_ID e = i" using superseded_some by blast
  then have one: "live_of k (sh_entitlements sh) = [e]" using assms by (cases "live_of k (sh_entitlements sh)") auto
  have "\<not> (is_live x \<and> ent_Subject x = k)" if "x \<in> set (set_status i ''TERMINATED'' (sh_entitlements sh))" for x
  proof
    assume x: "is_live x \<and> ent_Subject x = k"
    obtain y where y: "y \<in> set (sh_entitlements sh)" "x = (if ent_ID y = i then y\<lparr>ent_Status := ''TERMINATED''\<rparr> else y)"
      using \<open>x \<in> set (set_status i ''TERMINATED'' (sh_entitlements sh))\<close> unfolding set_status_def set_map by blast
    have "ent_ID y \<noteq> i" using x y(2) by (auto simp: is_live_def)
    then have "y \<in> set (live_of k (sh_entitlements sh))" using x y by (simp add: live_of_def)
    then show False using one e(2) \<open>ent_ID y \<noteq> i\<close> by simp
  qed
  then show ?thesis using Some by (simp add: without_live_def live_of_def filter_empty_conv)
qed

lemma without_live_fields:
  "map ent_ID (without_live sh k) = map ent_ID (sh_entitlements sh)"
  "map ent_Purchase (without_live sh k) = map ent_Purchase (sh_entitlements sh)"
  "map ent_Subject (by_voucher (without_live sh k)) = map ent_Subject (by_voucher (sh_entitlements sh))"
  by (simp_all add: without_live_def split: option.splits)

lemma without_live_ok:
  "\<forall>e \<in> set (sh_entitlements sh). entitlement_backed s e \<and> voucher_spent s e \<Longrightarrow> e \<in> set (without_live sh k) \<Longrightarrow>
   entitlement_backed s e \<and> voucher_spent s e"
proof (cases "superseded_by sh k")
  case (Some i)
  assume a: "\<forall>e \<in> set (sh_entitlements sh). entitlement_backed s e \<and> voucher_spent s e" and "e \<in> set (without_live sh k)"
  then have "e \<in> set (set_status i ''TERMINATED'' (sh_entitlements sh))" by (simp add: without_live_def Some)
  with a show ?thesis by (rule set_status_ok)
qed (simp add: without_live_def)

lemma without_live_le: "length (live_of k' (without_live sh k)) \<le> length (live_of k' (sh_entitlements sh))"
  by (simp add: without_live_def live_of_set_status split: option.splits)

definition new_entitlement :: "shop \<Rightarrow> go_time \<Rightarrow> string \<Rightarrow> purchase_row \<Rightarrow> subject_key \<Rightarrow> grant_snapshot \<Rightarrow> entitlement_row" where
  "new_entitlement sh now eid pu k snap = \<lparr>ent_ID = eid, ent_Purchase = pu_ID pu, ent_Subject = k, ent_Snapshot = snap,
     ent_Package = pu_Package pu, ent_Status = ''ACTIVE'', ent_Supersedes = superseded_by sh k, ent_ActivatedAt = now\<rparr>"

text \<open>A grant that happens: the rows it leaves.\<close>

lemma grant_kernel_granted:
  assumes "grant_kernel sh now eid pu k snap = Some sh'" and "pu_ID pu \<notin> set (map ent_Purchase (sh_entitlements sh))"
  shows "eid \<notin> set (map ent_ID (sh_entitlements sh))
    \<and> sh_entitlements sh' = without_live sh k @ [new_entitlement sh now eid pu k snap]
    \<and> sh_purchases sh' = set_purchase_state (pu_ID pu) ''GRANTED'' (sh_purchases sh)
    \<and> sh_quotes sh' = sh_quotes sh \<and> sh_contexts sh' = sh_contexts sh
    \<and> (if fst k = SubjectVoucher
       then \<exists>v. sh_vouchers sh (snd k) = Some v \<and> vo_State v = ''UNUSED'' \<and> vo_Package v = pu_Package pu
              \<and> sh_vouchers sh' = (sh_vouchers sh)(snd k \<mapsto> v\<lparr>vo_State := ''REDEEMED''\<rparr>)
       else sh_vouchers sh' = sh_vouchers sh)"
proof -
  have ne: "\<not> list_ex (\<lambda>e. ent_Purchase e = pu_ID pu) (sh_entitlements sh)" using assms(2) by (force simp: list_ex_iff)
  note k = assms(1) [unfolded grant_kernel_def Let_def without_live_def [symmetric] new_entitlement_def [symmetric]]
  show ?thesis
  proof (cases "fst k = SubjectVoucher")
    case True
    then show ?thesis using k ne
      by (cases "sh_vouchers sh (snd k)") (auto simp: redeemable_def simp del: set_map split: if_splits)
  next
    case False
    then show ?thesis using k ne by (auto simp del: set_map split: if_splits)
  qed
qed

lemma set_purchase_state_fields [simp]:
  "map pu_ID (set_purchase_state i st ps) = map pu_ID ps" "map pu_Quote (set_purchase_state i st ps) = map pu_Quote ps"
  "map pu_Context (set_purchase_state i st ps) = map pu_Context ps"
  by (simp_all add: set_purchase_state_def comp_def if_distrib cong: if_cong)

lemma set_purchase_state_mem:
  assumes "p \<in> set ps"
  shows "\<exists>p' \<in> set (set_purchase_state i st ps). pu_ID p' = pu_ID p \<and> pu_Quote p' = pu_Quote p \<and> pu_Context p' = pu_Context p
     \<and> pu_State p' = (if pu_ID p = i then st else pu_State p)"
proof -
  let ?p = "if pu_ID p = i then p\<lparr>pu_State := st\<rparr> else p"
  have "?p \<in> set (set_purchase_state i st ps)" unfolding set_purchase_state_def set_map by (rule imageI [OF assms])
  then show ?thesis by (rule bexI [rotated]) simp
qed

lemma state_set_purchases_ok:
  assumes "purchases_ok sh" and "sh_purchases sh' = set_purchase_state i st (sh_purchases sh)"
    and "sh_quotes sh' = sh_quotes sh" and "sh_contexts sh' = sh_contexts sh"
  shows "purchases_ok sh'"
proof -
  have "purchase_backed sh' p" if "p \<in> set (sh_purchases sh')" for p
  proof -
    obtain p' where p': "p' \<in> set (sh_purchases sh)" "p = (if pu_ID p' = i then p'\<lparr>pu_State := st\<rparr> else p')"
      using \<open>p \<in> set (sh_purchases sh')\<close> unfolding assms(2) set_purchase_state_def set_map by blast
    have "purchase_backed sh p'" using assms(1) p'(1) by (simp add: purchases_ok_def)
    then show ?thesis using p'(2) by (cases "pu_ID p' = i") (simp_all add: purchase_backed_def assms(3,4))
  qed
  then show ?thesis using assms(1) by (simp add: purchases_ok_def assms(2))
qed

lemma granted_backed:
  assumes "sh_purchases sh' = set_purchase_state i ''GRANTED'' (sh_purchases sh)"
    and "sh_quotes sh' = sh_quotes sh" and "sh_contexts sh' = sh_contexts sh" and "entitlement_backed sh e"
  shows "entitlement_backed sh' e"
proof -
  obtain p q c where p: "p \<in> set (sh_purchases sh)" "pu_ID p = ent_Purchase e" "pu_State p = ''GRANTED''"
      "sh_quotes sh (pu_Quote p) = Some q" "sh_contexts sh (pu_Context p) = Some c"
      and e: "ent_Package e = oq_PackageRevisionID q" "ent_Snapshot e = oq_GrantSnapshot q"
        "subject_col (ac_Subject c) = Some (ent_Subject e)" "oq_PriceMinor q = 0 \<or> fst (ent_Subject e) = SubjectVoucher"
    using assms(4) unfolding entitlement_backed_def by blast
  obtain p' where p': "p' \<in> set (sh_purchases sh')" "pu_ID p' = pu_ID p" "pu_Quote p' = pu_Quote p" "pu_Context p' = pu_Context p"
      "pu_State p' = (if pu_ID p = i then ''GRANTED'' else pu_State p)"
    using set_purchase_state_mem [OF p(1)] unfolding assms(1) by blast
  then have "pu_State p' = ''GRANTED''" "sh_quotes sh' (pu_Quote p') = Some q" "sh_contexts sh' (pu_Context p') = Some c"
    using p assms(2,3) by simp_all
  then show ?thesis unfolding entitlement_backed_def using p'(1,2) p(2) e by metis
qed

lemma grant_ok:
  assumes A: "purchases_ok sh" and B: "entitlements_ok sh" and pu: "pu \<in> set (sh_purchases sh)"
    and fresh: "pu_ID pu \<notin> set (map ent_Purchase (sh_entitlements sh))"
    and q: "sh_quotes sh (pu_Quote pu) = Some q" and c: "sh_contexts sh (pu_Context pu) = Some c"
    and k: "subject_col (ac_Subject c) = Some k" and price: "oq_PriceMinor q = 0 \<or> fst k = SubjectVoucher"
    and g: "grant_kernel sh now eid pu k (oq_GrantSnapshot q) = Some sh'"
  shows "shop_ok sh'"
proof -
  note G = grant_kernel_granted [OF g fresh]
  let ?new = "new_entitlement sh now eid pu k (oq_GrantSnapshot q)"
  have es: "sh_entitlements sh' = without_live sh k @ [?new]" and ps: "sh_purchases sh' = set_purchase_state (pu_ID pu) ''GRANTED'' (sh_purchases sh)"
    and qs: "sh_quotes sh' = sh_quotes sh" and cs: "sh_contexts sh' = sh_contexts sh" and eid: "eid \<notin> set (map ent_ID (sh_entitlements sh))"
    using G by blast+
  have old: "entitlement_backed sh' e \<and> voucher_spent sh' e" if "e \<in> set (sh_entitlements sh)" for e
  proof -
    have b: "entitlement_backed sh e" "voucher_spent sh e" using B that by (simp_all add: entitlements_ok_def)
    have "voucher_spent sh' e"
    proof (cases "fst k = SubjectVoucher")
      case True
      then obtain v where v: "sh_vouchers sh (snd k) = Some v" "vo_State v = ''UNUSED''"
          "sh_vouchers sh' = (sh_vouchers sh)(snd k \<mapsto> v\<lparr>vo_State := ''REDEEMED''\<rparr>)" using G by auto
      show ?thesis using b(2) v by (auto simp: voucher_spent_def)
    next
      case False
      then show ?thesis using b(2) G by (simp add: voucher_spent_def)
    qed
    then show ?thesis using granted_backed [OF ps qs cs b(1)] by blast
  qed
  have pkg: "pu_Package pu = oq_PackageRevisionID q" using A pu q by (auto simp: purchases_ok_def purchase_backed_def)
  have newb: "entitlement_backed sh' ?new"
  proof -
    obtain p' where p': "p' \<in> set (sh_purchases sh')" "pu_ID p' = pu_ID pu" "pu_Quote p' = pu_Quote pu" "pu_Context p' = pu_Context pu"
        "pu_State p' = ''GRANTED''" using set_purchase_state_mem [OF pu, of "pu_ID pu" "''GRANTED''"] unfolding ps by auto
    have "ent_Purchase ?new = pu_ID pu" "ent_Package ?new = oq_PackageRevisionID q" "ent_Snapshot ?new = oq_GrantSnapshot q" "ent_Subject ?new = k"
      by (simp_all add: new_entitlement_def pkg)
    then show ?thesis unfolding entitlement_backed_def qs cs using p' q c k price by (intro bexI [OF _ p'(1)]) simp
  qed
  have newv: "voucher_spent sh' ?new" using G by (auto simp: voucher_spent_def new_entitlement_def)
  have all: "\<forall>e \<in> set (sh_entitlements sh'). entitlement_backed sh' e \<and> voucher_spent sh' e"
    using without_live_ok [of sh sh' _ k] old newb newv unfolding es by auto
  have live: "length (live_of k' (sh_entitlements sh')) \<le> 1" for k'
  proof -
    have le: "length (live_of k' (sh_entitlements sh)) \<le> 1" for k' using B unfolding entitlements_ok_def by blast
    show ?thesis
    proof (cases "k' = k")
      case True
      then show ?thesis using without_live_none [OF le [of k]] unfolding es by (simp add: live_of_def)
    next
      case False
      then have "live_of k' (sh_entitlements sh') = live_of k' (without_live sh k)"
        unfolding es by (simp add: live_of_def new_entitlement_def)
      then show ?thesis using without_live_le [of k' sh k] le [of k'] by simp
    qed
  qed
  have vs: "distinct (map ent_Subject (by_voucher (sh_entitlements sh')))"
  proof (cases "fst k = SubjectVoucher")
    case True
    then obtain v where v: "sh_vouchers sh (snd k) = Some v" "vo_State v = ''UNUSED''" using G by auto
    have "k \<notin> set (map ent_Subject (by_voucher (sh_entitlements sh)))"
    proof
      assume "k \<in> set (map ent_Subject (by_voucher (sh_entitlements sh)))"
      then obtain e where "e \<in> set (sh_entitlements sh)" "ent_Subject e = k" by (auto simp: by_voucher_def)
      then have "voucher_spent sh e" "ent_Subject e = k" using B by (simp_all add: entitlements_ok_def)
      then show False using v True by (simp add: voucher_spent_def)
    qed
    then show ?thesis using B True without_live_fields(3) [of sh k]
      unfolding es by (simp add: by_voucher_def new_entitlement_def entitlements_ok_def)
  next
    case False
    then show ?thesis using B without_live_fields(3) [of sh k]
      unfolding es by (simp add: by_voucher_def new_entitlement_def entitlements_ok_def)
  qed
  have "distinct (map ent_ID (sh_entitlements sh'))" "distinct (map ent_Purchase (sh_entitlements sh'))"
    using B eid fresh without_live_fields(1,2) [of sh k] unfolding es
    by (simp_all add: entitlements_ok_def new_entitlement_def del: set_map)
  then show ?thesis using all live vs state_set_purchases_ok [OF A ps qs cs] by (simp add: shop_ok_def entitlements_ok_def)
qed

subsection \<open>A confirm keeps the tables\<close>

lemma ConsumeOfferQuote_kept:
  assumes "ConsumeOfferQuote sh i now = Some sh1"
  shows "\<exists>q. sh_quotes sh i = Some q \<and> \<not> oq_Consumed q \<and> sh1 = sh\<lparr>sh_quotes := (sh_quotes sh)(i \<mapsto> q\<lparr>oq_Consumed := True\<rparr>)\<rparr>"
  using assms by (auto simp: ConsumeOfferQuote_def split: option.splits if_splits)

lemma ConsumeAuthContext_kept:
  assumes "ConsumeAuthContextByID sh i now = Some sh1"
  shows "\<exists>c. sh_contexts sh i = Some c \<and> \<not> ac_Consumed c \<and> sh1 = sh\<lparr>sh_contexts := (sh_contexts sh)(i \<mapsto> c\<lparr>ac_Consumed := True\<rparr>)\<rparr>"
  using assms by (auto simp: ConsumeAuthContextByID_def split: option.splits if_splits)

lemma quote_rows_kept: "sh_quotes sh i = Some q \<Longrightarrow> rows_kept sh (sh\<lparr>sh_quotes := (sh_quotes sh)(i \<mapsto> q\<lparr>oq_Consumed := True\<rparr>)\<rparr>)"
  by (auto simp: rows_kept_def quote_kept_def context_kept_def)

lemma context_rows_kept: "sh_contexts sh i = Some c \<Longrightarrow> rows_kept sh (sh\<lparr>sh_contexts := (sh_contexts sh)(i \<mapsto> c\<lparr>ac_Consumed := True\<rparr>)\<rparr>)"
  by (auto simp: rows_kept_def quote_kept_def context_kept_def)

lemma unconsumed_not_bought:
  "purchases_ok sh \<Longrightarrow> sh_quotes sh i = Some q \<Longrightarrow> \<not> oq_Consumed q \<Longrightarrow> i \<notin> set (map pu_Quote (sh_purchases sh))"
  "purchases_ok sh \<Longrightarrow> sh_contexts sh j = Some c \<Longrightarrow> \<not> ac_Consumed c \<Longrightarrow> j \<notin> set (map pu_Context (sh_purchases sh))"
  by (auto simp: purchases_ok_def purchase_backed_def)

text \<open>The state in which the purchase is inserted: both rows consumed, by no purchase yet.\<close>

definition ready :: "shop \<Rightarrow> string \<Rightarrow> offer_quote_row \<Rightarrow> auth_context_row \<Rightarrow> bool" where
  "ready sh qid q c \<longleftrightarrow> shop_ok sh \<and> sh_quotes sh qid = Some (q\<lparr>oq_Consumed := True\<rparr>)
     \<and> sh_contexts sh (oq_AuthContextID q) = Some (c\<lparr>ac_Consumed := True\<rparr>)
     \<and> qid \<notin> set (map pu_Quote (sh_purchases sh)) \<and> oq_AuthContextID q \<notin> set (map pu_Context (sh_purchases sh))"

lemma consumed_ready:
  assumes ok: "shop_ok sh" and q: "sh_quotes sh qid = Some q" and c: "sh_contexts sh (oq_AuthContextID q) = Some c"
    and s1: "ConsumeOfferQuote sh qid now = Some sh1" and s2: "ConsumeAuthContextByID sh1 (oq_AuthContextID q) now = Some sh2"
  shows "ready sh2 qid q c"
proof -
  have sh1: "sh1 = sh\<lparr>sh_quotes := (sh_quotes sh)(qid \<mapsto> q\<lparr>oq_Consumed := True\<rparr>)\<rparr>" and uq: "\<not> oq_Consumed q"
    using ConsumeOfferQuote_kept [OF s1] q by auto
  have c1: "sh_contexts sh1 (oq_AuthContextID q) = Some c" by (simp add: sh1 c)
  have sh2: "sh2 = sh1\<lparr>sh_contexts := (sh_contexts sh1)(oq_AuthContextID q \<mapsto> c\<lparr>ac_Consumed := True\<rparr>)\<rparr>" and uc: "\<not> ac_Consumed c"
    using ConsumeAuthContext_kept [OF s2] c1 by auto
  have "rows_kept sh sh2"
    using rows_kept_trans [OF quote_rows_kept [OF q, folded sh1] context_rows_kept [OF c1, folded sh2]] .
  then have "shop_ok sh2" by (rule shop_ok_kept [OF ok]) (simp_all add: sh2 sh1)
  moreover have "purchases_ok sh" using ok by (simp add: shop_ok_def)
  ultimately show ?thesis
    using unconsumed_not_bought(1) [OF _ q uq] unconsumed_not_bought(2) [OF _ c uc] by (simp add: ready_def sh2 sh1)
qed

lemma insert_purchase_ok:
  assumes rd: "ready sh qid q c" and i: "insert_purchase sh pid qid q trig st meth status = Some sh'"
  shows "shop_ok sh' \<and> (\<exists>pu. first_of (\<lambda>p. pu_ID p = pid) (sh_purchases sh') = Some pu \<and> pu \<in> set (sh_purchases sh') \<and> pu_ID pu = pid
      \<and> pu_Quote pu = qid \<and> pu_Context pu = oq_AuthContextID q)
    \<and> pid \<notin> set (map ent_Purchase (sh_entitlements sh')) \<and> sh_quotes sh' = sh_quotes sh \<and> sh_contexts sh' = sh_contexts sh"
proof -
  define new where "new = \<lparr>pu_ID = pid, pu_Quote = qid, pu_Context = oq_AuthContextID q, pu_Package = oq_PackageRevisionID q, pu_Trigger = trig,
      pu_Amount = oq_PriceMinor q, pu_Currency = oq_Currency q, pu_State = st\<rparr>"
  have n: "pu_ID new = pid" "pu_Quote new = qid" "pu_Context new = oq_AuthContextID q" "pu_Package new = oq_PackageRevisionID q"
      "pu_Amount new = oq_PriceMinor q" by (simp_all add: new_def)
  have f: "pid \<notin> set (map pu_ID (sh_purchases sh))" and ps: "sh_purchases sh' = sh_purchases sh @ [new]"
      and t: "sh_quotes sh' = sh_quotes sh" "sh_contexts sh' = sh_contexts sh" "sh_vouchers sh' = sh_vouchers sh"
        "sh_entitlements sh' = sh_entitlements sh"
    using i by (auto simp: insert_purchase_def new_def split: if_splits)
  have ok: "purchases_ok sh" "entitlements_ok sh" using rd by (simp_all add: ready_def shop_ok_def)
  have kept: "rows_kept sh sh'" by (rule rows_kept_same) (simp_all add: t)
  have "purchase_backed sh' new" using rd by (auto simp: ready_def purchase_backed_def n t)
  then have "\<forall>p \<in> set (sh_purchases sh'). purchase_backed sh' p"
    using ok(1) purchase_backed_kept [OF kept] by (auto simp: ps purchases_ok_def)
  then have "purchases_ok sh'" using ok(1) rd f by (simp add: purchases_ok_def ps n ready_def)
  moreover have "entitlements_ok sh'" by (rule entitlements_ok_kept [OF ok(2) kept]) (auto simp: ps t)
  moreover have "pid \<notin> set (map ent_Purchase (sh_entitlements sh'))"
    using ok(2) f by (force simp: t entitlements_ok_def entitlement_backed_def)
  moreover have "first_of (\<lambda>p. pu_ID p = pid) (sh_purchases sh') = Some new"
  proof -
    have "sh_purchases sh' = sh_purchases sh @ new # [] \<and> pu_ID new = pid \<and> (\<forall>u \<in> set (sh_purchases sh). pu_ID u \<noteq> pid)"
      using f by (auto simp: ps n)
    then show ?thesis unfolding first_of_split by blast
  qed
  ultimately show ?thesis using n t by (auto simp: shop_ok_def ps)
qed

lemma complete_purchase_ok:
  assumes rd: "ready sh qid q c" and fin: "complete_purchase sh env qid q = Some (sh', r)"
    and v: "(method_of q = AcquireVoucher) = (cs_Kind (ac_Subject c) = SubjectVoucher)"
  shows "shop_ok sh'"
proof -
  let ?pid = "ce_purchase_id env"
  have qc: "sh_quotes sh qid = Some (q\<lparr>oq_Consumed := True\<rparr>)" "sh_contexts sh (oq_AuthContextID q) = Some (c\<lparr>ac_Consumed := True\<rparr>)"
    using rd by (simp_all add: ready_def)
  show ?thesis
  proof (cases "method_of q = AcquireFree")
    case True
    then obtain sh1 where i: "insert_purchase sh ?pid qid q ''GUEST_SELECTION'' ''PENDING'' ''NOT_REQUIRED'' ''NOT_REQUIRED'' = Some sh1"
        and g: "p4_grant_quoted_entitlement sh1 (ce_now env) (ce_entitlement_id env) ?pid = Some sh'"
      using fin by (auto simp: complete_purchase_def Let_def split: option.splits)
    from insert_purchase_ok [OF rd i] obtain pu where ok1: "shop_ok sh1" and f: "first_of (\<lambda>p. pu_ID p = ?pid) (sh_purchases sh1) = Some pu"
        and pu: "pu \<in> set (sh_purchases sh1)" "pu_ID pu = ?pid" "pu_Quote pu = qid" "pu_Context pu = oq_AuthContextID q"
        and fr: "?pid \<notin> set (map ent_Purchase (sh_entitlements sh1))" and t: "sh_quotes sh1 = sh_quotes sh" "sh_contexts sh1 = sh_contexts sh" by blast
    have q1: "sh_quotes sh1 (pu_Quote pu) = Some (q\<lparr>oq_Consumed := True\<rparr>)" "sh_contexts sh1 (pu_Context pu) = Some (c\<lparr>ac_Consumed := True\<rparr>)"
      by (simp_all add: pu t qc)
    obtain k where k: "subject_col (ac_Subject c) = Some k" "oq_PriceMinor q = 0"
        "grant_kernel sh1 (ce_now env) (ce_entitlement_id env) pu k (oq_GrantSnapshot q) = Some sh'"
      using g f q1 by (auto simp: p4_grant_quoted_entitlement_def split: if_splits option.splits)
    show ?thesis
      by (rule grant_ok [OF _ _ pu(1) _ q1]) (use ok1 fr k pu(2) in \<open>simp_all add: shop_ok_def\<close>)
  next
    case nf: False
    show ?thesis
    proof (cases "method_of q = AcquireVoucher")
      case True
      then obtain sh1 where i: "insert_purchase sh ?pid qid q ''VOUCHER_REDEMPTION'' ''PENDING'' AcquireVoucher ''SETTLED'' = Some sh1"
          and g: "p4_grant_voucher_entitlement sh1 (ce_now env) (ce_entitlement_id env) ?pid = Some sh'"
        using fin nf by (auto simp: complete_purchase_def Let_def split: option.splits)
      from insert_purchase_ok [OF rd i] obtain pu where ok1: "shop_ok sh1" and f: "first_of (\<lambda>p. pu_ID p = ?pid) (sh_purchases sh1) = Some pu"
          and pu: "pu \<in> set (sh_purchases sh1)" "pu_ID pu = ?pid" "pu_Quote pu = qid" "pu_Context pu = oq_AuthContextID q"
          and fr: "?pid \<notin> set (map ent_Purchase (sh_entitlements sh1))" and t: "sh_quotes sh1 = sh_quotes sh" "sh_contexts sh1 = sh_contexts sh" by blast
      have q1: "sh_quotes sh1 (pu_Quote pu) = Some (q\<lparr>oq_Consumed := True\<rparr>)" "sh_contexts sh1 (pu_Context pu) = Some (c\<lparr>ac_Consumed := True\<rparr>)"
        by (simp_all add: pu t qc)
      have kd: "cs_Kind (ac_Subject c) = SubjectVoucher" using v True by simp
      have k: "grant_kernel sh1 (ce_now env) (ce_entitlement_id env) pu (SubjectVoucher, cs_VoucherID (ac_Subject c)) (oq_GrantSnapshot q) = Some sh'"
        using g f q1 by (auto simp: p4_grant_voucher_entitlement_def split: if_splits option.splits)
      show ?thesis
        by (rule grant_ok [OF _ _ pu(1) _ q1, where k = "(SubjectVoucher, cs_VoucherID (ac_Subject c))"])
          (use ok1 fr k kd pu(2) in \<open>simp_all add: shop_ok_def subject_col_def\<close>)
    next
      case False
      then have "insert_purchase sh ?pid qid q ''GUEST_SELECTION'' ''AWAITING_SETTLEMENT'' AcquireCard ''REQUIRED'' = Some sh'"
        using fin nf by (auto simp: complete_purchase_def Let_def split: if_splits)
      then show ?thesis using insert_purchase_ok [OF rd] by blast
    qed
  qed
qed

lemma confirm_gate_Inr:
  assumes "confirm_gate en sh req env = Inr (q, ac)"
  shows "sh_quotes sh (cr_QuoteID req) = Some q \<and> sh_contexts sh (oq_AuthContextID q) = Some ac
    \<and> (method_of q = AcquireVoucher) = (cs_Kind (ac_Subject ac) = SubjectVoucher)
    \<and> revalidateQuote q (method_of q) (en_site en) = [] \<and> \<not> ac_Consumed ac \<and> ac_ExpiresAt ac > ce_now env"
proof (cases "sh_quotes sh (cr_QuoteID req)")
  case (Some x)
  note g = assms [unfolded confirm_gate_def Let_def Some option.case]
  then obtain a where a: "ce_allocation_mode env (oq_PackageRevisionID x) = Inr a"
    by (cases "ce_allocation_mode env (oq_PackageRevisionID x)") (simp_all split: if_splits)
  then obtain c where c: "sh_contexts sh (oq_AuthContextID x) = Some c"
    using g by (cases "sh_contexts sh (oq_AuthContextID x)") (simp_all split: if_splits)
  show ?thesis using g a c Some by (simp split: if_splits)
qed (use assms in \<open>simp add: confirm_gate_def Let_def\<close>)

lemma confirm_tx_ok:
  assumes ok: "shop_ok sh"
  shows "shop_ok (fst (confirm_tx en sh req env))"
proof (cases "confirm_gate en sh req env")
  case (Inl r)
  then show ?thesis using ok by (simp add: confirm_tx_def)
next
  case (Inr qa)
  obtain q ac where qa: "qa = (q, ac)" by (cases qa)
  note G = confirm_gate_Inr [OF Inr [unfolded qa]]
  then have q: "sh_quotes sh (cr_QuoteID req) = Some q" and c: "sh_contexts sh (oq_AuthContextID q) = Some ac"
    and v: "(method_of q = AcquireVoucher) = (cs_Kind (ac_Subject ac) = SubjectVoucher)" by blast+
  show ?thesis
  proof (cases "ConsumeOfferQuote sh (cr_QuoteID req) (ce_now env)")
    case None
    then show ?thesis using ok Inr qa by (simp add: confirm_tx_def)
  next
    case s1: (Some sh1)
    show ?thesis
    proof (cases "ConsumeAuthContextByID sh1 (oq_AuthContextID q) (ce_now env)")
      case None
      obtain x where "sh_quotes sh (cr_QuoteID req) = Some x" "sh1 = sh\<lparr>sh_quotes := (sh_quotes sh)(cr_QuoteID req \<mapsto> x\<lparr>oq_Consumed := True\<rparr>)\<rparr>"
        using ConsumeOfferQuote_kept [OF s1] by blast
      then have "shop_ok sh1" using shop_ok_kept [OF ok quote_rows_kept] by simp
      then show ?thesis using Inr qa s1 None by (simp add: confirm_tx_def)
    next
      case s2: (Some sh2)
      have rd: "ready sh2 (cr_QuoteID req) q ac" by (rule consumed_ready [OF ok q c s1 s2])
      show ?thesis
      proof (cases "complete_purchase sh2 env (cr_QuoteID req) q")
        case None
        then show ?thesis using Inr qa s1 s2 ok by (simp add: confirm_tx_def)
      next
        case (Some r)
        then have "shop_ok (fst r)" using complete_purchase_ok [OF rd _ v] by (cases r) simp
        then show ?thesis using Inr qa s1 s2 Some by (simp add: confirm_tx_def)
      qed
    qed
  qed
qed

lemma ConfirmPurchase_ok: "shop_ok sh \<Longrightarrow> shop_ok (fst (ConfirmPurchase en sh req env))"
  using confirm_tx_ok by (simp add: ConfirmPurchase_def)

lemma CreateQuote_ok:
  assumes "shop_ok sh"
  shows "shop_ok (fst (CreateQuote rfc en sh req env))"
proof (cases "fst (CreateQuote rfc en sh req env) = sh")
  case False
  then obtain q where "sh_quotes sh (qe_quote_id env) = None" "fst (CreateQuote rfc en sh req env) = insert_quote sh (qe_quote_id env) q"
    by (simp add: CreateQuote_def split: if_splits outcome.splits)
  moreover from this have "rows_kept sh (insert_quote sh (qe_quote_id env) q)"
    by (auto simp: rows_kept_def quote_kept_def context_kept_def insert_quote_def)
  ultimately show ?thesis using shop_ok_kept [OF assms] by (simp add: insert_quote_def)
qed (use assms in simp)

lemma shop_step_ok:
  assumes ok: "shop_ok sh"
  shows "shop_ok (shop_step rfc en sh ev)"
proof (cases ev)
  case (EvSignIn c)
  then show ?thesis using ok by (auto intro!: shop_ok_kept [OF ok] simp: rows_kept_def quote_kept_def context_kept_def)
next
  case (EvContextUsed i)
  then show ?thesis using ok shop_ok_kept [OF ok context_rows_kept] by (auto split: option.splits)
next
  case (EvForeignQuote i q)
  then show ?thesis using ok by (auto intro!: shop_ok_kept [OF ok] simp: rows_kept_def quote_kept_def context_kept_def)
next
  case (EvIssueVoucher i v)
  then show ?thesis using ok by (auto intro!: shop_ok_kept [OF ok] simp: rows_kept_same)
next
  case (EvWithdrawVoucher i)
  then show ?thesis using ok by (auto intro!: shop_ok_kept [OF ok] simp: rows_kept_same split: option.splits)
qed (use ok in \<open>simp_all add: CreateQuote_ok ConfirmPurchase_ok end_ok\<close>)

interpretation shop: invariant_machine "shop_step rfc en" shop_ok
  by unfold_locales (rule shop_step_ok)

lemma empty_shop_ok: "shop_ok empty_shop"
  by (simp add: shop_ok_def purchases_ok_def entitlements_ok_def empty_shop_def by_voucher_def live_of_def)

subsection \<open>Results\<close>

lemma distinct_map_filter_one:
  "distinct (map f xs) \<Longrightarrow> x \<in> set xs \<Longrightarrow> length (filter (\<lambda>y. f y = f x) xs) = 1"
proof (induction xs)
  case (Cons y ys)
  show ?case
  proof (cases "x = y")
    case True
    have "filter (\<lambda>z. f z = f y) ys = []" using Cons.prems(1) by (auto simp: filter_empty_conv) (metis imageI)
    then show ?thesis using True by simp
  next
    case False
    then have "f y \<noteq> f x" using Cons.prems by auto
    then show ?thesis using Cons False by simp
  qed
qed simp

text \<open>
  C8: Purchases and entitlements of a shop, whatever sequence of quotes, confirms, sign-ins, voucher
  operations and endings leads to it and whichever transactions fail: no quote and no auth context is ever
  bought with twice; every entitlement belongs to one purchase and gives the subject of its context
  exactly the package and snapshot of its quote; a quote with a price never yields an entitlement here
  except to a voucher; a voucher yields at most one, of the package it was printed for, and is spent then;
  and a subject never has two live entitlements.
\<close>

theorem shop_tables_sound:
  assumes "sh = run (shop_step rfc en) empty_shop evs"
  shows "distinct (map pu_Quote (sh_purchases sh)) \<and> distinct (map pu_Context (sh_purchases sh))
    \<and> distinct (map ent_Purchase (sh_entitlements sh))
    \<and> (\<forall>e \<in> set (sh_entitlements sh). \<exists>p \<in> set (sh_purchases sh). \<exists>q c. pu_ID p = ent_Purchase e
         \<and> sh_quotes sh (pu_Quote p) = Some q \<and> sh_contexts sh (pu_Context p) = Some c
         \<and> ent_Package e = oq_PackageRevisionID q \<and> ent_Snapshot e = oq_GrantSnapshot q
         \<and> subject_col (ac_Subject c) = Some (ent_Subject e) \<and> (oq_PriceMinor q = 0 \<or> fst (ent_Subject e) = SubjectVoucher))
    \<and> (\<forall>e \<in> set (sh_entitlements sh). fst (ent_Subject e) = SubjectVoucher \<longrightarrow>
         (\<exists>v. sh_vouchers sh (snd (ent_Subject e)) = Some v \<and> vo_State v = ''REDEEMED'' \<and> vo_Package v = ent_Package e)
         \<and> length (filter (\<lambda>e'. ent_Subject e' = ent_Subject e) (sh_entitlements sh)) = 1)
    \<and> (\<forall>k. length (live_of k (sh_entitlements sh)) \<le> 1)"
proof -
  have ok: "shop_ok sh" unfolding assms by (rule shop.run_inv [OF empty_shop_ok])
  have "\<exists>p \<in> set (sh_purchases sh). \<exists>q c. pu_ID p = ent_Purchase e \<and> sh_quotes sh (pu_Quote p) = Some q
        \<and> sh_contexts sh (pu_Context p) = Some c \<and> ent_Package e = oq_PackageRevisionID q \<and> ent_Snapshot e = oq_GrantSnapshot q
        \<and> subject_col (ac_Subject c) = Some (ent_Subject e) \<and> (oq_PriceMinor q = 0 \<or> fst (ent_Subject e) = SubjectVoucher)"
    if "e \<in> set (sh_entitlements sh)" for e
  proof -
    have "entitlement_backed sh e" using ok that by (simp add: shop_ok_def entitlements_ok_def)
    then show ?thesis unfolding entitlement_backed_def by blast
  qed
  moreover have "length (filter (\<lambda>e'. ent_Subject e' = ent_Subject e) (sh_entitlements sh)) = 1"
    if "e \<in> set (sh_entitlements sh)" "fst (ent_Subject e) = SubjectVoucher" for e
  proof -
    have "filter (\<lambda>e'. ent_Subject e' = ent_Subject e) (sh_entitlements sh) = filter (\<lambda>e'. ent_Subject e' = ent_Subject e) (by_voucher (sh_entitlements sh))"
      using that(2) by (auto simp: by_voucher_def intro!: filter_cong)
    moreover have "distinct (map ent_Subject (by_voucher (sh_entitlements sh)))" using ok by (simp add: shop_ok_def entitlements_ok_def)
    moreover have "e \<in> set (by_voucher (sh_entitlements sh))" using that by (simp add: by_voucher_def)
    ultimately show ?thesis using distinct_map_filter_one by metis
  qed
  moreover have "voucher_spent sh e" if "e \<in> set (sh_entitlements sh)" for e using ok that by (simp add: shop_ok_def entitlements_ok_def)
  ultimately show ?thesis using ok unfolding shop_ok_def purchases_ok_def entitlements_ok_def voucher_spent_def by blast
qed

definition sample_quote_event :: "string \<Rightarrow> string \<Rightarrow> shop_event" where
  "sample_quote_event c i = EvQuote (sample_request\<lparr>qr_AuthContextID := c\<rparr>)
     \<lparr>qe_now = 0, qe_quote_id = i, qe_commits = True, qe_reads = sample_reads ''VALIDITY_WINDOW'', qe_package_of = (\<lambda>_. ''pk'')\<rparr>"

definition sample_confirm_event :: "string \<Rightarrow> string \<Rightarrow> string \<Rightarrow> shop_event" where
  "sample_confirm_event i p e = EvConfirm \<lparr>cr_TenantID = ''t'', cr_SiteID = ''s'', cr_QuoteID = i, cr_DeviceID = ''d1'', cr_GuestNetworkID = ''n1''\<rparr>
     \<lparr>ce_now = 1, ce_purchase_id = p, ce_entitlement_id = e, ce_commits = True, ce_allocation_mode = (\<lambda>_. Inr AllocFixed)\<rparr>"

definition sample_shop :: "shop_event list \<Rightarrow> shop" where
  "sample_shop evs = run (shop_step (\<lambda>_. None) sample_engine) empty_shop
     ([EvSignIn (sample_context ''c1''), EvSignIn (sample_context ''c2'')] @ evs)"

definition once_bought :: shop where
  "once_bought = sample_shop [sample_quote_event ''c1'' ''q1'', sample_confirm_event ''q1'' ''p1'' ''e1'']"

lemma once_bought_entitlements: "map (\<lambda>e. (ent_ID e, ent_Purchase e, ent_Status e)) (sh_entitlements once_bought) = [(''e1'', ''p1'', ''ACTIVE'')]"
  by code_simp

theorem shop_tables_sound_witness:
  "map ent_ID (sh_entitlements once_bought) = [''e1''] \<and> length (live_of (SubjectAccount, ''a1'') (sh_entitlements once_bought)) \<le> 1"
proof -
  have "map ent_ID (sh_entitlements once_bought) = map fst (map (\<lambda>e. (ent_ID e, ent_Purchase e, ent_Status e)) (sh_entitlements once_bought))"
    by (simp add: comp_def)
  moreover have "length (live_of (SubjectAccount, ''a1'') (sh_entitlements once_bought)) \<le> 1"
    using shop_tables_sound [OF once_bought_def [unfolded sample_shop_def]] by blast
  ultimately show ?thesis by (simp add: once_bought_entitlements)
qed

text \<open>
  A package limited to one acquisition per client refuses a quote after the first grant, but the limit is checked only
  when a quote is made. Two quotes taken before either is confirmed, from two sign-ins of one client, both
  grant.
\<close>

lemma once_per_client_at_quote:
  "snd (CreateQuote (\<lambda>_. None) sample_engine once_bought (sample_request\<lparr>qr_AuthContextID := ''c2''\<rparr>)
     \<lparr>qe_now = 2, qe_quote_id = ''q2'', qe_commits = True, qe_reads = sample_reads ''VALIDITY_WINDOW'', qe_package_of = (\<lambda>_. ''pk'')\<rparr>)
   = Denied ''ineligible:forbids_prior_purchase''"
  by code_simp

lemma once_per_client_not_rechecked:
  "map (\<lambda>e. (ent_ID e, ent_Subject e, ent_Package e, ent_Status e))
     (sh_entitlements (sample_shop [sample_quote_event ''c1'' ''q1'', sample_quote_event ''c2'' ''q2'',
        sample_confirm_event ''q1'' ''p1'' ''e1'', sample_confirm_event ''q2'' ''p2'' ''e2'']))
   = [(''e1'', (''ACCOUNT'', ''a1''), ''r1'', ''TERMINATED''), (''e2'', (''ACCOUNT'', ''a1''), ''r1'', ''ACTIVE'')]"
  by code_simp

subsection \<open>A free quote can be confirmed\<close>

lemma applicable_free:
  "AcquireFree \<in> set (applicableMethods pkg ac site) \<Longrightarrow>
   pg_PriceMinor pkg = 0 \<and> currency_ok (pg_Currency pkg) (pg_CurrencyExponent pkg) \<and> cs_Kind (ac_Subject ac) \<noteq> SubjectVoucher"
  by (auto simp: applicableMethods_def acquire_defs split: if_splits)

lemma grant_of_version: "grant_of rfc R now ac pkg = Some g \<Longrightarrow> gs_Version g = GrantSnapshotVersion"
  unfolding grant_of_def
  by (auto simp: BuildGrantSnapshot_Inr with_end_def split: sum.splits option.splits if_splits bool.splits)

lemma quote_outcome_Accepted:
  assumes "quote_outcome rfc en R now req = Accepted q"
  shows "\<exists>ac pkg. rd_LoadAuthContext R (qr_AuthContextID req) = Inr ac \<and> context_gate req ac now = None \<and> quote_for rfc en R now req ac pkg = Accepted q"
  using assms by (auto simp: quote_outcome_def split: sum.splits option.splits outcome.splits)

lemma free_quote_checks:
  assumes "quote_for rfc en R now req ac pkg = Accepted q" and m: "gs_AcquisitionMethod (oq_GrantSnapshot q) = AcquireFree"
  shows "oq_PriceMinor q = 0 \<and> currency_ok (oq_Currency q) (oq_CurrencyExponent q) \<and> gs_Version (oq_GrantSnapshot q) = GrantSnapshotVersion
    \<and> cs_Kind (ac_Subject ac) \<noteq> SubjectVoucher \<and> oq_AuthContextID q = ac_ID ac
    \<and> TimeModeAcquirable (gs_TimeAccountingMode (oq_GrantSnapshot q)) (en_aggregateOnlineTime en) = []"
proof -
  from assms(1) [unfolded quote_for_accepted Let_def] obtain cur g where
      mm: "chosen_method (applicableMethods pkg ac (en_site en)) (qr_Method req) \<in> set (applicableMethods pkg ac (en_site en))"
      and c: "ValidateCurrency (pg_Currency pkg) (pg_CurrencyExponent pkg) = Inr cur" and g: "grant_of rfc R now ac pkg = Some g"
      and t: "TimeModeAcquirable (gs_TimeAccountingMode g) (en_aggregateOnlineTime en) = []" and q: "q = quote_of en now req ac pkg cur g" by blast
  have "chosen_method (applicableMethods pkg ac (en_site en)) (qr_Method req) = AcquireFree" using m by (simp add: q quote_of_def)
  then have f: "AcquireFree \<in> set (applicableMethods pkg ac (en_site en))" using mm by simp
  show ?thesis using applicable_free [OF f] ValidateCurrency_Inr [OF c] grant_of_version [OF g] t by (auto simp: q quote_of_def)
qed

definition quote_row :: "offer_quote_spec \<Rightarrow> offer_quote_row" where
  "quote_row q = offer_quote_spec.extend q
     \<lparr>oq_Consumed = False, oq_PMSInterfaceID = None, oq_SettlementMappingID = None, oq_TaxCode = None, oq_TaxRateBP = None, oq_TaxAmountMinor = None\<rparr>"

lemma quote_row_fields [simp]:
  "oq_AuthContextID (quote_row q) = oq_AuthContextID q" "oq_PackageRevisionID (quote_row q) = oq_PackageRevisionID q"
  "oq_PriceMinor (quote_row q) = oq_PriceMinor q" "oq_Currency (quote_row q) = oq_Currency q"
  "oq_CurrencyExponent (quote_row q) = oq_CurrencyExponent q" "oq_GrantSnapshot (quote_row q) = oq_GrantSnapshot q"
  "oq_ExpiresAt (quote_row q) = oq_ExpiresAt q" "\<not> oq_Consumed (quote_row q)" "oq_PMSInterfaceID (quote_row q) = None"
  "oq_SettlementMappingID (quote_row q) = None" "oq_TaxCode (quote_row q) = None" "oq_TaxRateBP (quote_row q) = None"
  "oq_TaxAmountMinor (quote_row q) = None"
  by (simp_all add: quote_row_def offer_quote_spec.defs)

lemma subject_valid_col: "snd (subjectID s) \<Longrightarrow> cs_Kind s \<noteq> SubjectVoucher \<Longrightarrow> \<exists>k. subject_col s = Some k \<and> fst k \<noteq> SubjectVoucher"
  by (auto simp: subjectID_def subject_col_def split: if_splits)

lemma kernel_grants:
  assumes "gs_ServicePlanRevisionID snap \<noteq> []" and "fst k \<noteq> SubjectVoucher" and "pu_State pu = ''PENDING''"
    and "pu_ID pu \<notin> set (map ent_Purchase (sh_entitlements sh))" and "eid \<notin> set (map ent_ID (sh_entitlements sh))"
  shows "\<exists>sh'. grant_kernel sh now eid pu k snap = Some sh' \<and> new_entitlement sh now eid pu k snap \<in> set (sh_entitlements sh')"
proof -
  have "\<not> list_ex (\<lambda>e. ent_Purchase e = pu_ID pu) (sh_entitlements sh)" using assms(4) by (force simp: list_ex_iff)
  then have "grant_kernel sh now eid pu k snap = Some (sh\<lparr>sh_entitlements := without_live sh k @ [new_entitlement sh now eid pu k snap],
      sh_purchases := set_purchase_state (pu_ID pu) ''GRANTED'' (sh_purchases sh)\<rparr>)"
    using assms unfolding grant_kernel_def Let_def without_live_def [symmetric] new_entitlement_def [symmetric] by simp
  then show ?thesis by simp
qed

text \<open>The free branch of a confirm on consumed rows: it grants.\<close>

lemma complete_free:
  assumes rd: "ready sh qid q c" and m: "method_of q = AcquireFree" and p: "oq_PriceMinor q = 0"
    and plan: "gs_ServicePlanRevisionID (oq_GrantSnapshot q) \<noteq> []" and k: "subject_col (ac_Subject c) = Some k" "fst k \<noteq> SubjectVoucher"
    and fresh: "ce_purchase_id env \<notin> set (map pu_ID (sh_purchases sh))" "ce_purchase_id env \<notin> set (map st_Purchase (sh_settlements sh))"
      "ce_entitlement_id env \<notin> set (map ent_ID (sh_entitlements sh))"
  shows "\<exists>sh'. complete_purchase sh env qid q = Some (sh', PurchaseGranted (ce_purchase_id env))
    \<and> (\<exists>e \<in> set (sh_entitlements sh'). ent_ID e = ce_entitlement_id env \<and> ent_Snapshot e = oq_GrantSnapshot q \<and> ent_Subject e = k \<and> is_live e)"
proof -
  let ?pid = "ce_purchase_id env"
  define pu where "pu = \<lparr>pu_ID = ?pid, pu_Quote = qid, pu_Context = oq_AuthContextID q, pu_Package = oq_PackageRevisionID q,
      pu_Trigger = ''GUEST_SELECTION'', pu_Amount = oq_PriceMinor q, pu_Currency = oq_Currency q, pu_State = ''PENDING''\<rparr>"
  define sh1 where "sh1 = sh\<lparr>sh_purchases := sh_purchases sh @ [pu],
      sh_settlements := sh_settlements sh @ [\<lparr>st_Purchase = ?pid, st_Method = ''NOT_REQUIRED'', st_Status = ''NOT_REQUIRED''\<rparr>]\<rparr>"
  have i: "insert_purchase sh ?pid qid q ''GUEST_SELECTION'' ''PENDING'' ''NOT_REQUIRED'' ''NOT_REQUIRED'' = Some sh1"
    using fresh(1) by (simp add: insert_purchase_def sh1_def pu_def)
  have last: "first_of P (xs @ [x]) = Some x" if "\<forall>y \<in> set xs. \<not> P y" "P x" for P and x :: 'b and xs
    using that by (induction xs) auto
  have f: "first_of (\<lambda>p. pu_ID p = ?pid) (sh_purchases sh1) = Some pu"
    unfolding sh1_def using fresh(1) by (simp, intro last) (force simp: pu_def)+
  have st: "settlement_is sh1 ?pid ''NOT_REQUIRED'' ''NOT_REQUIRED''"
  proof -
    let ?s = "\<lparr>st_Purchase = ?pid, st_Method = ''NOT_REQUIRED'', st_Status = ''NOT_REQUIRED''\<rparr>"
    have "first_of (\<lambda>s. st_Purchase s = ?pid) (sh_settlements sh @ [?s]) = Some ?s" using fresh(2) by (intro last) (force)+
    then show ?thesis by (simp add: settlement_is_def sh1_def)
  qed
  have fr: "?pid \<notin> set (map ent_Purchase (sh_entitlements sh1))" using insert_purchase_ok [OF rd i] by blast
  have "\<exists>sh'. grant_kernel sh1 (ce_now env) (ce_entitlement_id env) pu k (oq_GrantSnapshot q) = Some sh'
      \<and> new_entitlement sh1 (ce_now env) (ce_entitlement_id env) pu k (oq_GrantSnapshot q) \<in> set (sh_entitlements sh')"
    by (rule kernel_grants [OF plan k(2)]) (use fr fresh(3) in \<open>simp_all add: pu_def sh1_def\<close>)
  then obtain sh' where g: "grant_kernel sh1 (ce_now env) (ce_entitlement_id env) pu k (oq_GrantSnapshot q) = Some sh'"
      and e: "new_entitlement sh1 (ce_now env) (ce_entitlement_id env) pu k (oq_GrantSnapshot q) \<in> set (sh_entitlements sh')" by blast
  have "sh_quotes sh1 (pu_Quote pu) = Some (q\<lparr>oq_Consumed := True\<rparr>)" "sh_contexts sh1 (pu_Context pu) = Some (c\<lparr>ac_Consumed := True\<rparr>)"
    using rd by (simp_all add: ready_def sh1_def pu_def)
  then have "p4_grant_quoted_entitlement sh1 (ce_now env) (ce_entitlement_id env) ?pid = Some sh'"
    using f st p k(1) g by (simp add: p4_grant_quoted_entitlement_def)
  then have "complete_purchase sh env qid q = Some (sh', PurchaseGranted ?pid)" using m i by (simp add: complete_purchase_def)
  moreover have "\<exists>e \<in> set (sh_entitlements sh'). ent_ID e = ce_entitlement_id env \<and> ent_Snapshot e = oq_GrantSnapshot q \<and> ent_Subject e = k \<and> is_live e"
    by (rule bexI [OF _ e]) (simp add: new_entitlement_def is_live_def)
  ultimately show ?thesis by blast
qed

lemma CreateQuote_Accepted:
  assumes "CreateQuote rfc en sh req env = (sh', Accepted q)" and "sh_contexts sh (qr_AuthContextID req) = Some c"
  shows "sh' = sh\<lparr>sh_quotes := (sh_quotes sh)(qe_quote_id env \<mapsto> quote_row q)\<rparr> \<and> sh_quotes sh (qe_quote_id env) = None \<and> en_PortalOn en
    \<and> context_gate req c (qe_now env) = None
    \<and> (\<exists>pkg. quote_for rfc en (shop_reads (qe_package_of env) sh (qe_now env) (qe_reads env)) (qe_now env) req c pkg = Accepted q)
    \<and> qr_TenantID req \<noteq> [] \<and> qr_SiteID req \<noteq> [] \<and> qr_DeviceID req \<noteq> [] \<and> qr_GuestNetworkID req \<noteq> []"
proof -
  let ?R = "shop_reads (qe_package_of env) sh (qe_now env) (qe_reads env)"
  have o: "quote_outcome rfc en ?R (qe_now env) req = Accepted q" and rest: "sh' = insert_quote sh (qe_quote_id env) q"
      "sh_quotes sh (qe_quote_id env) = None" "en_PortalOn en"
      "qr_TenantID req \<noteq> []" "qr_SiteID req \<noteq> []" "qr_DeviceID req \<noteq> []" "qr_GuestNetworkID req \<noteq> []"
    using assms(1) by (auto simp: CreateQuote_def split: if_splits outcome.splits)
  have "rd_LoadAuthContext ?R (qr_AuthContextID req) = Inr c" using assms(2) by (simp add: shop_reads_def)
  then show ?thesis using quote_outcome_Accepted [OF o] rest by (auto simp: insert_quote_def quote_row_def)
qed


definition sample_quote_env :: quote_env where
  "sample_quote_env = \<lparr>qe_now = 0, qe_quote_id = ''q1'', qe_commits = True, qe_reads = sample_reads ''VALIDITY_WINDOW'', qe_package_of = (\<lambda>_. ''pk'')\<rparr>"

definition sample_confirm_env :: confirm_env where
  "sample_confirm_env = \<lparr>ce_now = 1, ce_purchase_id = ''p1'', ce_entitlement_id = ''e1'', ce_commits = True, ce_allocation_mode = (\<lambda>_. Inr AllocFixed)\<rparr>"

definition sample_quoted :: "shop \<times> offer_quote_spec outcome" where
  "sample_quoted = CreateQuote (\<lambda>_. None) sample_engine (sample_shop []) sample_request sample_quote_env"

lemma sample_quoted_ok:
  "case snd sample_quoted of Accepted q \<Rightarrow>
     gs_AcquisitionMethod (oq_GrantSnapshot q) = AcquireFree \<and> gs_ServicePlanRevisionID (oq_GrantSnapshot q) = ''v1'' \<and> oq_ExpiresAt q > 1
   | _ \<Rightarrow> False"
  by code_simp

lemma sample_shop_signed_in:
  "sh_contexts (sample_shop []) ''c1'' = Some (sample_context ''c1'')" "sh_purchases (sample_shop []) = []"
  "sh_settlements (sample_shop []) = []" "sh_entitlements (sample_shop []) = []"
  by (simp_all add: sample_shop_def empty_shop_def sample_context_def)


end
