(* ===== verification/Assignment_Trust.thy ===== *)
theory Assignment_Trust
  imports Prelude
begin

text \<open>
  Which keys an appliance trusts to say who owns it (\<open>data-plane/internal/assignment\<close>: \<open>assignment.go\<close>, \<open>registry.go\<close>,
  \<open>signed_registry.go\<close>, \<open>registry_store.go\<close>, \<open>terminal.go\<close> and \<open>TrustedRegistry\<close> of \<open>resolve.go\<close>): the signed assignment document,
  the registry of signing keys, its signed and versioned envelope and the file that keeps it. Ed25519,
  SHA-256, base64 and the JSON of the signed projections are arguments. A file is what reading and decoding it
  yields; a durable write replaces it whole, fails before the rename, or fails to sync the directory after it.
\<close>

subsection \<open>Keys and encodings\<close>

record sign_view =
  sv_AssignmentID :: string
  sv_ApplianceID :: string
  sv_IdentityKeyFpr :: string
  sv_Serial :: string
  sv_TenantID :: string
  sv_SiteID :: string
  sv_TenantName :: string
  sv_SiteName :: string
  sv_Version :: int
  sv_State :: string
  sv_IssuedAt :: int
  sv_ExpiresAt :: int
  sv_SignerKeyID :: string
  sv_SiteType :: string

record trusted_key =
  tk_KeyID :: string
  tk_PublicKey :: string
  tk_State :: string
  tk_AddedAt :: string
  tk_RetiredAt :: string
  tk_Note :: string

record reg_sign_view =
  rw_RegistryVersion :: int
  rw_IssuedAt :: int
  rw_NotBefore :: int
  rw_NotAfter :: int
  rw_Keys :: "trusted_key list"
  rw_SignerKeyID :: string

record ack_sign_view =
  aw_ApplianceID :: string
  aw_Version :: int
  aw_TerminalState :: string
  aw_Fingerprint :: string
  aw_AdoptedAt :: int

record key_kit =
  kk_verify :: "string \<Rightarrow> string \<Rightarrow> string \<Rightarrow> bool"
  kk_sign :: "string \<Rightarrow> string \<Rightarrow> string"
  kk_public :: "string \<Rightarrow> string"
  kk_sha256 :: "string \<Rightarrow> string"
  kk_b64_encode :: "string \<Rightarrow> string"
  kk_b64_decode :: "string \<Rightarrow> string option"
  kk_b64_raw_decode :: "string \<Rightarrow> string option"
  kk_doc_json :: "sign_view \<Rightarrow> string"
  kk_reg_json :: "reg_sign_view \<Rightarrow> string"
  kk_ack_json :: "ack_sign_view \<Rightarrow> string"

definition ed25519_PublicKeySize :: nat where "ed25519_PublicKeySize = 32"

definition hex_nibble :: "nat \<Rightarrow> char" where
  "hex_nibble n = ''0123456789abcdef'' ! (n mod 16)"

definition hex_bytes :: "string \<Rightarrow> string" where
  "hex_bytes s = concat (map (\<lambda>c. [hex_nibble (of_char c div 16), hex_nibble (of_char c)]) s)"

definition KeyID :: "key_kit \<Rightarrow> string \<Rightarrow> string" where
  "KeyID K pub = hex_bytes (take 8 (kk_sha256 K pub))"

text \<open>\<open>now.Unix()\<close>: whole seconds.\<close>

definition Unix :: "go_time \<Rightarrow> int" where
  "Unix t = t div second"

subsection \<open>The assignment document\<close>

definition StateAssigned :: string where "StateAssigned = ''assigned''"
definition StateReassigned :: string where "StateReassigned = ''reassigned''"
definition StateUnassigned :: string where "StateUnassigned = ''unassigned''"
definition StateRevoked :: string where "StateRevoked = ''revoked''"
definition StateDecommissioned :: string where "StateDecommissioned = ''decommissioned''"

definition Grants :: "string \<Rightarrow> bool" where
  "Grants s \<longleftrightarrow> s = StateAssigned \<or> s = StateReassigned"

definition Clears :: "string \<Rightarrow> bool" where
  "Clears s \<longleftrightarrow> s = StateUnassigned \<or> s = StateRevoked \<or> s = StateDecommissioned"

definition knownState :: "string \<Rightarrow> bool" where
  "knownState s \<longleftrightarrow> Grants s \<or> Clears s"

record asg_doc =
  ad_AssignmentID :: string
  ad_ApplianceID :: string
  ad_IdentityKeyFpr :: string
  ad_Serial :: string
  ad_TenantID :: string
  ad_SiteID :: string
  ad_TenantName :: string
  ad_SiteName :: string
  ad_Version :: int
  ad_State :: string
  ad_IssuedAt :: int
  ad_ExpiresAt :: int
  ad_SignerKeyID :: string
  ad_Signature :: string
  ad_SiteType :: string

definition IsExpired :: "asg_doc \<Rightarrow> go_time \<Rightarrow> bool" where
  "IsExpired d now \<longleftrightarrow> ad_ExpiresAt d \<noteq> 0 \<and> Unix now > ad_ExpiresAt d"

definition signView :: "asg_doc \<Rightarrow> sign_view" where
  "signView d = \<lparr>sv_AssignmentID = ad_AssignmentID d, sv_ApplianceID = ad_ApplianceID d, sv_IdentityKeyFpr = ad_IdentityKeyFpr d,
     sv_Serial = ad_Serial d, sv_TenantID = ad_TenantID d, sv_SiteID = ad_SiteID d, sv_TenantName = ad_TenantName d,
     sv_SiteName = ad_SiteName d, sv_Version = ad_Version d, sv_State = ad_State d, sv_IssuedAt = ad_IssuedAt d,
     sv_ExpiresAt = ad_ExpiresAt d, sv_SignerKeyID = ad_SignerKeyID d, sv_SiteType = ad_SiteType d\<rparr>"

definition signingBytes :: "key_kit \<Rightarrow> asg_doc \<Rightarrow> string" where
  "signingBytes K d = kk_doc_json K (signView d)"

definition asg_Sign :: "key_kit \<Rightarrow> string \<Rightarrow> asg_doc \<Rightarrow> asg_doc" where
  "asg_Sign K priv d = (let d' = d\<lparr>ad_SignerKeyID := KeyID K (kk_public K priv)\<rparr>
     in d'\<lparr>ad_Signature := kk_b64_encode K (kk_sign K priv (signingBytes K d'))\<rparr>)"

definition asg_Verify :: "key_kit \<Rightarrow> string \<Rightarrow> asg_doc \<Rightarrow> bool" where
  "asg_Verify K pub d = (case kk_b64_decode K (ad_Signature d) of
      None \<Rightarrow> False
    | Some sig \<Rightarrow> kk_verify K pub (signingBytes K d) sig)"

datatype refusal =
    SignatureInvalid | OtherAppliance | SerialMismatch | IdentityMismatch | NotNewer | UnknownState | MissingScope
  | NoRegistry | UnknownSigner | RevokedSigner | BadPublicKey

text \<open>\<open>AcceptFor\<close>; no refusal is \<open>None\<close>. The expiry is not a reason.\<close>

definition AcceptFor :: "key_kit \<Rightarrow> string \<Rightarrow> asg_doc \<Rightarrow> string \<Rightarrow> string \<Rightarrow> string \<Rightarrow> int \<Rightarrow> refusal option" where
  "AcceptFor K pub d applianceID serial identityFpr haveVersion =
    (if \<not> asg_Verify K pub d then Some SignatureInvalid
     else if ad_ApplianceID d \<noteq> applianceID then Some OtherAppliance
     else if ad_Serial d \<noteq> [] \<and> serial \<noteq> [] \<and> ad_Serial d \<noteq> serial then Some SerialMismatch
     else if ad_IdentityKeyFpr d \<noteq> [] \<and> identityFpr \<noteq> [] \<and> ad_IdentityKeyFpr d \<noteq> identityFpr then Some IdentityMismatch
     else if ad_Version d \<le> haveVersion then Some NotNewer
     else if \<not> knownState (ad_State d) then Some UnknownState
     else if Grants (ad_State d) \<and> (ad_TenantID d = [] \<or> ad_SiteID d = []) then Some MissingScope
     else None)"

subsection \<open>The registry of keys\<close>

definition KeyActive :: string where "KeyActive = ''active''"
definition KeyVerifyOnly :: string where "KeyVerifyOnly = ''verify_only''"
definition KeyRevoked :: string where "KeyRevoked = ''revoked''"

definition CanSign :: "string \<Rightarrow> bool" where
  "CanSign s \<longleftrightarrow> s = KeyActive"

definition CanVerify :: "string \<Rightarrow> bool" where
  "CanVerify s \<longleftrightarrow> s = KeyActive \<or> s = KeyVerifyOnly"

type_synonym key_registry = "trusted_key list"

fun reg_Lookup :: "key_registry \<Rightarrow> string \<Rightarrow> trusted_key option" where
  "reg_Lookup [] i = None"
| "reg_Lookup (k # ks) i = (if tk_KeyID k = i then Some k else reg_Lookup ks i)"

definition PublicKeyOf :: "key_kit \<Rightarrow> trusted_key \<Rightarrow> string option" where
  "PublicKeyOf K k = (case kk_b64_decode K (tk_PublicKey k) of
      None \<Rightarrow> None
    | Some raw \<Rightarrow> if length raw \<noteq> ed25519_PublicKeySize then None else Some raw)"

fun put_key :: "trusted_key \<Rightarrow> key_registry \<Rightarrow> key_registry" where
  "put_key k [] = [k]"
| "put_key k (x # xs) = (if tk_KeyID x = tk_KeyID k then k # xs else x # put_key k xs)"

definition AddOrRotate :: "key_registry \<Rightarrow> trusted_key \<Rightarrow> string \<Rightarrow> key_registry" where
  "AddOrRotate r k now =
    put_key (k\<lparr>tk_State := KeyActive, tk_AddedAt := (if tk_AddedAt k = [] then now else tk_AddedAt k)\<rparr>) r"

fun setState :: "key_registry \<Rightarrow> string \<Rightarrow> string \<Rightarrow> string \<Rightarrow> key_registry \<times> bool" where
  "setState [] i st now = ([], False)"
| "setState (k # ks) i st now =
    (if tk_KeyID k = i
     then (k\<lparr>tk_State := st, tk_RetiredAt := (if st \<noteq> KeyActive then now else tk_RetiredAt k)\<rparr> # ks, True)
     else let (ks', ok) = setState ks i st now in (k # ks', ok))"

definition VerifyOnly :: "key_registry \<Rightarrow> string \<Rightarrow> string \<Rightarrow> key_registry \<times> bool" where
  "VerifyOnly r i now = setState r i KeyVerifyOnly now"

definition Revoke :: "key_registry \<Rightarrow> string \<Rightarrow> string \<Rightarrow> key_registry \<times> bool" where
  "Revoke r i now = setState r i KeyRevoked now"

definition AcceptForRegistry ::
  "key_kit \<Rightarrow> key_registry option \<Rightarrow> asg_doc \<Rightarrow> string \<Rightarrow> string \<Rightarrow> string \<Rightarrow> int \<Rightarrow> refusal option" where
  "AcceptForRegistry K reg d applianceID serial identityFpr haveVersion =
    (case reg of None \<Rightarrow> Some NoRegistry | Some ks \<Rightarrow>
       if ks = [] then Some NoRegistry
       else case reg_Lookup ks (ad_SignerKeyID d) of
         None \<Rightarrow> Some UnknownSigner
       | Some k \<Rightarrow>
           if \<not> CanVerify (tk_State k) then Some RevokedSigner
           else case PublicKeyOf K k of
             None \<Rightarrow> Some BadPublicKey
           | Some pub \<Rightarrow> AcceptFor K pub d applianceID serial identityFpr haveVersion)"

subsection \<open>The signed registry\<close>

record signed_registry =
  sr_RegistryVersion :: int
  sr_IssuedAt :: int
  sr_NotBefore :: int
  sr_NotAfter :: int
  sr_Keys :: "trusted_key list"
  sr_SignerKeyID :: string
  sr_Signature :: string

definition regSigningBytes :: "key_kit \<Rightarrow> signed_registry \<Rightarrow> string" where
  "regSigningBytes K sr = kk_reg_json K \<lparr>rw_RegistryVersion = sr_RegistryVersion sr, rw_IssuedAt = sr_IssuedAt sr,
     rw_NotBefore = sr_NotBefore sr, rw_NotAfter = sr_NotAfter sr, rw_Keys = sr_Keys sr, rw_SignerKeyID = sr_SignerKeyID sr\<rparr>"

definition SignRegistry :: "key_kit \<Rightarrow> string \<Rightarrow> signed_registry \<Rightarrow> signed_registry" where
  "SignRegistry K priv sr = (let sr' = sr\<lparr>sr_SignerKeyID := KeyID K (kk_public K priv)\<rparr>
     in sr'\<lparr>sr_Signature := kk_b64_encode K (kk_sign K priv (regSigningBytes K sr'))\<rparr>)"

datatype reg_refusal =
    RegUnknownRoot | RegSignatureInvalid | RegNotYetValid | RegExpired | RegRollback | RegVersionReuse | RegPersistFailed

definition root_signed :: "key_kit \<Rightarrow> string \<Rightarrow> signed_registry \<Rightarrow> bool" where
  "root_signed K rootPub sr = (case kk_b64_decode K (sr_Signature sr) of
      None \<Rightarrow> False
    | Some sig \<Rightarrow> kk_verify K rootPub (regSigningBytes K sr) sig)"

definition VerifyRegistry :: "key_kit \<Rightarrow> string \<Rightarrow> signed_registry \<Rightarrow> go_time \<Rightarrow> reg_refusal option" where
  "VerifyRegistry K rootPub sr now =
    (if sr_SignerKeyID sr \<noteq> KeyID K rootPub then Some RegUnknownRoot
     else if \<not> root_signed K rootPub sr then Some RegSignatureInvalid
     else if sr_NotBefore sr \<noteq> 0 \<and> Unix now < sr_NotBefore sr then Some RegNotYetValid
     else if sr_NotAfter sr \<noteq> 0 \<and> Unix now > sr_NotAfter sr then Some RegExpired
     else None)"

subsection \<open>The file of the signed registry\<close>

record registry_record =
  rr_Current :: "signed_registry option"
  rr_Previous :: "signed_registry option"
  rr_AdoptedAt :: string

text \<open>What decoding the file yields: a record, or in the old format a bare signed registry.\<close>

datatype registry_file = NoRegistryFile | GarbledRegistry | RegistryRecordFile registry_record | BareRegistryFile signed_registry

datatype plain_file = NoPlainFile | GarbledPlain | PlainFile key_registry

text \<open>A durable write: an error before the rename, an error syncing the directory after it, or success.\<close>

datatype write_outcome = WriteFails | WriteUnsynced | WriteSucceeds

definition write_cell :: "write_outcome \<Rightarrow> 'a \<Rightarrow> 'a \<Rightarrow> 'a" where
  "write_cell w old new = (if w = WriteFails then old else new)"

record trust_disk =
  td_registry :: registry_file
  td_adopted :: bool
  td_plain :: plain_file
  td_root :: "string option"

fun reg_Load :: "registry_file \<Rightarrow> registry_record option" where
  "reg_Load NoRegistryFile = None"
| "reg_Load GarbledRegistry = None"
| "reg_Load (RegistryRecordFile rec) = (if rr_Current rec \<noteq> None then Some rec else None)"
| "reg_Load (BareRegistryFile sr) =
    (if sr_RegistryVersion sr > 0 then Some \<lparr>rr_Current = Some sr, rr_Previous = None, rr_AdoptedAt = []\<rparr> else None)"

definition CurrentVersion :: "trust_disk \<Rightarrow> int" where
  "CurrentVersion s = (case reg_Load (td_registry s) of
      None \<Rightarrow> 0
    | Some rec \<Rightarrow> (case rr_Current rec of None \<Rightarrow> 0 | Some sr \<Rightarrow> sr_RegistryVersion sr))"

text \<open>Once adopted, a registry is checked for its signature and its expiry only: whether the signature holds, and a reason.\<close>

definition verifyAdopted :: "key_kit \<Rightarrow> string \<Rightarrow> signed_registry \<Rightarrow> go_time \<Rightarrow> bool \<times> reg_refusal option" where
  "verifyAdopted K rootPub sr now =
    (if sr_SignerKeyID sr \<noteq> KeyID K rootPub then (False, Some RegUnknownRoot)
     else if \<not> root_signed K rootPub sr then (False, Some RegSignatureInvalid)
     else if sr_NotAfter sr \<noteq> 0 \<and> Unix now > sr_NotAfter sr then (True, Some RegExpired)
     else (True, None))"

definition previous_trusted :: "key_kit \<Rightarrow> string \<Rightarrow> registry_record \<Rightarrow> go_time \<Rightarrow> key_registry option" where
  "previous_trusted K rootPub rec now = (case rr_Previous rec of
      None \<Rightarrow> None
    | Some p \<Rightarrow> if VerifyRegistry K rootPub p now = None then Some (sr_Keys p) else None)"

definition Trusted :: "key_kit \<Rightarrow> string \<Rightarrow> registry_file \<Rightarrow> go_time \<Rightarrow> key_registry option" where
  "Trusted K rootPub f now = (case reg_Load f of
      None \<Rightarrow> None
    | Some rec \<Rightarrow> (case rr_Current rec of
        None \<Rightarrow> previous_trusted K rootPub rec now
      | Some sr \<Rightarrow> (case verifyAdopted K rootPub sr now of
          (_, None) \<Rightarrow> Some (sr_Keys sr)
        | (True, Some _) \<Rightarrow> None
        | (False, Some _) \<Rightarrow> previous_trusted K rootPub rec now)))"

definition FileExists :: "registry_file \<Rightarrow> bool" where
  "FileExists f \<longleftrightarrow> f \<noteq> NoRegistryFile"

text \<open>The vetting of a fetched registry: nothing to do, or a reason not to take it.\<close>

definition Check :: "key_kit \<Rightarrow> string \<Rightarrow> trust_disk \<Rightarrow> signed_registry \<Rightarrow> go_time \<Rightarrow> bool \<times> reg_refusal option" where
  "Check K rootPub s sr now = (case VerifyRegistry K rootPub sr now of
      Some e \<Rightarrow> (False, Some e)
    | None \<Rightarrow> (case Option.bind (reg_Load (td_registry s)) rr_Current of
        None \<Rightarrow> (False, None)
      | Some cur \<Rightarrow>
          if sr_RegistryVersion sr < sr_RegistryVersion cur then (False, Some RegRollback)
          else if sr_RegistryVersion sr = sr_RegistryVersion cur then
            (if sr \<noteq> cur then (False, Some RegVersionReuse) else (True, None))
          else (False, None)))"

record adopt_env =
  ae_now :: go_time
  ae_stamp :: string
  ae_save :: write_outcome
  ae_mark :: write_outcome

definition reg_Adopt :: "key_kit \<Rightarrow> string \<Rightarrow> trust_disk \<Rightarrow> signed_registry \<Rightarrow> adopt_env \<Rightarrow> trust_disk \<times> bool \<times> reg_refusal option" where
  "reg_Adopt K rootPub s sr env = (case Check K rootPub s sr (ae_now env) of
      (noop, Some e) \<Rightarrow> (s, False, Some e)
    | (True, None) \<Rightarrow> (s, False, None)
    | (False, None) \<Rightarrow>
        (let rec = \<lparr>rr_Current = Some sr, rr_Previous = Option.bind (reg_Load (td_registry s)) rr_Current, rr_AdoptedAt = ae_stamp env\<rparr>;
             s1 = s\<lparr>td_registry := write_cell (ae_save env) (td_registry s) (RegistryRecordFile rec)\<rparr>
         in if ae_save env \<noteq> WriteSucceeds then (s1, False, Some RegPersistFailed)
            else if td_adopted s1 then (s1, True, None)
            else let s2 = s1\<lparr>td_adopted := write_cell (ae_mark env) (td_adopted s1) True\<rparr>
            in if ae_mark env \<noteq> WriteSucceeds then (s2, False, Some RegPersistFailed) else (s2, True, None)))"

datatype registry_source = FromSigned | FromPlain | FromNone

definition LoadRegistry :: "plain_file \<Rightarrow> key_registry option" where
  "LoadRegistry f = (case f of PlainFile r \<Rightarrow> Some r | _ \<Rightarrow> None)"

definition LoadRootPub :: "trust_disk \<Rightarrow> string option" where
  "LoadRootPub s = (case td_root s of
      None \<Rightarrow> None | Some raw \<Rightarrow> if length raw \<noteq> ed25519_PublicKeySize then None else Some raw)"

definition plain_registry :: "trust_disk \<Rightarrow> key_registry option \<times> registry_source" where
  "plain_registry s =
    (if td_adopted s then (None, FromNone)
     else case LoadRegistry (td_plain s) of None \<Rightarrow> (None, FromNone) | Some r \<Rightarrow> (Some r, FromPlain))"

definition TrustedRegistry :: "key_kit \<Rightarrow> trust_disk \<Rightarrow> go_time \<Rightarrow> key_registry option \<times> registry_source" where
  "TrustedRegistry K s now = (case LoadRootPub s of
      None \<Rightarrow> plain_registry s
    | Some root \<Rightarrow> (case Trusted K root (td_registry s) now of
        Some r \<Rightarrow> (Some r, FromSigned)
      | None \<Rightarrow> if FileExists (td_registry s) then (None, FromNone) else plain_registry s))"

subsection \<open>Acknowledging a terminal document\<close>

definition DocFingerprint :: "key_kit \<Rightarrow> asg_doc \<Rightarrow> string" where
  "DocFingerprint K d = hex_bytes (kk_sha256 K (signingBytes K d @ ad_Signature d))"

record ack_doc = ack_sign_view + ak_Signature :: string

definition ackSigningBytes :: "key_kit \<Rightarrow> ack_doc \<Rightarrow> string" where
  "ackSigningBytes K a = kk_ack_json K (ack_sign_view.truncate a)"

definition SignAck :: "key_kit \<Rightarrow> string \<Rightarrow> ack_doc \<Rightarrow> ack_doc" where
  "SignAck K priv a = a\<lparr>ak_Signature := kk_b64_encode K (kk_sign K priv (ackSigningBytes K a))\<rparr>"

definition VerifyAck :: "key_kit \<Rightarrow> string \<Rightarrow> ack_doc \<Rightarrow> bool" where
  "VerifyAck K pub a = (case kk_b64_decode K (ak_Signature a) of
      None \<Rightarrow> False
    | Some sig \<Rightarrow> kk_verify K pub (ackSigningBytes K a) sig)"

subsection \<open>What the registry guarantees\<close>

definition root_registry :: "key_kit \<Rightarrow> string \<Rightarrow> go_time \<Rightarrow> key_registry \<Rightarrow> bool" where
  "root_registry K root now ks \<longleftrightarrow> (\<exists>sr. sr_Keys sr = ks \<and> sr_SignerKeyID sr = KeyID K root \<and> root_signed K root sr
     \<and> (sr_NotAfter sr = 0 \<or> Unix now \<le> sr_NotAfter sr))"

lemma VerifyRegistry_root: "VerifyRegistry K root sr now = None \<Longrightarrow> root_registry K root now (sr_Keys sr)"
  by (auto simp: VerifyRegistry_def root_registry_def split: if_splits)

lemma verifyAdopted_root: "verifyAdopted K root sr now = (b, None) \<Longrightarrow> root_registry K root now (sr_Keys sr)"
  by (auto simp: verifyAdopted_def root_registry_def split: if_splits)

lemma previous_trusted_root: "previous_trusted K root rec now = Some ks \<Longrightarrow> root_registry K root now ks"
  by (auto simp: previous_trusted_def VerifyRegistry_root split: option.splits if_splits)

lemma Trusted_root: "Trusted K root f now = Some ks \<Longrightarrow> root_registry K root now ks"
  by (auto simp: Trusted_def previous_trusted_root verifyAdopted_root split: option.splits prod.splits bool.splits)

lemma TrustedRegistry_cases:
  assumes "TrustedRegistry K s now = (Some ks, src)"
  shows "(\<exists>root. LoadRootPub s = Some root \<and> root_registry K root now ks \<and> src = FromSigned)
    \<or> (\<not> td_adopted s \<and> td_plain s = PlainFile ks \<and> src = FromPlain)"
  using assms by (auto simp: TrustedRegistry_def plain_registry_def LoadRegistry_def Trusted_root split: option.splits if_splits plain_file.splits)

lemma reg_Adopt_keeps:
  "td_plain (fst (reg_Adopt K root s sr env)) = td_plain s" "td_root (fst (reg_Adopt K root s sr env)) = td_root s"
  "td_adopted s \<Longrightarrow> td_adopted (fst (reg_Adopt K root s sr env))"
  by (auto simp: reg_Adopt_def Let_def write_cell_def split: prod.splits option.splits bool.splits)

lemma reg_Adopt_accepts:
  assumes "reg_Adopt K root s sr env = (s', True, r)"
  shows "td_adopted s' \<and> Option.bind (reg_Load (td_registry s')) rr_Current = Some sr \<and> VerifyRegistry K root sr (ae_now env) = None
    \<and> CurrentVersion s' = sr_RegistryVersion sr"
  using assms
  by (auto simp: reg_Adopt_def Check_def Let_def write_cell_def CurrentVersion_def split: prod.splits option.splits bool.splits if_splits)

text \<open>Without anybody else writing the file, the version of the registry never goes down, whichever writes fail.\<close>

lemma reg_Adopt_version:
  assumes "Option.bind (reg_Load (td_registry s)) rr_Current = Some cur"
  shows "\<exists>new. Option.bind (reg_Load (td_registry (fst (reg_Adopt K root s sr env)))) rr_Current = Some new
    \<and> (new = cur \<or> sr_RegistryVersion cur < sr_RegistryVersion new)"
  using assms
  by (auto simp: reg_Adopt_def Check_def Let_def write_cell_def split: prod.splits option.splits bool.splits if_splits)

text \<open>What a signer signs verifies under its key.\<close>

lemma sign_verify:
  assumes "\<And>x. kk_b64_decode K (kk_b64_encode K x) = Some x" and "\<And>m. kk_verify K (kk_public K priv) m (kk_sign K priv m)"
  shows "asg_Verify K (kk_public K priv) (asg_Sign K priv d)"
    and "root_signed K (kk_public K priv) (SignRegistry K priv sr)"
    and "VerifyAck K (kk_public K priv) (SignAck K priv a)"
  using assms by (simp_all add: asg_Verify_def asg_Sign_def signingBytes_def signView_def root_signed_def SignRegistry_def regSigningBytes_def
      VerifyAck_def SignAck_def ackSigningBytes_def ack_sign_view.truncate_def Let_def)

text \<open>
  The marker that ends the use of the unsigned trust file is written after the registry. When that second
  write fails, the registry is held and every later offer of it is a no-op, so the marker is not written again;
  should the registry file then go missing, the unsigned file is trusted once more.
\<close>

definition sample_kit :: key_kit where
  "sample_kit = \<lparr>kk_verify = (\<lambda>pub m sg. sg = m), kk_sign = (\<lambda>priv m. m), kk_public = (\<lambda>p. p), kk_sha256 = (\<lambda>s. s),
     kk_b64_encode = (\<lambda>s. s), kk_b64_decode = Some, kk_b64_raw_decode = Some, kk_doc_json = (\<lambda>v. sv_SignerKeyID v @ sv_TenantID v),
     kk_reg_json = (\<lambda>v. rw_SignerKeyID v), kk_ack_json = (\<lambda>v. aw_ApplianceID v)\<rparr>"

definition sample_root :: string where "sample_root = replicate 32 CHR ''r''"
definition sample_signer :: string where "sample_signer = replicate 32 CHR ''k''"

definition sample_trusted_key :: trusted_key where
  "sample_trusted_key = \<lparr>tk_KeyID = KeyID sample_kit sample_signer, tk_PublicKey = sample_signer, tk_State = KeyActive, tk_AddedAt = [], tk_RetiredAt = [], tk_Note = []\<rparr>"

definition sample_registry :: signed_registry where
  "sample_registry = SignRegistry sample_kit sample_root
     \<lparr>sr_RegistryVersion = 7, sr_IssuedAt = 0, sr_NotBefore = 0, sr_NotAfter = 0, sr_Keys = [sample_trusted_key], sr_SignerKeyID = [], sr_Signature = []\<rparr>"

definition fresh_trust :: trust_disk where
  "fresh_trust = \<lparr>td_registry = NoRegistryFile, td_adopted = False, td_plain = PlainFile [], td_root = Some sample_root\<rparr>"

lemma marker_not_retried:
  fixes s1 s2
  defines "s1 \<equiv> fst (reg_Adopt sample_kit sample_root fresh_trust sample_registry
      \<lparr>ae_now = 0, ae_stamp = [], ae_save = WriteSucceeds, ae_mark = WriteFails\<rparr>)"
    and "s2 \<equiv> fst (reg_Adopt sample_kit sample_root s1 sample_registry
      \<lparr>ae_now = 0, ae_stamp = [], ae_save = WriteSucceeds, ae_mark = WriteSucceeds\<rparr>)"
  shows "snd (TrustedRegistry sample_kit s2 0) = FromSigned \<and> snd (TrustedRegistry sample_kit (s2\<lparr>td_registry := NoRegistryFile\<rparr>) 0) = FromPlain"
  unfolding s1_def s2_def by code_simp

end
