(* ===== verification/Assignment_Store.thy ===== *)
theory Assignment_Store
  imports Assignment_Trust
begin

text \<open>
  Who owns an appliance (\<open>data-plane/internal/assignment\<close>: \<open>store.go\<close>, \<open>resolve.go\<close>, \<open>resolve_local.go\<close>; the poll of
  \<open>data-plane/cmd/scd/assignment.go\<close>): the adopted document with the highest version ever adopted beside it, its
  verification on every use, and the agent that fetches newer ones. The machine at the end adds the steps of
  somebody who can write the assignment file, the registry file and the unsigned trust file. The lemmas
  show what such an appliance can be made to believe and that an outage changes nothing.
\<close>

subsection \<open>The record and its file\<close>

record asg_record =
  rc_Current :: "asg_doc option"
  rc_Previous :: "asg_doc option"
  rc_Version :: int
  rc_SignerKeyID :: string
  rc_State :: string
  rc_AdoptedAt :: string
  rc_LastRefreshSuccess :: string
  rc_LastRefreshAttempt :: string
  rc_StaleSince :: string

text \<open>What decoding \<open>assignment.json\<close> yields; the old format was the bare document.\<close>

datatype asg_file = NoAssignment | GarbledAssignment | RecordFile asg_record | BareDocument asg_doc

datatype highest_file = NoHighest | GarbledHighest | Highest string int

record asg_disk = trust_disk +
  sd_asg :: asg_file
  sd_highest :: highest_file

fun HighestAdopted :: "highest_file \<Rightarrow> string \<Rightarrow> int" where
  "HighestAdopted NoHighest a = 0"
| "HighestAdopted GarbledHighest a = 0"
| "HighestAdopted (Highest i v) a = (if i = [] \<or> i \<noteq> a then 0 else v)"

datatype asg_load = LoadMissing | LoadBad | Loaded asg_record

definition empty_record :: asg_record where
  "empty_record = \<lparr>rc_Current = None, rc_Previous = None, rc_Version = 0, rc_SignerKeyID = [], rc_State = [], rc_AdoptedAt = [],
     rc_LastRefreshSuccess = [], rc_LastRefreshAttempt = [], rc_StaleSince = []\<rparr>"

fun asg_Load :: "asg_file \<Rightarrow> asg_load" where
  "asg_Load NoAssignment = LoadMissing"
| "asg_Load GarbledAssignment = LoadBad"
| "asg_Load (RecordFile r) = (if rc_Current r \<noteq> None then Loaded r else LoadBad)"
| "asg_Load (BareDocument d) =
    (if ad_AssignmentID d = [] \<and> ad_ApplianceID d = [] then LoadBad
     else Loaded (empty_record\<lparr>rc_Current := Some d, rc_Version := ad_Version d, rc_SignerKeyID := ad_SignerKeyID d, rc_State := ad_State d\<rparr>))"

definition held_doc :: "asg_file \<Rightarrow> asg_doc option" where
  "held_doc f = (case asg_Load f of Loaded r \<Rightarrow> rc_Current r | _ \<Rightarrow> None)"

record store_env =
  se_stamp :: string
  se_save :: write_outcome
  se_high :: write_outcome

definition adopted_record :: "asg_file \<Rightarrow> asg_doc \<Rightarrow> string \<Rightarrow> asg_record" where
  "adopted_record f d now = \<lparr>rc_Current = Some d, rc_Previous = held_doc f, rc_Version = ad_Version d, rc_SignerKeyID = ad_SignerKeyID d,
     rc_State = ad_State d, rc_AdoptedAt = now, rc_LastRefreshSuccess = now, rc_LastRefreshAttempt = now, rc_StaleSince = []\<rparr>"

text \<open>\<open>Adopt\<close>: the record first, then the mark; either write may fail. The flag says that no error was returned.\<close>

definition asg_Adopt :: "asg_disk \<Rightarrow> asg_doc \<Rightarrow> store_env \<Rightarrow> asg_disk \<times> bool" where
  "asg_Adopt s d env =
    (let s1 = s\<lparr>sd_asg := write_cell (se_save env) (sd_asg s) (RecordFile (adopted_record (sd_asg s) d (se_stamp env)))\<rparr>
     in if se_save env \<noteq> WriteSucceeds then (s1, False)
        else if ad_ApplianceID d \<noteq> [] \<and> ad_Version d > HighestAdopted (sd_highest s1) (ad_ApplianceID d) then
          (s1\<lparr>sd_highest := write_cell (se_high env) (sd_highest s1) (Highest (ad_ApplianceID d) (ad_Version d))\<rparr>, se_high env = WriteSucceeds)
        else (s1, True))"

definition noted :: "asg_record \<Rightarrow> bool \<Rightarrow> bool \<Rightarrow> string \<Rightarrow> asg_record" where
  "noted r ok expired now = r\<lparr>rc_LastRefreshAttempt := now,
     rc_LastRefreshSuccess := (if ok then now else rc_LastRefreshSuccess r),
     rc_StaleSince := (if expired then (if rc_StaleSince r = [] then now else rc_StaleSince r) else [])\<rparr>"

definition NoteRefresh :: "asg_disk \<Rightarrow> bool \<Rightarrow> go_time \<Rightarrow> store_env \<Rightarrow> asg_disk" where
  "NoteRefresh s ok now env = (case asg_Load (sd_asg s) of
      Loaded r \<Rightarrow> s\<lparr>sd_asg := write_cell (se_save env) (sd_asg s)
          (RecordFile (noted r ok (case rc_Current r of None \<Rightarrow> False | Some d \<Rightarrow> IsExpired d now) (se_stamp env)))\<rparr>
    | _ \<Rightarrow> s)"

text \<open>The factory reset: the mark is removed first, and a failure there keeps the record. The flags say whether the removals work.\<close>

definition asg_Clear :: "asg_disk \<Rightarrow> bool \<Rightarrow> bool \<Rightarrow> asg_disk \<times> bool" where
  "asg_Clear s rmHigh rmAsg =
    (if \<not> rmHigh then (s, False)
     else let s1 = s\<lparr>sd_highest := NoHighest\<rparr>
     in if \<not> rmAsg then (s1, False) else (s1\<lparr>sd_asg := NoAssignment\<rparr>, True))"

datatype asg_status = StatusNone | StatusStale | StatusCurrent

definition Status :: "asg_disk \<Rightarrow> go_time \<Rightarrow> asg_status" where
  "Status s now = (case held_doc (sd_asg s) of
      None \<Rightarrow> StatusNone | Some d \<Rightarrow> if IsExpired d now then StatusStale else StatusCurrent)"

definition Resolved :: "asg_disk \<Rightarrow> string \<times> string \<times> string \<times> int" where
  "Resolved s = (case held_doc (sd_asg s) of
      None \<Rightarrow> ([], [], [], 0)
    | Some d \<Rightarrow> if Grants (ad_State d) then (ad_TenantID d, ad_SiteID d, ad_State d, ad_Version d)
                else ([], [], ad_State d, ad_Version d))"

subsection \<open>Resolving the owner\<close>

record binding =
  bd_ApplianceID :: string
  bd_Serial :: string
  bd_PublicKeyB64 :: string

datatype asg_outcome = OutcomeAbsent | OutcomeUnverifiable | OutcomeNotGranting | OutcomeGranted

record resolution =
  rs_TenantID :: string
  rs_SiteID :: string
  rs_State :: string
  rs_Version :: int
  rs_Outcome :: asg_outcome
  rs_Stale :: bool

definition no_scope :: "asg_outcome \<Rightarrow> resolution" where
  "no_scope out = \<lparr>rs_TenantID = [], rs_SiteID = [], rs_State = [], rs_Version = 0, rs_Outcome = out, rs_Stale = False\<rparr>"

definition Assigned :: "resolution \<Rightarrow> bool" where
  "Assigned r \<longleftrightarrow> rs_Outcome r = OutcomeGranted"

definition Refused :: "resolution \<Rightarrow> bool" where
  "Refused r \<longleftrightarrow> rs_Outcome r = OutcomeUnverifiable \<or> rs_Outcome r = OutcomeNotGranting"

definition identity_fpr :: "key_kit \<Rightarrow> string \<Rightarrow> string" where
  "identity_fpr K pk = (case kk_b64_raw_decode K pk of
      None \<Rightarrow> [] | Some raw \<Rightarrow> if length raw = ed25519_PublicKeySize then KeyID K raw else [])"

definition resolve_doc :: "key_kit \<Rightarrow> key_registry option \<Rightarrow> asg_doc \<Rightarrow> binding \<Rightarrow> go_time \<Rightarrow> resolution" where
  "resolve_doc K reg d b now =
    (if reg = None then no_scope OutcomeUnverifiable
     else if AcceptForRegistry K reg d (bd_ApplianceID b) (bd_Serial b) (identity_fpr K (bd_PublicKeyB64 b)) (wrap64 (ad_Version d - 1)) \<noteq> None
       then no_scope OutcomeUnverifiable
     else let out = (no_scope OutcomeNotGranting)\<lparr>rs_State := ad_State d, rs_Version := ad_Version d, rs_Stale := IsExpired d now\<rparr>
     in if Grants (ad_State d)
        then out\<lparr>rs_TenantID := ad_TenantID d, rs_SiteID := ad_SiteID d, rs_Outcome := OutcomeGranted\<rparr>
        else out)"

definition Resolve :: "key_kit \<Rightarrow> asg_disk \<Rightarrow> binding \<Rightarrow> go_time \<Rightarrow> resolution" where
  "Resolve K s b now = (case asg_Load (sd_asg s) of
      LoadMissing \<Rightarrow> no_scope OutcomeAbsent
    | LoadBad \<Rightarrow> no_scope OutcomeUnverifiable
    | Loaded r \<Rightarrow> (case rc_Current r of
        None \<Rightarrow> no_scope OutcomeAbsent
      | Some d \<Rightarrow>
          if ad_Version d < HighestAdopted (sd_highest s) (ad_ApplianceID d) then no_scope OutcomeUnverifiable
          else resolve_doc K (fst (TrustedRegistry K (trust_disk.truncate s) now)) d b now))"

text \<open>A daemon without the private key reads the public identity: unreadable, absent, or there.\<close>

datatype public_identity = IdentityUnreadable | IdentityAbsent | Identity binding

definition ResolveLocal :: "key_kit \<Rightarrow> asg_disk \<Rightarrow> public_identity \<Rightarrow> go_time \<Rightarrow> resolution \<times> string" where
  "ResolveLocal K s ident now = (case ident of
      IdentityUnreadable \<Rightarrow> (no_scope OutcomeUnverifiable, [])
    | _ \<Rightarrow> (let b = (case ident of Identity b \<Rightarrow> b | _ \<Rightarrow> \<lparr>bd_ApplianceID = [], bd_Serial = [], bd_PublicKeyB64 = []\<rparr>)
         in if bd_ApplianceID b = [] then
              (no_scope (if sd_asg s \<noteq> NoAssignment then OutcomeUnverifiable else OutcomeAbsent), [])
            else (Resolve K s b now, bd_ApplianceID b)))"

definition EnvFallbackAllowed :: "bool \<Rightarrow> resolution \<Rightarrow> bool" where
  "EnvFallbackAllowed development r \<longleftrightarrow> rs_Outcome r = OutcomeAbsent \<and> development"

subsection \<open>The agent\<close>

text \<open>
  One poll: the registry is refreshed, then a document is fetched, vetted against the version applied so far
  and adopted. The environment says what Central answered, when, and which writes work.
\<close>

record poll_env =
  po_registry :: "signed_registry option"
  po_doc :: "asg_doc option"
  po_adopt :: adopt_env
  po_note :: store_env
  po_store :: store_env
  po_now :: go_time

record agent =
  ag_disk :: asg_disk
  ag_version :: int

definition refreshSignedRegistry :: "key_kit \<Rightarrow> asg_disk \<Rightarrow> poll_env \<Rightarrow> asg_disk" where
  "refreshSignedRegistry K s env = (case (LoadRootPub (trust_disk.truncate s), po_registry env) of
      (Some root, Some sr) \<Rightarrow>
        (let t = fst (reg_Adopt K root (trust_disk.truncate s) sr (po_adopt env))
         in s\<lparr>td_registry := td_registry t, td_adopted := td_adopted t\<rparr>)
    | _ \<Rightarrow> s)"

definition poll :: "key_kit \<Rightarrow> binding \<Rightarrow> agent \<Rightarrow> poll_env \<Rightarrow> agent" where
  "poll K b a env =
    (let s1 = refreshSignedRegistry K (ag_disk a) env
     in case po_doc env of
       None \<Rightarrow> a\<lparr>ag_disk := NoteRefresh s1 False (po_now env) (po_note env)\<rparr>
     | Some d \<Rightarrow>
         (let s2 = NoteRefresh s1 True (po_now env) (po_note env);
              reg = fst (TrustedRegistry K (trust_disk.truncate s2) (po_now env))
          in if AcceptForRegistry K reg d (bd_ApplianceID b) (bd_Serial b) (identity_fpr K (bd_PublicKeyB64 b)) (ag_version a) \<noteq> None
             then a\<lparr>ag_disk := s2\<rparr>
             else case asg_Adopt s2 d (po_store env) of
               (s3, False) \<Rightarrow> a\<lparr>ag_disk := s3\<rparr>
             | (s3, True) \<Rightarrow> a\<lparr>ag_disk := s3, ag_version := ad_Version d\<rparr>))"

text \<open>A start of the agent takes the applied version from the record.\<close>

definition start_agent :: "asg_disk \<Rightarrow> agent" where
  "start_agent s = \<lparr>ag_disk = s, ag_version = (case asg_Load (sd_asg s) of Loaded r \<Rightarrow> rc_Version r | _ \<Rightarrow> 0)\<rparr>"

subsection \<open>The appliance under attack and in an outage\<close>

datatype appliance_event =
    EvPoll poll_env
  | EvRestart
  | EvWriteAssignment asg_file
  | EvWriteRegistry registry_file
  | EvWritePlain plain_file

fun appliance_step :: "key_kit \<Rightarrow> binding \<Rightarrow> agent \<Rightarrow> appliance_event \<Rightarrow> agent" where
  "appliance_step K b a (EvPoll env) = poll K b a env"
| "appliance_step K b a EvRestart = start_agent (ag_disk a)"
| "appliance_step K b a (EvWriteAssignment f) = a\<lparr>ag_disk := (ag_disk a)\<lparr>sd_asg := f\<rparr>\<rparr>"
| "appliance_step K b a (EvWriteRegistry f) = a\<lparr>ag_disk := (ag_disk a)\<lparr>td_registry := f\<rparr>\<rparr>"
| "appliance_step K b a (EvWritePlain f) = a\<lparr>ag_disk := (ag_disk a)\<lparr>td_plain := f\<rparr>\<rparr>"

lemma truncate_fields [simp]:
  "td_registry (trust_disk.truncate s) = td_registry s" "td_adopted (trust_disk.truncate s) = td_adopted s"
  "td_plain (trust_disk.truncate s) = td_plain s" "td_root (trust_disk.truncate s) = td_root s"
  by (simp_all add: trust_disk.truncate_def)

lemma LoadRootPub_truncate: "td_root s = td_root s' \<Longrightarrow> LoadRootPub (trust_disk.truncate s) = LoadRootPub (trust_disk.truncate s')"
  by (simp add: LoadRootPub_def)

lemma NoteRefresh_keeps [simp]:
  "td_registry (NoteRefresh s ok now env) = td_registry s" "td_adopted (NoteRefresh s ok now env) = td_adopted s"
  "td_plain (NoteRefresh s ok now env) = td_plain s" "td_root (NoteRefresh s ok now env) = td_root s"
  "sd_highest (NoteRefresh s ok now env) = sd_highest s"
  by (simp_all add: NoteRefresh_def split: asg_load.splits)

lemma NoteRefresh_held [simp]: "held_doc (sd_asg (NoteRefresh s ok now env)) = held_doc (sd_asg s)"
  by (cases "sd_asg s") (auto simp: NoteRefresh_def write_cell_def held_doc_def noted_def split: option.splits)

lemma refresh_keeps [simp]:
  "td_root (refreshSignedRegistry K s env) = td_root s" "td_plain (refreshSignedRegistry K s env) = td_plain s"
  "sd_asg (refreshSignedRegistry K s env) = sd_asg s" "sd_highest (refreshSignedRegistry K s env) = sd_highest s"
  by (simp_all add: refreshSignedRegistry_def Let_def split: option.splits)

lemma refresh_adopted: "td_adopted s \<Longrightarrow> td_adopted (refreshSignedRegistry K s env)"
  using reg_Adopt_keeps(3) [of "trust_disk.truncate s"] by (auto simp: refreshSignedRegistry_def Let_def split: option.splits)

lemma AcceptForRegistry_accepts:
  assumes "AcceptForRegistry K reg d i serial fpr have = None"
  shows "\<exists>ks k pub. reg = Some ks \<and> k \<in> set ks \<and> tk_KeyID k = ad_SignerKeyID d \<and> CanVerify (tk_State k) \<and> PublicKeyOf K k = Some pub
    \<and> asg_Verify K pub d \<and> ad_ApplianceID d = i \<and> have < ad_Version d \<and> (Grants (ad_State d) \<longrightarrow> ad_TenantID d \<noteq> [] \<and> ad_SiteID d \<noteq> [])"
proof -
  have look: "reg_Lookup ks i = Some k \<Longrightarrow> k \<in> set ks \<and> tk_KeyID k = i" for ks i k by (induction ks) (auto split: if_splits)
  show ?thesis using assms
    by (fastforce simp: AcceptForRegistry_def AcceptFor_def split: option.splits if_splits dest: look)
qed

lemma asg_Adopt_keeps:
  "td_registry (fst (asg_Adopt s d env)) = td_registry s" "td_adopted (fst (asg_Adopt s d env)) = td_adopted s"
  "td_plain (fst (asg_Adopt s d env)) = td_plain s" "td_root (fst (asg_Adopt s d env)) = td_root s"
  by (simp_all add: asg_Adopt_def Let_def)

lemma asg_Adopt_highest: "HighestAdopted (sd_highest s) (ad_ApplianceID d) \<le> HighestAdopted (sd_highest (fst (asg_Adopt s d env))) (ad_ApplianceID d)"
  by (auto simp: asg_Adopt_def Let_def write_cell_def)

lemma asg_Adopt_done:
  assumes "asg_Adopt s d env = (s', True)"
  shows "held_doc (sd_asg s') = Some d" and "ad_ApplianceID d \<noteq> [] \<Longrightarrow> ad_Version d \<le> HighestAdopted (sd_highest s') (ad_ApplianceID d)"
  using assms by (auto simp: asg_Adopt_def Let_def write_cell_def held_doc_def adopted_record_def split: if_splits)

text \<open>What no step undoes: the mark of the highest version, the end of the unsigned trust file, and the root key.\<close>

definition appliance_le :: "binding \<Rightarrow> agent \<Rightarrow> agent \<Rightarrow> bool" where
  "appliance_le b a a' \<longleftrightarrow>
    HighestAdopted (sd_highest (ag_disk a)) (bd_ApplianceID b) \<le> HighestAdopted (sd_highest (ag_disk a')) (bd_ApplianceID b)
    \<and> (td_adopted (ag_disk a) \<longrightarrow> td_adopted (ag_disk a')) \<and> td_root (ag_disk a') = td_root (ag_disk a)"

lemma poll_le: "appliance_le b a (poll K b a env)"
proof (cases "po_doc env")
  case None
  then show ?thesis using refresh_adopted by (simp add: poll_def Let_def appliance_le_def)
next
  case (Some d)
  let ?s = "NoteRefresh (refreshSignedRegistry K (ag_disk a) env) True (po_now env) (po_note env)"
  let ?acc = "AcceptForRegistry K (fst (TrustedRegistry K (trust_disk.truncate ?s) (po_now env))) d (bd_ApplianceID b) (bd_Serial b)
      (identity_fpr K (bd_PublicKeyB64 b)) (ag_version a)"
  obtain s3 ok where ad: "asg_Adopt ?s d (po_store env) = (s3, ok)" by (cases "asg_Adopt ?s d (po_store env)")
  have d: "?acc = None \<Longrightarrow> ad_ApplianceID d = bd_ApplianceID b" using AcceptForRegistry_accepts by blast
  have "ag_disk (poll K b a env) = (if ?acc = None then s3 else ?s)"
    using Some ad by (auto simp: poll_def Let_def split: bool.splits)
  then show ?thesis
    using d asg_Adopt_highest [of ?s d "po_store env"] asg_Adopt_keeps [of ?s d "po_store env"] refresh_adopted [of "ag_disk a"]
    by (auto simp: ad appliance_le_def)
qed

interpretation appliance: monotone_machine "appliance_step K b" "\<lambda>_. True" "appliance_le b" for K b
proof unfold_locales
  show "appliance_le b a (appliance_step K b a e)" for a e
    by (cases e) (simp_all add: poll_le, simp_all add: appliance_le_def start_agent_def)
qed (auto simp: appliance_le_def)

lemma Resolve_granted:
  assumes "rs_Outcome (Resolve K s b now) = OutcomeGranted"
  shows "\<exists>d ks k pub src. held_doc (sd_asg s) = Some d \<and> HighestAdopted (sd_highest s) (bd_ApplianceID b) \<le> ad_Version d
    \<and> TrustedRegistry K (trust_disk.truncate s) now = (Some ks, src) \<and> k \<in> set ks \<and> CanVerify (tk_State k) \<and> PublicKeyOf K k = Some pub
    \<and> asg_Verify K pub d \<and> ad_ApplianceID d = bd_ApplianceID b \<and> Grants (ad_State d) \<and> ad_TenantID d \<noteq> [] \<and> ad_SiteID d \<noteq> []
    \<and> rs_TenantID (Resolve K s b now) = ad_TenantID d \<and> rs_SiteID (Resolve K s b now) = ad_SiteID d \<and> rs_Version (Resolve K s b now) = ad_Version d"
proof -
  obtain r d where r: "asg_Load (sd_asg s) = Loaded r" "rc_Current r = Some d" "HighestAdopted (sd_highest s) (ad_ApplianceID d) \<le> ad_Version d"
      and o: "rs_Outcome (resolve_doc K (fst (TrustedRegistry K (trust_disk.truncate s) now)) d b now) = OutcomeGranted"
    using assms by (auto simp: Resolve_def no_scope_def split: asg_load.splits option.splits if_splits)
  have res: "Resolve K s b now = resolve_doc K (fst (TrustedRegistry K (trust_disk.truncate s) now)) d b now" using r by (simp add: Resolve_def)
  have acc: "AcceptForRegistry K (fst (TrustedRegistry K (trust_disk.truncate s) now)) d (bd_ApplianceID b) (bd_Serial b)
      (identity_fpr K (bd_PublicKeyB64 b)) (wrap64 (ad_Version d - 1)) = None" and g: "Grants (ad_State d)"
    using o by (auto simp: resolve_doc_def no_scope_def Let_def split: if_splits)
  have f: "rs_TenantID (Resolve K s b now) = ad_TenantID d" "rs_SiteID (Resolve K s b now) = ad_SiteID d" "rs_Version (Resolve K s b now) = ad_Version d"
    using o g by (auto simp: res resolve_doc_def no_scope_def Let_def split: if_splits)
  have h: "held_doc (sd_asg s) = Some d" using r by (simp add: held_doc_def)
  show ?thesis
    using AcceptForRegistry_accepts [OF acc] g f h r(3) by (cases "TrustedRegistry K (trust_disk.truncate s) now") auto
qed


definition sample_doc_v :: "int \<Rightarrow> string \<Rightarrow> asg_doc" where
  "sample_doc_v v t = asg_Sign sample_kit sample_signer \<lparr>ad_AssignmentID = ''as'', ad_ApplianceID = ''ap'', ad_IdentityKeyFpr = [], ad_Serial = [], ad_TenantID = t,
     ad_SiteID = ''si'', ad_TenantName = [], ad_SiteName = [], ad_Version = v, ad_State = StateAssigned, ad_IssuedAt = 0, ad_ExpiresAt = 10,
     ad_SignerKeyID = [], ad_Signature = [], ad_SiteType = []\<rparr>"

definition sample_binding :: binding where
  "sample_binding = \<lparr>bd_ApplianceID = ''ap'', bd_Serial = [], bd_PublicKeyB64 = []\<rparr>"

definition sample_disk_asg :: asg_disk where
  "sample_disk_asg = trust_disk.extend (fst (reg_Adopt sample_kit sample_root fresh_trust sample_registry
      \<lparr>ae_now = 0, ae_stamp = [], ae_save = WriteSucceeds, ae_mark = WriteSucceeds\<rparr>)) \<lparr>sd_asg = NoAssignment, sd_highest = NoHighest\<rparr>"

definition sample_writes :: store_env where
  "sample_writes = \<lparr>se_stamp = ''t'', se_save = WriteSucceeds, se_high = WriteSucceeds\<rparr>"

definition sample_owned :: asg_disk where
  "sample_owned = fst (asg_Adopt sample_disk_asg (sample_doc_v 3 ''t1'') sample_writes)"

lemma sample_owned_facts:
  "snd (asg_Adopt sample_disk_asg (sample_doc_v 3 ''t1'') sample_writes)" "td_adopted sample_disk_asg"
  "ad_ApplianceID (sample_doc_v 3 ''t1'') = bd_ApplianceID sample_binding" "bd_ApplianceID sample_binding \<noteq> []"
  "rs_Outcome (Resolve sample_kit (ag_disk (run (appliance_step sample_kit sample_binding) (start_agent sample_owned)
     [EvWriteAssignment (BareDocument (sample_doc_v 4 ''t2''))])) sample_binding 0) = OutcomeGranted"
  "rs_Outcome (Resolve sample_kit (ag_disk (run (appliance_step sample_kit sample_binding) (start_agent sample_owned)
     [EvWriteAssignment (BareDocument (sample_doc_v 2 ''t2'')), EvRestart])) sample_binding 0) = OutcomeUnverifiable"
  by code_simp+


text \<open>
  While Central cannot be reached a poll fetches nothing; such polls and restarts leave the held document, the
  marks and the registry as they are.
\<close>

fun outage_event :: "appliance_event \<Rightarrow> bool" where
  "outage_event (EvPoll env) \<longleftrightarrow> po_registry env = None \<and> po_doc env = None"
| "outage_event EvRestart \<longleftrightarrow> True"
| "outage_event e \<longleftrightarrow> False"

definition same_trust :: "asg_disk \<Rightarrow> asg_disk \<Rightarrow> bool" where
  "same_trust s s' \<longleftrightarrow> td_registry s' = td_registry s \<and> td_adopted s' = td_adopted s \<and> td_plain s' = td_plain s \<and> td_root s' = td_root s
     \<and> sd_highest s' = sd_highest s \<and> held_doc (sd_asg s') = held_doc (sd_asg s)"

lemma outage_step: "outage_event e \<Longrightarrow> same_trust (ag_disk a) (ag_disk (appliance_step K b a e))"
  by (cases e) (auto simp: same_trust_def poll_def Let_def start_agent_def refreshSignedRegistry_def split: option.splits)

lemma outage_run: "\<forall>e \<in> set evs. outage_event e \<Longrightarrow> same_trust (ag_disk a) (ag_disk (run (appliance_step K b) a evs))"
proof (induction evs arbitrary: a)
  case Nil
  show ?case by (simp add: same_trust_def)
next
  case (Cons e evs)
  show ?case using outage_step [of e a K b] Cons.IH [of "appliance_step K b a e"] Cons.prems by (auto simp: same_trust_def)
qed

definition current_registry :: "asg_disk \<Rightarrow> signed_registry option" where
  "current_registry s = Option.bind (reg_Load (td_registry s)) rr_Current"

lemma TrustedRegistry_current:
  assumes "current_registry s = Some sr" and "LoadRootPub (trust_disk.truncate s) = Some root" and "snd (verifyAdopted K root sr now) = None"
  shows "TrustedRegistry K (trust_disk.truncate s) now = (Some (sr_Keys sr), FromSigned)"
proof -
  have "Trusted K root (td_registry s) now = Some (sr_Keys sr)"
    using assms(1,3) by (cases "reg_Load (td_registry s)") (auto simp: current_registry_def Trusted_def split: prod.splits bool.splits)
  then show ?thesis using assms(2) by (simp add: TrustedRegistry_def)
qed

lemma Resolve_held:
  assumes "held_doc (sd_asg s) = Some d" and "HighestAdopted (sd_highest s) (ad_ApplianceID d) \<le> ad_Version d"
  shows "Resolve K s b now = resolve_doc K (fst (TrustedRegistry K (trust_disk.truncate s) now)) d b now"
  using assms by (auto simp: held_doc_def Resolve_def split: asg_load.splits option.splits)

text \<open>
  C39: An outage of Central takes nothing away. An appliance that resolves its scope through its signed registry
  resolves the same tenant, site and version after any number of polls without an answer and restarts,
  with any of the writes failing and at any time, expired document or not, until the registry itself
  expires.
\<close>

theorem outage_keeps_owner:
  assumes granted: "rs_Outcome (Resolve K (ag_disk a) b now) = OutcomeGranted"
    and sr: "current_registry (ag_disk a) = Some sr" "LoadRootPub (trust_disk.truncate (ag_disk a)) = Some root"
      "snd (verifyAdopted K root sr now) = None"
    and later: "sr_NotAfter sr = 0 \<or> Unix now' \<le> sr_NotAfter sr" and out: "\<forall>e \<in> set evs. outage_event e"
    and a': "a' = run (appliance_step K b) a evs"
  shows "rs_Outcome (Resolve K (ag_disk a') b now') = OutcomeGranted
    \<and> rs_TenantID (Resolve K (ag_disk a') b now') = rs_TenantID (Resolve K (ag_disk a) b now)
    \<and> rs_SiteID (Resolve K (ag_disk a') b now') = rs_SiteID (Resolve K (ag_disk a) b now)
    \<and> rs_Version (Resolve K (ag_disk a') b now') = rs_Version (Resolve K (ag_disk a) b now)"
proof -
  have same: "same_trust (ag_disk a) (ag_disk a')" unfolding a' by (rule outage_run [OF out])
  have v': "snd (verifyAdopted K root sr now') = None" using sr(3) later by (auto simp: verifyAdopted_def split: if_splits)
  have sr': "current_registry (ag_disk a') = Some sr" "LoadRootPub (trust_disk.truncate (ag_disk a')) = Some root"
    using sr same by (simp_all add: current_registry_def same_trust_def LoadRootPub_def)
  obtain d where d: "held_doc (sd_asg (ag_disk a)) = Some d" "HighestAdopted (sd_highest (ag_disk a)) (ad_ApplianceID d) \<le> ad_Version d"
    using Resolve_granted [OF granted] by metis
  have d': "held_doc (sd_asg (ag_disk a')) = Some d" "HighestAdopted (sd_highest (ag_disk a')) (ad_ApplianceID d) \<le> ad_Version d"
    using d same by (simp_all add: same_trust_def)
  have R: "Resolve K (ag_disk a) b now = resolve_doc K (Some (sr_Keys sr)) d b now"
    using Resolve_held [OF d] TrustedRegistry_current [OF sr] by simp
  have R': "Resolve K (ag_disk a') b now' = resolve_doc K (Some (sr_Keys sr)) d b now'"
    using Resolve_held [OF d'] TrustedRegistry_current [OF sr' v'] by simp
  show ?thesis using granted unfolding R R' by (auto simp: resolve_doc_def no_scope_def Let_def split: if_splits)
qed

definition silent_poll :: poll_env where
  "silent_poll = \<lparr>po_registry = None, po_doc = None, po_adopt = \<lparr>ae_now = 0, ae_stamp = [], ae_save = WriteFails, ae_mark = WriteFails\<rparr>,
     po_note = sample_writes, po_store = sample_writes, po_now = 99 * second\<rparr>"

lemma sample_outage:
  "rs_Outcome (Resolve sample_kit (ag_disk (start_agent sample_owned)) sample_binding 0) = OutcomeGranted"
  "rs_TenantID (Resolve sample_kit (ag_disk (start_agent sample_owned)) sample_binding 0) = ''t1''"
  "current_registry (ag_disk (start_agent sample_owned)) = Some sample_registry"
  "LoadRootPub (trust_disk.truncate (ag_disk (start_agent sample_owned))) = Some sample_root"
  "snd (verifyAdopted sample_kit sample_root sample_registry 0) = None" "sr_NotAfter sample_registry = 0"
  by code_simp+

theorem outage_keeps_owner_witness:
  "rs_TenantID (Resolve sample_kit (ag_disk (run (appliance_step sample_kit sample_binding) (start_agent sample_owned)
     [EvPoll silent_poll, EvRestart, EvPoll silent_poll])) sample_binding (100 * second)) = ''t1''"
  using outage_keeps_owner [OF sample_outage(1,3,4,5) _ _ refl, of "100 * second" "[EvPoll silent_poll, EvRestart, EvPoll silent_poll]"]
    sample_outage(2,6) by (simp add: silent_poll_def)

end
