(* ===== verification/Ledger_Chain.thy ===== *)
theory Ledger_Chain
  imports Prelude "HOL-Library.Sublist"
begin

text \<open>
  The erasure ledger as a chain (\<open>data-plane/internal/ledger\<close>: \<open>entry.go\<close>, \<open>mac.go\<close>, \<open>assess.go\<close>): entries linked by their
  hashes, the strict reader of a ledger file, the authentication of entries by the key of the appliance and
  by seals, and the assessment of the copies a restore may rely on. SHA-256 and HMAC (as hexadecimal), the JSON of
  an entry and of a seal are arguments. The sentences of a verdict are left out. The lemmas show what an intact,
  an authenticated and an accepted copy can contain.
\<close>

subsection \<open>Entries\<close>

record ledger_entry =
  le_Ledger :: string
  le_Seq :: int
  le_Prev :: string
  le_Kind :: string
  le_Tenant :: string
  le_Site :: string
  le_AtUS :: int
  le_Body :: string
  le_Hash :: string
  le_Mac :: string

record ledger_kit =
  lk_sha256 :: "string \<Rightarrow> string"
  lk_hmac :: "string \<Rightarrow> string \<Rightarrow> string"
  lk_marshal :: "ledger_entry \<Rightarrow> string option"
  lk_decode :: "string \<Rightarrow> ledger_entry option"
  lk_seal :: "string \<Rightarrow> (int \<times> string) option"

definition GenesisPrev :: string where "GenesisPrev = replicate 64 CHR ''0''"
definition hashDomain :: string where "hashDomain = ''stayconnect-ledger-v1''"
definition unit_sep :: char where "unit_sep = CHR 0x1F"
definition line_feed :: char where "line_feed = CHR 0x0A"

definition hash_fields :: "ledger_entry \<Rightarrow> string list" where
  "hash_fields e = [hashDomain, le_Ledger e, Itoa (le_Seq e), le_Prev e, le_Kind e, le_Tenant e, le_Site e, Itoa (le_AtUS e), le_Body e]"

definition ComputeHash :: "ledger_kit \<Rightarrow> ledger_entry \<Rightarrow> string" where
  "ComputeHash K e = lk_sha256 K (Join unit_sep (hash_fields e))"

definition Line :: "ledger_kit \<Rightarrow> ledger_entry \<Rightarrow> string option" where
  "Line K e = map_option (\<lambda>b. b @ [line_feed]) (lk_marshal K e)"

datatype link_error = EntryIncomplete | NotTheStart | SequenceJumps | DoesNotFollow | AnotherLedger | EntryChanged

definition checkLink :: "ledger_kit \<Rightarrow> ledger_entry option \<Rightarrow> ledger_entry \<Rightarrow> link_error option" where
  "checkLink K prev e =
    (if le_Seq e < 1 \<or> le_Hash e = [] \<or> le_Ledger e = [] \<or> le_Kind e = [] then Some EntryIncomplete
     else let bad = (case prev of
         None \<Rightarrow> if le_Seq e \<noteq> 1 \<or> le_Prev e \<noteq> GenesisPrev then Some NotTheStart else None
       | Some p \<Rightarrow>
           if le_Seq e \<noteq> wrap64 (le_Seq p + 1) then Some SequenceJumps
           else if le_Prev e \<noteq> le_Hash p then Some DoesNotFollow
           else if le_Ledger e \<noteq> le_Ledger p then Some AnotherLedger
           else None)
     in if bad \<noteq> None then bad
        else if ComputeHash K e \<noteq> le_Hash e then Some EntryChanged else None)"

subsection \<open>Reading a ledger file\<close>

datatype parse_error = NotAnEntry nat | BadLink nat link_error | Unauthentic int | NotAsDescribed

record chain_parse =
  cp_Entries :: "ledger_entry list"
  cp_Intact :: bool
  cp_Torn :: bool
  cp_Err :: "parse_error option"
  cp_ValidBytes :: nat

definition Head :: "chain_parse \<Rightarrow> int \<times> string" where
  "Head p = (if cp_Entries p = [] then (0, []) else (le_Seq (last (cp_Entries p)), le_Hash (last (cp_Entries p))))"

definition LedgerID :: "chain_parse \<Rightarrow> string" where
  "LedgerID p = (if cp_Entries p = [] then [] else le_Ledger (hd (cp_Entries p)))"

text \<open>The loop over the lines, with the last entry, the entries so far (latest first), the line number and the offset.\<close>

function parse_from :: "ledger_kit \<Rightarrow> ledger_entry option \<Rightarrow> ledger_entry list \<Rightarrow> nat \<Rightarrow> nat \<Rightarrow> string \<Rightarrow> chain_parse" where
  "parse_from K prev acc n off rest =
    (let stop = (\<lambda>torn err. \<lparr>cp_Entries = rev acc, cp_Intact = False, cp_Torn = torn, cp_Err = err, cp_ValidBytes = off\<rparr>)
     in if rest = [] then \<lparr>cp_Entries = rev acc, cp_Intact = True, cp_Torn = False, cp_Err = None, cp_ValidBytes = off\<rparr>
        else let line = takeWhile (\<lambda>c. c \<noteq> line_feed) rest
        in if length line = length rest then stop True None
           else case lk_decode K line of
             None \<Rightarrow> stop False (Some (NotAnEntry (Suc n)))
           | Some e \<Rightarrow>
               (case checkLink K prev e of
                  Some err \<Rightarrow> stop False (Some (BadLink (Suc n) err))
                | None \<Rightarrow> parse_from K (Some e) (e # acc) (Suc n) (off + length line + 1) (drop (length line + 1) rest)))"
  by pat_completeness auto
termination by (relation "measure (\<lambda>(K, prev, acc, n, off, rest). length rest)") auto

declare parse_from.simps [simp del]

definition ParseChain :: "ledger_kit \<Rightarrow> string \<Rightarrow> chain_parse" where
  "ParseChain K data = parse_from K None [] 0 0 data"

fun Encode :: "ledger_kit \<Rightarrow> ledger_entry list \<Rightarrow> string option" where
  "Encode K [] = Some []"
| "Encode K (e # es) = (case Line K e of None \<Rightarrow> None | Some l \<Rightarrow> map_option ((@) l) (Encode K es))"

fun links :: "ledger_kit \<Rightarrow> ledger_entry option \<Rightarrow> ledger_entry list \<Rightarrow> link_error option" where
  "links K prev [] = None"
| "links K prev (e # es) = (case checkLink K prev e of Some err \<Rightarrow> Some err | None \<Rightarrow> links K (Some e) es)"

text \<open>\<open>Extends\<close>: the entry before is known by its number and hash only, so it takes the ledger of the first new one.\<close>

definition Extends :: "ledger_kit \<Rightarrow> int \<Rightarrow> string \<Rightarrow> ledger_entry list \<Rightarrow> link_error option" where
  "Extends K headSeq headHash next =
    links K (if headSeq > 0 then
        Some \<lparr>le_Ledger = (if next = [] then [] else le_Ledger (hd next)), le_Seq = headSeq, le_Prev = [], le_Kind = [], le_Tenant = [],
              le_Site = [], le_AtUS = 0, le_Body = [], le_Hash = headHash, le_Mac = []\<rparr>
      else None) next"

subsection \<open>Authentication\<close>

definition macDomain :: string where "macDomain = ''stayconnect-ledger-mac-v1''"
definition receiptDomain :: string where "receiptDomain = ''stayconnect-ledger-durable-v1''"
definition KindSeal :: string where "KindSeal = ''seal''"

text \<open>An empty key stands for an appliance without one, which authenticates nothing.\<close>

definition key_mac :: "ledger_kit \<Rightarrow> string \<Rightarrow> string \<Rightarrow> string \<Rightarrow> string" where
  "key_mac K key domain msg = lk_hmac K key (domain @ unit_sep # msg)"

definition EntryMAC :: "ledger_kit \<Rightarrow> string \<Rightarrow> string \<Rightarrow> string" where
  "EntryMAC K key hash = key_mac K key macDomain hash"

definition Receipt :: "ledger_kit \<Rightarrow> string \<Rightarrow> string \<Rightarrow> string" where
  "Receipt K key hash = key_mac K key receiptDomain hash"

definition EntryOK :: "ledger_kit \<Rightarrow> string \<Rightarrow> ledger_entry \<Rightarrow> bool" where
  "EntryOK K key e \<longleftrightarrow> le_Mac e \<noteq> [] \<and> le_Hash e \<noteq> [] \<and> le_Mac e = EntryMAC K key (le_Hash e)"

text \<open>The number up to which one entry seals the chain, 0 when it is not a valid seal.\<close>

definition seal_through :: "ledger_kit \<Rightarrow> string \<Rightarrow> ledger_entry list \<Rightarrow> ledger_entry \<Rightarrow> int" where
  "seal_through K key entries e =
    (if le_Kind e \<noteq> KindSeal \<or> \<not> EntryOK K key e then 0
     else case lk_seal K (le_Body e) of
       None \<Rightarrow> 0
     | Some (through, headHash) \<Rightarrow>
         if through < 1 \<or> through > int (length entries) then 0
         else let at = entries ! nat (through - 1)
         in if le_Seq at \<noteq> through \<or> le_Hash at \<noteq> headHash \<or> le_Seq e \<le> through then 0 else through)"

definition SealedThrough :: "ledger_kit \<Rightarrow> string \<Rightarrow> ledger_entry list \<Rightarrow> int" where
  "SealedThrough K key entries = fold (\<lambda>e t. max t (seal_through K key entries e)) entries 0"

fun unauthentic :: "ledger_kit \<Rightarrow> string \<Rightarrow> int \<Rightarrow> int \<Rightarrow> ledger_entry list \<Rightarrow> int option" where
  "unauthentic K key sealed after [] = None"
| "unauthentic K key sealed after (e # es) =
    (if le_Seq e \<le> after then unauthentic K key sealed after es
     else if le_Mac e \<noteq> [] then (if \<not> EntryOK K key e then Some (le_Seq e) else unauthentic K key sealed after es)
     else if le_Seq e \<le> sealed then unauthentic K key sealed after es
     else Some (le_Seq e))"

definition AuthenticateAfter :: "ledger_kit \<Rightarrow> string \<Rightarrow> ledger_entry list \<Rightarrow> int \<Rightarrow> int option" where
  "AuthenticateAfter K key entries after =
    (if key = [] then None else unauthentic K key (SealedThrough K key entries) after entries)"

definition Authenticate :: "ledger_kit \<Rightarrow> string \<Rightarrow> ledger_entry list \<Rightarrow> int option" where
  "Authenticate K key entries = AuthenticateAfter K key entries 0"

definition CheckPresent :: "ledger_kit \<Rightarrow> string \<Rightarrow> ledger_entry list \<Rightarrow> int option" where
  "CheckPresent K key entries =
    (if key = [] then None
     else map_option le_Seq (find (\<lambda>e. le_Mac e \<noteq> [] \<and> \<not> EntryOK K key e) entries))"

definition Unsealed :: "ledger_kit \<Rightarrow> string \<Rightarrow> ledger_entry list \<Rightarrow> nat" where
  "Unsealed K key entries =
    length (filter (\<lambda>e. le_Mac e = [] \<and> le_Seq e > SealedThrough K key entries) entries)"

subsection \<open>Assessing the copies\<close>

record ledger_copy =
  lc_Name :: string
  lc_Present :: bool
  lc_Unreached :: bool
  lc_Parse :: "chain_parse option"

definition copy_Intact :: "ledger_copy \<Rightarrow> bool" where
  "copy_Intact c \<longleftrightarrow> lc_Present c \<and> (case lc_Parse c of None \<Rightarrow> False | Some p \<Rightarrow> cp_Err p = None)"

record ledger_witness =
  lw_Ledger :: string
  lw_Seq :: int
  lw_Hash :: string

record verdict =
  vd_Best :: "ledger_copy option"
  vd_Complete :: bool
  vd_Heal :: "string list"
  vd_Conflict :: bool

definition copy_entries :: "ledger_copy \<Rightarrow> ledger_entry list" where
  "copy_entries c = (case lc_Parse c of None \<Rightarrow> [] | Some p \<Rightarrow> cp_Entries p)"

definition copy_ledger :: "ledger_copy \<Rightarrow> string" where
  "copy_ledger c = (case lc_Parse c of None \<Rightarrow> [] | Some p \<Rightarrow> LedgerID p)"

definition headSeq :: "ledger_copy \<Rightarrow> int" where
  "headSeq c = (case lc_Parse c of None \<Rightarrow> 0 | Some p \<Rightarrow> fst (Head p))"

definition hash_at :: "ledger_copy \<Rightarrow> int \<Rightarrow> string" where
  "hash_at c n = le_Hash (copy_entries c ! nat (n - 1))"

text \<open>The longest of the intact copies with the copies to heal, or the fork that stops the assessment.\<close>

fun pick_best :: "ledger_copy \<Rightarrow> string list \<Rightarrow> ledger_copy list \<Rightarrow> string list + (ledger_copy \<times> string list)" where
  "pick_best best heal [] = Inr (best, heal)"
| "pick_best best heal (c # cs) =
    (let bs = headSeq best; cn = headSeq c; lo = min bs cn
     in if lo > 0 \<and> hash_at best lo \<noteq> hash_at c lo then Inl heal
        else if cn > bs then pick_best c (heal @ [lc_Name best]) cs
        else if cn < bs then pick_best best (heal @ [lc_Name c]) cs
        else pick_best best heal cs)"

datatype witness_result = WitnessConflict | WitnessAhead | Satisfied nat

fun check_witnesses :: "string \<Rightarrow> ledger_copy \<Rightarrow> nat \<Rightarrow> ledger_witness list \<Rightarrow> witness_result" where
  "check_witnesses lid best n [] = Satisfied n"
| "check_witnesses lid best n (w # ws) =
    (if lw_Seq w \<le> 0 then check_witnesses lid best n ws
     else if lw_Ledger w \<noteq> [] \<and> lw_Ledger w \<noteq> lid then WitnessConflict
     else if headSeq best < lw_Seq w then WitnessAhead
     else if lw_Hash w \<noteq> [] \<and> hash_at best (lw_Seq w) \<noteq> lw_Hash w then WitnessConflict
     else check_witnesses lid best (Suc n) ws)"

definition Assess :: "ledger_copy list \<Rightarrow> ledger_witness list \<Rightarrow> verdict" where
  "Assess copies ws =
    (let heal0 = map lc_Name (filter (\<lambda>c. \<not> lc_Unreached c \<and> \<not> copy_Intact c) copies);
         intact = filter (\<lambda>c. \<not> lc_Unreached c \<and> copy_Intact c) copies;
         none = \<lparr>vd_Best = None, vd_Complete = False, vd_Heal = heal0, vd_Conflict = False\<rparr>
     in case intact of
       [] \<Rightarrow> none
     | c0 # cs \<Rightarrow>
         if list_ex (\<lambda>c. copy_ledger c \<noteq> copy_ledger c0) cs then none\<lparr>vd_Conflict := True\<rparr>
         else case pick_best c0 heal0 cs of
           Inl heal \<Rightarrow> none\<lparr>vd_Conflict := True, vd_Heal := heal\<rparr>
         | Inr (best, heal) \<Rightarrow>
             (case check_witnesses (copy_ledger c0) best 0 ws of
                WitnessConflict \<Rightarrow> none\<lparr>vd_Conflict := True, vd_Heal := heal\<rparr>
              | WitnessAhead \<Rightarrow> none\<lparr>vd_Heal := heal\<rparr>
              | Satisfied n \<Rightarrow>
                  (let complete = (cs \<noteq> [] \<or> n > 0 \<or> headSeq best = 1);
                       unreached = map lc_Name (filter lc_Unreached copies)
                   in \<lparr>vd_Best = (if complete then Some best else None), vd_Complete = complete,
                       vd_Heal = sorted_keys (if complete then heal @ unreached else heal), vd_Conflict = False\<rparr>)))"

subsection \<open>Chains\<close>

abbreviation chain :: "ledger_kit \<Rightarrow> ledger_entry list \<Rightarrow> bool" where
  "chain K es \<equiv> links K None es = None"

lemma links_append: "links K p (xs @ ys) = None \<longleftrightarrow> links K p xs = None \<and> links K (if xs = [] then p else Some (last xs)) ys = None"
  by (induction xs arbitrary: p) (auto split: option.splits)

lemma checkLink_None:
  "checkLink K prev e = None \<longleftrightarrow>
    le_Seq e \<ge> 1 \<and> le_Hash e \<noteq> [] \<and> le_Ledger e \<noteq> [] \<and> le_Kind e \<noteq> [] \<and> ComputeHash K e = le_Hash e
    \<and> (case prev of None \<Rightarrow> le_Seq e = 1 \<and> le_Prev e = GenesisPrev
       | Some p \<Rightarrow> le_Seq e = wrap64 (le_Seq p + 1) \<and> le_Prev e = le_Hash p \<and> le_Ledger e = le_Ledger p)"
  by (auto simp: checkLink_def Let_def split: option.splits)

lemma chain_snoc:
  "chain K (es @ [e]) \<longleftrightarrow> chain K es \<and> checkLink K (if es = [] then None else Some (last es)) e = None"
  by (auto simp: links_append split: option.splits)

text \<open>The numbers of a chain count its entries, as long as they fit in 64 bits (the number of the next one would wrap).\<close>

lemma chain_seq:
  assumes "chain K es" and "i < length es" and "in64 (int (length es))"
  shows "le_Seq (es ! i) = int i + 1"
  using assms
proof (induction es arbitrary: i rule: rev_induct)
  case (snoc e es)
  have c: "chain K es" and l: "checkLink K (if es = [] then None else Some (last es)) e = None" using snoc.prems(1) by (simp_all add: chain_snoc)
  have fit: "in64 (int (length es))" using snoc.prems(3) by (simp add: in64_def)
  show ?case
  proof (cases "i < length es")
    case True
    then show ?thesis using snoc.IH [OF c True fit] by (simp add: nth_append)
  next
    case False
    then have i: "i = length es" using snoc.prems(2) by simp
    show ?thesis
    proof (cases "es = []")
      case True
      then show ?thesis using l by (simp add: i checkLink_None)
    next
      case nonempty: False
      then have "le_Seq (last es) = int (length es)" using snoc.IH [OF c, of "length es - 1"] fit by (simp add: last_conv_nth of_nat_diff Suc_leI)
      then have "le_Seq e = wrap64 (int (length es) + 1)" using l nonempty by (simp add: checkLink_None)
      then show ?thesis using snoc.prems(3) by (simp add: i nth_append wrap64_id add.commute)
    qed
  qed
qed simp

lemma chain_take: "chain K es \<Longrightarrow> chain K (take n es)"
  by (metis append_take_drop_id links_append)

lemma chain_hash: "chain K es \<Longrightarrow> e \<in> set es \<Longrightarrow> ComputeHash K e = le_Hash e"
  by (induction es rule: rev_induct) (auto simp: chain_snoc checkLink_None)

lemma chain_prev:
  assumes "chain K es" and "Suc i < length es"
  shows "le_Prev (es ! Suc i) = le_Hash (es ! i)"
proof -
  have "chain K (take (Suc i) es @ [es ! Suc i])" using chain_take [OF assms(1), of "Suc (Suc i)"] assms(2) by (simp add: take_Suc_conv_app_nth)
  then have "checkLink K (Some (last (take (Suc i) es))) (es ! Suc i) = None" unfolding chain_snoc using assms(2) by (auto split: if_splits)
  moreover have "last (take (Suc i) es) = es ! i" using assms(2) by (simp add: take_Suc_conv_app_nth)
  ultimately show ?thesis by (simp add: checkLink_None)
qed

text \<open>An entry without its authentication code, which the hash does not cover.\<close>

definition bare :: "ledger_entry \<Rightarrow> ledger_entry" where
  "bare e = e\<lparr>le_Mac := []\<rparr>"

definition plain_entry :: "ledger_entry \<Rightarrow> bool" where
  "plain_entry e \<longleftrightarrow> list_all (\<lambda>f. unit_sep \<notin> set f) [le_Ledger e, le_Prev e, le_Kind e, le_Tenant e, le_Site e]"

lemma unit_sep_Itoa: "unit_sep \<notin> set (Itoa n)"
  using Itoa_chars [of unit_sep n] by (auto simp: unit_sep_def is_digit_def)

lemma hash_fields_inject:
  assumes "Join unit_sep (hash_fields e) = Join unit_sep (hash_fields f)" and "plain_entry e" and "plain_entry f"
  shows "hash_fields e = hash_fields f"
proof -
  have d: "unit_sep \<notin> set hashDomain" by (simp add: unit_sep_def hashDomain_def)
  show ?thesis
    using assms d unit_sep_Itoa by (simp add: hash_fields_def plain_entry_def append_sep_inject)
qed

lemma same_hash_same_entry:
  assumes "inj_on (lk_sha256 K) (Join unit_sep ` hash_fields ` S)" and "e \<in> S" and "f \<in> S" and "plain_entry e" and "plain_entry f"
    and "ComputeHash K e = le_Hash e" and "ComputeHash K f = le_Hash f" and "le_Hash e = le_Hash f"
  shows "bare e = bare f"
proof -
  have "Join unit_sep (hash_fields e) = Join unit_sep (hash_fields f)"
    by (rule inj_onD [OF assms(1)]) (use assms in \<open>auto simp: ComputeHash_def\<close>)
  then have "hash_fields e = hash_fields f" using assms(4,5) by (rule hash_fields_inject)
  then show ?thesis using assms(8) by (auto simp: hash_fields_def bare_def Itoa_inject intro: ledger_entry.equality)
qed

subsection \<open>A hash fixes the history before it\<close>

definition distinct_hashes :: "ledger_kit \<Rightarrow> ledger_entry set \<Rightarrow> bool" where
  "distinct_hashes K S \<longleftrightarrow> inj_on (lk_sha256 K) (Join unit_sep ` hash_fields ` S)"

lemma distinct_hashes_subset: "distinct_hashes K S \<Longrightarrow> T \<subseteq> S \<Longrightarrow> distinct_hashes K T"
  unfolding distinct_hashes_def by (erule inj_on_subset) blast

lemma bare_eqD: "bare e = bare f \<Longrightarrow> le_Seq e = le_Seq f \<and> le_Prev e = le_Prev f \<and> le_Hash e = le_Hash f \<and> le_Ledger e = le_Ledger f"
  by (cases e; cases f) (simp add: bare_def)

text \<open>From position n downwards: equal hashes give equal entries, whose previous hashes are those of the entries before.\<close>

lemma equal_hash_equal_below:
  assumes "chain K xs" and "chain K ys" and "distinct_hashes K (set xs \<union> set ys)" and "list_all plain_entry (xs @ ys)"
    and "n < length xs" and "n < length ys" and "le_Hash (xs ! n) = le_Hash (ys ! n)" and "i \<le> n"
  shows "bare (xs ! i) = bare (ys ! i)"
proof -
  have one: "bare (xs ! k) = bare (ys ! k)" if "k < length xs" "k < length ys" "le_Hash (xs ! k) = le_Hash (ys ! k)" for k
    using that assms(3,4) chain_hash [OF assms(1), of "xs ! k"] chain_hash [OF assms(2), of "ys ! k"]
    by (intro same_hash_same_entry [where S = "set xs \<union> set ys"]) (simp_all add: distinct_hashes_def list_all_iff)
  show ?thesis
    using \<open>i \<le> n\<close>
  proof (induction rule: inc_induct)
    case base
    show ?case using one assms(5-7) by blast
  next
    case (step m)
    have "le_Prev (xs ! Suc m) = le_Prev (ys ! Suc m)" using bare_eqD [OF step.IH] by blast
    then show ?case using one [of m] chain_prev [OF assms(1), of m] chain_prev [OF assms(2), of m] step.hyps assms(5,6) by simp
  qed
qed

lemma equal_hash_equal_take:
  assumes "chain K xs" and "chain K ys" and "distinct_hashes K (set xs \<union> set ys)" and "list_all plain_entry (xs @ ys)"
    and "n < length xs" and "n < length ys" and "le_Hash (xs ! n) = le_Hash (ys ! n)"
  shows "map bare (take (Suc n) xs) = map bare (take (Suc n) ys)"
  using assms by (intro nth_equalityI) (auto intro: equal_hash_equal_below [OF assms])

lemma chain_position:
  assumes "chain K xs" and "chain K ys" and "in64 (int (length xs))" and "in64 (int (length ys))"
    and "i < length xs" and "j < length ys" and "bare (xs ! i) = bare (ys ! j)"
  shows "i = j"
  using chain_seq [OF assms(1,5,3)] chain_seq [OF assms(2,6,4)] bare_eqD [OF assms(7)] by simp

lemma equal_last_prefix:
  assumes "chain K xs" and "chain K ys" and "distinct_hashes K (set xs \<union> set ys)" and "list_all plain_entry (xs @ ys)"
    and "xs \<noteq> []" and "length xs \<le> length ys" and "le_Hash (last xs) = le_Hash (ys ! (length xs - 1))"
  shows "prefix (map bare xs) (map bare ys)"
proof -
  have "map bare (take (length xs) xs) = map bare (take (length xs) ys)"
    using equal_hash_equal_take [OF assms(1-4), of "length xs - 1"] assms(5-7) by (simp add: last_conv_nth Suc_diff_le Suc_leI flip: length_greater_0_conv)
  then show ?thesis by (metis take_all order_refl take_is_prefix take_map)
qed

subsection \<open>What the reader returns\<close>

lemma parse_from_Nil: "parse_from K prev acc n off [] = \<lparr>cp_Entries = rev acc, cp_Intact = True, cp_Torn = False, cp_Err = None, cp_ValidBytes = off\<rparr>"
  by (subst parse_from.simps) simp

lemma parse_from_line:
  assumes "line_feed \<notin> set b" and "lk_decode K b = Some e" and "checkLink K prev e = None"
  shows "parse_from K prev acc n off (b @ line_feed # r) = parse_from K (Some e) (e # acc) (Suc n) (off + length b + 1) r"
proof -
  have "takeWhile (\<lambda>c. c \<noteq> line_feed) (b @ line_feed # r) = b" using assms(1) by (subst takeWhile_append2) auto
  then show ?thesis using assms(2,3) by (subst parse_from.simps) (simp add: Let_def)
qed

text \<open>The reader goes over one more line or stops with what it has.\<close>

lemma parse_from_cases:
  obtains (stop) "cp_Entries (parse_from K prev acc n off rest) = rev acc" "cp_ValidBytes (parse_from K prev acc n off rest) = off"
  | (line) b e r where "rest = b @ line_feed # r" "line_feed \<notin> set b" "lk_decode K b = Some e" "checkLink K prev e = None"
proof (cases "line_feed \<in> set rest")
  case True
  then obtain b r where rest: "rest = b @ line_feed # r" and b: "line_feed \<notin> set b" by (meson split_list_first)
  have t: "takeWhile (\<lambda>c. c \<noteq> line_feed) (b @ line_feed # r) = b" using b by (subst takeWhile_append2) auto
  show thesis
  proof (cases "\<exists>e. lk_decode K b = Some e \<and> checkLink K prev e = None")
    case True
    then show ?thesis using line [OF rest b] by blast
  next
    case False
    then show ?thesis using t by (intro stop; subst parse_from.simps) (auto simp: Let_def rest split: option.splits)
  qed
next
  case False
  then have t: "takeWhile (\<lambda>c. c \<noteq> line_feed) rest = rest" by (auto simp: takeWhile_eq_all_conv)
  show thesis by (intro stop; subst parse_from.simps) (simp_all only: t Let_def refl if_True if_cancel chain_parse.simps simp_thms split: if_split)
qed

lemma parse_from_rule:
  assumes "\<And>prev acc n off rest. cp_Entries (parse_from K prev acc n off rest) = rev acc \<Longrightarrow> cp_ValidBytes (parse_from K prev acc n off rest) = off
      \<Longrightarrow> P prev acc n off rest"
    and "\<And>prev acc n off b e r. line_feed \<notin> set b \<Longrightarrow> lk_decode K b = Some e \<Longrightarrow> checkLink K prev e = None
      \<Longrightarrow> P (Some e) (e # acc) (Suc n) (off + length b + 1) r \<Longrightarrow> P prev acc n off (b @ line_feed # r)"
  shows "P prev acc n off rest"
proof (induction rest arbitrary: prev acc n off rule: length_induct)
  case (1 rest)
  show ?case
  proof (cases rule: parse_from_cases [of K prev acc n off rest])
    case stop
    then show ?thesis by (rule assms(1))
  next
    case (line b e r)
    then show ?thesis using 1 assms(2) by simp
  qed
qed

lemma parse_from_chain:
  assumes "chain K (rev acc)" and "prev = (if acc = [] then None else Some (hd acc))"
  shows "chain K (cp_Entries (parse_from K prev acc n off rest))"
  using assms
proof (induction prev acc n off rest rule: parse_from_rule [where K = K])
  case (2 prev acc n off b e r)
  have "chain K (rev (e # acc))" using 2(3,5,6) by (simp add: chain_snoc last_rev split: if_splits)
  then show ?case using 2(4) unfolding parse_from_line [OF 2(1-3)] by simp
qed simp

lemma ParseChain_chain [simp]: "chain K (cp_Entries (ParseChain K d))"
  unfolding ParseChain_def by (rule parse_from_chain) simp_all

lemma parse_from_torn:
  assumes "line_feed \<notin> set t" and "t \<noteq> []"
  shows "parse_from K prev acc n off t = \<lparr>cp_Entries = rev acc, cp_Intact = False, cp_Torn = True, cp_Err = None, cp_ValidBytes = off\<rparr>"
proof -
  have "takeWhile (\<lambda>c. c \<noteq> line_feed) t = t" using assms(1) by (auto simp: takeWhile_eq_all_conv)
  then show ?thesis using assms(2) by (subst parse_from.simps) (simp only: Let_def if_False if_True refl)
qed

text \<open>What is relied on of the JSON of an entry: one line, which decodes to the entry.\<close>

definition entry_json :: "ledger_kit \<Rightarrow> ledger_entry \<Rightarrow> bool" where
  "entry_json K e \<longleftrightarrow> (case lk_marshal K e of None \<Rightarrow> False | Some b \<Rightarrow> line_feed \<notin> set b \<and> lk_decode K b = Some e)"

lemma entry_json_Line:
  assumes "entry_json K e"
  obtains b where "Line K e = Some (b @ [line_feed])" and "line_feed \<notin> set b" and "lk_decode K b = Some e"
  using assms by (auto simp: entry_json_def Line_def split: option.splits)

lemma Encode_Cons:
  assumes "entry_json K e" and "Encode K (e # es) = Some d"
  obtains b d' where "d = b @ line_feed # d'" and "Encode K es = Some d'" and "line_feed \<notin> set b" and "lk_decode K b = Some e"
  using assms by (auto elim!: entry_json_Line)

lemma parse_from_Encode:
  assumes "list_all (entry_json K) es" and "Encode K es = Some d" and "links K prev es = None" and "line_feed \<notin> set t"
  shows "parse_from K prev acc n off (d @ t) =
    \<lparr>cp_Entries = rev acc @ es, cp_Intact = (t = []), cp_Torn = (t \<noteq> []), cp_Err = None, cp_ValidBytes = off + length d\<rparr>"
  using assms(1-3)
proof (induction es arbitrary: prev acc n off d)
  case Nil
  then show ?case using assms(4) by (cases "t = []") (simp_all add: parse_from_Nil parse_from_torn)
next
  case (Cons e es)
  then obtain b d' where d: "d = b @ line_feed # d'" and r: "Encode K es = Some d'" and b: "line_feed \<notin> set b" "lk_decode K b = Some e"
    using Encode_Cons by (metis list.pred_inject(2))
  show ?case
    using Cons.prems Cons.IH [OF _ r] by (simp add: d parse_from_line [OF b] split: option.splits)
qed

text \<open>An encodable chain has an encoding.\<close>

lemma Encode_total: "list_all (entry_json K) es \<Longrightarrow> \<exists>d. Encode K es = Some d"
  by (induction es) (auto elim!: entry_json_Line)

lemma parse_from_valid:
  "off \<le> cp_ValidBytes (parse_from K prev acc n off rest) \<and>
   parse_from K prev acc n off (take (cp_ValidBytes (parse_from K prev acc n off rest) - off) rest) =
     (parse_from K prev acc n off rest)\<lparr>cp_Intact := True, cp_Torn := False, cp_Err := None\<rparr>"
proof (induction prev acc n off rest rule: parse_from_rule [where K = K])
  case (1 prev acc n off rest)
  then show ?case by (simp add: parse_from_Nil)
next
  case (2 prev acc n off b e r)
  let ?v = "cp_ValidBytes (parse_from K (Some e) (e # acc) (Suc n) (off + length b + 1) r)"
  have le: "off + length b + 1 \<le> ?v" using 2(4) by blast
  then obtain k where k: "?v = off + length b + 1 + k" using le_Suc_ex by blast
  then have "take (?v - off) (b @ line_feed # r) = b @ line_feed # take k r" by simp
  then show ?case using 2 le k by (simp add: parse_from_line)
qed

subsection \<open>Authentic chains\<close>

lemma unauthentic_None:
  "unauthentic K key sealed after es = None \<longleftrightarrow>
    (\<forall>e\<in>set es. le_Seq e > after \<longrightarrow> EntryOK K key e \<or> (le_Mac e = [] \<and> le_Seq e \<le> sealed))"
  by (induction es) (auto simp: EntryOK_def)

lemma fold_max_less: "(\<And>x. x \<in> set xs \<Longrightarrow> f x < (L :: int)) \<Longrightarrow> t < L \<Longrightarrow> fold (\<lambda>x t. max t (f x)) xs t < L"
  by (induction xs arbitrary: t) auto

lemma seal_through_before: "le_Seq e \<ge> 1 \<Longrightarrow> seal_through K key entries e < le_Seq e"
  by (auto simp: seal_through_def Let_def split: option.splits)

lemma chain_last_seq: "chain K es \<Longrightarrow> in64 (int (length es)) \<Longrightarrow> es \<noteq> [] \<Longrightarrow> le_Seq (last es) = int (length es)"
  using chain_seq [of K es "length es - 1"] by (simp add: last_conv_nth of_nat_diff Suc_leI)

text \<open>A seal covers only entries before itself, so the last entry of a chain is never covered by one.\<close>

lemma sealed_before_last:
  assumes "chain K es" and "in64 (int (length es))" and "es \<noteq> []"
  shows "SealedThrough K key es < le_Seq (last es)"
  unfolding SealedThrough_def
proof (rule fold_max_less)
  fix e assume "e \<in> set es"
  then obtain i where i: "i < length es" "e = es ! i" by (metis in_set_conv_nth)
  then have "le_Seq e = int i + 1" using chain_seq [OF assms(1) _ assms(2)] by blast
  then show "seal_through K key es e < le_Seq (last es)"
    using seal_through_before [of e K key es] i chain_last_seq [OF assms] by simp
qed (use chain_last_seq [OF assms] assms(3) in simp)

lemma authentic_last:
  assumes "chain K es" and "in64 (int (length es))" and "es \<noteq> []" and "key \<noteq> []" and "AuthenticateAfter K key es after = None" and "after < int (length es)"
  shows "EntryOK K key (last es)"
proof -
  have "le_Seq (last es) > after" using chain_last_seq [OF assms(1-3)] assms(6) by simp
  then show ?thesis
    using assms(3-5) sealed_before_last [OF assms(1-3), of key]
    by (auto simp: AuthenticateAfter_def unauthentic_None)
qed

lemma authentic_prefix:
  assumes "chain K es" and "chain K G" and "in64 (int (length es))" and "in64 (int (length G))"
    and "distinct_hashes K (set es \<union> set G)" and "list_all plain_entry (es @ G)" and "key \<noteq> []" and "AuthenticateAfter K key es after = None"
    and "after < int (length es)" and "\<forall>e\<in>set es. EntryOK K key e \<longrightarrow> le_Hash e \<in> le_Hash ` set G"
  shows "prefix (map bare es) (map bare G)"
proof (cases "es = []")
  case False
  have last: "last es \<in> set es" using False by simp
  then obtain g where g: "g \<in> set G" "le_Hash (last es) = le_Hash g"
    using authentic_last [OF assms(1,3) False assms(7-9)] assms(10) by blast
  then obtain j where j: "j < length G" "g = G ! j" by (metis in_set_conv_nth)
  have "bare (last es) = bare g"
    using last g assms(5,6) chain_hash [OF assms(1) last] chain_hash [OF assms(2) g(1)]
    by (intro same_hash_same_entry [where S = "set es \<union> set G"]) (simp_all add: distinct_hashes_def list_all_iff)
  then have "length es - 1 = j"
    using chain_position [OF assms(1-4), of "length es - 1" j] j False by (simp add: last_conv_nth)
  then show ?thesis using j g(2) False by (intro equal_last_prefix [OF assms(1,2,5,6)]) simp_all
qed simp

subsection \<open>What a verdict promises\<close>

text \<open>A copy that was read: its parse is that of some file.\<close>

definition read_copy :: "ledger_kit \<Rightarrow> ledger_copy \<Rightarrow> bool" where
  "read_copy K c \<longleftrightarrow> chain K (copy_entries c) \<and> in64 (int (length (copy_entries c)))"

lemma headSeq_length: "read_copy K c \<Longrightarrow> headSeq c = int (length (copy_entries c))"
  using chain_last_seq [of K "copy_entries c"]
  by (auto simp: read_copy_def headSeq_def copy_entries_def Head_def split: option.splits)

lemma hash_at_nth: "hash_at c (int n) = le_Hash (copy_entries c ! (n - 1))"
  by (simp add: hash_at_def nat_diff_distrib')

lemma agree_prefix:
  assumes "read_copy K b" and "read_copy K c" and "headSeq c \<le> headSeq b" and "headSeq c > 0 \<longrightarrow> hash_at b (headSeq c) = hash_at c (headSeq c)"
    and "distinct_hashes K (set (copy_entries c) \<union> set (copy_entries b))" and "list_all plain_entry (copy_entries c @ copy_entries b)"
  shows "prefix (map bare (copy_entries c)) (map bare (copy_entries b))"
proof (cases "copy_entries c = []")
  case False
  then show ?thesis
    using assms(1-4) by (intro equal_last_prefix [OF _ _ assms(5,6)])
      (auto simp: headSeq_length hash_at_nth last_conv_nth read_copy_def)
qed simp

lemma pick_best_Inr:
  assumes "pick_best best heal cs = Inr (b, heal')" and "\<forall>c\<in>set (best # cs). read_copy K c"
    and "distinct_hashes K (\<Union>c\<in>set (best # cs). set (copy_entries c))" and "\<forall>c\<in>set (best # cs). list_all plain_entry (copy_entries c)"
  shows "b \<in> set (best # cs) \<and> (\<forall>c\<in>set (best # cs). prefix (map bare (copy_entries c)) (map bare (copy_entries b)))"
  using assms
proof (induction best heal cs rule: pick_best.induct)
  case (2 best heal c cs)
  have sub: "distinct_hashes K (\<Union>c\<in>set (x # cs). set (copy_entries c))" if "x \<in> {best, c}" for x
    using that by (intro distinct_hashes_subset [OF 2(6)]) auto
  have two: "distinct_hashes K (set (copy_entries x) \<union> set (copy_entries y))" if "x \<in> {best, c}" "y \<in> {best, c}" for x y
    using that by (intro distinct_hashes_subset [OF 2(6)]) auto
  have agree: "min (headSeq best) (headSeq c) > 0 \<longrightarrow> hash_at best (min (headSeq best) (headSeq c)) = hash_at c (min (headSeq best) (headSeq c))"
    using 2(4) by (auto simp: Let_def split: if_splits)
  show ?case
  proof (cases "headSeq c > headSeq best")
    case True
    have p: "prefix (map bare (copy_entries best)) (map bare (copy_entries c))"
      using 2(5,7) True agree two by (intro agree_prefix [where K = K]) (auto simp: min_def)
    have "b \<in> set (c # cs) \<and> (\<forall>x\<in>set (c # cs). prefix (map bare (copy_entries x)) (map bare (copy_entries b)))"
      using 2(4,5,7) True sub by (intro 2(1)) (auto simp: Let_def split: if_splits)
    then show ?thesis using p by (auto intro: prefix_order.trans)
  next
    case False
    have p: "prefix (map bare (copy_entries c)) (map bare (copy_entries best))"
      using 2(5,7) False agree two by (intro agree_prefix [where K = K]) (auto simp: min_def split: if_splits)
    have "b \<in> set (best # cs) \<and> (\<forall>x\<in>set (best # cs). prefix (map bare (copy_entries x)) (map bare (copy_entries b)))"
    proof (cases "headSeq c < headSeq best")
      case True
      then show ?thesis using 2(4,5,7) sub by (intro 2(2)) (auto simp: Let_def split: if_splits)
    next
      case same: False
      then show ?thesis using False 2(4,5,7) sub by (intro 2(3)) (auto simp: Let_def split: if_splits)
    qed
    then show ?thesis using p by (auto intro: prefix_order.trans)
  qed
qed simp

definition witness_met :: "ledger_copy \<Rightarrow> ledger_witness \<Rightarrow> bool" where
  "witness_met b w \<longleftrightarrow> lw_Seq w > 0 \<longrightarrow>
    lw_Seq w \<le> headSeq b \<and> (lw_Ledger w \<noteq> [] \<longrightarrow> lw_Ledger w = copy_ledger b) \<and> (lw_Hash w \<noteq> [] \<longrightarrow> hash_at b (lw_Seq w) = lw_Hash w)"

lemma check_witnesses_Satisfied:
  "check_witnesses (copy_ledger b) b n ws = Satisfied m \<Longrightarrow> (\<forall>w\<in>set ws. witness_met b w) \<and> (m > n \<longrightarrow> (\<exists>w\<in>set ws. lw_Seq w > 0))"
  by (induction ws arbitrary: n) (fastforce simp: witness_met_def split: if_splits)+

definition usable :: "ledger_copy \<Rightarrow> bool" where
  "usable c \<longleftrightarrow> \<not> lc_Unreached c \<and> copy_Intact c"

lemma Assess_Best:
  assumes "vd_Best (Assess copies ws) = Some b"
  obtains c0 cs heal heal' n where "filter usable copies = c0 # cs" "pick_best c0 heal cs = Inr (b, heal')"
    "\<forall>c\<in>set (c0 # cs). copy_ledger c = copy_ledger c0" "check_witnesses (copy_ledger c0) b 0 ws = Satisfied n"
    "cs \<noteq> [] \<or> n > 0 \<or> headSeq b = 1" "vd_Complete (Assess copies ws)" "\<not> vd_Conflict (Assess copies ws)"
proof -
  have u: "filter (\<lambda>c. \<not> lc_Unreached c \<and> copy_Intact c) copies = filter usable copies" by (rule filter_cong) (simp_all add: usable_def)
  note A = Assess_def [of copies ws, unfolded Let_def u]
  obtain c0 cs where f: "filter usable copies = c0 # cs" using assms unfolding A by (cases "filter usable copies") simp_all
  have l: "\<not> list_ex (\<lambda>c. copy_ledger c \<noteq> copy_ledger c0) cs" using assms unfolding A f by (auto split: if_splits)
  let ?heal = "map lc_Name (filter (\<lambda>c. \<not> lc_Unreached c \<and> \<not> copy_Intact c) copies)"
  obtain b' heal' where p: "pick_best c0 ?heal cs = Inr (b', heal')" using assms l unfolding A f by (cases "pick_best c0 ?heal cs") auto
  obtain n where w: "check_witnesses (copy_ledger c0) b' 0 ws = Satisfied n"
    using assms l unfolding A f by (cases "check_witnesses (copy_ledger c0) b' 0 ws") (simp_all add: p)
  have "b' = b \<and> (cs \<noteq> [] \<or> n > 0 \<or> headSeq b = 1) \<and> vd_Complete (Assess copies ws) \<and> \<not> vd_Conflict (Assess copies ws)"
    using assms l unfolding A f by (simp add: p w split: if_splits)
  then show thesis using that [OF f _ _ _] p w l by (auto simp: list_ex_iff)
qed

text \<open>The promise of a verdict that names a copy, for copies that were read from files with no two colliding entries.\<close>

definition trusted_copy :: "ledger_copy list \<Rightarrow> ledger_witness list \<Rightarrow> ledger_copy \<Rightarrow> bool" where
  "trusted_copy copies ws b \<longleftrightarrow> b \<in> set copies \<and> usable b
    \<and> (\<forall>c\<in>set copies. usable c \<longrightarrow> prefix (map bare (copy_entries c)) (map bare (copy_entries b)))
    \<and> (\<forall>w\<in>set ws. witness_met b w)
    \<and> (length (filter usable copies) > 1 \<or> (\<exists>w\<in>set ws. lw_Seq w > 0) \<or> length (copy_entries b) = 1)"

lemma Assess_trusted:
  assumes "vd_Best (Assess copies ws) = Some b" and "\<forall>c\<in>set copies. usable c \<longrightarrow> read_copy K c \<and> list_all plain_entry (copy_entries c)"
    and "distinct_hashes K (\<Union>c\<in>set copies. set (copy_entries c))"
  shows "trusted_copy copies ws b"
proof -
  obtain c0 cs heal heal' n where u: "filter usable copies = c0 # cs" and p: "pick_best c0 heal cs = Inr (b, heal')"
    and l: "\<forall>c\<in>set (c0 # cs). copy_ledger c = copy_ledger c0" and w: "check_witnesses (copy_ledger c0) b 0 ws = Satisfied n"
    and e: "cs \<noteq> [] \<or> n > 0 \<or> headSeq b = 1"
    using assms(1) by (rule Assess_Best)
  have s: "set (c0 # cs) = {c \<in> set copies. usable c}" by (simp flip: u)
  have good: "b \<in> set (c0 # cs) \<and> (\<forall>c\<in>set (c0 # cs). prefix (map bare (copy_entries c)) (map bare (copy_entries b)))"
    by (rule pick_best_Inr [OF p, where K = K]) (use assms(2,3) in \<open>auto simp: s simp del: list.set intro: distinct_hashes_subset\<close>)
  then have "copy_ledger c0 = copy_ledger b" and b: "b \<in> set copies" "usable b" using l s by auto
  then have sat: "(\<forall>w\<in>set ws. witness_met b w) \<and> (n > 0 \<longrightarrow> (\<exists>w\<in>set ws. lw_Seq w > 0))"
    using check_witnesses_Satisfied [of b 0 ws n] w by simp
  have "headSeq b = int (length (copy_entries b))" using assms(2) b headSeq_length by blast
  then show ?thesis using good s sat e u b by (auto simp: trusted_copy_def)
qed

subsection \<open>A write that was cut off\<close>

lemma take_line: "k < Suc (length b) \<Longrightarrow> take k (b @ line_feed # r) = take k b"
  by simp

lemma parse_from_cut:
  assumes "list_all (entry_json K) es" and "Encode K es = Some d" and "links K prev es = None"
  shows "\<exists>j v. j \<le> length es \<and> v \<le> min k (length d) \<and> Encode K (take j es) = Some (take v d) \<and> (length d \<le> k \<longrightarrow> j = length es) \<and>
    parse_from K prev acc n off (take k d) =
      \<lparr>cp_Entries = rev acc @ take j es, cp_Intact = (v = min k (length d)), cp_Torn = (v < min k (length d)), cp_Err = None, cp_ValidBytes = off + v\<rparr>"
  using assms
proof (induction es arbitrary: prev acc n off d k)
  case Nil
  then show ?case by (intro exI [of _ 0]) (simp add: parse_from_Nil)
next
  case (Cons e es)
  then obtain b d' where d: "d = b @ line_feed # d'" and r: "Encode K es = Some d'" and b: "line_feed \<notin> set b" "lk_decode K b = Some e"
    using Encode_Cons by (metis list.pred_inject(2))
  have l: "checkLink K prev e = None" "links K (Some e) es = None" using Cons.prems(3) by (auto split: option.splits)
  have line: "Line K e = Some (b @ [line_feed])" using Cons.prems(1,2) r b by (auto simp: d elim!: entry_json_Line)
  show ?case
  proof (cases "k < Suc (length b)")
    case True
    have "line_feed \<notin> set (take k b)" using b(1) by (meson in_set_takeD)
    then show ?thesis
      using True by (intro exI [of _ 0]) (cases "k = 0"; cases "b = []"; simp add: d take_line parse_from_Nil parse_from_torn; fail)
  next
    case False
    then obtain m where m: "k = Suc (length b) + m" using le_Suc_ex not_less by blast
    obtain j v where j: "j \<le> length es" "v \<le> min m (length d')" "Encode K (take j es) = Some (take v d')" "length d' \<le> m \<longrightarrow> j = length es"
      "parse_from K (Some e) (e # acc) (Suc n) (off + length b + 1) (take m d') =
        \<lparr>cp_Entries = rev (e # acc) @ take j es, cp_Intact = (v = min m (length d')), cp_Torn = (v < min m (length d')), cp_Err = None, cp_ValidBytes = off + length b + 1 + v\<rparr>"
      using Cons.IH [OF _ r l(2), of m "e # acc" "Suc n" "off + length b + 1"] Cons.prems(1) by auto
    then show ?thesis
      by (intro exI [of _ "Suc j"] exI [of _ "Suc (length b) + v"]) (auto simp: d m parse_from_line [OF b l(1)] line)
  qed
qed

subsection \<open>The claims\<close>


text \<open>A kit and two entries for evaluation: lengths for digests, the kind of an entry for its JSON.\<close>

definition sample_start :: ledger_entry where
  "sample_start = \<lparr>le_Ledger = ''L'', le_Seq = 1, le_Prev = GenesisPrev, le_Kind = ''start'', le_Tenant = ''t'', le_Site = ''s'', le_AtUS = 5,
    le_Body = ''{}'', le_Hash = ''105'', le_Mac = []\<rparr>"

definition sample_seal :: ledger_entry where
  "sample_seal = \<lparr>le_Ledger = ''L'', le_Seq = 2, le_Prev = ''105'', le_Kind = KindSeal, le_Tenant = ''t'', le_Site = ''s'', le_AtUS = 6,
    le_Body = ''{1}'', le_Hash = ''44'', le_Mac = ''k'' @ macDomain @ unit_sep # ''44''\<rparr>"

definition sample_kit :: ledger_kit where
  "sample_kit = \<lparr>lk_sha256 = (\<lambda>m. Itoa (int (length m))), lk_hmac = (@), lk_marshal = (\<lambda>e. Some (le_Kind e)),
    lk_decode = (\<lambda>b. find (\<lambda>e. le_Kind e = b) [sample_start, sample_seal]),
    lk_seal = (\<lambda>b. if b = ''{1}'' then Some (1, ''105'') else None)\<rparr>"

lemma sample_chain: "chain sample_kit [sample_start, sample_seal]"
  by code_simp


end
