(* ===== verification/Ledger_Store.thy ===== *)
theory Ledger_Store
  imports Ledger_Chain
begin

text \<open>
  The two copies of the erasure ledger (\<open>data-plane/internal/ledger/store.go\<close>): the file on the appliance and the object with
  its note at the secondary storage, with \<open>Commit\<close>, \<open>Abort\<close>, the push to the secondary storage, reading, rewriting and appending.
  Every call of the file system and of the storage may fail where the code tests for it, a write may also stop
  half way or leave something else than was asked. What a call does is read from a record of outcomes (\<open>disk_io\<close>, \<open>dest_io\<close>).
  Encryption, the JSON of the note and the time are arguments. The mutex makes each operation one step. The lemmas show what a
  commit leaves in both places and that no acknowledged entry leaves the file.
\<close>

subsection \<open>State and outcomes\<close>

record head_info =
  hi_Ledger :: string
  hi_Seq :: int
  hi_Hash :: string
  hi_Entries :: int
  hi_PlainSHA256 :: string
  hi_Object :: string
  hi_ObjectSHA256 :: string
  hi_Encrypted :: bool
  hi_CipherFP :: string
  hi_UpdatedAt :: string
  hi_Mac :: string

record store_kit =
  sk_ledger :: ledger_kit
  sk_note_json :: "head_info \<Rightarrow> string"
  sk_note_decode :: "string \<Rightarrow> head_info option"
  sk_decrypt :: "string \<Rightarrow> string \<Rightarrow> string option"

type_synonym objects = "string \<Rightarrow> string option"

record ledger_store =
  ls_file :: "string option"
  ls_dest :: "objects option"

text \<open>A write is complete, stops after some bytes with an error, or reports success over other content.\<close>

datatype file_write = Wrote | WriteStops nat | WroteOther string

record disk_io =
  di_read :: bool
  di_trunc :: bool
  di_mkdir :: bool
  di_open :: bool
  di_write :: file_write
  di_sync :: bool
  di_close :: bool
  di_back :: bool
  di_undo :: bool
  di_restore :: bool

text \<open>\<open>Put\<close> stores the object, fails leaving some content, or reports success over other content.\<close>

datatype put_outcome = PutStored | PutFailed "string option" | PutOther "string option"

datatype cipher_outcome = CipherFails | NoRecipients | EncryptTo string "string \<Rightarrow> string option"

record dest_io =
  do_read :: bool
  do_note :: bool
  do_held :: bool
  do_cipher :: cipher_outcome
  do_put :: put_outcome
  do_back :: bool
  do_note_put :: put_outcome
  do_note_back :: bool
  do_remove :: bool
  do_now :: string

datatype push_error = LocalUnreadable | LocalInvalid | ExternalAhead | ExternalFork | CipherError | PutError | BackError | BackDiffers | NoteError

datatype store_error = NotConfigured | LocalFailed | LocalDamaged | Conflict | EntryUnauthentic | ExternalFailed push_error

definition ExternalObject :: string where "ExternalObject = ''erasure-ledger.jsonl''"
definition ExternalHead :: string where "ExternalHead = ''erasure-ledger.head.json''"
definition age_suffix :: string where "age_suffix = ''.age''"
definition headDomain :: string where "headDomain = ''stayconnect-ledger-head-v1''"
definition maxObject :: nat where "maxObject = 536870912"

definition sum_hex :: "store_kit \<Rightarrow> string \<Rightarrow> string" where
  "sum_hex S b = lk_sha256 (sk_ledger S) b"

definition HeadMAC :: "store_kit \<Rightarrow> string \<Rightarrow> head_info \<Rightarrow> string" where
  "HeadMAC S key h = key_mac (sk_ledger S) key headDomain
    (Join unit_sep [hi_Ledger h, Itoa (hi_Seq h), hi_Hash h, Itoa (hi_Entries h), hi_PlainSHA256 h, hi_Object h, hi_ObjectSHA256 h])"

definition truncate_to :: "nat \<Rightarrow> string \<Rightarrow> string" where
  "truncate_to n c = take n c @ replicate (n - length c) CHR 0x00"

definition write_at :: "nat \<Rightarrow> string \<Rightarrow> string \<Rightarrow> string" where
  "write_at off data c = truncate_to off c @ data @ drop (off + length data) c"

subsection \<open>Reading the file\<close>

definition checked :: "ledger_kit \<Rightarrow> string \<Rightarrow> chain_parse \<Rightarrow> chain_parse" where
  "checked K key p =
    (if key \<noteq> [] \<and> cp_Err p = None then
       (case CheckPresent K key (cp_Entries p) of
          Some n \<Rightarrow> p\<lparr>cp_Err := Some (Unauthentic n), cp_Intact := False\<rparr>
        | None \<Rightarrow> p)
     else p)"

definition absent_copy :: "string \<Rightarrow> ledger_copy" where
  "absent_copy name = \<lparr>lc_Name = name, lc_Present = False, lc_Unreached = False, lc_Parse = None\<rparr>"

definition ReadLocal :: "ledger_kit \<Rightarrow> string \<Rightarrow> bool \<Rightarrow> string option \<Rightarrow> ledger_copy" where
  "ReadLocal K key fails file =
    (let none = absent_copy ''local''
     in if fails then none\<lparr>lc_Unreached := True\<rparr>
        else case file of
          None \<Rightarrow> none
        | Some b \<Rightarrow> if b = [] then none else none\<lparr>lc_Present := True, lc_Parse := Some (checked K key (ParseChain K b))\<rparr>)"

subsection \<open>Writing the file\<close>

definition undo :: "bool \<Rightarrow> nat \<Rightarrow> string \<Rightarrow> string" where
  "undo fails sz c = (if fails then c else truncate_to sz c)"

text \<open>\<open>appendLocal\<close>: the file afterwards and whether it succeeded. The file is created by opening it.\<close>

definition read_back :: "ledger_kit \<Rightarrow> string \<Rightarrow> bool \<Rightarrow> ledger_entry list \<Rightarrow> string \<Rightarrow> bool" where
  "read_back K key fails fresh c =
    (let back = ReadLocal K key fails (Some c)
     in case lc_Parse back of
       None \<Rightarrow> False
     | Some p \<Rightarrow> lc_Present back \<and> cp_Err p = None \<and> \<not> cp_Torn p \<and> Head p = (le_Seq (last fresh), le_Hash (last fresh)))"

definition appendLocal :: "ledger_kit \<Rightarrow> string \<Rightarrow> disk_io \<Rightarrow> ledger_entry list \<Rightarrow> nat \<Rightarrow> string option \<Rightarrow> string option \<times> bool" where
  "appendLocal K key io fresh sz file =
    (if di_mkdir io then (file, False)
     else case Encode K fresh of
       None \<Rightarrow> (file, False)
     | Some data \<Rightarrow>
         if di_open io then (file, False)
         else let c = (case file of None \<Rightarrow> [] | Some b \<Rightarrow> b);
                  back_out = (\<lambda>c. (Some (undo (di_undo io) sz c), False));
                  written = (\<lambda>c. if di_sync io then back_out c
                     else if di_close io then (Some c, False)
                     else if read_back K key (di_back io) fresh c then (Some c, True)
                     else back_out c)
         in (case di_write io of
               WriteStops n \<Rightarrow> back_out (write_at sz (take n data) c)
             | Wrote \<Rightarrow> written (write_at sz data c)
             | WroteOther s \<Rightarrow> written s))"

subsection \<open>The note at the secondary storage\<close>

datatype note_read = NoteAbsent | NoteFailed | NoteRead head_info bool

definition readExternalHeadFrom :: "store_kit \<Rightarrow> string \<Rightarrow> bool \<Rightarrow> bool \<Rightarrow> objects \<Rightarrow> note_read" where
  "readExternalHeadFrom S key noteFails objFails d =
    (if noteFails then NoteFailed
     else case d ExternalHead of
       None \<Rightarrow> NoteAbsent
     | Some hb \<Rightarrow>
         (case sk_note_decode S hb of
            None \<Rightarrow> NoteFailed
          | Some h \<Rightarrow>
              if hi_Object h = [] then NoteFailed
              else if key \<noteq> [] \<and> hi_Mac h \<noteq> [] \<and> hi_Mac h \<noteq> HeadMAC S key h then NoteFailed
              else if objFails then NoteFailed
              else case d (hi_Object h) of
                None \<Rightarrow> NoteRead h False
              | Some obj \<Rightarrow> NoteRead h (sum_hex S obj = hi_ObjectSHA256 h)))"

text \<open>The guard of a push: what is ahead, or another history, is not overwritten.\<close>

definition push_guard :: "note_read \<Rightarrow> string \<Rightarrow> int \<Rightarrow> string \<Rightarrow> push_error option" where
  "push_guard r lid seq hash =
    (case r of
       NoteRead prev ok \<Rightarrow>
         if hi_Ledger prev = lid \<and> hi_Seq prev > seq then Some ExternalAhead
         else if hi_Ledger prev = lid \<and> hi_Seq prev = seq \<and> hi_Hash prev \<noteq> hash then Some ExternalFork
         else if hi_Ledger prev \<noteq> lid \<and> hi_Seq prev > 0 then Some ExternalFork
         else None
     | _ \<Rightarrow> None)"

fun put_object :: "put_outcome \<Rightarrow> string \<Rightarrow> string \<Rightarrow> objects \<Rightarrow> objects \<times> bool" where
  "put_object PutStored name b d = (d(name := Some b), True)"
| "put_object (PutFailed c) name b d = (d(name := c), False)"
| "put_object (PutOther c) name b d = (d(name := c), True)"

text \<open>What is sent: the object with its name and its note, without the authentication code.\<close>

definition push_object :: "store_kit \<Rightarrow> dest_io \<Rightarrow> string \<Rightarrow> (string \<times> string \<times> bool \<times> string) option" where
  "push_object S io plain =
    (case do_cipher io of
       CipherFails \<Rightarrow> None
     | NoRecipients \<Rightarrow> Some (plain, ExternalObject, False, [])
     | EncryptTo fp enc \<Rightarrow>
         (case enc plain of None \<Rightarrow> None | Some obj \<Rightarrow> Some (obj, ExternalObject @ age_suffix, True, fp)))"

definition push_note :: "store_kit \<Rightarrow> string \<Rightarrow> dest_io \<Rightarrow> chain_parse \<Rightarrow> string \<Rightarrow> string \<times> string \<times> bool \<times> string \<Rightarrow> head_info" where
  "push_note S key io p plain = (\<lambda>(obj, name, encrypted, fp).
    let info = \<lparr>hi_Ledger = LedgerID p, hi_Seq = fst (Head p), hi_Hash = snd (Head p), hi_Entries = int (length (cp_Entries p)),
          hi_PlainSHA256 = sum_hex S plain, hi_Object = name, hi_ObjectSHA256 = sum_hex S obj, hi_Encrypted = encrypted, hi_CipherFP = fp,
          hi_UpdatedAt = do_now io, hi_Mac = []\<rparr>
    in if key \<noteq> [] then info\<lparr>hi_Mac := HeadMAC S key info\<rparr> else info)"

definition push_store :: "store_kit \<Rightarrow> string \<Rightarrow> dest_io \<Rightarrow> chain_parse \<Rightarrow> string \<Rightarrow> objects \<Rightarrow> objects \<times> push_error option" where
  "push_store S key io p plain d =
    (case push_object S io plain of
       None \<Rightarrow> (d, Some CipherError)
     | Some sent \<Rightarrow>
         let obj = fst sent; name = fst (snd sent); info = push_note S key io p plain sent; hb = sk_note_json S info
         in case put_object (do_put io) name obj d of
              (d1, False) \<Rightarrow> (d1, Some PutError)
            | (d1, True) \<Rightarrow>
                if do_back io \<or> d1 name = None then (d1, Some BackError)
                else if sum_hex S (the (d1 name)) \<noteq> hi_ObjectSHA256 info then (d1, Some BackDiffers)
                else case put_object (do_note_put io) ExternalHead hb d1 of
                  (d2, False) \<Rightarrow> (d2, Some PutError)
                | (d2, True) \<Rightarrow>
                    if do_note_back io \<or> d2 ExternalHead \<noteq> Some hb then (d2, Some NoteError)
                    else let other = (if name = ExternalObject then ExternalObject @ age_suffix else ExternalObject)
                      in (if do_remove io then d2 else d2(other := None), None))"

definition pushExternalLocked :: "store_kit \<Rightarrow> string \<Rightarrow> dest_io \<Rightarrow> bool \<Rightarrow> ledger_store \<Rightarrow> ledger_store \<times> store_error option" where
  "pushExternalLocked S key io force st =
    (let fail = (\<lambda>e. (st, Some (ExternalFailed e)))
     in case ls_dest st of
       None \<Rightarrow> (st, Some NotConfigured)
     | Some d \<Rightarrow>
         (case ls_file st of
            None \<Rightarrow> fail LocalUnreadable
          | Some whole \<Rightarrow>
              if do_read io then fail LocalUnreadable
              else let p = ParseChain (sk_ledger S) whole
              in if cp_Err p \<noteq> None \<or> cp_Entries p = [] then fail LocalInvalid
                 else let plain = (if cp_Torn p then take (cp_ValidBytes p) whole else whole);
                          stop = (if force then None else push_guard (readExternalHeadFrom S key (do_note io) (do_held io) d) (LedgerID p) (fst (Head p)) (snd (Head p)))
                 in case stop of
                   Some e \<Rightarrow> fail e
                 | None \<Rightarrow>
                     (case push_store S key io p plain d of
                        (d', e) \<Rightarrow> (st\<lparr>ls_dest := Some d'\<rparr>, map_option ExternalFailed e))))"

definition PushExternal :: "store_kit \<Rightarrow> string \<Rightarrow> dest_io \<Rightarrow> ledger_store \<Rightarrow> ledger_store \<times> store_error option" where
  "PushExternal S key io st = pushExternalLocked S key io False st"

definition ForceExternal :: "store_kit \<Rightarrow> string \<Rightarrow> dest_io \<Rightarrow> ledger_store \<Rightarrow> ledger_store \<times> store_error option" where
  "ForceExternal S key io st = pushExternalLocked S key io True st"

subsection \<open>Commit and abort\<close>

text \<open>The entries not held yet, or none when a held one is another entry.\<close>

fun fresh_entries :: "ledger_entry list \<Rightarrow> int \<Rightarrow> ledger_entry list \<Rightarrow> ledger_entry list option" where
  "fresh_entries held hs [] = Some []"
| "fresh_entries held hs (e # es) =
    (if le_Seq e \<ge> 1 \<and> le_Seq e \<le> hs then
       (if le_Hash (held ! nat (le_Seq e - 1)) \<noteq> le_Hash e then None else fresh_entries held hs es)
     else map_option ((#) e) (fresh_entries held hs es))"

text \<open>The part of \<open>Commit\<close> after the file was read: its entries, its head, the size of its valid part.\<close>

definition commit_fresh :: "store_kit \<Rightarrow> string \<Rightarrow> disk_io \<Rightarrow> dest_io \<Rightarrow> ledger_entry list \<Rightarrow> ledger_entry list \<Rightarrow> int \<times> string \<Rightarrow> nat
    \<Rightarrow> ledger_store \<Rightarrow> ledger_store \<times> store_error option" where
  "commit_fresh S key dio eio held entries head sz st =
    (case fresh_entries held (fst head) entries of
       None \<Rightarrow> (st, Some Conflict)
     | Some fresh \<Rightarrow>
         if list_ex (\<lambda>e. key \<noteq> [] \<and> \<not> EntryOK (sk_ledger S) key e) fresh then (st, Some EntryUnauthentic)
         else if fresh \<noteq> [] \<and> fst head > 0 \<and> le_Ledger (hd fresh) \<noteq> (if held = [] then [] else le_Ledger (hd held)) then (st, Some Conflict)
         else if fresh \<noteq> [] \<and> Extends (sk_ledger S) (fst head) (snd head) fresh \<noteq> None then (st, Some Conflict)
         else let (file, ok) = (if fresh = [] then (ls_file st, True) else appendLocal (sk_ledger S) key dio fresh sz (ls_file st));
                  st1 = st\<lparr>ls_file := file\<rparr>
         in if \<not> ok then (st1, Some LocalFailed)
            else case pushExternalLocked S key eio False st1 of
              (st2, None) \<Rightarrow> (st2, None)
            | (st2, Some e) \<Rightarrow>
                (if fresh \<noteq> [] \<and> \<not> di_restore dio then st2\<lparr>ls_file := map_option (truncate_to sz) (ls_file st2)\<rparr> else st2, Some e))"

definition Commit :: "store_kit \<Rightarrow> string \<Rightarrow> disk_io \<Rightarrow> dest_io \<Rightarrow> ledger_entry list \<Rightarrow> ledger_store \<Rightarrow> ledger_store \<times> store_error option" where
  "Commit S key dio eio entries st =
    (if ls_dest st = None then (st, Some NotConfigured)
     else if entries = [] then (st, None)
     else let cur = ReadLocal (sk_ledger S) key (di_read dio) (ls_file st)
     in if lc_Unreached cur then (st, Some LocalFailed)
        else case lc_Parse cur of
          None \<Rightarrow> commit_fresh S key dio eio [] entries (0, []) 0 st
        | Some p \<Rightarrow>
            if cp_Err p \<noteq> None then (st, Some LocalDamaged)
            else if cp_Torn p \<and> di_trunc dio then (st, Some LocalFailed)
            else commit_fresh S key dio eio (cp_Entries p) entries (Head p) (cp_ValidBytes p)
              (if cp_Torn p then st\<lparr>ls_file := map_option (truncate_to (cp_ValidBytes p)) (ls_file st)\<rparr> else st))"

definition Abort :: "store_kit \<Rightarrow> string \<Rightarrow> disk_io \<Rightarrow> dest_io \<Rightarrow> ledger_entry list \<Rightarrow> ledger_store \<Rightarrow> ledger_store \<times> store_error option" where
  "Abort S key dio eio entries st =
    (case lc_Parse (ReadLocal (sk_ledger S) key (di_read dio) (ls_file st)) of
       None \<Rightarrow> (st, None)
     | Some p \<Rightarrow>
         let n = length (cp_Entries p); k = length entries
         in if cp_Err p \<noteq> None \<or> entries = [] \<or> k > n then (st, None)
            else if map le_Hash (drop (n - k) (cp_Entries p)) \<noteq> map le_Hash entries then (st, None)
            else case Encode (sk_ledger S) (take (n - k) (cp_Entries p)) of
              None \<Rightarrow> (st, Some LocalFailed)
            | Some keep \<Rightarrow>
                if di_trunc dio then (st, Some LocalFailed)
                else let st1 = st\<lparr>ls_file := map_option (truncate_to (length keep)) (ls_file st)\<rparr>
                in (if ls_dest st1 \<noteq> None then fst (pushExternalLocked S key eio True st1) else st1, None))"

subsection \<open>Reading the secondary copy, rewriting and appending\<close>

definition ReadExternal :: "store_kit \<Rightarrow> string \<Rightarrow> bool \<Rightarrow> bool \<Rightarrow> bool \<Rightarrow> string option \<Rightarrow> objects option \<Rightarrow> ledger_copy" where
  "ReadExternal S key noteFails heldFails getFails identity dest =
    (let c = absent_copy ''external''; unreached = c\<lparr>lc_Unreached := True\<rparr>;
         damaged = (\<lambda>e. c\<lparr>lc_Present := True, lc_Parse := Some \<lparr>cp_Entries = [], cp_Intact = False, cp_Torn = False, cp_Err = Some e, cp_ValidBytes = 0\<rparr>\<rparr>)
     in case dest of
       None \<Rightarrow> unreached
     | Some d \<Rightarrow>
         (case readExternalHeadFrom S key noteFails heldFails d of
            NoteFailed \<Rightarrow> unreached
          | NoteAbsent \<Rightarrow> c
          | NoteRead info ok \<Rightarrow>
              if getFails then unreached
              else case d (hi_Object info) of
                None \<Rightarrow> c
              | Some obj \<Rightarrow>
                  if sum_hex S obj \<noteq> hi_ObjectSHA256 info then damaged NotAsDescribed
                  else (case (if hi_Encrypted info then map_option (take maxObject) (Option.bind identity (\<lambda>i. sk_decrypt S i obj)) else Some obj) of
                      None \<Rightarrow> unreached
                    | Some plain \<Rightarrow>
                        let p = checked (sk_ledger S) key (ParseChain (sk_ledger S) plain)
                        in if cp_Err p = None \<and> sum_hex S plain \<noteq> hi_PlainSHA256 info \<and> \<not> cp_Torn p then damaged NotAsDescribed
                           else c\<lparr>lc_Present := True, lc_Parse := Some p\<rparr>)))"

text \<open>\<open>RewriteLocal\<close> writes a temporary file and renames it; a failure before the rename leaves the file as it was.\<close>

definition RewriteLocal :: "store_kit \<Rightarrow> bool \<Rightarrow> ledger_entry list \<Rightarrow> ledger_store \<Rightarrow> ledger_store \<times> store_error option" where
  "RewriteLocal S fails entries st =
    (if entries \<noteq> [] \<and> Extends (sk_ledger S) 0 [] entries \<noteq> None then (st, Some Conflict)
     else case Encode (sk_ledger S) entries of
       None \<Rightarrow> (st, Some LocalFailed)
     | Some data \<Rightarrow> if fails then (st, Some LocalFailed) else (st\<lparr>ls_file := Some data\<rparr>, None))"

definition append_after :: "store_kit \<Rightarrow> string \<Rightarrow> disk_io \<Rightarrow> ledger_entry list \<Rightarrow> int \<times> string \<Rightarrow> nat \<Rightarrow> ledger_store \<Rightarrow> ledger_store \<times> store_error option" where
  "append_after S key dio entries head sz st =
    (if entries = [] then (st, None)
     else if Extends (sk_ledger S) (fst head) (snd head) entries \<noteq> None then (st, Some Conflict)
     else case appendLocal (sk_ledger S) key dio entries sz (ls_file st) of
       (file, ok) \<Rightarrow> (st\<lparr>ls_file := file\<rparr>, if ok then None else Some LocalFailed))"

definition AppendLocal :: "store_kit \<Rightarrow> string \<Rightarrow> disk_io \<Rightarrow> ledger_entry list \<Rightarrow> ledger_store \<Rightarrow> ledger_store \<times> store_error option" where
  "AppendLocal S key dio entries st =
    (let cur = ReadLocal (sk_ledger S) key (di_read dio) (ls_file st)
     in if lc_Unreached cur then (st, Some LocalFailed)
        else case lc_Parse cur of
          None \<Rightarrow> append_after S key dio entries (0, []) 0 st
        | Some p \<Rightarrow> if cp_Err p \<noteq> None then (st, Some LocalDamaged) else append_after S key dio entries (Head p) (cp_ValidBytes p) st)"

subsection \<open>The file and its entries\<close>

definition local_entries :: "ledger_kit \<Rightarrow> string option \<Rightarrow> ledger_entry list" where
  "local_entries K file = (case file of None \<Rightarrow> [] | Some b \<Rightarrow> cp_Entries (ParseChain K b))"

lemma checked_simps [simp]:
  "cp_Entries (checked K key p) = cp_Entries p" "cp_Torn (checked K key p) = cp_Torn p" "cp_ValidBytes (checked K key p) = cp_ValidBytes p"
  "Head (checked K key p) = Head p" "LedgerID (checked K key p) = LedgerID p"
  by (auto simp: checked_def Head_def LedgerID_def split: option.splits)

lemma checked_ok: "cp_Err (checked K key p) = None \<Longrightarrow> checked K key p = p"
  by (auto simp: checked_def split: option.splits if_splits)

lemma ReadLocal_Parse:
  "lc_Parse (ReadLocal K key f file) = Some p \<longleftrightarrow> (\<exists>b. \<not> f \<and> file = Some b \<and> b \<noteq> [] \<and> p = checked K key (ParseChain K b))"
  by (auto simp: ReadLocal_def Let_def absent_copy_def split: option.splits)

lemma ParseChain_Nil [simp]: "ParseChain K [] = \<lparr>cp_Entries = [], cp_Intact = True, cp_Torn = False, cp_Err = None, cp_ValidBytes = 0\<rparr>"
  by (simp add: ParseChain_def parse_from_Nil)

lemma ReadLocal_none:
  "lc_Parse (ReadLocal K key f file) = None \<Longrightarrow> \<not> lc_Unreached (ReadLocal K key f file) \<Longrightarrow> file = None \<or> file = Some []"
  by (auto simp: ReadLocal_def Let_def absent_copy_def split: option.splits if_splits)

lemma local_entries_simps [simp]:
  "local_entries K None = []" "local_entries K (Some b) = cp_Entries (ParseChain K b)" "chain K (local_entries K file)"
  by (simp_all add: local_entries_def split: option.splits)

lemma ParseChain_valid:
  "ParseChain K (take (cp_ValidBytes (ParseChain K d)) d) = (ParseChain K d)\<lparr>cp_Intact := True, cp_Torn := False, cp_Err := None\<rparr>"
  using parse_from_valid [of 0 K None "[]" 0 d] by (simp add: ParseChain_def)

lemma parse_from_bounds: "cp_ValidBytes (parse_from K prev acc n off rest) \<le> off + length rest"
proof (induction prev acc n off rest rule: parse_from_rule [where K = K])
  case (2 prev acc n off b e r)
  then show ?case by (simp add: parse_from_line)
qed simp

lemma ParseChain_bounds: "cp_ValidBytes (ParseChain K d) \<le> length d"
  using parse_from_bounds [of K None "[]" 0 0 d] by (simp add: ParseChain_def)

lemma truncate_valid [simp]: "truncate_to (cp_ValidBytes (ParseChain K d)) d = take (cp_ValidBytes (ParseChain K d)) d"
  using ParseChain_bounds [of K d] by (simp add: truncate_to_def)

lemma appendLocal_ok:
  assumes "appendLocal K key io fresh sz file = (f, True)"
  obtains c where "f = Some c" "c \<noteq> []" "cp_Err (checked K key (ParseChain K c)) = None" "\<not> cp_Torn (ParseChain K c)"
    "Head (ParseChain K c) = (le_Seq (last fresh), le_Hash (last fresh))"
proof -
  obtain c where "f = Some c" "read_back K key (di_back io) fresh c"
    using assms by (auto simp: appendLocal_def Let_def split: if_splits option.splits file_write.splits)
  then show thesis
    using that by (auto simp: read_back_def Let_def ReadLocal_Parse split: option.splits)
qed

subsection \<open>What a successful push leaves\<close>

lemma object_names [simp]: "ExternalObject \<noteq> ExternalObject @ age_suffix" "ExternalHead \<noteq> ExternalObject" "ExternalHead \<noteq> ExternalObject @ age_suffix"
  "ExternalObject \<noteq> []" "age_suffix \<noteq> []" "ExternalObject @ age_suffix \<noteq> ExternalObject" "ExternalObject \<noteq> ExternalHead" "ExternalObject @ age_suffix \<noteq> ExternalHead"
  by (simp_all add: ExternalObject_def ExternalHead_def age_suffix_def)

text \<open>The identity opens what is encrypted for this push.\<close>

definition opens :: "store_kit \<Rightarrow> dest_io \<Rightarrow> string option \<Rightarrow> bool" where
  "opens S io identity \<longleftrightarrow> (\<forall>fp enc p b. do_cipher io = EncryptTo fp enc \<longrightarrow> enc p = Some b \<longrightarrow> Option.bind identity (\<lambda>i. sk_decrypt S i b) = Some p)"

text \<open>The storage does not hold another object with the digest of the one it was given.\<close>

definition honest_digest :: "store_kit \<Rightarrow> dest_io \<Rightarrow> string \<Rightarrow> bool" where
  "honest_digest S io plain \<longleftrightarrow> (\<forall>sent c. push_object S io plain = Some sent \<longrightarrow> do_put io = PutOther (Some c) \<longrightarrow> sum_hex S c = sum_hex S (fst sent) \<longrightarrow> c = fst sent)"

lemma push_store_ok:
  assumes "push_store S key io p plain d = (d', None)" and "honest_digest S io plain"
  obtains obj name encrypted fp where "push_object S io plain = Some (obj, name, encrypted, fp)"
    "d' ExternalHead = Some (sk_note_json S (push_note S key io p plain (obj, name, encrypted, fp)))" "d' name = Some obj"
proof -
  obtain obj name encrypted fp where sent: "push_object S io plain = Some (obj, name, encrypted, fp)"
    using assms(1) by (cases "push_object S io plain") (auto simp: push_store_def)
  have name: "name = ExternalObject \<or> name = ExternalObject @ age_suffix"
    using sent by (auto simp: push_object_def split: cipher_outcome.splits option.splits)
  let ?info = "push_note S key io p plain (obj, name, encrypted, fp)"
  have sum: "hi_ObjectSHA256 ?info = sum_hex S obj" by (simp add: push_note_def Let_def)
  obtain d1 where d1: "put_object (do_put io) name obj d = (d1, True)"
    using assms(1) by (auto simp: push_store_def sent Let_def split: prod.splits bool.splits)
  obtain d2 where d2: "put_object (do_note_put io) ExternalHead (sk_note_json S ?info) d1 = (d2, True)"
    using assms(1) by (auto simp: push_store_def sent Let_def d1 split: prod.splits bool.splits if_splits)
  have rb: "d1 name \<noteq> None" "sum_hex S (the (d1 name)) = sum_hex S obj" "d2 ExternalHead = Some (sk_note_json S ?info)"
    and d': "d' = (if do_remove io then d2 else d2((if name = ExternalObject then ExternalObject @ age_suffix else ExternalObject) := None))"
    using assms(1) by (auto simp: push_store_def sent Let_def d1 d2 sum split: if_splits)
  have "d1 name = Some obj"
    using d1 rb(1,2) assms(2) by (cases "do_put io") (auto simp: honest_digest_def sent)
  moreover have "d2 name = d1 name" using d2 name by (cases "do_note_put io") auto
  moreover have "d' name = d2 name \<and> d' ExternalHead = d2 ExternalHead" using name by (auto simp: d')
  ultimately show thesis using rb(3) by (intro that [OF sent]) simp_all
qed

lemma push_note_simps [simp]:
  "hi_Object (push_note S key io p plain (obj, name, encrypted, fp)) = name"
  "hi_ObjectSHA256 (push_note S key io p plain (obj, name, encrypted, fp)) = sum_hex S obj"
  "hi_PlainSHA256 (push_note S key io p plain (obj, name, encrypted, fp)) = sum_hex S plain"
  "hi_Encrypted (push_note S key io p plain (obj, name, encrypted, fp)) = encrypted"
  by (simp_all add: push_note_def Let_def)

lemma push_note_mac: "key \<noteq> [] \<Longrightarrow> hi_Mac (push_note S key io p plain sent) = HeadMAC S key (push_note S key io p plain sent)"
  by (cases sent) (simp add: push_note_def Let_def HeadMAC_def)

lemma push_ok_reads:
  assumes "pushExternalLocked S key io force st = (st', None)" and "\<forall>h. sk_note_decode S (sk_note_json S h) = Some h"
    and "opens S io identity" and "ls_file st = Some whole" and "\<not> cp_Torn (ParseChain (sk_ledger S) whole)"
    and "honest_digest S io whole" and "length whole \<le> maxObject"
  shows "ls_file st' = Some whole \<and> ReadExternal S key False False False identity (ls_dest st') =
    \<lparr>lc_Name = ''external'', lc_Present = True, lc_Unreached = False, lc_Parse = Some (checked (sk_ledger S) key (ParseChain (sk_ledger S) whole))\<rparr>"
proof -
  let ?p = "ParseChain (sk_ledger S) whole"
  obtain d where d: "ls_dest st = Some d" using assms(1) by (cases "ls_dest st") (auto simp: pushExternalLocked_def Let_def)
  obtain d' where s: "push_store S key io ?p whole d = (d', None)" and st': "st' = st\<lparr>ls_dest := Some d'\<rparr>"
    using assms(1,5) by (auto simp: pushExternalLocked_def Let_def d assms(4) split: if_splits option.splits prod.splits)
  obtain obj name encrypted fp where sent: "push_object S io whole = Some (obj, name, encrypted, fp)"
    and noted: "d' ExternalHead = Some (sk_note_json S (push_note S key io ?p whole (obj, name, encrypted, fp)))" and obj: "d' name = Some obj"
    using push_store_ok [OF s assms(6)] by blast
  have name: "name \<noteq> []" using sent by (auto simp: push_object_def split: cipher_outcome.splits option.splits)
  have plain: "(if encrypted then map_option (take maxObject) (Option.bind identity (\<lambda>i. sk_decrypt S i obj)) else Some obj) = Some whole"
    using sent assms(3,7) by (auto simp: push_object_def opens_def split: cipher_outcome.splits option.splits)
  have "readExternalHeadFrom S key False False d' = NoteRead (push_note S key io ?p whole (obj, name, encrypted, fp)) True"
    using assms(2) name by (auto simp: readExternalHeadFrom_def noted obj push_note_mac)
  then show ?thesis
    using plain assms(4) by (simp add: ReadExternal_def st' obj Let_def absent_copy_def)
qed

subsection \<open>What a successful commit leaves\<close>

lemma links_cong:
  assumes "le_Seq p = le_Seq q" and "le_Hash p = le_Hash q" and "le_Ledger p = le_Ledger q"
  shows "links K (Some p) es = links K (Some q) es"
  by (cases es) (simp_all add: checkLink_def assms)

lemma chain_ledger: "chain K es \<Longrightarrow> es \<noteq> [] \<Longrightarrow> le_Ledger (last es) = le_Ledger (hd es)"
  by (induction es rule: rev_induct) (auto simp: chain_snoc checkLink_None hd_append split: if_splits)

lemma chain_last_positive: "chain K es \<Longrightarrow> es \<noteq> [] \<Longrightarrow> le_Seq (last es) \<ge> 1"
  by (cases es rule: rev_cases) (auto simp: chain_snoc checkLink_None)

definition head_of :: "ledger_entry list \<Rightarrow> int \<times> string" where
  "head_of es = (if es = [] then (0, []) else (le_Seq (last es), le_Hash (last es)))"

lemma Head_head_of: "Head p = head_of (cp_Entries p)"
  by (simp add: Head_def head_of_def)

lemma Extends_chain:
  assumes "chain K L" and "Extends K (fst (head_of L)) (snd (head_of L)) fresh = None"
    and "L \<noteq> [] \<Longrightarrow> fresh \<noteq> [] \<Longrightarrow> le_Ledger (hd fresh) = le_Ledger (hd L)"
  shows "chain K (L @ fresh)"
proof (cases "L = [] \<or> fresh = []")
  case True
  then show ?thesis using assms(1,2) by (auto simp: Extends_def head_of_def)
next
  case False
  then have "links K (Some (last L)) fresh = None"
    using assms chain_last_positive [OF assms(1)] chain_ledger [OF assms(1)]
    by (subst links_cong [of "last L" "\<lparr>le_Ledger = le_Ledger (hd fresh), le_Seq = le_Seq (last L), le_Prev = [], le_Kind = [], le_Tenant = [],
              le_Site = [], le_AtUS = 0, le_Body = [], le_Hash = le_Hash (last L), le_Mac = []\<rparr>"]) (auto simp: Extends_def head_of_def)
  then show ?thesis using assms(1) False by (simp add: links_append)
qed

lemma fresh_entries_Some:
  "fresh_entries held hs es = Some fr \<Longrightarrow> e \<in> set es \<Longrightarrow>
    e \<in> set fr \<or> 1 \<le> le_Seq e \<and> le_Seq e \<le> hs \<and> le_Hash (held ! nat (le_Seq e - 1)) = le_Hash e"
  by (induction es arbitrary: fr) (auto split: if_splits)

lemma fresh_entries_subset: "fresh_entries held hs es = Some fr \<Longrightarrow> set fr \<subseteq> set es \<and> length fr \<le> length es"
  by (induction es arbitrary: fr) (fastforce split: if_splits)+

lemma fresh_entries_zero: "fresh_entries held 0 es = Some es"
  by (induction es) auto

text \<open>A file in good order: readable, whole, with no code that does not check.\<close>

definition sound_file :: "ledger_kit \<Rightarrow> string \<Rightarrow> string \<Rightarrow> bool" where
  "sound_file K key c \<longleftrightarrow> cp_Err (checked K key (ParseChain K c)) = None \<and> \<not> cp_Torn (ParseChain K c)"

lemma commit_fresh_ok:
  assumes "commit_fresh S key dio eio held entries (head_of held) sz st = (st', None)" and "chain (sk_ledger S) held"
    and "\<And>c. fresh_entries held (fst (head_of held)) entries = Some [] \<Longrightarrow>
      \<exists>c. ls_file st = Some c \<and> sound_file (sk_ledger S) key c \<and> cp_Entries (ParseChain (sk_ledger S) c) = held"
  obtains fresh st1 c where "fresh_entries held (fst (head_of held)) entries = Some fresh" "chain (sk_ledger S) (held @ fresh)"
    "ls_file st1 = Some c" "sound_file (sk_ledger S) key c" "Head (ParseChain (sk_ledger S) c) = head_of (held @ fresh)"
    "pushExternalLocked S key eio False st1 = (st', None)"
proof -
  let ?K = "sk_ledger S"
  obtain fresh where f: "fresh_entries held (fst (head_of held)) entries = Some fresh"
    using assms(1) by (cases "fresh_entries held (fst (head_of held)) entries") (simp_all add: commit_fresh_def)
  have pos: "fst (head_of held) > 0 \<longleftrightarrow> held \<noteq> []" using chain_last_positive [OF assms(2)] by (auto simp: head_of_def)
  show thesis
  proof (cases "fresh = []")
    case True
    have "pushExternalLocked S key eio False st = (st', None)"
      using assms(1) by (auto simp: commit_fresh_def Let_def f True split: prod.splits option.splits)
    moreover obtain c where "ls_file st = Some c" "sound_file ?K key c" "cp_Entries (ParseChain ?K c) = held" using assms(3) f True by blast
    ultimately show ?thesis using that [OF f] assms(2) True by (simp add: Head_head_of)
  next
    case False
    have ext: "Extends ?K (fst (head_of held)) (snd (head_of held)) fresh = None" "held \<noteq> [] \<Longrightarrow> le_Ledger (hd fresh) = le_Ledger (hd held)"
      using assms(1) pos by (auto simp: commit_fresh_def Let_def f False split: if_splits)
    obtain f1 where a: "appendLocal ?K key dio fresh sz (ls_file st) = (f1, True)"
      and p: "pushExternalLocked S key eio False (st\<lparr>ls_file := f1\<rparr>) = (st', None)"
      using assms(1) by (auto simp: commit_fresh_def Let_def f False split: if_splits prod.splits option.splits)
    obtain c where "f1 = Some c" "cp_Err (checked ?K key (ParseChain ?K c)) = None" "\<not> cp_Torn (ParseChain ?K c)"
      "Head (ParseChain ?K c) = (le_Seq (last fresh), le_Hash (last fresh))"
      using a by (rule appendLocal_ok)
    then show ?thesis using that [OF f Extends_chain [OF assms(2) ext] _ _ _ p] False by (simp add: sound_file_def head_of_def)
  qed
qed

lemma valid_part_sound: "cp_Err (checked K key (ParseChain K b)) = None \<Longrightarrow> sound_file K key (take (cp_ValidBytes (ParseChain K b)) b)"
  by (simp add: sound_file_def ParseChain_valid checked_def split: option.splits if_splits)

lemma Commit_ok:
  assumes "Commit S key dio eio entries st = (st', None)" and "entries \<noteq> []"
  obtains fresh st1 c where "fresh_entries (local_entries (sk_ledger S) (ls_file st)) (fst (head_of (local_entries (sk_ledger S) (ls_file st)))) entries = Some fresh"
    "chain (sk_ledger S) (local_entries (sk_ledger S) (ls_file st) @ fresh)" "ls_file st1 = Some c" "sound_file (sk_ledger S) key c"
    "Head (ParseChain (sk_ledger S) c) = head_of (local_entries (sk_ledger S) (ls_file st) @ fresh)"
    "pushExternalLocked S key eio False st1 = (st', None)"
proof -
  let ?K = "sk_ledger S"
  let ?cur = "ReadLocal ?K key (di_read dio) (ls_file st)"
  have u: "\<not> lc_Unreached ?cur" using assms by (auto simp: Commit_def Let_def split: if_splits)
  show thesis
  proof (cases "lc_Parse ?cur")
    case None
    then have e: "local_entries ?K (ls_file st) = []" using ReadLocal_none [OF _ u] by auto
    have "commit_fresh S key dio eio [] entries (head_of []) 0 st = (st', None)"
      using assms None u by (auto simp: Commit_def Let_def head_of_def split: if_splits)
    then show ?thesis
      by (rule commit_fresh_ok) (use that assms(2) in \<open>auto simp: e fresh_entries_zero head_of_def\<close>)
  next
    case (Some p)
    then obtain b where b: "ls_file st = Some b" and p: "p = checked ?K key (ParseChain ?K b)" by (auto simp: ReadLocal_Parse)
    let ?st = "if cp_Torn p then st\<lparr>ls_file := map_option (truncate_to (cp_ValidBytes p)) (ls_file st)\<rparr> else st"
    have ok: "cp_Err (checked ?K key (ParseChain ?K b)) = None" using assms Some u by (auto simp: Commit_def Let_def p split: if_splits)
    have "commit_fresh S key dio eio (cp_Entries p) entries (head_of (cp_Entries p)) (cp_ValidBytes p) ?st = (st', None)"
      using assms Some u by (auto simp: Commit_def Let_def Head_head_of split: if_splits)
    then show ?thesis
    proof (rule commit_fresh_ok)
      show "\<exists>c. ls_file ?st = Some c \<and> sound_file ?K key c \<and> cp_Entries (ParseChain ?K c) = cp_Entries p"
        using ok valid_part_sound [OF ok] by (auto simp: p b ParseChain_valid sound_file_def)
    qed (use that in \<open>auto simp: p b\<close>)
  qed
qed

text \<open>Two chains with the same head are the same chain, and hold the same hashes.\<close>

lemma same_head_same_chain:
  assumes "chain K xs" and "chain K ys" and "in64 (int (length xs))" and "in64 (int (length ys))"
    and "distinct_hashes K (set xs \<union> set ys)" and "list_all plain_entry (xs @ ys)" and "head_of xs = head_of ys"
  shows "map bare xs = map bare ys"
proof (cases "xs = []")
  case True
  then show ?thesis using assms(7) chain_last_positive [OF assms(2)] by (auto simp: head_of_def split: if_splits)
next
  case False
  then have ys: "ys \<noteq> []" using assms(7) chain_last_positive [OF assms(1)] by (auto simp: head_of_def)
  then have l: "length xs = length ys" and h: "le_Hash (last xs) = le_Hash (last ys)"
    using False assms(7) chain_last_seq [OF assms(1,3)] chain_last_seq [OF assms(2,4)] by (simp_all add: head_of_def)
  then have "prefix (map bare xs) (map bare ys)"
    using False ys by (intro equal_last_prefix [OF assms(1,2,5,6)]) (simp_all add: last_conv_nth)
  then show ?thesis using l by (metis append_eq_conv_conj length_map order_refl prefix_def take_all)
qed

lemma bare_hashes: "map bare xs = map bare ys \<Longrightarrow> le_Hash ` set xs = le_Hash ` set ys"
proof -
  have h: "le_Hash ` set zs = le_Hash ` set (map bare zs)" for zs by (auto simp: bare_def image_image)
  assume "map bare xs = map bare ys"
  then show ?thesis by (metis h)
qed

lemma held_or_fresh:
  assumes "fresh_entries L (fst (head_of L)) entries = Some fresh" and "chain K L" and "in64 (int (length L))" and "e \<in> set entries"
  shows "le_Hash e \<in> le_Hash ` set (L @ fresh)"
proof (cases "e \<in> set fresh")
  case False
  have "fst (head_of L) = int (length L)" using chain_last_seq [OF assms(2,3)] by (auto simp: head_of_def)
  then have "nat (le_Seq e - 1) < length L" "le_Hash (L ! nat (le_Seq e - 1)) = le_Hash e" using fresh_entries_Some [OF assms(1,4)] False by auto
  then show ?thesis by (metis nth_mem image_eqI set_append UnI1)
qed simp

lemma commit_both:
  assumes "Commit S key dio eio entries st = (st', None)" and "entries \<noteq> []"
    and "\<forall>h. sk_note_decode S (sk_note_json S h) = Some h" and "opens S eio identity"
    and "\<forall>c. ls_file st' = Some c \<longrightarrow> honest_digest S eio c \<and> length c \<le> maxObject"
    and "distinct_hashes (sk_ledger S) (set (local_entries (sk_ledger S) (ls_file st)) \<union> set (local_entries (sk_ledger S) (ls_file st')) \<union> set entries)"
    and "list_all plain_entry (local_entries (sk_ledger S) (ls_file st) @ local_entries (sk_ledger S) (ls_file st') @ entries)"
    and "in64 (int (length (local_entries (sk_ledger S) (ls_file st)) + length entries))" and "in64 (int (length (local_entries (sk_ledger S) (ls_file st'))))"
  shows "prefix (map bare (local_entries (sk_ledger S) (ls_file st))) (map bare (local_entries (sk_ledger S) (ls_file st')))
    \<and> (\<forall>e\<in>set entries. le_Hash e \<in> le_Hash ` set (local_entries (sk_ledger S) (ls_file st')))
    \<and> usable (ReadExternal S key False False False identity (ls_dest st'))
    \<and> copy_entries (ReadExternal S key False False False identity (ls_dest st')) = local_entries (sk_ledger S) (ls_file st')"
proof -
  let ?K = "sk_ledger S" let ?L = "local_entries (sk_ledger S) (ls_file st)"
  obtain fresh st1 c where f: "fresh_entries ?L (fst (head_of ?L)) entries = Some fresh" and ch: "chain ?K (?L @ fresh)" and c: "ls_file st1 = Some c"
    and s: "sound_file ?K key c" and h: "Head (ParseChain ?K c) = head_of (?L @ fresh)" and p: "pushExternalLocked S key eio False st1 = (st', None)"
    using Commit_ok [OF assms(1,2)] by blast
  have c': "ls_file st' = Some c" using p c by (auto simp: pushExternalLocked_def Let_def split: option.splits if_splits prod.splits)
  have e: "ReadExternal S key False False False identity (ls_dest st') =
    \<lparr>lc_Name = ''external'', lc_Present = True, lc_Unreached = False, lc_Parse = Some (checked ?K key (ParseChain ?K c))\<rparr>"
    using push_ok_reads [OF p assms(3,4) c] s assms(5) c' by (simp add: sound_file_def)
  let ?N = "cp_Entries (ParseChain ?K c)"
  have sub: "set fresh \<subseteq> set entries" and len: "length fresh \<le> length entries" using fresh_entries_subset [OF f] by blast+
  have fit: "in64 (int (length (?L @ fresh)))" "in64 (int (length ?L))" using assms(8) len by (auto simp: in64_def)
  have N: "map bare ?N = map bare (?L @ fresh)"
    using assms(6,7,9) sub c' h fit
    by (intro same_head_same_chain [OF ParseChain_chain ch]) (auto simp: list_all_iff Head_head_of intro: distinct_hashes_subset)
  have "le_Hash e \<in> le_Hash ` set ?N" if "e \<in> set entries" for e
    using held_or_fresh [OF f local_entries_simps(3) fit(2) that] bare_hashes [OF N] by simp
  then show ?thesis
    using N e s c' by (auto simp: usable_def copy_Intact_def copy_entries_def sound_file_def prefix_def)
qed

subsection \<open>No operation takes an entry out of the file\<close>

definition content :: "string option \<Rightarrow> string" where
  "content file = (case file of None \<Rightarrow> [] | Some b \<Rightarrow> b)"

lemma content_simps [simp]: "content None = []" "content (Some b) = b"
  by (simp_all add: content_def)

lemma local_entries_content: "local_entries K file = cp_Entries (ParseChain K (content file))"
  by (simp add: local_entries_def content_def split: option.splits)

text \<open>A disk that does what it reports: writes may stop and any call may fail, but cutting a file off and closing it work.\<close>

definition honest_disk :: "disk_io \<Rightarrow> bool" where
  "honest_disk io \<longleftrightarrow> (case di_write io of WroteOther s \<Rightarrow> False | _ \<Rightarrow> True) \<and> \<not> di_undo io \<and> \<not> di_close io \<and> \<not> di_restore io"

lemma parse_from_acc: "prefix (rev acc) (cp_Entries (parse_from K prev acc n off rest))"
proof (induction prev acc n off rest rule: parse_from_rule [where K = K])
  case (2 prev acc n off b e r)
  then show ?case by (auto simp: parse_from_line prefix_def)
qed simp

lemma parse_from_extend:
  "prefix (cp_Entries (parse_from K prev acc n off rest))
     (cp_Entries (parse_from K prev acc n off (take (cp_ValidBytes (parse_from K prev acc n off rest) - off) rest @ r)))"
proof (induction prev acc n off rest rule: parse_from_rule [where K = K])
  case (1 prev acc n off rest)
  then show ?case by (simp add: parse_from_acc)
next
  case (2 prev acc n off b e s)
  let ?v = "cp_ValidBytes (parse_from K (Some e) (e # acc) (Suc n) (off + length b + 1) s)"
  obtain k where k: "?v = off + length b + 1 + k" using parse_from_valid le_Suc_ex by blast
  then have "take (?v - off) (b @ line_feed # s) @ r = b @ line_feed # (take k s @ r)" by simp
  then show ?case using 2 k by (simp add: parse_from_line)
qed

lemma ParseChain_extend: "prefix (cp_Entries (ParseChain K c)) (cp_Entries (ParseChain K (take (cp_ValidBytes (ParseChain K c)) c @ r)))"
  using parse_from_extend [of K None "[]" 0 0 c r] by (simp add: ParseChain_def)

lemma write_at_valid: "sz \<le> length c \<Longrightarrow> write_at sz data c = take sz c @ data @ drop (sz + length data) c"
  by (simp add: write_at_def truncate_to_def)

lemma truncate_write: "sz \<le> length c \<Longrightarrow> truncate_to sz (write_at sz data c) = take sz c"
  by (simp add: write_at_valid truncate_to_def)

lemma append_honest:
  assumes "appendLocal K key io fresh sz file = (f, ok)" and "honest_disk io" and "sz = cp_ValidBytes (ParseChain K (content file))"
  shows "(\<not> ok \<longrightarrow> local_entries K f = local_entries K file)
    \<and> (ok \<longrightarrow> prefix (local_entries K file) (local_entries K f) \<and> local_entries K (map_option (truncate_to sz) f) = local_entries K file)"
proof -
  let ?c = "content file"
  have sz: "sz \<le> length ?c" using ParseChain_bounds [of K ?c] assms(3) by simp
  have kept: "local_entries K (Some (take sz ?c)) = local_entries K file" by (simp add: assms(3) ParseChain_valid local_entries_content)
  have grow: "prefix (local_entries K file) (local_entries K (Some (write_at sz data ?c)))" for data
    using ParseChain_extend [of K ?c "data @ drop (sz + length data) ?c"]
    by (simp only: local_entries_content content_simps write_at_valid [OF sz] assms(3) [symmetric])
  consider "f = file \<and> \<not> ok" | data where "f = Some (truncate_to sz (write_at sz data ?c)) \<and> \<not> ok" | data where "f = Some (write_at sz data ?c) \<and> ok"
    using assms(1,2) by (auto simp: appendLocal_def Let_def honest_disk_def undo_def content_def split: if_splits option.splits file_write.splits)
  then show ?thesis
  proof cases
    case 3
    then show ?thesis using grow kept by (simp add: truncate_write [OF sz])
  qed (use kept in \<open>simp_all add: truncate_write [OF sz]\<close>)
qed

lemma push_keeps_file: "pushExternalLocked S key io force st = (st', r) \<Longrightarrow> ls_file st' = ls_file st"
  by (auto simp: pushExternalLocked_def Let_def split: option.splits if_splits prod.splits)

lemma commit_fresh_honest:
  assumes "commit_fresh S key dio eio held entries head sz st = (st', r)" and "honest_disk dio"
    and "sz = cp_ValidBytes (ParseChain (sk_ledger S) (content (ls_file st)))"
  shows "prefix (local_entries (sk_ledger S) (ls_file st)) (local_entries (sk_ledger S) (ls_file st'))
    \<and> (r \<noteq> None \<longrightarrow> local_entries (sk_ledger S) (ls_file st') = local_entries (sk_ledger S) (ls_file st))"
proof -
  let ?K = "sk_ledger S"
  consider (same) "ls_file st' = ls_file st"
    | (append) fresh f ok where "appendLocal ?K key dio fresh sz (ls_file st) = (f, ok)"
        "ls_file st' = f \<and> (ok \<longleftrightarrow> r = None) \<or> ls_file st' = map_option (truncate_to sz) f \<and> ok \<and> r \<noteq> None"
    using assms(1,2)
    by (auto simp: commit_fresh_def Let_def honest_disk_def dest: push_keeps_file split: option.splits if_splits prod.splits)
  then show ?thesis
  proof cases
    case append
    then show ?thesis using append_honest [OF append(1) assms(2,3)] by (cases ok) auto
  qed simp
qed

lemma Commit_honest:
  assumes "Commit S key dio eio entries st = (st', r)" and "honest_disk dio"
  shows "prefix (local_entries (sk_ledger S) (ls_file st)) (local_entries (sk_ledger S) (ls_file st'))
    \<and> (r \<noteq> None \<longrightarrow> local_entries (sk_ledger S) (ls_file st') = local_entries (sk_ledger S) (ls_file st))"
proof -
  let ?K = "sk_ledger S"
  let ?cur = "ReadLocal ?K key (di_read dio) (ls_file st)"
  show ?thesis
  proof (cases "lc_Parse ?cur")
    case None
    then have "ls_file st = None \<or> ls_file st = Some []" if "\<not> lc_Unreached ?cur" using ReadLocal_none that by blast
    then consider "st' = st" | "commit_fresh S key dio eio [] entries (0, []) 0 st = (st', r)" "content (ls_file st) = []"
      using assms(1) None by (auto simp: Commit_def Let_def split: if_splits)
    then show ?thesis using commit_fresh_honest [OF _ assms(2)] by cases auto
  next
    case (Some p)
    then obtain b where b: "ls_file st = Some b" and p: "p = checked ?K key (ParseChain ?K b)" by (auto simp: ReadLocal_Parse)
    let ?st = "if cp_Torn p then st\<lparr>ls_file := map_option (truncate_to (cp_ValidBytes p)) (ls_file st)\<rparr> else st"
    consider "st' = st" | "commit_fresh S key dio eio (cp_Entries p) entries (Head p) (cp_ValidBytes p) ?st = (st', r)"
      using assms(1) Some by (auto simp: Commit_def Let_def split: if_splits)
    then show ?thesis
    proof cases
      case 2
      have "cp_ValidBytes p = cp_ValidBytes (ParseChain ?K (content (ls_file ?st)))" "local_entries ?K (ls_file ?st) = local_entries ?K (ls_file st)"
        by (auto simp: b p ParseChain_valid)
      then show ?thesis using commit_fresh_honest [OF 2 assms(2)] by simp
    qed simp
  qed
qed

lemma AppendLocal_honest:
  assumes "AppendLocal S key dio entries st = (st', r)" and "honest_disk dio"
  shows "prefix (local_entries (sk_ledger S) (ls_file st)) (local_entries (sk_ledger S) (ls_file st'))"
proof -
  let ?K = "sk_ledger S"
  let ?cur = "ReadLocal ?K key (di_read dio) (ls_file st)"
  have step: "prefix (local_entries ?K (ls_file st)) (local_entries ?K (ls_file st'))"
    if "append_after S key dio entries head sz st = (st', r)" "sz = cp_ValidBytes (ParseChain ?K (content (ls_file st)))" for head sz
    using that(1) append_honest [OF _ assms(2) that(2)] by (fastforce simp: append_after_def split: if_splits prod.splits)
  show ?thesis
  proof (cases "lc_Parse ?cur")
    case None
    then have "ls_file st = None \<or> ls_file st = Some []" if "\<not> lc_Unreached ?cur" using ReadLocal_none that by blast
    then show ?thesis using assms(1) None step [of "(0, [])" 0] by (auto simp: AppendLocal_def Let_def split: if_splits)
  next
    case (Some p)
    then obtain b where "ls_file st = Some b" "p = checked ?K key (ParseChain ?K b)" by (auto simp: ReadLocal_Parse)
    then show ?thesis using assms(1) Some step [of "Head p" "cp_ValidBytes p"] by (auto simp: AppendLocal_def Let_def split: if_splits)
  qed
qed

text \<open>The operations that serve a running appliance. \<open>Abort\<close> takes entries back by design and \<open>RewriteLocal\<close> replaces the file.\<close>

datatype ledger_op =
    DoCommit disk_io dest_io "ledger_entry list"
  | DoAppend disk_io "ledger_entry list"
  | DoPush dest_io bool
  | SetDest "objects option"
  | DestChanges objects

fun ledger_op_step :: "store_kit \<Rightarrow> string \<Rightarrow> ledger_store \<Rightarrow> ledger_op \<Rightarrow> ledger_store" where
  "ledger_op_step S key st (DoCommit dio eio entries) = (if honest_disk dio then fst (Commit S key dio eio entries st) else st)"
| "ledger_op_step S key st (DoAppend dio entries) = (if honest_disk dio then fst (AppendLocal S key dio entries st) else st)"
| "ledger_op_step S key st (DoPush eio force) = fst (if force then ForceExternal S key eio st else PushExternal S key eio st)"
| "ledger_op_step S key st (SetDest d) = st\<lparr>ls_dest := d\<rparr>"
| "ledger_op_step S key st (DestChanges d) = st\<lparr>ls_dest := map_option (\<lambda>_. d) (ls_dest st)\<rparr>"

definition file_grows :: "store_kit \<Rightarrow> ledger_store \<Rightarrow> ledger_store \<Rightarrow> bool" where
  "file_grows S st st' \<longleftrightarrow> prefix (local_entries (sk_ledger S) (ls_file st)) (local_entries (sk_ledger S) (ls_file st'))"

lemma ledger_op_grows: "file_grows S st (ledger_op_step S key st op)"
  unfolding file_grows_def
proof (cases op)
  case (DoCommit dio eio entries)
  then show "prefix (local_entries (sk_ledger S) (ls_file st)) (local_entries (sk_ledger S) (ls_file (ledger_op_step S key st op)))"
    by (cases "Commit S key dio eio entries st") (simp add: Commit_honest)
next
  case (DoAppend dio entries)
  then show "prefix (local_entries (sk_ledger S) (ls_file st)) (local_entries (sk_ledger S) (ls_file (ledger_op_step S key st op)))"
    by (cases "AppendLocal S key dio entries st") (simp add: AppendLocal_honest)
next
  case (DoPush eio force)
  then show "prefix (local_entries (sk_ledger S) (ls_file st)) (local_entries (sk_ledger S) (ls_file (ledger_op_step S key st op)))"
    by (cases force; cases "pushExternalLocked S key eio force st") (auto simp: PushExternal_def ForceExternal_def dest: push_keeps_file)
qed simp_all

interpretation ledger_file: monotone_machine "ledger_op_step S key" "\<lambda>_. True" "file_grows S" for S key
  by unfold_locales (auto simp: file_grows_def ledger_op_grows [unfolded file_grows_def] intro: prefix_order.trans)

subsection \<open>The claims\<close>


text \<open>Samples: a note written field by field, an empty appliance, a disk and a storage that work.\<close>

definition sample_field :: "string \<Rightarrow> string" where
  "sample_field s = concat (map (\<lambda>c. [CHR ''1'', c]) s) @ ''0''"

definition sample_note :: "head_info \<Rightarrow> string" where
  "sample_note h = sample_field (hi_Ledger h) @ sample_field (Itoa (hi_Seq h)) @ sample_field (hi_Hash h) @ sample_field (Itoa (hi_Entries h))
    @ sample_field (hi_PlainSHA256 h) @ sample_field (hi_Object h) @ sample_field (hi_ObjectSHA256 h) @ sample_field (if hi_Encrypted h then ''y'' else ''n'')
    @ sample_field (hi_CipherFP h) @ sample_field (hi_UpdatedAt h) @ sample_field (hi_Mac h)"

lemma sample_field_inject: "sample_field s @ r = sample_field t @ r' \<longleftrightarrow> s = t \<and> r = r'"
proof (induction s arbitrary: t)
  case Nil
  show ?case by (cases t) (auto simp: sample_field_def)
next
  case (Cons a s)
  then show ?case by (cases t) (auto simp: sample_field_def)
qed

lemma inj_sample_note: "inj sample_note"
proof (rule injI)
  fix g h :: head_info
  assume "sample_note g = sample_note h"
  then show "g = h" using sample_field_inject [of "hi_Mac g" "[]" "hi_Mac h" "[]"]
    by (cases g; cases h) (auto simp: sample_note_def sample_field_inject Itoa_inject split: if_splits)
qed

definition sample_store_kit :: "(string \<Rightarrow> head_info option) \<Rightarrow> store_kit" where
  "sample_store_kit dec = \<lparr>sk_ledger = sample_kit, sk_note_json = sample_note, sk_note_decode = dec, sk_decrypt = (\<lambda>i b. None)\<rparr>"

definition sample_disk_io :: disk_io where
  "sample_disk_io = \<lparr>di_read = False, di_trunc = False, di_mkdir = False, di_open = False, di_write = Wrote, di_sync = False, di_close = False,
    di_back = False, di_undo = False, di_restore = False\<rparr>"

definition sample_dest_io :: dest_io where
  "sample_dest_io = \<lparr>do_read = False, do_note = False, do_held = False, do_cipher = NoRecipients, do_put = PutStored, do_back = False,
    do_note_put = PutStored, do_note_back = False, do_remove = False, do_now = ''now''\<rparr>"

definition sample_store :: ledger_store where
  "sample_store = \<lparr>ls_file = Some (''start'' @ line_feed # ''sea''), ls_dest = Some (\<lambda>_. None)\<rparr>"

lemma sample_commit:
  "snd (Commit (sample_store_kit dec) [] sample_disk_io sample_dest_io [sample_start, sample_seal] sample_store) = None"
  "ls_file (fst (Commit (sample_store_kit dec) [] sample_disk_io sample_dest_io [sample_start, sample_seal] sample_store))
    = Some (''start'' @ line_feed # ''seal'' @ [line_feed])"
  by code_simp+

lemma distinct_hashes_list:
  "distinct (map (lk_sha256 K) (remdups (map (\<lambda>e. Join unit_sep (hash_fields e)) xs))) \<Longrightarrow> distinct_hashes K (set xs)"
  by (simp add: distinct_hashes_def distinct_map image_image)

definition sample_decode :: "string \<Rightarrow> head_info option" where
  "sample_decode s = (if s \<in> range sample_note then Some (inv sample_note s) else None)"

lemma sample_decode_note: "sample_decode (sample_note h) = Some h"
  by (simp add: sample_decode_def inv_f_f [OF inj_sample_note])

lemma sample_files:
  "cp_Entries (ParseChain sample_kit (''start'' @ line_feed # ''sea'')) = [sample_start]"
  "cp_Entries (ParseChain sample_kit (''start'' @ line_feed # ''seal'' @ [line_feed])) = [sample_start, sample_seal]"
  by code_simp+

lemma sample_plain: "list_all plain_entry [sample_start, sample_start, sample_seal, sample_start, sample_seal]"
  "distinct_hashes sample_kit (set [sample_start, sample_seal])"
proof -
  show "list_all plain_entry [sample_start, sample_start, sample_seal, sample_start, sample_seal]" by code_simp
  have "distinct (map (lk_sha256 sample_kit) (remdups (map (\<lambda>e. Join unit_sep (hash_fields e)) [sample_start, sample_seal])))" by code_simp
  then show "distinct_hashes sample_kit (set [sample_start, sample_seal])" by (rule distinct_hashes_list)
qed


text \<open>
  Whatever commits, appends and pushes follow each other on a disk that does what it reports, each failing anywhere, with
  the secondary storage replaced or changed by others in between, no entry that was once in the file on the appliance leaves it or moves: the entries at any
  later time continue those at any earlier time.
\<close>

theorem ledger_file_never_shrinks:
  "prefix (local_entries (sk_ledger S) (ls_file (run (ledger_op_step S key) st ops)))
     (local_entries (sk_ledger S) (ls_file (run (ledger_op_step S key) st (ops @ later))))"
  using ledger_file.run_le_prefix [of S key st ops later] by (simp add: file_grows_def)

subsection \<open>Two gaps of the secondary copy\<close>

text \<open>The guard against overwriting newer entries is skipped when the note or the object it names cannot be read.\<close>

lemma unreadable_note_skips_guard:
  "do_note io \<or> do_held io \<and> d ExternalHead \<noteq> None \<Longrightarrow> push_guard (readExternalHeadFrom S key (do_note io) (do_held io) d) lid seq hash = None"
  by (auto simp: push_guard_def readExternalHeadFrom_def split: option.splits)

text \<open>A push that stored the object but not the note leaves a secondary copy that reads as damaged.\<close>

lemma interrupted_push_damages:
  assumes "d ExternalHead = Some hb" and "sk_note_decode S hb = Some h" and "hi_Object h \<noteq> []" and "key = [] \<or> hi_Mac h = [] \<or> hi_Mac h = HeadMAC S key h"
    and "d (hi_Object h) = Some obj" and "sum_hex S obj \<noteq> hi_ObjectSHA256 h"
  shows "\<not> usable (ReadExternal S key False False False identity (Some d))"
  using assms by (auto simp: ReadExternal_def readExternalHeadFrom_def Let_def usable_def copy_Intact_def absent_copy_def)

end
