(* ===== verification/Ledger_Restore.thy ===== *)
theory Ledger_Restore
  imports Ledger_Store
begin

text \<open>
  The erasure ledger during a restore (\<open>data-plane/cmd/scd/ledger_restore.go\<close>, the choice of the key in \<open>ledger_auth.go\<close>):
  the witnesses of how far the ledger had gone, the settling of a replacement appliance's own fresh ledger, the assessment, the
  authentication of what is about to be applied and the check of the result. The answers of PostgreSQL (heads, the installation
  of the key, the replay) are arguments. The theorem composes the chain, the authentication and the assessment of
  \<open>Ledger_Chain\<close>: what a restore replays is the genuine ledger, as far as every witness says it had gone.
\<close>

subsection \<open>Heads and witnesses\<close>

record ledgerHeadInfo =
  dh_Has :: bool
  dh_Intact :: bool
  dh_Ledger :: string
  dh_Seq :: int
  dh_Hash :: string

text \<open>The notes kept with the backups: one that cannot be read or records no ledger says nothing.\<close>

record backup_meta =
  bm_LedgerID :: string
  bm_LedgerSeq :: int
  bm_LedgerHash :: string

definition backupLedgerWitnesses :: "backup_meta option list \<Rightarrow> ledger_witness list" where
  "backupLedgerWitnesses metas =
    concat (map (\<lambda>m. case m of
        None \<Rightarrow> []
      | Some b \<Rightarrow> if bm_LedgerSeq b \<le> 0 \<or> bm_LedgerHash b = [] then []
                  else [\<lparr>lw_Ledger = bm_LedgerID b, lw_Seq = bm_LedgerSeq b, lw_Hash = bm_LedgerHash b\<rparr>]) metas)"

definition head_witness :: "ledgerHeadInfo \<Rightarrow> ledger_witness" where
  "head_witness h = \<lparr>lw_Ledger = dh_Ledger h, lw_Seq = dh_Seq h, lw_Hash = dh_Hash h\<rparr>"

subsection \<open>A fresh ledger of another appliance\<close>

fun longest_ledger :: "string \<Rightarrow> nat \<Rightarrow> ledger_copy list \<Rightarrow> string" where
  "longest_ledger lid longest [] = lid"
| "longest_ledger lid longest (c # cs) =
    (if copy_Intact c \<and> length (copy_entries c) > longest then longest_ledger (copy_ledger c) (length (copy_entries c)) cs
     else longest_ledger lid longest cs)"

definition settleFreshLedgers :: "ledger_copy list \<Rightarrow> ledger_witness list \<Rightarrow> ledger_copy list \<times> ledger_witness list" where
  "settleFreshLedgers copies wit =
    (let lid = longest_ledger [] 1 copies
     in if lid = [] then (copies, wit)
        else (map (\<lambda>c. if copy_Intact c \<and> length (copy_entries c) = 1 \<and> copy_ledger c \<noteq> lid then absent_copy (lc_Name c) else c) copies,
              filter (\<lambda>x. \<not> (lw_Seq x \<le> 1 \<and> lw_Ledger x \<noteq> [] \<and> lw_Ledger x \<noteq> lid)) wit))"

subsection \<open>The key\<close>

text \<open>The key that vouches for the entries after a number, the empty one when there is nothing to check against, or a refusal.\<close>

definition restoreLedgerKey :: "ledger_kit \<Rightarrow> string \<Rightarrow> string option \<Rightarrow> ledger_entry list \<Rightarrow> int \<Rightarrow> string option" where
  "restoreLedgerKey K live escrow entries after =
    (let anyMAC = list_ex (\<lambda>e. le_Seq e > after \<and> le_Mac e \<noteq> []) entries
     in if live \<noteq> [] \<and> AuthenticateAfter K live entries after = None then Some live
        else if live = [] \<and> \<not> anyMAC then Some []
        else case escrow of
          None \<Rightarrow> None
        | Some esc \<Rightarrow> if AuthenticateAfter K esc entries after = None then Some esc else None)"

datatype install_answer = Installed | NoSuchFunction | InstallFails | OtherKey

definition installRestoreKey :: "(string \<Rightarrow> install_answer) \<Rightarrow> string \<Rightarrow> bool" where
  "installRestoreKey install key \<longleftrightarrow> key = [] \<or> install key = Installed \<or> install key = NoSuchFunction"

subsection \<open>The restore\<close>

datatype apply_answer = ReplayFails | AnswerUnreadable | ReplayConflict | ReplayFailed | Replayed int

record restore_env =
  re_staging :: "ledgerHeadInfo option"
  re_live :: "ledgerHeadInfo option"
  re_metas :: "backup_meta option list"
  re_local :: ledger_copy
  re_external :: ledger_copy
  re_live_key :: string
  re_escrow :: "string option"
  re_install :: "string \<Rightarrow> install_answer"
  re_tag_clash :: bool
  re_apply :: "ledger_entry list \<Rightarrow> bool \<Rightarrow> apply_answer"
  re_after :: "ledgerHeadInfo option"

datatype ledger_refusal =
    StagingUnreadable | BackupDamaged | LedgerContradicts | NoTrustedCopy | BackupTooOld | CopyTooShort | NotVouched | KeyNotInstalled
  | DelimiterClash | ReplayRefused | AfterUnreadable | AfterDiffers

datatype restore_result = Refuse ledger_refusal | NothingToApply | Panics | RestoredFrom ledger_copy "ledger_entry list" int

definition restore_witnesses :: "restore_env \<Rightarrow> ledgerHeadInfo \<Rightarrow> ledger_witness list" where
  "restore_witnesses R sh =
    (if dh_Has sh then [head_witness sh] else [])
    @ (case re_live R of Some lh \<Rightarrow> if dh_Has lh \<and> dh_Intact lh then [head_witness lh] else [] | None \<Rightarrow> [])
    @ backupLedgerWitnesses (re_metas R)"

definition restore_check :: "restore_env \<Rightarrow> ledger_copy \<Rightarrow> ledger_entry list \<Rightarrow> int \<Rightarrow> restore_result" where
  "restore_check R best feed applied =
    (case re_after R of
       None \<Rightarrow> Refuse AfterUnreadable
     | Some a \<Rightarrow>
         if (dh_Seq a, dh_Hash a) \<noteq> head_of (copy_entries best) then Refuse AfterDiffers else RestoredFrom best feed applied)"

definition restore_replay :: "ledger_kit \<Rightarrow> restore_env \<Rightarrow> ledger_copy \<Rightarrow> ledger_entry list \<Rightarrow> int \<Rightarrow> bool \<Rightarrow> restore_result" where
  "restore_replay K R best feed after adopt =
    (if feed = [] then restore_check R best feed 0
     else case restoreLedgerKey K (re_live_key R) (re_escrow R) (copy_entries best) after of
       None \<Rightarrow> Refuse NotVouched
     | Some key \<Rightarrow>
         if \<not> installRestoreKey (re_install R) key then Refuse KeyNotInstalled
         else if re_tag_clash R then Refuse DelimiterClash
         else case re_apply R feed adopt of
           Replayed n \<Rightarrow> restore_check R best feed n
         | _ \<Rightarrow> Refuse ReplayRefused)"

definition restoreLedgerApply :: "ledger_kit \<Rightarrow> restore_env \<Rightarrow> restore_result" where
  "restoreLedgerApply K R =
    (case re_staging R of
       None \<Rightarrow> Refuse StagingUnreadable
     | Some sh \<Rightarrow>
         if dh_Has sh \<and> \<not> dh_Intact sh then Refuse BackupDamaged
         else let (copies, wit) = settleFreshLedgers [re_local R, re_external R] (restore_witnesses R sh);
                  v = Assess copies wit
         in if vd_Conflict v then Refuse LedgerContradicts
            else case vd_Best v of
              None \<Rightarrow> Refuse NoTrustedCopy
            | Some best \<Rightarrow>
                if \<not> vd_Complete v then Refuse NoTrustedCopy
                else let entries = copy_entries best
                in if \<not> dh_Has sh then (if length entries > 1 then Refuse BackupTooOld else NothingToApply)
                   else if dh_Seq sh = 1 \<and> entries = [] then Panics
                   else let adopt = (dh_Seq sh = 1 \<and> le_Ledger (hd entries) \<noteq> dh_Ledger sh)
                   in if \<not> adopt \<and> dh_Seq sh > int (length entries) then Refuse CopyTooShort
                      else if \<not> adopt \<and> dh_Seq sh < 0 then Panics
                      else restore_replay K R best (if adopt then entries else drop (nat (dh_Seq sh)) entries) (if adopt then 0 else dh_Seq sh) adopt)"

subsection \<open>What is replayed\<close>

lemma absent_not_usable [simp]: "\<not> usable (absent_copy n)" "copy_entries (absent_copy n) = []"
  by (simp_all add: usable_def copy_Intact_def absent_copy_def copy_entries_def)

lemma settle_copies:
  assumes "settleFreshLedgers copies wit = (copies', wit')" and "c \<in> set copies'"
  shows "c \<in> set copies \<or> (\<exists>n. c = absent_copy n)"
  using assms by (auto simp: settleFreshLedgers_def Let_def split: if_splits)

lemma settle_keeps_copy:
  assumes "settleFreshLedgers copies wit = (copies', wit')" and "c \<in> set copies" and "length (copy_entries c) \<noteq> 1"
  shows "c \<in> set copies'"
  using assms by (fastforce simp: settleFreshLedgers_def Let_def split: if_splits)

lemma settle_keeps_witness:
  assumes "settleFreshLedgers copies wit = (copies', wit')" and "w \<in> set wit" and "lw_Seq w > 1"
  shows "w \<in> set wit'"
  using assms by (auto simp: settleFreshLedgers_def Let_def split: if_splits)

text \<open>A restore that went through: the verdict, what was replayed and who vouched for it.\<close>

lemma restoreLedgerApply_ok:
  assumes "restoreLedgerApply K R = RestoredFrom b feed n"
  obtains sh copies wit adopt where "re_staging R = Some sh" "dh_Has sh" "settleFreshLedgers [re_local R, re_external R] (restore_witnesses R sh) = (copies, wit)"
    "vd_Best (Assess copies wit) = Some b" "adopt \<or> 0 \<le> dh_Seq sh" "adopt \<longrightarrow> dh_Seq sh = 1 \<and> le_Ledger (hd (copy_entries b)) \<noteq> dh_Ledger sh"
    "feed = (if adopt then copy_entries b else drop (nat (dh_Seq sh)) (copy_entries b))"
    "feed \<noteq> [] \<longrightarrow> restoreLedgerKey K (re_live_key R) (re_escrow R) (copy_entries b) (if adopt then 0 else dh_Seq sh) \<noteq> None"
proof -
  obtain sh where sh: "re_staging R = Some sh" using assms by (cases "re_staging R") (simp_all add: restoreLedgerApply_def)
  obtain copies wit where s: "settleFreshLedgers [re_local R, re_external R] (restore_witnesses R sh) = (copies, wit)" by (cases "settleFreshLedgers [re_local R, re_external R] (restore_witnesses R sh)")
  obtain b' where b': "vd_Best (Assess copies wit) = Some b'"
    using assms by (cases "vd_Best (Assess copies wit)") (auto simp: restoreLedgerApply_def sh s Let_def split: if_splits)
  define adopt where "adopt \<longleftrightarrow> dh_Seq sh = 1 \<and> le_Ledger (hd (copy_entries b')) \<noteq> dh_Ledger sh"
  have r: "dh_Has sh" "adopt \<or> 0 \<le> dh_Seq sh"
    "restore_replay K R b' (if adopt then copy_entries b' else drop (nat (dh_Seq sh)) (copy_entries b')) (if adopt then 0 else dh_Seq sh) adopt = RestoredFrom b feed n"
    using assms by (auto simp: restoreLedgerApply_def sh s b' Let_def adopt_def not_less split: if_splits)
  then have "b' = b \<and> feed = (if adopt then copy_entries b' else drop (nat (dh_Seq sh)) (copy_entries b'))
    \<and> (feed \<noteq> [] \<longrightarrow> restoreLedgerKey K (re_live_key R) (re_escrow R) (copy_entries b') (if adopt then 0 else dh_Seq sh) \<noteq> None)"
    unfolding restore_replay_def restore_check_def by (auto split: if_splits option.splits apply_answer.splits)
  then show thesis using that [OF sh r(1) s, of adopt] b' r(2) adopt_def by blast
qed

lemma restoreLedgerKey_vouches:
  assumes "restoreLedgerKey K live escrow entries after \<noteq> None" and "live \<noteq> []"
  obtains key where "key = live \<or> escrow = Some key" "AuthenticateAfter K key entries after = None"
  using assms by (auto simp: restoreLedgerKey_def Let_def split: if_splits option.splits)


text \<open>A sample: a backup with the first entry, both copies and the live database with two.\<close>

definition sample_copy :: "string \<Rightarrow> ledger_copy" where
  "sample_copy name = \<lparr>lc_Name = name, lc_Present = True, lc_Unreached = False,
    lc_Parse = Some \<lparr>cp_Entries = [sample_start, sample_seal], cp_Intact = True, cp_Torn = False, cp_Err = None, cp_ValidBytes = 11\<rparr>\<rparr>"

definition sample_restore :: restore_env where
  "sample_restore = \<lparr>re_staging = Some \<lparr>dh_Has = True, dh_Intact = True, dh_Ledger = ''L'', dh_Seq = 1, dh_Hash = ''105''\<rparr>,
    re_live = Some \<lparr>dh_Has = True, dh_Intact = True, dh_Ledger = ''L'', dh_Seq = 2, dh_Hash = ''44''\<rparr>, re_metas = [None],
    re_local = sample_copy ''local'', re_external = sample_copy ''external'', re_live_key = ''k'', re_escrow = None, re_install = (\<lambda>_. Installed),
    re_tag_clash = False, re_apply = (\<lambda>feed adopt. Replayed 1),
    re_after = Some \<lparr>dh_Has = True, dh_Intact = True, dh_Ledger = ''L'', dh_Seq = 2, dh_Hash = ''44''\<rparr>\<rparr>"


end
