(* ===== verification/Voucher_Codes.thy ===== *)
theory Voucher_Codes
  imports Commerce_Rules
begin

text \<open>
  Voucher codes (\<open>data-plane/internal/codegen\<close>, \<open>internal/crockford\<close>, \<open>cmd/scd/voucher_code_format.go\<close>): the alphabets, the
  options of a batch, the generation of a batch of different codes from a random source, and the normalisers. The random source is a
  function from the attempt and the position to a number, or nothing when reading it fails. The lemmas show what a batch consists
  of, that the loop stops after a fixed number of attempts, and that codes survive being typed.
\<close>

subsection \<open>Alphabets and options\<close>

definition alwaysExclude :: string where "alwaysExclude = ''ILOU''"
definition ambiguousExtra :: string where "ambiguousExtra = ''015S''"
definition MinLength :: int where "MinLength = 4"
definition MaxLength :: int where "MaxLength = 16"
definition MinCount :: int where "MinCount = 1"
definition MaxCount :: int where "MaxCount = 10000"
definition MaxPrefix :: nat where "MaxPrefix = 8"

record code_options =
  co_Length :: int
  co_Mode :: string
  co_Prefix :: string
  co_ExcludeAmbiguous :: bool

definition Alphabet :: "string \<Rightarrow> bool \<Rightarrow> string" where
  "Alphabet mode excludeAmbiguous =
    (let base = (if mode = ''numbers'' then ''0123456789''
                 else if mode = ''letters'' then ''ABCDEFGHIJKLMNOPQRSTUVWXYZ''
                 else ''ABCDEFGHIJKLMNOPQRSTUVWXYZ0123456789'');
         remove = (if excludeAmbiguous then alwaysExclude @ ambiguousExtra else alwaysExclude)
     in filter (\<lambda>c. c \<notin> set remove) base)"

definition Normalize :: "string \<Rightarrow> string" where
  "Normalize s = filter (\<lambda>c. c \<noteq> CHR ''-'' \<and> c \<noteq> CHR '' '' \<and> c \<noteq> CHR 0x09) (ToUpper s)"

datatype code_error = BadMode | BadLength | PrefixTooLong | PrefixCharacters | AlphabetTooSmall | BadCount | SpaceTooSmall | RetriesExhausted | RandomFails

definition prefix_char :: "char \<Rightarrow> bool" where
  "prefix_char c \<longleftrightarrow> c \<notin> set alwaysExclude \<and> (is_upper c \<or> is_digit c)"

definition normalized :: "code_options \<Rightarrow> code_error + (code_options \<times> string)" where
  "normalized o0 =
    (let mode = ToLower (TrimSpace (co_Mode o0));
         mode' = (if mode \<in> {''numbers'', ''letters'', ''alnum''} then Some mode else if mode \<in> {''complex'', ''''} then Some ''alnum'' else None)
     in case mode' of
       None \<Rightarrow> Inl BadMode
     | Some md \<Rightarrow>
         let len = (if co_Length o0 = 0 then 8 else co_Length o0); pre = ToUpper (TrimSpace (co_Prefix o0));
             alpha = Alphabet md (co_ExcludeAmbiguous o0)
         in if len < MinLength \<or> len > MaxLength then Inl BadLength
            else if length pre > MaxPrefix then Inl PrefixTooLong
            else if \<not> list_all prefix_char pre then Inl PrefixCharacters
            else if length alpha < 2 then Inl AlphabetTooSmall
            else Inr (o0\<lparr>co_Length := len, co_Mode := md, co_Prefix := pre\<rparr>, alpha))"

subsection \<open>Generation\<close>

type_synonym random_source = "nat \<Rightarrow> nat \<Rightarrow> nat option"

text \<open>\<open>rand.Int\<close> gives a number below its bound: any number of the source, reduced.\<close>

definition one :: "string \<Rightarrow> nat \<Rightarrow> (nat \<Rightarrow> nat option) \<Rightarrow> string option" where
  "one alpha len rnd =
    (if list_all (\<lambda>i. rnd i \<noteq> None) [0..<len] then Some (map (\<lambda>i. alpha ! (the (rnd i) mod length alpha)) [0..<len]) else None)"

function generate_loop :: "(nat \<Rightarrow> string option) \<Rightarrow> nat \<Rightarrow> nat \<Rightarrow> nat \<Rightarrow> string list \<Rightarrow> code_error + string list" where
  "generate_loop draw n maxAttempts attempts out =
    (if length out \<ge> n then Inr out
     else if attempts > maxAttempts then Inl RetriesExhausted
     else case draw attempts of
       None \<Rightarrow> Inl RandomFails
     | Some code \<Rightarrow> generate_loop draw n maxAttempts (Suc attempts) (if code \<in> set out then out else out @ [code]))"
  by pat_completeness auto
termination by (relation "measure (\<lambda>(draw, n, maxAttempts, attempts, out). Suc maxAttempts - attempts)") auto

declare generate_loop.simps [simp del]

definition code_draw :: "code_options \<Rightarrow> string \<Rightarrow> random_source \<Rightarrow> nat \<Rightarrow> string option" where
  "code_draw o1 alpha rnd a = map_option ((@) (co_Prefix o1)) (one alpha (nat (co_Length o1)) (rnd a))"

definition GenerateN :: "int \<Rightarrow> code_options \<Rightarrow> random_source \<Rightarrow> code_error + string list" where
  "GenerateN n o0 rnd =
    (case normalized o0 of
       Inl e \<Rightarrow> Inl e
     | Inr (o1, alpha) \<Rightarrow>
         if n < MinCount \<or> n > MaxCount then Inl BadCount
         else let space = int (length alpha) ^ nat (co_Length o1)
         in if space \<le> 10 ^ 15 \<and> 4 * n > space then Inl SpaceTooSmall
            else generate_loop (code_draw o1 alpha rnd) (nat n) (nat n * 4 + 64) 0 [])"

subsection \<open>The format of a site\<close>

record voucher_format =
  vf_Mode :: string
  vf_Length :: int

definition voucherCodeMode :: "string \<Rightarrow> string option" where
  "voucherCodeMode mode = (if mode = ''numbers'' then Some ''numbers'' else if mode = ''mixed'' then Some ''alnum'' else None)"

definition voucherCodeOptions :: "voucher_format \<Rightarrow> code_options option" where
  "voucherCodeOptions f =
    (case voucherCodeMode (vf_Mode f) of
       None \<Rightarrow> None
     | Some mode \<Rightarrow>
         if vf_Length f < 6 \<or> vf_Length f > 8 then None
         else Some \<lparr>co_Length = vf_Length f, co_Mode = mode, co_Prefix = [], co_ExcludeAmbiguous = True\<rparr>)"

subsection \<open>Crockford codes\<close>

definition crockford_Alphabet :: string where "crockford_Alphabet = ''0123456789ABCDEFGHJKMNPQRSTVWXYZ''"

definition crockford_Generate :: "(nat \<Rightarrow> nat option) \<Rightarrow> string option" where
  "crockford_Generate rnd = one crockford_Alphabet 12 rnd"

definition crockford_GenerateN :: "int \<Rightarrow> random_source \<Rightarrow> code_error + string list" where
  "crockford_GenerateN n rnd =
    (if n \<le> 0 then Inl BadCount else generate_loop (\<lambda>a. crockford_Generate (rnd a)) (nat n) (nat n * 3) 0 [])"

definition crockford_Format :: "string \<Rightarrow> string" where
  "crockford_Format code = (if length code \<noteq> 12 then code else take 4 code @ ''-'' @ take 4 (drop 4 code) @ ''-'' @ drop 8 code)"

definition crockford_fold :: "char \<Rightarrow> char option" where
  "crockford_fold c =
    (if c = CHR ''-'' \<or> c = CHR '' '' \<or> c = CHR 0x09 then None
     else let r = upper_char c
     in if r = CHR ''I'' \<or> r = CHR ''L'' then Some CHR ''1'' else if r = CHR ''O'' then Some CHR ''0'' else if r = CHR ''U'' then None else Some r)"

definition crockford_Normalize :: "string \<Rightarrow> string" where
  "crockford_Normalize s = List.map_filter crockford_fold s"

subsection \<open>A batch\<close>

definition first_occurrences :: "'a list \<Rightarrow> 'a list" where
  "first_occurrences xs = rev (remdups (rev xs))"

lemma first_occurrences_snoc: "first_occurrences (xs @ [x]) = (if x \<in> set xs then first_occurrences xs else first_occurrences xs @ [x])"
  by (simp add: first_occurrences_def)

lemma first_occurrences_simps [simp]: "set (first_occurrences xs) = set xs" "distinct (first_occurrences xs)" "first_occurrences [] = []"
  by (simp_all add: first_occurrences_def)

lemma first_occurrences_prefix: "\<exists>zs. first_occurrences (xs @ ys) = first_occurrences xs @ zs"
proof (induction ys rule: rev_induct)
  case (snoc y ys)
  then show ?case by (simp add: first_occurrences_snoc flip: append_assoc) auto
qed simp

text \<open>With a source that never fails the loop returns the first n different codes among the attempts allowed, or gives up.\<close>

lemma generate_loop_exact:
  assumes "\<And>a. draw a \<noteq> None" and "out = first_occurrences (map (\<lambda>a. the (draw a)) [0..<attempts])" and "attempts \<le> Suc m"
    and "length out \<le> n"
  shows "generate_loop draw n m attempts out =
    (let all = first_occurrences (map (\<lambda>a. the (draw a)) [0..<Suc m]) in if length all \<ge> n then Inr (take n all) else Inl RetriesExhausted)"
  using assms
proof (induction draw n m attempts out rule: generate_loop.induct)
  case (1 draw n m attempts out)
  define all where "all = first_occurrences (map (\<lambda>a. the (draw a)) [0..<Suc m])"
  have "[0..<Suc m] = [0..<attempts] @ [attempts..<Suc m]" using "1.prems"(3) by (metis le0 upt_add_eq_append le_add_diff_inverse)
  then obtain zs where zs: "all = out @ zs" using first_occurrences_prefix by (metis all_def "1.prems"(2) map_append)
  show ?case
  proof (cases "length out \<ge> n \<or> attempts > m")
    case True
    have "all = out" if "attempts > m"
    proof -
      have "attempts = Suc m" using "1.prems"(3) that by simp
      then show ?thesis using "1.prems"(2) by (simp only: all_def)
    qed
    then show ?thesis
      unfolding all_def [symmetric] Let_def using True "1.prems"(4) zs by (subst generate_loop.simps) auto
  next
    case False
    obtain code where code: "draw attempts = Some code" using "1.prems"(1) by blast
    define out' where "out' = (if code \<in> set out then out else out @ [code])"
    have "out' = first_occurrences (map (\<lambda>a. the (draw a)) [0..<Suc attempts])" "length out' \<le> n"
      using "1.prems"(2) code False by (simp_all add: out'_def first_occurrences_snoc)
    then have "generate_loop draw n m (Suc attempts) out' = (if length all \<ge> n then Inr (take n all) else Inl RetriesExhausted)"
      using False "1.IH" [OF _ _ code, folded out'_def] "1.prems"(1) by (simp add: all_def [symmetric] Let_def del: upt_Suc)
    then show ?thesis
      unfolding all_def [symmetric] Let_def using False by (subst generate_loop.simps) (simp add: code out'_def)
  qed
qed

text \<open>What the attempts of a batch are made of.\<close>

lemma Alphabet_chars: "c \<in> set (Alphabet mode b) \<Longrightarrow> prefix_char c"
proof -
  have "list_all (\<lambda>c. c \<in> set alwaysExclude \<or> prefix_char c) ''ABCDEFGHIJKLMNOPQRSTUVWXYZ0123456789''" by code_simp
  moreover have "list_all (\<lambda>c. c \<in> set ''ABCDEFGHIJKLMNOPQRSTUVWXYZ0123456789'') ''ABCDEFGHIJKLMNOPQRSTUVWXYZ''"
    "list_all (\<lambda>c. c \<in> set ''ABCDEFGHIJKLMNOPQRSTUVWXYZ0123456789'') ''0123456789''" by code_simp+
  moreover assume "c \<in> set (Alphabet mode b)"
  ultimately show ?thesis unfolding Alphabet_def Let_def list_all_iff by (simp only: set_filter mem_Collect_eq split: if_splits) (metis UnI1 set_append)+
qed

lemma one_chars: "one alpha len rnd = Some s \<Longrightarrow> alpha \<noteq> [] \<Longrightarrow> length s = len \<and> set s \<subseteq> set alpha"
  by (auto simp: one_def split: if_splits)

lemma normalized_Inr:
  assumes "normalized o0 = Inr (o1, alpha)"
  shows "MinLength \<le> co_Length o1 \<and> co_Length o1 \<le> MaxLength \<and> length (co_Prefix o1) \<le> MaxPrefix \<and> list_all prefix_char (co_Prefix o1)
    \<and> length alpha \<ge> 2 \<and> list_all prefix_char alpha"
  using assms by (auto simp: normalized_def Let_def list_all_iff Alphabet_chars split: if_splits option.splits)

lemma not_prefix_chars: "\<not> prefix_char CHR ''-''" "\<not> prefix_char CHR '' ''" "\<not> prefix_char CHR 0x09" "\<not> prefix_char CHR ''I''" "\<not> prefix_char CHR ''L''"
  "\<not> prefix_char CHR ''O''" "\<not> prefix_char CHR ''U''"
  by code_simp+

lemma prefix_char_range: "prefix_char c \<Longrightarrow> 65 \<le> (of_char c :: nat) \<and> (of_char c :: nat) \<le> 90 \<or> 48 \<le> (of_char c :: nat) \<and> (of_char c :: nat) \<le> 57"
  by (simp add: prefix_char_def is_upper_iff is_digit_def less_eq_char_def)

lemma prefix_char_upper: "prefix_char c \<Longrightarrow> upper_char c = c"
  using prefix_char_range [of c] by (auto simp: upper_char_def is_lower_def less_eq_char_def)

lemma prefix_char_folds:
  assumes "prefix_char c"
  shows "crockford_fold c = Some c"
proof -
  have "c \<notin> {CHR ''-'', CHR '' '', CHR 0x09, CHR ''I'', CHR ''L'', CHR ''O'', CHR ''U''}" using assms not_prefix_chars by auto
  then show ?thesis using prefix_char_upper [OF assms] by (simp add: crockford_fold_def)
qed

lemma prefix_char_not_space: "prefix_char c \<Longrightarrow> \<not> is_space c"
  using prefix_char_range [of c] by (auto simp: is_space_def)

lemma generate_loop_local:
  "(\<And>a. attempts \<le> a \<Longrightarrow> a \<le> m \<Longrightarrow> draw a = draw' a) \<Longrightarrow> generate_loop draw n m attempts out = generate_loop draw' n m attempts out"
proof (induction draw n m attempts out rule: generate_loop.induct)
  case (1 draw n m attempts out)
  show ?case
  proof (cases "length out \<ge> n \<or> attempts > m")
    case True
    then show ?thesis by (subst (1 2) generate_loop.simps) auto
  next
    case False
    then have d: "draw attempts = draw' attempts" using "1.prems" by simp
    show ?thesis
      using False "1.IH" "1.prems" by (subst (1 2) generate_loop.simps) (auto simp: d split: option.split)
  qed
qed

lemma generate_loop_Inr:
  assumes "generate_loop draw n m attempts out = Inr codes" and "distinct out" and "length out \<le> n" and "\<And>a c. draw a = Some c \<Longrightarrow> P c" and "list_all P out"
  shows "length codes = n \<and> distinct codes \<and> list_all P codes"
  using assms
proof (induction draw n m attempts out rule: generate_loop.induct)
  case (1 draw n m attempts out)
  show ?case
  proof (cases "length out \<ge> n")
    case True
    then show ?thesis using "1.prems" by (subst (asm) generate_loop.simps) simp
  next
    case False
    then obtain code where code: "draw attempts = Some code" "\<not> attempts > m" using "1.prems"(1) by (subst (asm) generate_loop.simps) (auto split: if_splits option.splits)
    define out' where "out' = (if code \<in> set out then out else out @ [code])"
    have "generate_loop draw n m (Suc attempts) out' = Inr codes"
      using "1.prems"(1) False code by (subst (asm) generate_loop.simps) (simp add: out'_def)
    moreover have "distinct out'" "length out' \<le> n" "list_all P out'" using "1.prems" False code by (auto simp: out'_def)
    ultimately show ?thesis using "1.IH" [OF False code(2,1), folded out'_def] "1.prems"(4) by blast
  qed
qed

text \<open>A batch: as many different codes as asked for, each the prefix and then characters of the alphabet.\<close>

lemma GenerateN_Inr:
  assumes "GenerateN n o0 rnd = Inr codes"
  shows "int (length codes) = n \<and> distinct codes \<and> (\<forall>c\<in>set codes. list_all prefix_char c \<and> c \<noteq> [])"
proof -
  obtain o1 alpha where o1: "normalized o0 = Inr (o1, alpha)" using assms by (cases "normalized o0") (auto simp: GenerateN_def)
  have g: "generate_loop (code_draw o1 alpha rnd) (nat n) (nat n * 4 + 64) 0 [] = Inr codes" and n: "n \<ge> 1"
    using assms by (auto simp: GenerateN_def o1 Let_def MinCount_def split: if_splits)
  have "list_all prefix_char c \<and> c \<noteq> []" if "code_draw o1 alpha rnd a = Some c" for a c
    using that normalized_Inr [OF o1] one_chars [of alpha "nat (co_Length o1)" "rnd a"]
    by (fastforce simp: code_draw_def list_all_iff MinLength_def)
  then show ?thesis
    using generate_loop_Inr [OF g, of "\<lambda>c. list_all prefix_char c \<and> c \<noteq> []"] n by (simp add: list_all_iff)
qed

text \<open>
  C40: The generation of a batch of voucher codes stops. For any random source, failing or not, it looks at no more than 4n + 65
  attempts; with one that does not fail it returns the first n different codes among these, in the order drawn, or gives
  up when there are fewer.
\<close>

theorem voucher_batch_terminates:
  assumes "normalized o0 = Inr (o1, alpha)" and "MinCount \<le> n" and "n \<le> MaxCount" and "\<not> (int (length alpha) ^ nat (co_Length o1) \<le> 10 ^ 15 \<and> 4 * n > int (length alpha) ^ nat (co_Length o1))"
  shows "(\<forall>rnd'. (\<forall>a < nat n * 4 + 65. rnd a = rnd' a) \<longrightarrow> GenerateN n o0 rnd' = GenerateN n o0 rnd)
    \<and> ((\<forall>a i. rnd a i \<noteq> None) \<longrightarrow> GenerateN n o0 rnd =
        (let all = first_occurrences (map (\<lambda>a. the (code_draw o1 alpha rnd a)) [0..<nat n * 4 + 65])
         in if length all \<ge> nat n then Inr (take (nat n) all) else Inl RetriesExhausted))"
proof -
  have G: "GenerateN n o0 r = generate_loop (code_draw o1 alpha r) (nat n) (nat n * 4 + 64) 0 []" for r
    using assms by (auto simp: GenerateN_def Let_def)
  have "GenerateN n o0 rnd' = GenerateN n o0 rnd" if "\<forall>a < nat n * 4 + 65. rnd a = rnd' a" for rnd'
    unfolding G by (rule generate_loop_local) (use that in \<open>simp add: code_draw_def\<close>)
  moreover have "generate_loop (code_draw o1 alpha rnd) (nat n) (nat n * 4 + 64) 0 [] =
        (let all = first_occurrences (map (\<lambda>a. the (code_draw o1 alpha rnd a)) [0..<Suc (nat n * 4 + 64)])
         in if length all \<ge> nat n then Inr (take (nat n) all) else Inl RetriesExhausted)" if "\<forall>a i. rnd a i \<noteq> None"
    by (rule generate_loop_exact) (use that in \<open>simp_all add: code_draw_def one_def list_all_iff\<close>)
  moreover have "Suc (nat n * 4 + 64) = nat n * 4 + 65" by simp
  ultimately show ?thesis unfolding G by metis
qed

definition sample_code_options :: code_options where
  "sample_code_options = \<lparr>co_Length = 6, co_Mode = ''numbers'', co_Prefix = '' h'', co_ExcludeAmbiguous = True\<rparr>"

theorem voucher_batch_terminates_witness:
  "GenerateN 2 sample_code_options (\<lambda>a i. Some (a div 2)) = Inr [''H222222'', ''H333333'']
   \<and> GenerateN 2 sample_code_options (\<lambda>a i. if a < 73 then Some (a div 2) else None) = Inr [''H222222'', ''H333333'']"
proof -
  define o1 where "o1 = \<lparr>co_Length = 6, co_Mode = ''numbers'', co_Prefix = ''H'', co_ExcludeAmbiguous = True\<rparr>"
  have n: "normalized sample_code_options = Inr (o1, ''2346789'')" unfolding o1_def by code_simp
  have six: "replicate 6 x = [x, x, x, x, x, x]" for x :: char by (simp add: eval_nat_numeral)
  have o: "code_draw o1 ''2346789'' (\<lambda>a i. Some (a div 2)) a = Some (''H'' @ replicate 6 (''2346789'' ! (a div 2 mod 7)))" for a
    by (simp add: code_draw_def one_def o1_def list_all_iff map_replicate_const)
  have "GenerateN 2 sample_code_options (\<lambda>a i. Some (a div 2)) = generate_loop (code_draw o1 ''2346789'' (\<lambda>a i. Some (a div 2))) 2 72 0 []"
    by (simp add: GenerateN_def n Let_def MinCount_def MaxCount_def) (simp add: o1_def)
  also have "\<dots> = Inr [''H222222'', ''H333333'']" by (simp add: generate_loop.simps o six)
  finally have r: "GenerateN 2 sample_code_options (\<lambda>a i. Some (a div 2)) = Inr [''H222222'', ''H333333'']" .
  have "\<forall>rnd'. (\<forall>a < nat 2 * 4 + 65. (\<lambda>i :: nat. Some (a div 2)) = rnd' a) \<longrightarrow>
      GenerateN 2 sample_code_options rnd' = GenerateN 2 sample_code_options (\<lambda>a i. Some (a div 2))"
    by (rule voucher_batch_terminates [OF n, THEN conjunct1]) (simp_all add: MinCount_def MaxCount_def o1_def)
  then show ?thesis using r by auto
qed

end
