(* ===== verification/Voucher_SignIn.thy ===== *)
theory Voucher_SignIn
  imports Voucher_Codes
begin

text \<open>
  Vouchers from the card to the sign-in: the cryptography of a code (\<open>internal/iamv2/voucher_codec.go\<close>), issuance of a batch with
  its key generation (\<open>cmd/scd/voucher_issue_iamv2.go\<close>), the keys a sign-in tries (\<open>cmd/scd/voucher_keys.go\<close>), the code as the portal
  sends it (\<open>cmd/portald/main.go\<close>) and its resolution (\<open>internal/iamv2/adapters.go\<close>, \<open>repo_pg.go\<close>). HMAC, AES-GCM, base64, the
  keyring and the random values are arguments; the tables of generations and vouchers carry the unique
  constraints of the schema. The theorem follows a code from issuance through key rotations to the sign-in.
\<close>

subsection \<open>The cryptography of a code\<close>

record voucher_kit =
  vk_hmac :: "string \<Rightarrow> string \<Rightarrow> string"
  vk_seal :: "string \<Rightarrow> string \<Rightarrow> string \<Rightarrow> string \<Rightarrow> string"
  vk_open :: "string \<Rightarrow> string \<Rightarrow> string \<Rightarrow> string \<Rightarrow> string option"
  vk_b64 :: "string \<Rightarrow> string"
  vk_unb64 :: "string \<Rightarrow> string option"

type_synonym keyring = "string \<Rightarrow> string option"

definition voucherDEKID :: string where "voucherDEKID = ''0a5c1e00-0000-4000-8000-0000000000d1''"

definition generationAAD :: "string \<Rightarrow> string \<Rightarrow> int \<Rightarrow> string" where
  "generationAAD tenant site no = ''iam_v2.voucher_code_key_generations|'' @ tenant @ ''|'' @ site @ ''|'' @ Itoa no"

definition voucherCodeAAD :: "string \<Rightarrow> string \<Rightarrow> string \<Rightarrow> string \<Rightarrow> string" where
  "voucherCodeAAD tenant site voucher generation = ''iam_v2.vouchers|'' @ tenant @ ''|'' @ site @ ''|'' @ voucher @ ''|'' @ generation"

definition seal_with :: "voucher_kit \<Rightarrow> string \<Rightarrow> string \<Rightarrow> string \<Rightarrow> string \<Rightarrow> string option" where
  "seal_with V key nonce plain aad = (if length key \<noteq> 32 then None else Some (vk_seal V key nonce plain aad))"

definition open_with :: "voucher_kit \<Rightarrow> string \<Rightarrow> string \<Rightarrow> string \<Rightarrow> string \<Rightarrow> string option" where
  "open_with V key cipher nonce aad = (if length key \<noteq> 32 then None else vk_open V key nonce cipher aad)"

text \<open>The sealed form of a fresh key; the clear key and the nonce are random values of the call.\<close>

definition NewVoucherHMACKey :: "voucher_kit \<Rightarrow> keyring \<Rightarrow> string \<Rightarrow> string \<Rightarrow> string \<Rightarrow> int \<Rightarrow> string \<Rightarrow> string \<Rightarrow> string option" where
  "NewVoucherHMACKey V kr keyID tenant site no clear nonce =
    (case kr keyID of None \<Rightarrow> None | Some dek \<Rightarrow> seal_with V dek nonce clear (generationAAD tenant site no))"

definition OpenVoucherHMACKey :: "voucher_kit \<Rightarrow> keyring \<Rightarrow> string \<Rightarrow> string \<Rightarrow> string \<Rightarrow> int \<Rightarrow> string \<Rightarrow> string \<Rightarrow> string option" where
  "OpenVoucherHMACKey V kr keyID tenant site no sealed nonce =
    (case kr keyID of None \<Rightarrow> None | Some dek \<Rightarrow> open_with V dek sealed nonce (generationAAD tenant site no))"

definition VoucherCodeHMAC :: "voucher_kit \<Rightarrow> string \<Rightarrow> string \<Rightarrow> string \<Rightarrow> string \<Rightarrow> string" where
  "VoucherCodeHMAC V key tenant site code = vk_hmac V key (tenant @ [CHR 0x00] @ site @ [CHR 0x00] @ code)"

definition SealVoucherCode :: "voucher_kit \<Rightarrow> keyring \<Rightarrow> string \<Rightarrow> string \<Rightarrow> string \<Rightarrow> string \<Rightarrow> string \<Rightarrow> string \<Rightarrow> string \<Rightarrow> string option" where
  "SealVoucherCode V kr keyID tenant site voucher generation code nonce =
    (case kr keyID of None \<Rightarrow> None | Some dek \<Rightarrow> seal_with V dek nonce code (voucherCodeAAD tenant site voucher generation))"

definition OpenVoucherCode :: "voucher_kit \<Rightarrow> keyring \<Rightarrow> string \<Rightarrow> string \<Rightarrow> string \<Rightarrow> string \<Rightarrow> string \<Rightarrow> string \<Rightarrow> string \<Rightarrow> string option" where
  "OpenVoucherCode V kr keyID tenant site voucher generation cipher nonce =
    (case kr keyID of None \<Rightarrow> None | Some dek \<Rightarrow> open_with V dek cipher nonce (voucherCodeAAD tenant site voucher generation))"

definition Last4 :: "string \<Rightarrow> string" where
  "Last4 code = (if length code \<le> 4 then code else drop (length code - 4) code)"

subsection \<open>Tables\<close>

record key_generation =
  kg_id :: string
  kg_tenant :: string
  kg_site :: string
  kg_no :: int
  kg_sealed :: string
  kg_nonce_b64 :: string
  kg_key_id :: string
  kg_superseded :: bool

record voucher_card =
  cd_id :: string
  cd_tenant :: string
  cd_site :: string
  cd_batch :: string
  cd_revision :: string
  cd_hmac :: string
  cd_cipher :: string
  cd_nonce :: string
  cd_generation :: string
  cd_last4 :: string
  cd_state :: string
  cd_from :: "go_time option"
  cd_until :: "go_time option"

record voucher_db =
  vs_gens :: "key_generation list"
  vs_cards :: "voucher_card list"
  vs_cache :: "string \<Rightarrow> (go_time \<times> string list) option"

definition vkKey :: "string \<Rightarrow> string \<Rightarrow> string" where
  "vkKey tenant site = tenant @ ''|'' @ site"

definition invalidateVoucherKeyCache :: "string \<Rightarrow> string \<Rightarrow> voucher_db \<Rightarrow> voucher_db" where
  "invalidateVoucherKeyCache tenant site db = db\<lparr>vs_cache := (vs_cache db)(vkKey tenant site := None)\<rparr>"

text \<open>The generations of a site, newest first.\<close>

definition site_generations :: "string \<Rightarrow> string \<Rightarrow> voucher_db \<Rightarrow> key_generation list" where
  "site_generations tenant site db = sort_key (\<lambda>g. - kg_no g) (filter (\<lambda>g. kg_tenant g = tenant \<and> kg_site g = site) (vs_gens db))"

definition open_generation :: "voucher_kit \<Rightarrow> keyring \<Rightarrow> string \<Rightarrow> string \<Rightarrow> key_generation \<Rightarrow> string option" where
  "open_generation V kr tenant site g =
    (case vk_unb64 V (kg_nonce_b64 g) of
       None \<Rightarrow> None
     | Some nonce \<Rightarrow> OpenVoucherHMACKey V kr (kg_key_id g) tenant site (kg_no g) (kg_sealed g) nonce)"

subsection \<open>Key generations\<close>

text \<open>The keys for a sign-in: cached for a minute, otherwise every generation that opens.\<close>

definition generationKeys :: "voucher_kit \<Rightarrow> keyring \<Rightarrow> string \<Rightarrow> string \<Rightarrow> bool \<Rightarrow> go_time \<Rightarrow> voucher_db \<Rightarrow> voucher_db \<times> string list option" where
  "generationKeys V kr tenant site fails now db =
    (let fresh = (case vs_cache db (vkKey tenant site) of
          None \<Rightarrow> None
        | Some (loaded, keys) \<Rightarrow> if time_sub now loaded < 60 * second \<and> keys \<noteq> [] then Some keys else None)
     in case fresh of
       Some keys \<Rightarrow> (db, Some keys)
     | None \<Rightarrow>
         if fails then (db, None)
         else let keys = List.map_filter (open_generation V kr tenant site) (site_generations tenant site db)
         in if keys = [] then (db, None)
            else (db\<lparr>vs_cache := (vs_cache db)(vkKey tenant site := Some (now, keys))\<rparr>, Some keys))"

record mint_env =
  me_read_fails :: bool
  me_max_fails :: bool
  me_clear :: string
  me_nonce :: string
  me_insert_fails :: bool
  me_id :: string

definition next_generation_no :: "string \<Rightarrow> string \<Rightarrow> voucher_db \<Rightarrow> int" where
  "next_generation_no tenant site db = fold max (map kg_no (filter (\<lambda>g. kg_tenant g = tenant \<and> kg_site g = site) (vs_gens db))) 0 + 1"

text \<open>The insertion fails on a key of the table: the id, or the number within the tenant.\<close>

definition insert_generation :: "key_generation \<Rightarrow> voucher_db \<Rightarrow> voucher_db option" where
  "insert_generation g db =
    (if list_ex (\<lambda>h. kg_id h = kg_id g \<or> kg_tenant h = kg_tenant g \<and> kg_no h = kg_no g) (vs_gens db) then None
     else Some (db\<lparr>vs_gens := vs_gens db @ [g]\<rparr>))"

definition ensureVoucherKeyGeneration :: "voucher_kit \<Rightarrow> keyring \<Rightarrow> string \<Rightarrow> string \<Rightarrow> mint_env \<Rightarrow> voucher_db \<Rightarrow> voucher_db \<times> (string \<times> string) option" where
  "ensureVoucherKeyGeneration V kr tenant site E db =
    (case (if me_read_fails E then [] else filter (\<lambda>g. \<not> kg_superseded g) (site_generations tenant site db)) of
       g # _ \<Rightarrow> (db, map_option (\<lambda>clear. (kg_id g, clear)) (open_generation V kr tenant site g))
     | [] \<Rightarrow>
         if me_max_fails E then (db, None)
         else let no = next_generation_no tenant site db
         in case NewVoucherHMACKey V kr voucherDEKID tenant site no (me_clear E) (me_nonce E) of
           None \<Rightarrow> (db, None)
         | Some sealed \<Rightarrow>
             if me_insert_fails E then (db, None)
             else (case insert_generation \<lparr>kg_id = me_id E, kg_tenant = tenant, kg_site = site, kg_no = no, kg_sealed = sealed,
                       kg_nonce_b64 = vk_b64 V (me_nonce E), kg_key_id = voucherDEKID, kg_superseded = False\<rparr> db of
                 None \<Rightarrow> (db, None)
               | Some db1 \<Rightarrow> (invalidateVoucherKeyCache tenant site db1, Some (me_id E, me_clear E))))"

subsection \<open>Issuance\<close>

record issue_req =
  iq_Revision :: string
  iq_Count :: int
  iq_IssuedBy :: string
  iq_From :: "go_time option"
  iq_Until :: "go_time option"

text \<open>\<open>parseRedemptionWindow\<close> on times that parsed; the zero time of a missing bound never compares.\<close>

definition parseRedemptionWindow :: "go_time option \<Rightarrow> go_time option \<Rightarrow> go_time \<Rightarrow> bool" where
  "parseRedemptionWindow from until now \<longleftrightarrow>
    (case until of None \<Rightarrow> True | Some u \<Rightarrow> u > now \<and> (case from of None \<Rightarrow> True | Some f \<Rightarrow> u > f))"

record issue_env =
  ie_now :: go_time
  ie_blocker :: "string option"
  ie_format :: "voucher_format option"
  ie_keyring :: bool
  ie_mint :: mint_env
  ie_random :: random_source
  ie_begin_fails :: bool
  ie_batch :: string
  ie_ids :: "nat \<Rightarrow> string option"
  ie_nonces :: "nat \<Rightarrow> string option"
  ie_gate :: "nat \<Rightarrow> bool"
  ie_commit_fails :: bool

definition insert_card :: "voucher_card \<Rightarrow> voucher_db \<Rightarrow> voucher_db option" where
  "insert_card c db =
    (if list_ex (\<lambda>d. cd_id d = cd_id c \<or> cd_hmac d = cd_hmac c) (vs_cards db) then None
     else Some (db\<lparr>vs_cards := vs_cards db @ [c]\<rparr>))"

fun insert_codes :: "voucher_kit \<Rightarrow> keyring \<Rightarrow> string \<Rightarrow> string \<Rightarrow> issue_req \<Rightarrow> issue_env \<Rightarrow> string \<Rightarrow> string \<Rightarrow> nat \<Rightarrow> string list \<Rightarrow> voucher_db \<Rightarrow> voucher_db option" where
  "insert_codes V kr tenant site q E gen key i [] db = Some db"
| "insert_codes V kr tenant site q E gen key i (code # codes) db =
    (case (ie_ids E i, ie_nonces E i) of
       (Some vid, Some nonce) \<Rightarrow>
         (case SealVoucherCode V kr voucherDEKID tenant site vid gen code nonce of
            None \<Rightarrow> None
          | Some cipher \<Rightarrow>
              if \<not> ie_gate E i then None
              else (case insert_card \<lparr>cd_id = vid, cd_tenant = tenant, cd_site = site, cd_batch = ie_batch E, cd_revision = iq_Revision q,
                        cd_hmac = VoucherCodeHMAC V key tenant site code, cd_cipher = cipher, cd_nonce = nonce, cd_generation = gen,
                        cd_last4 = Last4 code, cd_state = ''UNUSED'', cd_from = iq_From q, cd_until = iq_Until q\<rparr> db of
                  None \<Rightarrow> None
                | Some db1 \<Rightarrow> insert_codes V kr tenant site q E gen key (Suc i) codes db1))
     | _ \<Rightarrow> None)"

datatype issue_refusal =
    NoRevision | BadBatchCount | NoIssuer | BadWindow | BlockerUnreadable | RevisionBlocked | FormatUnreadable | FormatUnusable | NoKeyring | NoGeneration
  | CodesRefused | BatchFailed

definition issueVouchersIAMv2 :: "voucher_kit \<Rightarrow> keyring \<Rightarrow> string \<Rightarrow> string \<Rightarrow> issue_req \<Rightarrow> issue_env \<Rightarrow> voucher_db \<Rightarrow> voucher_db \<times> (issue_refusal + string list)" where
  "issueVouchersIAMv2 V kr tenant site q E db =
    (if iq_Revision q = [] then (db, Inl NoRevision)
     else if iq_Count q < 1 \<or> iq_Count q > 500 then (db, Inl BadBatchCount)
     else if TrimSpace (iq_IssuedBy q) = [] then (db, Inl NoIssuer)
     else if \<not> parseRedemptionWindow (iq_From q) (iq_Until q) (ie_now E) then (db, Inl BadWindow)
     else case ie_blocker E of
       None \<Rightarrow> (db, Inl BlockerUnreadable)
     | Some why \<Rightarrow>
         if why \<noteq> [] then (db, Inl RevisionBlocked)
         else (case ie_format E of
           None \<Rightarrow> (db, Inl FormatUnreadable)
         | Some fmt \<Rightarrow>
             (case voucherCodeOptions fmt of
                None \<Rightarrow> (db, Inl FormatUnusable)
              | Some opts \<Rightarrow>
                  (if \<not> ie_keyring E then (db, Inl NoKeyring)
                   else
                       (case ensureVoucherKeyGeneration V kr tenant site (ie_mint E) db of
                          (db1, None) \<Rightarrow> (db1, Inl NoGeneration)
                        | (db1, Some (gen, key)) \<Rightarrow>
                            (case GenerateN (iq_Count q) opts (ie_random E) of
                               Inl e \<Rightarrow> (db1, Inl CodesRefused)
                             | Inr codes \<Rightarrow>
                                 if ie_begin_fails E then (db1, Inl BatchFailed)
                                 else (case insert_codes V kr tenant site q E gen key 0 codes db1 of
                                   None \<Rightarrow> (db1, Inl BatchFailed)
                                 | Some db2 \<Rightarrow> if ie_commit_fails E then (db1, Inl BatchFailed) else (db2, Inr codes)))))))) "

subsection \<open>Sign-in\<close>

text \<open>The code as the portal sends it.\<close>

definition portal_code :: "string \<Rightarrow> string" where
  "portal_code typed = TrimSpace (ToUpper typed)"

definition voucherRejoinable :: "string \<Rightarrow> bool \<Rightarrow> bool" where
  "voucherRejoinable state live \<longleftrightarrow> state = ''REDEEMED'' \<and> live"

definition voucherRedeemable :: "string \<Rightarrow> go_time option \<Rightarrow> go_time option \<Rightarrow> go_time \<Rightarrow> bool" where
  "voucherRedeemable state from until now \<longleftrightarrow>
    state = ''UNUSED'' \<and> (case from of None \<Rightarrow> True | Some f \<Rightarrow> \<not> now < f) \<and> (case until of None \<Rightarrow> True | Some u \<Rightarrow> now < u)"

text \<open>\<open>live\<close> tells of a voucher whether its own entitlement is still running.\<close>

definition ResolveVoucherByHMAC :: "voucher_db \<Rightarrow> (string \<Rightarrow> bool) \<Rightarrow> string \<Rightarrow> string \<Rightarrow> string \<Rightarrow> go_time \<Rightarrow> (string \<times> bool) option" where
  "ResolveVoucherByHMAC db live tenant site index now =
    map_option (\<lambda>c. (cd_id c, voucherRedeemable (cd_state c) (cd_from c) (cd_until c) now \<or> voucherRejoinable (cd_state c) (live (cd_id c))))
      (find (\<lambda>c. cd_tenant c = tenant \<and> cd_site c = site \<and> cd_hmac c = index) (vs_cards db))"

datatype voucher_result = MissingCode | VoucherConfig | InvalidCode | NotRedeemable | Finalize string

fun first_resolved :: "voucher_db \<Rightarrow> (string \<Rightarrow> bool) \<Rightarrow> string \<Rightarrow> string \<Rightarrow> go_time \<Rightarrow> string list \<Rightarrow> (string \<times> bool) option" where
  "first_resolved db live tenant site now [] = None"
| "first_resolved db live tenant site now (h # hs) =
    (case ResolveVoucherByHMAC db live tenant site h now of
       Some (vid, ok) \<Rightarrow> if vid \<noteq> [] then Some (vid, ok) else first_resolved db live tenant site now hs
     | None \<Rightarrow> first_resolved db live tenant site now hs)"

definition newGenerationVoucherHMAC :: "voucher_kit \<Rightarrow> keyring \<Rightarrow> string \<Rightarrow> string \<Rightarrow> bool \<Rightarrow> go_time \<Rightarrow> string \<Rightarrow> voucher_db \<Rightarrow> voucher_db \<times> string list option" where
  "newGenerationVoucherHMAC V kr tenant site fails now code db =
    (case generationKeys V kr tenant site fails now db of
       (db1, r) \<Rightarrow> (db1, map_option (map (\<lambda>k. VoucherCodeHMAC V k tenant site code)) r))"

definition authVoucher :: "voucher_kit \<Rightarrow> keyring \<Rightarrow> string \<Rightarrow> string \<Rightarrow> bool \<Rightarrow> (string \<Rightarrow> bool) \<Rightarrow> string \<Rightarrow> go_time \<Rightarrow> voucher_db \<Rightarrow> voucher_db \<times> voucher_result" where
  "authVoucher V kr tenant site fails live secret now db =
    (if secret = [] then (db, MissingCode)
     else case newGenerationVoucherHMAC V kr tenant site fails now secret db of
       (db1, None) \<Rightarrow> (db1, VoucherConfig)
     | (db1, Some candidates) \<Rightarrow>
         if candidates = [] then (db1, InvalidCode)
         else (case first_resolved db1 live tenant site now candidates of
            None \<Rightarrow> (db1, InvalidCode)
          | Some (vid, ok) \<Rightarrow> (db1, if ok then Finalize vid else NotRedeemable)))"

lemmas authVoucher_unfold = authVoucher_def newGenerationVoucherHMAC_def

subsection \<open>The machine of one site\<close>

datatype voucher_op =
    Issue issue_req issue_env
  | Supersede string
  | SetState string string
  | SignIn bool "string \<Rightarrow> bool" string go_time

text \<open>The ids the database gives to the at most 500 cards of a batch are not empty.\<close>

definition issue_env_ok :: "issue_env \<Rightarrow> bool" where
  "issue_env_ok E \<longleftrightarrow> list_all (\<lambda>i. ie_ids E i \<noteq> Some []) [0..<500]"

definition supersede :: "string \<Rightarrow> string \<Rightarrow> string \<Rightarrow> voucher_db \<Rightarrow> voucher_db" where
  "supersede tenant site gen db =
    db\<lparr>vs_gens := map (\<lambda>g. if kg_tenant g = tenant \<and> kg_site g = site \<and> kg_id g = gen then g\<lparr>kg_superseded := True\<rparr> else g) (vs_gens db)\<rparr>"

definition set_card_state :: "string \<Rightarrow> string \<Rightarrow> voucher_db \<Rightarrow> voucher_db" where
  "set_card_state vid state db = db\<lparr>vs_cards := map (\<lambda>c. if cd_id c = vid then c\<lparr>cd_state := state\<rparr> else c) (vs_cards db)\<rparr>"

fun voucher_step :: "voucher_kit \<Rightarrow> keyring \<Rightarrow> string \<Rightarrow> string \<Rightarrow> voucher_db \<Rightarrow> voucher_op \<Rightarrow> voucher_db" where
  "voucher_step V kr tenant site db (Issue q E) = (if issue_env_ok E then fst (issueVouchersIAMv2 V kr tenant site q E db) else db)"
| "voucher_step V kr tenant site db (Supersede gen) = supersede tenant site gen db"
| "voucher_step V kr tenant site db (SetState vid state) = set_card_state vid state db"
| "voucher_step V kr tenant site db (SignIn fails live typed now) = fst (authVoucher V kr tenant site fails live (portal_code typed) now db)"

definition empty_vouchers :: voucher_db where
  "empty_vouchers = \<lparr>vs_gens = [], vs_cards = [], vs_cache = (\<lambda>_. None)\<rparr>"

definition kit_laws :: "voucher_kit \<Rightarrow> bool" where
  "kit_laws V \<longleftrightarrow> (\<forall>k n p a. vk_open V k n (vk_seal V k n p a) a = Some p) \<and> (\<forall>n. vk_unb64 V (vk_b64 V n) = Some n)"

definition site_keys :: "voucher_kit \<Rightarrow> keyring \<Rightarrow> string \<Rightarrow> string \<Rightarrow> voucher_db \<Rightarrow> string list" where
  "site_keys V kr tenant site db = List.map_filter (open_generation V kr tenant site) (site_generations tenant site db)"

definition site_cards :: "string \<Rightarrow> string \<Rightarrow> voucher_db \<Rightarrow> voucher_card set" where
  "site_cards tenant site db = {c \<in> set (vs_cards db). cd_tenant c = tenant \<and> cd_site c = site}"

definition card_code :: "voucher_kit \<Rightarrow> keyring \<Rightarrow> voucher_card \<Rightarrow> string option" where
  "card_code V kr c = OpenVoucherCode V kr voucherDEKID (cd_tenant c) (cd_site c) (cd_id c) (cd_generation c) (cd_cipher c) (cd_nonce c)"

text \<open>A card of the site: indexed under a key that opens, sealed, with a code that is printed.\<close>

definition card_ok :: "voucher_kit \<Rightarrow> keyring \<Rightarrow> string \<Rightarrow> string \<Rightarrow> string list \<Rightarrow> voucher_card \<Rightarrow> bool" where
  "card_ok V kr tenant site keys c \<longleftrightarrow> cd_id c \<noteq> [] \<and> (\<exists>k code. k \<in> set keys \<and> cd_hmac c = VoucherCodeHMAC V k tenant site code
    \<and> card_code V kr c = Some code \<and> code \<noteq> [] \<and> list_all prefix_char code)"

definition vouchers_ok :: "voucher_kit \<Rightarrow> keyring \<Rightarrow> string \<Rightarrow> string \<Rightarrow> voucher_db \<Rightarrow> bool" where
  "vouchers_ok V kr tenant site db \<longleftrightarrow>
    distinct (map cd_hmac (vs_cards db)) \<and> distinct (map cd_id (vs_cards db))
    \<and> (\<forall>c\<in>site_cards tenant site db. card_ok V kr tenant site (site_keys V kr tenant site db) c)
    \<and> (\<forall>loaded keys. vs_cache db (vkKey tenant site) = Some (loaded, keys) \<longrightarrow> keys = site_keys V kr tenant site db)"

lemma card_ok_mono: "card_ok V kr tenant site keys c \<Longrightarrow> set keys \<subseteq> set keys' \<Longrightarrow> card_ok V kr tenant site keys' c"
  by (auto simp: card_ok_def)

lemma set_site_keys: "set (site_keys V kr tenant site db) =
    {k. \<exists>g\<in>set (vs_gens db). kg_tenant g = tenant \<and> kg_site g = site \<and> open_generation V kr tenant site g = Some k}"
  by (auto simp: site_keys_def site_generations_def List.map_filter_def image_iff split: option.splits) (metis option.sel option.simps(3))+

lemma site_keys_cong:
  "vs_gens db = vs_gens db' \<Longrightarrow> site_keys V kr tenant site db = site_keys V kr tenant site db'"
  by (simp add: site_keys_def site_generations_def)

lemma site_keys_simps [simp]:
  "site_keys V kr tenant site (db\<lparr>vs_cache := m\<rparr>) = site_keys V kr tenant site db"
  "site_keys V kr tenant site (db\<lparr>vs_cards := cs\<rparr>) = site_keys V kr tenant site db"
  by (rule site_keys_cong; simp)+

subsection \<open>Every operation keeps it\<close>

lemma generationKeys_ok:
  assumes "generationKeys V kr tenant site fails now db = (db', r)" and "vouchers_ok V kr tenant site db"
  shows "vouchers_ok V kr tenant site db' \<and> vs_cards db' = vs_cards db \<and> vs_gens db' = vs_gens db
    \<and> (\<forall>keys. r = Some keys \<longrightarrow> keys = site_keys V kr tenant site db)
    \<and> (\<not> fails \<longrightarrow> site_keys V kr tenant site db \<noteq> [] \<longrightarrow> r \<noteq> None)"
proof -
  have cache: "keys = site_keys V kr tenant site db" if "vs_cache db (vkKey tenant site) = Some (loaded, keys)" for loaded keys
    using assms(2) that by (simp add: vouchers_ok_def)
  show ?thesis
    using assms cache unfolding generationKeys_def Let_def site_keys_def [symmetric]
    by (auto simp: vouchers_ok_def site_cards_def split: option.splits prod.splits if_splits)
qed

lemma sort_key_map: "(\<And>x. k (f x) = k x) \<Longrightarrow> sort_key k (map f xs) = map f (sort_key k xs)"
proof (induction xs)
  case (Cons x xs)
  have "insort_key k (f x) (map f ys) = map f (insort_key k x ys)" for ys by (induction ys) (simp_all add: Cons.prems)
  then show ?case using Cons by simp
qed simp

lemma supersede_keys: "site_keys V kr tenant site (supersede tenant site gen db) = site_keys V kr tenant site db"
proof -
  let ?f = "\<lambda>g. if kg_tenant g = tenant \<and> kg_site g = site \<and> kg_id g = gen then g\<lparr>kg_superseded := True\<rparr> else g"
  have f: "filter (\<lambda>g. kg_tenant g = tenant \<and> kg_site g = site) (map ?f xs) = map ?f (filter (\<lambda>g. kg_tenant g = tenant \<and> kg_site g = site) xs)" for xs
    by (induction xs) auto
  have o: "open_generation V kr tenant site (?f g) = open_generation V kr tenant site g" for g by (simp add: open_generation_def split: option.split)
  show ?thesis
    unfolding site_keys_def site_generations_def supersede_def
    by (simp add: f sort_key_map) (simp add: List.map_filter_def filter_map o_def o)
qed

lemma supersede_ok: "vouchers_ok V kr tenant site db \<Longrightarrow> vouchers_ok V kr tenant site (supersede tenant site gen db)"
  unfolding vouchers_ok_def supersede_keys by (simp add: supersede_def site_cards_def)

lemma card_ok_state [simp]: "card_ok V kr tenant site keys (c\<lparr>cd_state := state\<rparr>) \<longleftrightarrow> card_ok V kr tenant site keys c"
  by (simp add: card_ok_def card_code_def)

lemma set_card_state_ok:
  assumes "vouchers_ok V kr tenant site db"
  shows "vouchers_ok V kr tenant site (set_card_state vid state db)"
proof -
  let ?f = "\<lambda>c. if cd_id c = vid then c\<lparr>cd_state := state\<rparr> else c"
  have same: "cd_id (?f c) = cd_id c" "cd_hmac (?f c) = cd_hmac c" for c by simp_all
  have m: "map cd_hmac (map ?f cs) = map cd_hmac cs" "map cd_id (map ?f cs) = map cd_id cs" for cs by (simp_all add: same o_def)
  show ?thesis
    using assms unfolding vouchers_ok_def set_card_state_def site_cards_def
    by (simp del: map_map add: m) (auto split: if_splits)
qed

lemma minted_opens:
  assumes "kit_laws V" and "NewVoucherHMACKey V kr voucherDEKID tenant site no clear nonce = Some sealed"
  shows "open_generation V kr tenant site \<lparr>kg_id = i, kg_tenant = tenant, kg_site = site, kg_no = no, kg_sealed = sealed,
    kg_nonce_b64 = vk_b64 V nonce, kg_key_id = voucherDEKID, kg_superseded = b\<rparr> = Some clear"
  using assms by (auto simp: open_generation_def kit_laws_def NewVoucherHMACKey_def OpenVoucherHMACKey_def seal_with_def open_with_def split: option.splits if_splits)

lemma vouchers_ok_minted:
  assumes "vouchers_ok V kr tenant site db"
  shows "vouchers_ok V kr tenant site (invalidateVoucherKeyCache tenant site (db\<lparr>vs_gens := vs_gens db @ [g]\<rparr>))"
proof -
  let ?db = "invalidateVoucherKeyCache tenant site (db\<lparr>vs_gens := vs_gens db @ [g]\<rparr>)"
  have "set (site_keys V kr tenant site db) \<subseteq> set (site_keys V kr tenant site ?db)" by (auto simp: set_site_keys invalidateVoucherKeyCache_def)
  then show ?thesis
    using assms by (auto simp: vouchers_ok_def site_cards_def invalidateVoucherKeyCache_def intro: card_ok_mono)
qed

lemma ensure_ok:
  assumes "ensureVoucherKeyGeneration V kr tenant site E db = (db1, r)" and "vouchers_ok V kr tenant site db" and "kit_laws V"
  shows "vouchers_ok V kr tenant site db1 \<and> (\<forall>gen key. r = Some (gen, key) \<longrightarrow> key \<in> set (site_keys V kr tenant site db1))"
proof (cases "if me_read_fails E then [] else filter (\<lambda>g. \<not> kg_superseded g) (site_generations tenant site db)")
  case (Cons g gs)
  then have "filter (\<lambda>g. \<not> kg_superseded g) (site_generations tenant site db) = g # gs" by (simp split: if_splits)
  then have "g \<in> set (filter (\<lambda>g. \<not> kg_superseded g) (site_generations tenant site db))" by simp
  then have "g \<in> set (vs_gens db) \<and> kg_tenant g = tenant \<and> kg_site g = site" by (simp add: site_generations_def)
  then show ?thesis using assms Cons by (auto simp: ensureVoucherKeyGeneration_def set_site_keys)
next
  case Nil
  let ?no = "next_generation_no tenant site db"
  show ?thesis
  proof (cases "r = None")
    case True
    then have "db1 = db" using assms(1) Nil by (auto simp: ensureVoucherKeyGeneration_def Let_def split: if_splits option.splits)
    then show ?thesis using assms(2) True by simp
  next
    case False
    then obtain sealed where sealed: "NewVoucherHMACKey V kr voucherDEKID tenant site ?no (me_clear E) (me_nonce E) = Some sealed"
      using assms(1) Nil by (auto simp: ensureVoucherKeyGeneration_def Let_def split: if_splits option.splits)
    let ?g = "\<lparr>kg_id = me_id E, kg_tenant = tenant, kg_site = site, kg_no = ?no, kg_sealed = sealed,
      kg_nonce_b64 = vk_b64 V (me_nonce E), kg_key_id = voucherDEKID, kg_superseded = False\<rparr>"
    have db1: "db1 = invalidateVoucherKeyCache tenant site (db\<lparr>vs_gens := vs_gens db @ [?g]\<rparr>)" "r = Some (me_id E, me_clear E)"
      using assms(1) Nil False by (auto simp: ensureVoucherKeyGeneration_def Let_def sealed insert_generation_def split: if_splits)
    have "me_clear E \<in> set (site_keys V kr tenant site db1)"
      using minted_opens [OF assms(3) sealed] by (auto simp: set_site_keys db1 invalidateVoucherKeyCache_def)
    then show ?thesis using vouchers_ok_minted [OF assms(2)] db1 by simp
  qed
qed

lemma insert_codes_ok:
  assumes "insert_codes V kr tenant site q E gen key i codes db = Some db'" and "vouchers_ok V kr tenant site db" and "kit_laws V"
    and "key \<in> set (site_keys V kr tenant site db)" and "\<forall>c\<in>set codes. list_all prefix_char c \<and> c \<noteq> []" and "issue_env_ok E" and "i + length codes \<le> 500"
  shows "vouchers_ok V kr tenant site db'"
  using assms
proof (induction codes arbitrary: i db)
  case (Cons code codes)
  obtain vid nonce cipher where e: "ie_ids E i = Some vid" "ie_nonces E i = Some nonce"
    and seal: "SealVoucherCode V kr voucherDEKID tenant site vid gen code nonce = Some cipher"
    using Cons.prems(1) by (auto split: option.splits prod.splits)
  define c where "c = \<lparr>cd_id = vid, cd_tenant = tenant, cd_site = site, cd_batch = ie_batch E, cd_revision = iq_Revision q,
    cd_hmac = VoucherCodeHMAC V key tenant site code, cd_cipher = cipher, cd_nonce = nonce, cd_generation = gen,
    cd_last4 = Last4 code, cd_state = ''UNUSED'', cd_from = iq_From q, cd_until = iq_Until q\<rparr>"
  have new: "\<not> list_ex (\<lambda>d. cd_id d = cd_id c \<or> cd_hmac d = cd_hmac c) (vs_cards db)"
    and rest: "insert_codes V kr tenant site q E gen key (Suc i) codes (db\<lparr>vs_cards := vs_cards db @ [c]\<rparr>) = Some db'"
    using Cons.prems(1) by (auto simp: e seal insert_card_def c_def split: if_splits option.splits)
  have "card_code V kr c = Some code"
    using seal Cons.prems(3) by (auto simp: card_code_def c_def SealVoucherCode_def OpenVoucherCode_def kit_laws_def seal_with_def open_with_def split: option.splits if_splits)
  then have "card_ok V kr tenant site (site_keys V kr tenant site db) c"
    using Cons.prems(4-7) e(1) by (auto simp: card_ok_def c_def issue_env_ok_def list_all_iff)
  then have "vouchers_ok V kr tenant site (db\<lparr>vs_cards := vs_cards db @ [c]\<rparr>)"
    using Cons.prems(2) new by (auto simp: vouchers_ok_def site_cards_def list_ex_iff)
  then show ?case using Cons.IH [OF rest] Cons.prems(3-7) by simp
qed simp

lemma issue_ok:
  assumes "vouchers_ok V kr tenant site db" and "kit_laws V" and "issue_env_ok E"
  shows "vouchers_ok V kr tenant site (fst (issueVouchersIAMv2 V kr tenant site q E db))"
proof -
  have ens: "vouchers_ok V kr tenant site db1" "\<And>gen key. r = Some (gen, key) \<Longrightarrow> key \<in> set (site_keys V kr tenant site db1)"
    if "ensureVoucherKeyGeneration V kr tenant site (ie_mint E) db = (db1, r)" for db1 r
    using ensure_ok [OF that assms(1,2)] by auto
  have ins: "vouchers_ok V kr tenant site db2"
    if "ensureVoucherKeyGeneration V kr tenant site (ie_mint E) db = (db1, Some (gen, key))" "GenerateN (iq_Count q) opts rnd = Inr codes" "\<not> iq_Count q > 500"
      "insert_codes V kr tenant site q E gen key 0 codes db1 = Some db2" for db1 db2 gen key opts rnd codes
    by (rule insert_codes_ok [OF that(4)]) (use ens [OF that(1)] GenerateN_Inr [OF that(2)] that(3) assms(2,3) in auto)
  show ?thesis
    using assms(1) ens ins unfolding issueVouchersIAMv2_def
    by (auto split: option.split prod.split sum.split)
qed

lemma voucher_step_ok: "kit_laws V \<Longrightarrow> vouchers_ok V kr tenant site db \<Longrightarrow> vouchers_ok V kr tenant site (voucher_step V kr tenant site db op)"
proof (cases op)
  case (SignIn fails live typed now)
  assume "vouchers_ok V kr tenant site db"
  then show ?thesis
    using generationKeys_ok by (auto simp: SignIn authVoucher_unfold split: prod.splits option.splits)
qed (simp_all add: issue_ok supersede_ok set_card_state_ok)

interpretation vouchers: invariant_machine "voucher_step V kr tenant site" "\<lambda>db. kit_laws V \<longrightarrow> vouchers_ok V kr tenant site db" for V kr tenant site
  by unfold_locales (simp add: voucher_step_ok)

lemma empty_vouchers_ok: "vouchers_ok V kr tenant site empty_vouchers"
  by (simp add: vouchers_ok_def empty_vouchers_def site_cards_def)

subsection \<open>Resolution\<close>

definition card_usable :: "(string \<Rightarrow> bool) \<Rightarrow> go_time \<Rightarrow> voucher_card \<Rightarrow> bool" where
  "card_usable live now c \<longleftrightarrow> voucherRedeemable (cd_state c) (cd_from c) (cd_until c) now \<or> voucherRejoinable (cd_state c) (live (cd_id c))"

lemma Resolve_None: "ResolveVoucherByHMAC db live tenant site h now = None \<longleftrightarrow> (\<forall>c\<in>site_cards tenant site db. cd_hmac c \<noteq> h)"
  by (auto simp: ResolveVoucherByHMAC_def site_cards_def find_None_iff)

lemma Resolve_Some:
  assumes "ResolveVoucherByHMAC db live tenant site h now = Some (vid, ok)"
  shows "\<exists>c\<in>site_cards tenant site db. cd_hmac c = h \<and> vid = cd_id c \<and> ok = card_usable live now c"
proof -
  obtain c where c: "find (\<lambda>c. cd_tenant c = tenant \<and> cd_site c = site \<and> cd_hmac c = h) (vs_cards db) = Some c"
    and r: "vid = cd_id c" "ok = card_usable live now c" using assms by (auto simp: ResolveVoucherByHMAC_def card_usable_def)
  obtain i where "i < length (vs_cards db)" "c = vs_cards db ! i" "cd_tenant c = tenant \<and> cd_site c = site \<and> cd_hmac c = h"
    using c by (auto simp: find_Some_iff)
  then have "c \<in> site_cards tenant site db" "cd_hmac c = h" by (simp_all add: site_cards_def)
  then show ?thesis using r by blast
qed

lemma first_resolved_None:
  "first_resolved db live tenant site now hs = None \<Longrightarrow> \<forall>c\<in>site_cards tenant site db. cd_id c \<noteq> [] \<Longrightarrow> \<forall>h\<in>set hs. \<forall>c\<in>site_cards tenant site db. cd_hmac c \<noteq> h"
proof (induction hs)
  case (Cons h hs)
  have n: "ResolveVoucherByHMAC db live tenant site h now = None"
  proof (rule ccontr)
    assume "ResolveVoucherByHMAC db live tenant site h now \<noteq> None"
    then obtain vid ok where r: "ResolveVoucherByHMAC db live tenant site h now = Some (vid, ok)" by auto
    then have "vid \<noteq> []" using Resolve_Some [OF r] Cons.prems(2) by auto
    then show False using Cons.prems(1) r by simp
  qed
  then have "first_resolved db live tenant site now hs = None" using Cons.prems(1) by simp
  then show ?case using Cons.IH Cons.prems(2) n by (simp add: Resolve_None)
qed simp

lemma first_resolved_Some:
  "first_resolved db live tenant site now hs = Some (vid, ok) \<Longrightarrow>
    \<exists>h\<in>set hs. \<exists>c\<in>site_cards tenant site db. cd_hmac c = h \<and> vid = cd_id c \<and> ok = card_usable live now c"
proof (induction hs)
  case (Cons h hs)
  then show ?case using Resolve_Some [of db live tenant site h now] by (fastforce split: option.splits prod.splits if_splits)
qed simp

text \<open>The index of a code under a key of the site is the index of a card only if it is the card's own code.\<close>

definition indexes_apart :: "voucher_kit \<Rightarrow> keyring \<Rightarrow> string \<Rightarrow> string \<Rightarrow> voucher_db \<Rightarrow> string \<Rightarrow> bool" where
  "indexes_apart V kr tenant site db code \<longleftrightarrow>
    (\<forall>k\<in>set (site_keys V kr tenant site db). \<forall>c\<in>site_cards tenant site db. VoucherCodeHMAC V k tenant site code = cd_hmac c \<longrightarrow> card_code V kr c = Some code)"

lemma authVoucher_exact:
  assumes "vouchers_ok V kr tenant site db" and "indexes_apart V kr tenant site db code"
  shows "(\<exists>c\<in>site_cards tenant site db. card_code V kr c = Some code) \<and> \<not> fails \<Longrightarrow>
      \<exists>d\<in>site_cards tenant site db. card_code V kr d = Some code
        \<and> snd (authVoucher V kr tenant site fails live code now db) = (if card_usable live now d then Finalize (cd_id d) else NotRedeemable)"
    and "snd (authVoucher V kr tenant site fails live code now db) = Finalize vid \<Longrightarrow>
      \<exists>d\<in>site_cards tenant site db. cd_id d = vid \<and> card_code V kr d = Some code \<and> card_usable live now d"
proof -
  obtain db1 r where g: "generationKeys V kr tenant site fails now db = (db1, r)" by fastforce
  have g1: "vs_cards db1 = vs_cards db" "\<And>keys. r = Some keys \<Longrightarrow> keys = site_keys V kr tenant site db"
    "\<not> fails \<Longrightarrow> site_keys V kr tenant site db \<noteq> [] \<Longrightarrow> r \<noteq> None" using generationKeys_ok [OF g assms(1)] by auto
  have sc: "site_cards tenant site db1 = site_cards tenant site db" by (simp add: site_cards_def g1(1))
  let ?hs = "map (\<lambda>k. VoucherCodeHMAC V k tenant site code) (site_keys V kr tenant site db)"
  have ok: "\<forall>c\<in>site_cards tenant site db. card_ok V kr tenant site (site_keys V kr tenant site db) c" using assms(1) by (simp add: vouchers_ok_def)
  have found: "\<exists>d\<in>site_cards tenant site db. vid = cd_id d \<and> card_code V kr d = Some code \<and> u = card_usable live now d"
    if "first_resolved db1 live tenant site now ?hs = Some (vid, u)" for vid u
    using first_resolved_Some [OF that] assms(2) unfolding sc indexes_apart_def by fastforce
  show "\<exists>d\<in>site_cards tenant site db. cd_id d = vid \<and> card_code V kr d = Some code \<and> card_usable live now d"
    if "snd (authVoucher V kr tenant site fails live code now db) = Finalize vid"
    using that found g1(2) by (fastforce simp: authVoucher_unfold g split: if_splits option.splits prod.splits)
  show "\<exists>d\<in>site_cards tenant site db. card_code V kr d = Some code
        \<and> snd (authVoucher V kr tenant site fails live code now db) = (if card_usable live now d then Finalize (cd_id d) else NotRedeemable)"
    if c: "(\<exists>c\<in>site_cards tenant site db. card_code V kr c = Some code) \<and> \<not> fails"
  proof -
    obtain c k where c1: "c \<in> site_cards tenant site db" "code \<noteq> []" "k \<in> set (site_keys V kr tenant site db)" "cd_hmac c = VoucherCodeHMAC V k tenant site code"
      using c ok by (fastforce simp: card_ok_def)
    then have ne: "site_keys V kr tenant site db \<noteq> []" by auto
    then have r: "r = Some (site_keys V kr tenant site db)" using g1(2,3) c by (cases r) auto
    have "first_resolved db1 live tenant site now ?hs \<noteq> None"
      using first_resolved_None [of db1 live tenant site now ?hs] c1 ok unfolding sc by (fastforce simp: card_ok_def)
    then obtain vid u where f: "first_resolved db1 live tenant site now ?hs = Some (vid, u)" by fastforce
    then show ?thesis using found [OF f] c1(2) ne by (auto simp: authVoucher_unfold g r f)
  qed
qed

subsection \<open>A printed code stays a card\<close>

definition site_codes :: "voucher_kit \<Rightarrow> keyring \<Rightarrow> string \<Rightarrow> string \<Rightarrow> voucher_db \<Rightarrow> string set" where
  "site_codes V kr tenant site db = {code. \<exists>c\<in>site_cards tenant site db. card_code V kr c = Some code}"

lemma site_codes_cards: "set (vs_cards db) \<subseteq> set (vs_cards db') \<Longrightarrow> site_codes V kr tenant site db \<subseteq> site_codes V kr tenant site db'"
  by (auto simp: site_codes_def site_cards_def)

lemma insert_codes_cards:
  assumes "insert_codes V kr tenant site q E gen key i codes db = Some db'" and "kit_laws V"
  shows "set (vs_cards db) \<subseteq> set (vs_cards db') \<and> set codes \<subseteq> site_codes V kr tenant site db'"
  using assms(1)
proof (induction codes arbitrary: i db)
  case (Cons code codes)
  obtain vid nonce cipher where e: "ie_ids E i = Some vid" "ie_nonces E i = Some nonce"
    and seal: "SealVoucherCode V kr voucherDEKID tenant site vid gen code nonce = Some cipher"
    using Cons.prems by (auto split: option.splits prod.splits)
  define c where "c = \<lparr>cd_id = vid, cd_tenant = tenant, cd_site = site, cd_batch = ie_batch E, cd_revision = iq_Revision q,
    cd_hmac = VoucherCodeHMAC V key tenant site code, cd_cipher = cipher, cd_nonce = nonce, cd_generation = gen,
    cd_last4 = Last4 code, cd_state = ''UNUSED'', cd_from = iq_From q, cd_until = iq_Until q\<rparr>"
  have rest: "insert_codes V kr tenant site q E gen key (Suc i) codes (db\<lparr>vs_cards := vs_cards db @ [c]\<rparr>) = Some db'"
    using Cons.prems by (auto simp: e seal insert_card_def c_def split: if_splits option.splits)
  have "card_code V kr c = Some code"
    using seal assms(2) by (auto simp: card_code_def c_def SealVoucherCode_def OpenVoucherCode_def kit_laws_def seal_with_def open_with_def split: option.splits if_splits)
  moreover have "c \<in> site_cards tenant site db'" using Cons.IH [OF rest] by (auto simp: site_cards_def c_def)
  ultimately show ?case using Cons.IH [OF rest] by (auto simp: site_codes_def)
qed simp

lemma ensure_cards: "ensureVoucherKeyGeneration V kr tenant site E db = (db1, r) \<Longrightarrow> vs_cards db1 = vs_cards db"
  by (auto simp: ensureVoucherKeyGeneration_def Let_def insert_generation_def invalidateVoucherKeyCache_def split: list.splits if_splits option.splits)

lemma issue_cards:
  assumes "issueVouchersIAMv2 V kr tenant site q E db = (db', r)" and "kit_laws V"
  shows "set (vs_cards db) \<subseteq> set (vs_cards db') \<and> (\<forall>codes. r = Inr codes \<longrightarrow> set codes \<subseteq> site_codes V kr tenant site db')"
proof -
  have ins: "x \<in> set (vs_cards db2)" if "insert_codes V kr tenant site q E gen key i codes db1 = Some db2" "x \<in> set (vs_cards db1)" for gen key i codes db1 db2 x
    using insert_codes_cards [OF that(1) assms(2)] that(2) by blast
  have new: "x \<in> site_codes V kr tenant site db2" if "insert_codes V kr tenant site q E gen key i codes db1 = Some db2" "x \<in> set codes" for gen key i codes db1 db2 x
    using insert_codes_cards [OF that(1) assms(2)] that(2) by blast
  show ?thesis
    using assms(1) ensure_cards [of V kr tenant site "ie_mint E" db]
    unfolding issueVouchersIAMv2_def
    by (auto split: option.splits prod.splits sum.splits if_splits intro: ins new)
qed

lemma generationKeys_cards: "vs_cards (fst (generationKeys V kr tenant site fails now db)) = vs_cards db"
  by (simp add: generationKeys_def Let_def split: option.split prod.split)

lemma voucher_step_codes:
  assumes "kit_laws V"
  shows "site_codes V kr tenant site db \<subseteq> site_codes V kr tenant site (voucher_step V kr tenant site db op)"
proof (cases op)
  case (Issue q E)
  then show ?thesis
    using issue_cards [OF _ assms, of kr tenant site q E db] by (cases "issueVouchersIAMv2 V kr tenant site q E db") (auto intro!: site_codes_cards)
next
  case (SetState vid state)
  let ?f = "\<lambda>c. if cd_id c = vid then c\<lparr>cd_state := state\<rparr> else c"
  have f: "card_code V kr (?f c) = card_code V kr c" "c \<in> site_cards tenant site db \<Longrightarrow> ?f c \<in> site_cards tenant site (set_card_state vid state db)" for c
    by (auto simp: card_code_def site_cards_def set_card_state_def)
  have "code \<in> site_codes V kr tenant site (set_card_state vid state db)" if "code \<in> site_codes V kr tenant site db" for code
  proof -
    obtain c where "c \<in> site_cards tenant site db" "card_code V kr c = Some code" using \<open>code \<in> _\<close> by (auto simp: site_codes_def)
    then have "?f c \<in> site_cards tenant site (set_card_state vid state db) \<and> card_code V kr (?f c) = Some code" using f by simp
    then show ?thesis unfolding site_codes_def by blast
  qed
  then show ?thesis by (auto simp: SetState)
next
  case (SignIn fails live typed now)
  have "vs_cards (fst (authVoucher V kr tenant site fails live (portal_code typed) now db)) = vs_cards db"
    using generationKeys_cards [of V kr tenant site fails now db] by (auto simp: authVoucher_unfold split: prod.splits option.splits)
  then show ?thesis by (simp add: SignIn site_codes_cards)
qed (simp add: supersede_def site_codes_cards)

interpretation voucher_codes: monotone_machine "voucher_step V kr tenant site" "\<lambda>db. kit_laws V \<longrightarrow> vouchers_ok V kr tenant site db"
  "\<lambda>db db'. kit_laws V \<longrightarrow> site_codes V kr tenant site db \<subseteq> site_codes V kr tenant site db'" for V kr tenant site
  by unfold_locales (auto dest: voucher_step_codes)

subsection \<open>Typing a code\<close>

lemma typed_char:
  assumes "prefix_char c" and "lower_char x = lower_char c"
  shows "upper_char x = c"
proof -
  have low: "(of_char (lower_char y) :: nat) = (if is_upper y then of_char y + 32 else of_char y)" for y
    using of_char_lower [of y] by (simp add: lower_char_def)
  have up: "(of_char (upper_char y) :: nat) = (if is_lower y then of_char y - 32 else of_char y)" for y
    using of_char_upper [of y] by (simp add: upper_char_def)
  have lo: "is_lower y \<longleftrightarrow> 97 \<le> (of_char y :: nat) \<and> (of_char y :: nat) \<le> 122" for y by (simp add: is_lower_def less_eq_char_def)
  have "(of_char (lower_char x) :: nat) = of_char (lower_char c)" using assms(2) by simp
  then have "(of_char (upper_char x) :: nat) = of_char c"
    using prefix_char_range [OF assms(1)] unfolding low up is_upper_iff lo by (simp split: if_splits)
  then show ?thesis by (simp only: of_char_eq_iff)
qed

lemma typed_code:
  assumes "list_all prefix_char code" and "ToLower (TrimSpace typed) = ToLower code"
  shows "portal_code typed = code"
proof -
  have "ToUpper s = code" if "map lower_char s = map lower_char code" "list_all prefix_char code" for s
    using that by (induction s arbitrary: code) (auto simp: ToUpper_def Cons_eq_map_conv typed_char)
  then show ?thesis using assms by (simp add: portal_code_def TrimSpace_ToUpper ToLower_def)
qed

subsection \<open>The claim\<close>


text \<open>A sample: keys and codes in the clear, one card, a rotation after it.\<close>

definition sample_voucher_kit :: voucher_kit where
  "sample_voucher_kit = \<lparr>vk_hmac = (\<lambda>k m. k @ m), vk_seal = (\<lambda>k n p a. p), vk_open = (\<lambda>k n c a. Some c), vk_b64 = (\<lambda>n. n), vk_unb64 = Some\<rparr>"

definition sample_keyring :: keyring where
  "sample_keyring i = (if i = voucherDEKID then Some (replicate 32 CHR ''d'') else None)"

definition sample_issue :: issue_req where
  "sample_issue = \<lparr>iq_Revision = ''r'', iq_Count = 1, iq_IssuedBy = ''o'', iq_From = None, iq_Until = Some 100\<rparr>"

definition sample_issue_env :: issue_env where
  "sample_issue_env = \<lparr>ie_now = 0, ie_blocker = Some [], ie_format = Some \<lparr>vf_Mode = ''mixed'', vf_Length = 6\<rparr>, ie_keyring = True,
    ie_mint = \<lparr>me_read_fails = False, me_max_fails = False, me_clear = ''k1'', me_nonce = ''n'', me_insert_fails = False, me_id = ''g1''\<rparr>,
    ie_random = (\<lambda>a i. Some i), ie_begin_fails = False, ie_batch = ''b'', ie_ids = (\<lambda>i. Some ''v''), ie_nonces = (\<lambda>i. Some ''n''),
    ie_gate = (\<lambda>i. True), ie_commit_fails = False\<rparr>"

definition sample_cards :: voucher_db where
  "sample_cards = fst (issueVouchersIAMv2 sample_voucher_kit sample_keyring ''t'' ''s'' sample_issue sample_issue_env empty_vouchers)"

lemma sample_kit_laws: "kit_laws sample_voucher_kit"
  by (simp add: kit_laws_def sample_voucher_kit_def)

lemma sample_issued: "issueVouchersIAMv2 sample_voucher_kit sample_keyring ''t'' ''s'' sample_issue sample_issue_env empty_vouchers = (sample_cards, Inr [''ABCDEF''])"
proof -
  have "snd (issueVouchersIAMv2 sample_voucher_kit sample_keyring ''t'' ''s'' sample_issue sample_issue_env empty_vouchers) = Inr [''ABCDEF'']" by code_simp
  then show ?thesis by (metis sample_cards_def prod.collapse)
qed


subsection \<open>Two limits\<close>

text \<open>After a rotation the same code can be issued again under the new key: the older card is then shadowed by the newer one.\<close>

definition sample_reissue_env :: issue_env where
  "sample_reissue_env = sample_issue_env\<lparr>ie_ids := (\<lambda>i. Some ''w''), ie_mint := (ie_mint sample_issue_env)\<lparr>me_clear := ''k2'', me_id := ''g2''\<rparr>\<rparr>"

lemma older_card_shadowed:
  "let db = run (voucher_step sample_voucher_kit sample_keyring ''t'' ''s'') empty_vouchers
        [Issue sample_issue sample_issue_env, Supersede ''g1'', Issue sample_issue sample_reissue_env, SetState ''w'' ''REVOKED'']
   in map (\<lambda>c. (cd_id c, card_code sample_voucher_kit sample_keyring c, card_usable (\<lambda>_. False) 1 c)) (vs_cards db)
        = [(''v'', Some ''ABCDEF'', True), (''w'', Some ''ABCDEF'', False)]
      \<and> snd (authVoucher sample_voucher_kit sample_keyring ''t'' ''s'' False (\<lambda>_. False) (portal_code ''ABCDEF'') 1 db) = NotRedeemable"
proof -
  have e: "issue_env_ok sample_issue_env" "issue_env_ok sample_reissue_env"
    by (simp_all add: issue_env_ok_def sample_issue_env_def sample_reissue_env_def list_all_iff)
  show ?thesis unfolding run.simps voucher_step.simps if_P [OF e(1)] if_P [OF e(2)] by code_simp
qed

text \<open>Numbers are unique within a tenant but counted within a site: a second site of the tenant gets no key generation.\<close>

lemma second_site_has_no_generation:
  assumes "g \<in> set (vs_gens db)" and "kg_tenant g = tenant" and "kg_no g = 1" and "\<forall>h\<in>set (vs_gens db). kg_tenant h = tenant \<longrightarrow> kg_site h \<noteq> site"
  shows "ensureVoucherKeyGeneration V kr tenant site E db = (db, None)"
proof -
  have n: "filter (\<lambda>g. kg_tenant g = tenant \<and> kg_site g = site) (vs_gens db) = []" using assms(4) by (auto simp: filter_empty_conv)
  then show ?thesis
    using assms(1-3) by (auto simp: ensureVoucherKeyGeneration_def site_generations_def next_generation_no_def insert_generation_def list_ex_iff Let_def split: option.split)
qed

end
