(* ===== verification/Spec2Isabelle.thy ===== *)
theory Spec2Isabelle
  imports Module_Gate Enforce_Plan Netd_Admission Throttle Checkout_Grace Posting_System Fias_Link Commerce_Confirm Assignment_Store Ledger_Restore Voucher_SignIn
begin

text \<open>
  StayConnect is a hotel guest-access appliance and its central service. This library models the parts of
  its Go code that decide who may use the network, for how long, and what is charged, and proves what
  those decisions guarantee. The sources named below are under \<open>src/\<close>.

  \<^bold>\<open>The parts and how they meet.\<close> Central signs a licence; the appliance verifies it, binds it to its hardware
  and keeps it in a store that never goes back (\<open>license/\<close>). The licence manager of scd evaluates that
  store, installs and fetches licences and answers whether guests may sign in (\<open>internal/licstate\<close>); the module
  resolver puts its answers together with what is deployed, switched on and ready (\<open>internal/modules\<close>,
  \<open>internal/deployment\<close>). On the appliance acctd derives from the
  database which session gets which rate, builds a signed-by-hash plan and sends it to netd, which admits
  it, applies it to the kernel and, when plans stop, keeps sessions alive within bounds the last plan
  stated (\<open>data-plane/internal/enforce\<close>, \<open>shapeplan\<close>, \<open>data-plane/cmd/acctd\<close>, \<open>data-plane/cmd/netd\<close>). scd
  signs guests in behind a throttle (\<open>internal/throttle\<close>), lets a departing guest finish a bounded grace
  (\<open>internal/grace\<close>) and posts room charges: its posting engine decides and records, hands one
  record to pmsd, and pmsd's relay writes it on the single PMS link (\<open>internal/posting\<close>,
  \<open>internal/postinghandoff\<close>, \<open>internal/pmsd\<close>). The same link brings the guest records of the PMS in, which pmsd
  parses, identifies and stores (\<open>internal/pmsd\<close>). What a guest can get is a package: an operator publishes
  it with rules, grant tiers and a plan, the portal lists what a signed-in client may have, quotes it and
  confirms the quote into an entitlement (\<open>internal/iamv2\<close>), whose plan acctd then enforces. A package can also be handed out
  on printed vouchers, which scd issues and a guest types into the portal (\<open>internal/codegen\<close>, \<open>internal/iamv2\<close>, \<open>cmd/scd\<close>). Which hotel an appliance
  belongs to is a signed document it fetches, adopts and resolves at start (\<open>internal/assignment\<close>). Erasures of guest data
  are kept in a hash-chained ledger with a copy on other storage, which a restore of a backup replays (\<open>internal/ledger\<close>,
  \<open>cmd/scd/ledger_restore.go\<close>).

  \<^bold>\<open>Theories.\<close>
  \<^item> \<open>Prelude\<close>: Go's integers, times, strings and maps as the code uses them, the \<open>run\<close> of a machine over a
    list of events, and the locales for machines with an invariant, with an order no step goes back on
    and with versioned admission.
  \<^item> \<open>License_Doc\<close> (\<open>doc.go\<close>, \<open>modules.go\<close>, \<open>Evaluate\<close> of \<open>verify.go\<close>), \<open>License_Verify\<close> (\<open>sign.go\<close>, \<open>verify.go\<close>,
    \<open>binding.go\<close>), \<open>License_Store\<close> (\<open>store.go\<close>): the document and what it grants over time, the signature and
    the binding, and the store over an explicit disk on which every write may fail.
  \<^item> \<open>License_Gate\<close> (\<open>licstate.go\<close>: the manager as a machine that drives the store) and \<open>Module_Gate\<close> (\<open>ceiling.go\<close> with
    the flag sets it loads, \<open>resolver.go\<close>: the four gates of a module and the loop over dependencies).
  \<^item> \<open>Shape_Plan\<close> (the plan contract), \<open>Enforce_Plan\<close> (acctd's derivation of a plan and its continuity
    block), \<open>Netd_Continuity\<close> (the outage governor), \<open>Netd_Admission\<close> (netd's authorization, plan store and
    admission).
  \<^item> \<open>Throttle\<close> (the sign-in throttle over its bucket table) and \<open>Checkout_Grace\<close> (access after check-out).
  \<^item> \<open>Posting_Wire\<close> (flags, evidence gate, PS and PA records, guards, hand-off request), \<open>Posting_Engine\<close> (the
    lane: tables, triggers, transactions, recovery, review), \<open>Posting_Lane\<close> (what a reply and a refusal lead
    to), \<open>Financial_Relay\<close> (pmsd's relay and writer), \<open>Posting_System\<close> (engine and relay together).
  \<^item> \<open>Fias_Record\<close> (framing, the strict record parser, the typed projection, the event contract and the source
    fingerprint) and \<open>Fias_Link\<close> (the read loop of a link with its resynchronisations).
  \<^item> \<open>Commerce_Rules\<close> (\<open>commerce_domain.go\<close>, \<open>commerce_validate.go\<close>, \<open>commerce_grant.go\<close> and the small files they use),
    \<open>Commerce_Publish\<close> (\<open>commerce_admin.go\<close>, \<open>commerce_admin_repo_pg.go\<close>, \<open>commerce_data_allocation.go\<close>), \<open>Commerce_Flow\<close>
    (\<open>commerce_list.go\<close>, the quote of \<open>commerce_flow.go\<close>, \<open>acquisition.go\<close>), \<open>Commerce_Confirm\<close> (the confirm, the
    tables it writes and the grant functions of the schema).
  \<^item> \<open>Voucher_Codes\<close> (\<open>codegen.go\<close>, \<open>crockford.go\<close>, \<open>voucher_code_format.go\<close>), \<open>Voucher_SignIn\<close> (\<open>voucher_codec.go\<close>,
    \<open>voucher_issue_iamv2.go\<close>, \<open>voucher_keys.go\<close> and the resolution of a typed code).
  \<^item> \<open>Assignment_Trust\<close> (signed assignments, key registries and their adoption), \<open>Assignment_Store\<close> (the adopted document, its
    resolution into a tenant and site, and the polling agent of scd).
  \<^item> \<open>Ledger_Chain\<close> (\<open>entry.go\<close>, \<open>mac.go\<close>, \<open>assess.go\<close>), \<open>Ledger_Store\<close> (\<open>store.go\<close>: both copies over calls that may fail),
    \<open>Ledger_Restore\<close> (what a restore does with the ledger).

  \<^bold>\<open>How state and effects are modelled.\<close> A struct is a record, an enumeration a datatype, a Go error a value of
  a sum or option type. 64-bit arithmetic is \<open>int\<close> with the wrap-around written out (\<open>wrap64\<close>) wherever a
  product or sum can leave the range; instants are nanoseconds, and a subtraction saturates as \<open>time.Sub\<close>
  does. Strings are byte lists. A code section under a mutex, and a database transaction that commits,
  is one step; where the code releases a lock or waits, the step ends, and steps of concurrent calls
  interleave freely (\<open>lane_step\<close>, \<open>relay_step\<close>, \<open>system_step\<close>). Failures of writes, queries, commits and
  sockets, crashes and restarts are choices of the environment carried by the step.

  \<^bold>\<open>Parameters and what is relied on.\<close> Ed25519, SHA-256, HMAC, base64, JSON, the RFC 3339 format, Unicode
  normalisation, encryption, rounding to \<open>float64\<close> and the SQL behind reads are arguments of the definitions; theorems that need a law of
  one (injectivity of a hash on the inputs compared, correctness of a signature, a decoder that undoes its
  encoder) have it as a hypothesis, and a witness with a concrete function. The posting engine relies on
  pmsd through the locale \<open>honest_handoff\<close> (a record reported as not transmitted was not written);
  \<open>Financial_Relay\<close> interprets it, so the theorem at the end of this theory needs only that the replies the
  engine acted on are the relay's own.

  \<^bold>\<open>What is shown.\<close> Licences: only signed and valid documents are accepted, nothing accepted or revoked is
  forgotten under any write failures, no older version returns, time windows do not overflow, clocks
  turned back gain at most 48 hours, granted modules are the greatest closed set. The manager answers as
  the licence in force on disk says and is closed without one, a session needs a signed, unrevoked, bound licence that is not
  older than any accepted, a failed fetch changes nothing, and the modules that run are the largest closed set that passes all
  gates. Plans: hashes bind what
  they claim to bind, a built plan is admitted, one owner per device and address, no replay, an outage
  never extends a session or a byte budget and never revives a revoked one. Throttle and grace: limits and
  blocks hold over windows and clean-ups, grace is given once and bounded. Room charges: the record sent
  is the record built, the gate and the flags hold, a charge is written at most once per decision under any
  interleaving, a refused charge does not block the lane, and the relay's answers mean what they say. Records
  of the PMS: the parser accepts exactly its grammar, an admitted event is typed by its own fields and
  identified by its fingerprint, one resynchronisation runs at a time and reports exactly what it saw.
  Packages: publication and evaluation of rules agree, a catalogue stays publishable and what is on sale can
  be granted within the caps, the list and the quote agree, quotes, contexts and vouchers are used once, a
  subject has one live entitlement, and a free quote can be confirmed. Vouchers: a batch is generated in a bounded number of
  attempts, and a printed code signs in as long as its card may be used, through any rotation of keys. Assignment: a resolved owner comes from a
  document for this appliance signed by an unrevoked key of a trusted registry and no older than the adopted one, whatever is
  written into the files; outages keep it. Erasure ledger: a cut-off write loses nothing that was whole, a commit
  reaches both copies or leaves the file, no entry leaves the file, and a restore replays the genuine ledger as far as
  anything remembers it.

  \<^bold>\<open>Bounds.\<close> The recursion of every definition is structural or has a termination proof; there is no fuel. The
  relay remembers 4096 P#s per link and its statement is for that many commands; netd's revocation
  journal holds 4096 entries and its statement is for fewer further revocations. Both are the code's own
  constants.

  \<^bold>\<open>Not modelled.\<close> Processes that are mostly I/O around the above (HTTP handlers of scd, edged, portald,
  Central's API, the admin front-ends), the kernel walk of netd (tc, nft, DHCP, conntrack), SQL queries
  other than the functions and triggers that decide about postings and grants, the stay engine and
  stay grants, credential checks and sessions, payments, mail, SMS and social sign-in, TLS and PKI, enrolment, the transports to
  the second copy of the ledger and the loop that reconciles it with the database, backup and deployment scripts.
  A restart of pmsd in the middle of a command is covered by \<open>charged_at_most_once\<close> (any honest peer) and not
  by \<open>room_charge_end_to_end\<close>, whose relay runs without a restart.

  \<^bold>\<open>Order of extension.\<close> Grants to room guests (\<open>staygrant\<close>), sign-in and sessions of \<open>iamv2\<close>, settlements of room
  charges, the stay engine.
\<close>

text \<open>
  C1: The room charge path of both processes together. Whatever the posting engine, its database, the
  reviewers, the relay, the links and the PMS do and in whatever order, provided only that a
  response the engine acted on is the one the relay gave for that command, at most one record of a
  charge is ever put on a PMS socket (two after a reviewer's used-up authorization to retry), no P#
  is put there twice, and nothing is unless the engine is lit and transmission is deployed on pmsd.
\<close>

theorem room_charge_end_to_end:
  assumes "s = run (system_step cfg H Room iface) (new_system deployed) evs" and "genuine s"
  shows "length (charges_written s q) \<le>
      (if rv_terminal (db_review (la_db (sy_lane s)) q) = Some ''CONFIRM_NOT_POSTED_RETRY''
          \<and> rv_retry_no (db_review (la_db (sy_lane s)) q) = None then 2 else 1)
    \<and> distinct (map pnOfBody (records_written s))
    \<and> (records_written s \<noteq> [] \<longrightarrow> deployed \<and> \<not> Dark cfg)"
proof -
  have ok: "system_ok H s" unfolding assms(1) by (rule system.run_inv [OF new_system_ok])
  then have lane: "lane_ok (sy_lane s)" by (simp add: system_ok_def)
  note sub = written_counted [OF ok assms(2)]
  have "length (charges_written s q) \<le> length (charges_on_wire (sy_lane s) q)"
    unfolding charges_written_def charges_on_wire_def by (rule length_filter_sub [OF sub])
  moreover have "distinct (map pnOfBody (records_written s))"
  proof (rule distinct_sub)
    show "mset (map pnOfBody (records_written s)) \<subseteq># mset (map pnOfBody (la_wire (sy_lane s)))"
      using image_mset_subseteq_mono [OF sub, of pnOfBody] by simp
    show "distinct (map pnOfBody (la_wire (sy_lane s)))" using lane by (simp add: lane_ok_def)
  qed
  moreover have "deployed" if "records_written s \<noteq> []"
    using records_written_nonempty [OF ok that] by (simp add: assms(1) system_run_enabled) (simp add: new_system_def NewFinancialRelay_def)
  moreover have "records_written s = []" if "Dark cfg"
  proof -
    have "la_wire (sy_lane s) = []" using system_dark_wire [OF that] by (simp add: assms(1)) (simp add: new_system_def empty_lane_def)
    then show ?thesis using sub by simp
  qed
  ultimately show ?thesis using charges_bounded [OF lane, of q] by (auto simp: consumed_def split: if_splits)
qed

theorem room_charge_end_to_end_witness:
  "length (charges_written sample_system ''p1'') = 1 \<and> distinct (map pnOfBody (records_written sample_system))"
proof -
  have "length (charges_written sample_system ''p1'') = 1" by (simp add: sample_system_written)
  then show ?thesis using room_charge_end_to_end [OF sample_system_def sample_system_genuine, of "''p1''"] by blast
qed

end
